(* ===== verification/Prelude.thy ===== *)
theory Prelude
  imports Main "HOL-Library.Word" "HOL-Library.Char_ord" "HOL-Library.List_Lexorder"
begin

section \<open>Shared vocabulary: results, machine integers, byte codes, text\<close>

text \<open>
  What every component uses.  A Rust \<open>Result<T, E>\<close> is a value of \<open>'e + 'a\<close> (\<open>Inl\<close> the error),
  the \<open>?\<close> operator is \<open>and_then\<close>.  Fixed-width integers are words; the checked and saturating
  operations of the Rust standard library are defined once, for every width, with their meaning
  on natural numbers as simplification rules.  \<open>be_bytes\<close> is \<open>to_be_bytes\<close>.  A Rust \<open>String\<close> is
  a \<open>string\<close>, one \<open>char\<close> for each byte of its UTF-8 encoding.  A byte array \<open>[u8; 32]\<close> that
  the code only compares, orders and serialises (hashes, public keys) is a \<open>256 word\<close>, whose
  numeric order is the lexicographic order of the array.
\<close>

named_theorems result_simps \<open>inversion of the result combinators\<close>
named_theorems code_inj \<open>injectivity of byte encoders, with a remainder\<close>

type_synonym u8 = "8 word"
type_synonym u16 = "16 word"
type_synonym u32 = "32 word"
type_synonym u64 = "64 word"
type_synonym u128 = "128 word"
type_synonym hash = "256 word"
type_synonym address = "160 word"

subsection \<open>Results\<close>

definition and_then :: "'e + 'a \<Rightarrow> ('a \<Rightarrow> 'e + 'b) \<Rightarrow> 'e + 'b" where
  "and_then r k = (case r of Inl e \<Rightarrow> Inl e | Inr a \<Rightarrow> k a)"

definition ensure :: "bool \<Rightarrow> 'e \<Rightarrow> 'e + unit" where
  "ensure b e = (if b then Inr () else Inl e)"

definition ok_or :: "'a option \<Rightarrow> 'e \<Rightarrow> 'e + 'a" where
  "ok_or x e = (case x of None \<Rightarrow> Inl e | Some a \<Rightarrow> Inr a)"

definition is_ok :: "'e + 'a \<Rightarrow> bool" where
  "is_ok r \<longleftrightarrow> (case r of Inl _ \<Rightarrow> False | Inr _ \<Rightarrow> True)"

lemma and_then_simps [simp]:
  "and_then (Inl e) k = Inl e" "and_then (Inr a) k = k a"
  by (simp_all add: and_then_def)

lemma ensure_simps [simp]:
  "ensure True e = Inr ()" "ensure False e = Inl e"
  by (simp_all add: ensure_def)

lemma ok_or_simps [simp]:
  "ok_or None e = Inl e" "ok_or (Some a) e = Inr a"
  by (simp_all add: ok_or_def)

lemma is_ok_simps [simp]:
  "is_ok (Inl e) = False" "is_ok (Inr a) = True"
  by (simp_all add: is_ok_def)

lemma and_then_Inr [result_simps]:
  "and_then r k = Inr b \<longleftrightarrow> (\<exists>a. r = Inr a \<and> k a = Inr b)"
  by (cases r) auto

lemma and_then_Inl [result_simps]:
  "and_then r k = Inl e \<longleftrightarrow> r = Inl e \<or> (\<exists>a. r = Inr a \<and> k a = Inl e)"
  by (cases r) auto

lemma ensure_Inr [result_simps]: "ensure b e = Inr u \<longleftrightarrow> b"
  by (simp add: ensure_def)

lemma ensure_Inl [result_simps]: "ensure b e = Inl e' \<longleftrightarrow> \<not> b \<and> e' = e"
  by (auto simp: ensure_def)

lemma ok_or_Inr [result_simps]: "ok_or x e = Inr a \<longleftrightarrow> x = Some a"
  by (cases x) auto

lemma ok_or_Inl [result_simps]: "ok_or x e = Inl e' \<longleftrightarrow> x = None \<and> e' = e"
  by (cases x) auto

lemma is_ok_iff: "is_ok r \<longleftrightarrow> (\<exists>a. r = Inr a)"
  by (cases r) auto

text \<open>A \<open>for\<close> loop whose body may return early with an error.\<close>

fun for_each :: "('a \<Rightarrow> 'e + unit) \<Rightarrow> 'a list \<Rightarrow> 'e + unit" where
  "for_each f [] = Inr ()"
| "for_each f (x # xs) = and_then (f x) (\<lambda>_. for_each f xs)"

text \<open>A loop that pushes one value per element onto a vector.\<close>

fun try_map :: "('a \<Rightarrow> 'e + 'b) \<Rightarrow> 'a list \<Rightarrow> 'e + 'b list" where
  "try_map f [] = Inr []"
| "try_map f (x # xs) = and_then (f x) (\<lambda>y. and_then (try_map f xs) (\<lambda>ys. Inr (y # ys)))"

text \<open>A loop that updates a state, stopping at the first error.\<close>

fun try_fold :: "('a \<Rightarrow> 's \<Rightarrow> 'e + 's) \<Rightarrow> 'a list \<Rightarrow> 's \<Rightarrow> 'e + 's" where
  "try_fold f [] s = Inr s"
| "try_fold f (x # xs) s = and_then (f x s) (try_fold f xs)"

lemma for_each_Inr [result_simps]: "for_each f xs = Inr u \<longleftrightarrow> (\<forall>x \<in> set xs. f x = Inr ())"
  by (induction xs) (auto simp: result_simps)

lemma for_each_Inl:
  "for_each f xs = Inl e \<Longrightarrow> \<exists>x \<in> set xs. f x = Inl e"
  by (induction xs) (auto simp: result_simps)

lemma try_map_Inr:
  "try_map f xs = Inr ys \<longleftrightarrow> list_all2 (\<lambda>x y. f x = Inr y) xs ys"
  by (induction xs arbitrary: ys) (auto simp: result_simps list_all2_Cons1)

lemma try_map_length: "try_map f xs = Inr ys \<Longrightarrow> length ys = length xs"
  by (auto simp: try_map_Inr dest: list_all2_lengthD)

lemma try_map_all_Inr: "(\<And>a. a \<in> set as \<Longrightarrow> f a = Inr (g a)) \<Longrightarrow> try_map f as = Inr (map g as)"
  by (induction as) simp_all

lemma try_map_cong:
  "(\<And>x. x \<in> set xs \<Longrightarrow> f x = g x) \<Longrightarrow> try_map f xs = try_map g xs"
  by (induction xs) auto

lemma for_each_cong:
  "(\<And>x. x \<in> set xs \<Longrightarrow> f x = g x) \<Longrightarrow> for_each f xs = for_each g xs"
  by (induction xs) auto

lemma try_fold_append:
  "try_fold f (xs @ ys) s = and_then (try_fold f xs s) (try_fold f ys)"
proof (induction xs arbitrary: s)
  case (Cons x xs)
  then show ?case by (cases "f x s") auto
qed simp

lemma try_fold_invariant:
  assumes "try_fold f xs s = Inr t" and "I s"
    and "\<And>x s t. x \<in> set xs \<Longrightarrow> I s \<Longrightarrow> f x s = Inr t \<Longrightarrow> I t"
  shows "I t"
  using assms
proof (induction xs arbitrary: s)
  case (Cons x xs)
  from Cons.prems(1) obtain s' where s': "f x s = Inr s'" "try_fold f xs s' = Inr t"
    by (auto simp: and_then_Inr)
  have "I s'" using Cons.prems(2,3) s'(1) by (meson list.set_intros(1))
  then show ?case using Cons.IH [OF s'(2)] Cons.prems(3) by (meson list.set_intros(2))
qed simp

subsection \<open>Checked and saturating arithmetic\<close>

definition checked_add :: "'a::len word \<Rightarrow> 'a word \<Rightarrow> 'a word option" where
  "checked_add a b = (if unat a + unat b < 2 ^ LENGTH('a) then Some (a + b) else None)"

definition saturating_add :: "'a::len word \<Rightarrow> 'a word \<Rightarrow> 'a word" where
  "saturating_add a b = (if unat a + unat b < 2 ^ LENGTH('a) then a + b else - 1)"

definition saturating_sub :: "'a::len word \<Rightarrow> 'a word \<Rightarrow> 'a word" where
  "saturating_sub a b = (if b \<le> a then a - b else 0)"

definition saturating_mul :: "'a::len word \<Rightarrow> 'a word \<Rightarrow> 'a word" where
  "saturating_mul a b = (if unat a * unat b < 2 ^ LENGTH('a) then a * b else - 1)"

definition abs_diff :: "'a::len word \<Rightarrow> 'a word \<Rightarrow> 'a word" where
  "abs_diff a b = (if a < b then b - a else a - b)"

definition clamp :: "'a::linorder \<Rightarrow> 'a \<Rightarrow> 'a \<Rightarrow> 'a" where
  "clamp lo hi x = (if x < lo then lo else if hi < x then hi else x)"

lemma unat_word_less: "unat (a :: 'a::len word) < 2 ^ LENGTH('a)"
  by (rule unsigned_less)

lemma unat_max_word: "unat (- 1 :: 'a::len word) = 2 ^ LENGTH('a) - 1"
  by (simp add: unsigned_minus_1_eq_mask mask_eq_exp_minus_1)

lemma unat_le_max: "unat (a :: 'a::len word) \<le> 2 ^ LENGTH('a) - 1"
  using unat_word_less [of a] by linarith

lemma unat_saturating_add:
  "unat (saturating_add a b :: 'a::len word) = min (unat a + unat b) (2 ^ LENGTH('a) - 1)"
  by (auto simp: saturating_add_def unat_word_ariths unat_max_word min_def)

lemma unat_saturating_sub:
  "unat (saturating_sub a b :: 'a::len word) = unat a - unat b"
  by (auto simp: saturating_sub_def unat_sub word_le_nat_alt)

lemma unat_saturating_mul:
  "unat (saturating_mul a b :: 'a::len word) = min (unat a * unat b) (2 ^ LENGTH('a) - 1)"
proof (cases "unat a * unat b < 2 ^ LENGTH('a)")
  case False
  then have "2 ^ LENGTH('a) - 1 \<le> unat a * unat b" by linarith
  with False show ?thesis by (simp add: saturating_mul_def unat_max_word min_absorb2)
next
  case True
  then have "unat a * unat b \<le> 2 ^ LENGTH('a) - 1" by linarith
  with True show ?thesis by (simp add: saturating_mul_def unat_word_ariths min_absorb1)
qed

lemma unat_abs_diff:
  "unat (abs_diff a b) = (if unat a < unat b then unat b - unat a else unat a - unat b)"
  by (auto simp: abs_diff_def unat_sub word_less_nat_alt word_le_nat_alt)

lemma checked_add_Some:
  "checked_add a b = Some c \<longleftrightarrow> unat c = unat a + unat b"
proof
  assume "checked_add a b = Some c"
  then show "unat c = unat a + unat b"
    by (auto simp: checked_add_def unat_word_ariths split: if_splits)
next
  assume *: "unat c = unat a + unat b"
  with unat_word_less [of c] have "unat a + unat b < 2 ^ LENGTH('a)" by simp
  moreover from this * have "a + b = c"
    by (simp add: word_unat_eq_iff unat_word_ariths)
  ultimately show "checked_add a b = Some c" by (simp add: checked_add_def)
qed

lemma checked_add_None:
  "checked_add (a :: 'a::len word) b = None \<longleftrightarrow> 2 ^ LENGTH('a) \<le> unat a + unat b"
  by (auto simp: checked_add_def)

lemma clamp_le [simp]: "lo \<le> hi \<Longrightarrow> clamp lo hi x \<le> hi"
  by (auto simp: clamp_def)

lemma clamp_ge [simp]: "lo \<le> hi \<Longrightarrow> lo \<le> clamp lo hi x"
  by (auto simp: clamp_def)


subsection \<open>Big-endian bytes\<close>

text \<open>\<open>to_be_bytes\<close> of an unsigned integer, or \<open>as_bytes\<close> of a fixed array read as a word.\<close>

definition be_bytes :: "'a::len word \<Rightarrow> u8 list" where
  "be_bytes w = map (\<lambda>i. ucast (drop_bit (8 * i) w)) (rev [0..<LENGTH('a) div 8])"

primrec be_value :: "u8 list \<Rightarrow> nat" where
  "be_value [] = 0"
| "be_value (b # bs) = unat b * 256 ^ length bs + be_value bs"

lemma length_be_bytes [simp]: "length (be_bytes (w :: 'a::len word)) = LENGTH('a) div 8"
  by (simp add: be_bytes_def)

lemma be_value_bound: "be_value bs < 256 ^ length bs"
proof (induction bs)
  case (Cons b bs)
  have "unat b \<le> 255" using unat_le_max [of b] by simp
  then have "unat b * 256 ^ length bs \<le> 255 * 256 ^ length bs" by (rule mult_le_mono1)
  with Cons have "unat b * 256 ^ length bs + be_value bs < 255 * 256 ^ length bs + 256 ^ length bs"
    by (rule add_le_less_mono [rotated])
  then show ?case by simp
qed simp

lemma be_value_append: "be_value (xs @ ys) = be_value xs * 256 ^ length ys + be_value ys"
  by (induction xs) (simp_all add: power_add algebra_simps)

lemma be_value_inj:
  "length xs = length ys \<Longrightarrow> be_value xs = be_value ys \<Longrightarrow> xs = ys"
proof (induction xs ys rule: list_induct2)
  case (Cons x xs y ys)
  have "unat x = (unat x * 256 ^ length xs + be_value xs) div 256 ^ length xs"
    using be_value_bound [of xs] by simp
  also have "\<dots> = (unat y * 256 ^ length ys + be_value ys) div 256 ^ length ys"
    using Cons.prems Cons.hyps by simp
  also have "\<dots> = unat y" using be_value_bound [of ys] by simp
  finally have "x = y" by (simp add: word_unat_eq_iff)
  with Cons show ?case by simp
qed simp

lemma unat_byte_of:
  "unat (ucast (drop_bit (8 * n) (w :: 'a::len word)) :: u8) = unat w div 256 ^ n mod 256"
proof -
  have "unat (ucast (drop_bit (8 * n) w) :: u8) = take_bit 8 (drop_bit (8 * n) (unat w))"
    by (simp add: unsigned_ucast_eq unsigned_drop_bit_eq take_bit_nat_eq_self unat_word_less)
  then show ?thesis by (simp add: take_bit_eq_mod drop_bit_eq_div power_mult)
qed

lemma be_value_map_drop:
  "be_value (map (\<lambda>i. ucast (drop_bit (8 * i) (w :: 'a::len word)) :: u8) (rev [0..<n])) =
   unat w mod 256 ^ n"
proof (induction n)
  case (Suc n)
  have "unat w mod (256 ^ n * 256) = 256 ^ n * (unat w div 256 ^ n mod 256) + unat w mod 256 ^ n"
    by (rule mod_mult2_eq)
  with Suc show ?case by (simp add: unat_byte_of mult.commute [of 256 "256 ^ n"])
qed simp

lemma be_value_be_bytes:
  assumes "8 dvd LENGTH('a)"
  shows "be_value (be_bytes (w :: 'a::len word)) = unat w"
proof -
  have "(2 :: nat) ^ LENGTH('a) = 2 ^ (8 * (LENGTH('a) div 8))" using assms by simp
  also have "\<dots> = 256 ^ (LENGTH('a) div 8)" by (simp only: power_mult) simp
  finally show ?thesis
    using unat_word_less [of w] by (simp add: be_bytes_def be_value_map_drop)
qed

lemma be_bytes_inj:
  assumes "8 dvd LENGTH('a)"
  shows "be_bytes (v :: 'a::len word) = be_bytes w \<longleftrightarrow> v = w"
  using be_value_be_bytes [OF assms, of v] be_value_be_bytes [OF assms, of w]
  by (metis word_unat_eq_iff)

subsection \<open>Prefix codes\<close>

text \<open>
  \<open>prefix_code P f\<close>: on values that satisfy \<open>P\<close>, the bytes \<open>f x\<close> determine \<open>x\<close> and where the
  encoding stops, whatever follows.  A concatenation of such encoders is again one, which is how
  the injectivity of a whole message is proved: as rewrite rules in \<open>code_inj\<close>, field by field.
\<close>

definition prefix_code :: "('a \<Rightarrow> bool) \<Rightarrow> ('a \<Rightarrow> 'b list) \<Rightarrow> bool" where
  "prefix_code P f \<longleftrightarrow>
     (\<forall>x y r s. P x \<longrightarrow> P y \<longrightarrow> f x @ r = f y @ s \<longrightarrow> x = y \<and> r = s)"

lemma prefix_codeI:
  "(\<And>x y r s. P x \<Longrightarrow> P y \<Longrightarrow> f x @ r = f y @ s \<Longrightarrow> x = y \<and> r = s) \<Longrightarrow> prefix_code P f"
  unfolding prefix_code_def by (intro allI impI)

lemma prefix_code_eq:
  "prefix_code P f \<Longrightarrow> P x \<Longrightarrow> P y \<Longrightarrow> (f x @ r = f y @ s) \<longleftrightarrow> x = y \<and> r = s"
  unfolding prefix_code_def by blast

lemma prefix_code_fixed:
  assumes "\<And>x. P x \<Longrightarrow> length (f x) = n" and "\<And>x y. P x \<Longrightarrow> P y \<Longrightarrow> f x = f y \<Longrightarrow> x = y"
  shows "prefix_code P f"
proof (rule prefix_codeI)
  fix x y r s
  assume P: "P x" "P y" and eq: "f x @ r = f y @ s"
  from P assms(1) have "length (f x) = length (f y)" by simp
  with eq have "f x = f y" "r = s" by simp_all
  with P assms(2) show "x = y \<and> r = s" by blast
qed

lemma prefix_code_concat:
  assumes "prefix_code P f" and "length xs = length ys"
    and "\<forall>x \<in> set xs. P x" and "\<forall>y \<in> set ys. P y"
    and "concat (map f xs) @ r = concat (map f ys) @ s"
  shows "xs = ys \<and> r = s"
  using assms(2-)
proof (induction xs ys rule: list_induct2)
  case Nil
  then show ?case by simp
next
  case (Cons x xs y ys)
  have P: "P x" "P y" using Cons.prems(1,2) by simp_all
  have "f x @ concat (map f xs) @ r = f y @ concat (map f ys) @ s"
    using Cons.prems(3) by simp
  then have eq: "x = y \<and> concat (map f xs) @ r = concat (map f ys) @ s"
    by (rule prefix_code_eq [OF assms(1) P, THEN iffD1])
  have "xs = ys \<and> r = s"
    by (rule Cons.IH) (use Cons.prems(1,2) eq in simp_all)
  with eq show ?case by simp
qed

lemma be_bytes_append_u8 [code_inj]:
  "be_bytes (v :: u8) @ r = be_bytes w @ s \<longleftrightarrow> v = w \<and> r = s"
  by (simp add: append_eq_append_conv be_bytes_inj)

lemma be_bytes_append_u16 [code_inj]:
  "be_bytes (v :: u16) @ r = be_bytes w @ s \<longleftrightarrow> v = w \<and> r = s"
  by (simp add: append_eq_append_conv be_bytes_inj)

lemma be_bytes_append_u32 [code_inj]:
  "be_bytes (v :: u32) @ r = be_bytes w @ s \<longleftrightarrow> v = w \<and> r = s"
  by (simp add: append_eq_append_conv be_bytes_inj)

lemma be_bytes_append_u64 [code_inj]:
  "be_bytes (v :: u64) @ r = be_bytes w @ s \<longleftrightarrow> v = w \<and> r = s"
  by (simp add: append_eq_append_conv be_bytes_inj)

lemma be_bytes_append_u128 [code_inj]:
  "be_bytes (v :: u128) @ r = be_bytes w @ s \<longleftrightarrow> v = w \<and> r = s"
  by (simp add: append_eq_append_conv be_bytes_inj)

lemma be_bytes_append_hash [code_inj]:
  "be_bytes (v :: hash) @ r = be_bytes w @ s \<longleftrightarrow> v = w \<and> r = s"
  by (simp add: append_eq_append_conv be_bytes_inj)

lemma be_bytes_append_address [code_inj]:
  "be_bytes (v :: address) @ r = be_bytes w @ s \<longleftrightarrow> v = w \<and> r = s"
  by (simp add: append_eq_append_conv be_bytes_inj)

lemma be_bytes_eq [simp]:
  "be_bytes (v1 :: u64) = be_bytes w1 \<longleftrightarrow> v1 = w1"
  "be_bytes (v2 :: u128) = be_bytes w2 \<longleftrightarrow> v2 = w2"
  "be_bytes (v3 :: hash) = be_bytes w3 \<longleftrightarrow> v3 = w3"
  "be_bytes (v4 :: address) = be_bytes w4 \<longleftrightarrow> v4 = w4"
  by (simp_all add: be_bytes_inj)

subsection \<open>Text\<close>

text \<open>The bytes of a \<open>String\<close>, and the standard library's decimal and hexadecimal formatting.\<close>

definition str_bytes :: "string \<Rightarrow> u8 list" where
  "str_bytes s = map of_char s"

definition bytes_str :: "u8 list \<Rightarrow> string" where
  "bytes_str bs = map (\<lambda>b. char_of (unat b)) bs"

definition digit_char :: "nat \<Rightarrow> char" where
  "digit_char d = (if d < 10 then char_of (48 + d) else char_of (87 + d))"

fun show_nat :: "nat \<Rightarrow> string" where
  "show_nat n = (if n < 10 then [digit_char n] else show_nat (n div 10) @ [digit_char (n mod 10)])"

declare show_nat.simps [simp del]

definition show_hex8 :: "u32 \<Rightarrow> string" where
  "show_hex8 w = map (\<lambda>i. digit_char (unat (take_bit 4 (drop_bit (4 * i) w)))) (rev [0..<8])"

lemma length_str_bytes [simp]: "length (str_bytes s) = length s"
  by (simp add: str_bytes_def)

lemma str_bytes_inj [simp]: "str_bytes s = str_bytes t \<longleftrightarrow> s = t"
proof -
  have "inj (of_char :: char \<Rightarrow> u8)"
  proof (rule injI)
    fix c d :: char
    assume "(of_char c :: u8) = of_char d"
    then have "(of_nat (of_char c) :: u8) = of_nat (of_char d)" by (simp only: of_nat_of_char)
    then have "unat (of_nat (of_char c) :: u8) = unat (of_nat (of_char d) :: u8)" by simp
    then have "(of_char c :: nat) = of_char d" by (simp add: unat_of_nat)
    then show "c = d" by simp
  qed
  then show ?thesis by (simp add: str_bytes_def inj_map_eq_map)
qed

lemma bytes_str_str_bytes [simp]: "bytes_str (str_bytes s) = s"
proof (induction s)
  case (Cons c s)
  have "(of_char c :: u8) = of_nat (of_char c)" by (simp only: of_nat_of_char)
  then have "unat (of_char c :: u8) = of_char c" by (simp only: unat_of_nat) simp
  with Cons show ?case by (simp add: bytes_str_def str_bytes_def)
qed (simp add: bytes_str_def str_bytes_def)

lemma digit_char_decimal: "d < 10 \<Longrightarrow> of_char (digit_char d) = 48 + d"
  by (simp add: digit_char_def)

lemma digit_char_inj: "d < 10 \<Longrightarrow> e < 10 \<Longrightarrow> digit_char d = digit_char e \<longleftrightarrow> d = e"
  by (metis digit_char_decimal add_left_cancel)

lemma show_nat_nonempty [simp]: "show_nat n \<noteq> []"
  by (subst show_nat.simps) simp

lemma show_nat_digits: "c \<in> set (show_nat n) \<Longrightarrow> 48 \<le> (of_char c :: nat) \<and> of_char c \<le> (57 :: nat)"
proof (induction n rule: show_nat.induct)
  case (1 n)
  show ?case
  proof (cases "n < 10")
    case True
    with 1 show ?thesis by (subst (asm) (2) show_nat.simps) (auto simp: digit_char_decimal)
  next
    case False
    with 1 show ?thesis
      by (subst (asm) (2) show_nat.simps) (auto simp: digit_char_decimal)
  qed
qed

text \<open>Reading a decimal back.\<close>

definition read_nat :: "string \<Rightarrow> nat" where
  "read_nat s = foldl (\<lambda>a c. 10 * a + (of_char c - 48)) 0 s"

lemma read_show_nat: "read_nat (show_nat n) = n"
proof (induction n rule: show_nat.induct)
  case (1 n)
  show ?case
  proof (cases "n < 10")
    case True
    then show ?thesis by (subst show_nat.simps) (simp add: read_nat_def digit_char_decimal)
  next
    case False
    with 1 show ?thesis by (subst show_nat.simps) (simp add: read_nat_def digit_char_decimal)
  qed
qed

lemma show_nat_inj [simp]: "show_nat m = show_nat n \<longleftrightarrow> m = n"
  by (metis read_show_nat)

text \<open>Texts split at their first separator.\<close>

lemma split_at_separator:
  assumes "c \<notin> set xs" "c \<notin> set ys"
  shows "xs @ c # us = ys @ c # vs \<longleftrightarrow> xs = ys \<and> us = vs"
  using assms
proof (induction xs arbitrary: ys)
  case Nil
  then show ?case by (cases ys) auto
next
  case (Cons x xs)
  then show ?case by (cases ys) auto
qed

end
