(* ===== verification/Objects.thy ===== *)
theory Objects
  imports Prelude
begin

section \<open>Identifiers, objects, errors, domains\<close>

text \<open>
  The data of \<open>compute/primitives.rs\<close>, \<open>compute/object.rs\<close>, \<open>compute/error.rs\<close> and
  \<open>compute/domain.rs\<close>, the agent queue of \<open>compute/agent.rs\<close>, and the record \<open>externals\<close> of
  the third-party functions the compute module calls (Keccak, ed25519, hex), which are
  parameters of the model.  The fields of \<open>ObjectOutput\<close> carry the prefix \<open>o_\<close>.
\<close>

subsection \<open>Third-party functions\<close>

text \<open>
  \<open>keccak256\<close> returns 32 bytes (a \<open>hash\<close>).  \<open>vk_ok\<close> is whether \<open>VerifyingKey::from_bytes\<close>
  accepts a key, \<open>sig_ok\<close> whether \<open>Signature::from_slice\<close> accepts the bytes, and \<open>ed_verify\<close>
  (key, message, signature) whether verification succeeds.  \<open>hex_decode\<close> returns the error text
  or the bytes.
\<close>

record externals =
  keccak256 :: "u8 list \<Rightarrow> hash"
  vk_ok :: "u8 list \<Rightarrow> bool"
  sig_ok :: "u8 list \<Rightarrow> bool"
  ed_verify :: "u8 list \<Rightarrow> u8 list \<Rightarrow> u8 list \<Rightarrow> bool"
  hex_encode :: "u8 list \<Rightarrow> string"
  hex_decode :: "string \<Rightarrow> string + u8 list"

subsection \<open>Identifiers\<close>

datatype DomainId = DomainId (domain_raw: u32)
datatype ObjectId = ObjectId (object_raw: hash)
datatype OutputId = OutputId (output_raw: hash)
datatype TxId = TxId (txid_raw: hash)
datatype Version = Version (version_raw: u64)

definition GAME_DOMAIN :: DomainId where
  "GAME_DOMAIN = DomainId 0x6A7A7A00"

definition object_id_from_seed :: "externals \<Rightarrow> u8 list \<Rightarrow> ObjectId" where
  "object_id_from_seed x seed = ObjectId (keccak256 x seed)"

definition tx_id_from_bytes :: "externals \<Rightarrow> u8 list \<Rightarrow> TxId" where
  "tx_id_from_bytes x bytes = TxId (keccak256 x bytes)"

text \<open>The derived \<open>Ord\<close> of the newtypes compares the wrapped value.\<close>

instantiation Version :: linorder
begin

definition less_eq_Version :: "Version \<Rightarrow> Version \<Rightarrow> bool" where
  "less_eq_Version a b \<longleftrightarrow> version_raw a \<le> version_raw b"

definition less_Version :: "Version \<Rightarrow> Version \<Rightarrow> bool" where
  "less_Version a b \<longleftrightarrow> version_raw a < version_raw b"

instance
  by standard (auto simp: less_eq_Version_def less_Version_def intro: Version.expand)

end

instantiation OutputId :: linorder
begin

definition less_eq_OutputId :: "OutputId \<Rightarrow> OutputId \<Rightarrow> bool" where
  "less_eq_OutputId a b \<longleftrightarrow> output_raw a \<le> output_raw b"

definition less_OutputId :: "OutputId \<Rightarrow> OutputId \<Rightarrow> bool" where
  "less_OutputId a b \<longleftrightarrow> output_raw a < output_raw b"

instance
  by standard (auto simp: less_eq_OutputId_def less_OutputId_def intro: OutputId.expand)

end

instantiation ObjectId :: linorder
begin

definition less_eq_ObjectId :: "ObjectId \<Rightarrow> ObjectId \<Rightarrow> bool" where
  "less_eq_ObjectId a b \<longleftrightarrow> object_raw a \<le> object_raw b"

definition less_ObjectId :: "ObjectId \<Rightarrow> ObjectId \<Rightarrow> bool" where
  "less_ObjectId a b \<longleftrightarrow> object_raw a < object_raw b"

instance
  by standard (auto simp: less_eq_ObjectId_def less_ObjectId_def intro: ObjectId.expand)

end

subsection \<open>Errors\<close>

text \<open>Every variant of \<open>ComputeError\<close>, with its payload; \<open>DomainMismatch\<close> and
  \<open>ReadVersionMismatch\<close> carry the expected value first.\<close>

datatype ComputeError =
    ObjectNotFound hash
  | DomainMismatch u32 u32
  | DomainNotRegistered u32
  | DomainNotPublic u32
  | InvalidObjectKind
  | ReadSetValidationFailed
  | ReadVersionMismatch u64 u64
  | OwnershipCheckFailed
  | AuthorizationDenied
  | InvalidSignature
  | TxIdMismatch
  | SignatureOwnerMismatch
  | UnsupportedSignatureScheme
  | ResourcePolicyViolation
  | DuplicateOutputId
  | InvalidPredecessor
  | InvalidVersionProgression
  | InvalidOperation string

subsection \<open>Objects\<close>

datatype ResourceValue =
    Amount u128
  | Data "u8 list"
  | Ref ObjectId
  | RefBatch "ObjectId list"

type_synonym ResourceMap = "(hash \<times> ResourceValue) list"

type_synonym Metadata = "(string \<times> u8 list) list"

record Script =
  vm :: u8
  code :: "u8 list"

definition Script_default :: Script where
  "Script_default = \<lparr>vm = 1, code = []\<rparr>"

datatype Ownership =
    OwnerAddress address
  | OwnerProgram address
  | OwnerShared
  | OwnerEd25519 hash

datatype ObjectKind = Asset | Code | State | Capability | Agent | Anchor | Ticket

record ObjectOutput =
  o_output_id :: OutputId
  o_object_id :: ObjectId
  o_version :: Version
  o_domain_id :: DomainId
  o_kind :: ObjectKind
  o_owner :: Ownership
  o_predecessor :: "OutputId option"
  o_state :: "u8 list"
  o_state_root :: "hash option"
  o_resources :: ResourceMap
  o_lock :: Script
  o_logic :: "Script option"
  o_created_at :: u64
  o_ttl :: "u64 option"
  o_rent_reserve :: "u128 option"
  o_flags :: u32
  o_extensions :: Metadata
  o_spent :: bool

definition is_live :: "ObjectOutput \<Rightarrow> bool" where
  "is_live out \<longleftrightarrow> \<not> o_spent out"

subsection \<open>Domain registry\<close>

record DomainConfig =
  dc_domain_id :: DomainId
  dc_name :: string
  dc_vm :: string
  dc_public :: bool

type_synonym domain_registry = "DomainId \<rightharpoonup> DomainConfig"

definition get_domain :: "domain_registry \<Rightarrow> DomainId \<Rightarrow> DomainConfig option" where
  "get_domain r d = r d"

definition upsert_domain :: "DomainConfig \<Rightarrow> domain_registry \<Rightarrow> domain_registry" where
  "upsert_domain c r = r(dc_domain_id c \<mapsto> c)"

lemma get_domain_upsert:
  "get_domain (upsert_domain c r) d = (if d = dc_domain_id c then Some c else get_domain r d)"
  by (simp add: get_domain_def upsert_domain_def)

subsection \<open>Agent queue\<close>

record AgentTask =
  at_agent_id :: ObjectId
  at_domain_id :: DomainId
  at_execute_at :: u64

definition agent_schedule :: "AgentTask \<Rightarrow> AgentTask list \<Rightarrow> AgentTask list" where
  "agent_schedule t q = q @ [t]"

definition agent_pop_next :: "AgentTask list \<Rightarrow> AgentTask option \<times> AgentTask list" where
  "agent_pop_next q = (case q of [] \<Rightarrow> (None, []) | t # ts \<Rightarrow> (Some t, ts))"

definition agent_len :: "AgentTask list \<Rightarrow> nat" where
  "agent_len q = length q"

definition agent_is_empty :: "AgentTask list \<Rightarrow> bool" where
  "agent_is_empty q \<longleftrightarrow> agent_len q = 0"

text \<open>\<open>n\<close> pops in a row.\<close>

fun agent_pops :: "nat \<Rightarrow> AgentTask list \<Rightarrow> AgentTask option list \<times> AgentTask list" where
  "agent_pops 0 q = ([], q)"
| "agent_pops (Suc n) q =
     (let (t, q') = agent_pop_next q; (ts, q'') = agent_pops n q' in (t # ts, q''))"

lemma agent_fifo:
  "agent_pops (length ts) (fold agent_schedule ts []) = (map Some ts, [])"
proof -
  have "fold agent_schedule ts q = q @ ts" for q
    by (induction ts arbitrary: q) (simp_all add: agent_schedule_def)
  moreover have "agent_pops (length ts) ts = (map Some ts, [])"
    by (induction ts) (simp_all add: agent_pop_next_def)
  ultimately show ?thesis by simp
qed

end
