(* ===== verification/Tx.thy ===== *)
theory Tx
  imports Objects
begin

section \<open>The compute transaction\<close>

text \<open>
  \<open>compute/tx.rs\<close>: the transaction record, its structural check \<open>basic_sanity_check\<close>, the
  encoder of the bytes that are signed (\<open>signing_preimage\<close>) and the transaction id derived from
  them.  The Rust encoders append to a vector; here each returns what it appends.  The lemmas
  show that every encoder is a prefix code and, from that, what a signature commits to.
  The fields of \<open>OutputProposal\<close> carry the prefix \<open>p_\<close>, those of a read reference \<open>rr_\<close>.
\<close>

subsection \<open>Data\<close>

record ObjectReadRef =
  rr_output_id :: OutputId
  rr_domain_id :: DomainId
  rr_expected_version :: Version

record OutputProposal =
  p_output_id :: OutputId
  p_object_id :: ObjectId
  p_domain_id :: DomainId
  p_kind :: ObjectKind
  p_owner :: Ownership
  p_predecessor :: "OutputId option"
  p_version :: Version
  p_state :: "u8 list"
  p_state_root :: "hash option"
  p_resources :: ResourceMap
  p_lock :: Script
  p_logic :: "Script option"
  p_created_at :: u64
  p_ttl :: "u64 option"
  p_rent_reserve :: "u128 option"
  p_flags :: u32
  p_extensions :: Metadata

datatype Command =
  CmdTransfer | CmdInvoke | CmdMint | CmdBurn | CmdAnchor | CmdReveal | CmdAgentTick

datatype SignatureScheme = SchemeEd25519

record TxSignature =
  scheme :: SignatureScheme
  sig_bytes :: "u8 list"
  public_key :: "u8 list option"

record TxWitness =
  signatures :: "TxSignature list"
  threshold :: "u16 option"

record ComputeTx =
  tx_id :: TxId
  tx_domain_id :: DomainId
  tx_command :: Command
  input_set :: "OutputId list"
  read_set :: "ObjectReadRef list"
  output_proposals :: "OutputProposal list"
  tx_fee :: u64
  tx_nonce :: "u64 option"
  tx_metadata :: Metadata
  payload :: "u8 list"
  deadline_unix_secs :: "u64 option"
  chain_id :: "u64 option"
  network_id :: "u32 option"
  witness :: TxWitness
  max_fee :: u64
  priority_fee :: u64
  gas_limit :: u64

definition MAX_GAS_LIMIT_PER_TX :: u64 where
  "MAX_GAS_LIMIT_PER_TX = 5000000"

subsection \<open>Structural check\<close>

text \<open>\<open>resources.windows(2).all(..)\<close>: neighbouring asset ids strictly increase.\<close>

definition resource_map_is_canonical :: "ResourceMap \<Rightarrow> bool" where
  "resource_map_is_canonical rs \<longleftrightarrow> successively (\<lambda>a b. fst a < fst b) rs"

definition basic_sanity_check :: "ComputeTx \<Rightarrow> bool" where
  "basic_sanity_check tx =
     (let needs_inputs = tx_command tx \<in> {CmdTransfer, CmdInvoke, CmdBurn};
          needs_outputs = tx_command tx \<noteq> CmdBurn;
          payload_only_invoke = tx_command tx = CmdInvoke \<and> input_set tx = [] \<and> payload tx \<noteq> [];
          fee_mode = 0 < max_fee tx \<or> 0 < priority_fee tx
      in if needs_inputs \<and> input_set tx = [] \<and> \<not> payload_only_invoke then False
         else if needs_outputs \<and> output_proposals tx = [] \<and> \<not> payload_only_invoke then False
         else if \<not> (\<forall>p \<in> set (output_proposals tx). resource_map_is_canonical (p_resources p)) then False
         else if fee_mode \<and> gas_limit tx = 0 then False
         else if \<not> fee_mode \<and> 0 < gas_limit tx \<and> MAX_GAS_LIMIT_PER_TX < gas_limit tx then False
         else True)"

subsection \<open>Signing bytes\<close>

definition RABBITCHAIN_COMPUTE_SIGNING_DOMAIN_V1 :: "u8 list" where
  "RABBITCHAIN_COMPUTE_SIGNING_DOMAIN_V1 = str_bytes ''RABBITCHAIN-COMPUTE-SIGNING-V1''"

fun command_tag :: "Command \<Rightarrow> u8" where
  "command_tag CmdTransfer = 1"
| "command_tag CmdInvoke = 2"
| "command_tag CmdMint = 3"
| "command_tag CmdBurn = 4"
| "command_tag CmdAnchor = 5"
| "command_tag CmdReveal = 6"
| "command_tag CmdAgentTick = 7"

fun object_kind_tag :: "ObjectKind \<Rightarrow> u8" where
  "object_kind_tag Asset = 1"
| "object_kind_tag Code = 2"
| "object_kind_tag State = 3"
| "object_kind_tag Capability = 4"
| "object_kind_tag Agent = 5"
| "object_kind_tag Anchor = 6"
| "object_kind_tag Ticket = 7"

text \<open>\<open>len as u32\<close> keeps the low 32 bits of the length.\<close>

definition encode_len :: "nat \<Rightarrow> u8 list" where
  "encode_len n = be_bytes (word_of_nat n :: u32)"

definition encode_bytes :: "u8 list \<Rightarrow> u8 list" where
  "encode_bytes bs = encode_len (length bs) @ bs"

text \<open>The shape every optional field has in the preimage: a presence byte, then the value.\<close>

definition encode_option :: "('a \<Rightarrow> u8 list) \<Rightarrow> 'a option \<Rightarrow> u8 list" where
  "encode_option f x = (case x of Some a \<Rightarrow> 1 # f a | None \<Rightarrow> [0])"

text \<open>The shape every vector has: its length, then its elements.\<close>

definition encode_list :: "('a \<Rightarrow> u8 list) \<Rightarrow> 'a list \<Rightarrow> u8 list" where
  "encode_list f xs = encode_len (length xs) @ concat (map f xs)"

definition encode_output_ids :: "OutputId list \<Rightarrow> u8 list" where
  "encode_output_ids ids = encode_list (\<lambda>i. be_bytes (output_raw i)) ids"

definition encode_read_ref :: "ObjectReadRef \<Rightarrow> u8 list" where
  "encode_read_ref rr =
     be_bytes (output_raw (rr_output_id rr)) @ be_bytes (domain_raw (rr_domain_id rr)) @
     be_bytes (version_raw (rr_expected_version rr))"

definition encode_read_set :: "ObjectReadRef list \<Rightarrow> u8 list" where
  "encode_read_set reads = encode_list encode_read_ref reads"

definition encode_script :: "Script \<Rightarrow> u8 list" where
  "encode_script s = vm s # encode_bytes (code s)"

fun encode_resource_value :: "ResourceValue \<Rightarrow> u8 list" where
  "encode_resource_value (Amount v) = 1 # be_bytes v"
| "encode_resource_value (Data bs) = 2 # encode_bytes bs"
| "encode_resource_value (Ref i) = 3 # be_bytes (object_raw i)"
| "encode_resource_value (RefBatch ids) = 4 # encode_list (\<lambda>i. be_bytes (object_raw i)) ids"

definition encode_resource_map :: "ResourceMap \<Rightarrow> u8 list" where
  "encode_resource_map rs =
     encode_list (\<lambda>(a, v). be_bytes a @ encode_resource_value v) rs"

definition encode_metadata :: "Metadata \<Rightarrow> u8 list" where
  "encode_metadata md = encode_list (\<lambda>(k, v). encode_bytes (str_bytes k) @ encode_bytes v) md"

fun encode_ownership :: "Ownership \<Rightarrow> u8 list" where
  "encode_ownership (OwnerAddress a) = 1 # be_bytes a"
| "encode_ownership (OwnerProgram a) = 2 # be_bytes a"
| "encode_ownership OwnerShared = [3]"
| "encode_ownership (OwnerEd25519 k) = 4 # be_bytes k"

definition encode_output_proposal :: "OutputProposal \<Rightarrow> u8 list" where
  "encode_output_proposal p =
     be_bytes (output_raw (p_output_id p)) @ be_bytes (object_raw (p_object_id p)) @
     be_bytes (domain_raw (p_domain_id p)) @ [object_kind_tag (p_kind p)] @
     encode_ownership (p_owner p) @
     encode_option (\<lambda>i. be_bytes (output_raw i)) (p_predecessor p) @
     be_bytes (version_raw (p_version p)) @ encode_bytes (p_state p) @
     encode_option be_bytes (p_state_root p) @
     encode_resource_map (p_resources p) @ encode_script (p_lock p) @
     encode_option encode_script (p_logic p) @
     be_bytes (p_created_at p) @ encode_option be_bytes (p_ttl p) @
     encode_option be_bytes (p_rent_reserve p) @ be_bytes (p_flags p) @
     encode_metadata (p_extensions p)"

definition encode_output_proposals :: "OutputProposal list \<Rightarrow> u8 list" where
  "encode_output_proposals ps = encode_list encode_output_proposal ps"

definition required_threshold :: "ComputeTx \<Rightarrow> u16" where
  "required_threshold tx = (case threshold (witness tx) of None \<Rightarrow> 1 | Some t \<Rightarrow> t)"

definition signing_preimage :: "ComputeTx \<Rightarrow> u8 list" where
  "signing_preimage tx =
     RABBITCHAIN_COMPUTE_SIGNING_DOMAIN_V1 @
     be_bytes (domain_raw (tx_domain_id tx)) @ [command_tag (tx_command tx)] @
     encode_output_ids (input_set tx) @ encode_read_set (read_set tx) @
     encode_output_proposals (output_proposals tx) @ be_bytes (tx_fee tx) @
     encode_option be_bytes (tx_nonce tx) @ encode_metadata (tx_metadata tx) @
     encode_bytes (payload tx) @ encode_option be_bytes (deadline_unix_secs tx) @
     encode_option be_bytes (chain_id tx) @ encode_option be_bytes (network_id tx) @
     be_bytes (required_threshold tx) @ [1] @
     be_bytes (max_fee tx) @ be_bytes (priority_fee tx) @ be_bytes (gas_limit tx)"

definition signing_digest :: "externals \<Rightarrow> ComputeTx \<Rightarrow> hash" where
  "signing_digest x tx = keccak256 x (signing_preimage tx)"

definition expected_tx_id :: "externals \<Rightarrow> ComputeTx \<Rightarrow> TxId" where
  "expected_tx_id x tx = TxId (signing_digest x tx)"

definition has_consistent_tx_id :: "externals \<Rightarrow> ComputeTx \<Rightarrow> bool" where
  "has_consistent_tx_id x tx \<longleftrightarrow> tx_id tx = expected_tx_id x tx"

definition assign_expected_tx_id :: "externals \<Rightarrow> ComputeTx \<Rightarrow> ComputeTx" where
  "assign_expected_tx_id x tx = tx\<lparr>tx_id := expected_tx_id x tx\<rparr>"

subsection \<open>A concrete transaction\<close>

text \<open>A transfer of one output, used to instantiate the theorems.\<close>

definition sample_proposal :: OutputProposal where
  "sample_proposal =
     \<lparr>p_output_id = OutputId 2, p_object_id = ObjectId 7, p_domain_id = DomainId 0, p_kind = Asset,
      p_owner = OwnerShared, p_predecessor = Some (OutputId 1), p_version = Version 2, p_state = [],
      p_state_root = None, p_resources = [(1, Amount 5)], p_lock = Script_default, p_logic = None,
      p_created_at = 0, p_ttl = None, p_rent_reserve = None, p_flags = 0, p_extensions = []\<rparr>"

definition sample_tx :: ComputeTx where
  "sample_tx =
     \<lparr>tx_id = TxId 0, tx_domain_id = DomainId 0, tx_command = CmdTransfer, input_set = [OutputId 1],
      read_set = [], output_proposals = [sample_proposal], tx_fee = 0, tx_nonce = None,
      tx_metadata = [], payload = [], deadline_unix_secs = None, chain_id = None, network_id = None,
      witness = \<lparr>signatures = [], threshold = None\<rparr>,
      max_fee = 0, priority_fee = 0, gas_limit = 0\<rparr>"

text \<open>Third-party functions for the same purpose: every hash is 5, every key and signature is
  accepted, hex decoding fails.\<close>

definition sample_externals :: externals where
  "sample_externals =
     \<lparr>keccak256 = (\<lambda>_. 5), vk_ok = (\<lambda>_. True), sig_ok = (\<lambda>_. True), ed_verify = (\<lambda>_ _ _. True),
      hex_encode = (\<lambda>_. []), hex_decode = (\<lambda>_. Inl ''odd length'')\<rparr>"

definition sample_signature :: TxSignature where
  "sample_signature =
     \<lparr>scheme = SchemeEd25519, sig_bytes = replicate 64 0, public_key = Some (replicate 32 0)\<rparr>"

definition sample_signed_tx :: ComputeTx where
  "sample_signed_tx =
     sample_tx\<lparr>tx_id := TxId 5, witness := \<lparr>signatures = [sample_signature], threshold = None\<rparr>\<rparr>"

lemma sample_signed_tx_simps [simp]:
  "has_consistent_tx_id sample_externals sample_signed_tx"
  "required_threshold sample_signed_tx = 1"
  "signatures (witness sample_signed_tx) = [sample_signature]"
  "tx_command sample_signed_tx = CmdTransfer"
  by (simp_all add: has_consistent_tx_id_def expected_tx_id_def signing_digest_def
      sample_externals_def sample_signed_tx_def required_threshold_def sample_tx_def)

lemmas sample_simps = sample_tx_def sample_proposal_def Script_default_def

end
