(* ===== verification/Signing.thy ===== *)
theory Signing
  imports Tx
begin

section \<open>What a signature commits to\<close>

text \<open>
  The encoders of \<open>Tx\<close> are prefix codes as long as every vector is shorter than \<open>2 ^ 32\<close> (its
  length is written as a \<open>u32\<close>).  So the signing bytes determine every field of the transaction
  except the id and the witness, and of the witness they determine the effective threshold.
\<close>

subsection \<open>Vectors whose length the encoding keeps\<close>

definition fits :: "'a list \<Rightarrow> bool" where
  "fits xs \<longleftrightarrow> length xs < 2 ^ 32"

fun value_fits :: "ResourceValue \<Rightarrow> bool" where
  "value_fits (Amount v) = True"
| "value_fits (Data bs) = fits bs"
| "value_fits (Ref i) = True"
| "value_fits (RefBatch ids) = fits ids"

definition resources_fit :: "ResourceMap \<Rightarrow> bool" where
  "resources_fit rs \<longleftrightarrow> fits rs \<and> (\<forall>e \<in> set rs. value_fits (snd e))"

definition script_fits :: "Script \<Rightarrow> bool" where
  "script_fits s \<longleftrightarrow> fits (code s)"

definition metadata_fits :: "Metadata \<Rightarrow> bool" where
  "metadata_fits md \<longleftrightarrow> fits md \<and> (\<forall>e \<in> set md. fits (fst e) \<and> fits (snd e))"

definition proposal_fits :: "OutputProposal \<Rightarrow> bool" where
  "proposal_fits p \<longleftrightarrow> fits (p_state p) \<and> resources_fit (p_resources p) \<and> script_fits (p_lock p) \<and>
     pred_option script_fits (p_logic p) \<and> metadata_fits (p_extensions p)"

definition tx_fits :: "ComputeTx \<Rightarrow> bool" where
  "tx_fits tx \<longleftrightarrow> fits (input_set tx) \<and> fits (read_set tx) \<and> fits (output_proposals tx) \<and>
     (\<forall>p \<in> set (output_proposals tx). proposal_fits p) \<and> metadata_fits (tx_metadata tx) \<and>
     fits (payload tx)"

lemmas fits_defs = resources_fit_def script_fits_def metadata_fits_def proposal_fits_def tx_fits_def

subsection \<open>Every encoder is a prefix code\<close>

lemma encode_len_append:
  assumes "m < 2 ^ 32" and "n < 2 ^ 32"
  shows "encode_len m @ r = encode_len n @ s \<longleftrightarrow> m = n \<and> r = s"
proof -
  have "(word_of_nat m :: u32) = word_of_nat n \<longleftrightarrow> m = n"
    using assms by (simp add: word_unat_eq_iff unat_of_nat)
  then show ?thesis by (simp add: encode_len_def code_inj)
qed

lemma prefix_code_list:
  assumes "prefix_code P f"
  shows "prefix_code (\<lambda>xs. fits xs \<and> (\<forall>x \<in> set xs. P x)) (encode_list f)"
proof (rule prefix_codeI)
  fix xs ys r s
  assume P: "fits xs \<and> (\<forall>x \<in> set xs. P x)" "fits ys \<and> (\<forall>x \<in> set ys. P x)"
    and eq: "encode_list f xs @ r = encode_list f ys @ s"
  from P have "length xs < 2 ^ 32" "length ys < 2 ^ 32" by (simp_all add: fits_def)
  with eq have "length xs = length ys \<and> concat (map f xs) @ r = concat (map f ys) @ s"
    by (simp add: encode_list_def encode_len_append)
  with P prefix_code_concat [OF assms] show "xs = ys \<and> r = s" by blast
qed

lemma prefix_code_bytes: "prefix_code fits encode_bytes"
proof (rule prefix_codeI)
  fix x y r s
  assume "fits x" "fits y" "encode_bytes x @ r = encode_bytes y @ s"
  then have "length x = length y \<and> x @ r = y @ s"
    by (simp add: encode_bytes_def encode_len_append fits_def)
  then show "x = y \<and> r = s" by (elim conjE) (simp add: append_eq_append_conv)
qed

lemma prefix_code_option:
  assumes "prefix_code P f"
  shows "prefix_code (pred_option P) (encode_option f)"
proof (rule prefix_codeI)
  fix x y r s
  assume "pred_option P x" "pred_option P y" "encode_option f x @ r = encode_option f y @ s"
  then show "x = y \<and> r = s"
    by (cases x; cases y) (auto simp: encode_option_def prefix_code_eq [OF assms])
qed

lemma prefix_code_total:
  "(\<And>x y r s. (f x @ r = f y @ s) = (x = y \<and> r = s)) \<Longrightarrow> prefix_code (\<lambda>_. True) f"
  by (rule prefix_codeI) blast

lemma pred_option_True [simp]: "pred_option (\<lambda>_. True) x"
  by (cases x) simp_all

lemma encode_option_u64 [code_inj]:
  "encode_option be_bytes (x :: u64 option) @ r = encode_option be_bytes y @ s \<longleftrightarrow> x = y \<and> r = s"
  by (rule prefix_code_eq [OF prefix_code_option [OF prefix_code_total]]) (simp_all add: code_inj)

lemma encode_option_u32 [code_inj]:
  "encode_option be_bytes (x :: u32 option) @ r = encode_option be_bytes y @ s \<longleftrightarrow> x = y \<and> r = s"
  by (rule prefix_code_eq [OF prefix_code_option [OF prefix_code_total]]) (simp_all add: code_inj)

lemma encode_option_u128 [code_inj]:
  "encode_option be_bytes (x :: u128 option) @ r = encode_option be_bytes y @ s \<longleftrightarrow> x = y \<and> r = s"
  by (rule prefix_code_eq [OF prefix_code_option [OF prefix_code_total]]) (simp_all add: code_inj)

lemma encode_option_hash [code_inj]:
  "encode_option be_bytes (x :: hash option) @ r = encode_option be_bytes y @ s \<longleftrightarrow> x = y \<and> r = s"
  by (rule prefix_code_eq [OF prefix_code_option [OF prefix_code_total]]) (simp_all add: code_inj)

lemma raw_eq [simp]:
  "output_raw a = output_raw b \<longleftrightarrow> a = b" "object_raw c = object_raw d \<longleftrightarrow> c = d"
  "domain_raw e = domain_raw f \<longleftrightarrow> e = f" "version_raw g = version_raw h \<longleftrightarrow> g = h"
  by (auto intro: OutputId.expand ObjectId.expand DomainId.expand Version.expand)

lemma encode_option_output_id [code_inj]:
  "encode_option (\<lambda>i. be_bytes (output_raw i)) x @ r = encode_option (\<lambda>i. be_bytes (output_raw i)) y @ s
   \<longleftrightarrow> x = y \<and> r = s"
  by (rule prefix_code_eq [OF prefix_code_option [OF prefix_code_total]]) (simp_all add: code_inj)

lemma prefix_code_output_ids: "prefix_code fits encode_output_ids"
proof (rule prefix_codeI)
  fix x y r s
  assume "fits x" "fits y" "encode_output_ids x @ r = encode_output_ids y @ s"
  moreover have "prefix_code (\<lambda>_. True) (\<lambda>i. be_bytes (output_raw i))"
    by (rule prefix_code_total) (simp add: code_inj)
  ultimately show "x = y \<and> r = s"
    by (simp add: encode_output_ids_def prefix_code_eq [OF prefix_code_list])
qed

lemma prefix_code_read_set: "prefix_code fits encode_read_set"
proof (rule prefix_codeI)
  fix x y r s
  assume "fits x" "fits y" "encode_read_set x @ r = encode_read_set y @ s"
  moreover have "prefix_code (\<lambda>_. True) encode_read_ref"
    by (rule prefix_codeI) (auto simp: encode_read_ref_def code_inj)
  ultimately show "x = y \<and> r = s"
    by (simp add: encode_read_set_def prefix_code_eq [OF prefix_code_list])
qed

lemma prefix_code_script: "prefix_code script_fits encode_script"
proof (rule prefix_codeI)
  fix x y r s
  assume "script_fits x" "script_fits y" "encode_script x @ r = encode_script y @ s"
  then show "x = y \<and> r = s"
    by (simp add: encode_script_def script_fits_def prefix_code_eq [OF prefix_code_bytes])
qed

lemma prefix_code_value: "prefix_code value_fits encode_resource_value"
proof (rule prefix_codeI)
  fix x y r s
  assume *: "value_fits x" "value_fits y" "encode_resource_value x @ r = encode_resource_value y @ s"
  have "prefix_code (\<lambda>_. True) (\<lambda>i. be_bytes (object_raw i))"
    by (rule prefix_code_total) (simp add: code_inj)
  note ids = prefix_code_eq [OF prefix_code_list [OF this]]
  from * show "x = y \<and> r = s"
    by (cases x; cases y) (simp_all add: code_inj prefix_code_eq [OF prefix_code_bytes] ids)
qed

lemma prefix_code_resource_map: "prefix_code resources_fit encode_resource_map"
proof -
  have "prefix_code (\<lambda>e. value_fits (snd e)) (\<lambda>(a :: hash, v). be_bytes a @ encode_resource_value v)"
    by (rule prefix_codeI) (auto simp: code_inj prefix_code_eq [OF prefix_code_value])
  then show ?thesis
    unfolding resources_fit_def [abs_def] encode_resource_map_def [abs_def] by (rule prefix_code_list)
qed

lemma fits_str_bytes [simp]: "fits (str_bytes k) \<longleftrightarrow> fits k"
  by (simp add: fits_def)

lemma prefix_code_metadata: "prefix_code metadata_fits encode_metadata"
proof -
  have "prefix_code (\<lambda>e. fits (fst e) \<and> fits (snd e))
          (\<lambda>(k, v). encode_bytes (str_bytes k) @ encode_bytes v)"
    by (rule prefix_codeI) (auto simp: prefix_code_eq [OF prefix_code_bytes])
  then show ?thesis
    unfolding metadata_fits_def [abs_def] encode_metadata_def [abs_def] by (rule prefix_code_list)
qed

lemma encode_ownership_append [code_inj]:
  "encode_ownership x @ r = encode_ownership y @ s \<longleftrightarrow> x = y \<and> r = s"
  by (cases x; cases y) (simp_all add: code_inj)

lemma object_kind_tag_inj [simp]: "object_kind_tag k = object_kind_tag l \<longleftrightarrow> k = l"
  by (cases k; cases l) simp_all

lemma command_tag_inj [simp]: "command_tag k = command_tag l \<longleftrightarrow> k = l"
  by (cases k; cases l) simp_all

lemmas prefix_code_eqs =
  prefix_code_eq [OF prefix_code_bytes] prefix_code_eq [OF prefix_code_output_ids]
  prefix_code_eq [OF prefix_code_read_set] prefix_code_eq [OF prefix_code_script]
  prefix_code_eq [OF prefix_code_resource_map] prefix_code_eq [OF prefix_code_metadata]
  prefix_code_eq [OF prefix_code_option [OF prefix_code_script]]

lemma prefix_code_proposal: "prefix_code proposal_fits encode_output_proposal"
proof (rule prefix_codeI)
  fix x y :: OutputProposal and r s
  assume "proposal_fits x" "proposal_fits y"
    "encode_output_proposal x @ r = encode_output_proposal y @ s"
  then show "x = y \<and> r = s"
    by (simp add: encode_output_proposal_def proposal_fits_def code_inj prefix_code_eqs)
qed

lemma prefix_code_proposals:
  "prefix_code (\<lambda>ps. fits ps \<and> (\<forall>p \<in> set ps. proposal_fits p)) encode_output_proposals"
  unfolding encode_output_proposals_def [abs_def] by (rule prefix_code_list [OF prefix_code_proposal])

text \<open>C11: two transactions with the same signing bytes agree on every field but the id and the
  witness, and on the effective threshold of the witness: nothing that is executed can be changed
  under a signature.\<close>

theorem signing_preimage_binds_body:
  assumes "signing_preimage t = signing_preimage u" and "tx_fits t" and "tx_fits u"
  shows "u\<lparr>tx_id := tx_id t, witness := witness t\<rparr> = t \<and> required_threshold u = required_threshold t"
proof -
  have "tx_domain_id t = tx_domain_id u \<and> tx_command t = tx_command u \<and> input_set t = input_set u \<and>
    read_set t = read_set u \<and> output_proposals t = output_proposals u \<and> tx_fee t = tx_fee u \<and>
    tx_nonce t = tx_nonce u \<and> tx_metadata t = tx_metadata u \<and> payload t = payload u \<and>
    deadline_unix_secs t = deadline_unix_secs u \<and> chain_id t = chain_id u \<and>
    network_id t = network_id u \<and> required_threshold t = required_threshold u \<and>
    max_fee t = max_fee u \<and> priority_fee t = priority_fee u \<and> gas_limit t = gas_limit u"
    using assms
    by (simp add: signing_preimage_def tx_fits_def code_inj prefix_code_eqs
        prefix_code_eq [OF prefix_code_proposals])
  then show ?thesis by simp
qed

lemma signing_preimage_binds_body_witness:
  "tx_fits sample_tx \<and> sample_tx\<lparr>tx_id := TxId 9\<rparr> \<noteq> sample_tx \<and>
   required_threshold (sample_tx\<lparr>tx_id := TxId 9\<rparr>) = required_threshold sample_tx"
proof -
  have "signing_preimage sample_tx = signing_preimage (sample_tx\<lparr>tx_id := TxId 9\<rparr>)"
    by (simp add: signing_preimage_def required_threshold_def)
  moreover have f: "tx_fits sample_tx" "tx_fits (sample_tx\<lparr>tx_id := TxId 9\<rparr>)"
    by (simp_all add: fits_defs fits_def sample_simps)
  moreover have "sample_tx\<lparr>tx_id := TxId 9\<rparr> \<noteq> sample_tx" by (simp add: sample_tx_def)
  ultimately show ?thesis
    using signing_preimage_binds_body [of sample_tx "sample_tx\<lparr>tx_id := TxId 9\<rparr>"] by simp
qed

end
