(* ===== verification/Gas.thy ===== *)
theory Gas
  imports Tx
begin

section \<open>Gas metering and the fee market\<close>

text \<open>
  \<open>compute/gas.rs\<close>: the static gas estimate of a transaction, the EIP-1559 base-fee rule, the fee
  validation and the miner's tip, on \<open>u64\<close> values with the saturating arithmetic of the source.
  The lemmas give the closed form of the estimate and the bounds of the base-fee rule.
\<close>

subsection \<open>Constants\<close>

definition TX_BASE_GAS :: u64 where "TX_BASE_GAS = 21000"
definition TX_CALLDATA_ZERO_GAS :: u64 where "TX_CALLDATA_ZERO_GAS = 4"
definition TX_CALLDATA_NONZERO_GAS :: u64 where "TX_CALLDATA_NONZERO_GAS = 16"
definition COMMAND_GAS :: u64 where "COMMAND_GAS = 5000"
definition COLD_ACCESS_GAS :: u64 where "COLD_ACCESS_GAS = 2100"
definition WARM_ACCESS_GAS :: u64 where "WARM_ACCESS_GAS = 100"
definition ED25519_VERIFY_GAS :: u64 where "ED25519_VERIFY_GAS = 3000"
definition OUTPUT_CREATE_GAS :: u64 where "OUTPUT_CREATE_GAS = 25000"
definition OUTPUT_READ_COLD_GAS :: u64 where "OUTPUT_READ_COLD_GAS = 2100"
definition BASE_FEE_MAX_CHANGE_DENOMINATOR :: u64 where "BASE_FEE_MAX_CHANGE_DENOMINATOR = 8"
definition TARGET_GAS_FRACTION :: u64 where "TARGET_GAS_FRACTION = 2"
definition INITIAL_BASE_FEE :: u64 where "INITIAL_BASE_FEE = 1"
definition MAX_PRIORITY_FEE :: u64 where "MAX_PRIORITY_FEE = 1000000"

lemmas gas_constants =
  TX_BASE_GAS_def TX_CALLDATA_ZERO_GAS_def TX_CALLDATA_NONZERO_GAS_def COMMAND_GAS_def
  COLD_ACCESS_GAS_def WARM_ACCESS_GAS_def ED25519_VERIFY_GAS_def OUTPUT_CREATE_GAS_def
  OUTPUT_READ_COLD_GAS_def

lemma unat_gas_constants:
  "unat TX_BASE_GAS = 21000" "unat TX_CALLDATA_ZERO_GAS = 4" "unat TX_CALLDATA_NONZERO_GAS = 16"
  "unat COMMAND_GAS = 5000" "unat COLD_ACCESS_GAS = 2100" "unat WARM_ACCESS_GAS = 100"
  "unat ED25519_VERIFY_GAS = 3000" "unat OUTPUT_CREATE_GAS = 25000"
  "unat OUTPUT_READ_COLD_GAS = 2100"
  by (simp_all add: gas_constants)

text \<open>Unit conversions; the \<open>u64\<close> product wraps, as in a release build.\<close>

definition carrots_to_hopps :: "u64 \<Rightarrow> u64" where
  "carrots_to_hopps carrots = carrots * 1000000000"

definition hopps_to_carrots :: "u64 \<Rightarrow> u64" where
  "hopps_to_carrots hopps = hopps div 1000000000"

definition rbit_to_hopps :: "u64 \<Rightarrow> u128" where
  "rbit_to_hopps rbit = ucast rbit * 1000000000000000000"

subsection \<open>Static estimate\<close>

definition len64 :: "'a list \<Rightarrow> u64" where
  "len64 xs = word_of_nat (length xs)"

definition bytes_gas :: "'a list \<Rightarrow> u64" where
  "bytes_gas xs = saturating_mul (len64 xs) TX_CALLDATA_NONZERO_GAS"

definition calldata_gas :: "u8 \<Rightarrow> u64 \<Rightarrow> u64" where
  "calldata_gas byte gas =
     (if byte = 0 then saturating_add gas TX_CALLDATA_ZERO_GAS
      else saturating_add gas TX_CALLDATA_NONZERO_GAS)"

text \<open>The read loop, with the outputs seen so far.\<close>

fun read_set_gas :: "OutputId list \<Rightarrow> ObjectReadRef list \<Rightarrow> u64 \<Rightarrow> u64" where
  "read_set_gas seen [] gas = gas"
| "read_set_gas seen (r # rs) gas =
     (if rr_output_id r \<in> set seen then read_set_gas seen rs (saturating_add gas WARM_ACCESS_GAS)
      else read_set_gas (seen @ [rr_output_id r]) rs (saturating_add gas COLD_ACCESS_GAS))"

definition proposal_gas :: "OutputProposal \<Rightarrow> u64 \<Rightarrow> u64" where
  "proposal_gas p gas =
     (let gas = saturating_add gas OUTPUT_CREATE_GAS;
          gas = saturating_add gas (bytes_gas (p_state p));
          gas = saturating_add gas (bytes_gas (code (p_lock p)))
      in case p_logic p of
           Some logic \<Rightarrow> saturating_add gas (bytes_gas (code logic))
         | None \<Rightarrow> gas)"

definition metadata_gas :: "string \<times> u8 list \<Rightarrow> u64 \<Rightarrow> u64" where
  "metadata_gas kv gas =
     saturating_add (saturating_add gas (bytes_gas (fst kv))) (bytes_gas (snd kv))"

definition estimate_tx_gas :: "ComputeTx \<Rightarrow> u64" where
  "estimate_tx_gas tx =
     (let gas = TX_BASE_GAS;
          gas = fold calldata_gas (payload tx) gas;
          gas = read_set_gas [] (read_set tx) gas;
          gas = fold (\<lambda>_ g. saturating_add g OUTPUT_READ_COLD_GAS) (input_set tx) gas;
          gas = fold proposal_gas (output_proposals tx) gas;
          gas = saturating_add gas COMMAND_GAS;
          gas = fold (\<lambda>_ g. saturating_add g ED25519_VERIFY_GAS) (signatures (witness tx)) gas
      in fold metadata_gas (tx_metadata tx) gas)"

subsection \<open>Base fee\<close>

text \<open>\<open>None\<close> is the panic of the \<open>u128\<close> division by zero when the target is zero.\<close>

definition calculate_base_fee :: "u64 \<Rightarrow> u64 \<Rightarrow> u64 \<Rightarrow> u64 option" where
  "calculate_base_fee parent_base_fee parent_gas_used parent_gas_limit =
     (let target_gas = parent_gas_limit div TARGET_GAS_FRACTION
      in if parent_gas_used = target_gas then Some parent_base_fee
         else
           let delta = abs_diff parent_gas_used target_gas;
               numerator = (ucast parent_base_fee :: u128) * ucast delta;
               denominator = (ucast target_gas :: u128) * ucast BASE_FEE_MAX_CHANGE_DENOMINATOR
           in if denominator = 0 then None
              else
                let change = (ucast (numerator div denominator) :: u64)
                in if target_gas < parent_gas_used
                   then Some (saturating_add parent_base_fee (max change 1))
                   else Some (saturating_sub parent_base_fee change))"

subsection \<open>Fee validation and tips\<close>

datatype FeeValidationError =
    GasLimitTooLow u64 u64
  | GasLimitTooHigh u64 u64
  | PriorityFeeTooHigh u64 u64
  | MaxFeeTooLow u64 u64 u64 u64

definition validate_tx_fee :: "ComputeTx \<Rightarrow> u64 \<Rightarrow> FeeValidationError + unit" where
  "validate_tx_fee tx base_fee =
     (let estimated = estimate_tx_gas tx
      in if gas_limit tx < estimated then Inl (GasLimitTooLow (gas_limit tx) estimated)
         else if MAX_GAS_LIMIT_PER_TX < gas_limit tx
         then Inl (GasLimitTooHigh (gas_limit tx) MAX_GAS_LIMIT_PER_TX)
         else if MAX_PRIORITY_FEE < priority_fee tx
         then Inl (PriorityFeeTooHigh (priority_fee tx) MAX_PRIORITY_FEE)
         else
           let min_total = saturating_add base_fee (priority_fee tx)
           in if max_fee tx < min_total
              then Inl (MaxFeeTooLow (max_fee tx) min_total base_fee (priority_fee tx))
              else Inr ())"

definition effective_tip :: "ComputeTx \<Rightarrow> u64 \<Rightarrow> u64" where
  "effective_tip tx base_fee = min (priority_fee tx) (saturating_sub (max_fee tx) base_fee)"

definition effective_tip_rate :: "ComputeTx \<Rightarrow> u64 \<Rightarrow> u64" where
  "effective_tip_rate tx base_fee =
     (let tip = effective_tip tx base_fee; gas = max (estimate_tx_gas tx) 1 in tip div gas)"

subsection \<open>The estimate in closed form\<close>

text \<open>Saturating sums are sums cut off at the largest \<open>u64\<close>.\<close>

definition cap64 :: "nat \<Rightarrow> nat" where
  "cap64 n = min n (2 ^ 64 - 1)"

lemma cap64_add [simp]: "cap64 (cap64 a + cap64 b) = cap64 (a + b)" "cap64 (cap64 a + b) = cap64 (a + b)"
    "cap64 (a + cap64 b) = cap64 (a + b)" "cap64 (cap64 a) = cap64 a"
  by (auto simp: cap64_def)

lemma cap64_unat [simp]: "cap64 (unat (w :: u64)) = unat w"
  using unat_le_max [of w] by (simp add: cap64_def)

lemma unat_sat_add64: "unat (saturating_add a b :: u64) = cap64 (unat a + unat b)"
  by (simp add: unat_saturating_add cap64_def)

lemma unat_fold_sat:
  assumes "\<And>x g. x \<in> set xs \<Longrightarrow> unat (f x g) = cap64 (unat g + c x)"
  shows "unat (fold f xs g) = cap64 (unat (g :: u64) + sum_list (map c xs))"
  using assms by (induction xs arbitrary: g) (simp_all add: add.assoc)

definition in_memory :: "'a list \<Rightarrow> bool" where
  "in_memory xs \<longleftrightarrow> length xs < 2 ^ 64"

lemma unat_bytes_gas: "in_memory xs \<Longrightarrow> unat (bytes_gas xs) = cap64 (16 * length xs)"
  by (simp add: bytes_gas_def unat_saturating_mul len64_def gas_constants in_memory_def unat_of_nat
      cap64_def mult.commute)

text \<open>Every read costs the warm price, and the first read of an output 2000 more.\<close>

definition read_cost :: "OutputId set \<Rightarrow> ObjectReadRef list \<Rightarrow> nat" where
  "read_cost seen rs = 100 * length rs + 2000 * card (rr_output_id ` set rs - seen)"

lemma read_cost_Cons:
  "read_cost seen (r # rs) =
     (if rr_output_id r \<in> seen then 100 + read_cost seen rs
      else 2100 + read_cost (insert (rr_output_id r) seen) rs)"
proof (cases "rr_output_id r \<in> seen")
  case False
  let ?A = "rr_output_id ` set rs - insert (rr_output_id r) seen"
  have "rr_output_id ` set (r # rs) - seen = insert (rr_output_id r) ?A"
    using False by auto
  then have "card (rr_output_id ` set (r # rs) - seen) = Suc (card ?A)" by simp
  with False show ?thesis by (simp add: read_cost_def)
qed (simp add: read_cost_def insert_Diff_if)

lemma unat_read_set_gas:
  "unat (read_set_gas seen rs g) = cap64 (unat g + read_cost (set seen) rs)"
proof (induction seen rs g rule: read_set_gas.induct)
  case (2 seen r rs g)
  then show ?case
    by (cases "rr_output_id r \<in> set seen")
       (simp_all add: read_cost_Cons unat_sat_add64 unat_gas_constants add.assoc)
qed (simp add: read_cost_def)

definition calldata_cost :: "u8 list \<Rightarrow> nat" where
  "calldata_cost bs = sum_list (map (\<lambda>b. if b = 0 then 4 else 16) bs)"

definition proposal_cost :: "OutputProposal \<Rightarrow> nat" where
  "proposal_cost p = 25000 + 16 * (length (p_state p) + length (code (p_lock p)) +
     (case p_logic p of None \<Rightarrow> 0 | Some s \<Rightarrow> length (code s)))"

definition metadata_cost :: "string \<times> u8 list \<Rightarrow> nat" where
  "metadata_cost kv = 16 * (length (fst kv) + length (snd kv))"

definition tx_cost :: "ComputeTx \<Rightarrow> nat" where
  "tx_cost tx = 26000 + calldata_cost (payload tx) + read_cost {} (read_set tx) +
     2100 * length (input_set tx) + sum_list (map proposal_cost (output_proposals tx)) +
     3000 * length (signatures (witness tx)) + sum_list (map metadata_cost (tx_metadata tx))"

text \<open>Every vector is shorter than the address space.\<close>

definition tx_in_memory :: "ComputeTx \<Rightarrow> bool" where
  "tx_in_memory tx \<longleftrightarrow>
     (\<forall>p \<in> set (output_proposals tx). in_memory (p_state p) \<and> in_memory (code (p_lock p)) \<and>
        (\<forall>s. p_logic p = Some s \<longrightarrow> in_memory (code s))) \<and>
     (\<forall>(k, v) \<in> set (tx_metadata tx). in_memory k \<and> in_memory v)"

lemma unat_calldata_gas: "unat (calldata_gas b g) = cap64 (unat g + (if b = 0 then 4 else 16))"
  by (simp add: calldata_gas_def unat_sat_add64 unat_gas_constants)

lemma unat_proposal_gas:
  assumes "in_memory (p_state p)" "in_memory (code (p_lock p))"
    "\<And>s. p_logic p = Some s \<Longrightarrow> in_memory (code s)"
  shows "unat (proposal_gas p g) = cap64 (unat g + proposal_cost p)"
  using assms by (cases "p_logic p")
    (simp_all add: proposal_gas_def unat_sat_add64 unat_bytes_gas unat_gas_constants,
     simp_all add: proposal_cost_def algebra_simps)

lemma unat_metadata_gas:
  "in_memory (fst kv) \<Longrightarrow> in_memory (snd kv) \<Longrightarrow>
     unat (metadata_gas kv g) = cap64 (unat g + metadata_cost kv)"
  by (simp add: metadata_gas_def unat_sat_add64 unat_bytes_gas)
     (simp add: metadata_cost_def algebra_simps)

text \<open>The static estimate is the sum of the prices of the parts of the transaction, cut off at
  the largest 64-bit value: 26000, the calldata bytes, 2100 for the first and 100 for each further
  read of an output, 2100 per input, the created outputs with their bytes, 3000 per signature and
  the metadata bytes.\<close>

theorem estimate_tx_gas_closed_form:
  assumes "tx_in_memory tx"
  shows "unat (estimate_tx_gas tx) = cap64 (tx_cost tx)"
proof -
  have P: "unat (fold proposal_gas (output_proposals tx) g)
      = cap64 (unat g + sum_list (map proposal_cost (output_proposals tx)))" for g
    by (rule unat_fold_sat, rule unat_proposal_gas) (use assms in \<open>auto simp: tx_in_memory_def\<close>)
  have M: "unat (fold metadata_gas (tx_metadata tx) g)
      = cap64 (unat g + sum_list (map metadata_cost (tx_metadata tx)))" for g
    by (rule unat_fold_sat, rule unat_metadata_gas) (use assms in \<open>auto simp: tx_in_memory_def\<close>)
  have C: "unat (fold calldata_gas (payload tx) g) = cap64 (unat g + calldata_cost (payload tx))" for g
    unfolding calldata_cost_def by (rule unat_fold_sat) (rule unat_calldata_gas)
  have I: "unat (fold (\<lambda>_ g. saturating_add g w) xs g) = cap64 (unat g + unat w * length xs)"
    for w g :: u64 and xs :: "'b list"
    using unat_fold_sat [of xs "\<lambda>_ g. saturating_add g w" "\<lambda>_. unat w" g]
    by (simp add: unat_sat_add64 sum_list_triv mult.commute)
  show ?thesis
    by (simp add: estimate_tx_gas_def P M C I unat_read_set_gas unat_sat_add64 unat_gas_constants)
       (simp add: tx_cost_def algebra_simps)
qed

lemma estimate_tx_gas_closed_form_witness:
  "tx_in_memory sample_tx \<and> unat (estimate_tx_gas sample_tx) = 53100"
proof -
  have "tx_in_memory sample_tx" by (simp add: tx_in_memory_def in_memory_def sample_simps)
  moreover have "cap64 (tx_cost sample_tx) = 53100"
    by (simp add: tx_cost_def calldata_cost_def read_cost_def proposal_cost_def sample_simps cap64_def)
  ultimately show ?thesis using estimate_tx_gas_closed_form [of sample_tx] by simp
qed

subsection \<open>The base-fee rule\<close>

text \<open>The rule of EIP-1559 on natural numbers.\<close>

definition base_fee_rule :: "nat \<Rightarrow> nat \<Rightarrow> nat \<Rightarrow> nat option" where
  "base_fee_rule fee used limit =
     (let t = limit div 2 in
      if used = t then Some fee
      else if t = 0 then None
      else if t < used then Some (cap64 (fee + max 1 (fee * (used - t) div (8 * t))))
      else Some (fee - fee * (t - used) div (8 * t)))"

lemma change_bound:
  fixes t d f :: nat
  assumes "d \<le> t + 1" "0 < t"
  shows "f * d div (8 * t) \<le> f"
proof -
  have "f * d \<le> f * (8 * t)" using assms by (intro mult_le_mono2) simp
  then have "f * d div (8 * t) \<le> f * (8 * t) div (8 * t)" by (rule div_le_mono)
  then show ?thesis using assms by simp
qed

lemma unat_ucast_64_128: "unat (ucast (w :: u64) :: u128) = unat w"
  using unat_word_less [of w] by (simp add: unsigned_ucast_eq take_bit_nat_eq_self)

lemma unat_change:
  fixes f d t :: u64
  assumes "unat d \<le> unat t + 1" "0 < unat t"
  shows "unat (ucast ((ucast f :: u128) * ucast d
            div ((ucast t :: u128) * ucast BASE_FEE_MAX_CHANGE_DENOMINATOR)) :: u64)
         = unat f * unat d div (8 * unat t)"
proof -
  have f: "unat f < 2 ^ 64" "unat d < 2 ^ 64" "unat t < 2 ^ 64"
    using unat_word_less [of f] unat_word_less [of d] unat_word_less [of t] by simp_all
  have "unat f * unat d < 2 ^ 64 * 2 ^ 64" using f by (intro mult_strict_mono) auto
  then have n: "unat ((ucast f :: u128) * ucast d) = unat f * unat d"
    by (simp add: unat_word_ariths unat_ucast_64_128)
  have d: "unat ((ucast t :: u128) * ucast BASE_FEE_MAX_CHANGE_DENOMINATOR) = 8 * unat t"
    using f by (simp add: unat_word_ariths unat_ucast_64_128 BASE_FEE_MAX_CHANGE_DENOMINATOR_def)
  have "unat f * unat d div (8 * unat t) < 2 ^ 64"
    using change_bound [OF assms, of "unat f"] f(1) by linarith
  then show ?thesis
    by (simp add: unsigned_ucast_eq unat_div_distrib n d take_bit_nat_eq_self)
qed

text \<open>C35: As long as the parent block used no more gas than its limit, the base-fee computation
  on 64-bit values with its 128-bit intermediate product computes the EIP-1559 rule of the
  natural numbers, and panics exactly where the rule divides by zero.\<close>

theorem calculate_base_fee_refines:
  assumes "used \<le> limit"
  shows "map_option unat (calculate_base_fee fee used limit) =
    base_fee_rule (unat fee) (unat used) (unat limit)"
proof -
  let ?t = "limit div TARGET_GAS_FRACTION"
  have t: "unat ?t = unat limit div 2" by (simp add: unat_div_distrib TARGET_GAS_FRACTION_def)
  have u: "unat used \<le> unat limit" using assms by (simp add: word_le_nat_alt)
  have dd: "unat (abs_diff used ?t) \<le> unat ?t + 1"
    unfolding unat_abs_diff t using u by (simp split: if_split; linarith)
  have z: "(ucast ?t :: u128) * ucast BASE_FEE_MAX_CHANGE_DENOMINATOR = 0 \<longleftrightarrow> unat ?t = 0"
    using unat_word_less [of ?t]
    by (simp add: word_unat_eq_iff [of _ 0] unat_word_ariths unat_ucast_64_128
        BASE_FEE_MAX_CHANGE_DENOMINATOR_def)
  have eq: "used = ?t \<longleftrightarrow> unat used = unat limit div 2" by (simp add: word_unat_eq_iff t)
  have lt: "?t < used \<longleftrightarrow> unat limit div 2 < unat used" by (simp add: word_less_nat_alt t)
  have m: "unat (max w 1) = max 1 (unat w)" for w :: u64
    by (auto simp: max_def word_le_nat_alt)
  consider "unat used = unat limit div 2" | "unat used \<noteq> unat limit div 2" "unat limit div 2 = 0"
    | "unat used \<noteq> unat limit div 2" "0 < unat limit div 2" by linarith
  then show ?thesis
  proof cases
    case 3
    have c: "unat (ucast ((ucast fee :: u128) * ucast (abs_diff used ?t)
            div ((ucast ?t :: u128) * ucast BASE_FEE_MAX_CHANGE_DENOMINATOR)) :: u64)
      = unat fee * unat (abs_diff used ?t) div (8 * (unat limit div 2))"
      using unat_change [OF dd, of fee] 3 t by simp
    show ?thesis
      using 3 unfolding calculate_base_fee_def base_fee_rule_def Let_def eq z lt t
      by (auto simp: unat_sat_add64 unat_saturating_sub c m unat_abs_diff t)
  qed (simp_all add: calculate_base_fee_def base_fee_rule_def Let_def eq z t)
qed

lemma calculate_base_fee_refines_witness:
  "map_option unat (calculate_base_fee 1000 30000000 30000000) = Some 1125"
  using calculate_base_fee_refines [of 30000000 30000000 1000]
  by (simp add: base_fee_rule_def cap64_def)

lemma change_eighth:
  fixes t d f :: nat
  assumes "d \<le> t"
  shows "f * d div (8 * t) \<le> f div 8"
proof (cases "t = 0")
  case False
  have "f * d div (8 * t) \<le> f * t div (8 * t)" using assms by (intro div_le_mono mult_le_mono2)
  also have "\<dots> = f div 8" using False by simp
  finally show ?thesis .
qed simp

lemma base_fee_rule_bounds:
  assumes "base_fee_rule fee used limit = Some v" "used \<le> limit" "even limit" "fee < 2 ^ 64"
  shows "v \<le> fee + max 1 (fee div 8)" "fee \<le> v + fee div 8"
    "limit div 2 < used \<Longrightarrow> v = 2 ^ 64 - 1 \<or> fee < v" "used \<le> limit div 2 \<Longrightarrow> v \<le> fee"
proof -
  define t where "t = limit div 2"
  have l: "used \<le> 2 * t" using assms(2,3) by (auto simp: t_def)
  have up: "fee * (used - t) div (8 * t) \<le> fee div 8" "fee * (t - used) div (8 * t) \<le> fee div 8"
    using l by (intro change_eighth; linarith)+
  have r: "used = t \<and> v = fee \<or>
      t < used \<and> v = cap64 (fee + max 1 (fee * (used - t) div (8 * t))) \<or>
      used < t \<and> v = fee - fee * (t - used) div (8 * t)"
    using assms(1) unfolding base_fee_rule_def Let_def t_def [symmetric]
    by (auto split: if_splits)
  show "v \<le> fee + max 1 (fee div 8)" using r up by (auto simp: cap64_def max_def min_def)
  show "fee \<le> v + fee div 8" using r up assms(4) by (auto simp: cap64_def)
  show "limit div 2 < used \<Longrightarrow> v = 2 ^ 64 - 1 \<or> fee < v"
    using r unfolding t_def [symmetric] by (auto simp: cap64_def max_def min_def)
  show "used \<le> limit div 2 \<Longrightarrow> v \<le> fee"
    using r unfolding t_def [symmetric] by auto
qed

text \<open>For an even, positive gas limit and a parent block within it, the base fee of the next
  block exists, moves by at most an eighth (or by one unit upwards) and in the direction of the
  congestion: it rises strictly above the target unless it is at the largest value, it does not
  rise at or below the target, and it never falls to zero from a positive value.\<close>

theorem calculate_base_fee_step:
  assumes "used \<le> limit" "even (unat limit)" "0 < unat limit"
  shows "\<exists>v. calculate_base_fee fee used limit = Some v \<and>
    unat v \<le> unat fee + max 1 (unat fee div 8) \<and> unat fee \<le> unat v + unat fee div 8 \<and>
    (unat limit div 2 < unat used \<longrightarrow> v = - 1 \<or> fee < v) \<and>
    (unat used \<le> unat limit div 2 \<longrightarrow> v \<le> fee) \<and> (0 < fee \<longrightarrow> 0 < v)"
proof -
  let ?r = "base_fee_rule (unat fee) (unat used) (unat limit)"
  have "unat limit div 2 \<noteq> 0" using assms(2,3) by (auto elim: evenE)
  then obtain n where n: "?r = Some n" by (cases ?r) (auto simp: base_fee_rule_def Let_def split: if_splits)
  then obtain v where v: "calculate_base_fee fee used limit = Some v" "unat v = n"
    using calculate_base_fee_refines [OF assms(1), of fee] by (auto simp: map_option_case split: option.splits)
  have u: "unat used \<le> unat limit" using assms(1) by (simp add: word_le_nat_alt)
  have f: "unat fee < 2 ^ 64" using unat_word_less [of fee] by simp
  note b = base_fee_rule_bounds [OF n u assms(2) f, folded v(2)]
  have "unat limit div 2 < unat used \<Longrightarrow> v = - 1 \<or> fee < v"
    using b(3) by (auto simp: word_less_nat_alt word_unat_eq_iff unat_max_word)
  moreover have "0 < fee \<Longrightarrow> 0 < v" using b(2) by (simp add: word_less_nat_alt)
  ultimately show ?thesis using v(1) b by (auto simp: word_le_nat_alt)
qed

lemma calculate_base_fee_step_witness:
  "\<exists>v. calculate_base_fee 1000 30000000 30000000 = Some v \<and> unat v \<le> 1125 \<and> (v = - 1 \<or> 1000 < v)"
  using calculate_base_fee_step [of 30000000 30000000 1000] by auto

subsection \<open>Fee validation\<close>

lemma validate_tx_fee_Inr:
  "validate_tx_fee tx base = Inr u \<longleftrightarrow>
     estimate_tx_gas tx \<le> gas_limit tx \<and> gas_limit tx \<le> MAX_GAS_LIMIT_PER_TX \<and>
     priority_fee tx \<le> MAX_PRIORITY_FEE \<and> saturating_add base (priority_fee tx) \<le> max_fee tx"
  by (auto simp: validate_tx_fee_def Let_def)

text \<open>A transaction the fee check accepts declares at least the estimated gas and at most the
  limit of a transaction, its maximal fee covers the base fee, and the miner then receives
  exactly the offered priority fee, base fee and tip together staying within what the sender
  authorised (unless base fee and priority fee already saturate 64 bits).\<close>

theorem validate_tx_fee_sound:
  assumes "validate_tx_fee tx base = Inr ()"
    "unat base + unat (priority_fee tx) < 2 ^ 64"
  shows "estimate_tx_gas tx \<le> gas_limit tx \<and> gas_limit tx \<le> MAX_GAS_LIMIT_PER_TX \<and>
    effective_tip tx base = priority_fee tx \<and>
    unat base + unat (effective_tip tx base) \<le> unat (max_fee tx)"
proof -
  have a: "unat base + unat (priority_fee tx) \<le> unat (max_fee tx)"
    using assms by (simp add: validate_tx_fee_Inr word_le_nat_alt unat_sat_add64 cap64_def)
  then have "effective_tip tx base = priority_fee tx"
    by (auto simp: effective_tip_def min_def word_le_nat_alt unat_saturating_sub)
  with a assms(1) show ?thesis by (simp add: validate_tx_fee_Inr)
qed

definition sample_fee_tx :: ComputeTx where
  "sample_fee_tx = sample_tx\<lparr>max_fee := 10, priority_fee := 3, gas_limit := 60000\<rparr>"

lemma estimate_sample_fee_tx: "estimate_tx_gas sample_fee_tx = 53100"
  by (simp add: estimate_tx_gas_def sample_fee_tx_def sample_simps gas_constants proposal_gas_def
      bytes_gas_def len64_def saturating_add_def saturating_mul_def)

lemma validate_tx_fee_sound_witness:
  "validate_tx_fee sample_fee_tx 2 = Inr () \<and> effective_tip sample_fee_tx 2 = 3"
proof -
  have v: "validate_tx_fee sample_fee_tx 2 = Inr ()"
    unfolding validate_tx_fee_Inr estimate_sample_fee_tx
    by (simp add: sample_fee_tx_def MAX_GAS_LIMIT_PER_TX_def MAX_PRIORITY_FEE_def saturating_add_def)
  then show ?thesis
    using validate_tx_fee_sound [of sample_fee_tx 2] by (simp add: sample_fee_tx_def)
qed

end
