(* ===== verification/Scheduler.thy ===== *)
theory Scheduler
  imports Tx "HOL-Library.Multiset" "HOL-Library.Char_ord" "HOL-Library.List_Lexorder"
begin

section \<open>The batch scheduler\<close>

text \<open>
  \<open>compute/scheduler.rs\<close>: lane keys and the in-memory scheduler.  The queue, a \<open>BTreeMap\<close> from lane
  keys to FIFO lanes, is an association list in ascending key order.  An instant is its distance in
  nanoseconds from a fixed origin; \<open>duration_since\<close> is the difference cut off at zero.  The lemmas
  show that the keys stay sorted and the lanes non-empty, that no transaction is lost or duplicated,
  that lanes are first in first out, and that the queue never exceeds its bound.
\<close>

subsection \<open>Lane keys\<close>

datatype ComputeLaneStrategy = SingleLane | ByDomain | ByDomainAndTouch

definition format_object_id :: "externals \<Rightarrow> ObjectId \<Rightarrow> string" where
  "format_object_id x i = ''obj:'' @ hex_encode x (be_bytes (object_raw i))"

definition format_output_id :: "externals \<Rightarrow> OutputId \<Rightarrow> string" where
  "format_output_id x i = ''out:'' @ hex_encode x (be_bytes (output_raw i))"

definition touch_key :: "externals \<Rightarrow> ComputeTx \<Rightarrow> string" where
  "touch_key x tx =
     (case input_set tx of i # _ \<Rightarrow> format_output_id x i
      | [] \<Rightarrow>
        (case read_set tx of r # _ \<Rightarrow> format_output_id x (rr_output_id r)
         | [] \<Rightarrow>
           (case output_proposals tx of p # _ \<Rightarrow> format_object_id x (p_object_id p)
            | [] \<Rightarrow> ''tx:'' @ hex_encode x (be_bytes (txid_raw (tx_id tx))))))"

definition lane_key :: "externals \<Rightarrow> ComputeLaneStrategy \<Rightarrow> ComputeTx \<Rightarrow> string" where
  "lane_key x strategy tx =
     (case strategy of
        SingleLane \<Rightarrow> ''single''
      | ByDomain \<Rightarrow> ''domain:'' @ show_nat (unat (domain_raw (tx_domain_id tx)))
      | ByDomainAndTouch \<Rightarrow>
          ''domain:'' @ show_nat (unat (domain_raw (tx_domain_id tx))) @ '':'' @ touch_key x tx)"

subsection \<open>State\<close>

record ComputeSchedulerConfig =
  batch_window_ms :: u64
  max_batch_size :: nat
  max_pending :: nat
  lane_strategy :: "ComputeTx \<Rightarrow> string"

definition default_scheduler_config :: "externals \<Rightarrow> ComputeSchedulerConfig" where
  "default_scheduler_config x =
     \<lparr>batch_window_ms = 15, max_batch_size = 64, max_pending = 4096, lane_strategy = lane_key x ByDomain\<rparr>"

record ComputeScheduleTicket =
  tk_tx_id :: TxId
  tk_domain_id :: DomainId
  tk_lane_key :: string
  tk_accepted_at :: u64
  tk_queue_depth :: nat

record PendingComputeTx =
  pd_tx :: ComputeTx
  pd_tx_id :: TxId
  pd_domain_id :: DomainId
  pd_lane_key :: string
  pd_enqueued_at :: nat

definition pending_new :: "ComputeTx \<Rightarrow> string \<Rightarrow> nat \<Rightarrow> PendingComputeTx" where
  "pending_new tx key at =
     \<lparr>pd_tx = tx, pd_tx_id = tx_id tx, pd_domain_id = tx_domain_id tx, pd_lane_key = key,
      pd_enqueued_at = at\<rparr>"

datatype ComputeScheduleError = QueueFull

type_synonym lanes = "(string \<times> PendingComputeTx list) list"

subsection \<open>Operations\<close>

definition pending_len :: "lanes \<Rightarrow> nat" where
  "pending_len q = sum_list (map (length \<circ> snd) q)"

text \<open>\<open>entry(key).or_default().push_back(p)\<close>.\<close>

fun lane_push :: "string \<Rightarrow> PendingComputeTx \<Rightarrow> lanes \<Rightarrow> lanes" where
  "lane_push key p [] = [(key, [p])]"
| "lane_push key p ((k, ps) # q) =
     (if key = k then (k, ps @ [p]) # q
      else if key < k then (key, [p]) # (k, ps) # q
      else (k, ps) # lane_push key p q)"

text \<open>\<open>now\<close> is the instant, \<open>secs\<close> the Unix time of the call.\<close>

definition submit :: "ComputeSchedulerConfig \<Rightarrow> nat \<Rightarrow> u64 \<Rightarrow> ComputeTx \<Rightarrow> lanes \<Rightarrow>
    (ComputeScheduleError + ComputeScheduleTicket) \<times> lanes" where
  "submit cfg now secs tx q =
     (if max_pending cfg \<le> pending_len q then (Inl QueueFull, q)
      else
        let key = lane_strategy cfg tx;
            pending = pending_new tx key now;
            q' = lane_push key pending q
        in (Inr \<lparr>tk_tx_id = pd_tx_id pending, tk_domain_id = pd_domain_id pending, tk_lane_key = key,
                 tk_accepted_at = secs, tk_queue_depth = pending_len q'\<rparr>, q'))"

definition aged :: "ComputeSchedulerConfig \<Rightarrow> nat \<Rightarrow> PendingComputeTx \<Rightarrow> bool" where
  "aged cfg now p \<longleftrightarrow> unat (batch_window_ms cfg) * 1000000 \<le> now - pd_enqueued_at p"

definition retain_nonempty :: "lanes \<Rightarrow> lanes" where
  "retain_nonempty q = filter (\<lambda>l. snd l \<noteq> []) q"

definition drain_ready :: "ComputeSchedulerConfig \<Rightarrow> nat \<Rightarrow> lanes \<Rightarrow> PendingComputeTx list \<times> lanes" where
  "drain_ready cfg now q =
     (concat (map (\<lambda>l. takeWhile (aged cfg now) (snd l)) q),
      retain_nonempty (map (\<lambda>l. (fst l, dropWhile (aged cfg now) (snd l))) q))"

text \<open>The first entry with the id leaves its lane.\<close>

fun lane_remove :: "TxId \<Rightarrow> PendingComputeTx list \<Rightarrow> PendingComputeTx option \<times> PendingComputeTx list" where
  "lane_remove i [] = (None, [])"
| "lane_remove i (p # ps) =
     (if pd_tx_id p = i then (Some p, ps)
      else case lane_remove i ps of (r, ps') \<Rightarrow> (r, p # ps'))"

fun take_from_lanes :: "TxId \<Rightarrow> lanes \<Rightarrow> PendingComputeTx option \<times> lanes" where
  "take_from_lanes i [] = (None, [])"
| "take_from_lanes i ((k, ps) # q) =
     (case lane_remove i ps of
        (Some p, ps') \<Rightarrow> (Some p, (k, ps') # q)
      | (None, _) \<Rightarrow> (case take_from_lanes i q of (r, q') \<Rightarrow> (r, (k, ps) # q')))"

definition take_pending :: "TxId \<Rightarrow> lanes \<Rightarrow> PendingComputeTx option \<times> lanes" where
  "take_pending i q = (case take_from_lanes i q of (r, q') \<Rightarrow> (r, retain_nonempty q'))"

subsection \<open>Invariant\<close>

definition lanes_inv :: "lanes \<Rightarrow> bool" where
  "lanes_inv q \<longleftrightarrow> sorted_wrt (<) (map fst q) \<and> (\<forall>l \<in> set q. snd l \<noteq> [])"

definition all_pending :: "lanes \<Rightarrow> PendingComputeTx multiset" where
  "all_pending q = mset (concat (map snd q))"

definition lane_of :: "lanes \<Rightarrow> string \<Rightarrow> PendingComputeTx list" where
  "lane_of q k = (case map_of q k of Some ps \<Rightarrow> ps | None \<Rightarrow> [])"

lemma pending_len_size: "pending_len q = size (all_pending q)"
  by (induction q) (simp_all add: pending_len_def all_pending_def)

lemma lane_push_keys: "set (map fst (lane_push k p q)) = insert k (set (map fst q))"
  by (induction k p q rule: lane_push.induct) auto

lemma lane_push_inv: "lanes_inv q \<Longrightarrow> lanes_inv (lane_push k p q)"
proof (induction k p q rule: lane_push.induct)
  case (2 key p k ps q)
  consider "key = k" | "key < k" | "k < key" by (meson neqE)
  then show ?case
  proof cases
    case 3
    have i: "lanes_inv q" "\<forall>k' \<in> set (map fst q). k < k'" "ps \<noteq> []"
      using "2.prems" by (auto simp: lanes_inv_def)
    have "lanes_inv (lane_push key p q)" using "2.IH" 3 i(1) by auto
    moreover have "\<forall>k' \<in> set (map fst (lane_push key p q)). k < k'"
      unfolding lane_push_keys using i(2) 3 by auto
    ultimately show ?thesis using 3 i(3) by (auto simp: lanes_inv_def)
  qed (use "2.prems" in \<open>auto simp: lanes_inv_def\<close>)
qed (simp add: lanes_inv_def)

lemma lane_push_pending: "all_pending (lane_push k p q) = add_mset p (all_pending q)"
  by (induction k p q rule: lane_push.induct) (simp_all add: all_pending_def)

lemma lane_of_push: "lanes_inv q \<Longrightarrow> lane_of (lane_push k p q) j = (if j = k then lane_of q k @ [p] else lane_of q j)"
proof (induction k p q rule: lane_push.induct)
  case (2 key p k ps q)
  have i: "lanes_inv q" "\<forall>k' \<in> set (map fst q). k < k'"
    using "2.prems" by (auto simp: lanes_inv_def)
  have "map_of q key = None" if "key \<le> k"
    using i(2) that by (auto simp: map_of_eq_None_iff)
  with "2.IH" i(1) show ?case by (auto simp: lane_of_def)
qed (simp add: lane_of_def)

lemma retain_nonempty_pending [simp]: "all_pending (retain_nonempty q) = all_pending q"
  by (induction q) (auto simp: retain_nonempty_def all_pending_def)

lemma sorted_wrt_filter_keys: "sorted_wrt (<) (map fst q) \<Longrightarrow> sorted_wrt (<) (map fst (filter P q))"
  by (induction q) auto

lemma retain_nonempty_inv: "sorted_wrt (<) (map fst q) \<Longrightarrow> lanes_inv (retain_nonempty q)"
  by (auto simp: lanes_inv_def retain_nonempty_def sorted_wrt_filter_keys)

lemma lane_of_retain:
  assumes "sorted_wrt (<) (map fst q)"
  shows "lane_of (retain_nonempty q) k = lane_of q k"
  using assms
proof (induction q)
  case (Cons l q)
  have "map_of q (fst l) = None" using Cons.prems by (fastforce simp: map_of_eq_None_iff)
  then have "map_of (filter (\<lambda>l. snd l \<noteq> []) q) (fst l) = None"
    by (auto simp: map_of_eq_None_iff)
  with Cons show ?case by (cases l) (auto simp: lane_of_def retain_nonempty_def)
qed (simp add: retain_nonempty_def)

lemma lane_remove_spec:
  "lane_remove i ps = (None, ps) \<and> (\<forall>p \<in> set ps. pd_tx_id p \<noteq> i) \<or>
   (\<exists>us p vs. ps = us @ p # vs \<and> pd_tx_id p = i \<and> (\<forall>u \<in> set us. pd_tx_id u \<noteq> i) \<and>
      lane_remove i ps = (Some p, us @ vs))"
proof (induction ps)
  case (Cons q ps)
  show ?case
  proof (cases "pd_tx_id q = i")
    case True
    then show ?thesis by (intro disjI2 exI [of _ "[]"] exI [of _ q] exI [of _ ps]) simp
  next
    case False
    from Cons.IH show ?thesis
    proof
      assume "lane_remove i ps = (None, ps) \<and> (\<forall>p \<in> set ps. pd_tx_id p \<noteq> i)"
      with False show ?thesis by simp
    next
      assume "\<exists>us p vs. ps = us @ p # vs \<and> pd_tx_id p = i \<and> (\<forall>u \<in> set us. pd_tx_id u \<noteq> i) \<and>
        lane_remove i ps = (Some p, us @ vs)"
      then obtain us p vs where "ps = us @ p # vs" "pd_tx_id p = i" "\<forall>u \<in> set us. pd_tx_id u \<noteq> i"
        "lane_remove i ps = (Some p, us @ vs)" by blast
      with False show ?thesis
        by (intro disjI2 exI [of _ "q # us"] exI [of _ p] exI [of _ vs]) simp
    qed
  qed
qed simp

lemma take_from_lanes_spec:
  "map fst (snd (take_from_lanes i q)) = map fst q \<and>
   (case fst (take_from_lanes i q) of
      None \<Rightarrow> snd (take_from_lanes i q) = q \<and> (\<forall>p \<in># all_pending q. pd_tx_id p \<noteq> i)
    | Some p \<Rightarrow> pd_tx_id p = i \<and> all_pending q = add_mset p (all_pending (snd (take_from_lanes i q))))"
proof (induction q)
  case (Cons l q)
  obtain k ps where l: "l = (k, ps)" by (cases l)
  obtain r q' where r: "take_from_lanes i q = (r, q')" by force
  from lane_remove_spec [of i ps] show ?case
  proof (elim disjE exE conjE)
    assume "lane_remove i ps = (None, ps)" "\<forall>p \<in> set ps. pd_tx_id p \<noteq> i"
    with Cons.IH r l show ?thesis by (auto simp: all_pending_def split: option.splits)
  qed (simp add: l all_pending_def)
qed (simp add: all_pending_def)

lemma lanes_inv_empty: "lanes_inv []"
  by (simp add: lanes_inv_def)

lemma submit_accepted:
  assumes "submit cfg now secs tx q = (Inr t, q')"
  shows "q' = lane_push (lane_strategy cfg tx) (pending_new tx (lane_strategy cfg tx) now) q"
    "pending_len q < max_pending cfg"
  using assms by (auto simp: submit_def Let_def split: if_splits)

lemma takeWhile_concat_pending:
  "mset (concat (map (\<lambda>l. takeWhile P (snd l)) q)) +
   all_pending (map (\<lambda>l. (fst l, dropWhile P (snd l))) q) = all_pending q"
proof (induction q)
  case (Cons l q)
  have "mset (snd l) = mset (takeWhile P (snd l)) + mset (dropWhile P (snd l))"
    by (metis mset_append takeWhile_dropWhile_id)
  moreover have "all_pending (l # q) = mset (snd l) + all_pending q" for l :: "string \<times> PendingComputeTx list" and q
    by (simp add: all_pending_def)
  ultimately show ?case using Cons.IH [symmetric] by (simp add: ac_simps)
qed (simp add: all_pending_def)

lemma drain_ready_spec:
  assumes "lanes_inv q" "drain_ready cfg now q = (rs, q')"
  shows "lanes_inv q'" "mset rs + all_pending q' = all_pending q"
    "lane_of q k = takeWhile (aged cfg now) (lane_of q k) @ lane_of q' k"
proof -
  let ?m = "map (\<lambda>l. (fst l, dropWhile (aged cfg now) (snd l))) q"
  have rs: "rs = concat (map (\<lambda>l. takeWhile (aged cfg now) (snd l)) q)" and q': "q' = retain_nonempty ?m"
    using assms(2) by (simp_all add: drain_ready_def)
  have srt: "sorted_wrt (<) (map fst ?m)" using assms(1) by (simp add: lanes_inv_def comp_def)
  show "lanes_inv q'" unfolding q' by (rule retain_nonempty_inv [OF srt])
  show "mset rs + all_pending q' = all_pending q"
    unfolding rs q' retain_nonempty_pending by (rule takeWhile_concat_pending)
  have "lane_of ?m k = dropWhile (aged cfg now) (lane_of q k)"
    by (induction q) (auto simp: lane_of_def)
  then show "lane_of q k = takeWhile (aged cfg now) (lane_of q k) @ lane_of q' k"
    by (simp add: q' lane_of_retain [OF srt])
qed

lemma take_pending_spec:
  assumes "lanes_inv q" "take_pending i q = (r, q')"
  shows "lanes_inv q'"
    "case r of None \<Rightarrow> all_pending q' = all_pending q \<and> (\<forall>p \<in># all_pending q. pd_tx_id p \<noteq> i)
     | Some p \<Rightarrow> pd_tx_id p = i \<and> all_pending q = add_mset p (all_pending q')"
  using assms take_from_lanes_spec [of i q]
  by (auto simp: take_pending_def lanes_inv_def [of q] intro!: retain_nonempty_inv
      split: prod.splits option.splits)

text \<open>A history of the scheduler: the queue, what was accepted and what was handed out.\<close>

inductive sched_run ::
  "ComputeSchedulerConfig \<Rightarrow> lanes \<Rightarrow> PendingComputeTx multiset \<Rightarrow> PendingComputeTx multiset \<Rightarrow> bool"
  for cfg where
  sched_new: "sched_run cfg [] {#} {#}"
| sched_submit: "sched_run cfg q A D \<Longrightarrow> submit cfg now secs tx q = (Inr t, q') \<Longrightarrow>
    sched_run cfg q' (add_mset (pending_new tx (lane_strategy cfg tx) now) A) D"
| sched_full: "sched_run cfg q A D \<Longrightarrow> submit cfg now secs tx q = (Inl e, q') \<Longrightarrow> sched_run cfg q' A D"
| sched_drain: "sched_run cfg q A D \<Longrightarrow> drain_ready cfg now q = (rs, q') \<Longrightarrow>
    sched_run cfg q' A (D + mset rs)"
| sched_take: "sched_run cfg q A D \<Longrightarrow> take_pending i q = (r, q') \<Longrightarrow>
    sched_run cfg q' A (D + mset (case r of None \<Rightarrow> [] | Some p \<Rightarrow> [p]))"

inductive_simps sched_run_simps: "sched_run cfg q A D"

text \<open>In every history of the scheduler the lanes stay sorted by key and non-empty, the queue
  never exceeds its bound, and the accepted transactions are exactly the ones handed out together
  with the ones still queued: none is lost and none is handed out twice.\<close>

theorem scheduler_conserves:
  assumes "sched_run cfg q A D"
  shows "lanes_inv q \<and> pending_len q \<le> max_pending cfg \<and> A = D + all_pending q"
  using assms
proof (induction rule: sched_run.induct)
  case sched_new
  show ?case by (simp add: lanes_inv_def pending_len_def all_pending_def)
next
  case (sched_submit q A D now secs tx t q')
  then show ?case using submit_accepted [OF sched_submit.hyps(2)]
    by (auto simp: lane_push_inv lane_push_pending pending_len_size)
next
  case (sched_full q A D now secs tx e q')
  then show ?case by (auto simp: submit_def Let_def split: if_splits)
next
  case (sched_drain q A D now rs q')
  note d = drain_ready_spec [OF sched_drain.IH [THEN conjunct1] sched_drain.hyps(2)]
  have "pending_len q' \<le> pending_len q"
    unfolding pending_len_size d(2) [symmetric] by simp
  with sched_drain.IH d show ?case by (auto simp: add.assoc)
next
  case (sched_take q A D i r q')
  note t = take_pending_spec [OF sched_take.IH [THEN conjunct1] sched_take.hyps(2)]
  have "pending_len q' \<le> pending_len q"
    using t(2) by (auto simp: pending_len_size split: option.splits)
  with sched_take.IH t show ?case by (auto split: option.splits)
qed

text \<open>A drain hands out, lane by lane, the longest prefix of entries that have waited for the
  batch window and leaves the rest in order; a submission goes to the end of its own lane.\<close>

theorem scheduler_fifo:
  assumes "lanes_inv q" "drain_ready cfg now q = (rs, q')" "submit cfg now' secs tx q = (Inr t, q'')"
  shows "lane_of q k = takeWhile (aged cfg now) (lane_of q k) @ lane_of q' k \<and>
    (\<forall>p \<in> set rs. aged cfg now p) \<and>
    lane_of q'' k = lane_of q k @
      (if k = tk_lane_key t then [pending_new tx (lane_strategy cfg tx) now'] else [])"
proof -
  have "\<forall>p \<in> set rs. aged cfg now p"
    using assms(2) by (auto simp: drain_ready_def dest: set_takeWhileD)
  moreover have "tk_lane_key t = lane_strategy cfg tx"
    using assms(3) by (auto simp: submit_def Let_def split: if_splits)
  ultimately show ?thesis
    using drain_ready_spec(3) [OF assms(1,2), of k] submit_accepted(1) [OF assms(3)]
      lane_of_push [OF assms(1)] by auto
qed

definition sample_config :: ComputeSchedulerConfig where
  "sample_config = default_scheduler_config sample_externals"

lemma scheduler_conserves_witness:
  "\<exists>q t. submit sample_config 0 0 sample_tx [] = (Inr t, q) \<and> pending_len q \<le> max_pending sample_config"
proof -
  obtain t q where s: "submit sample_config 0 0 sample_tx [] = (Inr t, q)"
    by (simp add: submit_def Let_def pending_len_def sample_config_def default_scheduler_config_def)
  have "sched_run sample_config q (add_mset (pending_new sample_tx (lane_strategy sample_config sample_tx) 0) {#}) {#}"
    by (rule sched_submit [OF sched_new s])
  from scheduler_conserves [OF this] s show ?thesis by blast
qed

lemma scheduler_fifo_witness:
  "\<exists>rs q' t q''. drain_ready sample_config 0 [] = (rs, q') \<and>
     submit sample_config 0 0 sample_tx [] = (Inr t, q'') \<and>
     lane_of q'' (tk_lane_key t) = [pending_new sample_tx (lane_strategy sample_config sample_tx) 0]"
proof -
  obtain t q'' where s: "submit sample_config 0 0 sample_tx [] = (Inr t, q'')"
    by (simp add: submit_def Let_def pending_len_def sample_config_def default_scheduler_config_def)
  have d: "drain_ready sample_config 0 [] = ([], [])" by (simp add: drain_ready_def retain_nonempty_def)
  from scheduler_fifo [OF lanes_inv_empty d s, of "tk_lane_key t"] s d show ?thesis
    by (auto simp: lane_of_def)
qed

end
