(* ===== verification/Store.thy ===== *)
theory Store
  imports Tx
begin

section \<open>Object stores\<close>

text \<open>
  The trait \<open>ObjectStore\<close> of \<open>compute/execution.rs\<close> and its in-memory implementation.  A store
  operation that fails leaves the store as it was, so an operation returns the error or the new
  store.  \<open>store_ops\<close> is the trait, the locale \<open>object_store\<close> the contract the executor relies
  on, \<open>reorg_store\<close> its extension by the two operations of a rollback; both are interpreted on
  the in-memory store.  The lemmas show its invariant, when the pointer to the latest version is
  right, and what undoing an operation restores.
\<close>

subsection \<open>The trait\<close>

record 's store_ops =
  get_output :: "'s \<Rightarrow> OutputId \<Rightarrow> ObjectOutput option"
  get_latest_output_by_object :: "'s \<Rightarrow> ObjectId \<Rightarrow> ObjectOutput option"
  insert_output :: "ObjectOutput \<Rightarrow> 's \<Rightarrow> ComputeError + 's"
  mark_spent :: "OutputId \<Rightarrow> 's \<Rightarrow> ComputeError + 's"
  unmark_spent :: "OutputId \<Rightarrow> 's \<Rightarrow> ComputeError + 's"
  remove_output :: "OutputId \<Rightarrow> 's \<Rightarrow> ComputeError + 's"

definition double_spend :: ComputeError where
  "double_spend = InvalidOperation ''double spend detected''"

locale object_store =
  fixes ops :: "'s store_ops" and inv :: "'s \<Rightarrow> bool"
  assumes finite_store: "inv s \<Longrightarrow> finite (dom (get_output ops s))"
    and get_key: "inv s \<Longrightarrow> get_output ops s i = Some out \<Longrightarrow> o_output_id out = i"
    and insert_fresh: "inv s \<Longrightarrow> get_output ops s (o_output_id out) = None \<Longrightarrow>
      \<exists>s'. insert_output ops out s = Inr s' \<and> inv s' \<and>
        get_output ops s' = (get_output ops s)(o_output_id out \<mapsto> out)"
    and insert_present: "inv s \<Longrightarrow> get_output ops s (o_output_id out) = Some old \<Longrightarrow>
      insert_output ops out s = Inl DuplicateOutputId"
    and mark_live: "inv s \<Longrightarrow> get_output ops s i = Some out \<Longrightarrow> \<not> o_spent out \<Longrightarrow>
      \<exists>s'. mark_spent ops i s = Inr s' \<and> inv s' \<and>
        get_output ops s' = (get_output ops s)(i \<mapsto> out\<lparr>o_spent := True\<rparr>)"
    and mark_dead: "inv s \<Longrightarrow> get_output ops s i = Some out \<Longrightarrow> o_spent out \<Longrightarrow>
      mark_spent ops i s = Inl double_spend"
    and mark_missing: "inv s \<Longrightarrow> get_output ops s i = None \<Longrightarrow>
      mark_spent ops i s = Inl (ObjectNotFound (output_raw i))"
begin

lemma insert_Inr:
  assumes "inv s" "insert_output ops out s = Inr s'"
  shows "inv s' \<and> get_output ops s (o_output_id out) = None \<and>
    get_output ops s' = (get_output ops s)(o_output_id out \<mapsto> out)"
  using insert_fresh [OF assms(1), of out] insert_present [OF assms(1), of out] assms(2)
  by (cases "get_output ops s (o_output_id out)") auto

lemma mark_Inr:
  assumes "inv s" "mark_spent ops i s = Inr s'"
  obtains out where "inv s'" "get_output ops s i = Some out" "\<not> o_spent out"
    "get_output ops s' = (get_output ops s)(i \<mapsto> out\<lparr>o_spent := True\<rparr>)"
proof (cases "get_output ops s i")
  case None
  with mark_missing [OF assms(1) None] assms(2) show thesis by simp
next
  case (Some out)
  show thesis
  proof (cases "o_spent out")
    case True
    with mark_dead [OF assms(1) Some] assms(2) show thesis by simp
  next
    case False
    with mark_live [OF assms(1) Some] assms(2) Some that show thesis by auto
  qed
qed

end

text \<open>What a rollback of a block needs beside.\<close>

locale reorg_store = object_store +
  assumes unmark_present: "inv s \<Longrightarrow> get_output ops s i = Some out \<Longrightarrow>
      \<exists>s'. unmark_spent ops i s = Inr s' \<and> inv s' \<and>
        get_output ops s' = (get_output ops s)(i \<mapsto> out\<lparr>o_spent := False\<rparr>)"
    and remove_present: "inv s \<Longrightarrow> get_output ops s i = Some out \<Longrightarrow>
      \<exists>s'. remove_output ops i s = Inr s' \<and> inv s' \<and>
        get_output ops s' = (get_output ops s)(i := None)"
begin

lemma unmark_undoes_mark:
  assumes "inv s" "mark_spent ops i s = Inr s'"
  shows "\<exists>s''. unmark_spent ops i s' = Inr s'' \<and> inv s'' \<and> get_output ops s'' = get_output ops s"
proof -
  obtain out where out: "inv s'" "get_output ops s i = Some out" "\<not> o_spent out"
    "get_output ops s' = (get_output ops s)(i \<mapsto> out\<lparr>o_spent := True\<rparr>)"
    using mark_Inr [OF assms] .
  have o: "out\<lparr>o_spent := True\<rparr>\<lparr>o_spent := False\<rparr> = out" using out(3) by simp
  have "get_output ops s' i = Some (out\<lparr>o_spent := True\<rparr>)" using out(4) by simp
  from unmark_present [OF out(1) this, unfolded o] obtain s'' where s'': "unmark_spent ops i s' = Inr s''"
    "inv s''" "get_output ops s'' = (get_output ops s')(i \<mapsto> out)" by blast
  have "get_output ops s'' = get_output ops s" unfolding s''(3) out(4) using out(2) by (auto simp: fun_eq_iff)
  with s'' show ?thesis by blast
qed

lemma remove_undoes_insert:
  assumes "inv s" "insert_output ops out s = Inr s'"
  shows "\<exists>s''. remove_output ops (o_output_id out) s' = Inr s'' \<and> inv s'' \<and>
    get_output ops s'' = get_output ops s"
proof -
  have i: "inv s'" "get_output ops s (o_output_id out) = None"
    "get_output ops s' = (get_output ops s)(o_output_id out \<mapsto> out)"
    using insert_Inr [OF assms] by blast+
  then have "get_output ops s' (o_output_id out) = Some out" by simp
  from remove_present [OF i(1) this] obtain s'' where s'': "remove_output ops (o_output_id out) s' = Inr s''"
    "inv s''" "get_output ops s'' = (get_output ops s')(o_output_id out := None)" by blast
  have "get_output ops s'' = get_output ops s" unfolding s''(3) i(3) using i(2) by (auto simp: fun_eq_iff)
  with s'' show ?thesis by blast
qed

end

subsection \<open>The in-memory store\<close>

record mem_store =
  outputs :: "OutputId \<rightharpoonup> ObjectOutput"
  latest_by_object :: "ObjectId \<rightharpoonup> OutputId"

definition mem_new :: mem_store where
  "mem_new = \<lparr>outputs = Map.empty, latest_by_object = Map.empty\<rparr>"

definition mem_get_output :: "mem_store \<Rightarrow> OutputId \<Rightarrow> ObjectOutput option" where
  "mem_get_output s i = outputs s i"

definition mem_get_latest :: "mem_store \<Rightarrow> ObjectId \<Rightarrow> ObjectOutput option" where
  "mem_get_latest s j = Option.bind (latest_by_object s j) (outputs s)"

definition mem_insert_output :: "ObjectOutput \<Rightarrow> mem_store \<Rightarrow> ComputeError + mem_store" where
  "mem_insert_output out s =
     (if outputs s (o_output_id out) \<noteq> None then Inl DuplicateOutputId
      else
        let should_update =
          (case latest_by_object s (o_object_id out) of
             Some prev_id \<Rightarrow>
               (case outputs s prev_id of Some prev \<Rightarrow> o_version prev \<le> o_version out | None \<Rightarrow> True)
           | None \<Rightarrow> True);
          latest = (if should_update
                    then (latest_by_object s)(o_object_id out \<mapsto> o_output_id out)
                    else latest_by_object s)
        in Inr \<lparr>outputs = (outputs s)(o_output_id out \<mapsto> out), latest_by_object = latest\<rparr>)"

definition mem_mark_spent :: "OutputId \<Rightarrow> mem_store \<Rightarrow> ComputeError + mem_store" where
  "mem_mark_spent i s =
     (case outputs s i of
        None \<Rightarrow> Inl (ObjectNotFound (output_raw i))
      | Some existing \<Rightarrow>
          if o_spent existing then Inl double_spend
          else Inr (s\<lparr>outputs := (outputs s)(i \<mapsto> existing\<lparr>o_spent := True\<rparr>)\<rparr>))"

definition mem_unmark_spent :: "OutputId \<Rightarrow> mem_store \<Rightarrow> ComputeError + mem_store" where
  "mem_unmark_spent i s =
     (case outputs s i of
        None \<Rightarrow> Inl (ObjectNotFound (output_raw i))
      | Some existing \<Rightarrow> Inr (s\<lparr>outputs := (outputs s)(i \<mapsto> existing\<lparr>o_spent := False\<rparr>)\<rparr>))"

definition mem_remove_output :: "OutputId \<Rightarrow> mem_store \<Rightarrow> ComputeError + mem_store" where
  "mem_remove_output i s =
     (case outputs s i of
        None \<Rightarrow> Inl (ObjectNotFound (output_raw i))
      | Some out \<Rightarrow>
          Inr \<lparr>outputs = (outputs s)(i := None),
               latest_by_object =
                 (if latest_by_object s (o_object_id out) = Some i
                  then (latest_by_object s)(o_object_id out := None)
                  else latest_by_object s)\<rparr>)"

text \<open>\<open>collect_outputs\<close> lists the values of the hash map in some order.\<close>

definition mem_collects :: "mem_store \<Rightarrow> ObjectOutput list \<Rightarrow> bool" where
  "mem_collects s xs \<longleftrightarrow>
     (\<exists>ks. distinct ks \<and> set ks = dom (outputs s) \<and> map (outputs s) ks = map Some xs)"

definition mem_ops :: "mem_store store_ops" where
  "mem_ops =
     \<lparr>get_output = mem_get_output, get_latest_output_by_object = mem_get_latest,
      insert_output = mem_insert_output, mark_spent = mem_mark_spent,
      unmark_spent = mem_unmark_spent, remove_output = mem_remove_output\<rparr>"

lemmas mem_op_defs = mem_get_output_def mem_get_latest_def mem_insert_output_def
  mem_mark_spent_def mem_unmark_spent_def mem_remove_output_def

lemma mem_ops_simps [simp]:
  "get_output mem_ops = mem_get_output" "get_latest_output_by_object mem_ops = mem_get_latest"
  "insert_output mem_ops = mem_insert_output" "mark_spent mem_ops = mem_mark_spent"
  "unmark_spent mem_ops = mem_unmark_spent" "remove_output mem_ops = mem_remove_output"
  by (simp_all add: mem_ops_def)

subsection \<open>Invariant\<close>

text \<open>Outputs are stored under their id, and the latest pointer of an object points to one of its
  outputs.\<close>

definition mem_inv :: "mem_store \<Rightarrow> bool" where
  "mem_inv s \<longleftrightarrow> finite (dom (outputs s)) \<and>
     (\<forall>i out. outputs s i = Some out \<longrightarrow> o_output_id out = i) \<and>
     (\<forall>j i. latest_by_object s j = Some i \<longrightarrow> (\<exists>out. outputs s i = Some out \<and> o_object_id out = j))"

lemma mem_inv_new: "mem_inv mem_new"
  by (simp add: mem_inv_def mem_new_def)

lemma mem_inv_insert: "mem_inv s \<Longrightarrow> mem_insert_output out s = Inr s' \<Longrightarrow> mem_inv s'"
  unfolding mem_inv_def mem_insert_output_def Let_def
  by (auto split: if_splits option.splits) (metis option.distinct(1))+

lemma mem_inv_mark: "mem_inv s \<Longrightarrow> mem_mark_spent i s = Inr s' \<Longrightarrow> mem_inv s'"
  unfolding mem_inv_def mem_mark_spent_def
  by (auto split: if_splits option.splits) (metis option.inject)+

lemma mem_inv_unmark: "mem_inv s \<Longrightarrow> mem_unmark_spent i s = Inr s' \<Longrightarrow> mem_inv s'"
  unfolding mem_inv_def mem_unmark_spent_def
  by (auto split: if_splits option.splits) (metis option.inject)+

lemma mem_inv_remove: "mem_inv s \<Longrightarrow> mem_remove_output i s = Inr s' \<Longrightarrow> mem_inv s'"
  unfolding mem_inv_def mem_remove_output_def
  by (auto split: if_splits option.splits) (metis option.inject)+

interpretation mem: object_store mem_ops mem_inv
proof (unfold_locales, unfold mem_ops_simps)
  fix s and out :: ObjectOutput
  assume "mem_inv s" "mem_get_output s (o_output_id out) = None"
  then show "\<exists>s'. mem_insert_output out s = Inr s' \<and> mem_inv s' \<and>
      mem_get_output s' = (mem_get_output s)(o_output_id out \<mapsto> out)"
    using mem_inv_insert [of s out] by (auto simp: mem_op_defs fun_eq_iff Let_def)
next
  fix s i and out :: ObjectOutput
  assume "mem_inv s" "mem_get_output s i = Some out" "\<not> o_spent out"
  then show "\<exists>s'. mem_mark_spent i s = Inr s' \<and> mem_inv s' \<and>
      mem_get_output s' = (mem_get_output s)(i \<mapsto> out\<lparr>o_spent := True\<rparr>)"
    using mem_inv_mark [of s i] by (auto simp: mem_op_defs fun_eq_iff)
qed (auto simp: mem_inv_def mem_op_defs dom_def)

interpretation mem: reorg_store mem_ops mem_inv
proof (unfold_locales, unfold mem_ops_simps)
  fix s i and out :: ObjectOutput
  assume a: "mem_inv s" "mem_get_output s i = Some out"
  show "\<exists>s'. mem_unmark_spent i s = Inr s' \<and> mem_inv s' \<and>
      mem_get_output s' = (mem_get_output s)(i \<mapsto> out\<lparr>o_spent := False\<rparr>)"
    using a mem_inv_unmark [of s i] by (auto simp: mem_op_defs fun_eq_iff)
  show "\<exists>s'. mem_remove_output i s = Inr s' \<and> mem_inv s' \<and>
      mem_get_output s' = (mem_get_output s)(i := None)"
    using a mem_inv_remove [of s i] by (auto simp: mem_op_defs fun_eq_iff)
qed

subsection \<open>The latest version of an object\<close>

text \<open>The stores reached without a removal.\<close>

inductive mem_reach :: "mem_store \<Rightarrow> bool" where
  reach_new: "mem_reach mem_new"
| reach_insert: "mem_reach s \<Longrightarrow> mem_insert_output out s = Inr s' \<Longrightarrow> mem_reach s'"
| reach_mark: "mem_reach s \<Longrightarrow> mem_mark_spent i s = Inr s' \<Longrightarrow> mem_reach s'"
| reach_unmark: "mem_reach s \<Longrightarrow> mem_unmark_spent i s = Inr s' \<Longrightarrow> mem_reach s'"

definition latest_max :: "mem_store \<Rightarrow> bool" where
  "latest_max s \<longleftrightarrow> (\<forall>i out. outputs s i = Some out \<longrightarrow>
     (\<exists>k p. latest_by_object s (o_object_id out) = Some k \<and> outputs s k = Some p \<and>
        o_version out \<le> o_version p))"

lemma latest_max_insert:
  assumes "mem_inv s" "latest_max s" "mem_insert_output out s = Inr s'"
  shows "latest_max s'"
proof -
  let ?i = "o_output_id out" and ?j = "o_object_id out"
  define b where "b \<longleftrightarrow> (case latest_by_object s ?j of
             Some prev_id \<Rightarrow>
               (case outputs s prev_id of Some prev \<Rightarrow> o_version prev \<le> o_version out | None \<Rightarrow> True)
           | None \<Rightarrow> True)"
  have fresh: "outputs s ?i = None" and s': "outputs s' = (outputs s)(?i \<mapsto> out)"
    "latest_by_object s' = (if b then (latest_by_object s)(?j \<mapsto> ?i) else latest_by_object s)"
    using assms(3) by (auto simp: mem_insert_output_def b_def Let_def split: if_splits)
  have "\<exists>k p. latest_by_object s' (o_object_id q) = Some k \<and> outputs s' k = Some p \<and> o_version q \<le> o_version p"
    if q: "outputs s' i = Some q" for i q
  proof (cases "b \<and> o_object_id q = ?j")
    case True
    have "o_version q \<le> o_version out"
    proof (cases "i = ?i")
      case False
      then obtain k p where "latest_by_object s ?j = Some k" "outputs s k = Some p" "o_version q \<le> o_version p"
        using q assms(2) True unfolding latest_max_def s'(1) by (metis fun_upd_other)
      with True show ?thesis by (auto simp: b_def)
    qed (use q s'(1) in simp)
    with True show ?thesis by (auto simp: s')
  next
    case False
    show ?thesis
    proof (cases "i = ?i")
      case True
      with q s'(1) False have "q = out" "\<not> b" by auto
      then obtain k p where "latest_by_object s ?j = Some k" "outputs s k = Some p" "o_version q \<le> o_version p"
        by (auto simp: b_def split: option.splits)
      moreover have "k \<noteq> ?i" using calculation fresh by auto
      ultimately show ?thesis using \<open>q = out\<close> \<open>\<not> b\<close> by (auto simp: s')
    next
      case i: False
      then obtain k p where k: "latest_by_object s (o_object_id q) = Some k" "outputs s k = Some p"
          "o_version q \<le> o_version p"
        using q assms(2) unfolding latest_max_def s'(1) by (metis fun_upd_other)
      moreover have "k \<noteq> ?i" using k fresh by auto
      ultimately show ?thesis using False by (auto simp: s')
    qed
  qed
  then show ?thesis by (simp add: latest_max_def)
qed

lemma latest_max_flag:
  assumes "latest_max s" "outputs s i = Some out"
  shows "latest_max (s\<lparr>outputs := (outputs s)(i \<mapsto> out\<lparr>o_spent := b\<rparr>)\<rparr>)"
  unfolding latest_max_def
proof (intro allI impI)
  fix k q
  assume "outputs (s\<lparr>outputs := (outputs s)(i \<mapsto> out\<lparr>o_spent := b\<rparr>)\<rparr>) k = Some q"
  then obtain q' where q': "outputs s k = Some q'" "o_object_id q = o_object_id q'" "o_version q = o_version q'"
    using assms(2) by (cases "k = i") auto
  then obtain m p where "latest_by_object s (o_object_id q') = Some m" "outputs s m = Some p"
    "o_version q' \<le> o_version p" using assms(1) unfolding latest_max_def by metis
  then show "\<exists>k p. latest_by_object (s\<lparr>outputs := (outputs s)(i \<mapsto> out\<lparr>o_spent := b\<rparr>)\<rparr>) (o_object_id q) = Some k \<and>
      outputs (s\<lparr>outputs := (outputs s)(i \<mapsto> out\<lparr>o_spent := b\<rparr>)\<rparr>) k = Some p \<and> o_version q \<le> o_version p"
    using q' assms(2) by (cases "m = i") auto
qed

lemma reach_invariants: "mem_reach s \<Longrightarrow> mem_inv s \<and> latest_max s"
proof (induction rule: mem_reach.induct)
  case reach_new
  show ?case by (simp add: mem_inv_new) (simp add: latest_max_def mem_new_def)
next
  case (reach_insert s out s')
  then show ?case using mem_inv_insert latest_max_insert by blast
next
  case (reach_mark s i s')
  then have "latest_max s'"
    by (auto simp: mem_mark_spent_def intro!: latest_max_flag split: option.splits if_splits)
  with reach_mark show ?case using mem_inv_mark by blast
next
  case (reach_unmark s i s')
  then have "latest_max s'"
    by (auto simp: mem_unmark_spent_def intro!: latest_max_flag split: option.splits)
  with reach_unmark show ?case using mem_inv_unmark by blast
qed

text \<open>In a store reached by insertions, spending and unspending, the latest output of an object
  is one of its stored outputs with the greatest version, and it is missing only when the object
  has no output at all.\<close>

theorem get_latest_is_newest:
  assumes "mem_reach s"
  shows "case mem_get_latest s j of
      Some p \<Rightarrow> p \<in> ran (outputs s) \<and> o_object_id p = j \<and>
        (\<forall>out \<in> ran (outputs s). o_object_id out = j \<longrightarrow> o_version out \<le> o_version p)
    | None \<Rightarrow> \<forall>out \<in> ran (outputs s). o_object_id out \<noteq> j"
proof -
  have inv: "mem_inv s" and mx: "latest_max s" using reach_invariants [OF assms] by auto
  have newest: "\<exists>k p. latest_by_object s (o_object_id out) = Some k \<and> outputs s k = Some p \<and>
      o_version out \<le> o_version p" if "out \<in> ran (outputs s)" for out
    using mx that unfolding latest_max_def ran_def by blast
  show ?thesis
  proof (cases "latest_by_object s j")
    case None
    then have "o_object_id out \<noteq> j" if "out \<in> ran (outputs s)" for out
      using newest [OF that] by auto
    with None show ?thesis by (simp add: mem_get_latest_def)
  next
    case (Some k)
    then obtain p where p: "outputs s k = Some p" "o_object_id p = j"
      using inv unfolding mem_inv_def by blast
    have "o_version out \<le> o_version p" if "out \<in> ran (outputs s)" "o_object_id out = j" for out
      using newest [OF that(1)] that(2) Some p by auto
    with Some p show ?thesis by (auto simp: mem_get_latest_def ranI)
  qed
qed

text \<open>Rolling back the newest output of an object loses the pointer to the version before: after
  inserting a newer output and removing it again the stored outputs are those from before, but the
  object has no latest output any more.\<close>

theorem remove_output_forgets_latest:
  assumes "mem_inv s" "mem_get_latest s j = Some prev" "o_object_id out = j"
    "o_version prev \<le> o_version out" "mem_get_output s (o_output_id out) = None"
  shows "\<exists>s' s''. mem_insert_output out s = Inr s' \<and> mem_remove_output (o_output_id out) s' = Inr s'' \<and>
    outputs s'' = outputs s \<and> mem_get_latest s'' j = None"
  using assms by (auto simp: mem_op_defs bind_eq_Some_conv fun_eq_iff)

definition sample_output :: "nat \<Rightarrow> nat \<Rightarrow> ObjectOutput" where
  "sample_output i v =
     \<lparr>o_output_id = OutputId (of_nat i), o_object_id = ObjectId 7, o_version = Version (of_nat v),
      o_domain_id = DomainId 0, o_kind = Asset, o_owner = OwnerShared, o_predecessor = None,
      o_state = [], o_state_root = None, o_resources = [(1, Amount 5)], o_lock = Script_default,
      o_logic = None, o_created_at = 0, o_ttl = None, o_rent_reserve = None, o_flags = 0,
      o_extensions = [], o_spent = False\<rparr>"

definition sample_store :: mem_store where
  "sample_store =
     \<lparr>outputs = [OutputId 1 \<mapsto> sample_output 1 1], latest_by_object = [ObjectId 7 \<mapsto> OutputId 1]\<rparr>"

lemma sample_store_reach: "mem_reach sample_store"
proof -
  have "mem_insert_output (sample_output 1 1) mem_new = Inr sample_store"
    by (simp add: mem_insert_output_def mem_new_def sample_store_def sample_output_def)
  then show ?thesis using reach_new reach_insert by blast
qed

lemma get_latest_is_newest_witness:
  "case mem_get_latest sample_store (ObjectId 7) of
     Some p \<Rightarrow> o_version (sample_output 1 1) \<le> o_version p | None \<Rightarrow> False"
  using get_latest_is_newest [OF sample_store_reach, of "ObjectId 7"]
  by (auto simp: sample_store_def sample_output_def mem_get_latest_def)

lemma remove_output_forgets_latest_witness:
  "\<exists>s' s''. mem_insert_output (sample_output 2 2) sample_store = Inr s' \<and>
     mem_remove_output (OutputId 2) s' = Inr s'' \<and>
     outputs s'' = outputs sample_store \<and> mem_get_latest s'' (ObjectId 7) = None"
proof -
  have "mem_inv sample_store" using reach_invariants [OF sample_store_reach] by simp
  from remove_output_forgets_latest [OF this, of "ObjectId 7" "sample_output 1 1" "sample_output 2 2"]
  show ?thesis
    by (simp add: sample_store_def sample_output_def mem_get_latest_def mem_get_output_def
        less_eq_Version_def)
qed

end
