(* ===== verification/Policy.thy ===== *)
theory Policy
  imports Tx "HOL-Library.AList"
begin

section \<open>Authorisation and resource policies\<close>

text \<open>
  \<open>compute/policy.rs\<close>: the default authorisation policy (signature threshold, ownership of the
  inputs, lock scripts) and the default resource policy (conservation of amounts, counts of the
  other values, fees in the native asset).  Loops with early returns are \<open>for_each\<close> and
  \<open>try_fold\<close>; the \<open>HashMap\<close> of counters is an association list updated in place.  The lemmas
  show what an accepted transaction guarantees: conservation per asset, and a verified signature
  for every input owned by an address or a key.
\<close>

subsection \<open>Signatures\<close>

definition address_from_ed25519_public_key :: "externals \<Rightarrow> u8 list \<Rightarrow> ComputeError + address" where
  "address_from_ed25519_public_key x pk =
     (if length pk \<noteq> 32 then Inl InvalidSignature else Inr (ucast (keccak256 x pk)))"

definition signing_message_for_tx :: "ComputeTx \<Rightarrow> u8 list" where
  "signing_message_for_tx tx = signing_preimage tx"

fun ed25519_signature_matches_address_owner ::
  "externals \<Rightarrow> ComputeTx \<Rightarrow> address \<Rightarrow> TxSignature list \<Rightarrow> ComputeError + bool" where
  "ed25519_signature_matches_address_owner x tx owner [] = Inr False"
| "ed25519_signature_matches_address_owner x tx owner (s # ss) =
     (if scheme s \<noteq> SchemeEd25519 then ed25519_signature_matches_address_owner x tx owner ss
      else case public_key s of
        None \<Rightarrow> Inl InvalidSignature
      | Some pk \<Rightarrow>
          if length pk \<noteq> 32 then Inl InvalidSignature
          else and_then (address_from_ed25519_public_key x pk) (\<lambda>derived.
            if derived \<noteq> owner then ed25519_signature_matches_address_owner x tx owner ss
            else if \<not> vk_ok x pk then Inl InvalidSignature
            else if \<not> sig_ok x (sig_bytes s) then Inl InvalidSignature
            else if ed_verify x pk (signing_message_for_tx tx) (sig_bytes s) then Inr True
            else ed25519_signature_matches_address_owner x tx owner ss))"

fun ed25519_owner_loop ::
  "externals \<Rightarrow> ComputeTx \<Rightarrow> u8 list \<Rightarrow> TxSignature list \<Rightarrow> ComputeError + bool" where
  "ed25519_owner_loop x tx owner_pubkey [] = Inr False"
| "ed25519_owner_loop x tx owner_pubkey (s # ss) =
     (if scheme s \<noteq> SchemeEd25519 then ed25519_owner_loop x tx owner_pubkey ss
      else case public_key s of
        None \<Rightarrow> Inl InvalidSignature
      | Some pk \<Rightarrow>
          if length pk \<noteq> 32 then Inl InvalidSignature
          else if pk \<noteq> owner_pubkey then ed25519_owner_loop x tx owner_pubkey ss
          else if \<not> sig_ok x (sig_bytes s) then Inl InvalidSignature
          else if ed_verify x owner_pubkey (signing_message_for_tx tx) (sig_bytes s) then Inr True
          else ed25519_owner_loop x tx owner_pubkey ss)"

definition ed25519_signature_matches_owner ::
  "externals \<Rightarrow> ComputeTx \<Rightarrow> hash \<Rightarrow> TxSignature list \<Rightarrow> ComputeError + bool" where
  "ed25519_signature_matches_owner x tx owner_pubkey ss =
     (if \<not> vk_ok x (be_bytes owner_pubkey) then Inl OwnershipCheckFailed
      else ed25519_owner_loop x tx (be_bytes owner_pubkey) ss)"

subsection \<open>Lock scripts\<close>

text \<open>\<open>str::from_utf8\<close>: the well-formed byte sequences of the Unicode standard.\<close>

definition cont_byte :: "u8 \<Rightarrow> bool" where
  "cont_byte b \<longleftrightarrow> 0x80 \<le> b \<and> b \<le> 0xBF"

definition utf8_pair_ok :: "u8 \<Rightarrow> u8 \<Rightarrow> bool" where
  "utf8_pair_ok a b \<longleftrightarrow> 0xC2 \<le> a \<and> a \<le> 0xDF \<and> cont_byte b"

definition utf8_triple_ok :: "u8 \<Rightarrow> u8 \<Rightarrow> u8 \<Rightarrow> bool" where
  "utf8_triple_ok a b c \<longleftrightarrow> 0xE0 \<le> a \<and> a \<le> 0xEF \<and> cont_byte b \<and> cont_byte c \<and>
     (a = 0xE0 \<longrightarrow> 0xA0 \<le> b) \<and> (a = 0xED \<longrightarrow> b \<le> 0x9F)"

definition utf8_quad_ok :: "u8 \<Rightarrow> u8 \<Rightarrow> u8 \<Rightarrow> u8 \<Rightarrow> bool" where
  "utf8_quad_ok a b c d \<longleftrightarrow> 0xF0 \<le> a \<and> a \<le> 0xF4 \<and> cont_byte b \<and> cont_byte c \<and> cont_byte d \<and>
     (a = 0xF0 \<longrightarrow> 0x90 \<le> b) \<and> (a = 0xF4 \<longrightarrow> b \<le> 0x8F)"

fun utf8_valid :: "u8 list \<Rightarrow> bool" where
  "utf8_valid [] = True"
| "utf8_valid (a # bs) =
     (if a < 0x80 then utf8_valid bs
      else case bs of
        [] \<Rightarrow> False
      | b # cs \<Rightarrow>
          if utf8_pair_ok a b then utf8_valid cs
          else case cs of
            [] \<Rightarrow> False
          | c # ds \<Rightarrow>
              if utf8_triple_ok a b c then utf8_valid ds
              else case ds of
                [] \<Rightarrow> False
              | d # es \<Rightarrow> utf8_quad_ok a b c d \<and> utf8_valid es)"

definition starts_with :: "string \<Rightarrow> string \<Rightarrow> bool" where
  "starts_with pat s \<longleftrightarrow> take (length pat) s = pat"

text \<open>\<open>trim_start_matches\<close> strips the prefix as often as it occurs.\<close>

function trim_start_matches :: "string \<Rightarrow> string \<Rightarrow> string" where
  "trim_start_matches pat s =
     (if pat \<noteq> [] \<and> starts_with pat s then trim_start_matches pat (drop (length pat) s) else s)"
  by pat_completeness auto

termination
proof (relation "measure (\<lambda>(pat, s). length s)")
  fix pat s :: string
  assume a: "pat \<noteq> [] \<and> starts_with pat s"
  then have "length pat \<le> length s" by (metis starts_with_def length_take min.cobounded1)
  moreover have "0 < length pat" using a by simp
  ultimately have "length s - length pat < length s" by arith
  then show "((pat, drop (length pat) s), pat, s) \<in> measure (\<lambda>(pat, s). length s)" by simp
qed simp

declare trim_start_matches.simps [simp del]

definition evaluate_lock_script :: "externals \<Rightarrow> Script \<Rightarrow> ComputeTx \<Rightarrow> ComputeError + unit" where
  "evaluate_lock_script x lock tx =
     (if code lock = [] then Inr ()
      else if vm lock \<notin> {0, 1}
      then Inl (InvalidOperation (''unsupported lock vm: '' @ show_nat (unat (vm lock))))
      else if \<not> utf8_valid (code lock)
      then Inl (InvalidOperation ''lock script must be utf8'')
      else
        let expr = bytes_str (code lock) in
        if expr = ''ALLOW'' then Inr ()
        else if expr = ''REQUIRE_SIG'' then
          (if signatures (witness tx) = [] then Inl AuthorizationDenied else Inr ())
        else if expr = ''REQUIRE_ED25519'' then
          (if list_ex (\<lambda>s. scheme s = SchemeEd25519) (signatures (witness tx)) then Inr ()
           else Inl AuthorizationDenied)
        else if starts_with ''PAYLOAD_EQ:'' expr then
          (case hex_decode x (trim_start_matches ''PAYLOAD_EQ:'' expr) of
             Inl e \<Rightarrow> Inl (InvalidOperation (''invalid PAYLOAD_EQ hex: '' @ e))
           | Inr expected \<Rightarrow> if expected = payload tx then Inr () else Inl AuthorizationDenied)
        else Inl (InvalidOperation (''unsupported lock expression: '' @ expr)))"

subsection \<open>Authorisation\<close>

definition check_system_owner :: "ObjectOutput \<Rightarrow> ComputeError + unit" where
  "check_system_owner inp =
     (case o_owner inp of
        OwnerProgram _ \<Rightarrow> Inr () | OwnerShared \<Rightarrow> Inr () | _ \<Rightarrow> Inl AuthorizationDenied)"

definition check_owner_present :: "ObjectOutput \<Rightarrow> ComputeError + unit" where
  "check_owner_present inp =
     (case o_owner inp of
        OwnerAddress a \<Rightarrow> (if a = 0 then Inl OwnershipCheckFailed else Inr ())
      | _ \<Rightarrow> Inr ())"

definition owner_match_result :: "ComputeError + bool \<Rightarrow> ComputeError + unit" where
  "owner_match_result r =
     and_then r (\<lambda>b. if b then Inr () else Inl SignatureOwnerMismatch)"

definition check_owner_signature :: "externals \<Rightarrow> ComputeTx \<Rightarrow> ObjectOutput \<Rightarrow> ComputeError + unit" where
  "check_owner_signature x tx inp =
     (case o_owner inp of
        OwnerAddress a \<Rightarrow>
          if signatures (witness tx) = [] then Inl AuthorizationDenied
          else owner_match_result
                 (ed25519_signature_matches_address_owner x tx a (signatures (witness tx)))
      | OwnerEd25519 k \<Rightarrow>
          if signatures (witness tx) = [] then Inl AuthorizationDenied
          else owner_match_result
                 (ed25519_signature_matches_owner x tx k (signatures (witness tx)))
      | _ \<Rightarrow> Inr ())"

definition authorize :: "externals \<Rightarrow> ComputeTx \<Rightarrow> ObjectOutput list \<Rightarrow> ComputeError + unit" where
  "authorize x tx inputs =
     (if \<not> has_consistent_tx_id x tx then Inl TxIdMismatch
      else
        let required = unat (required_threshold tx) in
        if required = 0 then Inl AuthorizationDenied
        else if length (signatures (witness tx)) < required then Inl AuthorizationDenied
        else
          and_then (if tx_command tx \<in> {CmdMint, CmdBurn} then for_each check_system_owner inputs
                    else Inr ()) (\<lambda>_.
          and_then (if tx_command tx \<in> {CmdTransfer, CmdInvoke}
                    then and_then (for_each check_owner_present inputs) (\<lambda>_.
                         for_each (check_owner_signature x tx) inputs)
                    else Inr ()) (\<lambda>_.
          for_each (\<lambda>inp. evaluate_lock_script x (o_lock inp) tx) inputs)))"

subsection \<open>Resource accounting\<close>

datatype ResourceKind = KAmount | KData | KRef | KRefBatch

record ResourceCounter =
  input_amount :: u128
  output_amount :: u128
  input_non_amount :: u64
  output_non_amount :: u64
  rc_kind :: "ResourceKind option"

definition ResourceCounter_default :: ResourceCounter where
  "ResourceCounter_default =
     \<lparr>input_amount = 0, output_amount = 0, input_non_amount = 0, output_non_amount = 0,
      rc_kind = None\<rparr>"

fun kind_of_value :: "ResourceValue \<Rightarrow> ResourceKind" where
  "kind_of_value (Amount _) = KAmount"
| "kind_of_value (Data _) = KData"
| "kind_of_value (Ref _) = KRef"
| "kind_of_value (RefBatch _) = KRefBatch"

definition validate_resource_map :: "ResourceMap \<Rightarrow> ComputeError + unit" where
  "validate_resource_map rs =
     (if successively (\<lambda>a b. \<not> fst a \<ge> fst b) rs then Inr () else Inl ResourcePolicyViolation)"

type_synonym counters = "(hash \<times> ResourceCounter) list"

definition counter_of :: "counters \<Rightarrow> hash \<Rightarrow> ResourceCounter" where
  "counter_of cs a = (case map_of cs a of Some c \<Rightarrow> c | None \<Rightarrow> ResourceCounter_default)"

definition count_value :: "ResourceValue \<Rightarrow> bool \<Rightarrow> ResourceCounter \<Rightarrow> ComputeError + ResourceCounter" where
  "count_value v input_side c =
     (case v of
        Amount n \<Rightarrow>
          if input_side
          then and_then (ok_or (checked_add (input_amount c) n) ResourcePolicyViolation)
                 (\<lambda>s. Inr (c\<lparr>input_amount := s\<rparr>))
          else and_then (ok_or (checked_add (output_amount c) n) ResourcePolicyViolation)
                 (\<lambda>s. Inr (c\<lparr>output_amount := s\<rparr>))
      | _ \<Rightarrow>
          if input_side
          then and_then (ok_or (checked_add (input_non_amount c) 1) ResourcePolicyViolation)
                 (\<lambda>s. Inr (c\<lparr>input_non_amount := s\<rparr>))
          else and_then (ok_or (checked_add (output_non_amount c) 1) ResourcePolicyViolation)
                 (\<lambda>s. Inr (c\<lparr>output_non_amount := s\<rparr>)))"

definition update_resource_counter ::
  "hash \<Rightarrow> ResourceValue \<Rightarrow> bool \<Rightarrow> counters \<Rightarrow> ComputeError + counters" where
  "update_resource_counter asset_id v input_side cs =
     (let entry = counter_of cs asset_id; k = kind_of_value v in
      and_then
        (case rc_kind entry of
           Some existing \<Rightarrow> if existing \<noteq> k then Inl ResourcePolicyViolation else Inr entry
         | None \<Rightarrow> Inr (entry\<lparr>rc_kind := Some k\<rparr>)) (\<lambda>entry.
      and_then (count_value v input_side entry) (\<lambda>entry.
      Inr (AList.update asset_id entry cs))))"

definition add_resources :: "bool \<Rightarrow> ResourceMap \<Rightarrow> counters \<Rightarrow> ComputeError + counters" where
  "add_resources input_side rs cs =
     and_then (validate_resource_map rs) (\<lambda>_.
       try_fold (\<lambda>(a, v). update_resource_counter a v input_side) rs cs)"

definition aggregate_resources :: "ComputeTx \<Rightarrow> ObjectOutput list \<Rightarrow> ComputeError + counters" where
  "aggregate_resources tx inputs =
     and_then (try_fold (\<lambda>i. add_resources True (o_resources i)) inputs []) (\<lambda>cs.
       try_fold (\<lambda>p. add_resources False (p_resources p)) (output_proposals tx) cs)"

definition native_asset_id :: hash where
  "native_asset_id = 0"

definition conserves :: "ResourceCounter \<Rightarrow> ComputeError + unit" where
  "conserves c =
     (if input_amount c < output_amount c then Inl ResourcePolicyViolation
      else if input_non_amount c < output_non_amount c then Inl ResourcePolicyViolation
      else Inr ())"

definition required_native :: "ComputeTx \<Rightarrow> ResourceCounter \<Rightarrow> u128 option" where
  "required_native tx native =
     (case checked_add (output_amount native) (ucast (tx_fee tx)) of
        None \<Rightarrow> None
      | Some v \<Rightarrow> checked_add v (ucast (priority_fee tx)))"

definition check_resources :: "ComputeTx \<Rightarrow> ObjectOutput list \<Rightarrow> ComputeError + unit" where
  "check_resources tx inputs =
     and_then (aggregate_resources tx inputs) (\<lambda>counters.
     and_then (if tx_command tx \<noteq> CmdMint then for_each conserves (map snd counters) else Inr ()) (\<lambda>_.
       let native = counter_of counters native_asset_id in
       if tx_command tx = CmdMint
       then (if tx_fee tx \<noteq> 0 \<or> max_fee tx \<noteq> 0 \<or> priority_fee tx \<noteq> 0
             then Inl ResourcePolicyViolation else Inr ())
       else and_then (ok_or (required_native tx native) ResourcePolicyViolation) (\<lambda>required.
         if input_amount native < required then Inl ResourcePolicyViolation else Inr ())))"

subsection \<open>Conservation\<close>

text \<open>The amount, and the number of other values, of an asset in a list of entries.\<close>

definition value_amount :: "ResourceValue \<Rightarrow> nat" where
  "value_amount v = (case v of Amount n \<Rightarrow> unat n | _ \<Rightarrow> 0)"

definition value_count :: "ResourceValue \<Rightarrow> nat" where
  "value_count v = (case v of Amount _ \<Rightarrow> 0 | _ \<Rightarrow> 1)"

definition asset_sum :: "(ResourceValue \<Rightarrow> nat) \<Rightarrow> hash \<Rightarrow> ResourceMap \<Rightarrow> nat" where
  "asset_sum f a es = sum_list (map (\<lambda>(b, v). if b = a then f v else 0) es)"

abbreviation asset_amount :: "hash \<Rightarrow> ResourceMap \<Rightarrow> nat" where
  "asset_amount \<equiv> asset_sum value_amount"

abbreviation asset_count :: "hash \<Rightarrow> ResourceMap \<Rightarrow> nat" where
  "asset_count \<equiv> asset_sum value_count"

lemma asset_sum_simps [simp]:
  "asset_sum f a [] = 0"
  "asset_sum f a ((b, v) # es) = (if b = a then f v else 0) + asset_sum f a es"
  "asset_sum f a (es @ es') = asset_sum f a es + asset_sum f a es'"
  by (simp_all add: asset_sum_def)

definition input_entries :: "ObjectOutput list \<Rightarrow> ResourceMap" where
  "input_entries inputs = concat (map o_resources inputs)"

definition output_entries :: "ComputeTx \<Rightarrow> ResourceMap" where
  "output_entries tx = concat (map p_resources (output_proposals tx))"

text \<open>The two sides of a counter, as numbers.\<close>

definition amounts :: "bool \<Rightarrow> ResourceCounter \<Rightarrow> nat" where
  "amounts side c = unat (if side then input_amount c else output_amount c)"

definition counts :: "bool \<Rightarrow> ResourceCounter \<Rightarrow> nat" where
  "counts side c = unat (if side then input_non_amount c else output_non_amount c)"

lemma counter_of_simps [simp]:
  "counter_of [] a = ResourceCounter_default"
  "counter_of (AList.update a c cs) b = (if a = b then c else counter_of cs b)"
  by (simp_all add: counter_of_def update_conv)

lemma count_value_Inr:
  assumes "count_value v side c = Inr c'"
  shows "amounts s c' = amounts s c + (if s = side then value_amount v else 0)"
    "counts s c' = counts s c + (if s = side then value_count v else 0)"
    "rc_kind c' = rc_kind c"
  using assms
  by (cases v; auto simp: count_value_def amounts_def counts_def value_amount_def value_count_def
      result_simps checked_add_Some split: if_splits)+

lemma update_resource_counter_Inr:
  assumes "update_resource_counter a v side cs = Inr cs'"
  shows "amounts s (counter_of cs' b)
      = amounts s (counter_of cs b) + (if a = b \<and> s = side then value_amount v else 0)"
    "counts s (counter_of cs' b)
      = counts s (counter_of cs b) + (if a = b \<and> s = side then value_count v else 0)"
    "rc_kind (counter_of cs' b)
      = (if a = b then Some (kind_of_value v) else rc_kind (counter_of cs b))"
    "rc_kind (counter_of cs a) \<in> {None, Some (kind_of_value v)}"
    "set (map fst cs') = insert a (set (map fst cs))"
proof -
  obtain e e' where e: "rc_kind (counter_of cs a) = None \<and> e = (counter_of cs a)\<lparr>rc_kind := Some (kind_of_value v)\<rparr>
        \<or> rc_kind (counter_of cs a) = Some (kind_of_value v) \<and> e = counter_of cs a"
    and c: "count_value v side e = Inr e'" and cs': "cs' = AList.update a e' cs"
    using assms
    by (auto simp: update_resource_counter_def Let_def result_simps split: option.splits if_splits)
  have e1: "amounts s e = amounts s (counter_of cs a)" "counts s e = counts s (counter_of cs a)"
    "rc_kind e = Some (kind_of_value v)" using e by (auto simp: amounts_def counts_def)
  note cv = count_value_Inr(1,2) [OF c, of s] count_value_Inr(3) [OF c]
  show "amounts s (counter_of cs' b)
      = amounts s (counter_of cs b) + (if a = b \<and> s = side then value_amount v else 0)"
    using cv e1 by (auto simp: cs')
  show "counts s (counter_of cs' b)
      = counts s (counter_of cs b) + (if a = b \<and> s = side then value_count v else 0)"
    using cv e1 by (auto simp: cs')
  show "rc_kind (counter_of cs' b)
      = (if a = b then Some (kind_of_value v) else rc_kind (counter_of cs b))"
    using cv e1 by (auto simp: cs')
  show "rc_kind (counter_of cs a) \<in> {None, Some (kind_of_value v)}" using e by auto
  show "set (map fst cs') = insert a (set (map fst cs))" by (auto simp: cs' dom_update)
qed

text \<open>The counters account for the entries read so far, \<open>E True\<close> of the inputs and \<open>E False\<close>
  of the outputs.\<close>

definition ledger :: "(bool \<Rightarrow> ResourceMap) \<Rightarrow> counters \<Rightarrow> bool" where
  "ledger E cs \<longleftrightarrow> (\<forall>a s.
     amounts s (counter_of cs a) = asset_amount a (E s) \<and>
     counts s (counter_of cs a) = asset_count a (E s) \<and>
     (\<forall>v. (a, v) \<in> set (E s) \<longrightarrow> rc_kind (counter_of cs a) = Some (kind_of_value v)))"

lemma ledger_empty: "ledger (\<lambda>_. []) []"
  by (simp add: ledger_def amounts_def counts_def ResourceCounter_default_def)

lemma ledger_step:
  assumes "ledger E cs" "update_resource_counter a v side cs = Inr cs'"
  shows "ledger (E(side := E side @ [(a, v)])) cs'"
  using assms(1) update_resource_counter_Inr [OF assms(2)]
  by (fastforce simp: ledger_def split: if_splits)

lemma ledger_entries:
  assumes "ledger E cs" "try_fold (\<lambda>(a, v). update_resource_counter a v side) rs cs = Inr cs'"
  shows "ledger (E(side := E side @ rs)) cs'"
  using assms
proof (induction rs arbitrary: E cs)
  case (Cons r rs)
  obtain a v where r: "r = (a, v)" by (cases r)
  obtain c where c: "update_resource_counter a v side cs = Inr c"
    "try_fold (\<lambda>(a, v). update_resource_counter a v side) rs c = Inr cs'"
    using Cons.prems(2) by (auto simp: r result_simps)
  show ?case using Cons.IH [OF ledger_step [OF Cons.prems(1) c(1)] c(2)]
    by (simp add: r fun_upd_def if_distrib cong: if_cong)
qed simp

lemma ledger_maps:
  assumes "ledger E cs" "try_fold (\<lambda>i. add_resources side (f i)) is cs = Inr cs'"
  shows "ledger (E(side := E side @ concat (map f is))) cs'"
  using assms
proof (induction "is" arbitrary: E cs)
  case (Cons i "is")
  obtain c where c: "try_fold (\<lambda>(a, v). update_resource_counter a v side) (f i) cs = Inr c"
    "try_fold (\<lambda>i. add_resources side (f i)) is c = Inr cs'"
    using Cons.prems(2) by (auto simp: add_resources_def [of side "f i"] result_simps)
  show ?case using Cons.IH [OF ledger_entries [OF Cons.prems(1) c(1)] c(2)]
    by (simp add: fun_upd_def if_distrib cong: if_cong)
qed simp

lemma ledger_aggregate:
  assumes "aggregate_resources tx inputs = Inr cs"
  shows "ledger (\<lambda>side. if side then input_entries inputs else output_entries tx) cs"
proof -
  obtain c where c: "try_fold (\<lambda>i. add_resources True (o_resources i)) inputs [] = Inr c"
    "try_fold (\<lambda>p. add_resources False (p_resources p)) (output_proposals tx) c = Inr cs"
    using assms by (auto simp: aggregate_resources_def result_simps)
  have "(\<lambda>side. if side then input_entries inputs else output_entries tx)
      = ((\<lambda>_. [])(True := [] @ concat (map o_resources inputs)))
          (False := [] @ concat (map p_resources (output_proposals tx)))"
    by (auto simp: input_entries_def output_entries_def)
  with ledger_maps [OF ledger_maps [OF ledger_empty c(1)] c(2)] show ?thesis by simp
qed

lemma required_native_Some:
  assumes "required_native tx n = Some r"
  shows "unat r = unat (output_amount n) + unat (tx_fee tx) + unat (priority_fee tx)"
proof -
  have u: "unat (ucast (w :: u64) :: u128) = unat w" for w
    using unat_word_less [of w] by (simp add: unsigned_ucast_eq take_bit_nat_eq_self)
  show ?thesis using assms
    by (auto simp: required_native_def checked_add_Some u split: option.splits)
qed

lemma check_resources_conserves_all:
  assumes "check_resources tx inputs = Inr ()" "tx_command tx \<noteq> CmdMint"
  shows "asset_amount a (output_entries tx) \<le> asset_amount a (input_entries inputs) \<and>
    asset_count a (output_entries tx) \<le> asset_count a (input_entries inputs) \<and>
    asset_amount native_asset_id (output_entries tx) + unat (tx_fee tx) + unat (priority_fee tx)
      \<le> asset_amount native_asset_id (input_entries inputs)"
proof -
  obtain cs r where cs: "aggregate_resources tx inputs = Inr cs"
    and each: "for_each conserves (map snd cs) = Inr ()"
    and r: "required_native tx (counter_of cs native_asset_id) = Some r"
    and le: "r \<le> input_amount (counter_of cs native_asset_id)"
    using assms by (auto simp: check_resources_def Let_def result_simps split: if_splits)
  note L = ledger_aggregate [OF cs, unfolded ledger_def, rule_format]
  have "conserves (counter_of cs b) = Inr ()" for b
  proof (cases "map_of cs b")
    case (Some c)
    then have "c \<in> set (map snd cs)" by (force dest: map_of_SomeD)
    with each Some show ?thesis by (simp add: counter_of_def for_each_Inr del: set_map)
  qed (simp add: counter_of_def ResourceCounter_default_def conserves_def)
  from this [of a] have "amounts False (counter_of cs a) \<le> amounts True (counter_of cs a)"
    "counts False (counter_of cs a) \<le> counts True (counter_of cs a)"
    by (auto simp: conserves_def amounts_def counts_def word_le_nat_alt not_less split: if_splits)
  moreover have "amounts False (counter_of cs native_asset_id) + unat (tx_fee tx) + unat (priority_fee tx)
      \<le> amounts True (counter_of cs native_asset_id)"
    using le required_native_Some [OF r] by (simp add: amounts_def word_le_nat_alt)
  ultimately show ?thesis using L by simp
qed

text \<open>C12: When the resource policy accepts a transaction that is not a mint, no asset is created:
  for every asset the amounts of the outputs sum to at most the amounts of the inputs, the outputs
  carry no more non-amount values than the inputs, and in the native asset the inputs also pay the
  fee and the priority fee.  The sums are over natural numbers, so no addition can have wrapped.\<close>

theorem check_resources_conserves:
  assumes "check_resources tx inputs = Inr ()" "tx_command tx \<noteq> CmdMint"
  shows "asset_amount a (output_entries tx) \<le> asset_amount a (input_entries inputs) \<and>
    asset_count a (output_entries tx) \<le> asset_count a (input_entries inputs) \<and>
    asset_amount native_asset_id (output_entries tx) + unat (tx_fee tx) + unat (priority_fee tx)
      \<le> asset_amount native_asset_id (input_entries inputs)"
  using check_resources_conserves_all [OF assms, of a] by blast

text \<open>When the resource policy accepts a transaction, every asset is of one kind in all its
  inputs and outputs, and a mint carries no fee of either scheme.\<close>

theorem check_resources_kinds:
  assumes "check_resources tx inputs = Inr ()"
  shows "(\<forall>a v w. (a, v) \<in> set (input_entries inputs @ output_entries tx) \<and>
      (a, w) \<in> set (input_entries inputs @ output_entries tx) \<longrightarrow>
      kind_of_value v = kind_of_value w) \<and>
    (tx_command tx = CmdMint \<longrightarrow> tx_fee tx = 0 \<and> max_fee tx = 0 \<and> priority_fee tx = 0)"
proof -
  obtain cs where cs: "aggregate_resources tx inputs = Inr cs"
    using assms by (auto simp: check_resources_def result_simps)
  have K: "rc_kind (counter_of cs a) = Some (kind_of_value v)"
    if "(a, v) \<in> set (input_entries inputs @ output_entries tx)" for a v
    using ledger_aggregate [OF cs] that by (auto simp: ledger_def split: if_splits)
  have "kind_of_value v = kind_of_value w"
    if "(a, v) \<in> set (input_entries inputs @ output_entries tx)"
      "(a, w) \<in> set (input_entries inputs @ output_entries tx)" for a v w
    using K [OF that(1)] K [OF that(2)] by simp
  moreover have "tx_command tx = CmdMint \<longrightarrow> tx_fee tx = 0 \<and> max_fee tx = 0 \<and> priority_fee tx = 0"
    using assms by (auto simp: check_resources_def result_simps Let_def split: if_splits)
  ultimately show ?thesis by blast
qed

definition sample_input :: ObjectOutput where
  "sample_input =
     \<lparr>o_output_id = OutputId 1, o_object_id = ObjectId 7, o_version = Version 1,
      o_domain_id = DomainId 0, o_kind = Asset, o_owner = OwnerShared, o_predecessor = None,
      o_state = [], o_state_root = None, o_resources = [(1, Amount 5)], o_lock = Script_default,
      o_logic = None, o_created_at = 0, o_ttl = None, o_rent_reserve = None, o_flags = 0,
      o_extensions = [], o_spent = False\<rparr>"

lemma sample_check_resources: "check_resources sample_tx [sample_input] = Inr ()"
  by (simp add: check_resources_def aggregate_resources_def add_resources_def validate_resource_map_def
      update_resource_counter_def count_value_def checked_add_def conserves_def native_asset_id_def
      required_native_def counter_of_def sample_simps sample_input_def ResourceCounter_default_def)

lemma check_resources_conserves_witness:
  "asset_amount 1 (output_entries sample_tx) \<le> asset_amount 1 (input_entries [sample_input])"
  using check_resources_conserves [OF sample_check_resources, of 1] by (simp add: sample_simps)

lemma check_resources_kinds_witness:
  "check_resources sample_tx [sample_input] = Inr () \<and>
   kind_of_value (snd (hd (input_entries [sample_input]))) = kind_of_value (snd (hd (output_entries sample_tx)))"
proof -
  have e: "input_entries [sample_input] = [(1, Amount 5)]" "output_entries sample_tx = [(1, Amount 5)]"
    by (simp_all add: input_entries_def output_entries_def sample_input_def sample_simps)
  have "(1, Amount 5) \<in> set (input_entries [sample_input] @ output_entries sample_tx)" by (simp add: e)
  with check_resources_kinds [OF sample_check_resources, THEN conjunct1] sample_check_resources show ?thesis
    unfolding e by simp
qed

subsection \<open>Ownership\<close>

lemma address_owner_sound:
  assumes "ed25519_signature_matches_address_owner x tx owner ss = Inr True"
  shows "\<exists>s \<in> set ss. \<exists>pk. public_key s = Some pk \<and> length pk = 32 \<and>
    ucast (keccak256 x pk) = owner \<and> vk_ok x pk \<and> sig_ok x (sig_bytes s) \<and>
    ed_verify x pk (signing_preimage tx) (sig_bytes s)"
  using assms
  by (induction ss)
     (force simp: address_from_ed25519_public_key_def signing_message_for_tx_def
       split: if_splits option.splits)+

lemma key_owner_sound:
  assumes "ed25519_owner_loop x tx pk ss = Inr True"
  shows "\<exists>s \<in> set ss. public_key s = Some pk \<and> sig_ok x (sig_bytes s) \<and>
    ed_verify x pk (signing_preimage tx) (sig_bytes s)"
  using assms
  by (induction ss) (force simp: signing_message_for_tx_def split: if_splits option.splits)+

text \<open>An input's owner consents to a transaction.\<close>

definition owner_consents :: "externals \<Rightarrow> ComputeTx \<Rightarrow> Ownership \<Rightarrow> bool" where
  "owner_consents x tx owner \<longleftrightarrow>
     (case owner of
        OwnerAddress a \<Rightarrow> a \<noteq> 0 \<and> (\<exists>s \<in> set (signatures (witness tx)). \<exists>pk.
          public_key s = Some pk \<and> ucast (keccak256 x pk) = a \<and> vk_ok x pk \<and>
          ed_verify x pk (signing_preimage tx) (sig_bytes s))
      | OwnerEd25519 k \<Rightarrow> vk_ok x (be_bytes k) \<and> (\<exists>s \<in> set (signatures (witness tx)).
          public_key s = Some (be_bytes k) \<and>
          ed_verify x (be_bytes k) (signing_preimage tx) (sig_bytes s))
      | _ \<Rightarrow> True)"

lemma check_owner_sound:
  assumes "check_owner_present inp = Inr ()" "check_owner_signature x tx inp = Inr ()"
  shows "owner_consents x tx (o_owner inp)"
proof (cases "o_owner inp")
  case (OwnerAddress a)
  then have "ed25519_signature_matches_address_owner x tx a (signatures (witness tx)) = Inr True"
    using assms(2) by (auto simp: check_owner_signature_def owner_match_result_def result_simps
        split: if_splits)
  with OwnerAddress assms(1) address_owner_sound [OF this] show ?thesis
    by (auto simp: owner_consents_def check_owner_present_def split: if_splits)
next
  case (OwnerEd25519 k)
  then have "ed25519_owner_loop x tx (be_bytes k) (signatures (witness tx)) = Inr True"
    "vk_ok x (be_bytes k)"
    using assms(2) by (auto simp: check_owner_signature_def owner_match_result_def result_simps
        ed25519_signature_matches_owner_def split: if_splits)
  with OwnerEd25519 key_owner_sound [OF this(1)] show ?thesis by (auto simp: owner_consents_def)
qed (simp_all add: owner_consents_def)

text \<open>C4: When the default policy authorises a transfer or an invocation, the transaction carries
  its own id and as many signatures as its threshold asks for, and for every input owned by an
  address (not the zero address) or by a key one of the signatures verifies over the
  transaction's signing bytes under that key, for an address under a key that hashes to it.\<close>

theorem authorize_owners_consent:
  assumes "authorize x tx inputs = Inr ()" "tx_command tx \<in> {CmdTransfer, CmdInvoke}"
  shows "has_consistent_tx_id x tx \<and> 0 < unat (required_threshold tx) \<and>
    unat (required_threshold tx) \<le> length (signatures (witness tx)) \<and>
    (\<forall>inp \<in> set inputs. owner_consents x tx (o_owner inp))"
  using assms
  by (auto simp: authorize_def Let_def result_simps not_less intro!: check_owner_sound
      split: if_splits)

definition sample_owned_input :: ObjectOutput where
  "sample_owned_input = sample_input\<lparr>o_owner := OwnerAddress 5\<rparr>"

lemma authorize_owners_consent_witness:
  "authorize sample_externals sample_signed_tx [sample_owned_input] = Inr () \<and>
   owner_consents sample_externals sample_signed_tx (OwnerAddress 5)"
proof -
  have a: "authorize sample_externals sample_signed_tx [sample_owned_input] = Inr ()"
    by (simp add: authorize_def check_owner_present_def check_owner_signature_def
        owner_match_result_def address_from_ed25519_public_key_def evaluate_lock_script_def
        sample_owned_input_def sample_input_def sample_signature_def sample_externals_def
        sample_signed_tx_simps(1) [unfolded sample_externals_def] Script_default_def)
  show ?thesis
    using authorize_owners_consent [OF a] a by (simp add: sample_owned_input_def sample_input_def)
qed

text \<open>Anchor, reveal and agent-tick transactions are authorised with no look at who owns
  their inputs and with no signature verified: it is enough that the id is consistent, that there
  are as many signatures of any content as the threshold asks for, and that the inputs have empty
  lock scripts.\<close>

theorem authorize_ignores_owners:
  assumes "tx_command tx \<in> {CmdAnchor, CmdReveal, CmdAgentTick}" "has_consistent_tx_id x tx"
    "0 < required_threshold tx"
    "unat (required_threshold tx) \<le> length (signatures (witness tx))"
    "\<forall>inp \<in> set inputs. code (o_lock inp) = []"
  shows "authorize x tx inputs = Inr ()"
proof -
  have "0 < unat (required_threshold tx)" using assms(3) by (simp add: word_less_nat_alt)
  then show ?thesis
    using assms by (auto simp: authorize_def Let_def for_each_Inr evaluate_lock_script_def)
qed

definition sample_anchor_tx :: ComputeTx where
  "sample_anchor_tx = sample_signed_tx\<lparr>tx_command := CmdAnchor\<rparr>"

text \<open>The third-party functions with signature verification refusing every signature.\<close>

definition sample_refusing :: externals where
  "sample_refusing = sample_externals\<lparr>ed_verify := (\<lambda>_ _ _. False)\<rparr>"

lemma authorize_ignores_owners_witness:
  "authorize sample_refusing sample_anchor_tx [sample_owned_input] = Inr () \<and>
   \<not> owner_consents sample_refusing sample_anchor_tx (o_owner sample_owned_input)"
proof
  show "authorize sample_refusing sample_anchor_tx [sample_owned_input] = Inr ()"
    by (rule authorize_ignores_owners)
       (simp_all add: sample_anchor_tx_def has_consistent_tx_id_def expected_tx_id_def
         signing_digest_def sample_refusing_def sample_externals_def sample_signed_tx_def
         required_threshold_def sample_owned_input_def sample_input_def Script_default_def)
  show "\<not> owner_consents sample_refusing sample_anchor_tx (o_owner sample_owned_input)"
    by (simp add: owner_consents_def sample_refusing_def sample_owned_input_def)
qed

end
