(* ===== verification/Execution.thy ===== *)
theory Execution
  imports Store Policy "HOL-Library.Char_ord" "HOL-Library.List_Lexorder"
begin

section \<open>Validation and execution of a transaction\<close>

text \<open>
  \<open>compute/execution.rs\<close>: the envelope, lifecycle and proposal checks, the validator, the
  replay-nonce registries and the executor, over any object store (\<open>store_ops\<close>), any policies
  and any domain registry.  An operation of the executor returns its result and the state it
  leaves, since a failing commit may leave a changed state.  The clock is a parameter \<open>now\<close>.
\<close>

subsection \<open>Envelope\<close>

definition FLAG_FROZEN :: u32 where "FLAG_FROZEN = 0x04"
definition FLAG_AGENT :: u32 where "FLAG_AGENT = 0x08"
definition FLAG_CHANNEL :: u32 where "FLAG_CHANNEL = 0x10"
definition KNOWN_FLAGS_MASK :: u32 where "KNOWN_FLAGS_MASK = 0x1f"

definition MAX_METADATA_ENTRIES :: nat where "MAX_METADATA_ENTRIES = 64"
definition MAX_METADATA_KEY_BYTES :: nat where "MAX_METADATA_KEY_BYTES = 128"
definition MAX_METADATA_VALUE_BYTES :: nat where "MAX_METADATA_VALUE_BYTES = 4096"
definition REPLAY_NONCE_WINDOW_SECS :: u64 where "REPLAY_NONCE_WINDOW_SECS = 60 * 60"

text \<open>\<open>key.trim().is_empty()\<close>: the UTF-8 text consists of characters of the Unicode property
  \<open>White_Space\<close> only.\<close>

fun blank :: "u8 list \<Rightarrow> bool" where
  "blank [] = True"
| "blank (a # bs) =
     (if 9 \<le> a \<and> a \<le> 13 \<or> a = 32 then blank bs
      else case bs of
        [] \<Rightarrow> False
      | b # cs \<Rightarrow>
          if a = 0xC2 \<and> (b = 0x85 \<or> b = 0xA0) then blank cs
          else case cs of
            [] \<Rightarrow> False
          | c # ds \<Rightarrow>
              (a = 0xE1 \<and> b = 0x9A \<and> c = 0x80 \<or>
               a = 0xE2 \<and> b = 0x80 \<and> (0x80 \<le> c \<and> c \<le> 0x8A \<or> c = 0xA8 \<or> c = 0xA9 \<or> c = 0xAF) \<or>
               a = 0xE2 \<and> b = 0x81 \<and> c = 0x9F \<or>
               a = 0xE3 \<and> b = 0x80 \<and> c = 0x80) \<and> blank ds)"

fun validate_metadata_entries :: "string set \<Rightarrow> Metadata \<Rightarrow> ComputeError + unit" where
  "validate_metadata_entries keys [] = Inr ()"
| "validate_metadata_entries keys ((key, v) # md) =
     (if blank (str_bytes key) then Inl (InvalidOperation ''metadata key must not be empty'')
      else if MAX_METADATA_KEY_BYTES < length key
      then Inl (InvalidOperation (''metadata key too long: '' @ show_nat (length key) @ '' > '' @
             show_nat MAX_METADATA_KEY_BYTES))
      else if MAX_METADATA_VALUE_BYTES < length v
      then Inl (InvalidOperation (''metadata value too large: '' @ show_nat (length v) @ '' > '' @
             show_nat MAX_METADATA_VALUE_BYTES))
      else if key \<in> keys then Inl (InvalidOperation (''duplicate metadata key: '' @ key))
      else validate_metadata_entries (insert key keys) md)"

definition validate_metadata :: "Metadata \<Rightarrow> ComputeError + unit" where
  "validate_metadata md =
     (if MAX_METADATA_ENTRIES < length md
      then Inl (InvalidOperation (''metadata entries exceed limit: '' @ show_nat (length md) @
             '' > '' @ show_nat MAX_METADATA_ENTRIES))
      else validate_metadata_entries {} md)"

definition nonce_required :: "ComputeTx \<Rightarrow> bool" where
  "nonce_required tx \<longleftrightarrow>
     input_set tx = [] \<or> tx_command tx \<in> {CmdAnchor, CmdReveal, CmdAgentTick}"

definition validate_tx_envelope :: "ComputeTx \<Rightarrow> ComputeError + unit" where
  "validate_tx_envelope tx =
     (if tx_nonce tx = Some 0 then Inl (InvalidOperation ''nonce must be > 0 when present'')
      else if nonce_required tx \<and> tx_nonce tx = None
      then Inl (InvalidOperation
             ''nonce is required for empty-input or cross-domain command operations'')
      else if tx_command tx = CmdMint \<and> tx_fee tx \<noteq> 0
      then Inl (InvalidOperation ''mint command cannot carry non-zero fee'')
      else validate_metadata (tx_metadata tx))"

subsection \<open>Lifecycle\<close>

definition validate_common_flags :: "ObjectKind \<Rightarrow> u32 \<Rightarrow> string \<Rightarrow> ComputeError + unit" where
  "validate_common_flags kind flags source =
     (if and flags (not KNOWN_FLAGS_MASK) \<noteq> 0
      then Inl (InvalidOperation (source @ '' contains unknown flag bits: 0x'' @ show_hex8 flags))
      else if and flags FLAG_AGENT \<noteq> 0 \<and> kind \<noteq> Agent
      then Inl (InvalidOperation (source @ '' with agent flag must be ObjectKind::Agent''))
      else if and flags FLAG_CHANNEL \<noteq> 0 \<and> kind \<noteq> Ticket
      then Inl (InvalidOperation (source @ '' with channel flag must be ObjectKind::Ticket''))
      else Inr ())"

definition validate_existing_output_lifecycle ::
  "ObjectOutput \<Rightarrow> ComputeTx \<Rightarrow> string \<Rightarrow> ComputeError + unit" where
  "validate_existing_output_lifecycle out tx source =
     and_then (validate_common_flags (o_kind out) (o_flags out) source) (\<lambda>_.
       if o_rent_reserve out = Some 0
       then Inl (InvalidOperation (source @ '' rent_reserve must be > 0 when present''))
       else case o_ttl out of
         None \<Rightarrow> Inr ()
       | Some ttl \<Rightarrow>
           if ttl \<le> o_created_at out
           then Inl (InvalidOperation (source @ '' ttl must be > created_at''))
           else case deadline_unix_secs tx of
             None \<Rightarrow> Inl (InvalidOperation
               ''deadline_unix_secs is required when ttl-protected objects are touched'')
           | Some exec_ref \<Rightarrow>
               if ttl < exec_ref
               then Inl (InvalidOperation (source @ '' object expired at '' @ show_nat (unat ttl) @
                      '', tx reference time is '' @ show_nat (unat exec_ref)))
               else Inr ())"

definition validate_proposal_lifecycle :: "OutputProposal \<Rightarrow> ComputeTx \<Rightarrow> ComputeError + unit" where
  "validate_proposal_lifecycle p tx =
     and_then (validate_common_flags (p_kind p) (p_flags p) ''proposal'') (\<lambda>_.
       if p_rent_reserve p = Some 0
       then Inl (InvalidOperation ''proposal rent_reserve must be > 0 when present'')
       else case p_ttl p of
         None \<Rightarrow> Inr ()
       | Some ttl \<Rightarrow>
           if ttl \<le> p_created_at p
           then Inl (InvalidOperation ''proposal ttl must be > created_at'')
           else case deadline_unix_secs tx of
             None \<Rightarrow> Inl (InvalidOperation ''deadline_unix_secs is required when proposal ttl is set'')
           | Some exec_ref \<Rightarrow>
               if ttl < exec_ref
               then Inl (InvalidOperation
                      ''proposal ttl is already expired relative to tx reference time'')
               else if (case p_rent_reserve p of None \<Rightarrow> 0 | Some r \<Rightarrow> r) = 0
               then Inl (InvalidOperation ''proposal with ttl must include non-zero rent_reserve'')
               else Inr ())"

subsection \<open>The validator\<close>

type_synonym policy = "ComputeTx \<Rightarrow> ObjectOutput list \<Rightarrow> ObjectOutput list \<Rightarrow> ComputeError + unit"

text \<open>What a \<open>BasicTxValidator\<close> refers to.\<close>

record 's validator =
  v_ops :: "'s store_ops"
  v_authorization :: policy
  v_resources :: policy
  v_domains :: domain_registry

record ValidationReport =
  vr_inputs :: "ObjectOutput list"
  vr_reads :: "ObjectOutput list"

definition resolve_input :: "'s store_ops \<Rightarrow> 's \<Rightarrow> ComputeTx \<Rightarrow> OutputId \<Rightarrow> ComputeError + ObjectOutput" where
  "resolve_input ops s tx i =
     (case get_output ops s i of
        None \<Rightarrow> Inl (ObjectNotFound (output_raw i))
      | Some out \<Rightarrow>
          if o_spent out then Inl (InvalidOperation ''input already spent'')
          else if o_domain_id out \<noteq> tx_domain_id tx
          then Inl (DomainMismatch (domain_raw (tx_domain_id tx)) (domain_raw (o_domain_id out)))
          else and_then (validate_existing_output_lifecycle out tx ''input'') (\<lambda>_. Inr out))"

definition resolve_read :: "'s store_ops \<Rightarrow> 's \<Rightarrow> ComputeTx \<Rightarrow> ObjectReadRef \<Rightarrow> ComputeError + ObjectOutput" where
  "resolve_read ops s tx rr =
     (case get_output ops s (rr_output_id rr) of
        None \<Rightarrow> Inl (ObjectNotFound (output_raw (rr_output_id rr)))
      | Some out \<Rightarrow>
          if o_domain_id out \<noteq> rr_domain_id rr
          then Inl (DomainMismatch (domain_raw (rr_domain_id rr)) (domain_raw (o_domain_id out)))
          else if o_version out \<noteq> rr_expected_version rr
          then Inl (ReadVersionMismatch (version_raw (rr_expected_version rr)) (version_raw (o_version out)))
          else and_then (validate_existing_output_lifecycle out tx ''read'') (\<lambda>_. Inr out))"

definition validate_lineage :: "ObjectOutput list \<Rightarrow> OutputProposal \<Rightarrow> ComputeError + unit" where
  "validate_lineage inputs p =
     (case p_predecessor p of
        Some pred_id \<Rightarrow>
          (case find (\<lambda>out. o_output_id out = pred_id) inputs of
             None \<Rightarrow> Inl InvalidPredecessor
           | Some parent \<Rightarrow>
               if o_object_id parent \<noteq> p_object_id p then Inl InvalidPredecessor
               else if version_raw (p_version p) \<noteq> saturating_add (version_raw (o_version parent)) 1
               then Inl InvalidVersionProgression
               else if p_created_at p < o_created_at parent
               then Inl (InvalidOperation ''proposal created_at must be >= predecessor created_at'')
               else if and (o_flags parent) FLAG_FROZEN \<noteq> 0
               then Inl (InvalidOperation ''frozen predecessor cannot be spent'')
               else Inr ())
      | None \<Rightarrow> if version_raw (p_version p) \<noteq> 1 then Inl InvalidVersionProgression else Inr ())"

definition validate_output_proposal ::
  "ComputeTx \<Rightarrow> ObjectOutput list \<Rightarrow> OutputProposal \<Rightarrow> ComputeError + unit" where
  "validate_output_proposal tx inputs p =
     (if p_domain_id p \<noteq> tx_domain_id tx
      then Inl (DomainMismatch (domain_raw (tx_domain_id tx)) (domain_raw (p_domain_id p)))
      else and_then (validate_proposal_lifecycle p tx) (\<lambda>_. validate_lineage inputs p))"

definition validate_output_proposals :: "ComputeTx \<Rightarrow> ObjectOutput list \<Rightarrow> ComputeError + unit" where
  "validate_output_proposals tx inputs =
     for_each (validate_output_proposal tx inputs) (output_proposals tx)"

definition validate :: "'s validator \<Rightarrow> 's \<Rightarrow> ComputeTx \<Rightarrow> ComputeError + ValidationReport" where
  "validate v s tx =
     (if \<not> basic_sanity_check tx
      then Inl (InvalidOperation ''operation failed basic sanity check'')
      else and_then (validate_tx_envelope tx) (\<lambda>_.
        case get_domain (v_domains v) (tx_domain_id tx) of
          None \<Rightarrow> Inl (DomainNotRegistered (domain_raw (tx_domain_id tx)))
        | Some domain \<Rightarrow>
            if \<not> dc_public domain then Inl (DomainNotPublic (domain_raw (tx_domain_id tx)))
            else
              and_then (try_map (resolve_input (v_ops v) s tx) (input_set tx)) (\<lambda>inputs.
              and_then (try_map (resolve_read (v_ops v) s tx) (read_set tx)) (\<lambda>reads.
              and_then (validate_output_proposals tx inputs) (\<lambda>_.
              and_then (v_authorization v tx inputs reads) (\<lambda>_.
              and_then (v_resources v tx inputs reads) (\<lambda>_.
              Inr \<lparr>vr_inputs = inputs, vr_reads = reads\<rparr>)))))))"

subsection \<open>Replay nonces\<close>

type_synonym registry = "string \<rightharpoonup> u64"

text \<open>\<open>InMemoryReplayNonceRegistry\<close>.\<close>

definition in_window :: "u64 \<Rightarrow> u64 \<Rightarrow> bool" where
  "in_window now ts \<longleftrightarrow> saturating_sub now ts \<le> REPLAY_NONCE_WINDOW_SECS"

definition registry_contains :: "string \<Rightarrow> u64 \<Rightarrow> registry \<Rightarrow> bool" where
  "registry_contains key now r = (case r key of Some ts \<Rightarrow> in_window now ts | None \<Rightarrow> False)"

definition registry_insert :: "string \<Rightarrow> u64 \<Rightarrow> registry \<Rightarrow> registry" where
  "registry_insert key now r = r(key \<mapsto> now)"

definition retain_window :: "u64 \<Rightarrow> registry \<Rightarrow> registry" where
  "retain_window now r = (\<lambda>k. case r k of Some ts \<Rightarrow> if in_window now ts then Some ts else None | None \<Rightarrow> None)"

text \<open>The \<open>Debug\<close> output of an optional number.\<close>

definition show_option :: "'a::len word option \<Rightarrow> string" where
  "show_option v = (case v of None \<Rightarrow> ''None'' | Some n \<Rightarrow> ''Some('' @ show_nat (unat n) @ '')'')"

definition replay_nonce_key :: "string \<Rightarrow> ComputeTx \<Rightarrow> u64 \<Rightarrow> string" where
  "replay_nonce_key actor tx nonce =
     actor @ ''|d:'' @ show_nat (unat (domain_raw (tx_domain_id tx))) @
     ''|c:'' @ show_option (chain_id tx) @ ''|n:'' @ show_option (network_id tx) @
     ''|x:'' @ show_nat (unat nonce)"

definition replay_actor :: "externals \<Rightarrow> TxSignature \<Rightarrow> string" where
  "replay_actor x s =
     (case public_key s of
        Some pk \<Rightarrow>
          if length pk = 32 then ''ed25519:'' @ hex_encode x pk
          else ''ed25519_sig:'' @ hex_encode x (be_bytes (keccak256 x (sig_bytes s)))
      | None \<Rightarrow> ''ed25519_sig:'' @ hex_encode x (be_bytes (keccak256 x (sig_bytes s))))"

definition replay_actors :: "externals \<Rightarrow> ComputeTx \<Rightarrow> string list" where
  "replay_actors x tx =
     (let actors = map (replay_actor x) (signatures (witness tx));
          actors = (if actors = [] then [''anonymous''] else actors)
      in remdups_adj (sort actors))"

definition replay_used :: ComputeError where
  "replay_used = InvalidOperation ''replay nonce tuple already used in active window''"

fun register_actors ::
  "ComputeTx \<Rightarrow> u64 \<Rightarrow> u64 \<Rightarrow> string list \<Rightarrow> registry \<Rightarrow> (ComputeError + unit) \<times> registry" where
  "register_actors tx nonce now [] r = (Inr (), r)"
| "register_actors tx nonce now (actor # actors) r =
     (let key = replay_nonce_key actor tx nonce in
      if r key \<noteq> None then (Inl replay_used, r)
      else register_actors tx nonce now actors (r(key \<mapsto> now)))"

definition register_replay_nonce ::
  "externals \<Rightarrow> u64 \<Rightarrow> ComputeTx \<Rightarrow> registry \<Rightarrow> (ComputeError + unit) \<times> registry" where
  "register_replay_nonce x now tx r =
     (case tx_nonce tx of
        None \<Rightarrow> (Inr (), r)
      | Some nonce \<Rightarrow> register_actors tx nonce now (replay_actors x tx) (retain_window now r))"

subsection \<open>The executor\<close>

definition object_from_proposal :: "OutputProposal \<Rightarrow> ObjectOutput" where
  "object_from_proposal p =
     \<lparr>o_output_id = p_output_id p, o_object_id = p_object_id p, o_version = p_version p,
      o_domain_id = p_domain_id p, o_kind = p_kind p, o_owner = p_owner p,
      o_predecessor = p_predecessor p, o_state = p_state p, o_state_root = p_state_root p,
      o_resources = p_resources p, o_lock = p_lock p, o_logic = p_logic p,
      o_created_at = p_created_at p, o_ttl = p_ttl p, o_rent_reserve = p_rent_reserve p,
      o_flags = p_flags p, o_extensions = p_extensions p, o_spent = False\<rparr>"

record 's executor_state =
  ex_store :: 's
  ex_registry :: registry

definition executor_new :: "'s \<Rightarrow> 's executor_state" where
  "executor_new s = \<lparr>ex_store = s, ex_registry = Map.empty\<rparr>"

text \<open>A loop of store operations that stops at the first error, with the store it leaves.\<close>

fun store_loop :: "('a \<Rightarrow> 's \<Rightarrow> ComputeError + 's) \<Rightarrow> 'a list \<Rightarrow> 's \<Rightarrow> (ComputeError + unit) \<times> 's" where
  "store_loop f [] s = (Inr (), s)"
| "store_loop f (a # as) s = (case f a s of Inl e \<Rightarrow> (Inl e, s) | Inr s' \<Rightarrow> store_loop f as s')"

definition commit_outputs ::
  "'s store_ops \<Rightarrow> ComputeTx \<Rightarrow> 's \<Rightarrow> (ComputeError + unit) \<times> 's" where
  "commit_outputs ops tx s =
     (case store_loop (mark_spent ops) (input_set tx) s of
        (Inl e, s) \<Rightarrow> (Inl e, s)
      | (Inr _, s) \<Rightarrow>
          store_loop (\<lambda>p. insert_output ops (object_from_proposal p)) (output_proposals tx) s)"

definition commit_prevalidated ::
  "externals \<Rightarrow> u64 \<Rightarrow> 's store_ops \<Rightarrow> ComputeTx \<Rightarrow> ValidationReport \<Rightarrow> 's executor_state \<Rightarrow>
   (ComputeError + ValidationReport) \<times> 's executor_state" where
  "commit_prevalidated x now ops tx report st =
     (case register_replay_nonce x now tx (ex_registry st) of
        (Inl e, r) \<Rightarrow> (Inl e, st\<lparr>ex_registry := r\<rparr>)
      | (Inr _, r) \<Rightarrow>
          (case commit_outputs ops tx (ex_store st) of
             (Inl e, s) \<Rightarrow> (Inl e, \<lparr>ex_store = s, ex_registry = r\<rparr>)
           | (Inr _, s) \<Rightarrow> (Inr report, \<lparr>ex_store = s, ex_registry = r\<rparr>)))"

definition execute ::
  "externals \<Rightarrow> u64 \<Rightarrow> 's validator \<Rightarrow> ComputeTx \<Rightarrow> 's executor_state \<Rightarrow>
   (ComputeError + ValidationReport) \<times> 's executor_state" where
  "execute x now v tx st =
     (case validate v (ex_store st) tx of
        Inl e \<Rightarrow> (Inl e, st)
      | Inr report \<Rightarrow> commit_prevalidated x now (v_ops v) tx report st)"

text \<open>The executor's default configuration on the in-memory store.\<close>

definition default_validator :: "externals \<Rightarrow> domain_registry \<Rightarrow> mem_store validator" where
  "default_validator x domains =
     \<lparr>v_ops = mem_ops, v_authorization = (\<lambda>tx inputs reads. authorize x tx inputs),
      v_resources = (\<lambda>tx inputs reads. check_resources tx inputs), v_domains = domains\<rparr>"

end
