(* ===== verification/Ledger.thy ===== *)
theory Ledger
  imports Execution
begin

section \<open>What execution does to the ledger\<close>

text \<open>
  The abstract ledger is the map from output ids to outputs.  \<open>apply_tx\<close> is the effect a
  transaction is meant to have on it and \<open>commit_ok\<close> when it can have it.  In the locale of the
  object stores the commit of the executor is shown to implement them; the properties of execution
  on the in-memory store follow through its interpretation.
\<close>

subsection \<open>Abstract ledger\<close>

type_synonym ledger_map = "OutputId \<rightharpoonup> ObjectOutput"

definition spend :: "OutputId list \<Rightarrow> ledger_map \<Rightarrow> ledger_map" where
  "spend ids L = (\<lambda>i. if i \<in> set ids then map_option (o_spent_update (\<lambda>_. True)) (L i) else L i)"

text \<open>The output a proposal asks for, written out field by field: identity, lineage, owner, resources and
  life time are the proposal's own, and it is not spent.\<close>

definition created_output :: "OutputProposal \<Rightarrow> ObjectOutput" where
  "created_output p =
     \<lparr>o_output_id = p_output_id p, o_object_id = p_object_id p, o_version = p_version p,
      o_domain_id = p_domain_id p, o_kind = p_kind p, o_owner = p_owner p,
      o_predecessor = p_predecessor p, o_state = p_state p, o_state_root = p_state_root p,
      o_resources = p_resources p, o_lock = p_lock p, o_logic = p_logic p,
      o_created_at = p_created_at p, o_ttl = p_ttl p, o_rent_reserve = p_rent_reserve p,
      o_flags = p_flags p, o_extensions = p_extensions p, o_spent = False\<rparr>"

definition create :: "OutputProposal list \<Rightarrow> ledger_map \<Rightarrow> ledger_map" where
  "create ps L = L ++ map_of (map (\<lambda>p. (p_output_id p, created_output p)) ps)"

definition apply_tx :: "ComputeTx \<Rightarrow> ledger_map \<Rightarrow> ledger_map" where
  "apply_tx tx L = create (output_proposals tx) (spend (input_set tx) L)"

definition live_in :: "ledger_map \<Rightarrow> OutputId \<Rightarrow> bool" where
  "live_in L i \<longleftrightarrow> (case L i of None \<Rightarrow> False | Some out \<Rightarrow> is_live out)"

definition spendable :: "OutputId list \<Rightarrow> ledger_map \<Rightarrow> bool" where
  "spendable ids L \<longleftrightarrow> distinct ids \<and> (\<forall>i \<in> set ids. live_in L i)"

definition creatable :: "OutputProposal list \<Rightarrow> ledger_map \<Rightarrow> bool" where
  "creatable ps L \<longleftrightarrow>
     distinct (map p_output_id ps) \<and> (\<forall>p \<in> set ps. L (p_output_id p) = None)"

definition commit_ok :: "ComputeTx \<Rightarrow> ledger_map \<Rightarrow> bool" where
  "commit_ok tx L \<longleftrightarrow> spendable (input_set tx) L \<and> creatable (output_proposals tx) L"

text \<open>The executor writes the output that was asked for.\<close>

lemma object_from_proposal_created: "object_from_proposal p = created_output p"
  by (simp add: object_from_proposal_def created_output_def)

lemma create_eq: "create ps L = L ++ map_of (map (\<lambda>p. (p_output_id p, object_from_proposal p)) ps)"
  by (simp add: create_def object_from_proposal_created)

lemma spend_Nil [simp]: "spend [] L = L"
  by (simp add: spend_def)

lemma spend_Cons:
  "L i = Some out \<Longrightarrow> i \<notin> set ids \<Longrightarrow>
     spend (i # ids) L = spend ids (L(i \<mapsto> out\<lparr>o_spent := True\<rparr>))"
  by (auto simp: spend_def fun_eq_iff)

lemma spendable_Cons:
  "L i = Some out \<Longrightarrow> \<not> o_spent out \<Longrightarrow>
     spendable (i # ids) L \<longleftrightarrow> spendable ids (L(i \<mapsto> out\<lparr>o_spent := True\<rparr>))"
  by (auto simp: spendable_def live_in_def is_live_def)

lemma dom_spend [simp]: "dom (spend ids L) = dom L"
  by (auto simp: spend_def split: if_splits)

lemma creatable_spend [simp]: "creatable ps (spend ids L) = creatable ps L"
  by (auto simp: creatable_def spend_def)

lemma object_id_of_proposal [simp]: "o_output_id (object_from_proposal p) = p_output_id p"
  by (simp add: object_from_proposal_def)

lemma create_Nil [simp]: "create [] L = L"
  by (simp add: create_eq)

lemma create_Cons:
  "p_output_id p \<notin> p_output_id ` set ps \<Longrightarrow>
     create (p # ps) L = create ps (L(p_output_id p \<mapsto> object_from_proposal p))"
proof -
  assume "p_output_id p \<notin> p_output_id ` set ps"
  then have "map_of (map (\<lambda>p. (p_output_id p, object_from_proposal p)) ps) (p_output_id p) = None"
    by (simp add: map_of_eq_None_iff image_image)
  then show ?thesis by (auto simp: create_eq map_add_def fun_eq_iff split: option.splits)
qed

lemma creatable_Cons:
  "creatable (p # ps) L \<longleftrightarrow> L (p_output_id p) = None \<and>
     creatable ps (L(p_output_id p \<mapsto> object_from_proposal p)) \<and> p_output_id p \<notin> p_output_id ` set ps"
  unfolding creatable_def by (auto simp: image_iff)

lemma create_old:
  assumes "creatable ps L" "L i = Some out"
  shows "create ps L i = Some out"
proof -
  have "i \<notin> p_output_id ` set ps" using assms by (auto simp: creatable_def)
  then have "map_of (map (\<lambda>p. (p_output_id p, object_from_proposal p)) ps) i = None"
    by (simp add: map_of_eq_None_iff image_image)
  then show ?thesis using assms(2) by (simp add: create_eq map_add_def)
qed

subsection \<open>The commit implements it\<close>

context object_store
begin

lemma mark_loop_ok:
  assumes "inv s" "spendable ids (get_output ops s)"
  shows "\<exists>s'. store_loop (mark_spent ops) ids s = (Inr (), s') \<and> inv s' \<and>
    get_output ops s' = spend ids (get_output ops s)"
  using assms
proof (induction ids arbitrary: s)
  case (Cons i ids)
  then obtain out where out: "get_output ops s i = Some out" "\<not> o_spent out" "i \<notin> set ids"
    by (auto simp: spendable_def live_in_def is_live_def split: option.splits)
  obtain s' where s': "mark_spent ops i s = Inr s'" "inv s'"
      "get_output ops s' = (get_output ops s)(i \<mapsto> out\<lparr>o_spent := True\<rparr>)"
    using mark_live [OF Cons.prems(1) out(1,2)] by blast
  have "spendable ids (get_output ops s')"
    using Cons.prems(2) spendable_Cons [of "get_output ops s" i out ids] out s' by simp
  from Cons.IH [OF s'(2) this, unfolded s'(3), folded spend_Cons [where L = "get_output ops s", OF out(1,3)]] show ?case
    by (simp add: s'(1))
qed simp

lemma mark_loop_stuck:
  assumes "inv s" "\<not> spendable ids (get_output ops s)"
  shows "\<exists>e s' k. store_loop (mark_spent ops) ids s = (Inl e, s') \<and> inv s' \<and>
    get_output ops s' = spend (take k ids) (get_output ops s)"
  using assms
proof (induction ids arbitrary: s)
  case (Cons i ids)
  show ?case
  proof (cases "mark_spent ops i s")
    case (Inl e)
    with Cons.prems(1) show ?thesis by (intro exI [of _ e] exI [of _ s] exI [of _ 0]) simp
  next
    case (Inr s')
    then obtain out where out: "inv s'" "get_output ops s i = Some out" "\<not> o_spent out"
      "get_output ops s' = (get_output ops s)(i \<mapsto> out\<lparr>o_spent := True\<rparr>)"
      using mark_Inr [OF Cons.prems(1)] by blast
    have "\<not> spendable ids (get_output ops s')"
      using Cons.prems(2) spendable_Cons [of "get_output ops s" i out ids] out by simp
    from Cons.IH [OF out(1) this] obtain e t k where t: "store_loop (mark_spent ops) ids s' = (Inl e, t)"
      "inv t" "get_output ops t = spend (take k ids) (get_output ops s')" by blast
    have "spend (take k ids) (get_output ops s') = spend (take (Suc k) (i # ids)) (get_output ops s)"
      using out(2,4) by (auto simp: spend_def fun_eq_iff)
    with t Inr show ?thesis
      by (intro exI [of _ e] exI [of _ t] exI [of _ "Suc k"]) (simp del: take_Suc_Cons)
  qed
qed (simp add: spendable_def)

lemma insert_loop_ok:
  assumes "inv s" "creatable ps (get_output ops s)"
  shows "\<exists>s'. store_loop (\<lambda>p. insert_output ops (object_from_proposal p)) ps s = (Inr (), s') \<and>
    inv s' \<and> get_output ops s' = create ps (get_output ops s)"
  using assms
proof (induction ps arbitrary: s)
  case (Cons p ps)
  note c = Cons.prems(2) [unfolded creatable_Cons]
  obtain s' where s': "insert_output ops (object_from_proposal p) s = Inr s'" "inv s'"
      "get_output ops s' = (get_output ops s)(p_output_id p \<mapsto> object_from_proposal p)"
    using insert_fresh [OF Cons.prems(1), of "object_from_proposal p"] c by auto
  have "creatable ps (get_output ops s')" unfolding s'(3) using c by blast
  from Cons.IH [OF s'(2) this, unfolded s'(3), folded create_Cons [OF c [THEN conjunct2, THEN conjunct2]]]
  show ?case by (simp add: s'(1))
qed simp

lemma insert_loop_stuck:
  assumes "inv s" "\<not> creatable ps (get_output ops s)"
  shows "\<exists>s' k. store_loop (\<lambda>p. insert_output ops (object_from_proposal p)) ps s = (Inl DuplicateOutputId, s') \<and>
    inv s' \<and> creatable (take k ps) (get_output ops s) \<and>
    get_output ops s' = create (take k ps) (get_output ops s)"
  using assms
proof (induction ps arbitrary: s)
  case (Cons p ps)
  show ?case
  proof (cases "get_output ops s (p_output_id p)")
    case (Some old)
    with insert_present [OF Cons.prems(1), of "object_from_proposal p"] Cons.prems(1) show ?thesis
      by (intro exI [of _ s] exI [of _ 0]) (simp add: creatable_def)
  next
    case None
    then obtain s' where s': "insert_output ops (object_from_proposal p) s = Inr s'" "inv s'"
        "get_output ops s' = (get_output ops s)(p_output_id p \<mapsto> object_from_proposal p)"
      using insert_fresh [OF Cons.prems(1), of "object_from_proposal p"] by auto
    have "\<not> creatable ps (get_output ops s')"
      using Cons.prems(2) None s'(3) by (auto simp: creatable_def)
    from Cons.IH [OF s'(2) this] obtain t k where
      t: "store_loop (\<lambda>p. insert_output ops (object_from_proposal p)) ps s' = (Inl DuplicateOutputId, t)"
      "inv t" "creatable (take k ps) (get_output ops s')"
      "get_output ops t = create (take k ps) (get_output ops s')" by blast
    have f: "p_output_id p \<notin> p_output_id ` set (take k ps)"
      using t(3) s'(3) by (auto simp: creatable_def)
    have "creatable (take (Suc k) (p # ps)) (get_output ops s)"
      using t(3) s'(3) f None creatable_Cons [of p "take k ps" "get_output ops s"] by simp
    moreover have "get_output ops t = create (take (Suc k) (p # ps)) (get_output ops s)"
      using t(4) s'(3) f create_Cons [of p "take k ps" "get_output ops s"] by simp
    ultimately show ?thesis using t(1,2) s'(1) by (intro exI [of _ t] exI [of _ "Suc k"]) simp
  qed
qed (simp add: creatable_def)

lemma commit_outputs_ok:
  assumes "inv s" "commit_ok tx (get_output ops s)"
  shows "\<exists>s'. commit_outputs ops tx s = (Inr (), s') \<and> inv s' \<and>
    get_output ops s' = apply_tx tx (get_output ops s)"
proof -
  obtain t where t: "store_loop (mark_spent ops) (input_set tx) s = (Inr (), t)" "inv t"
    "get_output ops t = spend (input_set tx) (get_output ops s)"
    using mark_loop_ok [OF assms(1)] assms(2) unfolding commit_ok_def by blast
  have "creatable (output_proposals tx) (get_output ops t)"
    using assms(2) by (simp add: commit_ok_def t(3))
  from insert_loop_ok [OF t(2) this] t show ?thesis
    by (auto simp: commit_outputs_def apply_tx_def)
qed

text \<open>A commit that cannot complete leaves the effect of a part of the transaction.\<close>

lemma commit_outputs_stuck:
  assumes "inv s" "\<not> commit_ok tx (get_output ops s)"
  shows "\<exists>e s' k l. commit_outputs ops tx s = (Inl e, s') \<and> inv s' \<and>
    creatable (take l (output_proposals tx)) (get_output ops s) \<and>
    get_output ops s' = create (take l (output_proposals tx)) (spend (take k (input_set tx)) (get_output ops s))"
proof (cases "spendable (input_set tx) (get_output ops s)")
  case False
  from mark_loop_stuck [OF assms(1) this] obtain e t k where
    "store_loop (mark_spent ops) (input_set tx) s = (Inl e, t)" "inv t"
    "get_output ops t = spend (take k (input_set tx)) (get_output ops s)" by blast
  then show ?thesis
    by (intro exI [of _ e] exI [of _ t] exI [of _ k] exI [of _ 0])
       (simp add: commit_outputs_def creatable_def)
next
  case True
  from mark_loop_ok [OF assms(1) this] obtain t where
    t: "store_loop (mark_spent ops) (input_set tx) s = (Inr (), t)" "inv t"
    "get_output ops t = spend (input_set tx) (get_output ops s)" by blast
  have "\<not> creatable (output_proposals tx) (get_output ops t)"
    using assms(2) True by (simp add: commit_ok_def t(3))
  from insert_loop_stuck [OF t(2) this] obtain u l where
    "store_loop (\<lambda>p. insert_output ops (object_from_proposal p)) (output_proposals tx) t
       = (Inl DuplicateOutputId, u)" "inv u"
    "creatable (take l (output_proposals tx)) (get_output ops t)"
    "get_output ops u = create (take l (output_proposals tx)) (get_output ops t)" by blast
  then show ?thesis
    by (intro exI [of _ DuplicateOutputId] exI [of _ u] exI [of _ "length (input_set tx)"] exI [of _ l])
       (simp add: commit_outputs_def t)
qed

text \<open>What any execution does, successful or not.\<close>

lemma execute_effect:
  assumes "inv (ex_store st)" "v_ops v = ops" "execute x now v tx st = (r, st')"
  shows "inv (ex_store st') \<and> (case r of
      Inr rep \<Rightarrow> validate v (ex_store st) tx = Inr rep \<and>
        commit_ok tx (get_output ops (ex_store st)) \<and>
        get_output ops (ex_store st') = apply_tx tx (get_output ops (ex_store st))
    | Inl e \<Rightarrow> \<exists>k l. creatable (take l (output_proposals tx)) (get_output ops (ex_store st)) \<and>
        get_output ops (ex_store st') = create (take l (output_proposals tx))
          (spend (take k (input_set tx)) (get_output ops (ex_store st))) \<and>
        (commit_ok tx (get_output ops (ex_store st)) \<or> validate v (ex_store st) tx = Inl e \<longrightarrow>
           ex_store st' = ex_store st))"
proof -
  let ?L = "get_output ops (ex_store st)"
  have unchanged: ?thesis if "r = Inl e" "ex_store st' = ex_store st" for e
    using that assms(1)
    by (auto simp: creatable_def intro!: exI [of _ 0])
  show ?thesis
  proof (cases "validate v (ex_store st) tx")
    case (Inl e)
    then have "r = Inl e" "st' = st" using assms(3) by (simp_all add: execute_def)
    then show ?thesis using unchanged [of e] by simp
  next
    case (Inr rep)
    obtain q reg where q: "register_replay_nonce x now tx (ex_registry st) = (q, reg)" by force
    show ?thesis
    proof (cases q)
      case (Inl e)
      then have "r = Inl e" "ex_store st' = ex_store st" using assms(3) q Inr
        by (auto simp: execute_def commit_prevalidated_def)
      then show ?thesis by (rule unchanged)
    next
      case q': (Inr u)
      show ?thesis
      proof (cases "commit_ok tx ?L")
        case True
        from commit_outputs_ok [OF assms(1) True] obtain t where t:
          "commit_outputs ops tx (ex_store st) = (Inr (), t)" "inv t" "get_output ops t = apply_tx tx ?L"
          by blast
        then have "r = Inr rep" "ex_store st' = t"
          using assms(2,3) q q' Inr by (auto simp: execute_def commit_prevalidated_def)
        with t Inr True show ?thesis by simp
      next
        case False
        from commit_outputs_stuck [OF assms(1) False] obtain e t k l where t:
          "commit_outputs ops tx (ex_store st) = (Inl e, t)" "inv t"
          "creatable (take l (output_proposals tx)) ?L"
          "get_output ops t = create (take l (output_proposals tx)) (spend (take k (input_set tx)) ?L)"
          by blast
        then have "r = Inl e" "ex_store st' = t"
          using assms(2,3) q q' Inr by (auto simp: execute_def commit_prevalidated_def)
        with t Inr False show ?thesis by auto
      qed
    qed
  qed
qed

lemma resolved_inputs:
  assumes "try_map (resolve_input ops s tx) ids = Inr outs"
  shows "map Some outs = map (get_output ops s) ids \<and> (\<forall>i \<in> set ids. live_in (get_output ops s) i)"
  using assms
  by (induction ids arbitrary: outs)
     (auto simp: result_simps resolve_input_def live_in_def is_live_def split: option.splits if_splits)

lemma validate_inputs:
  assumes "validate v s tx = Inr rep" "v_ops v = ops"
  shows "map Some (vr_inputs rep) = map (get_output ops s) (input_set tx) \<and>
    (\<forall>i \<in> set (input_set tx). live_in (get_output ops s) i)"
proof -
  obtain outs where "try_map (resolve_input ops s tx) (input_set tx) = Inr outs" "vr_inputs rep = outs"
    using assms by (auto simp: validate_def result_simps split: if_splits option.splits)
  with resolved_inputs show ?thesis by blast
qed

end

subsection \<open>Execution on the in-memory store\<close>

abbreviation ledger_of :: "mem_store executor_state \<Rightarrow> ledger_map" where
  "ledger_of st \<equiv> outputs (ex_store st)"

lemma mem_get_output_eq [simp]: "mem_get_output s = outputs s"
  by (simp add: mem_get_output_def fun_eq_iff)

lemmas mem_execute_effect = mem.execute_effect [unfolded mem_ops_simps mem_get_output_eq]
lemmas mem_validate_inputs = mem.validate_inputs [unfolded mem_ops_simps mem_get_output_eq]

lemma execute_Inr:
  assumes "mem_inv (ex_store st)" "v_ops v = mem_ops" "execute x now v tx st = (Inr rep, st')"
  shows "mem_inv (ex_store st') \<and> validate v (ex_store st) tx = Inr rep \<and>
    commit_ok tx (ledger_of st) \<and> ledger_of st' = apply_tx tx (ledger_of st)"
  using mem_execute_effect [OF assms] by simp

text \<open>C2: A successful execution has validated the transaction, its inputs are distinct live
  outputs and its outputs new, and the ledger afterwards is the ledger before with exactly the
  inputs marked spent and exactly the proposed outputs added, each with the identity, lineage, owner,
  resources and life time that its proposal states.\<close>

theorem execute_applies:
  assumes "mem_inv (ex_store st)" "v_ops v = mem_ops" "execute x now v tx st = (Inr rep, st')"
  shows "mem_inv (ex_store st') \<and> validate v (ex_store st) tx = Inr rep \<and>
    commit_ok tx (ledger_of st) \<and> ledger_of st' = apply_tx tx (ledger_of st)"
  using execute_Inr [OF assms] .

text \<open>Execution is all or nothing for a transaction that names distinct inputs and distinct new
  outputs: it either fails and leaves the ledger as it was, or has its whole effect.\<close>

theorem execute_atomic:
  assumes "mem_inv (ex_store st)" "v_ops v = mem_ops" "execute x now v tx st = (r, st')"
    "distinct (input_set tx)" "creatable (output_proposals tx) (ledger_of st)"
  shows "(\<exists>e. r = Inl e \<and> ex_store st' = ex_store st) \<or>
    (\<exists>rep. r = Inr rep \<and> ledger_of st' = apply_tx tx (ledger_of st))"
proof (cases r)
  case (Inl e)
  have "commit_ok tx (ledger_of st) \<or> validate v (ex_store st) tx = Inl e"
  proof (cases "validate v (ex_store st) tx")
    case (Inr rep)
    with mem_validate_inputs [OF this assms(2)] assms(4,5) show ?thesis
      by (simp add: commit_ok_def spendable_def)
  qed (use assms(3) Inl in \<open>auto simp: execute_def\<close>)
  with mem_execute_effect [OF assms(1-3)] Inl show ?thesis by auto
next
  case (Inr rep)
  with mem_execute_effect [OF assms(1-3)] show ?thesis by simp
qed

text \<open>Without that condition it is not: when the id of the first proposed output is already
  taken, a transaction that passes validation fails with a duplicate id after all its inputs have
  been spent, and none of its outputs exist.\<close>

theorem execute_burns_inputs:
  assumes "mem_inv (ex_store st)" "v_ops v = mem_ops" "validate v (ex_store st) tx = Inr rep"
    "tx_nonce tx = None" "distinct (input_set tx)" "output_proposals tx = p # ps"
    "ledger_of st (p_output_id p) = Some old"
  shows "\<exists>st'. execute x now v tx st = (Inl DuplicateOutputId, st') \<and>
    ledger_of st' = spend (input_set tx) (ledger_of st)"
proof -
  have "spendable (input_set tx) (mem_get_output (ex_store st))"
    using mem_validate_inputs [OF assms(3,2)] assms(5) by (simp add: spendable_def)
  from mem.mark_loop_ok [unfolded mem_ops_simps, OF assms(1) this] obtain t where
    t: "store_loop mem_mark_spent (input_set tx) (ex_store st) = (Inr (), t)"
    "outputs t = spend (input_set tx) (ledger_of st)" by auto
  have "outputs t (p_output_id p) \<noteq> None" using assms(7) by (simp add: t(2) spend_def)
  then have "mem_insert_output (object_from_proposal p) t = Inl DuplicateOutputId"
    by (simp add: mem_insert_output_def)
  then show ?thesis
    using assms(2-4,6) t
    by (simp add: execute_def commit_prevalidated_def register_replay_nonce_def commit_outputs_def)
qed

text \<open>C3: No double spending: after a successful execution every transaction that names one of its
  inputs again fails, leaving the executor as it was.\<close>

theorem no_double_spend:
  assumes "mem_inv (ex_store st)" "v_ops v = mem_ops" "execute x now v tx st = (Inr rep, st')"
    "set (input_set tx) \<inter> set (input_set tx') \<noteq> {}"
  shows "\<exists>e. execute x later v tx' st' = (Inl e, st')"
proof -
  note eff = execute_Inr [OF assms(1-3)]
  from assms(4) obtain i where i: "i \<in> set (input_set tx)" "i \<in> set (input_set tx')" by auto
  obtain out where out: "ledger_of st i = Some out"
    using eff i(1) by (auto simp: commit_ok_def spendable_def live_in_def split: option.splits)
  have "create (output_proposals tx) (spend (input_set tx) (ledger_of st)) i
      = Some (out\<lparr>o_spent := True\<rparr>)"
  proof (rule create_old)
    show "creatable (output_proposals tx) (spend (input_set tx) (ledger_of st))"
      using eff by (simp add: commit_ok_def)
  qed (simp add: spend_def out i(1))
  then have "\<not> live_in (ledger_of st') i"
    using eff by (simp add: apply_tx_def live_in_def is_live_def)
  then obtain e where "validate v (ex_store st') tx' = Inl e"
    using mem_validate_inputs [of v "ex_store st'" tx'] assms(2) i(2)
    by (cases "validate v (ex_store st') tx'") auto
  then show ?thesis by (simp add: execute_def)
qed

subsection \<open>History\<close>

text \<open>Later ledgers keep every output, change nothing of it but the spent flag, and never clear
  that flag.\<close>

definition extends :: "ledger_map \<Rightarrow> ledger_map \<Rightarrow> bool" where
  "extends L L' \<longleftrightarrow> (\<forall>i out. L i = Some out \<longrightarrow>
     (\<exists>b. L' i = Some (out\<lparr>o_spent := b\<rparr>) \<and> (o_spent out \<longrightarrow> b)))"

lemma extends_refl [simp]: "extends L L"
  unfolding extends_def
proof (intro allI impI)
  fix i and out :: ObjectOutput
  assume "L i = Some out"
  then show "\<exists>b. L i = Some (out\<lparr>o_spent := b\<rparr>) \<and> (o_spent out \<longrightarrow> b)"
    by (intro exI [of _ "o_spent out"]) simp
qed

lemma extends_trans: "extends L L' \<Longrightarrow> extends L' L'' \<Longrightarrow> extends L L''"
  unfolding extends_def by fastforce

lemma extends_spend: "extends L (spend ids L)"
  unfolding extends_def spend_def
proof (intro allI impI)
  fix i and out :: ObjectOutput
  assume "L i = Some out"
  then show "\<exists>b. (if i \<in> set ids then map_option (o_spent_update (\<lambda>_. True)) (L i) else L i)
      = Some (out\<lparr>o_spent := b\<rparr>) \<and> (o_spent out \<longrightarrow> b)"
    by (cases "i \<in> set ids") (auto intro: exI [of _ "o_spent out"])
qed

lemma extends_create: "creatable ps L \<Longrightarrow> extends L (create ps L)"
  unfolding extends_def by (metis create_old ObjectOutput.surjective ObjectOutput.update_convs(18))

lemma creatable_take: "creatable ps L \<Longrightarrow> creatable (take k ps) L"
  by (auto simp: creatable_def take_map [symmetric] dest: in_set_takeD)

text \<open>A run of the executor: any transactions at any times, whatever their results.\<close>

inductive exec_run :: "externals \<Rightarrow> 's validator \<Rightarrow> 's executor_state \<Rightarrow> 's executor_state \<Rightarrow> bool"
  for x v where
  run_refl: "exec_run x v st st"
| run_step: "exec_run x v st st' \<Longrightarrow> execute x now v tx st' = (r, st'') \<Longrightarrow> exec_run x v st st''"

inductive_cases run_stepE: "exec_run x v st st'"

lemma execute_extends:
  assumes "mem_inv (ex_store st)" "v_ops v = mem_ops" "execute x now v tx st = (r, st')"
  shows "mem_inv (ex_store st') \<and> extends (ledger_of st) (ledger_of st')"
proof (cases r)
  case (Inl e)
  with mem_execute_effect [OF assms] obtain k l where kl: "mem_inv (ex_store st')"
    "creatable (take l (output_proposals tx)) (ledger_of st)"
    "ledger_of st' = create (take l (output_proposals tx)) (spend (take k (input_set tx)) (ledger_of st))"
    by auto
  then show ?thesis using extends_trans [OF extends_spend extends_create] by simp
next
  case (Inr rep)
  with execute_Inr [OF assms(1,2)] assms(3) show ?thesis
    using extends_trans [OF extends_spend extends_create]
    by (auto simp: apply_tx_def commit_ok_def)
qed

text \<open>C33: Along every run of the executor, failed executions included, an output once in the ledger
  stays there with all its fields, and once spent stays spent.\<close>

theorem history_is_immutable:
  assumes "exec_run x v st st'" "mem_inv (ex_store st)" "v_ops v = mem_ops"
  shows "mem_inv (ex_store st') \<and> extends (ledger_of st) (ledger_of st')"
  using assms
proof (induction rule: exec_run.induct)
  case (run_step st st' now tx r st'')
  then show ?case using execute_extends extends_trans by blast
qed simp

subsection \<open>Supply\<close>

text \<open>The amount of an asset in the live outputs.\<close>

definition live_supply :: "hash \<Rightarrow> ledger_map \<Rightarrow> nat" where
  "live_supply a L = (\<Sum>i | live_in L i. asset_amount a (o_resources (the (L i))))"

lemma asset_sum_concat: "asset_sum f a (concat xss) = sum_list (map (asset_sum f a) xss)"
  by (induction xss) simp_all

lemma live_in_dom: "live_in L i \<Longrightarrow> i \<in> dom L"
  by (auto simp: live_in_def split: option.splits)

lemma finite_live: "finite (dom L) \<Longrightarrow> finite {i. live_in L i}"
  by (rule finite_subset) (auto dest: live_in_dom)

lemma live_supply_spend:
  assumes "finite (dom L)" "spendable ids L"
  shows "live_supply a L = live_supply a (spend ids L)
    + sum_list (map (\<lambda>i. asset_amount a (o_resources (the (L i)))) ids)"
proof -
  let ?f = "\<lambda>i. asset_amount a (o_resources (the (L i)))"
  have sub: "set ids \<subseteq> {i. live_in L i}" using assms(2) by (auto simp: spendable_def)
  have live: "{i. live_in (spend ids L) i} = {i. live_in L i} - set ids"
    by (auto simp: live_in_def spend_def is_live_def split: option.splits if_splits)
  have "live_supply a (spend ids L) = sum ?f ({i. live_in L i} - set ids)"
    unfolding live_supply_def live by (rule sum.cong) (auto simp: spend_def)
  moreover have "sum_list (map ?f ids) = sum ?f (set ids)"
    using assms(2) by (simp add: spendable_def sum.distinct_set_conv_list)
  moreover have "sum ?f {i. live_in L i} = sum ?f ({i. live_in L i} - set ids) + sum ?f (set ids)"
    using sum.subset_diff [OF sub finite_live [OF assms(1)]] .
  ultimately show ?thesis by (simp add: live_supply_def)
qed

lemma live_supply_create:
  assumes "finite (dom L)" "creatable ps L"
  shows "live_supply a (create ps L) = live_supply a L + sum_list (map (asset_amount a \<circ> p_resources) ps)"
  using assms
proof (induction ps arbitrary: L)
  case (Cons p ps)
  let ?i = "p_output_id p"
  let ?L = "L(?i \<mapsto> object_from_proposal p)"
  note c = Cons.prems(2) [unfolded creatable_Cons]
  have live: "{i. live_in ?L i} = insert ?i {i. live_in L i}"
    by (auto simp: live_in_def is_live_def object_from_proposal_def)
  have new: "?i \<notin> {i. live_in L i}" using c by (auto simp: live_in_def)
  have "live_supply a ?L = asset_amount a (p_resources p) + live_supply a L"
    unfolding live_supply_def live sum.insert [OF finite_live [OF Cons.prems(1)] new]
    using new by (auto simp: object_from_proposal_def intro!: sum.cong)
  moreover have "live_supply a (create ps ?L) = live_supply a ?L + sum_list (map (asset_amount a \<circ> p_resources) ps)"
  proof (rule Cons.IH)
    show "finite (dom ?L)" using Cons.prems(1) by simp
    show "creatable ps ?L" using c by blast
  qed
  moreover have "create (p # ps) L = create ps ?L" using create_Cons c by blast
  ultimately show ?case by (simp add: comp_def)
qed simp

lemma live_supply_apply_tx:
  assumes "finite (dom L)" "commit_ok tx L" "map Some inputs = map L (input_set tx)"
  shows "live_supply a (apply_tx tx L) + asset_amount a (input_entries inputs)
    = live_supply a L + asset_amount a (output_entries tx)"
proof -
  have "map (asset_amount a \<circ> o_resources \<circ> the) (map Some inputs)
      = map (asset_amount a \<circ> o_resources \<circ> the) (map L (input_set tx))" by (simp only: assms(3))
  then have "asset_amount a (input_entries inputs)
      = sum_list (map (\<lambda>i. asset_amount a (o_resources (the (L i)))) (input_set tx))"
    unfolding input_entries_def asset_sum_concat by (simp add: comp_def)
  moreover have "asset_amount a (output_entries tx) = sum_list (map (asset_amount a \<circ> p_resources) (output_proposals tx))"
    by (simp add: output_entries_def asset_sum_concat)
  ultimately show ?thesis
    using live_supply_spend [OF assms(1), of "input_set tx" a] assms(2)
      live_supply_create [of "spend (input_set tx) L" "output_proposals tx" a] assms(1)
    by (simp add: apply_tx_def commit_ok_def)
qed

text \<open>C1: Under the default resource policy a successful execution of anything but a mint does not
  increase the amount of any asset held by live outputs, and decreases the native asset by at
  least the fee and the priority fee.\<close>

theorem execute_conserves_supply:
  assumes "mem_inv (ex_store st)" "v_ops v = mem_ops"
    "v_resources v = (\<lambda>tx inputs reads. check_resources tx inputs)"
    "execute x now v tx st = (Inr rep, st')" "tx_command tx \<noteq> CmdMint"
  shows "live_supply a (ledger_of st') \<le> live_supply a (ledger_of st) \<and>
    live_supply native_asset_id (ledger_of st') + unat (tx_fee tx) + unat (priority_fee tx)
      \<le> live_supply native_asset_id (ledger_of st)"
proof -
  note eff = execute_Inr [OF assms(1,2,4)]
  have fin: "finite (dom (ledger_of st))" using assms(1) by (simp add: mem_inv_def)
  have inputs: "map Some (vr_inputs rep) = map (ledger_of st) (input_set tx)"
    using mem_validate_inputs [OF _ assms(2)] eff by blast
  have "check_resources tx (vr_inputs rep) = Inr ()"
    using eff assms(3) by (auto simp: validate_def result_simps split: if_splits option.splits)
  note cons = check_resources_conserves_all [OF this assms(5), THEN conjunct1]
    check_resources_conserves_all [OF this assms(5), THEN conjunct2, THEN conjunct2]
  have acc: "live_supply b (ledger_of st') + asset_amount b (input_entries (vr_inputs rep))
      = live_supply b (ledger_of st) + asset_amount b (output_entries tx)" for b
    using live_supply_apply_tx [OF fin _ inputs, of b] eff by simp
  show ?thesis
  proof
    show "live_supply a (ledger_of st') \<le> live_supply a (ledger_of st)"
      using acc [of a] cons(1) [of a] by linarith
    show "live_supply native_asset_id (ledger_of st') + unat (tx_fee tx) + unat (priority_fee tx)
        \<le> live_supply native_asset_id (ledger_of st)"
      using acc [of native_asset_id] cons(2) by linarith
  qed
qed

subsection \<open>A concrete execution\<close>

definition sample_out :: ObjectOutput where
  "sample_out = sample_output 1 1"

definition sample_domains :: domain_registry where
  "sample_domains =
     upsert_domain \<lparr>dc_domain_id = DomainId 0, dc_name = ''main'', dc_vm = ''wasm'', dc_public = True\<rparr>
       Map.empty"

definition sample_validator :: "mem_store validator" where
  "sample_validator = default_validator sample_externals sample_domains"

definition sample_report :: ValidationReport where
  "sample_report = \<lparr>vr_inputs = [sample_out], vr_reads = []\<rparr>"

definition sample_state :: "mem_store executor_state" where
  "sample_state = executor_new sample_store"

lemma sample_validator_simps [simp]:
  "v_ops sample_validator = mem_ops"
  "v_resources sample_validator = (\<lambda>tx inputs reads. check_resources tx inputs)"
  "v_authorization sample_validator = (\<lambda>tx inputs reads. authorize sample_externals tx inputs)"
  "v_domains sample_validator = sample_domains"
  by (simp_all add: sample_validator_def default_validator_def)

lemma sample_state_inv: "mem_inv (ex_store sample_state)"
  using reach_invariants [OF sample_store_reach] by (simp add: sample_state_def executor_new_def)

lemma sample_basic: "basic_sanity_check sample_signed_tx" "validate_tx_envelope sample_signed_tx = Inr ()"
  by (simp_all add: basic_sanity_check_def resource_map_is_canonical_def validate_tx_envelope_def
      nonce_required_def validate_metadata_def sample_signed_tx_def sample_simps)

lemma sample_resolve:
  "resolve_input mem_ops sample_store sample_signed_tx (OutputId 1) = Inr (sample_out)"
  by (simp add: resolve_input_def sample_store_def sample_out_def sample_output_def sample_signed_tx_def sample_simps
      validate_existing_output_lifecycle_def validate_common_flags_def)

lemma sample_proposals:
  "validate_output_proposals sample_signed_tx [sample_out] = Inr ()"
  by (simp add: validate_output_proposals_def validate_output_proposal_def sample_signed_tx_def
      sample_simps validate_proposal_lifecycle_def validate_common_flags_def validate_lineage_def
      sample_out_def sample_output_def saturating_add_def)

lemma sample_authorized: "authorize sample_externals sample_signed_tx [sample_out] = Inr ()"
  by (simp add: authorize_def check_owner_present_def check_owner_signature_def
      evaluate_lock_script_def sample_out_def sample_output_def Script_default_def)

lemma sample_resources: "check_resources sample_signed_tx [sample_out] = Inr ()"
  by (simp add: check_resources_def aggregate_resources_def add_resources_def validate_resource_map_def
      update_resource_counter_def count_value_def checked_add_def conserves_def native_asset_id_def
      required_native_def counter_of_def sample_simps sample_out_def sample_output_def sample_signed_tx_def
      ResourceCounter_default_def)

lemma sample_validates:
  assumes "resolve_input mem_ops s sample_signed_tx (OutputId 1) = Inr sample_out"
  shows "validate sample_validator s sample_signed_tx = Inr sample_report"
proof -
  have "input_set sample_signed_tx = [OutputId 1]" "read_set sample_signed_tx = []"
    "get_domain sample_domains (tx_domain_id sample_signed_tx)
      = Some \<lparr>dc_domain_id = DomainId 0, dc_name = ''main'', dc_vm = ''wasm'', dc_public = True\<rparr>"
    by (simp_all add: sample_signed_tx_def sample_tx_def sample_domains_def get_domain_def upsert_domain_def)
  then show ?thesis
    by (simp add: validate_def sample_basic assms sample_proposals sample_authorized
        sample_resources sample_report_def)
qed

lemmas sample_validate = sample_validates [OF sample_resolve]

lemma sample_commit_ok: "commit_ok sample_signed_tx (ledger_of sample_state)"
  by (simp add: commit_ok_def spendable_def creatable_def live_in_def is_live_def sample_signed_tx_def
      sample_simps sample_state_def executor_new_def sample_store_def sample_out_def sample_output_def)

lemma sample_execute:
  "\<exists>st'. execute sample_externals 0 sample_validator sample_signed_tx sample_state
     = (Inr sample_report, st')"
proof -
  have "\<exists>s'. commit_outputs mem_ops sample_signed_tx sample_store = (Inr (), s')"
    using mem.commit_outputs_ok [of "ex_store sample_state" sample_signed_tx] sample_state_inv
      sample_commit_ok by (auto simp: sample_state_def executor_new_def)
  moreover have "tx_nonce sample_signed_tx = None" by (simp add: sample_signed_tx_def sample_tx_def)
  ultimately show ?thesis
    by (auto simp: execute_def sample_state_def executor_new_def sample_validate
        commit_prevalidated_def register_replay_nonce_def)
qed

lemma execute_applies_witness:
  "\<exists>st'. execute sample_externals 0 sample_validator sample_signed_tx sample_state = (Inr sample_report, st') \<and>
     ledger_of st' = apply_tx sample_signed_tx (ledger_of sample_state)"
  using sample_execute execute_applies [OF sample_state_inv sample_validator_simps(1)] by blast

lemma execute_atomic_witness:
  "\<exists>r st'. execute sample_externals 0 sample_validator sample_signed_tx sample_state = (r, st') \<and>
    ((\<exists>e. r = Inl e \<and> ex_store st' = ex_store sample_state) \<or>
     (\<exists>rep. r = Inr rep \<and> ledger_of st' = apply_tx sample_signed_tx (ledger_of sample_state)))"
  using sample_execute sample_commit_ok
    execute_atomic [OF sample_state_inv sample_validator_simps(1), of sample_externals 0 sample_signed_tx]
  unfolding commit_ok_def spendable_def by blast

text \<open>The same transaction when somebody has created an output under the id it proposes.\<close>

definition sample_taken_state :: "mem_store executor_state" where
  "sample_taken_state = executor_new
     (sample_store\<lparr>outputs := (outputs sample_store)(OutputId 2 \<mapsto> sample_output 2 1)\<rparr>)"

lemma sample_taken_inv: "mem_inv (ex_store sample_taken_state)"
  by (simp add: sample_taken_state_def executor_new_def mem_inv_def sample_store_def sample_out_def sample_output_def)

lemma sample_taken_validate:
  "validate sample_validator (ex_store sample_taken_state) sample_signed_tx = Inr sample_report"
proof (rule sample_validates)
  have "resolve_input mem_ops (ex_store sample_taken_state) sample_signed_tx (OutputId 1)
      = resolve_input mem_ops sample_store sample_signed_tx (OutputId 1)"
    by (simp add: resolve_input_def sample_taken_state_def executor_new_def)
  then show "resolve_input mem_ops (ex_store sample_taken_state) sample_signed_tx (OutputId 1) = Inr sample_out"
    by (simp add: sample_resolve)
qed

lemma execute_burns_inputs_witness:
  "\<exists>st'. execute sample_externals 0 sample_validator sample_signed_tx sample_taken_state
      = (Inl DuplicateOutputId, st') \<and> \<not> live_in (ledger_of st') (OutputId 1)"
proof -
  have "output_proposals sample_signed_tx = [sample_proposal]" "tx_nonce sample_signed_tx = None"
    "input_set sample_signed_tx = [OutputId 1]" "p_output_id sample_proposal = OutputId 2"
    "ledger_of sample_taken_state (OutputId 2) = Some (sample_output 2 1)"
    by (simp_all add: sample_signed_tx_def sample_simps sample_taken_state_def executor_new_def)
  then show ?thesis
    using execute_burns_inputs [OF sample_taken_inv sample_validator_simps(1) sample_taken_validate,
        of sample_proposal "[]" "sample_output 2 1" sample_externals 0]
    by (fastforce simp: spend_def live_in_def is_live_def split: option.splits)
qed

lemma no_double_spend_witness:
  "\<exists>st'. execute sample_externals 0 sample_validator sample_signed_tx sample_state = (Inr sample_report, st') \<and>
    (\<exists>e. execute sample_externals 9 sample_validator sample_signed_tx st' = (Inl e, st'))"
proof -
  obtain st' where st': "execute sample_externals 0 sample_validator sample_signed_tx sample_state
      = (Inr sample_report, st')" using sample_execute by blast
  have "set (input_set sample_signed_tx) \<inter> set (input_set sample_signed_tx) \<noteq> {}"
    by (simp add: sample_signed_tx_def sample_tx_def)
  from no_double_spend [OF sample_state_inv sample_validator_simps(1) st' this, of 9] st'
  show ?thesis by blast
qed

lemma history_is_immutable_witness:
  "\<exists>st'. exec_run sample_externals sample_validator sample_state st' \<and>
    extends (ledger_of sample_state) (ledger_of st')"
proof -
  obtain st' where st': "execute sample_externals 0 sample_validator sample_signed_tx sample_state
      = (Inr sample_report, st')" using sample_execute by blast
  have "exec_run sample_externals sample_validator sample_state st'"
    by (rule run_step [OF run_refl st'])
  with history_is_immutable [OF this sample_state_inv sample_validator_simps(1)] show ?thesis by blast
qed

lemma execute_conserves_supply_witness:
  "\<exists>st'. execute sample_externals 0 sample_validator sample_signed_tx sample_state = (Inr sample_report, st') \<and>
    live_supply 1 (ledger_of st') \<le> live_supply 1 (ledger_of sample_state)"
proof -
  obtain st' where st': "execute sample_externals 0 sample_validator sample_signed_tx sample_state
      = (Inr sample_report, st')" using sample_execute by blast
  have "tx_command sample_signed_tx \<noteq> CmdMint" by simp
  from execute_conserves_supply [OF sample_state_inv sample_validator_simps(1,2) st' this] st'
  show ?thesis by blast
qed

end
