(* ===== verification/Validation.thy ===== *)
theory Validation
  imports Ledger
begin

section \<open>What validation and the replay registry guarantee\<close>

text \<open>
  The guarantees of \<open>BasicTxValidator::validate\<close> in \<open>compute/execution.rs\<close> about inputs, reads
  and the lineage of outputs, the reach of the time-to-live check, and the replay-nonce registry.
\<close>

subsection \<open>Validation\<close>

lemma resolved_reads:
  assumes "try_map (resolve_read ops s tx) rs = Inr outs"
  shows "list_all2 (\<lambda>rr out. get_output ops s (rr_output_id rr) = Some out \<and>
    o_domain_id out = rr_domain_id rr \<and> o_version out = rr_expected_version rr) rs outs"
  using assms
  by (induction rs arbitrary: outs)
     (auto simp: result_simps resolve_read_def split: option.splits if_splits)

lemma resolved_inputs_domain:
  assumes "try_map (resolve_input ops s tx) ids = Inr outs"
  shows "list_all2 (\<lambda>i out. get_output ops s i = Some out \<and> is_live out \<and>
    o_domain_id out = tx_domain_id tx) ids outs"
  using assms
  by (induction ids arbitrary: outs)
     (auto simp: result_simps resolve_input_def is_live_def split: option.splits if_splits)

text \<open>An output continues an object of the inputs by one version, or starts an object.\<close>

definition lineage_ok :: "ObjectOutput list \<Rightarrow> OutputProposal \<Rightarrow> bool" where
  "lineage_ok inputs p \<longleftrightarrow>
     (case p_predecessor p of
        None \<Rightarrow> version_raw (p_version p) = 1
      | Some i \<Rightarrow> \<exists>parent \<in> set inputs. o_output_id parent = i \<and> o_object_id parent = p_object_id p \<and>
          version_raw (p_version p) = saturating_add (version_raw (o_version parent)) 1 \<and>
          o_created_at parent \<le> p_created_at p \<and> and (o_flags parent) FLAG_FROZEN = 0)"

lemma validate_lineage_ok:
  assumes "validate_lineage inputs p = Inr ()"
  shows "lineage_ok inputs p"
proof (cases "p_predecessor p")
  case None
  then show ?thesis using assms by (auto simp: validate_lineage_def lineage_ok_def split: if_splits)
next
  case (Some i)
  then obtain parent where f: "find (\<lambda>out. o_output_id out = i) inputs = Some parent"
    using assms by (auto simp: validate_lineage_def split: option.splits)
  then have "parent \<in> set inputs" "o_output_id parent = i" by (auto simp: find_Some_iff)
  with Some f assms show ?thesis
    by (auto simp: validate_lineage_def lineage_ok_def not_less split: if_splits
        intro!: bexI [of _ parent])
qed

text \<open>C34: A validated transaction is structurally sane and runs in a registered public domain; its
  resolved inputs are the stored outputs it names, live and in that domain; its resolved reads are
  the stored outputs at the domain and version it expects; and every proposed output stays in the
  domain and either continues an input's object, unfrozen, at the next version and no earlier, or
  starts at version one.\<close>

theorem validate_sound:
  assumes "validate v s tx = Inr rep"
  shows "basic_sanity_check tx \<and>
    (\<exists>d. get_domain (v_domains v) (tx_domain_id tx) = Some d \<and> dc_public d) \<and>
    list_all2 (\<lambda>i out. get_output (v_ops v) s i = Some out \<and> is_live out \<and>
      o_domain_id out = tx_domain_id tx) (input_set tx) (vr_inputs rep) \<and>
    list_all2 (\<lambda>rr out. get_output (v_ops v) s (rr_output_id rr) = Some out \<and>
      o_domain_id out = rr_domain_id rr \<and> o_version out = rr_expected_version rr)
      (read_set tx) (vr_reads rep) \<and>
    (\<forall>p \<in> set (output_proposals tx). p_domain_id p = tx_domain_id tx \<and> lineage_ok (vr_inputs rep) p)"
proof -
  obtain d ins rds where v: "basic_sanity_check tx"
    "get_domain (v_domains v) (tx_domain_id tx) = Some d" "dc_public d"
    "try_map (resolve_input (v_ops v) s tx) (input_set tx) = Inr ins"
    "try_map (resolve_read (v_ops v) s tx) (read_set tx) = Inr rds"
    "validate_output_proposals tx ins = Inr ()" "rep = \<lparr>vr_inputs = ins, vr_reads = rds\<rparr>"
    using assms by (auto simp: validate_def result_simps split: if_splits option.splits)
  have "\<forall>p \<in> set (output_proposals tx). p_domain_id p = tx_domain_id tx \<and> lineage_ok ins p"
    using v(6) by (auto simp: validate_output_proposals_def validate_output_proposal_def result_simps
        validate_lineage_ok split: if_splits)
  with v resolved_inputs_domain [OF v(4)] resolved_reads [OF v(5)] show ?thesis by auto
qed

lemma validate_sound_witness:
  "validate sample_validator sample_store sample_signed_tx = Inr sample_report \<and>
   lineage_ok (vr_inputs sample_report) sample_proposal"
  using validate_sound [OF sample_validate] sample_validate
  by (simp add: sample_signed_tx_def sample_tx_def)

text \<open>The time to live of an output is compared with the deadline the sender writes into the
  transaction, never with a clock: with the deadline zero the lifecycle check accepts every output
  whose flags, rent and creation time are in order, however long ago it expired.\<close>

theorem ttl_is_up_to_the_sender:
  "validate_existing_output_lifecycle out (tx\<lparr>deadline_unix_secs := Some 0\<rparr>) source = Inr () \<longleftrightarrow>
     validate_common_flags (o_kind out) (o_flags out) source = Inr () \<and> o_rent_reserve out \<noteq> Some 0 \<and>
     (case o_ttl out of None \<Rightarrow> True | Some ttl \<Rightarrow> o_created_at out < ttl)"
  by (auto simp: validate_existing_output_lifecycle_def result_simps not_le split: option.splits)

subsection \<open>Replay nonces\<close>

lemma show_nat_no_bar: "CHR ''|'' \<notin> set (show_nat n)"
proof
  assume "CHR ''|'' \<in> set (show_nat n)"
  from show_nat_digits [OF this] show False by simp
qed

lemma show_option_no_bar: "CHR ''|'' \<notin> set (show_option v)"
  by (auto simp: show_option_def show_nat_no_bar split: option.splits)

lemma show_option_inj: "show_option v = show_option w \<longleftrightarrow> v = w"
  by (auto simp: show_option_def word_unat_eq_iff split: option.splits)

text \<open>Replay keys are unambiguous: for actors without a bar in their text (a hex rendering has
  none) two equal keys name the same actor, domain, chain, network and nonce.\<close>

theorem replay_nonce_key_injective:
  assumes "replay_nonce_key a t n = replay_nonce_key b u m"
    "CHR ''|'' \<notin> set a" "CHR ''|'' \<notin> set b"
  shows "a = b \<and> tx_domain_id t = tx_domain_id u \<and> chain_id t = chain_id u \<and>
    network_id t = network_id u \<and> n = m"
  using assms(1)
  by (auto simp: replay_nonce_key_def split_at_separator assms(2,3) show_nat_no_bar
      show_option_no_bar show_option_inj word_unat_eq_iff intro: DomainId.expand)

lemma replay_nonce_key_injective_witness:
  "replay_nonce_key ''ed25519:ab'' sample_tx 7 = replay_nonce_key ''ed25519:ab'' (sample_tx\<lparr>payload := [1]\<rparr>) 7 \<and>
   chain_id sample_tx = chain_id (sample_tx\<lparr>payload := [1]\<rparr>)"
proof -
  have "replay_nonce_key ''ed25519:ab'' sample_tx 7 = replay_nonce_key ''ed25519:ab'' (sample_tx\<lparr>payload := [1]\<rparr>) 7"
    by (simp add: replay_nonce_key_def)
  with replay_nonce_key_injective [OF this] show ?thesis by simp
qed

lemma register_actors_Inr:
  assumes "register_actors tx nonce now actors r = (Inr (), r')"
  shows "(\<forall>a \<in> set actors. r' (replay_nonce_key a tx nonce) = Some now) \<and>
    (\<forall>k ts. r k = Some ts \<longrightarrow> r' k = Some ts)"
  using assms
proof (induction actors arbitrary: r)
  case (Cons a actors)
  let ?k = "replay_nonce_key a tx nonce"
  have n: "r ?k = None" and s: "register_actors tx nonce now actors (r(?k \<mapsto> now)) = (Inr (), r')"
    using Cons.prems by (auto simp: Let_def split: if_splits)
  note ih = Cons.IH [OF s]
  then have k: "r' ?k = Some now" by simp
  have "r' k = Some ts" if "r k = Some ts" for k ts
  proof -
    have "k \<noteq> ?k" using that n by auto
    with ih that show ?thesis by auto
  qed
  with ih k show ?case by auto
qed simp

lemma register_actors_blocked:
  assumes "a \<in> set actors" "r (replay_nonce_key a tx nonce) \<noteq> None"
  shows "fst (register_actors tx nonce now actors r) = Inl replay_used"
  using assms by (induction actors arbitrary: r) (auto simp: Let_def)

text \<open>Once a transaction with a nonce has been registered, every transaction that shares one of
  its signers and its domain, chain, network and nonce is refused while the time of registration
  is within the replay window.\<close>

theorem replay_is_refused:
  assumes "register_replay_nonce x now tx r = (Inr (), r')" "tx_nonce tx = Some nonce"
    "tx_nonce tx' = Some nonce" "tx_domain_id tx' = tx_domain_id tx" "chain_id tx' = chain_id tx"
    "network_id tx' = network_id tx" "set (replay_actors x tx) \<inter> set (replay_actors x tx') \<noteq> {}"
    "in_window later now"
  shows "fst (register_replay_nonce x later tx' r') = Inl replay_used"
proof -
  from assms(7) obtain a where a: "a \<in> set (replay_actors x tx)" "a \<in> set (replay_actors x tx')" by auto
  have "r' (replay_nonce_key a tx nonce) = Some now"
    using register_actors_Inr a(1) assms(1,2) unfolding register_replay_nonce_def by auto
  moreover have "replay_nonce_key a tx' nonce = replay_nonce_key a tx nonce"
    using assms(4-6) by (simp add: replay_nonce_key_def)
  ultimately have "retain_window later r' (replay_nonce_key a tx' nonce) \<noteq> None"
    using assms(8) by (simp add: retain_window_def)
  with register_actors_blocked [OF a(2), of "retain_window later r'" tx' nonce later] show ?thesis
    using assms(3) by (simp add: register_replay_nonce_def)
qed

lemma replay_is_refused_witness:
  "\<exists>r'. register_replay_nonce sample_externals 100 (sample_signed_tx\<lparr>tx_nonce := Some 1\<rparr>) Map.empty = (Inr (), r') \<and>
     fst (register_replay_nonce sample_externals 200 (sample_signed_tx\<lparr>tx_nonce := Some 1\<rparr>) r')
       = Inl replay_used"
proof -
  let ?tx = "sample_signed_tx\<lparr>tx_nonce := Some 1\<rparr>"
  have a: "replay_actors sample_externals ?tx = [''ed25519:'']"
    by (simp add: replay_actors_def replay_actor_def sample_signature_def sample_externals_def)
  then obtain r' where r: "register_replay_nonce sample_externals 100 ?tx Map.empty = (Inr (), r')"
    by (auto simp: register_replay_nonce_def Let_def retain_window_def)
  have "in_window 200 100"
    by (simp add: in_window_def saturating_sub_def REPLAY_NONCE_WINDOW_SECS_def)
  then have "fst (register_replay_nonce sample_externals 200 ?tx r') = Inl replay_used"
    by (intro replay_is_refused [OF r, where nonce = 1]) (simp_all add: a)
  with r show ?thesis by blast
qed

end
