(* ===== verification/Locality.thy ===== *)
theory Locality
  imports Validation
begin

section \<open>Execution reads and writes only what a transaction names\<close>

text \<open>
  The commit on the abstract ledger, step by step, which the executor refines over every object
  store; and the locality of execution: its result depends only on the outputs a transaction
  names, and it changes only its inputs and the outputs it proposes.
\<close>

subsection \<open>The commit on the abstract ledger\<close>

fun ledger_mark :: "OutputId list \<Rightarrow> ledger_map \<Rightarrow> (ComputeError + unit) \<times> ledger_map" where
  "ledger_mark [] L = (Inr (), L)"
| "ledger_mark (i # ids) L =
     (case L i of
        None \<Rightarrow> (Inl (ObjectNotFound (output_raw i)), L)
      | Some out \<Rightarrow>
          if o_spent out then (Inl double_spend, L)
          else ledger_mark ids (L(i \<mapsto> out\<lparr>o_spent := True\<rparr>)))"

fun ledger_insert :: "OutputProposal list \<Rightarrow> ledger_map \<Rightarrow> (ComputeError + unit) \<times> ledger_map" where
  "ledger_insert [] L = (Inr (), L)"
| "ledger_insert (p # ps) L =
     (if L (p_output_id p) \<noteq> None then (Inl DuplicateOutputId, L)
      else ledger_insert ps (L(p_output_id p \<mapsto> object_from_proposal p)))"

definition ledger_commit :: "ComputeTx \<Rightarrow> ledger_map \<Rightarrow> (ComputeError + unit) \<times> ledger_map" where
  "ledger_commit tx L =
     (case ledger_mark (input_set tx) L of
        (Inl e, L) \<Rightarrow> (Inl e, L)
      | (Inr _, L) \<Rightarrow> ledger_insert (output_proposals tx) L)"

definition agree :: "OutputId set \<Rightarrow> ledger_map \<Rightarrow> ledger_map \<Rightarrow> bool" where
  "agree K L M \<longleftrightarrow> (\<forall>i \<in> K. L i = M i)"

lemma ledger_mark_local:
  assumes "set ids \<subseteq> K" "agree K L M"
  shows "fst (ledger_mark ids L) = fst (ledger_mark ids M) \<and>
    agree K (snd (ledger_mark ids L)) (snd (ledger_mark ids M))"
  using assms
proof (induction ids arbitrary: L M)
  case (Cons i ids)
  have eq: "L i = M i" using Cons.prems by (simp add: agree_def)
  show ?case
  proof (cases "M i")
    case None
    with eq Cons.prems show ?thesis by simp
  next
    case (Some out)
    have "agree K (L(i \<mapsto> out\<lparr>o_spent := True\<rparr>)) (M(i \<mapsto> out\<lparr>o_spent := True\<rparr>))"
      using Cons.prems(2) by (simp add: agree_def)
    with Cons Some eq show ?thesis by simp
  qed
qed simp

lemma ledger_insert_local:
  assumes "p_output_id ` set ps \<subseteq> K" "agree K L M"
  shows "fst (ledger_insert ps L) = fst (ledger_insert ps M) \<and>
    agree K (snd (ledger_insert ps L)) (snd (ledger_insert ps M))"
  using assms
proof (induction ps arbitrary: L M)
  case (Cons p ps)
  have eq: "L (p_output_id p) = M (p_output_id p)" using Cons.prems by (simp add: agree_def)
  have "agree K (L(p_output_id p \<mapsto> object_from_proposal p)) (M(p_output_id p \<mapsto> object_from_proposal p))"
    using Cons.prems(2) by (simp add: agree_def)
  with Cons eq show ?case by simp
qed simp

lemma ledger_mark_frame: "i \<notin> set ids \<Longrightarrow> snd (ledger_mark ids L) i = L i"
  by (induction ids arbitrary: L) (auto split: option.splits)

lemma ledger_insert_frame: "i \<notin> p_output_id ` set ps \<Longrightarrow> snd (ledger_insert ps L) i = L i"
  by (induction ps arbitrary: L) auto

definition tx_writes :: "ComputeTx \<Rightarrow> OutputId set" where
  "tx_writes tx = set (input_set tx) \<union> p_output_id ` set (output_proposals tx)"

definition tx_reads :: "ComputeTx \<Rightarrow> OutputId set" where
  "tx_reads tx = rr_output_id ` set (read_set tx)"

lemma ledger_commit_local:
  assumes "tx_writes tx \<subseteq> K" "agree K L M"
  shows "fst (ledger_commit tx L) = fst (ledger_commit tx M) \<and>
    agree K (snd (ledger_commit tx L)) (snd (ledger_commit tx M))"
proof -
  obtain r L' r' M' where m: "ledger_mark (input_set tx) L = (r, L')" "ledger_mark (input_set tx) M = (r', M')"
    by (meson surj_pair)
  have "set (input_set tx) \<subseteq> K" "p_output_id ` set (output_proposals tx) \<subseteq> K"
    using assms(1) by (auto simp: tx_writes_def)
  then show ?thesis
    using ledger_mark_local [of "input_set tx" K L M] ledger_insert_local [of "output_proposals tx" K L' M'] assms(2) m
    by (cases r) (auto simp: ledger_commit_def)
qed

lemma ledger_commit_frame: "i \<notin> tx_writes tx \<Longrightarrow> snd (ledger_commit tx L) i = L i"
  using ledger_mark_frame [of i "input_set tx" L]
    ledger_insert_frame [of i "output_proposals tx" "snd (ledger_mark (input_set tx) L)"]
  by (auto simp: ledger_commit_def tx_writes_def split: prod.splits sum.splits)

subsection \<open>The executor refines it\<close>

context object_store
begin

lemma mark_loop_refines:
  assumes "inv s"
  shows "inv (snd (store_loop (mark_spent ops) ids s)) \<and>
    fst (store_loop (mark_spent ops) ids s) = fst (ledger_mark ids (get_output ops s)) \<and>
    get_output ops (snd (store_loop (mark_spent ops) ids s)) = snd (ledger_mark ids (get_output ops s))"
  using assms
proof (induction ids arbitrary: s)
  case (Cons i ids)
  show ?case
  proof (cases "get_output ops s i")
    case None
    with mark_missing [OF Cons.prems None] Cons.prems show ?thesis by simp
  next
    case (Some out)
    show ?thesis
    proof (cases "o_spent out")
      case True
      with mark_dead [OF Cons.prems Some] Cons.prems Some show ?thesis by simp
    next
      case False
      from mark_live [OF Cons.prems Some False] obtain s' where s': "mark_spent ops i s = Inr s'" "inv s'"
        "get_output ops s' = (get_output ops s)(i \<mapsto> out\<lparr>o_spent := True\<rparr>)" by blast
      from Cons.IH [OF s'(2), unfolded s'(3)] show ?thesis
        using s'(1) Some False by (simp del: fun_upd_apply)
    qed
  qed
qed simp

lemma insert_loop_refines:
  assumes "inv s"
  shows "inv (snd (store_loop (\<lambda>p. insert_output ops (object_from_proposal p)) ps s)) \<and>
    fst (store_loop (\<lambda>p. insert_output ops (object_from_proposal p)) ps s)
      = fst (ledger_insert ps (get_output ops s)) \<and>
    get_output ops (snd (store_loop (\<lambda>p. insert_output ops (object_from_proposal p)) ps s))
      = snd (ledger_insert ps (get_output ops s))"
  using assms
proof (induction ps arbitrary: s)
  case (Cons p ps)
  show ?case
  proof (cases "get_output ops s (p_output_id p)")
    case (Some old)
    with insert_present [OF Cons.prems, of "object_from_proposal p"] Cons.prems show ?thesis by simp
  next
    case None
    then obtain s' where s': "insert_output ops (object_from_proposal p) s = Inr s'" "inv s'"
      "get_output ops s' = (get_output ops s)(p_output_id p \<mapsto> object_from_proposal p)"
      using insert_fresh [OF Cons.prems, of "object_from_proposal p"] by auto
    from Cons.IH [OF s'(2), unfolded s'(3)] show ?thesis using s'(1) None by (simp del: fun_upd_apply)
  qed
qed simp

lemma commit_outputs_refines:
  assumes "inv s"
  shows "inv (snd (commit_outputs ops tx s)) \<and>
    fst (commit_outputs ops tx s) = fst (ledger_commit tx (get_output ops s)) \<and>
    get_output ops (snd (commit_outputs ops tx s)) = snd (ledger_commit tx (get_output ops s))"
proof -
  obtain r t where m: "store_loop (mark_spent ops) (input_set tx) s = (r, t)" by force
  from mark_loop_refines [OF assms, of "input_set tx", unfolded m] have
    t: "inv t" "ledger_mark (input_set tx) (get_output ops s) = (r, get_output ops t)" by (auto simp: prod_eq_iff)
  from insert_loop_refines [OF t(1), of "output_proposals tx"] show ?thesis
    using m t by (cases r) (simp_all add: commit_outputs_def ledger_commit_def)
qed

lemma validate_local:
  assumes "v_ops v = ops" "agree (tx_writes tx \<union> tx_reads tx) (get_output ops s) (get_output ops t)"
  shows "validate v s tx = validate v t tx"
proof -
  have i: "try_map (resolve_input ops s tx) (input_set tx) = try_map (resolve_input ops t tx) (input_set tx)"
    by (rule try_map_cong) (use assms(2) in \<open>auto simp: resolve_input_def agree_def tx_writes_def\<close>)
  have r: "try_map (resolve_read ops s tx) (read_set tx) = try_map (resolve_read ops t tx) (read_set tx)"
    by (rule try_map_cong) (use assms(2) in \<open>auto simp: resolve_read_def agree_def tx_reads_def\<close>)
  show ?thesis unfolding validate_def assms(1) i r ..
qed

text \<open>Execution by a fresh executor.\<close>

lemma execute_fresh_local:
  assumes "v_ops v = ops" "inv s" "inv t" "tx_writes tx \<union> tx_reads tx \<subseteq> K"
    "agree K (get_output ops s) (get_output ops t)"

  shows "fst (execute x now v tx (executor_new s)) = fst (execute x now v tx (executor_new t)) \<and>
    agree K (get_output ops (ex_store (snd (execute x now v tx (executor_new s)))))
      (get_output ops (ex_store (snd (execute x now v tx (executor_new t)))))"
proof -
  have sub: "tx_writes tx \<subseteq> K" using assms(4) by simp
  have "agree (tx_writes tx \<union> tx_reads tx) (get_output ops s) (get_output ops t)"
    using assms(4,5) unfolding agree_def by blast
  note v = validate_local [OF assms(1) this]
  obtain g reg where g: "register_replay_nonce x now tx Map.empty = (g, reg)" by force
  obtain a s1 b t1 where c: "commit_outputs ops tx s = (a, s1)" "commit_outputs ops tx t = (b, t1)"
    by (meson surj_pair)
  have "a = b \<and> agree K (get_output ops s1) (get_output ops t1)"
    using ledger_commit_local [OF sub assms(5)] commit_outputs_refines [OF assms(2), of tx]
      commit_outputs_refines [OF assms(3), of tx] c by simp
  then show ?thesis
    using assms(1,5) v g c
    by (cases "validate v t tx"; cases g; cases b)
       (simp_all add: execute_def commit_prevalidated_def executor_new_def)
qed

lemma execute_fresh_frame:
  assumes "v_ops v = ops" "inv s"
  shows "inv (ex_store (snd (execute x now v tx (executor_new s)))) \<and>
    (i \<notin> tx_writes tx \<longrightarrow>
       get_output ops (ex_store (snd (execute x now v tx (executor_new s)))) i = get_output ops s i)"
proof -
  obtain g reg where g: "register_replay_nonce x now tx Map.empty = (g, reg)" by force
  obtain a s1 where c: "commit_outputs ops tx s = (a, s1)" by force
  have "inv s1 \<and> (i \<notin> tx_writes tx \<longrightarrow> get_output ops s1 i = get_output ops s i)"
    using commit_outputs_refines [OF assms(2), of tx] c ledger_commit_frame [of i tx] by simp
  then show ?thesis
    using assms g c
    by (cases "validate v s tx"; cases g; cases a)
       (simp_all add: execute_def commit_prevalidated_def executor_new_def)
qed

end

end
