(* ===== verification/Workers.thy ===== *)
theory Workers
  imports Locality
begin

section \<open>Worker threads on a shared object store\<close>

text \<open>
  The threads of \<open>run_group\<close> in \<open>compute/batch.rs\<close>.  A transaction is a program of single accesses to the object
  store, each atomic under the lock of the store; between two accesses of one worker any other worker may
  go on.  A pool has the queue, the workers and the results, and a schedule says which worker moves next.  For
  transactions that touch nothing another one writes, every schedule has the outcomes and the ledger of
  running them one after another.
\<close>

subsection \<open>A transaction as a program of store accesses\<close>

datatype 's task =
    Finished "ComputeError + ValidationReport"
  | Read "'s \<Rightarrow> 's task"
  | Write "'s \<Rightarrow> ComputeError + 's" "'s task"

text \<open>\<open>Read\<close> looks at the store and goes on; \<open>Write\<close> changes it, or ends with the error and leaves it.\<close>

primrec finish :: "'s task \<Rightarrow> 's \<Rightarrow> (ComputeError + ValidationReport) \<times> 's" where
  "finish (Finished r) = (\<lambda>s. (r, s))"
| "finish (Read f) = (\<lambda>s. finish (f s) s)"
| "finish (Write op t) = (\<lambda>s. case op s of Inl e \<Rightarrow> (Inl e, s) | Inr s' \<Rightarrow> finish t s')"

fun read_all :: "('s \<Rightarrow> 'a \<Rightarrow> ComputeError + 'b) \<Rightarrow> 'a list \<Rightarrow> ('b list \<Rightarrow> 's task) \<Rightarrow> 's task" where
  "read_all f [] k = k []"
| "read_all f (a # as) k =
     Read (\<lambda>s. case f s a of Inl e \<Rightarrow> Finished (Inl e) | Inr b \<Rightarrow> read_all f as (\<lambda>bs. k (b # bs)))"

fun write_all :: "('a \<Rightarrow> 's \<Rightarrow> ComputeError + 's) \<Rightarrow> 'a list \<Rightarrow> 's task \<Rightarrow> 's task" where
  "write_all f [] t = t"
| "write_all f (a # as) t = Write (f a) (write_all f as t)"

text \<open>The commit by a fresh executor, whose replay registry is empty and its own.\<close>

definition commit_task ::
  "externals \<Rightarrow> u64 \<Rightarrow> 's store_ops \<Rightarrow> ComputeTx \<Rightarrow> ValidationReport \<Rightarrow> 's task" where
  "commit_task x now ops tx report =
     (case fst (register_replay_nonce x now tx Map.empty) of
        Inl e \<Rightarrow> Finished (Inl e)
      | Inr _ \<Rightarrow>
          write_all (mark_spent ops) (input_set tx)
            (write_all (\<lambda>p. insert_output ops (object_from_proposal p)) (output_proposals tx) (Finished (Inr report))))"

text \<open>The body of a worker: \<open>validate\<close>, which reads every input and every read reference from the store, then
  \<open>commit_prevalidated\<close>.\<close>

definition worker_task :: "externals \<Rightarrow> u64 \<Rightarrow> 's validator \<Rightarrow> ComputeTx \<Rightarrow> 's task" where
  "worker_task x now v tx =
     (if \<not> basic_sanity_check tx then Finished (Inl (InvalidOperation ''operation failed basic sanity check''))
      else case validate_tx_envelope tx of
        Inl e \<Rightarrow> Finished (Inl e)
      | Inr _ \<Rightarrow>
        (case get_domain (v_domains v) (tx_domain_id tx) of
           None \<Rightarrow> Finished (Inl (DomainNotRegistered (domain_raw (tx_domain_id tx))))
         | Some domain \<Rightarrow>
             if \<not> dc_public domain then Finished (Inl (DomainNotPublic (domain_raw (tx_domain_id tx))))
             else
               read_all (\<lambda>s. resolve_input (v_ops v) s tx) (input_set tx) (\<lambda>inputs.
               read_all (\<lambda>s. resolve_read (v_ops v) s tx) (read_set tx) (\<lambda>reads.
               case and_then (validate_output_proposals tx inputs) (\<lambda>_.
                    and_then (v_authorization v tx inputs reads) (\<lambda>_. v_resources v tx inputs reads)) of
                 Inl e \<Rightarrow> Finished (Inl e)
               | Inr _ \<Rightarrow> commit_task x now (v_ops v) tx \<lparr>vr_inputs = inputs, vr_reads = reads\<rparr>))))"

text \<open>Run without interruption it is the executor.\<close>

lemma finish_read_all:
  "finish (read_all f as k) s = (case try_map (f s) as of Inl e \<Rightarrow> (Inl e, s) | Inr bs \<Rightarrow> finish (k bs) s)"
  by (induction as arbitrary: k) (auto simp: and_then_def split: sum.split)

lemma finish_write_all:
  "finish (write_all f as t) s = (case store_loop f as s of (Inl e, s') \<Rightarrow> (Inl e, s') | (Inr _, s') \<Rightarrow> finish t s')"
  by (induction as arbitrary: s) (auto split: sum.split)

lemma finish_commit_task:
  "finish (commit_task x now ops tx report) s =
     (case commit_prevalidated x now ops tx report (executor_new s) of (r, st) \<Rightarrow> (r, ex_store st))"
proof -
  obtain g reg where g: "register_replay_nonce x now tx Map.empty = (g, reg)" by force
  show ?thesis
    by (cases g)
       (auto simp: commit_task_def commit_prevalidated_def commit_outputs_def executor_new_def g finish_write_all split: sum.split prod.split)
qed

lemma finish_worker_task:
  "finish (worker_task x now v tx) s = (case execute x now v tx (executor_new s) of (r, st) \<Rightarrow> (r, ex_store st))"
  by (auto simp: worker_task_def execute_def validate_def executor_new_def finish_read_all finish_commit_task and_then_def
      split: sum.split option.split prod.split)

subsection \<open>The pool\<close>

datatype ('s, 'i) worker = Idle | Running nat 'i "'s task" | Stopped

text \<open>The queue holds the items not yet taken, with their indices; \<open>po_results\<close> has a slot for each item.\<close>

record ('s, 'i, 'o) pool =
  po_store :: 's
  po_queue :: "(nat \<times> 'i) list"
  po_workers :: "('s, 'i) worker list"
  po_results :: "'o option list"

definition set_worker :: "nat \<Rightarrow> ('s, 'i) worker \<Rightarrow> ('s, 'i, 'o) pool \<Rightarrow> ('s, 'i, 'o) pool" where
  "set_worker w k p = p\<lparr>po_workers := (po_workers p)[w := k]\<rparr>"

text \<open>One move of worker \<open>w\<close>: it takes an item or stops, makes one access to the store, or files its outcome.\<close>

definition worker_step ::
  "('i \<Rightarrow> 's task) \<Rightarrow> ('i \<Rightarrow> ComputeError + ValidationReport \<Rightarrow> 'o) \<Rightarrow> nat \<Rightarrow> ('s, 'i, 'o) pool \<Rightarrow> ('s, 'i, 'o) pool" where
  "worker_step start outcome w p =
     (if length (po_workers p) \<le> w then p
      else case po_workers p ! w of
        Idle \<Rightarrow>
          (case po_queue p of
             [] \<Rightarrow> set_worker w Stopped p
           | (j, i) # q \<Rightarrow> set_worker w (Running j i (start i)) (p\<lparr>po_queue := q\<rparr>))
      | Running j i t \<Rightarrow>
          (case t of
             Finished r \<Rightarrow> set_worker w Idle (p\<lparr>po_results := (po_results p)[j := Some (outcome i r)]\<rparr>)
           | Read f \<Rightarrow> set_worker w (Running j i (f (po_store p))) p
           | Write op t \<Rightarrow>
               (case op (po_store p) of
                  Inl e \<Rightarrow> set_worker w (Running j i (Finished (Inl e))) p
                | Inr s \<Rightarrow> set_worker w (Running j i t) (p\<lparr>po_store := s\<rparr>)))
      | Stopped \<Rightarrow> p)"

text \<open>A worker running to the end of its item, and the rest of the queue item by item.\<close>

definition complete ::
  "('i \<Rightarrow> ComputeError + ValidationReport \<Rightarrow> 'o) \<Rightarrow> nat \<Rightarrow> 'i \<Rightarrow> 's task \<Rightarrow> ('s, 'i, 'o) pool \<Rightarrow> ('s, 'i, 'o) pool" where
  "complete outcome j i t p =
     (case finish t (po_store p) of
        (r, s) \<Rightarrow> p\<lparr>po_results := (po_results p)[j := Some (outcome i r)], po_store := s\<rparr>)"

definition complete_worker ::
  "('i \<Rightarrow> ComputeError + ValidationReport \<Rightarrow> 'o) \<Rightarrow> nat \<Rightarrow> ('s, 'i, 'o) pool \<Rightarrow> ('s, 'i, 'o) pool" where
  "complete_worker outcome w p =
     (if length (po_workers p) \<le> w then p
      else case po_workers p ! w of Running j i t \<Rightarrow> complete outcome j i t (set_worker w Idle p) | _ \<Rightarrow> p)"

fun drain ::
  "('i \<Rightarrow> 's task) \<Rightarrow> ('i \<Rightarrow> ComputeError + ValidationReport \<Rightarrow> 'o) \<Rightarrow> (nat \<times> 'i) list \<Rightarrow> ('s, 'i, 'o) pool \<Rightarrow> ('s, 'i, 'o) pool" where
  "drain start outcome [] p = p"
| "drain start outcome ((j, i) # q) p = drain start outcome q (complete outcome j i (start i) (p\<lparr>po_queue := q\<rparr>))"

text \<open>The workers move in the order of \<open>steps\<close>, one access at a time; whatever it leaves undone is then done worker
  by worker, so that every list is the beginning of a complete run and every complete run is such a list.\<close>

definition run_pool ::
  "('i \<Rightarrow> 's task) \<Rightarrow> ('i \<Rightarrow> ComputeError + ValidationReport \<Rightarrow> 'o) \<Rightarrow> nat \<Rightarrow> nat list \<Rightarrow> 'i list \<Rightarrow> 's \<Rightarrow> 'o option list \<times> 's" where
  "run_pool start outcome worker_count steps items s =
     (let p = fold (worker_step start outcome) steps
                \<lparr>po_store = s, po_queue = zip [0..<length items] items,
                 po_workers = replicate worker_count Idle, po_results = replicate (length items) None\<rparr>;
          p = fold (complete_worker outcome) [0..<worker_count] p;
          p = drain start outcome (po_queue p) p
      in (po_results p, po_store p))"

subsection \<open>What a task reads and writes\<close>

context object_store
begin

text \<open>A write of the footprint \<open>K\<close>, \<open>W\<close>: its result depends on \<open>K\<close> only and it changes \<open>W\<close> only.\<close>

definition local_op :: "OutputId set \<Rightarrow> OutputId set \<Rightarrow> ('s \<Rightarrow> ComputeError + 's) \<Rightarrow> bool" where
  "local_op K W op \<longleftrightarrow>
     (\<forall>s s'. inv s \<longrightarrow> op s = Inr s' \<longrightarrow> inv s' \<and> (\<forall>i. i \<notin> W \<longrightarrow> get_output ops s' i = get_output ops s i)) \<and>
     (\<forall>s t. inv s \<longrightarrow> inv t \<longrightarrow> agree K (get_output ops s) (get_output ops t) \<longrightarrow>
        (\<exists>e. op s = Inl e \<and> op t = Inl e) \<or>
        (\<exists>s' t'. op s = Inr s' \<and> op t = Inr t' \<and> agree K (get_output ops s') (get_output ops t')))"

inductive local_task :: "OutputId set \<Rightarrow> OutputId set \<Rightarrow> 's task \<Rightarrow> bool" for K W where
  "local_task K W (Finished r)"
| "(\<And>s. local_task K W (f s)) \<Longrightarrow>
     (\<And>s t. agree K (get_output ops s) (get_output ops t) \<Longrightarrow> f s = f t) \<Longrightarrow> local_task K W (Read f)"
| "local_task K W t \<Longrightarrow> local_op K W op \<Longrightarrow> local_task K W (Write op t)"

lemma finish_frame:
  assumes "local_task K W t" "inv s"
  shows "inv (snd (finish t s)) \<and> (\<forall>i. i \<notin> W \<longrightarrow> get_output ops (snd (finish t s)) i = get_output ops s i)"
  using assms
proof (induction arbitrary: s rule: local_task.induct)
  case (3 t op)
  show ?case
  proof (cases "op s")
    case (Inr s')
    with 3 have "inv s'" "\<And>i. i \<notin> W \<Longrightarrow> get_output ops s' i = get_output ops s i"
      unfolding local_op_def by blast+
    with 3(3) [of s'] Inr show ?thesis by simp
  qed (use 3 in simp)
qed simp_all

lemma finish_agree:
  assumes "local_task K W t" "inv s" "inv s'" "agree K (get_output ops s) (get_output ops s')"
  shows "fst (finish t s) = fst (finish t s') \<and>
    agree K (get_output ops (snd (finish t s))) (get_output ops (snd (finish t s')))"
  using assms
proof (induction arbitrary: s s' rule: local_task.induct)
  case (2 f)
  then have "f s = f s'" by blast
  with 2 show ?case by simp
next
  case (3 t op)
  then consider (err) e where "op s = Inl e" "op s' = Inl e"
    | (ok) s1 s1' where "op s = Inr s1" "op s' = Inr s1'" "agree K (get_output ops s1) (get_output ops s1')"
    unfolding local_op_def by blast
  then show ?case
  proof cases
    case ok
    moreover have "inv s1" "inv s1'" using 3 ok unfolding local_op_def by blast+
    ultimately show ?thesis using 3(3) [of s1 s1'] by simp
  qed (use 3 in simp)
qed simp

lemma local_read_all:
  assumes "\<And>a s t. a \<in> set as \<Longrightarrow> agree K (get_output ops s) (get_output ops t) \<Longrightarrow> f s a = f t a"
    and "\<And>bs. local_task K W (k bs)"
  shows "local_task K W (read_all f as k)"
  using assms
proof (induction as arbitrary: k)
  case (Cons a as)
  show ?case unfolding read_all.simps
  proof (rule local_task.intros(2))
    show "local_task K W (case f s a of Inl e \<Rightarrow> Finished (Inl e) | Inr b \<Rightarrow> read_all f as (\<lambda>bs. k (b # bs)))" for s
      using Cons by (auto split: sum.split intro: local_task.intros(1))
    show "(case f s a of Inl e \<Rightarrow> Finished (Inl e) | Inr b \<Rightarrow> read_all f as (\<lambda>bs. k (b # bs))) =
      (case f t a of Inl e \<Rightarrow> Finished (Inl e) | Inr b \<Rightarrow> read_all f as (\<lambda>bs. k (b # bs)))"
      if "agree K (get_output ops s) (get_output ops t)" for s t
    proof -
      have "f s a = f t a" using Cons.prems(1) [OF _ that] by simp
      have "read_all f as = read_all f as" ..
      then show ?thesis using \<open>f s a = f t a\<close> by simp
    qed
  qed
qed simp

lemma local_write_all:
  assumes "\<And>a. a \<in> set as \<Longrightarrow> local_op K W (f a)" "local_task K W t"
  shows "local_task K W (write_all f as t)"
  using assms by (induction as) (auto intro: local_task.intros(3))

lemma mark_frame:
  assumes "inv s" "mark_spent ops i s = Inr s'"
  shows "inv s'" "j \<noteq> i \<Longrightarrow> get_output ops s' j = get_output ops s j"
proof -
  obtain out where "inv s'" "get_output ops s' = (get_output ops s)(i \<mapsto> out\<lparr>o_spent := True\<rparr>)"
    using mark_Inr [OF assms] .
  then show "inv s'" "j \<noteq> i \<Longrightarrow> get_output ops s' j = get_output ops s j" by simp_all
qed

lemma insert_frame:
  assumes "inv s" "insert_output ops out s = Inr s'"
  shows "inv s'" "j \<noteq> o_output_id out \<Longrightarrow> get_output ops s' j = get_output ops s j"
  using insert_Inr [OF assms] by simp_all

lemma local_mark: "i \<in> K \<Longrightarrow> i \<in> W \<Longrightarrow> local_op K W (mark_spent ops i)"
  unfolding local_op_def
proof (intro conjI allI impI)
  fix s t
  assume i: "i \<in> K" and s: "inv s" and t: "inv t" and ag: "agree K (get_output ops s) (get_output ops t)"
  have eq: "get_output ops t i = get_output ops s i" using i ag by (simp add: agree_def)
  consider (none) "get_output ops s i = None" | (dead) out where "get_output ops s i = Some out" "o_spent out"
    | (live) out where "get_output ops s i = Some out" "\<not> o_spent out" by (cases "get_output ops s i") auto
  then show "(\<exists>e. mark_spent ops i s = Inl e \<and> mark_spent ops i t = Inl e) \<or>
    (\<exists>s' t'. mark_spent ops i s = Inr s' \<and> mark_spent ops i t = Inr t' \<and> agree K (get_output ops s') (get_output ops t'))"
  proof cases
    case none
    then show ?thesis using mark_missing [OF s] mark_missing [OF t] eq by auto
  next
    case dead
    then show ?thesis using mark_dead [OF s] mark_dead [OF t] eq by auto
  next
    case live
    have t': "get_output ops t i = Some out" using eq live(1) by simp
    obtain s' where "mark_spent ops i s = Inr s'" "get_output ops s' = (get_output ops s)(i \<mapsto> out\<lparr>o_spent := True\<rparr>)"
      using mark_live [OF s live] by blast
    moreover obtain t' where "mark_spent ops i t = Inr t'" "get_output ops t' = (get_output ops t)(i \<mapsto> out\<lparr>o_spent := True\<rparr>)"
      using mark_live [OF t t' live(2)] by blast
    ultimately    show ?thesis using ag by (auto simp: agree_def)
  qed
qed (blast intro: mark_frame(1), metis mark_frame(2))

lemma local_insert: "o_output_id out \<in> K \<Longrightarrow> o_output_id out \<in> W \<Longrightarrow> local_op K W (insert_output ops out)"
  unfolding local_op_def
proof (intro conjI allI impI)
  fix s t
  assume i: "o_output_id out \<in> K" and s: "inv s" and t: "inv t" and ag: "agree K (get_output ops s) (get_output ops t)"
  have eq: "get_output ops t (o_output_id out) = get_output ops s (o_output_id out)" using i ag by (simp add: agree_def)
  show "(\<exists>e. insert_output ops out s = Inl e \<and> insert_output ops out t = Inl e) \<or>
    (\<exists>s' t'. insert_output ops out s = Inr s' \<and> insert_output ops out t = Inr t' \<and> agree K (get_output ops s') (get_output ops t'))"
  proof (cases "get_output ops s (o_output_id out)")
    case None
    with insert_fresh [OF s] insert_fresh [OF t] eq obtain s' t' where
      "insert_output ops out s = Inr s'" "get_output ops s' = (get_output ops s)(o_output_id out \<mapsto> out)"
      "insert_output ops out t = Inr t'" "get_output ops t' = (get_output ops t)(o_output_id out \<mapsto> out)" by metis
    then show ?thesis using ag by (auto simp: agree_def)
  next
    case (Some old)
    then show ?thesis using insert_present [OF s] insert_present [OF t] eq by auto
  qed
qed (blast intro: insert_frame(1), metis insert_frame(2))

lemma local_worker_task:
  assumes "v_ops v = ops"
  shows "local_task (tx_writes tx \<union> tx_reads tx) (tx_writes tx) (worker_task x now v tx)"
proof -
  let ?K = "tx_writes tx \<union> tx_reads tx" and ?W = "tx_writes tx"
  have c: "local_task ?K ?W (commit_task x now ops tx report)" for report
    unfolding commit_task_def
    by (auto split: sum.split intro!: local_task.intros(1) local_write_all local_mark local_insert simp: tx_writes_def)
  have i: "resolve_input ops s tx i = resolve_input ops t tx i"
    if "i \<in> set (input_set tx)" "agree ?K (get_output ops s) (get_output ops t)" for i s t
    using that by (simp add: resolve_input_def agree_def tx_writes_def)
  have r: "resolve_read ops s tx rr = resolve_read ops t tx rr"
    if "rr \<in> set (read_set tx)" "agree ?K (get_output ops s) (get_output ops t)" for rr s t
    using that by (simp add: resolve_read_def agree_def tx_reads_def)
  show ?thesis
    unfolding worker_task_def assms
    by (auto split: sum.split option.split intro!: local_task.intros(1) local_read_all c intro: i r)
qed

end

subsection \<open>Every schedule has the effect of isolated runs\<close>

text \<open>What is left of each task is \<open>res\<close>: run to the end from here, it has the result and the view that the whole
  task has in a run of its own, \<open>fin\<close>.\<close>

definition isolated :: "nat \<Rightarrow> (nat \<Rightarrow> OutputId set) \<Rightarrow> (nat \<Rightarrow> OutputId set) \<Rightarrow> bool" where
  "isolated n K W \<longleftrightarrow> (\<forall>j<n. W j \<subseteq> K j) \<and> (\<forall>j<n. \<forall>k<n. j \<noteq> k \<longrightarrow> W j \<inter> K k = {})"

context object_store
begin

definition tracked ::
  "nat \<Rightarrow> (nat \<Rightarrow> OutputId set) \<Rightarrow> (nat \<Rightarrow> OutputId set) \<Rightarrow> (nat \<Rightarrow> (ComputeError + ValidationReport) \<times> 's) \<Rightarrow> 's
   \<Rightarrow> (nat \<Rightarrow> 's task) \<Rightarrow> 's \<Rightarrow> bool" where
  "tracked n K W fin s0 res s \<longleftrightarrow> inv s \<and>
     (\<forall>j<n. local_task (K j) (W j) (res j) \<and> fst (finish (res j) s) = fst (fin j) \<and>
        agree (K j) (get_output ops (snd (finish (res j) s))) (get_output ops (snd (fin j)))) \<and>
     (\<forall>i. (\<forall>j<n. i \<notin> W j) \<longrightarrow> get_output ops s i = get_output ops s0 i)"

lemma tracked_start:
  "inv s0 \<Longrightarrow> (\<And>j. j < n \<Longrightarrow> local_task (K j) (W j) (T j)) \<Longrightarrow> tracked n K W (\<lambda>j. finish (T j) s0) s0 T s0"
  by (simp add: tracked_def agree_def)

lemma tracked_move:
  assumes "isolated n K W" "tracked n K W fin s0 res s" "j < n" "local_task (K j) (W j) t"
    and "inv s'" "\<And>i. i \<notin> W j \<Longrightarrow> get_output ops s' i = get_output ops s i" "finish t s' = finish (res j) s"
  shows "tracked n K W fin s0 (res(j := t)) s'"
  unfolding tracked_def
proof (intro conjI allI impI)
  fix k
  assume k: "k < n"
  show "local_task (K k) (W k) ((res(j := t)) k)" using assms(2,4) k by (simp add: tracked_def)
  have "fst (finish ((res(j := t)) k) s') = fst (finish (res k) s) \<and>
    agree (K k) (get_output ops (snd (finish ((res(j := t)) k) s'))) (get_output ops (snd (finish (res k) s)))"
  proof (cases "k = j")
    case True
    with assms(7) show ?thesis by (simp add: agree_def)
  next
    case False
    then have "W j \<inter> K k = {}" using assms(1,3) k by (simp add: isolated_def)
    then have "agree (K k) (get_output ops s') (get_output ops s)" using assms(6) unfolding agree_def by blast
    with finish_agree [of "K k" "W k" "res k" s' s] assms(2,5) k False show ?thesis by (simp add: tracked_def)
  qed
  then show "fst (finish ((res(j := t)) k) s') = fst (fin k)"
    "agree (K k) (get_output ops (snd (finish ((res(j := t)) k) s'))) (get_output ops (snd (fin k)))"
    using assms(2) k by (simp_all add: tracked_def agree_def)
next
  fix i
  assume "\<forall>k<n. i \<notin> W k"
  with assms(2,3,6) show "get_output ops s' i = get_output ops s0 i" by (simp add: tracked_def)
qed (rule assms(5))

lemma tracked_complete:
  assumes "isolated n K W" "tracked n K W fin s0 res s" "j < n"
  shows "tracked n K W fin s0 (res(j := Finished (fst (finish (res j) s)))) (snd (finish (res j) s))"
proof (rule tracked_move [OF assms])
  have l: "local_task (K j) (W j) (res j)" "inv s" using assms(2,3) by (simp_all add: tracked_def)
  show "inv (snd (finish (res j) s))" "\<And>i. i \<notin> W j \<Longrightarrow> get_output ops (snd (finish (res j) s)) i = get_output ops s i"
    using finish_frame [OF l] by simp_all
qed (simp_all add: local_task.intros(1))

end

text \<open>Where the items are: in the queue, at one worker, or done with their outcome filed.\<close>

definition at_worker :: "('s, 'i, 'o) pool \<Rightarrow> nat \<Rightarrow> ('s, 'i) worker" where
  "at_worker p w = (if w < length (po_workers p) then po_workers p ! w else Idle)"

datatype place = Waiting | With nat | Filed "ComputeError + ValidationReport"

definition booked ::
  "('i \<Rightarrow> 's task) \<Rightarrow> ('i \<Rightarrow> ComputeError + ValidationReport \<Rightarrow> 'o) \<Rightarrow> 'i list \<Rightarrow> (nat \<Rightarrow> place) \<Rightarrow> (nat \<Rightarrow> 's task)
   \<Rightarrow> ('s, 'i, 'o) pool \<Rightarrow> bool" where
  "booked start outcome items pl res p \<longleftrightarrow>
     length (po_results p) = length items \<and> distinct (map fst (po_queue p)) \<and>
     (\<forall>j i. (j, i) \<in> set (po_queue p) \<longleftrightarrow> j < length items \<and> i = items ! j \<and> pl j = Waiting) \<and>
     (\<forall>w j i t. at_worker p w = Running j i t \<longleftrightarrow> j < length items \<and> i = items ! j \<and> t = res j \<and> pl j = With w) \<and>
     (\<forall>j < length items. pl j = Waiting \<longrightarrow> res j = start (items ! j)) \<and>
     (\<forall>j < length items. \<forall>r. pl j = Filed r \<longrightarrow> res j = Finished r \<and> po_results p ! j = Some (outcome (items ! j) r))"

lemma at_set_worker [simp]:
  "at_worker (set_worker w k p) w' = (if w' = w \<and> w < length (po_workers p) then k else at_worker p w')"
  by (simp add: at_worker_def set_worker_def nth_list_update)

lemma at_other [simp]:
  "at_worker (p\<lparr>po_queue := q\<rparr>) = at_worker p" "at_worker (p\<lparr>po_store := s\<rparr>) = at_worker p"
  "at_worker (p\<lparr>po_results := rs\<rparr>) = at_worker p"
  by (simp_all add: at_worker_def fun_eq_iff)

lemma set_worker_sel [simp]:
  "po_store (set_worker w k p) = po_store p" "po_queue (set_worker w k p) = po_queue p"
  "po_results (set_worker w k p) = po_results p" "length (po_workers (set_worker w k p)) = length (po_workers p)"
  by (simp_all add: set_worker_def)

lemma set_worker_results: "(set_worker w k p)\<lparr>po_results := rs\<rparr> = set_worker w k (p\<lparr>po_results := rs\<rparr>)"
  by (simp add: set_worker_def)

lemma booked_store [simp]: "booked start outcome items pl res (p\<lparr>po_store := s\<rparr>) = booked start outcome items pl res p"
  by (simp add: booked_def)

lemma booked_at:
  assumes "booked start outcome items pl res p"
  shows "at_worker p w = Running j i t \<longleftrightarrow> j < length items \<and> i = items ! j \<and> t = res j \<and> pl j = With w"
    "(j, i) \<in> set (po_queue p) \<longleftrightarrow> j < length items \<and> i = items ! j \<and> pl j = Waiting"
    "length (po_results p) = length items" "distinct (map fst (po_queue p))"
    "j < length items \<Longrightarrow> pl j = Waiting \<Longrightarrow> res j = start (items ! j)"
    "j < length items \<Longrightarrow> pl j = Filed r \<Longrightarrow> res j = Finished r \<and> po_results p ! j = Some (outcome (items ! j) r)"
  using assms unfolding booked_def by blast+

lemma bookedI:
  assumes "\<And>w j i t. at_worker p w = Running j i t \<longleftrightarrow> j < length items \<and> i = items ! j \<and> t = res j \<and> pl j = With w"
    "\<And>j i. (j, i) \<in> set (po_queue p) \<longleftrightarrow> j < length items \<and> i = items ! j \<and> pl j = Waiting"
    "length (po_results p) = length items" "distinct (map fst (po_queue p))"
    "\<And>j. j < length items \<Longrightarrow> pl j = Waiting \<Longrightarrow> res j = start (items ! j)"
    "\<And>j r. j < length items \<Longrightarrow> pl j = Filed r \<Longrightarrow> res j = Finished r \<and> po_results p ! j = Some (outcome (items ! j) r)"
  shows "booked start outcome items pl res p"
  using assms unfolding booked_def by blast

lemma booked_idle: "booked start outcome items pl res p \<Longrightarrow> at_worker p w = Idle \<Longrightarrow> j < length items \<Longrightarrow> pl j \<noteq> With w"
  using booked_at(1) [of start outcome items pl res p w j "items ! j" "res j"] by simp

lemma booked_one:
  assumes "booked start outcome items pl res p" "at_worker p w = Running j i t" "k < length items" "pl k = With w"
  shows "k = j"
  using booked_at(1) [OF assms(1), of w k "items ! k" "res k"] assms(2-4) by simp

lemma booked_worker:
  assumes "booked start outcome items pl res p" "at_worker p w = Running j i t"
  shows "j < length items" "i = items ! j" "t = res j" "pl j = With w" "w < length (po_workers p)"
  using assms(2) booked_at(1) [OF assms(1), of w j i t] by (auto simp: at_worker_def split: if_splits)

lemma booked_rest:
  assumes "booked start outcome items pl res p" "po_queue p = (j, i) # q"
  shows "(k, i') \<in> set q \<longleftrightarrow> k < length items \<and> i' = items ! k \<and> pl k = Waiting \<and> k \<noteq> j"
    "j < length items" "i = items ! j" "pl j = Waiting" "distinct (map fst q)"
proof -
  have "(k, i') \<in> set q \<longleftrightarrow> (k, i') \<in> set (po_queue p) \<and> k \<noteq> j"
    using booked_at(2) [OF assms(1), of j i'] booked_at(4) [OF assms(1)] assms(2) by force
  then show "(k, i') \<in> set q \<longleftrightarrow> k < length items \<and> i' = items ! k \<and> pl k = Waiting \<and> k \<noteq> j"
    using booked_at(2) [OF assms(1), of k i'] by blast
  show "j < length items" "i = items ! j" "pl j = Waiting" "distinct (map fst q)"
    using booked_at(2) [OF assms(1), of j i] booked_at(4) [OF assms(1)] assms(2) by simp_all
qed

lemma booked_stop:
  assumes "booked start outcome items pl res p" "at_worker p w = Idle"
  shows "booked start outcome items pl res (set_worker w Stopped p)"
proof (rule bookedI)
  fix w' j i t
  show "at_worker (set_worker w Stopped p) w' = Running j i t \<longleftrightarrow> j < length items \<and> i = items ! j \<and> t = res j \<and> pl j = With w'"
    using booked_at(1) [OF assms(1), of w' j i t] booked_idle [OF assms, of j] by auto
qed (use booked_at [OF assms(1)] in simp_all)

lemma booked_take:
  assumes "booked start outcome items pl res p" "at_worker p w = Idle" "w < length (po_workers p)" "po_queue p = (j, i) # q"
  shows "booked start outcome items (pl(j := With w)) res (set_worker w (Running j i (start i)) (p\<lparr>po_queue := q\<rparr>))"
proof (rule bookedI)
  note r = booked_rest [OF assms(1,4)]
  have s: "res j = start i" using booked_at(5) [OF assms(1) r(2,4)] r(3) by simp
  fix w' k i' t
  show "at_worker (set_worker w (Running j i (start i)) (p\<lparr>po_queue := q\<rparr>)) w' = Running k i' t \<longleftrightarrow>
      k < length items \<and> i' = items ! k \<and> t = res k \<and> (pl(j := With w)) k = With w'"
    using booked_at(1) [OF assms(1), of w' k i' t] booked_idle [OF assms(1,2), of k] r(2-4) s assms(3)
    by (cases "k = j"; cases "w' = w") auto
next
  fix k i'
  show "(k, i') \<in> set (po_queue (set_worker w (Running j i (start i)) (p\<lparr>po_queue := q\<rparr>))) \<longleftrightarrow>
      k < length items \<and> i' = items ! k \<and> (pl(j := With w)) k = Waiting"
    using booked_rest(1) [OF assms(1,4), of k i'] by auto
qed (use booked_at [OF assms(1)] booked_rest(5) [OF assms(1,4)] in \<open>simp_all split: if_splits\<close>)

lemma booked_run:
  assumes "booked start outcome items pl res p" "at_worker p w = Running j i t"
  shows "booked start outcome items pl (res(j := t')) (set_worker w (Running j i t') p)"
proof (rule bookedI)
  note r = booked_worker [OF assms]
  fix w' k i' t''
  show "at_worker (set_worker w (Running j i t') p) w' = Running k i' t'' \<longleftrightarrow>
      k < length items \<and> i' = items ! k \<and> t'' = (res(j := t')) k \<and> pl k = With w'"
  proof (cases "w' = w")
    case True
    moreover have "k \<noteq> j \<Longrightarrow> \<not> (k < length items \<and> pl k = With w)" using booked_one [OF assms, of k] by blast
    ultimately show ?thesis using r(1,2,4,5) by (cases "k = j") auto
  next
    case False
    then show ?thesis using booked_at(1) [OF assms(1), of w' k i' t''] r(4) by (cases "k = j") simp_all
  qed
qed (use booked_at [OF assms(1)] booked_worker [OF assms] in auto)

lemma booked_file:
  assumes "booked start outcome items pl res p" "at_worker p w = Running j i t"
  shows "booked start outcome items (pl(j := Filed r)) (res(j := Finished r))
    (set_worker w Idle (p\<lparr>po_results := (po_results p)[j := Some (outcome i r)]\<rparr>))"
proof (rule bookedI)
  note b = booked_worker [OF assms]
  fix w' k i' t'
  show "at_worker (set_worker w Idle (p\<lparr>po_results := (po_results p)[j := Some (outcome i r)]\<rparr>)) w' = Running k i' t' \<longleftrightarrow>
      k < length items \<and> i' = items ! k \<and> t' = (res(j := Finished r)) k \<and> (pl(j := Filed r)) k = With w'"
  proof (cases "w' = w")
    case True
    moreover have "k \<noteq> j \<Longrightarrow> \<not> (k < length items \<and> pl k = With w)" using booked_one [OF assms, of k] by blast
    ultimately show ?thesis using b(1,4,5) by (cases "k = j") auto
  next
    case False
    then show ?thesis using booked_at(1) [OF assms(1), of w' k i' t'] b(4) by (cases "k = j") simp_all
  qed
next
  fix k i'
  show "(k, i') \<in> set (po_queue (set_worker w Idle (p\<lparr>po_results := (po_results p)[j := Some (outcome i r)]\<rparr>))) \<longleftrightarrow>
      k < length items \<and> i' = items ! k \<and> (pl(j := Filed r)) k = Waiting"
    using booked_at(2) [OF assms(1), of k i'] booked_worker [OF assms] by auto
qed (use booked_at [OF assms(1)] booked_worker [OF assms] in \<open>auto simp: nth_list_update split: if_splits\<close>)

lemma booked_drain:
  assumes "booked start outcome items pl res p" "po_queue p = (j, i) # q"
  shows "booked start outcome items (pl(j := Filed r)) (res(j := Finished r))
    (p\<lparr>po_queue := q, po_results := (po_results p)[j := Some (outcome i r)]\<rparr>)"
proof (rule bookedI)
  note b = booked_rest [OF assms]
  fix w' k i' t'
  show "at_worker (p\<lparr>po_queue := q, po_results := (po_results p)[j := Some (outcome i r)]\<rparr>) w' = Running k i' t' \<longleftrightarrow>
      k < length items \<and> i' = items ! k \<and> t' = (res(j := Finished r)) k \<and> (pl(j := Filed r)) k = With w'"
    using booked_at(1) [OF assms(1), of w' k i' t'] b(2-4) by (cases "k = j") (simp_all add: at_worker_def)
next
  fix k i'
  show "(k, i') \<in> set (po_queue (p\<lparr>po_queue := q, po_results := (po_results p)[j := Some (outcome i r)]\<rparr>)) \<longleftrightarrow>
      k < length items \<and> i' = items ! k \<and> (pl(j := Filed r)) k = Waiting"
    using booked_rest(1) [OF assms, of k i'] by auto
qed (use booked_at [OF assms(1)] booked_rest(2-5) [OF assms] in \<open>auto simp: nth_list_update split: if_splits\<close>)

context object_store
begin

definition pool_ok ::
  "('i \<Rightarrow> 's task) \<Rightarrow> ('i \<Rightarrow> ComputeError + ValidationReport \<Rightarrow> 'o) \<Rightarrow> 'i list \<Rightarrow> (nat \<Rightarrow> OutputId set) \<Rightarrow> (nat \<Rightarrow> OutputId set) \<Rightarrow> 's
   \<Rightarrow> ('s, 'i, 'o) pool \<Rightarrow> bool" where
  "pool_ok start outcome items K W s0 p \<longleftrightarrow>
     (\<exists>pl res. booked start outcome items pl res p \<and>
        tracked (length items) K W (\<lambda>j. finish (start (items ! j)) s0) s0 res (po_store p))"

inductive_cases local_taskE: "local_task K W (Read f)" "local_task K W (Write op t)"

lemma pool_move:
  assumes "isolated (length items) K W" "booked start outcome items pl res p" "at_worker p w = Running j i t"
    "tracked (length items) K W (\<lambda>j. finish (start (items ! j)) s0) s0 res (po_store p)"
    "local_task (K j) (W j) t'" "inv s'" "\<And>i. i \<notin> W j \<Longrightarrow> get_output ops s' i = get_output ops (po_store p) i"
    "finish t' s' = finish t (po_store p)"
  shows "pool_ok start outcome items K W s0 (set_worker w (Running j i t') (p\<lparr>po_store := s'\<rparr>))"
proof -
  note b = booked_worker [OF assms(2,3)]
  have "tracked (length items) K W (\<lambda>j. finish (start (items ! j)) s0) s0 (res(j := t')) s'"
    using tracked_move [OF assms(1,4) b(1) assms(5-7)] assms(8) b(3) by simp
  moreover have "booked start outcome items pl (res(j := t')) (set_worker w (Running j i t') (p\<lparr>po_store := s'\<rparr>))"
    using booked_run [of start outcome items pl res "p\<lparr>po_store := s'\<rparr>" w j i t t'] assms(2,3) by simp
  ultimately show ?thesis unfolding pool_ok_def by auto
qed

lemma complete_ok:
  assumes "isolated (length items) K W" "tracked (length items) K W fin s0 res (po_store p)" "j < length items" "t = res j"
    "\<And>r. booked start outcome items (pl(j := Filed r)) (res(j := Finished r)) (q\<lparr>po_results := (po_results p)[j := Some (outcome i r)]\<rparr>)"
    "po_store q = po_store p" "po_results q = po_results p"
  shows "\<exists>pl res. booked start outcome items pl res (complete outcome j i t q) \<and>
    tracked (length items) K W fin s0 res (po_store (complete outcome j i t q))"
proof -
  obtain r s where f: "finish t (po_store p) = (r, s)" by force
  have "booked start outcome items (pl(j := Filed r)) (res(j := Finished r)) (complete outcome j i t q)"
    using assms(5) [of r] booked_store [where start = start and outcome = outcome and items = items and pl = "pl(j := Filed r)"
        and res = "res(j := Finished r)" and p = "q\<lparr>po_results := (po_results p)[j := Some (outcome i r)]\<rparr>" and s = s]
    by (simp add: complete_def f assms(6,7) del: booked_store)
  moreover have "tracked (length items) K W fin s0 (res(j := Finished r)) (po_store (complete outcome j i t q))"
    using tracked_complete [OF assms(1-3)] f assms(4,6) by (simp add: complete_def)
  ultimately show ?thesis by blast
qed

lemma worker_step_ok:
  assumes "isolated (length items) K W" "pool_ok start outcome items K W s0 p"
  shows "pool_ok start outcome items K W s0 (worker_step start outcome w p)"
proof -
  obtain pl res where p: "booked start outcome items pl res p"
    "tracked (length items) K W (\<lambda>j. finish (start (items ! j)) s0) s0 res (po_store p)"
    using assms(2) unfolding pool_ok_def by blast
  consider (out) "length (po_workers p) \<le> w" | (stopped) "w < length (po_workers p)" "po_workers p ! w = Stopped"
    | (idle) "w < length (po_workers p)" "po_workers p ! w = Idle"
    | (running) j i t where "w < length (po_workers p)" "po_workers p ! w = Running j i t"
    by (cases "length (po_workers p) \<le> w"; cases "po_workers p ! w") (auto simp: not_le)
  then show ?thesis
  proof cases
    case idle
    then have a: "at_worker p w = Idle" by (simp add: at_worker_def)
    show ?thesis
    proof (cases "po_queue p")
      case Nil
      then show ?thesis using booked_stop [OF p(1) a] p(2) idle by (auto simp: worker_step_def pool_ok_def)
    next
      case (Cons ji q)
      then obtain j i where q: "po_queue p = (j, i) # q" by (cases ji) simp
      have "worker_step start outcome w p = set_worker w (Running j i (start i)) (p\<lparr>po_queue := q\<rparr>)"
        using idle q by (simp add: worker_step_def)
      then show ?thesis using booked_take [OF p(1) a idle(1) q] p(2) unfolding pool_ok_def by auto
    qed
  next
    case (running j i t)
    then have a: "at_worker p w = Running j i t" by (simp add: at_worker_def)
    note b = booked_worker [OF p(1) a]
    have l: "local_task (K j) (W j) t" "inv (po_store p)" using p(2) b(1,3) by (simp_all add: tracked_def)
    show ?thesis
    proof (cases t)
      case (Finished r)
      have "booked start outcome items (pl(j := Filed r)) res (set_worker w Idle (p\<lparr>po_results := (po_results p)[j := Some (outcome i r)]\<rparr>))"
        using booked_file [OF p(1) a, of r] b(3) Finished by (simp add: fun_upd_idem)
      with running Finished p(2) show ?thesis unfolding pool_ok_def by (auto simp: worker_step_def)
    next
      case (Read f)
      have "pool_ok start outcome items K W s0 (set_worker w (Running j i (f (po_store p))) (p\<lparr>po_store := po_store p\<rparr>))"
        by (rule pool_move [OF assms(1) p(1) a p(2)]) (use l Read in \<open>auto elim: local_taskE\<close>)
      with running Read show ?thesis by (simp add: worker_step_def)
    next
      case (Write op u)
      then have u: "local_task (K j) (W j) u" "local_op (K j) (W j) op" using l(1) by (auto elim: local_taskE)
      show ?thesis
      proof (cases "op (po_store p)")
        case (Inl e)
        have "pool_ok start outcome items K W s0 (set_worker w (Running j i (Finished (Inl e))) (p\<lparr>po_store := po_store p\<rparr>))"
          by (rule pool_move [OF assms(1) p(1) a p(2)]) (use l Write Inl in \<open>auto intro: local_task.intros(1)\<close>)
        with running Write Inl show ?thesis by (simp add: worker_step_def)
      next
        case (Inr s')
        then have s': "inv s'" "\<And>i. i \<notin> W j \<Longrightarrow> get_output ops s' i = get_output ops (po_store p) i"
          using u(2) l(2) unfolding local_op_def by blast+
        have "pool_ok start outcome items K W s0 (set_worker w (Running j i u) (p\<lparr>po_store := s'\<rparr>))"
          by (rule pool_move [OF assms(1) p(1) a p(2) u(1) s']) (use Write Inr in simp_all)
        with running Write Inr show ?thesis by (simp add: worker_step_def)
      qed
    qed
  qed (use assms(2) in \<open>simp_all add: worker_step_def\<close>)
qed

lemma complete_worker_ok:
  assumes "isolated (length items) K W" "pool_ok start outcome items K W s0 p"
  shows "pool_ok start outcome items K W s0 (complete_worker outcome w p)"
proof (cases "w < length (po_workers p) \<and> (\<exists>j i t. po_workers p ! w = Running j i t)")
  case True
  then obtain j i t where r: "w < length (po_workers p)" "po_workers p ! w = Running j i t" by blast
  obtain pl res where p: "booked start outcome items pl res p"
    "tracked (length items) K W (\<lambda>j. finish (start (items ! j)) s0) s0 res (po_store p)"
    using assms(2) unfolding pool_ok_def by blast
  have a: "at_worker p w = Running j i t" using r by (simp add: at_worker_def)
  have "\<exists>pl res. booked start outcome items pl res (complete outcome j i t (set_worker w Idle p)) \<and>
    tracked (length items) K W (\<lambda>j. finish (start (items ! j)) s0) s0 res (po_store (complete outcome j i t (set_worker w Idle p)))"
    by (rule complete_ok [where pl = pl, OF assms(1) p(2) booked_worker(1,3) [OF p(1) a]])
       (use booked_file [OF p(1) a] in \<open>simp_all add: set_worker_results\<close>)
  with r show ?thesis by (simp add: complete_worker_def pool_ok_def)
next
  case False
  then have "complete_worker outcome w p = p" by (auto simp: complete_worker_def split: worker.split)
  with assms(2) show ?thesis by simp
qed

lemma drain_ok:
  assumes "isolated (length items) K W" "pool_ok start outcome items K W s0 p"
  shows "pool_ok start outcome items K W s0 (drain start outcome (po_queue p) p) \<and> po_queue (drain start outcome (po_queue p) p) = [] \<and>
    at_worker (drain start outcome (po_queue p) p) = at_worker p"
  using assms(2)
proof (induction "po_queue p" arbitrary: p)
  case (Cons ji q)
  obtain j i where q: "po_queue p = (j, i) # q" using Cons.hyps(2) by (metis surj_pair)
  obtain pl res where p: "booked start outcome items pl res p"
    "tracked (length items) K W (\<lambda>j. finish (start (items ! j)) s0) s0 res (po_store p)"
    using Cons.prems unfolding pool_ok_def by blast
  let ?p = "complete outcome j i (start i) (p\<lparr>po_queue := q\<rparr>)"
  note b = booked_rest [OF p(1) q]
  have t: "start i = res j" using booked_at(5) [OF p(1) b(2,4)] b(3) by simp
  have "\<exists>pl res. booked start outcome items pl res ?p \<and>
    tracked (length items) K W (\<lambda>j. finish (start (items ! j)) s0) s0 res (po_store ?p)"
    by (rule complete_ok [where pl = pl, OF assms(1) p(2) b(2) t]) (use booked_drain [OF p(1) q] in simp_all)
  then have ok: "pool_ok start outcome items K W s0 ?p" by (simp add: pool_ok_def)
  have "po_queue ?p = q" "at_worker ?p = at_worker p" by (simp_all add: complete_def split_beta)
  with Cons.hyps(1) [OF _ ok] show ?case by (simp add: q)
qed simp

lemma complete_worker_idle:
  "at_worker (complete_worker outcome w p) w' =
     (if w' = w then (case at_worker p w of Running j i t \<Rightarrow> Idle | k \<Rightarrow> k) else at_worker p w')"
  by (auto simp: complete_worker_def complete_def at_worker_def set_worker_def split_beta split: worker.split)

lemma length_worker_step [simp]: "length (po_workers (worker_step start outcome w p)) = length (po_workers p)"
  by (simp add: worker_step_def split: worker.split list.split prod.split task.split sum.split)

lemma complete_workers:
  "(\<exists>j i t. at_worker (fold (complete_worker outcome) ws p) w = Running j i t) \<Longrightarrow> w \<notin> set ws \<and> (\<exists>j i t. at_worker p w = Running j i t)"
proof (induction ws arbitrary: p)
  case (Cons a ws)
  then have "w \<notin> set ws \<and> (\<exists>j i t. at_worker (complete_worker outcome a p) w = Running j i t)" by simp
  then show ?case by (cases "at_worker p a") (auto simp: complete_worker_idle split: if_splits)
qed simp

lemma fold_ok: "(\<And>a q. P q \<Longrightarrow> P (f a q)) \<Longrightarrow> P p \<Longrightarrow> P (fold f as p)"
  by (induction as arbitrary: p) simp_all

text \<open>For isolated items a complete run, in any order, has the outcome of each item run alone, and the ledger in which each
  has done to its own outputs what it does alone.\<close>

lemma run_pool_isolated:
  assumes "isolated (length items) K W" "\<And>j. j < length items \<Longrightarrow> local_task (K j) (W j) (start (items ! j))" "inv s"
    and "run_pool start outcome n steps items s = (results, s')"
  shows "results = map (\<lambda>i. Some (outcome i (fst (finish (start i) s)))) items \<and>
    (\<forall>j<length items. agree (W j) (get_output ops s') (get_output ops (snd (finish (start (items ! j)) s)))) \<and>
    (\<forall>i. (\<forall>j<length items. i \<notin> W j) \<longrightarrow> get_output ops s' i = get_output ops s i)"
proof -
  let ?ok = "pool_ok start outcome items K W s"
  let ?p0 = "\<lparr>po_store = s, po_queue = zip [0..<length items] items,
                 po_workers = replicate n Idle, po_results = replicate (length items) None\<rparr>"
  let ?p1 = "fold (worker_step start outcome) steps ?p0"
  let ?p2 = "fold (complete_worker outcome) [0..<n] ?p1"
  let ?p3 = "drain start outcome (po_queue ?p2) ?p2"
  have q: "(j, i) \<in> set (zip [0..<length items] items) \<longleftrightarrow> j < length items \<and> i = items ! j" for j i
    by (auto simp: in_set_zip intro!: exI [of _ j])
  have "booked start outcome items (\<lambda>_. Waiting) (\<lambda>j. start (items ! j)) ?p0"
    by (rule bookedI) (simp_all add: at_worker_def q)
  moreover have "tracked (length items) K W (\<lambda>j. finish (start (items ! j)) s) s (\<lambda>j. start (items ! j)) s"
    by (rule tracked_start [OF assms(3,2)])
  ultimately have "?ok ?p0" unfolding pool_ok_def by auto
  then have "?ok ?p1" by (rule fold_ok [rotated]) (rule worker_step_ok [OF assms(1)])
  then have "?ok ?p2" by (rule fold_ok [rotated]) (rule complete_worker_ok [OF assms(1)])
  from drain_ok [OF assms(1) this] have p3: "?ok ?p3" "po_queue ?p3 = []" "at_worker ?p3 = at_worker ?p2" by simp_all
  have "length (po_workers ?p1) = n" by (rule fold_ok) simp_all
  then have "at_worker ?p1 w = Idle" if "w \<notin> set [0..<n]" for w using that by (simp add: at_worker_def)
  then have idle: "at_worker ?p3 w \<noteq> Running j i t" for w j i t
    using complete_workers [of outcome "[0..<n]" ?p1 w] unfolding p3(3) by (metis worker.distinct(1))
  have run: "results = po_results ?p3" "s' = po_store ?p3" using assms(4) by (simp_all add: run_pool_def Let_def)
  obtain pl res where b: "booked start outcome items pl res ?p3"
    "tracked (length items) K W (\<lambda>j. finish (start (items ! j)) s) s res s'"
    using p3(1) unfolding pool_ok_def run by blast
  have filed: "\<exists>r. pl j = Filed r" if "j < length items" for j
    using booked_at(1) [OF b(1), of _ j "items ! j" "res j"] booked_at(2) [OF b(1), of j "items ! j"] idle p3(2) that
    by (cases "pl j") auto
  have d: "res j = Finished (fst (finish (start (items ! j)) s))"
    "results ! j = Some (outcome (items ! j) (fst (finish (start (items ! j)) s)))" if j: "j < length items" for j
  proof -
    obtain r where "pl j = Filed r" using filed [OF j] by blast
    with booked_at(6) [OF b(1) j] b(2) j show "res j = Finished (fst (finish (start (items ! j)) s))"
      "results ! j = Some (outcome (items ! j) (fst (finish (start (items ! j)) s)))"
      by (auto simp: tracked_def run(1))
  qed
  have "results = map (\<lambda>i. Some (outcome i (fst (finish (start i) s)))) items"
    using booked_at(3) [OF b(1)] d(2) by (intro nth_equalityI) (simp_all add: run(1))
  moreover have "agree (W j) (get_output ops s') (get_output ops (snd (finish (start (items ! j)) s)))" if "j < length items" for j
  proof -
    have "agree (K j) (get_output ops s') (get_output ops (snd (finish (start (items ! j)) s)))" "W j \<subseteq> K j"
      using assms(1) b(2) that d(1) [OF that] unfolding tracked_def isolated_def by fastforce+
    then show ?thesis unfolding agree_def by blast
  qed
  ultimately show ?thesis using b(2) by (simp add: tracked_def)
qed

end

text \<open>The items one after the other.\<close>

fun run_serially ::
  "('i \<Rightarrow> 's task) \<Rightarrow> ('i \<Rightarrow> ComputeError + ValidationReport \<Rightarrow> 'o) \<Rightarrow> 'i list \<Rightarrow> 's \<Rightarrow> 'o list \<times> 's" where
  "run_serially start outcome [] s = ([], s)"
| "run_serially start outcome (i # items) s =
     (case finish (start i) s of (r, s) \<Rightarrow> (case run_serially start outcome items s of (os, s) \<Rightarrow> (outcome i r # os, s)))"

lemma drain_serial:
  "run_serially start outcome items (po_store p) = (os, s) \<Longrightarrow> length (po_results p) = k + length items \<Longrightarrow>
    po_results (drain start outcome (zip [k..<k + length items] items) p) = take k (po_results p) @ map Some os \<and>
    po_store (drain start outcome (zip [k..<k + length items] items) p) = s"
proof (induction items arbitrary: k p os)
  case (Cons i items)
  obtain r t where r: "finish (start i) (po_store p) = (r, t)" by force
  obtain os' s' where o: "run_serially start outcome items t = (os', s')" by force
  let ?q = "zip [Suc k..<Suc k + length items] items"
  let ?p = "complete outcome k i (start i) (p\<lparr>po_queue := ?q\<rparr>)"
  have z: "zip [k..<k + length (i # items)] (i # items) = (k, i) # ?q" by (simp add: upt_conv_Cons del: upt_Suc)
  have p: "po_store ?p = t" "po_results ?p = (po_results p)[k := Some (outcome i r)]" by (simp_all add: complete_def r)
  have l: "length (po_results ?p) = Suc k + length items" using Cons.prems(2) p(2) by simp
  have "os = outcome i r # os'" "s = s'" using Cons.prems(1) r o by simp_all
  moreover have "take (Suc k) (po_results ?p) = take k (po_results p) @ [Some (outcome i r)]"
    using Cons.prems(2) unfolding p(2) by (simp add: take_Suc_conv_app_nth)
  ultimately show ?case using Cons.IH [of ?p os' "Suc k", OF _ l] o unfolding z drain.simps p(1) by simp
qed simp

lemma run_pool_serial:
  "run_serially start outcome items s = (os, s') \<Longrightarrow> run_pool start outcome n [] items s = (map Some os, s')"
proof -
  assume a: "run_serially start outcome items s = (os, s')"
  let ?p = "\<lparr>po_store = s, po_queue = zip [0..<length items] items,
                 po_workers = replicate n Idle, po_results = replicate (length items) None\<rparr>"
  have "fold (complete_worker outcome) ws ?p = ?p" for ws
    by (induction ws) (simp_all add: complete_worker_def)
  then show ?thesis using drain_serial [of start outcome items ?p os s' 0] a by (simp add: run_pool_def Let_def)
qed

context object_store
begin

text \<open>So every schedule has the outcomes and the ledger of the serial run.\<close>

lemma run_pool_serializable:
  assumes "isolated (length items) K W" "\<And>j. j < length items \<Longrightarrow> local_task (K j) (W j) (start (items ! j))" "inv s"
    and "run_pool start outcome n steps items s = (results, t)" "run_serially start outcome items s = (os, t')"
  shows "results = map Some os \<and> get_output ops t = get_output ops t'"
proof -
  note a = run_pool_isolated [OF assms(1-4)] and b = run_pool_isolated [OF assms(1-3) run_pool_serial [OF assms(5), where n = 0]]
  have "get_output ops t i = get_output ops t' i" for i
    using a b by (cases "\<exists>j<length items. i \<in> W j") (auto simp: agree_def)
  with a b show ?thesis by auto
qed

end

end
