(* ===== verification/Batch.thy ===== *)
theory Batch
  imports Scheduler Workers
begin

section \<open>Batch planning and execution\<close>

text \<open>
  \<open>compute/batch.rs\<close>: access sets and their conflicts, the greedy planner, the runner that
  executes the groups of a plan on worker threads, and the service that feeds it from the
  scheduler and caches the outcomes.  The threads are a pool of workers that
  interleave at every access to the store, in an order chosen by the environment.  The asynchronous wrapper \<open>submit_and_run\<close> is not modelled.
\<close>

subsection \<open>Fallback policies\<close>

datatype ComputeFallbackMode = FallbackDisabled | SerialOnFailure

datatype ComputeFallbackDisposition = Reject | RunSerial

record ComputeFallbackPolicy =
  on_schedule_reject :: "ComputeTx \<Rightarrow> ComputeScheduleError \<Rightarrow> ComputeFallbackDisposition"
  on_plan_error :: "PendingComputeTx list \<Rightarrow> ComputeError \<Rightarrow> ComputeFallbackDisposition"
  on_missing_outcome :: "ComputeTx \<Rightarrow> ComputeFallbackDisposition"

definition DisabledComputeFallbackPolicy :: ComputeFallbackPolicy where
  "DisabledComputeFallbackPolicy =
     \<lparr>on_schedule_reject = (\<lambda>_ _. Reject), on_plan_error = (\<lambda>_ _. Reject),
      on_missing_outcome = (\<lambda>_. Reject)\<rparr>"

definition SerialComputeFallbackPolicy :: ComputeFallbackPolicy where
  "SerialComputeFallbackPolicy =
     \<lparr>on_schedule_reject = (\<lambda>_ _. RunSerial), on_plan_error = (\<lambda>_ _. RunSerial),
      on_missing_outcome = (\<lambda>_. RunSerial)\<rparr>"

definition build_policy :: "ComputeFallbackMode \<Rightarrow> ComputeFallbackPolicy" where
  "build_policy mode =
     (case mode of FallbackDisabled \<Rightarrow> DisabledComputeFallbackPolicy
      | SerialOnFailure \<Rightarrow> SerialComputeFallbackPolicy)"

subsection \<open>Access sets\<close>

record ComputeAccessSet =
  ac_domain_id :: DomainId
  read_output_ids :: "OutputId set"
  read_object_ids :: "ObjectId set"
  write_output_ids :: "OutputId set"
  write_object_ids :: "ObjectId set"

definition ComputeAccessSet_default :: ComputeAccessSet where
  "ComputeAccessSet_default =
     \<lparr>ac_domain_id = DomainId 0, read_output_ids = {}, read_object_ids = {}, write_output_ids = {},
      write_object_ids = {}\<rparr>"

definition add_write :: "OutputId \<Rightarrow> ObjectId \<Rightarrow> ComputeAccessSet \<Rightarrow> ComputeAccessSet" where
  "add_write i j a =
     a\<lparr>write_output_ids := insert i (write_output_ids a), write_object_ids := insert j (write_object_ids a)\<rparr>"

definition add_read :: "OutputId \<Rightarrow> ObjectId \<Rightarrow> ComputeAccessSet \<Rightarrow> ComputeAccessSet" where
  "add_read i j a =
     a\<lparr>read_output_ids := insert i (read_output_ids a), read_object_ids := insert j (read_object_ids a)\<rparr>"

definition access_input :: "'s store_ops \<Rightarrow> 's \<Rightarrow> OutputId \<Rightarrow> ComputeAccessSet \<Rightarrow> ComputeError + ComputeAccessSet" where
  "access_input ops s i a =
     (case get_output ops s i of None \<Rightarrow> Inl (ObjectNotFound (output_raw i))
      | Some out \<Rightarrow> Inr (add_write i (o_object_id out) a))"

definition access_read :: "'s store_ops \<Rightarrow> 's \<Rightarrow> ObjectReadRef \<Rightarrow> ComputeAccessSet \<Rightarrow> ComputeError + ComputeAccessSet" where
  "access_read ops s rr a =
     (case get_output ops s (rr_output_id rr) of
        None \<Rightarrow> Inl (ObjectNotFound (output_raw (rr_output_id rr)))
      | Some out \<Rightarrow> Inr (add_read (rr_output_id rr) (o_object_id out) a))"

definition access_proposal :: "'s store_ops \<Rightarrow> 's \<Rightarrow> OutputProposal \<Rightarrow> ComputeAccessSet \<Rightarrow> ComputeError + ComputeAccessSet" where
  "access_proposal ops s p a =
     (let a = add_write (p_output_id p) (p_object_id p) a
      in case p_predecessor p of
           None \<Rightarrow> Inr a
         | Some predecessor \<Rightarrow> access_input ops s predecessor a)"

definition access_set :: "'s store_ops \<Rightarrow> ComputeTx \<Rightarrow> 's \<Rightarrow> ComputeError + ComputeAccessSet" where
  "access_set ops tx s =
     and_then (try_fold (access_input ops s) (input_set tx)
                 (ComputeAccessSet_default\<lparr>ac_domain_id := tx_domain_id tx\<rparr>)) (\<lambda>a.
     and_then (try_fold (access_read ops s) (read_set tx) a) (\<lambda>a.
     try_fold (access_proposal ops s) (output_proposals tx) a))"

definition intersects :: "'a set \<Rightarrow> 'a set \<Rightarrow> bool" where
  "intersects A B \<longleftrightarrow> (\<exists>a \<in> A. a \<in> B)"

definition conflicts :: "ComputeAccessSet \<Rightarrow> ComputeAccessSet \<Rightarrow> bool" where
  "conflicts l r \<longleftrightarrow>
     intersects (write_output_ids l) (write_output_ids r) \<or>
     intersects (write_output_ids l) (read_output_ids r) \<or>
     intersects (read_output_ids l) (write_output_ids r) \<or>
     intersects (write_object_ids l) (write_object_ids r) \<or>
     intersects (write_object_ids l) (read_object_ids r) \<or>
     intersects (read_object_ids l) (write_object_ids r)"

text \<open>The trait \<open>ComputeConflictPolicy\<close> and the default policy, which batches everything.\<close>

record 's ComputeConflictPolicy =
  cp_access_set :: "ComputeTx \<Rightarrow> 's \<Rightarrow> ComputeError + ComputeAccessSet"
  cp_conflicts :: "ComputeAccessSet \<Rightarrow> ComputeAccessSet \<Rightarrow> bool"
  cp_can_batch :: "ComputeTx \<Rightarrow> bool"

definition DefaultComputeConflictPolicy :: "'s store_ops \<Rightarrow> 's ComputeConflictPolicy" where
  "DefaultComputeConflictPolicy ops =
     \<lparr>cp_access_set = access_set ops, cp_conflicts = conflicts, cp_can_batch = (\<lambda>_. True)\<rparr>"

subsection \<open>Planner\<close>

record PlannedComputeTx =
  pl_pending :: PendingComputeTx
  pl_access :: ComputeAccessSet

record ComputeBatchGroup =
  gr_domain_id :: DomainId
  gr_txs :: "PlannedComputeTx list"

record ComputeBatchPlan =
  groups :: "ComputeBatchGroup list"
  fallback :: "PendingComputeTx list"

text \<open>The first group of the domain without a conflict takes the transaction, else a new group.\<close>

fun place :: "'s ComputeConflictPolicy \<Rightarrow> PlannedComputeTx \<Rightarrow> ComputeBatchGroup list \<Rightarrow> ComputeBatchGroup list" where
  "place cp planned [] = [\<lparr>gr_domain_id = pd_domain_id (pl_pending planned), gr_txs = [planned]\<rparr>]"
| "place cp planned (g # gs) =
     (if gr_domain_id g \<noteq> pd_domain_id (pl_pending planned) then g # place cp planned gs
      else if list_all (\<lambda>e. \<not> cp_conflicts cp (pl_access e) (pl_access planned)) (gr_txs g)
      then g\<lparr>gr_txs := gr_txs g @ [planned]\<rparr> # gs
      else g # place cp planned gs)"

definition plan_item :: "'s ComputeConflictPolicy \<Rightarrow> 's \<Rightarrow> PendingComputeTx \<Rightarrow> ComputeBatchPlan \<Rightarrow> ComputeBatchPlan" where
  "plan_item cp s item pl =
     (if \<not> cp_can_batch cp (pd_tx item) then pl\<lparr>fallback := fallback pl @ [item]\<rparr>
      else case cp_access_set cp (pd_tx item) s of
        Inl _ \<Rightarrow> pl\<lparr>fallback := fallback pl @ [item]\<rparr>
      | Inr access \<Rightarrow> pl\<lparr>groups := place cp \<lparr>pl_pending = item, pl_access = access\<rparr> (groups pl)\<rparr>)"

definition plan :: "'s ComputeConflictPolicy \<Rightarrow> 's \<Rightarrow> PendingComputeTx list \<Rightarrow> ComputeError + ComputeBatchPlan" where
  "plan cp s pending = Inr (fold (plan_item cp s) pending \<lparr>groups = [], fallback = []\<rparr>)"

subsection \<open>Runner\<close>

record ComputeBatchOutcome =
  bo_tx_id :: TxId
  bo_accepted :: bool
  bo_report :: "ValidationReport option"
  bo_created_outputs :: nat
  bo_error :: "ComputeError option"

definition outcome_of :: "TxId \<Rightarrow> ComputeTx \<Rightarrow> ComputeError + ValidationReport \<Rightarrow> ComputeBatchOutcome" where
  "outcome_of i tx r =
     (case r of
        Inr report \<Rightarrow> \<lparr>bo_tx_id = i, bo_accepted = True, bo_report = Some report,
          bo_created_outputs = length (output_proposals tx), bo_error = None\<rparr>
      | Inl err \<Rightarrow> \<lparr>bo_tx_id = i, bo_accepted = False, bo_report = None,
          bo_created_outputs = length (output_proposals tx), bo_error = Some err\<rparr>)"

text \<open>Every transaction gets an executor of its own, with an empty replay registry.\<close>

definition run_single :: "externals \<Rightarrow> u64 \<Rightarrow> 's validator \<Rightarrow> ComputeTx \<Rightarrow> 's \<Rightarrow> ComputeBatchOutcome \<times> 's" where
  "run_single x now v tx s =
     (case execute x now v tx (executor_new s) of (r, st) \<Rightarrow> (outcome_of (tx_id tx) tx r, ex_store st))"

definition run_serial :: "externals \<Rightarrow> u64 \<Rightarrow> 's validator \<Rightarrow> PendingComputeTx \<Rightarrow> 's \<Rightarrow> ComputeBatchOutcome \<times> 's" where
  "run_serial x now v pending s = run_single x now v (pd_tx pending) s"

text \<open>The number of threads of a runner, and the order in which the threads of a group move: each entry of the
  list is one move of that worker, an access to the store at most.\<close>

record Threads =
  th_max_workers :: nat
  th_steps :: "ComputeBatchGroup \<Rightarrow> nat list"

definition run_group ::
  "externals \<Rightarrow> u64 \<Rightarrow> 's validator \<Rightarrow> Threads \<Rightarrow> ComputeBatchGroup \<Rightarrow> 's \<Rightarrow> ComputeBatchOutcome list \<times> 's" where
  "run_group x now v th grp s =
     (case gr_txs grp of
        [] \<Rightarrow> ([], s)
      | [planned] \<Rightarrow> (case run_serial x now v (pl_pending planned) s of (outcome, s') \<Rightarrow> ([outcome], s'))
      | txs \<Rightarrow>
          (case run_pool (\<lambda>planned. worker_task x now v (pd_tx (pl_pending planned)))
                  (\<lambda>planned. outcome_of (pd_tx_id (pl_pending planned)) (pd_tx (pl_pending planned)))
                  (max (min (th_max_workers th) (length txs)) 1) (th_steps th grp) txs s of
             (results, s') \<Rightarrow> (map the results, s')))"

text \<open>Running items one after the other, collecting the outcomes.\<close>

fun run_each :: "('a \<Rightarrow> 's \<Rightarrow> ComputeBatchOutcome list \<times> 's) \<Rightarrow> 'a list \<Rightarrow> 's \<Rightarrow> ComputeBatchOutcome list \<times> 's" where
  "run_each f [] s = ([], s)"
| "run_each f (a # as) s =
     (case f a s of (os, s') \<Rightarrow> (case run_each f as s' of (os', s'') \<Rightarrow> (os @ os', s'')))"

definition run_serial_list :: "externals \<Rightarrow> u64 \<Rightarrow> 's validator \<Rightarrow> PendingComputeTx \<Rightarrow> 's \<Rightarrow> ComputeBatchOutcome list \<times> 's" where
  "run_serial_list x now v p s = (case run_serial x now v p s of (outcome, s') \<Rightarrow> ([outcome], s'))"

definition run_plan ::
  "externals \<Rightarrow> u64 \<Rightarrow> 's validator \<Rightarrow> Threads \<Rightarrow> ComputeBatchPlan \<Rightarrow> 's \<Rightarrow>
   ComputeBatchOutcome list \<times> 's" where
  "run_plan x now v th pl s =
     (case run_each (run_group x now v th) (groups pl) s of
        (os, s') \<Rightarrow>
          (case run_each (run_serial_list x now v) (fallback pl) s' of (os', s'') \<Rightarrow> (os @ os', s'')))"

subsection \<open>Service\<close>

definition MAX_COMPLETED_OUTCOMES :: nat where
  "MAX_COMPLETED_OUTCOMES = 50000"

text \<open>An in-flight execution is named by a number; \<open>published\<close> is the value of its channel.\<close>

record 's service =
  sv_store :: 's
  sv_queue :: lanes
  in_flight :: "TxId \<rightharpoonup> nat"
  published :: "nat \<rightharpoonup> ComputeError + ComputeBatchOutcome"
  completed :: "TxId \<rightharpoonup> ComputeBatchOutcome"
  completed_order :: "TxId list"

text \<open>\<open>inflight_entry\<close>: the entry of the transaction, and whether it is new (\<open>fresh\<close> is its number).\<close>

definition inflight_entry :: "nat \<Rightarrow> TxId \<Rightarrow> 's service \<Rightarrow> (nat \<times> bool) \<times> 's service" where
  "inflight_entry fresh i sv =
     (case in_flight sv i of
        Some entry \<Rightarrow> ((entry, False), sv)
      | None \<Rightarrow> ((fresh, True), sv\<lparr>in_flight := (in_flight sv)(i \<mapsto> fresh)\<rparr>))"

definition complete_inflight ::
  "TxId \<Rightarrow> nat \<Rightarrow> ComputeError + ComputeBatchOutcome \<Rightarrow> 's service \<Rightarrow> 's service" where
  "complete_inflight i entry outcome sv =
     sv\<lparr>published := (published sv)(entry \<mapsto> outcome),
        in_flight := (if in_flight sv i = Some entry then (in_flight sv)(i := None) else in_flight sv)\<rparr>"

definition record_completed ::
  "ComputeBatchOutcome \<Rightarrow> (TxId \<rightharpoonup> ComputeBatchOutcome) \<times> TxId list \<Rightarrow>
   (TxId \<rightharpoonup> ComputeBatchOutcome) \<times> TxId list" where
  "record_completed outcome mo =
     ((fst mo)(bo_tx_id outcome \<mapsto> outcome),
      filter (\<lambda>i. i \<noteq> bo_tx_id outcome) (snd mo) @ [bo_tx_id outcome])"

text \<open>\<open>while order.len() > MAX\<close>: the oldest entries leave.\<close>

fun evict :: "nat \<Rightarrow> (TxId \<rightharpoonup> ComputeBatchOutcome) \<times> TxId list \<Rightarrow>
   (TxId \<rightharpoonup> ComputeBatchOutcome) \<times> TxId list" where
  "evict bound (m, []) = (m, [])"
| "evict bound (m, i # order) =
     (if bound < length (i # order) then evict bound (m(i := None), order) else (m, i # order))"

definition record_outcomes :: "ComputeBatchOutcome list \<Rightarrow> 's service \<Rightarrow> 's service" where
  "record_outcomes outcomes sv =
     (let sv = sv\<lparr>sv_queue := fold (\<lambda>o'. snd \<circ> take_pending (bo_tx_id o')) outcomes (sv_queue sv)\<rparr>;
          completions = List.map_filter (\<lambda>o'. map_option (\<lambda>entry. (bo_tx_id o', entry, o'))
                          (in_flight sv (bo_tx_id o'))) outcomes;
          (m, order) = evict MAX_COMPLETED_OUTCOMES
                         (fold record_completed outcomes (completed sv, completed_order sv));
          sv = sv\<lparr>completed := m, completed_order := order\<rparr>
      in fold (\<lambda>(i, entry, o'). complete_inflight i entry (Inr o')) completions sv)"

text \<open>\<open>slice::chunks\<close>.\<close>

function chunks :: "nat \<Rightarrow> 'a list \<Rightarrow> 'a list list" where
  "chunks n xs = (if xs = [] \<or> n = 0 then [] else take n xs # chunks n (drop n xs))"
  by pat_completeness auto

termination
  by (relation "measure (\<lambda>(n, xs). length xs)") auto

declare chunks.simps [simp del]

text \<open>The runtime of a service: scheduler configuration, planner, runner parameters, fallback.\<close>

record 's runtime =
  rt_config :: ComputeSchedulerConfig
  rt_planner :: "'s \<Rightarrow> PendingComputeTx list \<Rightarrow> ComputeError + ComputeBatchPlan"
  rt_validator :: "'s validator"
  rt_threads :: Threads
  rt_fallback :: ComputeFallbackPolicy

definition run_chunk ::
  "externals \<Rightarrow> u64 \<Rightarrow> 's runtime \<Rightarrow> PendingComputeTx list \<Rightarrow> 's \<Rightarrow>
   ComputeError + (ComputeBatchOutcome list \<times> 's)" where
  "run_chunk x now rt chunk s =
     (case rt_planner rt s chunk of
        Inr pl \<Rightarrow> Inr (run_plan x now (rt_validator rt) (rt_threads rt) pl s)
      | Inl err \<Rightarrow>
          (case on_plan_error (rt_fallback rt) chunk err of
             Reject \<Rightarrow> Inl err
           | RunSerial \<Rightarrow> Inr (run_each (run_serial_list x now (rt_validator rt)) chunk s)))"

fun flush_chunks ::
  "externals \<Rightarrow> u64 \<Rightarrow> 's runtime \<Rightarrow> PendingComputeTx list list \<Rightarrow> ComputeBatchOutcome list \<Rightarrow> 's service \<Rightarrow>
   (ComputeError + ComputeBatchOutcome list) \<times> 's service" where
  "flush_chunks x now rt [] outcomes sv = (Inr outcomes, sv)"
| "flush_chunks x now rt (chunk # cs) outcomes sv =
     (case run_chunk x now rt chunk (sv_store sv) of
        Inl err \<Rightarrow> (Inl err, sv)
      | Inr (os, s) \<Rightarrow>
          flush_chunks x now rt cs (outcomes @ os) (record_outcomes os (sv\<lparr>sv_store := s\<rparr>)))"

text \<open>\<open>instant\<close> is the instant of the drain.\<close>

definition flush_ready ::
  "externals \<Rightarrow> nat \<Rightarrow> u64 \<Rightarrow> 's runtime \<Rightarrow> 's service \<Rightarrow>
   (ComputeError + ComputeBatchOutcome list) \<times> 's service" where
  "flush_ready x instant now rt sv =
     (case drain_ready (rt_config rt) instant (sv_queue sv) of
        (pending, q) \<Rightarrow>
          if pending = [] then (Inr [], sv\<lparr>sv_queue := q\<rparr>)
          else flush_chunks x now rt (chunks (max (max_batch_size (rt_config rt)) 1) pending) []
                 (sv\<lparr>sv_queue := q\<rparr>))"

subsection \<open>The plan\<close>

definition group_ok :: "'s ComputeConflictPolicy \<Rightarrow> 's \<Rightarrow> ComputeBatchGroup \<Rightarrow> bool" where
  "group_ok cp s g \<longleftrightarrow>
     (\<forall>e \<in> set (gr_txs g). pd_domain_id (pl_pending e) = gr_domain_id g \<and>
        cp_access_set cp (pd_tx (pl_pending e)) s = Inr (pl_access e)) \<and>
     sorted_wrt (\<lambda>a b. \<not> cp_conflicts cp (pl_access a) (pl_access b)) (gr_txs g)"

definition group_items :: "ComputeBatchGroup list \<Rightarrow> PendingComputeTx multiset" where
  "group_items gs = mset (map pl_pending (concat (map gr_txs gs)))"

lemma place_ok:
  assumes "\<forall>g \<in> set gs. group_ok cp s g"
    "cp_access_set cp (pd_tx (pl_pending planned)) s = Inr (pl_access planned)"
  shows "\<forall>g \<in> set (place cp planned gs). group_ok cp s g"
  using assms
proof (induction cp planned gs rule: place.induct)
  case (1 cp planned)
  then show ?case by (simp add: group_ok_def)
next
  case (2 cp planned g gs)
  show ?case
  proof (cases "gr_domain_id g = pd_domain_id (pl_pending planned) \<and>
      list_all (\<lambda>e. \<not> cp_conflicts cp (pl_access e) (pl_access planned)) (gr_txs g)")
    case True
    have "group_ok cp s g" using "2.prems" by simp
    with True "2.prems"(2) have "group_ok cp s (g\<lparr>gr_txs := gr_txs g @ [planned]\<rparr>)"
      unfolding group_ok_def by (simp add: sorted_wrt_append list_all_iff)
    with True "2.prems"(1) show ?thesis by simp
  next
    case False
    then have "place cp planned (g # gs) = g # place cp planned gs" by auto
    moreover have "\<forall>g \<in> set (place cp planned gs). group_ok cp s g"
      using "2.IH" "2.prems" False by fastforce
    ultimately show ?thesis using "2.prems"(1) by simp
  qed
qed

lemma place_items: "group_items (place cp planned gs) = add_mset (pl_pending planned) (group_items gs)"
  by (induction cp planned gs rule: place.induct) (simp_all add: group_items_def)

lemma plan_item_ok:
  assumes "\<forall>g \<in> set (groups pl). group_ok cp s g"
  shows "\<forall>g \<in> set (groups (plan_item cp s item pl)). group_ok cp s g"
    "group_items (groups (plan_item cp s item pl)) + mset (fallback (plan_item cp s item pl))
      = add_mset item (group_items (groups pl) + mset (fallback pl))"
proof -
  show "\<forall>g \<in> set (groups (plan_item cp s item pl)). group_ok cp s g"
  proof (cases "cp_can_batch cp (pd_tx item)")
    case True
    show ?thesis
    proof (cases "cp_access_set cp (pd_tx item) s")
      case (Inr access)
      with place_ok [OF assms, of "\<lparr>pl_pending = item, pl_access = access\<rparr>"] True show ?thesis
        by (simp add: plan_item_def)
    qed (use assms True in \<open>simp add: plan_item_def\<close>)
  qed (use assms in \<open>simp add: plan_item_def\<close>)
  show "group_items (groups (plan_item cp s item pl)) + mset (fallback (plan_item cp s item pl))
      = add_mset item (group_items (groups pl) + mset (fallback pl))"
    by (simp add: plan_item_def place_items split: sum.split)
qed

lemma plan_spec:
  assumes "plan cp s pending = Inr pl"
  shows "group_items (groups pl) + mset (fallback pl) = mset pending"
    "\<forall>g \<in> set (groups pl). group_ok cp s g"
proof -
  have "(\<forall>g \<in> set (groups (fold (plan_item cp s) items pl0)). group_ok cp s g) \<and>
      group_items (groups (fold (plan_item cp s) items pl0)) + mset (fallback (fold (plan_item cp s) items pl0))
        = mset items + (group_items (groups pl0) + mset (fallback pl0))"
    if "\<forall>g \<in> set (groups pl0). group_ok cp s g" for items pl0
    using that
  proof (induction items arbitrary: pl0)
    case (Cons i items)
    from Cons.IH [OF plan_item_ok(1) [OF Cons.prems]] plan_item_ok(2) [OF Cons.prems] show ?case by simp
  qed simp
  from this [of "\<lparr>groups = [], fallback = []\<rparr>" pending] assms show
    "group_items (groups pl) + mset (fallback pl) = mset pending"
    "\<forall>g \<in> set (groups pl). group_ok cp s g"
    by (auto simp: plan_def group_items_def)
qed

text \<open>C37: A plan places every pending transaction exactly once, in a group or in the fallback list;
  the transactions of a group share its domain, carry the access sets computed for them, and no two
  of them conflict.\<close>

theorem plan_partitions:
  assumes "plan cp s pending = Inr pl"
  shows "group_items (groups pl) + mset (fallback pl) = mset pending \<and>
    (\<forall>g \<in> set (groups pl). group_ok cp s g)"
  using plan_spec [OF assms] by blast

subsection \<open>Groups run as if one after the other\<close>

lemma try_fold_mono:
  assumes "\<And>a s s'. a \<in> set xs \<Longrightarrow> f a s = Inr s' \<Longrightarrow> I a \<subseteq> (W s' :: 'b set) \<and> W s \<subseteq> W s'"
    "try_fold f xs s = Inr s'"
  shows "W s \<subseteq> W s' \<and> \<Union> (I ` set xs) \<subseteq> W s'"
  using assms
proof (induction xs arbitrary: s)
  case (Cons x xs)
  obtain t where t: "f x s = Inr t" "try_fold f xs t = Inr s'"
    using Cons.prems(2) by (auto simp: result_simps)
  have "W t \<subseteq> W s' \<and> \<Union> (I ` set xs) \<subseteq> W s'"
  proof (rule Cons.IH [OF _ t(2)])
    fix a s s'
    assume "a \<in> set xs" "f a s = Inr s'"
    then show "I a \<subseteq> W s' \<and> W s \<subseteq> W s'" using Cons.prems(1) [of a s s'] by simp
  qed
  with Cons.prems(1) [of x s t] t(1) show ?case by auto
qed simp

lemma access_step:
  "access_input ops s i a = Inr a' \<Longrightarrow> {i} \<subseteq> write_output_ids a' \<and> write_output_ids a \<subseteq> write_output_ids a'"
  "access_read ops s r a = Inr a' \<Longrightarrow> {rr_output_id r} \<subseteq> read_output_ids a' \<and> read_output_ids a \<subseteq> read_output_ids a'"
  "access_read ops s r a = Inr a' \<Longrightarrow> write_output_ids a' = write_output_ids a"
  "access_proposal ops s p a = Inr a' \<Longrightarrow> {p_output_id p} \<subseteq> write_output_ids a' \<and> write_output_ids a \<subseteq> write_output_ids a'"
  "access_proposal ops s p a = Inr a' \<Longrightarrow> read_output_ids a' = read_output_ids a"
  by (auto simp: access_input_def access_read_def access_proposal_def add_write_def add_read_def
      Let_def split: option.splits)

lemma access_keep:
  "access_read ops s r a = Inr a' \<Longrightarrow> {} \<subseteq> write_output_ids a' \<and> write_output_ids a \<subseteq> write_output_ids a'"
  "access_proposal ops s p a = Inr a' \<Longrightarrow> {} \<subseteq> read_output_ids a' \<and> read_output_ids a \<subseteq> read_output_ids a'"
  by (simp_all add: access_step(3,5))

lemma access_set_covers:
  assumes "access_set ops tx s = Inr a"
  shows "tx_writes tx \<subseteq> write_output_ids a" "tx_reads tx \<subseteq> read_output_ids a"
proof -
  obtain a1 a2 where a: "try_fold (access_input ops s) (input_set tx)
      (ComputeAccessSet_default\<lparr>ac_domain_id := tx_domain_id tx\<rparr>) = Inr a1"
    "try_fold (access_read ops s) (read_set tx) a1 = Inr a2"
    "try_fold (access_proposal ops s) (output_proposals tx) a2 = Inr a"
    using assms by (auto simp: access_set_def result_simps)
  have "set (input_set tx) \<subseteq> write_output_ids a1"
    using try_fold_mono [where W = write_output_ids and I = "\<lambda>i. {i}", OF access_step(1) [of ops s] a(1)] by auto
  moreover have "write_output_ids a1 \<subseteq> write_output_ids a2"
    using try_fold_mono [where W = write_output_ids and I = "\<lambda>i. {}", OF access_keep(1) [of ops s] a(2)] by auto
  moreover have "write_output_ids a2 \<subseteq> write_output_ids a" "p_output_id ` set (output_proposals tx) \<subseteq> write_output_ids a"
    using try_fold_mono [where W = write_output_ids and I = "\<lambda>p. {p_output_id p}", OF access_step(4) [of ops s] a(3)] by auto
  moreover have "tx_reads tx \<subseteq> read_output_ids a2"
    using try_fold_mono [where W = read_output_ids and I = "\<lambda>r. {rr_output_id r}", OF access_step(2) [of ops s] a(2)]
    by (auto simp: tx_reads_def)
  moreover have "read_output_ids a2 \<subseteq> read_output_ids a"
    using try_fold_mono [where W = read_output_ids and I = "\<lambda>i. {}", OF access_keep(2) [of ops s] a(3)] by auto
  ultimately show "tx_writes tx \<subseteq> write_output_ids a" "tx_reads tx \<subseteq> read_output_ids a"
    by (auto simp: tx_writes_def)
qed

definition independent :: "ComputeTx \<Rightarrow> ComputeTx \<Rightarrow> bool" where
  "independent t u \<longleftrightarrow> tx_writes t \<inter> (tx_writes u \<union> tx_reads u) = {} \<and> tx_writes u \<inter> tx_reads t = {}"

lemma conflict_free_independent:
  assumes "access_set ops t s = Inr a" "access_set ops u s = Inr b" "\<not> conflicts a b"
  shows "independent t u" "independent u t"
  using access_set_covers [OF assms(1)] access_set_covers [OF assms(2)] assms(3)
  unfolding independent_def conflicts_def intersects_def by blast+

lemma run_serially_serial:
  assumes "\<And>p. p \<in> set txs \<Longrightarrow> pd_tx_id (pl_pending p) = tx_id (pd_tx (pl_pending p))"
  shows "run_serially (\<lambda>p. worker_task x now v (pd_tx (pl_pending p)))
      (\<lambda>p. outcome_of (pd_tx_id (pl_pending p)) (pd_tx (pl_pending p))) txs s
    = run_each (run_serial_list x now v) (map pl_pending txs) s"
  using assms
  by (induction txs arbitrary: s)
     (simp_all add: finish_worker_task run_serial_list_def run_serial_def run_single_def split_beta)

text \<open>C36: The worker threads of a planned group do what the serial fallback does: however many there are and in
  whatever order their accesses to the store interleave, every transaction has the outcome, and the ledger ends, as if the
  transactions of the group had been executed one after the other.\<close>

theorem group_runs_as_serial:
  assumes "plan (DefaultComputeConflictPolicy mem_ops) s0 pending = Inr pl" "g \<in> set (groups pl)"
    "mem_inv s" "v_ops v = mem_ops" "\<And>p. p \<in> set pending \<Longrightarrow> pd_tx_id p = tx_id (pd_tx p)"
  shows "fst (run_group x now v th g s) = fst (run_each (run_serial_list x now v) (map pl_pending (gr_txs g)) s) \<and>
    outputs (snd (run_group x now v th g s)) = outputs (snd (run_each (run_serial_list x now v) (map pl_pending (gr_txs g)) s))"
proof (cases "length (gr_txs g) < 2")
  case True
  then show ?thesis by (cases "gr_txs g") (auto simp: run_group_def run_serial_list_def split_beta)
next
  case False
  let ?txs = "gr_txs g" and ?tx = "\<lambda>j. pd_tx (pl_pending (gr_txs g ! j))"
  let ?start = "\<lambda>p. worker_task x now v (pd_tx (pl_pending p))"
  let ?outcome = "\<lambda>p. outcome_of (pd_tx_id (pl_pending p)) (pd_tx (pl_pending p))"
  let ?n = "max (min (th_max_workers th) (length ?txs)) 1"
  let ?K = "\<lambda>j. tx_writes (?tx j) \<union> tx_reads (?tx j)" and ?W = "\<lambda>j. tx_writes (?tx j)"
  have ok: "group_ok (DefaultComputeConflictPolicy mem_ops) s0 g"
    using plan_spec(2) [OF assms(1)] assms(2) by blast
  have acc: "access_set mem_ops (?tx j) s0 = Inr (pl_access (?txs ! j))" if "j < length ?txs" for j
    using ok that by (auto simp: group_ok_def DefaultComputeConflictPolicy_def)
  have free: "\<not> conflicts (pl_access (?txs ! j)) (pl_access (?txs ! k))" if "j < k" "k < length ?txs" for j k
    using ok that by (auto simp: group_ok_def DefaultComputeConflictPolicy_def sorted_wrt_iff_nth_less)
  have "independent (?tx j) (?tx k)" if "j < length ?txs" "k < length ?txs" "j \<noteq> k" for j k
    using conflict_free_independent [OF acc acc free] that by (metis linorder_neqE_nat)
  then have iso: "isolated (length ?txs) ?K ?W" unfolding isolated_def independent_def by blast
  have "pl_pending p \<in> set pending" if "p \<in> set ?txs" for p
  proof -
    have "pl_pending p \<in># group_items (groups pl)" using that assms(2) by (auto simp: group_items_def)
    then show ?thesis using plan_spec(1) [OF assms(1)] by (metis mset_eq_setD set_mset_mset union_iff)
  qed
  then have ids: "\<And>p. p \<in> set ?txs \<Longrightarrow> pd_tx_id (pl_pending p) = tx_id (pd_tx (pl_pending p))" using assms(5) by blast
  obtain results t where r: "run_pool ?start ?outcome ?n (th_steps th g) ?txs s = (results, t)" by force
  obtain os t' where o: "run_serially ?start ?outcome ?txs s = (os, t')" by force
  have "results = map Some os \<and> outputs t = outputs t'"
    using mem.run_pool_serializable [OF iso mem.local_worker_task [OF assms(4)] assms(3) r o] by simp
  moreover have "run_group x now v th g s = (case run_pool ?start ?outcome ?n (th_steps th g) ?txs s of
      (results, s') \<Rightarrow> (map the results, s'))"
    using False by (auto simp: run_group_def split: list.splits)
  moreover have "run_each (run_serial_list x now v) (map pl_pending ?txs) s = (os, t')"
    using run_serially_serial [where txs = ?txs and x = x and now = now and v = v and s = s, OF ids] o by simp
  ultimately show ?thesis using r by (simp add: comp_def)
qed

definition sample_pending :: PendingComputeTx where
  "sample_pending = pending_new sample_signed_tx [] 0"

definition sample_plan :: ComputeBatchPlan where
  "sample_plan = fold (plan_item (DefaultComputeConflictPolicy mem_ops) sample_store) [sample_pending]
     \<lparr>groups = [], fallback = []\<rparr>"

lemma sample_plan_eq: "plan (DefaultComputeConflictPolicy mem_ops) sample_store [sample_pending] = Inr sample_plan"
  by (simp add: plan_def sample_plan_def)

lemma plan_partitions_witness:
  "\<exists>pl. plan (DefaultComputeConflictPolicy mem_ops) sample_store [sample_pending] = Inr pl \<and>
     group_items (groups pl) + mset (fallback pl) = {#sample_pending#}"
  using plan_partitions [OF sample_plan_eq] sample_plan_eq by auto

lemma sample_access: "\<exists>a. access_set mem_ops sample_signed_tx sample_store = Inr a"
  by (simp add: access_set_def access_input_def access_proposal_def sample_signed_tx_def sample_simps
      sample_store_def)

text \<open>A transfer and an invocation that reads no output make one group.\<close>

definition sample_invoke_tx :: ComputeTx where
  "sample_invoke_tx = sample_signed_tx\<lparr>tx_command := CmdInvoke, input_set := [], output_proposals := [],
     payload := [1], tx_nonce := Some 1\<rparr>"

lemma sample_invoke_accepted:
  "\<exists>o' s'. run_single sample_externals 0 sample_validator sample_invoke_tx s = (o', s') \<and> bo_accepted o'"
proof -
  have b: "basic_sanity_check sample_invoke_tx" "validate_tx_envelope sample_invoke_tx = Inr ()"
    by (simp_all add: basic_sanity_check_def validate_tx_envelope_def nonce_required_def
        validate_metadata_def sample_invoke_tx_def sample_signed_tx_def sample_simps)
  have d: "get_domain sample_domains (tx_domain_id sample_invoke_tx)
      = Some \<lparr>dc_domain_id = DomainId 0, dc_name = ''main'', dc_vm = ''wasm'', dc_public = True\<rparr>"
    by (simp add: sample_invoke_tx_def sample_signed_tx_def sample_tx_def sample_domains_def get_domain_def upsert_domain_def)
  have f: "input_set sample_invoke_tx = []" "read_set sample_invoke_tx = []" "output_proposals sample_invoke_tx = []"
    "tx_nonce sample_invoke_tx = Some 1"
    by (simp_all add: sample_invoke_tx_def sample_signed_tx_def sample_tx_def)
  have a: "authorize sample_externals sample_invoke_tx [] = Inr ()"
    by (simp add: authorize_def sample_invoke_tx_def has_consistent_tx_id_def expected_tx_id_def
        signing_digest_def sample_externals_def sample_signed_tx_def required_threshold_def)
  have c: "check_resources sample_invoke_tx [] = Inr ()"
    by (simp add: check_resources_def aggregate_resources_def f required_native_def counter_of_def
        ResourceCounter_default_def checked_add_def native_asset_id_def sample_invoke_tx_def
        sample_signed_tx_def sample_tx_def)
  have v: "validate sample_validator s sample_invoke_tx = Inr \<lparr>vr_inputs = [], vr_reads = []\<rparr>"
    by (simp add: validate_def b d f a c validate_output_proposals_def)
  have "replay_actors sample_externals sample_invoke_tx = [''ed25519:'']"
    by (simp add: replay_actors_def replay_actor_def sample_signature_def sample_externals_def
        sample_invoke_tx_def sample_signed_tx_def)
  then have "\<exists>R. register_replay_nonce sample_externals 0 sample_invoke_tx Map.empty = (Inr (), R)"
    by (simp add: register_replay_nonce_def f Let_def retain_window_def)
  then show ?thesis
    using v f by (auto simp: run_single_def execute_def commit_prevalidated_def commit_outputs_def
        executor_new_def outcome_of_def)
qed

definition sample_pair :: "PendingComputeTx list" where
  "sample_pair = [sample_pending, pending_new sample_invoke_tx [] 0]"

lemma sample_pair_plan:
  "\<exists>pl g. plan (DefaultComputeConflictPolicy mem_ops) sample_store sample_pair = Inr pl \<and> g \<in> set (groups pl) \<and>
     map pl_pending (gr_txs g) = sample_pair"
proof -
  obtain a where a: "access_set mem_ops sample_signed_tx sample_store = Inr a" using sample_access by blast
  obtain b where b: "access_set mem_ops sample_invoke_tx sample_store = Inr b" "write_output_ids b = {}" "read_output_ids b = {}"
    "write_object_ids b = {}" "read_object_ids b = {}"
    by (simp add: access_set_def sample_invoke_tx_def sample_signed_tx_def sample_tx_def ComputeAccessSet_default_def)
  have "\<not> conflicts a b" "\<not> conflicts b a" using b(2-5) by (simp_all add: conflicts_def intersects_def)
  moreover have "tx_domain_id sample_invoke_tx = tx_domain_id sample_signed_tx" by (simp add: sample_invoke_tx_def)
  ultimately show ?thesis using a b(1)
    by (simp add: plan_def plan_item_def DefaultComputeConflictPolicy_def sample_pair_def sample_pending_def pending_new_def)
qed

lemma group_runs_as_serial_witness:
  "\<exists>g. map pl_pending (gr_txs g) = sample_pair \<and>
     (\<forall>steps. map bo_accepted (fst (run_group sample_externals 0 sample_validator \<lparr>th_max_workers = 2, th_steps = (\<lambda>_. steps)\<rparr> g sample_store))
        = [True, True])"
proof -
  obtain pl g where g: "plan (DefaultComputeConflictPolicy mem_ops) sample_store sample_pair = Inr pl" "g \<in> set (groups pl)"
    "map pl_pending (gr_txs g) = sample_pair" using sample_pair_plan by blast
  have i: "mem_inv sample_store" using sample_state_inv by (simp add: sample_state_def executor_new_def)
  have p: "pd_tx_id q = tx_id (pd_tx q)" if "q \<in> set sample_pair" for q
    using that by (auto simp: sample_pair_def sample_pending_def pending_new_def)
  obtain st' where e: "execute sample_externals 0 sample_validator sample_signed_tx sample_state = (Inr sample_report, st')"
    using sample_execute by blast
  obtain o' s' where r: "run_single sample_externals 0 sample_validator sample_invoke_tx (ex_store st') = (o', s')" "bo_accepted o'"
    using sample_invoke_accepted by blast
  have "map bo_accepted (fst (run_each (run_serial_list sample_externals 0 sample_validator) sample_pair sample_store)) = [True, True]"
    using e r by (simp add: sample_pair_def run_serial_list_def run_serial_def sample_pending_def pending_new_def
        run_single_def sample_state_def outcome_of_def)
  then show ?thesis
    using group_runs_as_serial [OF g(1,2) i sample_validator_simps(1) p] g(3) by (metis (no_types, lifting))
qed

subsection \<open>The outcome cache\<close>

text \<open>The cache holds the outcomes of exactly the ids in its order, each once, within the bound.\<close>

definition cache_inv :: "(TxId \<rightharpoonup> ComputeBatchOutcome) \<times> TxId list \<Rightarrow> bool" where
  "cache_inv mo \<longleftrightarrow> dom (fst mo) = set (snd mo) \<and> distinct (snd mo)"

definition service_inv :: "'s service \<Rightarrow> bool" where
  "service_inv sv \<longleftrightarrow> cache_inv (completed sv, completed_order sv) \<and>
     length (completed_order sv) \<le> MAX_COMPLETED_OUTCOMES"

lemma record_completed_inv: "cache_inv mo \<Longrightarrow> cache_inv (record_completed o' mo)"
  by (auto simp: cache_inv_def record_completed_def)

lemma fold_record_completed_inv: "cache_inv mo \<Longrightarrow> cache_inv (fold record_completed os mo)"
  by (induction os arbitrary: mo) (simp_all add: record_completed_inv)

lemma evict_inv:
  "cache_inv mo \<Longrightarrow> cache_inv (evict bound mo) \<and> length (snd (evict bound mo)) \<le> bound"
  by (induction bound mo rule: evict.induct) (auto simp: cache_inv_def)

lemma complete_inflight_cache [simp]:
  "completed (complete_inflight i e r sv) = completed sv"
  "completed_order (complete_inflight i e r sv) = completed_order sv"
  "sv_store (complete_inflight i e r sv) = sv_store sv"
  by (simp_all add: complete_inflight_def)

lemma fold_complete_cache [simp]:
  "completed (fold (\<lambda>(i, e, o'). complete_inflight i e (r o')) cs sv) = completed sv"
  "completed_order (fold (\<lambda>(i, e, o'). complete_inflight i e (r o')) cs sv) = completed_order sv"
  "sv_store (fold (\<lambda>(i, e, o'). complete_inflight i e (r o')) cs sv) = sv_store sv"
  by (induction cs arbitrary: sv) auto

lemma record_outcomes_cache:
  "(completed (record_outcomes os sv), completed_order (record_outcomes os sv)) =
     evict MAX_COMPLETED_OUTCOMES (fold record_completed os (completed sv, completed_order sv))"
  by (simp add: record_outcomes_def Let_def split_beta del: evict.simps)

lemma record_outcomes_inv: "service_inv sv \<Longrightarrow> service_inv (record_outcomes os sv)"
  using evict_inv [OF fold_record_completed_inv, of "(completed sv, completed_order sv)"
      MAX_COMPLETED_OUTCOMES os] record_outcomes_cache [of os sv]
  by (metis service_inv_def snd_conv)

lemma flush_chunks_inv:
  assumes "service_inv sv" "flush_chunks x now rt cs os sv = (r, sv')"
  shows "service_inv sv'"
  using assms
proof (induction cs arbitrary: os sv)
  case (Cons c cs)
  show ?case
  proof (cases "run_chunk x now rt c (sv_store sv)")
    case (Inl e)
    with Cons.prems show ?thesis by auto
  next
    case (Inr ost)
    obtain ou s where o: "ost = (ou, s)" by force
    have "service_inv (record_outcomes ou (sv\<lparr>sv_store := s\<rparr>))"
      using Cons.prems(1) by (intro record_outcomes_inv) (simp add: service_inv_def)
    from Cons.IH [OF this] Cons.prems(2) Inr o show ?thesis by simp
  qed
qed simp

text \<open>Flushing keeps the outcome cache coherent and bounded: it holds the outcomes of exactly
  the ids in its eviction order, no id twice, and never more than 50000.\<close>

theorem flush_ready_cache:
  assumes "service_inv sv" "flush_ready x instant now rt sv = (r, sv')"
  shows "dom (completed sv') = set (completed_order sv') \<and> distinct (completed_order sv') \<and>
    length (completed_order sv') \<le> MAX_COMPLETED_OUTCOMES"
proof -
  obtain p q where d: "drain_ready (rt_config rt) instant (sv_queue sv) = (p, q)" by force
  have "service_inv (sv\<lparr>sv_queue := q\<rparr>)" using assms(1) by (simp add: service_inv_def)
  then have "service_inv sv'"
    using assms(2) d flush_chunks_inv by (auto simp: flush_ready_def split: if_splits)
  then show ?thesis by (simp add: service_inv_def cache_inv_def)
qed

definition sample_service :: "mem_store service" where
  "sample_service =
     \<lparr>sv_store = sample_store, sv_queue = [], in_flight = Map.empty, published = Map.empty,
      completed = Map.empty, completed_order = []\<rparr>"

definition sample_runtime :: "mem_store runtime" where
  "sample_runtime =
     \<lparr>rt_config = sample_config, rt_planner = plan (DefaultComputeConflictPolicy mem_ops),
      rt_validator = sample_validator, rt_threads = \<lparr>th_max_workers = 4, th_steps = (\<lambda>_. [])\<rparr>, rt_fallback = build_policy SerialOnFailure\<rparr>"

lemma flush_ready_cache_witness:
  "\<exists>r sv'. flush_ready sample_externals 0 0 sample_runtime sample_service = (r, sv') \<and>
     length (completed_order sv') \<le> MAX_COMPLETED_OUTCOMES"
proof -
  obtain r sv' where f: "flush_ready sample_externals 0 0 sample_runtime sample_service = (r, sv')" by force
  have "service_inv sample_service" by (simp add: service_inv_def cache_inv_def sample_service_def)
  from flush_ready_cache [OF this f] f show ?thesis by blast
qed

subsection \<open>Replay protection is lost in the runner\<close>

lemma register_actors_time:
  assumes "dom R = dom R'"
  shows "fst (register_actors tx n later as R) = fst (register_actors tx n now as R')"
  using assms
proof (induction as arbitrary: R R')
  case (Cons a as)
  let ?k = "replay_nonce_key a tx n"
  have "fst (register_actors tx n later as (R(?k \<mapsto> later))) = fst (register_actors tx n now as (R'(?k \<mapsto> now)))"
    by (rule Cons.IH) (simp only: dom_fun_upd Cons.prems option.distinct if_False simp_thms)
  moreover have "R ?k = None \<longleftrightarrow> R' ?k = None" using Cons.prems by (metis domIff)
  ultimately show ?case by (cases "R ?k"; cases "R' ?k") (simp_all add: Let_def)
qed simp

text \<open>Since every transaction runs in an executor of its own, the runner remembers no nonce: a
  transaction without inputs and outputs that it accepts once, whatever its nonce, is accepted
  again, at any later time and any number of times.\<close>

theorem runner_accepts_replays:
  assumes "run_single x now v tx s = (outcome, s')" "bo_accepted outcome"
    "input_set tx = []" "output_proposals tx = []"
  shows "run_single x later v tx s' = (outcome, s') \<and> s' = s"
proof -
  obtain r st where e: "execute x now v tx (executor_new s) = (r, st)" by force
  then obtain rep where r: "r = Inr rep" "outcome = outcome_of (tx_id tx) tx (Inr rep)" "s' = ex_store st"
    using assms(1,2) by (cases r) (auto simp: run_single_def outcome_of_def)
  then have v: "validate v s tx = Inr rep" "s' = s"
    using e assms(3,4) by (auto simp: execute_def commit_prevalidated_def commit_outputs_def executor_new_def
        split: sum.splits prod.splits)
  have reg: "fst (register_replay_nonce x later tx Map.empty) = fst (register_replay_nonce x now tx Map.empty)"
  proof (cases "tx_nonce tx")
    case (Some n)
    then show ?thesis
      using register_actors_time [of "retain_window later Map.empty" "retain_window now Map.empty"]
      by (simp add: register_replay_nonce_def retain_window_def)
  qed (simp add: register_replay_nonce_def)
  have "fst (register_replay_nonce x now tx Map.empty) = Inr ()"
    using e r(1) v by (auto simp: execute_def commit_prevalidated_def executor_new_def
        split: sum.splits prod.splits)
  with reg obtain R where "register_replay_nonce x later tx Map.empty = (Inr (), R)"
    by (cases "register_replay_nonce x later tx Map.empty") auto
  then have "execute x later v tx (executor_new s) = (Inr rep, \<lparr>ex_store = s, ex_registry = R\<rparr>)"
    using v assms(3,4) by (simp add: execute_def commit_prevalidated_def commit_outputs_def executor_new_def)
  with r v(2) show ?thesis by (simp add: run_single_def)
qed

lemma runner_accepts_replays_witness:
  "\<exists>o' s'. run_single sample_externals 0 sample_validator sample_invoke_tx sample_store = (o', s') \<and>
     bo_accepted o' \<and> run_single sample_externals 1 sample_validator sample_invoke_tx s' = (o', s')"
proof -
  obtain o' s' where a: "run_single sample_externals 0 sample_validator sample_invoke_tx sample_store = (o', s')"
    "bo_accepted o'" using sample_invoke_accepted by blast
  have "input_set sample_invoke_tx = []" "output_proposals sample_invoke_tx = []"
    by (simp_all add: sample_invoke_tx_def)
  from runner_accepts_replays [OF a this] a show ?thesis by blast
qed

end
