(* ===== verification/U256.thy ===== *)
theory U256
  imports Prelude
begin

section \<open>256-bit integers\<close>

text \<open>
  \<open>U256\<close> and \<open>I256\<close> of \<open>account/account.rs\<close>, on the array of 32 bytes, most significant first,
  that the code keeps, with its byte and bit loops.  A panic (an index out of range, a slice of the
  wrong length) is \<open>None\<close>.  The lemmas compare the routines with arithmetic on \<open>be_value\<close>: addition,
  subtraction and comparison are right; the shifts lose the bits that cross a byte, so that
  division is right for divisors up to 128 and yields zero for every divisor above 255; and
  multiplication always panics.
\<close>

type_synonym U256 = "u8 list"

definition u256_wf :: "U256 \<Rightarrow> bool" where
  "u256_wf a \<longleftrightarrow> length a = 32"

subsection \<open>Construction and conversion\<close>

definition u256_zero :: U256 where
  "u256_zero = replicate 32 0"

definition u256_one :: U256 where
  "u256_one = (replicate 32 0)[31 := 1]"

definition u256_from :: "u64 \<Rightarrow> U256" where
  "u256_from v = replicate 24 0 @ be_bytes v"

definition u256_from_u128 :: "u128 \<Rightarrow> U256" where
  "u256_from_u128 v = replicate 16 0 @ be_bytes v"

text \<open>\<open>from_be_bytes\<close> of a slice.\<close>

definition from_be :: "u8 list \<Rightarrow> 'a::len word" where
  "from_be bs = word_of_nat (be_value bs)"

definition as_u64 :: "U256 \<Rightarrow> u64" where
  "as_u64 a = from_be (drop 24 a)"

definition as_u8 :: "U256 \<Rightarrow> u8" where
  "as_u8 a = a ! 31"

definition as_u128 :: "U256 \<Rightarrow> u128" where
  "as_u128 a = from_be (drop 16 a)"

definition u256_is_zero :: "U256 \<Rightarrow> bool" where
  "u256_is_zero a = list_all (\<lambda>b. b = 0) a"

text \<open>\<open>copy_from_slice\<close> panics when more than 32 bytes are given.\<close>

definition from_big_endian :: "u8 list \<Rightarrow> U256 option" where
  "from_big_endian bytes =
     (let start = 32 - length bytes in
      if length bytes = 32 - start then Some (replicate start 0 @ bytes) else None)"

text \<open>The derived order compares the bytes from the first on.\<close>

fun u256_less :: "U256 \<Rightarrow> U256 \<Rightarrow> bool" where
  "u256_less (x # xs) (y # ys) = (x < y \<or> x = y \<and> u256_less xs ys)"
| "u256_less _ _ = False"

subsection \<open>Addition and subtraction\<close>

definition add_step :: "U256 \<Rightarrow> U256 \<Rightarrow> nat \<Rightarrow> u8 list \<times> u16 \<Rightarrow> u8 list \<times> u16" where
  "add_step a b i rc =
     (let total = ucast (a ! i) + ucast (b ! i) + snd rc :: u16
      in ((fst rc)[i := ucast total], drop_bit 8 total))"

definition overflowing_add :: "U256 \<Rightarrow> U256 \<Rightarrow> U256 \<times> bool" where
  "overflowing_add a b =
     (case fold (add_step a b) (rev [0..<32]) (replicate 32 0, 0) of
        (result, carry) \<Rightarrow> (result, carry \<noteq> 0))"

text \<open>The \<open>i16\<close> difference as an integer: it stays within \<open>-256 .. 255\<close>.\<close>

definition sub_step :: "U256 \<Rightarrow> U256 \<Rightarrow> nat \<Rightarrow> u8 list \<times> int \<Rightarrow> u8 list \<times> int" where
  "sub_step a b i rc =
     (let diff = uint (a ! i) - uint (b ! i) + snd rc
      in ((fst rc)[i := word_of_int diff], if diff < 0 then - 1 else 0))"

definition overflowing_sub :: "U256 \<Rightarrow> U256 \<Rightarrow> U256 \<times> bool" where
  "overflowing_sub a b =
     (case fold (sub_step a b) (rev [0..<32]) (replicate 32 0, 0) of
        (result, borrow) \<Rightarrow> (result, borrow \<noteq> 0))"

definition u256_saturating_add :: "U256 \<Rightarrow> U256 \<Rightarrow> U256" where
  "u256_saturating_add a b =
     (case overflowing_add a b of (r, overflow) \<Rightarrow> if overflow then replicate 32 0xFF else r)"

definition u256_saturating_sub :: "U256 \<Rightarrow> U256 \<Rightarrow> U256" where
  "u256_saturating_sub a b =
     (case overflowing_sub a b of (r, overflow) \<Rightarrow> if overflow then u256_zero else r)"

definition u256_add :: "U256 \<Rightarrow> U256 \<Rightarrow> U256" where
  "u256_add a b = fst (overflowing_add a b)"

definition u256_sub :: "U256 \<Rightarrow> U256 \<Rightarrow> U256" where
  "u256_sub a b = fst (overflowing_sub a b)"

subsection \<open>Multiplication and powers\<close>

text \<open>The index \<open>i - (31 - j)\<close> underflows when \<open>i + j < 31\<close>; the access then panics.\<close>

fun mul_inner :: "U256 \<Rightarrow> U256 \<Rightarrow> nat \<Rightarrow> nat list \<Rightarrow> u32 \<Rightarrow> u32 option" where
  "mul_inner a b i [] acc = Some acc"
| "mul_inner a b i (j # js) acc =
     (if i + j < 31 then None
      else mul_inner a b i js (acc + ucast (a ! j) * ucast (b ! (i - (31 - j)))))"

fun mul_outer :: "U256 \<Rightarrow> U256 \<Rightarrow> nat list \<Rightarrow> u8 list \<Rightarrow> u32 \<Rightarrow> (u8 list \<times> u32) option" where
  "mul_outer a b [] result carry = Some (result, carry)"
| "mul_outer a b (i # is) result carry =
     (case mul_inner a b i (rev [0..<Suc i]) carry of
        None \<Rightarrow> None
      | Some acc \<Rightarrow> mul_outer a b is (result[i := ucast acc]) (drop_bit 8 acc))"

definition overflowing_mul :: "U256 \<Rightarrow> U256 \<Rightarrow> (U256 \<times> bool) option" where
  "overflowing_mul a b =
     (case mul_outer a b (rev [0..<32]) (replicate 32 0) 0 of
        None \<Rightarrow> None
      | Some (result, carry) \<Rightarrow> Some (result, carry \<noteq> 0))"

function pow_loop :: "nat \<Rightarrow> U256 \<Rightarrow> U256 \<Rightarrow> bool \<Rightarrow> (U256 \<times> bool) option" where
  "pow_loop e result base overflow =
     (if e = 0 then Some (result, overflow)
      else
        case (if odd e then overflowing_mul result base else Some (result, False)) of
          None \<Rightarrow> None
        | Some (result, o1) \<Rightarrow>
            (case overflowing_mul base base of
               None \<Rightarrow> None
             | Some (base, o2) \<Rightarrow> pow_loop (e div 2) result base (overflow \<or> o1 \<or> o2)))"
  by pat_completeness auto

termination
  by (relation "measure (\<lambda>(e, _). e)") auto

declare pow_loop.simps [simp del]

definition overflowing_pow :: "U256 \<Rightarrow> u32 \<Rightarrow> (U256 \<times> bool) option" where
  "overflowing_pow a exp =
     (if exp = 0 then Some (u256_one, False) else pow_loop (unat exp) u256_one a False)"

definition overflowing_pow_u256 :: "U256 \<Rightarrow> U256 \<Rightarrow> (U256 \<times> bool) option" where
  "overflowing_pow_u256 a exp =
     (if u256_is_zero exp then Some (u256_one, False)
      else overflowing_pow a (ucast (min (as_u64 exp) (ucast (- 1 :: u32)))))"

subsection \<open>Bits\<close>

text \<open>\<open>u8::leading_zeros\<close>.\<close>

definition byte_leading_zeros :: "u8 \<Rightarrow> nat" where
  "byte_leading_zeros b = length (takeWhile (\<lambda>k. \<not> bit b k) (rev [0..<8]))"

fun leading_zeros :: "U256 \<Rightarrow> nat" where
  "leading_zeros [] = 0"
| "leading_zeros (b # bs) = (if b = 0 then 8 + leading_zeros bs else byte_leading_zeros b)"

definition u256_and :: "U256 \<Rightarrow> U256 \<Rightarrow> U256" where
  "u256_and a b = map (\<lambda>i. and (a ! i) (b ! i)) [0..<32]"

definition u256_or :: "U256 \<Rightarrow> U256 \<Rightarrow> U256" where
  "u256_or a b = map (\<lambda>i. or (a ! i) (b ! i)) [0..<32]"

definition u256_xor :: "U256 \<Rightarrow> U256 \<Rightarrow> U256" where
  "u256_xor a b = map (\<lambda>i. xor (a ! i) (b ! i)) [0..<32]"

definition u256_not :: "U256 \<Rightarrow> U256" where
  "u256_not a = map (\<lambda>i. not (a ! i)) [0..<32]"

definition u256_shl :: "U256 \<Rightarrow> nat \<Rightarrow> U256" where
  "u256_shl a shift =
     (if 256 \<le> shift then u256_zero
      else
        let byte_shift = shift div 8; bit_shift = shift mod 8 in
        map (\<lambda>i.
          if byte_shift \<le> i
          then
            let src = i - byte_shift; v = push_bit bit_shift (a ! src)
            in if 0 < bit_shift \<and> 0 < src then or v (drop_bit (8 - bit_shift) (a ! (src - 1))) else v
          else 0) [0..<32])"

definition u256_shr :: "U256 \<Rightarrow> nat \<Rightarrow> U256" where
  "u256_shr a shift =
     (if 256 \<le> shift then u256_zero
      else
        let byte_shift = shift div 8; bit_shift = shift mod 8 in
        map (\<lambda>i.
          if i + byte_shift < 32
          then
            let v = drop_bit bit_shift (a ! (i + byte_shift))
            in if 0 < bit_shift \<and> i + byte_shift + 1 < 32
               then or v (push_bit (8 - bit_shift) (a ! (i + byte_shift + 1))) else v
          else 0) [0..<32])"

subsection \<open>Division\<close>

definition div_step :: "U256 \<Rightarrow> U256 \<Rightarrow> nat \<Rightarrow> U256 \<times> U256 \<Rightarrow> U256 \<times> U256" where
  "div_step a b i qr =
     (let remainder = u256_shl (snd qr) 1;
          b0 = and (drop_bit (7 - i mod 8) (a ! (i div 8))) 1;
          remainder = (if b0 = 1 then u256_add remainder u256_one else remainder)
      in if \<not> u256_less remainder b
         then ((fst qr)[i div 8 := or (fst qr ! (i div 8)) (push_bit (7 - i mod 8) 1)],
               u256_sub remainder b)
         else (fst qr, remainder))"

definition u256_div :: "U256 \<Rightarrow> U256 \<Rightarrow> U256" where
  "u256_div a b =
     (if u256_is_zero b then u256_zero
      else if u256_is_zero a then u256_zero
      else fst (fold (div_step a b) [0..<256] (u256_zero, u256_zero)))"

definition u256_rem :: "U256 \<Rightarrow> U256 \<Rightarrow> U256 option" where
  "u256_rem a b =
     (if u256_is_zero b then Some u256_zero
      else map_option (\<lambda>p. u256_sub a (fst p)) (overflowing_mul (u256_div a b) b))"

subsection \<open>Signed integers\<close>

type_synonym I256 = "u8 list"

definition i256_from :: "u64 \<Rightarrow> I256" where
  "i256_from v = replicate 24 0 @ be_bytes v"

definition i256_is_zero :: "I256 \<Rightarrow> bool" where
  "i256_is_zero a = list_all (\<lambda>b. b = 0) a"

definition i256_is_positive :: "I256 \<Rightarrow> bool" where
  "i256_is_positive a \<longleftrightarrow> and (a ! 0) 0x80 = 0 \<and> \<not> i256_is_zero a"

definition i256_is_negative :: "I256 \<Rightarrow> bool" where
  "i256_is_negative a \<longleftrightarrow> and (a ! 0) 0x80 \<noteq> 0"

definition i256_to_u256 :: "I256 \<Rightarrow> U256 option" where
  "i256_to_u256 a = (if i256_is_negative a then None else Some a)"

subsection \<open>Values\<close>

lemma be_value_zeros [simp]: "be_value (replicate n 0) = 0"
  by (induction n) simp_all

lemma u256_bound: "u256_wf a \<Longrightarrow> be_value a < 2 ^ 256"
  using be_value_bound [of a] by (simp add: u256_wf_def)

lemma u256_wf_simps [simp]:
  "u256_wf u256_zero" "u256_wf u256_one" "u256_wf (u256_from v)" "u256_wf (u256_from_u128 w)"
  by (simp_all add: u256_wf_def u256_zero_def u256_one_def u256_from_def u256_from_u128_def)

lemma u256_values [simp]:
  "be_value u256_zero = 0" "be_value (u256_from v) = unat v" "be_value (u256_from_u128 w) = unat w"
  by (simp_all add: u256_zero_def u256_from_def u256_from_u128_def be_value_append be_value_be_bytes)

lemma u256_one_eq: "u256_one = replicate 31 0 @ [1]"
  by (simp add: u256_one_def eval_nat_numeral)

lemma u256_one_value [simp]: "be_value u256_one = 1"
  by (simp add: u256_one_eq be_value_append)

lemma u256_is_zero_iff: "u256_is_zero a \<longleftrightarrow> be_value a = 0"
  by (induction a) (auto simp: u256_is_zero_def word_unat_eq_iff)

lemma u256_less_iff: "length a = length b \<Longrightarrow> u256_less a b \<longleftrightarrow> be_value a < be_value b"
proof (induction a b rule: list_induct2)
  case (Cons x xs y ys)
  let ?m = "(256 :: nat) ^ length ys"
  have b: "be_value xs < ?m" "be_value ys < ?m"
    using be_value_bound [of xs] be_value_bound [of ys] Cons.hyps by simp_all
  consider "unat x < unat y" | "unat x = unat y" | "unat y < unat x" by linarith
  then show ?case
  proof cases
    case 1
    then have "(unat x + 1) * ?m \<le> unat y * ?m" by (intro mult_le_mono1) simp
    then have "unat x * ?m + be_value xs < unat y * ?m" using b by (simp add: add_mult_distrib)
    with 1 Cons.hyps show ?thesis by (simp add: word_less_nat_alt)
  next
    case 2
    with Cons show ?thesis by (simp add: word_less_nat_alt word_unat_eq_iff)
  next
    case 3
    then have "(unat y + 1) * ?m \<le> unat x * ?m" by (intro mult_le_mono1) simp
    then have "unat y * ?m + be_value ys < unat x * ?m" using b by (simp add: add_mult_distrib)
    with 3 Cons.hyps show ?thesis by (auto simp: word_less_nat_alt word_unat_eq_iff)
  qed
qed simp

lemma drop_Cons: "k < length xs \<Longrightarrow> drop k xs = xs ! k # drop (Suc k) xs"
  by (rule Cons_nth_drop_Suc [symmetric])

lemma drop_update: "k < length xs \<Longrightarrow> drop k (xs[k := x]) = x # drop (Suc k) xs"
  by (simp add: drop_Cons drop_update_cancel)

subsection \<open>Addition and subtraction are right\<close>

lemma add_step_value:
  fixes x y :: u8 and c :: u16
  assumes "unat c \<le> 1"
  shows "unat (ucast (ucast x + ucast y + c) :: u8) + 256 * unat (drop_bit 8 (ucast x + ucast y + c))
      = unat x + unat y + unat c"
    "unat (drop_bit 8 (ucast x + ucast y + c)) \<le> 1"
proof -
  have b: "unat x < 256" "unat y < 256" using unat_word_less [of x] unat_word_less [of y] by simp_all
  have u: "unat (ucast z :: u16) = unat z" if "unat z < 256" for z :: u8
    using that by (simp add: unsigned_ucast_eq take_bit_nat_eq_self)
  have s: "unat (ucast x + ucast y + c) = unat x + unat y + unat c"
    using b assms by (simp add: unat_word_ariths u)
  have lo: "unat (ucast (ucast x + ucast y + c) :: u8) = (unat x + unat y + unat c) mod 256"
    by (simp add: unsigned_ucast_eq s take_bit_eq_mod)
  have hi: "unat (drop_bit 8 (ucast x + ucast y + c)) = (unat x + unat y + unat c) div 256"
  proof -
    have "unat (drop_bit 8 w) = drop_bit 8 (unat w)" for w :: u16
      using unat_word_less [of w] by (simp add: unsigned_drop_bit_eq take_bit_nat_eq_self)
    then show ?thesis by (simp only: s) (simp add: drop_bit_eq_div)
  qed
  show "unat (ucast (ucast x + ucast y + c) :: u8) + 256 * unat (drop_bit 8 (ucast x + ucast y + c))
      = unat x + unat y + unat c" unfolding lo hi by (simp add: mod_mult_div_eq)
  have "(unat x + unat y + unat c) div 256 < 2" using b assms by (intro less_mult_imp_div_less) simp
  then show "unat (drop_bit 8 (ucast x + ucast y + c)) \<le> 1" unfolding hi by simp
qed

lemma add_loop:
  assumes "u256_wf a" "u256_wf b" "k \<le> 32" "foldr (add_step a b) [k..<32] (replicate 32 0, 0) = (res, c)"
  shows "length res = 32 \<and> unat c \<le> 1 \<and>
    be_value (drop k res) + unat c * 256 ^ (32 - k) = be_value (drop k a) + be_value (drop k b)"
  using assms(3,4)
proof (induction "32 - k" arbitrary: k res c)
  case 0
  then show ?case using assms(1,2) by (auto simp: u256_wf_def)
next
  case (Suc n)
  have k: "k < 32" using Suc.hyps(2) by simp
  obtain res' c' where r: "foldr (add_step a b) [Suc k..<32] (replicate 32 0, 0) = (res', c')" by force
  have ih: "length res' = 32" "unat c' \<le> 1" "be_value (drop (Suc k) res') + unat c' * 256 ^ (32 - Suc k)
      = be_value (drop (Suc k) a) + be_value (drop (Suc k) b)"
    using Suc.hyps(1) [of "Suc k" res' c'] Suc.hyps(2) k r by auto
  have "(res, c) = add_step a b k (res', c')"
    using Suc.prems(2) r k by (simp add: upt_conv_Cons)
  then have e: "res = res'[k := ucast (ucast (a ! k) + ucast (b ! k) + c' :: u16)]"
    "c = drop_bit 8 (ucast (a ! k) + ucast (b ! k) + c')"
    by (simp_all add: add_step_def Let_def)
  note v = add_step_value [OF ih(2), of "a ! k" "b ! k", folded e(2)]
  let ?P = "(256 :: nat) ^ (32 - Suc k)"
  have p: "(256 :: nat) ^ (32 - k) = 256 * ?P"
    using k by (metis Suc_diff_Suc power_Suc)
  have d: "drop k a = a ! k # drop (Suc k) a" "drop k b = b ! k # drop (Suc k) b"
    "drop k res = ucast (ucast (a ! k) + ucast (b ! k) + c' :: u16) # drop (Suc k) res'"
    using assms(1,2) k ih(1) by (simp_all add: e(1) u256_wf_def drop_Cons [of k a] drop_Cons [of k b] drop_update)
  have "unat (ucast (ucast (a ! k) + ucast (b ! k) + c' :: u16) :: u8) * ?P + unat c * (256 * ?P)
      = (unat (a ! k) + unat (b ! k) + unat c') * ?P"
    using arg_cong [OF v(1), of "\<lambda>n. n * ?P"] by (simp add: algebra_simps)
  then have "be_value (drop k res) + unat c * 256 ^ (32 - k) = be_value (drop k a) + be_value (drop k b)"
    using ih(1,3) assms(1,2) k unfolding d p u256_wf_def by (simp add: algebra_simps)
  then show ?case using ih(1) v(2) by (simp add: e(1))
qed

lemma overflowing_add_spec:
  assumes "u256_wf a" "u256_wf b" "overflowing_add a b = (r, overflow)"
  shows "u256_wf r" "be_value r + of_bool overflow * 2 ^ 256 = be_value a + be_value b"
proof -
  obtain c where c: "foldr (add_step a b) [0..<32] (replicate 32 0, 0) = (r, c)" "overflow \<longleftrightarrow> c \<noteq> 0"
    using assms(3) by (auto simp: overflowing_add_def foldr_conv_fold split: prod.splits)
  note l = add_loop [OF assms(1,2) _ c(1), simplified]
  have "unat c = of_bool overflow" using l c(2) by (auto simp: word_unat_eq_iff)
  with l show "u256_wf r" "be_value r + of_bool overflow * 2 ^ 256 = be_value a + be_value b"
    by (simp_all add: u256_wf_def)
qed

lemma sub_step_value:
  fixes x y :: u8 and c :: int
  assumes "c = 0 \<or> c = - 1"
  shows "int (unat (word_of_int (uint x - uint y + c) :: u8))
    = uint x - uint y + c + (if uint x - uint y + c < 0 then 256 else 0)"
proof -
  have b: "0 \<le> uint x" "uint x < 256" "0 \<le> uint y" "uint y < 256"
    using uint_lt2p [of x] uint_lt2p [of y] by simp_all
  have "uint (word_of_int (uint x - uint y + c) :: u8) = (uint x - uint y + c) mod 256"
    by (simp only: uint_word_of_int) simp
  also have "\<dots> = uint x - uint y + c + (if uint x - uint y + c < 0 then 256 else 0)"
  proof (cases "uint x - uint y + c < 0")
    case True
    have "(uint x - uint y + c) mod 256 = (uint x - uint y + c + 256) mod 256" by simp
    also have "\<dots> = uint x - uint y + c + 256"
    proof (rule mod_pos_pos_trivial)
      show "0 \<le> uint x - uint y + c + 256" using assms b(1,4) by (elim disjE) linarith+
      show "uint x - uint y + c + 256 < 256" using True by linarith
    qed
    finally show ?thesis using True by simp
  next
    case False
    have "uint x - uint y + c < 256" using assms b(2,3) by (elim disjE) linarith+
    with False show ?thesis by simp
  qed
  finally show ?thesis by simp
qed

lemma sub_loop:
  assumes "u256_wf a" "u256_wf b" "k \<le> 32" "foldr (sub_step a b) [k..<32] (replicate 32 0, 0) = (res, c)"
  shows "length res = 32 \<and> (c = 0 \<or> c = - 1) \<and>
    int (be_value (drop k res)) = int (be_value (drop k a)) - int (be_value (drop k b)) - c * 256 ^ (32 - k)"
  using assms(3,4)
proof (induction "32 - k" arbitrary: k res c)
  case 0
  then show ?case using assms(1,2) by (auto simp: u256_wf_def)
next
  case (Suc n)
  have k: "k < 32" using Suc.hyps(2) by simp
  obtain res' c' where r: "foldr (sub_step a b) [Suc k..<32] (replicate 32 0, 0) = (res', c')" by force
  have ih: "length res' = 32" "c' = 0 \<or> c' = - 1"
    "int (be_value (drop (Suc k) res')) = int (be_value (drop (Suc k) a)) - int (be_value (drop (Suc k) b))
      - c' * 256 ^ (32 - Suc k)"
    using Suc.hyps(1) [of "Suc k" res' c'] Suc.hyps(2) k r by auto
  have "(res, c) = sub_step a b k (res', c')"
    using Suc.prems(2) r k by (simp add: upt_conv_Cons)
  then have e: "res = res'[k := word_of_int (uint (a ! k) - uint (b ! k) + c')]"
    "c = (if uint (a ! k) - uint (b ! k) + c' < 0 then - 1 else 0)"
    by (simp_all add: sub_step_def Let_def)
  have v: "int (unat (word_of_int (uint (a ! k) - uint (b ! k) + c') :: u8))
      = uint (a ! k) - uint (b ! k) + c' - 256 * c"
    using sub_step_value [OF ih(2), of "a ! k" "b ! k"] by (simp add: e(2))
  let ?P = "(256 :: int) ^ (32 - Suc k)"
  have p: "(256 :: int) ^ (32 - k) = 256 * ?P"
    using k by (metis Suc_diff_Suc power_Suc)
  have d: "drop k a = a ! k # drop (Suc k) a" "drop k b = b ! k # drop (Suc k) b"
    "drop k res = word_of_int (uint (a ! k) - uint (b ! k) + c') # drop (Suc k) res'"
    using assms(1,2) k ih(1) by (simp_all add: e(1) u256_wf_def drop_Cons [of k a] drop_Cons [of k b] drop_update)
  have "int (unat (word_of_int (uint (a ! k) - uint (b ! k) + c') :: u8)) * ?P
      = (int (unat (a ! k)) - int (unat (b ! k)) + c' - 256 * c) * ?P"
    using v by simp
  then have "int (be_value (drop k res))
      = int (be_value (drop k a)) - int (be_value (drop k b)) - c * 256 ^ (32 - k)"
    using ih(1,3) assms(1,2) k unfolding d p u256_wf_def by (simp add: algebra_simps)
  then show ?case using ih(1) by (simp add: e)
qed

lemma overflowing_sub_spec:
  assumes "u256_wf a" "u256_wf b" "overflowing_sub a b = (r, borrow)"
  shows "u256_wf r" "borrow \<longleftrightarrow> be_value a < be_value b"
    "be_value r + be_value b = be_value a + of_bool borrow * 2 ^ 256"
proof -
  obtain c where c: "foldr (sub_step a b) [0..<32] (replicate 32 0, 0) = (r, c)" "borrow \<longleftrightarrow> c \<noteq> 0"
    using assms(3) by (auto simp: overflowing_sub_def foldr_conv_fold split: prod.splits)
  note l = sub_loop [OF assms(1,2) _ c(1), simplified]
  show wf: "u256_wf r" using l by (simp add: u256_wf_def)
  have "c = - int (of_bool borrow)" using l c(2) by auto
  then have e: "int (be_value r) = int (be_value a) - int (be_value b) + int (of_bool borrow) * 2 ^ 256"
    using l by simp
  then have "int (be_value r + be_value b) = int (be_value a + of_bool borrow * 2 ^ 256)" by simp
  then show s: "be_value r + be_value b = be_value a + of_bool borrow * 2 ^ 256" by (simp only: of_nat_eq_iff)
  show "borrow \<longleftrightarrow> be_value a < be_value b"
    using s u256_bound [OF wf] u256_bound [OF assms(2)] by (cases borrow) auto
qed

lemma u256_add_value:
  assumes "u256_wf a" "u256_wf b"
  shows "u256_wf (u256_add a b)" "be_value (u256_add a b) = (be_value a + be_value b) mod 2 ^ 256"
proof -
  obtain r c where o: "overflowing_add a b = (r, c)" by (cases "overflowing_add a b")
  note sp = overflowing_add_spec [OF assms o]
  have "(be_value a + be_value b) mod 2 ^ 256 = be_value r"
    unfolding sp(2) [symmetric] using u256_bound [OF sp(1)] by simp
  then show "u256_wf (u256_add a b)" "be_value (u256_add a b) = (be_value a + be_value b) mod 2 ^ 256"
    using sp by (simp_all add: u256_add_def o)
qed

text \<open>Addition and subtraction of 256-bit integers, byte by byte, are exact: the result with the
  overflow flag is the sum, the result of a subtraction with the borrow is the difference, and the
  borrow is set exactly when the first number is the smaller one.\<close>

theorem u256_add_sub_exact:
  assumes "u256_wf a" "u256_wf b" "overflowing_add a b = (s, overflow)" "overflowing_sub a b = (d, borrow)"
  shows "be_value s + of_bool overflow * 2 ^ 256 = be_value a + be_value b \<and>
    be_value d + be_value b = be_value a + of_bool borrow * 2 ^ 256 \<and>
    (borrow \<longleftrightarrow> be_value a < be_value b) \<and> (u256_less a b \<longleftrightarrow> be_value a < be_value b)"
  using overflowing_add_spec [OF assms(1,2,3)] overflowing_sub_spec [OF assms(1,2,4)]
    u256_less_iff [of a b] assms(1,2) by (simp add: u256_wf_def)

lemma u256_add_sub_exact_witness:
  "\<exists>s c d b. overflowing_add (u256_from 300) (u256_from 500) = (s, c) \<and>
     overflowing_sub (u256_from 300) (u256_from 500) = (d, b) \<and> b \<and>
     be_value s + of_bool c * 2 ^ 256 = 800"
proof -
  obtain s c d b where e: "overflowing_add (u256_from 300) (u256_from 500) = (s, c)"
    "overflowing_sub (u256_from 300) (u256_from 500) = (d, b)" by (meson surj_pair)
  from u256_add_sub_exact [OF u256_wf_simps(3) u256_wf_simps(3) e] have
    "be_value s + of_bool c * 2 ^ 256 = 800" "b" by simp_all
  with e show ?thesis by blast
qed

subsection \<open>Multiplication always panics\<close>

lemma mul_inner_panics: "\<exists>j \<in> set js. i + j < 31 \<Longrightarrow> mul_inner a b i js acc = None"
  by (induction js arbitrary: acc) auto

text \<open>Every multiplication panics, whatever the factors; so does every remainder by a divisor
  that is not zero.\<close>

theorem u256_mul_panics:
  "overflowing_mul a b = None \<and> (be_value b \<noteq> 0 \<longrightarrow> u256_rem a b = None)"
proof -
  have i: "mul_inner a b 30 (rev [0..<Suc 30]) acc = None" for a acc
    by (rule mul_inner_panics) (auto intro!: bexI [of _ 0])
  have o1: "mul_outer a b (30 # is) r c = None" for a "is" r c
    by (simp only: mul_outer.simps i option.case)
  have o2: "mul_outer a b (31 # 30 # is) r c = None" for a "is" r c
    by (subst mul_outer.simps) (simp only: o1 split: option.split, simp)
  have "rev [0..<32] = 31 # 30 # rev [0..<30]" by (simp add: eval_nat_numeral)
  then have "overflowing_mul a b = None" for a
    by (simp only: overflowing_mul_def o2 option.case)
  then show ?thesis by (simp add: u256_rem_def u256_is_zero_iff)
qed

lemma u256_mul_panics_witness: "u256_rem (u256_from 7) (u256_from 3) = None"
  using u256_mul_panics [of "u256_from 7" "u256_from 3"] by simp

subsection \<open>Shifts and division\<close>

text \<open>A number below 256 in 32 bytes.\<close>

definition small :: "u8 \<Rightarrow> U256" where
  "small r = replicate 31 0 @ [r]"

lemma small_simps [simp]: "u256_wf (small r)" "be_value (small r) = unat r" "length (small r) = 32"
  by (simp_all add: small_def u256_wf_def be_value_append)

lemma small_nth: "i < 32 \<Longrightarrow> small r ! i = (if i = 31 then r else 0)"
  by (simp add: small_def nth_append)

lemma small_eqI: "u256_wf a \<Longrightarrow> be_value a = unat r \<Longrightarrow> a = small r"
  by (rule be_value_inj) (simp_all add: u256_wf_def)

lemma shl_small: "u256_shl (small r) 1 = small (push_bit 1 r)"
  by (rule nth_equalityI) (auto simp: u256_shl_def small_nth Let_def)

lemma unat_double: "unat (push_bit 1 r :: u8) = 2 * unat r mod 256"
  by (simp add: unat_word_ariths push_bit_eq_mult mult.commute)

lemma add_one_small:
  assumes "even (unat r)"
  shows "u256_add (small r) u256_one = small (r + 1)"
proof (rule small_eqI)
  obtain s c where s: "overflowing_add (small r) u256_one = (s, c)" by force
  note sp = overflowing_add_spec [OF _ _ s, simplified]
  have r: "unat r < 256" "unat r \<noteq> 255" using unat_word_less [of r] assms by auto
  then have u: "unat (r + 1) = unat r + 1" by (simp add: unat_word_ariths)
  show "u256_wf (u256_add (small r) u256_one)" using sp by (simp add: u256_add_def s)
  have "\<not> c"
  proof
    assume "c"
    with sp(2) r show False by simp
  qed
  with sp(2) u show "be_value (u256_add (small r) u256_one) = unat (r + 1)"
    by (simp add: u256_add_def s)
qed

lemma sub_small:
  assumes "u256_wf b" "be_value b \<le> unat r"
  shows "u256_sub (small r) b = small (r - word_of_nat (be_value b))"
proof (rule small_eqI)
  obtain d c where d: "overflowing_sub (small r) b = (d, c)" by force
  note sp = overflowing_sub_spec [OF _ assms(1) d, simplified]
  have "be_value b < 256" using assms(2) unat_word_less [of r] by simp
  then have w: "unat (word_of_nat (be_value b) :: u8) = be_value b" by (simp add: unat_of_nat)
  have "unat (r - word_of_nat (be_value b)) = unat r - be_value b"
    using assms(2) w by (simp add: unat_sub word_le_nat_alt)
  then show "be_value (u256_sub (small r) b) = unat (r - word_of_nat (be_value b))"
    using sp(2,3) assms(2) by (simp add: u256_sub_def d)
  show "u256_wf (u256_sub (small r) b)" using sp by (simp add: u256_sub_def d)
qed

text \<open>One step of the division on a small remainder; \<open>dividend_bit\<close> is the next bit of the dividend.\<close>

definition dividend_bit :: "U256 \<Rightarrow> nat \<Rightarrow> bool" where
  "dividend_bit a i \<longleftrightarrow> bit (a ! (i div 8)) (7 - i mod 8)"

definition next_remainder :: "U256 \<Rightarrow> nat \<Rightarrow> u8 \<Rightarrow> u8" where
  "next_remainder a i r = push_bit 1 r + of_bool (dividend_bit a i)"

lemma unat_next_remainder: "unat (next_remainder a i r) = 2 * unat r mod 256 + of_bool (dividend_bit a i)"
proof -
  have e: "even (unat (push_bit 1 r))" unfolding unat_double by (intro dvd_mod) simp_all
  then have "unat (push_bit 1 r) \<noteq> 255" by auto
  then have "unat (push_bit 1 r) + 1 < 256" using unat_word_less [of "push_bit 1 r"] by simp
  then show ?thesis unfolding next_remainder_def unat_double [symmetric]
    by (cases "dividend_bit a i") (simp_all add: unat_word_ariths)
qed

lemma low_bit: "and (drop_bit n (w :: u8)) 1 = 1 \<longleftrightarrow> bit w n"
  by (simp add: and_one_eq bit_iff_odd_drop_bit odd_iff_mod_2_eq_one)

lemma div_step_small:
  assumes "u256_wf b"
  shows "div_step a b i (q, small r) =
    (if be_value b \<le> unat (next_remainder a i r)
     then (q[i div 8 := or (q ! (i div 8)) (push_bit (7 - i mod 8) 1)],
           small (next_remainder a i r - word_of_nat (be_value b)))
     else (q, small (next_remainder a i r)))"
proof -
  have e: "even (unat (push_bit 1 r))" unfolding unat_double by (intro dvd_mod) simp_all
  have r: "(if and (drop_bit (7 - i mod 8) (a ! (i div 8))) 1 = 1
      then u256_add (u256_shl (small r) 1) u256_one else u256_shl (small r) 1) = small (next_remainder a i r)"
    by (cases "dividend_bit a i")
       (simp_all only: low_bit shl_small add_one_small [OF e] next_remainder_def dividend_bit_def
         if_True if_False of_bool_eq add_0_right simp_thms)
  have l: "u256_less (small (next_remainder a i r)) b \<longleftrightarrow> unat (next_remainder a i r) < be_value b"
    using assms by (simp add: u256_less_iff u256_wf_def)
  show ?thesis
    unfolding div_step_def Let_def snd_conv fst_conv r l
    using sub_small [OF assms] by (simp add: not_less)
qed

lemma division_stuck:
  assumes "u256_wf b" "255 < be_value b"
  shows "\<exists>r'. fold (div_step a b) is (q, small r) = (q, small r')"
proof (induction "is" arbitrary: r)
  case (Cons i "is")
  have "unat (next_remainder a i r) < be_value b"
    using unat_word_less [of "next_remainder a i r"] assms(2) by simp
  then have "div_step a b i (q, small r) = (q, small (next_remainder a i r))"
    by (simp add: div_step_small [OF assms(1)])
  with Cons.IH show ?case by simp
qed auto

text \<open>Division by any number above 255 yields zero, whatever the dividend: the shift of the
  remainder drops the bit that leaves a byte, so the remainder never grows beyond one byte.\<close>

lemma u256_div_large_divisor:
  assumes "u256_wf b" "255 < be_value b"
  shows "u256_div a b = u256_zero"
proof -
  have z: "u256_zero = small 0" by (simp add: u256_zero_def small_def eval_nat_numeral)
  obtain r where "fold (div_step a b) [0..<256] (u256_zero, small 0) = (u256_zero, small r)"
    using division_stuck [OF assms] by blast
  then show ?thesis by (simp add: u256_div_def flip: z)
qed

subsection \<open>Division by small numbers is right\<close>

lemma bit_join:
  fixes x y :: nat
  assumes "y < 2 ^ m"
  shows "bit (x * 2 ^ m + y) n \<longleftrightarrow> (if n < m then bit y n else bit x (n - m))"
proof (cases "n < m")
  case True
  then obtain k where k: "m = n + Suc k" using less_iff_Suc_add by auto
  have "(x * 2 ^ m + y) div 2 ^ n = x * 2 ^ Suc k + y div 2 ^ n"
  proof -
    have "(2 :: nat) ^ m = 2 ^ n * 2 ^ Suc k" by (simp only: k power_add)
    then have "x * 2 ^ m + y = y + 2 ^ n * (x * 2 ^ Suc k)" by (simp only: ac_simps)
    then show ?thesis by (simp only: div_mult_self2 power_not_zero numeral_neq_zero not_False_eq_True)
  qed
  with True show ?thesis by (simp add: bit_iff_odd)
next
  case False
  then have "(2 :: nat) ^ n = 2 ^ m * 2 ^ (n - m)" by (simp add: power_add [symmetric])
  then have "(x * 2 ^ m + y) div 2 ^ n = (x * 2 ^ m + y) div 2 ^ m div 2 ^ (n - m)"
    by (simp only: div_mult2_eq)
  also have "(x * 2 ^ m + y) div 2 ^ m = x" using assms by simp
  finally show ?thesis using False by (simp add: bit_iff_odd)
qed

lemma bit_be_value:
  "n < 8 * length bs \<Longrightarrow> bit (be_value bs) n \<longleftrightarrow> bit (bs ! (length bs - 1 - n div 8)) (n mod 8)"
proof (induction bs)
  case (Cons b bs)
  have p: "(256 :: nat) ^ length bs = 2 ^ (8 * length bs)" by (simp add: power_mult)
  have j: "bit (be_value (b # bs)) n
      \<longleftrightarrow> (if n < 8 * length bs then bit (be_value bs) n else bit (unat b) (n - 8 * length bs))"
    using bit_join [of "be_value bs" "8 * length bs" "unat b" n] be_value_bound [of bs] by (simp add: p)
  show ?case
  proof (cases "n < 8 * length bs")
    case True
    then have d: "n div 8 < length bs" by (simp add: less_mult_imp_div_less mult.commute)
    then have "length bs - n div 8 = Suc (length bs - 1 - n div 8)" by arith
    then have "(b # bs) ! (length (b # bs) - 1 - n div 8) = bs ! (length bs - 1 - n div 8)" by simp
    with True Cons.IH show ?thesis unfolding j by simp
  next
    case False
    then have d: "n div 8 = length bs" by (intro div_nat_eqI) (use Cons.prems in simp_all)
    then have "n mod 8 = n - 8 * length bs" using minus_mult_div_eq_mod [of n 8] by simp
    with False d show ?thesis unfolding j by (simp add: bit_unsigned_iff)
  qed
qed simp

lemma be_value_update:
  assumes "k < length xs"
  shows "be_value (xs[k := x]) + unat (xs ! k) * 256 ^ (length xs - 1 - k)
    = be_value xs + unat x * 256 ^ (length xs - 1 - k)"
  using assms
proof (induction xs arbitrary: k)
  case (Cons y ys)
  then show ?case by (cases k) (auto simp: algebra_simps)
qed simp

lemma bit_index:
  fixes i :: nat
  assumes "i < 256"
  shows "(255 - i) div 8 = 31 - i div 8" "(255 - i) mod 8 = 7 - i mod 8"
proof -
  define q r where "q = i div 8" and "r = i mod 8"
  have i: "i = 8 * q + r" "r < 8" "q < 32" using assms by (auto simp: q_def r_def)
  define s where "s = 7 - r"
  have "255 - i = s + 8 * (31 - q)" "s < 8" using i by (simp_all add: s_def)
  then have "(255 - i) div 8 = 31 - q" "(255 - i) mod 8 = s" by simp_all
  then show "(255 - i) div 8 = 31 - i div 8" "(255 - i) mod 8 = 7 - i mod 8"
    by (simp_all add: q_def r_def s_def)
qed

lemma u256_bit:
  assumes "u256_wf a" "i < 256"
  shows "dividend_bit a i \<longleftrightarrow> bit (be_value a) (255 - i)"
proof -
  have "31 - (31 - i div 8) = i div 8" using assms(2) by simp
  moreover have "255 - i < 8 * length a" using assms by (simp add: u256_wf_def)
  ultimately show ?thesis
    using bit_be_value [of "255 - i" a] bit_index [OF assms(2)] assms(1)
    by (simp add: dividend_bit_def u256_wf_def)
qed

lemma unat_byte_bit: "m < 8 \<Longrightarrow> unat (push_bit m 1 :: u8) = 2 ^ m"
proof -
  assume "m < 8"
  then have "(2 :: nat) ^ m < 2 ^ 8" by (intro power_strict_increasing) simp_all
  then have "unat (word_of_nat (2 ^ m) :: u8) = 2 ^ m" by (simp only: unat_of_nat) simp
  then show ?thesis by (simp add: push_bit_eq_mult)
qed

lemma set_bit_value:
  assumes "u256_wf q" "i < 256" "\<not> bit (be_value q) (255 - i)"
  shows "be_value (q[i div 8 := or (q ! (i div 8)) (push_bit (7 - i mod 8) 1)]) = be_value q + 2 ^ (255 - i)"
proof -
  let ?k = "i div 8" and ?m = "7 - i mod 8"
  have b: "\<not> bit (q ! ?k) ?m" using u256_bit [OF assms(1,2)] assms(3) by (simp add: dividend_bit_def)
  have "unat (or (q ! ?k) (push_bit ?m 1)) = or (unat (q ! ?k)) (push_bit ?m 1)"
    by (simp only: unsigned_or_eq unat_byte_bit diff_le_self [THEN le_less_trans] numeral_less_iff)
       (simp add: unat_byte_bit)
  also have "\<dots> = unat (q ! ?k) + 2 ^ ?m"
    using b set_bit_eq [of ?m "unat (q ! ?k)"] set_bit_eq_or [of ?m "unat (q ! ?k)"]
    by (simp add: bit_unsigned_iff push_bit_eq_mult)
  finally have u: "unat (or (q ! ?k) (push_bit ?m 1)) = unat (q ! ?k) + 2 ^ ?m" .
  have "(2 :: nat) ^ ?m * 256 ^ (31 - ?k) = 2 ^ (?m + 8 * (31 - ?k))"
    by (simp only: power_add power_mult) simp
  also have "?m + 8 * (31 - ?k) = 255 - i"
    using bit_index [OF assms(2)] by (metis add.commute mult_div_mod_eq)
  finally have e: "(2 :: nat) ^ ?m * 256 ^ (31 - ?k) = 2 ^ (255 - i)" .
  have "?k < length q" using assms(1,2) by (simp add: u256_wf_def)
  from be_value_update [OF this, of "or (q ! ?k) (push_bit ?m 1)"] show ?thesis
    using assms(1) unfolding u by (simp add: u256_wf_def add_mult_distrib e)
qed

lemma bit_step:
  fixes A :: nat
  shows "A div 2 ^ n = 2 * (A div 2 ^ Suc n) + of_bool (bit A n)"
proof -
  have "A div 2 ^ Suc n = A div 2 ^ n div 2" by (simp only: power_Suc2 div_mult2_eq)
  then show ?thesis by (cases "odd (A div 2 ^ n)") (simp_all add: bit_iff_odd)
qed

lemma division_digit:
  fixes P b r :: nat
  assumes "r = P mod b" "0 < b" "e \<le> 1" "R = 2 * r + e"
  shows "(2 * P + e) div b = 2 * (P div b) + of_bool (b \<le> R)"
    "(2 * P + e) mod b = (if b \<le> R then R - b else R)"
proof -
  have P: "P = b * (P div b) + r" using assms(1) by simp
  have r: "r < b" using assms(1,2) by simp
  have eq: "2 * P + e = b * (2 * (P div b)) + R"
    using arg_cong [OF P, of "\<lambda>n. 2 * n + e"] assms(4) by (simp add: algebra_simps)
  have "R < 2 * b" using r assms(3,4) by linarith
  then have "R div b = of_bool (b \<le> R)" "R mod b = (if b \<le> R then R - b else R)"
    using assms(2) by (auto simp: div_if mod_if)
  then show "(2 * P + e) div b = 2 * (P div b) + of_bool (b \<le> R)"
    "(2 * P + e) mod b = (if b \<le> R then R - b else R)"
    unfolding eq using assms(2) by simp_all
qed

lemma division_loop:
  assumes "u256_wf a" "u256_wf b" "0 < be_value b" "be_value b \<le> 128" "n \<le> 256"
  shows "\<exists>q r. fold (div_step a b) [0..<n] (u256_zero, small 0) = (q, small r) \<and> u256_wf q \<and>
    unat r = be_value a div 2 ^ (256 - n) mod be_value b \<and>
    be_value q = be_value a div 2 ^ (256 - n) div be_value b * 2 ^ (256 - n)"
  using assms(5)
proof (induction n)
  case 0
  have "be_value a div 2 ^ 256 = 0" using u256_bound [OF assms(1)] by simp
  then show ?case by (intro exI [of _ u256_zero] exI [of _ 0]) simp
next
  case (Suc n)
  let ?A = "be_value a" and ?B = "be_value b"
  let ?P = "?A div 2 ^ (256 - n)"
  obtain q r where q: "fold (div_step a b) [0..<n] (u256_zero, small 0) = (q, small r)" "u256_wf q"
    "unat r = ?P mod ?B" "be_value q = ?P div ?B * 2 ^ (256 - n)" using Suc by auto
  define e :: nat where "e = of_bool (dividend_bit a n)"
  have n: "n < 256" "256 - n = Suc (255 - n)" "256 - Suc n = 255 - n" using Suc.prems by auto
  have P': "?A div 2 ^ (255 - n) = 2 * ?P + e"
    using bit_step [of ?A "255 - n"] by (simp only: e_def u256_bit [OF assms(1) n(1)] n(2))
  have "unat r < ?B" using q(3) assms(3) by simp
  then have R: "unat (next_remainder a n r) = 2 * unat r + e"
    unfolding unat_next_remainder e_def using assms(4) by simp
  have e1: "e \<le> 1" by (simp add: e_def)
  note dg = division_digit [OF q(3) assms(3) e1 R]
  have unset: "\<not> bit (be_value q) (255 - n)"
    unfolding q(4) n(2) by (simp add: bit_iff_odd)
  show ?case
  proof (cases "?B \<le> unat (next_remainder a n r)")
    case True
    let ?q = "q[n div 8 := or (q ! (n div 8)) (push_bit (7 - n mod 8) 1)]"
    have f: "fold (div_step a b) [0..<Suc n] (u256_zero, small 0)
        = (?q, small (next_remainder a n r - word_of_nat ?B))"
      using True q(1) by (simp add: div_step_small [OF assms(2)])
    have w: "unat (word_of_nat ?B :: u8) = ?B" using assms(4) by (simp add: unat_of_nat)
    have "unat (next_remainder a n r - word_of_nat ?B) = unat (next_remainder a n r) - ?B"
      using True w by (simp add: unat_sub word_le_nat_alt)
    moreover have "be_value ?q = (2 * (?P div ?B) + 1) * 2 ^ (255 - n)"
      unfolding set_bit_value [OF q(2) n(1) unset] q(4) n(2) by (simp add: algebra_simps)
    moreover have "u256_wf ?q" using q(2) by (simp add: u256_wf_def)
    ultimately show ?thesis unfolding n(3) P' dg f
      by (intro exI [of _ ?q] exI [of _ "next_remainder a n r - word_of_nat ?B"] conjI)
         (simp_all only: True of_bool_eq if_True)
  next
    case False
    have f: "fold (div_step a b) [0..<Suc n] (u256_zero, small 0) = (q, small (next_remainder a n r))"
      using False q(1) by (simp add: div_step_small [OF assms(2)])
    moreover have "be_value q = 2 * (?P div ?B) * 2 ^ (255 - n)"
      unfolding q(4) n(2) by (simp add: algebra_simps)
    ultimately show ?thesis unfolding n(3) P' dg
      by (intro exI [of _ q] exI [of _ "next_remainder a n r"] conjI)
         (simp_all only: False q(2) of_bool_eq if_False add_0_right)
  qed
qed

text \<open>Division by a number from 1 to 128 is exact, for every dividend.\<close>

lemma u256_div_small_divisor:
  assumes "u256_wf a" "u256_wf b" "0 < be_value b" "be_value b \<le> 128"
  shows "be_value (u256_div a b) = be_value a div be_value b"
proof -
  have z: "u256_zero = small 0" by (simp add: u256_zero_def small_def eval_nat_numeral)
  obtain q r where "fold (div_step a b) [0..<256] (u256_zero, small 0) = (q, small r)"
    "be_value q = be_value a div be_value b"
    using division_loop [OF assms, of 256] by auto
  then have "fst (fold (div_step a b) [0..<256] (u256_zero, u256_zero)) = q" by (simp add: z)
  then show ?thesis
    using assms(3) \<open>be_value q = be_value a div be_value b\<close>
    by (simp add: u256_div_def u256_is_zero_iff)
qed

text \<open>Division is exact for divisors from 1 to 128 and yields zero for all divisors above 255.\<close>

theorem u256_div_exact_or_zero:
  assumes "u256_wf a" "u256_wf b"
  shows "(0 < be_value b \<and> be_value b \<le> 128 \<longrightarrow> be_value (u256_div a b) = be_value a div be_value b) \<and>
    (255 < be_value b \<longrightarrow> u256_div a b = u256_zero)"
  using u256_div_small_divisor [OF assms] u256_div_large_divisor [OF assms(2)] by blast

lemma u256_div_exact_or_zero_witness:
  "be_value (u256_div (u256_from 1000) (u256_from 7)) = 142 \<and>
   u256_div (u256_from 1000) (u256_from 500) = u256_zero"
  using u256_div_exact_or_zero [of "u256_from 1000" "u256_from 7"]
    u256_div_exact_or_zero [of "u256_from 1000" "u256_from 500"] by simp

end
