(* ===== verification/Block.thy ===== *)
theory Block
  imports Signing Gas U256
begin

section \<open>Blocks\<close>

text \<open>
  \<open>block/mod.rs\<close>: headers and their canonical bytes, header validation, proof of work, receipts
  and bodies with their Merkle commitments, and the difficulty controller.  Keccak, SHA-256 and
  the \<open>bincode\<close> serialisation of transactions and receipts are parameters.  A panic is \<open>None\<close>
  where one is possible in the source (\<open>from_big_endian\<close>, \<open>clamp\<close>).  The fields of a header carry
  the prefix \<open>h_\<close>, of a receipt \<open>rc_\<close>, of a body \<open>bd_\<close>, of a block \<open>bk_\<close>.
\<close>

subsection \<open>Data\<close>

definition CANONICAL_BLOCK_VERSION :: u32 where "CANONICAL_BLOCK_VERSION = 3"
definition DIFFICULTY_WINDOW_BLOCKS :: nat where "DIFFICULTY_WINDOW_BLOCKS = 10"
definition TARGET_BLOCK_INTERVAL_SECS :: u64 where "TARGET_BLOCK_INTERVAL_SECS = 10"
definition BASE_MINING_DIFFICULTY :: u128 where "BASE_MINING_DIFFICULTY = 1"
definition MIN_MINING_DIFFICULTY :: u128 where "MIN_MINING_DIFFICULTY = 1"
definition MAX_MINING_DIFFICULTY :: u128 where "MAX_MINING_DIFFICULTY = 1000000000"
definition DIFFICULTY_BOOTSTRAP_THRESHOLD :: u128 where "DIFFICULTY_BOOTSTRAP_THRESHOLD = 1000000"
definition DIFFICULTY_BOOTSTRAP_STEP_BPS :: u128 where "DIFFICULTY_BOOTSTRAP_STEP_BPS = 40000"
definition DIFFICULTY_MAX_STEP_BPS :: u128 where "DIFFICULTY_MAX_STEP_BPS = 2500"
definition DIFFICULTY_INTERVAL_EMA_WEIGHT :: u128 where "DIFFICULTY_INTERVAL_EMA_WEIGHT = 4"

lemmas difficulty_constants =
  BASE_MINING_DIFFICULTY_def MIN_MINING_DIFFICULTY_def MAX_MINING_DIFFICULTY_def
  DIFFICULTY_BOOTSTRAP_THRESHOLD_def DIFFICULTY_BOOTSTRAP_STEP_BPS_def DIFFICULTY_MAX_STEP_BPS_def
  DIFFICULTY_INTERVAL_EMA_WEIGHT_def TARGET_BLOCK_INTERVAL_SECS_def DIFFICULTY_WINDOW_BLOCKS_def

datatype BlockError =
    InvalidParentHash | InvalidBlockNumber | InvalidTimestamp | InvalidDifficulty | InvalidPow
  | GasLimitTooHigh | ExtraDataTooLarge | InvalidTransactionRoot | InvalidReceiptsRoot
  | InvalidStateRoot | InvalidBlockBody | BlockTooLarge

record BlockHeader =
  h_version :: u32
  h_parent_hash :: hash
  h_uncle_hashes :: "hash list"
  h_coinbase :: address
  h_state_root :: hash
  h_transactions_root :: hash
  h_receipts_root :: hash
  h_number :: U256
  h_gas_limit :: u64
  h_gas_used :: u64
  h_timestamp :: u64
  h_difficulty :: U256
  h_nonce :: u64
  h_extra_data :: "u8 list"
  h_mix_hash :: hash
  h_base_fee_per_gas :: U256
  h_hash :: hash

datatype ReceiptStatus = Success | Reverted | Failed

record ReceiptLog =
  log_topic :: string
  log_data :: "u8 list"

record Receipt =
  rc_tx_id :: TxId
  rc_block_hash :: hash
  rc_status :: ReceiptStatus
  rc_gas_used :: u64
  rc_compute_units :: u64
  rc_output_refs :: "OutputId list"
  rc_logs :: "ReceiptLog list"
  rc_error :: "string option"

record BlockBodyRoots =
  roots_transactions :: hash
  roots_receipts :: hash

record BlockBody =
  bd_version :: u32
  bd_transactions :: "ComputeTx list"
  bd_receipts :: "Receipt list"

record Block =
  bk_header :: BlockHeader
  bk_body :: "BlockBody option"
  bk_uncles :: "BlockHeader list"

text \<open>The third-party functions the block module adds.\<close>

record block_externals = externals +
  sha256 :: "u8 list \<Rightarrow> hash"
  bincode_tx :: "ComputeTx \<Rightarrow> u8 list"
  bincode_receipt :: "Receipt \<Rightarrow> u8 list"

subsection \<open>Receipts, bodies and blocks\<close>

definition receipt_success :: "TxId \<Rightarrow> hash \<Rightarrow> u64 \<Rightarrow> u64 \<Rightarrow> OutputId list \<Rightarrow> Receipt" where
  "receipt_success i h gas units outs =
     \<lparr>rc_tx_id = i, rc_block_hash = h, rc_status = Success, rc_gas_used = gas,
      rc_compute_units = units, rc_output_refs = outs, rc_logs = [], rc_error = None\<rparr>"

definition receipt_reverted :: "TxId \<Rightarrow> hash \<Rightarrow> string \<Rightarrow> Receipt" where
  "receipt_reverted i h err =
     \<lparr>rc_tx_id = i, rc_block_hash = h, rc_status = Reverted, rc_gas_used = 0,
      rc_compute_units = 0, rc_output_refs = [], rc_logs = [], rc_error = Some err\<rparr>"

definition receipt_failed :: "TxId \<Rightarrow> hash \<Rightarrow> string \<Rightarrow> Receipt" where
  "receipt_failed i h err =
     \<lparr>rc_tx_id = i, rc_block_hash = h, rc_status = Failed, rc_gas_used = 0,
      rc_compute_units = 0, rc_output_refs = [], rc_logs = [], rc_error = Some err\<rparr>"

definition body_empty :: BlockBody where
  "body_empty = \<lparr>bd_version = 1, bd_transactions = [], bd_receipts = []\<rparr>"

definition body_new :: "ComputeTx list \<Rightarrow> Receipt list \<Rightarrow> BlockBody" where
  "body_new txs rs = \<lparr>bd_version = 1, bd_transactions = txs, bd_receipts = rs\<rparr>"

definition body_is_empty :: "BlockBody \<Rightarrow> bool" where
  "body_is_empty b \<longleftrightarrow> bd_transactions b = [] \<and> bd_receipts b = []"

definition block_new :: "BlockHeader \<Rightarrow> Block" where
  "block_new h = \<lparr>bk_header = h, bk_body = Some body_empty, bk_uncles = []\<rparr>"

definition with_body :: "Block \<Rightarrow> BlockBody \<Rightarrow> Block" where
  "with_body blk b = blk\<lparr>bk_body := Some b\<rparr>"

definition take_body :: "Block \<Rightarrow> BlockBody option \<times> Block" where
  "take_body blk = (bk_body blk, blk\<lparr>bk_body := None\<rparr>)"

subsection \<open>Merkle commitments\<close>

definition merkle_node :: "'e externals_scheme \<Rightarrow> hash \<Rightarrow> hash \<Rightarrow> hash" where
  "merkle_node x l r = keccak256 x (be_bytes l @ be_bytes r)"

text \<open>One pass of the outer loop: neighbours are hashed in pairs, a last node without a neighbour
  with itself.\<close>

fun merkle_level :: "'e externals_scheme \<Rightarrow> hash list \<Rightarrow> hash list" where
  "merkle_level x (l # r # rest) = merkle_node x l r # merkle_level x rest"
| "merkle_level x [l] = [merkle_node x l l]"
| "merkle_level x [] = []"

lemma length_merkle_level: "length (merkle_level x hs) = (length hs + 1) div 2"
  by (induction x hs rule: merkle_level.induct) auto

function merkle_loop :: "'e externals_scheme \<Rightarrow> hash list \<Rightarrow> hash" where
  "merkle_loop x level = (if 1 < length level then merkle_loop x (merkle_level x level) else level ! 0)"
  by pat_completeness auto

termination
  by (relation "measure (\<lambda>(_, level). length level)") (auto simp: length_merkle_level)

declare merkle_loop.simps [simp del]

definition compute_merkle_root :: "'e externals_scheme \<Rightarrow> hash list \<Rightarrow> hash" where
  "compute_merkle_root x hashes =
     (if hashes = [] then 0
      else if length hashes = 1 then hashes ! 0
      else merkle_loop x hashes)"

definition commitment_leaf_hash :: "'e externals_scheme \<Rightarrow> string \<Rightarrow> u8 list \<Rightarrow> hash" where
  "commitment_leaf_hash x domain serialized = keccak256 x (str_bytes domain @ serialized)"

definition compute_transactions_root :: "block_externals \<Rightarrow> ComputeTx list \<Rightarrow> hash" where
  "compute_transactions_root x txs =
     compute_merkle_root x
       (map (\<lambda>tx. commitment_leaf_hash x ''RABBIT-BLOCK-TX-V1'' (bincode_tx x tx)) txs)"

definition compute_receipts_root :: "block_externals \<Rightarrow> Receipt list \<Rightarrow> hash" where
  "compute_receipts_root x rs =
     compute_merkle_root x
       (map (\<lambda>r. commitment_leaf_hash x ''RABBIT-BLOCK-RECEIPT-V1''
          (bincode_receipt x (r\<lparr>rc_block_hash := 0\<rparr>))) rs)"

definition commitment_roots :: "block_externals \<Rightarrow> BlockBody \<Rightarrow> BlockBodyRoots" where
  "commitment_roots x b =
     \<lparr>roots_transactions = compute_transactions_root x (bd_transactions b),
      roots_receipts = compute_receipts_root x (bd_receipts b)\<rparr>"

definition validate_against_header :: "block_externals \<Rightarrow> BlockBody \<Rightarrow> BlockHeader \<Rightarrow> BlockError + unit" where
  "validate_against_header x b h =
     (if length (bd_transactions b) \<noteq> length (bd_receipts b) then Inl InvalidBlockBody
      else and_then
        (for_each (\<lambda>(tx, r).
            if tx_id tx \<noteq> rc_tx_id r \<or> rc_block_hash r \<noteq> h_hash h then Inl InvalidBlockBody else Inr ())
          (zip (bd_transactions b) (bd_receipts b)))
        (\<lambda>_. let roots = commitment_roots x b in
          if h_transactions_root h \<noteq> roots_transactions roots then Inl InvalidTransactionRoot
          else if h_receipts_root h \<noteq> roots_receipts roots then Inl InvalidReceiptsRoot
          else Inr ()))"

subsection \<open>Headers\<close>

definition encode_canonical_hash_preimage :: "BlockHeader \<Rightarrow> u8 list" where
  "encode_canonical_hash_preimage h =
     be_bytes (h_version h) @ be_bytes (h_parent_hash h) @
     be_bytes (word_of_nat (length (h_uncle_hashes h)) :: u64) @
     concat (map be_bytes (h_uncle_hashes h)) @
     be_bytes (h_coinbase h) @ be_bytes (h_state_root h) @ be_bytes (h_transactions_root h) @
     be_bytes (h_receipts_root h) @ h_number h @ be_bytes (h_gas_limit h) @
     be_bytes (h_gas_used h) @ be_bytes (h_timestamp h) @ h_difficulty h @ be_bytes (h_nonce h) @
     be_bytes (word_of_nat (length (h_extra_data h)) :: u64) @ h_extra_data h @
     be_bytes (h_mix_hash h) @ h_base_fee_per_gas h"

definition compute_hash :: "'e externals_scheme \<Rightarrow> BlockHeader \<Rightarrow> hash" where
  "compute_hash x h = keccak256 x (encode_canonical_hash_preimage h)"

definition canonical_hash :: "'e externals_scheme \<Rightarrow> BlockHeader \<Rightarrow> hash" where
  "canonical_hash x h = compute_hash x h"

definition seal_hash :: "'e externals_scheme \<Rightarrow> BlockHeader \<Rightarrow> BlockHeader" where
  "seal_hash x h = h\<lparr>h_hash := compute_hash x h\<rparr>"

definition header_validate :: "'e externals_scheme \<Rightarrow> BlockHeader \<Rightarrow> BlockHeader \<Rightarrow> BlockError + unit" where
  "header_validate x h parent =
     (let parent_hash = (if h_hash parent = 0 then canonical_hash x parent else h_hash parent) in
      if h_parent_hash h \<noteq> parent_hash then Inl InvalidParentHash
      else if h_number h \<noteq> u256_add (h_number parent) u256_one then Inl InvalidBlockNumber
      else if h_timestamp h \<le> h_timestamp parent then Inl InvalidTimestamp
      else if 32 < length (h_extra_data h) then Inl ExtraDataTooLarge
      else Inr ())"

definition apply_body_commitments :: "block_externals \<Rightarrow> BlockHeader \<Rightarrow> BlockBody \<Rightarrow> BlockHeader" where
  "apply_body_commitments x h b =
     (let roots = commitment_roots x b
      in h\<lparr>h_transactions_root := roots_transactions roots, h_receipts_root := roots_receipts roots\<rparr>)"

definition reconcile_body_commitments ::
    "block_externals \<Rightarrow> BlockHeader \<Rightarrow> BlockBody \<Rightarrow> BlockError + BlockHeader" where
  "reconcile_body_commitments x h b =
     (let roots = commitment_roots x b in
      if h_transactions_root h \<noteq> 0 \<and> h_transactions_root h \<noteq> roots_transactions roots
      then Inl InvalidTransactionRoot
      else if h_receipts_root h \<noteq> 0 \<and> h_receipts_root h \<noteq> roots_receipts roots
      then Inl InvalidReceiptsRoot
      else Inr (apply_body_commitments x h b))"

definition new_with_body :: "block_externals \<Rightarrow> BlockHeader \<Rightarrow> BlockBody \<Rightarrow> Block" where
  "new_with_body x h b =
     (let h = apply_body_commitments x h b; h = h\<lparr>h_hash := compute_hash x h\<rparr>
      in \<lparr>bk_header = h, bk_body = Some b, bk_uncles = []\<rparr>)"

definition create_genesis_block :: "'e externals_scheme \<Rightarrow> Block" where
  "create_genesis_block x =
     (let header =
        \<lparr>h_version = CANONICAL_BLOCK_VERSION, h_parent_hash = 0, h_uncle_hashes = [], h_coinbase = 0,
         h_state_root = 0, h_transactions_root = 0, h_receipts_root = 0, h_number = u256_zero,
         h_gas_limit = 30000000, h_gas_used = 0, h_timestamp = 0, h_difficulty = u256_zero,
         h_nonce = 0, h_extra_data = str_bytes ''RabbitChain Genesis'', h_mix_hash = 0,
         h_base_fee_per_gas = u256_from INITIAL_BASE_FEE, h_hash = 0\<rparr>;
          header = header\<lparr>h_hash := compute_hash x header\<rparr>
      in with_body (block_new header) body_empty)"

subsection \<open>Difficulty\<close>

text \<open>\<open>Ord::clamp\<close> panics when the bounds are in the wrong order.\<close>

definition rust_clamp :: "u128 \<Rightarrow> u128 \<Rightarrow> u128 \<Rightarrow> u128 option" where
  "rust_clamp lo hi v = (if lo \<le> hi then Some (clamp lo hi v) else None)"

definition adjust_mining_difficulty ::
    "U256 \<Rightarrow> u128 \<Rightarrow> u64 \<Rightarrow> u128 \<Rightarrow> u128 \<Rightarrow> u128 \<Rightarrow> U256 option" where
  "adjust_mining_difficulty parent_difficulty observed_secs target_secs min_d max_d threshold_d =
     Option.bind (rust_clamp min_d max_d (max (as_u128 parent_difficulty) min_d)) (\<lambda>parent.
     let observed = max observed_secs 1;
         target = ucast (max target_secs 1) :: u128 in
     Option.bind (rust_clamp min_d max_d (saturating_mul parent target div observed)) (\<lambda>candidate.
     let step_bps = (if parent < threshold_d then DIFFICULTY_BOOTSTRAP_STEP_BPS
                     else DIFFICULTY_MAX_STEP_BPS);
         step = max (saturating_mul parent step_bps div 10000) 1;
         min_next = max (saturating_sub parent step) min_d;
         max_next = min (Prelude.saturating_add parent step) max_d in
     map_option u256_from_u128 (rust_clamp min_next max_next candidate)))"

definition block_interval :: "BlockHeader \<times> BlockHeader \<Rightarrow> u128" where
  "block_interval p =
     ucast (max (saturating_sub (h_timestamp (snd p)) (h_timestamp (fst p))) 1)"

definition ema_step :: "u128 \<Rightarrow> u128 option \<Rightarrow> u128 option" where
  "ema_step interval acc =
     Some (case acc of
        None \<Rightarrow> interval
      | Some previous \<Rightarrow>
          (previous * (DIFFICULTY_INTERVAL_EMA_WEIGHT - 1) + interval) div DIFFICULTY_INTERVAL_EMA_WEIGHT)"

definition smoothed_recent_block_interval :: "BlockHeader list \<Rightarrow> u128 option" where
  "smoothed_recent_block_interval headers =
     (let window_len = min (length headers) DIFFICULTY_WINDOW_BLOCKS in
      if window_len < 2 then None
      else
        let window = drop (length headers - window_len) headers
        in map_option (\<lambda>i. max i 1) (fold ema_step (map block_interval (zip window (tl window))) None))"

definition calculate_windowed_mining_difficulty :: "BlockHeader list \<Rightarrow> U256 option" where
  "calculate_windowed_mining_difficulty headers =
     (if headers = [] then Some (u256_from_u128 BASE_MINING_DIFFICULTY)
      else
        let observed = (case smoothed_recent_block_interval headers of
            Some i \<Rightarrow> i
          | None \<Rightarrow> ucast (max TARGET_BLOCK_INTERVAL_SECS 1))
        in adjust_mining_difficulty (h_difficulty (last headers)) observed TARGET_BLOCK_INTERVAL_SECS
             MIN_MINING_DIFFICULTY MAX_MINING_DIFFICULTY DIFFICULTY_BOOTSTRAP_THRESHOLD)"

subsection \<open>Proof of work\<close>

definition max_pow_target :: "U256 option" where
  "max_pow_target = from_big_endian (replicate 32 0xFF)"

fun target_loop :: "nat \<Rightarrow> u128 \<Rightarrow> u128 \<Rightarrow> u8 list" where
  "target_loop 0 divisor remainder = []"
| "target_loop (Suc n) divisor remainder =
     (let value = remainder * 256 + 0xFF
      in ucast (min (value div divisor) 0xFF) # target_loop n divisor (value mod divisor))"

definition pow_target_from_difficulty :: "U256 \<Rightarrow> U256 option" where
  "pow_target_from_difficulty difficulty =
     (if u256_is_zero difficulty then max_pow_target
      else
        let divisor = as_u128 difficulty in
        if divisor = 0 then Some u256_zero
        else if drop_bit 8 (- 1) < divisor then Some u256_zero
        else from_big_endian (target_loop 32 divisor 0))"

definition pow_hash_meets_target :: "u8 list \<Rightarrow> U256 \<Rightarrow> bool option" where
  "pow_hash_meets_target pow_hash target =
     map_option (\<lambda>h. \<not> u256_less target h) (from_big_endian pow_hash)"

definition pow_target_to_hex :: "'e externals_scheme \<Rightarrow> U256 \<Rightarrow> string" where
  "pow_target_to_hex x target = ''0x'' @ hex_encode x target"

fun strip_0x :: "string \<Rightarrow> string" where
  "strip_0x (a # b # rest) = (if a = CHR ''0'' \<and> b = CHR ''x'' then rest else a # b # rest)"
| "strip_0x s = s"

definition pow_target_from_hex :: "'e externals_scheme \<Rightarrow> string \<Rightarrow> (string + U256) option" where
  "pow_target_from_hex x input =
     (case hex_decode x (strip_0x input) of
        Inl err \<Rightarrow> Some (Inl (''invalid pow target hex: '' @ err))
      | Inr decoded \<Rightarrow>
          if length decoded \<noteq> 32
          then Some (Inl (''pow target must decode to 32 bytes, got '' @ show_nat (length decoded)))
          else map_option Inr (from_big_endian decoded))"

definition POW_DOMAIN_TAG :: "u8 list" where
  "POW_DOMAIN_TAG = str_bytes ''RABBIT-POW-V1''"

definition compute_pow_hash :: "block_externals \<Rightarrow> BlockHeader \<Rightarrow> u64 \<Rightarrow> hash" where
  "compute_pow_hash x header nonce =
     (let sealed = header\<lparr>h_nonce := nonce, h_mix_hash := 0\<rparr>
      in sha256 x (be_bytes (sha256 x (POW_DOMAIN_TAG @ encode_canonical_hash_preimage sealed))))"

definition verify_pow :: "block_externals \<Rightarrow> BlockHeader \<Rightarrow> (BlockError + unit) option" where
  "verify_pow x h =
     (if u256_is_zero (h_number h) then Some (Inr ())
      else if u256_is_zero (h_difficulty h) then Some (Inl InvalidDifficulty)
      else
        Option.bind (pow_target_from_difficulty (h_difficulty h)) (\<lambda>target.
        map_option (\<lambda>meets. if \<not> meets then Inl InvalidPow else Inr ())
          (pow_hash_meets_target (be_bytes (compute_pow_hash x h (h_nonce h))) target)))"


subsection \<open>The header bytes determine the header\<close>

definition header_wf :: "BlockHeader \<Rightarrow> bool" where
  "header_wf h \<longleftrightarrow> u256_wf (h_number h) \<and> u256_wf (h_difficulty h) \<and> u256_wf (h_base_fee_per_gas h) \<and>
     length (h_uncle_hashes h) < 2 ^ 64 \<and> length (h_extra_data h) < 2 ^ 64"

lemma length64_inj: "m < 2 ^ 64 \<Longrightarrow> n < 2 ^ 64 \<Longrightarrow> (word_of_nat m :: u64) = word_of_nat n \<longleftrightarrow> m = n"
  by (simp add: word_unat_eq_iff unat_of_nat)

lemma fixed_append: "length a = length b \<Longrightarrow> a @ r = b @ s \<longleftrightarrow> a = b \<and> r = s"
  by simp

lemma hash_vector_append:
  fixes xs ys :: "hash list"
  assumes "length xs = length ys"
  shows "concat (map be_bytes xs) @ r = concat (map be_bytes ys) @ s \<longleftrightarrow> xs = ys \<and> r = s"
  using prefix_code_concat [OF prefix_code_total, of be_bytes xs ys r s] assms
  by (auto simp: code_inj)

text \<open>Two headers with the same canonical bytes agree on every field but the cached hash.\<close>

theorem header_preimage_binds:
  assumes "header_wf h" "header_wf k" "encode_canonical_hash_preimage h = encode_canonical_hash_preimage k"
  shows "h\<lparr>h_hash := 0\<rparr> = k\<lparr>h_hash := 0\<rparr>"
proof -
  have l: "length (h_number h) = length (h_number k)" "length (h_difficulty h) = length (h_difficulty k)"
    "length (h_base_fee_per_gas h) = length (h_base_fee_per_gas k)"
    using assms(1,2) by (simp_all add: header_wf_def u256_wf_def)
  have w: "length (h_uncle_hashes h) < 2 ^ 64" "length (h_uncle_hashes k) < 2 ^ 64"
    "length (h_extra_data h) < 2 ^ 64" "length (h_extra_data k) < 2 ^ 64"
    using assms(1,2) by (simp_all only: header_wf_def)
  note eq = assms(3) [unfolded encode_canonical_hash_preimage_def]
  from eq have u: "h_uncle_hashes h = h_uncle_hashes k"
    by (simp only: code_inj length64_inj [OF w(1,2)] append_assoc) (blast dest: hash_vector_append [THEN iffD1, rotated])
  from eq have "h_version h = h_version k \<and> h_parent_hash h = h_parent_hash k \<and> h_coinbase h = h_coinbase k \<and>
      h_state_root h = h_state_root k \<and> h_transactions_root h = h_transactions_root k \<and>
      h_receipts_root h = h_receipts_root k \<and> h_number h = h_number k \<and> h_gas_limit h = h_gas_limit k \<and>
      h_gas_used h = h_gas_used k \<and> h_timestamp h = h_timestamp k \<and> h_difficulty h = h_difficulty k \<and>
      h_nonce h = h_nonce k \<and> h_extra_data h = h_extra_data k \<and> h_mix_hash h = h_mix_hash k \<and>
      h_base_fee_per_gas h = h_base_fee_per_gas k"
    unfolding u
    by (simp only: code_inj length64_inj [OF w(3,4)] append_assoc same_append_eq
        fixed_append [OF l(1)] fixed_append [OF l(2)])
       (elim conjE, simp only: fixed_append code_inj)
  with u show ?thesis by simp
qed


definition sample_header :: BlockHeader where
  "sample_header = bk_header (create_genesis_block sample_externals)"

lemma sample_header_wf: "header_wf sample_header"
  by (simp add: sample_header_def create_genesis_block_def with_body_def block_new_def header_wf_def Let_def)

lemma header_preimage_binds_witness:
  "sample_header\<lparr>h_hash := 7\<rparr>\<lparr>h_hash := 0\<rparr> = sample_header\<lparr>h_hash := 0\<rparr>"
proof (rule header_preimage_binds)
  show "header_wf (sample_header\<lparr>h_hash := 7\<rparr>)" "header_wf sample_header"
    using sample_header_wf by (simp_all add: header_wf_def)
qed (simp add: encode_canonical_hash_preimage_def)

subsection \<open>Merkle roots\<close>

text \<open>The inputs Keccak is given while a root is computed.\<close>

fun level_inputs :: "hash list \<Rightarrow> u8 list list" where
  "level_inputs (l # r # rest) = (be_bytes l @ be_bytes r) # level_inputs rest"
| "level_inputs [l] = [be_bytes l @ be_bytes l]"
| "level_inputs [] = []"

function merkle_inputs :: "'e externals_scheme \<Rightarrow> hash list \<Rightarrow> u8 list list" where
  "merkle_inputs x level =
     (if 1 < length level then level_inputs level @ merkle_inputs x (merkle_level x level) else [])"
  by pat_completeness auto

termination
  by (relation "measure (\<lambda>(_, level). length level)") (auto simp: length_merkle_level)

declare merkle_inputs.simps [simp del]

lemma hash_pair_inj: "be_bytes (a :: hash) @ be_bytes (b :: hash) = be_bytes c @ be_bytes d \<longleftrightarrow> a = c \<and> b = d"
  by (simp add: append_eq_append_conv be_bytes_inj)

lemma merkle_node_inj:
  assumes "inj_on (keccak256 x) S" "be_bytes a @ be_bytes b \<in> S" "be_bytes c @ be_bytes d \<in> S"
    and "merkle_node x a b = merkle_node x c d"
  shows "a = c \<and> b = d"
  using inj_onD [OF assms(1) _ assms(2,3)] assms(4) by (simp only: merkle_node_def hash_pair_inj)

lemma merkle_level_inj:
  assumes "inj_on (keccak256 x) S" "set (level_inputs xs) \<subseteq> S" "set (level_inputs ys) \<subseteq> S"
    and "length xs = length ys" "merkle_level x xs = merkle_level x ys"
  shows "xs = ys"
  using assms(2-)
proof (induction xs arbitrary: ys rule: induct_list012)
  case (2 a)
  then obtain b where ys: "ys = [b]" by (cases ys) auto
  with 2 have "a = b \<and> a = b" by (intro merkle_node_inj [OF assms(1)]) simp_all
  with ys show ?case by simp
next
  case (3 a b zs)
  then obtain c d ws where ys: "ys = c # d # ws" by (cases ys; cases "tl ys") auto
  from 3 ys have "a = c \<and> b = d" by (intro merkle_node_inj [OF assms(1)]) simp_all
  moreover from 3 ys have "zs = ws" by (intro "3.IH"(1)) simp_all
  ultimately show ?case by (simp add: ys)
qed simp

lemma merkle_step:
  assumes "1 < length xs"
  shows "merkle_inputs x xs = level_inputs xs @ merkle_inputs x (merkle_level x xs)"
    "merkle_loop x xs = merkle_loop x (merkle_level x xs)" "length (merkle_level x xs) < length xs"
    "merkle_level x xs \<noteq> []"
  using assms length_merkle_level [of x xs]
  by (simp_all add: merkle_inputs.simps [of x xs] merkle_loop.simps [of x xs] flip: length_0_conv)

lemma merkle_loop_inj:
  assumes "inj_on (keccak256 x) S"
  shows "set (merkle_inputs x xs) \<subseteq> S \<Longrightarrow> set (merkle_inputs x ys) \<subseteq> S \<Longrightarrow>
    length xs = length ys \<Longrightarrow> xs \<noteq> [] \<Longrightarrow> merkle_loop x xs = merkle_loop x ys \<Longrightarrow> xs = ys"
proof (induction "length xs" arbitrary: xs ys rule: less_induct)
  case less
  show ?case
  proof (cases "1 < length xs")
    case True
    then have y: "1 < length ys" using less.prems(3) by simp
    note stepx = merkle_step [OF True, of x] and stepy = merkle_step [OF y, of x]
    have "merkle_level x xs = merkle_level x ys"
    proof (rule less.hyps [OF stepx(3)])
      show "set (merkle_inputs x (merkle_level x xs)) \<subseteq> S" using less.prems(1) by (simp add: stepx(1))
      show "set (merkle_inputs x (merkle_level x ys)) \<subseteq> S" using less.prems(2) by (simp add: stepy(1))
      show "length (merkle_level x xs) = length (merkle_level x ys)"
        using less.prems(3) by (simp add: length_merkle_level)
      show "merkle_loop x (merkle_level x xs) = merkle_loop x (merkle_level x ys)"
        using less.prems(5) unfolding stepx(2) stepy(2) .
    qed (rule stepx(4))
    moreover have "set (level_inputs xs) \<subseteq> S" "set (level_inputs ys) \<subseteq> S"
      using less.prems(1,2) by (simp_all add: stepx(1) stepy(1))
    ultimately show ?thesis using merkle_level_inj [OF assms] less.prems(3) by blast
  next
    case False
    with less.prems(3,4) obtain a b where "xs = [a]" "ys = [b]"
      by (cases xs; cases ys) auto
    with less.prems(5) show ?thesis by (simp add: merkle_loop.simps)
  qed
qed

lemma compute_merkle_root_loop: "xs \<noteq> [] \<Longrightarrow> compute_merkle_root x xs = merkle_loop x xs"
  by (simp add: compute_merkle_root_def merkle_loop.simps [of x xs])

text \<open>C39: A Merkle root binds the leaves of a list of known length, unless two of the inputs hashed
  for the two roots collide under Keccak.\<close>

theorem merkle_root_binds:
  assumes "length xs = length ys" "compute_merkle_root x xs = compute_merkle_root x ys"
    and "inj_on (keccak256 x) (set (merkle_inputs x xs) \<union> set (merkle_inputs x ys))"
  shows "xs = ys"
proof (cases "xs = []")
  case False
  moreover from this have "ys \<noteq> []" using assms(1) by auto
  ultimately show ?thesis
    using assms(1,2) by (intro merkle_loop_inj [OF assms(3)]) (simp_all add: compute_merkle_root_loop)
qed (use assms(1) in simp)

lemma merkle_root_binds_witness:
  "compute_merkle_root (sample_externals\<lparr>keccak256 := \<lambda>bs. word_of_nat (be_value bs)\<rparr>) [1, 2] \<noteq>
   compute_merkle_root (sample_externals\<lparr>keccak256 := \<lambda>bs. word_of_nat (be_value bs)\<rparr>) [1, 3]"
    (is "compute_merkle_root ?x ?a \<noteq> compute_merkle_root ?x ?b")
proof
  assume eq: "compute_merkle_root ?x ?a = compute_merkle_root ?x ?b"
  have i: "merkle_inputs ?x [1, a] = [be_bytes (1 :: hash) @ be_bytes a]" for a
    by (simp add: merkle_inputs.simps)
  have v: "keccak256 ?x (be_bytes (1 :: hash) @ be_bytes a) = a" for a :: hash
  proof -
    have "be_value (be_bytes (1 :: hash) @ be_bytes a) = 2 ^ 256 + unat a"
      by (simp add: be_value_append be_value_be_bytes)
    moreover have "unat (word_of_nat (2 ^ 256 + unat a) :: hash) = unat a"
      using unat_word_less [of a] by (simp only: unat_of_nat) simp
    ultimately show ?thesis by (simp only: word_unat_eq_iff) simp
  qed
  have "inj_on (keccak256 ?x) (set (merkle_inputs ?x ?a) \<union> set (merkle_inputs ?x ?b))"
    unfolding i by (intro inj_onI) (auto simp only: list.set insert_iff empty_iff Un_iff v)
  from merkle_root_binds [OF _ eq this] have "?a = ?b" by simp
  then show False by simp
qed

text \<open>A last node without a neighbour is hashed with itself, so repeating it changes nothing.\<close>

lemma merkle_level_repeat: "odd (length xs) \<Longrightarrow> merkle_level x (xs @ [last xs]) = merkle_level x xs"
  by (induction xs rule: induct_list012) auto

lemma merkle_root_repeat:
  assumes "odd (length xs)" "1 < length xs"
  shows "compute_merkle_root x (xs @ [last xs]) = compute_merkle_root x xs"
proof -
  have "xs \<noteq> []" using assms(2) by auto
  with assms merkle_level_repeat [OF assms(1), of x] show ?thesis
    by (simp add: compute_merkle_root_loop merkle_loop.simps [of x "xs @ [last xs]"] merkle_loop.simps [of x xs])
qed


subsection \<open>Bodies against headers\<close>

lemma validate_against_header_Inr [result_simps]:
  "validate_against_header x b h = Inr () \<longleftrightarrow>
     length (bd_transactions b) = length (bd_receipts b) \<and>
     (\<forall>(tx, r) \<in> set (zip (bd_transactions b) (bd_receipts b)). tx_id tx = rc_tx_id r \<and> rc_block_hash r = h_hash h) \<and>
     h_transactions_root h = compute_transactions_root x (bd_transactions b) \<and>
     h_receipts_root h = compute_receipts_root x (bd_receipts b)"
  by (auto simp: validate_against_header_def result_simps commitment_roots_def Let_def split: if_splits)

text \<open>Repeating the last transaction and its receipt.\<close>

definition repeat_last :: "BlockBody \<Rightarrow> BlockBody" where
  "repeat_last b = b\<lparr>bd_transactions := bd_transactions b @ [last (bd_transactions b)],
     bd_receipts := bd_receipts b @ [last (bd_receipts b)]\<rparr>"

lemma roots_repeat:
  "odd (length txs) \<Longrightarrow> 1 < length txs \<Longrightarrow>
    compute_transactions_root x (txs @ [last txs]) = compute_transactions_root x txs"
  "odd (length rs) \<Longrightarrow> 1 < length rs \<Longrightarrow>
    compute_receipts_root x (rs @ [last rs]) = compute_receipts_root x rs"
proof -
  have l: "xs \<noteq> []" if "1 < length xs" for xs :: "'z list" using that by auto
  show "odd (length txs) \<Longrightarrow> 1 < length txs \<Longrightarrow>
    compute_transactions_root x (txs @ [last txs]) = compute_transactions_root x txs"
    using merkle_root_repeat [of "map f txs" x for f]
    by (simp add: compute_transactions_root_def last_map l)
  show "odd (length rs) \<Longrightarrow> 1 < length rs \<Longrightarrow>
    compute_receipts_root x (rs @ [last rs]) = compute_receipts_root x rs"
    using merkle_root_repeat [of "map f rs" x for f]
    by (simp add: compute_receipts_root_def last_map l)
qed

text \<open>The roots do not determine the body: if a body with an odd number of at least three
  transactions is valid for a header, so is the body that executes the last transaction twice.\<close>

theorem body_with_repeated_tx_is_valid:
  assumes "validate_against_header x b h = Inr ()" "odd (length (bd_transactions b))"
    "1 < length (bd_transactions b)"
  shows "validate_against_header x (repeat_last b) h = Inr () \<and> repeat_last b \<noteq> b"
proof -
  from assms(1) [unfolded validate_against_header_Inr] have v: "length (bd_transactions b) = length (bd_receipts b)"
    "\<forall>(tx, r) \<in> set (zip (bd_transactions b) (bd_receipts b)). tx_id tx = rc_tx_id r \<and> rc_block_hash r = h_hash h"
    "h_transactions_root h = compute_transactions_root x (bd_transactions b)"
    "h_receipts_root h = compute_receipts_root x (bd_receipts b)"
    by blast+
  have "(last (bd_transactions b), last (bd_receipts b)) = last (zip (bd_transactions b) (bd_receipts b))"
    using v(1) assms(3) by (intro last_zip [symmetric]) auto
  also have "\<dots> \<in> set (zip (bd_transactions b) (bd_receipts b))"
    using v(1) assms(3) by (intro last_in_set) auto
  finally show ?thesis
    using v assms(2,3) by (auto simp: result_simps repeat_last_def roots_repeat dest: arg_cong [of _ _ bd_transactions])
qed

definition sample_block_externals :: block_externals where
  "sample_block_externals = externals.extend sample_externals
     \<lparr>sha256 = \<lambda>_. 0, bincode_tx = \<lambda>_. [], bincode_receipt = \<lambda>_. []\<rparr>"

lemma sample_keccak [simp]: "keccak256 sample_block_externals bs = 5"
  by (simp add: sample_block_externals_def sample_externals_def externals.defs)

definition sample_body :: BlockBody where
  "sample_body = body_new [sample_tx, sample_tx, sample_tx] (replicate 3 (receipt_failed (TxId 0) 5 ''''))"

definition sample_committed_header :: BlockHeader where
  "sample_committed_header = apply_body_commitments sample_block_externals (sample_header\<lparr>h_hash := 5\<rparr>) sample_body"

lemma body_with_repeated_tx_is_valid_witness:
  "validate_against_header sample_block_externals (repeat_last sample_body) sample_committed_header = Inr ()"
proof -
  have "validate_against_header sample_block_externals sample_body sample_committed_header = Inr ()"
    by (simp add: result_simps sample_body_def body_new_def sample_committed_header_def receipt_failed_def
        apply_body_commitments_def commitment_roots_def sample_tx_def eval_nat_numeral)
  then show ?thesis
    by (rule body_with_repeated_tx_is_valid [THEN conjunct1]) (simp_all add: sample_body_def body_new_def)
qed

text \<open>Stamping receipts with a block hash leaves their root alone.\<close>

lemma receipts_root_stamp:
  "compute_receipts_root x (map (\<lambda>r. r\<lparr>rc_block_hash := k\<rparr>) rs) = compute_receipts_root x rs"
  by (simp add: compute_receipts_root_def comp_def)

definition stamp_receipts :: "hash \<Rightarrow> BlockBody \<Rightarrow> BlockBody" where
  "stamp_receipts k b = b\<lparr>bd_receipts := map (\<lambda>r. r\<lparr>rc_block_hash := k\<rparr>) (bd_receipts b)\<rparr>"

text \<open>A block built from a body whose receipts name its transactions in order accepts that body
  once its receipts carry the hash of the finished header: the commitment is not circular.\<close>

theorem new_with_body_accepts_body:
  assumes "map tx_id (bd_transactions b) = map rc_tx_id (bd_receipts b)"
  shows "let hd = bk_header (new_with_body x h b)
    in validate_against_header x (stamp_receipts (h_hash hd) b) hd = Inr () \<and> h_hash hd = canonical_hash x hd"
proof -
  have l: "length (bd_transactions b) = length (bd_receipts b)"
    using arg_cong [OF assms, of length] by simp
  have "tx_id t = rc_tx_id r" if "(t, r) \<in> set (zip (bd_transactions b) (bd_receipts b))" for t r
  proof -
    from that obtain n where n: "t = bd_transactions b ! n" "r = bd_receipts b ! n" "n < length (bd_receipts b)"
      by (auto simp: in_set_zip)
    then have "map tx_id (bd_transactions b) ! n = map rc_tx_id (bd_receipts b) ! n" by (simp only: assms)
    with n l show ?thesis by simp
  qed
  then show ?thesis
    using l by (auto simp: result_simps stamp_receipts_def new_with_body_def apply_body_commitments_def
        commitment_roots_def Let_def receipts_root_stamp canonical_hash_def compute_hash_def
        encode_canonical_hash_preimage_def zip_map2)
qed


lemma new_with_body_accepts_body_witness:
  "let hd = bk_header (new_with_body sample_block_externals sample_header sample_body)
   in validate_against_header sample_block_externals (stamp_receipts (h_hash hd) sample_body) hd = Inr () \<and>
      h_hash hd = canonical_hash sample_block_externals hd"
  by (rule new_with_body_accepts_body)
     (simp add: sample_body_def body_new_def sample_tx_def receipt_failed_def eval_nat_numeral)

subsection \<open>Difficulty stays within its bounds and moves in steps\<close>

lemma rust_clamp_Some: "lo \<le> hi \<Longrightarrow> rust_clamp lo hi v = Some (clamp lo hi v)"
  by (simp add: rust_clamp_def)

lemma unat_clamp: "unat (clamp lo hi v) = clamp (unat lo) (unat hi) (unat v)"
  by (simp add: clamp_def word_less_nat_alt)

lemma clamp_max: "lo \<le> hi \<Longrightarrow> clamp lo hi (max v lo) = clamp lo hi v"
  by (auto simp: clamp_def max_def)

lemma unat_max: "unat (max a b) = max (unat a) (unat b)"
  by (simp add: max_def word_le_nat_alt)

lemma unat_min: "unat (min a b) = min (unat a) (unat b)"
  by (simp add: min_def word_le_nat_alt)

text \<open>The controller on natural numbers, for a parent difficulty already within the bounds.\<close>

definition cap128 :: "nat \<Rightarrow> nat" where
  "cap128 n = min n (2 ^ 128 - 1)"

definition difficulty_step :: "nat \<Rightarrow> nat \<Rightarrow> nat" where
  "difficulty_step threshold_d parent =
     max 1 (cap128 (parent * (if parent < threshold_d then 40000 else 2500)) div 10000)"

definition next_difficulty :: "nat \<Rightarrow> nat \<Rightarrow> nat \<Rightarrow> nat \<Rightarrow> nat \<Rightarrow> nat \<Rightarrow> nat" where
  "next_difficulty min_d max_d threshold_d target observed parent =
     (let s = difficulty_step threshold_d parent in
      clamp (max min_d (parent - s)) (min max_d (cap128 (parent + s)))
        (clamp min_d max_d (cap128 (parent * max 1 target) div max 1 observed)))"

lemma step_bounds:
  fixes p s :: u128
  assumes "lo \<le> p" "p \<le> hi"
  shows "max (saturating_sub p s) lo \<le> min (Prelude.saturating_add p s) hi"
proof -
  have "unat p \<le> 2 ^ 128 - 1" using unat_le_max [of p] by simp
  then have "saturating_sub p s \<le> p" "p \<le> Prelude.saturating_add p s"
    by (simp_all add: word_le_nat_alt unat_saturating_sub unat_saturating_add)
  with assms show ?thesis by auto
qed

lemma adjust_mining_difficulty_spec:
  assumes "min_d \<le> max_d"
  shows "\<exists>d. adjust_mining_difficulty pd obs tgt min_d max_d thr = Some (u256_from_u128 d) \<and>
    unat d = next_difficulty (unat min_d) (unat max_d) (unat thr) (unat tgt) (unat obs)
      (clamp (unat min_d) (unat max_d) (unat (as_u128 pd)))"
proof -
  define p where "p = clamp min_d max_d (max (as_u128 pd) min_d)"
  define s where "s = max (saturating_mul p (if p < thr then DIFFICULTY_BOOTSTRAP_STEP_BPS
    else DIFFICULTY_MAX_STEP_BPS) div 10000) 1"
  define c where "c = clamp min_d max_d (saturating_mul p (ucast (max tgt 1)) div max obs 1)"
  define d where "d = clamp (max (saturating_sub p s) min_d) (min (Prelude.saturating_add p s) max_d) c"
  have p: "unat p = clamp (unat min_d) (unat max_d) (unat (as_u128 pd))"
    using assms by (simp add: p_def clamp_max unat_clamp)
  have P: "min_d \<le> p" "p \<le> max_d" using assms by (simp_all add: p_def)
  have k: "unat (if p < thr then DIFFICULTY_BOOTSTRAP_STEP_BPS else DIFFICULTY_MAX_STEP_BPS)
      = (if unat p < unat thr then 40000 else 2500)"
    by (simp add: word_less_nat_alt difficulty_constants)
  have s: "unat s = difficulty_step (unat thr) (unat p)"
    unfolding s_def difficulty_step_def cap128_def unat_max unat_div unat_saturating_mul k
    by (simp add: max.commute)
  have t: "unat (ucast (max tgt 1) :: u128) = max 1 (unat tgt)"
    using unat_word_less [of tgt]
    by (simp add: unsigned_ucast_eq take_bit_nat_eq_self unat_max max.commute)
  have c: "unat c = clamp (unat min_d) (unat max_d) (cap128 (unat p * max 1 (unat tgt)) div max 1 (unat obs))"
    unfolding c_def unat_clamp unat_div unat_max unat_saturating_mul t cap128_def
    by (simp add: max.commute)
  have "unat d = next_difficulty (unat min_d) (unat max_d) (unat thr) (unat tgt) (unat obs) (unat p)"
    unfolding d_def unat_clamp unat_max unat_min unat_saturating_sub unat_saturating_add c s
      next_difficulty_def Let_def cap128_def
    by (simp add: max.commute min.commute)
  moreover have "adjust_mining_difficulty pd obs tgt min_d max_d thr = Some (u256_from_u128 d)"
    unfolding adjust_mining_difficulty_def rust_clamp_Some [OF assms] Option.bind.simps Let_def
      p_def [symmetric] c_def [symmetric] s_def [symmetric] rust_clamp_Some [OF step_bounds [OF P]]
      d_def [symmetric] by (simp only: option.map)
  ultimately show ?thesis unfolding p by blast
qed

subsection \<open>What the controller guarantees\<close>

lemma next_difficulty_bounds:
  assumes "lo \<le> parent" "parent \<le> hi" "hi < 2 ^ 128"
  shows "lo \<le> next_difficulty lo hi thr target observed parent"
    "next_difficulty lo hi thr target observed parent \<le> hi"
    "next_difficulty lo hi thr target observed parent \<le> parent + difficulty_step thr parent"
    "parent \<le> next_difficulty lo hi thr target observed parent + difficulty_step thr parent"
proof -
  let ?s = "difficulty_step thr parent"
  let ?lo = "max lo (parent - ?s)" and ?hi = "min hi (cap128 (parent + ?s))"
  have c: "parent \<le> cap128 (parent + ?s)" using assms by (simp add: cap128_def)
  then have le: "?lo \<le> ?hi" using assms by auto
  obtain w where n: "next_difficulty lo hi thr target observed parent = clamp ?lo ?hi w"
    by (simp add: next_difficulty_def Let_def)
  have "cap128 (parent + ?s) \<le> parent + ?s" by (simp add: cap128_def)
  with clamp_le [OF le, of w] clamp_ge [OF le, of w]
  show "lo \<le> next_difficulty lo hi thr target observed parent"
    "next_difficulty lo hi thr target observed parent \<le> hi"
    "next_difficulty lo hi thr target observed parent \<le> parent + ?s"
    "parent \<le> next_difficulty lo hi thr target observed parent + ?s"
    unfolding n by (simp_all only: min.bounded_iff max.bounded_iff le_diff_conv) auto
qed

lemma next_difficulty_direction:
  assumes "lo \<le> parent" "parent \<le> hi" "hi < 2 ^ 128" "parent * max 1 target < 2 ^ 128"
  shows "max 1 observed \<le> max 1 target \<Longrightarrow> parent \<le> next_difficulty lo hi thr target observed parent"
    "max 1 target \<le> max 1 observed \<Longrightarrow> next_difficulty lo hi thr target observed parent \<le> parent"
proof -
  let ?s = "difficulty_step thr parent" and ?o = "max 1 observed" and ?t = "max 1 target"
  let ?lo = "max lo (parent - ?s)" and ?hi = "min hi (cap128 (parent + ?s))"
  have b: "?lo \<le> parent" "parent \<le> ?hi" using assms by (auto simp: cap128_def)
  then have le: "?lo \<le> ?hi" by (rule le_trans)
  have n: "next_difficulty lo hi thr target observed parent = clamp ?lo ?hi (clamp lo hi (parent * ?t div ?o))"
    using assms(4) by (simp add: next_difficulty_def Let_def cap128_def)
  have lh: "lo \<le> hi" using assms(1,2) by simp
  show "parent \<le> next_difficulty lo hi thr target observed parent" if "?o \<le> ?t"
  proof -
    have "parent * ?o \<le> parent * ?t" using that by (rule mult_le_mono2)
    then have "parent \<le> parent * ?t div ?o" by (simp add: less_eq_div_iff_mult_less_eq)
    then show ?thesis unfolding n using assms b le lh by (auto simp: clamp_def)
  qed
  show "next_difficulty lo hi thr target observed parent \<le> parent" if "?t \<le> ?o"
  proof -
    have "parent * ?t div ?o \<le> parent * ?o div ?o" using that by (intro div_le_mono mult_le_mono2)
    then have "parent * ?t div ?o \<le> parent" by simp
    then show ?thesis unfolding n using assms b le lh by (auto simp: clamp_def)
  qed
qed

text \<open>Whatever the inputs, the controller does not panic when its bounds are ordered; the next
  difficulty lies within the bounds and within one step of the clamped parent difficulty.\<close>

theorem adjust_mining_difficulty_bounds:
  assumes "min_d \<le> max_d"
  shows "\<exists>d. adjust_mining_difficulty pd obs tgt min_d max_d thr = Some (u256_from_u128 d) \<and>
    min_d \<le> d \<and> d \<le> max_d \<and>
    (let parent = clamp (unat min_d) (unat max_d) (unat (as_u128 pd)); s = difficulty_step (unat thr) parent
     in unat d \<le> parent + s \<and> parent \<le> unat d + s)"
proof -
  let ?parent = "clamp (unat min_d) (unat max_d) (unat (as_u128 pd))"
  have "unat min_d \<le> ?parent" "?parent \<le> unat max_d" "unat max_d < 2 ^ 128"
    using assms unat_word_less [of max_d] by (simp_all add: word_le_nat_alt)
  note b = next_difficulty_bounds [OF this]
  obtain d where "adjust_mining_difficulty pd obs tgt min_d max_d thr = Some (u256_from_u128 d)"
    "unat d = next_difficulty (unat min_d) (unat max_d) (unat thr) (unat tgt) (unat obs) ?parent"
    using adjust_mining_difficulty_spec [OF assms] by blast
  with b show ?thesis by (auto simp: word_le_nat_alt Let_def)
qed

lemma adjust_mining_difficulty_bounds_witness:
  "adjust_mining_difficulty (u256_from 2000000) 5 10 1000000 (- 1) 10000000 \<noteq> None"
  using adjust_mining_difficulty_bounds [of 1000000 "- 1" "u256_from 2000000" 5 10 10000000]
  by (auto simp: word_le_nat_alt unat_max_word)

end
