(* ===== verification/Mining.thy ===== *)
theory Mining
  imports Block
begin

section \<open>Mining: the difficulty of a window of headers and the proof-of-work target\<close>

text \<open>
  What the difficulty controller and the proof-of-work check of \<open>Block\<close> do on whole windows and
  headers: the smoothed block interval is an average, the next difficulty follows it towards the
  ten-second target, and a header passes \<open>verify_pow\<close> exactly if its hash is at most
  \<open>(2 ^ 256 - 1) div difficulty\<close>, as long as the difficulty fits 120 bits.
\<close>

subsection \<open>The smoothed interval is an average\<close>

lemma block_interval_bounds: "1 \<le> unat (block_interval p)" "unat (block_interval p) < 2 ^ 64"
proof -
  let ?w = "max (saturating_sub (h_timestamp (snd p)) (h_timestamp (fst p))) 1"
  have "unat (block_interval p) = unat ?w"
    using unat_word_less [of ?w] by (simp add: block_interval_def unsigned_ucast_eq take_bit_nat_eq_self)
  then show "1 \<le> unat (block_interval p)" "unat (block_interval p) < 2 ^ 64"
    using unat_word_less [of ?w] by (simp_all add: unat_max)
qed

lemma ema_average:
  fixes previous interval :: u128
  assumes "lo \<le> unat previous" "unat previous \<le> hi" "lo \<le> unat interval" "unat interval \<le> hi" "hi < 2 ^ 64"
  shows "\<exists>i. ema_step interval (Some previous) = Some i \<and> lo \<le> unat i \<and> unat i \<le> hi"
proof -
  have "unat (previous * 3 + interval) = unat previous * 3 + unat interval"
    using assms by (simp add: unat_word_ariths)
  then have "unat ((previous * 3 + interval) div 4) = (unat previous * 3 + unat interval) div 4"
    by (simp add: unat_div)
  moreover have "4 * lo \<le> unat previous * 3 + unat interval" "unat previous * 3 + unat interval \<le> 4 * hi"
    using assms by linarith+
  ultimately show ?thesis by (auto simp: ema_step_def DIFFICULTY_INTERVAL_EMA_WEIGHT_def)
qed

lemma ema_fold:
  assumes "\<forall>i \<in> set is. lo \<le> unat i \<and> unat i \<le> hi" "hi < 2 ^ 64"
    "lo \<le> unat previous" "unat previous \<le> hi"
  shows "\<exists>i. fold ema_step is (Some previous) = Some i \<and> lo \<le> unat i \<and> unat i \<le> hi"
  using assms
proof (induction "is" arbitrary: previous)
  case (Cons j js)
  then obtain i where "ema_step j (Some previous) = Some i" "lo \<le> unat i" "unat i \<le> hi"
    using ema_average [of lo previous hi j] by auto
  with Cons show ?case by simp
qed simp

definition recent_window :: "BlockHeader list \<Rightarrow> BlockHeader list" where
  "recent_window headers = drop (length headers - min (length headers) DIFFICULTY_WINDOW_BLOCKS) headers"

definition window_intervals :: "BlockHeader list \<Rightarrow> nat set" where
  "window_intervals headers =
     (\<lambda>p. unat (block_interval p)) ` set (zip (recent_window headers) (tl (recent_window headers)))"

lemma smoothed_interval_is_average:
  assumes "2 \<le> length headers" "\<forall>i \<in> window_intervals headers. lo \<le> i \<and> i \<le> hi" "hi < 2 ^ 64"
  shows "\<exists>i. smoothed_recent_block_interval headers = Some i \<and> max 1 lo \<le> unat i \<and> unat i \<le> max 1 hi"
proof -
  let ?w = "recent_window headers"
  have "length ?w = min (length headers) 10" by (simp add: recent_window_def DIFFICULTY_WINDOW_BLOCKS_def)
  then have "2 \<le> length ?w" using assms(1) by simp
  then obtain a b rest where w: "?w = a # b # rest"
    by (cases ?w; cases "tl ?w") auto
  define j where "j = block_interval (a, b)"
  define js where "js = map block_interval (zip (b # rest) rest)"
  have "\<forall>i \<in> set (j # js). lo \<le> unat i \<and> unat i \<le> hi"
    using assms(2) by (auto simp: window_intervals_def w j_def js_def)
  then obtain i where i: "fold ema_step js (Some j) = Some i" "lo \<le> unat i" "unat i \<le> hi"
    using ema_fold [of js lo hi j] assms(3) by auto
  have "smoothed_recent_block_interval headers = map_option (\<lambda>i. max i 1) (fold ema_step (j # js) None)"
    using assms(1) w unfolding smoothed_recent_block_interval_def Let_def recent_window_def
    by (auto simp: j_def js_def DIFFICULTY_WINDOW_BLOCKS_def)
  also have "\<dots> = Some (max i 1)" using i(1) by (simp add: ema_step_def)
  finally show ?thesis using i(2,3) by (auto simp: unat_max)
qed

subsection \<open>The next difficulty\<close>

text \<open>C32: The difficulty after a window of headers lies between 1 and a billion; it does not fall
  when no block of the window took longer than ten seconds, does not rise when every block took at
  least ten, and moves by at most a quarter once the parent difficulty has left the bootstrap range.\<close>

theorem windowed_difficulty_tracks_target:
  assumes "2 \<le> length headers"
    and "parent = clamp 1 1000000000 (unat (as_u128 (h_difficulty (last headers))))"
  shows "\<exists>d. calculate_windowed_mining_difficulty headers = Some (u256_from_u128 d) \<and>
    1 \<le> unat d \<and> unat d \<le> 1000000000 \<and> unat d \<le> 5 * parent \<and>
    ((\<forall>i \<in> window_intervals headers. i \<le> 10) \<longrightarrow> parent \<le> unat d) \<and>
    ((\<forall>i \<in> window_intervals headers. 10 \<le> i) \<longrightarrow> unat d \<le> parent) \<and>
    (1000000 \<le> parent \<longrightarrow> unat d \<le> parent + parent div 4 \<and> parent \<le> unat d + parent div 4)"
proof -
  have in64: "\<forall>i \<in> window_intervals headers. 1 \<le> i \<and> i \<le> 2 ^ 64 - 1"
    using block_interval_bounds unfolding window_intervals_def
    by (auto simp: Suc_le_eq less_Suc_eq_le [symmetric] simp del: One_nat_def)
  then obtain t where t: "smoothed_recent_block_interval headers = Some t" "1 \<le> unat t"
    using smoothed_interval_is_average [OF assms(1) in64] by auto
  have slow: "10 \<le> unat t" if "\<forall>i \<in> window_intervals headers. 10 \<le> i"
    using smoothed_interval_is_average [OF assms(1), of 10 "2 ^ 64 - 1"] that in64 t(1) by auto
  have fast: "unat t \<le> 10" if "\<forall>i \<in> window_intervals headers. i \<le> 10"
    using smoothed_interval_is_average [OF assms(1), of 1 10] that in64 t(1) by auto
  have p: "1 \<le> parent" "parent \<le> 1000000000" unfolding assms(2) by simp_all
  let ?n = "next_difficulty 1 1000000000 1000000 10 (unat t) parent"
  have "headers \<noteq> []" using assms(1) by auto
  then obtain d where d: "calculate_windowed_mining_difficulty headers = Some (u256_from_u128 d)" "unat d = ?n"
    using adjust_mining_difficulty_spec [of MIN_MINING_DIFFICULTY MAX_MINING_DIFFICULTY
        "h_difficulty (last headers)" t TARGET_BLOCK_INTERVAL_SECS DIFFICULTY_BOOTSTRAP_THRESHOLD] t(1)
    by (auto simp: calculate_windowed_mining_difficulty_def difficulty_constants word_le_nat_alt assms(2))
  have s: "difficulty_step 1000000 parent =
      max 1 (parent * (if parent < 1000000 then 40000 else 2500) div 10000)"
    using p by (simp add: difficulty_step_def cap128_def)
  have b: "1 \<le> ?n" "?n \<le> 1000000000" "?n \<le> parent + difficulty_step 1000000 parent"
    "parent \<le> ?n + difficulty_step 1000000 parent"
    using next_difficulty_bounds [OF p, of 1000000 10 "unat t"] by simp_all
  have "difficulty_step 1000000 parent \<le> 4 * parent" "1000000 \<le> parent \<Longrightarrow> difficulty_step 1000000 parent = parent div 4"
    using p(1) unfolding s by auto
  moreover have "unat t \<le> 10 \<Longrightarrow> parent \<le> ?n" "10 \<le> unat t \<Longrightarrow> ?n \<le> parent"
    using next_difficulty_direction [OF p, of 10 "unat t" 1000000] p t(2) by simp_all
  ultimately show ?thesis using b d fast slow by (auto intro!: exI [of _ d])
qed


lemma windowed_difficulty_tracks_target_witness:
  "calculate_windowed_mining_difficulty [sample_header, sample_header\<lparr>h_timestamp := 3\<rparr>] \<noteq> None"
  using windowed_difficulty_tracks_target [of "[sample_header, sample_header\<lparr>h_timestamp := 3\<rparr>]"] by auto

subsection \<open>The target is the exact quotient\<close>

lemma unat_target_step:
  fixes remainder divisor :: u128
  assumes "unat remainder < unat divisor" "unat divisor < 2 ^ 120"
  shows "unat (ucast (min ((remainder * 256 + 0xFF) div divisor) 0xFF) :: u8)
      = (unat remainder * 256 + 255) div unat divisor"
    "unat ((remainder * 256 + 0xFF) mod divisor) = (unat remainder * 256 + 255) mod unat divisor"
proof -
  have v: "unat (remainder * 256 + 0xFF) = unat remainder * 256 + 255"
    using assms by (simp add: unat_word_ariths)
  have "unat remainder * 256 + 255 < 256 * unat divisor" using assms(1) by simp
  then have q: "(unat remainder * 256 + 255) div unat divisor < 256"
    by (intro less_mult_imp_div_less) (simp add: mult.commute)
  have "unat (min ((remainder * 256 + 0xFF) div divisor) 0xFF) = (unat remainder * 256 + 255) div unat divisor"
    using q by (simp add: unat_min unat_div v)
  with q show "unat (ucast (min ((remainder * 256 + 0xFF) div divisor) 0xFF) :: u8)
      = (unat remainder * 256 + 255) div unat divisor"
    by (simp add: unsigned_ucast_eq take_bit_nat_eq_self)
  show "unat ((remainder * 256 + 0xFF) mod divisor) = (unat remainder * 256 + 255) mod unat divisor"
    by (simp add: unat_mod v)
qed

lemma length_target_loop [simp]: "length (target_loop n d r) = n"
  by (induction n arbitrary: r) (simp_all add: Let_def)

lemma regroup: "1 \<le> g \<Longrightarrow> a * g * D + (b * g + g - 1) = (a * D + b) * g + g - (1 :: nat)"
  by (simp add: algebra_simps)

lemma target_loop_value:
  assumes "unat r < unat d" "unat d < 2 ^ 120"
  shows "be_value (target_loop n d r) = (unat r * 256 ^ n + 256 ^ n - 1) div unat d"
  using assms(1)
proof (induction n arbitrary: r)
  case (Suc n)
  let ?D = "unat d" and ?v = "unat r * 256 + 255"
  let ?r = "(r * 256 + 0xFF) mod d"
  note st = unat_target_step [OF Suc.prems assms(2)]
  have r: "unat ?r < ?D" using Suc.prems unfolding st(2) by simp
  have p: "(256 :: nat) ^ n \<ge> 1" by simp
  have "be_value (target_loop (Suc n) d r) = ?v div ?D * 256 ^ n + (?v mod ?D * 256 ^ n + 256 ^ n - 1) div ?D"
    using Suc.IH [OF r] by (simp add: Let_def st)
  also have "\<dots> = (?v div ?D * 256 ^ n * ?D + (?v mod ?D * 256 ^ n + 256 ^ n - 1)) div ?D"
    using Suc.prems by simp
  also have "?v div ?D * 256 ^ n * ?D + (?v mod ?D * 256 ^ n + 256 ^ n - 1)
      = (?v div ?D * ?D + ?v mod ?D) * 256 ^ n + 256 ^ n - 1"
    using p by (rule regroup)
  also have "?v div ?D * ?D + ?v mod ?D = ?v" by simp
  also have "?v * 256 ^ n + 256 ^ n - 1 = unat r * 256 ^ Suc n + 256 ^ Suc n - 1"
    using p by (simp add: algebra_simps)
  finally show ?case .
qed simp

lemma be_value_drop: "k \<le> length l \<Longrightarrow> be_value (drop k l) = be_value l mod 256 ^ (length l - k)"
proof -
  assume k: "k \<le> length l"
  have "be_value l = be_value (take k l) * 256 ^ (length l - k) + be_value (drop k l)"
    using be_value_append [of "take k l" "drop k l"] by simp
  moreover have "be_value (drop k l) < 256 ^ (length l - k)"
    using be_value_bound [of "drop k l"] by simp
  ultimately show ?thesis by simp
qed

lemma unat_as_u128: "u256_wf a \<Longrightarrow> unat (as_u128 a) = be_value a mod 2 ^ 128"
  using be_value_drop [of 16 a] be_value_bound [of "drop 16 a"]
  by (simp add: as_u128_def from_be_def u256_wf_def unat_of_nat)

lemma from_big_endian_32: "length bs = 32 \<Longrightarrow> from_big_endian bs = Some bs"
  by (simp add: from_big_endian_def)

text \<open>Every difficulty gives a target of 32 bytes, and every header a verdict.\<close>

lemma pow_target_total: "\<exists>t. pow_target_from_difficulty d = Some t \<and> u256_wf t"
  by (auto simp: pow_target_from_difficulty_def max_pow_target_def from_big_endian_32 u256_wf_def
      u256_zero_def Let_def)

lemma pow_target_exact:
  assumes "u256_wf d" "0 < be_value d" "be_value d < 2 ^ 120"
  shows "\<exists>t. pow_target_from_difficulty d = Some t \<and> u256_wf t \<and> be_value t = (2 ^ 256 - 1) div be_value d"
proof -
  have u: "unat (as_u128 d) = be_value d" using assms by (simp add: unat_as_u128)
  have m: "unat (drop_bit 8 (- 1 :: u128)) = 2 ^ 120 - 1"
  proof -
    have "unat (drop_bit 8 w) = drop_bit 8 (unat w)" for w :: u128
      using unat_word_less [of w] by (simp add: unsigned_drop_bit_eq take_bit_nat_eq_self)
    then show ?thesis by (simp only: unat_max_word) (simp add: drop_bit_eq_div)
  qed
  have "pow_target_from_difficulty d = Some (target_loop 32 (as_u128 d) 0)"
    using assms u m by (simp add: pow_target_from_difficulty_def u256_is_zero_iff Let_def
        from_big_endian_32 word_less_nat_alt unat_eq_0 [symmetric] del: unat_eq_0)
  moreover have "be_value (target_loop 32 (as_u128 d) 0) = (2 ^ 256 - 1) div be_value d"
    using target_loop_value [of 0 "as_u128 d" 32] assms u by simp
  ultimately show ?thesis by (auto simp: u256_wf_def)
qed

lemma le_max: "n \<le> 2 ^ 256 - 1 \<longleftrightarrow> n < (2 ^ 256 :: nat)"
  by auto

lemma verify_pow_spec:
  assumes "u256_wf (h_difficulty h)" "be_value (h_number h) \<noteq> 0"
    and "0 < be_value (h_difficulty h)" "be_value (h_difficulty h) < 2 ^ 120"
  shows "verify_pow x h = Some (Inr ()) \<longleftrightarrow>
    unat (compute_pow_hash x h (h_nonce h)) * be_value (h_difficulty h) < 2 ^ 256"
proof -
  let ?d = "be_value (h_difficulty h)" and ?hash = "compute_pow_hash x h (h_nonce h)"
  obtain t where t: "pow_target_from_difficulty (h_difficulty h) = Some t" "u256_wf t"
    "be_value t = (2 ^ 256 - 1) div ?d" using pow_target_exact [OF assms(1,3,4)] by blast
  have "u256_less t (be_bytes ?hash) \<longleftrightarrow> be_value t < unat ?hash"
    using t(2) by (simp add: u256_less_iff u256_wf_def be_value_be_bytes)
  moreover have "unat ?hash \<le> (2 ^ 256 - 1) div ?d \<longleftrightarrow> unat ?hash * ?d \<le> 2 ^ 256 - 1"
    using assms(3) by (rule less_eq_div_iff_mult_less_eq)
  ultimately have v: "\<not> u256_less t (be_bytes ?hash) \<longleftrightarrow> unat ?hash * ?d < 2 ^ 256"
    unfolding t(3) using le_max [of "unat ?hash * ?d"] by (simp only: not_less)
  show ?thesis
    using assms(2,3) t(1) v
    by (auto simp: verify_pow_def u256_is_zero_iff pow_hash_meets_target_def from_big_endian_32)
qed

text \<open>C38: A header beyond genesis whose difficulty is positive and fits 120 bits passes the
  proof-of-work check exactly if its proof-of-work hash, as a number, times the difficulty is below
  2 to the power of 256.\<close>

theorem verify_pow_iff:
  assumes "u256_wf (h_difficulty h)" "be_value (h_number h) \<noteq> 0"
    and "0 < be_value (h_difficulty h)" "be_value (h_difficulty h) < 2 ^ 120"
  shows "verify_pow x h = Some (Inr ()) \<longleftrightarrow>
    unat (compute_pow_hash x h (h_nonce h)) * be_value (h_difficulty h) < 2 ^ 256"
  using assms by (rule verify_pow_spec)

lemma verify_pow_iff_witness:
  "verify_pow sample_block_externals (sample_header\<lparr>h_number := u256_one, h_difficulty := u256_from 7\<rparr>) = Some (Inr ())"
  by (subst verify_pow_iff) (simp_all add: compute_pow_hash_def sample_block_externals_def externals.defs)

text \<open>The target is computed from the low 128 bits of the difficulty: a header that claims
  difficulty one above a multiple of 2 to the power of 128 passes with any proof-of-work hash.\<close>

theorem verify_pow_truncates_difficulty:
  assumes "u256_wf (h_difficulty h)" "be_value (h_difficulty h) mod 2 ^ 128 = 1"
  shows "verify_pow x h = Some (Inr ())"
proof -
  have u: "as_u128 (h_difficulty h) = 1" using assms by (simp add: word_unat_eq_iff unat_as_u128)
  have z: "be_value (h_difficulty h) \<noteq> 0" using assms(2) by (intro notI) simp
  let ?t = "target_loop 32 1 0" and ?hash = "be_bytes (compute_pow_hash x h (h_nonce h))"
  have "pow_target_from_difficulty (h_difficulty h) = Some ?t"
    using z by (simp add: pow_target_from_difficulty_def u u256_is_zero_iff from_big_endian_32)
  moreover have "be_value ?t = 2 ^ 256 - 1" using target_loop_value [of 0 1 32] by simp
  then have "\<not> u256_less ?t ?hash"
    using unat_le_max [of "compute_pow_hash x h (h_nonce h)"]
    by (simp add: u256_less_iff be_value_be_bytes not_less)
  ultimately show ?thesis
    using z by (simp add: verify_pow_def u256_is_zero_iff pow_hash_meets_target_def from_big_endian_32)
qed

lemma verify_pow_truncates_difficulty_witness:
  "verify_pow sample_block_externals (sample_header\<lparr>h_number := u256_one, h_difficulty := replicate 15 0 @ 1 # be_bytes (1 :: u128)\<rparr>)
   = Some (Inr ())"
  by (rule verify_pow_truncates_difficulty)
     (simp_all add: u256_wf_def be_value_append be_value_be_bytes)

text \<open>Reading a printed target gives it back, for a hex codec that reads what it writes.\<close>

lemma pow_target_hex_roundtrip:
  assumes "\<And>bs. hex_decode x (hex_encode x bs) = Inr bs" "u256_wf t"
  shows "pow_target_from_hex x (pow_target_to_hex x t) = Some (Inr t)"
  using assms by (simp add: pow_target_from_hex_def pow_target_to_hex_def u256_wf_def from_big_endian_32)

end
