(* ===== verification/Consensus.thy ===== *)
theory Consensus
  imports Mining
begin

section \<open>The consensus engine\<close>

text \<open>
  \<open>consensus/mod.rs\<close>: the proof-of-work engine that the block chain calls, with its own target
  computation by \<open>U256\<close> division, its difficulty bounds and the halving reward.
\<close>

subsection \<open>Operations\<close>

datatype ConsensusError =
    InvalidBlock | ConsensusInvalidPow | ConsensusInvalidDifficulty | BlockExists | OrphanBlock
  | InvalidStateTransition

datatype PowAlgorithm = RandomX | ProgPoW | LightHash

record PowConsensus =
  algorithm :: PowAlgorithm
  target_block_time :: u64
  min_difficulty :: U256
  max_difficulty :: U256
  initial_reward :: U256
  halving_period :: u64

definition pow_consensus_new :: "PowAlgorithm \<Rightarrow> PowConsensus" where
  "pow_consensus_new alg =
     \<lparr>algorithm = alg, target_block_time = 10, min_difficulty = u256_from_u128 1000000,
      max_difficulty = u256_from_u128 (- 1), initial_reward = u256_from_u128 5000000000000000000,
      halving_period = 2100000\<rparr>"

definition consensus_compute :: "block_externals \<Rightarrow> BlockHeader \<Rightarrow> u64 \<Rightarrow> hash" where
  "consensus_compute x header nonce = compute_pow_hash x header nonce"

definition difficulty_to_target :: "U256 \<Rightarrow> U256 option" where
  "difficulty_to_target difficulty =
     (if u256_is_zero difficulty then from_big_endian (replicate 32 0xFF)
      else map_option (\<lambda>m. u256_div m difficulty) (from_big_endian (replicate 32 0xFF)))"

definition consensus_verify_pow :: "block_externals \<Rightarrow> BlockHeader \<Rightarrow> (ConsensusError + unit) option" where
  "consensus_verify_pow x header =
     (if u256_is_zero (h_number header) then Some (Inr ())
      else if u256_is_zero (h_difficulty header) then Some (Inl ConsensusInvalidDifficulty)
      else
        Option.bind (difficulty_to_target (h_difficulty header)) (\<lambda>target.
        let pow_hash = consensus_compute x header (h_nonce header) in
        map_option (\<lambda>hash_value. if u256_less target hash_value then Inl ConsensusInvalidPow else Inr ())
          (from_big_endian (be_bytes pow_hash))))"

definition consensus_validate_block ::
    "block_externals \<Rightarrow> Block \<Rightarrow> BlockHeader \<Rightarrow> (ConsensusError + unit) option" where
  "consensus_validate_block x block parent =
     (case header_validate x (bk_header block) parent of
        Inl _ \<Rightarrow> Some (Inl InvalidBlock)
      | Inr _ \<Rightarrow> consensus_verify_pow x (bk_header block))"

definition calculate_difficulty :: "PowConsensus \<Rightarrow> BlockHeader \<Rightarrow> u64 \<Rightarrow> U256 option" where
  "calculate_difficulty c parent current_timestamp =
     (let actual_block_time = ucast (max (saturating_sub current_timestamp (h_timestamp parent)) 1);
          bootstrap_threshold = max (saturating_mul (as_u128 (min_difficulty c)) 10) 1
      in adjust_mining_difficulty (h_difficulty parent) actual_block_time (target_block_time c)
           (as_u128 (min_difficulty c)) (as_u128 (max_difficulty c)) bootstrap_threshold)"

text \<open>\<open>for _ in 0..halving_count\<close>; a zero halving period divides by zero and panics.\<close>

definition calculate_reward :: "PowConsensus \<Rightarrow> U256 \<Rightarrow> U256 option" where
  "calculate_reward c block_number =
     (if halving_period c = 0 then None
      else Some (((\<lambda>reward. u256_from_u128 (as_u128 reward div 2)) ^^
        unat (as_u64 block_number div halving_period c)) (initial_reward c)))"

subsection \<open>The engine and the header check disagree\<close>

lemma engine_target:
  assumes "u256_wf d" "255 < be_value d"
  shows "difficulty_to_target d = Some u256_zero"
proof -
  have "\<not> u256_is_zero d" using assms(2) by (simp add: u256_is_zero_iff)
  then show ?thesis
    using u256_div_large_divisor [OF assms] by (simp add: difficulty_to_target_def from_big_endian_32)
qed

lemma consensus_verify_pow_large:
  assumes "u256_wf (h_difficulty h)" "255 < be_value (h_difficulty h)" "be_value (h_number h) \<noteq> 0"
  shows "consensus_verify_pow x h = Some (Inr ()) \<longleftrightarrow> compute_pow_hash x h (h_nonce h) = 0"
proof -
  let ?hash = "compute_pow_hash x h (h_nonce h)"
  have "u256_less u256_zero (be_bytes ?hash) \<longleftrightarrow> ?hash \<noteq> 0"
    by (simp add: u256_less_iff u256_zero_def be_value_be_bytes unat_gt_0)
  moreover have "be_value (h_difficulty h) \<noteq> 0" using assms(2) by simp
  ultimately show ?thesis
    using assms(3)
    by (auto simp: consensus_verify_pow_def u256_is_zero_iff engine_target [OF assms(1,2)] consensus_compute_def
        from_big_endian_32)
qed

text \<open>For every difficulty from 256 up to 120 bits the engine accepts a block after genesis
  only if its proof-of-work hash is zero, while the header check accepts every hash up to the
  quotient: a header whose hash is 1 passes the header check and is refused by the engine.\<close>

theorem engine_refuses_valid_pow:
  assumes "u256_wf (h_difficulty h)" "255 < be_value (h_difficulty h)" "be_value (h_difficulty h) < 2 ^ 120"
    and "be_value (h_number h) \<noteq> 0"
    and "0 < unat (compute_pow_hash x h (h_nonce h))"
      "unat (compute_pow_hash x h (h_nonce h)) * be_value (h_difficulty h) < 2 ^ 256"
  shows "verify_pow x h = Some (Inr ()) \<and> consensus_verify_pow x h = Some (Inl ConsensusInvalidPow)"
proof -
  let ?hash = "compute_pow_hash x h (h_nonce h)" and ?d = "be_value (h_difficulty h)"
  have z: "be_value (h_difficulty h) \<noteq> 0" using assms(2) by simp
  have "verify_pow x h = Some (Inr ())"
    using assms(2,6) by (intro iffD2 [OF verify_pow_spec [OF assms(1,4) _ assms(3)]]) simp_all
  moreover have "u256_less u256_zero (be_bytes ?hash)"
    using assms(5) by (simp add: u256_less_iff u256_zero_def be_value_be_bytes)
  then have "consensus_verify_pow x h = Some (Inl ConsensusInvalidPow)"
    using assms(4) z by (simp add: consensus_verify_pow_def u256_is_zero_iff engine_target [OF assms(1,2)]
        consensus_compute_def from_big_endian_32)
  ultimately show ?thesis ..
qed

lemma engine_refuses_valid_pow_witness:
  "let h = sample_header\<lparr>h_number := u256_one, h_difficulty := u256_from 1000000\<rparr>;
       x = sample_block_externals\<lparr>sha256 := \<lambda>_. 1\<rparr>
   in verify_pow x h = Some (Inr ()) \<and> consensus_verify_pow x h = Some (Inl ConsensusInvalidPow)"
  unfolding Let_def by (rule engine_refuses_valid_pow) (simp_all add: compute_pow_hash_def)

text \<open>The engine can always compute a next difficulty, and a block after genesis that carries
  it passes the engine only if its proof-of-work hash is zero.\<close>

theorem engine_difficulty_is_unmineable:
  assumes "be_value (h_number h) \<noteq> 0"
  shows "\<exists>d. calculate_difficulty (pow_consensus_new alg) parent now = Some d \<and>
    1000000 \<le> be_value d \<and>
    (h_difficulty h = d \<longrightarrow>
      (consensus_verify_pow x h = Some (Inr ()) \<longleftrightarrow> compute_pow_hash x h (h_nonce h) = 0))"
proof -
  let ?c = "pow_consensus_new alg"
  have m: "as_u128 (u256_from_u128 w) = w" for w
    using unat_word_less [of w] by (simp add: word_unat_eq_iff unat_as_u128)
  have b: "as_u128 (min_difficulty ?c) = 1000000" "as_u128 (max_difficulty ?c) = - 1"
    by (simp_all add: pow_consensus_new_def m)
  have le: "(1000000 :: u128) \<le> - 1" by simp
  have hi: "unat (- 1 :: u128) < 2 ^ 128" by (simp add: unat_max_word)
  obtain d where d: "calculate_difficulty ?c parent now = Some (u256_from_u128 d)" "1000000 \<le> unat d"
  proof -
    define o' :: u128 where "o' = ucast (max (saturating_sub now (h_timestamp parent)) 1)"
    define thr where "thr = max (saturating_mul (as_u128 (min_difficulty ?c)) 10) 1"
    let ?p = "clamp (unat (1000000 :: u128)) (unat (- 1 :: u128)) (unat (as_u128 (h_difficulty parent)))"
    have p: "unat (1000000 :: u128) \<le> ?p" "?p \<le> unat (- 1 :: u128)"
      using le by (simp_all only: word_le_nat_alt clamp_ge clamp_le)
    obtain d where "adjust_mining_difficulty (h_difficulty parent) o' (target_block_time ?c) 1000000 (- 1) thr
        = Some (u256_from_u128 d)"
      "unat d = next_difficulty (unat (1000000 :: u128)) (unat (- 1 :: u128)) (unat thr)
        (unat (target_block_time ?c)) (unat o') ?p"
      using adjust_mining_difficulty_spec [OF le] by blast
    moreover from this(2) have "1000000 \<le> unat d"
      using next_difficulty_bounds(1) [OF p hi] by simp
    ultimately show ?thesis
      by (intro that [of d]) (simp_all only: calculate_difficulty_def Let_def b o'_def thr_def)
  qed
  then have "255 < be_value (u256_from_u128 d)" "1000000 \<le> be_value (u256_from_u128 d)" by simp_all
  with consensus_verify_pow_large [of h x] assms d(1) show ?thesis
    by (intro exI [of _ "u256_from_u128 d"]) auto
qed

lemma engine_difficulty_is_unmineable_witness:
  "\<exists>d. consensus_verify_pow (sample_block_externals\<lparr>sha256 := \<lambda>_. 1\<rparr>)
     (sample_header\<lparr>h_number := u256_one, h_difficulty := d\<rparr>) \<noteq> Some (Inr ()) \<and>
     calculate_difficulty (pow_consensus_new LightHash) sample_header 0 = Some d"
proof -
  obtain d where "calculate_difficulty (pow_consensus_new LightHash) sample_header 0 = Some d"
    using engine_difficulty_is_unmineable [of "sample_header\<lparr>h_number := u256_one\<rparr>" LightHash sample_header 0]
    by auto
  moreover from this have "consensus_verify_pow (sample_block_externals\<lparr>sha256 := \<lambda>_. 1\<rparr>)
     (sample_header\<lparr>h_number := u256_one, h_difficulty := d\<rparr>) \<noteq> Some (Inr ())"
    using engine_difficulty_is_unmineable [of "sample_header\<lparr>h_number := u256_one, h_difficulty := d\<rparr>"
        LightHash sample_header 0 "sample_block_externals\<lparr>sha256 := \<lambda>_. 1\<rparr>"]
    by (auto simp: compute_pow_hash_def)
  ultimately show ?thesis by blast
qed

subsection \<open>The reward\<close>

lemma halve_value:
  "be_value (((\<lambda>reward. u256_from_u128 (as_u128 reward div 2)) ^^ n) (u256_from_u128 w)) = unat w div 2 ^ n \<and>
   u256_wf (((\<lambda>reward. u256_from_u128 (as_u128 reward div 2)) ^^ n) (u256_from_u128 w))"
proof (induction n)
  case (Suc n)
  let ?r = "((\<lambda>reward. u256_from_u128 (as_u128 reward div 2)) ^^ n) (u256_from_u128 w)"
  have "unat w div 2 ^ n < 2 ^ 128"
    using unat_word_less [of w] by (auto intro: le_less_trans [OF div_le_dividend])
  with Suc have "unat (as_u128 ?r) = unat w div 2 ^ n" by (simp add: unat_as_u128)
  then show ?case by (simp add: unat_div div_mult2_eq [symmetric] mult.commute)
qed simp

text \<open>The block reward is five units halved every 2,100,000 blocks, and zero from block
  132,300,000 on.\<close>

theorem reward_halves:
  "\<exists>r. calculate_reward (pow_consensus_new alg) n = Some r \<and>
     be_value r = 5000000000000000000 div 2 ^ (unat (as_u64 n) div 2100000) \<and>
     (be_value r = 0 \<longleftrightarrow> 132300000 \<le> unat (as_u64 n))"
proof -
  let ?k = "unat (as_u64 n) div 2100000"
  have r: "calculate_reward (pow_consensus_new alg) n =
      Some (((\<lambda>reward. u256_from_u128 (as_u128 reward div 2)) ^^ ?k) (u256_from_u128 5000000000000000000))"
    by (simp add: calculate_reward_def pow_consensus_new_def unat_div)
  have "(5000000000000000000 :: nat) div 2 ^ ?k = 0 \<longleftrightarrow> 63 \<le> ?k"
  proof
    assume "63 \<le> ?k"
    then have "(2 :: nat) ^ 63 \<le> 2 ^ ?k" by (intro power_increasing) simp_all
    then show "(5000000000000000000 :: nat) div 2 ^ ?k = 0" by simp
  next
    assume z: "(5000000000000000000 :: nat) div 2 ^ ?k = 0"
    show "63 \<le> ?k"
    proof (rule ccontr)
      assume "\<not> 63 \<le> ?k"
      then have "(2 :: nat) ^ ?k \<le> 2 ^ 62" by (intro power_increasing) simp_all
      with z show False by (simp add: div_eq_0_iff)
    qed
  qed
  moreover have "63 \<le> ?k \<longleftrightarrow> 132300000 \<le> unat (as_u64 n)"
    by (simp add: less_eq_div_iff_mult_less_eq)
  ultimately show ?thesis using halve_value [of ?k 5000000000000000000] r by simp
qed

end
