(* ===== verification/Chain.thy ===== *)
theory Chain
  imports Consensus
begin

section \<open>The block chain\<close>

text \<open>
  \<open>blockchain/chain.rs\<close>, \<open>fork_choice.rs\<close> and \<open>sync.rs\<close>: the store of blocks with its best
  block, the fork-choice rules and the synchroniser.  The state executor that \<open>validate_block\<close>
  calls for blocks with transactions is an argument with a state of its own: \<open>exec block root st\<close>
  is its error text or the root it arrives at, and its next state.  A panic, and a call that
  waits for a lock it holds itself, is \<open>None\<close>.  Fields of the chain carry the prefix \<open>bc_\<close>.
\<close>

subsection \<open>Data\<close>

datatype BlockchainError =
    BlockNotFound hash
  | ChainOrphanBlock
  | ChainInvalidBlock string
  | ChainInvalidStateRoot
  | ChainDatabase string
  | ChainConsensus string

record 'x Blockchain =
  bc_genesis :: Block
  bc_best_block :: Block
  bc_blocks :: "hash \<rightharpoonup> Block"
  bc_hashes_by_number :: "u64 \<rightharpoonup> hash"
  bc_total_difficulty :: U256
  bc_consensus :: PowConsensus
  bc_executor :: 'x

type_synonym 'x executor = "Block \<Rightarrow> hash \<Rightarrow> 'x \<Rightarrow> (string + hash) \<times> 'x"

record ChainInfo =
  ci_genesis_hash :: hash
  ci_best_hash :: hash
  ci_best_number :: u64
  ci_total_difficulty :: U256

text \<open>The \<open>Display\<close> texts of the errors.\<close>

fun block_error_text :: "BlockError \<Rightarrow> string" where
  "block_error_text InvalidParentHash = ''Invalid parent hash''"
| "block_error_text InvalidBlockNumber = ''Invalid block number''"
| "block_error_text InvalidTimestamp = ''Invalid timestamp''"
| "block_error_text InvalidDifficulty = ''Invalid difficulty''"
| "block_error_text InvalidPow = ''Invalid PoW''"
| "block_error_text GasLimitTooHigh = ''Gas limit too high''"
| "block_error_text ExtraDataTooLarge = ''Extra data too large''"
| "block_error_text InvalidTransactionRoot = ''Invalid transaction root''"
| "block_error_text InvalidReceiptsRoot = ''Invalid receipts root''"
| "block_error_text InvalidStateRoot = ''Invalid state root''"
| "block_error_text InvalidBlockBody = ''Invalid block body''"
| "block_error_text BlockTooLarge = ''Block too large''"

fun consensus_error_text :: "ConsensusError \<Rightarrow> string" where
  "consensus_error_text InvalidBlock = ''Invalid block''"
| "consensus_error_text ConsensusInvalidPow = ''Invalid PoW''"
| "consensus_error_text ConsensusInvalidDifficulty = ''Invalid difficulty''"
| "consensus_error_text BlockExists = ''Block already exists''"
| "consensus_error_text OrphanBlock = ''Orphan block''"
| "consensus_error_text InvalidStateTransition = ''Invalid state transition''"

subsection \<open>Operations\<close>

definition blockchain_new :: "externals \<Rightarrow> PowConsensus \<Rightarrow> 'x \<Rightarrow> 'x Blockchain" where
  "blockchain_new x c executor =
     (let genesis = create_genesis_block x; genesis_hash = h_hash (bk_header genesis)
      in \<lparr>bc_genesis = genesis, bc_best_block = genesis, bc_blocks = [genesis_hash \<mapsto> genesis],
          bc_hashes_by_number = [0 \<mapsto> genesis_hash],
          bc_total_difficulty = h_difficulty (bk_header genesis), bc_consensus = c, bc_executor = executor\<rparr>)"

definition best_number :: "'x Blockchain \<Rightarrow> u64" where
  "best_number c = as_u64 (h_number (bk_header (bc_best_block c)))"

definition best_hash :: "'x Blockchain \<Rightarrow> hash" where
  "best_hash c = h_hash (bk_header (bc_best_block c))"

definition get_block :: "hash \<Rightarrow> 'x Blockchain \<Rightarrow> Block option" where
  "get_block h c = bc_blocks c h"

definition get_block_by_number :: "u64 \<Rightarrow> 'x Blockchain \<Rightarrow> Block option" where
  "get_block_by_number n c = Option.bind (bc_hashes_by_number c n) (\<lambda>h. get_block h c)"

definition get_block_hash :: "u64 \<Rightarrow> 'x Blockchain \<Rightarrow> hash option" where
  "get_block_hash n c = bc_hashes_by_number c n"

definition has_compute_txs :: "Block \<Rightarrow> bool" where
  "has_compute_txs b = (case bk_body b of Some body \<Rightarrow> bd_transactions body \<noteq> [] | None \<Rightarrow> False)"

definition validate_block ::
    "block_externals \<Rightarrow> 'x executor \<Rightarrow> Block \<Rightarrow> 'x Blockchain \<Rightarrow>
     ((BlockchainError + unit) \<times> 'x Blockchain) option" where
  "validate_block x exec block c =
     (case get_block (h_parent_hash (bk_header block)) c of
        None \<Rightarrow> Some (Inl (ChainInvalidBlock ''Parent not found''), c)
      | Some parent \<Rightarrow>
          (case header_validate x (bk_header block) (bk_header parent) of
             Inl e \<Rightarrow> Some (Inl (ChainInvalidBlock (block_error_text e)), c)
           | Inr _ \<Rightarrow>
               (case consensus_verify_pow x (bk_header block) of
                  None \<Rightarrow> None
                | Some (Inl e) \<Rightarrow> Some (Inl (ChainConsensus (consensus_error_text e)), c)
                | Some (Inr _) \<Rightarrow>
                    if has_compute_txs block
                    then
                      (case exec block (h_state_root (bk_header parent)) (bc_executor c) of
                         (Inl e, st) \<Rightarrow> Some (Inl (ChainInvalidBlock e), c\<lparr>bc_executor := st\<rparr>)
                       | (Inr to_root, st) \<Rightarrow>
                           Some (if to_root \<noteq> h_state_root (bk_header block) then Inl ChainInvalidStateRoot
                                 else Inr (), c\<lparr>bc_executor := st\<rparr>))
                    else Some (Inr (), c))))"

definition get_total_difficulty :: "hash \<Rightarrow> 'x Blockchain \<Rightarrow> U256 option" where
  "get_total_difficulty h c = calculate_reward (bc_consensus c) (u256_from 1000)"

text \<open>\<open>apply_block_state\<close> does nothing.\<close>

definition update_best_block :: "Block \<Rightarrow> U256 \<Rightarrow> 'x Blockchain \<Rightarrow> 'x Blockchain" where
  "update_best_block block td c = c\<lparr>bc_best_block := block, bc_total_difficulty := td\<rparr>"

definition insert_block ::
    "block_externals \<Rightarrow> 'x executor \<Rightarrow> Block \<Rightarrow> 'x Blockchain \<Rightarrow>
     ((BlockchainError + bool) \<times> 'x Blockchain) option" where
  "insert_block x exec block c =
     (let h = h_hash (bk_header block) in
      if bc_blocks c h \<noteq> None then Some (Inr False, c)
      else
        (case validate_block x exec block c of
           None \<Rightarrow> None
         | Some (Inl e, c) \<Rightarrow> Some (Inl e, c)
         | Some (Inr _, c) \<Rightarrow>
             (case get_block (h_parent_hash (bk_header block)) c of
                None \<Rightarrow> Some (Inl ChainOrphanBlock, c)
              | Some parent \<Rightarrow>
                  (case get_total_difficulty (h_hash (bk_header parent)) c of
                     None \<Rightarrow> None
                   | Some parent_td \<Rightarrow>
                       let td = u256_add parent_td (h_difficulty (bk_header block));
                           c = c\<lparr>bc_blocks := (bc_blocks c)(h \<mapsto> block),
                             bc_hashes_by_number :=
                               (bc_hashes_by_number c)(as_u64 (h_number (bk_header block)) \<mapsto> h)\<rparr>
                       in if u256_less (bc_total_difficulty c) td
                          then Some (Inr True, update_best_block block td c)
                          else Some (Inr False, c)))))"

definition get_chain_info :: "'x Blockchain \<Rightarrow> ChainInfo" where
  "get_chain_info c =
     \<lparr>ci_genesis_hash = h_hash (bk_header (bc_genesis c)), ci_best_hash = best_hash c,
      ci_best_number = best_number c, ci_total_difficulty = bc_total_difficulty c\<rparr>"

text \<open>The loop over \<open>0..limit\<close>, with \<open>limit\<close> as a number; the height wraps as in a release build.\<close>

fun get_sync_headers :: "u64 \<Rightarrow> nat \<Rightarrow> 'x Blockchain \<Rightarrow> BlockHeader list" where
  "get_sync_headers number 0 c = []"
| "get_sync_headers number (Suc limit) c =
     (case get_block_by_number number c of
        Some block \<Rightarrow> bk_header block # get_sync_headers (number + 1) limit c
      | None \<Rightarrow> [])"

subsection \<open>Fork choice\<close>

text \<open>\<open>Iterator::max_by\<close>: the last of the greatest elements.\<close>

fun max_by :: "('a \<Rightarrow> 'a \<Rightarrow> bool) \<Rightarrow> 'a list \<Rightarrow> 'a option" where
  "max_by lt [] = None"
| "max_by lt (a # as) = Some (fold (\<lambda>b best. if lt b best then best else b) as a)"

definition ghost_select_best :: "BlockHeader list \<Rightarrow> BlockHeader option" where
  "ghost_select_best candidates =
     (if candidates = [] then None
      else max_by (\<lambda>a b. u256_less (h_difficulty a) (h_difficulty b)) candidates)"

definition longest_select_best :: "BlockHeader list \<Rightarrow> BlockHeader option" where
  "longest_select_best candidates = max_by (\<lambda>a b. u256_less (h_number a) (h_number b)) candidates"

definition needs_reorg :: "Block \<Rightarrow> 'x Blockchain \<Rightarrow> bool" where
  "needs_reorg new_block c =
     u256_less (h_difficulty (bk_header (bc_best_block c))) (h_difficulty (bk_header new_block))"

definition get_common_ancestor :: "hash \<Rightarrow> hash \<Rightarrow> hash option" where
  "get_common_ancestor h1 h2 = Some h1"

subsection \<open>Synchroniser\<close>

datatype SyncMode = Full | Fast | Light
datatype SyncState = Idle | Syncing u64 u64 u64 | Complete

record SyncConfig =
  sync_mode :: SyncMode
  min_peers :: nat
  batch_size :: u64
  max_pending :: nat

record SyncStats =
  is_syncing_flag :: bool
  blocks_downloaded :: u64
  blocks_processed :: u64
  headers_downloaded :: u64
  sync_start_time :: u64
  last_activity :: u64

record 'x SyncManager =
  sm_config :: SyncConfig
  sm_blockchain :: "'x Blockchain"
  sm_state :: SyncState
  sm_stats :: SyncStats
  sm_pending :: "Block list"
  sm_peers :: "string list"

definition SyncConfig_default :: SyncConfig where
  "SyncConfig_default = \<lparr>sync_mode = Fast, min_peers = 3, batch_size = 100, max_pending = 1000\<rparr>"

definition sync_manager_new :: "SyncConfig \<Rightarrow> 'x Blockchain \<Rightarrow> 'x SyncManager" where
  "sync_manager_new config c =
     \<lparr>sm_config = config, sm_blockchain = c, sm_state = Idle,
      sm_stats = \<lparr>is_syncing_flag = False, blocks_downloaded = 0, blocks_processed = 0,
        headers_downloaded = 0, sync_start_time = 0, last_activity = 0\<rparr>,
      sm_pending = [], sm_peers = []\<rparr>"

definition start_sync :: "u64 \<Rightarrow> u64 \<Rightarrow> 'x SyncManager \<Rightarrow> 'x SyncManager" where
  "start_sync now target m =
     (let current = best_number (sm_blockchain m) in
      if target \<le> current then m
      else m\<lparr>sm_state := Syncing current current target,
        sm_stats := (sm_stats m)\<lparr>is_syncing_flag := True, sync_start_time := now\<rparr>\<rparr>)"

definition stop_sync :: "'x SyncManager \<Rightarrow> 'x SyncManager" where
  "stop_sync m = m\<lparr>sm_state := Idle, sm_stats := (sm_stats m)\<lparr>is_syncing_flag := False\<rparr>\<rparr>"

definition is_syncing :: "'x SyncManager \<Rightarrow> bool" where
  "is_syncing m = (case sm_state m of Syncing _ _ _ \<Rightarrow> True | _ \<Rightarrow> False)"

definition add_peer :: "string \<Rightarrow> 'x SyncManager \<Rightarrow> 'x SyncManager" where
  "add_peer p m = m\<lparr>sm_peers := sm_peers m @ [p]\<rparr>"

definition remove_peer :: "string \<Rightarrow> 'x SyncManager \<Rightarrow> 'x SyncManager" where
  "remove_peer p m = m\<lparr>sm_peers := filter (\<lambda>q. q \<noteq> p) (sm_peers m)\<rparr>"

text \<open>The guard of \<open>state.read()\<close> lives until the end of the \<open>if let\<close>, whose body asks for
  \<open>state.write()\<close>: while syncing, an accepted block makes the call wait for itself.\<close>

definition process_block ::
    "block_externals \<Rightarrow> 'x executor \<Rightarrow> Block \<Rightarrow> 'x SyncManager \<Rightarrow>
     ((BlockchainError + unit) \<times> 'x SyncManager) option" where
  "process_block x exec block m =
     (case insert_block x exec block (sm_blockchain m) of
        None \<Rightarrow> None
      | Some (Inl e, c) \<Rightarrow> Some (Inl e, m\<lparr>sm_blockchain := c\<rparr>)
      | Some (Inr _, c) \<Rightarrow>
          (case sm_state m of
             Syncing _ _ _ \<Rightarrow> None
           | _ \<Rightarrow> Some (Inr (), m\<lparr>sm_blockchain := c\<rparr>)))"

definition queue_block :: "Block \<Rightarrow> 'x SyncManager \<Rightarrow> 'x SyncManager" where
  "queue_block block m =
     (if length (sm_pending m) < max_pending (sm_config m)
      then m\<lparr>sm_pending := sm_pending m @ [block]\<rparr> else m)"

fun process_queue ::
    "block_externals \<Rightarrow> 'x executor \<Rightarrow> Block list \<Rightarrow> 'x SyncManager \<Rightarrow>
     ((BlockchainError + unit) \<times> 'x SyncManager) option" where
  "process_queue x exec [] m = Some (Inr (), m\<lparr>sm_pending := []\<rparr>)"
| "process_queue x exec (block # rest) m =
     (case process_block x exec block m of
        None \<Rightarrow> None
      | Some (Inl e, m) \<Rightarrow> Some (Inl e, m\<lparr>sm_pending := rest\<rparr>)
      | Some (Inr _, m) \<Rightarrow> process_queue x exec rest m)"

definition process_queued_blocks ::
    "block_externals \<Rightarrow> 'x executor \<Rightarrow> 'x SyncManager \<Rightarrow>
     ((BlockchainError + unit) \<times> 'x SyncManager) option" where
  "process_queued_blocks x exec m = process_queue x exec (sm_pending m) m"


subsection \<open>What an insertion does\<close>

inductive chain_reach ::
    "block_externals \<Rightarrow> 'x executor \<Rightarrow> PowConsensus \<Rightarrow> 'x Blockchain \<Rightarrow> bool"
  for x exec con where
  start: "chain_reach x exec con (blockchain_new (externals.truncate x) con st)"
| insert: "chain_reach x exec con c \<Longrightarrow> insert_block x exec block c = Some (r, c') \<Longrightarrow>
    chain_reach x exec con c'"

lemma executor_self: "\<exists>st. c = c\<lparr>bc_executor := st\<rparr>"
  by (intro exI [of _ "bc_executor c"]) simp

lemma validate_block_Some:
  assumes "validate_block x exec block c = Some (r, c')"
  shows "\<exists>st. c' = c\<lparr>bc_executor := st\<rparr>"
    "r = Inr () \<Longrightarrow> \<exists>parent. bc_blocks c (h_parent_hash (bk_header block)) = Some parent \<and>
       header_validate x (bk_header block) (bk_header parent) = Inr () \<and>
       consensus_verify_pow x (bk_header block) = Some (Inr ())"
proof -
  show "\<exists>st. c' = c\<lparr>bc_executor := st\<rparr>"
    using assms by (auto simp: validate_block_def executor_self split: option.splits sum.splits prod.splits if_splits)
  show "r = Inr () \<Longrightarrow> \<exists>parent. bc_blocks c (h_parent_hash (bk_header block)) = Some parent \<and>
       header_validate x (bk_header block) (bk_header parent) = Inr () \<and>
       consensus_verify_pow x (bk_header block) = Some (Inr ())"
    using assms
    by (auto simp: validate_block_def get_block_def split: option.splits sum.splits prod.splits if_splits)
qed

text \<open>Storing a block, and making it the best one.\<close>

definition store_block :: "Block \<Rightarrow> 'x Blockchain \<Rightarrow> 'x Blockchain" where
  "store_block block c =
     c\<lparr>bc_blocks := (bc_blocks c)(h_hash (bk_header block) \<mapsto> block),
       bc_hashes_by_number :=
         (bc_hashes_by_number c)(as_u64 (h_number (bk_header block)) \<mapsto> h_hash (bk_header block))\<rparr>"

lemma insert_block_cases:
  assumes "insert_block x exec block c = Some (r, c')"
  obtains
    (old) "bc_blocks c (h_hash (bk_header block)) \<noteq> None" "r = Inr False" "c' = c"
  | (refused) e st where "r = Inl e" "c' = c\<lparr>bc_executor := st\<rparr>"
  | (new) st parent reward where
      "bc_blocks c (h_hash (bk_header block)) = None"
      "bc_blocks c (h_parent_hash (bk_header block)) = Some parent"
      "header_validate x (bk_header block) (bk_header parent) = Inr ()"
      "consensus_verify_pow x (bk_header block) = Some (Inr ())"
      "calculate_reward (bc_consensus c) (u256_from 1000) = Some reward"
      "r = Inr (u256_less (bc_total_difficulty c) (u256_add reward (h_difficulty (bk_header block))))"
      "c' = (if u256_less (bc_total_difficulty c) (u256_add reward (h_difficulty (bk_header block)))
         then update_best_block block (u256_add reward (h_difficulty (bk_header block)))
           (store_block block (c\<lparr>bc_executor := st\<rparr>))
         else store_block block (c\<lparr>bc_executor := st\<rparr>))"
proof (cases "bc_blocks c (h_hash (bk_header block)) = None")
  case False
  with assms old show ?thesis by (simp add: insert_block_def)
next
  case True
  with assms obtain v c1 where v: "validate_block x exec block c = Some (v, c1)"
    by (auto simp: insert_block_def Let_def split: option.splits)
  from validate_block_Some(1) [OF v] obtain st where c1: "c1 = c\<lparr>bc_executor := st\<rparr>" by blast
  show ?thesis
  proof (cases v)
    case (Inl e)
    with assms True v c1 refused [of e st] show ?thesis by (auto simp: insert_block_def)
  next
    case (Inr u)
    with validate_block_Some(2) [OF v] obtain parent where p:
      "bc_blocks c (h_parent_hash (bk_header block)) = Some parent"
      "header_validate x (bk_header block) (bk_header parent) = Inr ()"
      "consensus_verify_pow x (bk_header block) = Some (Inr ())" by auto
    with assms True v c1 Inr obtain reward where w:
      "calculate_reward (bc_consensus c) (u256_from 1000) = Some reward"
      by (auto simp: insert_block_def get_block_def get_total_difficulty_def Let_def split: option.splits)
    show ?thesis
      using assms True v Inr p w
      by (intro new [OF True p w, of st])
         (auto simp: insert_block_def get_block_def get_total_difficulty_def c1 store_block_def
           update_best_block_def Let_def split: if_splits)
  qed
qed

subsection \<open>Every stored block descends from the genesis block\<close>

definition parent_ok :: "block_externals \<Rightarrow> 'x Blockchain \<Rightarrow> Block \<Rightarrow> bool" where
  "parent_ok x c b \<longleftrightarrow> (\<exists>p. bc_blocks c (h_parent_hash (bk_header b)) = Some p \<and>
     header_validate x (bk_header b) (bk_header p) = Inr () \<and>
     consensus_verify_pow x (bk_header b) = Some (Inr ()))"

definition linked :: "block_externals \<Rightarrow> 'x Blockchain \<Rightarrow> bool" where
  "linked x c \<longleftrightarrow> (\<forall>h b. bc_blocks c h = Some b \<longrightarrow>
     h_hash (bk_header b) = h \<and> (b = bc_genesis c \<or> parent_ok x c b))"

definition indexed :: "'x Blockchain \<Rightarrow> bool" where
  "indexed c \<longleftrightarrow> (\<forall>n h. bc_hashes_by_number c n = Some h \<longrightarrow>
     (\<exists>b. bc_blocks c h = Some b \<and> as_u64 (h_number (bk_header b)) = n))"

text \<open>The total difficulty is that of the best block alone, on top of a constant.\<close>

definition weighed :: "'x Blockchain \<Rightarrow> bool" where
  "weighed c \<longleftrightarrow>
     (if bc_best_block c = bc_genesis c then bc_total_difficulty c = u256_zero
      else \<exists>r. calculate_reward (bc_consensus c) (u256_from 1000) = Some r \<and>
        bc_total_difficulty c = u256_add r (h_difficulty (bk_header (bc_best_block c))))"

definition chain_inv :: "block_externals \<Rightarrow> PowConsensus \<Rightarrow> 'x Blockchain \<Rightarrow> bool" where
  "chain_inv x con c \<longleftrightarrow>
     bc_consensus c = con \<and> bc_genesis c = create_genesis_block (externals.truncate x) \<and>
     bc_blocks c (h_hash (bk_header (bc_genesis c))) = Some (bc_genesis c) \<and>
     bc_blocks c (best_hash c) = Some (bc_best_block c) \<and> linked x c \<and> indexed c \<and> weighed c"

lemma genesis_fields:
  "h_number (bk_header (create_genesis_block x)) = u256_zero"
  "h_difficulty (bk_header (create_genesis_block x)) = u256_zero"
  "h_timestamp (bk_header (create_genesis_block x)) = 0"
  by (simp_all add: create_genesis_block_def with_body_def block_new_def Let_def)

lemma as_u64_zero: "as_u64 u256_zero = 0"
  by (simp add: as_u64_def from_be_def u256_zero_def)

lemma chain_inv_new: "chain_inv x con (blockchain_new (externals.truncate x) con st)"
  by (simp add: chain_inv_def blockchain_new_def Let_def best_hash_def genesis_fields as_u64_zero
      linked_def indexed_def weighed_def)

lemma chain_inv_executor: "chain_inv x con (c\<lparr>bc_executor := st\<rparr>) \<longleftrightarrow> chain_inv x con c"
  unfolding chain_inv_def linked_def indexed_def weighed_def parent_ok_def best_hash_def by simp

lemma linked_store:
  "linked x c \<Longrightarrow> bc_blocks c (h_hash (bk_header b)) = None \<Longrightarrow> parent_ok x c b \<Longrightarrow>
    linked x (store_block b (c\<lparr>bc_executor := st\<rparr>))"
  unfolding linked_def parent_ok_def store_block_def by (auto split: if_splits) fastforce+

lemma indexed_store:
  "indexed c \<Longrightarrow> bc_blocks c (h_hash (bk_header b)) = None \<Longrightarrow>
    indexed (store_block b (c\<lparr>bc_executor := st\<rparr>))"
  unfolding indexed_def store_block_def by (auto split: if_splits) fastforce+

lemma chain_inv_insert:
  assumes "chain_inv x con c" "insert_block x exec block c = Some (r, c')"
  shows "chain_inv x con c'"
  using assms(2)
proof (cases rule: insert_block_cases)
  case old
  with assms(1) show ?thesis by simp
next
  case (refused e st)
  with assms(1) show ?thesis by (simp add: chain_inv_executor)
next
  case (new st parent reward)
  let ?s = "store_block block (c\<lparr>bc_executor := st\<rparr>)"
  let ?td = "u256_add reward (h_difficulty (bk_header block))"
  from new have p: "parent_ok x c block" by (auto simp: parent_ok_def)
  have l: "linked x ?s" "indexed ?s"
    using assms(1) new(1) p by (auto simp: chain_inv_def intro: linked_store indexed_store)
  have g: "bc_blocks ?s (h_hash (bk_header (bc_genesis c))) = Some (bc_genesis c)"
    "bc_blocks ?s (best_hash c) = Some (bc_best_block c)"
    using assms(1) new(1) by (auto simp: chain_inv_def store_block_def)
  have ne: "block \<noteq> bc_genesis c" using assms(1) new(1) by (auto simp: chain_inv_def)
  have f: "bc_genesis ?s = bc_genesis c" "bc_best_block ?s = bc_best_block c" "bc_consensus ?s = bc_consensus c"
    "bc_total_difficulty ?s = bc_total_difficulty c" by (simp_all add: store_block_def)
  show ?thesis
  proof (cases "u256_less (bc_total_difficulty c) ?td")
    case False
    with new(7) have "c' = ?s" by simp
    moreover have "weighed ?s" using assms(1) unfolding chain_inv_def weighed_def f by blast
    ultimately show ?thesis using assms(1) l g f by (simp add: chain_inv_def best_hash_def)
  next
    case True
    with new(7) have c': "c' = update_best_block block ?td ?s" by simp
    have "linked x c'" "indexed c'" using l
      by (simp_all add: c' update_best_block_def linked_def indexed_def parent_ok_def)
    moreover have "weighed c'" using new(5) ne by (simp add: c' weighed_def update_best_block_def f)
    moreover have "bc_blocks ?s (h_hash (bk_header block)) = Some block" by (simp add: store_block_def)
    ultimately show ?thesis using assms(1) g(1) f
      by (simp add: c' chain_inv_def update_best_block_def best_hash_def)
  qed
qed

lemma chain_reach_inv: "chain_reach x exec con c \<Longrightarrow> chain_inv x con c"
  by (induction rule: chain_reach.induct) (auto intro: chain_inv_new chain_inv_insert)

fun ancestor :: "'x Blockchain \<Rightarrow> nat \<Rightarrow> Block \<Rightarrow> Block option" where
  "ancestor c 0 b = Some b"
| "ancestor c (Suc n) b = Option.bind (bc_blocks c (h_parent_hash (bk_header b))) (ancestor c n)"

lemma header_validate_Inr:
  "header_validate x h parent = Inr () \<longleftrightarrow>
     h_parent_hash h = (if h_hash parent = 0 then canonical_hash x parent else h_hash parent) \<and>
     h_number h = u256_add (h_number parent) u256_one \<and> h_timestamp parent < h_timestamp h \<and>
     length (h_extra_data h) \<le> 32"
  by (auto simp: header_validate_def Let_def)

definition valid_link :: "block_externals \<Rightarrow> 'x Blockchain \<Rightarrow> Block \<Rightarrow> nat \<Rightarrow> bool" where
  "valid_link x c b i \<longleftrightarrow> (\<exists>child parent. ancestor c i b = Some child \<and> ancestor c (Suc i) b = Some parent \<and>
     h_parent_hash (bk_header child) = h_hash (bk_header parent) \<and>
     header_validate x (bk_header child) (bk_header parent) = Inr () \<and>
     consensus_verify_pow x (bk_header child) = Some (Inr ()))"

lemma ancestor_Suc: "bc_blocks c (h_parent_hash (bk_header b)) = Some p \<Longrightarrow> ancestor c (Suc i) b = ancestor c i p"
  by simp

lemma descent_of_stored:
  assumes "chain_inv x con c" "bc_blocks c h = Some b"
  shows "\<exists>n. ancestor c n b = Some (bc_genesis c) \<and> (\<forall>i<n. valid_link x c b i) \<and> u256_wf (h_number (bk_header b)) \<and>
    be_value (h_number (bk_header b)) = n \<and> n \<le> unat (h_timestamp (bk_header b))"
  using assms(2)
proof (induction "unat (h_timestamp (bk_header b))" arbitrary: h b rule: less_induct)
  case less
  note inv = assms(1)
  show ?case
  proof (cases "b = bc_genesis c")
    case True
    with inv show ?thesis by (intro exI [of _ 0]) (simp add: chain_inv_def genesis_fields)
  next
    case False
    with inv less.prems obtain p where p: "bc_blocks c (h_parent_hash (bk_header b)) = Some p"
      "header_validate x (bk_header b) (bk_header p) = Inr ()" "consensus_verify_pow x (bk_header b) = Some (Inr ())"
      by (auto simp: chain_inv_def linked_def parent_ok_def)
    have k: "h_hash (bk_header p) = h_parent_hash (bk_header b)" using inv p(1) by (auto simp: chain_inv_def linked_def)
    from p have t: "unat (h_timestamp (bk_header p)) < unat (h_timestamp (bk_header b))"
      "h_number (bk_header b) = u256_add (h_number (bk_header p)) u256_one"
      by (simp_all add: header_validate_Inr word_less_nat_alt)
    from less.hyps [OF t(1) p(1)] obtain n where n: "ancestor c n p = Some (bc_genesis c)" "\<forall>i<n. valid_link x c p i"
      "u256_wf (h_number (bk_header p))" "be_value (h_number (bk_header p)) = n"
      "n \<le> unat (h_timestamp (bk_header p))" by blast
    have "valid_link x c b i" if "i < Suc n" for i
      using that n(2) p k by (cases i) (auto simp: valid_link_def)
    moreover have "n + 1 < 2 ^ 256" using n(5) t(1) unat_word_less [of "h_timestamp (bk_header b)"] by simp
    then have "be_value (h_number (bk_header b)) = Suc n" "u256_wf (h_number (bk_header b))"
      using u256_add_value [OF n(3), of u256_one] n(4) t(2) by simp_all
    ultimately show ?thesis using n(1,5) t(1) p(1) by (intro exI [of _ "Suc n"]) simp
  qed
qed

text \<open>C40: Whatever blocks were offered to it, the store holds its best block, and every block in the store is
  filed under its hash and descends from the genesis block by as many links as its number says; on each link the
  block names the hash of its parent, its header passes the check against the parent's and its proof of work is
  accepted.\<close>

theorem stored_blocks_descend_from_genesis:
  assumes "chain_reach x exec con c"
  shows "bc_blocks c (best_hash c) = Some (bc_best_block c) \<and>
    (\<forall>h b. bc_blocks c h = Some b \<longrightarrow> h_hash (bk_header b) = h \<and>
      (\<exists>n. ancestor c n b = Some (bc_genesis c) \<and> (\<forall>i<n. valid_link x c b i) \<and>
        u256_wf (h_number (bk_header b)) \<and> be_value (h_number (bk_header b)) = n \<and> n \<le> unat (h_timestamp (bk_header b))))"
proof -
  have inv: "chain_inv x con c" using assms by (rule chain_reach_inv)
  then show ?thesis using descent_of_stored [OF inv] by (auto simp: chain_inv_def linked_def)
qed


subsection \<open>A run of the chain\<close>

lemma insert_block_new:
  assumes "bc_blocks c (h_hash (bk_header b)) = None" "bc_blocks c (h_parent_hash (bk_header b)) = Some parent"
    and "header_validate x (bk_header b) (bk_header parent) = Inr ()"
    and "consensus_verify_pow x (bk_header b) = Some (Inr ())" "\<not> has_compute_txs b"
    and "calculate_reward (bc_consensus c) (u256_from 1000) = Some reward"
  shows "insert_block x exec b c =
    (let td = u256_add reward (h_difficulty (bk_header b)) in
     if u256_less (bc_total_difficulty c) td
     then Some (Inr True, update_best_block b td (store_block b c)) else Some (Inr False, store_block b c))"
  using assms by (simp add: insert_block_def validate_block_def get_block_def get_total_difficulty_def
      store_block_def update_best_block_def Let_def)

definition engine_reward :: U256 where
  "engine_reward = u256_from_u128 5000000000000000000"

lemma engine_reward_1000: "calculate_reward (pow_consensus_new alg) (u256_from 1000) = Some engine_reward"
proof -
  have "as_u64 (u256_from 1000) = 1000"
    by (simp add: as_u64_def from_be_def u256_from_def be_value_be_bytes)
  then show ?thesis by (simp add: calculate_reward_def pow_consensus_new_def engine_reward_def unat_div)
qed

lemma u256_less_wf: "u256_wf a \<Longrightarrow> u256_wf b \<Longrightarrow> u256_less a b \<longleftrightarrow> be_value a < be_value b"
  by (simp add: u256_less_iff u256_wf_def)

lemma engine_reward_add:
  assumes "u256_wf d" "be_value d < 2 ^ 255"
  shows "u256_wf (u256_add engine_reward d)" "be_value (u256_add engine_reward d) = 5000000000000000000 + be_value d"
  using assms u256_add_value [of engine_reward d] by (simp_all add: engine_reward_def)

text \<open>A block without a body on a given parent.\<close>

definition sample_block :: "hash \<Rightarrow> U256 \<Rightarrow> u64 \<Rightarrow> U256 \<Rightarrow> hash \<Rightarrow> Block" where
  "sample_block p n t d k =
     \<lparr>bk_header = sample_header\<lparr>h_parent_hash := p, h_number := n, h_timestamp := t, h_difficulty := d, h_hash := k\<rparr>,
      bk_body = None, bk_uncles = []\<rparr>"

lemma sample_block_simps [simp]:
  "h_parent_hash (bk_header (sample_block p n t d k)) = p" "h_number (bk_header (sample_block p n t d k)) = n"
  "h_timestamp (bk_header (sample_block p n t d k)) = t" "h_difficulty (bk_header (sample_block p n t d k)) = d"
  "h_hash (bk_header (sample_block p n t d k)) = k" "\<not> has_compute_txs (sample_block p n t d k)"
  "length (h_extra_data (bk_header (sample_block p n t d k))) = 19"
  by (simp_all add: sample_block_def has_compute_txs_def sample_header_def create_genesis_block_def
      with_body_def block_new_def Let_def)

lemma sample_block_pow:
  "u256_wf d \<Longrightarrow> 255 < be_value d \<Longrightarrow> be_value n \<noteq> 0 \<Longrightarrow>
    consensus_verify_pow sample_block_externals (bk_header (sample_block p n t d k)) = Some (Inr ())"
  by (subst consensus_verify_pow_large)
     (simp_all add: compute_pow_hash_def sample_block_externals_def externals.defs)

definition sample_exec :: "unit executor" where
  "sample_exec b root st = (Inr root, st)"

definition sample_chain :: "unit Blockchain" where
  "sample_chain = blockchain_new sample_externals (pow_consensus_new LightHash) ()"

definition sample_first :: Block where
  "sample_first = sample_block 5 (u256_add u256_zero u256_one) 1 (u256_from 1000) 6"

definition sample_chain1 :: "unit Blockchain" where
  "sample_chain1 = update_best_block sample_first (u256_add engine_reward (u256_from 1000))
     (store_block sample_first sample_chain)"

lemma sample_chain_simps:
  "bc_consensus sample_chain = pow_consensus_new LightHash" "bc_total_difficulty sample_chain = u256_zero"
  "bc_blocks sample_chain = [5 \<mapsto> create_genesis_block sample_externals]"
  "bc_genesis sample_chain = create_genesis_block sample_externals"
  "h_hash (bk_header (create_genesis_block sample_externals)) = 5"
  by (simp_all add: sample_chain_def blockchain_new_def Let_def create_genesis_block_def with_body_def
      block_new_def compute_hash_def sample_externals_def)

lemma sample_truncate: "externals.truncate sample_block_externals = sample_externals"
  by (simp add: sample_block_externals_def externals.defs)

lemma sample_chain_reach: "chain_reach sample_block_externals sample_exec (pow_consensus_new LightHash) sample_chain"
  unfolding sample_chain_def sample_truncate [symmetric] by (rule chain_reach.start)

lemma sample_first_value: "be_value (u256_add u256_zero u256_one) = 1" "u256_wf (u256_add u256_zero u256_one)"
  using u256_add_value [of u256_zero u256_one] by simp_all

lemma sample_first_inserted:
  "insert_block sample_block_externals sample_exec sample_first sample_chain = Some (Inr True, sample_chain1)"
proof -
  have "insert_block sample_block_externals sample_exec sample_first sample_chain =
    (let td = u256_add engine_reward (u256_from 1000) in
     if u256_less (bc_total_difficulty sample_chain) td
     then Some (Inr True, update_best_block sample_first td (store_block sample_first sample_chain))
     else Some (Inr False, store_block sample_first sample_chain))"
    by (subst insert_block_new [where reward = engine_reward and parent = "create_genesis_block sample_externals"])
       (simp_all add: sample_chain_simps sample_first_def header_validate_Inr genesis_fields [of sample_externals]
         sample_block_pow sample_first_value engine_reward_1000)
  moreover have "u256_less u256_zero (u256_add engine_reward (u256_from 1000))"
    using engine_reward_add [of "u256_from 1000"] by (simp add: u256_less_wf)
  ultimately show ?thesis by (simp add: sample_chain_simps sample_chain1_def)
qed

lemma sample_chain1_reach:
  "chain_reach sample_block_externals sample_exec (pow_consensus_new LightHash) sample_chain1"
  using sample_chain_reach sample_first_inserted by (rule chain_reach.insert)

lemma sample_chain1_simps:
  "bc_consensus sample_chain1 = pow_consensus_new LightHash" "bc_best_block sample_chain1 = sample_first"
  "bc_total_difficulty sample_chain1 = u256_add engine_reward (u256_from 1000)"
  "bc_blocks sample_chain1 = [5 \<mapsto> create_genesis_block sample_externals, 6 \<mapsto> sample_first]"
  "bc_genesis sample_chain1 = create_genesis_block sample_externals"
  by (simp_all add: sample_chain1_def update_best_block_def store_block_def sample_first_def sample_chain_simps)

lemma stored_blocks_descend_from_genesis_witness:
  "ancestor sample_chain1 1 sample_first = Some (create_genesis_block sample_externals) \<and>
   valid_link sample_block_externals sample_chain1 sample_first 0"
proof -
  have "bc_blocks sample_chain1 6 = Some sample_first" by (simp add: sample_chain1_simps)
  with stored_blocks_descend_from_genesis [OF sample_chain1_reach] obtain n where n:
    "ancestor sample_chain1 n sample_first = Some (bc_genesis sample_chain1)"
    "\<forall>i<n. valid_link sample_block_externals sample_chain1 sample_first i" "be_value (h_number (bk_header sample_first)) = n"
    by blast
  moreover have "n = 1" using n(3) by (simp add: sample_first_def sample_first_value)
  ultimately show ?thesis by (simp add: sample_chain1_simps)
qed

subsection \<open>Which block becomes the best one\<close>

text \<open>Once the best block is not the genesis block, a block whose own difficulty does not exceed
  that of the best block never replaces it, even when it extends it: the difficulty of the
  ancestors does not count.\<close>

theorem heavier_chain_is_ignored:
  assumes "chain_reach x exec (pow_consensus_new alg) c" "bc_best_block c \<noteq> bc_genesis c"
    and "insert_block x exec b c = Some (Inr r, c')"
    and "u256_wf (h_difficulty (bk_header b))" "u256_wf (h_difficulty (bk_header (bc_best_block c)))"
    and "be_value (h_difficulty (bk_header b)) \<le> be_value (h_difficulty (bk_header (bc_best_block c)))"
    and "be_value (h_difficulty (bk_header (bc_best_block c))) < 2 ^ 255"
  shows "\<not> r \<and> bc_best_block c' = bc_best_block c"
proof -
  have inv: "chain_inv x (pow_consensus_new alg) c" using assms(1) by (rule chain_reach_inv)
  then have td: "bc_total_difficulty c = u256_add engine_reward (h_difficulty (bk_header (bc_best_block c)))"
    "bc_consensus c = pow_consensus_new alg"
    using assms(2) by (auto simp: chain_inv_def weighed_def engine_reward_1000)
  have "be_value (h_difficulty (bk_header b)) < 2 ^ 255" using assms(6,7) by linarith
  note a = engine_reward_add [OF assms(4) this] engine_reward_add [OF assms(5,7)]
  have "\<not> u256_less (bc_total_difficulty c) (u256_add engine_reward (h_difficulty (bk_header b)))"
    using a assms(6) by (simp add: td u256_less_wf)
  with assms(3) show ?thesis
    by (cases rule: insert_block_cases) (auto simp: td engine_reward_1000 store_block_def)
qed

lemma heavier_chain_is_ignored_witness:
  "\<exists>c. insert_block sample_block_externals sample_exec
      (sample_block 6 (u256_add (u256_add u256_zero u256_one) u256_one) 2 (u256_from 1000) 7) sample_chain1
      = Some (Inr False, c) \<and> bc_best_block c = sample_first"
proof -
  let ?b = "sample_block 6 (u256_add (u256_add u256_zero u256_one) u256_one) 2 (u256_from 1000) 7"
  have n: "be_value (u256_add (u256_add u256_zero u256_one) u256_one) \<noteq> 0"
    using u256_add_value [of "u256_add u256_zero u256_one" u256_one] by (simp add: sample_first_value)
  obtain r c where i: "insert_block sample_block_externals sample_exec ?b sample_chain1 = Some (Inr r, c)"
  proof -
    have "insert_block sample_block_externals sample_exec ?b sample_chain1 =
      (let td = u256_add engine_reward (u256_from 1000) in
       if u256_less (bc_total_difficulty sample_chain1) td
       then Some (Inr True, update_best_block ?b td (store_block ?b sample_chain1))
       else Some (Inr False, store_block ?b sample_chain1))"
      using n by (subst insert_block_new [where reward = engine_reward and parent = sample_first])
         (simp_all add: sample_chain1_simps header_validate_Inr sample_block_pow engine_reward_1000 sample_first_def)
    then show ?thesis using that by (auto simp: Let_def split: if_splits)
  qed
  have "sample_first \<noteq> create_genesis_block sample_externals"
    using genesis_fields(3) by (metis sample_block_simps(3) sample_first_def zero_neq_one)
  with heavier_chain_is_ignored [OF sample_chain1_reach _ i] i show ?thesis
    by (auto simp: sample_chain1_simps sample_first_def)
qed

text \<open>Every block that is newly stored takes over its number in the index, also when it does not
  become the best block: the block served for that number is then not on the best chain.\<close>

theorem side_block_takes_number:
  assumes "insert_block x exec b c = Some (Inr r, c')" "bc_blocks c (h_hash (bk_header b)) = None"
  shows "get_block_by_number (as_u64 (h_number (bk_header b))) c' = Some b \<and>
    bc_best_block c' = (if r then b else bc_best_block c)"
  using assms(1)
proof (cases rule: insert_block_cases)
  case (new st parent reward)
  then show ?thesis
    by (auto simp: get_block_by_number_def get_block_def store_block_def update_best_block_def)
qed (use assms(2) in auto)

lemma side_block_takes_number_witness:
  "get_block_by_number 1 sample_chain1 = Some sample_first"
proof -
  have "as_u64 (h_number (bk_header sample_first)) = 1"
  proof -
    have "u256_add u256_zero u256_one = u256_one"
      using sample_first_value u256_wf_simps(2) by (intro be_value_inj) (simp_all only: u256_wf_def u256_one_value)
    then show ?thesis by (simp add: sample_first_def as_u64_def from_be_def u256_one_eq be_value_append)
  qed
  moreover have "bc_blocks sample_chain (h_hash (bk_header sample_first)) = None"
    by (simp add: sample_chain_simps sample_first_def)
  ultimately show ?thesis using side_block_takes_number [OF sample_first_inserted] by simp
qed

text \<open>The hash a block claims is never compared with its contents: a block without transactions
  that is accepted as new is accepted under every other unused hash as well, with the same effect.\<close>

theorem claimed_hash_is_trusted:
  assumes "insert_block x exec b c = Some (Inr r, c')" "bc_blocks c (h_hash (bk_header b)) = None"
    and "\<not> has_compute_txs b" "bc_blocks c k = None"
  shows "\<exists>c2. insert_block x exec (b\<lparr>bk_header := (bk_header b)\<lparr>h_hash := k\<rparr>\<rparr>) c = Some (Inr r, c2) \<and>
    get_block k c2 = Some (b\<lparr>bk_header := (bk_header b)\<lparr>h_hash := k\<rparr>\<rparr>)"
  using assms(1)
proof (cases rule: insert_block_cases)
  case (new st parent reward)
  let ?b = "b\<lparr>bk_header := (bk_header b)\<lparr>h_hash := k\<rparr>\<rparr>"
  have e: "encode_canonical_hash_preimage (h\<lparr>h_hash := k\<rparr>) = encode_canonical_hash_preimage h" for h
    by (simp add: encode_canonical_hash_preimage_def)
  have "compute_pow_hash x (h\<lparr>h_hash := k\<rparr>) n = compute_pow_hash x h n" for h n
    by (simp add: compute_pow_hash_def encode_canonical_hash_preimage_def)
  then have "consensus_verify_pow x (bk_header ?b) = consensus_verify_pow x (bk_header b)"
    by (simp add: consensus_verify_pow_def consensus_compute_def)
  with new(4) have p: "consensus_verify_pow x (bk_header ?b) = Some (Inr ())" by (simp only:)
  have "insert_block x exec ?b c =
    (let td = u256_add reward (h_difficulty (bk_header ?b)) in
     if u256_less (bc_total_difficulty c) td
     then Some (Inr True, update_best_block ?b td (store_block ?b c)) else Some (Inr False, store_block ?b c))"
    using new(2,3,5) assms(3,4) p
    by (intro insert_block_new [where parent = parent]) (simp_all add: header_validate_Inr has_compute_txs_def)
  then show ?thesis using new(6)
    by (auto simp: Let_def get_block_def store_block_def update_best_block_def)
qed (use assms(2) in auto)

lemma claimed_hash_is_trusted_witness:
  "\<exists>c2. insert_block sample_block_externals sample_exec
      (sample_first\<lparr>bk_header := (bk_header sample_first)\<lparr>h_hash := 99\<rparr>\<rparr>) sample_chain = Some (Inr True, c2)"
  using claimed_hash_is_trusted [OF sample_first_inserted, of 99]
  by (auto simp: sample_chain_simps sample_first_def)

subsection \<open>Fork choice and synchroniser\<close>

lemma max_by_max:
  assumes "\<And>a b. a \<in> set as \<Longrightarrow> b \<in> set as \<Longrightarrow> lt a b \<longleftrightarrow> (f a :: nat) < f b" "max_by lt as = Some m"
  shows "m \<in> set as \<and> (\<forall>a \<in> set as. f a \<le> f m)"
proof -
  have k: "fold (\<lambda>b best. if lt b best then best else b) xs a \<in> set (a # xs) \<and>
      (\<forall>b \<in> set (a # xs). f b \<le> f (fold (\<lambda>b best. if lt b best then best else b) xs a))"
    if "set (a # xs) \<subseteq> set as" for a xs
    using that
  proof (induction xs arbitrary: a)
    case (Cons b xs)
    let ?a = "if lt b a then a else b"
    have "lt b a \<longleftrightarrow> f b < f a" using Cons.prems by (intro assms(1)) auto
    moreover have "set (?a # xs) \<subseteq> set as" using Cons.prems by auto
    ultimately show ?case using Cons.IH [of ?a] by (auto split: if_splits)
  qed simp
  from assms(2) obtain a xs where "as = a # xs" "m = fold (\<lambda>b best. if lt b best then best else b) xs a"
    by (cases as) auto
  with k [of a xs] show ?thesis by simp
qed

lemma ghost_select_best_max:
  assumes "\<forall>h \<in> set cs. u256_wf (h_difficulty h)" "ghost_select_best cs = Some m"
  shows "m \<in> set cs \<and> (\<forall>h \<in> set cs. be_value (h_difficulty h) \<le> be_value (h_difficulty m))"
  using assms by (intro max_by_max [where lt = "\<lambda>a b. u256_less (h_difficulty a) (h_difficulty b)"])
    (auto simp: ghost_select_best_def u256_less_iff u256_wf_def split: if_splits)

text \<open>While it is synchronising, the manager never returns from processing a block that the
  chain accepts: the call waits for a lock it holds.\<close>

theorem sync_waits_for_itself:
  assumes "best_number (sm_blockchain m) < target"
    and "insert_block x exec b (sm_blockchain m) = Some (Inr r, c)"
  shows "process_block x exec b (start_sync now target m) = None \<and>
    process_queued_blocks x exec ((start_sync now target m)\<lparr>sm_pending := b # rest\<rparr>) = None"
  using assms by (simp add: process_block_def process_queued_blocks_def start_sync_def Let_def not_le [symmetric])

lemma sample_best_number: "best_number sample_chain = 0"
  by (simp add: best_number_def sample_chain_def blockchain_new_def Let_def genesis_fields as_u64_zero)

lemma sync_waits_for_itself_witness:
  "process_block sample_block_externals sample_exec sample_first
     (start_sync 0 10 (sync_manager_new SyncConfig_default sample_chain)) = None"
  by (rule sync_waits_for_itself [THEN conjunct1])
     (simp_all add: sync_manager_new_def sample_first_inserted sample_best_number)

end
