(* ===== verification/Governance.thy ===== *)
theory Governance
  imports Prelude
begin

section \<open>Governance\<close>

text \<open>
  \<open>governance.rs\<close>: proposals with a deposit, votes weighted by stake within a window, the tally, the
  execution of passed proposals and the treasury ledger.  The parameters of a configuration change
  are a \<open>serde_json\<close> value: the type \<open>'j\<close>.  A handler that takes \<open>&mut\<close> returns the new value beside
  its result.  The life of a proposal and the treasury under any sequence of calls is the step
  relation \<open>gov_step\<close>.
\<close>

subsection \<open>Data\<close>

definition VOTE_WINDOW_SECS :: u64 where "VOTE_WINDOW_SECS = 72 * 3600"
definition DEPOSIT_SH :: u64 where "DEPOSIT_SH = 1000"
definition PASS_PROMILLE :: u64 where "PASS_PROMILLE = 500"

datatype 'j ProposalKind =
    UpdateConfig string 'j
  | FundActivity u64 string
  | Freeze string string
  | AddGameOp string string
  | MintShc string u64

datatype ProposalStatus = Active | Passed | Rejected | Executed | Withdrawn

record 'j Proposal =
  proposal_id :: string
  pr_kind :: "'j ProposalKind"
  proposer :: string
  deposit :: u64
  created_at_unix :: u64
  deadline_unix :: u64
  votes_for :: u128
  votes_against :: u128
  pr_status :: ProposalStatus

datatype GovernanceError =
    DepositTooLow u64 u64
  | NotActive ProposalStatus
  | Expired
  | ZeroStake
  | NotPassed ProposalStatus
  | InsufficientTreasury u128 u128
  | InvalidStatusTransition ProposalStatus

datatype LedgerEvent = Income string u64 | Expense string u64 string

datatype 'j ProposalOutcome =
    ConfigUpdated string 'j
  | ActivityFunded u64 string string
  | ObjectFrozen string string
  | GameOpApproved string string
  | MintShcExecuted string u64

record 'j TreasuryLedger =
  balance :: u128
  events :: "LedgerEvent list"
  executions :: "'j ProposalOutcome list"

subsection \<open>Proposals\<close>

definition create_proposal ::
    "string \<Rightarrow> 'j ProposalKind \<Rightarrow> string \<Rightarrow> u64 \<Rightarrow> u64 \<Rightarrow> GovernanceError + 'j Proposal" where
  "create_proposal pid kind who amount now =
     (if amount < DEPOSIT_SH then Inl (DepositTooLow amount DEPOSIT_SH)
      else Inr \<lparr>proposal_id = pid, pr_kind = kind, proposer = who, deposit = amount,
        created_at_unix = now, deadline_unix = saturating_add now VOTE_WINDOW_SECS,
        votes_for = 0, votes_against = 0, pr_status = Active\<rparr>)"

definition cast_vote :: "u128 \<Rightarrow> bool \<Rightarrow> u64 \<Rightarrow> 'j Proposal \<Rightarrow> GovernanceError + 'j Proposal" where
  "cast_vote stake approve now p =
     (if pr_status p \<noteq> Active then Inl (NotActive (pr_status p))
      else if deadline_unix p < now then Inl Expired
      else if stake = 0 then Inl ZeroStake
      else if approve then Inr (p\<lparr>votes_for := saturating_add (votes_for p) stake\<rparr>)
      else Inr (p\<lparr>votes_against := saturating_add (votes_against p) stake\<rparr>))"

definition tally :: "u64 \<Rightarrow> 'j Proposal \<Rightarrow> ProposalStatus \<times> 'j Proposal" where
  "tally now p =
     (if pr_status p \<noteq> Active then (pr_status p, p)
      else if now \<le> deadline_unix p then (Active, p)
      else
        let total = saturating_add (votes_for p) (votes_against p);
            threshold = saturating_mul total (ucast PASS_PROMILLE);
            status = (if 0 < total \<and> threshold \<le> saturating_mul (votes_for p) 1000
                      then Passed else Rejected)
        in (status, p\<lparr>pr_status := status\<rparr>))"

subsection \<open>Treasury\<close>

definition ledger_new :: "'j TreasuryLedger" where
  "ledger_new = \<lparr>balance = 0, events = [], executions = []\<rparr>"

definition record_execution :: "'j ProposalOutcome \<Rightarrow> 'j TreasuryLedger \<Rightarrow> 'j TreasuryLedger" where
  "record_execution outcome l = l\<lparr>executions := executions l @ [outcome]\<rparr>"

definition record_income :: "string \<Rightarrow> u64 \<Rightarrow> 'j TreasuryLedger \<Rightarrow> 'j TreasuryLedger" where
  "record_income source amount l =
     l\<lparr>balance := saturating_add (balance l) (ucast amount), events := events l @ [Income source amount]\<rparr>"

definition record_expense ::
    "string \<Rightarrow> u64 \<Rightarrow> string \<Rightarrow> 'j TreasuryLedger \<Rightarrow> GovernanceError + 'j TreasuryLedger" where
  "record_expense destination amount memo l =
     (if balance l < ucast amount then Inl (InsufficientTreasury (balance l) (ucast amount))
      else Inr (l\<lparr>balance := balance l - ucast amount,
        events := events l @ [Expense destination amount memo]\<rparr>))"

definition execute_proposal ::
    "'j Proposal \<Rightarrow> 'j TreasuryLedger \<Rightarrow>
     GovernanceError + ('j ProposalOutcome \<times> 'j Proposal \<times> 'j TreasuryLedger)" where
  "execute_proposal p l =
     (if pr_status p \<noteq> Passed then Inl (NotPassed (pr_status p))
      else and_then
        (case pr_kind p of
           FundActivity amount memo \<Rightarrow>
             (case record_expense ''activity'' amount memo l of
                Inl _ \<Rightarrow> Inl (InsufficientTreasury (balance l) (ucast amount))
              | Inr l' \<Rightarrow> Inr (ActivityFunded amount ''activity'' memo, l'))
         | UpdateConfig object params \<Rightarrow> Inr (ConfigUpdated object params, l)
         | Freeze object reason \<Rightarrow> Inr (ObjectFrozen object reason, l)
         | AddGameOp name description \<Rightarrow> Inr (GameOpApproved name description, l)
         | MintShc dest amount \<Rightarrow> Inr (MintShcExecuted dest amount, l))
        (\<lambda>(outcome, l'). Inr (outcome, p\<lparr>pr_status := Executed\<rparr>, l')))"

subsection \<open>The life of a proposal\<close>

text \<open>A proposal and the treasury, with the votes accepted and the proposals executed so far, under
  calls of the operations at non-decreasing times.\<close>

record 'j governance =
  g_proposal :: "'j Proposal"
  g_ledger :: "'j TreasuryLedger"
  g_now :: u64
  g_votes :: "(u128 \<times> bool) list"
  g_executed :: "'j ProposalOutcome list"

inductive gov_step :: "'j governance \<Rightarrow> 'j governance \<Rightarrow> bool" where
  vote: "g_now g \<le> now \<Longrightarrow> cast_vote stake approve now (g_proposal g) = Inr p \<Longrightarrow>
    gov_step g (g\<lparr>g_proposal := p, g_now := now, g_votes := g_votes g @ [(stake, approve)]\<rparr>)"
| count: "g_now g \<le> now \<Longrightarrow> tally now (g_proposal g) = (st, p) \<Longrightarrow>
    gov_step g (g\<lparr>g_proposal := p, g_now := now\<rparr>)"
| income: "gov_step g (g\<lparr>g_ledger := record_income source amount (g_ledger g)\<rparr>)"
| expense: "record_expense destination amount memo (g_ledger g) = Inr l \<Longrightarrow>
    gov_step g (g\<lparr>g_ledger := l\<rparr>)"
| execute: "execute_proposal (g_proposal g) (g_ledger g) = Inr (outcome, p, l) \<Longrightarrow>
    gov_step g (g\<lparr>g_proposal := p, g_ledger := l, g_executed := g_executed g @ [outcome]\<rparr>)"
| recorded: "gov_step g (g\<lparr>g_ledger := record_execution outcome (g_ledger g)\<rparr>)"

definition gov_init :: "'j Proposal \<Rightarrow> u64 \<Rightarrow> 'j governance" where
  "gov_init p now = \<lparr>g_proposal = p, g_ledger = ledger_new, g_now = now, g_votes = [], g_executed = []\<rparr>"

inductive gov_reach :: "'j governance \<Rightarrow> bool" where
  init: "create_proposal pid kind who amount now = Inr p \<Longrightarrow> gov_reach (gov_init p now)"
| step: "gov_reach g \<Longrightarrow> gov_step g g' \<Longrightarrow> gov_reach g'"

inductive_cases gov_stepE: "gov_step g g'"


subsection \<open>Votes, majority and single execution\<close>

definition stake_sum :: "bool \<Rightarrow> (u128 \<times> bool) list \<Rightarrow> nat" where
  "stake_sum b votes = sum_list (map (\<lambda>(stake, approve). if approve = b then unat stake else 0) votes)"

lemma stake_sum_simps [simp]:
  "stake_sum b [] = 0"
  "stake_sum b (votes @ [(stake, approve)]) = stake_sum b votes + (if approve = b then unat stake else 0)"
  by (simp_all add: stake_sum_def)

definition majority :: "(u128 \<times> bool) list \<Rightarrow> bool" where
  "majority votes \<longleftrightarrow> 0 < stake_sum True votes + stake_sum False votes \<and>
     stake_sum False votes \<le> stake_sum True votes"

definition gov_inv :: "'j governance \<Rightarrow> bool" where
  "gov_inv g \<longleftrightarrow>
     unat (votes_for (g_proposal g)) = min (stake_sum True (g_votes g)) (2 ^ 128 - 1) \<and>
     unat (votes_against (g_proposal g)) = min (stake_sum False (g_votes g)) (2 ^ 128 - 1) \<and>
     (pr_status (g_proposal g) \<noteq> Active \<longrightarrow> deadline_unix (g_proposal g) < g_now g) \<and>
     (pr_status (g_proposal g) \<in> {Passed, Executed} \<longrightarrow>
        stake_sum True (g_votes g) + stake_sum False (g_votes g) < 2 ^ 118 \<longrightarrow> majority (g_votes g)) \<and>
     length (g_executed g) = (if pr_status (g_proposal g) = Executed then 1 else 0)"

lemma saturating_sum:
  "unat a = min s (2 ^ 128 - 1) \<Longrightarrow> unat (saturating_add a (b :: u128)) = min (s + unat b) (2 ^ 128 - 1)"
  by (simp add: unat_saturating_add)

lemma tally_majority:
  assumes "unat f = stake_sum True votes" "unat a = stake_sum False votes"
    and "stake_sum True votes + stake_sum False votes < 2 ^ 118"
    and "0 < saturating_add f (a :: u128)"
    and "saturating_mul (saturating_add f a) (ucast PASS_PROMILLE) \<le> saturating_mul f 1000"
  shows "majority votes"
proof -
  have t: "unat (saturating_add f a) = unat f + unat a"
    using assms(1-3) by (simp add: unat_saturating_add)
  have "(unat f + unat a) * 500 \<le> unat f * 1000"
    using assms(1-3,5) by (simp add: word_le_nat_alt unat_saturating_mul t PASS_PROMILLE_def)
  moreover have "0 < unat f + unat a" using assms(4) by (simp add: word_less_nat_alt t)
  ultimately show ?thesis using assms(1,2) by (simp add: majority_def)
qed

lemma gov_inv_init: "create_proposal pid kind who amount now = Inr p \<Longrightarrow> gov_inv (gov_init p now)"
  by (auto simp: create_proposal_def gov_init_def gov_inv_def split: if_splits)

lemma gov_inv_vote:
  assumes "gov_inv g" "g_now g \<le> now" "cast_vote stake approve now (g_proposal g) = Inr p"
  shows "gov_inv (g\<lparr>g_proposal := p, g_now := now, g_votes := g_votes g @ [(stake, approve)]\<rparr>)"
  using assms by (auto simp: cast_vote_def gov_inv_def saturating_sum split: if_splits)

lemma gov_inv_tally:
  assumes "gov_inv g" "g_now g \<le> now" "tally now (g_proposal g) = (st, p)"
  shows "gov_inv (g\<lparr>g_proposal := p, g_now := now\<rparr>)"
proof (cases "pr_status (g_proposal g) = Active \<and> deadline_unix (g_proposal g) < now")
  case False
  then have "p = g_proposal g" using assms(3) by (auto simp: tally_def split: if_splits)
  then show ?thesis using assms(1,2) by (auto simp: gov_inv_def)
next
  case True
  then have p: "p = (g_proposal g)\<lparr>pr_status := st\<rparr>" "st \<in> {Passed, Rejected}"
    "st = Passed \<longrightarrow> 0 < saturating_add (votes_for (g_proposal g)) (votes_against (g_proposal g)) \<and>
      saturating_mul (saturating_add (votes_for (g_proposal g)) (votes_against (g_proposal g))) (ucast PASS_PROMILLE)
        \<le> saturating_mul (votes_for (g_proposal g)) 1000"
    using assms(3) by (auto simp: tally_def Let_def split: if_splits)
  have "majority (g_votes g)"
    if "st = Passed" "stake_sum True (g_votes g) + stake_sum False (g_votes g) < 2 ^ 118"
    using assms(1) that p(3) by (intro tally_majority) (auto simp: gov_inv_def)
  with p True assms(1) show ?thesis by (auto simp: gov_inv_def)
qed

lemma execute_proposal_Inr:
  "execute_proposal p l = Inr (outcome, p', l') \<Longrightarrow> pr_status p = Passed \<and> p' = p\<lparr>pr_status := Executed\<rparr>"
  by (auto simp: execute_proposal_def result_simps split: if_splits)

lemma gov_inv_step: "gov_step g g' \<Longrightarrow> gov_inv g \<Longrightarrow> gov_inv g'"
proof (induction rule: gov_step.induct)
  case (execute g outcome p l)
  then show ?case using execute_proposal_Inr [OF execute(1)] by (auto simp: gov_inv_def)
next
  case (vote g now stake approve p)
  then show ?case by (intro gov_inv_vote)
next
  case (count g now st p)
  then show ?case by (intro gov_inv_tally)
qed (simp_all add: gov_inv_def)

lemma gov_reach_inv: "gov_reach g \<Longrightarrow> gov_inv g"
  by (induction rule: gov_reach.induct) (auto intro: gov_inv_init gov_inv_step)

text \<open>A run: an activity proposal is created, voted for, counted, funded and executed.\<close>

definition sample_proposal_kind :: "unit ProposalKind" where
  "sample_proposal_kind = FundActivity 30 ''fair''"

definition sample_created :: "unit Proposal" where
  "sample_created = \<lparr>proposal_id = ''p'', pr_kind = sample_proposal_kind, proposer = ''a'', deposit = 1000,
     created_at_unix = 0, deadline_unix = 259200, votes_for = 0, votes_against = 0, pr_status = Active\<rparr>"

definition sample_executed :: "unit governance" where
  "sample_executed = \<lparr>g_proposal = sample_created\<lparr>votes_for := 5, pr_status := Executed\<rparr>,
     g_ledger = \<lparr>balance = 70, events = [Income ''gas'' 100, Expense ''activity'' 30 ''fair''], executions = []\<rparr>,
     g_now = 300000, g_votes = [(5, True)], g_executed = [ActivityFunded 30 ''activity'' ''fair'']\<rparr>"

lemma sample_executed_reach: "gov_reach sample_executed"
proof -
  let ?g0 = "gov_init sample_created 0"
  let ?p1 = "sample_created\<lparr>votes_for := 5\<rparr>"
  let ?g1 = "?g0\<lparr>g_proposal := ?p1, g_now := 10, g_votes := g_votes ?g0 @ [(5, True)]\<rparr>"
  let ?p2 = "?p1\<lparr>pr_status := Passed\<rparr>"
  let ?g2 = "?g1\<lparr>g_proposal := ?p2, g_now := 300000\<rparr>"
  let ?g3 = "?g2\<lparr>g_ledger := record_income ''gas'' 100 (g_ledger ?g2)\<rparr>"
  have "gov_reach ?g0"
    by (rule gov_reach.init [of "''p''" sample_proposal_kind "''a''" 1000])
       (simp add: create_proposal_def DEPOSIT_SH_def sample_created_def VOTE_WINDOW_SECS_def saturating_add_def)
  then have "gov_reach ?g1"
    by (rule gov_reach.step) (rule gov_step.vote, simp_all add: gov_init_def cast_vote_def sample_created_def saturating_add_def)
  then have "gov_reach ?g2"
    by (rule gov_reach.step)
       (rule gov_step.count, simp_all add: tally_def sample_created_def saturating_add_def saturating_mul_def PASS_PROMILLE_def)
  then have "gov_reach ?g3" by (rule gov_reach.step) (rule gov_step.income)
  moreover have "gov_step ?g3 (?g3\<lparr>g_proposal := ?p2\<lparr>pr_status := Executed\<rparr>,
      g_ledger := g_ledger sample_executed, g_executed := g_executed ?g3 @ [ActivityFunded 30 ''activity'' ''fair'']\<rparr>)"
    by (rule gov_step.execute)
       (simp add: execute_proposal_def sample_created_def sample_proposal_kind_def record_income_def
         record_expense_def gov_init_def ledger_new_def saturating_add_def sample_executed_def)
  ultimately have "gov_reach (?g3\<lparr>g_proposal := ?p2\<lparr>pr_status := Executed\<rparr>,
      g_ledger := g_ledger sample_executed, g_executed := g_executed ?g3 @ [ActivityFunded 30 ''activity'' ''fair'']\<rparr>)"
    by (rule gov_reach.step)
  then show ?thesis by (simp add: sample_executed_def gov_init_def)
qed

text \<open>However the operations are called, a proposal is executed at most once, only after its
  deadline, and only with at least half of the stake in favour, as long as the stakes add up to
  less than 2 to the power of 118.\<close>

theorem executed_once_with_majority:
  assumes "gov_reach g"
  shows "length (g_executed g) \<le> 1 \<and>
    (g_executed g \<noteq> [] \<longrightarrow> deadline_unix (g_proposal g) < g_now g \<and>
      (stake_sum True (g_votes g) + stake_sum False (g_votes g) < 2 ^ 118 \<longrightarrow> majority (g_votes g)))"
  using gov_reach_inv [OF assms] by (auto simp: gov_inv_def split: if_splits)

lemma executed_once_with_majority_witness:
  "length (g_executed sample_executed) \<le> 1 \<and> majority (g_votes sample_executed)"
  using executed_once_with_majority [OF sample_executed_reach]
  by (simp add: sample_executed_def stake_sum_def)

subsection \<open>The treasury\<close>

fun event_income :: "LedgerEvent \<Rightarrow> nat" where
  "event_income (Income source amount) = unat amount"
| "event_income (Expense destination amount memo) = 0"

fun event_expense :: "LedgerEvent \<Rightarrow> nat" where
  "event_expense (Income source amount) = 0"
| "event_expense (Expense destination amount memo) = unat amount"

definition treasury_inv :: "'j TreasuryLedger \<Rightarrow> bool" where
  "treasury_inv l \<longleftrightarrow>
     (let inc = sum_list (map event_income (events l)); out = sum_list (map event_expense (events l))
      in unat (balance l) + out \<le> inc \<and> (inc < 2 ^ 128 \<longrightarrow> unat (balance l) + out = inc))"

lemma unat_amount: "unat (ucast (a :: u64) :: u128) = unat a"
  using unat_word_less [of a] by (simp add: unsigned_ucast_eq take_bit_nat_eq_self)

lemma treasury_inv_new [simp]: "treasury_inv ledger_new"
  by (simp add: treasury_inv_def ledger_new_def)

lemma treasury_inv_income: "treasury_inv l \<Longrightarrow> treasury_inv (record_income source amount l)"
  by (auto simp: treasury_inv_def record_income_def unat_saturating_add unat_amount Let_def)

lemma treasury_inv_expense:
  "treasury_inv l \<Longrightarrow> record_expense destination amount memo l = Inr l' \<Longrightarrow> treasury_inv l'"
  by (auto simp: treasury_inv_def record_expense_def Let_def not_less word_le_nat_alt unat_sub unat_amount
      split: if_splits)

lemma treasury_inv_record [simp]: "treasury_inv (record_execution outcome l) \<longleftrightarrow> treasury_inv l"
  by (simp add: treasury_inv_def record_execution_def)

lemma treasury_inv_execute:
  "treasury_inv l \<Longrightarrow> execute_proposal p l = Inr (outcome, p', l') \<Longrightarrow> treasury_inv l'"
  by (auto simp: execute_proposal_def result_simps treasury_inv_expense
      split: if_splits ProposalKind.splits sum.splits)

text \<open>The treasury never holds more than its income less its expenses, and exactly that as long
  as its whole income fits 128 bits.\<close>

theorem treasury_balances:
  assumes "gov_reach g"
  shows "let inc = sum_list (map event_income (events (g_ledger g)));
      out = sum_list (map event_expense (events (g_ledger g)))
    in unat (balance (g_ledger g)) + out \<le> inc \<and>
      (inc < 2 ^ 128 \<longrightarrow> unat (balance (g_ledger g)) + out = inc)"
proof -
  have "treasury_inv (g_ledger g)"
    using assms
  proof (induction rule: gov_reach.induct)
    case (step g g')
    from step(2,1,3) show ?case
      by (induction rule: gov_step.induct) (auto intro: treasury_inv_income treasury_inv_expense treasury_inv_execute)
  qed (simp add: gov_init_def)
  then show ?thesis by (simp add: treasury_inv_def)
qed


lemma treasury_balances_witness:
  "unat (balance (g_ledger sample_executed)) + 30 = 100"
  using treasury_balances [OF sample_executed_reach] by (simp add: sample_executed_def)

end
