(* ===== verification/Account.thy ===== *)
theory Account
  imports Objects U256
begin

section \<open>Accounts and UTXOs\<close>

text \<open>
  The account of \<open>account/account.rs\<close> with its state machine, balance and signature check, the
  UTXO operations of \<open>account/utxo.rs\<close>, and the in-memory account manager of
  \<open>account/manager.rs\<close>.  The clock is an argument \<open>now\<close>.  Fields of an account carry the prefix
  \<open>a_\<close>, of the manager \<open>m_\<close>, of a UTXO \<open>u_\<close>, of a UTXO reference \<open>ur_\<close>.  A DashMap is a map.
\<close>

subsection \<open>Data\<close>

record AccountUtxoReference =
  aur_tx_hash :: hash
  aur_output_index :: u32
  aur_amount :: U256
  aur_lock_hash :: hash

datatype AccountState = Inactive | Active | Frozen | Destroyed

datatype StateEvent =
    AccountCreated | DepositReceived | WithdrawalCompleted | FrozenByGovernance
  | UnfrozenByGovernance | AccountDestroyed

record RecoveryConfig =
  guardians :: "address list"
  guardian_threshold :: u32
  recovery_delay :: u64
  recovery_expiry :: u64

text \<open>An Ed25519 public key is its 32 bytes.\<close>

datatype AccountType =
    User "u8 list"
  | Contract address u32 bool "address option"
  | AbstractAccount address "address list" u32 "RecoveryConfig option"
  | MultiSig "address list" u32 "U256 option"

record OperationLimits =
  max_tx_amount :: "U256 option"
  daily_limit :: "U256 option"
  daily_used :: U256
  daily_reset_at :: u64

datatype PermissionLevel = Standard | Restricted | Admin | SuperAdmin
datatype OperationType = OpTransfer | OpContractCall | OpContractDeploy | OpGovernance | OpAdmin

record Permissions =
  contract_whitelist :: "address list"
  contract_blacklist :: "address list"
  multisig_operations :: "OperationType list"
  permission_level :: PermissionLevel

record AccountConfig =
  enable_utxo :: bool
  gas_tokens :: "address list"
  limits :: OperationLimits
  permissions :: Permissions
  ac_metadata :: "(string \<times> string) list"

record Account =
  a_address :: address
  a_account_type :: AccountType
  a_version :: u32
  a_balance :: U256
  a_utxo_refs :: "AccountUtxoReference list"
  a_nonce :: u64
  a_storage_root :: hash
  a_code_hash :: hash
  a_config :: AccountConfig
  a_state :: AccountState
  a_created_at :: u64
  a_updated_at :: u64

datatype AccountError =
    NotFound address
  | InvalidAccountType
  | InvalidStateTransition AccountState StateEvent
  | InsufficientBalance U256 U256
  | InvalidSignature
  | NonceMismatch u64 u64
  | AccountFrozen
  | AccountIsDestroyed

definition OperationLimits_default :: OperationLimits where
  "OperationLimits_default =
     \<lparr>max_tx_amount = None, daily_limit = None, daily_used = u256_zero, daily_reset_at = 0\<rparr>"

definition AccountConfig_default :: AccountConfig where
  "AccountConfig_default =
     \<lparr>enable_utxo = False, gas_tokens = [], limits = OperationLimits_default,
      permissions = \<lparr>contract_whitelist = [], contract_blacklist = [], multisig_operations = [],
        permission_level = Standard\<rparr>, ac_metadata = []\<rparr>"

definition Account_default :: Account where
  "Account_default =
     \<lparr>a_address = 0, a_account_type = User (replicate 32 0), a_version = 1, a_balance = u256_zero,
      a_utxo_refs = [], a_nonce = 0, a_storage_root = 0, a_code_hash = 0,
      a_config = AccountConfig_default, a_state = Inactive, a_created_at = 0, a_updated_at = 0\<rparr>"

subsection \<open>Account operations\<close>

definition new_user_account :: "u64 \<Rightarrow> u8 list \<Rightarrow> address \<Rightarrow> Account" where
  "new_user_account now public_key addr =
     \<lparr>a_address = addr, a_account_type = User public_key, a_version = 1, a_balance = u256_zero,
      a_utxo_refs = [], a_nonce = 0, a_storage_root = 0, a_code_hash = 0,
      a_config = AccountConfig_default, a_state = Inactive, a_created_at = now, a_updated_at = now\<rparr>"

definition new_contract :: "u64 \<Rightarrow> address \<Rightarrow> address \<Rightarrow> Account" where
  "new_contract now creator addr =
     \<lparr>a_address = addr, a_account_type = Contract creator 1 False None, a_version = 1,
      a_balance = u256_zero, a_utxo_refs = [], a_nonce = 0, a_storage_root = 0, a_code_hash = 0,
      a_config = AccountConfig_default, a_state = Active, a_created_at = now, a_updated_at = now\<rparr>"

definition can_perform_operation :: "Account \<Rightarrow> bool" where
  "can_perform_operation a \<longleftrightarrow> a_state a = Active"

definition can_receive :: "Account \<Rightarrow> bool" where
  "can_receive a \<longleftrightarrow> a_state a \<noteq> Destroyed"

datatype CryptoError =
    CryptoInvalidSignature | CryptoInvalidPrivateKey | CryptoInvalidPublicKey | CryptoVerificationFailed
  | CryptoKeyDerivationFailed

text \<open>\<open>Ed25519Signature::verify\<close> of \<open>crypto.rs\<close>.\<close>

definition ed25519_verify :: "externals \<Rightarrow> u8 list \<Rightarrow> u8 list \<Rightarrow> u8 list \<Rightarrow> CryptoError + bool" where
  "ed25519_verify x signature message public_key =
     (if \<not> vk_ok x public_key then Inl CryptoInvalidPublicKey
      else if \<not> sig_ok x signature then Inl CryptoInvalidSignature
      else if ed_verify x public_key message signature then Inr True
      else Inl CryptoVerificationFailed)"

definition verify_signature :: "externals \<Rightarrow> Account \<Rightarrow> hash \<Rightarrow> u8 list \<Rightarrow> AccountError + bool" where
  "verify_signature x a tx_hash signature =
     (case a_account_type a of
        User public_key \<Rightarrow>
          (case ed25519_verify x signature (be_bytes tx_hash) public_key of
             Inl _ \<Rightarrow> Inl InvalidSignature
           | Inr ok \<Rightarrow> Inr ok)
      | MultiSig signers required daily \<Rightarrow> Inr True
      | AbstractAccount v owners threshold recovery \<Rightarrow> Inr True
      | Contract creator version upgradeable admin \<Rightarrow> Inl InvalidAccountType)"

definition increment_nonce :: "u64 \<Rightarrow> Account \<Rightarrow> Account" where
  "increment_nonce now a =
     a\<lparr>a_nonce := (case checked_add (a_nonce a) 1 of Some n \<Rightarrow> n | None \<Rightarrow> 0), a_updated_at := now\<rparr>"

definition update_balance :: "u64 \<Rightarrow> I256 \<Rightarrow> Account \<Rightarrow> AccountError + Account" where
  "update_balance now amount a =
     (let (new_balance, overflow) =
        (if i256_is_positive amount then overflowing_add (a_balance a) amount
         else overflowing_sub (a_balance a) amount)
      in if overflow \<and> i256_is_positive amount
         then Inl (InsufficientBalance (a_balance a) (u256_from_u128 (- 1)))
         else Inr (a\<lparr>a_balance := new_balance, a_updated_at := now\<rparr>))"

definition next_state :: "AccountState \<Rightarrow> StateEvent \<Rightarrow> AccountState option" where
  "next_state st event =
     (case (st, event) of
        (Inactive, DepositReceived) \<Rightarrow> Some Active
      | (Active, FrozenByGovernance) \<Rightarrow> Some Frozen
      | (Frozen, UnfrozenByGovernance) \<Rightarrow> Some Active
      | (Active, AccountDestroyed) \<Rightarrow> Some Destroyed
      | _ \<Rightarrow> None)"

definition transition_state :: "u64 \<Rightarrow> StateEvent \<Rightarrow> Account \<Rightarrow> AccountError + Account" where
  "transition_state now event a =
     (case next_state (a_state a) event of
        Some st \<Rightarrow> Inr (a\<lparr>a_state := st, a_updated_at := now\<rparr>)
      | None \<Rightarrow> Inl (InvalidStateTransition (a_state a) event))"

subsection \<open>UTXOs\<close>

datatype UtxoLock =
    P2PKH address | P2SH hash | TimeLock u64 | MultiSigLock "hash list" u32 | CustomScript "u8 list"

datatype UtxoWitness =
    WitnessP2PKH hash "u8 list" | WitnessTimeLock u64 | WitnessMultiSig "u8 list list"
  | WitnessCustomScript "u8 list"

record UtxoReference =
  ur_tx_hash :: hash
  ur_output_index :: u32
  ur_amount :: U256
  ur_lock_rule :: UtxoLock
  ur_spent :: bool

record UtxoOutput =
  u_amount :: U256
  u_lock_rule :: UtxoLock
  u_spent :: bool
  u_spent_by :: "hash option"
  u_created_at :: u64

record UtxoInput =
  ui_reference :: UtxoReference
  ui_witness :: UtxoWitness

record UtxoOperation =
  uo_inputs :: "UtxoInput list"
  uo_outputs :: "UtxoOutput list"
  uo_lock_time :: u64

datatype UtxoError =
    EmptyInputs | EmptyOutputs | InvalidAmount | UtxoNotFound | AlreadySpent | InvalidLockRule
  | InvalidWitness | SignatureVerificationFailed

fun lock_verify :: "UtxoLock \<Rightarrow> UtxoWitness \<Rightarrow> u8 list \<Rightarrow> bool" where
  "lock_verify (P2PKH pubkey_hash) (WitnessP2PKH pubkey signature) data = True"
| "lock_verify (TimeLock unlock_time) (WitnessTimeLock current_time) data = (unlock_time \<le> current_time)"
| "lock_verify (MultiSigLock pubkeys threshold) (WitnessMultiSig signatures) data =
     (unat threshold \<le> length signatures)"
| "lock_verify _ _ data = False"

definition utxo_new :: "u64 \<Rightarrow> U256 \<Rightarrow> UtxoLock \<Rightarrow> UtxoOutput" where
  "utxo_new now amount lock =
     \<lparr>u_amount = amount, u_lock_rule = lock, u_spent = False, u_spent_by = None, u_created_at = now\<rparr>"

definition utxo_spend :: "hash \<Rightarrow> UtxoOutput \<Rightarrow> UtxoOutput" where
  "utxo_spend tx_hash u = u\<lparr>u_spent := True, u_spent_by := Some tx_hash\<rparr>"

definition utxo_input_amount :: "UtxoOperation \<Rightarrow> U256" where
  "utxo_input_amount op = foldl (\<lambda>acc i. u256_add acc (ur_amount (ui_reference i))) u256_zero (uo_inputs op)"

definition utxo_output_amount :: "UtxoOperation \<Rightarrow> U256" where
  "utxo_output_amount op = foldl (\<lambda>acc out. u256_add acc (u_amount out)) u256_zero (uo_outputs op)"

definition utxo_fee :: "UtxoOperation \<Rightarrow> U256" where
  "utxo_fee op = u256_sub (utxo_input_amount op) (utxo_output_amount op)"

definition utxo_validate :: "UtxoOperation \<Rightarrow> UtxoError + unit" where
  "utxo_validate op =
     (if uo_inputs op = [] then Inl EmptyInputs
      else if uo_outputs op = [] then Inl EmptyOutputs
      else if u256_less (utxo_input_amount op) (utxo_output_amount op) then Inl InvalidAmount
      else Inr ())"

subsection \<open>The in-memory account manager\<close>

record StorageChange =
  sc_key :: hash
  sc_old_value :: hash
  sc_new_value :: hash

record CodeChange =
  cc_old_hash :: hash
  cc_new_code :: "u8 list"

record AccountChange =
  ch_address :: address
  ch_balance_change :: "I256 option"
  ch_nonce_change :: "u64 option"
  ch_storage_changes :: "StorageChange list"
  ch_code_change :: "CodeChange option"

record InMemoryAccountManager =
  m_accounts :: "address \<rightharpoonup> Account"
  m_storage :: "address \<rightharpoonup> (hash \<rightharpoonup> hash)"
  m_code :: "hash \<rightharpoonup> u8 list"
  m_utxos :: "hash \<rightharpoonup> UtxoOutput"
  m_state_root :: hash

definition manager_new :: InMemoryAccountManager where
  "manager_new = \<lparr>m_accounts = Map.empty, m_storage = Map.empty, m_code = Map.empty,
     m_utxos = Map.empty, m_state_root = 0\<rparr>"

definition with_genesis :: "Account list \<Rightarrow> InMemoryAccountManager" where
  "with_genesis accounts =
     manager_new\<lparr>m_accounts := fold (\<lambda>a m. m(a_address a \<mapsto> a)) accounts Map.empty\<rparr>"

text \<open>The last 20 bytes of the Keccak hash of the key.\<close>

definition address_from_public_key :: "externals \<Rightarrow> u8 list \<Rightarrow> address" where
  "address_from_public_key x pubkey = ucast (keccak256 x pubkey)"

definition create_account ::
    "externals \<Rightarrow> u64 \<Rightarrow> AccountType \<Rightarrow> AccountConfig \<Rightarrow> InMemoryAccountManager \<Rightarrow>
     Account \<times> InMemoryAccountManager" where
  "create_account x now type config m =
     (let addr = (case type of User pk \<Rightarrow> address_from_public_key x pk | _ \<Rightarrow> 0);
          account = Account_default\<lparr>a_address := addr, a_account_type := type, a_config := config,
            a_state := Active, a_created_at := now, a_updated_at := now\<rparr>
      in (account, m\<lparr>m_accounts := (m_accounts m)(addr \<mapsto> account)\<rparr>))"

definition manager_update_balance ::
    "u64 \<Rightarrow> address \<Rightarrow> I256 \<Rightarrow> InMemoryAccountManager \<Rightarrow> AccountError + InMemoryAccountManager" where
  "manager_update_balance now addr amount m =
     and_then (ok_or (m_accounts m addr) (NotFound addr)) (\<lambda>account.
     and_then (update_balance now amount account) (\<lambda>account.
     Inr (m\<lparr>m_accounts := (m_accounts m)(addr \<mapsto> account)\<rparr>)))"

definition manager_spend_utxo ::
    "UtxoReference \<Rightarrow> InMemoryAccountManager \<Rightarrow> AccountError + InMemoryAccountManager" where
  "manager_spend_utxo ref m =
     (case m_utxos m (ur_tx_hash ref) of
        Some u \<Rightarrow> Inr (m\<lparr>m_utxos := (m_utxos m)(ur_tx_hash ref \<mapsto> utxo_spend (ur_tx_hash ref) u)\<rparr>)
      | None \<Rightarrow> Inr m)"

text \<open>\<open>Hash::from_bytes([1u8; 32])\<close>.\<close>

definition ones_hash :: hash where
  "ones_hash = from_be (replicate 32 1)"

definition manager_create_utxo ::
    "u64 \<Rightarrow> U256 \<Rightarrow> UtxoLock \<Rightarrow> InMemoryAccountManager \<Rightarrow> UtxoReference \<times> InMemoryAccountManager" where
  "manager_create_utxo now amount lock m =
     (\<lparr>ur_tx_hash = ones_hash, ur_output_index = 0, ur_amount = amount, ur_lock_rule = lock, ur_spent = False\<rparr>,
      m\<lparr>m_utxos := (m_utxos m)(ones_hash \<mapsto> utxo_new now amount lock)\<rparr>)"

definition get_nonce :: "address \<Rightarrow> InMemoryAccountManager \<Rightarrow> AccountError + u64" where
  "get_nonce addr m = and_then (ok_or (m_accounts m addr) (NotFound addr)) (\<lambda>a. Inr (a_nonce a))"

definition manager_increment_nonce ::
    "u64 \<Rightarrow> address \<Rightarrow> InMemoryAccountManager \<Rightarrow> AccountError + InMemoryAccountManager" where
  "manager_increment_nonce now addr m =
     and_then (ok_or (m_accounts m addr) (NotFound addr)) (\<lambda>a.
     Inr (m\<lparr>m_accounts := (m_accounts m)(addr \<mapsto> increment_nonce now a)\<rparr>))"

definition get_storage :: "address \<Rightarrow> hash \<Rightarrow> InMemoryAccountManager \<Rightarrow> hash" where
  "get_storage addr key m =
     (case m_storage m addr of
        Some st \<Rightarrow> (case st key of Some v \<Rightarrow> v | None \<Rightarrow> 0)
      | None \<Rightarrow> 0)"

definition set_storage :: "address \<Rightarrow> hash \<Rightarrow> hash \<Rightarrow> InMemoryAccountManager \<Rightarrow> InMemoryAccountManager" where
  "set_storage addr key v m =
     (let st = (case m_storage m addr of Some st \<Rightarrow> st | None \<Rightarrow> Map.empty)
      in m\<lparr>m_storage := (m_storage m)(addr \<mapsto> st(key \<mapsto> v))\<rparr>)"

text \<open>One round of the loop of \<open>apply_changes\<close>: the result and the state it leaves, also when it
  returns early.\<close>

definition apply_change ::
    "u64 \<Rightarrow> AccountChange \<Rightarrow> InMemoryAccountManager \<Rightarrow> (AccountError + unit) \<times> InMemoryAccountManager" where
  "apply_change now ch m =
     (case (case ch_balance_change ch of
              None \<Rightarrow> Inr m
            | Some amount \<Rightarrow> manager_update_balance now (ch_address ch) amount m) of
        Inl e \<Rightarrow> (Inl e, m)
      | Inr m \<Rightarrow>
          (case (case ch_nonce_change ch of
                   None \<Rightarrow> Inr m
                 | Some n \<Rightarrow>
                     and_then (ok_or (m_accounts m (ch_address ch)) (NotFound (ch_address ch))) (\<lambda>a.
                     Inr (m\<lparr>m_accounts := (m_accounts m)(ch_address ch \<mapsto> a\<lparr>a_nonce := n\<rparr>)\<rparr>))) of
             Inl e \<Rightarrow> (Inl e, m)
           | Inr m \<Rightarrow>
               let m = fold (\<lambda>sc. set_storage (ch_address ch) (sc_key sc) (sc_new_value sc)) (ch_storage_changes ch) m;
                   m = (case ch_code_change ch of
                          None \<Rightarrow> m
                        | Some cc \<Rightarrow> m\<lparr>m_code := (m_code m)(cc_old_hash cc \<mapsto> cc_new_code cc)\<rparr>)
               in (Inr (), m)))"

fun apply_changes ::
    "u64 \<Rightarrow> AccountChange list \<Rightarrow> InMemoryAccountManager \<Rightarrow> (AccountError + hash) \<times> InMemoryAccountManager" where
  "apply_changes now [] m = (Inr ones_hash, m\<lparr>m_state_root := ones_hash\<rparr>)"
| "apply_changes now (ch # rest) m =
     (case apply_change now ch m of
        (Inl e, m) \<Rightarrow> (Inl e, m)
      | (Inr _, m) \<Rightarrow> apply_changes now rest m)"


subsection \<open>The life of an account\<close>

fun account_run :: "(u64 \<times> StateEvent) list \<Rightarrow> Account \<Rightarrow> AccountError + Account" where
  "account_run evs a = try_fold (\<lambda>(now, event). transition_state now event) evs a"

definition event_count :: "StateEvent \<Rightarrow> (u64 \<times> StateEvent) list \<Rightarrow> nat" where
  "event_count event evs = length (filter (\<lambda>e. snd e = event) evs)"

lemma event_count_simps [simp]:
  "event_count event [] = 0"
  "event_count event (evs @ [e]) = event_count event evs + (if snd e = event then 1 else 0)"
  by (simp_all add: event_count_def)

lemma next_state_Some:
  "next_state st event = Some st' \<longleftrightarrow>
     (st, event, st') \<in> {(Inactive, DepositReceived, Active), (Active, FrozenByGovernance, Frozen),
       (Frozen, UnfrozenByGovernance, Active), (Active, AccountDestroyed, Destroyed)}"
  by (cases st; cases event; auto simp: next_state_def)

lemma transition_state_Inr:
  "transition_state now event a = Inr a' \<longleftrightarrow>
     (\<exists>st. next_state (a_state a) event = Some st \<and> a' = a\<lparr>a_state := st, a_updated_at := now\<rparr>)"
  by (auto simp: transition_state_def split: option.splits)

text \<open>Along every accepted sequence of events a new user account is inactive exactly before the
  first event, which is a deposit; freezes and unfreezes alternate, one more freeze than unfreezes
  exactly while it is frozen; and it is destroyed exactly if its one destruction is the last event.\<close>

theorem account_lifecycle:
  assumes "account_run evs (new_user_account now0 key addr) = Inr a"
  shows "(a_state a = Inactive \<longleftrightarrow> evs = []) \<and>
    (evs \<noteq> [] \<longrightarrow> snd (hd evs) = DepositReceived) \<and> event_count DepositReceived evs \<le> 1 \<and>
    event_count FrozenByGovernance evs = event_count UnfrozenByGovernance evs + of_bool (a_state a = Frozen) \<and>
    event_count AccountDestroyed evs = of_bool (a_state a = Destroyed) \<and>
    (a_state a = Destroyed \<longrightarrow> snd (last evs) = AccountDestroyed) \<and> a_balance a = u256_zero"
  using assms
proof (induction evs arbitrary: a rule: rev_induct)
  case Nil
  then show ?case by (auto simp: new_user_account_def)
next
  case (snoc e evs)
  then obtain b where b: "account_run evs (new_user_account now0 key addr) = Inr b"
    "transition_state (fst e) (snd e) b = Inr a"
    by (cases e) (auto simp: try_fold_append result_simps)
  have h: "hd (evs @ [e]) = (if evs = [] then e else hd evs)" by (cases evs) simp_all
  obtain st where "next_state (a_state b) (snd e) = Some st" "a = b\<lparr>a_state := st, a_updated_at := fst e\<rparr>"
    using b(2) unfolding transition_state_Inr by blast
  then show ?case
    using snoc.IH [OF b(1)] unfolding next_state_Some by (auto simp: h)
qed

lemma account_lifecycle_witness:
  "\<exists>a. account_run [(1, DepositReceived), (2, FrozenByGovernance)] (new_user_account 0 [] 5) = Inr a \<and>
     a_state a = Frozen \<and> a_balance a = u256_zero"
proof -
  let ?a = "(new_user_account 0 [] 5)\<lparr>a_state := Frozen, a_updated_at := 2\<rparr>"
  have r: "account_run [(1, DepositReceived), (2, FrozenByGovernance)] (new_user_account 0 [] 5) = Inr ?a"
    by (simp add: transition_state_def next_state_def new_user_account_def)
  show ?thesis using account_lifecycle [OF r] r by (intro exI [of _ ?a]) simp
qed

subsection \<open>Balances\<close>

lemma i256_from_value: "be_value (i256_from v) = unat v" "\<not> i256_is_negative (i256_from v)"
  by (simp_all add: i256_from_def be_value_append be_value_be_bytes i256_is_negative_def nth_append)

lemma update_balance_positive:
  assumes "u256_wf (a_balance a)" "u256_wf amount" "i256_is_positive amount"
  shows "if be_value (a_balance a) + be_value amount < 2 ^ 256
    then \<exists>b. update_balance now amount a = Inr (a\<lparr>a_balance := b, a_updated_at := now\<rparr>) \<and>
      be_value b = be_value (a_balance a) + be_value amount
    else update_balance now amount a = Inl (InsufficientBalance (a_balance a) (u256_from_u128 (- 1)))"
proof -
  obtain b c where o: "overflowing_add (a_balance a) amount = (b, c)" by (cases "overflowing_add (a_balance a) amount")
  note sp = overflowing_add_spec [OF assms(1,2) o]
  have "c \<longleftrightarrow> 2 ^ 256 \<le> be_value (a_balance a) + be_value amount"
    using sp(2) u256_bound [OF sp(1)] by (cases c) simp_all
  then show ?thesis
    using sp(2) assms(3) by (auto simp: update_balance_def o)
qed

lemma update_balance_negative:
  assumes "u256_wf (a_balance a)" "u256_wf amount" "i256_is_negative amount"
  shows "\<exists>b. update_balance now amount a = Inr (a\<lparr>a_balance := b, a_updated_at := now\<rparr>) \<and>
    be_value b = (be_value (a_balance a) + (2 ^ 256 - be_value amount)) mod 2 ^ 256"
proof -
  have n: "\<not> i256_is_positive amount" using assms(3) by (simp add: i256_is_positive_def i256_is_negative_def)
  obtain b c where o: "overflowing_sub (a_balance a) amount = (b, c)" by (cases "overflowing_sub (a_balance a) amount")
  note sp = overflowing_sub_spec [OF assms(1,2) o]
  have "be_value (a_balance a) + (2 ^ 256 - be_value amount) = be_value b + of_bool (\<not> c) * 2 ^ 256"
    using sp(3) u256_bound [OF assms(2)] by (cases c) simp_all
  then have "be_value b = (be_value (a_balance a) + (2 ^ 256 - be_value amount)) mod 2 ^ 256"
    using u256_bound [OF sp(1)] by simp
  then show ?thesis using n by (intro exI [of _ b]) (simp add: update_balance_def o)
qed

text \<open>A positive amount is added to the balance, or refused when the sum exceeds 256 bits; a
  negative amount, in two's complement, is not taken off the balance but its absolute value is
  added, modulo 2 to the power of 256; and no amount made from a 64-bit integer is negative.\<close>

theorem update_balance_spec:
  assumes "u256_wf (a_balance a)" "u256_wf amount"
  shows "(i256_is_positive amount \<longrightarrow>
      (if be_value (a_balance a) + be_value amount < 2 ^ 256
       then \<exists>b. update_balance now amount a = Inr (a\<lparr>a_balance := b, a_updated_at := now\<rparr>) \<and>
         be_value b = be_value (a_balance a) + be_value amount
       else update_balance now amount a = Inl (InsufficientBalance (a_balance a) (u256_from_u128 (- 1))))) \<and>
    (i256_is_negative amount \<longrightarrow>
      (\<exists>b. update_balance now amount a = Inr (a\<lparr>a_balance := b, a_updated_at := now\<rparr>) \<and>
        be_value b = (be_value (a_balance a) + (2 ^ 256 - be_value amount)) mod 2 ^ 256)) \<and>
    \<not> i256_is_negative (i256_from v)"
  using update_balance_positive [OF assms] update_balance_negative [OF assms] i256_from_value(2) [of v] by blast

text \<open>Withdrawing 5, as two's complement, from a balance of 100 leaves 105.\<close>

lemma update_balance_spec_witness:
  "\<exists>b. update_balance 0 (replicate 31 255 @ [251]) (Account_default\<lparr>a_balance := u256_from 100\<rparr>) =
     Inr (Account_default\<lparr>a_balance := b, a_updated_at := 0\<rparr>) \<and> be_value b = 105"
proof -
  have w: "u256_wf (replicate 31 255 @ [251])" by (simp add: u256_wf_def)
  have n: "i256_is_negative (replicate 31 255 @ [251])"
    by (simp add: i256_is_negative_def nth_append)
  have v: "be_value (replicate 31 255 @ [251 :: u8]) = 2 ^ 256 - 5"
  proof -
    have "replicate 31 (255 :: u8) = map (\<lambda>_. 255) [0..<31]" by (simp add: map_replicate_const)
    then show ?thesis by (simp add: be_value_append upt_rec)
  qed
  show ?thesis
    using update_balance_spec [of "Account_default\<lparr>a_balance := u256_from 100\<rparr>" "replicate 31 255 @ [251]" 0] w n v
    by auto
qed

subsection \<open>UTXO operations\<close>

lemma amount_fold:
  assumes "u256_wf acc" "\<forall>x \<in> set xs. u256_wf (f x)"
  shows "u256_wf (foldl (\<lambda>acc x. u256_add acc (f x)) acc xs) \<and>
    be_value (foldl (\<lambda>acc x. u256_add acc (f x)) acc xs)
      = (be_value acc + sum_list (map (\<lambda>x. be_value (f x)) xs)) mod 2 ^ 256"
  using assms
proof (induction xs arbitrary: acc)
  case Nil
  then show ?case using u256_bound by simp
next
  case (Cons x xs)
  note v = u256_add_value [of acc "f x"]
  from Cons have "u256_wf (u256_add acc (f x))" by (intro v) simp_all
  from Cons.IH [OF this] Cons.prems show ?case by (simp add: v mod_add_left_eq add.assoc)
qed

definition inputs_total :: "UtxoOperation \<Rightarrow> nat" where
  "inputs_total op = sum_list (map (\<lambda>i. be_value (ur_amount (ui_reference i))) (uo_inputs op))"

definition outputs_total :: "UtxoOperation \<Rightarrow> nat" where
  "outputs_total op = sum_list (map (\<lambda>out. be_value (u_amount out)) (uo_outputs op))"

definition utxo_wf :: "UtxoOperation \<Rightarrow> bool" where
  "utxo_wf op \<longleftrightarrow> (\<forall>i \<in> set (uo_inputs op). u256_wf (ur_amount (ui_reference i))) \<and>
     (\<forall>out \<in> set (uo_outputs op). u256_wf (u_amount out))"

text \<open>The check of a UTXO operation compares the totals modulo 2 to the power of 256: it keeps
  the outputs within the inputs as long as the outputs add up to less than that.\<close>

theorem utxo_validate_iff:
  assumes "utxo_wf op"
  shows "(utxo_validate op = Inr () \<longleftrightarrow> uo_inputs op \<noteq> [] \<and> uo_outputs op \<noteq> [] \<and>
      outputs_total op mod 2 ^ 256 \<le> inputs_total op mod 2 ^ 256) \<and>
    (utxo_validate op = Inr () \<and> outputs_total op < 2 ^ 256 \<longrightarrow> outputs_total op \<le> inputs_total op)"
proof -
  have i: "u256_wf (utxo_input_amount op)" "be_value (utxo_input_amount op) = inputs_total op mod 2 ^ 256"
    using amount_fold [of u256_zero "uo_inputs op" "\<lambda>i. ur_amount (ui_reference i)"] assms
    by (simp_all add: utxo_wf_def utxo_input_amount_def inputs_total_def)
  have o: "u256_wf (utxo_output_amount op)" "be_value (utxo_output_amount op) = outputs_total op mod 2 ^ 256"
    using amount_fold [of u256_zero "uo_outputs op" u_amount] assms
    by (simp_all add: utxo_wf_def utxo_output_amount_def outputs_total_def)
  have l: "u256_less (utxo_input_amount op) (utxo_output_amount op)
      \<longleftrightarrow> inputs_total op mod 2 ^ 256 < outputs_total op mod 2 ^ 256"
    using i o by (simp add: u256_less_iff u256_wf_def)
  have "inputs_total op mod 2 ^ 256 \<le> inputs_total op" by simp
  then show ?thesis by (auto simp: utxo_validate_def l not_less)
qed

text \<open>An operation that turns 1 into twice 2 to the power of 255 passes.\<close>

definition sample_inflation :: UtxoOperation where
  "sample_inflation =
     \<lparr>uo_inputs = [\<lparr>ui_reference = \<lparr>ur_tx_hash = 0, ur_output_index = 0, ur_amount = u256_from 1,
          ur_lock_rule = P2PKH 0, ur_spent = False\<rparr>, ui_witness = WitnessP2PKH 0 []\<rparr>],
      uo_outputs = [utxo_new 0 (128 # replicate 31 0) (P2PKH 0), utxo_new 0 (128 # replicate 31 0) (P2PKH 0)], uo_lock_time = 0\<rparr>"

lemma utxo_validate_iff_witness:
  "utxo_validate sample_inflation = Inr () \<and> inputs_total sample_inflation = 1 \<and>
   outputs_total sample_inflation = 2 ^ 256"
proof -
  have t: "inputs_total sample_inflation = 1" "outputs_total sample_inflation = 2 ^ 256"
    by (simp_all add: sample_inflation_def inputs_total_def outputs_total_def utxo_new_def)
  have "u256_wf (128 # replicate 31 0)" by (simp add: u256_wf_def)
  then have "utxo_wf sample_inflation" by (simp add: utxo_wf_def sample_inflation_def utxo_new_def)
  from utxo_validate_iff [OF this] t show ?thesis by (simp add: sample_inflation_def)
qed

subsection \<open>The manager\<close>

text \<open>Every UTXO gets the same hash: creating one forgets the one before, and spending never fails.\<close>

lemma create_utxo_overwrites:
  assumes "manager_create_utxo now amount lock m = (ref, m')"
  shows "m_utxos m' (ur_tx_hash ref) = Some (utxo_new now amount lock)"
    "manager_create_utxo now2 amount2 lock2 m' = (ref2, m2) \<Longrightarrow>
      m_utxos m2 (ur_tx_hash ref) = Some (utxo_new now2 amount2 lock2)"
  using assms by (auto simp: manager_create_utxo_def)

lemma storage_get_set:
  "get_storage addr2 key2 (set_storage addr key v m) =
     (if addr2 = addr \<and> key2 = key then v else get_storage addr2 key2 m)"
  by (auto simp: get_storage_def set_storage_def Let_def split: option.splits)

end
