(* ===== verification/Goldilocks.thy ===== *)
theory Goldilocks
  imports Prelude
begin

section \<open>The prime field of the proof system\<close>

text \<open>
  \<open>zk/src/field.rs\<close>: arithmetic modulo the prime 2 to the power of 64 minus 2 to the power of 32
  plus 1 on 64-bit integers.  A Rust \<open>Fp\<close> is a \<open>u64\<close>; the value is canonical below \<open>MODULUS\<close>.
  The second half of the theory defines the field \<open>gf\<close> as a type of its own, proves it to be a
  field (7 generates its multiplicative group) and shows that every operation of the code
  implements the operation of \<open>gf\<close> and keeps values canonical.
\<close>

subsection \<open>The operations\<close>

type_synonym Fp = u64

definition MODULUS :: u64 where
  "MODULUS = 0xFFFFFFFF00000001"

definition TWO32_MINUS_1 :: u128 where
  "TWO32_MINUS_1 = push_bit 32 1 - 1"

definition fp_GENERATOR :: Fp where
  "fp_GENERATOR = 7"

definition fp_new :: "u64 \<Rightarrow> Fp" where
  "fp_new v = v mod MODULUS"

definition fp_is_zero :: "Fp \<Rightarrow> bool" where
  "fp_is_zero a \<longleftrightarrow> a = 0"

definition fp_mul :: "Fp \<Rightarrow> Fp \<Rightarrow> Fp" where
  "fp_mul a b =
     (let t = (ucast a :: u128) * ucast b;
          lo = (ucast t :: u64);
          hi = (ucast (drop_bit 64 t) :: u64);
          s = (ucast lo :: u128) + ucast hi * TWO32_MINUS_1;
          lo2 = (ucast s :: u64);
          hi2 = (ucast (drop_bit 64 s) :: u64);
          s2 = (ucast lo2 :: u128) + ucast hi2 * TWO32_MINUS_1;
          lo3 = (ucast s2 :: u64);
          hi3 = (ucast (drop_bit 64 s2) :: u64);
          r = (ucast lo3 :: u128) + ucast hi3 * TWO32_MINUS_1;
          r = (ucast r :: u64);
          r = (if r \<ge> MODULUS then r - MODULUS else r)
      in if r \<ge> MODULUS then r - MODULUS else r)"

text \<open>One round of square and multiply, for bit \<open>i\<close> of the exponent.\<close>

definition fp_pow_step :: "Fp \<Rightarrow> u64 \<Rightarrow> nat \<Rightarrow> Fp \<Rightarrow> Fp" where
  "fp_pow_step base e i acc =
     (let acc = fp_mul acc acc
      in if and (drop_bit i e) 1 = 1 then fp_mul acc base else acc)"

definition fp_pow :: "Fp \<Rightarrow> u64 \<Rightarrow> Fp" where
  "fp_pow a e = fold (fp_pow_step a e) (rev [0..<64]) 1"

definition fp_inv :: "Fp \<Rightarrow> Fp" where
  "fp_inv a =
     (let base = a mod MODULUS; e = MODULUS - 2
      in fold (fp_pow_step base e) (rev [0..<64]) 1)"

definition fp_root_of_unity :: "nat \<Rightarrow> Fp" where
  "fp_root_of_unity order_log2 =
     (let group_order = MODULUS - 1
      in fp_pow fp_GENERATOR (drop_bit order_log2 group_order))"

definition fp_add :: "Fp \<Rightarrow> Fp \<Rightarrow> Fp" where
  "fp_add a b =
     (let r = a + b; c = r < a
      in if c \<or> r \<ge> MODULUS then r - MODULUS else r)"

definition fp_sub :: "Fp \<Rightarrow> Fp \<Rightarrow> Fp" where
  "fp_sub a b = (if a \<ge> b then a - b else MODULUS - (b - a))"

definition fp_neg :: "Fp \<Rightarrow> Fp" where
  "fp_neg a = (if a = 0 then a else MODULUS - a)"

text \<open>The representation invariant.\<close>

definition fp_ok :: "Fp \<Rightarrow> bool" where
  "fp_ok a \<longleftrightarrow> a < MODULUS"

lemma unat_MODULUS: "unat MODULUS = 18446744069414584321"
  by (simp add: MODULUS_def)

lemma unat_TWO32: "unat TWO32_MINUS_1 = 4294967295"
  by (simp add: TWO32_MINUS_1_def)

lemma fp_ok_nat: "fp_ok a \<longleftrightarrow> unat a < 18446744069414584321"
  by (simp add: fp_ok_def word_less_nat_alt unat_MODULUS)

subsection \<open>The field\<close>

typedef gf = "{0..<18446744069414584321 :: int}"
  by (rule exI [of _ 0]) simp

setup_lifting type_definition_gf

instantiation gf :: comm_ring_1
begin

lift_definition zero_gf :: gf is 0 by simp
lift_definition one_gf :: gf is 1 by simp
lift_definition plus_gf :: "gf \<Rightarrow> gf \<Rightarrow> gf" is "\<lambda>a b. (a + b) mod 18446744069414584321" by simp
lift_definition times_gf :: "gf \<Rightarrow> gf \<Rightarrow> gf" is "\<lambda>a b. (a * b) mod 18446744069414584321" by simp
lift_definition minus_gf :: "gf \<Rightarrow> gf \<Rightarrow> gf" is "\<lambda>a b. (a - b) mod 18446744069414584321" by simp
lift_definition uminus_gf :: "gf \<Rightarrow> gf" is "\<lambda>a. (- a) mod 18446744069414584321" by simp

instance
proof
  fix a b c :: gf
  show "a * b * c = a * (b * c)" by transfer (simp add: mod_mult_left_eq mod_mult_right_eq mult.assoc)
  show "a * b = b * a" by transfer (simp add: mult.commute)
  show "1 * a = a" by transfer simp
  show "a + b + c = a + (b + c)" by transfer (simp add: mod_add_left_eq mod_add_right_eq add.assoc)
  show "a + b = b + a" by transfer (simp add: add.commute)
  show "0 + a = a" by transfer simp
  show "- a + a = 0" by transfer (simp add: mod_add_left_eq)
  show "a - b = a + - b" by transfer (simp add: mod_add_right_eq)
  show "(a + b) * c = a * c + b * c"
    by transfer (simp add: mod_mult_left_eq mod_add_eq distrib_right)
  show "(0 :: gf) \<noteq> 1" by transfer simp
qed

end

lift_definition gf_rep :: "gf \<Rightarrow> int" is "\<lambda>a. a" .

lemma gf_of_int_rep: "gf_rep (of_int z) = z mod 18446744069414584321"
proof -
  have n: "gf_rep (of_nat n) = int n mod 18446744069414584321" for n
  proof (induction n)
    case 0
    then show ?case by (simp add: zero_gf.rep_eq gf_rep.rep_eq)
  next
    case (Suc n)
    have "gf_rep (1 + of_nat n) = (1 + gf_rep (of_nat n)) mod 18446744069414584321"
      by (simp add: gf_rep.rep_eq plus_gf.rep_eq one_gf.rep_eq)
    then show ?case using Suc by (simp add: mod_add_right_eq)
  qed
  show ?thesis
  proof (cases z rule: int_cases2)
    case (nonneg n)
    then show ?thesis using n by simp
  next
    case (nonpos n)
    have "gf_rep (- of_nat n) = (- gf_rep (of_nat n)) mod 18446744069414584321"
      by (simp add: gf_rep.rep_eq uminus_gf.rep_eq)
    then show ?thesis using nonpos n by (simp add: mod_minus_eq)
  qed
qed

lemma gf_rep_inject: "gf_rep a = gf_rep b \<longleftrightarrow> a = b"
  by transfer simp

lemma gf_of_int_eq: "(of_int z :: gf) = of_int w \<longleftrightarrow> z mod 18446744069414584321 = w mod 18446744069414584321"
  by (simp add: gf_of_int_rep flip: gf_rep_inject)

lemma gf_of_nat_eq: "(of_nat m :: gf) = of_nat n \<longleftrightarrow> m mod 18446744069414584321 = n mod 18446744069414584321"
proof -
  have "(of_nat m :: gf) = of_nat n \<longleftrightarrow> int m mod int 18446744069414584321 = int n mod int 18446744069414584321"
    using gf_of_int_eq [of "int m" "int n"] by simp
  then show ?thesis unfolding zmod_int [symmetric] by simp
qed

lemma gf_modulus_zero: "(18446744069414584321 :: gf) = 0"
  using gf_of_nat_eq [of 18446744069414584321 0] by simp

lemma card_gf: "card (UNIV :: gf set) = 18446744069414584321"
  using type_definition.card [OF type_definition_gf] by simp

lemma finite_gf: "finite (UNIV :: gf set)"
  by (rule card_ge_0_finite) (simp add: card_gf)

text \<open>The element a machine integer stands for.\<close>

definition gf_of :: "Fp \<Rightarrow> gf" where
  "gf_of a = of_nat (unat a)"

lemma gf_of_inject: "fp_ok a \<Longrightarrow> fp_ok b \<Longrightarrow> gf_of a = gf_of b \<longleftrightarrow> a = b"
  by (simp add: gf_of_def gf_of_nat_eq fp_ok_nat word_unat_eq_iff del: of_nat_unat)

lemma fp_ok_small [simp]: "fp_ok 0" "fp_ok 1" "fp_ok 2" "fp_ok fp_GENERATOR"
  by (simp_all add: fp_ok_nat fp_GENERATOR_def)

lemma gf_of_small [simp]: "gf_of 0 = 0" "gf_of 1 = 1" "gf_of 2 = 2" "gf_of fp_GENERATOR = 7"
  by (simp_all add: gf_of_def fp_GENERATOR_def)

lemma gf_of_cong:
  "unat r mod 18446744069414584321 = n mod 18446744069414584321 \<Longrightarrow> gf_of r = of_nat n"
  by (simp add: gf_of_def gf_of_nat_eq del: of_nat_unat)

lemma fp_ok_new [simp]: "fp_ok (fp_new v)"
  by (simp add: fp_ok_nat fp_new_def unat_mod unat_MODULUS)

lemma gf_of_new [simp]: "gf_of (fp_new v) = gf_of v"
  unfolding gf_of_def [of v] by (rule gf_of_cong) (simp add: fp_new_def unat_mod unat_MODULUS)

lemma fp_new_ok: "fp_ok a \<Longrightarrow> fp_new a = a"
  by (simp add: fp_ok_nat fp_new_def word_unat_eq_iff unat_mod unat_MODULUS)

lemma gf_of_eq_0: "fp_ok a \<Longrightarrow> gf_of a = 0 \<longleftrightarrow> a = 0"
  using gf_of_inject [of a 0] by simp

subsection \<open>Multiplication\<close>

text \<open>One round of the reduction replaces the high 64 bits by their multiple of 2 to the power of
  32 minus 1.\<close>

definition fp_fold64 :: "u128 \<Rightarrow> u128" where
  "fp_fold64 t = ucast (ucast t :: u64) + ucast (ucast (drop_bit 64 t) :: u64) * TWO32_MINUS_1"

lemma unat_drop64: "unat (drop_bit 64 (t :: u128)) = unat t div 18446744073709551616"
  by (simp add: drop_bit_eq_div unat_div)

lemma unat_fp_fold64:
  "unat (fp_fold64 t) = unat t mod 18446744073709551616 + unat t div 18446744073709551616 * 4294967295"
proof -
  let ?lo = "unat t mod 18446744073709551616" and ?hi = "unat t div 18446744073709551616"
  have t: "unat t < 340282366920938463463374607431768211456" using unat_word_less [of t] by simp
  then have hi: "?hi < 18446744073709551616" by (simp add: div_less_iff_less_mult)
  have lo: "?lo < 18446744073709551616" by simp
  have l: "unat (ucast (ucast t :: u64) :: u128) = ?lo"
    by (simp add: unsigned_ucast_eq take_bit_eq_mod unat_mod)
  have h: "unat (ucast (ucast (drop_bit 64 t) :: u64) :: u128) = ?hi"
    using hi by (simp add: unsigned_ucast_eq take_bit_eq_mod unat_mod unat_drop64 del: unsigned_drop_bit_eq)
  have m: "unat (ucast (ucast (drop_bit 64 t) :: u64) * TWO32_MINUS_1 :: u128) = ?hi * 4294967295"
    using hi by (simp add: unat_word_ariths(2) h unat_TWO32)
  have "?lo + ?hi * 4294967295 < 340282366920938463463374607431768211456" using lo hi by linarith
  then show ?thesis unfolding fp_fold64_def by (simp add: unat_word_ariths(1) m l)
qed

lemma fold64_cong:
  fixes n :: nat
  shows "(n mod 18446744073709551616 + n div 18446744073709551616 * 4294967295) mod 18446744069414584321
     = n mod 18446744069414584321"
proof -
  let ?q = "n div 18446744073709551616"
  have "n = n mod 18446744073709551616 + ?q * 18446744073709551616" by simp
  also have "\<dots> = n mod 18446744073709551616 + ?q * 4294967295 + ?q * 18446744069414584321" by simp
  finally have "n mod 18446744069414584321
      = (n mod 18446744073709551616 + ?q * 4294967295 + ?q * 18446744069414584321) mod 18446744069414584321"
    by (rule arg_cong)
  also have "\<dots> = (n mod 18446744073709551616 + ?q * 4294967295) mod 18446744069414584321"
    by (rule mod_mult_self1)
  finally show ?thesis by (rule sym)
qed

lemma fold64_bound:
  fixes n :: nat
  assumes "n div 18446744073709551616 \<le> k"
  shows "n mod 18446744073709551616 + n div 18446744073709551616 * 4294967295
     \<le> 18446744073709551615 + k * 4294967295"
  using assms mult_le_mono1 [OF assms, of 4294967295] by (simp add: add_mono)

definition fp_reduce :: "u128 \<Rightarrow> Fp" where
  "fp_reduce t = (let r = (ucast (fp_fold64 (fp_fold64 (fp_fold64 t))) :: u64);
       r = (if r \<ge> MODULUS then r - MODULUS else r)
     in if r \<ge> MODULUS then r - MODULUS else r)"

lemma fp_mul_reduce: "fp_mul a b = fp_reduce (ucast a * ucast b)"
  by (simp only: fp_mul_def fp_reduce_def fp_fold64_def Let_def)

lemma fp_fold64_twice:
  fixes t :: u128
  defines "n \<equiv> unat (fp_fold64 (fp_fold64 (fp_fold64 t)))"
  shows "n < 18446744073709551616" "n mod 18446744069414584321 = unat t mod 18446744069414584321"
proof -
  let ?m1 = "unat (fp_fold64 t)" and ?m2 = "unat (fp_fold64 (fp_fold64 t))"
  have "unat t div 18446744073709551616 \<le> 18446744073709551615"
    using unat_word_less [of t] by (simp add: less_Suc_eq_le [symmetric] div_less_iff_less_mult)
  from fold64_bound [OF this] have "?m1 \<le> 79228162514264337593543950335 - 4294967296 + 4294967296"
    unfolding unat_fp_fold64 by simp
  then have "?m1 div 18446744073709551616 \<le> 4294967295"
    by (simp add: less_Suc_eq_le [symmetric] div_less_iff_less_mult)
  from fold64_bound [OF this] have m2: "?m2 \<le> 36893488138829168640"
    unfolding unat_fp_fold64 [of "fp_fold64 t"] by simp
  have n: "n = ?m2 mod 18446744073709551616 + ?m2 div 18446744073709551616 * 4294967295"
    unfolding n_def by (rule unat_fp_fold64)
  show "n < 18446744073709551616"
  proof (cases "?m2 < 18446744073709551616")
    case False
    then have "?m2 div 18446744073709551616 = 1" "?m2 mod 18446744073709551616 = ?m2 - 18446744073709551616"
      using m2 by (simp_all add: le_mod_geq le_div_geq)
    then show ?thesis using m2 n by simp
  qed (simp add: n)
  show "n mod 18446744069414584321 = unat t mod 18446744069414584321"
    unfolding n_def unat_fp_fold64 fold64_cong by (rule refl)
qed

lemma sub_MODULUS:
  "\<not> r < MODULUS \<Longrightarrow> unat (r - MODULUS) = unat r - 18446744069414584321"
  by (simp add: unat_sub word_le_nat_alt unat_MODULUS not_less)

lemma fp_reduce_correct: "fp_ok (fp_reduce t)" "gf_of (fp_reduce t) = of_nat (unat t)"
proof -
  define r where "r = (ucast (fp_fold64 (fp_fold64 (fp_fold64 t))) :: u64)"
  have r: "unat r mod 18446744069414584321 = unat t mod 18446744069414584321"
    using fp_fold64_twice [of t] by (simp add: r_def unsigned_ucast_eq take_bit_eq_mod)
  have "unat (fp_reduce t) = unat r mod 18446744069414584321"
  proof (cases "r < MODULUS")
    case True
    then have "fp_reduce t = r" by (auto simp: fp_reduce_def r_def [symmetric] Let_def)
    then show ?thesis using True by (simp add: fp_ok_nat [unfolded fp_ok_def])
  next
    case False
    have b: "unat r < 18446744073709551616" using unat_word_less [of r] by simp
    have "18446744069414584321 \<le> unat r" using False by (simp add: fp_ok_nat [unfolded fp_ok_def])
    then have e: "unat r mod 18446744069414584321 = unat r - 18446744069414584321"
      using b by (simp add: le_mod_geq)
    have "r - MODULUS < MODULUS"
      using b by (simp add: fp_ok_nat [unfolded fp_ok_def] sub_MODULUS [OF False])
    then show ?thesis
      using False by (auto simp: fp_reduce_def r_def [symmetric] sub_MODULUS e Let_def)
  qed
  then show "fp_ok (fp_reduce t)" "gf_of (fp_reduce t) = of_nat (unat t)"
    using r by (simp_all add: fp_ok_nat gf_of_cong)
qed

lemma fp_ok_mul [simp]: "fp_ok (fp_mul a b)"
  by (simp add: fp_mul_reduce fp_reduce_correct)

lemma gf_of_mul [simp]: "gf_of (fp_mul a b) = gf_of a * gf_of b"
proof -
  have "unat (ucast a * ucast b :: u128) = unat a * unat b"
  proof -
    have "unat a * unat b \<le> 18446744073709551615 * 18446744073709551615"
      using unat_le_max [of a] unat_le_max [of b] by (intro mult_le_mono) simp_all
    then show ?thesis by (simp add: unat_word_ariths(2) unsigned_ucast_eq take_bit_nat_eq_self unat_word_less [THEN less_le_trans])
  qed
  then have "gf_of (fp_mul a b) = of_nat (unat a * unat b)"
    by (simp only: fp_mul_reduce fp_reduce_correct)
  then show ?thesis by (simp add: gf_of_def del: of_nat_unat)
qed

subsection \<open>Addition, subtraction, negation, powers\<close>

lemma gf_of_diff:
  assumes "unat r + unat b = unat a \<or> unat r + unat b = unat a + 18446744069414584321"
  shows "gf_of r = gf_of a - gf_of b"
proof -
  have "(of_nat (unat r + unat b) :: gf) = of_nat (unat a)"
    using assms gf_of_nat_eq [of "unat r + unat b" "unat a"] by auto
  then show ?thesis by (simp add: gf_of_def eq_diff_eq del: of_nat_unat)
qed

lemma fp_sub_correct:
  assumes "fp_ok a" "fp_ok b"
  shows "fp_ok (fp_sub a b)" "gf_of (fp_sub a b) = gf_of a - gf_of b"
proof -
  have *: "if b \<le> a then unat (fp_sub a b) = unat a - unat b
     else unat (fp_sub a b) = 18446744069414584321 - (unat b - unat a)"
    using assms by (auto simp: fp_sub_def fp_ok_nat unat_sub word_le_nat_alt unat_MODULUS not_le)
  show "fp_ok (fp_sub a b)" using * assms by (auto simp: fp_ok_nat word_le_nat_alt split: if_splits)
  show "gf_of (fp_sub a b) = gf_of a - gf_of b"
    using * assms by (intro gf_of_diff) (auto simp: fp_ok_nat word_le_nat_alt split: if_splits)
qed

lemma fp_neg_correct:
  assumes "fp_ok a"
  shows "fp_ok (fp_neg a)" "gf_of (fp_neg a) = - gf_of a"
proof -
  have "fp_neg a = (if a = 0 then 0 else MODULUS - a)" by (simp add: fp_neg_def)
  moreover have "a \<noteq> 0 \<Longrightarrow> unat (MODULUS - a) = 18446744069414584321 - unat a"
    using assms by (simp add: unat_sub word_le_nat_alt unat_MODULUS fp_ok_nat)
  moreover have "a \<noteq> 0 \<Longrightarrow> 0 < unat a" by (simp add: unat_gt_0)
  ultimately show "fp_ok (fp_neg a)" "gf_of (fp_neg a) = - gf_of a"
    using assms gf_of_diff [of "MODULUS - a" a 0] by (auto simp: fp_ok_nat)
qed

lemma fp_add_correct:
  assumes "fp_ok a" "fp_ok b"
  shows "fp_ok (fp_add a b)" "gf_of (fp_add a b) = gf_of a + gf_of b"
proof -
  let ?n = "unat a + unat b"
  have n: "unat a < 18446744069414584321" "unat b < 18446744069414584321"
    using assms by (simp_all add: fp_ok_nat)
  have s: "unat (a + b) = ?n mod 18446744073709551616" by (simp add: unat_word_ariths(1))
  have "unat (fp_add a b) = ?n mod 18446744069414584321"
  proof (cases "?n < 18446744073709551616")
    case True
    then have u: "unat (a + b) = ?n" using s by simp
    then have c: "\<not> a + b < a" by (simp add: word_less_nat_alt)
    show ?thesis
    proof (cases "a + b < MODULUS")
      case True
      then have "fp_add a b = a + b" using c by (auto simp: fp_add_def Let_def)
      then show ?thesis using True u by (simp add: fp_ok_nat [unfolded fp_ok_def])
    next
      case False
      then have "18446744069414584321 \<le> ?n" using u by (simp add: fp_ok_nat [unfolded fp_ok_def])
      then have "?n mod 18446744069414584321 = ?n - 18446744069414584321" using n by (simp add: le_mod_geq)
      then show ?thesis using False sub_MODULUS [OF False] u by (auto simp: fp_add_def Let_def)
    qed
  next
    case False
    then have u: "unat (a + b) = ?n - 18446744073709551616" using s n by (simp add: le_mod_geq)
    then have c: "a + b < a" using n False by (simp add: word_less_nat_alt)
    have "unat (a + b - MODULUS) = unat (a + b) + 18446744073709551616 - 18446744069414584321"
      using u n False by (simp add: unat_sub_if' unat_MODULUS word_le_nat_alt)
    moreover have "?n mod 18446744069414584321 = ?n - 18446744069414584321" using n False by (simp add: le_mod_geq)
    ultimately show ?thesis using c u False by (simp add: fp_add_def)
  qed
  then show "fp_ok (fp_add a b)" "gf_of (fp_add a b) = gf_of a + gf_of b"
    using gf_of_cong [of "fp_add a b" ?n] by (simp_all add: fp_ok_nat gf_of_def del: of_nat_unat)
qed

lemma exponent_bit: "and (drop_bit i (e :: u64)) 1 = 1 \<longleftrightarrow> bit (unat e) i"
proof -
  have "and (drop_bit i e) 1 = 1 \<longleftrightarrow> odd (drop_bit i e)"
    by (simp add: and_one_eq odd_iff_mod_2_eq_one)
  also have "\<dots> \<longleftrightarrow> bit (unat e) i"
    using bit_imp_le_length [of e i] by (auto simp: bit_unsigned_iff simp flip: bit_iff_odd_drop_bit)
  finally show ?thesis .
qed

lemma fp_pow_loop:
  "n \<le> 64 \<Longrightarrow> gf_of (fold (fp_pow_step a e) (rev [0..<n]) acc)
     = gf_of acc ^ (2 ^ n) * gf_of a ^ (unat e mod 2 ^ n)"
proof (induction n arbitrary: acc)
  case (Suc n)
  let ?b = "bit (unat e) n"
  have "gf_of (fp_pow_step a e n acc) = gf_of acc ^ 2 * gf_of a ^ of_bool ?b"
    by (simp add: fp_pow_step_def Let_def power2_eq_square exponent_bit)
  moreover have "unat e mod 2 ^ Suc n = of_bool ?b * 2 ^ n + unat e mod 2 ^ n"
    using take_bit_Suc_from_most [of n "unat e"] unfolding take_bit_eq_mod by (simp add: mult.commute)
  moreover have "rev [0..<Suc n] = n # rev [0..<n]" by simp
  ultimately show ?case using Suc
    by (simp add: power_mult_distrib power_add flip: power_mult)
qed simp

lemma fp_ok_pow_step [simp]: "fp_ok (fp_pow_step a e i acc)"
  by (simp add: fp_pow_step_def Let_def)

lemma fp_ok_pow_loop: "fp_ok acc \<Longrightarrow> fp_ok (fold (fp_pow_step a e) is acc)"
  by (induction "is" arbitrary: acc) simp_all

lemma fp_pow_correct [simp]: "fp_ok (fp_pow a e)" "gf_of (fp_pow a e) = gf_of a ^ unat e"
proof -
  have "unat e mod 2 ^ 64 = unat e" using unat_word_less [of e] by simp
  then show "gf_of (fp_pow a e) = gf_of a ^ unat e"
    unfolding fp_pow_def using fp_pow_loop [of 64 a e 1] by simp
  show "fp_ok (fp_pow a e)" unfolding fp_pow_def by (rule fp_ok_pow_loop) simp
qed

lemma fp_inv_pow: "fp_inv a = fp_pow (fp_new a) (MODULUS - 2)"
  by (simp only: fp_inv_def fp_pow_def fp_new_def Let_def)

lemma fp_ok_inv [simp]: "fp_ok (fp_inv a)"
  by (simp add: fp_inv_pow)

lemma unat_MODULUS_minus: "unat (MODULUS - 1) = 18446744069414584320" "unat (MODULUS - 2) = 18446744069414584319"
  by (simp_all add: MODULUS_def)

lemma gf_of_inv_pow: "gf_of (fp_inv a) = gf_of a ^ 18446744069414584319"
  unfolding fp_inv_pow fp_pow_correct(2) unat_MODULUS_minus by simp

subsection \<open>The multiplicative group is generated by 7\<close>

text \<open>
  The power of 7 whose exponent has the given bits, most significant first, by square and
  multiply on natural numbers.  Each entry carries the bit, and quotient and remainder of the
  step, so that checking an entry takes multiplications only.
\<close>

fun gen_check :: "nat \<Rightarrow> (bool \<times> nat \<times> nat) list \<Rightarrow> nat option" where
  "gen_check h [] = Some h"
| "gen_check h ((b, q, r) # ds) =
     (if (if b then 7 * (h * h) else h * h) = q * 18446744069414584321 + r then gen_check r ds else None)"

fun bits_value :: "nat \<Rightarrow> bool list \<Rightarrow> nat" where
  "bits_value e [] = e"
| "bits_value e (b # bs) = bits_value (2 * e + of_bool b) bs"

lemma gen_check_power:
  "gen_check h ds = Some r \<Longrightarrow> (of_nat h :: gf) = 7 ^ e \<Longrightarrow>
     (of_nat r :: gf) = 7 ^ bits_value e (map fst ds)"
proof (induction h ds arbitrary: e rule: gen_check.induct)
  case (2 h b q r' ds)
  have s: "(if b then 7 * (h * h) else h * h) = q * 18446744069414584321 + r'"
    using "2.prems"(1) by (simp split: if_splits)
  then have "(of_nat (if b then 7 * (h * h) else h * h) :: gf) = of_nat (q * 18446744069414584321 + r')"
    by (rule arg_cong)
  then have "(of_nat r' :: gf) = (if b then 7 * (of_nat h * of_nat h) else of_nat h * of_nat h)"
    by (simp add: gf_modulus_zero split: if_splits)
  also have "\<dots> = 7 ^ (2 * e + of_bool b)"
    unfolding "2.prems"(2) by (simp add: power_add mult_2)
  finally have "(of_nat r' :: gf) = 7 ^ (2 * e + of_bool b)" .
  from "2.IH" [OF s _ this] "2.prems"(1) s show ?case by simp
qed simp

definition half_order :: nat where
  "half_order = 9223372034707292160"

definition gen_certificate :: "(bool \<times> nat \<times> nat) list" where
  "gen_certificate = [
    (True, 0, 7), (True, 0, 343),
    (True, 0, 823543), (True, 0, 4747561509943),
    (True, 8553020, 11074261478625843323), (True, 46538016023229720673, 12148266161370408270),
    (True, 56002435508678139577, 7007601668316978083), (True, 18634473742308562026, 8125271997680889877),
    (True, 25052676695413524112, 2624486902016877951), (True, 2613768603856235308, 8253119735826302939),
    (True, 25847265827672469332, 3543566522599720475), (True, 4764962617243911856, 11981551684735969599),
    (True, 54475904345860342852, 10062120588441922115), (True, 38419999349886321742, 10485806445487905393),
    (True, 41723620970151811147, 4139485063330164956), (True, 6502359206338864843, 12134830135347446949),
    (True, 55878626223541897244, 4326791766630348883), (True, 7104120296206835795, 206761543466863628),
    (True, 16222502457426627, 10086585273483141421), (True, 38607052533218672533, 1855730417186139594),
    (True, 1306796883947548869, 7626447102712710903), (True, 22071042257716239407, 7790920094560990216),
    (True, 23033281637127610743, 5901922255895126089), (True, 13217985964617414221, 8935258787870022506),
    (True, 30296508974182092522, 13093775858033092690), (True, 65059110649923945754, 11243737384857129666),
    (True, 47973312218535118729, 2063617152444052883), (True, 1615982210782367681, 13064848991504552222),
    (True, 64771970039786058224, 16593403251012455084), (True, 104483870589968102175, 5859133952941131217),
    (True, 13027022755088247160, 15659105665374529263), (True, 93049110738273779291, 1753635133440165772),
    (False, 166708887468903991, 4614640910117430873), (False, 1154399424049971884, 9123114210336311365),
    (False, 4511973093009996851, 16116352524544190054), (False, 14080361158478670879, 6414415596519834757),
    (False, 2230460144622294524, 1213594585890690845), (False, 79841288704448195, 17096174751763063430),
    (False, 15844486704156700236, 5456943929260765144), (False, 1614281465338340559, 9713644485405565297),
    (False, 5114988793349933654, 16905767614792059275), (False, 15493518941330557636, 5416168637041100469),
    (False, 1590247178281506213, 17654865857378133588), (False, 16896981237942002723, 3511170319078647661),
    (False, 668319404399374695, 18146160046829613826), (False, 17850473948468743512, 9306717745644682924),
    (False, 4695408299218975106, 12380578893860276750), (False, 8309256808156222390, 6115771955107415310),
    (False, 2027602620068516376, 17776499369601055404), (False, 17130607366173278638, 16207902636198568418),
    (False, 14240784545824149997, 1532612707718625687), (False, 127334216977357403, 17492915097719143606),
    (False, 16588405924890216597, 455906449640507599), (False, 11267608529812975, 11353340290879379826),
    (False, 6987592784692205430, 1803076106186727246), (False, 176241586724885086, 13797081185216407910),
    (False, 10319406422896923811, 17870292113338400769), (False, 17311854006015885313, 549755813888),
    (False, 16384, 70368744161280), (False, 268435455, 17293822564807737345),
    (False, 16212958654255595520, 18446744069397807105), (False, 18446744069381029889, 281474976710656),
    (False, 4294967296, 18446744069414584320)]"

lemma gen_certificate_value: "gen_check 1 gen_certificate = Some 18446744069414584320"
  by (simp add: gen_certificate_def)

lemma gen_certificate_bits: "bits_value 0 (map fst gen_certificate) = half_order"
  by (simp add: gen_certificate_def half_order_def)

lemma gen_half_order: "(7 :: gf) ^ half_order = - 1"
proof -
  have "(of_nat 18446744069414584320 :: gf) = 7 ^ half_order"
    using gen_check_power [OF gen_certificate_value, of 0] by (simp add: gen_certificate_bits)
  moreover have "(of_nat 18446744069414584320 :: gf) + 1 = 0"
    using gf_modulus_zero by simp
  ultimately show ?thesis by (simp add: eq_neg_iff_add_eq_0)
qed

subsection \<open>The modulus is prime\<close>

lemma odd_part: "0 < (k :: nat) \<Longrightarrow> \<exists>t u. odd u \<and> k = 2 ^ t * u"
proof (induction k rule: less_induct)
  case (less k)
  show ?case
  proof (cases "odd k")
    case True
    then have "odd k \<and> k = 2 ^ 0 * k" by simp
    then show ?thesis by blast
  next
    case False
    then obtain l where l: "k = 2 * l" by blast
    then have "0 < l" "l < k" using less.prems by simp_all
    with less.IH obtain t u where "odd u" "l = 2 ^ t * u" by blast
    then have "odd u \<and> k = 2 ^ Suc t * u" using l by simp
    then show ?thesis by blast
  qed
qed

lemma dvd_power_minus_one: "(r :: int) dvd x - 1 \<Longrightarrow> r dvd x ^ n - 1"
proof (induction n)
  case (Suc n)
  have "x ^ Suc n - 1 = x * (x ^ n - 1) + (x - 1)" by (simp add: algebra_simps)
  then show ?case using Suc by (metis dvd_add dvd_mult)
qed simp

lemma dvd_odd_power_plus_one: "(r :: int) dvd x + 1 \<Longrightarrow> odd n \<Longrightarrow> r dvd x ^ n + 1"
proof -
  assume r: "r dvd x + 1" "odd n"
  then obtain k where n: "n = Suc (2 * k)" by (elim oddE) simp
  have "r dvd x\<^sup>2 - 1" using r(1) by (simp add: power2_eq_square square_diff_one_factored)
  from dvd_power_minus_one [OF this, of k] have "r dvd x * (x ^ (2 * k) - 1) + (x + 1)"
    using r(1) by (simp add: power_mult)
  also have "x * (x ^ (2 * k) - 1) + (x + 1) = x ^ n + 1" by (simp add: n algebra_simps)
  finally show ?thesis .
qed

text \<open>An element whose power with exponent \<open>2 ^ n\<close> is -1 modulo \<open>r\<close> has \<open>2 ^ (n + 1)\<close> different powers.\<close>

lemma no_small_order:
  fixes b r :: int
  assumes "r dvd b ^ (2 ^ n) + 1" "2 < r" "0 < k" "k < 2 ^ Suc n"
  shows "\<not> r dvd b ^ k - 1"
proof
  assume k: "r dvd b ^ k - 1"
  from odd_part [OF assms(3)] obtain t u where u: "odd u" "k = 2 ^ t * u" by blast
  then have "0 < u" by (cases u) auto
  then have "2 ^ t \<le> k" using u by simp
  then have "(2 :: nat) ^ t < 2 ^ Suc n" using assms(4) by linarith
  then have t: "t \<le> n" by (simp add: power_strict_increasing_iff less_Suc_eq_le del: power_Suc)
  have "k * 2 ^ (n - t) = 2 ^ n * u" using t u(2) by (simp flip: power_add)
  then have "r dvd (b ^ (2 ^ n)) ^ u - 1"
    using dvd_power_minus_one [OF k, of "2 ^ (n - t)"] by (simp flip: power_mult)
  moreover have "r dvd (b ^ (2 ^ n)) ^ u + 1" by (rule dvd_odd_power_plus_one [OF assms(1) u(1)])
  ultimately have "r dvd ((b ^ (2 ^ n)) ^ u + 1) - ((b ^ (2 ^ n)) ^ u - 1)" by (rule dvd_diff [rotated])
  then have "r dvd 2" by simp
  then show False using assms(2) zdvd_imp_le [of r 2] by simp
qed

lemma order_bound:
  fixes b r :: int
  assumes "r dvd b ^ (2 ^ n) + 1" "2 < r"
  shows "2 ^ Suc n < r"
proof -
  have "coprime r b"
  proof (rule coprimeI)
    fix d assume d: "d dvd r" "d dvd b"
    have "d dvd b ^ (2 ^ n)" using d(2) by (simp add: dvd_power_le [of d b 1, simplified] dvd_trans [OF _ dvd_power])
    moreover have "d dvd b ^ (2 ^ n) + 1" using d(1) assms(1) by (rule dvd_trans)
    ultimately have "d dvd 1" by (simp only: dvd_add_right_iff)
    then show "is_unit d" by simp
  qed
  then have cop: "coprime r (b ^ i)" for i by simp
  let ?A = "{0..<(2 :: nat) ^ Suc n}"
  have inj: "inj_on (\<lambda>i. b ^ i mod r) ?A"
  proof (rule linorder_inj_onI)
    fix i j assume ij: "i \<in> ?A" "j \<in> ?A" "i < j"
    show "b ^ i mod r \<noteq> b ^ j mod r"
    proof
      assume "b ^ i mod r = b ^ j mod r"
      then have "r dvd b ^ j - b ^ i" by (metis mod_eq_dvd_iff)
      also have "b ^ j - b ^ i = b ^ i * (b ^ (j - i) - 1)"
        using ij(3) by (simp add: algebra_simps flip: power_add)
      finally have "r dvd b ^ (j - i) - 1" using cop [of i] coprime_dvd_mult_right_iff by blast
      moreover have "\<not> r dvd b ^ (j - i) - 1" using ij by (intro no_small_order [OF assms]) auto
      ultimately show False by contradiction
    qed
  qed auto
  have "(\<lambda>i. b ^ i mod r) ` ?A \<subseteq> {1..<r}"
  proof clarify
    fix i
    have "\<not> is_unit r" using assms(2) by simp
    then have "\<not> r dvd b ^ i" using coprime_common_divisor [OF cop [of i]] by (metis dvd_refl)
    then have "b ^ i mod r \<noteq> 0" by (simp add: dvd_eq_mod_eq_0)
    moreover have "0 \<le> b ^ i mod r" "b ^ i mod r < r" using assms(2) by simp_all
    ultimately show "b ^ i mod r \<in> {1..<r}" unfolding atLeastLessThan_iff by linarith
  qed
  from card_mono [OF _ this] have "2 ^ Suc n \<le> nat (r - 1)" using inj by (simp add: card_image)
  then show ?thesis using assms(2) by (simp add: nat_le_iff le_nat_iff)
qed

lemma modulus_divides: "(18446744069414584321 :: int) dvd 7 ^ half_order + 1"
proof -
  have "(of_int (7 ^ half_order + 1) :: gf) = of_int 0" using gen_half_order by simp
  then show ?thesis unfolding gf_of_int_eq by (simp add: dvd_eq_mod_eq_0)
qed

lemma modulus_prime:
  fixes r :: int
  assumes "r dvd 18446744069414584321" "1 < r"
  shows "r = 18446744069414584321"
proof (rule ccontr)
  assume ne: "r \<noteq> 18446744069414584321"
  have big: "4294967296 < d" if d: "d dvd 18446744069414584321" "1 < d" for d :: int
  proof -
    have "half_order = 4294967295 * 2 ^ 31" by (simp add: half_order_def)
    then have e: "(7 :: int) ^ half_order = (7 ^ 4294967295) ^ (2 ^ 31)"
      by (metis power_mult)
    have "d \<noteq> 2" using d(1) by auto
    then have "2 < d" using d(2) by simp
    moreover have "d dvd (7 ^ 4294967295) ^ (2 ^ 31) + 1"
      using dvd_trans [OF d(1) modulus_divides] unfolding e .
    ultimately have "2 ^ Suc 31 < d" by (intro order_bound)
    then show ?thesis by simp
  qed
  from assms(1) obtain s where s: "18446744069414584321 = r * s" by blast
  have "0 < s" using s assms(2) by (smt (verit) mult_nonneg_nonpos)
  moreover have "s \<noteq> 1" using s ne by auto
  ultimately have "4294967296 < s" using big [of s] s by (simp add: dvd_def)
  moreover have "4294967296 < r" using big [OF assms] .
  ultimately have "4294967297 * 4294967297 \<le> r * s" by (intro mult_mono) simp_all
  then show False using s by simp
qed

subsection \<open>The field instance\<close>

lemma gf_rep_range: "0 \<le> gf_rep a" "gf_rep a < 18446744069414584321"
  by (transfer; simp)+

lemma gf_of_int_ex: "\<exists>z. (a :: gf) = of_int z"
  by (rule exI [of _ "gf_rep a"]) (simp add: gf_of_int_rep gf_rep_range flip: gf_rep_inject)

lemma gf_unit:
  assumes "(a :: gf) \<noteq> 0"
  shows "\<exists>b. a * b = 1"
proof -
  obtain z where z: "a = of_int z" using gf_of_int_ex by blast
  let ?g = "gcd z 18446744069414584321"
  have "\<not> 18446744069414584321 dvd z"
    using assms gf_of_int_eq [of z 0] by (simp add: z dvd_eq_mod_eq_0)
  then have "?g \<noteq> 18446744069414584321" by (metis gcd_dvd1)
  moreover have "0 < ?g" by simp
  ultimately have "?g = 1" using modulus_prime [of ?g] gcd_dvd2 [of z 18446744069414584321] by linarith
  moreover obtain u v where "u * z + v * 18446744069414584321 = ?g" using bezout_int by blast
  ultimately have "of_int (u * z + v * 18446744069414584321) = (1 :: gf)" by simp
  then have "a * of_int u = 1" by (simp add: z gf_modulus_zero mult.commute)
  then show ?thesis by blast
qed

lemma gf_cancel: "(a :: gf) \<noteq> 0 \<Longrightarrow> a * x = a * y \<longleftrightarrow> x = y"
proof -
  assume "a \<noteq> 0"
  then obtain b where "b * a = 1" using gf_unit by (metis mult.commute)
  then have "b * (a * x) = x" "b * (a * y) = y" by (simp_all flip: mult.assoc)
  then show ?thesis by metis
qed

lemma gf_fermat: "(a :: gf) \<noteq> 0 \<Longrightarrow> a ^ 18446744069414584320 = 1"
proof -
  assume a: "a \<noteq> 0"
  let ?U = "UNIV - {0 :: gf}"
  have fin: "finite ?U" using finite_gf by simp
  have nz: "x * y \<noteq> 0" if "x \<noteq> 0" "y \<noteq> 0" for x y :: gf
    using gf_cancel [OF that(1), of y 0] that by simp
  have inj: "inj_on ((*) a) ?U" by (rule inj_onI) (simp add: gf_cancel [OF a])
  moreover have "(*) a ` ?U \<subseteq> ?U" using nz [OF a] by auto
  ultimately have img: "(*) a ` ?U = ?U" using fin by (metis endo_inj_surj)
  have "prod id ?U = prod id ((*) a ` ?U)" by (simp add: img)
  also have "\<dots> = prod ((*) a) ?U" by (simp add: prod.reindex [OF inj])
  also have "\<dots> = a ^ card ?U * prod id ?U" by (simp add: prod.distrib)
  finally have "prod id ?U * 1 = prod id ?U * a ^ card ?U" by (simp add: mult.commute)
  moreover have "prod id S \<noteq> 0" if "finite S" "S \<subseteq> ?U" for S
    using that by (induction rule: finite_induct) (auto dest: nz)
  then have "prod id ?U \<noteq> 0" using fin by blast
  ultimately have "1 = a ^ card ?U" by (simp only: gf_cancel simp_thms)
  moreover have "card ?U = 18446744069414584320" using finite_gf by (simp add: card_Diff_singleton card_gf)
  ultimately show ?thesis by simp
qed

instantiation gf :: field
begin

definition inverse_gf :: "gf \<Rightarrow> gf" where
  "inverse_gf a = a ^ 18446744069414584319"

definition divide_gf :: "gf \<Rightarrow> gf \<Rightarrow> gf" where
  "divide_gf a b = a * b ^ 18446744069414584319"

instance
proof
  fix a b :: gf
  show "a \<noteq> 0 \<Longrightarrow> inverse a * a = 1"
  proof -
    assume "a \<noteq> 0"
    have "a ^ 18446744069414584319 * a = a ^ 18446744069414584320"
      by (simp flip: power_Suc2)
    then show ?thesis using gf_fermat [OF \<open>a \<noteq> 0\<close>] by (simp add: inverse_gf_def)
  qed
  show "a div b = a * inverse b" by (simp add: inverse_gf_def divide_gf_def)
  show "inverse (0 :: gf) = 0" by (simp add: inverse_gf_def)
qed

end

lemma gf_of_inv [simp]: "gf_of (fp_inv a) = inverse (gf_of a)"
  by (simp add: gf_of_inv_pow inverse_gf_def)

lemma gf_two_nonzero [simp]: "(2 :: gf) \<noteq> 0"
  using gf_of_nat_eq [of 2 0] by simp

subsection \<open>Roots of unity\<close>

definition gf_root :: "nat \<Rightarrow> gf" where
  "gf_root k = 7 ^ (18446744069414584320 div 2 ^ k)"

lemma fp_root_correct [simp]:
  "fp_ok (fp_root_of_unity k)" "gf_of (fp_root_of_unity k) = gf_root k"
proof -
  have "unat (drop_bit k (MODULUS - 1)) = drop_bit k (take_bit 64 18446744069414584320)"
    unfolding unsigned_drop_bit_eq unat_MODULUS_minus by simp
  then have "unat (drop_bit k (MODULUS - 1)) = 18446744069414584320 div 2 ^ k"
    by (simp add: drop_bit_eq_div take_bit_eq_mod)
  then show "gf_of (fp_root_of_unity k) = gf_root k"
    by (simp add: fp_root_of_unity_def gf_root_def)
qed (simp add: fp_root_of_unity_def)

lemma order_div: "k \<le> 32 \<Longrightarrow> 18446744069414584320 div 2 ^ k * 2 ^ k = (18446744069414584320 :: nat)"
proof -
  assume "k \<le> 32"
  then have "(2 :: nat) ^ k dvd 2 ^ 32" by (rule le_imp_power_dvd)
  also have "(2 :: nat) ^ 32 dvd 18446744069414584320" by simp
  finally show ?thesis by simp
qed

lemma gf_root_Suc: "k < 32 \<Longrightarrow> gf_root (Suc k) ^ 2 = gf_root k"
proof -
  assume k: "k < 32"
  define d e :: nat where "d = 18446744069414584320 div 2 ^ Suc k" and "e = 18446744069414584320 div 2 ^ k"
  have "d * 2 ^ Suc k = e * 2 ^ k" unfolding d_def e_def using order_div [of k] order_div [of "Suc k"] k by simp
  then have "e = d * 2" by simp
  then show ?thesis unfolding gf_root_def d_def [symmetric] e_def [symmetric] by (simp only: power_mult)
qed

lemma gf_seven_nonzero: "(7 :: gf) \<noteq> 0"
  using gf_of_nat_eq [of 7 0] by simp

lemma gf_root_nonzero [simp]: "gf_root k \<noteq> 0"
  unfolding gf_root_def by (rule power_not_zero) (rule gf_seven_nonzero)

lemma gf_root_0 [simp]: "gf_root 0 = 1"
  unfolding gf_root_def power_0 div_by_1 by (rule gf_fermat [OF gf_seven_nonzero])

lemma gf_root_1: "gf_root 1 = - 1"
proof -
  have "18446744069414584320 div 2 ^ 1 = half_order" by (simp add: half_order_def)
  then show ?thesis unfolding gf_root_def by (simp only: gen_half_order)
qed

lemma gf_root_power:
  "i + k \<le> 32 \<Longrightarrow> gf_root (i + k) ^ (2 ^ i) = gf_root k"
proof (induction i)
  case (Suc i)
  have "gf_root (Suc i + k) ^ (2 ^ Suc i) = (gf_root (Suc (i + k)) ^ 2) ^ (2 ^ i)"
    by (simp flip: power_mult)
  also have "\<dots> = gf_root (i + k) ^ (2 ^ i)" using Suc.prems by (simp only: gf_root_Suc)
  finally show ?case using Suc by simp
qed simp

lemma gf_root_order: "k \<le> 32 \<Longrightarrow> gf_root k ^ (2 ^ k) = 1"
  using gf_root_power [of k 0] by simp

lemma gf_root_half: "k < 32 \<Longrightarrow> gf_root (Suc k) ^ (2 ^ k) = - 1"
  using gf_root_power [of k 1] gf_root_1 by simp

lemma gf_minus_one_neq: "(1 :: gf) \<noteq> - 1"
  using gf_two_nonzero by (metis eq_neg_iff_add_eq_0 one_add_one)

lemma gf_root_no_small_order:
  assumes "k \<le> 32" "0 < m" "m < 2 ^ k"
  shows "gf_root k ^ m \<noteq> 1"
proof
  assume one: "gf_root k ^ m = 1"
  obtain k' where k': "k = Suc k'" using assms(2,3) by (cases k) auto
  from odd_part [OF assms(2)] obtain t u where u: "odd u" "m = 2 ^ t * u" by blast
  then have "0 < u" by (cases u) auto
  then have "2 ^ t \<le> m" using u by simp
  then have "(2 :: nat) ^ t < 2 ^ k" using assms(3) by linarith
  then have t: "t \<le> k'" by (simp add: k' power_strict_increasing_iff less_Suc_eq_le del: power_Suc)
  then have "m * 2 ^ (k' - t) = 2 ^ k' * u" using u(2) by (simp flip: power_add)
  then have "(gf_root k ^ m) ^ (2 ^ (k' - t)) = (gf_root k ^ (2 ^ k')) ^ u" by (simp flip: power_mult)
  also have "\<dots> = - 1" using assms(1) u(1) by (simp add: k' gf_root_half)
  finally show False using one gf_minus_one_neq by simp
qed

lemma gf_root_inj:
  assumes "k \<le> 32"
  shows "inj_on (\<lambda>i. gf_root k ^ i) {0..<2 ^ k}"
proof (rule linorder_inj_onI)
  fix i j :: nat assume ij: "i \<in> {0..<2 ^ k}" "j \<in> {0..<2 ^ k}" "i < j"
  then have "gf_root k ^ j = gf_root k ^ i * gf_root k ^ (j - i)" by (simp flip: power_add)
  moreover have "gf_root k ^ (j - i) \<noteq> 1" using ij by (intro gf_root_no_small_order [OF assms]) auto
  ultimately show "gf_root k ^ i \<noteq> gf_root k ^ j" by simp
qed auto

subsection \<open>What the operations compute\<close>

lemma fp_value:
  assumes "fp_ok r" "gf_of r = of_nat n"
  shows "unat r = n mod 18446744069414584321"
proof -
  have "(of_nat (unat r) :: gf) = of_nat n" using assms(2) by (simp only: gf_of_def)
  then have "unat r mod 18446744069414584321 = n mod 18446744069414584321" by (simp only: gf_of_nat_eq)
  then show ?thesis using assms(1) by (simp add: fp_ok_nat)
qed

lemma gf_of_complement:
  "fp_ok b \<Longrightarrow> (of_nat (18446744069414584321 - unat b) :: gf) = - gf_of b"
proof -
  assume "fp_ok b"
  then have "unat b \<le> 18446744069414584321" by (simp add: fp_ok_nat)
  then show ?thesis by (simp add: of_nat_diff gf_modulus_zero gf_of_def)
qed

text \<open>On canonical values the operations on 64-bit integers are exactly addition, subtraction,
  negation, multiplication, power and inverse modulo the prime; multiplication and power also on
  values that are not canonical.\<close>

theorem field_arithmetic_exact:
  assumes "fp_ok a" "fp_ok b"
  shows "unat (fp_add a b) = (unat a + unat b) mod 18446744069414584321 \<and>
    unat (fp_sub a b) = (unat a + (18446744069414584321 - unat b)) mod 18446744069414584321 \<and>
    unat (fp_neg a) = (18446744069414584321 - unat a) mod 18446744069414584321 \<and>
    unat (fp_mul c d) = unat c * unat d mod 18446744069414584321 \<and>
    unat (fp_pow c e) = unat c ^ unat e mod 18446744069414584321 \<and>
    (a \<noteq> 0 \<longrightarrow> unat a * unat (fp_inv a) mod 18446744069414584321 = 1)"
proof (intro conjI impI)
  note defs = gf_of_complement [OF assms(2)] gf_of_complement [OF assms(1)]
  show "unat (fp_add a b) = (unat a + unat b) mod 18446744069414584321"
    by (intro fp_value) (simp_all add: fp_add_correct assms del: of_nat_unat flip: gf_of_def)
  show "unat (fp_sub a b) = (unat a + (18446744069414584321 - unat b)) mod 18446744069414584321"
    by (intro fp_value) (simp_all add: fp_sub_correct assms defs del: of_nat_unat flip: gf_of_def)
  show "unat (fp_neg a) = (18446744069414584321 - unat a) mod 18446744069414584321"
    by (intro fp_value) (simp_all add: fp_neg_correct assms defs del: of_nat_unat flip: gf_of_def)
  show "unat (fp_mul c d) = unat c * unat d mod 18446744069414584321"
    by (intro fp_value) (simp_all del: of_nat_unat flip: gf_of_def)
  show "unat (fp_pow c e) = unat c ^ unat e mod 18446744069414584321"
    by (intro fp_value) (simp_all del: of_nat_unat flip: gf_of_def)
  assume "a \<noteq> 0"
  then have "gf_of a * gf_of (fp_inv a) = 1" using assms(1) by (simp add: gf_of_eq_0)
  then have "(of_nat (unat a * unat (fp_inv a)) :: gf) = of_nat 1" by (simp add: gf_of_def)
  then show "unat a * unat (fp_inv a) mod 18446744069414584321 = 1" unfolding gf_of_nat_eq by simp
qed

lemma field_arithmetic_exact_witness:
  "unat (fp_mul 18446744073709551615 18446744073709551615) = 18446744056529682436 \<and> unat (fp_sub 1 2) = 18446744069414584320"
  using field_arithmetic_exact [of 1 2 18446744073709551615 18446744073709551615 0] by (simp add: fp_ok_nat)

text \<open>The root of unity of index k has order exactly 2 to the power of k, for every
  \<open>k\<close> up to 32: its first \<open>2 ^ k\<close> powers are different.\<close>

theorem root_of_unity_order:
  assumes "k \<le> 32"
  shows "fp_pow (fp_root_of_unity k) (2 ^ k) = 1 \<and>
    inj_on (\<lambda>i. fp_pow (fp_root_of_unity k) (of_nat i)) {0..<2 ^ k}"
proof
  have k: "(2 :: nat) ^ k \<le> 2 ^ 32" using assms by (intro power_increasing) simp_all
  have "unat (of_nat (2 ^ k) :: u64) = 2 ^ k" using k assms by (simp add: unsigned_of_nat take_bit_nat_eq_self del: of_nat_power)
  then have "unat (2 ^ k :: u64) = 2 ^ k" by simp
  then have "gf_of (fp_pow (fp_root_of_unity k) (2 ^ k)) = gf_of 1"
    using gf_root_order [OF assms] by simp
  then show "fp_pow (fp_root_of_unity k) (2 ^ k) = 1"
    using gf_of_inject [of "fp_pow (fp_root_of_unity k) (2 ^ k)" 1] by simp
  show "inj_on (\<lambda>i. fp_pow (fp_root_of_unity k) (of_nat i)) {0..<2 ^ k}"
  proof (rule inj_onI)
    fix i j :: nat
    assume ij: "i \<in> {0..<2 ^ k}" "j \<in> {0..<2 ^ k}"
      and e: "fp_pow (fp_root_of_unity k) (of_nat i) = fp_pow (fp_root_of_unity k) (of_nat j)"
    have "unat (of_nat n :: u64) = n" if "n \<in> {0..<2 ^ k}" for n
      using that k by (simp add: unsigned_of_nat take_bit_nat_eq_self)
    with e ij have "gf_root k ^ i = gf_root k ^ j"
      by (metis fp_pow_correct(2) fp_root_correct(2))
    with gf_root_inj [OF assms] ij show "i = j" by (auto dest: inj_onD)
  qed
qed

lemma root_of_unity_order_witness:
  "fp_pow (fp_root_of_unity 7) 128 = 1 \<and> fp_pow (fp_root_of_unity 7) 3 \<noteq> fp_pow (fp_root_of_unity 7) 67"
  using root_of_unity_order [of 7] inj_onD [of "\<lambda>i. fp_pow (fp_root_of_unity 7) (of_nat i)" "{0..<2 ^ 7}" 3 67]
  by auto

end
