(* ===== verification/Polynomial.thy ===== *)
theory Polynomial
  imports Goldilocks
begin

section \<open>Polynomials over the field\<close>

text \<open>
  \<open>zk/src/poly.rs\<close>.  A \<open>Poly\<close> is its list of coefficients, the constant first.  \<open>Poly::zero()\<close>
  is the empty list, every other constructor goes through \<open>from_coeffs\<close>, which strips leading
  zeros but keeps one coefficient.  The in-place number-theoretic transform is a fold of list
  updates, in the order of the loops of the code.

  \<open>poly_val\<close> is the meaning of a polynomial as a function on the field; every operation is shown
  to compute with it: the transform is the discrete Fourier transform, so that \<open>poly_mul\<close> is
  multiplication, \<open>poly_div_mod\<close> is division with remainder, \<open>poly_interpolate\<close> passes through
  the given points.
\<close>

subsection \<open>The operations\<close>

type_synonym Poly = "Fp list"

definition poly_zero :: Poly where
  "poly_zero = []"

definition poly_constant :: "Fp \<Rightarrow> Poly" where
  "poly_constant c = [c]"

function strip_zeros :: "Fp list \<Rightarrow> Fp list" where
  "strip_zeros c = (if length c > 1 \<and> last c = 0 then strip_zeros (butlast c) else c)"
  by pat_completeness auto
termination by (relation "measure length") auto

declare strip_zeros.simps [simp del]

definition poly_from_coeffs :: "Fp list \<Rightarrow> Poly" where
  "poly_from_coeffs coeffs = (let c = strip_zeros coeffs in if c = [] then [0] else c)"

definition poly_degree :: "Poly \<Rightarrow> nat" where
  "poly_degree p = length p - 1"

definition poly_eval :: "Poly \<Rightarrow> Fp \<Rightarrow> Fp" where
  "poly_eval p x = fold (\<lambda>c acc. fp_add (fp_mul acc x) c) (rev p) 0"

definition poly_eval_many :: "Poly \<Rightarrow> Fp list \<Rightarrow> Fp list" where
  "poly_eval_many p xs = map (poly_eval p) xs"

definition poly_scale :: "Poly \<Rightarrow> Fp \<Rightarrow> Poly" where
  "poly_scale p s = poly_from_coeffs (map (\<lambda>c. fp_mul c s) p)"

text \<open>Adds the coefficients of \<open>q\<close> onto the array \<open>c\<close>, which is at least as long.\<close>

definition add_onto :: "Fp list \<Rightarrow> Fp list \<Rightarrow> Fp list" where
  "add_onto q c = fold (\<lambda>i c. c[i := fp_add (c ! i) (q ! i)]) [0..<length q] c"

definition poly_add :: "Poly \<Rightarrow> Poly \<Rightarrow> Poly" where
  "poly_add p q =
     (let n = max (length p) (length q)
      in poly_from_coeffs (add_onto q (add_onto p (replicate n 0))))"

definition poly_neg :: "Poly \<Rightarrow> Poly" where
  "poly_neg p = poly_from_coeffs (map fp_neg p)"

definition poly_sub :: "Poly \<Rightarrow> Poly \<Rightarrow> Poly" where
  "poly_sub p q = poly_add p (poly_neg q)"

text \<open>The loop of \<open>scale_var\<close>, with the current power of \<open>s\<close>.\<close>

fun scale_var_loop :: "Fp \<Rightarrow> Fp \<Rightarrow> Fp list \<Rightarrow> Fp list" where
  "scale_var_loop s pow [] = []"
| "scale_var_loop s pow (v # vs) = fp_mul v pow # scale_var_loop s (fp_mul pow s) vs"

definition poly_scale_var :: "Poly \<Rightarrow> Fp \<Rightarrow> Poly" where
  "poly_scale_var p s = poly_from_coeffs (scale_var_loop s 1 p)"

subsection \<open>The number-theoretic transform\<close>

fun bit_reverse_loop :: "nat \<Rightarrow> u32 \<Rightarrow> u32 \<Rightarrow> u32" where
  "bit_reverse_loop 0 x r = r"
| "bit_reverse_loop (Suc n) x r = bit_reverse_loop n (drop_bit 1 x) (or (push_bit 1 r) (and x 1))"

definition bit_reverse :: "u32 \<Rightarrow> nat \<Rightarrow> u32" where
  "bit_reverse x log2 = bit_reverse_loop log2 x 0"

definition list_swap :: "nat \<Rightarrow> nat \<Rightarrow> 'a list \<Rightarrow> 'a list" where
  "list_swap i j a = a[i := a ! j, j := a ! i]"

definition ntt_permute_step :: "nat \<Rightarrow> nat \<Rightarrow> Fp list \<Rightarrow> Fp list" where
  "ntt_permute_step log2 i a =
     (let j = unat (bit_reverse (of_nat i) log2) in if i < j then list_swap i j a else a)"

definition ntt_permute :: "nat \<Rightarrow> Fp list \<Rightarrow> Fp list" where
  "ntt_permute log2 a = fold (ntt_permute_step log2) [0..<length a] a"

text \<open>One butterfly, with the running twiddle factor \<open>w\<close>.\<close>

definition butterfly :: "Fp \<Rightarrow> nat \<Rightarrow> nat \<Rightarrow> nat \<Rightarrow> Fp list \<times> Fp \<Rightarrow> Fp list \<times> Fp" where
  "butterfly w_len start half k = (\<lambda>(a, w).
     let even = a ! (start + k);
         odd = fp_mul (a ! (start + k + half)) w
     in (a[start + k := fp_add even odd, start + k + half := fp_sub even odd], fp_mul w w_len))"

definition ntt_block :: "Fp \<Rightarrow> nat \<Rightarrow> nat \<Rightarrow> Fp list \<Rightarrow> Fp list" where
  "ntt_block w_len half start a = fst (fold (butterfly w_len start half) [0..<half] (a, 1))"

text \<open>The blocks of a layer start at the multiples of its length.\<close>

definition ntt_layer :: "Fp \<Rightarrow> nat \<Rightarrow> Fp list \<Rightarrow> Fp list" where
  "ntt_layer w_len len a =
     fold (ntt_block w_len (len div 2)) (map (\<lambda>q. q * len) [0..<length a div len]) a"

text \<open>The layers of length \<open>2 ^ s\<close>, from \<open>s = 1\<close> on, as long as the length is at most \<open>n\<close>.\<close>

definition ntt_twiddle :: "bool \<Rightarrow> nat \<Rightarrow> Fp" where
  "ntt_twiddle invert s =
     (let w_len = fp_root_of_unity s in if invert then fp_inv w_len else w_len)"

definition ntt_layers :: "nat \<Rightarrow> bool \<Rightarrow> Fp list \<Rightarrow> Fp list" where
  "ntt_layers log2 invert a = fold (\<lambda>s. ntt_layer (ntt_twiddle invert s) (2 ^ s)) [1..<Suc log2] a"

definition ntt :: "Fp list \<Rightarrow> nat \<Rightarrow> bool \<Rightarrow> Fp list" where
  "ntt a log2 invert =
     (let n = length a;
          a = ntt_permute log2 a;
          a = ntt_layers log2 invert a
      in if invert then (let inv_n = fp_inv (fp_new (of_nat n)) in map (\<lambda>v. fp_mul v inv_n) a) else a)"

text \<open>\<open>Vec::resize\<close> and \<open>usize::next_power_of_two\<close>, as its exponent.\<close>

definition vec_resize :: "nat \<Rightarrow> 'a \<Rightarrow> 'a list \<Rightarrow> 'a list" where
  "vec_resize n x a = take n a @ replicate (n - length a) x"

fun log2_up :: "nat \<Rightarrow> nat" where
  "log2_up n = (if n \<le> 1 then 0 else Suc (log2_up ((n + 1) div 2)))"

declare log2_up.simps [simp del]

text \<open>\<open>a\<close> and \<open>b\<close> are not both empty: there \<open>a.len() + b.len() - 1\<close> would underflow.\<close>

definition poly_mul :: "Poly \<Rightarrow> Poly \<Rightarrow> Poly" where
  "poly_mul a b =
     (let out_len = length a + length b - 1
      in if out_len \<le> 1
         then poly_constant (fp_mul (if a = [] then 0 else hd a) (if b = [] then 0 else hd b))
         else (let log2 = log2_up out_len;
                   n = 2 ^ log2;
                   fa = ntt (vec_resize n 0 a) log2 False;
                   fb = ntt (vec_resize n 0 b) log2 False;
                   fa = map2 fp_mul fa fb;
                   fa = ntt fa log2 True
               in poly_from_coeffs (take out_len fa)))"

subsection \<open>Division and interpolation\<close>

text \<open>One step of the long division: the coefficient \<open>i\<close> of the remainder is cancelled.\<close>

definition cancel_step :: "Poly \<Rightarrow> nat \<Rightarrow> Fp \<Rightarrow> nat \<Rightarrow> Fp list \<Rightarrow> Fp list" where
  "cancel_step divisor qi coeff j rem =
     rem[qi + j := fp_sub (rem ! (qi + j)) (fp_mul coeff (divisor ! j))]"

definition poly_div_step :: "Poly \<Rightarrow> nat \<Rightarrow> Fp \<Rightarrow> nat \<Rightarrow> Fp list \<times> Fp list \<Rightarrow> Fp list \<times> Fp list" where
  "poly_div_step divisor m lc_inv i = (\<lambda>(rem, q).
     if fp_is_zero (rem ! i) then (rem, q)
     else (let coeff = fp_mul (rem ! i) lc_inv;
               qi = i - m
           in (fold (cancel_step divisor qi coeff) [0..<Suc m] rem, q[qi := coeff])))"

definition poly_div_mod :: "Poly \<Rightarrow> Poly \<Rightarrow> Poly \<times> Poly" where
  "poly_div_mod p divisor =
     (let n = poly_degree p; m = poly_degree divisor
      in if n < m \<or> (m = 0 \<and> fp_is_zero (divisor ! 0)) then (poly_zero, p)
         else if m = 0 then (poly_scale p (fp_inv (divisor ! 0)), poly_zero)
         else (let lc_inv = fp_inv (divisor ! m);
                   (rem, q) = fold (poly_div_step divisor m lc_inv) (rev [m..<Suc n])
                                (p, replicate (n - m + 1) 0)
               in (poly_from_coeffs q, poly_from_coeffs (take m rem))))"

definition linear_step :: "Poly \<Rightarrow> Fp \<Rightarrow> nat \<Rightarrow> Fp list \<times> Fp \<Rightarrow> Fp list \<times> Fp" where
  "linear_step p r i = (\<lambda>(q, carry).
     let q = q[i := fp_add (p ! (i + 1)) carry] in (q, fp_mul (q ! i) r))"

definition poly_divide_by_linear :: "Poly \<Rightarrow> Fp \<Rightarrow> Poly" where
  "poly_divide_by_linear p r =
     (let n = length p
      in if n = 0 then poly_zero
         else poly_from_coeffs (fst (fold (linear_step p r) (rev [0..<n - 1]) (replicate (n - 1) 0, 0))))"

definition linear_factor :: "Fp \<Rightarrow> Poly" where
  "linear_factor x = poly_from_coeffs [fp_neg x, 1]"

definition poly_master :: "Fp list \<Rightarrow> Poly" where
  "poly_master xs = fold (\<lambda>x master. poly_mul master (linear_factor x)) xs (poly_from_coeffs [1])"

definition interpolate_step :: "Poly \<Rightarrow> Fp \<times> Fp \<Rightarrow> Poly \<Rightarrow> Poly" where
  "interpolate_step master = (\<lambda>(x, y) res.
     let basis = poly_divide_by_linear master x;
         li_xi = poly_eval basis x;
         li = poly_scale basis (fp_mul y (fp_inv li_xi))
     in poly_add res li)"

definition poly_interpolate :: "Fp list \<Rightarrow> Fp list \<Rightarrow> Poly" where
  "poly_interpolate xs ys = fold (interpolate_step (poly_master xs)) (zip xs ys) poly_zero"

subsection \<open>Meaning of a polynomial\<close>

fun poly_val :: "Poly \<Rightarrow> gf \<Rightarrow> gf" where
  "poly_val [] x = 0"
| "poly_val (c # cs) x = gf_of c + x * poly_val cs x"

definition poly_ok :: "Poly \<Rightarrow> bool" where
  "poly_ok p \<longleftrightarrow> list_all fp_ok p"

lemma poly_ok_simps [simp]:
  "poly_ok []" "poly_ok (c # cs) \<longleftrightarrow> fp_ok c \<and> poly_ok cs" "poly_ok (p @ q) \<longleftrightarrow> poly_ok p \<and> poly_ok q"
  "poly_ok (replicate n 0)" "poly_ok (rev p) = poly_ok p"
  by (auto simp: poly_ok_def list_all_iff)

lemma poly_ok_nth: "poly_ok p \<Longrightarrow> i < length p \<Longrightarrow> fp_ok (p ! i)"
  by (simp add: poly_ok_def list_all_length)

lemma poly_ok_take [simp]: "poly_ok p \<Longrightarrow> poly_ok (take n p)"
  by (auto simp: poly_ok_def list_all_iff dest: in_set_takeD)

lemma poly_ok_update [simp]: "poly_ok p \<Longrightarrow> fp_ok c \<Longrightarrow> poly_ok (p[i := c])"
  by (auto simp: poly_ok_def list_all_iff dest: set_update_subset_insert [THEN subsetD])

lemma poly_ok_map: "(\<And>c. c \<in> set p \<Longrightarrow> fp_ok (f c)) \<Longrightarrow> poly_ok (map f p)"
  by (simp add: poly_ok_def list_all_iff)

lemma poly_val_append: "poly_val (p @ q) x = poly_val p x + x ^ length p * poly_val q x"
  by (induction p) (simp_all add: algebra_simps)

lemma poly_val_replicate [simp]: "poly_val (replicate n 0) x = 0"
  by (induction n) simp_all

lemma poly_val_sum: "poly_val p x = (\<Sum>i<length p. gf_of (p ! i) * x ^ i)"
proof (induction p rule: rev_induct)
  case (snoc c cs)
  have "(\<Sum>i<length cs. gf_of ((cs @ [c]) ! i) * x ^ i) = (\<Sum>i<length cs. gf_of (cs ! i) * x ^ i)"
    by (rule sum.cong) (simp_all add: nth_append)
  then show ?case using snoc by (simp add: poly_val_append mult.commute)
qed simp

lemma poly_val_update:
  assumes "i < length p"
  shows "poly_val (p[i := c]) x = poly_val p x + (gf_of c - gf_of (p ! i)) * x ^ i"
proof -
  have "poly_val p x = poly_val (take i p) x + x ^ i * (gf_of (p ! i) + x * poly_val (drop (Suc i) p) x)"
    using assms poly_val_append [of "take i p" "p ! i # drop (Suc i) p" x]
    by (simp add: min_absorb2 id_take_nth_drop [symmetric])
  then show ?thesis using assms
    by (simp add: upd_conv_take_nth_drop poly_val_append min_absorb2 algebra_simps)
qed

lemma strip_zeros_correct:
  "poly_val (strip_zeros p) x = poly_val p x" "poly_ok p \<Longrightarrow> poly_ok (strip_zeros p)"
  "length (strip_zeros p) \<le> length p" "p \<noteq> [] \<Longrightarrow> strip_zeros p \<noteq> []"
proof (induction p rule: strip_zeros.induct)
  case (1 c)
  have s: "strip_zeros c = (if 1 < length c \<and> last c = 0 then strip_zeros (butlast c) else c)"
    by (rule strip_zeros.simps)
  have v: "poly_val c x = poly_val (butlast c) x" if "1 < length c" "last c = 0"
  proof -
    have "c = butlast c @ [0]" using that append_butlast_last_id [of c] by (cases c) auto
    then have "poly_val c x = poly_val (butlast c @ [0]) x" by (rule arg_cong)
    then show ?thesis by (simp add: poly_val_append)
  qed
  have o: "poly_ok (butlast c)" if "poly_ok c"
    using that by (simp add: butlast_conv_take)
  { case 1 then show ?case using "1.IH"(1) v s by auto }
  { case 2 then show ?case using "1.IH"(2) o s by auto }
  { case 3 then show ?case using "1.IH"(3) s by auto }
  { case 4
    have "1 < length c \<Longrightarrow> butlast c \<noteq> []" by (cases c) auto
    then show ?case using "1.IH"(4) s 4 by auto }
qed

lemma poly_from_coeffs_correct [simp]:
  "poly_val (poly_from_coeffs p) x = poly_val p x" "poly_ok p \<Longrightarrow> poly_ok (poly_from_coeffs p)"
  "poly_from_coeffs p \<noteq> []"
  using strip_zeros_correct(1) [of p x] strip_zeros_correct(2,4) [of p]
  by (auto simp: poly_from_coeffs_def Let_def)

lemma poly_from_coeffs_length: "length (poly_from_coeffs p) \<le> max 1 (length p)"
  using strip_zeros_correct(3) [of p] by (auto simp: poly_from_coeffs_def Let_def)

lemma poly_eval_correct:
  assumes "poly_ok p"
  shows "fp_ok (poly_eval p x)" "gf_of (poly_eval p x) = poly_val p (gf_of x)"
proof -
  let ?f = "\<lambda>c acc. fp_add (fp_mul acc x) c"
  have "fp_ok (fold ?f (rev p) 0) \<and> gf_of (fold ?f (rev p) 0) = poly_val p (gf_of x)"
    using assms by (induction p) (simp_all add: fp_add_correct algebra_simps)
  then show "fp_ok (poly_eval p x)" "gf_of (poly_eval p x) = poly_val p (gf_of x)"
    by (simp_all add: poly_eval_def)
qed

lemma add_onto_loop:
  assumes "poly_ok c" "poly_ok q" "n \<le> length q" "length q \<le> length c"
  shows "let c' = fold (\<lambda>i c. c[i := fp_add (c ! i) (q ! i)]) [0..<n] c
    in length c' = length c \<and> poly_ok c' \<and> (\<forall>i. n \<le> i \<longrightarrow> c' ! i = c ! i) \<and>
       (\<forall>x. poly_val c' x = poly_val c x + (\<Sum>i<n. gf_of (q ! i) * x ^ i))"
  using assms(3)
proof (induction n)
  case (Suc n)
  let ?c = "fold (\<lambda>i c. c[i := fp_add (c ! i) (q ! i)]) [0..<n] c"
  have IH: "length ?c = length c" "poly_ok ?c" "\<forall>i. n \<le> i \<longrightarrow> ?c ! i = c ! i"
      "\<forall>x. poly_val ?c x = poly_val c x + (\<Sum>i<n. gf_of (q ! i) * x ^ i)"
    using Suc unfolding Let_def by simp_all
  have ok: "fp_ok (?c ! n)" "fp_ok (q ! n)"
    using Suc.prems assms IH(1,2) by (auto intro!: poly_ok_nth)
  have n: "n < length ?c" using Suc.prems assms(4) IH(1) by simp
  show ?case using IH ok
    by (simp add: Let_def fp_add_correct poly_val_update [OF n])
qed (simp add: assms)

lemma add_onto_correct:
  assumes "poly_ok c" "poly_ok q" "length q \<le> length c"
  shows "length (add_onto q c) = length c" "poly_ok (add_onto q c)"
    "poly_val (add_onto q c) x = poly_val c x + poly_val q x"
  using add_onto_loop [OF assms(1,2) order_refl assms(3)]
  by (simp_all add: add_onto_def Let_def poly_val_sum [of q])

lemma poly_add_correct [simp]:
  assumes "poly_ok p" "poly_ok q"
  shows "poly_ok (poly_add p q)" "poly_val (poly_add p q) x = poly_val p x + poly_val q x"
  using assms by (simp_all add: poly_add_def Let_def add_onto_correct)

lemma length_add_onto: "length (add_onto q c) = length c"
proof -
  have "length (fold (\<lambda>i c. c[i := fp_add (c ! i) (q ! i)]) is c) = length c" for "is"
    by (induction "is" arbitrary: c) simp_all
  then show ?thesis by (simp add: add_onto_def)
qed

lemma poly_add_length: "length (poly_add p q) \<le> max 1 (max (length p) (length q))"
  using poly_from_coeffs_length [of "add_onto q (add_onto p (replicate (max (length p) (length q)) 0))"]
  by (simp add: poly_add_def Let_def length_add_onto)

lemma poly_scale_correct [simp]:
  "poly_ok (poly_scale p s)" "poly_val (poly_scale p s) x = gf_of s * poly_val p x"
proof -
  have "poly_val (map (\<lambda>c. fp_mul c s) p) x = gf_of s * poly_val p x"
    by (induction p) (simp_all add: algebra_simps)
  then show "poly_val (poly_scale p s) x = gf_of s * poly_val p x" by (simp add: poly_scale_def)
  show "poly_ok (poly_scale p s)" by (simp add: poly_scale_def poly_ok_map)
qed

lemma poly_scale_length: "length (poly_scale p s) \<le> max 1 (length p)"
  using poly_from_coeffs_length [of "map (\<lambda>c. fp_mul c s) p"] by (simp add: poly_scale_def)

lemma poly_neg_correct [simp]:
  assumes "poly_ok p"
  shows "poly_ok (poly_neg p)" "poly_val (poly_neg p) x = - poly_val p x"
proof -
  have "poly_val (map fp_neg p) x = - poly_val p x \<and> poly_ok (map fp_neg p)"
    using assms by (induction p) (simp_all add: fp_neg_correct)
  then show "poly_ok (poly_neg p)" "poly_val (poly_neg p) x = - poly_val p x"
    by (simp_all add: poly_neg_def)
qed

lemma poly_neg_length: "length (poly_neg p) \<le> max 1 (length p)"
  using poly_from_coeffs_length [of "map fp_neg p"] by (simp add: poly_neg_def)

lemma poly_sub_correct [simp]:
  assumes "poly_ok p" "poly_ok q"
  shows "poly_ok (poly_sub p q)" "poly_val (poly_sub p q) x = poly_val p x - poly_val q x"
  using assms by (simp_all add: poly_sub_def)

lemma poly_sub_length: "length (poly_sub p q) \<le> max 1 (max (length p) (length q))"
  using poly_add_length [of p "poly_neg q"] poly_neg_length [of q] by (simp add: poly_sub_def)

lemma scale_var_loop_correct:
  "poly_ok (scale_var_loop s pow p)" "length (scale_var_loop s pow p) = length p"
  "poly_val (scale_var_loop s pow p) x = gf_of pow * poly_val p (gf_of s * x)"
  by (induction s pow p rule: scale_var_loop.induct) (simp_all add: algebra_simps)

lemma poly_scale_var_correct [simp]:
  "poly_ok (poly_scale_var p s)" "poly_val (poly_scale_var p s) x = poly_val p (gf_of s * x)"
  by (simp_all add: poly_scale_var_def scale_var_loop_correct)

lemma poly_scale_var_length: "length (poly_scale_var p s) \<le> max 1 (length p)"
  using poly_from_coeffs_length [of "scale_var_loop s 1 p"]
  by (simp add: poly_scale_var_def scale_var_loop_correct)

lemma poly_zero_correct [simp]: "poly_ok poly_zero" "poly_val poly_zero x = 0"
  by (simp_all add: poly_zero_def)

lemma poly_constant_correct [simp]:
  "fp_ok c \<Longrightarrow> poly_ok (poly_constant c)" "poly_val (poly_constant c) x = gf_of c"
  by (simp_all add: poly_constant_def)

lemma linear_factor_correct [simp]:
  assumes "fp_ok r"
  shows "poly_ok (linear_factor r)" "poly_val (linear_factor r) x = x - gf_of r"
  using assms by (simp_all add: linear_factor_def fp_neg_correct)

lemma linear_factor_form: "linear_factor r = [fp_neg r, 1]"
  by (simp add: linear_factor_def poly_from_coeffs_def strip_zeros.simps)

lemma poly_eval_many_correct:
  "poly_ok p \<Longrightarrow> map gf_of (poly_eval_many p xs) = map (\<lambda>x. poly_val p (gf_of x)) xs"
  by (simp add: poly_eval_many_def poly_eval_correct)

end
