(* ===== verification/NTT.thy ===== *)
theory NTT
  imports Polynomial
begin

section \<open>Correctness of the number-theoretic transform\<close>

text \<open>
  The in-place transform of \<open>zk/src/poly.rs\<close> (\<open>bit_reverse\<close>, the swaps, the layers of
  butterflies) computes the discrete Fourier transform, and its inverse undoes it; hence the
  product of \<open>poly_mul\<close> is the product of polynomials.
\<close>

subsection \<open>Bit reversal\<close>

fun brev :: "nat \<Rightarrow> nat \<Rightarrow> nat" where
  "brev 0 i = 0"
| "brev (Suc l) i = (i mod 2) * 2 ^ l + brev l (i div 2)"

lemma brev_less: "brev l i < 2 ^ l"
proof (induction l arbitrary: i)
  case (Suc l)
  have "(i mod 2) * 2 ^ l \<le> 1 * 2 ^ l" by (rule mult_le_mono1) simp
  then show ?case using Suc [of "i div 2"] by (simp only: brev.simps power_Suc)
qed simp

lemma brev_top: "i < 2 ^ l \<Longrightarrow> b < 2 \<Longrightarrow> brev (Suc l) (b * 2 ^ l + i) = 2 * brev l i + b"
proof (induction l arbitrary: i)
  case (Suc l)
  have "(b * 2 ^ Suc l + i) div 2 = b * 2 ^ l + i div 2" by simp
  moreover have "b * 2 ^ Suc l + i = i + b * 2 ^ l * 2" by simp
  then have "(b * 2 ^ Suc l + i) mod 2 = i mod 2" by (simp only: mod_mult_self1)
  moreover have "i div 2 < 2 ^ l" using Suc.prems(1) by simp
  ultimately show ?case using Suc.IH [of "i div 2"] Suc.prems(2)
    by (simp only: brev.simps(2) [of "Suc l"]) simp
qed simp

lemma brev_even: "brev (Suc l) (2 * q) = brev l q"
  by simp

lemma brev_odd: "brev (Suc l) (2 * q + 1) = 2 ^ l + brev l q"
proof -
  have "(2 * q + 1) div 2 = q" "(2 * q + 1) mod 2 = 1" by simp_all
  then show ?thesis by (simp only: brev.simps mult_1)
qed

lemma brev_brev: "i < 2 ^ l \<Longrightarrow> brev l (brev l i) = i"
proof (induction l arbitrary: i)
  case (Suc l)
  then have "i div 2 < 2 ^ l" by simp
  moreover have "brev (Suc l) (brev (Suc l) i) = 2 * brev l (brev l (i div 2)) + i mod 2"
    by (simp only: brev.simps(2) [of l i]) (rule brev_top; simp add: brev_less)
  ultimately show ?case using Suc.IH by simp
qed simp

lemma unat_shift_in:
  assumes "2 * unat (r :: u32) + 1 < 2 ^ 32"
  shows "unat (or (push_bit 1 r) (and x 1)) = 2 * unat r + unat x mod 2"
proof -
  have "or (push_bit 1 r) (and x 1) = push_bit 1 r + and x 1"
  proof (rule disjunctive_add_eq_or [symmetric])
    show "and (push_bit 1 r) (and x 1) = 0"
      by (rule bit_eqI) (simp only: bit_and_iff bit_push_bit_iff bit_1_iff bit_0_eq bot_apply, auto)
  qed
  moreover have "unat (push_bit 1 r) = 2 * unat r"
    using assms by (simp add: push_bit_eq_mult unat_word_ariths(2))
  moreover have "unat (and x 1) = unat x mod 2" by (simp add: and_one_eq unat_mod)
  moreover have "2 * unat r + unat x mod 2 < 2 ^ 32"
    using assms mod_less_divisor [of 2 "unat x"] by linarith
  ultimately show ?thesis by (simp add: unat_word_ariths(1))
qed

lemma bit_reverse_loop_brev:
  "(unat r + 1) * 2 ^ n \<le> 2 ^ 32 \<Longrightarrow> unat (bit_reverse_loop n x r) = unat r * 2 ^ n + brev n (unat x)"
proof (induction n arbitrary: x r)
  case (Suc n)
  have "(2 * unat r + 2) * 1 \<le> (2 * unat r + 2) * 2 ^ n" by (rule mult_le_mono2) simp
  then have s: "unat (or (push_bit 1 r) (and x 1)) = 2 * unat r + unat x mod 2"
    using Suc.prems by (intro unat_shift_in) simp
  have "(2 * unat r + unat x mod 2 + 1) * 2 ^ n \<le> (2 * unat r + 2) * 2 ^ n"
    by (rule mult_le_mono1) simp
  also have "\<dots> \<le> 2 ^ 32" using Suc.prems by simp
  finally have "unat (bit_reverse_loop n (drop_bit 1 x) (or (push_bit 1 r) (and x 1)))
      = (2 * unat r + unat x mod 2) * 2 ^ n + brev n (unat (drop_bit 1 x))"
    using Suc.IH by (simp only: s)
  moreover have "unat (drop_bit 1 x) = unat x div 2" by (simp add: drop_bit_eq_div unat_div)
  ultimately show ?case by (simp add: algebra_simps)
qed simp

lemma bit_reverse_brev: "l \<le> 32 \<Longrightarrow> i < 2 ^ l \<Longrightarrow> unat (bit_reverse (of_nat i) l) = brev l i"
proof -
  assume l: "l \<le> 32" "i < 2 ^ l"
  have p: "(2 :: nat) ^ l \<le> 2 ^ 32" using l(1) by (intro power_increasing) simp_all
  then have "unat (of_nat i :: u32) = i" using l(2) by (simp add: unsigned_of_nat take_bit_nat_eq_self)
  then show ?thesis using p by (simp add: bit_reverse_def bit_reverse_loop_brev)
qed

lemma permute_loop:
  assumes "l \<le> 32" "length a = 2 ^ l" "m \<le> 2 ^ l"
  shows "let b = fold (ntt_permute_step l) [0..<m] a
    in length b = 2 ^ l \<and> (\<forall>p < 2 ^ l. b ! p = (if p < m \<or> brev l p < m then a ! brev l p else a ! p))"
  using assms(3)
proof (induction m)
  case (Suc m)
  let ?b = "fold (ntt_permute_step l) [0..<m] a" and ?j = "brev l m"
  have IH: "length ?b = 2 ^ l"
      "\<And>p. p < 2 ^ l \<Longrightarrow> ?b ! p = (if p < m \<or> brev l p < m then a ! brev l p else a ! p)"
    using Suc by (simp_all add: Let_def)
  have m: "m < 2 ^ l" using Suc.prems by simp
  have jj: "brev l ?j = m" using brev_brev [OF m] .
  have step: "ntt_permute_step l m ?b = (if m < ?j then list_swap m ?j ?b else ?b)"
    by (simp add: ntt_permute_step_def Let_def bit_reverse_brev [OF assms(1) m])
  have inj: "brev l p = m \<longleftrightarrow> p = ?j" if "p < 2 ^ l" for p using brev_brev [OF that] jj by auto
  have "ntt_permute_step l m ?b ! p = (if p < Suc m \<or> brev l p < Suc m then a ! brev l p else a ! p)"
    if p: "p < 2 ^ l" for p
    using IH(2) [OF p] IH(2) [OF m] IH(2) [OF brev_less [of l m]] inj [OF p] jj p m IH(1) brev_less [of l m]
    by (auto simp: step list_swap_def nth_list_update less_Suc_eq)
  moreover have "length (ntt_permute_step l m ?b) = 2 ^ l" by (simp add: step list_swap_def IH(1))
  ultimately show ?case by (simp add: Let_def)
qed (simp add: assms)

lemma ntt_permute_nth:
  assumes "l \<le> 32" "length a = 2 ^ l"
  shows "length (ntt_permute l a) = 2 ^ l" "p < 2 ^ l \<Longrightarrow> ntt_permute l a ! p = a ! brev l p"
  using permute_loop [OF assms(1,2) order_refl] assms by (simp_all add: ntt_permute_def Let_def)

subsection \<open>A layer of butterflies\<close>

definition gv :: "Fp list \<Rightarrow> nat \<Rightarrow> gf" where
  "gv a i = gf_of (a ! i)"

definition butterfly_val :: "gf \<Rightarrow> nat \<Rightarrow> nat \<Rightarrow> nat \<Rightarrow> (nat \<Rightarrow> gf) \<Rightarrow> nat \<Rightarrow> gf" where
  "butterfly_val w start half m f p =
     (if start \<le> p \<and> p < start + m then f p + w ^ (p - start) * f (p + half)
      else if start + half \<le> p \<and> p < start + half + m then f (p - half) - w ^ (p - half - start) * f p
      else f p)"

lemma butterfly_loop:
  assumes "poly_ok a" "fp_ok w" "start + 2 * half \<le> length a" "m \<le> half"
  defines "st \<equiv> fold (butterfly w start half) [0..<m] (a, 1)"
  shows "length (fst st) = length a \<and> poly_ok (fst st) \<and> fp_ok (snd st) \<and> gf_of (snd st) = gf_of w ^ m \<and>
       (\<forall>p < length a. gv (fst st) p = butterfly_val (gf_of w) start half m (gv a) p)"
  using assms(4) unfolding st_def
proof (induction m)
  case (Suc m)
  obtain b u where bu: "fold (butterfly w start half) [0..<m] (a, 1) = (b, u)" by fastforce
  let ?p = "start + m" and ?q = "start + m + half"
  have IH: "length b = length a" "poly_ok b" "fp_ok u" "gf_of u = gf_of w ^ m"
      "\<And>p. p < length a \<Longrightarrow> gv b p = butterfly_val (gf_of w) start half m (gv a) p"
    using Suc by (simp_all add: bu)
  have pq: "?p < length a" "?q < length a" "?p < length b" "?q < length b" "?p \<noteq> ?q"
    using Suc.prems assms(3) IH(1) by simp_all
  have ok: "fp_ok (b ! ?p)" "fp_ok (b ! ?q)" using IH(1,2) pq by (auto intro: poly_ok_nth)
  have old: "gv b ?p = gv a ?p" "gv b ?q = gv a ?q"
    using IH(5) pq Suc.prems by (auto simp: butterfly_val_def)
  let ?o = "fp_mul (b ! ?q) u"
  let ?b = "b[?p := fp_add (b ! ?p) ?o, ?q := fp_sub (b ! ?p) ?o]"
  have step: "fold (butterfly w start half) [0..<Suc m] (a, 1) = (?b, fp_mul u w)"
    by (simp add: bu butterfly_def Let_def)
  have new: "gf_of (fp_add (b ! ?p) ?o) = gv a ?p + gf_of w ^ m * gv a ?q"
      "gf_of (fp_sub (b ! ?p) ?o) = gv a ?p - gf_of w ^ m * gv a ?q"
    using ok old IH(4) by (simp_all add: fp_add_correct fp_sub_correct gv_def mult.commute)
  have "gv ?b p = butterfly_val (gf_of w) start half (Suc m) (gv a) p" if p: "p < length a" for p
  proof -
    consider "p = ?p" | "p = ?q" | "p \<noteq> ?p" "p \<noteq> ?q" by blast
    then show ?thesis
    proof cases
      case 1
      then show ?thesis using pq by (simp add: gv_def butterfly_val_def new [unfolded gv_def])
    next
      case 2
      then show ?thesis using pq Suc.prems by (simp add: gv_def butterfly_val_def new [unfolded gv_def])
    next
      case 3
      then have "gv ?b p = gv b p" by (simp add: gv_def)
      then show ?thesis using IH(5) [OF p] 3 by (auto simp: butterfly_val_def less_Suc_eq)
    qed
  qed
  then show ?case using IH(1-4) ok assms(2) unfolding step fst_conv snd_conv
    by (simp add: fp_add_correct fp_sub_correct mult.commute)
qed (auto simp: assms butterfly_val_def)

definition layer_val :: "gf \<Rightarrow> nat \<Rightarrow> (nat \<Rightarrow> gf) \<Rightarrow> nat \<Rightarrow> gf" where
  "layer_val w half f p =
     (let k = p mod (2 * half)
      in if k < half then f p + w ^ k * f (p + half) else f (p - half) - w ^ (k - half) * f p)"

lemma ntt_block_correct:
  assumes "poly_ok a" "fp_ok w" "(q + 1) * (2 * half) \<le> length a" "0 < half"
  shows "length (ntt_block w half (q * (2 * half)) a) = length a"
    "poly_ok (ntt_block w half (q * (2 * half)) a)"
    "p < length a \<Longrightarrow> gv (ntt_block w half (q * (2 * half)) a) p =
       (if p div (2 * half) = q then layer_val (gf_of w) half (gv a) p else gv a p)"
proof -
  let ?s = "q * (2 * half)"
  have le: "?s + 2 * half \<le> length a" using assms(3) by simp
  note L = butterfly_loop [OF assms(1,2) le order_refl]
  show "length (ntt_block w half ?s a) = length a" "poly_ok (ntt_block w half ?s a)"
    using L by (simp_all add: ntt_block_def)
  assume p: "p < length a"
  have d: "p div (2 * half) = q \<longleftrightarrow> ?s \<le> p \<and> p < ?s + 2 * half"
  proof
    assume "p div (2 * half) = q"
    then show "?s \<le> p \<and> p < ?s + 2 * half"
      using assms(4) div_times_less_eq_dividend [of p "2 * half"] dividend_less_div_times [of "2 * half" p] by auto
  next
    assume "?s \<le> p \<and> p < ?s + 2 * half"
    then show "p div (2 * half) = q" using assms(4) by (intro div_nat_eqI) (simp_all add: algebra_simps)
  qed
  have v: "gv (ntt_block w half ?s a) p = butterfly_val (gf_of w) ?s half half (gv a) p"
    using L p by (simp add: ntt_block_def)
  show "gv (ntt_block w half ?s a) p =
       (if p div (2 * half) = q then layer_val (gf_of w) half (gv a) p else gv a p)"
  proof (cases "p div (2 * half) = q")
    case True
    then obtain k where k: "p = ?s + k" "k < 2 * half" using d le_Suc_ex by fastforce
    have m: "p mod (2 * half) = k" using k by simp
    show ?thesis unfolding v using True k(2)
      by (simp add: butterfly_val_def layer_val_def m Let_def) (simp add: k(1))
  next
    case False
    then show ?thesis using d unfolding v by (auto simp: butterfly_val_def)
  qed
qed

lemma ntt_layer_correct:
  assumes "poly_ok a" "fp_ok w" "0 < half" "2 * half dvd length a"
  shows "length (ntt_layer w (2 * half) a) = length a" "poly_ok (ntt_layer w (2 * half) a)"
    "p < length a \<Longrightarrow> gv (ntt_layer w (2 * half) a) p = layer_val (gf_of w) half (gv a) p"
proof -
  define Q where "Q = length a div (2 * half)"
  have len: "length a = Q * (2 * half)" using assms(4) by (simp add: Q_def)
  have loc: "layer_val v half f p = layer_val v half g p"
    if "\<And>i. i div (2 * half) = p div (2 * half) \<Longrightarrow> f i = g i" for v f g p
  proof -
    let ?n = "p div (2 * half)" and ?k = "p mod (2 * half)"
    have p: "p = ?n * (2 * half) + ?k" by (rule div_mult_mod_eq [symmetric])
    have k: "?k < 2 * half" using assms(3) by simp
    have "(p + half) div (2 * half) = ?n" if "?k < half"
      using p that by (intro div_nat_eqI) (simp_all add: algebra_simps)
    moreover have "(p - half) div (2 * half) = ?n" if "\<not> ?k < half"
      using p k that by (intro div_nat_eqI) (simp_all add: algebra_simps)
    ultimately show ?thesis using that by (simp add: layer_val_def Let_def)
  qed
  have "let b = fold (\<lambda>q. ntt_block w half (q * (2 * half))) [0..<n] a
     in length b = length a \<and> poly_ok b \<and> (\<forall>p < length a. gv b p =
       (if p div (2 * half) < n then layer_val (gf_of w) half (gv a) p else gv a p))" if "n \<le> Q" for n
    using that
  proof (induction n)
    case (Suc n)
    let ?b = "fold (\<lambda>q. ntt_block w half (q * (2 * half))) [0..<n] a"
    have IH: "length ?b = length a" "poly_ok ?b" "\<And>p. p < length a \<Longrightarrow> gv ?b p =
       (if p div (2 * half) < n then layer_val (gf_of w) half (gv a) p else gv a p)"
      using Suc by (simp_all add: Let_def)
    have "(n + 1) * (2 * half) \<le> Q * (2 * half)" using Suc.prems by (intro mult_le_mono1) simp
    then have le: "(n + 1) * (2 * half) \<le> length ?b" using len IH(1) by simp
    note B = ntt_block_correct [OF IH(2) assms(2) le assms(3)]
    have "gv (ntt_block w half (n * (2 * half)) ?b) p =
       (if p div (2 * half) < Suc n then layer_val (gf_of w) half (gv a) p else gv a p)"
      if p: "p < length a" for p
    proof (cases "p div (2 * half) = n")
      case True
      have "layer_val (gf_of w) half (gv ?b) p = layer_val (gf_of w) half (gv a) p"
      proof (rule loc)
        fix i assume i: "i div (2 * half) = p div (2 * half)"
        then have "i < (n + 1) * (2 * half)" using True assms(3)
          by (metis Suc_eq_plus1 div_less_iff_less_mult lessI mult_pos_pos zero_less_numeral)
        then show "gv ?b i = gv a i" using IH(3) [of i] le i True IH(1) by simp
      qed
      then show ?thesis using B(3) [of p] p IH(1) True by simp
    next
      case False
      then show ?thesis using B(3) [of p] IH(3) [OF p] p IH(1) by auto
    qed
    then show ?case using B(1,2) IH(1) by (simp add: Let_def)
  qed (simp add: assms)
  from this [OF order_refl] have L: "let b = ntt_layer w (2 * half) a
     in length b = length a \<and> poly_ok b \<and> (\<forall>p < length a. gv b p =
       (if p div (2 * half) < Q then layer_val (gf_of w) half (gv a) p else gv a p))"
    using assms(3) by (simp add: ntt_layer_def Q_def fold_map o_def)
  then show "length (ntt_layer w (2 * half) a) = length a" "poly_ok (ntt_layer w (2 * half) a)"
    by (simp_all add: Let_def)
  assume "p < length a"
  moreover from this have "p div (2 * half) < Q" using len assms(3) by (simp add: div_less_iff_less_mult)
  ultimately show "gv (ntt_layer w (2 * half) a) p = layer_val (gf_of w) half (gv a) p"
    using L by (simp add: Let_def)
qed

subsection \<open>All layers: the discrete Fourier transform\<close>

definition twiddle :: "bool \<Rightarrow> nat \<Rightarrow> gf" where
  "twiddle invert s = (if invert then inverse (gf_root s) else gf_root s)"

definition dft :: "bool \<Rightarrow> nat \<Rightarrow> (nat \<Rightarrow> gf) \<Rightarrow> nat \<Rightarrow> gf" where
  "dft invert l f k = (\<Sum>j<2 ^ l. f j * twiddle invert l ^ (j * k))"

lemma ntt_twiddle_correct [simp]:
  "fp_ok (ntt_twiddle invert s)" "gf_of (ntt_twiddle invert s) = twiddle invert s"
  by (simp_all add: ntt_twiddle_def twiddle_def Let_def)

lemma twiddle_Suc: "s < 32 \<Longrightarrow> twiddle invert (Suc s) ^ 2 = twiddle invert s"
  by (simp add: twiddle_def gf_root_Suc power_inverse)

lemma twiddle_half: "s < 32 \<Longrightarrow> twiddle invert (Suc s) ^ (2 ^ s) = - 1"
  by (simp add: twiddle_def gf_root_half power_inverse)

lemma sum_even_odd: "(\<Sum>j<2 * (n :: nat). g j) = (\<Sum>j<n. g (2 * j)) + (\<Sum>j<n. (g (2 * j + 1) :: gf))"
  by (induction n) simp_all

lemma dft_split:
  assumes "s < 32" "k' = k \<or> k' = 2 ^ s + k"
  shows "(\<Sum>j<2 ^ Suc s. x j * twiddle invert (Suc s) ^ (j * k'))
     = (\<Sum>j<2 ^ s. x (2 * j) * twiddle invert s ^ (j * k))
       + (if k' = k then 1 else - 1) * twiddle invert (Suc s) ^ k
           * (\<Sum>j<2 ^ s. x (2 * j + 1) * twiddle invert s ^ (j * k))"
proof -
  let ?w = "twiddle invert (Suc s)"
  define e where "e = (if k' = k then 1 else - 1 :: gf)"
  have w: "?w ^ (n * k') = e ^ n * ?w ^ (n * k)" for n
  proof (cases "k' = k")
    case False
    then have "n * k' = 2 ^ s * n + n * k" using assms(2) by (simp add: algebra_simps)
    then show ?thesis using False
      by (simp add: e_def power_add power_mult twiddle_half [OF assms(1)])
  qed (simp add: e_def)
  have e2: "e ^ (2 * j) = 1" for j by (simp add: e_def power_mult)
  have even: "?w ^ ((2 * j) * k') = twiddle invert s ^ (j * k)" for j
    unfolding w e2 by (simp add: twiddle_Suc [OF assms(1), symmetric] mult.assoc flip: power_mult)
  have odd: "?w ^ ((2 * j + 1) * k') = e * ?w ^ k * twiddle invert s ^ (j * k)" for j
    unfolding w power_add e2 add_mult_distrib
    by (simp add: twiddle_Suc [OF assms(1), symmetric] mult.assoc mult.commute mult.left_commute flip: power_mult)
  have "(\<Sum>j<2 ^ Suc s. x j * ?w ^ (j * k'))
     = (\<Sum>j<2 ^ s. x (2 * j) * ?w ^ ((2 * j) * k')) + (\<Sum>j<2 ^ s. x (2 * j + 1) * ?w ^ ((2 * j + 1) * k'))"
    using sum_even_odd [of "\<lambda>j. x j * ?w ^ (j * k')" "2 ^ s"] by simp
  then show ?thesis unfolding even odd e_def [symmetric]
    by (simp add: sum_distrib_left mult.left_commute mult.assoc)
qed

lemma layers_dft:
  fixes invert :: bool
  assumes "poly_ok a" "length a = 2 ^ l" "l \<le> 32" "s \<le> l"
  defines "A \<equiv> (\<lambda>s. fold (\<lambda>s. ntt_layer (ntt_twiddle invert s) (2 ^ s)) [1..<Suc s] (ntt_permute l a))"
  shows "length (A s) = 2 ^ l \<and> poly_ok (A s) \<and> (\<forall>q < 2 ^ (l - s). \<forall>k < 2 ^ s.
     gv (A s) (q * 2 ^ s + k) = (\<Sum>j<2 ^ s. gv a (j * 2 ^ (l - s) + brev (l - s) q) * twiddle invert s ^ (j * k)))"
  using assms(4)
proof (induction s)
  case 0
  have "poly_ok (ntt_permute l a)"
  proof -
    have "fp_ok (ntt_permute l a ! p)" if "p < 2 ^ l" for p
      using that assms ntt_permute_nth [of l a] brev_less [of l p] by (auto intro: poly_ok_nth)
    moreover have "length (ntt_permute l a) = 2 ^ l" using assms ntt_permute_nth(1) [of l a] by simp
    ultimately show ?thesis by (simp add: poly_ok_def list_all_length)
  qed
  then show ?case using assms ntt_permute_nth [of l a] by (simp add: A_def gv_def twiddle_def)
next
  case (Suc s)
  define r where "r = l - Suc s"
  have r: "l - s = Suc r" "l = Suc s + r" using Suc.prems by (simp_all add: r_def)
  have s: "s < 32" using Suc.prems assms(3) by simp
  have IH: "length (A s) = 2 ^ l" "poly_ok (A s)"
      "\<And>q k. q < 2 ^ Suc r \<Longrightarrow> k < 2 ^ s \<Longrightarrow> gv (A s) (q * 2 ^ s + k)
        = (\<Sum>j<2 ^ s. gv a (j * 2 ^ Suc r + brev (Suc r) q) * twiddle invert s ^ (j * k))"
    using Suc by (simp_all add: r)
  have step: "A (Suc s) = ntt_layer (ntt_twiddle invert (Suc s)) (2 * 2 ^ s) (A s)" by (simp add: A_def)
  have dvd: "2 * 2 ^ s dvd length (A s)" using IH(1) r(2) by (simp add: power_add)
  have pos: "0 < (2 :: nat) ^ s" by simp
  note L = ntt_layer_correct [OF IH(2) ntt_twiddle_correct(1) [of invert "Suc s"] pos dvd]
  have "gv (A (Suc s)) (q * 2 ^ Suc s + k')
      = (\<Sum>j<2 ^ Suc s. gv a (j * 2 ^ r + brev r q) * twiddle invert (Suc s) ^ (j * k'))"
    if q: "q < 2 ^ r" and k': "k' < 2 ^ Suc s" for q k'
  proof -
    define k where "k = k' mod 2 ^ s"
    have kk: "k < 2 ^ s" "k' = k \<or> k' = 2 ^ s + k"
      using k' by (auto simp: k_def le_mod_geq mod_if [of k'])
    have "(q + 1) * 2 ^ Suc s \<le> 2 ^ r * 2 ^ Suc s" using q by (intro mult_le_mono1) simp
    moreover have "length (A s) = 2 ^ r * 2 ^ Suc s" by (simp only: IH(1) r(2) power_add mult.commute)
    ultimately have p: "q * 2 ^ Suc s + k' < length (A s)" using k' by (simp only: add_mult_distrib mult_1)
    have E: "gv (A s) (q * 2 ^ Suc s + k)
        = (\<Sum>j<2 ^ s. gv a ((2 * j) * 2 ^ r + brev r q) * twiddle invert s ^ (j * k))"
      using IH(3) [of "2 * q" k] q kk(1) by (simp add: mult.assoc mult.left_commute)
    have O: "gv (A s) (q * 2 ^ Suc s + k + 2 ^ s)
        = (\<Sum>j<2 ^ s. gv a ((2 * j + 1) * 2 ^ r + brev r q) * twiddle invert s ^ (j * k))"
      using IH(3) [of "2 * q + 1" k] q kk(1) unfolding brev_odd by (simp add: algebra_simps)
    have "gv (A (Suc s)) (q * 2 ^ Suc s + k') = gv (A s) (q * 2 ^ Suc s + k)
        + (if k' = k then 1 else - 1) * twiddle invert (Suc s) ^ k * gv (A s) (q * 2 ^ Suc s + k + 2 ^ s)"
    proof -
      have "gv (A (Suc s)) (q * 2 ^ Suc s + k') =
          layer_val (twiddle invert (Suc s)) (2 ^ s) (gv (A s)) (q * 2 ^ Suc s + k')"
        using L(3) [OF p] by (simp add: step)
      moreover have "(q * 2 ^ Suc s + k') mod (2 * 2 ^ s) = k'" using k' by simp
      ultimately show ?thesis using kk by (auto simp: layer_val_def Let_def ac_simps)
    qed
    also have "\<dots> = (\<Sum>j<2 ^ Suc s. gv a (j * 2 ^ r + brev r q) * twiddle invert (Suc s) ^ (j * k'))"
      unfolding dft_split [OF s kk(2), of "\<lambda>j. gv a (j * 2 ^ r + brev r q)"] E O by simp
    finally show ?thesis .
  qed
  then show ?case using L(1,2) IH(1) unfolding step [symmetric] r_def [symmetric] by simp
qed

lemma ntt_forward:
  assumes "poly_ok a" "length a = 2 ^ l" "l \<le> 32"
  shows "length (ntt_layers l invert (ntt_permute l a)) = 2 ^ l" "poly_ok (ntt_layers l invert (ntt_permute l a))"
    "k < 2 ^ l \<Longrightarrow> gv (ntt_layers l invert (ntt_permute l a)) k = dft invert l (gv a) k"
  using layers_dft [OF assms order_refl, of invert]
  by (simp_all add: ntt_layers_def dft_def)

subsection \<open>The inverse transform\<close>

lemma root_sum:
  assumes "l \<le> 32" "i < 2 ^ l" "k < 2 ^ l"
  shows "(\<Sum>j<2 ^ l. gf_root l ^ (i * j) * inverse (gf_root l) ^ (j * k)) = (if i = k then 2 ^ l else 0)"
proof -
  let ?z = "gf_root l ^ i * inverse (gf_root l) ^ k"
  have z: "gf_root l ^ (i * j) * inverse (gf_root l) ^ (j * k) = ?z ^ j" for j
    by (simp add: power_mult_distrib mult.commute flip: power_mult)
  show ?thesis
  proof (cases "i = k")
    case True
    then have "?z = 1" by (simp add: power_inverse)
    then show ?thesis unfolding z using True by simp
  next
    case False
    then have "gf_root l ^ i \<noteq> gf_root l ^ k"
      using gf_root_inj [OF assms(1)] assms(2,3) by (auto dest: inj_onD)
    then have "?z \<noteq> 1" by (simp add: power_inverse field_simps)
    moreover have "?z ^ (2 ^ l) = 1"
    proof -
      have "?z ^ (2 ^ l) = (gf_root l ^ (2 ^ l)) ^ i * inverse ((gf_root l ^ (2 ^ l)) ^ k)"
        by (simp add: power_mult_distrib power_inverse mult.commute flip: power_mult)
      then show ?thesis by (simp add: gf_root_order [OF assms(1)])
    qed
    ultimately show ?thesis unfolding z using False by (simp add: geometric_sum)
  qed
qed

lemma dft_inverse:
  assumes "l \<le> 32" "k < 2 ^ l"
  shows "dft True l (dft False l f) k = 2 ^ l * f k"
proof -
  have "dft True l (dft False l f) k = (\<Sum>j<2 ^ l. \<Sum>i<2 ^ l. f i * (gf_root l ^ (i * j) * inverse (gf_root l) ^ (j * k)))"
    by (simp add: dft_def twiddle_def sum_distrib_right mult.assoc)
  also have "\<dots> = (\<Sum>i<2 ^ l. f i * (\<Sum>j<2 ^ l. gf_root l ^ (i * j) * inverse (gf_root l) ^ (j * k)))"
    by (subst sum.swap) (simp add: sum_distrib_left)
  also have "\<dots> = (\<Sum>i<2 ^ l. f i * (if i = k then 2 ^ l else 0))"
    by (rule sum.cong) (simp_all add: root_sum [OF assms(1) _ assms(2)])
  also have "\<dots> = 2 ^ l * f k" using assms(2) by (simp add: if_distrib [of "(*) _"] sum.delta cong: if_cong)
  finally show ?thesis .
qed

lemma ntt_correct:
  assumes "poly_ok a" "length a = 2 ^ l" "l \<le> 32"
  shows "length (ntt a l invert) = 2 ^ l" "poly_ok (ntt a l invert)"
    "k < 2 ^ l \<Longrightarrow> gv (ntt a l False) k = dft False l (gv a) k"
    "k < 2 ^ l \<Longrightarrow> gv (ntt a l True) k = dft True l (gv a) k / 2 ^ l"
proof -
  note F = ntt_forward [OF assms]
  show "length (ntt a l invert) = 2 ^ l" "poly_ok (ntt a l invert)"
    using F [where invert = invert] by (cases invert; simp add: ntt_def Let_def poly_ok_map)+
  show "k < 2 ^ l \<Longrightarrow> gv (ntt a l False) k = dft False l (gv a) k"
    using F by (simp add: ntt_def)
  have "(2 :: nat) ^ l \<le> 2 ^ 32" using assms(3) by (intro power_increasing) simp_all
  then have "unat (of_nat (2 ^ l) :: u64) = 2 ^ l"
    using assms(3) by (simp add: unsigned_of_nat take_bit_nat_eq_self del: of_nat_power)
  then have "gf_of (of_nat (2 ^ l)) = of_nat (2 ^ l)" unfolding gf_of_def by (rule arg_cong)
  then have "gf_of (fp_new (of_nat (2 ^ l))) = 2 ^ l" unfolding gf_of_new by simp
  then show "gv (ntt a l True) k = dft True l (gv a) k / 2 ^ l" if "k < 2 ^ l"
    using F(1,3) [where invert = True] that assms(2) by (simp add: ntt_def Let_def gv_def divide_inverse)
qed

text \<open>The inverse transform of the transform is the identity.\<close>

lemma ntt_round_trip:
  assumes "poly_ok a" "length a = 2 ^ l" "l \<le> 32"
  shows "ntt (ntt a l False) l True = a"
proof (rule nth_equalityI)
  note A = ntt_correct(1,2) [OF assms, where invert = False] ntt_correct(3) [OF assms]
  note B = ntt_correct(1,2) [OF A(2,1) assms(3), where invert = True] ntt_correct(4) [OF A(2,1) assms(3)]
  show "length (ntt (ntt a l False) l True) = length a" using B(1) assms(2) by simp
  fix k assume "k < length (ntt (ntt a l False) l True)"
  then have k: "k < 2 ^ l" using B(1) by simp
  have "dft True l (gv (ntt a l False)) k = dft True l (dft False l (gv a)) k"
    unfolding dft_def [of True] by (rule sum.cong) (simp_all add: A(3))
  then have "gv (ntt (ntt a l False) l True) k = gv a k"
    using B(3) [OF k] dft_inverse [OF assms(3) k] by simp
  then show "ntt (ntt a l False) l True ! k = a ! k"
    using k A(1) B(1,2) assms by (simp add: gv_def gf_of_inject poly_ok_nth)
qed

subsection \<open>Multiplication\<close>

text \<open>Coefficients of a polynomial and of a product, zero beyond the end.\<close>

definition coeff_at :: "Poly \<Rightarrow> nat \<Rightarrow> gf" where
  "coeff_at p i = (if i < length p then gv p i else 0)"

fun prod_coeff :: "Poly \<Rightarrow> Poly \<Rightarrow> nat \<Rightarrow> gf" where
  "prod_coeff [] b k = 0"
| "prod_coeff (c # cs) b k = gf_of c * coeff_at b k + (case k of 0 \<Rightarrow> 0 | Suc k \<Rightarrow> prod_coeff cs b k)"

lemma poly_val_coeff_at: "length p \<le> n \<Longrightarrow> (\<Sum>k<n. coeff_at p k * x ^ k) = poly_val p x"
proof -
  assume n: "length p \<le> n"
  have "(\<Sum>k<n. coeff_at p k * x ^ k) = (\<Sum>k<length p. coeff_at p k * x ^ k)"
    by (rule sum.mono_neutral_right) (use n in \<open>auto simp: coeff_at_def\<close>)
  also have "\<dots> = poly_val p x"
    unfolding poly_val_sum by (rule sum.cong) (simp_all add: coeff_at_def gv_def)
  finally show ?thesis .
qed

lemma prod_coeff_val:
  "length a + length b \<le> Suc n \<Longrightarrow> (\<Sum>k<n. prod_coeff a b k * x ^ k) = poly_val a x * poly_val b x"
proof (induction a arbitrary: n)
  case (Cons c cs)
  have b: "(\<Sum>k<n. gf_of c * coeff_at b k * x ^ k) = gf_of c * poly_val b x"
    using Cons.prems by (simp add: poly_val_coeff_at mult.assoc flip: sum_distrib_left)
  have "(\<Sum>k<n. (case k of 0 \<Rightarrow> 0 | Suc k \<Rightarrow> prod_coeff cs b k) * x ^ k) = x * poly_val cs x * poly_val b x"
  proof (cases n)
    case 0
    then show ?thesis using Cons.prems by simp
  next
    case (Suc m)
    have "(\<Sum>k<m. prod_coeff cs b k * x ^ k) = poly_val cs x * poly_val b x"
      using Cons.prems Suc by (intro Cons.IH) simp
    then show ?thesis unfolding Suc sum.lessThan_Suc_shift
      by (simp add: mult.left_commute mult.assoc flip: sum_distrib_left)
  qed
  then show ?case using b by (simp add: distrib_right sum.distrib)
qed simp

lemma log2_up_bounds: "n \<le> 2 ^ log2_up n" "1 < n \<Longrightarrow> 2 ^ log2_up n < 2 * n"
proof (induction n rule: log2_up.induct)
  case (1 n)
  have e: "log2_up n = (if n \<le> 1 then 0 else Suc (log2_up ((n + 1) div 2)))" by (rule log2_up.simps)
  { case 1
    then show ?case using "1.IH"(1) by (auto simp: e) }
  { case 2
    show ?case
    proof (cases "(n + 1) div 2 = 1")
      case True
      then show ?thesis using 2 by (simp add: e log2_up.simps [of "Suc 0"])
    next
      case False
      then have "2 ^ log2_up ((n + 1) div 2) < 2 * ((n + 1) div 2)" using "1.IH"(2) 2 by auto
      moreover have "even (2 ^ log2_up ((n + 1) div 2) :: nat)"
        using False 2 by (simp add: log2_up.simps [of "Suc n div 2"])
      then obtain c :: nat where c: "2 ^ log2_up ((n + 1) div 2) = 2 * c" by (elim evenE)
      ultimately have "2 * c < 2 * ((n + 1) div 2)" by simp
      then have "2 * c < n" by presburger
      then have "2 ^ log2_up ((n + 1) div 2) < n" unfolding c .
      then show ?thesis using 2 by (simp add: e)
    qed }
qed

lemma vec_resize_correct:
  assumes "length a \<le> n"
  shows "length (vec_resize n 0 a) = n" "poly_ok a \<Longrightarrow> poly_ok (vec_resize n 0 a)"
    "i < n \<Longrightarrow> gv (vec_resize n 0 a) i = coeff_at a i"
  using assms by (auto simp: vec_resize_def gv_def coeff_at_def nth_append min_absorb2)

lemma dft_forward_val:
  assumes "poly_ok a" "length a \<le> 2 ^ l" "l \<le> 32" "k < 2 ^ l"
  shows "gv (ntt (vec_resize (2 ^ l) 0 a) l False) k = poly_val a (gf_root l ^ k)"
proof -
  note R = vec_resize_correct [OF assms(2)]
  have "gv (ntt (vec_resize (2 ^ l) 0 a) l False) k = (\<Sum>j<2 ^ l. gv (vec_resize (2 ^ l) 0 a) j * gf_root l ^ (j * k))"
    using ntt_correct(3) [OF R(2) [OF assms(1)] R(1) assms(3,4)] by (simp add: dft_def twiddle_def)
  also have "\<dots> = (\<Sum>j<2 ^ l. coeff_at a j * (gf_root l ^ k) ^ j)"
    by (rule sum.cong) (simp_all add: R(3) mult.commute flip: power_mult)
  finally show ?thesis by (simp add: poly_val_coeff_at [OF assms(2)])
qed

lemma poly_mul_correct:
  assumes "poly_ok a" "poly_ok b" "a \<noteq> []" "b \<noteq> []" "length a + length b \<le> 2 ^ 32"
  shows "poly_ok (poly_mul a b)" "poly_val (poly_mul a b) x = poly_val a x * poly_val b x"
    "length (poly_mul a b) \<le> length a + length b - 1" "poly_mul a b \<noteq> []"
proof -
  let ?n = "length a + length b - 1"
  have la: "0 < length a" "0 < length b" using assms(3,4) by simp_all
  have "poly_ok (poly_mul a b) \<and> poly_val (poly_mul a b) x = poly_val a x * poly_val b x \<and>
    length (poly_mul a b) \<le> ?n \<and> poly_mul a b \<noteq> []"
  proof (cases "?n \<le> 1")
    case True
    then have "length a = 1" "length b = 1" using la by linarith+
    then obtain c d where "a = [c]" "b = [d]" by (auto simp: length_Suc_conv)
    then show ?thesis by (simp add: poly_mul_def poly_constant_def)
  next
    case False
    define l where "l = log2_up ?n"
    have n: "?n \<le> 2 ^ l" using log2_up_bounds(1) by (simp add: l_def)
    have "2 ^ l < 2 * ?n" using log2_up_bounds(2) False by (simp add: l_def)
    then have "(2 :: nat) ^ l < 2 ^ 33" using assms(5) by simp
    then have l: "l \<le> 32" using power_less_imp_less_exp [of "2 :: nat" l 33] by simp
    have le: "length a \<le> 2 ^ l" "length b \<le> 2 ^ l" using n la by linarith+
    define fa fb where "fa = ntt (vec_resize (2 ^ l) 0 a) l False" and "fb = ntt (vec_resize (2 ^ l) 0 b) l False"
    define fc where "fc = map2 fp_mul fa fb"
    have fab: "length fa = 2 ^ l" "length fb = 2 ^ l"
      unfolding fa_def fb_def using ntt_correct(1) vec_resize_correct le assms(1,2) l by simp_all
    have fc: "length fc = 2 ^ l" "poly_ok fc" using fab by (simp_all add: fc_def poly_ok_map split: prod.splits)
    have "gv fc k = dft False l (prod_coeff a b) k" if k: "k < 2 ^ l" for k
    proof -
      have "gv fc k = gv fa k * gv fb k" using fab k by (simp add: fc_def gv_def)
      also have "\<dots> = (\<Sum>j<2 ^ l. prod_coeff a b j * (gf_root l ^ k) ^ j)"
        unfolding fa_def fb_def using n assms(1,2) le l k by (simp add: dft_forward_val prod_coeff_val)
      finally show ?thesis by (simp add: dft_def twiddle_def mult.commute flip: power_mult)
    qed
    then have "dft True l (gv fc) k = dft True l (dft False l (prod_coeff a b)) k" for k
      unfolding dft_def [of True] by (intro sum.cong) simp_all
    then have gc: "gv (ntt fc l True) k = prod_coeff a b k" if "k < 2 ^ l" for k
      using ntt_correct(4) [OF fc(2,1) l that] dft_inverse [OF l that] by simp
    let ?r = "take ?n (ntt fc l True)"
    have len: "length (ntt fc l True) = 2 ^ l" "poly_ok (ntt fc l True)" using ntt_correct(1,2) [OF fc(2,1) l] .
    have "poly_val ?r x = (\<Sum>k<?n. prod_coeff a b k * x ^ k)"
      unfolding poly_val_sum using len n by (intro sum.cong) (simp_all add: gc [symmetric] gv_def)
    also have "\<dots> = poly_val a x * poly_val b x" using la by (intro prod_coeff_val) simp
    finally have "poly_val ?r x = poly_val a x * poly_val b x" .
    moreover have "poly_mul a b = poly_from_coeffs ?r"
      using False by (simp add: poly_mul_def Let_def l_def fc_def fa_def fb_def)
    ultimately show ?thesis using len n poly_from_coeffs_length [of ?r] False by simp
  qed
  then show "poly_ok (poly_mul a b)" "poly_val (poly_mul a b) x = poly_val a x * poly_val b x"
    "length (poly_mul a b) \<le> ?n" "poly_mul a b \<noteq> []" by simp_all
qed

text \<open>The product that the code computes by number-theoretic transforms is the product of
  the polynomials: at every point its value is the product of the values, it is canonical, and it
  has at most as many coefficients as the product can have.\<close>

theorem poly_mul_is_product:
  assumes "poly_ok a" "poly_ok b" "a \<noteq> []" "b \<noteq> []" "length a + length b \<le> 2 ^ 32"
  shows "poly_ok (poly_mul a b) \<and> length (poly_mul a b) \<le> length a + length b - 1 \<and>
    gf_of (poly_eval (poly_mul a b) x) = gf_of (poly_eval a x) * gf_of (poly_eval b x)"
  using poly_mul_correct [OF assms] assms(1,2) by (simp add: poly_eval_correct)

lemma poly_mul_is_product_witness:
  "gf_of (poly_eval (poly_mul [1, 2, 3] [4, 5]) 7) = 162 * 39"
proof -
  have ok: "poly_ok [1, 2, 3]" "poly_ok [4, 5]" by (simp_all add: poly_ok_def fp_ok_nat)
  have "poly_val [1, 2, 3] (gf_of 7) = 162" "poly_val [4, 5] (gf_of 7) = 39" by (simp_all add: gf_of_def)
  then show ?thesis using poly_mul_is_product [OF ok, of 7] ok by (simp add: poly_eval_correct)
qed

text \<open>The inverse number-theoretic transform undoes the transform, on every canonical array whose
  length is a power of two up to 2 to the power of 32.\<close>

theorem ntt_inverse:
  assumes "poly_ok a" "length a = 2 ^ l" "l \<le> 32"
  shows "ntt (ntt a l False) l True = a"
  using assms by (rule ntt_round_trip)

lemma ntt_inverse_witness: "ntt (ntt [1, 2, 3, 4] 2 False) 2 True = [1, 2, 3, 4]"
  by (rule ntt_inverse) (simp_all add: poly_ok_def fp_ok_nat)

end
