(* ===== verification/Interpolation.thy ===== *)
theory Interpolation
  imports NTT
begin

section \<open>Division, roots and interpolation of polynomials\<close>

text \<open>
  The remaining operations of \<open>zk/src/poly.rs\<close>: the long division \<open>div_mod\<close>, the synthetic
  division by a linear factor and Lagrange interpolation.  A polynomial with as many roots as
  coefficients is zero, which makes the remainder of an exact division vanish.
\<close>

subsection \<open>Roots\<close>

text \<open>The quotient of synthetic division by \<open>x - r\<close>, for the list without its constant.\<close>

fun synthetic :: "Fp \<Rightarrow> Fp list \<Rightarrow> Fp list" where
  "synthetic r [] = []"
| "synthetic r (c # cs) = (let q = synthetic r cs in fp_add c (if q = [] then 0 else fp_mul (hd q) r) # q)"

lemma synthetic_length [simp]: "length (synthetic r cs) = length cs"
  by (induction cs) (simp_all add: Let_def)

lemma synthetic_empty [simp]: "synthetic r cs = [] \<longleftrightarrow> cs = []"
  using synthetic_length [of r cs] by (metis length_0_conv)

lemma synthetic_hd:
  "poly_ok cs \<Longrightarrow> poly_ok (synthetic r cs)"
  "poly_ok cs \<Longrightarrow> cs \<noteq> [] \<Longrightarrow> gf_of (hd (synthetic r cs)) = poly_val cs (gf_of r)"
proof (induction cs)
  case (Cons c cs)
  { case 1
    then show ?case using Cons.IH(1) by (auto simp: Let_def fp_add_correct) }
  { case 2
    then show ?case using Cons.IH by (cases "cs = []") (simp_all add: Let_def fp_add_correct mult.commute) }
qed simp_all

lemma synthetic_val:
  "poly_ok cs \<Longrightarrow> x * poly_val cs x = gf_of r * poly_val cs (gf_of r) + (x - gf_of r) * poly_val (synthetic r cs) x"
proof (induction cs)
  case (Cons c cs)
  then have "gf_of (hd (synthetic r (c # cs))) = poly_val (c # cs) (gf_of r)"
    by (intro synthetic_hd) simp_all
  then have h: "poly_val (synthetic r (c # cs)) x = poly_val (c # cs) (gf_of r) + x * poly_val (synthetic r cs) x"
    by (simp add: Let_def)
  have IH: "x * poly_val cs x = gf_of r * poly_val cs (gf_of r) + (x - gf_of r) * poly_val (synthetic r cs) x"
    using Cons by simp
  have "x * poly_val (c # cs) x = x * gf_of c + x * (x * poly_val cs x)" by (simp add: algebra_simps)
  also have "\<dots> = gf_of r * poly_val (c # cs) (gf_of r)
      + (x - gf_of r) * (poly_val (c # cs) (gf_of r) + x * poly_val (synthetic r cs) x)"
    unfolding IH by (simp add: algebra_simps)
  finally show ?case unfolding h .
qed simp

lemma synthetic_factor:
  "poly_ok (c # cs) \<Longrightarrow> poly_val (c # cs) x = poly_val (c # cs) (gf_of r) + (x - gf_of r) * poly_val (synthetic r cs) x"
  using synthetic_val [of cs x r] by simp

lemma gf_of_surj: "\<exists>r. fp_ok r \<and> gf_of r = x"
proof -
  have r: "0 \<le> gf_rep x" "gf_rep x < 18446744069414584321" by (rule gf_rep_range)+
  then have "nat (gf_rep x) < 18446744073709551616" by simp
  then have u: "unat (of_nat (nat (gf_rep x)) :: u64) = nat (gf_rep x)"
    unfolding unsigned_of_nat by (simp add: take_bit_nat_eq_self)
  have "(of_int (gf_rep x) :: gf) = x"
    using r by (simp add: gf_of_int_rep flip: gf_rep_inject)
  then have "of_nat (nat (gf_rep x)) = x" using r(1) by simp
  then show ?thesis using u r by (intro exI [of _ "of_nat (nat (gf_rep x))"]) (simp add: fp_ok_nat gf_of_def del: of_nat_unat)
qed

lemma too_many_roots:
  "poly_ok p \<Longrightarrow> finite S \<Longrightarrow> length p \<le> card S \<Longrightarrow> (\<And>x. x \<in> S \<Longrightarrow> poly_val p x = 0) \<Longrightarrow> poly_val p y = 0"
proof (induction "length p" arbitrary: p S)
  case (Suc n)
  then obtain c cs where p: "p = c # cs" by (cases p) auto
  have "S \<noteq> {}" using Suc.prems(3) Suc.hyps(2) by auto
  then obtain s where s: "s \<in> S" by blast
  obtain r where r: "fp_ok r" "gf_of r = s" using gf_of_surj by blast
  have f: "poly_val p x = (x - s) * poly_val (synthetic r cs) x" for x
    using synthetic_factor [of c cs x r] Suc.prems(1,4) s r(2) by (simp add: p)
  have "poly_val (synthetic r cs) y = 0"
  proof (rule Suc.hyps(1))
    show "n = length (synthetic r cs)" using Suc.hyps(2) p by simp
    show "poly_ok (synthetic r cs)" using Suc.prems(1) p by (simp add: synthetic_hd(1))
    show "finite (S - {s})" using Suc.prems(2) by simp
    show "length (synthetic r cs) \<le> card (S - {s})" using Suc.prems(2,3) s p by (simp add: card_Diff_singleton)
    show "poly_val (synthetic r cs) x = 0" if "x \<in> S - {s}" for x
      using f [of x] Suc.prems(4) [of x] that by auto
  qed
  then show ?case by (simp add: f)
qed simp

subsection \<open>Division by a linear factor\<close>

lemma linear_loop:
  assumes "p = c # cs" "k \<le> length cs"
  shows "fold (linear_step p r) (rev [k..<length cs]) (replicate (length cs) 0, 0)
     = (replicate k 0 @ synthetic r (drop k cs),
        if k < length cs then fp_mul (hd (synthetic r (drop k cs))) r else 0)"
  using assms(2)
proof (induction "length cs - k" arbitrary: k)
  case 0
  then show ?case by simp
next
  case (Suc d)
  then have k: "k < length cs" by simp
  have "fold (linear_step p r) (rev [Suc k..<length cs]) (replicate (length cs) 0, 0)
     = (replicate (Suc k) 0 @ synthetic r (drop (Suc k) cs),
        if Suc k < length cs then fp_mul (hd (synthetic r (drop (Suc k) cs))) r else 0)"
    using Suc.hyps(2) k by (intro Suc.hyps(1)) auto
  moreover have "rev [k..<length cs] = rev [Suc k..<length cs] @ [k]" using k by (simp add: upt_conv_Cons)
  moreover have "linear_step p r k (replicate (Suc k) 0 @ ys, carry)
      = (replicate k 0 @ fp_add (cs ! k) carry # ys, fp_mul (fp_add (cs ! k) carry) r)" for ys carry
  proof -
    have "replicate (Suc k) 0 @ ys = replicate k (0 :: Fp) @ 0 # ys" by (simp add: replicate_app_Cons_same)
    then show ?thesis by (simp add: linear_step_def Let_def assms(1) list_update_append nth_append del: replicate_Suc)
  qed
  ultimately have "fold (linear_step p r) (rev [k..<length cs]) (replicate (length cs) 0, 0)
     = (let carry = (if Suc k < length cs then fp_mul (hd (synthetic r (drop (Suc k) cs))) r else 0);
            v = fp_add (cs ! k) carry
        in (replicate k 0 @ v # synthetic r (drop (Suc k) cs), fp_mul v r))"
    by (simp only: fold_append fold.simps comp_apply id_apply Let_def)
  moreover have "drop k cs = cs ! k # drop (Suc k) cs" using k by (simp add: Cons_nth_drop_Suc)
  moreover have "drop (Suc k) cs = [] \<longleftrightarrow> \<not> Suc k < length cs" by auto
  ultimately show ?case using k by (simp add: Let_def)
qed

lemma poly_divide_by_linear_correct:
  assumes "poly_ok p" "p \<noteq> []"
  shows "poly_ok (poly_divide_by_linear p r)" "length (poly_divide_by_linear p r) \<le> max 1 (length p - 1)"
    "poly_val p x = poly_val p (gf_of r) + (x - gf_of r) * poly_val (poly_divide_by_linear p r) x"
proof -
  obtain c cs where p: "p = c # cs" using assms(2) by (cases p) auto
  have d: "poly_divide_by_linear p r = poly_from_coeffs (synthetic r cs)"
    using linear_loop [OF p, of 0 r] by (simp add: poly_divide_by_linear_def Let_def p)
  show "poly_ok (poly_divide_by_linear p r)" using assms(1) unfolding d by (simp add: p synthetic_hd(1))
  show "length (poly_divide_by_linear p r) \<le> max 1 (length p - 1)"
    using poly_from_coeffs_length [of "synthetic r cs"] unfolding d by (simp add: p)
  show "poly_val p x = poly_val p (gf_of r) + (x - gf_of r) * poly_val (poly_divide_by_linear p r) x"
    unfolding d poly_from_coeffs_correct(1) unfolding p
    using assms(1) by (intro synthetic_factor) (simp add: p)
qed

subsection \<open>Interpolation\<close>

lemma poly_master_loop:
  assumes "list_all fp_ok xs" "poly_ok m" "m \<noteq> []" "length m + length xs < 2 ^ 32"
  defines "m' \<equiv> fold (\<lambda>x master. poly_mul master (linear_factor x)) xs m"
  shows "poly_ok m' \<and> m' \<noteq> [] \<and> length m' \<le> length m + length xs \<and>
    poly_val m' y = poly_val m y * (\<Prod>x\<leftarrow>xs. y - gf_of x)"
  using assms(1-4) unfolding m'_def
proof (induction xs arbitrary: m)
  case (Cons x xs)
  have x: "fp_ok x" "list_all fp_ok xs" using Cons.prems by simp_all
  have l: "length (linear_factor x) = 2" "linear_factor x \<noteq> []" by (simp_all add: linear_factor_form)
  have "length m + length (linear_factor x) \<le> 2 ^ 32" using Cons.prems(4) l by simp
  note M = poly_mul_correct [OF Cons.prems(2) linear_factor_correct(1) [OF x(1)] Cons.prems(3) l(2) this]
  have "length (poly_mul m (linear_factor x)) + length xs < 2 ^ 32" using M(3) Cons.prems(4) l by simp
  note IH = Cons.IH [OF x(2) M(1,4) this]
  then show ?case using M(2,3) l x(1) by (simp add: mult.assoc)
qed simp

lemma poly_master_correct:
  assumes "list_all fp_ok xs" "length xs < 2 ^ 31"
  shows "poly_ok (poly_master xs)" "poly_master xs \<noteq> []" "length (poly_master xs) \<le> Suc (length xs)"
    "poly_val (poly_master xs) y = (\<Prod>x\<leftarrow>xs. y - gf_of x)"
proof -
  have o: "poly_from_coeffs [1] = [1]" by (simp add: poly_from_coeffs_def strip_zeros.simps)
  note M = poly_master_loop [OF assms(1), of "[1]", folded poly_master_def [of xs, unfolded o]]
  show "poly_ok (poly_master xs)" "poly_master xs \<noteq> []" "length (poly_master xs) \<le> Suc (length xs)"
    "poly_val (poly_master xs) y = (\<Prod>x\<leftarrow>xs. y - gf_of x)"
    using M assms(2) by simp_all
qed

lemma prod_list_zero_iff: "(\<Prod>x\<leftarrow>xs. y - gf_of x) = 0 \<longleftrightarrow> y \<in> gf_of ` set xs"
  by (induction xs) auto

text \<open>The basis polynomial of a point: 1 there, 0 at the other points.\<close>

lemma basis_polynomial:
  assumes "list_all fp_ok xs" "length xs < 2 ^ 31" "distinct (map gf_of xs)" "x \<in> set xs"
  defines "b \<equiv> poly_divide_by_linear (poly_master xs) x"
  shows "poly_ok b" "length b \<le> length xs" "poly_val b (gf_of x) \<noteq> 0"
    "z \<in> set xs \<Longrightarrow> gf_of z \<noteq> gf_of x \<Longrightarrow> poly_val b (gf_of z) = 0"
proof -
  note M = poly_master_correct [OF assms(1,2)]
  note D = poly_divide_by_linear_correct [OF M(1,2)]
  have "0 < length xs" using assms(4) by (cases xs) auto
  then show "poly_ok b" "length b \<le> length xs"
    using D(1,2) [of x] M(3) unfolding b_def by linarith+
  have zero: "poly_val (poly_master xs) (gf_of z) = 0" if "z \<in> set xs" for z
    using that by (simp add: M(4) prod_list_zero_iff)
  have f: "poly_val (poly_master xs) y = (y - gf_of x) * poly_val b y" for y
    using D(3) [of y x] zero [OF assms(4)] by (simp add: b_def)
  show "z \<in> set xs \<Longrightarrow> gf_of z \<noteq> gf_of x \<Longrightarrow> poly_val b (gf_of z) = 0"
    using f [of "gf_of z"] zero [of z] by simp
  obtain us vs where xs: "xs = us @ x # vs" using assms(4) by (auto simp: in_set_conv_decomp)
  let ?g = "\<lambda>y. (\<Prod>x\<leftarrow>us @ vs. y - gf_of x)"
  have nx: "?g (gf_of x) \<noteq> 0" using assms(3) unfolding prod_list_zero_iff by (auto simp: xs)
  have split: "poly_val (poly_master xs) y = (y - gf_of x) * ?g y" for y
    unfolding M(4) by (simp add: xs mult.left_commute)
  have gb: "?g y = poly_val b y" if "y \<noteq> gf_of x" for y using f [of y] split [of y] that by simp
  \<comment> \<open>\<open>b\<close> and the product agree away from \<open>x\<close>, hence everywhere\<close>
  have okuv: "list_all fp_ok (us @ vs)" "length (us @ vs) < 2 ^ 31" using assms(1,2) by (auto simp: xs)
  note G = poly_master_correct [OF okuv]
  let ?d = "poly_sub (poly_master (us @ vs)) b"
  have okb: "poly_ok b" using D(1) by (simp add: b_def)
  have "length ?d \<le> Suc (length xs)"
    using poly_sub_length [of "poly_master (us @ vs)" b] G(3) D(2) [of x] M(3)
    by (simp add: b_def xs)
  also have "\<dots> \<le> card (UNIV - {gf_of x})"
    using assms(2) finite_gf by (simp add: card_Diff_singleton card_gf)
  finally have "poly_val ?d (gf_of x) = 0"
  proof (rule too_many_roots [rotated 2])
    show "poly_val ?d y = 0" if "y \<in> UNIV - {gf_of x}" for y
      using that gb [of y] G(1,4) okb by simp
  qed (use G(1) okb finite_gf in simp_all)
  then show "poly_val b (gf_of x) \<noteq> 0" using nx G(1,4) okb by simp
qed

lemma interpolate_loop:
  assumes "list_all fp_ok xs" "length xs < 2 ^ 31" "distinct (map gf_of xs)" "distinct (map fst ps)"
    "set (map fst ps) \<subseteq> set xs" "poly_ok acc" "length acc \<le> max 1 (length xs)"
  defines "res \<equiv> fold (interpolate_step (poly_master xs)) ps acc"
  shows "poly_ok res \<and> length res \<le> max 1 (length xs) \<and>
    (z \<in> set xs \<longrightarrow> poly_val res (gf_of z)
       = poly_val acc (gf_of z) + (case map_of ps z of None \<Rightarrow> 0 | Some y \<Rightarrow> gf_of y))"
  using assms(4-7) unfolding res_def
proof (induction ps arbitrary: acc)
  case (Cons p ps)
  obtain x y where p: "p = (x, y)" by (cases p)
  have x: "x \<in> set xs" using Cons.prems p by simp
  let ?b = "poly_divide_by_linear (poly_master xs) x"
  let ?li = "poly_scale ?b (fp_mul y (fp_inv (poly_eval ?b x)))"
  note B = basis_polynomial [OF assms(1-3) x]
  have step: "interpolate_step (poly_master xs) p acc = poly_add acc ?li"
    by (simp add: interpolate_step_def p Let_def)
  have ok: "poly_ok (poly_add acc ?li)" using Cons.prems by simp
  have len: "length (poly_add acc ?li) \<le> max 1 (length xs)"
    using poly_add_length [of acc ?li] poly_scale_length [of ?b] B(2) Cons.prems(4)
    by (meson max.boundedI max.cobounded1 max.coboundedI2 order.trans)
  have li: "poly_val ?li (gf_of z) = (if z = x then gf_of y else 0)" if "z \<in> set xs" for z
  proof (cases "z = x")
    case True
    then show ?thesis using B(1,3) by (simp add: poly_eval_correct)
  next
    case False
    then have "gf_of z \<noteq> gf_of x" using assms(3) that x by (auto simp: distinct_map dest: inj_onD)
    then show ?thesis using B(4) [OF that] False by simp
  qed
  have "distinct (map fst ps)" "set (map fst ps) \<subseteq> set xs" "x \<notin> set (map fst ps)"
    using Cons.prems p by simp_all
  note IH = Cons.IH [OF this(1,2) ok len]
  have "map_of ps x = None" using \<open>x \<notin> set (map fst ps)\<close> by (simp add: map_of_eq_None_iff)
  moreover have "fold (interpolate_step (poly_master xs)) (p # ps) acc
      = fold (interpolate_step (poly_master xs)) ps (poly_add acc ?li)" by (simp add: step)
  moreover have "z \<in> set xs \<Longrightarrow> poly_val (poly_add acc ?li) (gf_of z) = poly_val acc (gf_of z) + (if z = x then gf_of y else 0)"
    using li [of z] Cons.prems(3) by simp
  ultimately show ?case using IH by (auto simp: p split: option.splits simp del: fold.simps)
qed simp

lemma poly_interpolate_correct:
  assumes "list_all fp_ok xs" "length xs < 2 ^ 31" "distinct xs" "length ys = length xs"
  shows "poly_ok (poly_interpolate xs ys)" "length (poly_interpolate xs ys) \<le> max 1 (length xs)"
    "i < length xs \<Longrightarrow> poly_val (poly_interpolate xs ys) (gf_of (xs ! i)) = gf_of (ys ! i)"
proof -
  have d: "distinct (map gf_of xs)"
    using assms(1,3) by (auto simp: distinct_map inj_on_def gf_of_inject list_all_iff)
  have m: "map fst (zip xs ys) = xs" using assms(4) by simp
  note I = interpolate_loop [OF assms(1,2) d, of "zip xs ys" poly_zero, folded poly_interpolate_def]
  show "poly_ok (poly_interpolate xs ys)" "length (poly_interpolate xs ys) \<le> max 1 (length xs)"
    using I m assms(3) by (simp_all add: poly_zero_def)
  assume i: "i < length xs"
  then have "map_of (zip xs ys) (xs ! i) = Some (ys ! i)" using assms(3,4) by (simp add: map_of_zip_nth)
  then show "poly_val (poly_interpolate xs ys) (gf_of (xs ! i)) = gf_of (ys ! i)"
    using I [of "xs ! i"] m assms(3) i by (simp add: poly_zero_def)
qed

subsection \<open>Division with remainder\<close>

lemma cancel_loop:
  assumes "poly_ok d" "poly_ok rem" "fp_ok c" "k \<le> length d" "qi + length d \<le> length rem"
  defines "rem' \<equiv> fold (cancel_step d qi c) [0..<k] rem"
  shows "length rem' = length rem \<and> poly_ok rem' \<and>
    (\<forall>p. gv rem' p = gv rem p - (if qi \<le> p \<and> p < qi + k then gf_of c * gv d (p - qi) else 0)) \<and>
    (\<forall>x. poly_val rem' x = poly_val rem x - gf_of c * x ^ qi * (\<Sum>j<k. gv d j * x ^ j))"
  using assms(4) unfolding rem'_def
proof (induction k)
  case (Suc k)
  let ?r = "fold (cancel_step d qi c) [0..<k] rem"
  have IH: "length ?r = length rem" "poly_ok ?r"
    "\<And>p. gv ?r p = gv rem p - (if qi \<le> p \<and> p < qi + k then gf_of c * gv d (p - qi) else 0)"
    "\<And>x. poly_val ?r x = poly_val rem x - gf_of c * x ^ qi * (\<Sum>j<k. gv d j * x ^ j)"
    using Suc by simp_all
  let ?v = "fp_sub (?r ! (qi + k)) (fp_mul c (d ! k))"
  have i: "qi + k < length ?r" using Suc.prems assms(5) IH(1) by simp
  have v: "fp_ok ?v" "gf_of ?v = gv ?r (qi + k) - gf_of c * gv d k"
    using poly_ok_nth [OF IH(2) i] by (simp_all add: fp_sub_correct gv_def)
  have step: "fold (cancel_step d qi c) [0..<Suc k] rem = ?r[qi + k := ?v]" by (simp add: cancel_step_def)
  have "gv (?r[qi + k := ?v]) p
      = gv rem p - (if qi \<le> p \<and> p < qi + Suc k then gf_of c * gv d (p - qi) else 0)" for p
  proof (cases "p = qi + k")
    case True
    then show ?thesis using i v(2) IH(3) [of "qi + k"] by (simp add: gv_def)
  next
    case False
    then have "gv (?r[qi + k := ?v]) p = gv ?r p" by (simp add: gv_def)
    then show ?thesis using False IH(3) [of p] by auto
  qed
  moreover have "poly_val (?r[qi + k := ?v]) x
      = poly_val rem x - gf_of c * x ^ qi * (\<Sum>j<Suc k. gv d j * x ^ j)" for x
    unfolding poly_val_update [OF i] v(2) IH(4) by (simp add: gv_def algebra_simps power_add)
  ultimately show ?case unfolding step using IH(1,2) v(1) by simp
qed (auto simp: assms)

lemma div_loop:
  assumes "poly_ok p" "length p = Suc n" "poly_ok d" "length d = Suc m" "m \<le> n" "gv d m \<noteq> 0"
    "m \<le> i" "i \<le> Suc n"
  defines "st \<equiv> fold (poly_div_step d m (fp_inv (d ! m))) (rev [i..<Suc n]) (p, replicate (n - m + 1) 0)"
  shows "length (fst st) = Suc n \<and> poly_ok (fst st) \<and> length (snd st) = n - m + 1 \<and> poly_ok (snd st) \<and>
    (\<forall>j. i \<le> j \<longrightarrow> j \<le> n \<longrightarrow> gv (fst st) j = 0) \<and> (\<forall>j < i - m. j < n - m + 1 \<longrightarrow> gv (snd st) j = 0) \<and>
    (\<forall>x. poly_val p x = poly_val (snd st) x * poly_val d x + poly_val (fst st) x)"
  using assms(7,8) unfolding st_def
proof (induction "Suc n - i" arbitrary: i)
  case 0
  then show ?case using assms(1-5) by (simp add: gv_def del: replicate_Suc flip: replicate_Suc)
next
  case (Suc e)
  then have i: "i \<le> n" "Suc n - Suc i = e" by simp_all
  obtain r q where rq: "fold (poly_div_step d m (fp_inv (d ! m))) (rev [Suc i..<Suc n]) (p, replicate (n - m + 1) 0) = (r, q)"
    by fastforce
  have IH: "length r = Suc n" "poly_ok r" "length q = n - m + 1" "poly_ok q"
    "\<And>j. Suc i \<le> j \<Longrightarrow> j \<le> n \<Longrightarrow> gv r j = 0" "\<And>j. j < Suc i - m \<Longrightarrow> j < n - m + 1 \<Longrightarrow> gv q j = 0"
    "\<And>x. poly_val p x = poly_val q x * poly_val d x + poly_val r x"
    using Suc.hyps(1) [of "Suc i"] i Suc.prems rq by auto
  have "rev [i..<Suc n] = rev [Suc i..<Suc n] @ [i]" using i(1) by (simp add: upt_conv_Cons)
  then have st: "fold (poly_div_step d m (fp_inv (d ! m))) (rev [i..<Suc n]) (p, replicate (n - m + 1) 0)
      = poly_div_step d m (fp_inv (d ! m)) i (r, q)"
    by (simp only: fold_append fold.simps comp_apply id_apply rq)
  show ?case
  proof (cases "r ! i = 0")
    case True
    then have "gv r j = 0" if "i \<le> j" "j \<le> n" for j using IH(5) [of j] that by (cases "j = i") (simp_all add: gv_def)
    then show ?thesis unfolding st using IH True by (simp add: poly_div_step_def fp_is_zero_def)
  next
    case False
    let ?c = "fp_mul (r ! i) (fp_inv (d ! m))"
    let ?r = "fold (cancel_step d (i - m) ?c) [0..<Suc m] r"
    have c: "gf_of ?c * gv d m = gv r i" using assms(6) by (simp add: gv_def)
    have "Suc m \<le> length d" "(i - m) + length d \<le> length r" using assms(4) IH(1) i(1) Suc.prems(1) by simp_all
    note C = cancel_loop [OF assms(3) IH(2) fp_ok_mul [of "r ! i" "fp_inv (d ! m)"] this]
    have z: "gv ?r j = 0" if "i \<le> j" "j \<le> n" for j
    proof (cases "j = i")
      case True
      then show ?thesis using C Suc.prems(1) c by (simp del: upt_Suc fold_append)
    next
      case False
      then show ?thesis using C IH(5) [of j] that Suc.prems(1) by (simp del: upt_Suc fold_append)
    qed
    have qi: "i - m < length q" using IH(3) i(1) Suc.prems(1) by simp
    have q0: "gv q (i - m) = 0" using IH(6) [of "i - m"] IH(3) qi Suc.prems(1) by simp
    have dv: "(\<Sum>j<Suc m. gv d j * x ^ j) = poly_val d x" for x
      using assms(4) by (simp add: poly_val_sum gv_def)
    have "poly_val p x = poly_val (q[i - m := ?c]) x * poly_val d x + poly_val ?r x" for x
    proof -
      have "poly_val ?r x = poly_val r x - gf_of ?c * x ^ (i - m) * poly_val d x"
        using C unfolding dv by (simp only: simp_thms)
      moreover have "poly_val (q[i - m := ?c]) x = poly_val q x + gf_of ?c * x ^ (i - m)"
        using q0 unfolding poly_val_update [OF qi] by (simp add: gv_def)
      ultimately show ?thesis unfolding IH(7) by (simp only: algebra_simps)
    qed
    moreover have "gv (q[i - m := ?c]) j = 0" if "j < i - m" "j < n - m + 1" for j
      using IH(6) [of j] that by (simp add: gv_def)
    moreover have "poly_div_step d m (fp_inv (d ! m)) i (r, q) = (?r, q[i - m := ?c])"
      using False by (simp add: poly_div_step_def fp_is_zero_def Let_def)
    ultimately show ?thesis unfolding st using IH(1-4) C z by (simp del: upt_Suc fold_append)
  qed
qed

lemma poly_div_mod_correct:
  assumes "poly_ok p" "poly_ok d" "d \<noteq> []" "p \<noteq> []" "gf_of (last d) \<noteq> 0" "poly_div_mod p d = (q, r)"
  shows "poly_ok q" "poly_ok r" "poly_val p x = poly_val q x * poly_val d x + poly_val r x"
    "length d \<le> length p \<Longrightarrow> length q \<le> max 1 (Suc (length p) - length d)"
    "length d \<le> length p \<Longrightarrow> length r \<le> max 1 (length d - 1)"
    "length p < length d \<Longrightarrow> r = p"
proof -
  define n m where "n = length p - 1" and "m = length d - 1"
  have nm: "length p = Suc n" "length d = Suc m" using assms(3,4) by (simp_all add: n_def m_def)
  have lc: "gv d m \<noteq> 0" using assms(3,5) nm by (simp add: gv_def last_conv_nth)
  have deg: "poly_degree p = n" "poly_degree d = m" by (simp_all add: poly_degree_def nm)
  have d0: "d ! 0 \<noteq> 0" if "m = 0" using lc that by (auto simp: gv_def)
  have "poly_ok q \<and> poly_ok r \<and> poly_val p x = poly_val q x * poly_val d x + poly_val r x \<and>
    (length d \<le> length p \<longrightarrow> length q \<le> max 1 (Suc (length p) - length d) \<and> length r \<le> max 1 (length d - 1)) \<and>
    (length p < length d \<longrightarrow> r = p)"
  proof (cases "n < m")
    case True
    then show ?thesis using assms(1,6) nm by (auto simp: poly_div_mod_def deg poly_zero_def)
  next
    case False
    show ?thesis
    proof (cases "m = 0")
      case True
      then obtain c where c: "d = [c]" using nm by (auto simp: length_Suc_conv)
      have "q = poly_scale p (fp_inv c)" "r = poly_zero"
        using assms(6) d0 [OF True] True c False
        by (simp_all add: poly_div_mod_def poly_degree_def nm Let_def fp_is_zero_def)
      moreover have "gf_of c \<noteq> 0" using assms(5) c by simp
      ultimately show ?thesis using c poly_scale_length [of p "fp_inv c"] nm by (simp add: poly_zero_def)
    next
      case m: False
      obtain rem q' where st: "fold (poly_div_step d m (fp_inv (d ! m))) (rev [m..<Suc n]) (p, replicate (n - m + 1) 0) = (rem, q')"
        by fastforce
      have qr: "q = poly_from_coeffs q'" "r = poly_from_coeffs (take m rem)"
        using assms(6) False m st by (simp_all add: poly_div_mod_def deg Let_def del: upt_Suc)
      have L: "length rem = Suc n" "poly_ok rem" "length q' = n - m + 1" "poly_ok q'"
          "\<And>j. m \<le> j \<Longrightarrow> j \<le> n \<Longrightarrow> gv rem j = 0" "poly_val p x = poly_val q' x * poly_val d x + poly_val rem x"
        using div_loop [OF assms(1) nm(1) assms(2) nm(2) _ lc order_refl, unfolded st fst_conv snd_conv] False
        by simp_all
      have "poly_val rem x = (\<Sum>j<m. gv rem j * x ^ j)"
        unfolding poly_val_sum L(1) gv_def [symmetric]
        by (rule sum.mono_neutral_right) (use L(5) False in auto)
      also have "\<dots> = poly_val (take m rem) x"
        unfolding poly_val_sum using L(1) False by (intro sum.cong) (simp_all add: gv_def)
      finally show ?thesis using L poly_from_coeffs_length [of q'] poly_from_coeffs_length [of "take m rem"] nm False m
        by (auto simp: qr)
    qed
  qed
  then show "poly_ok q" "poly_ok r" "poly_val p x = poly_val q x * poly_val d x + poly_val r x"
    "length d \<le> length p \<Longrightarrow> length q \<le> max 1 (Suc (length p) - length d)"
    "length d \<le> length p \<Longrightarrow> length r \<le> max 1 (length d - 1)"
    "length p < length d \<Longrightarrow> r = p" by simp_all
qed

text \<open>A polynomial that vanishes wherever a product of distinct linear factors does is divided by it
  without remainder.\<close>

lemma exact_division:
  assumes "poly_ok p" "poly_ok d" "d \<noteq> []" "p \<noteq> []" "gf_of (last d) \<noteq> 0" "poly_div_mod p d = (q, r)"
    and "finite S" "length d \<le> Suc (card S)" "S \<noteq> {}" "\<And>s. s \<in> S \<Longrightarrow> poly_val d s = 0" "\<And>s. s \<in> S \<Longrightarrow> poly_val p s = 0"
  shows "poly_val p x = poly_val q x * poly_val d x" "poly_val r x = 0"
proof -
  note D = poly_div_mod_correct [OF assms(1-6)]
  have "0 < card S" using assms(7,9) by (simp add: card_gt_0_iff)
  then have "length r \<le> card S"
    using D(5,6) assms(8) by (cases "length d \<le> length p") auto
  then show "poly_val r x = 0"
  proof (rule too_many_roots [OF D(2) assms(7)])
    show "poly_val r s = 0" if "s \<in> S" for s
      using D(3) [of s] assms(10,11) [OF that] by simp
  qed
  then show "poly_val p x = poly_val q x * poly_val d x" using D(3) [of x] by simp
qed

text \<open>Interpolation returns a polynomial with at most as many coefficients as points that takes
  the given value at every one of them, when the points are different and canonical.\<close>

theorem interpolation_passes_through:
  assumes "list_all fp_ok xs" "list_all fp_ok ys" "length xs < 2 ^ 31" "distinct xs" "length ys = length xs"
    "i < length xs"
  shows "poly_eval (poly_interpolate xs ys) (xs ! i) = ys ! i \<and>
    length (poly_interpolate xs ys) \<le> length xs"
proof -
  note I = poly_interpolate_correct [OF assms(1,3-5)]
  have "gf_of (poly_eval (poly_interpolate xs ys) (xs ! i)) = gf_of (ys ! i)"
    using I(1) I(3) [OF assms(6)] by (simp add: poly_eval_correct)
  moreover have "fp_ok (ys ! i)" using assms(2,5,6) by (simp add: list_all_length)
  moreover have "fp_ok (poly_eval (poly_interpolate xs ys) (xs ! i))" using I(1) by (rule poly_eval_correct)
  ultimately have "poly_eval (poly_interpolate xs ys) (xs ! i) = ys ! i" by (simp only: gf_of_inject)
  then show ?thesis using I(2) assms(6) by simp
qed

lemma interpolation_passes_through_witness:
  "poly_eval (poly_interpolate [3, 5, 7] [10, 20, 40]) 5 = 20"
  using interpolation_passes_through [of "[3, 5, 7]" "[10, 20, 40]" 1] by (simp add: fp_ok_nat)

end
