(* ===== verification/ZkMerkle.thy ===== *)
theory ZkMerkle
  imports Goldilocks
begin

section \<open>Merkle commitments of the proof system\<close>

text \<open>
  \<open>zk/src/merkle.rs\<close>.  The parameter \<open>K\<close> is Keccak-256.  A tree is the list of its layers, the
  leaves first.  An opening is an index, a value and a path of sibling hashes.  Every opening a
  tree produces is accepted under its root; two accepted openings of one index with paths of the
  same length carry the same value, unless two of the hashed messages collide.
\<close>

type_synonym keccak = "u8 list \<Rightarrow> hash"

definition zk_hash_leaf :: "keccak \<Rightarrow> u64 \<Rightarrow> u64 \<Rightarrow> hash" where
  "zk_hash_leaf K index value = K (be_bytes index @ be_bytes value)"

definition zk_hash_node :: "keccak \<Rightarrow> hash \<Rightarrow> hash \<Rightarrow> hash" where
  "zk_hash_node K left right = K (be_bytes left @ be_bytes right)"

record MerkleTree =
  mt_levels :: "hash list list"
  mt_leaf_count :: nat
  mt_root :: hash

text \<open>The layers have even length, or are the root.\<close>

fun zk_hash_pairs :: "keccak \<Rightarrow> hash list \<Rightarrow> hash list" where
  "zk_hash_pairs K (a # b # hs) = zk_hash_node K a b # zk_hash_pairs K hs"
| "zk_hash_pairs K hs = []"

lemma length_zk_hash_pairs [simp]: "length (zk_hash_pairs K hs) = length hs div 2"
  by (induction K hs rule: zk_hash_pairs.induct) simp_all

function zk_merkle_levels :: "keccak \<Rightarrow> hash list \<Rightarrow> hash list list" where
  "zk_merkle_levels K cur =
     (if length cur > 1 then cur # zk_merkle_levels K (zk_hash_pairs K cur) else [cur])"
  by pat_completeness auto
termination by (relation "measure (length \<circ> snd)") auto

declare zk_merkle_levels.simps [simp del]

definition is_power_of_two :: "nat \<Rightarrow> bool" where
  "is_power_of_two n \<longleftrightarrow> n \<in> (\<lambda>k. 2 ^ k) ` {0..<n}"

text \<open>A number of leaves that is not a power of two is an assertion failure.\<close>

definition zk_merkle_new :: "keccak \<Rightarrow> u64 list \<Rightarrow> MerkleTree option" where
  "zk_merkle_new K leaves =
     (if \<not> is_power_of_two (length leaves) then None
      else (let cur = map2 (\<lambda>i v. zk_hash_leaf K (of_nat i) v) [0..<length leaves] leaves;
                levels = zk_merkle_levels K cur
            in Some \<lparr>mt_levels = levels, mt_leaf_count = length leaves, mt_root = hd (last levels)\<rparr>))"

text \<open>The sibling at each layer but the root; an index beyond the layer is a panic.\<close>

fun auth_path_loop :: "hash list list \<Rightarrow> u64 \<Rightarrow> hash list option" where
  "auth_path_loop [] idx = Some []"
| "auth_path_loop (level # levels) idx =
     (let i = unat (xor idx 1)
      in if length level \<le> i then None
         else map_option (\<lambda>path. level ! i # path) (auth_path_loop levels (idx div 2)))"

definition zk_auth_path :: "MerkleTree \<Rightarrow> u64 \<Rightarrow> hash list option" where
  "zk_auth_path t index = auth_path_loop (butlast (mt_levels t)) index"

fun zk_climb :: "keccak \<Rightarrow> hash \<Rightarrow> u64 \<Rightarrow> hash list \<Rightarrow> hash" where
  "zk_climb K h idx [] = h"
| "zk_climb K h idx (sibling # path) =
     zk_climb K (if and idx 1 = 0 then zk_hash_node K h sibling else zk_hash_node K sibling h) (idx div 2) path"

definition zk_merkle_verify :: "keccak \<Rightarrow> u64 \<Rightarrow> u64 \<Rightarrow> hash list \<Rightarrow> hash \<Rightarrow> bool" where
  "zk_merkle_verify K index value path root \<longleftrightarrow> zk_climb K (zk_hash_leaf K index value) index path = root"

subsection \<open>Openings are accepted\<close>

lemma zk_hash_pairs_nth:
  "Suc (2 * i) < length hs \<Longrightarrow> zk_hash_pairs K hs ! i = zk_hash_node K (hs ! (2 * i)) (hs ! Suc (2 * i))"
proof (induction K hs arbitrary: i rule: zk_hash_pairs.induct)
  case (1 K a b hs)
  then show ?case by (cases i) simp_all
qed simp_all

lemma even_u64: "even (unat (w :: u64)) \<longleftrightarrow> even w"
proof -
  have "bit (unat w) 0 \<longleftrightarrow> bit w 0" by (simp only: bit_unsigned_iff) simp
  then show ?thesis by (simp only: bit_0) simp
qed

lemma unat_sibling: "unat (xor (idx :: u64) 1) = (if even (unat idx) then unat idx + 1 else unat idx - 1)"
proof -
  show ?thesis
  proof (cases "even (unat idx)")
    case True
    then have "xor idx 1 = idx + 1" by (simp add: xor_one_eq even_u64)
    moreover have "unat idx + 1 < 2 ^ 64"
      using True unat_word_less [of idx] by (cases "unat idx = 2 ^ 64 - 1") auto
    ultimately show ?thesis using True by (simp add: unat_word_ariths(1))
  next
    case False
    then have "xor idx 1 = idx - 1" by (simp add: xor_one_eq even_u64)
    moreover have "0 < unat idx" using False by (cases "unat idx") auto
    ultimately show ?thesis using False by (simp add: unat_sub word_le_nat_alt)
  qed
qed

lemma and_one_even: "and (idx :: u64) 1 = 0 \<longleftrightarrow> even (unat idx)"
  using even_u64 [of idx] by (simp only: and_one_eq even_iff_mod_2_eq_zero)

lemma zk_merkle_levels_nonempty [simp]: "zk_merkle_levels K cur \<noteq> []"
  by (simp add: zk_merkle_levels.simps)

lemma auth_path_climbs:
  assumes "length cur = 2 ^ m" "unat idx < 2 ^ m"
  shows "\<exists>path. auth_path_loop (butlast (zk_merkle_levels K cur)) idx = Some path \<and> length path = m \<and>
    zk_climb K (cur ! unat idx) idx path = hd (last (zk_merkle_levels K cur))"
  using assms
proof (induction m arbitrary: cur idx)
  case 0
  then obtain h where "cur = [h]" by (auto simp: length_Suc_conv)
  then show ?case using 0 by (simp add: zk_merkle_levels.simps)
next
  case (Suc m)
  let ?next = "zk_hash_pairs K cur"
  have len: "length ?next = 2 ^ m" "1 < length cur"
  proof -
    have "1 * 1 < 2 * (2 :: nat) ^ m" by (rule mult_less_le_imp_less) simp_all
    then show "length ?next = 2 ^ m" "1 < length cur" using Suc.prems(1) by simp_all
  qed
  have half: "unat (idx div 2) = unat idx div 2" by (simp add: unat_div)
  have "unat (idx div 2) < 2 ^ m" using Suc.prems(2) half by simp
  from Suc.IH [OF len(1) this] obtain path where path:
    "auth_path_loop (butlast (zk_merkle_levels K ?next)) (idx div 2) = Some path" "length path = m"
    "zk_climb K (?next ! (unat idx div 2)) (idx div 2) path = hd (last (zk_merkle_levels K ?next))"
    unfolding half by blast
  have sib: "unat (xor idx 1) < length cur"
    using Suc.prems unat_sibling [of idx] by (cases "even (unat idx)") (auto elim: evenE)
  have "?next ! (unat idx div 2) = (if even (unat idx)
      then zk_hash_node K (cur ! unat idx) (cur ! unat (xor idx 1))
      else zk_hash_node K (cur ! unat (xor idx 1)) (cur ! unat idx))"
  proof -
    have "Suc (2 * (unat idx div 2)) < length cur" using Suc.prems by simp presburger
    then show ?thesis using zk_hash_pairs_nth [of "unat idx div 2" cur K] unat_sibling [of idx]
      by (cases "even (unat idx)") simp_all
  qed
  then have "zk_climb K (cur ! unat idx) idx (cur ! unat (xor idx 1) # path)
      = hd (last (zk_merkle_levels K ?next))"
    using path(3) by (simp add: and_one_even)
  moreover have "zk_merkle_levels K cur = cur # zk_merkle_levels K ?next"
    using len(2) by (simp add: zk_merkle_levels.simps [of K cur])
  ultimately show ?case using path(1,2) sib by (simp add: Let_def not_le)
qed

lemma is_power_of_two_power [simp]: "is_power_of_two (2 ^ k)"
  by (auto simp: is_power_of_two_def)

lemma zk_merkle_openings:
  assumes "length leaves = 2 ^ m" "m < 64" "unat i < 2 ^ m"
  shows "\<exists>t path. zk_merkle_new K leaves = Some t \<and> zk_auth_path t i = Some path \<and> length path = m \<and>
    zk_merkle_verify K i (leaves ! unat i) path (mt_root t)"
proof -
  let ?cur = "map2 (\<lambda>i v. zk_hash_leaf K (of_nat i) v) [0..<length leaves] leaves"
  have "length ?cur = 2 ^ m" using assms(1) by simp
  from auth_path_climbs [OF this assms(3)] obtain path where
    "auth_path_loop (butlast (zk_merkle_levels K ?cur)) i = Some path" "length path = m"
    "zk_climb K (?cur ! unat i) i path = hd (last (zk_merkle_levels K ?cur))" by blast
  moreover have "?cur ! unat i = zk_hash_leaf K i (leaves ! unat i)" using assms(1,3) by simp
  ultimately show ?thesis using assms(1)
    by (simp add: zk_merkle_new_def zk_auth_path_def zk_merkle_verify_def Let_def)
qed

subsection \<open>Openings are binding\<close>

text \<open>The messages that are hashed to check an opening.\<close>

fun climb_inputs :: "keccak \<Rightarrow> hash \<Rightarrow> u64 \<Rightarrow> hash list \<Rightarrow> u8 list set" where
  "climb_inputs K h idx [] = {}"
| "climb_inputs K h idx (sibling # path) =
     (let m = (if and idx 1 = 0 then be_bytes h @ be_bytes sibling else be_bytes sibling @ be_bytes h)
      in insert m (climb_inputs K (K m) (idx div 2) path))"

definition opening_inputs :: "keccak \<Rightarrow> u64 \<Rightarrow> u64 \<Rightarrow> hash list \<Rightarrow> u8 list set" where
  "opening_inputs K index value path =
     insert (be_bytes index @ be_bytes value) (climb_inputs K (zk_hash_leaf K index value) index path)"

lemma zk_climb_inj:
  assumes "inj_on K (climb_inputs K h idx p \<union> climb_inputs K h' idx q)" "length p = length q"
    "zk_climb K h idx p = zk_climb K h' idx q"
  shows "h = h'"
  using assms
proof (induction p arbitrary: h h' idx q)
  case (Cons s p)
  then obtain s' q' where q: "q = s' # q'" by (cases q) auto
  let ?m = "\<lambda>h s. if and idx 1 = 0 then be_bytes h @ be_bytes s else be_bytes s @ be_bytes h"
  have node: "zk_climb K h idx (s # p) = zk_climb K (K (?m h s)) (idx div 2) p" for h s p
    by (simp add: zk_hash_node_def)
  have "K (?m h s) = K (?m h' s')"
  proof (rule Cons.IH)
    show "inj_on K (climb_inputs K (K (?m h s)) (idx div 2) p \<union> climb_inputs K (K (?m h' s')) (idx div 2) q')"
      using Cons.prems(1) unfolding q by (rule inj_on_subset) (auto simp: Let_def)
    show "length p = length q'" using Cons.prems(2) q by simp
    show "zk_climb K (K (?m h s)) (idx div 2) p = zk_climb K (K (?m h' s')) (idx div 2) q'"
      using Cons.prems(3) unfolding q node .
  qed
  moreover have "?m h s \<in> climb_inputs K h idx (s # p) \<union> climb_inputs K h' idx q"
    "?m h' s' \<in> climb_inputs K h idx (s # p) \<union> climb_inputs K h' idx q" by (auto simp: q Let_def)
  ultimately have "?m h s = ?m h' s'" by (rule inj_onD [OF Cons.prems(1)])
  then show ?case by (simp split: if_splits)
qed simp

text \<open>Two accepted openings of the same index with paths of the same length carry the same value,
  unless two of the messages hashed for them collide under Keccak.\<close>

theorem opening_binds:
  assumes "zk_merkle_verify K i v p root" "zk_merkle_verify K i v' q root" "length p = length q"
    and "inj_on K (opening_inputs K i v p \<union> opening_inputs K i v' q)"
  shows "v = v'"
proof -
  have "zk_hash_leaf K i v = zk_hash_leaf K i v'"
  proof (rule zk_climb_inj [of K _ i p _ q])
    show "inj_on K (climb_inputs K (zk_hash_leaf K i v) i p \<union> climb_inputs K (zk_hash_leaf K i v') i q)"
      by (rule inj_on_subset [OF assms(4)]) (auto simp: opening_inputs_def)
  qed (use assms(1-3) in \<open>auto simp: zk_merkle_verify_def\<close>)
  then have "be_bytes i @ be_bytes v = be_bytes i @ be_bytes v'"
    unfolding zk_hash_leaf_def by (rule inj_onD [OF assms(4)]) (simp_all add: opening_inputs_def)
  then show ?thesis by simp
qed

text \<open>A function that keeps the last 32 bytes stands for Keccak.\<close>

lemma opening_binds_witness:
  "\<not> zk_merkle_verify (\<lambda>bs. word_of_nat (be_value bs)) 3 8 [] (word_of_nat (be_value (be_bytes (3 :: u64) @ be_bytes (7 :: u64))))"
proof
  let ?K = "\<lambda>bs. word_of_nat (be_value bs) :: hash"
  let ?r = "?K (be_bytes (3 :: u64) @ be_bytes (7 :: u64))"
  assume a: "zk_merkle_verify ?K 3 8 [] ?r"
  have b: "zk_merkle_verify ?K 3 7 [] ?r" by (simp add: zk_merkle_verify_def zk_hash_leaf_def)
  have v: "?K (be_bytes (3 :: u64) @ be_bytes (n :: u64)) = word_of_nat (3 * 2 ^ 64 + unat n)" for n
    by (simp add: be_value_append be_value_be_bytes)
  have "?K (be_bytes (3 :: u64) @ be_bytes (8 :: u64)) \<noteq> ?K (be_bytes (3 :: u64) @ be_bytes (7 :: u64))"
    unfolding v by simp
  then have "inj_on ?K (opening_inputs ?K 3 8 [] \<union> opening_inputs ?K 3 7 [])"
    by (simp add: opening_inputs_def inj_on_def)
  from opening_binds [OF a b refl this] show False by simp
qed

end
