(* ===== verification/Fri.thy ===== *)
theory Fri
  imports Interpolation ZkMerkle
begin

section \<open>The low-degree test\<close>

text \<open>
  \<open>zk/src/fri.rs\<close>: the transcript, the layered commitment to a polynomial and its foldings, the
  prover and the verifier.  A panic of the code is \<open>None\<close>; an \<open>Err\<close> of the verifier is \<open>Inl\<close>
  with its message.  A \<open>usize\<close> of a proof is a \<open>u64\<close>.  The exponent \<open>k\<close> of a domain is positive.

  The first group of results is completeness: for every polynomial of admissible degree and every
  hash function, the prover does not panic and the verifier accepts its proof.  The second shows
  what acceptance does not mean: the verifier ties neither the opened positions to the queried
  points nor the query points to the transcript, so that one made-up leaf passes for every
  position.
\<close>

subsection \<open>Transcript, domain, folding\<close>

type_synonym Transcript = "u8 list"

definition hash_u64 :: "hash \<Rightarrow> u64" where
  "hash_u64 h = ucast (drop_bit 192 h)"

definition transcript_new :: Transcript where
  "transcript_new = []"

definition transcript_absorb :: "u8 list \<Rightarrow> Transcript \<Rightarrow> Transcript" where
  "transcript_absorb bytes st = st @ bytes"

definition squeeze_fp :: "keccak \<Rightarrow> Transcript \<Rightarrow> Fp \<times> Transcript" where
  "squeeze_fp K st =
     (let h = K (st @ replicate 32 0) in (fp_new (hash_u64 h), be_bytes h))"

fun domain_loop :: "Fp \<Rightarrow> nat \<Rightarrow> Fp \<Rightarrow> Fp list" where
  "domain_loop w 0 x = []"
| "domain_loop w (Suc n) x = x # domain_loop w n (fp_mul x w)"

definition fri_domain :: "nat \<Rightarrow> Fp list" where
  "fri_domain k = domain_loop (fp_root_of_unity k) (2 ^ k) 1"

fun even_coeffs :: "'a list \<Rightarrow> 'a list" and odd_coeffs :: "'a list \<Rightarrow> 'a list" where
  "even_coeffs [] = []"
| "even_coeffs (c # cs) = c # odd_coeffs cs"
| "odd_coeffs [] = []"
| "odd_coeffs (c # cs) = even_coeffs cs"

definition even_odd_split :: "Poly \<Rightarrow> Poly \<times> Poly" where
  "even_odd_split f = (poly_from_coeffs (even_coeffs f), poly_from_coeffs (odd_coeffs f))"

definition fri_fold :: "Fp \<Rightarrow> Poly \<Rightarrow> Poly" where
  "fri_fold alpha f = (let (e, o') = even_odd_split f in poly_add e (poly_scale o' alpha))"

record OpenVal =
  ov_index :: u64
  ov_value :: Fp
  ov_path :: "hash list"

type_synonym LayerOpen = "OpenVal \<times> OpenVal \<times> OpenVal"

record FriProof =
  fr_roots :: "hash list"
  fr_final_coeffs :: "Fp list"
  fr_queries :: "LayerOpen list list"
  fr_query_starts :: "Fp list"
  fr_boundary :: "OpenVal option"

record LayerCommit =
  lc_tree :: MerkleTree
  lc_values :: "Fp list"

subsection \<open>The prover\<close>

definition commit_layer :: "keccak \<Rightarrow> Poly \<Rightarrow> nat \<Rightarrow> (LayerCommit \<times> hash) option" where
  "commit_layer K poly k =
     (let values = poly_eval_many poly (fri_domain k)
      in map_option (\<lambda>tree. (\<lparr>lc_tree = tree, lc_values = values\<rparr>, mt_root tree)) (zk_merkle_new K values))"

fun list_position :: "'a \<Rightarrow> 'a list \<Rightarrow> nat option" where
  "list_position x [] = None"
| "list_position x (y # ys) = (if y = x then Some 0 else map_option Suc (list_position x ys))"

definition open_at :: "LayerCommit \<Rightarrow> Fp list \<Rightarrow> Fp \<Rightarrow> OpenVal option" where
  "open_at c dom' x =
     (case list_position x dom' of
        None \<Rightarrow> None
      | Some index \<Rightarrow>
          if length (lc_values c) \<le> index then None
          else map_option (\<lambda>path. \<lparr>ov_index = of_nat index, ov_value = lc_values c ! index, ov_path = path\<rparr>)
                 (zk_auth_path (lc_tree c) (of_nat index)))"

text \<open>The commitment loop: layer \<open>j\<close> on, for \<open>n\<close> more layers.\<close>

fun commit_loop :: "keccak \<Rightarrow> nat \<Rightarrow> nat \<Rightarrow> nat \<Rightarrow> Poly \<Rightarrow> Transcript
    \<Rightarrow> ((LayerCommit list \<times> hash list) \<times> Poly \<times> Transcript) option" where
  "commit_loop K k j 0 cur tr = Some (([], []), cur, tr)"
| "commit_loop K k j (Suc n) cur tr =
     (case commit_layer K cur (k - j) of
        None \<Rightarrow> None
      | Some (c, root) \<Rightarrow>
          (let (alpha, tr) = squeeze_fp K (transcript_absorb (be_bytes root) tr)
           in map_option (\<lambda>((cs, roots), final, tr). ((c # cs, root # roots), final, tr))
                (commit_loop K k (Suc j) n (fri_fold alpha cur) tr)))"

text \<open>The openings of one query, from layer \<open>j\<close> on; \<open>final\<close> is the last polynomial.\<close>

fun query_loop :: "nat \<Rightarrow> nat \<Rightarrow> LayerCommit list \<Rightarrow> Poly \<Rightarrow> Fp \<Rightarrow> LayerOpen list option" where
  "query_loop k j [] final x = Some []"
| "query_loop k j (c # cs) final x =
     (let dj = fri_domain (k - j);
          neg_x = fp_neg x;
          y = fp_mul x x
      in case open_at c dj x of None \<Rightarrow> None
         | Some o1 \<Rightarrow> (case open_at c dj neg_x of None \<Rightarrow> None
         | Some o2 \<Rightarrow> (case (case cs of
               c' # _ \<Rightarrow> open_at c' (fri_domain (k - (j + 1))) y
             | [] \<Rightarrow> Some \<lparr>ov_index = - 1, ov_value = poly_eval final y, ov_path = []\<rparr>) of None \<Rightarrow> None
         | Some o3 \<Rightarrow> map_option (\<lambda>os. (o1, o2, o3) # os) (query_loop k (Suc j) cs final y))))"

text \<open>The starting points of the queries.\<close>

fun query_starts :: "keccak \<Rightarrow> Fp list \<Rightarrow> nat \<Rightarrow> Transcript \<Rightarrow> Fp list" where
  "query_starts K d0 0 tr = []"
| "query_starts K d0 (Suc n) tr =
     (let h = K tr; idx = hash_u64 h; tr = transcript_absorb (be_bytes h) tr
      in d0 ! (unat idx mod length d0) # query_starts K d0 n tr)"

definition fri_prove :: "keccak \<Rightarrow> Poly \<Rightarrow> nat \<Rightarrow> nat \<Rightarrow> Transcript \<Rightarrow> Fp option \<Rightarrow> FriProof option" where
  "fri_prove K f k num_queries tr boundary =
     (let folds = k - 1 in
      case commit_loop K k 0 folds f tr of None \<Rightarrow> None
      | Some ((commits, roots), final, tr) \<Rightarrow>
          (let d0 = fri_domain k; starts = query_starts K d0 num_queries tr in
           case those (map (query_loop k 0 commits final) starts) of None \<Rightarrow> None
           | Some queries \<Rightarrow>
               (case (case boundary of None \<Rightarrow> Some None
                      | Some pt \<Rightarrow> if commits = [] then None else map_option Some (open_at (hd commits) d0 pt)) of
                  None \<Rightarrow> None
                | Some b \<Rightarrow> Some \<lparr>fr_roots = roots, fr_final_coeffs = final, fr_queries = queries,
                     fr_query_starts = starts, fr_boundary = b\<rparr>)))"

subsection \<open>The verifier\<close>

fun squeeze_alphas :: "keccak \<Rightarrow> hash list \<Rightarrow> Transcript \<Rightarrow> Fp list" where
  "squeeze_alphas K [] tr = []"
| "squeeze_alphas K (root # roots) tr =
     (let (alpha, tr) = squeeze_fp K (transcript_absorb (be_bytes root) tr)
      in alpha # squeeze_alphas K roots tr)"

definition open_ok :: "keccak \<Rightarrow> OpenVal \<Rightarrow> hash \<Rightarrow> bool" where
  "open_ok K o' root \<longleftrightarrow> zk_merkle_verify K (ov_index o') (ov_value o') (ov_path o') root"

definition fold_value :: "Fp \<Rightarrow> Fp \<Rightarrow> Fp \<Rightarrow> Fp \<Rightarrow> Fp" where
  "fold_value ox onx alpha x =
     (let two_inv = fp_inv (fp_new 2); sum = fp_add ox onx; diff = fp_sub ox onx
      in fp_add (fp_mul sum two_inv) (fp_mul alpha (fp_mul (fp_mul diff two_inv) (fp_inv x))))"

text \<open>The layers of one query; \<open>qi\<close> and \<open>j\<close> only appear in the messages.\<close>

fun check_layers :: "keccak \<Rightarrow> Fp list \<Rightarrow> nat \<Rightarrow> nat \<Rightarrow> hash list \<Rightarrow> Fp list \<Rightarrow> LayerOpen list \<Rightarrow> Fp \<Rightarrow> string + unit" where
  "check_layers K final qi j (root # roots) (alpha # alphas) ((ox, onx, oy) # opens) x =
     (if \<not> open_ok K ox root
        then Inl (''merkle fail layer '' @ show_nat j @ '' at x (query '' @ show_nat qi @ '')'')
      else if \<not> open_ok K onx root
        then Inl (''merkle fail layer '' @ show_nat j @ '' at -x (query '' @ show_nat qi @ '')'')
      else (let y = fp_mul x x in
        and_then
          (case roots of
             root' # _ \<Rightarrow>
               ensure (open_ok K oy root')
                 (''merkle fail layer '' @ show_nat j @ '' at y (query '' @ show_nat qi @ '')'')
           | [] \<Rightarrow> ensure (poly_eval (poly_from_coeffs final) y = ov_value oy) ''final layer eval mismatch'')
          (\<lambda>_. if fold_value (ov_value ox) (ov_value onx) alpha x \<noteq> ov_value oy
            then Inl (''fold mismatch at query '' @ show_nat qi @ '' layer '' @ show_nat j)
            else check_layers K final qi (Suc j) roots alphas opens y)))"
| "check_layers K final qi j _ _ _ x = Inr ()"

fun check_queries :: "keccak \<Rightarrow> nat \<Rightarrow> Fp list \<Rightarrow> hash list \<Rightarrow> Fp list \<Rightarrow> nat \<Rightarrow> (LayerOpen list \<times> Fp) list \<Rightarrow> string + unit" where
  "check_queries K k final roots alphas qi [] = Inr ()"
| "check_queries K k final roots alphas qi ((opens, x) # qs) =
     (if length opens \<noteq> k - 1 then Inl ''query layer count mismatch''
      else if x \<notin> set (fri_domain k) then Inl ''query start not in domain''
      else and_then (check_layers K final qi 0 roots alphas opens x)
             (\<lambda>_. check_queries K k final roots alphas (Suc qi) qs))"

definition check_boundary :: "keccak \<Rightarrow> FriProof \<Rightarrow> nat \<Rightarrow> (Fp \<times> Fp) option \<Rightarrow> (string + unit) option" where
  "check_boundary K fri k boundary_expected =
     (case boundary_expected of
        None \<Rightarrow> Some (Inr ())
      | Some (pt, expected) \<Rightarrow>
          (case fr_boundary fri of
             None \<Rightarrow> Some (Inl ''boundary open missing'')
           | Some op \<Rightarrow>
               if fr_roots fri = [] then None
               else if \<not> open_ok K op (hd (fr_roots fri)) then Some (Inl ''boundary merkle fail'')
               else if ov_value op \<noteq> expected then Some (Inl ''boundary value mismatch'')
               else if length (fri_domain k) \<le> unat (ov_index op) then None
               else if fri_domain k ! unat (ov_index op) \<noteq> pt then Some (Inl ''boundary point mismatch'')
               else Some (Inr ())))"

definition fri_verify :: "keccak \<Rightarrow> FriProof \<Rightarrow> nat \<Rightarrow> nat \<Rightarrow> Transcript \<Rightarrow> (Fp \<times> Fp) option \<Rightarrow> (string + unit) option" where
  "fri_verify K fri k num_queries tr boundary_expected =
     (let folds = k - 1 in
      if length (fr_roots fri) \<noteq> folds
        then Some (Inl (''expected '' @ show_nat folds @ '' roots, got '' @ show_nat (length (fr_roots fri))))
      else if length (fr_final_coeffs fri) > 2 then Some (Inl ''final layer degree too high'')
      else if length (fr_queries fri) \<noteq> num_queries \<or> length (fr_query_starts fri) \<noteq> num_queries
        then Some (Inl ''query count mismatch'')
      else
        (let alphas = squeeze_alphas K (fr_roots fri) tr in
         case check_queries K k (fr_final_coeffs fri) (fr_roots fri) alphas 0
                (zip (fr_queries fri) (fr_query_starts fri)) of
           Inl e \<Rightarrow> Some (Inl e)
         | Inr _ \<Rightarrow> check_boundary K fri k boundary_expected))"

subsection \<open>The domain\<close>

lemma length_domain_loop [simp]: "length (domain_loop w n x) = n"
  by (induction w n x rule: domain_loop.induct) simp_all

lemma length_fri_domain [simp]: "length (fri_domain k) = 2 ^ k"
  by (simp add: fri_domain_def)

lemma domain_loop_nth:
  "i < n \<Longrightarrow> fp_ok x \<Longrightarrow> fp_ok (domain_loop w n x ! i) \<and> gf_of (domain_loop w n x ! i) = gf_of x * gf_of w ^ i"
proof (induction w n x arbitrary: i rule: domain_loop.induct)
  case (2 w n x)
  then show ?case by (cases i) (simp_all add: mult.assoc)
qed simp

lemma fri_domain_nth:
  "i < 2 ^ k \<Longrightarrow> fp_ok (fri_domain k ! i)" "i < 2 ^ k \<Longrightarrow> gf_of (fri_domain k ! i) = gf_root k ^ i"
  using domain_loop_nth [of i "2 ^ k" 1 "fp_root_of_unity k"] by (simp_all add: fri_domain_def)

lemma in_fri_domain: "x \<in> set (fri_domain k) \<longleftrightarrow> fp_ok x \<and> (\<exists>i<2 ^ k. gf_of x = gf_root k ^ i)"
proof
  assume "x \<in> set (fri_domain k)"
  then show "fp_ok x \<and> (\<exists>i<2 ^ k. gf_of x = gf_root k ^ i)"
    using fri_domain_nth by (auto simp: in_set_conv_nth)
next
  assume "fp_ok x \<and> (\<exists>i<2 ^ k. gf_of x = gf_root k ^ i)"
  then obtain i where i: "fp_ok x" "i < 2 ^ k" "gf_of x = gf_root k ^ i" by blast
  then have "gf_of (fri_domain k ! i) = gf_of x" by (simp add: fri_domain_nth)
  then have "fri_domain k ! i = x" using gf_of_inject [OF fri_domain_nth(1) [OF i(2)] i(1)] by blast
  then show "x \<in> set (fri_domain k)" using i(2) by (metis length_fri_domain nth_mem)
qed

lemma one_in_fri_domain [simp]: "1 \<in> set (fri_domain k)"
  unfolding in_fri_domain by (intro conjI exI [of _ 0]) simp_all

lemma distinct_fri_domain: "k \<le> 32 \<Longrightarrow> distinct (fri_domain k)"
proof -
  assume k: "k \<le> 32"
  have "i = j" if ij: "i < 2 ^ k" "j < 2 ^ k" "fri_domain k ! i = fri_domain k ! j" for i j
  proof (rule inj_onD [OF gf_root_inj [OF k]])
    show "gf_root k ^ i = gf_root k ^ j" using fri_domain_nth(2) [OF ij(1)] fri_domain_nth(2) [OF ij(2)] ij(3) by simp
  qed (use ij in simp_all)
  then show ?thesis unfolding distinct_conv_nth by auto
qed

lemma fri_domain_nonzero: "x \<in> set (fri_domain k) \<Longrightarrow> gf_of x \<noteq> 0"
  by (auto simp: in_fri_domain)

lemma fri_domain_square:
  assumes "Suc k \<le> 32" "x \<in> set (fri_domain (Suc k))"
  shows "fp_mul x x \<in> set (fri_domain k)"
proof -
  obtain i where i: "gf_of x = gf_root (Suc k) ^ i" using assms(2) by (auto simp: in_fri_domain)
  have "gf_of (fp_mul x x) = (gf_root (Suc k) ^ 2) ^ i"
    by (simp add: i power2_eq_square power_mult_distrib)
  also have "\<dots> = gf_root k ^ i" using assms(1) by (simp add: gf_root_Suc)
  also have "\<dots> = gf_root k ^ (i mod 2 ^ k)"
  proof -
    have "gf_root k ^ i = gf_root k ^ (2 ^ k * (i div 2 ^ k) + i mod 2 ^ k)" by simp
    also have "\<dots> = gf_root k ^ (i mod 2 ^ k)"
      using assms(1) gf_root_order [of k] unfolding power_add power_mult by simp
    finally show ?thesis .
  qed
  finally have "gf_of (fp_mul x x) = gf_root k ^ (i mod 2 ^ k)" .
  then show ?thesis unfolding in_fri_domain by (intro conjI exI [of _ "i mod 2 ^ k"]) simp_all
qed

lemma fri_domain_neg:
  assumes "Suc k \<le> 32" "x \<in> set (fri_domain (Suc k))"
  shows "fp_neg x \<in> set (fri_domain (Suc k))"
proof -
  obtain i where i: "fp_ok x" "i < 2 ^ Suc k" "gf_of x = gf_root (Suc k) ^ i"
    using assms(2) by (auto simp: in_fri_domain)
  have h: "gf_root (Suc k) ^ (2 ^ k) = - 1" using assms(1) by (simp add: gf_root_half)
  show ?thesis
  proof (cases "i < 2 ^ k")
    case True
    then have "gf_of (fp_neg x) = gf_root (Suc k) ^ (i + 2 ^ k)"
      using i h by (simp add: fp_neg_correct power_add)
    then show ?thesis using i(1) True unfolding in_fri_domain
      by (intro conjI exI [of _ "i + 2 ^ k"]) (simp_all add: fp_neg_correct)
  next
    case False
    then have "gf_root (Suc k) ^ i = gf_root (Suc k) ^ (i - 2 ^ k) * gf_root (Suc k) ^ (2 ^ k)"
      by (simp flip: power_add)
    then have "gf_of (fp_neg x) = gf_root (Suc k) ^ (i - 2 ^ k)"
      using i h by (simp add: fp_neg_correct)
    then show ?thesis using i False unfolding in_fri_domain
      by (intro conjI exI [of _ "i - 2 ^ k"]) (auto simp: fp_neg_correct)
  qed
qed

subsection \<open>What acceptance does not mean\<close>

text \<open>
  A proof that commits to nothing: every layer root is the hash of one leaf with value \<open>v\<close> at
  \<open>index\<close>, every opening is this leaf with an empty path, every query starts at 1.
\<close>

definition constant_open :: "u64 \<Rightarrow> Fp \<Rightarrow> OpenVal" where
  "constant_open index v = \<lparr>ov_index = index, ov_value = v, ov_path = []\<rparr>"

definition constant_proof :: "keccak \<Rightarrow> nat \<Rightarrow> nat \<Rightarrow> u64 \<Rightarrow> Fp \<Rightarrow> FriProof" where
  "constant_proof K k num_queries index v =
     (let o' = constant_open index v
      in \<lparr>fr_roots = replicate (k - 1) (zk_hash_leaf K index v), fr_final_coeffs = [v],
          fr_queries = replicate num_queries (replicate (k - 1) (o', o', o')),
          fr_query_starts = replicate num_queries 1, fr_boundary = Some o'\<rparr>)"

lemma fold_value_correct:
  assumes "fp_ok a" "fp_ok b"
  shows "fp_ok (fold_value a b alpha x)"
    "gf_of (fold_value a b alpha x)
       = (gf_of a + gf_of b) / 2 + gf_of alpha * ((gf_of a - gf_of b) / 2 / gf_of x)"
proof -
  show "fp_ok (fold_value a b alpha x)" by (simp add: fold_value_def Let_def fp_add_correct)
  show "gf_of (fold_value a b alpha x)
       = (gf_of a + gf_of b) / 2 + gf_of alpha * ((gf_of a - gf_of b) / 2 / gf_of x)"
    unfolding fold_value_def Let_def divide_inverse
    by (simp only: fp_add_correct fp_sub_correct fp_ok_mul gf_of_mul gf_of_inv gf_of_new gf_of_small assms)
qed

lemma fold_value_constant: "fp_ok v \<Longrightarrow> fold_value v v alpha x = v"
proof -
  assume v: "fp_ok v"
  have "gf_of (fold_value v v alpha x) = (gf_of v + gf_of v) / 2"
    unfolding fold_value_correct(2) [OF v v] by (simp only: diff_self div_0 mult_zero_right add_0_right)
  also have "gf_of v + gf_of v = 2 * gf_of v" by (rule mult_2 [symmetric])
  also have "2 * gf_of v / 2 = gf_of v" by (rule nonzero_mult_div_cancel_left) simp
  finally show ?thesis using gf_of_inject [OF fold_value_correct(1) [OF v v] v] by blast
qed

lemma poly_eval_constant: "fp_ok v \<Longrightarrow> poly_eval (poly_from_coeffs [v]) y = v"
  using poly_eval_correct [of "poly_from_coeffs [v]" y] gf_of_inject [of "poly_eval (poly_from_coeffs [v]) y" v]
  by simp

lemma constant_layers:
  assumes "fp_ok v" "length alphas = n"
  shows "check_layers K [v] qi j (replicate n (zk_hash_leaf K index v)) alphas
    (replicate n (constant_open index v, constant_open index v, constant_open index v)) x = Inr ()"
  using assms(2)
proof (induction n arbitrary: alphas j x)
  case (Suc n)
  then obtain a as where "alphas = a # as" "length as = n" by (cases alphas) auto
  moreover have "open_ok K (constant_open index v) (zk_hash_leaf K index v)"
    by (simp add: open_ok_def constant_open_def zk_merkle_verify_def)
  moreover have "ov_value (constant_open index v) = v" by (simp add: constant_open_def)
  ultimately show ?case using Suc.IH [of as "Suc j"]
    by (cases n) (simp_all add: Let_def fold_value_constant poly_eval_constant assms(1))
qed simp

lemma length_squeeze_alphas [simp]: "length (squeeze_alphas K roots tr) = length roots"
  by (induction K roots tr rule: squeeze_alphas.induct) (simp_all split: prod.split)

lemma constant_queries:
  assumes "fp_ok v" "length alphas = k - 1"
  shows "check_queries K k [v] (replicate (k - 1) (zk_hash_leaf K index v)) alphas qi
    (zip (replicate n (replicate (k - 1) (constant_open index v, constant_open index v, constant_open index v)))
         (replicate n 1)) = Inr ()"
  by (induction n arbitrary: qi) (simp_all add: constant_layers [OF assms, simplified])

lemma constant_proof_verify:
  assumes "fp_ok v"
  shows "fri_verify K (constant_proof K k n index v) k n tr b = check_boundary K (constant_proof K k n index v) k b"
  using constant_queries [OF assms] by (simp add: fri_verify_def constant_proof_def Let_def)

lemma constant_boundary:
  assumes "1 < k"
  shows "check_boundary K (constant_proof K k n index v) k (Some (pt, v)) =
    (if 2 ^ k \<le> unat index then None
     else if fri_domain k ! unat index \<noteq> pt then Some (Inl ''boundary point mismatch'') else Some (Inr ()))"
proof -
  have "open_ok K (constant_open index v) (zk_hash_leaf K index v)"
    by (simp add: open_ok_def constant_open_def zk_merkle_verify_def)
  moreover obtain m where "k - 1 = Suc m" using assms by (cases "k - 1") auto
  ultimately show ?thesis
    by (simp add: check_boundary_def constant_proof_def Let_def) (simp add: constant_open_def)
qed

subsection \<open>Folding halves the degree\<close>

lemma even_odd_coeffs:
  "poly_val f x = poly_val (even_coeffs f) (x * x) + x * poly_val (odd_coeffs f) (x * x)"
  "length (even_coeffs f) = (length f + 1) div 2" "length (odd_coeffs f) = length f div 2"
  "poly_ok f \<Longrightarrow> poly_ok (even_coeffs f)" "poly_ok f \<Longrightarrow> poly_ok (odd_coeffs f)"
  by (induction f) (simp_all add: algebra_simps)

lemma fri_fold_correct:
  assumes "poly_ok f"
  shows "poly_ok (fri_fold alpha f)" "length (fri_fold alpha f) \<le> max 1 ((length f + 1) div 2)"
    "poly_val (fri_fold alpha f) y = poly_val (even_coeffs f) y + gf_of alpha * poly_val (odd_coeffs f) y"
proof -
  note ok = even_odd_coeffs(4,5) [OF assms]
  show "poly_ok (fri_fold alpha f)"
    "poly_val (fri_fold alpha f) y = poly_val (even_coeffs f) y + gf_of alpha * poly_val (odd_coeffs f) y"
    using ok by (simp_all add: fri_fold_def even_odd_split_def)
  have "length (poly_from_coeffs (even_coeffs f)) \<le> max 1 ((length f + 1) div 2)"
    using poly_from_coeffs_length [of "even_coeffs f"] by (simp only: even_odd_coeffs(2))
  moreover have "length (poly_from_coeffs (odd_coeffs f)) \<le> max 1 (length f div 2)"
    using poly_from_coeffs_length [of "odd_coeffs f"] by (simp only: even_odd_coeffs(3))
  moreover have "length (poly_scale (poly_from_coeffs (odd_coeffs f)) alpha)
      \<le> max 1 (length (poly_from_coeffs (odd_coeffs f)))" by (rule poly_scale_length)
  moreover have "length (fri_fold alpha f) \<le> max 1 (max (length (poly_from_coeffs (even_coeffs f)))
      (length (poly_scale (poly_from_coeffs (odd_coeffs f)) alpha)))"
    unfolding fri_fold_def even_odd_split_def Let_def prod.case by (rule poly_add_length)
  ultimately show "length (fri_fold alpha f) \<le> max 1 ((length f + 1) div 2)" by linarith
qed

lemma fold_value_folds:
  assumes "poly_ok f" "fp_ok x" "gf_of x \<noteq> 0"
  shows "fold_value (poly_eval f x) (poly_eval f (fp_neg x)) alpha x = poly_eval (fri_fold alpha f) (fp_mul x x)"
proof -
  let ?E = "poly_val (even_coeffs f) (gf_of x * gf_of x)" and ?O = "poly_val (odd_coeffs f) (gf_of x * gf_of x)"
  note ev = poly_eval_correct [OF assms(1)]
  have p: "poly_val f (gf_of x) = ?E + gf_of x * ?O" by (rule even_odd_coeffs(1))
  have n: "poly_val f (- gf_of x) = ?E - gf_of x * ?O"
    using even_odd_coeffs(1) [of f "- gf_of x"] by (simp only: minus_mult_minus mult_minus_left) simp
  have s: "(?E + gf_of x * ?O + (?E - gf_of x * ?O)) / 2 = ?E"
  proof -
    have "?E + gf_of x * ?O + (?E - gf_of x * ?O) = 2 * ?E" by (simp only: mult_2) simp
    then show ?thesis by (simp only: nonzero_mult_div_cancel_left gf_two_nonzero not_False_eq_True)
  qed
  have d: "(?E + gf_of x * ?O - (?E - gf_of x * ?O)) / 2 / gf_of x = ?O"
  proof -
    have "?E + gf_of x * ?O - (?E - gf_of x * ?O) = 2 * (gf_of x * ?O)" by (simp only: mult_2) simp
    then show ?thesis
      by (simp only: nonzero_mult_div_cancel_left gf_two_nonzero assms(3) not_False_eq_True)
  qed
  have "gf_of (fold_value (poly_eval f x) (poly_eval f (fp_neg x)) alpha x) = ?E + gf_of alpha * ?O"
    unfolding fold_value_correct(2) [OF ev(1) ev(1)] ev(2) fp_neg_correct(2) [OF assms(2)] p n s d ..
  also have "\<dots> = gf_of (poly_eval (fri_fold alpha f) (fp_mul x x))"
    unfolding poly_eval_correct(2) [OF fri_fold_correct(1) [OF assms(1)]] fri_fold_correct(3) [OF assms(1)] gf_of_mul ..
  finally show ?thesis
    using gf_of_inject [OF fold_value_correct(1) [OF ev(1) ev(1)] poly_eval_correct(1) [OF fri_fold_correct(1) [OF assms(1)]]]
    by blast
qed

subsection \<open>Completeness\<close>

lemma list_position_Some: "x \<in> set xs \<Longrightarrow> \<exists>i<length xs. list_position x xs = Some i \<and> xs ! i = x"
proof (induction xs)
  case (Cons y ys)
  then show ?case by (cases "y = x") (auto intro: exI [of _ 0])
qed simp

definition opens_to :: "keccak \<Rightarrow> nat \<Rightarrow> OpenVal \<Rightarrow> hash \<Rightarrow> Fp \<Rightarrow> Fp \<Rightarrow> bool" where
  "opens_to K k o' root x v \<longleftrightarrow> open_ok K o' root \<and> ov_value o' = v \<and>
     unat (ov_index o') < 2 ^ k \<and> fri_domain k ! unat (ov_index o') = x"

lemma commit_layer_opens:
  assumes "k \<le> 32"
  shows "\<exists>c root. commit_layer K f k = Some (c, root) \<and>
    (\<forall>x \<in> set (fri_domain k). \<exists>o'. open_at c (fri_domain k) x = Some o' \<and> opens_to K k o' root x (poly_eval f x))"
proof -
  let ?v = "poly_eval_many f (fri_domain k)"
  have len: "length ?v = 2 ^ k" "k < 64" using assms by (simp_all add: poly_eval_many_def)
  have "\<exists>t. zk_merkle_new K ?v = Some t" using zk_merkle_openings [OF len, of 0 K] by auto
  then obtain t where t: "zk_merkle_new K ?v = Some t" by blast
  let ?c = "\<lparr>lc_tree = t, lc_values = ?v\<rparr>"
  have "\<exists>o'. open_at ?c (fri_domain k) x = Some o' \<and> opens_to K k o' (mt_root t) x (poly_eval f x)"
    if x: "x \<in> set (fri_domain k)" for x
  proof -
    obtain i where i: "i < 2 ^ k" "list_position x (fri_domain k) = Some i" "fri_domain k ! i = x"
      using list_position_Some [OF x] by auto
    have "(2 :: nat) ^ k \<le> 2 ^ 32" using assms by (intro power_increasing) simp_all
    then have u: "unat (of_nat i :: u64) = i" using i(1) by (simp add: unsigned_of_nat take_bit_nat_eq_self)
    obtain path where p: "zk_auth_path t (of_nat i) = Some path"
        "zk_merkle_verify K (of_nat i) (?v ! i) path (mt_root t)"
      using zk_merkle_openings [OF len, of "of_nat i" K] i(1) t by (auto simp: u)
    have "?v ! i = poly_eval f x" using i by (simp add: poly_eval_many_def)
    then show ?thesis using i p by (simp add: open_at_def opens_to_def open_ok_def u len)
  qed
  then show ?thesis using t by (simp add: commit_layer_def)
qed

lemma fri_layers:
  assumes "k \<le> 32" "k - j = Suc n" "poly_ok cur" "length cur \<le> 2 ^ Suc n"
  shows "\<exists>cs roots final tr'. commit_loop K k j n cur tr = Some ((cs, roots), final, tr') \<and>
    length cs = n \<and> length roots = n \<and> poly_ok final \<and> length final \<le> 2 \<and> (n = 0 \<longrightarrow> final = cur) \<and>
    (\<forall>x \<in> set (fri_domain (Suc n)).
      (\<exists>os. query_loop k j cs final x = Some os \<and> length os = n \<and>
        (\<forall>qi. check_layers K final qi j roots (squeeze_alphas K roots tr) os x = Inr ())) \<and>
      (n \<noteq> 0 \<longrightarrow> (\<exists>o'. open_at (hd cs) (fri_domain (Suc n)) x = Some o' \<and>
        opens_to K (Suc n) o' (hd roots) x (poly_eval cur x))))"
  using assms
proof (induction n arbitrary: j cur tr)
  case (Suc n)
  let ?k = "Suc (Suc n)"
  have kj: "k - j = ?k" "k - Suc j = Suc n" "?k \<le> 32" using Suc.prems by simp_all
  obtain c root where c: "commit_layer K cur ?k = Some (c, root)"
      "\<And>x. x \<in> set (fri_domain ?k) \<Longrightarrow>
        \<exists>o'. open_at c (fri_domain ?k) x = Some o' \<and> opens_to K ?k o' root x (poly_eval cur x)"
    using commit_layer_opens [OF kj(3), of K cur] by blast
  obtain alpha tr1 where sq: "squeeze_fp K (transcript_absorb (be_bytes root) tr) = (alpha, tr1)" by fastforce
  let ?next = "fri_fold alpha cur"
  have nxt: "poly_ok ?next" "length ?next \<le> 2 ^ Suc n"
  proof -
    show "poly_ok ?next" using Suc.prems(3) by (rule fri_fold_correct)
    have "(length cur + 1) div 2 \<le> 2 ^ Suc n" using Suc.prems(4) by simp
    moreover have "(1 :: nat) \<le> 2 ^ Suc n" by (rule one_le_power) simp
    ultimately show "length ?next \<le> 2 ^ Suc n" using fri_fold_correct(2) [OF Suc.prems(3), of alpha] by linarith
  qed
  obtain cs roots final tr' where IH: "commit_loop K k (Suc j) n ?next tr1 = Some ((cs, roots), final, tr')"
      "length cs = n" "length roots = n" "poly_ok final" "length final \<le> 2" "n = 0 \<longrightarrow> final = ?next"
      "\<And>y. y \<in> set (fri_domain (Suc n)) \<Longrightarrow> \<exists>os. query_loop k (Suc j) cs final y = Some os \<and> length os = n \<and>
        (\<forall>qi. check_layers K final qi (Suc j) roots (squeeze_alphas K roots tr1) os y = Inr ())"
      "\<And>y. y \<in> set (fri_domain (Suc n)) \<Longrightarrow> n \<noteq> 0 \<Longrightarrow> \<exists>o'. open_at (hd cs) (fri_domain (Suc n)) y = Some o' \<and>
        opens_to K (Suc n) o' (hd roots) y (poly_eval ?next y)"
    using Suc.IH [OF Suc.prems(1) kj(2) nxt, of tr1] by blast
  have "\<exists>os. query_loop k j (c # cs) final x = Some os \<and> length os = Suc n \<and>
      (\<forall>qi. check_layers K final qi j (root # roots) (squeeze_alphas K (root # roots) tr) os x = Inr ())"
    if x: "x \<in> set (fri_domain ?k)" for x
  proof -
    let ?y = "fp_mul x x"
    have y: "?y \<in> set (fri_domain (Suc n))" by (rule fri_domain_square [OF kj(3) x])
    obtain o1 where o1: "open_at c (fri_domain ?k) x = Some o1" "opens_to K ?k o1 root x (poly_eval cur x)"
      using c(2) [OF x] by blast
    obtain o2 where o2: "open_at c (fri_domain ?k) (fp_neg x) = Some o2"
        "opens_to K ?k o2 root (fp_neg x) (poly_eval cur (fp_neg x))"
      using c(2) [OF fri_domain_neg [OF kj(3) x]] by blast
    obtain os where os: "query_loop k (Suc j) cs final ?y = Some os" "length os = n"
        "\<And>qi. check_layers K final qi (Suc j) roots (squeeze_alphas K roots tr1) os ?y = Inr ()"
      using IH(7) [OF y] by blast
    have fp: "fp_ok x" "gf_of x \<noteq> 0" using x fri_domain_nonzero by (auto simp: in_fri_domain)
    note fold = fold_value_folds [OF Suc.prems(3) fp, of alpha]
    show ?thesis
    proof (cases n)
      case 0
      then have e: "cs = []" "roots = []" "final = ?next" using IH by simp_all
      have "poly_eval (poly_from_coeffs ?next) ?y = poly_eval ?next ?y"
        using poly_eval_correct [OF nxt(1), of ?y] poly_eval_correct [of "poly_from_coeffs ?next" ?y] nxt(1)
          gf_of_inject [of "poly_eval (poly_from_coeffs ?next) ?y" "poly_eval ?next ?y"] by simp
      then show ?thesis using o1 o2 os fold sq
        by (simp add: kj e Let_def opens_to_def 0)
    next
      case (Suc m)
      then obtain c' cs' r' roots' where e: "cs = c' # cs'" "roots = r' # roots'"
        using IH(2,3) by (cases cs; cases roots) auto
      obtain o3 where o3: "open_at c' (fri_domain (Suc n)) ?y = Some o3"
          "opens_to K (Suc n) o3 r' ?y (poly_eval ?next ?y)"
        using IH(8) [OF y] Suc by (auto simp: e)
      have "query_loop k j (c # cs) final x = Some ((o1, o2, o3) # os)"
        using o1(1) o2(1) o3(1) os(1) by (simp add: kj e Let_def)
      moreover have "check_layers K final qi j (root # roots) (alpha # squeeze_alphas K roots tr1) ((o1, o2, o3) # os) x = Inr ()"
        for qi using o1(2) o2(2) o3(2) os(3) [of qi] fold by (simp add: e Let_def opens_to_def)
      ultimately show ?thesis using os(2) sq by simp
    qed
  qed
  moreover have "commit_loop K k j (Suc n) cur tr = Some ((c # cs, root # roots), final, tr')"
    using c(1) IH(1) sq by (simp add: kj)
  ultimately show ?case using IH(2-5) c(2) by (intro exI [of _ "c # cs"] exI [of _ "root # roots"] exI [of _ final]) auto
qed simp

lemma those_map_all:
  "(\<And>x. x \<in> set xs \<Longrightarrow> \<exists>y. f x = Some y \<and> P x y) \<Longrightarrow> \<exists>ys. those (map f xs) = Some ys \<and> list_all2 P xs ys"
proof (induction xs)
  case (Cons x xs)
  then obtain y ys where "f x = Some y" "P x y" "those (map f xs) = Some ys" "list_all2 P xs ys"
    by (metis list.set_intros)
  then show ?case by auto
qed simp

lemma query_starts_domain:
  "d0 \<noteq> [] \<Longrightarrow> x \<in> set (query_starts K d0 n tr) \<Longrightarrow> x \<in> set d0"
  by (induction K d0 n tr rule: query_starts.induct) (auto simp: Let_def)

lemma length_query_starts [simp]: "length (query_starts K d0 n tr) = n"
  by (induction K d0 n tr rule: query_starts.induct) (simp_all add: Let_def)

lemma check_queries_all:
  "list_all2 (\<lambda>x os. length os = k - 1 \<and> x \<in> set (fri_domain k) \<and>
      (\<forall>qi. check_layers K final qi 0 roots alphas os x = Inr ())) xs oss \<Longrightarrow>
    check_queries K k final roots alphas qi (zip oss xs) = Inr ()"
  by (induction arbitrary: qi rule: list_all2_induct) simp_all

text \<open>The claim about the boundary that goes with a point to open.\<close>

definition boundary_claim :: "Poly \<Rightarrow> Fp option \<Rightarrow> (Fp \<times> Fp) option" where
  "boundary_claim f b = map_option (\<lambda>pt. (pt, poly_eval f pt)) b"

lemma fri_prove_verify:
  assumes "poly_ok f" "length f \<le> 2 ^ k" "0 < k" "k \<le> 32" "b \<noteq> None \<longrightarrow> 1 < k"
    "\<And>pt. b = Some pt \<Longrightarrow> pt \<in> set (fri_domain k)"
  shows "\<exists>\<pi>. fri_prove K f k n tr b = Some \<pi> \<and> fri_verify K \<pi> k n tr (boundary_claim f b) = Some (Inr ())"
proof -
  obtain m where m: "k = Suc m" using assms(3) by (cases k) auto
  obtain cs roots final tr' where L: "commit_loop K k 0 m f tr = Some ((cs, roots), final, tr')"
      "length cs = m" "length roots = m" "poly_ok final" "length final \<le> 2"
      "\<And>x. x \<in> set (fri_domain k) \<Longrightarrow> \<exists>os. query_loop k 0 cs final x = Some os \<and> length os = m \<and>
        (\<forall>qi. check_layers K final qi 0 roots (squeeze_alphas K roots tr) os x = Inr ())"
      "\<And>x. x \<in> set (fri_domain k) \<Longrightarrow> m \<noteq> 0 \<Longrightarrow> \<exists>o'. open_at (hd cs) (fri_domain k) x = Some o' \<and>
        opens_to K k o' (hd roots) x (poly_eval f x)"
    using fri_layers [of k 0 m f K tr] assms(1,2,4) m by auto
  let ?starts = "query_starts K (fri_domain k) n tr'"
  have ne: "fri_domain k \<noteq> []" using one_in_fri_domain [of k] by (metis empty_iff empty_set)
  let ?P = "\<lambda>x os. length os = k - 1 \<and> x \<in> set (fri_domain k) \<and>
        (\<forall>qi. check_layers K final qi 0 roots (squeeze_alphas K roots tr) os x = Inr ())"
  have "\<exists>os. query_loop k 0 cs final x = Some os \<and> ?P x os" if "x \<in> set ?starts" for x
    using L(6) [OF query_starts_domain [OF ne that]] query_starts_domain [OF ne that] m by simp
  then have "\<exists>oss. those (map (query_loop k 0 cs final) ?starts) = Some oss \<and> list_all2 ?P ?starts oss"
    by (rule those_map_all)
  then obtain oss where oss: "those (map (query_loop k 0 cs final) ?starts) = Some oss" "list_all2 ?P ?starts oss"
    by blast
  have q: "check_queries K k final roots (squeeze_alphas K roots tr) 0 (zip oss ?starts) = Inr ()"
    by (rule check_queries_all [OF oss(2)])
  have len: "length oss = n" using list_all2_lengthD [OF oss(2)] by simp
  show ?thesis
  proof (cases b)
    case None
    then show ?thesis using L(1-5) oss(1) q len m
      by (simp add: fri_prove_def fri_verify_def Let_def boundary_claim_def check_boundary_def)
  next
    case (Some pt)
    then have m0: "m \<noteq> 0" and pt: "pt \<in> set (fri_domain k)" using assms(5,6) m by auto
    obtain o' where o': "open_at (hd cs) (fri_domain k) pt = Some o'" "opens_to K k o' (hd roots) pt (poly_eval f pt)"
      using L(7) [OF pt m0] by blast
    have "cs \<noteq> []" "roots \<noteq> []" using L(2,3) m0 by auto
    then show ?thesis using L(1-5) oss(1) q len m o' Some
      by (simp add: fri_prove_def fri_verify_def Let_def boundary_claim_def check_boundary_def opens_to_def)
  qed
qed

text \<open>The low-degree test is complete: for every hash function, every polynomial with at most
  2 to the power of k coefficients and every point of the domain to open, the prover does not panic and the
  verifier accepts its proof together with the value of the polynomial at the opened point.\<close>

theorem fri_complete:
  assumes "poly_ok f" "length f \<le> 2 ^ k" "1 < k" "k \<le> 32" "pt \<in> set (fri_domain k)"
  shows "\<exists>\<pi>. fri_prove K f k n tr (Some pt) = Some \<pi> \<and>
    fri_verify K \<pi> k n tr (Some (pt, poly_eval f pt)) = Some (Inr ())"
  using fri_prove_verify [of f k "Some pt" K n tr] assms by (simp add: boundary_claim_def)

lemma fri_complete_witness:
  "\<exists>\<pi>. fri_prove (\<lambda>_. 0) [1, 2, 3] 3 5 [] (Some 1) = Some \<pi> \<and>
    fri_verify (\<lambda>_. 0) \<pi> 3 5 [] (Some (1, poly_eval [1, 2, 3] 1)) = Some (Inr ())"
  by (rule fri_complete) (simp_all add: poly_ok_def fp_ok_nat)

text \<open>Acceptance does not bound the degree of anything: for every hash function, every claimed value
  at every point of the domain is accepted with the constant proof, which commits to one
  leaf; and a proof whose boundary index lies outside the domain makes the verifier panic.\<close>

theorem fri_accepts_any_value:
  assumes "fp_ok v" "1 < k" "k < 64"
  shows "(\<forall>i < 2 ^ k. fri_verify K (constant_proof K k n (of_nat i) v) k n tr (Some (fri_domain k ! i, v)) = Some (Inr ())) \<and>
    fri_verify K (constant_proof K k n (- 1) v) k n tr (Some (pt, v)) = None"
proof (intro conjI allI impI)
  fix i :: nat assume i: "i < 2 ^ k"
  have "(2 :: nat) ^ k \<le> 2 ^ 63" using assms(3) by (intro power_increasing) simp_all
  then have "unat (of_nat i :: u64) = i" using i by (simp add: unsigned_of_nat take_bit_nat_eq_self)
  then show "fri_verify K (constant_proof K k n (of_nat i) v) k n tr (Some (fri_domain k ! i, v)) = Some (Inr ())"
    using i by (simp add: constant_proof_verify [OF assms(1)] constant_boundary [OF assms(2)])
next
  have "(2 :: nat) ^ k \<le> 2 ^ 63" using assms(3) by (intro power_increasing) simp_all
  then show "fri_verify K (constant_proof K k n (- 1) v) k n tr (Some (pt, v)) = None"
    by (simp add: constant_proof_verify [OF assms(1)] constant_boundary [OF assms(2)] unat_max_word)
qed

lemma fri_accepts_any_value_witness:
  "fri_verify (\<lambda>_. 0) (constant_proof (\<lambda>_. 0) 9 16 (- 1) 7) 9 16 [] (Some (1, 7)) = None"
  using fri_accepts_any_value [of 7 9 "\<lambda>_. 0" 16 "[]" 1] by (simp add: fp_ok_nat)

end
