(* ===== verification/Stark.thy ===== *)
theory Stark
  imports Fri
begin

section \<open>Proofs of computations: the square chain and the tower\<close>

text \<open>
  \<open>zk/src/stark.rs\<close> and \<open>zk/src/tower.rs\<close>.  A trace is interpolated over the roots of unity, the
  constraint polynomial of its transitions is divided by the polynomial that vanishes on all rows
  but the last, and both the trace and the quotient are run through the low-degree test.  The
  verifier checks the quotient equation at one challenge point.  \<open>TowerProof\<close> has the fields of
  \<open>DemoProof\<close>, and the two \<open>derive_challenge\<close> are the same function.

  Both provers are complete.  For the tower also the converse fails: the three values opened at the
  challenge are not tied to the commitments, so that any claimed result has an accepted proof.
\<close>

subsection \<open>The proof and its challenge\<close>

record DemoProof =
  dp_trace_fri :: FriProof
  dp_quotient_fri :: FriProof
  dp_challenge :: Fp
  dp_opens :: "Fp \<times> Fp \<times> Fp"

type_synonym TowerProof = DemoProof

definition derive_challenge :: "keccak \<Rightarrow> DemoProof \<Rightarrow> Fp" where
  "derive_challenge K proof' =
     (let buf = concat (map be_bytes (fr_roots (dp_trace_fri proof')))
              @ concat (map be_bytes (fr_roots (dp_quotient_fri proof')))
              @ concat (map be_bytes (fr_final_coeffs (dp_trace_fri proof')))
              @ concat (map be_bytes (fr_final_coeffs (dp_quotient_fri proof')))
      in fp_new (hash_u64 (K buf)))"

subsection \<open>The square chain\<close>

fun square_trace :: "Fp \<Rightarrow> nat \<Rightarrow> Fp \<Rightarrow> Fp list" where
  "square_trace c 0 a = [a]"
| "square_trace c (Suc n) a = a # square_trace c n (fp_add (fp_mul a a) c)"

definition square_vanishing :: "nat \<Rightarrow> Poly" where
  "square_vanishing n_log2 =
     fold (\<lambda>i z. poly_mul z (linear_factor (fp_pow (fp_root_of_unity n_log2) (of_nat i))))
       [0..<2 ^ n_log2 - 1] (poly_from_coeffs [1])"

definition prove_square_chain :: "keccak \<Rightarrow> u64 \<Rightarrow> u64 \<Rightarrow> nat \<Rightarrow> nat \<Rightarrow> DemoProof option" where
  "prove_square_chain K secret_a c n_log2 num_queries =
     (let n = 2 ^ n_log2;
          trace = square_trace (fp_new c) (n - 1) (fp_new secret_a);
          d = fri_domain n_log2;
          t = poly_interpolate d trace;
          w = fp_root_of_unity n_log2;
          shifted = poly_scale_var t w;
          t_sq = poly_mul t t;
          c_poly = poly_sub (poly_sub shifted t_sq) (poly_constant (fp_new c));
          z = square_vanishing n_log2;
          (q, rem) = poly_div_mod c_poly z;
          boundary_pt = fp_pow w (of_nat (n - 1))
      in case fri_prove K t n_log2 num_queries transcript_new (Some boundary_pt) of None \<Rightarrow> None
         | Some trace_fri \<Rightarrow> (case fri_prove K q n_log2 num_queries transcript_new None of None \<Rightarrow> None
         | Some quotient_fri \<Rightarrow>
             (let proof' = \<lparr>dp_trace_fri = trace_fri, dp_quotient_fri = quotient_fri, dp_challenge = 0, dp_opens = (0, 0, 0)\<rparr>;
                  chi = derive_challenge K proof'
              in Some (proof'\<lparr>dp_challenge := chi,
                   dp_opens := (poly_eval t chi, poly_eval t (fp_mul w chi), poly_eval q chi)\<rparr>))))"

definition verify_square_chain :: "keccak \<Rightarrow> DemoProof \<Rightarrow> u64 \<Rightarrow> u64 \<Rightarrow> nat \<Rightarrow> nat \<Rightarrow> (string + unit) option" where
  "verify_square_chain K proof' c b n_log2 num_queries =
     (let boundary_pt = fp_pow (fp_root_of_unity n_log2) (of_nat (2 ^ n_log2 - 1)) in
      case fri_verify K (dp_trace_fri proof') n_log2 num_queries transcript_new (Some (boundary_pt, fp_new b)) of
        None \<Rightarrow> None
      | Some (Inl e) \<Rightarrow> Some (Inl e)
      | Some (Inr _) \<Rightarrow>
     (case fri_verify K (dp_quotient_fri proof') n_log2 num_queries transcript_new None of
        None \<Rightarrow> None
      | Some (Inl e) \<Rightarrow> Some (Inl e)
      | Some (Inr _) \<Rightarrow>
     (let chi = derive_challenge K proof' in
      if chi \<noteq> dp_challenge proof' then Some (Inl ''challenge mismatch'')
      else (let (t_chi, t_wchi, q_chi) = dp_opens proof';
                w = fp_root_of_unity n_log2;
                z_chi = fold (\<lambda>i z. fp_mul z (fp_sub chi (fp_pow w (of_nat i)))) [0..<2 ^ n_log2 - 1] 1;
                rhs = fp_sub (fp_sub t_wchi (fp_mul t_chi t_chi)) (fp_new c)
            in if fp_mul q_chi z_chi \<noteq> rhs then Some (Inl ''constraint check failed'') else Some (Inr ())))))"

definition public_b :: "u64 \<Rightarrow> u64 \<Rightarrow> nat \<Rightarrow> u64" where
  "public_b secret_a c n_log2 =
     fold (\<lambda>_ t. fp_add (fp_mul t t) (fp_new c)) [1..<2 ^ n_log2] (fp_new secret_a)"

subsection \<open>The tower\<close>

definition TOWER_LOG2 :: nat where "TOWER_LOG2 = 7"

definition TOWER_ROWS :: nat where "TOWER_ROWS = 2 ^ TOWER_LOG2"

definition TOWER_LAYERS :: nat where "TOWER_LAYERS = TOWER_ROWS - 1"

definition difficulty_poly :: "u64 \<Rightarrow> u64 \<Rightarrow> u64 \<Rightarrow> Poly" where
  "difficulty_poly a b c = poly_from_coeffs [fp_new c, fp_new b, fp_new a]"

text \<open>The power after layer \<open>i\<close>, from the power before it.\<close>

definition tower_step :: "Fp \<Rightarrow> Poly \<Rightarrow> nat \<Rightarrow> Fp \<Rightarrow> Fp" where
  "tower_step g d i p =
     (let di = poly_eval d (fp_pow (fp_root_of_unity TOWER_LOG2) (of_nat i))
      in fp_sub (fp_mul p g) (fp_mul di (fp_new 1000)))"

definition simulate_tower :: "u64 \<Rightarrow> u64 \<Rightarrow> u64 \<Rightarrow> u64 \<Rightarrow> u64 \<Rightarrow> nat \<Rightarrow> u64" where
  "simulate_tower initial_power growth_permille a b c layers =
     fold (tower_step (fp_new (1000 + growth_permille)) (difficulty_poly a b c)) [0..<layers]
       (fp_new (saturating_mul initial_power 1000))"

fun tower_trace :: "Fp \<Rightarrow> Poly \<Rightarrow> nat \<Rightarrow> nat \<Rightarrow> Fp \<Rightarrow> Fp list" where
  "tower_trace g d i 0 p = [p]"
| "tower_trace g d i (Suc n) p = p # tower_trace g d (Suc i) n (tower_step g d i p)"

text \<open>\<open>Fp::new(-1i64 as u64)\<close> is the element 2 to the power of 32 minus 2, and not -1; the quotient by
  the linear factor does not depend on the constant.\<close>

definition tower_vanishing :: Poly where
  "tower_vanishing =
     (let x_rows = poly_from_coeffs (replicate TOWER_ROWS 0 @ [1]);
          minus_one = poly_constant (fp_new (- 1));
          denom = linear_factor (fp_pow (fp_root_of_unity TOWER_LOG2) (of_nat TOWER_LAYERS))
      in fst (poly_div_mod (poly_add x_rows minus_one) denom))"

definition prove_tower :: "keccak \<Rightarrow> u64 \<Rightarrow> u64 \<Rightarrow> u64 \<Rightarrow> u64 \<Rightarrow> u64 \<Rightarrow> nat \<Rightarrow> TowerProof option" where
  "prove_tower K initial_power growth_permille a b c num_queries =
     (let d = difficulty_poly a b c;
          g = fp_new (1000 + growth_permille);
          omega = fp_root_of_unity TOWER_LOG2;
          trace = tower_trace g d 0 (TOWER_ROWS - 1) (fp_new (saturating_mul initial_power 1000));
          t = poly_interpolate (fri_domain TOWER_LOG2) trace;
          shifted = poly_scale_var t omega;
          c_poly = poly_add (poly_sub shifted (poly_mul t (poly_constant g)))
                     (poly_mul d (poly_constant (fp_new 1000)));
          (q, rem) = poly_div_mod c_poly tower_vanishing;
          fri_k = TOWER_LOG2 + 2;
          boundary_pt = fp_pow omega (of_nat TOWER_LAYERS)
      in case fri_prove K t fri_k num_queries transcript_new (Some boundary_pt) of None \<Rightarrow> None
         | Some trace_fri \<Rightarrow> (case fri_prove K q fri_k num_queries transcript_new None of None \<Rightarrow> None
         | Some quotient_fri \<Rightarrow>
             (let proof' = \<lparr>dp_trace_fri = trace_fri, dp_quotient_fri = quotient_fri, dp_challenge = 0, dp_opens = (0, 0, 0)\<rparr>;
                  chi = derive_challenge K proof'
              in Some (proof'\<lparr>dp_challenge := chi,
                   dp_opens := (poly_eval t chi, poly_eval t (fp_mul omega chi), poly_eval q chi)\<rparr>))))"

definition verify_tower :: "keccak \<Rightarrow> TowerProof \<Rightarrow> u64 \<Rightarrow> u64 \<Rightarrow> u64 \<Rightarrow> u64 \<Rightarrow> u64 \<Rightarrow> nat \<Rightarrow> (string + unit) option" where
  "verify_tower K proof' growth_permille a b c claimed_final num_queries =
     (let omega = fp_root_of_unity TOWER_LOG2;
          fri_k = TOWER_LOG2 + 2;
          boundary_pt = fp_pow omega (of_nat TOWER_LAYERS) in
      case fri_verify K (dp_trace_fri proof') fri_k num_queries transcript_new (Some (boundary_pt, fp_new claimed_final)) of
        None \<Rightarrow> None
      | Some (Inl e) \<Rightarrow> Some (Inl e)
      | Some (Inr _) \<Rightarrow>
     (case fri_verify K (dp_quotient_fri proof') fri_k num_queries transcript_new None of
        None \<Rightarrow> None
      | Some (Inl e) \<Rightarrow> Some (Inl e)
      | Some (Inr _) \<Rightarrow>
     (let chi = derive_challenge K proof' in
      if chi \<noteq> dp_challenge proof' then Some (Inl ''tower challenge mismatch'')
      else (let (t_chi, t_wchi, q_chi) = dp_opens proof';
                chi_pow = fp_pow chi (of_nat TOWER_ROWS);
                z_chi = fp_mul (fp_sub chi_pow 1) (fp_inv (fp_sub chi (fp_pow omega (of_nat TOWER_LAYERS))));
                g = fp_new (1000 + growth_permille);
                d_chi = poly_eval (difficulty_poly a b c) chi;
                rhs = fp_add (fp_sub t_wchi (fp_mul t_chi g)) (fp_mul d_chi (fp_new 1000))
            in if fp_mul q_chi z_chi \<noteq> rhs then Some (Inl ''tower constraint check failed'') else Some (Inr ())))))"

subsection \<open>Any tower result has an accepted proof\<close>

text \<open>The proof of a cheater: constant commitments, and openings that satisfy the equation.\<close>

definition forged_tower :: "keccak \<Rightarrow> u64 \<Rightarrow> u64 \<Rightarrow> u64 \<Rightarrow> u64 \<Rightarrow> nat \<Rightarrow> TowerProof" where
  "forged_tower K a b c claimed_final num_queries =
     (let proof' = \<lparr>dp_trace_fri = constant_proof K 9 num_queries 508 (fp_new claimed_final),
                    dp_quotient_fri = constant_proof K 9 num_queries 0 0, dp_challenge = 0, dp_opens = (0, 0, 0)\<rparr>;
          chi = derive_challenge K proof';
          d_chi = poly_eval (difficulty_poly a b c) chi
      in proof'\<lparr>dp_challenge := chi, dp_opens := (0, fp_neg (fp_mul d_chi (fp_new 1000)), 0)\<rparr>)"

lemma derive_challenge_cong:
  "dp_trace_fri p = dp_trace_fri q \<Longrightarrow> dp_quotient_fri p = dp_quotient_fri q \<Longrightarrow> derive_challenge K p = derive_challenge K q"
  by (simp add: derive_challenge_def)

lemma tower_last_point:
  "fp_pow (fp_root_of_unity TOWER_LOG2) (of_nat TOWER_LAYERS) = fri_domain 9 ! 508"
proof -
  have "gf_root 9 ^ 4 = gf_root 7" using gf_root_power [of 2 7] by simp
  then have "gf_root 7 ^ 127 = gf_root 9 ^ (4 * 127)" by (simp only: power_mult)
  then have "gf_of (fp_pow (fp_root_of_unity 7) 127) = gf_of (fri_domain 9 ! 508)"
    by (simp add: fri_domain_nth)
  then have "fp_pow (fp_root_of_unity 7) 127 = fri_domain 9 ! 508"
    by (rule iffD1 [OF gf_of_inject, rotated -1]) (simp_all add: fri_domain_nth)
  then show ?thesis by (simp add: TOWER_LAYERS_def TOWER_ROWS_def TOWER_LOG2_def)
qed

lemma forged_tower_accepted:
  "verify_tower K (forged_tower K a b c claimed_final n) growth_permille a b c claimed_final n = Some (Inr ())"
proof -
  let ?p = "forged_tower K a b c claimed_final n"
  let ?chi = "derive_challenge K ?p"
  have parts: "dp_trace_fri ?p = constant_proof K 9 n 508 (fp_new claimed_final)"
      "dp_quotient_fri ?p = constant_proof K 9 n 0 0" "dp_challenge ?p = ?chi"
      "dp_opens ?p = (0, fp_neg (fp_mul (poly_eval (difficulty_poly a b c) ?chi) (fp_new 1000)), 0)"
    using derive_challenge_cong [of ?p "\<lparr>dp_trace_fri = constant_proof K 9 n 508 (fp_new claimed_final),
        dp_quotient_fri = constant_proof K 9 n 0 0, dp_challenge = 0, dp_opens = (0, 0, 0)\<rparr>" K]
    by (simp_all add: forged_tower_def Let_def)
  let ?m = "fp_mul (poly_eval (difficulty_poly a b c) ?chi) (fp_new 1000)"
  have k: "TOWER_LOG2 + 2 = 9" by (simp add: TOWER_LOG2_def)
  have t: "fri_verify K (dp_trace_fri ?p) 9 n transcript_new (Some (fri_domain 9 ! 508, fp_new claimed_final)) = Some (Inr ())"
    unfolding parts constant_proof_verify [OF fp_ok_new] by (simp add: constant_boundary)
  have q: "fri_verify K (dp_quotient_fri ?p) 9 n transcript_new None = Some (Inr ())"
    unfolding parts constant_proof_verify [OF fp_ok_small(1)] by (simp add: check_boundary_def)
  have z: "fp_mul 0 y = 0" for y using gf_of_inject [of "fp_mul 0 y" 0] by simp
  have r: "fp_add (fp_sub (fp_neg ?m) (fp_mul 0 g)) ?m = 0" for g
  proof (rule iffD1 [OF gf_of_inject])
    show "gf_of (fp_add (fp_sub (fp_neg ?m) (fp_mul 0 g)) ?m) = gf_of 0"
      by (simp add: fp_add_correct fp_sub_correct fp_neg_correct)
  qed (simp_all add: fp_add_correct fp_sub_correct fp_neg_correct)
  show ?thesis unfolding verify_tower_def Let_def k tower_last_point t q
    by (simp add: parts(3,4) z r [simplified z])
qed

text \<open>The tower verifier accepts every claim: for every hash function, every tower and every claimed
  final power there is a proof, computed without any simulation, that it accepts.\<close>

theorem tower_accepts_any_claim:
  "verify_tower K (forged_tower K a b c claimed_final n) growth_permille a b c claimed_final n = Some (Inr ())"
  by (rule forged_tower_accepted)

subsection \<open>Division by the vanishing polynomial\<close>

lemma poly_div_mod_small: "length p < length d \<Longrightarrow> p \<noteq> [] \<Longrightarrow> poly_div_mod p d = (poly_zero, p)"
  by (cases p; cases d) (simp_all add: poly_div_mod_def poly_degree_def)

text \<open>A polynomial that vanishes wherever the divisor does is divided without remainder, when the
  divisor has all its roots among \<open>S\<close>.\<close>

lemma vanishing_division:
  assumes "poly_ok p" "p \<noteq> []" "poly_ok d" "d \<noteq> []" "gf_of (last d) \<noteq> 0" "finite S" "S \<noteq> {}"
    "length d = Suc (card S)" "\<And>s. s \<in> S \<Longrightarrow> poly_val d s = 0" "\<And>s. s \<in> S \<Longrightarrow> poly_val p s = 0"
  obtains q r where "poly_div_mod p d = (q, r)" "poly_ok q" "\<And>x. poly_val p x = poly_val q x * poly_val d x"
    "length q \<le> max 1 (length p - card S)"
proof -
  obtain q r where qr: "poly_div_mod p d = (q, r)" by fastforce
  note D = poly_div_mod_correct [OF assms(1,3,4,2,5) qr]
  have "length q \<le> max 1 (length p - card S)"
  proof (cases "length p < length d")
    case True
    then show ?thesis using qr poly_div_mod_small [OF True assms(2)] by (simp add: poly_zero_def)
  qed (use D(4) assms(8) in auto)
  moreover have "\<And>x. poly_val p x = poly_val q x * poly_val d x"
    using exact_division(1) [OF assms(1,3,4,2,5) qr assms(6) _ assms(7,9,10)] assms(8) by simp
  ultimately show thesis using that qr D(1) by blast
qed

text \<open>A polynomial short enough for its roots has the exact degree.\<close>

lemma vanishing_shape:
  assumes "poly_ok z" "finite S" "length z \<le> Suc (card S)" "\<And>s. s \<in> S \<Longrightarrow> poly_val z s = 0" "poly_val z y \<noteq> 0"
  shows "z \<noteq> []" "gf_of (last z) \<noteq> 0" "length z = Suc (card S)"
proof -
  show ne: "z \<noteq> []" using assms(5) by auto
  have "\<not> length z \<le> card S" using too_many_roots [OF assms(1,2) _ assms(4)] assms(5) by blast
  then show len: "length z = Suc (card S)" using assms(3) by simp
  show "gf_of (last z) \<noteq> 0"
  proof
    assume 0: "gf_of (last z) = 0"
    have v: "poly_val z x = poly_val (butlast z) x" for x
      using poly_val_append [of "butlast z" "[last z]" x] ne 0 by simp
    have "poly_val (butlast z) y = 0"
      by (rule too_many_roots [OF _ assms(2)]) (use assms(1,4) len v in \<open>auto simp: butlast_conv_take\<close>)
    then show False using assms(5) v by simp
  qed
qed

subsection \<open>Traces over the roots of unity\<close>

definition trace_rows :: "nat \<Rightarrow> gf set" where
  "trace_rows k = (\<lambda>i. gf_root k ^ i) ` {0..<2 ^ k - 1}"

lemma trace_rows_iff: "s \<in> trace_rows k \<longleftrightarrow> (\<exists>i. Suc i < 2 ^ k \<and> s = gf_root k ^ i)"
  by (auto simp: trace_rows_def less_diff_conv)

lemma trace_rows_card:
  assumes "k \<le> 32" "0 < k"
  shows "finite (trace_rows k)" "card (trace_rows k) = 2 ^ k - 1" "trace_rows k \<noteq> {}"
    "gf_root k ^ (2 ^ k - 1) \<notin> trace_rows k"
proof -
  have inj: "inj_on (\<lambda>i. gf_root k ^ i) {0..<2 ^ k}" by (rule gf_root_inj [OF assms(1)])
  show "finite (trace_rows k)" by (simp add: trace_rows_def)
  have "inj_on (\<lambda>i. gf_root k ^ i) {0..<2 ^ k - 1}" using inj by (rule inj_on_subset) auto
  then show c: "card (trace_rows k) = 2 ^ k - 1" by (simp add: trace_rows_def card_image)
  have "(2 :: nat) \<le> 2 ^ k" using self_le_power [of 2 k] assms(2) by simp
  then show "trace_rows k \<noteq> {}" by (auto simp: trace_rows_def)
  show "gf_root k ^ (2 ^ k - 1) \<notin> trace_rows k"
  proof
    assume "gf_root k ^ (2 ^ k - 1) \<in> trace_rows k"
    then obtain i where i: "i < 2 ^ k - 1" "gf_root k ^ (2 ^ k - 1) = gf_root k ^ i" by (auto simp: trace_rows_def)
    then have "i < 2 ^ k" by linarith
    then have "2 ^ k - 1 = i" using inj_onD [OF inj i(2)] by simp
    then show False using i(1) by simp
  qed
qed

lemma trace_polynomial:
  assumes "k \<le> 30" "length trace = 2 ^ k"
  defines "t \<equiv> poly_interpolate (fri_domain k) trace"
  shows "poly_ok t" "length t \<le> 2 ^ k" "i < 2 ^ k \<Longrightarrow> poly_val t (gf_root k ^ i) = gf_of (trace ! i)"
proof -
  have ok: "list_all fp_ok (fri_domain k)" by (auto simp: list_all_iff in_fri_domain)
  have "(2 :: nat) ^ k < 2 ^ 31" using assms(1) by (intro power_strict_increasing) simp_all
  then have len: "length (fri_domain k) < 2 ^ 31" by simp
  have d: "distinct (fri_domain k)" using assms(1) by (intro distinct_fri_domain) simp
  note I = poly_interpolate_correct [OF ok len d, of trace, folded t_def]
  show "poly_ok t" using I(1) assms(2) by simp
  show "length t \<le> 2 ^ k" using I(2) assms(2) by simp
  show "i < 2 ^ k \<Longrightarrow> poly_val t (gf_root k ^ i) = gf_of (trace ! i)"
    using I(3) [of i] assms(2) by (simp add: fri_domain_nth)
qed

text \<open>The last point of the trace, which the verifier has opened.\<close>

lemma root_power_point:
  assumes "k \<le> 32" "i < 2 ^ k"
  shows "gf_of (fp_pow (fp_root_of_unity k) (of_nat i)) = gf_root k ^ i"
    "fp_pow (fp_root_of_unity k) (of_nat i) \<in> set (fri_domain k)"
proof -
  have "(2 :: nat) ^ k \<le> 2 ^ 32" using assms(1) by (intro power_increasing) simp_all
  then have "unat (of_nat i :: u64) = i" using assms(2) by (simp add: unsigned_of_nat take_bit_nat_eq_self)
  then show "gf_of (fp_pow (fp_root_of_unity k) (of_nat i)) = gf_root k ^ i" by simp
  then show "fp_pow (fp_root_of_unity k) (of_nat i) \<in> set (fri_domain k)"
    using assms(2) by (auto simp: in_fri_domain)
qed

text \<open>Two commitments, to the trace and to the quotient, and the boundary value of the first.\<close>

lemma two_commitments:
  assumes "poly_ok t" "poly_ok q" "length t \<le> 2 ^ k" "length q \<le> 2 ^ k" "1 < k" "k \<le> 32"
    "pt \<in> set (fri_domain k)"
  obtains tf qf where "fri_prove K t k n transcript_new (Some pt) = Some tf"
    "fri_verify K tf k n transcript_new (Some (pt, poly_eval t pt)) = Some (Inr ())"
    "fri_prove K q k n transcript_new None = Some qf"
    "fri_verify K qf k n transcript_new None = Some (Inr ())"
  using fri_prove_verify [of t k "Some pt" K n transcript_new] fri_prove_verify [of q k None K n transcript_new]
    assms that by (auto simp: boundary_claim_def)

subsection \<open>The square chain is complete\<close>

lemma fold_const_funpow: "fold (\<lambda>_. f) xs a = (f ^^ length xs) a"
  by (induction xs arbitrary: a) (simp_all add: funpow_swap1)

definition square_step :: "Fp \<Rightarrow> Fp \<Rightarrow> Fp" where
  "square_step c a = fp_add (fp_mul a a) c"

lemma square_trace_nth:
  "length (square_trace c n a) = Suc n" "i \<le> n \<Longrightarrow> square_trace c n a ! i = (square_step c ^^ i) a"
proof (induction c n a arbitrary: i rule: square_trace.induct)
  case (2 c n a)
  have e: "square_trace c (Suc n) a = a # square_trace c n (square_step c a)" by (simp add: square_step_def)
  { case 2 then show ?case unfolding e using "2.IH"(2) [folded square_step_def]
      by (cases i) (simp_all add: funpow_Suc_right del: funpow.simps(2)) }
qed simp_all

lemma square_power_ok: "fp_ok c \<Longrightarrow> fp_ok a \<Longrightarrow> fp_ok ((square_step c ^^ i) a)"
  by (cases i) (simp_all add: square_step_def fp_add_correct)

lemma public_b_power: "public_b a c k = (square_step (fp_new c) ^^ (2 ^ k - 1)) (fp_new a)"
  by (simp add: public_b_def fold_const_funpow square_step_def [abs_def])

lemma prod_roots_zero: "(\<Prod>i\<leftarrow>xs. y - f i :: gf) = 0 \<longleftrightarrow> y \<in> f ` set xs"
  by (induction xs) auto

lemma square_vanishing_correct:
  assumes "0 < k" "k \<le> 30"
  shows "poly_ok (square_vanishing k)" "length (square_vanishing k) = 2 ^ k"
    "square_vanishing k \<noteq> []" "gf_of (last (square_vanishing k)) \<noteq> 0"
    "s \<in> trace_rows k \<Longrightarrow> poly_val (square_vanishing k) s = 0"
    "poly_val (square_vanishing k) y = (\<Prod>i\<leftarrow>[0..<2 ^ k - 1]. y - gf_root k ^ i)"
proof -
  let ?xs = "map (\<lambda>i. fp_pow (fp_root_of_unity k) (of_nat i)) [0..<2 ^ k - 1]"
  have z: "square_vanishing k = poly_master ?xs"
    by (simp add: square_vanishing_def poly_master_def fold_map comp_def)
  have "(2 :: nat) ^ k < 2 ^ 31" using assms(2) by (intro power_strict_increasing) simp_all
  then have len: "length ?xs < 2 ^ 31" by simp
  have ok: "list_all fp_ok ?xs" by (simp add: list_all_iff)
  note M = poly_master_correct [OF ok len, folded z]
  have "map (\<lambda>x. y - gf_of x) ?xs = map (\<lambda>i. y - gf_root k ^ i) [0..<2 ^ k - 1]" for y
    using root_power_point(1) [of k] assms(2) by simp
  then show v: "poly_val (square_vanishing k) y = (\<Prod>i\<leftarrow>[0..<2 ^ k - 1]. y - gf_root k ^ i)" for y
    unfolding M(4) by (rule arg_cong)
  show r: "poly_val (square_vanishing k) s = 0" if "s \<in> trace_rows k" for s
    using that unfolding v prod_roots_zero by (simp add: trace_rows_def)
  note R = trace_rows_card [of k]
  have nz: "poly_val (square_vanishing k) (gf_root k ^ (2 ^ k - 1)) \<noteq> 0"
    unfolding v prod_roots_zero using R(4) assms by (simp add: trace_rows_def)
  have l: "length (square_vanishing k) \<le> Suc (card (trace_rows k))" using M(3) R(2) assms by simp
  have fin: "finite (trace_rows k)" using R(1) assms by simp
  show "poly_ok (square_vanishing k)" by (rule M(1))
  note V = vanishing_shape [OF M(1) fin l r nz]
  show "square_vanishing k \<noteq> []" by (rule V(1))
  show "gf_of (last (square_vanishing k)) \<noteq> 0" by (rule V(2))
  show "length (square_vanishing k) = 2 ^ k" using V(3) R(2) assms by simp
qed

lemma fri_domain_nonempty: "fri_domain k \<noteq> []"
  using one_in_fri_domain [of k] by (metis empty_iff empty_set)

lemma trace_nonempty: "length tr = 2 ^ k \<Longrightarrow> tr \<noteq> []"
  by auto

lemma poly_length_bounds:
  "length p \<le> n \<Longrightarrow> length q \<le> n \<Longrightarrow> 1 \<le> n \<Longrightarrow> length (poly_add p q) \<le> n"
  "length p \<le> n \<Longrightarrow> length q \<le> n \<Longrightarrow> 1 \<le> n \<Longrightarrow> length (poly_sub p q) \<le> n"
  "length p \<le> n \<Longrightarrow> 1 \<le> n \<Longrightarrow> length (poly_scale_var p w) \<le> n"
  by (rule order_trans [OF poly_add_length] order_trans [OF poly_sub_length] order_trans [OF poly_scale_var_length]; simp)+

lemma poly_interpolate_nonempty:
  assumes "xs \<noteq> []" "ys \<noteq> []"
  shows "poly_interpolate xs ys \<noteq> []"
proof -
  have "zip xs ys \<noteq> []" using assms by (cases xs; cases ys) auto
  then obtain ps p where "zip xs ys = ps @ [p]" by (metis rev_exhaust)
  then show ?thesis
    by (simp add: poly_interpolate_def interpolate_step_def poly_add_def Let_def split: prod.split)
qed

text \<open>The quotient of the constraint polynomial, for the trace of a chain.\<close>

lemma square_quotient:
  fixes a c :: u64 and k :: nat
  assumes "1 < k" "k \<le> 30"
  defines "t \<equiv> poly_interpolate (fri_domain k) (square_trace (fp_new c) (2 ^ k - 1) (fp_new a))"
  defines "p \<equiv> poly_sub (poly_sub (poly_scale_var t (fp_root_of_unity k)) (poly_mul t t)) (poly_constant (fp_new c))"
  obtains q r where "poly_div_mod p (square_vanishing k) = (q, r)" "poly_ok q" "length q \<le> 2 ^ k" "poly_ok t"
    "length t \<le> 2 ^ k" "poly_val t (gf_root k ^ (2 ^ k - 1)) = gf_of (public_b a c k)"
    "\<And>x. poly_val q x * poly_val (square_vanishing k) x
       = poly_val t (gf_root k * x) - poly_val t x * poly_val t x - gf_of (fp_new c)"
proof -
  let ?tr = "square_trace (fp_new c) (2 ^ k - 1) (fp_new a)"
  have k: "0 < k" "k \<le> 32" using assms(1,2) by simp_all
  have len: "length ?tr = 2 ^ k" by (simp add: square_trace_nth)
  note T = trace_polynomial [OF assms(2) len, folded t_def]
  have row: "poly_val t (gf_root k ^ i) = gf_of ((square_step (fp_new c) ^^ i) (fp_new a))" if "i < 2 ^ k" for i
  proof -
    have "i \<le> 2 ^ k - 1" using that by simp
    then show ?thesis using T(3) [OF that] by (simp add: square_trace_nth(2))
  qed
  have b: "poly_val t (gf_root k ^ (2 ^ k - 1)) = gf_of (public_b a c k)" by (simp add: row public_b_power)
  have "(2 :: nat) ^ k \<le> 2 ^ 30" using assms(2) by (intro power_increasing) simp_all
  then have small: "length t + length t \<le> 2 ^ 32" using T(2) by simp
  have ne: "t \<noteq> []" unfolding t_def by (rule poly_interpolate_nonempty [OF fri_domain_nonempty trace_nonempty [OF len]])
  note M = poly_mul_correct [OF T(1,1) ne ne small]
  have p: "poly_ok p" "p \<noteq> []" by (simp_all add: p_def T(1) M(1)) (simp add: poly_sub_def poly_add_def Let_def)
  have v: "poly_val p x = poly_val t (gf_root k * x) - poly_val t x * poly_val t x - gf_of (fp_new c)" for x
    by (simp add: p_def T(1) M(1,2))
  have zero: "poly_val p s = 0" if s: "s \<in> trace_rows k" for s
  proof -
    obtain i where i: "Suc i < 2 ^ k" "s = gf_root k ^ i" using s by (auto simp: trace_rows_iff)
    have "poly_val t (gf_root k * s) = gf_of ((square_step (fp_new c) ^^ Suc i) (fp_new a))"
      using row [OF i(1)] by (simp add: i(2))
    also have "\<dots> = poly_val t s * poly_val t s + gf_of (fp_new c)"
      using row [of i] i by (simp add: square_step_def fp_add_correct)
    finally show ?thesis by (simp add: v)
  qed
  have l: "length p \<le> 2 ^ k + 2 ^ k - 1"
  proof -
    have m: "length (poly_mul t t) \<le> 2 ^ k + 2 ^ k - 1" using M(3) T(2) by simp
    have "(1 :: nat) \<le> 2 ^ k" by simp
    then have n: "(2 :: nat) ^ k \<le> 2 ^ k + 2 ^ k - 1" "(1 :: nat) \<le> 2 ^ k + 2 ^ k - 1" by linarith+
    show ?thesis unfolding p_def
      by (intro poly_length_bounds order_trans [OF T(2)] m n) (use n in \<open>simp_all add: poly_constant_def\<close>)
  qed
  note R = trace_rows_card [OF k(2,1)] and Z = square_vanishing_correct [OF k(1) assms(2)]
  have "length (square_vanishing k) = Suc (card (trace_rows k))" using Z(2) R(2) by simp
  then obtain q r where q: "poly_div_mod p (square_vanishing k) = (q, r)" "poly_ok q"
      "\<And>x. poly_val p x = poly_val q x * poly_val (square_vanishing k) x"
      "length q \<le> max 1 (length p - card (trace_rows k))"
    using vanishing_division [OF p Z(1,3,4) R(1,3) _ Z(5) zero] by blast
  have "(1 :: nat) \<le> 2 ^ k" by simp
  then have "length p - card (trace_rows k) \<le> 2 ^ k" "(1 :: nat) \<le> 2 ^ k" using l R(2) by linarith+
  then have "length q \<le> 2 ^ k" using q(4) by linarith
  then show thesis using that q(1,2) T(1,2) b q(3) v by metis
qed

lemma fold_field_product:
  "fp_ok acc \<Longrightarrow> (\<And>i. i \<in> set is \<Longrightarrow> fp_ok (f i)) \<Longrightarrow>
    fp_ok (fold (\<lambda>i z. fp_mul z (f i)) is acc) \<and>
    gf_of (fold (\<lambda>i z. fp_mul z (f i)) is acc) = gf_of acc * (\<Prod>i\<leftarrow>is. gf_of (f i))"
proof (induction "is" arbitrary: acc)
  case (Cons i "is")
  then show ?case using Cons.IH [of "fp_mul acc (f i)"] by (simp add: mult.assoc)
qed simp

lemma verify_square_chain_ok:
  assumes "fri_verify K (dp_trace_fri \<pi>) k n transcript_new
      (Some (fp_pow (fp_root_of_unity k) (of_nat (2 ^ k - 1)), fp_new b)) = Some (Inr ())"
    "fri_verify K (dp_quotient_fri \<pi>) k n transcript_new None = Some (Inr ())"
    "derive_challenge K \<pi> = dp_challenge \<pi>" "dp_opens \<pi> = (t, w, q)"
    "fp_mul q (fold (\<lambda>i z. fp_mul z (fp_sub (dp_challenge \<pi>) (fp_pow (fp_root_of_unity k) (of_nat i)))) [0..<2 ^ k - 1] 1)
      = fp_sub (fp_sub w (fp_mul t t)) (fp_new c)"
  shows "verify_square_chain K \<pi> c b k n = Some (Inr ())"
  unfolding verify_square_chain_def Let_def assms(1-4) using assms(5) by simp

text \<open>The square chain is complete: for every hash function, secret start, constant and number of
  queries, and every chain whose length is a power of two, the prover does not panic and the verifier accepts
  its proof for the last element of the chain.\<close>

theorem square_chain_complete:
  assumes "1 < k" "k \<le> 30"
  shows "\<exists>\<pi>. prove_square_chain K a c k n = Some \<pi> \<and>
    verify_square_chain K \<pi> c (public_b a c k) k n = Some (Inr ())"
proof -
  define t where "t = poly_interpolate (fri_domain k) (square_trace (fp_new c) (2 ^ k - 1) (fp_new a))"
  define p where "p = poly_sub (poly_sub (poly_scale_var t (fp_root_of_unity k)) (poly_mul t t)) (poly_constant (fp_new c))"
  obtain q r where q: "poly_div_mod p (square_vanishing k) = (q, r)" "poly_ok q" "length q \<le> 2 ^ k" "poly_ok t"
      "length t \<le> 2 ^ k" "poly_val t (gf_root k ^ (2 ^ k - 1)) = gf_of (public_b a c k)"
      "\<And>x. poly_val q x * poly_val (square_vanishing k) x
        = poly_val t (gf_root k * x) - poly_val t x * poly_val t x - gf_of (fp_new c)"
    using square_quotient [OF assms, of c a] unfolding t_def p_def by metis
  let ?pt = "fp_pow (fp_root_of_unity k) (of_nat (2 ^ k - 1))"
  have k: "k \<le> 32" "(2 ^ k - 1 :: nat) < 2 ^ k" using assms(2) by simp_all
  note pt = root_power_point [OF k]
  obtain tf qf where F: "fri_prove K t k n transcript_new (Some ?pt) = Some tf"
      "fri_verify K tf k n transcript_new (Some (?pt, poly_eval t ?pt)) = Some (Inr ())"
      "fri_prove K q k n transcript_new None = Some qf"
      "fri_verify K qf k n transcript_new None = Some (Inr ())"
    using two_commitments [OF q(4,2,5,3) assms(1) k(1) pt(2), of K n] by metis
  have bok: "fp_ok (public_b a c k)" by (simp add: public_b_power square_power_ok)
  have "gf_of (poly_eval t ?pt) = gf_of (public_b a c k)" using pt(1) q(4,6) by (simp add: poly_eval_correct)
  then have b: "poly_eval t ?pt = public_b a c k"
    by (rule iffD1 [OF gf_of_inject [OF poly_eval_correct(1) [OF q(4)] bok]])
  let ?p0 = "\<lparr>dp_trace_fri = tf, dp_quotient_fri = qf, dp_challenge = 0, dp_opens = (0, 0, 0)\<rparr>"
  define chi where "chi = derive_challenge K ?p0"
  let ?pf = "?p0\<lparr>dp_challenge := chi,
      dp_opens := (poly_eval t chi, poly_eval t (fp_mul (fp_root_of_unity k) chi), poly_eval q chi)\<rparr>"
  have chi: "fp_ok chi" "derive_challenge K ?pf = chi" by (simp_all add: chi_def derive_challenge_def Let_def)
  have prove: "prove_square_chain K a c k n = Some ?pf"
    unfolding prove_square_chain_def Let_def t_def [symmetric] p_def [symmetric] q(1) prod.case F(1,3) option.case
      chi_def ..
  let ?z = "fold (\<lambda>i z. fp_mul z (fp_sub chi (fp_pow (fp_root_of_unity k) (of_nat i)))) [0..<2 ^ k - 1] 1"
  have z: "gf_of ?z = poly_val (square_vanishing k) (gf_of chi)"
  proof -
    have "gf_of ?z = (\<Prod>i\<leftarrow>[0..<2 ^ k - 1]. gf_of (fp_sub chi (fp_pow (fp_root_of_unity k) (of_nat i))))"
      using fold_field_product [of 1 "[0..<2 ^ k - 1]" "\<lambda>i. fp_sub chi (fp_pow (fp_root_of_unity k) (of_nat i))"]
      by (simp add: fp_sub_correct chi(1))
    also have "map (\<lambda>i. gf_of (fp_sub chi (fp_pow (fp_root_of_unity k) (of_nat i)))) [0..<2 ^ k - 1]
        = map (\<lambda>i. gf_of chi - gf_root k ^ i) [0..<2 ^ k - 1]"
      using root_power_point(1) [OF k(1)] by (simp add: fp_sub_correct chi(1))
    finally show ?thesis using assms by (simp add: square_vanishing_correct(6))
  qed
  let ?w = "poly_eval t (fp_mul (fp_root_of_unity k) chi)"
  let ?r = "fp_sub (fp_sub ?w (fp_mul (poly_eval t chi) (poly_eval t chi))) (fp_new c)"
  have ev: "fp_ok (poly_eval t x)" for x by (rule poly_eval_correct(1) [OF q(4)])
  have "fp_mul (poly_eval q chi) ?z = ?r"
  proof (rule iffD1 [OF gf_of_inject])
    show "gf_of (fp_mul (poly_eval q chi) ?z) = gf_of ?r"
      using q(7) [of "gf_of chi"] by (simp add: z [unfolded One_nat_def] ev fp_sub_correct poly_eval_correct q(2,4))
  qed (simp_all add: fp_sub_correct ev)
  then have "verify_square_chain K ?pf c (public_b a c k) k n = Some (Inr ())"
    by (intro verify_square_chain_ok) (use F(2,4) chi(2) b fp_new_ok [OF bok] in simp_all)
  then show ?thesis using prove by blast
qed

lemma square_chain_complete_witness:
  "\<exists>\<pi>. prove_square_chain (\<lambda>_. 0) 777 5 4 8 = Some \<pi> \<and>
    verify_square_chain (\<lambda>_. 0) \<pi> 5 (public_b 777 5 4) 4 8 = Some (Inr ())"
  by (rule square_chain_complete) simp_all

subsection \<open>The tower is complete\<close>

lemma tower_trace_nth:
  "length (tower_trace g d i n p) = Suc n" "j \<le> n \<Longrightarrow> tower_trace g d i n p ! j = fold (tower_step g d) [i..<i + j] p"
proof (induction g d i n p arbitrary: j rule: tower_trace.induct)
  case (2 g d i n p)
  have e: "[i..<i + Suc m] = i # [Suc i..<Suc i + m]" for m by (simp add: upt_conv_Cons del: upt_Suc)
  { case 2 then show ?case using "2.IH"(2) by (cases j) (simp_all only: e nth_Cons_Suc fold_simps
      tower_trace.simps Suc_le_mono upt_rec [of i i] less_irrefl if_False add_0_right nth_Cons_0) }
qed simp_all

lemma difficulty_poly_ok [simp]: "poly_ok (difficulty_poly a b c)"
  by (simp add: difficulty_poly_def)

lemma tower_step_correct:
  assumes "poly_ok d" "i < 128"
  shows "fp_ok (tower_step g d i p)"
    "gf_of (tower_step g d i p) = gf_of p * gf_of g - poly_val d (gf_root 7 ^ i) * gf_of (fp_new 1000)"
proof -
  have "gf_of (fp_pow (fp_root_of_unity 7) (of_nat i)) = gf_root 7 ^ i" using assms(2) by (intro root_power_point) simp_all
  then show "fp_ok (tower_step g d i p)"
    "gf_of (tower_step g d i p) = gf_of p * gf_of g - poly_val d (gf_root 7 ^ i) * gf_of (fp_new 1000)"
    using assms(1) by (simp_all add: tower_step_def Let_def TOWER_LOG2_def fp_sub_correct poly_eval_correct)
qed

lemma tower_power_ok: "fp_ok p \<Longrightarrow> fp_ok (fold (tower_step g d) is p)"
proof (induction "is" arbitrary: p)
  case (Cons i "is")
  then show ?case by (simp add: tower_step_def Let_def fp_sub_correct)
qed simp

lemma trace_rows_order:
  assumes "s \<in> trace_rows 7" shows "s ^ 128 = 1"
proof -
  have o: "gf_root 7 ^ 128 = 1" using gf_root_order [of 7] by simp
  obtain i where "s = gf_root 7 ^ i" using assms by (auto simp: trace_rows_iff)
  then have "s ^ 128 = (gf_root 7 ^ 128) ^ i" by (simp only: mult.commute flip: power_mult)
  then show ?thesis by (simp only: o power_one)
qed

lemma tower_vanishing_correct:
  shows "poly_ok tower_vanishing" "length tower_vanishing = 128"
    "tower_vanishing \<noteq> []" "gf_of (last tower_vanishing) \<noteq> 0"
    "s \<in> trace_rows 7 \<Longrightarrow> poly_val tower_vanishing s = 0"
    "poly_val tower_vanishing y * (y - gf_root 7 ^ 127) = y ^ 128 - 1"
proof -
  let ?w = "fp_pow (fp_root_of_unity 7) 127"
  have w: "gf_of ?w = gf_root 7 ^ 127" "fp_ok ?w" by simp_all
  let ?p = "poly_add (poly_from_coeffs (replicate 128 0 @ [1])) (poly_constant (fp_new (- 1)))"
  let ?d = "linear_factor ?w"
  obtain z r where zr: "poly_div_mod ?p ?d = (z, r)" by fastforce
  have tv: "tower_vanishing = z"
    using zr by (simp add: tower_vanishing_def Let_def TOWER_LAYERS_def TOWER_ROWS_def TOWER_LOG2_def)
  have p: "poly_ok ?p" "?p \<noteq> []" "poly_val ?p x = x ^ 128 + gf_of (- 1)" for x
    by (simp_all add: poly_val_append) (simp add: poly_add_def Let_def)
  have d: "poly_ok ?d" "?d \<noteq> []" "gf_of (last ?d) \<noteq> 0" "poly_val ?d x = x - gf_root 7 ^ 127" "length ?d = 2" for x
    by (simp_all add: linear_factor_form w fp_neg_correct)
  note D = poly_div_mod_correct [OF p(1) d(1,2) p(2) d(3) zr]
  have lp: "length ?p \<le> 129"
    by (intro poly_length_bounds) (simp_all add: poly_constant_def order_trans [OF poly_from_coeffs_length])
  note R = trace_rows_card [of 7, simplified]
  have o: "(gf_root 7 ^ 127) ^ 128 = 1"
  proof -
    have "gf_root 7 ^ 128 = 1" using gf_root_order [of 7] by simp
    then have "(gf_root 7 ^ 128) ^ 127 = 1" by (simp only: power_one)
    then show ?thesis by (simp only: mult.commute flip: power_mult)
  qed
  show ok: "poly_ok tower_vanishing" unfolding tv by (rule D(1))
  have long: "length ?d \<le> length ?p"
  proof (rule ccontr)
    assume "\<not> length ?d \<le> length ?p"
    then obtain e where "?p = [e]" using p(2) d(5) by (cases ?p; cases "tl ?p") auto
    then have "poly_val ?p 0 = poly_val ?p 1" by simp
    then show False unfolding p(3) by simp
  qed
  have "length r \<le> 1" using D(5) [OF long] d(5) by simp
  then have rc: "poly_val r x = poly_val r y" for x y by (cases r) auto
  have r0: "poly_val r x = 1 + gf_of (- 1)" for x
    using D(3) [of "gf_root 7 ^ 127"] rc [of x "gf_root 7 ^ 127"]
    unfolding p(3) d(4) o diff_self mult_zero_right add_0_left by metis
  show v: "poly_val tower_vanishing y * (y - gf_root 7 ^ 127) = y ^ 128 - 1" for y
    using D(3) [of y] unfolding p(3) d(4) r0 tv by (simp add: algebra_simps)
  show r: "poly_val tower_vanishing s = 0" if "s \<in> trace_rows 7" for s
  proof -
    have "s - gf_root 7 ^ 127 \<noteq> 0" using R(4) that by auto
    then show ?thesis using v [of s] trace_rows_order [OF that] by simp
  qed
  have nz: "poly_val tower_vanishing 0 \<noteq> 0" using v [of 0] by auto
  have l: "length tower_vanishing \<le> Suc (card (trace_rows 7))" unfolding tv using D(4) [OF long] lp R(2) d(5) by simp
  note V = vanishing_shape [OF ok R(1) l r nz]
  show "tower_vanishing \<noteq> []" by (rule V(1))
  show "gf_of (last tower_vanishing) \<noteq> 0" by (rule V(2))
  show "length tower_vanishing = 128" using V(3) R(2) by simp
qed

text \<open>The quotient of the constraint polynomial, for the trace of a tower.\<close>

lemma tower_quotient:
  fixes p0 g a b c :: u64
  defines "d \<equiv> difficulty_poly a b c"
  defines "tr \<equiv> tower_trace g d 0 127 p0"
  defines "t \<equiv> poly_interpolate (fri_domain 7) tr"
  defines "p \<equiv> poly_add (poly_sub (poly_scale_var t (fp_root_of_unity 7)) (poly_mul t (poly_constant g)))
      (poly_mul d (poly_constant (fp_new 1000)))"
  assumes "fp_ok g" "fp_ok p0"
  obtains q r where "poly_div_mod p tower_vanishing = (q, r)" "poly_ok q" "length q \<le> 512" "poly_ok t"
    "length t \<le> 512" "poly_val t (gf_root 7 ^ 127) = gf_of (fold (tower_step g d) [0..<127] p0)"
    "\<And>x. poly_val q x * poly_val tower_vanishing x
       = poly_val t (gf_root 7 * x) - poly_val t x * gf_of g + poly_val d x * gf_of (fp_new 1000)"
proof -
  have len: "length tr = 2 ^ 7" by (simp add: tr_def tower_trace_nth)
  note T = trace_polynomial [of 7, OF _ len, folded t_def, simplified]
  have row: "poly_val t (gf_root 7 ^ i) = gf_of (fold (tower_step g d) [0..<i] p0)" if "i < 128" for i
    using T(3) [OF that] tower_trace_nth(2) [of i 127 g d 0 p0] that by (simp add: tr_def)
  have ne: "t \<noteq> []" unfolding t_def by (rule poly_interpolate_nonempty [OF fri_domain_nonempty trace_nonempty [OF len]])
  have gc: "poly_ok (poly_constant g)" "poly_constant g \<noteq> []" "length t + length (poly_constant g) \<le> 2 ^ 32"
    using assms(5) T(2) by (simp_all add: poly_constant_def)
  have d: "poly_ok d" "d \<noteq> []" "length d \<le> 3"
    by (simp_all add: d_def difficulty_poly_def order_trans [OF poly_from_coeffs_length])
  have kc: "poly_ok (poly_constant (fp_new 1000))" "poly_constant (fp_new 1000) \<noteq> []"
      "length d + length (poly_constant (fp_new 1000)) \<le> 2 ^ 32"
    using d(3) by (simp_all add: poly_constant_def)
  note M = poly_mul_correct [OF T(1) gc(1) ne gc(2,3)] and N = poly_mul_correct [OF d(1) kc(1) d(2) kc(2,3)]
  have p: "poly_ok p" "p \<noteq> []" by (simp_all add: p_def T(1) M(1) N(1)) (simp add: poly_add_def Let_def)
  have v: "poly_val p x = poly_val t (gf_root 7 * x) - poly_val t x * gf_of g + poly_val d x * gf_of (fp_new 1000)" for x
    by (simp add: p_def T(1) M(1,2) N(1,2))
  have zero: "poly_val p s = 0" if s: "s \<in> trace_rows 7" for s
  proof -
    obtain i where i: "Suc i < 128" "s = gf_root 7 ^ i" using s by (auto simp: trace_rows_iff)
    then have i': "i < 128" by simp
    have "poly_val t (gf_root 7 * s) = gf_of (tower_step g d i (fold (tower_step g d) [0..<i] p0))"
      using row [OF i(1)] by (simp add: i(2))
    also have "\<dots> = poly_val t s * gf_of g - poly_val d s * gf_of (fp_new 1000)"
      using row [OF i'] by (simp add: tower_step_correct [OF d(1) i'] i(2))
    finally show ?thesis by (simp add: v)
  qed
  have l: "length p \<le> 129" unfolding p_def
    by (intro poly_length_bounds order_trans [OF T(2)] order_trans [OF M(3)] order_trans [OF N(3)])
      (use T(2) d(3) in \<open>simp_all add: poly_constant_def\<close>)
  note R = trace_rows_card [of 7, simplified] and Z = tower_vanishing_correct
  have "length tower_vanishing = Suc (card (trace_rows 7))" using Z(2) R(2) by simp
  then obtain q r where q: "poly_div_mod p tower_vanishing = (q, r)" "poly_ok q"
      "\<And>x. poly_val p x = poly_val q x * poly_val tower_vanishing x"
      "length q \<le> max 1 (length p - card (trace_rows 7))"
    using vanishing_division [OF p Z(1,3,4) R(1,3) _ Z(5) zero] by blast
  have "length q \<le> 512" using q(4) l by linarith
  moreover have "length t \<le> 512" using T(2) by simp
  ultimately show thesis using that q(1,2) T(1) row [of 127] q(3) v by simp
qed

lemma verify_tower_ok:
  assumes "fri_verify K (dp_trace_fri \<pi>) 9 n transcript_new
      (Some (fp_pow (fp_root_of_unity 7) 127, fp_new f)) = Some (Inr ())"
    "fri_verify K (dp_quotient_fri \<pi>) 9 n transcript_new None = Some (Inr ())"
    "derive_challenge K \<pi> = dp_challenge \<pi>" "dp_opens \<pi> = (t, w, q)"
    "fp_mul q (fp_mul (fp_sub (fp_pow (dp_challenge \<pi>) 128) 1) (fp_inv (fp_sub (dp_challenge \<pi>) (fp_pow (fp_root_of_unity 7) 127))))
      = fp_add (fp_sub w (fp_mul t (fp_new (1000 + growth)))) (fp_mul (poly_eval (difficulty_poly a b c) (dp_challenge \<pi>)) (fp_new 1000))"
  shows "verify_tower K \<pi> growth a b c f n = Some (Inr ())"
proof -
  have k: "TOWER_LOG2 = 7" "(7 :: nat) + 2 = 9" "of_nat TOWER_LAYERS = (127 :: u64)" "of_nat TOWER_ROWS = (128 :: u64)"
    by (simp_all add: TOWER_LAYERS_def TOWER_ROWS_def TOWER_LOG2_def)
  show ?thesis unfolding verify_tower_def Let_def k assms(1-4) using assms(5) by simp
qed

text \<open>The tower is complete: for every hash function, start, growth, difficulty and number of
  queries the prover does not panic, and the verifier accepts its proof for the simulated power of the
  127th layer, unless the challenge happens to be the last point of the trace, where the denominator
  of the vanishing polynomial is zero.\<close>

theorem tower_complete:
  "\<exists>\<pi>. prove_tower K p0 growth a b c n = Some \<pi> \<and> derive_challenge K \<pi> = dp_challenge \<pi> \<and>
    (dp_challenge \<pi> \<noteq> fp_pow (fp_root_of_unity TOWER_LOG2) (of_nat TOWER_LAYERS) \<longrightarrow>
     verify_tower K \<pi> growth a b c (simulate_tower p0 growth a b c TOWER_LAYERS) n = Some (Inr ()))"
proof -
  define d g s0 where "d = difficulty_poly a b c" and "g = fp_new (1000 + growth)"
    and "s0 = fp_new (saturating_mul p0 1000)"
  have ok: "fp_ok g" "fp_ok s0" by (simp_all add: g_def s0_def)
  define t where "t = poly_interpolate (fri_domain 7) (tower_trace g d 0 127 s0)"
  define p where "p = poly_add (poly_sub (poly_scale_var t (fp_root_of_unity 7)) (poly_mul t (poly_constant g)))
      (poly_mul d (poly_constant (fp_new 1000)))"
  obtain q r where q: "poly_div_mod p tower_vanishing = (q, r)" "poly_ok q" "length q \<le> 512" "poly_ok t"
      "length t \<le> 512" "poly_val t (gf_root 7 ^ 127) = gf_of (fold (tower_step g d) [0..<127] s0)"
      "\<And>x. poly_val q x * poly_val tower_vanishing x
         = poly_val t (gf_root 7 * x) - poly_val t x * gf_of g + poly_val d x * gf_of (fp_new 1000)"
    using tower_quotient [OF ok, of a b c] unfolding t_def p_def d_def by metis
  let ?pt = "fp_pow (fp_root_of_unity 7) 127"
  have "?pt \<in> set (fri_domain 9)"
    using tower_last_point nth_mem [of 508 "fri_domain 9"]
    by (simp add: TOWER_LAYERS_def TOWER_ROWS_def TOWER_LOG2_def)
  then have pt: "gf_of ?pt = gf_root 7 ^ 127" "?pt \<in> set (fri_domain 9)" by simp_all
  have l: "length t \<le> 2 ^ 9" "length q \<le> 2 ^ 9" using q(3,5) by simp_all
  obtain tf qf where F: "fri_prove K t 9 n transcript_new (Some ?pt) = Some tf"
      "fri_verify K tf 9 n transcript_new (Some (?pt, poly_eval t ?pt)) = Some (Inr ())"
      "fri_prove K q 9 n transcript_new None = Some qf"
      "fri_verify K qf 9 n transcript_new None = Some (Inr ())"
    using two_commitments [OF q(4,2) l _ _ pt(2), of K n] by auto
  let ?f = "simulate_tower p0 growth a b c TOWER_LAYERS"
  have L: "TOWER_LOG2 = 7" "TOWER_LOG2 + 2 = 9" "(7 :: nat) + 2 = 9" "TOWER_LAYERS = 127" "TOWER_ROWS - 1 = 127"
      "of_nat 127 = (127 :: u64)" by (simp_all add: TOWER_LAYERS_def TOWER_ROWS_def TOWER_LOG2_def)
  have f: "?f = fold (tower_step g d) [0..<127] s0"
    unfolding simulate_tower_def L g_def d_def s0_def ..
  have fok: "fp_ok ?f" unfolding f by (rule tower_power_ok [OF ok(2)])
  have "gf_of (poly_eval t ?pt) = gf_of ?f" using pt(1) q(4,6) by (simp add: poly_eval_correct f)
  then have e: "poly_eval t ?pt = fp_new ?f" unfolding fp_new_ok [OF fok]
    by (rule iffD1 [OF gf_of_inject [OF poly_eval_correct(1) [OF q(4)] fok]])
  let ?p0 = "\<lparr>dp_trace_fri = tf, dp_quotient_fri = qf, dp_challenge = 0, dp_opens = (0, 0, 0)\<rparr>"
  define chi where "chi = derive_challenge K ?p0"
  let ?pf = "?p0\<lparr>dp_challenge := chi,
      dp_opens := (poly_eval t chi, poly_eval t (fp_mul (fp_root_of_unity 7) chi), poly_eval q chi)\<rparr>"
  have chi: "fp_ok chi" "derive_challenge K ?pf = chi" by (simp_all add: chi_def derive_challenge_def Let_def)
  have prove: "prove_tower K p0 growth a b c n = Some ?pf"
    unfolding prove_tower_def Let_def L g_def [symmetric] d_def [symmetric] s0_def [symmetric] t_def [symmetric]
      p_def [symmetric] q(1) prod.case F(1,3) option.case chi_def ..
  let ?z = "fp_mul (fp_sub (fp_pow chi 128) 1) (fp_inv (fp_sub chi ?pt))"
  have "verify_tower K ?pf growth a b c ?f n = Some (Inr ())" if ne: "chi \<noteq> ?pt"
  proof (rule verify_tower_ok)
    have nz: "gf_of chi - gf_root 7 ^ 127 \<noteq> 0"
      using ne gf_of_inject [OF chi(1), of ?pt] by (simp add: pt(1))
    have "gf_of ?z = (gf_of chi ^ 128 - 1) * inverse (gf_of chi - gf_root 7 ^ 127)"
      by (simp add: fp_sub_correct chi(1) gf_of_inv)
    then have z: "gf_of ?z = poly_val tower_vanishing (gf_of chi)"
      unfolding tower_vanishing_correct(6) [symmetric] mult.assoc by (simp only: right_inverse [OF nz] mult_1_right)
    let ?lhs = "fp_mul (poly_eval q chi) ?z"
    let ?rhs = "fp_add (fp_sub (poly_eval t (fp_mul (fp_root_of_unity 7) chi)) (fp_mul (poly_eval t chi) g))
        (fp_mul (poly_eval d chi) (fp_new 1000))"
    have "?lhs = ?rhs"
    proof (rule iffD1 [OF gf_of_inject])
      have dok: "poly_ok d" by (simp add: d_def)
      show "gf_of ?lhs = gf_of ?rhs"
        unfolding gf_of_mul [of "poly_eval q chi"] z poly_eval_correct(2) [OF q(2)] q(7)
        by (simp add: fp_add_correct fp_sub_correct poly_eval_correct q(4) dok)
    qed (simp_all add: fp_add_correct fp_sub_correct poly_eval_correct q(4))
    then show "fp_mul (poly_eval q chi) (fp_mul (fp_sub (fp_pow (dp_challenge ?pf) 128) 1)
          (fp_inv (fp_sub (dp_challenge ?pf) ?pt)))
        = fp_add (fp_sub (poly_eval t (fp_mul (fp_root_of_unity 7) chi)) (fp_mul (poly_eval t chi) (fp_new (1000 + growth))))
            (fp_mul (poly_eval (difficulty_poly a b c) (dp_challenge ?pf)) (fp_new 1000))"
      by (simp add: g_def d_def)
  qed (use F(2,4) chi(2) e in simp_all)
  then show ?thesis using prove chi(2) by (simp add: L)
qed

lemma tower_complete_witness:
  "\<exists>\<pi>. prove_tower (\<lambda>_. 0) 50 20 1 2 3 16 = Some \<pi> \<and>
    verify_tower (\<lambda>_. 0) \<pi> 20 1 2 3 (simulate_tower 50 20 1 2 3 TOWER_LAYERS) 16 = Some (Inr ())"
proof -
  have "gf_of (derive_challenge (\<lambda>_. 0) \<pi>) = 0" for \<pi> by (simp add: derive_challenge_def Let_def hash_u64_def)
  moreover have "gf_of (fp_pow (fp_root_of_unity TOWER_LOG2) (of_nat TOWER_LAYERS)) \<noteq> 0" by simp
  ultimately show ?thesis using tower_complete [of "\<lambda>_. 0" 50 20 1 2 3 16] by metis
qed

end
