(* ===== verification/Enhance.thy ===== *)
theory Enhance
  imports Fri
begin

unbundle bit_operations_syntax

section \<open>Proof of an enhancement roll\<close>

text \<open>
  \<open>zk/src/enhance.rs\<close>: the roll is three rounds of xorshift on a secret seed, modulo 1000.  The
  trace has one column for each bit and one row for each of the ten words; the constraints say that the
  entries are bits, that each row follows from the one before, and that the last word is
  1000 times the quotient plus the public roll.  All constraints are combined with coefficients
  squeezed from an empty transcript.

  The verifier takes the challenge and the opened values of the columns as the proof gives them: it
  neither recomputes the challenge nor ties the openings to a commitment.
\<close>

subsection \<open>The roll\<close>

definition xorshift :: "u64 \<Rightarrow> u64" where
  "xorshift x =
     (let x = x XOR push_bit 13 x;
          x = x XOR drop_bit 7 x;
          x = x XOR push_bit 17 x
      in x)"

definition enhance_roll :: "u64 \<Rightarrow> u64 \<times> u64" where
  "enhance_roll seed = (let x = xorshift (xorshift (xorshift seed)) in (x, x mod 1000))"

definition bits_of :: "u64 \<Rightarrow> u8 list" where
  "bits_of v = map (\<lambda>i. ucast (drop_bit i v AND 1)) [0..<64]"

definition xorshift_sub :: "u64 \<Rightarrow> u8 \<Rightarrow> u64" where
  "xorshift_sub x kind =
     (if kind = 0 then x XOR push_bit 13 x
      else if kind = 1 then x XOR drop_bit 7 x
      else x XOR push_bit 17 x)"

definition STEPS :: "(nat \<times> u8) list" where
  "STEPS = [(0, 0), (1, 1), (2, 2), (3, 0), (4, 1), (5, 2), (6, 0), (7, 1), (8, 2)]"

subsection \<open>The proof and its parameters\<close>

record EnhanceProof =
  ep_tau_fri :: FriProof
  ep_quotient_fri :: FriProof
  ep_challenge :: Fp
  ep_col_opens :: "(Fp \<times> Fp \<times> Fp \<times> Fp) list"
  ep_q_at_chi :: Fp

definition N_LOG2 :: nat where "N_LOG2 = 4"

definition FRI_K :: nat where "FRI_K = 7"

definition ZK_ENHANCE_QUERIES :: nat where "ZK_ENHANCE_QUERIES = 16"

definition MIN_ENHANCE_QUERIES :: nat where "MIN_ENHANCE_QUERIES = 16"

definition enhance_challenge :: "keccak \<Rightarrow> hash \<Rightarrow> hash \<Rightarrow> Fp list \<Rightarrow> Fp" where
  "enhance_challenge K tau_root q_root q_coeffs =
     fp_new (hash_u64 (K (be_bytes tau_root @ be_bytes q_root @ concat (map be_bytes q_coeffs))))"

text \<open>The first \<open>n\<close> field elements of a transcript.\<close>

fun squeeze_many :: "keccak \<Rightarrow> nat \<Rightarrow> Transcript \<Rightarrow> Fp list \<times> Transcript" where
  "squeeze_many K 0 tr = ([], tr)"
| "squeeze_many K (Suc n) tr =
     (let (a, tr) = squeeze_fp K tr; (as, tr) = squeeze_many K n tr in (a # as, tr))"

subsection \<open>Trace and constraints\<close>

fun trace_words :: "u64 \<Rightarrow> (nat \<times> u8) list \<Rightarrow> u64 list" where
  "trace_words cur [] = [cur]"
| "trace_words cur ((row, kind) # steps) = cur # trace_words (xorshift_sub cur kind) steps"

definition build_trace :: "u64 \<Rightarrow> u64 \<Rightarrow> Fp list list" where
  "build_trace seed roll =
     (let words = trace_words seed STEPS;
          trace = replicate 16 (replicate 64 0);
          trace = fold (\<lambda>(row, word) tr. tr[row := map (\<lambda>b. fp_new (ucast b)) (bits_of word)])
                    (zip [0..<length words] words) trace;
          r = bits_of roll;
          trace = trace[10 := map (\<lambda>b. fp_new (ucast b)) (take 10 r) @ drop 10 (trace ! 10)];
          x = last words;
          q = saturating_sub x roll div 1000
      in trace[14 := (trace ! 14)[0 := fp_new q]])"

text \<open>The column that step \<open>kind\<close> combines with column \<open>j\<close>; \<open>zero\<close> where the shift leaves none.\<close>

definition step_source :: "'a \<Rightarrow> (nat \<Rightarrow> 'a) \<Rightarrow> u8 \<Rightarrow> nat \<Rightarrow> 'a" where
  "step_source zero cols kind j =
     (if kind = 0 then if 13 \<le> j then cols (j - 13) else zero
      else if kind = 1 then if j + 7 < 64 then cols (j + 7) else zero
      else if 17 \<le> j then cols (j - 17) else zero)"

definition step_constraint :: "Poly list \<Rightarrow> Fp \<Rightarrow> u8 \<Rightarrow> nat \<Rightarrow> Poly" where
  "step_constraint cols omega kind j =
     (let src = step_source poly_zero (\<lambda>i. cols ! i) kind j;
          xor = poly_sub (poly_add (cols ! j) src) (poly_scale (poly_mul (cols ! j) src) (fp_new 2))
      in poly_sub (poly_scale_var (cols ! j) omega) xor)"

text \<open>The weighted sum of the columns \<open>js\<close>, each scaled by \<open>s\<close> in its variable, with weights the
  powers of two.\<close>

definition weighted_columns :: "Poly list \<Rightarrow> Fp \<Rightarrow> nat \<Rightarrow> Poly" where
  "weighted_columns cols s n =
     fst (fold (\<lambda>j (sum, pow2). (poly_add sum (poly_scale (poly_scale_var (cols ! j) s) pow2), fp_mul pow2 (fp_new 2)))
            [0..<n] (poly_zero, 1))"

definition build_constraints :: "Poly list \<Rightarrow> Fp \<Rightarrow> (nat list \<times> Poly) list" where
  "build_constraints cols omega =
     (let bit = (\<lambda>j. poly_sub (poly_mul (cols ! j) (cols ! j)) (cols ! j));
          omega_inv = fp_inv omega;
          omega_inv4 = fp_mul (fp_mul (fp_mul omega_inv omega_inv) omega_inv) omega_inv;
          x_sum = weighted_columns cols (fp_mul omega_inv4 omega_inv) 64;
          r_sum = weighted_columns cols omega_inv4 10;
          c_mod = poly_sub (poly_sub x_sum (poly_scale (cols ! 0) (fp_new 1000))) r_sum
      in map (\<lambda>j. ([0..<10], bit j)) [0..<64]
       @ map (\<lambda>j. ([10], bit j)) [0..<10]
       @ concat (map (\<lambda>(row, kind). map (\<lambda>j. ([row], step_constraint cols omega kind j)) [0..<64]) STEPS)
       @ [([14], c_mod)]
       @ map (\<lambda>j. ([10], cols ! j)) [10..<64]
       @ concat (map (\<lambda>row. map (\<lambda>j. ([row], cols ! j)) [0..<64]) [11, 12, 13, 15])
       @ map (\<lambda>j. ([14], cols ! j)) [1..<64])"

definition vanishing_of :: "nat list \<Rightarrow> Fp \<Rightarrow> Poly" where
  "vanishing_of rows omega =
     fold (\<lambda>m z. poly_mul z (linear_factor (fp_pow omega (of_nat m)))) rows (poly_from_coeffs [1])"

subsection \<open>Prover and verifier\<close>

text \<open>The weighted sum of polynomials.\<close>

definition combine :: "Poly list \<Rightarrow> Fp list \<Rightarrow> Poly" where
  "combine ps weights = fold (\<lambda>(p, a) sum. poly_add sum (poly_scale p a)) (zip ps weights) poly_zero"

definition prove_enhance :: "keccak \<Rightarrow> u64 \<Rightarrow> u64 \<Rightarrow> nat \<Rightarrow> EnhanceProof option" where
  "prove_enhance K seed roll num_queries =
     (if snd (enhance_roll seed) \<noteq> roll then None
      else
       (let omega = fp_root_of_unity N_LOG2;
            omega_inv = fp_inv omega;
            trace = build_trace seed roll;
            d = fri_domain N_LOG2;
            cols = map (\<lambda>j. poly_interpolate d (map (\<lambda>r. trace ! r ! j) [0..<16])) [0..<64];
            csts = build_constraints cols omega;
            quotients = map (\<lambda>(rows, c). fst (poly_div_mod c (vanishing_of rows omega))) csts;
            (betas, tr) = squeeze_many K 64 transcript_new;
            (alphas, tr) = squeeze_many K (length csts) tr;
            tau = combine cols betas;
            q_combined = combine quotients alphas;
            boundary_pt = fp_pow omega 10
        in case fri_prove K tau (FRI_K - 1) num_queries transcript_new (Some boundary_pt) of None \<Rightarrow> None
           | Some tau_fri \<Rightarrow> (case fri_prove K q_combined FRI_K num_queries transcript_new None of None \<Rightarrow> None
           | Some quotient_fri \<Rightarrow>
               (let chi = enhance_challenge K (hd (fr_roots tau_fri)) (hd (fr_roots quotient_fri))
                            (fr_final_coeffs quotient_fri);
                    inv4 = fp_mul (fp_mul (fp_mul omega_inv omega_inv) omega_inv) omega_inv;
                    col_opens = map (\<lambda>col. (poly_eval col chi, poly_eval col (fp_mul omega chi),
                       poly_eval col (fp_mul inv4 chi), poly_eval col (fp_mul (fp_mul inv4 omega_inv) chi))) cols
                in Some \<lparr>ep_tau_fri = tau_fri, ep_quotient_fri = quotient_fri, ep_challenge = chi,
                     ep_col_opens = col_opens, ep_q_at_chi = poly_eval q_combined chi\<rparr>))))"

text \<open>The values of the constraints at the challenge, computed from the opened values of the columns,
  each with the rows of its vanishing polynomial, in the order of the coefficients.\<close>

definition weighted_values :: "(nat \<Rightarrow> Fp) \<Rightarrow> nat \<Rightarrow> Fp" where
  "weighted_values t n =
     fst (fold (\<lambda>j (sum, p2). (fp_add sum (fp_mul (t j) p2), fp_mul p2 (fp_new 2))) [0..<n] (0, 1))"

definition constraint_values ::
  "(nat \<Rightarrow> Fp) \<Rightarrow> (nat \<Rightarrow> Fp) \<Rightarrow> (nat \<Rightarrow> Fp) \<Rightarrow> (nat \<Rightarrow> Fp) \<Rightarrow> (nat list \<times> Fp) list" where
  "constraint_values t0 t1 t2 t3 =
     (let xor2 = (\<lambda>a b. fp_sub (fp_add a b) (fp_mul (fp_mul a b) (fp_new 2)));
          bit = (\<lambda>j. fp_sub (fp_mul (t0 j) (t0 j)) (t0 j));
          c_mod = fp_sub (fp_sub (weighted_values t3 64) (fp_mul (t0 0) (fp_new 1000))) (weighted_values t2 10)
      in map (\<lambda>j. ([0..<10], bit j)) [0..<64]
       @ map (\<lambda>j. ([10], bit j)) [0..<10]
       @ concat (map (\<lambda>(row, kind). map (\<lambda>j. ([row], fp_sub (t1 j) (xor2 (t0 j) (step_source 0 t0 kind j)))) [0..<64]) STEPS)
       @ [([14], c_mod)]
       @ map (\<lambda>j. ([10], t0 j)) [10..<64]
       @ concat (map (\<lambda>row. map (\<lambda>j. ([row], t0 j)) [0..<64]) [11, 12, 13, 15])
       @ map (\<lambda>j. ([14], t0 j)) [1..<64])"

definition vanishing_at :: "Fp \<Rightarrow> Fp \<Rightarrow> nat list \<Rightarrow> Fp" where
  "vanishing_at omega chi rows = fold (\<lambda>m z. fp_mul z (fp_sub chi (fp_pow omega (of_nat m)))) rows 1"

definition verify_enhance :: "keccak \<Rightarrow> EnhanceProof \<Rightarrow> u64 \<Rightarrow> nat \<Rightarrow> (string + unit) option" where
  "verify_enhance K proof' roll num_queries =
     (if num_queries < MIN_ENHANCE_QUERIES
        then Some (Inl (''query count '' @ show_nat num_queries @ '' below soundness floor '' @ show_nat MIN_ENHANCE_QUERIES))
      else
       (let omega = fp_root_of_unity N_LOG2;
            boundary_pt = fp_pow omega 10;
            (betas, tr) = squeeze_many K 64 transcript_new;
            rbits = bits_of roll;
            expected = fold (\<lambda>j e. fp_add e (fp_mul (betas ! j) (fp_new (ucast (rbits ! j))))) [0..<10] 0;
            num_csts = 64 + 10 + 9 * 64 + 1 + 54 + (64 - 1) + 4 * 64;
            (alphas, tr) = squeeze_many K num_csts tr
        in case fri_verify K (ep_tau_fri proof') (FRI_K - 1) num_queries transcript_new (Some (boundary_pt, expected)) of
             None \<Rightarrow> None
           | Some (Inl e) \<Rightarrow> Some (Inl e)
           | Some (Inr _) \<Rightarrow>
          (case fri_verify K (ep_quotient_fri proof') FRI_K num_queries transcript_new None of
             None \<Rightarrow> None
           | Some (Inl e) \<Rightarrow> Some (Inl e)
           | Some (Inr _) \<Rightarrow>
             if length (ep_col_opens proof') < 64 then None
             else
              (let chi = ep_challenge proof';
                   t0 = (\<lambda>i. fst (ep_col_opens proof' ! i));
                   t1 = (\<lambda>i. fst (snd (ep_col_opens proof' ! i)));
                   t2 = (\<lambda>i. fst (snd (snd (ep_col_opens proof' ! i))));
                   t3 = (\<lambda>i. snd (snd (snd (ep_col_opens proof' ! i))));
                   rhs = fold (\<lambda>(a, rows, c) rhs. fp_add rhs (fp_mul (fp_mul a c) (fp_inv (vanishing_at omega chi rows))))
                           (zip alphas (constraint_values t0 t1 t2 t3)) 0
               in if rhs \<noteq> ep_q_at_chi proof' then Some (Inl ''constraint check failed'') else Some (Inr ())))))"

subsection \<open>Every roll has an accepted proof\<close>

definition roll_boundary :: "keccak \<Rightarrow> u64 \<Rightarrow> Fp" where
  "roll_boundary K roll =
     (let betas = fst (squeeze_many K 64 transcript_new)
      in fold (\<lambda>j e. fp_add e (fp_mul (betas ! j) (fp_new (ucast (bits_of roll ! j))))) [0..<10] 0)"

definition forged_enhance :: "keccak \<Rightarrow> u64 \<Rightarrow> Fp \<Rightarrow> nat \<Rightarrow> EnhanceProof" where
  "forged_enhance K roll chi num_queries =
     \<lparr>ep_tau_fri = constant_proof K 6 num_queries 40 (roll_boundary K roll),
      ep_quotient_fri = constant_proof K 7 num_queries 0 0, ep_challenge = chi,
      ep_col_opens = replicate 64 (0, 0, 0, 0), ep_q_at_chi = 0\<rparr>"

lemma fp_zero_ops [simp]: "fp_add 0 0 = 0" "fp_sub 0 0 = 0" "fp_mul 0 a = 0" "fp_mul a 0 = 0"
  by (rule iffD1 [OF gf_of_inject]; simp add: fp_add_correct fp_sub_correct)+

lemma roll_boundary_ok: "fp_ok (roll_boundary K roll)"
proof -
  have "fp_ok (fold (\<lambda>j e. fp_add e (fp_mul (f j) (g j))) js a)" if "fp_ok a" for f g a and js :: "nat list"
    using that by (induction js arbitrary: a) (simp_all add: fp_add_correct)
  then show ?thesis by (simp add: roll_boundary_def Let_def)
qed

lemma roll_last_point: "fp_pow (fp_root_of_unity 4) 10 = fri_domain 6 ! 40"
proof -
  have "gf_root 6 ^ 4 = gf_root 4" using gf_root_power [of 2 4] by simp
  then have "gf_root 4 ^ 10 = gf_root 6 ^ (4 * 10)" by (simp only: power_mult)
  then have "gf_of (fp_pow (fp_root_of_unity 4) 10) = gf_of (fri_domain 6 ! 40)" by (simp add: fri_domain_nth)
  then show ?thesis by (rule iffD1 [OF gf_of_inject, rotated -1]) (simp_all add: fri_domain_nth)
qed

lemma zero_weights: "(\<And>j. j \<in> set js \<Longrightarrow> t j = 0) \<Longrightarrow>
    fst (fold (\<lambda>j (sum, p2). (fp_add sum (fp_mul (t j) p2), fp_mul p2 (fp_new 2))) js (0, p)) = 0"
  by (induction js arbitrary: p) simp_all

lemma zero_constraints:
  assumes "\<And>i. i < 64 \<Longrightarrow> t0 i = 0 \<and> t1 i = 0 \<and> t2 i = 0 \<and> t3 i = 0"
    "c \<in> set (map snd (constraint_values t0 t1 t2 t3))"
  shows "c = 0"
proof -
  have "weighted_values t3 64 = 0" "weighted_values t2 10 = 0"
    using assms(1) by (auto simp: weighted_values_def intro!: zero_weights)
  moreover have "step_source 0 t0 k j = 0" if "j < 64" for k j using assms(1) that by (auto simp: step_source_def)
  ultimately show "c = 0" using assms by (auto simp: constraint_values_def Let_def STEPS_def)
qed

lemma zero_combination:
  "(\<And>c. c \<in> set (map snd cs) \<Longrightarrow> c = 0) \<Longrightarrow>
    fold (\<lambda>(a, rows, c) rhs. fp_add rhs (fp_mul (fp_mul a c) (f rows))) (zip as cs) 0 = 0"
proof (induction cs arbitrary: as)
  case (Cons c cs)
  have "snd c = 0" "\<And>c. c \<in> set (map snd cs) \<Longrightarrow> c = 0" using Cons.prems by auto
  then show ?case using Cons.IH by (cases c; cases as) simp_all
qed simp

lemma forged_enhance_verdict:
  assumes "MIN_ENHANCE_QUERIES \<le> n"
  shows "verify_enhance K (forged_enhance K roll chi n) roll n = Some (Inr ()) \<and>
    verify_enhance K ((forged_enhance K roll chi n)\<lparr>ep_col_opens := []\<rparr>) roll n = None"
proof -
  let ?p = "forged_enhance K roll chi n"
  let ?b = "roll_boundary K roll"
  obtain betas tr where sq: "squeeze_many K 64 transcript_new = (betas, tr)" by fastforce
  have b: "fold (\<lambda>j e. fp_add e (fp_mul (betas ! j) (fp_new (ucast (bits_of roll ! j))))) [0..<10] 0 = ?b"
    by (simp add: roll_boundary_def sq)
  have t: "fri_verify K (ep_tau_fri ?p) 6 n transcript_new (Some (fri_domain 6 ! 40, ?b)) = Some (Inr ())"
    by (simp add: forged_enhance_def constant_proof_verify [OF roll_boundary_ok] constant_boundary)
  have q: "fri_verify K (ep_quotient_fri ?p) 7 n transcript_new None = Some (Inr ())"
    by (simp add: forged_enhance_def constant_proof_verify check_boundary_def)
  have k: "N_LOG2 = 4" "FRI_K - 1 = 6" "FRI_K = 7" "\<not> n < MIN_ENHANCE_QUERIES"
    using assms by (simp_all add: N_LOG2_def FRI_K_def)
  let ?o = "ep_col_opens ?p"
  have z: "fold (\<lambda>(a, rows, c) rhs. fp_add rhs (fp_mul (fp_mul a c) (f rows))) (zip as (constraint_values
      (\<lambda>i. fst (?o ! i)) (\<lambda>i. fst (snd (?o ! i))) (\<lambda>i. fst (snd (snd (?o ! i)))) (\<lambda>i. snd (snd (snd (?o ! i)))))) 0 = 0"
    for f as
    by (rule zero_combination, erule zero_constraints [rotated]) (simp add: forged_enhance_def)
  have len: "length ?o = 64" "ep_q_at_chi ?p = 0" by (simp_all add: forged_enhance_def)
  have 1: "verify_enhance K ?p roll n = Some (Inr ())"
    unfolding verify_enhance_def Let_def k sq prod.case roll_last_point if_False b t q z
    using k(4) by (simp add: t q z len split: prod.split)
  have "verify_enhance K (?p\<lparr>ep_col_opens := []\<rparr>) roll n = None"
    unfolding verify_enhance_def Let_def k sq prod.case roll_last_point if_False b
    using t q k(4) by (simp split: prod.split)
  with 1 show ?thesis ..
qed

text \<open>The verifier of an enhancement roll accepts every roll: for every hash function, every roll,
  every admissible number of queries and even every challenge there is a proof, computed without any
  seed, that it accepts; a proof with fewer than 64 opened columns makes it panic.\<close>

theorem enhance_accepts_any_roll:
  assumes "MIN_ENHANCE_QUERIES \<le> n"
  shows "verify_enhance K (forged_enhance K roll chi n) roll n = Some (Inr ()) \<and>
    verify_enhance K ((forged_enhance K roll chi n)\<lparr>ep_col_opens := []\<rparr>) roll n = None"
  by (rule forged_enhance_verdict [OF assms])

lemma enhance_accepts_any_roll_witness:
  "verify_enhance (\<lambda>_. 0) (forged_enhance (\<lambda>_. 0) 7 3 16) 7 16 = Some (Inr ())"
  using enhance_accepts_any_roll [of 16 "\<lambda>_. 0" 7 3] by (simp add: MIN_ENHANCE_QUERIES_def)

end
