(* ===== verification/Game.thy ===== *)
theory Game
  imports Block Governance Stark Enhance
begin

section \<open>Game rules\<close>

text \<open>
  \<open>game.rs\<close>: the operations a transaction of the game domain carries, the recomputation of their
  claims, the action engine (battles with drops, enhancement) and the rewards for proofs of
  \<open>zk\<close>.  The crate \<open>shanhai-core\<close>, which is not part of the repository, supplies the battle of two
  teams, the random generator, the enhancement roll and the tables; \<open>serde_json\<close> and \<open>bincode\<close>
  supply the decoders.  All of these are fields of \<open>game_externals\<close>.  Of the configurations only
  the fields that the repository reads are modelled; their arrays have twelve entries.

  Of the fields of an operation the constructors list the values in the order of the source.
  Arithmetic on \<open>u8\<close> and \<open>u16\<close> that the code leaves unchecked wraps.
\<close>

subsection \<open>JSON values\<close>

text \<open>\<open>serde_json::Value\<close>: the entries of an object are sorted by key, and numbers are unsigned,
  negative or floating (as bits).\<close>

datatype json_number = PosInt u64 | NegInt "64 word" | Float u64

datatype json =
    JNull
  | JBool bool
  | JNumber json_number
  | JString string
  | JArray "json list"
  | JObject "(string \<times> json) list"

definition json_get :: "string \<Rightarrow> json \<Rightarrow> json option" where
  "json_get key v = (case v of JObject kvs \<Rightarrow> map_of kvs key | _ \<Rightarrow> None)"

definition json_str :: "json \<Rightarrow> string option" where
  "json_str v = (case v of JString s \<Rightarrow> Some s | _ \<Rightarrow> None)"

definition json_bool :: "json \<Rightarrow> bool option" where
  "json_bool v = (case v of JBool b \<Rightarrow> Some b | _ \<Rightarrow> None)"

definition json_u64 :: "json \<Rightarrow> u64 option" where
  "json_u64 v = (case v of JNumber (PosInt n) \<Rightarrow> Some n | _ \<Rightarrow> None)"

abbreviation JNat :: "'a::len word \<Rightarrow> json" where
  "JNat n \<equiv> JNumber (PosInt (ucast n))"

subsection \<open>Types of the rules crate\<close>

text \<open>A team and the state of the generator are opaque to the repository; a byte string stands for
  them.\<close>

type_synonym Team = "u8 list"
type_synonym Prng = "u8 list"

record BattleReport =
  br_winner :: u8
  br_total_rounds :: u32

record RollResult =
  rr_success :: bool
  rr_new_level :: u8
  rr_pity :: u8

record EnhanceConfig =
  ec_version :: u64
  ec_cost_sh :: "u64 list"
  ec_success_permille :: "u16 list"
  ec_star_stone_bonus :: u16
  ec_star_stone_cap :: u16
  ec_pity :: u8

record DropSpec =
  ds_item_id :: string
  ds_permille :: u64
  ds_count :: u64
  ds_price_shc :: u64

record MonsterSpec =
  ms_hp :: u64
  ms_atk :: u64
  ms_def :: u64
  ms_drops :: "DropSpec list"

record MonsterTableConfig =
  mt_version :: u64
  mt_monster :: "string \<rightharpoonup> MonsterSpec"

subsection \<open>Operations\<close>

record BattleTeams =
  team_a :: Team
  team_b :: Team

datatype ActionKind = KindBattle | KindEnhance

record TeamUnit =
  tu_atk :: u64
  tu_def :: u64
  tu_hp :: u64

datatype ActionInput =
    InputBattle string "TeamUnit list"
  | InputEnhance string u8 u8 u16

record ActionDrop =
  ad_item_id :: string
  ad_count :: u64
  ad_price_shc :: u64

record ActionOutcome =
  ao_result :: json
  ao_drops :: "ActionDrop list"

record ActionSession =
  as_session_id :: string
  as_action_type :: ActionKind
  as_inputs :: ActionInput
  as_rules_version :: u64
  as_creator :: string
  as_created_at_unix :: u64
  as_settled :: bool
  as_result :: "json option"

record MintPolicy =
  mp_version :: u64
  mp_per_mint_cap :: u64

definition MintPolicy_default :: MintPolicy where
  "MintPolicy_default = \<lparr>mp_version = 1, mp_per_mint_cap = 1000000000\<rparr>"

datatype GameOp =
    OpBattleSettle string BattleTeams u64 u8 u32 u64
  | OpEnhance string u8 u8 u16 u64 bool u8 u8 u64
  | OpPropose string "json ProposalKind" string u64 u64
  | OpVote string string u64 bool
  | OpExecute string
  | OpTransferCoin string u64
  | OpTransferToken u64 string u64
  | OpPvpCommit string string BattleTeams string u64
  | OpPvpReveal string string u64
  | OpPvpSettle string u8 u32 u64
  | OpZkTowerClaim string u64 u64 u64 u64 u64 u64 string
  | OpZkEnhance string u8 u8 u16 u64 bool u8 u8 u64 string
  | OpActionStart string ActionKind ActionInput u64 string u64
  | OpActionSettle string u64 string json "ActionDrop list"
  | OpSellDrop string string

datatype GameError =
    InvalidPayload string
  | BattleOutcomeMismatch u8 u8
  | BattleRoundsMismatch u32 u32
  | EnhanceSuccessMismatch bool bool
  | EnhanceLevelMismatch u8 u8
  | EnhancePityMismatch u8 u8

text \<open>\<open>battle_resolve\<close>, the generator and \<open>roll_with_config\<close> belong to the rules crate; a decoder
  returns its error text or the value.\<close>

record game_externals = externals +
  battle_resolve :: "Team \<Rightarrow> Team \<Rightarrow> u64 \<Rightarrow> BattleReport"
  prng_new :: "u64 \<Rightarrow> Prng"
  prng_below :: "u64 \<Rightarrow> Prng \<Rightarrow> u64 \<times> Prng"
  prng_chance :: "u64 \<Rightarrow> Prng \<Rightarrow> bool \<times> Prng"
  roll_with_config :: "u8 \<Rightarrow> u8 \<Rightarrow> u64 \<Rightarrow> u16 \<Rightarrow> EnhanceConfig \<Rightarrow> RollResult"
  default_enhance_config :: EnhanceConfig
  default_monster_table :: MonsterTableConfig
  decode_game_op :: "u8 list \<Rightarrow> string + GameOp"
  decode_proposal :: "u8 list \<Rightarrow> string + json Proposal"
  decode_session :: "u8 list \<Rightarrow> string + ActionSession"
  decode_enhance_config :: "u8 list \<Rightarrow> string + EnhanceConfig"
  decode_monster_table :: "u8 list \<Rightarrow> string + MonsterTableConfig"
  decode_mint_policy :: "u8 list \<Rightarrow> string + MintPolicy"
  decode_json :: "u8 list \<Rightarrow> string + json"
  decode_teams :: "json \<Rightarrow> string + BattleTeams"
  encode_teams :: "BattleTeams \<Rightarrow> u8 list"
  decode_tower_proof :: "u8 list \<Rightarrow> string + TowerProof"
  decode_enhance_proof :: "u8 list \<Rightarrow> string + EnhanceProof"

definition show_bool :: "bool \<Rightarrow> string" where
  "show_bool b = (if b then ''true'' else ''false'')"

definition show_word :: "'a::len word \<Rightarrow> string" where
  "show_word w = show_nat (unat w)"

fun game_error_text :: "GameError \<Rightarrow> string" where
  "game_error_text (InvalidPayload e) = ''invalid game payload: '' @ e"
| "game_error_text (BattleOutcomeMismatch claimed computed) =
     ''battle outcome mismatch: claimed winner='' @ show_word claimed @ '', computed='' @ show_word computed"
| "game_error_text (BattleRoundsMismatch claimed computed) =
     ''battle rounds mismatch: claimed='' @ show_word claimed @ '', computed='' @ show_word computed"
| "game_error_text (EnhanceSuccessMismatch claimed computed) =
     ''enhance success mismatch: claimed='' @ show_bool claimed @ '', computed='' @ show_bool computed"
| "game_error_text (EnhanceLevelMismatch claimed computed) =
     ''enhance level mismatch: claimed='' @ show_word claimed @ '', computed='' @ show_word computed"
| "game_error_text (EnhancePityMismatch claimed computed) =
     ''enhance pity mismatch: claimed='' @ show_word claimed @ '', computed='' @ show_word computed"

definition parse_game_op :: "game_externals \<Rightarrow> u8 list \<Rightarrow> GameError + GameOp" where
  "parse_game_op x payload' = (case decode_game_op x payload' of Inl e \<Rightarrow> Inl (InvalidPayload e) | Inr op \<Rightarrow> Inr op)"

subsection \<open>Trimmed text and addresses of configuration objects\<close>

text \<open>The UTF-8 forms of the characters with the Unicode property \<open>White_Space\<close>.\<close>

definition white_chars :: "string list" where
  "white_chars = map (map char_of)
     ([[9], [10], [11], [12], [13], [32], [0xC2, 0x85], [0xC2, 0xA0], [0xE1, 0x9A, 0x80 :: nat]]
      @ map (\<lambda>b. [0xE2, 0x80, b]) [0x80..<0x8B]
      @ [[0xE2, 0x80, 0xA8], [0xE2, 0x80, 0xA9], [0xE2, 0x80, 0xAF], [0xE2, 0x81, 0x9F], [0xE3, 0x80, 0x80]])"

definition take_white :: "string list \<Rightarrow> string \<Rightarrow> nat" where
  "take_white ws s = (case find (\<lambda>w. w \<noteq> [] \<and> take (length w) s = w) ws of None \<Rightarrow> 0 | Some w \<Rightarrow> length w)"

function trim_start :: "string list \<Rightarrow> string \<Rightarrow> string" where
  "trim_start ws s = (if take_white ws s = 0 \<or> s = [] then s else trim_start ws (drop (take_white ws s) s))"
  by pat_completeness auto

termination
  by (relation "measure (\<lambda>(ws, s). length s)") auto

declare trim_start.simps [simp del]

definition str_trim :: "string \<Rightarrow> string" where
  "str_trim s = rev (trim_start (map rev white_chars) (rev (trim_start white_chars s)))"

text \<open>\<open>s.trim().strip_prefix("0x").unwrap_or(s.trim())\<close>.\<close>

definition trim_0x :: "string \<Rightarrow> string" where
  "trim_0x s = strip_0x (str_trim s)"

definition config_object_id :: "game_externals \<Rightarrow> string \<Rightarrow> ObjectId" where
  "config_object_id x name = ObjectId (keccak256 x (str_bytes name))"

definition enhance_config_object_id :: "game_externals \<Rightarrow> ObjectId" where
  "enhance_config_object_id x = config_object_id x ''shanhai/config/enhance''"

definition monster_config_object_id :: "game_externals \<Rightarrow> ObjectId" where
  "monster_config_object_id x = config_object_id x ''shanhai/config/monsters''"

definition mint_policy_object_id :: "game_externals \<Rightarrow> ObjectId" where
  "mint_policy_object_id x = config_object_id x ''shanhai/config/mint''"

definition token_registry_object_id :: "game_externals \<Rightarrow> ObjectId" where
  "token_registry_object_id x = config_object_id x ''shanhai/config/tokens''"

definition action_drop_object_id :: "game_externals \<Rightarrow> string \<Rightarrow> string \<Rightarrow> ObjectId" where
  "action_drop_object_id x session_id item_id = config_object_id x (''shanhai/action/drop/'' @ session_id @ ''/'' @ item_id)"

definition pvp_commitment_object_id :: "game_externals \<Rightarrow> string \<Rightarrow> string \<Rightarrow> ObjectId" where
  "pvp_commitment_object_id x pvp_id committer = config_object_id x (''shanhai/pvp/'' @ pvp_id @ ''/'' @ committer)"

definition pvp_result_object_id :: "game_externals \<Rightarrow> string \<Rightarrow> ObjectId" where
  "pvp_result_object_id x pvp_id = config_object_id x (''shanhai/pvp/'' @ pvp_id @ ''/result'')"

definition action_session_object_id :: "game_externals \<Rightarrow> string \<Rightarrow> ObjectId" where
  "action_session_object_id x session_id = config_object_id x (''shanhai/action/'' @ session_id)"

text \<open>The first ed25519 entry of the witness that carries a key of 32 bytes names the payer.\<close>

fun first_ed25519_address :: "game_externals \<Rightarrow> TxSignature list \<Rightarrow> address option" where
  "first_ed25519_address x [] = None"
| "first_ed25519_address x (s # ss) =
     (case public_key s of
        Some pk \<Rightarrow> if scheme s = SchemeEd25519 \<and> length pk = 32 then Some (ucast (keccak256 x pk))
          else first_ed25519_address x ss
      | None \<Rightarrow> first_ed25519_address x ss)"

definition ed25519_signer_address :: "game_externals \<Rightarrow> ComputeTx \<Rightarrow> address option" where
  "ed25519_signer_address x tx = first_ed25519_address x (signatures (witness tx))"

subsection \<open>Seeds\<close>

definition pvp_commit_hash :: "game_externals \<Rightarrow> u64 \<Rightarrow> string \<Rightarrow> string \<Rightarrow> BattleTeams \<Rightarrow> hash" where
  "pvp_commit_hash x seed pvp_id committer teams =
     keccak256 x (be_bytes seed @ str_bytes pvp_id @ str_bytes committer @ encode_teams x teams)"

definition pvp_combined_seed :: "game_externals \<Rightarrow> u64 \<Rightarrow> u64 \<Rightarrow> u64" where
  "pvp_combined_seed x seed_a seed_b = hash_u64 (keccak256 x (be_bytes seed_a @ be_bytes seed_b))"

definition derive_action_seed :: "game_externals \<Rightarrow> hash \<Rightarrow> string \<Rightarrow> u64" where
  "derive_action_seed x block_hash session_id = hash_u64 (keccak256 x (be_bytes block_hash @ str_bytes session_id))"

definition resolve_battle :: "game_externals \<Rightarrow> BattleTeams \<Rightarrow> u64 \<Rightarrow> BattleReport" where
  "resolve_battle x teams seed = battle_resolve x (team_a teams) (team_b teams) seed"

subsection \<open>The action engine\<close>

definition MAX_ROUNDS :: nat where "MAX_ROUNDS = 500"

text \<open>The rounds of a battle: \<open>n\<close> is how many are left, the result is both hit points, the number of
  rounds and the generator.\<close>

fun battle_loop :: "game_externals \<Rightarrow> MonsterSpec \<Rightarrow> u64 \<Rightarrow> u64 \<Rightarrow> nat \<Rightarrow> u64 \<Rightarrow> u64 \<Rightarrow> u64 \<Rightarrow> Prng
    \<Rightarrow> u64 \<times> u64 \<times> u64 \<times> Prng" where
  "battle_loop x spec p_atk p_def 0 hp m_hp rounds rng = (hp, m_hp, rounds, rng)"
| "battle_loop x spec p_atk p_def (Suc n) hp m_hp rounds rng =
     (if 0 < hp \<and> 0 < m_hp then
        (let (j, rng) = prng_below x 3 rng;
             dmg = saturating_add (max (saturating_sub p_atk (ms_def spec)) 1) j;
             m_hp = saturating_sub m_hp dmg;
             (hp, rng) = (if 0 < m_hp then
                (let (j, rng) = prng_below x 3 rng;
                     dmg = saturating_add (max (saturating_sub (ms_atk spec) p_def) 1) j
                 in (saturating_sub hp dmg, rng)) else (hp, rng))
         in battle_loop x spec p_atk p_def n hp m_hp (rounds + 1) rng)
      else (hp, m_hp, rounds, rng))"

fun roll_drops :: "game_externals \<Rightarrow> DropSpec list \<Rightarrow> Prng \<Rightarrow> ActionDrop list" where
  "roll_drops x [] rng = []"
| "roll_drops x (d # ds) rng =
     (let (hit, rng) = prng_chance x (ds_permille d) rng; rest = roll_drops x ds rng
      in if hit then \<lparr>ad_item_id = ds_item_id d, ad_count = ds_count d,
             ad_price_shc = saturating_mul (ds_price_shc d) (ds_count d)\<rparr> # rest
         else rest)"

definition team_total :: "(TeamUnit \<Rightarrow> u64) \<Rightarrow> TeamUnit list \<Rightarrow> u64" where
  "team_total field team = fold (\<lambda>u acc. saturating_add acc (field u)) team 0"

definition execute_action :: "game_externals \<Rightarrow> ActionKind \<Rightarrow> ActionInput \<Rightarrow> u64 \<Rightarrow> EnhanceConfig \<Rightarrow> MonsterTableConfig
    \<Rightarrow> GameError + ActionOutcome" where
  "execute_action x kind input seed enhance_cfg monsters =
     (case (kind, input) of
        (KindBattle, InputBattle monster_id team) \<Rightarrow>
          (case mt_monster monsters monster_id of
             None \<Rightarrow> Inl (InvalidPayload (''unknown monster '' @ monster_id))
           | Some spec \<Rightarrow>
               (let (hp, m_hp, rounds, rng) = battle_loop x spec (team_total tu_atk team) (team_total tu_def team)
                      MAX_ROUNDS (team_total tu_hp team) (ms_hp spec) 0 (prng_new x seed);
                    player_win = 0 < hp
                in Inr \<lparr>ao_result = JObject [(''rounds'', JNat rounds),
                          (''winner'', JString (if player_win then ''player'' else ''monster''))],
                        ao_drops = (if player_win then roll_drops x (ms_drops spec) rng else [])\<rparr>))
      | (KindEnhance, InputEnhance object_id current_level current_pity star_stones) \<Rightarrow>
          (let r = roll_with_config x current_level current_pity seed star_stones enhance_cfg
           in Inr \<lparr>ao_result = JObject [(''new_level'', JNat (rr_new_level r)), (''new_pity'', JNat (rr_pity r)),
                     (''success'', JBool (rr_success r))], ao_drops = []\<rparr>)
      | _ \<Rightarrow> Inl (InvalidPayload ''action kind/input mismatch''))"

subsection \<open>Rewards for proofs\<close>

definition TOWER_REWARD_CAP :: u64 where "TOWER_REWARD_CAP = 100000"

definition tower_reward_shc :: "u64 \<Rightarrow> u64" where
  "tower_reward_shc claimed_final = min ((claimed_final div 1000) div 10) TOWER_REWARD_CAP"

definition verify_tower_claim :: "game_externals \<Rightarrow> u64 \<Rightarrow> u64 \<Rightarrow> u64 \<Rightarrow> u64 \<Rightarrow> u64 \<Rightarrow> string \<Rightarrow> (GameError + u64) option" where
  "verify_tower_claim x growth_permille difficulty_a difficulty_b difficulty_c claimed_final proof_hex =
     (case hex_decode x (trim_0x proof_hex) of
        Inl e \<Rightarrow> Some (Inl (InvalidPayload (''tower proof hex invalid: '' @ e)))
      | Inr raw \<Rightarrow>
     (case decode_tower_proof x raw of
        Inl e \<Rightarrow> Some (Inl (InvalidPayload (''tower proof decode: '' @ e)))
      | Inr proof' \<Rightarrow>
     (case verify_tower (keccak256 x) proof' growth_permille difficulty_a difficulty_b difficulty_c claimed_final
             ZK_ENHANCE_QUERIES of
        None \<Rightarrow> None
      | Some (Inl e) \<Rightarrow> Some (Inl (InvalidPayload (''tower zk proof rejected: '' @ e)))
      | Some (Inr _) \<Rightarrow>
          (let reward = tower_reward_shc claimed_final in
           if reward = 0 then Some (Inl (InvalidPayload ''tower claim final power too low for reward''))
           else Some (Inr reward)))))"

definition verify_zk_enhance :: "game_externals \<Rightarrow> u8 \<Rightarrow> u8 \<Rightarrow> u16 \<Rightarrow> u64 \<Rightarrow> string \<Rightarrow> EnhanceConfig
    \<Rightarrow> (GameError + bool \<times> u8 \<times> u8) option" where
  "verify_zk_enhance x current_level current_pity star_stones roll_claim proof_hex cfg =
     (if 1000 \<le> roll_claim then Some (Inl (InvalidPayload ''roll claim out of range''))
      else case hex_decode x (trim_0x proof_hex) of
        Inl e \<Rightarrow> Some (Inl (InvalidPayload (''proof hex invalid: '' @ e)))
      | Inr raw \<Rightarrow>
     (case decode_enhance_proof x raw of
        Inl e \<Rightarrow> Some (Inl (InvalidPayload (''invalid proof bytes: '' @ e)))
      | Inr proof' \<Rightarrow>
     (case verify_enhance (keccak256 x) proof' roll_claim ZK_ENHANCE_QUERIES of
        None \<Rightarrow> None
      | Some (Inl e) \<Rightarrow> Some (Inl (InvalidPayload (''zk proof rejected: '' @ e)))
      | Some (Inr _) \<Rightarrow>
          (let base = ec_success_permille cfg ! unat (min current_level 11);
               bonus = min (star_stones * ec_star_stone_bonus cfg) (ec_star_stone_cap cfg);
               threshold = min (base + bonus) 950;
               pity_guarantee = ec_pity cfg \<le> current_pity;
               success = (pity_guarantee \<or> roll_claim < ucast threshold)
           in Some (Inr (if success then (True, min (current_level + 1) 12, 0)
                else (False, current_level, current_pity + 1)))))))"

subsection \<open>Verification of an operation on its own\<close>

fun status_text :: "ProposalStatus \<Rightarrow> string" where
  "status_text ProposalStatus.Active = ''Active''"
| "status_text Passed = ''Passed''"
| "status_text Rejected = ''Rejected''"
| "status_text Executed = ''Executed''"
| "status_text Withdrawn = ''Withdrawn''"

fun governance_error_text :: "GovernanceError \<Rightarrow> string" where
  "governance_error_text (DepositTooLow got minimum) =
     ''deposit too low: '' @ show_word got @ '', minimum '' @ show_word minimum"
| "governance_error_text (NotActive st) = ''proposal is not active (status='' @ status_text st @ '')''"
| "governance_error_text Expired = ''proposal voting window expired''"
| "governance_error_text ZeroStake = ''vote stake must be positive''"
| "governance_error_text (NotPassed st) =
     ''proposal is not passed (status='' @ status_text st @ ''); only passed proposals execute''"
| "governance_error_text (InsufficientTreasury b needed) =
     ''insufficient treasury balance: '' @ show_word b @ '', needed '' @ show_word needed"
| "governance_error_text (InvalidStatusTransition st) =
     ''proposal status must transition Active -> Passed/Rejected -> Executed''"

abbreviation blank_text :: "string \<Rightarrow> bool" where
  "blank_text s \<equiv> str_trim s = []"

definition action_kind_json :: "ActionKind \<Rightarrow> json" where
  "action_kind_json k = JString (case k of KindBattle \<Rightarrow> ''battle'' | KindEnhance \<Rightarrow> ''enhance'')"

definition action_drop_json :: "ActionDrop \<Rightarrow> json" where
  "action_drop_json d = JObject [(''count'', JNat (ad_count d)), (''item_id'', JString (ad_item_id d)),
     (''price_shc'', JNat (ad_price_shc d))]"

text \<open>The three comparisons of a claimed enhancement.\<close>

definition check_enhance_claim :: "bool \<Rightarrow> u8 \<Rightarrow> u8 \<Rightarrow> bool \<Rightarrow> u8 \<Rightarrow> u8 \<Rightarrow> GameError + json" where
  "check_enhance_claim success new_level pity claimed_success claimed_new_level claimed_pity =
     (if success \<noteq> claimed_success then Inl (EnhanceSuccessMismatch claimed_success success)
      else if new_level \<noteq> claimed_new_level then Inl (EnhanceLevelMismatch claimed_new_level new_level)
      else if pity \<noteq> claimed_pity then Inl (EnhancePityMismatch claimed_pity pity)
      else Inr (JObject [(''new_level'', JNat new_level), (''pity'', JNat pity), (''success'', JBool success)]))"

definition verify_with_config :: "game_externals \<Rightarrow> GameOp \<Rightarrow> EnhanceConfig option \<Rightarrow> (GameError + json) option" where
  "verify_with_config x op config =
     (let cfg = (case config of None \<Rightarrow> default_enhance_config x | Some c \<Rightarrow> c);
          invalid = (\<lambda>e. Some (Inl (InvalidPayload e))) in
      case op of
        OpBattleSettle session_id teams seed claimed_winner claimed_rounds rules_version \<Rightarrow>
          (let report = battle_resolve x (team_a teams) (team_b teams) seed in
           if br_winner report \<noteq> claimed_winner then Some (Inl (BattleOutcomeMismatch claimed_winner (br_winner report)))
           else if br_total_rounds report \<noteq> claimed_rounds
             then Some (Inl (BattleRoundsMismatch claimed_rounds (br_total_rounds report)))
           else Some (Inr (JObject [(''total_rounds'', JNat (br_total_rounds report)), (''winner'', JNat (br_winner report))])))
      | OpEnhance object_id current_level current_pity star_stones seed claimed_success claimed_new_level claimed_pity rules_version \<Rightarrow>
          (let r = roll_with_config x current_level current_pity seed star_stones cfg
           in Some (check_enhance_claim (rr_success r) (rr_new_level r) (rr_pity r) claimed_success claimed_new_level claimed_pity))
      | OpZkEnhance object_id current_level current_pity star_stones roll_claim claimed_success claimed_new_level claimed_pity rules_version proof_hex \<Rightarrow>
          (case verify_zk_enhance x current_level current_pity star_stones roll_claim proof_hex cfg of
             None \<Rightarrow> None
           | Some (Inl e) \<Rightarrow> Some (Inl e)
           | Some (Inr (success, new_level, new_pity)) \<Rightarrow>
               Some (check_enhance_claim success new_level new_pity claimed_success claimed_new_level claimed_pity))
      | OpActionStart session_id action_type inputs rules_version creator created_at_unix' \<Rightarrow>
          (if blank_text session_id then invalid ''session_id must not be empty''
           else if blank_text creator then invalid ''creator must not be empty''
           else Some (Inr (JObject [(''action_type'', action_kind_json action_type), (''creator'', JString creator),
                  (''session_id'', JString session_id)])))
      | OpActionSettle session_id seed random_block_hash claimed drops \<Rightarrow>
          (if blank_text session_id \<or> blank_text random_block_hash
             then invalid ''settle requires session_id and random_block_hash''
           else Some (Inr (JObject [(''claimed'', claimed), (''drops'', JArray (map action_drop_json drops)),
                  (''seed'', JNat seed), (''session_id'', JString session_id)])))
      | OpSellDrop session_id item_id \<Rightarrow>
          (if blank_text session_id \<or> blank_text item_id then invalid ''sell requires session_id and item_id''
           else Some (Inr (JObject [(''item_id'', JString item_id), (''session_id'', JString session_id)])))
      | OpPropose proposal_id' kind proposer' deposit' created_at_unix' \<Rightarrow>
          (if blank_text proposal_id' then invalid ''proposal_id must not be empty''
           else if blank_text proposer' then invalid ''proposer must not be empty''
           else (case create_proposal proposal_id' kind proposer' deposit' created_at_unix' of
                   Inl e \<Rightarrow> invalid (governance_error_text e)
                 | Inr _ \<Rightarrow> Some (Inr (JObject [(''proposal_id'', JString proposal_id')]))))
      | OpVote proposal_id' voter stake approve \<Rightarrow>
          (if blank_text proposal_id' \<or> blank_text voter then invalid ''proposal_id/voter must not be empty''
           else if stake = 0 then invalid ''vote stake must be positive''
           else Some (Inr (JObject [(''approve'', JBool approve), (''proposal_id'', JString proposal_id'), (''stake'', JNat stake)])))
      | OpPvpCommit pvp_id committer team commit_hash created_at_unix' \<Rightarrow>
          (if blank_text pvp_id \<or> blank_text committer then invalid ''pvp commit requires pvp_id and committer''
           else (case hex_decode x (trim_0x commit_hash) of
                   Inl e \<Rightarrow> invalid (''commit hash hex: '' @ e)
                 | Inr raw \<Rightarrow>
                     if length raw \<noteq> 32 then invalid ''commit hash must be 32 bytes''
                     else Some (Inr (JObject [(''committer'', JString committer), (''pvp_id'', JString pvp_id)]))))
      | OpPvpReveal pvp_id committer seed \<Rightarrow>
          (if blank_text pvp_id \<or> blank_text committer then invalid ''pvp reveal requires pvp_id and committer''
           else Some (Inr (JObject [(''committer'', JString committer), (''pvp_id'', JString pvp_id)])))
      | OpPvpSettle pvp_id claimed_winner claimed_rounds rules_version \<Rightarrow>
          (if blank_text pvp_id then invalid ''pvp settle requires pvp_id''
           else Some (Inr (JObject [(''pvp_id'', JString pvp_id)])))
      | OpZkTowerClaim tower_id growth_permille difficulty_a difficulty_b difficulty_c claimed_final rules_version proof_hex \<Rightarrow>
          (if blank_text tower_id then invalid ''tower claim requires tower_id''
           else if claimed_final = 0 then invalid ''tower claim requires positive final power''
           else if blank_text proof_hex then invalid ''tower claim requires proof''
           else Some (Inr (JObject [(''claimed_final'', JNat claimed_final), (''tower_id'', JString tower_id)])))
      | OpTransferToken token_id dest amount \<Rightarrow>
          (if token_id = 0 then invalid ''native token transfer must use protocol-level commands''
           else if blank_text dest then invalid ''transfer target must not be empty''
           else if amount = 0 then invalid ''transfer amount must be positive''
           else Some (Inr (JObject [(''amount'', JNat amount), (''to'', JString dest), (''token_id'', JNat token_id)])))
      | OpTransferCoin dest amount \<Rightarrow>
          (if blank_text dest then invalid ''transfer target must not be empty''
           else if amount = 0 then invalid ''transfer amount must be positive''
           else Some (Inr (JObject [(''amount'', JNat amount), (''to'', JString dest)])))
      | OpExecute proposal_id' \<Rightarrow>
          (if blank_text proposal_id' then invalid ''proposal_id must not be empty''
           else Some (Inr (JObject [(''proposal_id'', JString proposal_id')]))))"

definition game_verify :: "game_externals \<Rightarrow> GameOp \<Rightarrow> (GameError + json) option" where
  "game_verify x op = verify_with_config x op (Some (default_enhance_config x))"

subsection \<open>Battles\<close>

lemma battle_loop_rounds:
  "battle_loop x spec p_atk p_def n hp m_hp rounds rng = (hp', m_hp', rounds', rng') \<Longrightarrow>
    \<exists>k \<le> n. rounds' = rounds + of_nat k \<and> (k < n \<longrightarrow> hp' = 0 \<or> m_hp' = 0)"
proof (induction n arbitrary: hp m_hp rounds rng)
  case (Suc n)
  show ?case
  proof (cases "0 < hp \<and> 0 < m_hp")
    case True
    then obtain hp1 m_hp1 rng1 where "battle_loop x spec p_atk p_def n hp1 m_hp1 (rounds + 1) rng1 = (hp', m_hp', rounds', rng')"
      using Suc.prems by (auto simp: Let_def split: prod.splits if_splits)
    then obtain k where "k \<le> n" "rounds' = rounds + 1 + of_nat k" "k < n \<longrightarrow> hp' = 0 \<or> m_hp' = 0"
      using Suc.IH by blast
    then show ?thesis by (intro exI [of _ "Suc k"]) (simp add: algebra_simps)
  qed (use Suc.prems in \<open>auto intro: exI [of _ 0] simp: word_gt_0\<close>)
qed auto

lemma damage_bound:
  assumes "unat j < 3" "n * (unat base + 2) + (unat base + 2) < unat hp"
  shows "n * (unat base + 2) < unat (saturating_sub hp (saturating_add base j))"
    "0 < saturating_sub hp (saturating_add base (j :: u64))"
proof -
  have "unat (saturating_add base j) \<le> unat base + 2" using assms(1) by (simp add: unat_saturating_add)
  then show "n * (unat base + 2) < unat (saturating_sub hp (saturating_add base j))"
    using assms(2) by (simp add: unat_saturating_sub)
  then show "0 < saturating_sub hp (saturating_add base j)" by (simp add: word_less_nat_alt)
qed

lemma battle_loop_survivors:
  fixes p_atk p_def :: u64 and spec :: MonsterSpec
  defines "pd \<equiv> max (saturating_sub p_atk (ms_def spec)) 1" and "md \<equiv> max (saturating_sub (ms_atk spec) p_def) 1"
  assumes "\<And>g. fst (prng_below x 3 g) < 3" "n * (unat pd + 2) < unat m_hp" "n * (unat md + 2) < unat hp"
  shows "\<exists>hp' m_hp' rng'. battle_loop x spec p_atk p_def n hp m_hp rounds rng = (hp', m_hp', rounds + of_nat n, rng') \<and>
    0 < hp' \<and> 0 < m_hp'"
  using assms(4,5)
proof (induction n arbitrary: hp m_hp rounds rng)
  case 0
  then show ?case by (simp add: word_less_nat_alt)
next
  case (Suc n)
  obtain j g where j: "prng_below x 3 rng = (j, g)" by fastforce
  obtain j' g' where j': "prng_below x 3 g = (j', g')" by fastforce
  have small: "unat j < 3" "unat j' < 3"
    using assms(3) [of rng] assms(3) [of g] by (simp_all add: j j' word_less_nat_alt)
  have m: "n * (unat pd + 2) + (unat pd + 2) < unat m_hp" "n * (unat md + 2) + (unat md + 2) < unat hp"
    using Suc.prems by simp_all
  note M = damage_bound [OF small(1) m(1)] and H = damage_bound [OF small(2) m(2)]
  have pos: "0 < hp" "0 < m_hp" using Suc.prems by (simp_all add: word_less_nat_alt)
  have "battle_loop x spec p_atk p_def (Suc n) hp m_hp rounds rng
      = battle_loop x spec p_atk p_def n (saturating_sub hp (saturating_add md j'))
          (saturating_sub m_hp (saturating_add pd j)) (rounds + 1) g'"
    using pos M(2) by (simp add: j j' pd_def md_def)
  then show ?case using Suc.IH [OF M(1) H(1), of "rounds + 1" g'] by (simp add: algebra_simps)
qed

text \<open>A battle that no side can win within 500 rounds counts as won: for every random generator
  whose values are below the given bound, a team whose hit points outlast 500 rounds is the winner and
  takes the drops, although the monster is alive.\<close>

theorem stalemate_is_victory:
  fixes team :: "TeamUnit list" and spec :: MonsterSpec
  assumes "\<And>g. fst (prng_below x 3 g) < 3" "mt_monster monsters monster_id = Some spec"
    and "500 * (unat (max (saturating_sub (team_total tu_atk team) (ms_def spec)) 1) + 2) < unat (ms_hp spec)"
    and "500 * (unat (max (saturating_sub (ms_atk spec) (team_total tu_def team)) 1) + 2) < unat (team_total tu_hp team)"
  shows "\<exists>hp m_hp rng. battle_loop x spec (team_total tu_atk team) (team_total tu_def team) MAX_ROUNDS
      (team_total tu_hp team) (ms_hp spec) 0 (prng_new x seed) = (hp, m_hp, 500, rng) \<and> 0 < m_hp \<and>
    execute_action x KindBattle (InputBattle monster_id team) seed cfg monsters =
      Inr \<lparr>ao_result = JObject [(''rounds'', JNat (500 :: u64)), (''winner'', JString ''player'')],
           ao_drops = roll_drops x (ms_drops spec) rng\<rparr>"
proof -
  obtain hp m_hp rng where B: "battle_loop x spec (team_total tu_atk team) (team_total tu_def team) MAX_ROUNDS
      (team_total tu_hp team) (ms_hp spec) 0 (prng_new x seed) = (hp, m_hp, 500, rng)" "0 < hp" "0 < m_hp"
    using battle_loop_survivors [OF assms(1,3,4), of 0 "prng_new x seed"] by (auto simp: MAX_ROUNDS_def)
  then show ?thesis using assms(2) by (simp add: execute_action_def Let_def)
qed

text \<open>Sample parameters.\<close>

definition sample_game :: game_externals where
  "sample_game = \<lparr>keccak256 = (\<lambda>_. 0), vk_ok = (\<lambda>_. True), sig_ok = (\<lambda>_. True), ed_verify = (\<lambda>_ _ _. False),
     hex_encode = (\<lambda>_. []), hex_decode = (\<lambda>s. Inr (str_bytes s)), battle_resolve = (\<lambda>_ _ _. \<lparr>br_winner = 0, br_total_rounds = 1\<rparr>),
     prng_new = (\<lambda>_. []), prng_below = (\<lambda>_ g. (0, g)), prng_chance = (\<lambda>_ g. (True, g)),
     roll_with_config = (\<lambda>_ _ _ _ _. \<lparr>rr_success = True, rr_new_level = 1, rr_pity = 0\<rparr>),
     default_enhance_config = \<lparr>ec_version = 1, ec_cost_sh = replicate 12 10, ec_success_permille = replicate 12 500,
       ec_star_stone_bonus = 10, ec_star_stone_cap = 100, ec_pity = 10\<rparr>,
     default_monster_table = \<lparr>mt_version = 1, mt_monster = Map.empty\<rparr>,
     decode_game_op = (\<lambda>_. Inl ''x''), decode_proposal = (\<lambda>_. Inl ''x''), decode_session = (\<lambda>_. Inl ''x''),
     decode_enhance_config = (\<lambda>_. Inl ''x''), decode_monster_table = (\<lambda>_. Inl ''x''), decode_mint_policy = (\<lambda>_. Inl ''x''),
     decode_json = (\<lambda>_. Inl ''x''), decode_teams = (\<lambda>_. Inl ''x''), encode_teams = (\<lambda>_. []),
     decode_tower_proof = (\<lambda>_. Inl ''x''), decode_enhance_proof = (\<lambda>_. Inl ''x'')\<rparr>"

lemma stalemate_is_victory_witness:
  "execute_action sample_game KindBattle (InputBattle ''m'' [\<lparr>tu_atk = 1, tu_def = 0, tu_hp = 10000\<rparr>]) 7
     (default_enhance_config sample_game)
     \<lparr>mt_version = 1, mt_monster = [''m'' \<mapsto> \<lparr>ms_hp = 10000, ms_atk = 1, ms_def = 5, ms_drops = []\<rparr>]\<rparr>
   = Inr \<lparr>ao_result = JObject [(''rounds'', JNat (500 :: u64)), (''winner'', JString ''player'')], ao_drops = []\<rparr>"
proof -
  let ?spec = "\<lparr>ms_hp = 10000, ms_atk = 1, ms_def = 5, ms_drops = []\<rparr>"
  let ?team = "[\<lparr>tu_atk = 1, tu_def = 0, tu_hp = 10000\<rparr>]"
  have t: "team_total tu_atk ?team = 1" "team_total tu_def ?team = 0" "team_total tu_hp ?team = 10000"
    by (simp_all add: team_total_def saturating_add_def)
  have "saturating_sub (1 :: u64) 5 = 0" "saturating_sub (1 :: u64) 0 = 1"
    by (simp_all add: saturating_sub_def word_le_nat_alt)
  then show ?thesis
    using stalemate_is_victory [of sample_game "\<lparr>mt_version = 1, mt_monster = [''m'' \<mapsto> ?spec]\<rparr>" "''m''" ?spec ?team 7
        "default_enhance_config sample_game"] unfolding t
    by (auto simp: sample_game_def)
qed

subsection \<open>Claims that need no computation\<close>

text \<open>Every claimed final power of at least 10000 earns its reward: if the text of a proof decodes to
  the forged proof, the claim is accepted whatever the tower.\<close>

theorem tower_reward_for_any_claim:
  assumes "hex_decode x (trim_0x proof_hex) = Inr raw"
    and "decode_tower_proof x raw = Inr (forged_tower (keccak256 x) a b c claimed_final ZK_ENHANCE_QUERIES)"
    and "10000 \<le> claimed_final"
  shows "verify_tower_claim x growth a b c claimed_final proof_hex = Some (Inr (tower_reward_shc claimed_final)) \<and>
    0 < tower_reward_shc claimed_final"
proof -
  have "10000 \<le> unat claimed_final" using assms(3) by (simp add: word_le_nat_alt)
  then have "1 \<le> unat claimed_final div 1000 div 10" by simp
  then have "1 \<le> unat (claimed_final div 1000 div 10)" by (simp add: unat_div)
  then have "claimed_final div 1000 div 10 \<noteq> 0" by (metis not_one_le_zero unat_0)
  then have pos: "tower_reward_shc claimed_final \<noteq> 0" by (simp add: tower_reward_shc_def TOWER_REWARD_CAP_def min_def)
  then show ?thesis using assms(1,2)
    by (simp add: verify_tower_claim_def forged_tower_accepted Let_def word_neq_0_conv)
qed

lemma tower_reward_for_any_claim_witness:
  "verify_tower_claim (sample_game\<lparr>decode_tower_proof := \<lambda>_. Inr (forged_tower (\<lambda>_. 0) 1 2 3 123456 ZK_ENHANCE_QUERIES)\<rparr>)
     20 1 2 3 123456 ''00'' = Some (Inr 12)"
proof -
  let ?x = "sample_game\<lparr>decode_tower_proof := \<lambda>_. Inr (forged_tower (\<lambda>_. 0) 1 2 3 123456 ZK_ENHANCE_QUERIES)\<rparr>"
  have "tower_reward_shc 123456 = 12" by (simp add: tower_reward_shc_def TOWER_REWARD_CAP_def)
  moreover have "verify_tower_claim ?x 20 1 2 3 123456 ''00'' = Some (Inr (tower_reward_shc 123456)) \<and> 0 < tower_reward_shc 123456"
    by (rule tower_reward_for_any_claim) (simp_all add: sample_game_def word_le_nat_alt)
  ultimately show ?thesis by simp
qed

lemma check_enhance_claim_Inr:
  "check_enhance_claim s l p cs cl cp = Inr v \<Longrightarrow> s = cs \<and> l = cl \<and> p = cp"
  by (auto simp: check_enhance_claim_def split: if_splits)

text \<open>The published rule of an enhancement on natural numbers: the chance in a thousand is that of the level
  plus the bonus of the stones, the bonus and the sum capped; a guaranteed or lucky roll raises the level by one
  up to 12 and clears the count of failures, any other adds one failure.\<close>

definition enhance_chance :: "EnhanceConfig \<Rightarrow> nat \<Rightarrow> nat \<Rightarrow> nat" where
  "enhance_chance cfg level stones =
     min 950 (unat (ec_success_permille cfg ! min level 11) +
       min (stones * unat (ec_star_stone_bonus cfg)) (unat (ec_star_stone_cap cfg)))"

definition enhance_rule :: "EnhanceConfig \<Rightarrow> nat \<Rightarrow> nat \<Rightarrow> nat \<Rightarrow> nat \<Rightarrow> bool \<times> nat \<times> nat" where
  "enhance_rule cfg level failures stones roll =
     (if unat (ec_pity cfg) \<le> failures \<or> roll < enhance_chance cfg level stones
      then (True, min 12 (level + 1), 0) else (False, level, failures + 1))"

lemma unat_ucast_16_64: "unat (ucast (w :: u16) :: u64) = unat w"
  using unat_word_less [of w] by (simp add: unsigned_ucast_eq take_bit_nat_eq_self)

lemma enhance_threshold:
  assumes "unat stones * unat (ec_star_stone_bonus cfg) < 2 ^ 16"
    and "unat (ec_success_permille cfg ! min (unat level) 11) + unat (ec_star_stone_cap cfg) < 2 ^ 16"
  shows "unat (min (ec_success_permille cfg ! unat (min level (11 :: u8)) +
      min (stones * ec_star_stone_bonus cfg) (ec_star_stone_cap cfg)) 950) = enhance_chance cfg (unat level) (unat stones)"
proof -
  have i: "unat (min level (11 :: u8)) = min (unat level) 11" by (simp add: min_def word_le_nat_alt)
  have b: "unat (min (stones * ec_star_stone_bonus cfg) (ec_star_stone_cap cfg))
      = min (unat stones * unat (ec_star_stone_bonus cfg)) (unat (ec_star_stone_cap cfg))"
    using assms(1) by (simp add: min_def word_le_nat_alt unat_word_ariths)
  have "unat (ec_success_permille cfg ! min (unat level) 11 + min (stones * ec_star_stone_bonus cfg) (ec_star_stone_cap cfg))
      = unat (ec_success_permille cfg ! min (unat level) 11) +
        min (unat stones * unat (ec_star_stone_bonus cfg)) (unat (ec_star_stone_cap cfg))"
    using assms(2) unfolding unat_word_ariths b by simp
  then show ?thesis unfolding i enhance_chance_def by (simp add: min_def word_le_nat_alt)
qed

text \<open>C10: A claimed enhancement with a proof is accepted exactly when its roll is below 1000, its text is the hex
  form of a proof that the verifier accepts for this roll, and the claimed success, level and count of failures are
  those of the published rule in unbounded arithmetic; the level has to be below 255 and the stones and the table
  so small that their bonus and sum fit in 16 bits.\<close>

theorem proved_enhancement_follows_rule:
  assumes "level \<noteq> 255" "unat stones * unat (ec_star_stone_bonus cfg) < 2 ^ 16"
    and "unat (ec_success_permille cfg ! min (unat level) 11) + unat (ec_star_stone_cap cfg) < 2 ^ 16"
  shows "(\<exists>v. verify_with_config x (OpZkEnhance obj level pity stones roll success new_level new_pity ver proof_hex) (Some cfg)
      = Some (Inr v)) \<longleftrightarrow>
    roll < 1000 \<and>
    (\<exists>raw \<pi>. hex_decode x (trim_0x proof_hex) = Inr raw \<and> decode_enhance_proof x raw = Inr \<pi> \<and>
       verify_enhance (keccak256 x) \<pi> roll ZK_ENHANCE_QUERIES = Some (Inr ())) \<and>
    (success, unat new_level, unat new_pity) = enhance_rule cfg (unat level) (unat pity) (unat stones) (unat roll)"
proof -
  let ?t = "min (ec_success_permille cfg ! unat (min level (11 :: u8)) +
      min (stones * ec_star_stone_bonus cfg) (ec_star_stone_cap cfg)) 950"
  let ?s = "ec_pity cfg \<le> pity \<or> roll < ucast ?t"
  let ?r = "if ?s then (True, min (level + 1) 12, 0) else (False, level, pity + 1)"
  let ?p = "\<exists>raw \<pi>. hex_decode x (trim_0x proof_hex) = Inr raw \<and> decode_enhance_proof x raw = Inr \<pi> \<and>
       verify_enhance (keccak256 x) \<pi> roll ZK_ENHANCE_QUERIES = Some (Inr ())"
  have v: "verify_zk_enhance x level pity stones roll proof_hex cfg = Some (Inr q) \<longleftrightarrow> roll < 1000 \<and> ?p \<and> q = ?r" for q
    by (auto simp: verify_zk_enhance_def Let_def not_le split: sum.splits option.splits)
  have c: "(\<exists>v. check_enhance_claim s l p success new_level new_pity = Inr v) \<longleftrightarrow> (success, new_level, new_pity) = (s, l, p)" for s l p
    by (auto simp: check_enhance_claim_def)
  have "(\<exists>v. verify_with_config x (OpZkEnhance obj level pity stones roll success new_level new_pity ver proof_hex) (Some cfg)
      = Some (Inr v)) \<longleftrightarrow> verify_zk_enhance x level pity stones roll proof_hex cfg = Some (Inr (success, new_level, new_pity))"
    using c by (auto simp: verify_with_config_def Let_def split: option.splits sum.splits)
  moreover have s: "?s \<longleftrightarrow> unat (ec_pity cfg) \<le> unat pity \<or> unat roll < enhance_chance cfg (unat level) (unat stones)"
    unfolding enhance_threshold [OF assms(2,3), symmetric] by (simp add: word_le_nat_alt word_less_nat_alt unat_ucast_16_64)
  have "unat level \<noteq> 255" using assms(1) by (simp add: word_unat_eq_iff)
  then have "unat (level + 1) = unat level + 1" using unat_word_less [of level] by (simp add: unat_word_ariths)
  then have l: "unat (min (level + 1) 12) = min 12 (unat level + 1)" by (simp add: min_def word_le_nat_alt)
  have f: "unat (pity + 1) = unat pity + 1" if "\<not> ?s"
    using that unat_word_less [of "ec_pity cfg"] by (simp add: unat_word_ariths word_le_nat_alt)
  have "(success, new_level, new_pity) = ?r \<longleftrightarrow>
      (success, unat new_level, unat new_pity) = enhance_rule cfg (unat level) (unat pity) (unat stones) (unat roll)"
  proof (cases ?s)
    case True
    then show ?thesis using l s by (simp add: enhance_rule_def word_unat_eq_iff)
  next
    case False
    then show ?thesis using f s by (simp add: enhance_rule_def word_unat_eq_iff)
  qed
  ultimately show ?thesis unfolding v by blast
qed

lemma proved_enhancement_follows_rule_witness:
  "let x = sample_game\<lparr>decode_enhance_proof := \<lambda>_. Inr (forged_enhance (\<lambda>_. 0) 999 3 ZK_ENHANCE_QUERIES)\<rparr>;
       cfg = default_enhance_config sample_game
   in (\<exists>v. verify_with_config x (OpZkEnhance ''sword'' 3 4 0 999 False 3 5 1 ''00'') (Some cfg) = Some (Inr v)) \<and>
      \<not> (\<exists>v. verify_with_config x (OpZkEnhance ''sword'' 3 4 0 999 True 4 0 1 ''00'') (Some cfg) = Some (Inr v)) \<and>
      (\<exists>v. verify_with_config x (OpZkEnhance ''sword'' 3 10 0 999 True 4 0 1 ''00'') (Some cfg) = Some (Inr v))"
proof -
  let ?x = "sample_game\<lparr>decode_enhance_proof := \<lambda>_. Inr (forged_enhance (\<lambda>_. 0) 999 3 ZK_ENHANCE_QUERIES)\<rparr>"
  let ?cfg = "default_enhance_config sample_game"
  have p: "verify_enhance (keccak256 ?x) (forged_enhance (\<lambda>_. 0) 999 3 ZK_ENHANCE_QUERIES) 999 ZK_ENHANCE_QUERIES = Some (Inr ())"
    using forged_enhance_verdict [of ZK_ENHANCE_QUERIES "\<lambda>_. 0" 999 3]
    by (simp add: sample_game_def MIN_ENHANCE_QUERIES_def ZK_ENHANCE_QUERIES_def)
  have "\<exists>raw. hex_decode ?x (trim_0x ''00'') = Inr raw" "decode_enhance_proof ?x raw = Inr (forged_enhance (\<lambda>_. 0) 999 3 ZK_ENHANCE_QUERIES)" for raw
    by (simp_all add: sample_game_def)
  then have e: "\<exists>raw \<pi>. hex_decode ?x (trim_0x ''00'') = Inr raw \<and> decode_enhance_proof ?x raw = Inr \<pi> \<and>
       verify_enhance (keccak256 ?x) \<pi> 999 ZK_ENHANCE_QUERIES = Some (Inr ())" using p by blast
  have t: "ec_success_permille ?cfg ! 3 = 500" by (simp add: sample_game_def eval_nat_numeral)
  have c: "enhance_rule ?cfg 3 4 0 999 = (False, 3, 5)" "enhance_rule ?cfg 3 10 0 999 = (True, 4, 0)"
    unfolding enhance_rule_def enhance_chance_def by (simp_all add: t) (simp_all add: sample_game_def)
  note accepted = proved_enhancement_follows_rule [where x = ?x and cfg = ?cfg and level = 3 and stones = 0 and roll = 999
      and obj = "''sword''" and ver = 1 and proof_hex = "''00''"]
  show ?thesis
    using accepted [where pity = 4 and success = False and new_level = 3 and new_pity = 5]
      accepted [where pity = 4 and success = True and new_level = 4 and new_pity = 0]
      accepted [where pity = 10 and success = True and new_level = 4 and new_pity = 0] e
    unfolding Let_def by (simp add: c t) (simp add: sample_game_def)
qed

end
