(* ===== verification/WorldState.thy ===== *)
theory WorldState
  imports Account
begin

section \<open>Token ids and the state database\<close>

text \<open>
  \<open>assets.rs\<close> and \<open>state/mod.rs\<close>: native balances live in the accounts, all other tokens in a map from
  address and token to balance.  The state root hashes accounts and balances in the order in which a
  hash map enumerates them; this order is an argument.
\<close>

subsection \<open>Tokens\<close>

datatype TokenId = TokenId (token_raw: u64)

definition NATIVE_TOKEN :: TokenId where "NATIVE_TOKEN = TokenId 0"

definition SHC_TOKEN :: TokenId where "SHC_TOKEN = TokenId 1"

record TokenInfo =
  ti_token_id :: u64
  ti_symbol :: string
  ti_name :: string
  ti_decimals :: u8
  ti_domain :: u32
  ti_governable :: bool

record TokenRegistry =
  tr_version :: u64
  tr_tokens :: "TokenInfo list"

text \<open>The Chinese name of the game token is given by its UTF-8 bytes.\<close>

definition TokenRegistry_default :: TokenRegistry where
  "TokenRegistry_default =
     \<lparr>tr_version = 1,
      tr_tokens =
        [\<lparr>ti_token_id = token_raw NATIVE_TOKEN, ti_symbol = ''RBT'', ti_name = ''RabbitChain Native'',
          ti_decimals = 18, ti_domain = 0, ti_governable = False\<rparr>,
         \<lparr>ti_token_id = token_raw SHC_TOKEN, ti_symbol = ''SHC'',
          ti_name = bytes_str [0xE5, 0xB1, 0xB1, 0xE6, 0xB5, 0xB7, 0xE5, 0xB8, 0x81],
          ti_decimals = 0, ti_domain = 0x6A7A7A00, ti_governable = True\<rparr>]\<rparr>"

subsection \<open>The database\<close>

record StateDb =
  sd_state_root :: hash
  sd_accounts :: "address \<rightharpoonup> Account"
  sd_token_balances :: "address \<times> TokenId \<rightharpoonup> U256"
  sd_storage :: "address \<rightharpoonup> (hash \<rightharpoonup> hash)"
  sd_codes :: "hash \<rightharpoonup> u8 list"

definition statedb_new :: "hash \<Rightarrow> StateDb" where
  "statedb_new root = \<lparr>sd_state_root = root, sd_accounts = Map.empty, sd_token_balances = Map.empty,
     sd_storage = Map.empty, sd_codes = Map.empty\<rparr>"

definition sdb_get_account :: "StateDb \<Rightarrow> address \<Rightarrow> Account option" where
  "sdb_get_account db a = sd_accounts db a"

definition sdb_insert_account :: "address \<Rightarrow> Account \<Rightarrow> StateDb \<Rightarrow> StateDb" where
  "sdb_insert_account a acc db = db\<lparr>sd_accounts := (sd_accounts db)(a \<mapsto> acc)\<rparr>"

definition sdb_get_balance :: "StateDb \<Rightarrow> address \<Rightarrow> U256" where
  "sdb_get_balance db a = (case sd_accounts db a of None \<Rightarrow> u256_zero | Some acc \<Rightarrow> a_balance acc)"

text \<open>\<open>get_mut\<close>: an account that is missing is not changed.\<close>

definition sdb_modify :: "address \<Rightarrow> (Account \<Rightarrow> Account) \<Rightarrow> StateDb \<Rightarrow> StateDb" where
  "sdb_modify a f db =
     (case sd_accounts db a of None \<Rightarrow> db | Some acc \<Rightarrow> db\<lparr>sd_accounts := (sd_accounts db)(a \<mapsto> f acc)\<rparr>)"

definition sdb_set_balance :: "address \<Rightarrow> U256 \<Rightarrow> StateDb \<Rightarrow> StateDb" where
  "sdb_set_balance a b db = sdb_modify a (\<lambda>acc. acc\<lparr>a_balance := b\<rparr>) db"

definition get_token_balance :: "StateDb \<Rightarrow> address \<Rightarrow> TokenId \<Rightarrow> U256" where
  "get_token_balance db a token =
     (if token = NATIVE_TOKEN then sdb_get_balance db a
      else case sd_token_balances db (a, token) of None \<Rightarrow> u256_zero | Some b \<Rightarrow> b)"

definition set_token_balance :: "address \<Rightarrow> TokenId \<Rightarrow> U256 \<Rightarrow> StateDb \<Rightarrow> StateDb" where
  "set_token_balance a token amount db =
     (if token = NATIVE_TOKEN then sdb_set_balance a amount db
      else db\<lparr>sd_token_balances := (sd_token_balances db)((a, token) \<mapsto> amount)\<rparr>)"

definition sdb_get_nonce :: "StateDb \<Rightarrow> address \<Rightarrow> u64" where
  "sdb_get_nonce db a = (case sd_accounts db a of None \<Rightarrow> 0 | Some acc \<Rightarrow> a_nonce acc)"

definition sdb_set_nonce :: "address \<Rightarrow> u64 \<Rightarrow> StateDb \<Rightarrow> StateDb" where
  "sdb_set_nonce a n db = sdb_modify a (\<lambda>acc. acc\<lparr>a_nonce := n\<rparr>) db"

definition sdb_get_code :: "StateDb \<Rightarrow> address \<Rightarrow> u8 list option" where
  "sdb_get_code db a = (case sd_accounts db a of None \<Rightarrow> None | Some acc \<Rightarrow> sd_codes db (a_code_hash acc))"

definition sdb_set_code :: "'e externals_scheme \<Rightarrow> address \<Rightarrow> u8 list \<Rightarrow> StateDb \<Rightarrow> StateDb" where
  "sdb_set_code x a code' db =
     (let code_hash = keccak256 x code';
          db = sdb_modify a (\<lambda>acc. acc\<lparr>a_code_hash := code_hash\<rparr>) db
      in db\<lparr>sd_codes := (sd_codes db)(code_hash \<mapsto> code')\<rparr>)"

definition sdb_get_storage :: "StateDb \<Rightarrow> address \<Rightarrow> hash \<Rightarrow> hash" where
  "sdb_get_storage db a key =
     (case sd_storage db a of None \<Rightarrow> 0 | Some m \<Rightarrow> (case m key of None \<Rightarrow> 0 | Some v \<Rightarrow> v))"

definition sdb_set_storage :: "address \<Rightarrow> hash \<Rightarrow> hash \<Rightarrow> StateDb \<Rightarrow> StateDb" where
  "sdb_set_storage a key v db =
     (let m = (case sd_storage db a of None \<Rightarrow> Map.empty | Some m \<Rightarrow> m)
      in db\<lparr>sd_storage := (sd_storage db)(a \<mapsto> m(key \<mapsto> v))\<rparr>)"

text \<open>The order in which the hash maps enumerate their keys.\<close>

type_synonym map_order = "StateDb \<Rightarrow> address list \<times> (address \<times> TokenId) list"

definition enumerates :: "map_order \<Rightarrow> StateDb \<Rightarrow> bool" where
  "enumerates order db \<longleftrightarrow>
     (let (as, ts) = order db in distinct as \<and> set as = dom (sd_accounts db) \<and> distinct ts \<and> set ts = dom (sd_token_balances db))"

definition state_root_preimage :: "map_order \<Rightarrow> StateDb \<Rightarrow> u8 list" where
  "state_root_preimage order db =
     (let (as, ts) = order db
      in concat (map (\<lambda>a. be_bytes a @ sdb_get_balance db a) as)
       @ concat (map (\<lambda>(a, t). be_bytes a @ be_bytes (token_raw t) @ the (sd_token_balances db (a, t))) ts))"

definition compute_state_root :: "'e externals_scheme \<Rightarrow> map_order \<Rightarrow> StateDb \<Rightarrow> hash" where
  "compute_state_root x order db = keccak256 x (state_root_preimage order db)"

definition sdb_apply_change :: "AccountChange \<Rightarrow> StateDb \<Rightarrow> StateDb option" where
  "sdb_apply_change ch db =
     (case (case ch_balance_change ch of
              None \<Rightarrow> Some db
            | Some amount \<Rightarrow>
                (case sd_accounts db (ch_address ch) of
                   None \<Rightarrow> Some db
                 | Some acc \<Rightarrow> map_option (\<lambda>v. db\<lparr>sd_accounts := (sd_accounts db)
                     (ch_address ch \<mapsto> acc\<lparr>a_balance := u256_saturating_add (a_balance acc) v\<rparr>)\<rparr>) (from_big_endian amount))) of
        None \<Rightarrow> None
      | Some db \<Rightarrow> Some (fold (\<lambda>sc. sdb_set_storage (ch_address ch) (sc_key sc) (sc_new_value sc)) (ch_storage_changes ch) db))"

fun sdb_apply_changes :: "'e externals_scheme \<Rightarrow> map_order \<Rightarrow> AccountChange list \<Rightarrow> StateDb \<Rightarrow> (hash \<times> StateDb) option" where
  "sdb_apply_changes x order [] db =
     (let root = compute_state_root x order db in Some (root, db\<lparr>sd_state_root := root\<rparr>))"
| "sdb_apply_changes x order (ch # chs) db =
     (case sdb_apply_change ch db of None \<Rightarrow> None | Some db \<Rightarrow> sdb_apply_changes x order chs db)"

record StateTransition =
  st_from_root :: hash
  st_to_root :: hash
  st_changes :: "AccountChange list"

definition transition_apply :: "'e externals_scheme \<Rightarrow> map_order \<Rightarrow> StateTransition \<Rightarrow> StateDb \<Rightarrow> StateDb option" where
  "transition_apply x order t db = map_option snd (sdb_apply_changes x order (st_changes t) db)"

subsection \<open>Balances\<close>

lemma get_set_token_balance [simp]:
  "token \<noteq> NATIVE_TOKEN \<Longrightarrow> get_token_balance (set_token_balance a token v db) b token' =
    (if b = a \<and> token' = token then v else get_token_balance db b token')"
  by (auto simp: get_token_balance_def set_token_balance_def sdb_get_balance_def)

lemma get_balance_insert [simp]:
  "get_token_balance (sdb_insert_account a acc db) b token =
    (if b = a \<and> token = NATIVE_TOKEN then a_balance acc else get_token_balance db b token)"
  by (auto simp: get_token_balance_def sdb_insert_account_def sdb_get_balance_def)

lemma native_is_not_shc [simp]: "SHC_TOKEN \<noteq> NATIVE_TOKEN" "NATIVE_TOKEN \<noteq> SHC_TOKEN"
  by (simp_all add: SHC_TOKEN_def NATIVE_TOKEN_def)

text \<open>Every stored balance is a number of 32 bytes.\<close>

definition balances_wf :: "StateDb \<Rightarrow> bool" where
  "balances_wf db \<longleftrightarrow> (\<forall>a token. u256_wf (get_token_balance db a token))"

text \<open>The supply of a token: the sum over all addresses.\<close>

definition token_supply :: "StateDb \<Rightarrow> TokenId \<Rightarrow> nat" where
  "token_supply db token = (\<Sum>a\<in>UNIV. be_value (get_token_balance db a token))"

lemma token_supply_isolate:
  "token_supply db token = be_value (get_token_balance db a token) + (\<Sum>b\<in>UNIV - {a}. be_value (get_token_balance db b token))"
  unfolding token_supply_def by (rule sum.remove) simp_all

lemma token_supply_change:
  assumes "\<And>b. b \<noteq> a \<Longrightarrow> get_token_balance db' b token = get_token_balance db b token"
  shows "token_supply db' token + be_value (get_token_balance db a token)
    = token_supply db token + be_value (get_token_balance db' a token)"
proof -
  have "(\<Sum>b\<in>UNIV - {a}. be_value (get_token_balance db' b token)) = (\<Sum>b\<in>UNIV - {a}. be_value (get_token_balance db b token))"
    using assms by (intro sum.cong) auto
  then show ?thesis unfolding token_supply_isolate [of db token a] token_supply_isolate [of db' token a] by simp
qed

text \<open>The state root depends on more than the state: two accounts enumerated in one order and in the other
  give different bytes to hash, so that, if these two do not collide, nodes that hold the same state
  compute different roots.\<close>

theorem state_root_depends_on_order:
  fixes db :: StateDb and a b :: address
  defines "order \<equiv> \<lambda>_ :: StateDb. ([a, b], [] :: (address \<times> TokenId) list)"
    and "order' \<equiv> \<lambda>_ :: StateDb. ([b, a], [] :: (address \<times> TokenId) list)"
  assumes "a \<noteq> b" "dom (sd_accounts db) = {a, b}" "sd_token_balances db = Map.empty"
    and "inj_on (keccak256 x) {state_root_preimage order db, state_root_preimage order' db}"
  shows "enumerates order db \<and> enumerates order' db \<and>
    compute_state_root x order db \<noteq> compute_state_root x order' db"
proof -
  have "state_root_preimage order db \<noteq> state_root_preimage order' db"
    using assms(3) by (auto simp: state_root_preimage_def order_def order'_def)
  then have "compute_state_root x order db \<noteq> compute_state_root x order' db"
    using inj_onD [OF assms(6)] by (auto simp: compute_state_root_def)
  moreover have "enumerates order db" "enumerates order' db"
    using assms(3-5) by (auto simp: enumerates_def order_def order'_def)
  ultimately show ?thesis by blast
qed

definition sample_db :: StateDb where
  "sample_db = (statedb_new 0)\<lparr>sd_accounts := [1 \<mapsto> Account_default, 2 \<mapsto> Account_default]\<rparr>"

lemma state_root_depends_on_order_witness:
  "compute_state_root \<lparr>keccak256 = \<lambda>bs. ucast (bs ! 19), vk_ok = (\<lambda>_. True), sig_ok = (\<lambda>_. True),
      ed_verify = (\<lambda>_ _ _. True), hex_encode = (\<lambda>_. []), hex_decode = (\<lambda>_. Inr [])\<rparr> (\<lambda>_. ([1, 2], [])) sample_db
   \<noteq> compute_state_root \<lparr>keccak256 = \<lambda>bs. ucast (bs ! 19), vk_ok = (\<lambda>_. True), sig_ok = (\<lambda>_. True),
      ed_verify = (\<lambda>_ _ _. True), hex_encode = (\<lambda>_. []), hex_decode = (\<lambda>_. Inr [])\<rparr> (\<lambda>_. ([2, 1], [])) sample_db"
proof -
  let ?x = "\<lparr>keccak256 = \<lambda>bs. ucast (bs ! 19), vk_ok = (\<lambda>_. True), sig_ok = (\<lambda>_. True),
      ed_verify = (\<lambda>_ _ _. True), hex_encode = (\<lambda>_. []), hex_decode = (\<lambda>_. Inr [])\<rparr> :: externals"
  have n: "be_bytes (a :: address) ! 19 = ucast a" for a by (simp add: be_bytes_def rev_nth)
  have p: "state_root_preimage (\<lambda>_. ([1, 2], [])) sample_db ! 19 = 1" "state_root_preimage (\<lambda>_. ([2, 1], [])) sample_db ! 19 = 2"
    by (simp_all add: state_root_preimage_def nth_append n)
  have "inj_on (keccak256 ?x) {state_root_preimage (\<lambda>_. ([1, 2], [])) sample_db, state_root_preimage (\<lambda>_. ([2, 1], [])) sample_db}"
    by (auto simp: inj_on_def p)
  then show ?thesis using state_root_depends_on_order [of 1 2 sample_db ?x]
    by (auto simp: sample_db_def statedb_new_def)
qed

end
