(* ===== verification/Settlement.thy ===== *)
theory Settlement
  imports Game WorldState Execution
begin

section \<open>The state executor\<close>

text \<open>
  \<open>state/executor.rs\<close>: blocks are settled transaction by transaction.  Seven checks read the state;
  if they pass, the compute executor runs the transaction under the default authorisation policy and
  the resource policy with its conservation and fee checks, and five commits move native and game tokens and write the treasury ledger.  A failed
  check or commit becomes a failed receipt; what was committed before stays.

  The result of a check is a sum, that of a commit a sum and the state it leaves; where a proof of
  \<open>zk\<close> is verified, a panic is \<open>None\<close>.  The message of an \<open>ExecutionError\<close> is a string.
\<close>

subsection \<open>Node and state\<close>

text \<open>What a node fixes: third-party code, object store, domains, treasury address, the clock that the
  replay registry reads, and the \<open>Debug\<close> output of the receipt fields in an error message.\<close>

record 's node =
  nd_x :: game_externals
  nd_ops :: "'s store_ops"
  nd_domains :: domain_registry
  nd_treasury :: address
  nd_now :: u64
  nd_debug :: "ReceiptStatus \<Rightarrow> u64 \<Rightarrow> nat \<Rightarrow> string option \<Rightarrow> string"

record 's settlement =
  se_db :: StateDb
  se_exec :: "'s executor_state"
  se_ledger :: "json TreasuryLedger"

definition treasury_address :: "'e externals_scheme \<Rightarrow> address" where
  "treasury_address x = ucast (keccak256 x (str_bytes ''shanhai/treasury''))"

definition default_game_domains :: domain_registry where
  "default_game_domains =
     upsert_domain \<lparr>dc_domain_id = GAME_DOMAIN, dc_name = ''shanhai'', dc_vm = ''shanhai'', dc_public = True\<rparr>
       (upsert_domain \<lparr>dc_domain_id = DomainId 0, dc_name = ''main'', dc_vm = ''wasm'', dc_public = True\<rparr> Map.empty)"

definition settlement_new :: "StateDb \<Rightarrow> 's \<Rightarrow> 's settlement" where
  "settlement_new db store = \<lparr>se_db = db, se_exec = executor_new store, se_ledger = ledger_new\<rparr>"

text \<open>The executor that blocks use (\<open>new_basic_executor\<close>): \<open>DefaultAuthorizationPolicy\<close>, and
  \<open>NoopResourcePolicy\<close>, which despite its name is the policy of \<^const>\<open>check_resources\<close>.\<close>

definition block_validator :: "'s node \<Rightarrow> 's validator" where
  "block_validator nd =
     \<lparr>v_ops = nd_ops nd, v_authorization = (\<lambda>tx inputs reads. authorize (externals.truncate (nd_x nd)) tx inputs),
      v_resources = (\<lambda>tx inputs reads. check_resources tx inputs), v_domains = nd_domains nd\<rparr>"

definition node_get_output :: "'s node \<Rightarrow> 's settlement \<Rightarrow> OutputId \<Rightarrow> ObjectOutput option" where
  "node_get_output nd st i = get_output (nd_ops nd) (ex_store (se_exec st)) i"

definition node_get_latest :: "'s node \<Rightarrow> 's settlement \<Rightarrow> ObjectId \<Rightarrow> ObjectOutput option" where
  "node_get_latest nd st j = get_latest_output_by_object (nd_ops nd) (ex_store (se_exec st)) j"

definition parse_address_hex :: "'e externals_scheme \<Rightarrow> string \<Rightarrow> string + address" where
  "parse_address_hex x raw =
     (case hex_decode x (trim_0x raw) of
        Inl e \<Rightarrow> Inl (''invalid address hex: '' @ e)
      | Inr bytes \<Rightarrow> if length bytes \<noteq> 20 then Inl ''address must be 20 bytes'' else Inr (from_be bytes))"

text \<open>The operation of a game transaction: an invocation in the game domain whose payload parses.\<close>

definition game_call :: "'s node \<Rightarrow> ComputeTx \<Rightarrow> GameOp option" where
  "game_call nd tx =
     (if tx_domain_id tx \<noteq> GAME_DOMAIN \<or> tx_command tx \<noteq> CmdInvoke then None
      else case parse_game_op (nd_x nd) (payload tx) of Inl _ \<Rightarrow> None | Inr op \<Rightarrow> Some op)"

definition first_input :: "'s node \<Rightarrow> 's settlement \<Rightarrow> ComputeTx \<Rightarrow> string \<Rightarrow> string \<Rightarrow> string + ObjectOutput" where
  "first_input nd st tx missing not_found =
     (case input_set tx of
        [] \<Rightarrow> Inl missing
      | input # _ \<Rightarrow> ok_or (node_get_output nd st input) not_found)"

definition config_state :: "'s node \<Rightarrow> 's settlement \<Rightarrow> ObjectId \<Rightarrow> string \<Rightarrow> (u8 list \<Rightarrow> string + 'c) \<Rightarrow> string \<Rightarrow> string + 'c" where
  "config_state nd st j not_found decode invalid =
     and_then (ok_or (node_get_latest nd st j) not_found) (\<lambda>obj.
       case decode (o_state obj) of Inl e \<Rightarrow> Inl (invalid @ e) | Inr c \<Rightarrow> Inr c)"

subsection \<open>Token ledgers\<close>

definition credit_account :: "address \<Rightarrow> u64 \<Rightarrow> StateDb \<Rightarrow> StateDb" where
  "credit_account a amount db =
     (let acc = (case sdb_get_account db a of None \<Rightarrow> Account_default | Some acc \<Rightarrow> acc)
      in sdb_insert_account a (acc\<lparr>a_balance := u256_saturating_add (a_balance acc) (u256_from amount)\<rparr>) db)"

definition debit_account :: "address \<Rightarrow> u64 \<Rightarrow> StateDb \<Rightarrow> string + StateDb" where
  "debit_account a amount db =
     (let acc = (case sdb_get_account db a of None \<Rightarrow> Account_default | Some acc \<Rightarrow> acc)
      in if u256_less (a_balance acc) (u256_from amount)
         then Inl (''insufficient balance '' @ show_word (as_u128 (a_balance acc)) @ '' needed '' @ show_word amount)
         else Inr (sdb_insert_account a (acc\<lparr>a_balance := u256_saturating_sub (a_balance acc) (u256_from amount)\<rparr>) db))"

definition credit_token :: "address \<Rightarrow> TokenId \<Rightarrow> u64 \<Rightarrow> StateDb \<Rightarrow> StateDb" where
  "credit_token a token amount db =
     (if token = NATIVE_TOKEN then credit_account a amount db
      else set_token_balance a token (u256_saturating_add (get_token_balance db a token) (u256_from amount)) db)"

definition debit_token :: "address \<Rightarrow> TokenId \<Rightarrow> u64 \<Rightarrow> StateDb \<Rightarrow> string + StateDb" where
  "debit_token a token amount db =
     (if token = NATIVE_TOKEN then debit_account a amount db
      else
        (let b = get_token_balance db a token
         in if u256_less b (u256_from amount)
            then Inl (''insufficient token balance '' @ show_word (as_u128 b) @ '' needed '' @ show_word amount)
            else Inr (set_token_balance a token (u256_saturating_sub b (u256_from amount)) db)))"

definition debit_treasury :: "'s node \<Rightarrow> u64 \<Rightarrow> StateDb \<Rightarrow> string + StateDb" where
  "debit_treasury nd amount db = debit_token (nd_treasury nd) SHC_TOKEN amount db"

definition credit_treasury :: "'s node \<Rightarrow> u64 \<Rightarrow> 's settlement \<Rightarrow> 's settlement" where
  "credit_treasury nd fee st =
     st\<lparr>se_db := credit_account (nd_treasury nd) fee (se_db st),
        se_ledger := record_income ''block_gas_fee'' fee (se_ledger st)\<rparr>"

definition credit_treasury_token :: "'s node \<Rightarrow> TokenId \<Rightarrow> u64 \<Rightarrow> 's settlement \<Rightarrow> 's settlement" where
  "credit_treasury_token nd token amount st =
     st\<lparr>se_db := credit_token (nd_treasury nd) token amount (se_db st),
        se_ledger := record_income ''shc_enhance_cost'' amount (se_ledger st)\<rparr>"

definition treasury_balance :: "'s node \<Rightarrow> 's settlement \<Rightarrow> u128" where
  "treasury_balance nd st = as_u128 (get_token_balance (se_db st) (nd_treasury nd) SHC_TOKEN)"

subsection \<open>Governance\<close>

definition input_proposal :: "'s node \<Rightarrow> 's settlement \<Rightarrow> ComputeTx \<Rightarrow> string + json Proposal" where
  "input_proposal nd st tx =
     and_then (first_input nd st tx ''governance execute tx missing input proposal''
                 ''governance execute input proposal not found'') (\<lambda>obj.
       case decode_proposal (nd_x nd) (o_state obj) of
         Inl e \<Rightarrow> Inl (''invalid proposal object state: '' @ e)
       | Inr p \<Rightarrow> Inr p)"

definition mint_policy :: "'s node \<Rightarrow> 's settlement \<Rightarrow> string + MintPolicy" where
  "mint_policy nd st =
     config_state nd st (mint_policy_object_id (nd_x nd)) ''mint policy object not found''
       (decode_mint_policy (nd_x nd)) ''invalid mint policy state: ''"

definition apply_governance_effects :: "'s node \<Rightarrow> u64 \<Rightarrow> 's settlement \<Rightarrow> ComputeTx \<Rightarrow> string + unit" where
  "apply_governance_effects nd block_timestamp st tx =
     (case game_call nd tx of
        Some (OpExecute _) \<Rightarrow>
          and_then (input_proposal nd st tx) (\<lambda>proposal.
          let (status, p) = tally block_timestamp proposal in
          if status \<noteq> Passed then Inl ''governance execute rejected: proposal is not passed at block time''
          else
            (case pr_kind p of
               FundActivity amount memo \<Rightarrow>
                 (let b = treasury_balance nd st in
                  if b < ucast amount
                  then Inl (''governance execute rejected: insufficient treasury balance '' @ show_word b @ '' needed '' @ show_word amount)
                  else Inr ())
             | MintShc dest amount \<Rightarrow>
                 and_then (mint_policy nd st) (\<lambda>policy.
                 let cap = mp_per_mint_cap policy in
                 if cap < amount
                 then Inl (''mint denied: proposal amount '' @ show_word amount @ '' exceeds per-mint cap '' @ show_word cap)
                 else Inr ())
             | _ \<Rightarrow> Inr ()))
      | _ \<Rightarrow> Inr ())"

definition commit_governance_effects :: "'s node \<Rightarrow> u64 \<Rightarrow> ComputeTx \<Rightarrow> 's settlement \<Rightarrow> (string + unit) \<times> 's settlement" where
  "commit_governance_effects nd block_timestamp tx st =
     (case game_call nd tx of
        Some (OpExecute _) \<Rightarrow>
          (case input_proposal nd st tx of
             Inl e \<Rightarrow> (Inl e, st)
           | Inr proposal \<Rightarrow>
               (let (status, p) = tally block_timestamp proposal in
                if status \<noteq> Passed then (Inl ''governance execute commit: proposal not passed at block time'', st)
                else
                  (case (case pr_kind p of
                           FundActivity amount memo \<Rightarrow> debit_treasury nd amount (se_db st)
                         | MintShc dest amount \<Rightarrow>
                             and_then (parse_address_hex (nd_x nd) dest) (\<lambda>target.
                               Inr (credit_token target SHC_TOKEN amount (se_db st)))
                         | _ \<Rightarrow> Inr (se_db st)) of
                     Inl e \<Rightarrow> (Inl e, st)
                   | Inr db \<Rightarrow>
                       (let st = st\<lparr>se_db := db\<rparr> in
                        case execute_proposal p (se_ledger st) of
                          Inl e \<Rightarrow> (Inl (''governance execute commit failed: '' @ governance_error_text e), st)
                        | Inr (outcome, p, l) \<Rightarrow> (Inr (), st\<lparr>se_ledger := record_execution outcome l\<rparr>)))))
      | _ \<Rightarrow> (Inr (), st))"

subsection \<open>Actions and fees\<close>

text \<open>The rules of the session's kind, at the version the session was started with.\<close>

definition session_rules :: "'s node \<Rightarrow> 's settlement \<Rightarrow> ActionSession \<Rightarrow> string + EnhanceConfig \<times> MonsterTableConfig" where
  "session_rules nd st session =
     (case as_action_type session of
        KindEnhance \<Rightarrow>
          and_then (config_state nd st (enhance_config_object_id (nd_x nd)) ''enhance config object not found''
              (decode_enhance_config (nd_x nd)) ''invalid enhance config state: '') (\<lambda>cfg.
          if as_rules_version session \<noteq> ec_version cfg
          then Inl (''stale enhance rules version: session '' @ show_word (as_rules_version session) @
                 '', on-chain config '' @ show_word (ec_version cfg))
          else Inr (cfg, default_monster_table (nd_x nd)))
      | KindBattle \<Rightarrow>
          and_then (config_state nd st (monster_config_object_id (nd_x nd)) ''monster config object not found''
              (decode_monster_table (nd_x nd)) ''invalid monster config state: '') (\<lambda>cfg.
          if as_rules_version session \<noteq> mt_version cfg
          then Inl (''stale monster rules version: session '' @ show_word (as_rules_version session) @
                 '', on-chain config '' @ show_word (mt_version cfg))
          else Inr (default_enhance_config (nd_x nd), cfg)))"

definition apply_action_effects :: "'s node \<Rightarrow> 's settlement \<Rightarrow> ComputeTx \<Rightarrow> string + unit" where
  "apply_action_effects nd st tx =
     (case game_call nd tx of
        Some (OpActionSettle session_id seed random_block_hash claimed drops) \<Rightarrow>
          and_then (first_input nd st tx ''action settle missing input session'' ''action settle input session not found'') (\<lambda>obj.
          case decode_session (nd_x nd) (o_state obj) of
            Inl e \<Rightarrow> Inl (''invalid action session state: '' @ e)
          | Inr session \<Rightarrow>
              if as_session_id session \<noteq> session_id then Inl ''action settle session_id mismatch''
              else if as_settled session then Inl ''action session already settled''
              else and_then (session_rules nd st session) (\<lambda>(enhance_cfg, monsters).
                case execute_action (nd_x nd) (as_action_type session) (as_inputs session) seed enhance_cfg monsters of
                  Inl e \<Rightarrow> Inl (''action rejected: '' @ game_error_text e)
                | Inr outcome \<Rightarrow>
                    if ao_result outcome \<noteq> claimed then Inl ''action claimed result mismatch''
                    else if ao_drops outcome \<noteq> drops then Inl ''action claimed drops mismatch''
                    else Inr ()))
      | _ \<Rightarrow> Inr ())"

definition tx_gas_fee :: "ComputeTx \<Rightarrow> u64 \<Rightarrow> u64" where
  "tx_gas_fee tx base_fee =
     min (saturating_add (saturating_mul (estimate_tx_gas tx) base_fee) (priority_fee tx)) (max_fee tx)"

text \<open>Who pays how much; nobody pays for a mint, and nobody when no ed25519 key is named.\<close>

definition fee_payer :: "'s node \<Rightarrow> ComputeTx \<Rightarrow> u64 \<Rightarrow> (address \<times> u64) option" where
  "fee_payer nd tx base_fee =
     (let fee = tx_gas_fee tx base_fee in
      if tx_command tx = CmdMint \<or> fee = 0 then None
      else map_option (\<lambda>payer. (payer, fee)) (ed25519_signer_address (nd_x nd) tx))"

definition apply_fee_effects :: "'s node \<Rightarrow> 's settlement \<Rightarrow> ComputeTx \<Rightarrow> u64 \<Rightarrow> string + unit" where
  "apply_fee_effects nd st tx base_fee =
     (case fee_payer nd tx base_fee of
        None \<Rightarrow> Inr ()
      | Some (payer, fee) \<Rightarrow>
          (let b = (case sdb_get_account (se_db st) payer of None \<Rightarrow> 0 | Some acc \<Rightarrow> as_u64 (a_balance acc)) in
           if b < fee then Inl (''insufficient balance '' @ show_word b @ '' needed '' @ show_word fee @ '' for gas'')
           else Inr ()))"

definition commit_fee_effects :: "'s node \<Rightarrow> ComputeTx \<Rightarrow> u64 \<Rightarrow> 's settlement \<Rightarrow> (string + unit) \<times> 's settlement" where
  "commit_fee_effects nd tx base_fee st =
     (case fee_payer nd tx base_fee of
        None \<Rightarrow> (Inr (), st)
      | Some (payer, fee) \<Rightarrow>
          (case debit_account payer fee (se_db st) of
             Inl e \<Rightarrow> (Inl e, st)
           | Inr db \<Rightarrow> (Inr (), credit_treasury nd fee (st\<lparr>se_db := db\<rparr>))))"

subsection \<open>Duels\<close>

definition json_field_str :: "json \<Rightarrow> string \<Rightarrow> string option" where
  "json_field_str v key = Option.bind (json_get key v) json_str"

definition json_field_u64 :: "json \<Rightarrow> string \<Rightarrow> u64" where
  "json_field_u64 v key = (case Option.bind (json_get key v) json_u64 of None \<Rightarrow> 0 | Some n \<Rightarrow> n)"

definition pvp_commitment :: "'s node \<Rightarrow> 's settlement \<Rightarrow> string \<Rightarrow> OutputId \<Rightarrow> string + u64 \<times> BattleTeams" where
  "pvp_commitment nd st pvp_id i =
     and_then (ok_or (node_get_output nd st i) ''pvp commitment not found'') (\<lambda>obj.
     if o_spent obj then Inl ''pvp commitment already consumed''
     else case decode_json (nd_x nd) (o_state obj) of
       Inl e \<Rightarrow> Inl (''invalid pvp commit state: '' @ e)
     | Inr v \<Rightarrow>
         if json_field_str v ''kind'' \<noteq> Some ''pvp_commit'' \<or> json_field_str v ''pvp_id'' \<noteq> Some pvp_id
            \<or> Option.bind (json_get ''revealed'' v) json_bool \<noteq> Some True
         then Inl ''pvp settle: both commitments must be revealed''
         else case decode_teams (nd_x nd) (case json_get ''team'' v of None \<Rightarrow> JNull | Some t \<Rightarrow> t) of
           Inl e \<Rightarrow> Inl (''invalid pvp team: '' @ e)
         | Inr t \<Rightarrow> Inr (json_field_u64 v ''seed'', t))"

fun pvp_commitments ::
    "'s node \<Rightarrow> 's settlement \<Rightarrow> string \<Rightarrow> OutputId list \<Rightarrow> u64 list \<Rightarrow> BattleTeams option
     \<Rightarrow> string + u64 list \<times> BattleTeams option" where
  "pvp_commitments nd st pvp_id [] seeds teams = Inr (seeds, teams)"
| "pvp_commitments nd st pvp_id (i # is) seeds teams =
     and_then (pvp_commitment nd st pvp_id i) (\<lambda>(seed, t).
     case teams of
       None \<Rightarrow> pvp_commitments nd st pvp_id is (seeds @ [seed]) (Some t)
     | Some existing \<Rightarrow>
         if existing \<noteq> t then Inl ''pvp settle: teams must be identical across both commitments''
         else pvp_commitments nd st pvp_id is (seeds @ [seed]) (Some existing))"

definition apply_pvp_effects :: "'s node \<Rightarrow> 's settlement \<Rightarrow> ComputeTx \<Rightarrow> string + unit" where
  "apply_pvp_effects nd st tx =
     (case game_call nd tx of
        Some (OpPvpSettle pvp_id claimed_winner claimed_rounds rules_version) \<Rightarrow>
          if length (input_set tx) \<noteq> 2 then Inl ''pvp settle requires both revealed commitments''
          else and_then (pvp_commitments nd st pvp_id (input_set tx) [] None) (\<lambda>(seeds, teams).
            and_then (ok_or teams ''pvp teams missing'') (\<lambda>teams.
            let report = resolve_battle (nd_x nd) teams (pvp_combined_seed (nd_x nd) (seeds ! 0) (seeds ! 1)) in
            if br_winner report \<noteq> claimed_winner
            then Inl (''pvp winner mismatch: claimed '' @ show_word claimed_winner @ '', computed '' @ show_word (br_winner report))
            else if br_total_rounds report \<noteq> claimed_rounds
            then Inl (''pvp rounds mismatch: claimed '' @ show_word claimed_rounds @ '', computed '' @ show_word (br_total_rounds report))
            else Inr ()))
      | _ \<Rightarrow> Inr ())"

subsection \<open>Payments from the treasury\<close>

definition apply_zk_tower_effects :: "'s node \<Rightarrow> 's settlement \<Rightarrow> ComputeTx \<Rightarrow> (string + unit) option" where
  "apply_zk_tower_effects nd st tx =
     (case game_call nd tx of
        Some (OpZkTowerClaim tower_id growth_permille difficulty_a difficulty_b difficulty_c claimed_final rules_version proof_hex) \<Rightarrow>
          (case verify_tower_claim (nd_x nd) growth_permille difficulty_a difficulty_b difficulty_c claimed_final proof_hex of
             None \<Rightarrow> None
           | Some (Inl e) \<Rightarrow> Some (Inl (''tower claim rejected: '' @ game_error_text e))
           | Some (Inr reward) \<Rightarrow>
               (let treasury_shc = treasury_balance nd st in
                if ucast treasury_shc < reward
                then Some (Inl (''insufficient treasury shc '' @ show_word treasury_shc @ '' needed '' @ show_word reward @
                       '' for tower reward''))
                else Some (Inr ())))
      | _ \<Rightarrow> Some (Inr ()))"

text \<open>The treasury pays the signer: balances first, then the ledger, whose refusal comes too late.\<close>

definition pay_signer :: "'s node \<Rightarrow> string \<Rightarrow> string \<Rightarrow> string \<Rightarrow> u64 \<Rightarrow> ComputeTx \<Rightarrow> 's settlement
    \<Rightarrow> (string + unit) \<times> 's settlement" where
  "pay_signer nd no_signer destination memo amount tx st =
     (case ed25519_signer_address (nd_x nd) tx of
        None \<Rightarrow> (Inl no_signer, st)
      | Some payer \<Rightarrow>
          (case debit_treasury nd amount (se_db st) of
             Inl e \<Rightarrow> (Inl e, st)
           | Inr db \<Rightarrow>
               (let st = st\<lparr>se_db := credit_token payer SHC_TOKEN amount db\<rparr> in
                case record_expense destination amount memo (se_ledger st) of
                  Inl e \<Rightarrow> (Inl (''treasury ledger expense failed: '' @ governance_error_text e), st)
                | Inr l \<Rightarrow> (Inr (), st\<lparr>se_ledger := l\<rparr>))))"

definition commit_zk_tower_effects :: "'s node \<Rightarrow> ComputeTx \<Rightarrow> 's settlement \<Rightarrow> (string + unit) \<times> 's settlement" where
  "commit_zk_tower_effects nd tx st =
     (case game_call nd tx of
        Some (OpZkTowerClaim tower_id growth_permille difficulty_a difficulty_b difficulty_c claimed_final rules_version proof_hex) \<Rightarrow>
          pay_signer nd ''tower claim requires an ed25519 signer'' ''tower_reward'' ''zk summary reward''
            (tower_reward_shc claimed_final) tx st
      | _ \<Rightarrow> (Inr (), st))"

definition sell_drop_price :: "'s node \<Rightarrow> 's settlement \<Rightarrow> ComputeTx \<Rightarrow> string \<Rightarrow> string \<Rightarrow> string + u64" where
  "sell_drop_price nd st tx session_id item_id =
     and_then (first_input nd st tx ''sell drop missing input object'' ''sell drop input object not found'') (\<lambda>obj.
     case decode_json (nd_x nd) (o_state obj) of
       Inl e \<Rightarrow> Inl (''invalid drop state: '' @ e)
     | Inr v \<Rightarrow>
         if json_field_str v ''kind'' \<noteq> Some ''action_drop'' \<or> json_field_str v ''session_id'' \<noteq> Some session_id
            \<or> json_field_str v ''item_id'' \<noteq> Some item_id
         then Inl ''drop object mismatch''
         else if json_field_u64 v ''price_shc'' = 0 then Inl ''drop has no sell value''
         else Inr (json_field_u64 v ''price_shc''))"

definition apply_drop_sell_effects :: "'s node \<Rightarrow> 's settlement \<Rightarrow> ComputeTx \<Rightarrow> string + unit" where
  "apply_drop_sell_effects nd st tx =
     (case game_call nd tx of
        Some (OpSellDrop session_id item_id) \<Rightarrow>
          and_then (first_input nd st tx ''sell drop missing input object'' ''sell drop input object not found'') (\<lambda>obj.
          if o_spent obj then Inl ''drop already sold (spent)''
          else and_then (sell_drop_price nd st tx session_id item_id) (\<lambda>price.
            let treasury_shc = treasury_balance nd st in
            if ucast treasury_shc < price
            then Inl (''insufficient treasury shc '' @ show_word treasury_shc @ '' needed '' @ show_word price @ '' for drop sell'')
            else Inr ()))
      | _ \<Rightarrow> Inr ())"

definition commit_drop_sell_effects :: "'s node \<Rightarrow> ComputeTx \<Rightarrow> 's settlement \<Rightarrow> (string + unit) \<times> 's settlement" where
  "commit_drop_sell_effects nd tx st =
     (case game_call nd tx of
        Some (OpSellDrop session_id item_id) \<Rightarrow>
          (case sell_drop_price nd st tx session_id item_id of
             Inl e \<Rightarrow> (Inl e, st)
           | Inr price \<Rightarrow>
               pay_signer nd ''sell drop requires an ed25519 signer'' ''drop_redeem'' ''shc sink -> player'' price tx st)
      | _ \<Rightarrow> (Inr (), st))"

subsection \<open>Transfers and the cost of an enhancement\<close>

definition enhance_cost :: "'s node \<Rightarrow> 's settlement \<Rightarrow> u8 \<Rightarrow> string + u64" where
  "enhance_cost nd st current_level =
     and_then (config_state nd st (enhance_config_object_id (nd_x nd)) ''enhance config object not found''
       (decode_enhance_config (nd_x nd)) ''invalid enhance config state: '') (\<lambda>cfg.
     Inr (ec_cost_sh cfg ! unat (min current_level 11)))"

definition native_transfer_refused :: string where
  "native_transfer_refused = ''native token transfer must use protocol-level commands''"

definition transfer_signer :: "'s node \<Rightarrow> ComputeTx \<Rightarrow> string \<Rightarrow> string + address" where
  "transfer_signer nd tx what = ok_or (ed25519_signer_address (nd_x nd) tx) (what @ '' requires an ed25519 signer'')"

definition check_balance :: "'s settlement \<Rightarrow> address \<Rightarrow> TokenId \<Rightarrow> u64 \<Rightarrow> string \<Rightarrow> string \<Rightarrow> string + unit" where
  "check_balance st payer token amount what purpose =
     (let b = as_u64 (get_token_balance (se_db st) payer token) in
      if b < amount then Inl (''insufficient '' @ what @ '' balance '' @ show_word b @ '' needed '' @ show_word amount @ '' for '' @ purpose)
      else Inr ())"

definition apply_economy_effects :: "'s node \<Rightarrow> 's settlement \<Rightarrow> ComputeTx \<Rightarrow> string + unit" where
  "apply_economy_effects nd st tx =
     (let enhance = (\<lambda>current_level.
            and_then (enhance_cost nd st current_level) (\<lambda>cost.
            and_then (transfer_signer nd tx ''enhance'') (\<lambda>payer.
            check_balance st payer SHC_TOKEN cost ''shc'' ''enhance''))) in
      case game_call nd tx of
        Some (OpTransferToken token_id dest amount) \<Rightarrow>
          and_then (transfer_signer nd tx ''transfer'') (\<lambda>payer.
          if TokenId token_id = NATIVE_TOKEN then Inl native_transfer_refused
          else check_balance st payer (TokenId token_id) amount (''token '' @ show_word token_id) ''transfer'')
      | Some (OpTransferCoin dest amount) \<Rightarrow>
          and_then (transfer_signer nd tx ''transfer'') (\<lambda>payer.
          check_balance st payer SHC_TOKEN amount ''shc'' ''transfer'')
      | Some (OpEnhance object_id current_level current_pity star_stones seed claimed_success claimed_new_level claimed_pity rules_version) \<Rightarrow>
          enhance current_level
      | Some (OpZkEnhance object_id current_level current_pity star_stones roll_claim claimed_success claimed_new_level claimed_pity rules_version proof_hex) \<Rightarrow>
          enhance current_level
      | _ \<Rightarrow> Inr ())"

definition move_token :: "'s node \<Rightarrow> address \<Rightarrow> string \<Rightarrow> TokenId \<Rightarrow> u64 \<Rightarrow> 's settlement \<Rightarrow> (string + unit) \<times> 's settlement" where
  "move_token nd payer dest token amount st =
     (case parse_address_hex (nd_x nd) dest of
        Inl e \<Rightarrow> (Inl e, st)
      | Inr target \<Rightarrow>
          (case debit_token payer token amount (se_db st) of
             Inl e \<Rightarrow> (Inl e, st)
           | Inr db \<Rightarrow> (Inr (), st\<lparr>se_db := credit_token target token amount db\<rparr>)))"

definition pay_enhance :: "'s node \<Rightarrow> ComputeTx \<Rightarrow> u8 \<Rightarrow> 's settlement \<Rightarrow> (string + unit) \<times> 's settlement" where
  "pay_enhance nd tx current_level st =
     (case and_then (enhance_cost nd st current_level) (\<lambda>cost.
           and_then (transfer_signer nd tx ''enhance'') (\<lambda>payer.
           and_then (debit_token payer SHC_TOKEN cost (se_db st)) (\<lambda>db. Inr (cost, db)))) of
        Inl e \<Rightarrow> (Inl e, st)
      | Inr (cost, db) \<Rightarrow> (Inr (), credit_treasury_token nd SHC_TOKEN cost (st\<lparr>se_db := db\<rparr>)))"

definition commit_economy_effects :: "'s node \<Rightarrow> ComputeTx \<Rightarrow> 's settlement \<Rightarrow> (string + unit) \<times> 's settlement" where
  "commit_economy_effects nd tx st =
     (case game_call nd tx of
        Some (OpTransferToken token_id dest amount) \<Rightarrow>
          (case transfer_signer nd tx ''transfer'' of
             Inl e \<Rightarrow> (Inl e, st)
           | Inr payer \<Rightarrow>
               if TokenId token_id = NATIVE_TOKEN then (Inl native_transfer_refused, st)
               else move_token nd payer dest (TokenId token_id) amount st)
      | Some (OpTransferCoin dest amount) \<Rightarrow>
          (case transfer_signer nd tx ''transfer'' of
             Inl e \<Rightarrow> (Inl e, st)
           | Inr payer \<Rightarrow> move_token nd payer dest SHC_TOKEN amount st)
      | Some (OpEnhance object_id current_level current_pity star_stones seed claimed_success claimed_new_level claimed_pity rules_version) \<Rightarrow>
          pay_enhance nd tx current_level st
      | Some (OpZkEnhance object_id current_level current_pity star_stones roll_claim claimed_success claimed_new_level claimed_pity rules_version proof_hex) \<Rightarrow>
          pay_enhance nd tx current_level st
      | _ \<Rightarrow> (Inr (), st))"

subsection \<open>Transactions and blocks\<close>

definition show_hash :: "'e externals_scheme \<Rightarrow> hash \<Rightarrow> string" where
  "show_hash x h = ''0x'' @ take 16 (hex_encode x (be_bytes h))"

fun compute_error_text :: "'e externals_scheme \<Rightarrow> ComputeError \<Rightarrow> string" where
  "compute_error_text x (ObjectNotFound h) = ''Object output not found: '' @ show_hash x h"
| "compute_error_text x (DomainMismatch e a) = ''Domain mismatch: expected '' @ show_word e @ '', got '' @ show_word a"
| "compute_error_text x (DomainNotRegistered d) = ''Domain is not registered: '' @ show_word d"
| "compute_error_text x (DomainNotPublic d) = ''Domain is not public: '' @ show_word d"
| "compute_error_text x InvalidObjectKind = ''Invalid object kind for command''"
| "compute_error_text x ReadSetValidationFailed = ''Read set validation failed''"
| "compute_error_text x (ReadVersionMismatch e a) = ''Read version mismatch: expected '' @ show_word e @ '', got '' @ show_word a"
| "compute_error_text x OwnershipCheckFailed = ''Ownership check failed''"
| "compute_error_text x AuthorizationDenied = ''Authorization denied''"
| "compute_error_text x ComputeError.InvalidSignature = ''Invalid signature for authorization''"
| "compute_error_text x TxIdMismatch = ''Operation id does not match signed payload''"
| "compute_error_text x SignatureOwnerMismatch = ''Signature does not match owner''"
| "compute_error_text x UnsupportedSignatureScheme = ''Unsupported signature scheme''"
| "compute_error_text x ResourcePolicyViolation = ''Resource policy violation''"
| "compute_error_text x DuplicateOutputId = ''Duplicate output id''"
| "compute_error_text x InvalidPredecessor = ''Invalid output predecessor''"
| "compute_error_text x InvalidVersionProgression = ''Invalid version progression''"
| "compute_error_text x (InvalidOperation e) = ''Invalid operation: '' @ e"

text \<open>The checks in their order.\<close>

definition prechecks :: "'s node \<Rightarrow> u64 \<Rightarrow> u64 \<Rightarrow> 's settlement \<Rightarrow> ComputeTx \<Rightarrow> (string + unit) option" where
  "prechecks nd base_fee block_timestamp st tx =
     (case and_then (apply_governance_effects nd block_timestamp st tx) (\<lambda>_.
           and_then (apply_action_effects nd st tx) (\<lambda>_.
           apply_drop_sell_effects nd st tx)) of
        Inl e \<Rightarrow> Some (Inl e)
      | Inr _ \<Rightarrow>
          (case apply_zk_tower_effects nd st tx of
             None \<Rightarrow> None
           | Some (Inl e) \<Rightarrow> Some (Inl e)
           | Some (Inr _) \<Rightarrow>
               Some (and_then (apply_pvp_effects nd st tx) (\<lambda>_.
                     and_then (apply_fee_effects nd st tx base_fee) (\<lambda>_.
                     apply_economy_effects nd st tx)))))"

text \<open>A commit after which the transaction continues only if it succeeds.\<close>

definition then_commit :: "(string + unit) \<times> 's settlement \<Rightarrow> ('s settlement \<Rightarrow> (string + unit) \<times> 's settlement)
    \<Rightarrow> (string + unit) \<times> 's settlement" where
  "then_commit r f = (case r of (Inl e, st) \<Rightarrow> (Inl e, st) | (Inr _, st) \<Rightarrow> f st)"

definition commits :: "'s node \<Rightarrow> u64 \<Rightarrow> u64 \<Rightarrow> ComputeTx \<Rightarrow> 's settlement \<Rightarrow> (string + unit) \<times> 's settlement" where
  "commits nd base_fee block_timestamp tx st =
     then_commit (then_commit (then_commit (then_commit
       (commit_governance_effects nd block_timestamp tx st)
       (commit_economy_effects nd tx))
       (commit_fee_effects nd tx base_fee))
       (commit_zk_tower_effects nd tx))
       (commit_drop_sell_effects nd tx)"

definition block_error :: "string \<Rightarrow> string" where
  "block_error e = ''Block error: '' @ e"

text \<open>One turn of the loop in \<open>execute_txs\<close>: the receipt, the gas added to the total, and the state.\<close>

definition settle_tx :: "'s node \<Rightarrow> u64 \<Rightarrow> u64 \<Rightarrow> ComputeTx \<Rightarrow> 's settlement \<Rightarrow> (Receipt \<times> u64 \<times> 's settlement) option" where
  "settle_tx nd base_fee block_timestamp tx st =
     (let failed = (\<lambda>e. receipt_failed (tx_id tx) 0 e) in
      case prechecks nd base_fee block_timestamp st tx of
        None \<Rightarrow> None
      | Some (Inl e) \<Rightarrow> Some (failed (block_error e), 0, st)
      | Some (Inr _) \<Rightarrow>
          (case execute (externals.truncate (nd_x nd)) (nd_now nd) (block_validator nd) tx (se_exec st) of
             (Inl e, ex) \<Rightarrow> Some (failed (compute_error_text (nd_x nd) e), 0, st\<lparr>se_exec := ex\<rparr>)
           | (Inr _, ex) \<Rightarrow>
               (let gas = estimate_tx_gas tx in
                case commits nd base_fee block_timestamp tx (st\<lparr>se_exec := ex\<rparr>) of
                  (Inl e, st) \<Rightarrow> Some (failed (block_error e), gas, st)
                | (Inr _, st) \<Rightarrow>
                    Some (receipt_success (tx_id tx) 0 gas 0 (map p_output_id (output_proposals tx)), gas, st))))"

fun execute_txs :: "'s node \<Rightarrow> u64 \<Rightarrow> u64 \<Rightarrow> ComputeTx list \<Rightarrow> Receipt list \<Rightarrow> u64 \<Rightarrow> 's settlement
    \<Rightarrow> (Receipt list \<times> u64 \<times> 's settlement) option" where
  "execute_txs nd base_fee block_timestamp [] receipts total_gas st = Some (receipts, total_gas, st)"
| "execute_txs nd base_fee block_timestamp (tx # txs) receipts total_gas st =
     (case settle_tx nd base_fee block_timestamp tx st of
        None \<Rightarrow> None
      | Some (receipt, gas, st) \<Rightarrow>
          execute_txs nd base_fee block_timestamp txs (receipts @ [receipt]) (saturating_add total_gas gas) st)"

definition validate_receipt :: "'s node \<Rightarrow> ComputeTx \<Rightarrow> Receipt \<Rightarrow> Receipt \<Rightarrow> string + unit" where
  "validate_receipt nd tx computed declared =
     (let shown = (\<lambda>r. nd_debug nd (rc_status r) (rc_gas_used r) (length (rc_output_refs r)) (rc_error r)) in
      if rc_status computed \<noteq> rc_status declared \<or> rc_gas_used computed \<noteq> rc_gas_used declared
         \<or> rc_output_refs computed \<noteq> rc_output_refs declared \<or> rc_error computed \<noteq> rc_error declared
      then Inl (''compute receipt mismatch for tx 0x'' @ hex_encode (nd_x nd) (be_bytes (txid_raw (tx_id tx))) @
             '' (computed: '' @ shown computed @ '', declared: '' @ shown declared @ '')'')
      else Inr ())"

definition validate_receipts :: "'s node \<Rightarrow> ComputeTx list \<Rightarrow> Receipt list \<Rightarrow> Receipt list \<Rightarrow> string + unit" where
  "validate_receipts nd txs computed declared =
     for_each (\<lambda>(tx, c, d).
         if tx_id tx \<noteq> rc_tx_id d then Inl ''receipt tx_id does not match body tx'' else validate_receipt nd tx c d)
       (zip txs (zip computed declared))"

text \<open>A block runs on a fresh executor over the shared store, so that the replay registry is empty.
  The roots of the transition are the argument and the root stored in the database.\<close>

definition execute_block :: "'s node \<Rightarrow> Block \<Rightarrow> hash \<Rightarrow> 's settlement \<Rightarrow> ((string + hash \<times> hash) \<times> 's settlement) option" where
  "execute_block nd blk parent_state_root st =
     (case bk_body blk of
        None \<Rightarrow> Some (Inl ''block body missing'', st)
      | Some body \<Rightarrow>
          if length (bd_transactions body) \<noteq> length (bd_receipts body)
          then Some (Inl ''block body tx/receipt count mismatch'', st)
          else
            (case execute_txs nd (as_u64 (h_base_fee_per_gas (bk_header blk))) (h_timestamp (bk_header blk))
                    (bd_transactions body) [] 0 (st\<lparr>se_exec := executor_new (ex_store (se_exec st))\<rparr>) of
               None \<Rightarrow> None
             | Some (computed, _, st) \<Rightarrow>
                 (case validate_receipts nd (bd_transactions body) computed (bd_receipts body) of
                    Inl e \<Rightarrow> Some (Inl e, st)
                  | Inr _ \<Rightarrow> Some (Inr (parent_state_root, sd_state_root (se_db st)), st))))"

end
