(* ===== verification/Supply.thy ===== *)
theory Supply
  imports Settlement
begin

section \<open>What settling a block does to balances\<close>

text \<open>
  The locale \<open>settlement_steps\<close> is the interface between the state executor and the claims about it:
  a relation between states that holds across each primitive change holds across transactions and
  blocks, whatever the receipts say and whether or not the block is accepted.  It is instantiated
  with the bound on the supply of every token, with the claim that only payers lose, and with the
  state root that never moves.
\<close>

subsection \<open>Primitive changes of balances\<close>

lemma be_value_ones: "be_value (replicate n 255) = 256 ^ n - 1"
proof -
  have "be_value (replicate n 255) + 1 = 256 ^ n"
  proof (induction n)
    case (Suc n)
    have "unat (255 :: u8) = 255" by simp
    then have "be_value (replicate (Suc n) 255) = 255 * 256 ^ n + be_value (replicate n 255)"
      by (simp only: replicate_Suc be_value.simps length_replicate)
    then show ?case using Suc by simp
  qed simp
  then show ?thesis by simp
qed

lemma saturating_value:
  assumes "u256_wf a"
  shows "u256_wf (u256_saturating_add a (u256_from v))"
    "be_value (u256_saturating_add a (u256_from v)) \<le> be_value a + unat v"
    "be_value a \<le> be_value (u256_saturating_add a (u256_from v))"
proof -
  obtain s c where o: "overflowing_add a (u256_from v) = (s, c)" by fastforce
  define M :: nat where "M = 2 ^ 256"
  note sp = overflowing_add_spec [OF assms u256_wf_simps(3) o, folded M_def]
  have M: "(256 :: nat) ^ 32 = M" by (simp add: M_def)
  have full: "u256_wf (replicate 32 255)" "be_value (replicate 32 255) = M - 1"
    using be_value_ones [of 32] unfolding M by (simp_all add: u256_wf_def)
  have a: "be_value a < M" using u256_bound [OF assms] by (simp add: M_def)
  have e: "u256_saturating_add a (u256_from v) = (if c then replicate 32 255 else s)"
    by (simp add: u256_saturating_add_def o)
  show "u256_wf (u256_saturating_add a (u256_from v))" using sp(1) full(1) by (simp add: e)
  show "be_value (u256_saturating_add a (u256_from v)) \<le> be_value a + unat v"
    using sp(2) full(2) unfolding e by (cases c) simp_all
  show "be_value a \<le> be_value (u256_saturating_add a (u256_from v))"
    using sp(2) full(2) a unfolding e by (cases c) simp_all
qed

lemma subtract_value:
  assumes "u256_wf a" "\<not> u256_less a (u256_from v)"
  shows "u256_wf (u256_saturating_sub a (u256_from v))"
    "be_value (u256_saturating_sub a (u256_from v)) + unat v = be_value a"
proof -
  obtain s c where o: "overflowing_sub a (u256_from v) = (s, c)" by fastforce
  note sp = overflowing_sub_spec [OF assms(1) u256_wf_simps(3) o]
  have "length (u256_from v) = 32" by (simp add: u256_from_def)
  then have "\<not> c" using assms u256_less_iff [of a "u256_from v"] sp(2) by (simp add: u256_wf_def)
  with sp show "u256_wf (u256_saturating_sub a (u256_from v))"
    "be_value (u256_saturating_sub a (u256_from v)) + unat v = be_value a"
    by (simp_all add: u256_saturating_sub_def o)
qed

text \<open>Credit and debit of any token, the native one included, change one balance.\<close>

lemma balance_credit:
  "get_token_balance (credit_token a token amount db) b token' =
    (if b = a \<and> token' = token then u256_saturating_add (get_token_balance db a token) (u256_from amount)
     else get_token_balance db b token')"
proof (cases "token = NATIVE_TOKEN")
  case True
  have "a_balance (case sdb_get_account db a of None \<Rightarrow> Account_default | Some acc \<Rightarrow> acc) = get_token_balance db a NATIVE_TOKEN"
    by (auto simp: sdb_get_account_def get_token_balance_def sdb_get_balance_def Account_default_def split: option.split)
  with True show ?thesis by (simp add: credit_token_def credit_account_def Let_def)
qed (simp add: credit_token_def)

lemma debit_Inr:
  assumes "debit_token a token amount db = Inr db'"
  shows "\<not> u256_less (get_token_balance db a token) (u256_from amount)"
    "get_token_balance db' b token' =
      (if b = a \<and> token' = token then u256_saturating_sub (get_token_balance db a token) (u256_from amount)
       else get_token_balance db b token')"
proof -
  have "a_balance (case sdb_get_account db a of None \<Rightarrow> Account_default | Some acc \<Rightarrow> acc) = get_token_balance db a NATIVE_TOKEN"
    by (auto simp: sdb_get_account_def get_token_balance_def sdb_get_balance_def Account_default_def split: option.split)
  then show "\<not> u256_less (get_token_balance db a token) (u256_from amount)"
    "get_token_balance db' b token' =
      (if b = a \<and> token' = token then u256_saturating_sub (get_token_balance db a token) (u256_from amount)
       else get_token_balance db b token')"
    using assms by (auto simp: debit_token_def debit_account_def Let_def split: if_splits)
qed

lemma debit_balance_wf: "debit_token a token amount db = Inr db' \<Longrightarrow> balances_wf db \<Longrightarrow> balances_wf db'"
  unfolding balances_wf_def by (simp add: debit_Inr subtract_value(1))

lemma credit_balance_wf: "balances_wf db \<Longrightarrow> balances_wf (credit_token a token amount db)"
  by (simp add: balances_wf_def balance_credit saturating_value(1))

lemma debit_supply:
  assumes "debit_token a token amount db = Inr db'" "balances_wf db"
  shows "token_supply db' token' + (if token' = token then unat amount else 0) = token_supply db token'"
proof (cases "token' = token")
  case True
  have "token_supply db' token + be_value (get_token_balance db a token)
      = token_supply db token + be_value (get_token_balance db' a token)"
    by (rule token_supply_change) (simp add: debit_Inr(2) [OF assms(1)])
  moreover have "be_value (get_token_balance db' a token) + unat amount = be_value (get_token_balance db a token)"
    using subtract_value(2) [OF _ debit_Inr(1) [OF assms(1)]] assms(2)
    by (simp add: debit_Inr(2) [OF assms(1)] balances_wf_def)
  ultimately show ?thesis using True by simp
qed (simp add: token_supply_def debit_Inr(2) [OF assms(1)])

lemma credit_supply:
  assumes "balances_wf db"
  shows "token_supply (credit_token a token amount db) token' \<le> token_supply db token' + (if token' = token then unat amount else 0)"
proof (cases "token' = token")
  case True
  let ?db = "credit_token a token amount db"
  have "token_supply ?db token + be_value (get_token_balance db a token)
      = token_supply db token + be_value (get_token_balance ?db a token)"
    by (rule token_supply_change) (simp add: balance_credit)
  moreover have "be_value (get_token_balance ?db a token) \<le> be_value (get_token_balance db a token) + unat amount"
    using saturating_value(2) assms by (simp add: balance_credit balances_wf_def)
  ultimately show ?thesis using True by simp
qed (simp add: token_supply_def balance_credit)

subsection \<open>The interface\<close>

definition mint_total :: "'j TreasuryLedger \<Rightarrow> nat" where
  "mint_total l = sum_list (map (\<lambda>outcome. case outcome of MintShcExecuted dest amount \<Rightarrow> unat amount | _ \<Rightarrow> 0) (executions l))"

text \<open>Who may lose: the address named by the first ed25519 key of a transaction.\<close>

definition tx_payers :: "'s node \<Rightarrow> ComputeTx \<Rightarrow> address set" where
  "tx_payers nd tx = insert (nd_treasury nd) (set_option (ed25519_signer_address (nd_x nd) tx))"

locale settlement_steps =
  fixes payers :: "address set"
    and R :: "'s settlement \<Rightarrow> 's settlement \<Rightarrow> bool"
  assumes R_refl: "R st st"
    and R_trans: "R st st' \<Longrightarrow> R st' st'' \<Longrightarrow> R st st''"
    and R_exec: "R st (st\<lparr>se_exec := ex\<rparr>)"
    and R_burn: "payer \<in> payers \<Longrightarrow> debit_token payer token amount (se_db st) = Inr db \<Longrightarrow> R st (st\<lparr>se_db := db\<rparr>)"
    and R_move: "payer \<in> payers \<Longrightarrow> debit_token payer token amount (se_db st) = Inr db \<Longrightarrow>
      R st (st\<lparr>se_db := credit_token target token amount db\<rparr>)"
    and R_ledger: "mint_total l = mint_total (se_ledger st) \<Longrightarrow> R st (st\<lparr>se_ledger := l\<rparr>)"
    and R_mint: "mint_total l = mint_total (se_ledger st) + unat amount \<Longrightarrow>
      R st (st\<lparr>se_db := credit_token target SHC_TOKEN amount (se_db st), se_ledger := l\<rparr>)"
begin

lemma R_move_ledger:
  assumes "payer \<in> payers" "debit_token payer token amount (se_db st) = Inr db"
    "mint_total l = mint_total (se_ledger st)"
  shows "R st (st\<lparr>se_db := credit_token target token amount db, se_ledger := l\<rparr>)"
  using R_trans [OF R_move [OF assms(1,2)] R_ledger] assms(3) by simp

lemma commit_governance:
  assumes "commit_governance_effects nd now tx st = (r, st')" "nd_treasury nd \<in> payers"
  shows "R st st'"
proof (cases "st' = st")
  case False
  then obtain p st1 db where p: "tally now p = (Passed, st1)" and
    e: "(r, st') = (case execute_proposal st1 (se_ledger st) of
        Inl e \<Rightarrow> (Inl (''governance execute commit failed: '' @ governance_error_text e), st\<lparr>se_db := db\<rparr>)
      | Inr (outcome, p, l) \<Rightarrow> (Inr (), st\<lparr>se_db := db, se_ledger := record_execution outcome l\<rparr>))" and
    db: "(case pr_kind st1 of
           FundActivity amount memo \<Rightarrow> debit_treasury nd amount (se_db st)
         | MintShc dest amount \<Rightarrow>
             and_then (parse_address_hex (nd_x nd) dest) (\<lambda>target.
               Inr (credit_token target SHC_TOKEN amount (se_db st)))
         | _ \<Rightarrow> Inr (se_db st)) = Inr db"
    using assms(1) by (auto simp: commit_governance_effects_def Let_def split: option.splits GameOp.splits sum.splits prod.splits if_splits)
  have st1: "pr_status st1 = Passed" using p by (auto simp: tally_def Let_def split: if_splits)
  show ?thesis
  proof (cases "pr_kind st1")
    case (FundActivity amount memo)
    then have d: "debit_token (nd_treasury nd) SHC_TOKEN amount (se_db st) = Inr db"
      using db by (simp add: debit_treasury_def)
    note b = R_burn [OF assms(2) d]
    show ?thesis
    proof (cases "execute_proposal st1 (se_ledger st)")
      case (Inr v)
      obtain outcome q l where v: "v = (outcome, q, l)" by (cases v)
      have "mint_total (record_execution outcome l) = mint_total (se_ledger st)"
        using Inr FundActivity st1 unfolding v
        by (auto simp: execute_proposal_def record_expense_def record_execution_def mint_total_def result_simps split: if_splits)
      with e Inr v show ?thesis using R_trans [OF b R_ledger [of _ "st\<lparr>se_db := db\<rparr>"]] by simp
    qed (use b e in simp)
  next
    case (MintShc dest amount)
    then obtain target where t: "db = credit_token target SHC_TOKEN amount (se_db st)"
      using db by (auto simp: result_simps)
    have "st' = st\<lparr>se_db := db, se_ledger := record_execution (MintShcExecuted dest amount) (se_ledger st)\<rparr>"
      using e MintShc st1 by (simp add: execute_proposal_def)
    then show ?thesis unfolding t using R_mint [of "record_execution (MintShcExecuted dest amount) (se_ledger st)" st amount target]
      by (simp add: record_execution_def mint_total_def)
  qed (use db e st1 R_ledger [of _ st] in \<open>auto simp: execute_proposal_def record_execution_def mint_total_def\<close>)
qed (simp add: R_refl)

lemma commit_fee:
  assumes "commit_fee_effects nd tx base_fee st = (r, st')" "tx_payers nd tx \<subseteq> payers"
  shows "R st st'"
proof (cases "st' = st")
  case False
  then obtain payer fee db where p: "fee_payer nd tx base_fee = Some (payer, fee)"
      and d: "debit_account payer fee (se_db st) = Inr db" and st': "st' = credit_treasury nd fee (st\<lparr>se_db := db\<rparr>)"
    using assms(1) by (auto simp: commit_fee_effects_def split: option.splits sum.splits)
  have "payer \<in> payers" using p assms(2) by (auto simp: fee_payer_def tx_payers_def Let_def split: if_splits)
  moreover have "debit_token payer NATIVE_TOKEN fee (se_db st) = Inr db" using d by (simp add: debit_token_def)
  ultimately show ?thesis using R_move_ledger [of payer NATIVE_TOKEN fee st db "record_income ''block_gas_fee'' fee (se_ledger st)" "nd_treasury nd"]
    by (simp add: st' credit_treasury_def credit_token_def record_income_def mint_total_def)
qed (simp add: R_refl)

lemma commit_pay_signer:
  assumes "pay_signer nd no_signer destination memo amount tx st = (r, st')" "tx_payers nd tx \<subseteq> payers"
  shows "R st st'"
proof (cases "st' = st")
  case False
  then obtain payer db where d: "debit_token (nd_treasury nd) SHC_TOKEN amount (se_db st) = Inr db"
    and st': "st' = st\<lparr>se_db := credit_token payer SHC_TOKEN amount db\<rparr> \<or>
      (\<exists>l. record_expense destination amount memo (se_ledger st) = Inr l \<and>
        st' = st\<lparr>se_db := credit_token payer SHC_TOKEN amount db, se_ledger := l\<rparr>)"
    using assms(1) by (auto simp: pay_signer_def debit_treasury_def Let_def split: option.splits sum.splits)
  have t: "nd_treasury nd \<in> payers" using assms(2) by (simp add: tx_payers_def)
  have "mint_total l = mint_total (se_ledger st)" if "record_expense destination amount memo (se_ledger st) = Inr l" for l
    using that by (auto simp: record_expense_def mint_total_def split: if_splits)
  then show ?thesis using st' R_move [OF t d] R_move_ledger [OF t d] by auto
qed (simp add: R_refl)

lemma commit_move:
  assumes "move_token nd payer dest token amount st = (r, st')" "payer \<in> payers"
  shows "R st st'"
  using assms R_refl R_move by (auto simp: move_token_def split: sum.splits)

lemma commit_pay_enhance:
  assumes "pay_enhance nd tx level st = (r, st')" "tx_payers nd tx \<subseteq> payers"
  shows "R st st'"
proof (cases "st' = st")
  case False
  then obtain cost payer db where p: "ed25519_signer_address (nd_x nd) tx = Some payer"
    and d: "debit_token payer SHC_TOKEN cost (se_db st) = Inr db"
    and st': "st' = credit_treasury_token nd SHC_TOKEN cost (st\<lparr>se_db := db\<rparr>)"
    using assms(1) by (auto simp: pay_enhance_def transfer_signer_def result_simps split: sum.splits)
  have "payer \<in> payers" using p assms(2) by (simp add: tx_payers_def)
  from R_move_ledger [OF this d, of "record_income ''shc_enhance_cost'' cost (se_ledger st)" "nd_treasury nd"] show ?thesis
    by (simp add: st' credit_treasury_token_def record_income_def mint_total_def)
qed (simp add: R_refl)

lemma commit_economy:
  assumes "commit_economy_effects nd tx st = (r, st')" "tx_payers nd tx \<subseteq> payers"
  shows "R st st'"
proof -
  have "payer \<in> payers" if "transfer_signer nd tx what = Inr payer" for what payer
    using that assms(2) by (auto simp: transfer_signer_def result_simps tx_payers_def)
  then show ?thesis using assms R_refl [of st] commit_move commit_pay_enhance
    by (auto simp: commit_economy_effects_def split: option.splits GameOp.splits sum.splits if_splits)
qed

lemma commit_tower: "commit_zk_tower_effects nd tx st = (r, st') \<Longrightarrow> tx_payers nd tx \<subseteq> payers \<Longrightarrow> R st st'"
  using R_refl [of st] commit_pay_signer
  by (auto simp: commit_zk_tower_effects_def split: option.splits GameOp.splits)

lemma commit_drop: "commit_drop_sell_effects nd tx st = (r, st') \<Longrightarrow> tx_payers nd tx \<subseteq> payers \<Longrightarrow> R st st'"
  using R_refl [of st] commit_pay_signer
  by (auto simp: commit_drop_sell_effects_def split: option.splits GameOp.splits sum.splits)

lemma then_commit_R:
  assumes "then_commit r f = (v, st')" "R st (snd r)" "\<And>v st1 st2. f st1 = (v, st2) \<Longrightarrow> R st1 st2"
  shows "R st st'"
  using assms R_trans by (cases r) (auto simp: then_commit_def split: sum.splits)

lemma commits_R:
  assumes "commits nd base_fee now tx st = (r, st')" "tx_payers nd tx \<subseteq> payers"
  shows "R st st'"
proof -
  have t: "nd_treasury nd \<in> payers" using assms(2) by (simp add: tx_payers_def)
  have snd_R: "R st (snd (then_commit c f))"
    if "R st (snd c)" "\<And>v st1 st2. f st1 = (v, st2) \<Longrightarrow> R st1 st2" for c and f :: "'s settlement \<Rightarrow> _"
    using then_commit_R [OF _ that] by (cases "then_commit c f") auto
  have "R st (snd (commit_governance_effects nd now tx st))"
    using commit_governance [OF _ t] by (cases "commit_governance_effects nd now tx st") auto
  then have "R st (snd (commits nd base_fee now tx st))" unfolding commits_def
    by (intro snd_R) (assumption | erule commit_economy [OF _ assms(2)] | erule commit_fee [OF _ assms(2)]
      | erule commit_tower [OF _ assms(2)] | erule commit_drop [OF _ assms(2)])+
  then show ?thesis using assms(1) by simp
qed

lemma settle_tx_R:
  assumes "settle_tx nd base_fee now tx st = Some (receipt, gas, st')" "tx_payers nd tx \<subseteq> payers"
  shows "R st st'"
proof -
  have "R st st'" if "commits nd base_fee now tx (st\<lparr>se_exec := ex\<rparr>) = (r, st')" for ex r
    using R_trans [OF R_exec commits_R [OF that assms(2)]] .
  then show ?thesis using assms(1) R_refl R_exec
    by (auto simp: settle_tx_def Let_def split: option.splits sum.splits prod.splits)
qed

lemma execute_txs_R:
  "execute_txs nd base_fee now txs receipts tg st = Some (receipts', tg', st') \<Longrightarrow>
    (\<Union>tx\<in>set txs. tx_payers nd tx) \<subseteq> payers \<Longrightarrow> R st st'"
proof (induction txs arbitrary: receipts tg st)
  case (Cons tx txs)
  then obtain receipt gas st1 where "settle_tx nd base_fee now tx st = Some (receipt, gas, st1)"
    "execute_txs nd base_fee now txs (receipts @ [receipt]) (saturating_add tg gas) st1 = Some (receipts', tg', st')"
    by (auto split: option.splits)
  then show ?case using Cons.IH Cons.prems(2) settle_tx_R [of nd base_fee now tx st receipt gas st1] R_trans by auto
qed (simp add: R_refl)

lemma execute_block_R:
  assumes "execute_block nd blk root st = Some (r, st')"
    and "\<And>body. bk_body blk = Some body \<Longrightarrow> (\<Union>tx\<in>set (bd_transactions body). tx_payers nd tx) \<subseteq> payers"
  shows "R st st'"
proof (cases "st' = st")
  case False
  then obtain body computed tg where "bk_body blk = Some body"
    "execute_txs nd (as_u64 (h_base_fee_per_gas (bk_header blk))) (h_timestamp (bk_header blk)) (bd_transactions body) [] 0
      (st\<lparr>se_exec := executor_new (ex_store (se_exec st))\<rparr>) = Some (computed, tg, st')"
    using assms(1) by (auto simp: execute_block_def split: option.splits if_splits sum.splits)
  then show ?thesis using R_trans [OF R_exec execute_txs_R] assms(2) by blast
qed (simp add: R_refl)

end

subsection \<open>Supply\<close>

definition supply_bounded :: "'s settlement \<Rightarrow> 's settlement \<Rightarrow> bool" where
  "supply_bounded st st' \<longleftrightarrow> (balances_wf (se_db st) \<longrightarrow> balances_wf (se_db st') \<and>
     (\<forall>token. token_supply (se_db st') token + (if token = SHC_TOKEN then mint_total (se_ledger st) else 0)
        \<le> token_supply (se_db st) token + (if token = SHC_TOKEN then mint_total (se_ledger st') else 0)))"

interpretation bounded: settlement_steps UNIV "supply_bounded :: 's settlement \<Rightarrow> 's settlement \<Rightarrow> bool"
proof
  fix st :: "'s settlement" and payer target :: address and token amount db
  assume d: "debit_token payer token amount (se_db st) = Inr db"
  have le: "token_supply db token' \<le> token_supply (se_db st) token'" if "balances_wf (se_db st)" for token'
    using debit_supply [OF d that, of token'] by simp
  then show "supply_bounded st (st\<lparr>se_db := db\<rparr>)"
    using debit_balance_wf [OF d] by (simp add: supply_bounded_def)
  have "token_supply (credit_token target token amount db) token' \<le> token_supply (se_db st) token'"
    if "balances_wf (se_db st)" for token'
    using debit_supply [OF d that, of token'] credit_supply [OF debit_balance_wf [OF d that], of target token amount token'] by simp
  then show "supply_bounded st (st\<lparr>se_db := credit_token target token amount db\<rparr>)"
    using debit_balance_wf [OF d] credit_balance_wf by (simp add: supply_bounded_def)
next
  fix st :: "'s settlement" and l :: "json TreasuryLedger" and amount target
  assume l: "mint_total l = mint_total (se_ledger st) + unat (amount :: u64)"
  show "supply_bounded st (st\<lparr>se_db := credit_token target SHC_TOKEN amount (se_db st), se_ledger := l\<rparr>)"
  proof (cases "balances_wf (se_db st)")
    case True
    have "token_supply (credit_token target SHC_TOKEN amount (se_db st)) SHC_TOKEN + mint_total (se_ledger st)
        \<le> token_supply (se_db st) SHC_TOKEN + mint_total l"
      using credit_supply [OF True, of target SHC_TOKEN amount SHC_TOKEN] l by simp
    moreover have "token_supply (credit_token target SHC_TOKEN amount (se_db st)) token \<le> token_supply (se_db st) token"
      if "token \<noteq> SHC_TOKEN" for token
      using credit_supply [OF True, of target SHC_TOKEN amount token] that by simp
    ultimately show ?thesis using credit_balance_wf [OF True] by (simp add: supply_bounded_def)
  qed (simp add: supply_bounded_def)
next
  fix st st' st'' :: "'s settlement"
  assume a: "supply_bounded st st'" "supply_bounded st' st''"
  have "token_supply (se_db st'') token + (if token = SHC_TOKEN then mint_total (se_ledger st) else 0)
        \<le> token_supply (se_db st) token + (if token = SHC_TOKEN then mint_total (se_ledger st'') else 0)"
    if "balances_wf (se_db st)" for token
  proof -
    have "token_supply (se_db st') token + (if token = SHC_TOKEN then mint_total (se_ledger st) else 0)
        \<le> token_supply (se_db st) token + (if token = SHC_TOKEN then mint_total (se_ledger st') else 0)"
      "token_supply (se_db st'') token + (if token = SHC_TOKEN then mint_total (se_ledger st') else 0)
        \<le> token_supply (se_db st') token + (if token = SHC_TOKEN then mint_total (se_ledger st'') else 0)"
      using a that by (simp_all add: supply_bounded_def)
    then show ?thesis by (cases "token = SHC_TOKEN") simp_all
  qed
  with a show "supply_bounded st st''" by (simp add: supply_bounded_def)
qed (simp_all add: supply_bounded_def)

subsection \<open>Bystanders and the state root\<close>

definition bystanders_kept :: "address set \<Rightarrow> 's settlement \<Rightarrow> 's settlement \<Rightarrow> bool" where
  "bystanders_kept payers st st' \<longleftrightarrow> (balances_wf (se_db st) \<longrightarrow> balances_wf (se_db st') \<and>
     (\<forall>a token. a \<notin> payers \<longrightarrow>
        be_value (get_token_balance (se_db st) a token) \<le> be_value (get_token_balance (se_db st') a token)))"

lemma credit_grows:
  "balances_wf db \<Longrightarrow> be_value (get_token_balance db b token') \<le> be_value (get_token_balance (credit_token a token amount db) b token')"
  using saturating_value(3) by (auto simp: balance_credit balances_wf_def)

interpretation bystander: settlement_steps payers "bystanders_kept payers :: 's settlement \<Rightarrow> 's settlement \<Rightarrow> bool" for payers
proof
  fix st :: "'s settlement" and payer target :: address and token amount db
  assume p: "payer \<in> payers" and d: "debit_token payer token amount (se_db st) = Inr db"
  have same: "get_token_balance db a token' = get_token_balance (se_db st) a token'" if "a \<notin> payers" for a token'
    using p that debit_Inr(2) [OF d] by auto
  then show "bystanders_kept payers st (st\<lparr>se_db := db\<rparr>)"
    using debit_balance_wf [OF d] by (simp add: bystanders_kept_def)
  have "be_value (get_token_balance (se_db st) a token') \<le> be_value (get_token_balance (credit_token target token amount db) a token')"
    if "balances_wf (se_db st)" "a \<notin> payers" for a token'
    using credit_grows [OF debit_balance_wf [OF d that(1)], of a token' target token amount] same [OF that(2), of token'] by simp
  then show "bystanders_kept payers st (st\<lparr>se_db := credit_token target token amount db\<rparr>)"
    using debit_balance_wf [OF d] credit_balance_wf by (simp add: bystanders_kept_def)
next
  fix st :: "'s settlement" and l :: "json TreasuryLedger" and amount target
  show "bystanders_kept payers st (st\<lparr>se_db := credit_token target SHC_TOKEN amount (se_db st), se_ledger := l\<rparr>)"
    using credit_balance_wf credit_grows by (simp add: bystanders_kept_def)
next
  fix st st' st'' :: "'s settlement"
  assume "bystanders_kept payers st st'" "bystanders_kept payers st' st''"
  then show "bystanders_kept payers st st''" unfolding bystanders_kept_def by (meson le_trans)
qed (simp_all add: bystanders_kept_def)

definition root_kept :: "'s settlement \<Rightarrow> 's settlement \<Rightarrow> bool" where
  "root_kept st st' \<longleftrightarrow> sd_state_root (se_db st') = sd_state_root (se_db st)"

lemma credit_root [simp]: "sd_state_root (credit_token a token amount db) = sd_state_root db"
  by (simp add: credit_token_def credit_account_def Let_def sdb_insert_account_def set_token_balance_def)

lemma debit_root: "debit_token a token amount db = Inr db' \<Longrightarrow> sd_state_root db' = sd_state_root db"
  by (auto simp: debit_token_def debit_account_def Let_def sdb_insert_account_def set_token_balance_def split: if_splits)

interpretation root: settlement_steps UNIV "root_kept :: 's settlement \<Rightarrow> 's settlement \<Rightarrow> bool"
  by unfold_locales (simp_all add: root_kept_def debit_root)

end
