(* ===== verification/Unsigned.thy ===== *)
theory Unsigned
  imports Supply
begin

section \<open>Game calls that need no signature\<close>

text \<open>
  A transaction of the game domain may be an invocation with a payload and nothing else.  The
  default authorization verifies signatures against the owners of inputs, of which there are none;
  the state executor charges the address of the first ed25519 key that the witness names.  The
  section shows what follows, for every content of the signature.
\<close>

subsection \<open>The call\<close>

definition unsigned_call :: "'s node \<Rightarrow> u8 list \<Rightarrow> u8 list \<Rightarrow> u64 \<Rightarrow> u8 list \<Rightarrow> ComputeTx" where
  "unsigned_call nd key sig nonce data = assign_expected_tx_id (externals.truncate (nd_x nd))
     \<lparr>tx_id = TxId 0, tx_domain_id = GAME_DOMAIN, tx_command = CmdInvoke, input_set = [], read_set = [],
      output_proposals = [], tx_fee = 0, tx_nonce = Some nonce, tx_metadata = [], payload = data,
      deadline_unix_secs = None, chain_id = None, network_id = None,
      witness = \<lparr>signatures = [\<lparr>scheme = SchemeEd25519, sig_bytes = sig, public_key = Some key\<rparr>], threshold = None\<rparr>,
      max_fee = 0, priority_fee = 0, gas_limit = 0\<rparr>"

lemma unsigned_call_simps [simp]:
  "tx_domain_id (unsigned_call nd key sig nonce data) = GAME_DOMAIN"
  "tx_command (unsigned_call nd key sig nonce data) = CmdInvoke"
  "input_set (unsigned_call nd key sig nonce data) = []"
  "read_set (unsigned_call nd key sig nonce data) = []"
  "output_proposals (unsigned_call nd key sig nonce data) = []"
  "tx_nonce (unsigned_call nd key sig nonce data) = Some nonce"
  "tx_metadata (unsigned_call nd key sig nonce data) = []"
  "payload (unsigned_call nd key sig nonce data) = data"
  "tx_fee (unsigned_call nd key sig nonce data) = 0"
  "max_fee (unsigned_call nd key sig nonce data) = 0"
  "priority_fee (unsigned_call nd key sig nonce data) = 0"
  "gas_limit (unsigned_call nd key sig nonce data) = 0"
  "chain_id (unsigned_call nd key sig nonce data) = None"
  "network_id (unsigned_call nd key sig nonce data) = None"
  "witness (unsigned_call nd key sig nonce data) =
    \<lparr>signatures = [\<lparr>scheme = SchemeEd25519, sig_bytes = sig, public_key = Some key\<rparr>], threshold = None\<rparr>"
  by (simp_all add: unsigned_call_def assign_expected_tx_id_def)

lemma unsigned_call_id: "has_consistent_tx_id (externals.truncate (nd_x nd)) (unsigned_call nd key sig nonce data)"
  by (simp add: has_consistent_tx_id_def unsigned_call_def assign_expected_tx_id_def expected_tx_id_def
      signing_digest_def signing_preimage_def required_threshold_def)

lemma unsigned_call_signer:
  "length key = 32 \<Longrightarrow> ed25519_signer_address (nd_x nd) (unsigned_call nd key sig nonce data) = Some (ucast (keccak256 (nd_x nd) key))"
  by (simp add: ed25519_signer_address_def)

text \<open>The node accepts the call: it knows the game domain, and the nonce of the key is not in the
  replay window.\<close>

definition call_is_fresh :: "'s node \<Rightarrow> u8 list \<Rightarrow> u64 \<Rightarrow> 's settlement \<Rightarrow> bool" where
  "call_is_fresh nd key nonce st \<longleftrightarrow>
     retain_window (nd_now nd) (ex_registry (se_exec st))
       (replay_nonce_key (''ed25519:'' @ hex_encode (nd_x nd) key) (unsigned_call nd key [] nonce []) nonce) = None"

definition game_domain_open :: "'s node \<Rightarrow> bool" where
  "game_domain_open nd \<longleftrightarrow> (case nd_domains nd GAME_DOMAIN of None \<Rightarrow> False | Some d \<Rightarrow> dc_public d)"

lemma unsigned_call_executes:
  assumes "length key = 32" "nonce \<noteq> 0" "data \<noteq> []" "game_domain_open nd" "call_is_fresh nd key nonce st"
  shows "\<exists>ex. execute (externals.truncate (nd_x nd)) (nd_now nd) (block_validator nd)
      (unsigned_call nd key sig nonce data) (se_exec st) = (Inr \<lparr>vr_inputs = [], vr_reads = []\<rparr>, ex) \<and>
    ex_store ex = ex_store (se_exec st)"
proof -
  let ?tx = "unsigned_call nd key sig nonce data" and ?x = "externals.truncate (nd_x nd) :: externals"
  have b: "basic_sanity_check ?tx" "validate_tx_envelope ?tx = Inr ()"
    using assms(2,3) by (simp_all add: basic_sanity_check_def validate_tx_envelope_def nonce_required_def validate_metadata_def)
  have a: "authorize ?x ?tx [] = Inr ()"
    using unsigned_call_id [of nd key sig nonce data] by (simp add: authorize_def required_threshold_def)
  obtain d where d: "get_domain (nd_domains nd) GAME_DOMAIN = Some d" "dc_public d"
    using assms(4) by (auto simp: game_domain_open_def get_domain_def split: option.splits)
  have c: "check_resources ?tx [] = Inr ()"
    by (simp add: check_resources_def aggregate_resources_def required_native_def counter_of_def
        ResourceCounter_default_def checked_add_def native_asset_id_def)
  have v: "validate (block_validator nd) (ex_store (se_exec st)) ?tx = Inr \<lparr>vr_inputs = [], vr_reads = []\<rparr>"
    by (simp add: validate_def block_validator_def b a c d validate_output_proposals_def)
  have "replay_actors ?x ?tx = [''ed25519:'' @ hex_encode (nd_x nd) key]"
    using assms(1) by (simp add: replay_actors_def replay_actor_def externals.defs)
  moreover have "replay_nonce_key k ?tx nonce = replay_nonce_key k (unsigned_call nd key [] nonce []) nonce" for k
    by (simp add: replay_nonce_key_def)
  ultimately obtain r where "register_replay_nonce ?x (nd_now nd) ?tx (ex_registry (se_exec st)) = (Inr (), r)"
    using assms(5) by (simp add: register_replay_nonce_def call_is_fresh_def Let_def)
  then show ?thesis using v
    by (simp add: execute_def commit_prevalidated_def commit_outputs_def block_validator_def)
qed

lemma unsigned_call_game:
  "decode_game_op (nd_x nd) data = Inr op \<Longrightarrow> game_call nd (unsigned_call nd key sig nonce data) = Some op"
  by (simp add: game_call_def parse_game_op_def)

lemma unsigned_call_free:
  "fee_payer nd (unsigned_call nd key sig nonce data) base_fee = None"
  by (simp add: fee_payer_def tx_gas_fee_def)

lemma low_bytes_value: "u256_wf a \<Longrightarrow> unat (as_u64 a) \<le> be_value a"
proof -
  assume "u256_wf a"
  then have l: "length (drop 24 a) = 8" by (simp add: u256_wf_def)
  have "be_value (drop 24 a) < 256 ^ 8" using be_value_bound [of "drop 24 a"] unfolding l .
  then have "unat (as_u64 a) = be_value (drop 24 a)"
    by (simp add: as_u64_def from_be_def unat_of_nat)
  moreover have "be_value a = be_value (take 24 a) * 256 ^ length (drop 24 a) + be_value (drop 24 a)"
    using be_value_append [of "take 24 a" "drop 24 a"] by simp
  ultimately show ?thesis by simp
qed

lemma debit_possible:
  assumes "balances_wf db" "token \<noteq> NATIVE_TOKEN" "unat amount \<le> be_value (get_token_balance db a token)"
  obtains db' where "debit_token a token amount db = Inr db'"
proof -
  have "u256_wf (get_token_balance db a token)" using assms(1) by (simp add: balances_wf_def)
  then have "length (get_token_balance db a token) = length (u256_from amount)"
    by (simp add: u256_wf_def u256_from_def)
  then have "\<not> u256_less (get_token_balance db a token) (u256_from amount)"
    using assms(3) by (simp add: u256_less_iff)
  then show thesis using that assms(2) by (auto simp: debit_token_def Let_def)
qed

subsection \<open>Transfers\<close>

lemma unsigned_transfer:
  fixes st :: "'s settlement" and nd :: "'s node" and key :: "u8 list"
  defines "victim \<equiv> ucast (keccak256 (nd_x nd) key)"
  assumes "length key = 32" "nonce \<noteq> 0" "data \<noteq> []" "game_domain_open nd" "call_is_fresh nd key nonce st"
    and "balances_wf (se_db st)"
    and "decode_game_op (nd_x nd) data = Inr (OpTransferCoin dest amount)"
    and "parse_address_hex (nd_x nd) dest = Inr thief" "thief \<noteq> victim"
    and "amount \<le> as_u64 (get_token_balance (se_db st) victim SHC_TOKEN)"
  shows "\<exists>receipt gas st'. settle_tx nd base_fee now (unsigned_call nd key sig nonce data) st = Some (receipt, gas, st') \<and>
    rc_status receipt = Success \<and>
    be_value (get_token_balance (se_db st') victim SHC_TOKEN) + unat amount
      = be_value (get_token_balance (se_db st) victim SHC_TOKEN) \<and>
    get_token_balance (se_db st') thief SHC_TOKEN
      = u256_saturating_add (get_token_balance (se_db st) thief SHC_TOKEN) (u256_from amount)"
proof -
  let ?tx = "unsigned_call nd key sig nonce data"
  note g = unsigned_call_game [where nd = nd and key = key and sig = sig and nonce = nonce, OF assms(8)]
  note s = unsigned_call_signer [OF assms(2), of nd sig nonce data, folded victim_def]
  have wf: "u256_wf (get_token_balance (se_db st) victim SHC_TOKEN)" using assms(7) by (simp add: balances_wf_def)
  have "unat amount \<le> be_value (get_token_balance (se_db st) victim SHC_TOKEN)"
    using assms(11) low_bytes_value [OF wf] by (simp add: word_le_nat_alt)
  then obtain db where d: "debit_token victim SHC_TOKEN amount (se_db st) = Inr db"
    using debit_possible [OF assms(7) native_is_not_shc(1)] by blast
  obtain ex where e: "execute (externals.truncate (nd_x nd)) (nd_now nd) (block_validator nd) ?tx (se_exec st)
      = (Inr \<lparr>vr_inputs = [], vr_reads = []\<rparr>, ex)"
    using unsigned_call_executes [OF assms(2-6)] by blast
  have pre: "prechecks nd base_fee now st ?tx = Some (Inr ())"
    using assms(11) by (simp add: prechecks_def apply_governance_effects_def apply_action_effects_def apply_drop_sell_effects_def
        apply_zk_tower_effects_def apply_pvp_effects_def apply_fee_effects_def apply_economy_effects_def g s
        unsigned_call_free transfer_signer_def check_balance_def not_less Let_def)
  have com: "commits nd base_fee now ?tx (st\<lparr>se_exec := ex\<rparr>)
      = (Inr (), st\<lparr>se_exec := ex, se_db := credit_token thief SHC_TOKEN amount db\<rparr>)"
    by (simp add: commits_def then_commit_def commit_governance_effects_def commit_economy_effects_def commit_fee_effects_def
        commit_zk_tower_effects_def commit_drop_sell_effects_def g s unsigned_call_free transfer_signer_def
        move_token_def assms(9) d)
  show ?thesis using subtract_value(2) [OF wf debit_Inr(1) [OF d]] assms(10)
    by (simp add: settle_tx_def pre e com Let_def receipt_success_def balance_credit debit_Inr(2) [OF d])
qed

text \<open>C6: Anybody moves the game tokens of anybody: a call whose witness names the public key of a victim
  beside arbitrary signature bytes transfers the victim's tokens, without a fee and without any
  signature check.\<close>

theorem unsigned_transfer_settles:
  fixes st :: "'s settlement" and nd :: "'s node" and key :: "u8 list"
  defines "victim \<equiv> ucast (keccak256 (nd_x nd) key)"
  assumes "length key = 32" "nonce \<noteq> 0" "data \<noteq> []" "game_domain_open nd" "call_is_fresh nd key nonce st"
    and "balances_wf (se_db st)"
    and "decode_game_op (nd_x nd) data = Inr (OpTransferCoin dest amount)"
    and "parse_address_hex (nd_x nd) dest = Inr thief" "thief \<noteq> victim"
    and "amount \<le> as_u64 (get_token_balance (se_db st) victim SHC_TOKEN)"
  shows "\<exists>receipt gas st'. settle_tx nd base_fee now (unsigned_call nd key sig nonce data) st = Some (receipt, gas, st') \<and>
    rc_status receipt = Success \<and>
    be_value (get_token_balance (se_db st') victim SHC_TOKEN) + unat amount
      = be_value (get_token_balance (se_db st) victim SHC_TOKEN) \<and>
    get_token_balance (se_db st') thief SHC_TOKEN
      = u256_saturating_add (get_token_balance (se_db st) thief SHC_TOKEN) (u256_from amount)"
  unfolding victim_def by (rule unsigned_transfer [OF assms(2-9) assms(10,11) [unfolded victim_def]])

text \<open>A node whose signature check refuses everything.\<close>

definition sample_node :: "GameOp \<Rightarrow> mem_store node" where
  "sample_node op = \<lparr>nd_x = sample_game\<lparr>decode_game_op := \<lambda>_. Inr op, hex_decode := \<lambda>_. Inr (replicate 19 0 @ [7])\<rparr>,
     nd_ops = mem_ops, nd_domains = default_game_domains, nd_treasury = 9, nd_now = 100,
     nd_debug = (\<lambda>_ _ _ _. [])\<rparr>"

definition sample_settlement :: "address \<Rightarrow> mem_store settlement" where
  "sample_settlement rich = settlement_new ((statedb_new 0)\<lparr>sd_token_balances := [(rich, SHC_TOKEN) \<mapsto> u256_from 50]\<rparr>) sample_store"

lemma sample_node_simps [simp]:
  "game_domain_open (sample_node op)" "call_is_fresh (sample_node op) key nonce (sample_settlement rich)"
  "balances_wf (se_db (sample_settlement rich))"
  "keccak256 (nd_x (sample_node op)) bs = 0" "decode_game_op (nd_x (sample_node op)) data = Inr op"
  "nd_treasury (sample_node op) = 9"
  "ed_verify (nd_x (sample_node op)) k m g = False"
  by (simp_all add: game_domain_open_def sample_node_def sample_game_def default_game_domains_def upsert_domain_def
      call_is_fresh_def sample_settlement_def settlement_new_def executor_new_def retain_window_def balances_wf_def
      get_token_balance_def sdb_get_balance_def statedb_new_def)

lemma sample_root [simp]: "sd_state_root (se_db (sample_settlement rich)) = 0"
  by (simp add: sample_settlement_def settlement_new_def statedb_new_def)

lemma sample_balance [simp]:
  "get_token_balance (se_db (sample_settlement rich)) a SHC_TOKEN = (if a = rich then u256_from 50 else u256_zero)"
  by (simp add: sample_settlement_def settlement_new_def statedb_new_def get_token_balance_def)

lemma low_bytes_from: "as_u64 (u256_from v) = v"
proof -
  have "as_u64 (u256_from v) = word_of_nat (be_value (u256_from v))"
    by (simp add: as_u64_def from_be_def u256_from_def be_value_append)
  then show ?thesis by simp
qed

lemma unsigned_transfer_settles_witness:
  "\<exists>receipt gas st'. settle_tx (sample_node (OpTransferCoin ''07'' 50)) 1 0
      (unsigned_call (sample_node (OpTransferCoin ''07'' 50)) (replicate 32 4) [] 1 [1]) (sample_settlement 0) = Some (receipt, gas, st') \<and>
    rc_status receipt = Success \<and> be_value (get_token_balance (se_db st') 0 SHC_TOKEN) = 0"
proof -
  let ?nd = "sample_node (OpTransferCoin ''07'' 50)"
  have p: "parse_address_hex (nd_x ?nd) ''07'' = Inr 7"
    by (simp add: parse_address_hex_def sample_node_def from_be_def be_value_append)
  from unsigned_transfer_settles [where nd = ?nd and key = "replicate 32 4" and sig = "[]" and nonce = 1 and data = "[1]"
      and st = "sample_settlement 0" and base_fee = 1 and now = 0, OF _ _ _ _ _ _ _ p]
  show ?thesis by (simp add: low_bytes_from) fastforce
qed

subsection \<open>Rewards\<close>

text \<open>The receipt of a tower reward depends on the treasury ledger, which every node keeps for itself:
  it is not in the state database and starts empty.  The balances move all the same.  Two nodes that
  agree on state and block, but not on this ledger, therefore settle a reward alike and disagree on
  its receipt; and a reward whose receipt says failed has been paid.\<close>

theorem ledger_decides_receipt:
  fixes st :: "'s settlement" and nd :: "'s node" and key :: "u8 list"
  defines "payer \<equiv> ucast (keccak256 (nd_x nd) key)"
  assumes "length key = 32" "nonce \<noteq> 0" "data \<noteq> []" "game_domain_open nd" "call_is_fresh nd key nonce st"
    and "decode_game_op (nd_x nd) data = Inr (OpZkTowerClaim tower growth a b c final ver proof_hex)"
    and "verify_tower_claim (nd_x nd) growth a b c final proof_hex = Some (Inr reward)"
    and "reward \<le> ucast (treasury_balance nd st)" "debit_treasury nd reward (se_db st) = Inr db"
  shows "\<exists>receipt gas st'. settle_tx nd base_fee now (unsigned_call nd key sig nonce data) st = Some (receipt, gas, st') \<and>
    se_db st' = credit_token payer SHC_TOKEN reward db \<and>
    rc_status receipt = (if balance (se_ledger st) < ucast reward then Failed else Success)"
proof -
  let ?tx = "unsigned_call nd key sig nonce data"
  note g = unsigned_call_game [where nd = nd and key = key and sig = sig and nonce = nonce, OF assms(7)]
  note s = unsigned_call_signer [OF assms(2), of nd sig nonce data, folded payer_def]
  have r: "tower_reward_shc final = reward"
    using assms(8) by (auto simp: verify_tower_claim_def Let_def split: sum.splits option.splits if_splits)
  obtain ex where e: "execute (externals.truncate (nd_x nd)) (nd_now nd) (block_validator nd) ?tx (se_exec st)
      = (Inr \<lparr>vr_inputs = [], vr_reads = []\<rparr>, ex)"
    using unsigned_call_executes [OF assms(2-6)] by blast
  have pre: "prechecks nd base_fee now st ?tx = Some (Inr ())"
    using assms(9) by (simp add: prechecks_def apply_governance_effects_def apply_action_effects_def apply_drop_sell_effects_def
        apply_zk_tower_effects_def apply_pvp_effects_def apply_fee_effects_def apply_economy_effects_def g
        unsigned_call_free assms(8) not_less Let_def)
  let ?st = "st\<lparr>se_exec := ex\<rparr>"
  have pay: "commit_zk_tower_effects nd ?tx ?st =
      (case record_expense ''tower_reward'' reward ''zk summary reward'' (se_ledger st) of
         Inl e \<Rightarrow> (Inl (''treasury ledger expense failed: '' @ governance_error_text e), ?st\<lparr>se_db := credit_token payer SHC_TOKEN reward db\<rparr>)
       | Inr l \<Rightarrow> (Inr (), ?st\<lparr>se_db := credit_token payer SHC_TOKEN reward db, se_ledger := l\<rparr>))"
    by (simp add: commit_zk_tower_effects_def pay_signer_def g s r assms(10) Let_def)
  have com: "commits nd base_fee now ?tx ?st =
      then_commit (commit_zk_tower_effects nd ?tx ?st) (\<lambda>st. (Inr (), st))"
    by (simp add: commits_def then_commit_def commit_governance_effects_def commit_economy_effects_def commit_fee_effects_def
        commit_drop_sell_effects_def g unsigned_call_free split: prod.split sum.split)
  show ?thesis
    by (simp add: settle_tx_def pre e com pay then_commit_def Let_def receipt_success_def receipt_failed_def record_expense_def)
qed

lemma ledger_decides_receipt_witness:
  "\<exists>receipt gas st'.
    settle_tx ((sample_node (OpZkTowerClaim ''t'' 20 1 2 3 123456 1 ''00''))\<lparr>nd_x :=
        (nd_x (sample_node (OpZkTowerClaim ''t'' 20 1 2 3 123456 1 ''00'')))
          \<lparr>decode_tower_proof := \<lambda>_. Inr (forged_tower (\<lambda>_. 0) 1 2 3 123456 ZK_ENHANCE_QUERIES)\<rparr>\<rparr>) 1 0
      (unsigned_call (sample_node (OpZkTowerClaim ''t'' 20 1 2 3 123456 1 ''00'')) (replicate 32 4) [] 1 [1])
      (sample_settlement 9) = Some (receipt, gas, st') \<and>
    rc_status receipt = Failed \<and> get_token_balance (se_db st') 0 SHC_TOKEN = u256_saturating_add u256_zero (u256_from 12)"
proof -
  let ?op = "OpZkTowerClaim ''t'' 20 1 2 3 123456 1 ''00''"
  let ?nd = "(sample_node ?op)\<lparr>nd_x := (nd_x (sample_node ?op))\<lparr>decode_tower_proof :=
      \<lambda>_. Inr (forged_tower (\<lambda>_. 0) 1 2 3 123456 ZK_ENHANCE_QUERIES)\<rparr>\<rparr>"
  let ?key = "replicate 32 4 :: u8 list" and ?st = "sample_settlement 9"
  have "tower_reward_shc 123456 = 12" by (simp add: tower_reward_shc_def TOWER_REWARD_CAP_def)
  then have v: "verify_tower_claim (nd_x ?nd) 20 1 2 3 123456 ''00'' = Some (Inr 12)"
    by (simp add: verify_tower_claim_def sample_node_def sample_game_def forged_tower_accepted Let_def)
  have call: "unsigned_call ?nd k s n d = unsigned_call (sample_node ?op) k s n d" for k s n d
    by (simp add: unsigned_call_def externals.defs)
  have open': "game_domain_open ?nd" "call_is_fresh ?nd ?key 1 ?st"
    by (simp_all add: game_domain_open_def call_is_fresh_def sample_node_def default_game_domains_def upsert_domain_def
        sample_settlement_def settlement_new_def executor_new_def retain_window_def)
  have t: "treasury_balance ?nd ?st = 50"
    by (simp add: treasury_balance_def as_u128_def from_be_def u256_from_def be_value_append be_value_be_bytes)
  obtain db where d: "debit_token 9 SHC_TOKEN 12 (se_db ?st) = Inr db"
    by (rule debit_possible [of "se_db ?st" SHC_TOKEN 12 9]) simp_all
  have l: "balance (se_ledger ?st) = 0" by (simp add: sample_settlement_def settlement_new_def ledger_new_def)
  have db: "get_token_balance db 0 SHC_TOKEN = u256_zero" using debit_Inr(2) [OF d] by simp
  from ledger_decides_receipt [where nd = ?nd and key = ?key and sig = "[]" and nonce = 1 and data = "[1]" and st = ?st
      and base_fee = 1 and now = 0 and db = db, OF _ _ _ open' _ v]
  obtain receipt gas st' where
    "settle_tx ?nd 1 0 (unsigned_call ?nd ?key [] 1 [1]) ?st = Some (receipt, gas, st')"
    "se_db st' = credit_token 0 SHC_TOKEN 12 db" "rc_status receipt = Failed"
    using d by (auto simp: t debit_treasury_def l)
  then show ?thesis unfolding call by (auto simp: balance_credit db)
qed

end
