(* ===== verification/BlockTime.thy ===== *)
theory BlockTime
  imports Unsigned
begin

section \<open>Settled blocks\<close>

text \<open>
  What \<open>execute_block\<close> guarantees: which blocks it accepts, what it does to supplies and to
  the balances of those who pay nothing, the state root it returns, and how often a transaction
  settles.
\<close>

subsection \<open>Receipts\<close>

definition receipts_agree :: "Receipt \<Rightarrow> Receipt \<Rightarrow> bool" where
  "receipts_agree computed declared \<longleftrightarrow>
     rc_tx_id computed = rc_tx_id declared \<and> rc_status computed = rc_status declared \<and>
     rc_gas_used computed = rc_gas_used declared \<and> rc_output_refs computed = rc_output_refs declared \<and>
     rc_error computed = rc_error declared"

lemma settle_tx_id: "settle_tx nd base_fee now tx st = Some (receipt, gas, st') \<Longrightarrow> rc_tx_id receipt = tx_id tx"
  by (auto simp: settle_tx_def Let_def receipt_failed_def receipt_success_def split: option.splits sum.splits prod.splits)

lemma execute_txs_ids:
  "execute_txs nd base_fee now txs receipts tg st = Some (receipts', tg', st') \<Longrightarrow>
    map rc_tx_id receipts' = map rc_tx_id receipts @ map tx_id txs"
proof (induction txs arbitrary: receipts tg st)
  case (Cons tx txs)
  then obtain receipt gas st1 where "settle_tx nd base_fee now tx st = Some (receipt, gas, st1)"
    "execute_txs nd base_fee now txs (receipts @ [receipt]) (saturating_add tg gas) st1 = Some (receipts', tg', st')"
    by (auto split: option.splits)
  then show ?case using Cons.IH settle_tx_id by fastforce
qed simp

lemma validate_receipts_iff:
  assumes "map rc_tx_id computed = map tx_id txs" "length declared = length txs"
  shows "validate_receipts nd txs computed declared = Inr () \<longleftrightarrow> list_all2 receipts_agree computed declared"
  using assms
proof (induction txs arbitrary: computed declared)
  case (Cons tx txs)
  obtain c cs where c: "computed = c # cs" "rc_tx_id c = tx_id tx" "map rc_tx_id cs = map tx_id txs"
    using Cons.prems(1) by (cases computed) auto
  obtain d ds where d: "declared = d # ds" "length ds = length txs"
    using Cons.prems(2) by (cases declared) auto
  have v: "validate_receipts nd (tx # txs) (c # cs) (d # ds) = Inr () \<longleftrightarrow>
      tx_id tx = rc_tx_id d \<and> validate_receipt nd tx c d = Inr () \<and> validate_receipts nd txs cs ds = Inr ()"
    by (auto simp: validate_receipts_def result_simps)
  have "validate_receipt nd tx c d = Inr () \<longleftrightarrow> rc_status c = rc_status d \<and> rc_gas_used c = rc_gas_used d \<and>
      rc_output_refs c = rc_output_refs d \<and> rc_error c = rc_error d"
    by (auto simp: validate_receipt_def Let_def)
  then show ?case unfolding c(1) d(1) v by (auto simp: Cons.IH [OF c(3) d(2)] receipts_agree_def c(2))
qed (simp add: validate_receipts_def)

text \<open>C7: A block is accepted exactly when it declares, transaction by transaction, the id, status, gas, outputs and
  error that the executor computes; accepted or not, the state is the one after its transactions.\<close>

theorem execute_block_accepts_iff:
  assumes "bk_body blk = Some body" "length (bd_transactions body) = length (bd_receipts body)"
    and "execute_txs nd (as_u64 (h_base_fee_per_gas (bk_header blk))) (h_timestamp (bk_header blk)) (bd_transactions body) [] 0
      (st\<lparr>se_exec := executor_new (ex_store (se_exec st))\<rparr>) = Some (computed, total_gas, st')"
  shows "\<exists>r. execute_block nd blk parent_root st = Some (r, st') \<and>
    (is_ok r \<longleftrightarrow> list_all2 receipts_agree computed (bd_receipts body))"
proof -
  have "validate_receipts nd (bd_transactions body) computed (bd_receipts body) = Inr ()
      \<longleftrightarrow> list_all2 receipts_agree computed (bd_receipts body)"
    using execute_txs_ids [OF assms(3)] assms(2) by (intro validate_receipts_iff) simp_all
  then show ?thesis using assms
    by (cases "validate_receipts nd (bd_transactions body) computed (bd_receipts body)")
       (simp_all add: execute_block_def is_ok_iff)
qed

subsection \<open>Blocks of one transaction\<close>

definition block_of :: "Block \<Rightarrow> ComputeTx \<Rightarrow> Receipt \<Rightarrow> Block" where
  "block_of blk tx receipt = blk\<lparr>bk_body := Some (body_new [tx] [receipt])\<rparr>"

lemma block_of_settles:
  assumes "settle_tx nd (as_u64 (h_base_fee_per_gas (bk_header blk))) (h_timestamp (bk_header blk)) tx
      (st\<lparr>se_exec := executor_new (ex_store (se_exec st))\<rparr>) = Some (receipt, gas, st')"
  shows "execute_block nd (block_of blk tx receipt) parent_root st = Some (Inr (parent_root, sd_state_root (se_db st')), st')"
proof -
  have "validate_receipts nd [tx] [receipt] [receipt] = Inr ()"
    by (simp add: validate_receipts_iff settle_tx_id [OF assms] receipts_agree_def)
  then show ?thesis by (simp add: execute_block_def block_of_def body_new_def assms)
qed

lemma fresh_executor_accepts:
  "call_is_fresh nd key nonce (st\<lparr>se_exec := executor_new s\<rparr>)"
  by (simp add: call_is_fresh_def executor_new_def retain_window_def)

subsection \<open>Supply, bystanders and the root\<close>

text \<open>C5: No transaction creates tokens except by a mint that the treasury ledger records: for every block, accepted
  or refused, and whatever its receipts say, the supply of the game token grows at most by what the new
  entries of the ledger mint, and no other supply grows.\<close>

theorem supply_never_inflates:
  assumes "execute_block nd blk parent_root st = Some (r, st')" "balances_wf (se_db st)"
  shows "token_supply (se_db st') SHC_TOKEN + mint_total (se_ledger st)
      \<le> token_supply (se_db st) SHC_TOKEN + mint_total (se_ledger st') \<and>
    (\<forall>token. token \<noteq> SHC_TOKEN \<longrightarrow> token_supply (se_db st') token \<le> token_supply (se_db st) token)"
proof -
  have "supply_bounded st st'" by (rule bounded.execute_block_R [OF assms(1)]) simp
  then have f: "token_supply (se_db st') token + (if token = SHC_TOKEN then mint_total (se_ledger st) else 0)
      \<le> token_supply (se_db st) token + (if token = SHC_TOKEN then mint_total (se_ledger st') else 0)" for token
    using assms(2) by (simp only: supply_bounded_def)
  have "token_supply (se_db st') token \<le> token_supply (se_db st) token" if "token \<noteq> SHC_TOKEN" for token
    using f [of token] that by simp
  then show ?thesis using f [of SHC_TOKEN] by simp
qed


text \<open>C8: Only the treasury and the addresses that transactions name as their first ed25519 key can lose: every
  other balance in any token is at least what it was.\<close>

theorem only_payers_lose:
  assumes "execute_block nd blk parent_root st = Some (r, st')" "balances_wf (se_db st)"
    and "bk_body blk = Some body" "a \<noteq> nd_treasury nd"
    and "\<forall>tx \<in> set (bd_transactions body). ed25519_signer_address (nd_x nd) tx \<noteq> Some a"
  shows "be_value (get_token_balance (se_db st) a token) \<le> be_value (get_token_balance (se_db st') a token)"
proof -
  have "bystanders_kept (- {a}) st st'"
    using assms(3-5) by (intro bystander.execute_block_R [OF assms(1)]) (auto simp: tx_payers_def)
  then show ?thesis using assms(2) by (simp add: bystanders_kept_def)
qed

text \<open>The root that an accepted block returns, and that its header has to carry, is the one that was in the
  database before the block: settling transactions does not recompute it.\<close>

theorem state_root_is_stale:
  assumes "execute_block nd blk parent_root st = Some (r, st')"
  shows "sd_state_root (se_db st') = sd_state_root (se_db st) \<and>
    (\<forall>from_root to_root. r = Inr (from_root, to_root) \<longrightarrow> from_root = parent_root \<and> to_root = sd_state_root (se_db st))"
proof -
  have "root_kept st st'" by (rule root.execute_block_R [OF assms]) simp
  then show ?thesis using assms
    by (auto simp: root_kept_def execute_block_def split: option.splits if_splits sum.splits)
qed

subsection \<open>Replay\<close>

lemma unsigned_transfer_block:
  fixes st :: "'s settlement" and nd :: "'s node" and key :: "u8 list"
  assumes "length key = 32" "nonce \<noteq> 0" "data \<noteq> []" "game_domain_open nd"
    and "decode_game_op (nd_x nd) data = Inr (OpTransferCoin dest amount)"
    and "parse_address_hex (nd_x nd) dest = Inr thief" "thief \<noteq> ucast (keccak256 (nd_x nd) key)"
    and "balances_wf (se_db st)" "amount \<le> as_u64 (get_token_balance (se_db st) (ucast (keccak256 (nd_x nd) key)) SHC_TOKEN)"
  obtains receipt st' where
    "\<And>root. execute_block nd (block_of blk (unsigned_call nd key sig nonce data) receipt) root st
      = Some (Inr (root, sd_state_root (se_db st)), st')"
    "balances_wf (se_db st')" "rc_status receipt = Success"
    "be_value (get_token_balance (se_db st') (ucast (keccak256 (nd_x nd) key)) SHC_TOKEN) + unat amount
      = be_value (get_token_balance (se_db st) (ucast (keccak256 (nd_x nd) key)) SHC_TOKEN)"
proof -
  let ?st = "st\<lparr>se_exec := executor_new (ex_store (se_exec st))\<rparr>" and ?tx = "unsigned_call nd key sig nonce data"
  let ?a = "ucast (keccak256 (nd_x nd) key) :: address"
  have "\<exists>receipt gas st'. settle_tx nd (as_u64 (h_base_fee_per_gas (bk_header blk))) (h_timestamp (bk_header blk)) ?tx ?st
      = Some (receipt, gas, st') \<and> rc_status receipt = Success \<and>
      be_value (get_token_balance (se_db st') ?a SHC_TOKEN) + unat amount = be_value (get_token_balance (se_db st) ?a SHC_TOKEN)"
    using unsigned_transfer [OF assms(1-4) fresh_executor_accepts [where st = st and s = "ex_store (se_exec st)"] _ assms(5-7)]
      assms(8,9) by fastforce
  then obtain receipt gas st' where r: "settle_tx nd (as_u64 (h_base_fee_per_gas (bk_header blk))) (h_timestamp (bk_header blk)) ?tx ?st
      = Some (receipt, gas, st')" "rc_status receipt = Success"
      "be_value (get_token_balance (se_db st') ?a SHC_TOKEN) + unat amount = be_value (get_token_balance (se_db st) ?a SHC_TOKEN)"
    by blast
  note b = block_of_settles [OF r(1)]
  have "supply_bounded st st'" "root_kept st st'"
    by (rule bounded.execute_block_R [OF b], simp) (rule root.execute_block_R [OF b], simp)
  with b r assms(8) show thesis by (intro that) (auto simp: root_kept_def supply_bounded_def)
qed

lemma low_bytes_exact:
  assumes "u256_wf a" "be_value a < 2 ^ 64"
  shows "unat (as_u64 a) = be_value a"
proof -
  have l: "length (drop 24 a) = 8" using assms(1) by (simp add: u256_wf_def)
  have e: "be_value a = be_value (take 24 a) * 256 ^ 8 + be_value (drop 24 a)"
    using be_value_append [of "take 24 a" "drop 24 a"] unfolding l by simp
  then have "be_value (take 24 a) = 0" using assms(2) by (cases "be_value (take 24 a)") simp_all
  with e assms(2) show ?thesis by (simp add: as_u64_def from_be_def unat_of_nat)
qed

text \<open>The replay registry lives as long as a block: a transaction without inputs that one block settled settles
  again in the next one, and its signer pays again, although it carries a nonce.\<close>

theorem transfer_replays_across_blocks:
  fixes st :: "'s settlement" and nd :: "'s node" and key :: "u8 list"
  defines "payer \<equiv> ucast (keccak256 (nd_x nd) key)"
  assumes "length key = 32" "nonce \<noteq> 0" "data \<noteq> []" "game_domain_open nd"
    and "decode_game_op (nd_x nd) data = Inr (OpTransferCoin dest amount)"
    and "parse_address_hex (nd_x nd) dest = Inr target" "target \<noteq> payer"
    and "balances_wf (se_db st)"
    and "2 * unat amount \<le> be_value (get_token_balance (se_db st) payer SHC_TOKEN)"
    and "be_value (get_token_balance (se_db st) payer SHC_TOKEN) < 2 ^ 64"
  shows "\<exists>receipt1 st1 receipt2 st2 tx. tx = unsigned_call nd key sig nonce data \<and>
    execute_block nd (block_of blk tx receipt1) root st = Some (Inr (root, sd_state_root (se_db st)), st1) \<and>
    execute_block nd (block_of blk' tx receipt2) root' st1 = Some (Inr (root', sd_state_root (se_db st1)), st2) \<and>
    rc_status receipt1 = Success \<and> rc_status receipt2 = Success \<and>
    be_value (get_token_balance (se_db st2) payer SHC_TOKEN) + 2 * unat amount
      = be_value (get_token_balance (se_db st) payer SHC_TOKEN)"
proof -
  have le: "amount \<le> as_u64 (get_token_balance (se_db s) payer SHC_TOKEN)"
    if "balances_wf (se_db s)" "unat amount \<le> be_value (get_token_balance (se_db s) payer SHC_TOKEN)"
      "be_value (get_token_balance (se_db s) payer SHC_TOKEN) < 2 ^ 64" for s :: "'s settlement"
    using low_bytes_exact [OF _ that(3)] that(1,2) by (simp add: word_le_nat_alt balances_wf_def)
  note block = unsigned_transfer_block [OF assms(2-7) assms(8) [unfolded payer_def], folded payer_def]
  obtain receipt1 st1 where 1:
    "\<And>root. execute_block nd (block_of blk (unsigned_call nd key sig nonce data) receipt1) root st
      = Some (Inr (root, sd_state_root (se_db st)), st1)"
    "balances_wf (se_db st1)" "rc_status receipt1 = Success"
    "be_value (get_token_balance (se_db st1) payer SHC_TOKEN) + unat amount = be_value (get_token_balance (se_db st) payer SHC_TOKEN)"
    by (rule block [of st blk sig]) (use assms(9-11) le [of st] in auto)
  obtain receipt2 st2 where 2:
    "\<And>root. execute_block nd (block_of blk' (unsigned_call nd key sig nonce data) receipt2) root st1
      = Some (Inr (root, sd_state_root (se_db st1)), st2)" "rc_status receipt2 = Success"
    "be_value (get_token_balance (se_db st2) payer SHC_TOKEN) + unat amount = be_value (get_token_balance (se_db st1) payer SHC_TOKEN)"
    by (rule block [of st1 blk' sig]) (use 1 assms(9-11) le [of st1] in auto)
  from 1 2 show ?thesis by (intro exI [of _ receipt1] exI [of _ st1] exI [of _ receipt2] exI [of _ st2]) simp
qed

abbreviation sample_transfer :: "mem_store node" where
  "sample_transfer \<equiv> sample_node (OpTransferCoin ''07'' 20)"

lemma sample_target: "parse_address_hex (nd_x sample_transfer) ''07'' = Inr 7"
  by (simp add: parse_address_hex_def sample_node_def from_be_def be_value_append)

lemma transfer_replays_across_blocks_witness:
  "\<exists>receipt1 st1 receipt2 st2.
    execute_block sample_transfer (block_of (block_new sample_committed_header) (unsigned_call sample_transfer (replicate 32 4) [] 1 [1]) receipt1)
      5 (sample_settlement 0) = Some (Inr (5, 0), st1) \<and>
    execute_block sample_transfer (block_of (block_new sample_committed_header) (unsigned_call sample_transfer (replicate 32 4) [] 1 [1]) receipt2)
      6 st1 = Some (Inr (6, 0), st2) \<and>
    be_value (get_token_balance (se_db st2) 0 SHC_TOKEN) = 10"
proof -
  from transfer_replays_across_blocks [where nd = sample_transfer and key = "replicate 32 4" and nonce = 1 and data = "[1]"
      and st = "sample_settlement 0" and sig = "[]" and blk = "block_new sample_committed_header" and root = 5
      and blk' = "block_new sample_committed_header" and root' = 6, OF _ _ _ _ _ sample_target]
  obtain receipt1 st1 receipt2 st2 where r:
    "execute_block sample_transfer (block_of (block_new sample_committed_header) (unsigned_call sample_transfer (replicate 32 4) [] 1 [1]) receipt1)
      5 (sample_settlement 0) = Some (Inr (5, sd_state_root (se_db (sample_settlement 0))), st1)"
    "execute_block sample_transfer (block_of (block_new sample_committed_header) (unsigned_call sample_transfer (replicate 32 4) [] 1 [1]) receipt2)
      6 st1 = Some (Inr (6, sd_state_root (se_db st1)), st2)"
    "be_value (get_token_balance (se_db st2) 0 SHC_TOKEN) + 40 = 50"
    by auto
  have "root_kept (sample_settlement 0) st1" by (rule root.execute_block_R [OF r(1)]) simp
  then have "sd_state_root (se_db st1) = 0" by (simp add: root_kept_def)
  with r show ?thesis by auto
qed

text \<open>A block with this transfer.\<close>

lemma sample_transfer_block:
  obtains receipt st' where
    "execute_block sample_transfer (block_of (block_new sample_committed_header)
       (unsigned_call sample_transfer (replicate 32 4) [] 1 [1]) receipt) 5 (sample_settlement 0) = Some (Inr (5, 0), st')"
    "be_value (get_token_balance (se_db st') 0 SHC_TOKEN) = 30"
proof (rule unsigned_transfer_block [where nd = sample_transfer and key = "replicate 32 4" and nonce = 1 and data = "[1]"
      and st = "sample_settlement 0" and sig = "[]" and blk = "block_new sample_committed_header", OF _ _ _ _ _ sample_target])
  show "20 \<le> as_u64 (get_token_balance (se_db (sample_settlement 0)) (ucast (keccak256 (nd_x sample_transfer) (replicate 32 4))) SHC_TOKEN)"
    by (simp add: low_bytes_from word_le_nat_alt)
qed (auto intro: that)

text \<open>The same transfer in a block that declares the receipt which the executor computes, and in one that
  declares another amount of gas.\<close>

lemma execute_block_accepts_iff_witness:
  "\<exists>receipt st'. rc_status receipt = Success \<and>
    (\<exists>roots. execute_block sample_transfer (block_of (block_new sample_committed_header)
       (unsigned_call sample_transfer (replicate 32 4) [] 1 [1]) receipt) 5 (sample_settlement 0) = Some (Inr roots, st')) \<and>
    (\<exists>e. execute_block sample_transfer (block_of (block_new sample_committed_header)
       (unsigned_call sample_transfer (replicate 32 4) [] 1 [1]) (receipt\<lparr>rc_gas_used := rc_gas_used receipt + 1\<rparr>))
       5 (sample_settlement 0) = Some (Inl e, st'))"
proof -
  let ?tx = "unsigned_call sample_transfer (replicate 32 4) [] 1 [1]" and ?st = "sample_settlement 0"
  let ?blk = "block_of (block_new sample_committed_header) ?tx" and ?h = sample_committed_header
  let ?st' = "?st\<lparr>se_exec := executor_new (ex_store (se_exec ?st))\<rparr>"
  have "20 \<le> as_u64 (get_token_balance (se_db ?st') (ucast (keccak256 (nd_x sample_transfer) (replicate 32 4))) SHC_TOKEN)"
    by (simp add: low_bytes_from word_le_nat_alt)
  with unsigned_transfer [where nd = sample_transfer and key = "replicate 32 4" and nonce = 1 and data = "[1]" and sig = "[]"
      and base_fee = "as_u64 (h_base_fee_per_gas ?h)" and now = "h_timestamp ?h",
      OF _ _ _ _ fresh_executor_accepts [where st = ?st and s = "ex_store (se_exec ?st)"] _ _ sample_target]
  obtain receipt gas st1 where r: "settle_tx sample_transfer (as_u64 (h_base_fee_per_gas ?h)) (h_timestamp ?h) ?tx ?st'
      = Some (receipt, gas, st1)" "rc_status receipt = Success" by auto
  have e: "execute_txs sample_transfer (as_u64 (h_base_fee_per_gas ?h)) (h_timestamp ?h) [?tx] [] 0 ?st'
      = Some ([receipt], saturating_add 0 gas, st1)" using r(1) by simp
  have d: "(\<exists>roots. execute_block sample_transfer (?blk declared) 5 ?st = Some (Inr roots, st1)) \<longleftrightarrow> receipts_agree receipt declared"
    "(\<exists>e. execute_block sample_transfer (?blk declared) 5 ?st = Some (Inl e, st1)) \<longleftrightarrow> \<not> receipts_agree receipt declared"
    for declared
  proof -
    have "bk_body (?blk declared) = Some (body_new [?tx] [declared])" "bk_header (?blk declared) = ?h"
      "bd_transactions (body_new [?tx] [declared]) = [?tx]" "bd_receipts (body_new [?tx] [declared]) = [declared]"
      by (simp_all add: block_of_def body_new_def block_new_def)
    with e obtain R where "execute_block sample_transfer (?blk declared) 5 ?st = Some (R, st1)"
      "is_ok R \<longleftrightarrow> receipts_agree receipt declared"
      using execute_block_accepts_iff [of "?blk declared" "body_new [?tx] [declared]" sample_transfer ?st "[receipt]"
          "saturating_add 0 gas" st1 5] by (simp del: execute_txs.simps) blast
    then show "(\<exists>roots. execute_block sample_transfer (?blk declared) 5 ?st = Some (Inr roots, st1)) \<longleftrightarrow> receipts_agree receipt declared"
      "(\<exists>e. execute_block sample_transfer (?blk declared) 5 ?st = Some (Inl e, st1)) \<longleftrightarrow> \<not> receipts_agree receipt declared"
      by (cases R; simp)+
  qed
  have "receipts_agree receipt receipt" "\<not> receipts_agree receipt (receipt\<lparr>rc_gas_used := rc_gas_used receipt + 1\<rparr>)"
    by (simp_all add: receipts_agree_def)
  then show ?thesis using d r(2) by blast
qed

lemma supply_never_inflates_witness:
  "\<exists>blk st'. execute_block sample_transfer blk 5 (sample_settlement 0) = Some (Inr (5, 0), st') \<and>
    token_supply (se_db st') SHC_TOKEN \<le> token_supply (se_db (sample_settlement 0)) SHC_TOKEN + mint_total (se_ledger st')"
proof -
  obtain receipt st' where b: "execute_block sample_transfer (block_of (block_new sample_committed_header)
       (unsigned_call sample_transfer (replicate 32 4) [] 1 [1]) receipt) 5 (sample_settlement 0) = Some (Inr (5, 0), st')"
    by (rule sample_transfer_block)
  have "mint_total (se_ledger (sample_settlement 0)) = 0"
    by (simp add: sample_settlement_def settlement_new_def ledger_new_def mint_total_def)
  with supply_never_inflates [OF b] b show ?thesis by auto
qed


lemma only_payers_lose_witness:
  "\<exists>blk st'. execute_block sample_transfer blk 5 (sample_settlement 0) = Some (Inr (5, 0), st') \<and>
    be_value (get_token_balance (se_db (sample_settlement 0)) 3 NATIVE_TOKEN) \<le> be_value (get_token_balance (se_db st') 3 NATIVE_TOKEN)"
proof -
  obtain receipt st' where b: "execute_block sample_transfer (block_of (block_new sample_committed_header)
       (unsigned_call sample_transfer (replicate 32 4) [] 1 [1]) receipt) 5 (sample_settlement 0) = Some (Inr (5, 0), st')"
    by (rule sample_transfer_block)
  from only_payers_lose [OF b, of _ 3 NATIVE_TOKEN] b show ?thesis
    by (auto simp: block_of_def body_new_def unsigned_call_signer)
qed

lemma state_root_is_stale_witness:
  "\<exists>blk st'. execute_block sample_transfer blk 5 (sample_settlement 0) = Some (Inr (5, 0), st') \<and>
    get_token_balance (se_db st') 0 SHC_TOKEN \<noteq> get_token_balance (se_db (sample_settlement 0)) 0 SHC_TOKEN \<and>
    sd_state_root (se_db st') = sd_state_root (se_db (sample_settlement 0))"
proof -
  obtain receipt st' where b: "execute_block sample_transfer (block_of (block_new sample_committed_header)
       (unsigned_call sample_transfer (replicate 32 4) [] 1 [1]) receipt) 5 (sample_settlement 0) = Some (Inr (5, 0), st')"
    "be_value (get_token_balance (se_db st') 0 SHC_TOKEN) = 30"
    by (rule sample_transfer_block)
  moreover have "get_token_balance (se_db st') 0 SHC_TOKEN \<noteq> u256_from 50" using b(2) by auto
  ultimately show ?thesis using state_root_is_stale [OF b(1)] by auto
qed

subsection \<open>Proposals\<close>

text \<open>The status in the object is believed: an input whose bytes decode to a proposal marked as passed mints,
  whatever votes, deadline and time it holds, as long as the amount is within the cap.\<close>

theorem passed_flag_mints:
  assumes "game_call nd tx = Some (OpExecute pid)" "pr_status p = Passed" "pr_kind p = MintShc dest amount"
    and "input_proposal nd st tx = Inr p" "mint_policy nd st = Inr policy" "amount \<le> mp_per_mint_cap policy"
    and "parse_address_hex (nd_x nd) dest = Inr target" "input_proposal nd st' tx = Inr p"
  shows "apply_governance_effects nd now st tx = Inr () \<and>
    commit_governance_effects nd now tx st' =
      (Inr (), st'\<lparr>se_db := credit_token target SHC_TOKEN amount (se_db st'),
         se_ledger := record_execution (MintShcExecuted dest amount) (se_ledger st')\<rparr>)"
  using assms by (simp add: apply_governance_effects_def commit_governance_effects_def tally_def Let_def not_less execute_proposal_def)

definition sample_mint :: "json Proposal" where
  "sample_mint = \<lparr>proposal_id = ''p'', pr_kind = MintShc ''07'' 1000000, proposer = ''a'', deposit = 0,
     created_at_unix = 0, deadline_unix = 0, votes_for = 0, votes_against = 5, pr_status = Passed\<rparr>"

definition sample_mint_node :: "unit node" where
  "sample_mint_node = \<lparr>nd_x = sample_game\<lparr>decode_game_op := \<lambda>_. Inr (OpExecute ''p''),
       decode_proposal := \<lambda>_. Inr sample_mint, decode_mint_policy := \<lambda>_. Inr MintPolicy_default,
       hex_decode := \<lambda>_. Inr (replicate 19 0 @ [7])\<rparr>,
     nd_ops = \<lparr>get_output = \<lambda>_ _. Some sample_input, get_latest_output_by_object = \<lambda>_ _. Some sample_input,
       insert_output = \<lambda>_ s. Inr s, mark_spent = \<lambda>_ s. Inr s,
       unmark_spent = \<lambda>_ s. Inr s, remove_output = \<lambda>_ s. Inr s\<rparr>,
     nd_domains = default_game_domains, nd_treasury = 9, nd_now = 100, nd_debug = (\<lambda>_ _ _ _. [])\<rparr>"

lemma passed_flag_mints_witness:
  "get_token_balance (se_db (snd (commit_governance_effects sample_mint_node 3
      ((unsigned_call sample_mint_node (replicate 32 4) [] 1 [1])\<lparr>input_set := [OutputId 1]\<rparr>)
      (settlement_new (statedb_new 0) ())))) 7 SHC_TOKEN
   = u256_saturating_add u256_zero (u256_from 1000000)"
proof -
  let ?nd = sample_mint_node and ?st = "settlement_new (statedb_new 0) ()"
  let ?tx = "(unsigned_call ?nd (replicate 32 4) [] 1 [1])\<lparr>input_set := [OutputId 1]\<rparr>"
  have g: "game_call ?nd ?tx = Some (OpExecute ''p'')" by (simp add: game_call_def parse_game_op_def sample_mint_node_def)
  have p: "input_proposal ?nd ?st ?tx = Inr sample_mint"
    by (simp add: input_proposal_def first_input_def node_get_output_def sample_mint_node_def)
  have m: "mint_policy ?nd ?st = Inr MintPolicy_default"
    by (simp add: mint_policy_def config_state_def node_get_latest_def sample_mint_node_def)
  have t: "parse_address_hex (nd_x ?nd) ''07'' = Inr 7"
    by (simp add: parse_address_hex_def sample_mint_node_def from_be_def be_value_append)
  have "commit_governance_effects ?nd 3 ?tx ?st = (Inr (), ?st\<lparr>se_db := credit_token 7 SHC_TOKEN 1000000 (se_db ?st),
      se_ledger := record_execution (MintShcExecuted ''07'' 1000000) (se_ledger ?st)\<rparr>)"
    using passed_flag_mints [OF g _ _ p m _ t p, of 1000000 3] by (simp add: sample_mint_def MintPolicy_default_def)
  then show ?thesis
    by (simp add: balance_credit settlement_new_def) (simp add: statedb_new_def get_token_balance_def)
qed

text \<open>Funding an activity takes the tokens from the treasury and gives them to nobody: the supply shrinks by the
  amount, and it does so as well when the ledger of the node refuses the expense and the receipt says
  failed.\<close>

theorem funding_burns:
  assumes "game_call nd tx = Some (OpExecute pid)" "input_proposal nd st tx = Inr p" "tally now p = (Passed, p')"
    and "pr_kind p' = FundActivity amount memo" "debit_treasury nd amount (se_db st) = Inr db" "balances_wf (se_db st)"
  shows "\<exists>r st'. commit_governance_effects nd now tx st = (r, st') \<and>
    (is_ok r \<longleftrightarrow> \<not> balance (se_ledger st) < ucast amount) \<and>
    token_supply (se_db st') SHC_TOKEN + unat amount = token_supply (se_db st) SHC_TOKEN"
proof -
  have "pr_status p' = Passed" using assms(3) by (auto simp: tally_def Let_def split: if_splits)
  moreover have "token_supply db SHC_TOKEN + unat amount = token_supply (se_db st) SHC_TOKEN"
    using debit_supply [of "nd_treasury nd" SHC_TOKEN amount "se_db st" db SHC_TOKEN] assms(5,6) by (simp add: debit_treasury_def)
  ultimately show ?thesis using assms(1-5)
    by (simp add: commit_governance_effects_def Let_def execute_proposal_def record_expense_def is_ok_def)
qed

definition sample_funding :: "json Proposal" where
  "sample_funding = \<lparr>proposal_id = ''p'', pr_kind = FundActivity 20 ''fair'', proposer = ''a'', deposit = 1000,
     created_at_unix = 0, deadline_unix = 0, votes_for = 5, votes_against = 0, pr_status = ProposalStatus.Active\<rparr>"

lemma funding_burns_witness:
  "\<exists>r st'. commit_governance_effects (sample_mint_node\<lparr>nd_x := (nd_x sample_mint_node)\<lparr>decode_proposal := \<lambda>_. Inr sample_funding\<rparr>\<rparr>) 3
      ((unsigned_call sample_mint_node (replicate 32 4) [] 1 [1])\<lparr>input_set := [OutputId 1]\<rparr>)
      (settlement_new (se_db (sample_settlement 9)) ()) = (r, st') \<and> \<not> is_ok r \<and>
    token_supply (se_db st') SHC_TOKEN + 20 = token_supply (se_db (sample_settlement 9)) SHC_TOKEN"
proof -
  let ?nd = "sample_mint_node\<lparr>nd_x := (nd_x sample_mint_node)\<lparr>decode_proposal := \<lambda>_. Inr sample_funding\<rparr>\<rparr>"
  let ?st = "settlement_new (se_db (sample_settlement 9)) ()"
  let ?tx = "(unsigned_call sample_mint_node (replicate 32 4) [] 1 [1])\<lparr>input_set := [OutputId 1]\<rparr>"
  have g: "game_call ?nd ?tx = Some (OpExecute ''p'')" by (simp add: game_call_def parse_game_op_def sample_mint_node_def)
  have p: "input_proposal ?nd ?st ?tx = Inr sample_funding"
    by (simp add: input_proposal_def first_input_def node_get_output_def sample_mint_node_def)
  have t: "tally 3 sample_funding = (Passed, sample_funding\<lparr>pr_status := Passed\<rparr>)"
    by (simp add: tally_def sample_funding_def PASS_PROMILLE_def saturating_add_def saturating_mul_def)
  have db: "se_db ?st = se_db (sample_settlement 9)" "balances_wf (se_db ?st)" "balance (se_ledger ?st) = 0"
    by (simp_all add: settlement_new_def ledger_new_def)
  obtain db where "debit_token 9 SHC_TOKEN 20 (se_db ?st) = Inr db"
    by (rule debit_possible [of "se_db ?st" SHC_TOKEN 20 9]) (simp_all add: db)
  then have d: "debit_treasury ?nd 20 (se_db ?st) = Inr db" by (simp add: debit_treasury_def sample_mint_node_def)
  from funding_burns [OF g p t _ d db(2)] show ?thesis by (simp add: sample_funding_def db)
qed

end
