(* ===== verification/Nibbles.thy ===== *)
theory Nibbles
  imports Objects
begin

section \<open>Trie nodes and their encoding\<close>

text \<open>
  \<open>trie/node.rs\<close>: slices of nibbles, the nodes of the Merkle-Patricia trie, the hex-prefix code and
  the RLP form of a node, and \<open>decode_node\<close> of \<open>trie/trie.rs\<close>.  The crate \<open>rlp\<close> is a parameter:
  a node is encoded as a list of byte strings, and its reader answers whether data is a list, how many
  items it has, the raw item at an index, and the bytes of an item.  \<open>rlp_laws\<close> states what the
  code relies on.  The crate \<open>rabbitstore\<close> has a copy of these files.

  A computation that panics is \<open>None\<close>.
\<close>

subsection \<open>Nibble slices\<close>

record NibbleSlice =
  ns_data :: "u8 list"
  ns_offset :: nat

definition ns_new :: "u8 list \<Rightarrow> NibbleSlice" where
  "ns_new data = \<lparr>ns_data = data, ns_offset = 0\<rparr>"

definition ns_from_offset :: "u8 list \<Rightarrow> nat \<Rightarrow> NibbleSlice" where
  "ns_from_offset data offset = \<lparr>ns_data = data, ns_offset = offset\<rparr>"

definition ns_at :: "NibbleSlice \<Rightarrow> nat \<Rightarrow> u8" where
  "ns_at s index =
     (let pos = ns_offset s + index in
      if length (ns_data s) * 2 \<le> pos then 0
      else if even pos then drop_bit 4 (ns_data s ! (pos div 2))
      else and (ns_data s ! (pos div 2)) 0x0F)"

text \<open>The subtraction underflows when the offset lies behind the data.\<close>

definition ns_len :: "NibbleSlice \<Rightarrow> nat option" where
  "ns_len s = (if ns_offset s \<le> length (ns_data s) * 2 then Some (length (ns_data s) * 2 - ns_offset s) else None)"

definition ns_is_empty :: "NibbleSlice \<Rightarrow> bool option" where
  "ns_is_empty s = map_option (\<lambda>n. n = 0) (ns_len s)"

definition common_count :: "(nat \<Rightarrow> bool) \<Rightarrow> nat \<Rightarrow> nat" where
  "common_count same n = length (takeWhile same [0..<n])"

definition ns_common_prefix_length :: "NibbleSlice \<Rightarrow> NibbleSlice \<Rightarrow> nat option" where
  "ns_common_prefix_length s other =
     Option.bind (ns_len s) (\<lambda>n. Option.bind (ns_len other) (\<lambda>m.
       Some (common_count (\<lambda>i. ns_at s i = ns_at other i) (min n m))))"

definition ns_slice_from :: "NibbleSlice \<Rightarrow> nat \<Rightarrow> NibbleSlice" where
  "ns_slice_from s index = ns_from_offset (ns_data s) (ns_offset s + index)"

definition ns_to_bytes :: "NibbleSlice \<Rightarrow> u8 list option" where
  "ns_to_bytes s = map_option (\<lambda>n.
     map (\<lambda>j. or (push_bit 4 (ns_at s (2 * j))) (if 2 * j + 1 < n then ns_at s (2 * j + 1) else 0)) [0..<(n + 1) div 2]) (ns_len s)"

definition ns_to_nibbles :: "NibbleSlice \<Rightarrow> u8 list option" where
  "ns_to_nibbles s = map_option (\<lambda>n. map (ns_at s) [0..<n]) (ns_len s)"

definition ns_equals_nibbles :: "NibbleSlice \<Rightarrow> u8 list \<Rightarrow> bool option" where
  "ns_equals_nibbles s nibbles = map_option (\<lambda>n.
     n = length nibbles \<and> (\<forall>i \<in> set [0..<length nibbles]. ns_at s i = nibbles ! i)) (ns_len s)"

definition ns_common_prefix_nibbles :: "NibbleSlice \<Rightarrow> u8 list \<Rightarrow> nat option" where
  "ns_common_prefix_nibbles s nibbles = map_option (\<lambda>n.
     common_count (\<lambda>i. ns_at s i = nibbles ! i) (min n (length nibbles))) (ns_len s)"

subsection \<open>Nodes\<close>

record BranchNode =
  bn_children :: "hash option list"
  bn_value :: "u8 list option"

record ExtensionNode =
  en_prefix :: "u8 list"
  en_child :: hash

record LeafNode =
  ln_key_suffix :: "u8 list"
  ln_value :: "u8 list"

datatype TrieNode = Empty | Branch BranchNode | Extension ExtensionNode | Leaf LeafNode

definition empty_trie_root :: hash where
  "empty_trie_root = 0x56e81f171bcc55a6ff8345e692c0f86e5b48e01b996cadc001622fb5e363b421"

definition branch_new :: BranchNode where
  "branch_new = \<lparr>bn_children = replicate 16 None, bn_value = None\<rparr>"

definition bn_get_child :: "BranchNode \<Rightarrow> nat \<Rightarrow> hash option" where
  "bn_get_child b index = (if index < length (bn_children b) then bn_children b ! index else None)"

definition bn_set_child :: "nat \<Rightarrow> hash \<Rightarrow> BranchNode \<Rightarrow> BranchNode" where
  "bn_set_child index h b = (if index < 16 then b\<lparr>bn_children := (bn_children b)[index := Some h]\<rparr> else b)"

definition has_children :: "BranchNode \<Rightarrow> bool" where
  "has_children b = list_ex (\<lambda>c. c \<noteq> None) (bn_children b)"

definition child_count :: "BranchNode \<Rightarrow> nat" where
  "child_count b = length (filter (\<lambda>c. c \<noteq> None) (bn_children b))"

subsection \<open>The encoding of a node\<close>

record rlp_externals = externals +
  rlp_encode :: "u8 list list \<Rightarrow> u8 list"
  rlp_is_list :: "u8 list \<Rightarrow> bool"
  rlp_item_count :: "u8 list \<Rightarrow> string + nat"
  rlp_at :: "u8 list \<Rightarrow> nat \<Rightarrow> string + u8 list"
  rlp_is_empty :: "u8 list \<Rightarrow> bool"
  rlp_bytes :: "u8 list \<Rightarrow> string + u8 list"

text \<open>A list of byte strings can be read back; its encoding is not the one of the empty string.\<close>

definition rlp_laws :: "'e rlp_externals_scheme \<Rightarrow> bool" where
  "rlp_laws x \<longleftrightarrow> (\<forall>items. rlp_is_list x (rlp_encode x items) \<and> rlp_item_count x (rlp_encode x items) = Inr (length items) \<and>
     rlp_encode x items \<notin> {[], [0x80]} \<and>
     (\<forall>i < length items. \<exists>raw. rlp_at x (rlp_encode x items) i = Inr raw \<and> rlp_bytes x raw = Inr (items ! i) \<and>
        (rlp_is_empty x raw \<longleftrightarrow> items ! i = [])))"

fun pack_nibbles :: "u8 list \<Rightarrow> u8 list" where
  "pack_nibbles (a # b # ns) = or (push_bit 4 a) b # pack_nibbles ns"
| "pack_nibbles _ = []"

definition encode_hex_prefix :: "u8 list \<Rightarrow> bool \<Rightarrow> u8 list" where
  "encode_hex_prefix nibbles is_leaf =
     (let flag = (if is_leaf then 0x20 else 0x00) in
      if even (length nibbles) then flag # pack_nibbles nibbles
      else or (or flag 0x10) (hd nibbles) # pack_nibbles (tl nibbles))"

definition decode_hex_prefix :: "u8 list \<Rightarrow> string + (u8 list \<times> bool)" where
  "decode_hex_prefix data =
     (case data of
        [] \<Rightarrow> Inl ''Empty hex prefix''
      | first # rest \<Rightarrow>
          (let is_leaf = and first 0x20 \<noteq> 0; is_odd = and first 0x10 \<noteq> 0
           in Inr ((if is_odd then [and first 0x0F] else []) @ concat (map (\<lambda>b. [drop_bit 4 b, and b 0x0F]) rest), is_leaf)))"

fun encode_node :: "'e rlp_externals_scheme \<Rightarrow> TrieNode \<Rightarrow> u8 list" where
  "encode_node x Empty = [0x80]"
| "encode_node x (Leaf leaf) = rlp_encode x [encode_hex_prefix (ln_key_suffix leaf) True, ln_value leaf]"
| "encode_node x (Extension ext) = rlp_encode x [encode_hex_prefix (en_prefix ext) False, be_bytes (en_child ext)]"
| "encode_node x (Branch branch) = rlp_encode x
     (map (\<lambda>c. case c of None \<Rightarrow> [] | Some h \<Rightarrow> be_bytes h) (bn_children branch)
      @ [case bn_value branch of None \<Rightarrow> [] | Some v \<Rightarrow> v])"

definition encode_node_ref :: "'e rlp_externals_scheme \<Rightarrow> TrieNode \<Rightarrow> u8 list" where
  "encode_node_ref x node =
     (let encoded = encode_node x node
      in if 32 \<le> length encoded then be_bytes (keccak256 x encoded) else encoded)"

definition node_hash :: "'e rlp_externals_scheme \<Rightarrow> TrieNode \<Rightarrow> hash" where
  "node_hash x node = keccak256 x (encode_node x node)"

subsection \<open>Decoding\<close>

datatype TrieError = Serialization string | NotFound hash

definition map_error :: "('e \<Rightarrow> 'f) \<Rightarrow> 'e + 'a \<Rightarrow> 'f + 'a" where
  "map_error f r = (case r of Inl e \<Rightarrow> Inl (f e) | Inr a \<Rightarrow> Inr a)"

definition rlp_item :: "'e rlp_externals_scheme \<Rightarrow> u8 list \<Rightarrow> nat \<Rightarrow> string \<Rightarrow> string \<Rightarrow> TrieError + u8 list" where
  "rlp_item x data i what bytes_of =
     and_then (map_error (\<lambda>e. Serialization (what @ e)) (rlp_at x data i)) (\<lambda>raw.
     map_error (\<lambda>e. Serialization (bytes_of @ e)) (rlp_bytes x raw))"

text \<open>A node may hold another node in line, and the decoder calls itself on it: \<open>None\<close> is a decoder that does
  not return, \<open>Some\<close> one that returns an error or a value.\<close>

type_synonym 'a decoded = "(TrieError + 'a) option"

fun d_bind :: "'a decoded \<Rightarrow> ('a \<Rightarrow> 'b decoded) \<Rightarrow> 'b decoded" where
  "d_bind None k = None"
| "d_bind (Some (Inl e)) k = Some (Inl e)"
| "d_bind (Some (Inr a)) k = k a"

fun d_map :: "('a \<Rightarrow> 'b decoded) \<Rightarrow> 'a list \<Rightarrow> 'b list decoded" where
  "d_map f [] = Some (Inr [])"
| "d_map f (a # as) = d_bind (f a) (\<lambda>b. d_bind (d_map f as) (\<lambda>bs. Some (Inr (b # bs))))"

text \<open>The reference to a child: a hash, or a node in line, read by \<open>decode\<close>.\<close>

definition child_hash :: "'e rlp_externals_scheme \<Rightarrow> (u8 list \<Rightarrow> TrieNode decoded) \<Rightarrow> u8 list \<Rightarrow> hash decoded" where
  "child_hash x decode child =
     (if length child = 32 then Some (Inr (word_of_nat (be_value child)))
      else d_bind (decode child) (\<lambda>node. Some (Inr (node_hash x node))))"

definition decode_child :: "'e rlp_externals_scheme \<Rightarrow> (u8 list \<Rightarrow> TrieNode decoded) \<Rightarrow> u8 list \<Rightarrow> nat \<Rightarrow> hash option decoded" where
  "decode_child x decode data i =
     d_bind (Some (map_error (\<lambda>e. Serialization (''invalid branch child '' @ show_nat i @ '': '' @ e)) (rlp_at x data i))) (\<lambda>item.
     if rlp_is_empty x item then Some (Inr None)
     else d_bind (Some (map_error (\<lambda>e. Serialization (''invalid branch child '' @ show_nat i @ '' bytes: '' @ e)) (rlp_bytes x item)))
       (\<lambda>child. d_bind (child_hash x decode child) (\<lambda>h. Some (Inr (Some h)))))"

definition decode_branch :: "'e rlp_externals_scheme \<Rightarrow> (u8 list \<Rightarrow> TrieNode decoded) \<Rightarrow> u8 list \<Rightarrow> TrieNode decoded" where
  "decode_branch x decode data =
     d_bind (d_map (decode_child x decode data) [0..<16]) (\<lambda>children. Some
     (and_then (map_error (\<lambda>e. Serialization (''invalid branch value: '' @ e)) (rlp_at x data 16)) (\<lambda>item.
     and_then (if rlp_is_empty x item then Inr None
               else and_then (map_error (\<lambda>e. Serialization (''invalid branch value bytes: '' @ e)) (rlp_bytes x item)) (\<lambda>v. Inr (Some v)))
       (\<lambda>v. Inr (Branch \<lparr>bn_children = children, bn_value = v\<rparr>)))))"

definition decode_pair :: "'e rlp_externals_scheme \<Rightarrow> (u8 list \<Rightarrow> TrieNode decoded) \<Rightarrow> u8 list \<Rightarrow> TrieNode decoded" where
  "decode_pair x decode data =
     d_bind (Some (rlp_item x data 0 ''invalid trie node prefix: '' ''invalid trie node prefix value: '')) (\<lambda>prefix_bytes.
     d_bind (Some (map_error (\<lambda>e. Serialization (''invalid hex prefix: '' @ e)) (decode_hex_prefix prefix_bytes))) (\<lambda>(nibbles, is_leaf).
     if is_leaf then
       Some (and_then (rlp_item x data 1 ''invalid leaf value: '' ''invalid leaf value bytes: '') (\<lambda>v.
       Inr (Leaf \<lparr>ln_key_suffix = nibbles, ln_value = v\<rparr>)))
     else
       d_bind (Some (rlp_item x data 1 ''invalid extension child: '' ''invalid extension child bytes: '')) (\<lambda>child.
       d_bind (child_hash x decode child) (\<lambda>h. Some (Inr (Extension \<lparr>en_prefix = nibbles, en_child = h\<rparr>))))))"

definition decode_with :: "'e rlp_externals_scheme \<Rightarrow> (u8 list \<Rightarrow> TrieNode decoded) \<Rightarrow> u8 list \<Rightarrow> TrieNode decoded" where
  "decode_with x decode data =
     (if data = [] \<or> data = [0x80] then Some (Inr Empty)
      else if rlp_is_list x data then
        (case map_error (\<lambda>e. Serialization (''invalid trie node RLP list: '' @ e)) (rlp_item_count x data) of
           Inl e \<Rightarrow> Some (Inl e)
         | Inr n \<Rightarrow>
             if n = 2 then decode_pair x decode data
             else if n = 17 then decode_branch x decode data
             else Some (Inl (Serialization (''unexpected trie node list item count: '' @ show_nat n))))
      else if rlp_is_empty x data then Some (Inr Empty)
      else Some (Inl (Serialization ''trie node must be an RLP list'')))"

lemma d_bind_mono [partial_function_mono]:
  assumes "mono_option B" "\<And>y. mono_option (\<lambda>f. C y f)"
  shows "mono_option (\<lambda>f. d_bind (B f) (\<lambda>y. C y f))"
proof -
  have e: "d_bind m k = Option.bind m (\<lambda>r. case r of Inl e \<Rightarrow> Some (Inl e) | Inr a \<Rightarrow> k a)" for m :: "'x decoded" and k :: "'x \<Rightarrow> 'y decoded"
    by (cases m; simp split: sum.split)
  have "mono_option (\<lambda>f. case r of Inl e \<Rightarrow> Some (Inl e) | Inr a \<Rightarrow> C a f)" for r
    by (cases r) (simp_all add: assms(2) option.const_mono)
  then show ?thesis unfolding e by (intro bind_mono assms(1))
qed

lemma d_map_mono [partial_function_mono]:
  assumes "\<And>a. mono_option (\<lambda>f. C a f)"
  shows "mono_option (\<lambda>f. d_map (\<lambda>a. C a f) as)"
  by (induction as) (auto intro!: d_bind_mono assms option.const_mono)

lemma decode_with_mono [partial_function_mono]:
  assumes "\<And>d. mono_option (\<lambda>f. decode f d)"
  shows "mono_option (\<lambda>f. decode_with x (decode f) data)"
proof -
  have c: "mono_option (\<lambda>f. child_hash x (decode f) child)" for child
    unfolding child_hash_def by (cases "length child = 32") (auto intro!: d_bind_mono assms option.const_mono)
  have i: "mono_option (\<lambda>f. decode_child x (decode f) data i)" for i
    unfolding decode_child_def
    by (intro d_bind_mono if_mono c option.const_mono)
  have p: "mono_option (\<lambda>f. decode_pair x (decode f) data)"
    unfolding decode_pair_def
    by (intro d_bind_mono option.const_mono) (clarsimp split: prod.split, intro conjI impI allI d_bind_mono if_mono c option.const_mono)
  have b: "mono_option (\<lambda>f. decode_branch x (decode f) data)"
    unfolding decode_branch_def by (intro d_bind_mono d_map_mono option.const_mono i)
  have "mono_option (\<lambda>f. case r of Inl e \<Rightarrow> Some (Inl e) | Inr n \<Rightarrow> if n = 2 then decode_pair x (decode f) data
      else if n = 17 then decode_branch x (decode f) data else g n)" for r :: "TrieError + nat" and g
    by (cases r) (auto intro!: if_mono p b option.const_mono)
  then show ?thesis unfolding decode_with_def by (intro if_mono option.const_mono)
qed

partial_function (option) decode_nested :: "'e rlp_externals_scheme \<Rightarrow> u8 list \<Rightarrow> TrieNode decoded" where
  "decode_nested x data = decode_with x (decode_nested x) data"

text \<open>The result for callers, an error if there is none; there always is one, by \<open>decode_node_terminates\<close>.\<close>

definition decode_node :: "'e rlp_externals_scheme \<Rightarrow> u8 list \<Rightarrow> TrieError + TrieNode" where
  "decode_node x data =
     (case decode_nested x data of None \<Rightarrow> Inl (Serialization ''node nested without end'') | Some r \<Rightarrow> r)"

lemma decode_node_with: "decode_with x (decode_nested x) data = Some r \<Longrightarrow> decode_node x data = r"
  by (simp add: decode_node_def decode_nested.simps [of x data])

subsection \<open>Round trips\<close>

definition nibbles_ok :: "u8 list \<Rightarrow> bool" where
  "nibbles_ok ns \<longleftrightarrow> (\<forall>n \<in> set ns. n < 16)"

lemma nibble_cases:
  assumes "(n :: u8) < 16"
  shows "n \<in> {0, 1, 2, 3, 4, 5, 6, 7, 8, 9, 10, 11, 12, 13, 14, 15}"
proof -
  have "unat n < 16" using assms by (simp add: word_less_nat_alt)
  then have "unat n = 0 \<or> unat n = 1 \<or> unat n = 2 \<or> unat n = 3 \<or> unat n = 4 \<or> unat n = 5 \<or> unat n = 6 \<or> unat n = 7 \<or>
    unat n = 8 \<or> unat n = 9 \<or> unat n = 10 \<or> unat n = 11 \<or> unat n = 12 \<or> unat n = 13 \<or> unat n = 14 \<or> unat n = 15"
    by presburger
  then show ?thesis by (elim disjE) (simp_all add: word_unat_eq_iff)
qed

lemma pack_unpack:
  assumes "(a :: u8) < 16" "b < 16"
  shows "drop_bit 4 (or (push_bit 4 a) b) = a" "and (or (push_bit 4 a) b) 0x0F = b"
  using nibble_cases [OF assms(1)] nibble_cases [OF assms(2)] by (simp_all, (elim disjE; simp)+)

lemma unpack_pack_nibbles:
  "nibbles_ok ns \<Longrightarrow> even (length ns) \<Longrightarrow> concat (map (\<lambda>b. [drop_bit 4 b, and b 0x0F]) (pack_nibbles ns)) = ns"
proof (induction ns rule: pack_nibbles.induct)
  case (1 a b ns)
  then have "a < 16" "b < 16" by (simp_all add: nibbles_ok_def)
  from pack_unpack [OF this] 1 show ?case by (simp add: nibbles_ok_def)
qed simp_all

lemma flag_bits:
  assumes "(n :: u8) < 16"
  shows "and (or 0x30 n) 0x0F = n" "and (or 0x30 n) 0x20 \<noteq> 0" "and (or 0x30 n) 0x10 \<noteq> 0"
    "and (or 0x10 n) 0x0F = n" "and (or 0x10 n) 0x20 = 0" "and (or 0x10 n) 0x10 \<noteq> 0"
  using nibble_cases [OF assms] by (simp_all, (elim disjE; simp)+)

text \<open>The hex-prefix code of a list of nibbles decodes to the nibbles and the flag.\<close>

lemma decode_encode_hex_prefix:
  assumes "nibbles_ok ns"
  shows "decode_hex_prefix (encode_hex_prefix ns is_leaf) = Inr (ns, is_leaf)"
proof (cases "even (length ns)")
  case True
  then show ?thesis using assms
    by (simp add: encode_hex_prefix_def decode_hex_prefix_def unpack_pack_nibbles)
next
  case False
  then obtain n ms where ns: "ns = n # ms" "even (length ms)" by (cases ns) auto
  then have "n < 16" "nibbles_ok ms" using assms by (auto simp: nibbles_ok_def)
  then show ?thesis using ns unpack_pack_nibbles [of ms]
    by (simp add: encode_hex_prefix_def decode_hex_prefix_def flag_bits)
qed

text \<open>Nodes that the encoding represents: sixteen children and no empty value at a branch.\<close>

fun node_ok :: "TrieNode \<Rightarrow> bool" where
  "node_ok Empty = True"
| "node_ok (Leaf leaf) = nibbles_ok (ln_key_suffix leaf)"
| "node_ok (Extension ext) = nibbles_ok (en_prefix ext)"
| "node_ok (Branch branch) = (length (bn_children branch) = 16 \<and> bn_value branch \<noteq> Some [])"

lemma from_be_bytes_hash [simp]: "word_of_nat (be_value (be_bytes h)) = (h :: hash)"
  by (simp add: be_value_be_bytes)

lemma rlp_item_encode:
  "rlp_laws x \<Longrightarrow> i < length items \<Longrightarrow> rlp_item x (rlp_encode x items) i what bytes_of = Inr (items ! i)"
  unfolding rlp_laws_def rlp_item_def map_error_def by (metis (no_types, lifting) and_then_simps(2) sum.case(2))

lemma decode_child_encode:
  assumes "rlp_laws x" "i < 16" "length cs = 16"
  shows "decode_child x decode (rlp_encode x (map (\<lambda>c. case c of None \<Rightarrow> [] | Some h \<Rightarrow> be_bytes h) cs @ [v])) i = Some (Inr (cs ! i))"
proof -
  let ?items = "map (\<lambda>c. case c of None \<Rightarrow> [] | Some h \<Rightarrow> be_bytes h) cs @ [v]"
  have "i < length ?items" using assms(2,3) by simp
  then obtain raw where raw: "rlp_at x (rlp_encode x ?items) i = Inr raw" "rlp_bytes x raw = Inr (?items ! i)"
      "rlp_is_empty x raw \<longleftrightarrow> ?items ! i = []"
    using assms(1) unfolding rlp_laws_def by blast
  have i: "?items ! i = (case cs ! i of None \<Rightarrow> [] | Some h \<Rightarrow> be_bytes h)"
    using assms(2,3) by (simp add: nth_append)
  have n: "be_bytes (h :: hash) \<noteq> []" for h using length_be_bytes [of h] by fastforce
  show ?thesis
    using raw n unfolding i by (cases "cs ! i") (simp_all add: decode_child_def map_error_def child_hash_def)
qed

lemma d_map_all_Inr: "(\<And>a. a \<in> set as \<Longrightarrow> f a = Some (Inr (g a))) \<Longrightarrow> d_map f as = Some (Inr (map g as))"
  by (induction as) simp_all

text \<open>Reading back what was written returns the node.\<close>

lemma decode_encode_node:
  assumes "rlp_laws x" "node_ok node"
  shows "decode_node x (encode_node x node) = Inr node"
proof (cases node)
  case Empty
  then show ?thesis by (auto intro!: decode_node_with simp: decode_with_def)
next
  case (Leaf leaf)
  note item = rlp_item_encode [OF assms(1), where items = "[encode_hex_prefix (ln_key_suffix leaf) True, ln_value leaf]"]
  show ?thesis using assms Leaf item [of 0] item [of 1]
    by (auto intro!: decode_node_with simp: decode_with_def rlp_laws_def map_error_def decode_pair_def decode_encode_hex_prefix)
next
  case (Extension ext)
  note item = rlp_item_encode [OF assms(1), where items = "[encode_hex_prefix (en_prefix ext) False, be_bytes (en_child ext)]"]
  show ?thesis using assms Extension item [of 0] item [of 1]
    by (auto intro!: decode_node_with simp: decode_with_def rlp_laws_def map_error_def decode_pair_def decode_encode_hex_prefix child_hash_def)
next
  case (Branch b)
  let ?v = "case bn_value b of None \<Rightarrow> [] | Some v \<Rightarrow> v"
  let ?items = "map (\<lambda>c. case c of None \<Rightarrow> [] | Some h \<Rightarrow> be_bytes h) (bn_children b) @ [?v]"
  have l: "length (bn_children b) = 16" "bn_value b \<noteq> Some []" using assms(2) Branch by simp_all
  have "d_map (decode_child x decode (rlp_encode x ?items)) [0..<16] = Some (Inr (map (\<lambda>i. bn_children b ! i) [0..<16]))" for decode
    using decode_child_encode [OF assms(1) _ l(1)] by (intro d_map_all_Inr) simp
  moreover have "map (\<lambda>i. bn_children b ! i) [0..<16] = bn_children b"
    using map_nth [of "bn_children b"] l(1) by simp
  moreover have "?items ! 16 = ?v" "16 < length ?items" using l(1) by (simp_all add: nth_append)
  then obtain raw where "rlp_at x (rlp_encode x ?items) 16 = Inr raw" "rlp_bytes x raw = Inr ?v" "rlp_is_empty x raw \<longleftrightarrow> ?v = []"
    using assms(1) unfolding rlp_laws_def by metis
  ultimately have "decode_branch x decode (rlp_encode x ?items) = Some (Inr node)" for decode
    using l(2) Branch by (cases "bn_value b") (simp_all add: decode_branch_def map_error_def)
  then show ?thesis using assms(1) Branch l(1)
    by (auto intro!: decode_node_with simp: decode_with_def rlp_laws_def map_error_def)
qed

subsection \<open>A codec and a hash to compute with\<close>

fun sample_items :: "u8 list \<Rightarrow> u8 list \<Rightarrow> u8 list list" where
  "sample_items acc [] = []"
| "sample_items acc [c] = [rev acc]"
| "sample_items acc (c # b # bs) = (if c = 0 then rev acc # sample_items [] (b # bs) else sample_items (b # acc) bs)"

definition sample_encode :: "u8 list list \<Rightarrow> u8 list" where
  "sample_encode items = 0xC0 # concat (map (\<lambda>item. concat (map (\<lambda>b. [1, b]) item) @ [0]) items)"

text \<open>Two bytes hash to themselves from the top, other data to its length.\<close>

definition sample_keccak :: "u8 list \<Rightarrow> hash" where
  "sample_keccak data =
     (case data of [a, b] \<Rightarrow> ucast a * 0x100000000000000000000000000000000000000000000000000000000000000 + ucast b * 0x1000000000000000000000000000000000000000000000000000000000000 | _ \<Rightarrow> word_of_nat (length data))"

definition sample_rlp :: rlp_externals where
  "sample_rlp =
     \<lparr>keccak256 = sample_keccak, vk_ok = (\<lambda>_. True), sig_ok = (\<lambda>_. True),
      ed_verify = (\<lambda>_ _ _. True), hex_encode = (\<lambda>_. []), hex_decode = (\<lambda>_. Inr []), rlp_encode = sample_encode,
      rlp_is_list = (\<lambda>data. data \<noteq> [] \<and> hd data = 0xC0), rlp_item_count = (\<lambda>data. Inr (length (sample_items [] (tl data)))),
      rlp_at = (\<lambda>data i. if i < length (sample_items [] (tl data)) then Inr (sample_items [] (tl data) ! i) else Inl []), rlp_is_empty = (\<lambda>raw. raw = []), rlp_bytes = Inr\<rparr>"

lemma sample_items_item:
  "sample_items acc (concat (map (\<lambda>b. [1, b]) item) @ 0 # rest) = (rev acc @ item) # sample_items [] rest"
  by (induction item arbitrary: acc; cases rest) simp_all

lemma sample_rlp_laws: "rlp_laws sample_rlp"
proof -
  have "sample_items [] (concat (map (\<lambda>item. concat (map (\<lambda>b. [1, b]) item) @ [0]) items)) = items" for items
    by (induction items) (simp_all add: sample_items_item)
  then show ?thesis by (simp add: rlp_laws_def sample_rlp_def sample_encode_def)
qed

lemma sample_items_shorter: "item \<in> set (sample_items acc data) \<Longrightarrow> length item \<le> length acc + length data"
  by (induction acc data rule: sample_items.induct) (fastforce split: if_splits)+

subsection \<open>Decoding returns\<close>

text \<open>What an item of a list contains is shorter than the list.\<close>

definition rlp_shrinks :: "'e rlp_externals_scheme \<Rightarrow> bool" where
  "rlp_shrinks x \<longleftrightarrow> (\<forall>data i raw b. rlp_is_list x data \<longrightarrow> rlp_at x data i = Inr raw \<longrightarrow> rlp_bytes x raw = Inr b \<longrightarrow> length b < length data)"

lemma sample_rlp_shrinks: "rlp_shrinks sample_rlp"
proof -
  have "length (sample_items [] (tl data) ! i) < length data"
    if "data \<noteq> []" "i < length (sample_items [] (tl data))" for data i
    using sample_items_shorter [OF nth_mem [OF that(2)]] that(1) by (cases data) simp_all
  then show ?thesis by (auto simp: rlp_shrinks_def sample_rlp_def split: if_splits)
qed

text \<open>A decoder that returns on shorter data returns.\<close>

lemma d_bind_returns: "m \<noteq> None \<Longrightarrow> (\<And>a. m = Some (Inr a) \<Longrightarrow> k a \<noteq> None) \<Longrightarrow> d_bind m k \<noteq> None"
  by (induction m k rule: d_bind.induct) simp_all

lemma d_map_returns: "(\<And>a. a \<in> set as \<Longrightarrow> f a \<noteq> None) \<Longrightarrow> d_map f as \<noteq> None"
proof (induction as)
  case (Cons a as)
  show ?case unfolding d_map.simps by (intro d_bind_returns) (use Cons in auto)
qed simp

lemma decode_with_returns:
  assumes "rlp_shrinks x" "\<And>b. length b < length data \<Longrightarrow> decode b \<noteq> None"
  shows "decode_with x decode data \<noteq> None"
proof (cases "rlp_is_list x data")
  case True
  have h: "child_hash x decode b \<noteq> None" if "rlp_at x data i = Inr raw" "rlp_bytes x raw = Inr b" for i raw b
    using assms(2) [of b] assms(1) True that unfolding rlp_shrinks_def child_hash_def
    by (cases "length b = 32") (simp, simp only: if_False, intro d_bind_returns, simp_all)
  have c: "\<exists>y. d_bind (child_hash x decode b) (\<lambda>h. Some (f h)) = Some y"
    if "rlp_at x data i = Inr raw" "rlp_bytes x raw = Inr b" for i raw b and f :: "hash \<Rightarrow> TrieError + 'b"
    using d_bind_returns [OF h [OF that], of "\<lambda>h. Some (f h)"] by simp
  have "decode_child x decode data i \<noteq> None" for i
    by (auto simp: decode_child_def map_error_def intro!: c split: sum.split)
  then have "decode_branch x decode data \<noteq> None"
    unfolding decode_branch_def by (intro d_bind_returns d_map_returns) auto
  moreover have "decode_pair x decode data \<noteq> None"
    by (auto simp: decode_pair_def rlp_item_def map_error_def and_then_def intro!: c split: sum.split prod.split)
  ultimately show ?thesis unfolding decode_with_def by (auto split: sum.split)
qed (simp add: decode_with_def)

lemma decode_nested_returns:
  assumes "rlp_shrinks x"
  shows "decode_nested x data \<noteq> None"
proof (induction data rule: length_induct)
  case (1 data)
  then show ?case using decode_with_returns [OF assms, of data "decode_nested x"] by (simp add: decode_nested.simps [of x data])
qed

text \<open>C18: Decoding a node returns.  Nodes may be nested in a node, and the decoder calls itself on what it
  reads, without a bound; when what an item of a list contains is shorter than the list, the recursion ends with an
  error or a node on all data, and the result is what the callers see.\<close>

theorem decode_node_terminates:
  assumes "rlp_shrinks x"
  shows "\<exists>r. decode_nested x data = Some r \<and> decode_node x data = r"
  using decode_nested_returns [OF assms, of data] by (auto simp: decode_node_def)

theorem decode_node_terminates_witness:
  "\<exists>r. decode_nested sample_rlp (sample_encode [[0, 1], sample_encode [[0, 1], [7]]]) = Some r \<and>
     decode_node sample_rlp (sample_encode [[0, 1], sample_encode [[0, 1], [7]]]) = r"
  by (rule decode_node_terminates [OF sample_rlp_shrinks])

text \<open>C19: A node is read back as it was written.  Every node whose nibbles are below 16 and whose branches have
  sixteen children and no empty value decodes from its encoding, hex prefix and child hashes
  included.\<close>

theorem encoded_node_decodes:
  assumes "rlp_laws x" "node_ok node"
  shows "decode_node x (encode_node x node) = Inr node"
  by (rule decode_encode_node [OF assms])

theorem encoded_node_decodes_witness:
  "decode_node sample_rlp (encode_node sample_rlp (Extension \<lparr>en_prefix = [1, 2, 3], en_child = 5\<rparr>)) = Inr (Extension \<lparr>en_prefix = [1, 2, 3], en_child = 5\<rparr>)"
  by (rule encoded_node_decodes [OF sample_rlp_laws]) (simp add: nibbles_ok_def)

end
