(* ===== verification/Trie.thy ===== *)
theory Trie
  imports Nibbles "HOL-Library.AList"
begin

section \<open>The Merkle-Patricia trie\<close>

text \<open>
  \<open>trie/trie.rs\<close>: the trie over a node database, with its cache and its dirty nodes.  The trait
  \<open>TrieDB\<close> is a record of operations on a state, its contract the locale \<open>trie_db\<close>, interpreted on
  the in-memory database and on the cache of \<open>rabbitstore\<close> over any database.  An operation returns its result
  and the new state, or \<open>None\<close> when it panics or does not return.  A \<open>HashMap\<close> of dirty
  nodes is an association list; the source flushes it in another order.
\<close>

subsection \<open>Node databases\<close>

record 'd trie_db_ops =
  db_get_node :: "hash \<Rightarrow> 'd \<Rightarrow> (TrieError + u8 list option) \<times> 'd"
  db_put_node :: "hash \<Rightarrow> u8 list \<Rightarrow> 'd \<Rightarrow> (TrieError + unit) \<times> 'd"
  db_has_node :: "hash \<Rightarrow> 'd \<Rightarrow> (TrieError + bool) \<times> 'd"

locale trie_db =
  fixes ops :: "'d trie_db_ops"
    and db_ok :: "'d \<Rightarrow> bool"
    and db_map :: "'d \<Rightarrow> hash \<rightharpoonup> u8 list"
  assumes get_node: "db_ok d \<Longrightarrow> db_get_node ops h d = (r, d') \<Longrightarrow> r = Inr (db_map d h) \<and> db_ok d' \<and> db_map d' = db_map d"
    and put_node: "db_ok d \<Longrightarrow> db_put_node ops h data d = (u, d') \<Longrightarrow> u = Inr () \<and> db_ok d' \<and> db_map d' = (db_map d)(h \<mapsto> data)"
    and has_node: "db_ok d \<Longrightarrow> db_has_node ops h d = (b, d') \<Longrightarrow> b = Inr (db_map d h \<noteq> None) \<and> d' = d"

type_synonym MemTrieDB = "hash \<rightharpoonup> u8 list"

definition mem_trie_db :: "MemTrieDB trie_db_ops" where
  "mem_trie_db =
     \<lparr>db_get_node = (\<lambda>h d. (Inr (d h), d)), db_put_node = (\<lambda>h data d. (Inr (), d(h \<mapsto> data))),
      db_has_node = (\<lambda>h d. (Inr (d h \<noteq> None), d))\<rparr>"

interpretation mem_trie: trie_db mem_trie_db "\<lambda>_. True" "\<lambda>d. d"
  by unfold_locales (auto simp: mem_trie_db_def)

text \<open>The cache in front of another database: past the limit it drops the oldest entries.\<close>

definition CACHED_TRIE_MAX_ENTRIES :: nat where "CACHED_TRIE_MAX_ENTRIES = 16384"
definition CACHED_TRIE_WATERMARK_ENTRIES :: nat where "CACHED_TRIE_WATERMARK_ENTRIES = 12288"

record 'd CachedTrieDB =
  ct_inner :: 'd
  ct_cache :: "(hash \<times> u8 list) list"
  ct_order :: "hash list"

definition cached_new :: "'d \<Rightarrow> 'd CachedTrieDB" where
  "cached_new inner = \<lparr>ct_inner = inner, ct_cache = [], ct_order = []\<rparr>"

fun evict_oldest :: "nat \<Rightarrow> 'd CachedTrieDB \<Rightarrow> 'd CachedTrieDB" where
  "evict_oldest 0 c = c"
| "evict_oldest (Suc n) c =
     (case ct_order c of
        [] \<Rightarrow> c
      | oldest # rest \<Rightarrow> evict_oldest n (c\<lparr>ct_cache := AList.delete oldest (ct_cache c), ct_order := rest\<rparr>))"

definition evict_to_watermark :: "'d CachedTrieDB \<Rightarrow> 'd CachedTrieDB" where
  "evict_to_watermark c =
     (if length (ct_cache c) \<le> CACHED_TRIE_MAX_ENTRIES then c
      else evict_oldest (length (ct_cache c) - CACHED_TRIE_WATERMARK_ENTRIES) c)"

definition cached_clear :: "'d CachedTrieDB \<Rightarrow> 'd CachedTrieDB" where
  "cached_clear c = c\<lparr>ct_cache := [], ct_order := []\<rparr>"

definition cached_insert :: "hash \<Rightarrow> u8 list \<Rightarrow> 'd CachedTrieDB \<Rightarrow> 'd CachedTrieDB" where
  "cached_insert h data c =
     evict_to_watermark (c\<lparr>ct_cache := AList.update h data (ct_cache c), ct_order := ct_order c @ [h]\<rparr>)"

definition cached_get_node :: "'d trie_db_ops \<Rightarrow> hash \<Rightarrow> 'd CachedTrieDB \<Rightarrow> (TrieError + u8 list option) \<times> 'd CachedTrieDB" where
  "cached_get_node ops h c =
     (case map_of (ct_cache c) h of
        Some data \<Rightarrow> (Inr (Some data), c)
      | None \<Rightarrow>
          (case db_get_node ops h (ct_inner c) of
             (Inl e, d) \<Rightarrow> (Inl e, c\<lparr>ct_inner := d\<rparr>)
           | (Inr None, d) \<Rightarrow> (Inr None, c\<lparr>ct_inner := d\<rparr>)
           | (Inr (Some data), d) \<Rightarrow> (Inr (Some data), cached_insert h data (c\<lparr>ct_inner := d\<rparr>))))"

definition cached_put_node :: "'d trie_db_ops \<Rightarrow> hash \<Rightarrow> u8 list \<Rightarrow> 'd CachedTrieDB \<Rightarrow> (TrieError + unit) \<times> 'd CachedTrieDB" where
  "cached_put_node ops h data c =
     (let c = cached_insert h data c;
          (r, d) = db_put_node ops h data (ct_inner c)
      in (r, c\<lparr>ct_inner := d\<rparr>))"

definition cached_has_node :: "'d trie_db_ops \<Rightarrow> hash \<Rightarrow> 'd CachedTrieDB \<Rightarrow> (TrieError + bool) \<times> 'd CachedTrieDB" where
  "cached_has_node ops h c =
     (if map_of (ct_cache c) h \<noteq> None then (Inr True, c)
      else let (r, d) = db_has_node ops h (ct_inner c) in (r, c\<lparr>ct_inner := d\<rparr>))"

definition cached_trie_db :: "'d trie_db_ops \<Rightarrow> 'd CachedTrieDB trie_db_ops" where
  "cached_trie_db ops =
     \<lparr>db_get_node = cached_get_node ops, db_put_node = cached_put_node ops, db_has_node = cached_has_node ops\<rparr>"

definition cached_ok :: "('d \<Rightarrow> bool) \<Rightarrow> ('d \<Rightarrow> hash \<rightharpoonup> u8 list) \<Rightarrow> 'd CachedTrieDB \<Rightarrow> bool" where
  "cached_ok db_ok db_map c \<longleftrightarrow> db_ok (ct_inner c) \<and> map_of (ct_cache c) \<subseteq>\<^sub>m db_map (ct_inner c)"

lemma evict_oldest_smaller:
  "ct_inner (evict_oldest n c) = ct_inner c \<and> map_of (ct_cache (evict_oldest n c)) \<subseteq>\<^sub>m map_of (ct_cache c)"
proof (induction n arbitrary: c)
  case (Suc n)
  have d: "map_of (AList.delete a xs) \<subseteq>\<^sub>m map_of xs" for a :: hash and xs :: "(hash \<times> u8 list) list"
    by (auto simp: map_le_def delete_conv')
  show ?case
  proof (cases "ct_order c")
    case (Cons a as)
    let ?c = "c\<lparr>ct_cache := AList.delete a (ct_cache c), ct_order := as\<rparr>"
    have "map_of (ct_cache (evict_oldest n ?c)) \<subseteq>\<^sub>m map_of (ct_cache ?c)" using Suc.IH by blast
    moreover have "map_of (ct_cache ?c) \<subseteq>\<^sub>m map_of (ct_cache c)" using d by simp
    ultimately have "map_of (ct_cache (evict_oldest n ?c)) \<subseteq>\<^sub>m map_of (ct_cache c)" by (rule map_le_trans)
    then show ?thesis using Suc.IH [of ?c] Cons by simp
  qed simp
qed simp

lemma cached_insert_inner: "ct_inner (cached_insert h data c) = ct_inner c"
  by (simp add: cached_insert_def evict_to_watermark_def evict_oldest_smaller)

lemma cached_insert_le:
  assumes "map_of (ct_cache c) \<subseteq>\<^sub>m m"
  shows "map_of (ct_cache (cached_insert h data c)) \<subseteq>\<^sub>m m(h \<mapsto> data)"
proof -
  have "map_of (ct_cache (evict_to_watermark c')) \<subseteq>\<^sub>m map_of (ct_cache c')" for c' :: "'a CachedTrieDB"
    by (simp add: evict_to_watermark_def evict_oldest_smaller)
  from this [of "c\<lparr>ct_cache := AList.update h data (ct_cache c), ct_order := ct_order c @ [h]\<rparr>"]
  have "map_of (ct_cache (cached_insert h data c)) \<subseteq>\<^sub>m (map_of (ct_cache c))(h \<mapsto> data)"
    by (simp add: cached_insert_def update_conv')
  then show ?thesis using map_le_upd [OF assms] map_le_trans by blast
qed

context trie_db
begin

lemma cached_trie: "trie_db (cached_trie_db ops) (cached_ok db_ok db_map) (\<lambda>c. db_map (ct_inner c))"
proof
  fix c h r c'
  assume ok: "cached_ok db_ok db_map c" and g: "db_get_node (cached_trie_db ops) h c = (r, c')"
  obtain r' d where d: "db_get_node ops h (ct_inner c) = (r', d)" by fastforce
  have in': "r' = Inr (db_map (ct_inner c) h)" "db_ok d" "db_map d = db_map (ct_inner c)"
    using get_node [OF _ d] ok by (auto simp: cached_ok_def)
  show "r = Inr (db_map (ct_inner c) h) \<and> cached_ok db_ok db_map c' \<and> db_map (ct_inner c') = db_map (ct_inner c)"
  proof (cases "map_of (ct_cache c) h")
    case (Some data)
    then show ?thesis using ok g by (auto simp: cached_trie_db_def cached_get_node_def cached_ok_def map_le_def dom_def)
  next
    case None
    show ?thesis
    proof (cases "db_map (ct_inner c) h")
      case (Some data)
      have "(db_map d)(h \<mapsto> data) = db_map d" using Some in'(3) by (simp add: map_upd_triv)
      then have "map_of (ct_cache (cached_insert h data (c\<lparr>ct_inner := d\<rparr>))) \<subseteq>\<^sub>m db_map d"
        using cached_insert_le [of "c\<lparr>ct_inner := d\<rparr>" "db_map d" h data] ok in'(3) by (simp add: cached_ok_def)
      then show ?thesis using g None d in' Some
        by (auto simp: cached_trie_db_def cached_get_node_def cached_ok_def cached_insert_inner)
    qed (use g None d in' ok in \<open>auto simp: cached_trie_db_def cached_get_node_def cached_ok_def\<close>)
  qed
next
  fix c h data r c'
  assume ok: "cached_ok db_ok db_map c" and p: "db_put_node (cached_trie_db ops) h data c = (r, c')"
  let ?c = "cached_insert h data c"
  obtain r' d where d: "db_put_node ops h data (ct_inner ?c) = (r', d)" by fastforce
  have in': "r' = Inr ()" "db_ok d" "db_map d = (db_map (ct_inner c))(h \<mapsto> data)"
    using put_node [OF _ d] ok by (auto simp: cached_ok_def cached_insert_inner)
  have "map_of (ct_cache ?c) \<subseteq>\<^sub>m db_map d"
    using cached_insert_le ok in'(3) by (auto simp: cached_ok_def)
  then show "r = Inr () \<and> cached_ok db_ok db_map c' \<and> db_map (ct_inner c') = (db_map (ct_inner c))(h \<mapsto> data)"
    using p d in' by (auto simp: cached_trie_db_def cached_put_node_def cached_ok_def Let_def)
next
  fix c h r c'
  assume ok: "cached_ok db_ok db_map c" and p: "db_has_node (cached_trie_db ops) h c = (r, c')"
  obtain r' d where d: "db_has_node ops h (ct_inner c) = (r', d)" by fastforce
  have "r' = Inr (db_map (ct_inner c) h \<noteq> None)" "d = ct_inner c"
    using has_node [OF _ d] ok by (auto simp: cached_ok_def)
  then show "r = Inr (db_map (ct_inner c) h \<noteq> None) \<and> c' = c"
    using p d ok by (auto simp: cached_trie_db_def cached_has_node_def cached_ok_def map_le_def dom_def split: if_splits)
qed

end

interpretation cached_mem_trie: trie_db "cached_trie_db mem_trie_db" "cached_ok (\<lambda>_. True) (\<lambda>d. d)" "\<lambda>c. ct_inner c"
  by (rule mem_trie.cached_trie)

subsection \<open>The trie\<close>

record 'd trie =
  tr_root :: "hash option"
  tr_db :: 'd
  tr_cache :: "hash \<rightharpoonup> TrieNode"
  tr_dirty :: "(hash \<times> TrieNode) list"

definition trie_new :: "'d \<Rightarrow> 'd trie" where
  "trie_new d = \<lparr>tr_root = None, tr_db = d, tr_cache = Map.empty, tr_dirty = []\<rparr>"

definition from_root :: "hash \<Rightarrow> 'd \<Rightarrow> 'd trie" where
  "from_root root d = \<lparr>tr_root = Some root, tr_db = d, tr_cache = Map.empty, tr_dirty = []\<rparr>"

definition trie_root :: "'d trie \<Rightarrow> hash" where
  "trie_root t = (case tr_root t of None \<Rightarrow> empty_trie_root | Some h \<Rightarrow> h)"

definition clear_cache :: "'d trie \<Rightarrow> 'd trie" where
  "clear_cache t = t\<lparr>tr_cache := Map.empty\<rparr>"

type_synonym ('a, 'd) trie_result = "((TrieError + 'a) \<times> 'd trie) option"

text \<open>The operator \<open>?\<close>: an error stops, with the state it leaves.\<close>

definition t_bind :: "('a, 'd) trie_result \<Rightarrow> ('a \<Rightarrow> 'd trie \<Rightarrow> ('b, 'd) trie_result) \<Rightarrow> ('b, 'd) trie_result" where
  "t_bind r k = Option.bind r (\<lambda>(v, t). case v of Inl e \<Rightarrow> Some (Inl e, t) | Inr a \<Rightarrow> k a t)"

lemma t_bind_simps [simp]:
  "t_bind None k = None" "t_bind (Some (Inl e, t)) k = Some (Inl e, t)" "t_bind (Some (Inr a, t)) k = k a t"
  by (simp_all add: t_bind_def)

lemma t_bind_mono [partial_function_mono]:
  fixes C :: "'a \<Rightarrow> 'd trie \<Rightarrow> ('c \<Rightarrow> 'e option) \<Rightarrow> ('b, 'd) trie_result"
  assumes "mono_option B" "\<And>a t. mono_option (C a t)"
  shows "mono_option (\<lambda>f. t_bind (B f) (\<lambda>a t. C a t f))"
proof -
  have "mono_option (\<lambda>f. case r of (v, t) \<Rightarrow> (case v of Inl e \<Rightarrow> Some (Inl e, t) | Inr a \<Rightarrow> C a t f))" for r
    by (cases r; cases "fst r") (auto simp: assms(2) option.const_mono)
  then show ?thesis unfolding t_bind_def by (intro bind_mono assms(1))
qed

definition get_node_by_hash :: "'e rlp_externals_scheme \<Rightarrow> 'd trie_db_ops \<Rightarrow> hash \<Rightarrow> 'd trie \<Rightarrow> (TrieError + TrieNode) \<times> 'd trie" where
  "get_node_by_hash x ops h t =
     (case tr_cache t h of
        Some node \<Rightarrow> (Inr node, t)
      | None \<Rightarrow>
          (case map_of (tr_dirty t) h of
             Some node \<Rightarrow> (Inr node, t)
           | None \<Rightarrow>
               (case db_get_node ops h (tr_db t) of
                  (Inl e, d) \<Rightarrow> (Inl e, t\<lparr>tr_db := d\<rparr>)
                | (Inr None, d) \<Rightarrow> (Inl (NotFound h), t\<lparr>tr_db := d\<rparr>)
                | (Inr (Some data), d) \<Rightarrow>
                    (case decode_node x data of
                       Inl e \<Rightarrow> (Inl e, t\<lparr>tr_db := d\<rparr>)
                     | Inr node \<Rightarrow> (Inr node, t\<lparr>tr_db := d, tr_cache := (tr_cache t)(h \<mapsto> node)\<rparr>)))))"

definition save_node :: "'e rlp_externals_scheme \<Rightarrow> TrieNode \<Rightarrow> 'd trie \<Rightarrow> hash \<times> 'd trie" where
  "save_node x node t = (let h = node_hash x node in (h, t\<lparr>tr_dirty := AList.update h node (tr_dirty t)\<rparr>))"

text \<open>To save a node as the result.\<close>

definition save_as :: "'e rlp_externals_scheme \<Rightarrow> TrieNode \<Rightarrow> 'd trie \<Rightarrow> (hash, 'd) trie_result" where
  "save_as x node t = (let (h, t) = save_node x node t in Some (Inr h, t))"

fun flush_nodes :: "'e rlp_externals_scheme \<Rightarrow> 'd trie_db_ops \<Rightarrow> (hash \<times> TrieNode) list \<Rightarrow> 'd trie \<Rightarrow> (TrieError + unit) \<times> 'd trie" where
  "flush_nodes x ops [] t = (Inr (), t)"
| "flush_nodes x ops ((h, node) # nodes) t =
     (case db_put_node ops h (encode_node x node) (tr_db t) of
        (Inl e, d) \<Rightarrow> (Inl e, t\<lparr>tr_db := d\<rparr>)
      | (Inr _, d) \<Rightarrow> flush_nodes x ops nodes (t\<lparr>tr_db := d, tr_cache := (tr_cache t)(h \<mapsto> node)\<rparr>))"

definition flush :: "'e rlp_externals_scheme \<Rightarrow> 'd trie_db_ops \<Rightarrow> 'd trie \<Rightarrow> (TrieError + unit) \<times> 'd trie" where
  "flush x ops t = flush_nodes x ops (tr_dirty t) (t\<lparr>tr_dirty := []\<rparr>)"

subsection \<open>Lookup\<close>

partial_function (option) get_recursive ::
    "'e rlp_externals_scheme \<Rightarrow> 'd trie_db_ops \<Rightarrow> TrieNode \<Rightarrow> NibbleSlice \<Rightarrow> nat \<Rightarrow> 'd trie \<Rightarrow> (u8 list option, 'd) trie_result" where
  "get_recursive x ops node key depth t =
     (case node of
        Empty \<Rightarrow> Some (Inr None, t)
      | Leaf leaf \<Rightarrow>
          Option.bind (ns_equals_nibbles (ns_slice_from key depth) (ln_key_suffix leaf)) (\<lambda>same.
          Some (Inr (if same then Some (ln_value leaf) else None), t))
      | Extension ext \<Rightarrow>
          Option.bind (ns_common_prefix_nibbles (ns_slice_from key depth) (en_prefix ext)) (\<lambda>common.
          if common = length (en_prefix ext)
          then t_bind (Some (get_node_by_hash x ops (en_child ext) t)) (\<lambda>child t.
                 get_recursive x ops child key (depth + length (en_prefix ext)) t)
          else Some (Inr None, t))
      | Branch branch \<Rightarrow>
          Option.bind (ns_len key) (\<lambda>n.
          if n \<le> depth then Some (Inr (bn_value branch), t)
          else (case bn_children branch ! unat (ns_at key depth) of
                  Some h \<Rightarrow> t_bind (Some (get_node_by_hash x ops h t)) (\<lambda>child t. get_recursive x ops child key (depth + 1) t)
                | None \<Rightarrow> Some (Inr None, t))))"

definition hashed_key :: "'e rlp_externals_scheme \<Rightarrow> u8 list \<Rightarrow> NibbleSlice" where
  "hashed_key x key = ns_new (be_bytes (keccak256 x key))"

definition trie_get :: "'e rlp_externals_scheme \<Rightarrow> 'd trie_db_ops \<Rightarrow> u8 list \<Rightarrow> 'd trie \<Rightarrow> (u8 list option, 'd) trie_result" where
  "trie_get x ops key t =
     (case tr_root t of
        None \<Rightarrow> Some (Inr None, t)
      | Some root \<Rightarrow> t_bind (Some (get_node_by_hash x ops root t)) (\<lambda>node t. get_recursive x ops node (hashed_key x key) 0 t))"

subsection \<open>Insertion\<close>

definition split_leaf :: "'e rlp_externals_scheme \<Rightarrow> LeafNode \<Rightarrow> NibbleSlice \<Rightarrow> nat \<Rightarrow> nat \<Rightarrow> u8 list \<Rightarrow> 'd trie \<Rightarrow> (hash, 'd) trie_result" where
  "split_leaf x leaf key depth common v t =
     (if length (ln_key_suffix leaf) \<le> common then None
      else
        let (existing, t) = save_node x (Leaf \<lparr>ln_key_suffix = drop (common + 1) (ln_key_suffix leaf), ln_value = ln_value leaf\<rparr>) t in
        Option.bind (ns_to_nibbles (ns_slice_from key (depth + common + 1))) (\<lambda>suffix.
        let (new, t) = save_node x (Leaf \<lparr>ln_key_suffix = suffix, ln_value = v\<rparr>) t;
            i = unat (ln_key_suffix leaf ! common); j = unat (ns_at key (depth + common))
        in if 16 \<le> i then None
           else
             let (branch, t) = save_node x (Branch \<lparr>bn_children = (replicate 16 None)[i := Some existing, j := Some new], bn_value = None\<rparr>) t
             in if 0 < common then save_as x (Extension \<lparr>en_prefix = take common (ln_key_suffix leaf), en_child = branch\<rparr>) t
                else Some (Inr branch, t)))"

definition split_extension :: "'e rlp_externals_scheme \<Rightarrow> ExtensionNode \<Rightarrow> NibbleSlice \<Rightarrow> nat \<Rightarrow> nat \<Rightarrow> u8 list \<Rightarrow> 'd trie \<Rightarrow> (hash, 'd) trie_result" where
  "split_extension x ext key depth common v t =
     (let i = unat (en_prefix ext ! common); old_remaining = drop (common + 1) (en_prefix ext);
          (old_child, t) = (if old_remaining = [] then (en_child ext, t)
             else save_node x (Extension \<lparr>en_prefix = old_remaining, en_child = en_child ext\<rparr>) t)
      in if 16 \<le> i then None
         else
           Option.bind (ns_to_nibbles (ns_slice_from key (depth + common + 1))) (\<lambda>suffix.
           let children = (replicate 16 None)[i := Some old_child];
               (branch, t) = (if suffix = [] then save_node x (Branch \<lparr>bn_children = children, bn_value = Some v\<rparr>) t
                  else let (new, t) = save_node x (Leaf \<lparr>ln_key_suffix = suffix, ln_value = v\<rparr>) t
                       in save_node x (Branch \<lparr>bn_children = children[unat (ns_at key (depth + common)) := Some new], bn_value = None\<rparr>) t)
           in if 0 < common then save_as x (Extension \<lparr>en_prefix = take common (en_prefix ext), en_child = branch\<rparr>) t
              else Some (Inr branch, t)))"

partial_function (option) insert_recursive ::
    "'e rlp_externals_scheme \<Rightarrow> 'd trie_db_ops \<Rightarrow> TrieNode \<Rightarrow> NibbleSlice \<Rightarrow> nat \<Rightarrow> u8 list \<Rightarrow> 'd trie \<Rightarrow> (hash, 'd) trie_result" where
  "insert_recursive x ops node key depth v t =
     (case node of
        Empty \<Rightarrow>
          Option.bind (ns_to_nibbles (ns_slice_from key depth)) (\<lambda>suffix. save_as x (Leaf \<lparr>ln_key_suffix = suffix, ln_value = v\<rparr>) t)
      | Leaf leaf \<Rightarrow>
          Option.bind (ns_common_prefix_nibbles (ns_slice_from key depth) (ln_key_suffix leaf)) (\<lambda>common.
          Option.bind (ns_len (ns_slice_from key depth)) (\<lambda>n.
          if common = length (ln_key_suffix leaf) \<and> common = n
          then save_as x (Leaf \<lparr>ln_key_suffix = ln_key_suffix leaf, ln_value = v\<rparr>) t
          else split_leaf x leaf key depth common v t))
      | Extension ext \<Rightarrow>
          Option.bind (ns_common_prefix_nibbles (ns_slice_from key depth) (en_prefix ext)) (\<lambda>common.
          if common = length (en_prefix ext)
          then t_bind (Some (get_node_by_hash x ops (en_child ext) t)) (\<lambda>child t.
               t_bind (insert_recursive x ops child key (depth + length (en_prefix ext)) v t) (\<lambda>new_child t.
               save_as x (Extension \<lparr>en_prefix = en_prefix ext, en_child = new_child\<rparr>) t))
          else split_extension x ext key depth common v t)
      | Branch branch \<Rightarrow>
          Option.bind (ns_len key) (\<lambda>n.
          if n \<le> depth then save_as x (Branch (branch\<lparr>bn_value := Some v\<rparr>)) t
          else
            let i = unat (ns_at key depth) in
            t_bind (case bn_children branch ! i of
                      Some h \<Rightarrow> t_bind (Some (get_node_by_hash x ops h t)) (\<lambda>child t. insert_recursive x ops child key (depth + 1) v t)
                    | None \<Rightarrow> Option.bind (ns_to_nibbles (ns_slice_from key (depth + 1))) (\<lambda>suffix.
                        save_as x (Leaf \<lparr>ln_key_suffix = suffix, ln_value = v\<rparr>) t))
              (\<lambda>new_child t. save_as x (Branch (branch\<lparr>bn_children := (bn_children branch)[i := Some new_child]\<rparr>)) t)))"

definition trie_insert :: "'e rlp_externals_scheme \<Rightarrow> 'd trie_db_ops \<Rightarrow> u8 list \<Rightarrow> u8 list \<Rightarrow> 'd trie \<Rightarrow> (hash, 'd) trie_result" where
  "trie_insert x ops key v t =
     t_bind (case tr_root t of
               None \<Rightarrow> Option.bind (ns_to_nibbles (hashed_key x key)) (\<lambda>suffix.
                 save_as x (Leaf \<lparr>ln_key_suffix = suffix, ln_value = v\<rparr>) t)
             | Some root \<Rightarrow> t_bind (Some (get_node_by_hash x ops root t)) (\<lambda>node t.
                 insert_recursive x ops node (hashed_key x key) 0 v t))
       (\<lambda>new_root t. t_bind (Some (flush x ops (t\<lparr>tr_root := Some new_root\<rparr>))) (\<lambda>_ t. Some (Inr new_root, t)))"

subsection \<open>Removal\<close>

text \<open>The result is the hash of what is left, if anything, and the removed value.\<close>

text \<open>The node that replaces an extension whose child has changed.\<close>

definition merge_extension :: "'e rlp_externals_scheme \<Rightarrow> u8 list \<Rightarrow> hash \<Rightarrow> TrieNode \<Rightarrow> TrieNode" where
  "merge_extension x prefix' new_child node =
     (case node of
        Extension child_ext \<Rightarrow> Extension \<lparr>en_prefix = prefix' @ en_prefix child_ext, en_child = en_child child_ext\<rparr>
      | Leaf child_leaf \<Rightarrow> Leaf \<lparr>ln_key_suffix = prefix' @ ln_key_suffix child_leaf, ln_value = ln_value child_leaf\<rparr>
      | _ \<Rightarrow> Extension \<lparr>en_prefix = prefix', en_child = new_child\<rparr>)"

definition save_removed :: "'e rlp_externals_scheme \<Rightarrow> TrieNode \<Rightarrow> u8 list option \<Rightarrow> 'd trie \<Rightarrow> (hash option \<times> u8 list option, 'd) trie_result" where
  "save_removed x node removed t = (let (h, t) = save_node x node t in Some (Inr (Some h, removed), t))"

partial_function (option) remove_recursive ::
    "'e rlp_externals_scheme \<Rightarrow> 'd trie_db_ops \<Rightarrow> TrieNode \<Rightarrow> NibbleSlice \<Rightarrow> nat \<Rightarrow> 'd trie
     \<Rightarrow> (hash option \<times> u8 list option, 'd) trie_result" where
  "remove_recursive x ops node key depth t =
     (case node of
        Empty \<Rightarrow> Some (Inr (None, None), t)
      | Leaf leaf \<Rightarrow>
          Option.bind (ns_equals_nibbles (ns_slice_from key depth) (ln_key_suffix leaf)) (\<lambda>same.
          Some (Inr (None, if same then Some (ln_value leaf) else None), t))
      | Branch branch \<Rightarrow>
          Option.bind (ns_len key) (\<lambda>n.
          if n \<le> depth
          then if \<not> has_children branch \<and> bn_value branch \<noteq> None then Some (Inr (None, bn_value branch), t)
               else save_removed x (Branch (branch\<lparr>bn_value := None\<rparr>)) (bn_value branch) t
          else
            let i = unat (ns_at key depth) in
            case bn_children branch ! i of
              None \<Rightarrow> Some (Inr (None, None), t)
            | Some h \<Rightarrow>
                t_bind (Some (get_node_by_hash x ops h t)) (\<lambda>child t.
                t_bind (remove_recursive x ops child key (depth + 1) t) (\<lambda>r t.
                let new_branch = branch\<lparr>bn_children := (bn_children branch)[i := fst r]\<rparr> in
                if \<not> has_children new_branch \<and> bn_value new_branch = None then Some (Inr (None, snd r), t)
                else save_removed x (Branch new_branch) (snd r) t)))
      | Extension ext \<Rightarrow>
          Option.bind (ns_common_prefix_nibbles (ns_slice_from key depth) (en_prefix ext)) (\<lambda>common.
          if common \<noteq> length (en_prefix ext) then save_removed x (Extension ext) None t
          else
            t_bind (Some (get_node_by_hash x ops (en_child ext) t)) (\<lambda>child t.
            t_bind (remove_recursive x ops child key (depth + length (en_prefix ext)) t) (\<lambda>r t.
            case fst r of
              None \<Rightarrow> Some (Inr (None, snd r), t)
            | Some new_child \<Rightarrow>
                t_bind (Some (get_node_by_hash x ops new_child t)) (\<lambda>node t.
                save_removed x (merge_extension x (en_prefix ext) new_child node) (snd r) t)))))"

definition trie_remove :: "'e rlp_externals_scheme \<Rightarrow> 'd trie_db_ops \<Rightarrow> u8 list \<Rightarrow> 'd trie \<Rightarrow> (u8 list option, 'd) trie_result" where
  "trie_remove x ops key t =
     (case tr_root t of
        None \<Rightarrow> Some (Inr None, t)
      | Some root \<Rightarrow>
          t_bind (Some (get_node_by_hash x ops root t)) (\<lambda>node t.
          t_bind (remove_recursive x ops node (hashed_key x key) 0 t) (\<lambda>r t.
          let t = t\<lparr>tr_root := fst r\<rparr> in
          if fst r = None then Some (Inr (snd r), t)
          else t_bind (Some (flush x ops t)) (\<lambda>_ t. Some (Inr (snd r), t)))))"

subsection \<open>Proofs\<close>

record TrieProof =
  tp_nodes :: "u8 list list"
  tp_root :: hash

record AccountProof =
  ap_account_proof :: TrieProof
  ap_storage_proofs :: "TrieProof list"
  ap_state_root :: hash

definition account_proof_verify :: "AccountProof \<Rightarrow> bool" where
  "account_proof_verify p = True"

text \<open>The walk of \<open>get_proof\<close>: the nibble at a branch is counted by the nodes so far.\<close>

partial_function (option) proof_walk ::
    "'e rlp_externals_scheme \<Rightarrow> 'd trie_db_ops \<Rightarrow> NibbleSlice \<Rightarrow> hash \<Rightarrow> u8 list list \<Rightarrow> 'd trie \<Rightarrow> (u8 list list, 'd) trie_result" where
  "proof_walk x ops key current proof_nodes t =
     t_bind (Some (get_node_by_hash x ops current t)) (\<lambda>node t.
     let proof_nodes = proof_nodes @ [encode_node x node] in
     case node of
       Empty \<Rightarrow> Some (Inr proof_nodes, t)
     | Leaf leaf \<Rightarrow> Some (Inr proof_nodes, t)
     | Extension ext \<Rightarrow> proof_walk x ops key (en_child ext) proof_nodes t
     | Branch branch \<Rightarrow>
         Option.bind (ns_len key) (\<lambda>n.
         if n \<le> length proof_nodes then Some (Inr proof_nodes, t)
         else (case bn_children branch ! unat (ns_at key (length proof_nodes - 1)) of
                 Some h \<Rightarrow> proof_walk x ops key h proof_nodes t
               | None \<Rightarrow> Some (Inr proof_nodes, t))))"

definition get_proof :: "'e rlp_externals_scheme \<Rightarrow> 'd trie_db_ops \<Rightarrow> u8 list \<Rightarrow> 'd trie \<Rightarrow> (TrieProof, 'd) trie_result" where
  "get_proof x ops key t =
     (case tr_root t of
        None \<Rightarrow> Some (Inr \<lparr>tp_nodes = [], tp_root = trie_root t\<rparr>, t)
      | Some root \<Rightarrow> t_bind (proof_walk x ops (hashed_key x key) root [] t) (\<lambda>nodes t.
          Some (Inr \<lparr>tp_nodes = nodes, tp_root = trie_root t\<rparr>, t)))"

definition verify_proof :: "'e rlp_externals_scheme \<Rightarrow> u8 list \<Rightarrow> u8 list option \<Rightarrow> TrieProof \<Rightarrow> TrieError + bool" where
  "verify_proof x key v p = Inr (list_all (\<lambda>data. keccak256 x data = tp_root p) (tp_nodes p))"

definition rlp_read :: "'e rlp_externals_scheme \<Rightarrow> u8 list \<Rightarrow> nat \<Rightarrow> string + u8 list" where
  "rlp_read x data i = and_then (rlp_at x data i) (rlp_bytes x)"

text \<open>An item of a branch: absent when empty.\<close>

definition branch_item :: "'e rlp_externals_scheme \<Rightarrow> u8 list \<Rightarrow> nat \<Rightarrow> string + u8 list option" where
  "branch_item x data i =
     and_then (rlp_at x data i) (\<lambda>raw. if rlp_is_empty x raw then Inr None else and_then (rlp_bytes x raw) (\<lambda>v. Inr (Some v)))"

definition nibbles_match :: "NibbleSlice \<Rightarrow> nat \<Rightarrow> u8 list \<Rightarrow> bool" where
  "nibbles_match key consumed ns \<longleftrightarrow> (\<forall>j \<in> set [0..<length ns]. ns ! j = ns_at key (consumed + j))"

fun verify_nodes :: "'e rlp_externals_scheme \<Rightarrow> NibbleSlice \<Rightarrow> nat \<Rightarrow> u8 list option \<Rightarrow> u8 list list \<Rightarrow> nat \<Rightarrow> bool" where
  "verify_nodes x key n expected [] consumed = False"
| "verify_nodes x key n expected (data # rest) consumed =
     (if \<not> rlp_is_list x data \<and> (data = [0x80] \<or> data = []) then False
      else case rlp_item_count x data of
        Inl _ \<Rightarrow> False
      | Inr count \<Rightarrow>
          if count = 2 then
            (case and_then (rlp_read x data 0) decode_hex_prefix of
               Inl _ \<Rightarrow> False
             | Inr (ns, is_leaf) \<Rightarrow>
                 if is_leaf then
                   (case rlp_read x data 1 of
                      Inl _ \<Rightarrow> False
                    | Inr v \<Rightarrow> consumed + length ns = n \<and> nibbles_match key consumed ns \<and>
                        (case expected of None \<Rightarrow> True | Some e \<Rightarrow> v = e))
                 else if n < consumed + length ns \<or> \<not> nibbles_match key consumed ns then False
                 else verify_nodes x key n expected rest (consumed + length ns))
          else if count = 17 then
            (case and_then (try_map (branch_item x data) [0..<16]) (\<lambda>children.
                  and_then (branch_item x data 16) (\<lambda>v. Inr (children, v))) of
               Inl _ \<Rightarrow> False
             | Inr (children, v) \<Rightarrow>
                 if n \<le> consumed then
                   (case v of None \<Rightarrow> False | Some v \<Rightarrow> (case expected of None \<Rightarrow> True | Some e \<Rightarrow> v = e))
                 else
                   (case (children ! unat (ns_at key consumed), rest) of
                      (Some child, following # _) \<Rightarrow>
                        if keccak256 x following \<noteq> (if length child = 32 then word_of_nat (be_value child) else 0) then False
                        else verify_nodes x key n expected rest (consumed + 1)
                    | _ \<Rightarrow> False))
          else False)"

definition verify_unspent_proof :: "'e rlp_externals_scheme \<Rightarrow> hash \<Rightarrow> u8 list \<Rightarrow> u8 list option \<Rightarrow> TrieProof \<Rightarrow> bool" where
  "verify_unspent_proof x root key expected p =
     (case tp_nodes p of
        [] \<Rightarrow> False
      | first # _ \<Rightarrow>
          if keccak256 x first \<noteq> root then False
          else verify_nodes x (hashed_key x key) 64 expected (tp_nodes p) 0)"

end
