(* ===== verification/PrefixTree.thy ===== *)
theory PrefixTree
  imports Nibbles
begin

section \<open>Prefix trees\<close>

text \<open>
  The abstract form of a Merkle-Patricia trie: a leaf with the rest of its key, an extension by a shared
  prefix, or a branch over the next nibble.  A canonical tree (\<open>pt_wf\<close>) over keys of \<open>n\<close>
  nibbles is a map (\<open>pt_get_insert\<close>), and the map determines the tree (\<open>pt_canonical\<close>).
\<close>

subsection \<open>Trees\<close>

datatype ptree = PLeaf "u8 list" "u8 list" | PExt "u8 list" ptree | PBranch "ptree option list"

fun is_branch :: "ptree \<Rightarrow> bool" where
  "is_branch (PBranch ts) = True"
| "is_branch _ = False"

definition forked :: "'a option list \<Rightarrow> bool" where
  "forked ts \<longleftrightarrow> (\<exists>i < length ts. \<exists>j < i. ts ! i \<noteq> None \<and> ts ! j \<noteq> None)"

text \<open>Canonical trees over keys of \<open>n\<close> nibbles: an extension leads to a branch and a branch forks.\<close>

fun pt_wf :: "nat \<Rightarrow> ptree \<Rightarrow> bool" where
  "pt_wf n (PLeaf s v) \<longleftrightarrow> length s = n \<and> nibbles_ok s"
| "pt_wf n (PExt p t) \<longleftrightarrow> p \<noteq> [] \<and> nibbles_ok p \<and> length p < n \<and> is_branch t \<and> pt_wf (n - length p) t"
| "pt_wf n (PBranch ts) \<longleftrightarrow> length ts = 16 \<and> 0 < n \<and> forked ts \<and> (\<forall>c \<in> set ts. case c of None \<Rightarrow> True | Some t \<Rightarrow> pt_wf (n - 1) t)"

function pt_get :: "ptree \<Rightarrow> u8 list \<Rightarrow> u8 list option" where
  "pt_get (PLeaf s v) k = (if k = s then Some v else None)"
| "pt_get (PExt p t) k = (if take (length p) k = p then pt_get t (drop (length p) k) else None)"
| "pt_get (PBranch ts) [] = None"
| "pt_get (PBranch ts) (d # k) = (case ts ! unat d of None \<Rightarrow> None | Some t \<Rightarrow> pt_get t k)"
  by pat_completeness auto

termination
  by (relation "measures [\<lambda>(t, k). length k, \<lambda>(t, k). size t]") auto

definition lcp :: "u8 list \<Rightarrow> u8 list \<Rightarrow> nat" where
  "lcp k s = common_count (\<lambda>i. k ! i = s ! i) (min (length k) (length s))"

definition pt_fork :: "u8 list \<Rightarrow> u8 \<Rightarrow> ptree \<Rightarrow> u8 \<Rightarrow> ptree \<Rightarrow> ptree" where
  "pt_fork p i s j t =
     (let branch = PBranch ((replicate 16 None)[unat i := Some s, unat j := Some t])
      in if p = [] then branch else PExt p branch)"

function pt_insert :: "u8 list \<Rightarrow> u8 list \<Rightarrow> ptree \<Rightarrow> ptree" where
  "pt_insert k v (PLeaf s w) =
     (if k = s then PLeaf s v
      else let c = lcp k s in
        pt_fork (take c s) (s ! c) (PLeaf (drop (c + 1) s) w) (k ! c) (PLeaf (drop (c + 1) k) v))"
| "pt_insert k v (PExt p t) =
     (let c = lcp k p in
      if c = length p then PExt p (pt_insert (drop (length p) k) v t)
      else pt_fork (take c p) (p ! c) (if drop (c + 1) p = [] then t else PExt (drop (c + 1) p) t)
             (k ! c) (PLeaf (drop (c + 1) k) v))"
| "pt_insert [] v (PBranch ts) = PBranch ts"
| "pt_insert (d # k) v (PBranch ts) =
     PBranch (ts[unat d := Some (case ts ! unat d of None \<Rightarrow> PLeaf k v | Some t \<Rightarrow> pt_insert k v t)])"
  by pat_completeness auto

termination
  by (relation "measures [\<lambda>(k, v, t). length k, \<lambda>(k, v, t). size t]") auto

lemma common_count_less:
  "common_count same n \<le> n" "i < common_count same n \<Longrightarrow> same i"
  "common_count same n < n \<Longrightarrow> \<not> same (common_count same n)"
proof -
  show le: "common_count same n \<le> n" using length_takeWhile_le [of same "[0..<n]"] by (simp add: common_count_def)
  show "i < common_count same n \<Longrightarrow> same i"
  proof -
    assume i: "i < common_count same n"
    then have "takeWhile same [0..<n] ! i \<in> set (takeWhile same [0..<n])" by (simp add: common_count_def)
    then have "same (takeWhile same [0..<n] ! i)" by (blast dest: set_takeWhileD)
    then show "same i" using i le takeWhile_nth [of i same "[0..<n]"] by (simp add: common_count_def)
  qed
  show "common_count same n < n \<Longrightarrow> \<not> same (common_count same n)"
    using nth_length_takeWhile [of same "[0..<n]"] by (simp add: common_count_def)
qed

lemma lcp_facts:
  "lcp k s \<le> length k" "lcp k s \<le> length s" "take (lcp k s) k = take (lcp k s) s"
  "lcp k s < length k \<Longrightarrow> lcp k s < length s \<Longrightarrow> k ! lcp k s \<noteq> s ! lcp k s"
proof -
  note c = common_count_less [where same = "\<lambda>i. k ! i = s ! i" and n = "min (length k) (length s)", folded lcp_def]
  show "lcp k s \<le> length k" "lcp k s \<le> length s" using c(1) by simp_all
  then show "take (lcp k s) k = take (lcp k s) s" using c(2) by (intro nth_equalityI) auto
  show "lcp k s < length k \<Longrightarrow> lcp k s < length s \<Longrightarrow> k ! lcp k s \<noteq> s ! lcp k s" using c(3) by simp
qed

lemma lcp_full: "lcp k s = length s \<longleftrightarrow> take (length s) k = s"
proof
  assume "lcp k s = length s"
  then show "take (length s) k = s" using lcp_facts(3) [of k s] by simp
next
  assume t: "take (length s) k = s"
  have l: "length s \<le> length k" using arg_cong [OF t, of length] by simp
  show "lcp k s = length s"
  proof (rule ccontr)
    assume "lcp k s \<noteq> length s"
    then have c: "lcp k s < length s" "lcp k s < length k" using lcp_facts(1,2) [of k s] l by linarith+
    have "k ! lcp k s = take (length s) k ! lcp k s" using c(1) by simp
    with t lcp_facts(4) [OF c(2,1)] show False by simp
  qed
qed

lemma lcp_split:
  assumes "lcp k s < length k" "lcp k s < length s"
  shows "k = take (lcp k s) s @ k ! lcp k s # drop (lcp k s + 1) k" "s = take (lcp k s) s @ s ! lcp k s # drop (lcp k s + 1) s"
    "k ! lcp k s \<noteq> s ! lcp k s" "length (take (lcp k s) s) = lcp k s"
  using id_take_nth_drop [OF assms(1)] id_take_nth_drop [OF assms(2)] lcp_facts [of k s] assms by simp_all

lemma pt_fork_wf:
  assumes "nibbles_ok p" "length p + 1 + m = n" "pt_wf m s" "pt_wf m t" "i < 16" "j < 16" "i \<noteq> j"
  shows "pt_wf n (pt_fork p i s j t)"
proof -
  let ?ts = "(replicate 16 None)[unat i := Some s, unat j := Some t]"
  have "set ?ts \<subseteq> {None, Some s, Some t}"
    using set_update_subset_insert [of "(replicate 16 None)[unat i := Some s]" "unat j" "Some t"]
      set_update_subset_insert [of "replicate 16 None" "unat i" "Some s"] by auto
  then have "\<forall>c \<in> set ?ts. case c of None \<Rightarrow> True | Some t \<Rightarrow> pt_wf m t" using assms(3,4) by force
  moreover have "forked ?ts"
  proof -
    have u: "unat i < 16" "unat j < 16" "unat i \<noteq> unat j" using assms(5-7) by (auto simp: word_less_nat_alt word_unat_eq_iff)
    then have "?ts ! unat i \<noteq> None" "?ts ! unat j \<noteq> None" by (simp_all add: nth_list_update)
    moreover have "unat i < unat j \<or> unat j < unat i" using u(3) by linarith
    moreover have "length ?ts = 16" by simp
    ultimately show ?thesis using u(1,2) unfolding forked_def by metis
  qed
  ultimately have "pt_wf (m + 1) (PBranch ?ts)" unfolding pt_wf.simps add_diff_cancel_right' by simp
  moreover have "n - length p = m + 1" "length p < n" using assms(2) by simp_all
  ultimately show ?thesis using assms(1) by (cases p) (simp_all add: pt_fork_def Let_def)
qed

lemma pt_get_fork:
  assumes "i \<noteq> j" "i < 16" "j < 16" "d < 16"
  shows "pt_get (pt_fork p i s j t) (p @ d # k) = (if d = j then pt_get t k else if d = i then pt_get s k else None)"
proof -
  have u: "unat a < 16 \<longleftrightarrow> a < 16" for a :: u8 by (simp add: word_less_nat_alt)
  have n: "unat a = unat b \<longleftrightarrow> a = b" for a b :: u8 by (simp add: word_unat_eq_iff)
  show ?thesis using assms by (auto simp: pt_fork_def Let_def nth_list_update u n)
qed

lemma pt_get_fork_other:
  assumes "take (length p) k \<noteq> p"
  shows "pt_get (pt_fork p i s j t) k = None"
  using assms by (cases p) (auto simp: pt_fork_def Let_def)

lemma nibbles_ok_append [simp]: "nibbles_ok (a @ b) \<longleftrightarrow> nibbles_ok a \<and> nibbles_ok b"
  and nibbles_ok_Cons [simp]: "nibbles_ok (d # k) \<longleftrightarrow> d < 16 \<and> nibbles_ok k"
  and nibbles_ok_Nil [simp]: "nibbles_ok []"
  by (auto simp: nibbles_ok_def)

lemma nibbles_ok_drop: "nibbles_ok k \<Longrightarrow> nibbles_ok (drop n k)"
  by (auto simp: nibbles_ok_def dest: in_set_dropD)

lemma forked_update:
  assumes "forked ts"
  shows "forked (ts[i := Some t])"
proof -
  obtain a b where ab: "a < length ts" "b < a" "ts ! a \<noteq> None" "ts ! b \<noteq> None" using assms by (auto simp: forked_def)
  have k: "ts ! j \<noteq> None \<Longrightarrow> j < length ts \<Longrightarrow> ts[i := Some t] ! j \<noteq> None" for j by (cases "j = i") simp_all
  have "b < length ts" using ab(1,2) by simp
  then show ?thesis unfolding forked_def using ab(1,2) k [OF ab(3,1)] k [OF ab(4)]
    by (intro exI [of _ a] exI [of _ b] conjI) simp_all
qed

lemma pt_insert_branch: "is_branch t \<Longrightarrow> is_branch (pt_insert k v t)"
  by (cases t; cases k) simp_all

lemma pt_insert_wf:
  "pt_wf n t \<Longrightarrow> length k = n \<Longrightarrow> nibbles_ok k \<Longrightarrow> pt_wf n (pt_insert k v t)"
proof (induction k v t arbitrary: n rule: pt_insert.induct)
  case (1 k v s w)
  show ?case
  proof (cases "k = s")
    case False
    let ?c = "lcp k s"
    have l: "length k = length s" using 1 by simp
    then have c: "?c < length k" "?c < length s"
      using False lcp_full [of k s] lcp_facts(1,2) [of k s] by (simp_all add: le_neq_implies_less)
    note d = lcp_split [OF c]
    have "nibbles_ok (take ?c s @ k ! ?c # drop (?c + 1) k)" using 1(3) by (subst (asm) d(1))
    moreover have "nibbles_ok (take ?c s @ s ! ?c # drop (?c + 1) s)" using 1(1) by (subst d(2) [symmetric]) simp
    ultimately have "pt_wf n (pt_fork (take ?c s) (s ! ?c) (PLeaf (drop (?c + 1) s) w) (k ! ?c) (PLeaf (drop (?c + 1) k) v))"
      using 1 d(3,4) c l by (intro pt_fork_wf [where m = "n - ?c - 1"]) auto
    then show ?thesis using False by (simp add: Let_def)
  qed (use 1 in simp)
next
  case (2 k v p t)
  let ?c = "lcp k p"
  show ?case
  proof (cases "?c = length p")
    case True
    then show ?thesis using 2 by (simp add: Let_def pt_insert_branch nibbles_ok_drop)
  next
    case False
    have "?c < length p" "?c < length k" using False 2 lcp_facts(1,2) [of k p] by simp_all
    note d = lcp_split [OF this(2,1)]
    have "nibbles_ok (take ?c p @ k ! ?c # drop (?c + 1) k)" using 2 by (subst (asm) d(1)) simp
    moreover have "nibbles_ok (take ?c p @ p ! ?c # drop (?c + 1) p)" using 2 by (subst d(2) [symmetric]) simp
    moreover have "pt_wf (n - ?c - 1) (if drop (?c + 1) p = [] then t else PExt (drop (?c + 1) p) t)"
    proof (cases "length p = ?c + 1")
      case False
      then have "?c + 1 < length p" using \<open>?c < length p\<close> by simp
      then have "length p - (?c + 1) < n - (?c + 1)" "n - (?c + 1) - (length p - (?c + 1)) = n - length p" using 2 by auto
      then show ?thesis using 2 \<open>?c + 1 < length p\<close> by (simp add: nibbles_ok_drop)
    qed (use 2 in simp)
    moreover have "pt_wf (n - ?c - 1) (PLeaf (drop (?c + 1) k) v)" using 2 by (simp add: nibbles_ok_drop)
    ultimately have "pt_wf n (pt_fork (take ?c p) (p ! ?c) (if drop (?c + 1) p = [] then t else PExt (drop (?c + 1) p) t)
        (k ! ?c) (PLeaf (drop (?c + 1) k) v))"
      using d(3,4) \<open>?c < length k\<close> 2 by (intro pt_fork_wf) auto
    then show ?thesis using False by (simp add: Let_def)
  qed
next
  case (3 v ts)
  then show ?case by simp
next
  case (4 d k v ts)
  have d: "unat d < 16" using 4 by (simp add: word_less_nat_alt)
  let ?t = "case ts ! unat d of None \<Rightarrow> PLeaf k v | Some t \<Rightarrow> pt_insert k v t"
  have "ts ! unat d \<in> set ts" using 4 d by simp
  then have "pt_wf (n - 1) ?t" using 4 by (auto split: option.splits)
  moreover have "forked (ts[unat d := Some ?t])" using 4 by (intro forked_update) simp
  ultimately show ?case using 4 set_update_subset_insert [of ts "unat d" "Some ?t"] by (auto split: option.splits)
qed

lemma pt_get_ext_split:
  assumes "c < length p"
  shows "pt_get (PExt p t) (take c p @ e # r) =
    (if e = p ! c then pt_get (if drop (c + 1) p = [] then t else PExt (drop (c + 1) p) t) r else None)"
proof -
  have p: "p = take c p @ p ! c # drop (c + 1) p" using id_take_nth_drop [OF assms] by simp
  have "take (length p) (take c p @ e # r) = take c p @ e # take (length p - (c + 1)) r"
    using assms by (simp add: take_Cons')
  then have "take (length p) (take c p @ e # r) = p \<longleftrightarrow> e = p ! c \<and> take (length p - (c + 1)) r = drop (c + 1) p"
    using p by (metis append_same_eq list.inject same_append_eq)
  moreover have "drop (length p) (take c p @ e # r) = drop (length p - (c + 1)) r" using assms by (simp add: drop_Cons')
  ultimately show ?thesis using assms by auto
qed

text \<open>What the tree holds under a key after an insertion.\<close>

lemma pt_get_insert:
  "pt_wf n t \<Longrightarrow> length k = n \<Longrightarrow> nibbles_ok k \<Longrightarrow> length k' = n \<Longrightarrow> nibbles_ok k'
   \<Longrightarrow> pt_get (pt_insert k v t) k' = (if k' = k then Some v else pt_get t k')"
proof (induction k v t arbitrary: n k' rule: pt_insert.induct)
  case (1 k v s w)
  show ?case
  proof (cases "k = s")
    case False
    let ?c = "lcp k s" and ?p = "take (lcp k s) s"
    have l: "length k = length s" using 1 by simp
    then have c: "?c < length k" "?c < length s"
      using False lcp_full [of k s] lcp_facts(1,2) [of k s] by (simp_all add: le_neq_implies_less)
    note d = lcp_split [OF c]
    have i: "pt_insert k v (PLeaf s w) = pt_fork ?p (s ! ?c) (PLeaf (drop (?c + 1) s) w) (k ! ?c) (PLeaf (drop (?c + 1) k) v)"
      using False by (simp add: Let_def)
    show ?thesis
    proof (cases "take (length ?p) k' = ?p")
      case True
      then obtain e r where k': "k' = ?p @ e # r" using d(4) c 1 id_take_nth_drop [of ?c k'] by auto
      have "nibbles_ok (?p @ k ! ?c # drop (?c + 1) k)" "nibbles_ok (?p @ s ! ?c # drop (?c + 1) s)"
        using 1 d(1,2) by simp_all
      moreover have "k' = k \<longleftrightarrow> e = k ! ?c \<and> r = drop (?c + 1) k" unfolding k' by (subst (2) d(1)) simp
      moreover have "k' = s \<longleftrightarrow> e = s ! ?c \<and> r = drop (?c + 1) s" unfolding k' by (subst (3) d(2)) simp
      moreover have "e < 16" using 1 k' by simp
      ultimately show ?thesis
        unfolding i using d(3) by (subst k') (simp add: pt_get_fork)
    next
      case other: False
      have "k' \<noteq> k" "k' \<noteq> s" using other d(4) lcp_facts(3) [of k s] by auto
      then show ?thesis unfolding i using pt_get_fork_other [OF other] by simp
    qed
  qed simp
next
  case (2 k v p t)
  let ?c = "lcp k p"
  show ?case
  proof (cases "?c = length p")
    case True
    have k: "take (length p) k = p" using True lcp_full by blast
    have "take (length p) k' = p \<Longrightarrow> drop (length p) k' = drop (length p) k \<longleftrightarrow> k' = k"
      using k append_take_drop_id by metis
    moreover have "take (length p) k' \<noteq> p \<Longrightarrow> k' \<noteq> k" using k by blast
    moreover have "pt_get (pt_insert (drop (length p) k) v t) (drop (length p) k') =
        (if drop (length p) k' = drop (length p) k then Some v else pt_get t (drop (length p) k'))"
      using 2(2-) by (intro "2.IH" [OF refl True, where n = "n - length p"]) (simp_all add: nibbles_ok_drop)
    ultimately show ?thesis using True k by (cases "take (length p) k' = p"; cases "k' = k") (simp_all add: Let_def)
  next
    case False
    have c: "?c < length k" "?c < length p" using False 2 lcp_facts(1,2) [of k p] by simp_all
    note d = lcp_split [OF c]
    let ?p = "take ?c p" and ?t = "if drop (?c + 1) p = [] then t else PExt (drop (?c + 1) p) t"
    have i: "pt_insert k v (PExt p t) = pt_fork ?p (p ! ?c) ?t (k ! ?c) (PLeaf (drop (?c + 1) k) v)"
      using False by (simp add: Let_def)
    show ?thesis
    proof (cases "take (length ?p) k' = ?p")
      case True
      then obtain e r where k': "k' = ?p @ e # r" using d(4) c 2 id_take_nth_drop [of ?c k'] by auto
      have "nibbles_ok (?p @ k ! ?c # drop (?c + 1) k)" "nibbles_ok (?p @ p ! ?c # drop (?c + 1) p)"
        using 2 d(1,2) by simp_all
      moreover have "k' = k \<longleftrightarrow> e = k ! ?c \<and> r = drop (?c + 1) k" unfolding k' by (subst (2) d(1)) simp
      moreover have "pt_get (PExt p t) k' = (if e = p ! ?c then pt_get ?t r else None)"
        unfolding k' by (rule pt_get_ext_split [OF c(2)])
      moreover have "e < 16" using 2 k' by simp
      ultimately show ?thesis
        unfolding i using d(3) by (subst (1) k') (simp add: pt_get_fork)
    next
      case other: False
      have "take (length p) k' \<noteq> p" using other d(4) by (metis take_take min.absorb1 c(2) less_imp_le)
      moreover have "k' \<noteq> k" using other d(4) lcp_facts(3) [of k p] by auto
      ultimately show ?thesis unfolding i using pt_get_fork_other [OF other] by simp
    qed
  qed
next
  case (3 v ts)
  then show ?case by simp
next
  case (4 d k v ts)
  obtain e r where k': "k' = e # r" using 4 by (cases k') auto
  have d: "unat d < 16" "unat e < 16" using 4 k' by (simp_all add: word_less_nat_alt)
  show ?case
  proof (cases "ts ! unat d")
    case None
    then show ?thesis using 4 d k' by (cases "e = d") (simp_all add: nth_list_update word_unat_eq_iff)
  next
    case (Some t)
    then have "Some t \<in> set ts" using 4 d nth_mem [of "unat d" ts] by simp
    then have "pt_wf (length k) t" using 4 by auto
    then show ?thesis using 4 d k' Some by (cases "e = d") (simp_all add: nth_list_update word_unat_eq_iff)
  qed
qed


subsection \<open>The contents determine the tree\<close>

abbreviation key_of :: "nat \<Rightarrow> u8 list \<Rightarrow> bool" where
  "key_of n k \<equiv> length k = n \<and> nibbles_ok k"

lemma word_nibble: "i < 16 \<Longrightarrow> (word_of_nat i :: u8) < 16 \<and> unat (word_of_nat i :: u8) = i"
  by (simp add: word_less_nat_alt unat_of_nat)

lemma pt_inhabited: "pt_wf n t \<Longrightarrow> \<exists>k. key_of n k \<and> pt_get t k \<noteq> None"
proof (induction t arbitrary: n)
  case (PLeaf s v)
  then show ?case by auto
next
  case (PExt p t)
  then have "pt_wf (n - length p) t" by simp
  then obtain k where "key_of (n - length p) k" "pt_get t k \<noteq> None" using PExt.IH by blast
  then have "key_of n (p @ k) \<and> pt_get (PExt p t) (p @ k) \<noteq> None" using PExt.prems by auto
  then show ?case by blast
next
  case (PBranch ts)
  then obtain i t where i: "i < 16" "ts ! i = Some t" by (auto simp: forked_def)
  then have "Some t \<in> set ts" using PBranch.prems nth_mem [of i ts] by simp
  then obtain k where "key_of (n - 1) k" "pt_get t k \<noteq> None" using PBranch by fastforce
  then have "key_of n (word_of_nat i # k) \<and> pt_get (PBranch ts) (word_of_nat i # k) \<noteq> None"
    using i word_nibble [OF i(1)] PBranch.prems by auto
  then show ?case by blast
qed

lemma branch_child:
  assumes "pt_wf n (PBranch ts)" "i < 16"
  shows "ts ! i = Some t \<Longrightarrow> pt_wf (n - 1) t"
    and "pt_get (PBranch ts) (word_of_nat i # k) = (case ts ! i of None \<Rightarrow> None | Some t \<Rightarrow> pt_get t k)"
proof -
  show "ts ! i = Some t \<Longrightarrow> pt_wf (n - 1) t" using assms nth_mem [of i ts] by fastforce
qed (use word_nibble [OF assms(2)] in simp)

text \<open>A branch holds two keys that differ in the first nibble.\<close>

lemma branch_two_keys:
  assumes "pt_wf n (PBranch ts)"
  obtains a b j k where "a \<noteq> b" "key_of n (a # j)" "key_of n (b # k)" "pt_get (PBranch ts) (a # j) \<noteq> None" "pt_get (PBranch ts) (b # k) \<noteq> None"
proof -
  obtain i1 i2 s t where i: "i1 < 16" "i2 < i1" "ts ! i1 = Some s" "ts ! i2 = Some t"
    using assms by (auto simp: forked_def)
  obtain j where j: "key_of (n - 1) j" "pt_get s j \<noteq> None" using pt_inhabited branch_child(1) [OF assms i(1,3)] by blast
  obtain k where k: "key_of (n - 1) k" "pt_get t k \<noteq> None"
    using pt_inhabited branch_child(1) [OF assms _ i(4)] i(1,2) by fastforce
  have n: "(word_of_nat i1 :: u8) < 16" "unat (word_of_nat i1 :: u8) = i1"
    "(word_of_nat i2 :: u8) < 16" "unat (word_of_nat i2 :: u8) = i2" using word_nibble i(1,2) by simp_all
  then have "(word_of_nat i1 :: u8) \<noteq> word_of_nat i2" using i(2) by force
  moreover have "0 < n" using assms by simp
  ultimately show ?thesis using that [of "word_of_nat i1" "word_of_nat i2" j k] i j k n by auto
qed

lemma ext_keys: "pt_get (PExt p t) k \<noteq> None \<Longrightarrow> take (length p) k = p"
  by (auto split: if_splits)

text \<open>Trees of different shape do not hold the same keys.\<close>

lemma ext_not_shared_prefix:
  assumes "pt_wf n (PExt p t)" "length p < length q" "length q \<le> n"
  obtains k where "key_of n k" "pt_get (PExt p t) k \<noteq> None" "take (length q) k \<noteq> q"
proof -
  obtain ts where t: "t = PBranch ts" "pt_wf (n - length p) (PBranch ts)" using assms(1) by (cases t) auto
  obtain a b j k where k: "a \<noteq> b" "key_of (n - length p) (a # j)" "key_of (n - length p) (b # k)" "pt_get t (a # j) \<noteq> None" "pt_get t (b # k) \<noteq> None"
    by (rule branch_two_keys [OF t(2), folded t(1)])
  have "pt_get (PExt p t) (p @ a # j) \<noteq> None" "pt_get (PExt p t) (p @ b # k) \<noteq> None" using k by simp_all
  moreover have "key_of n (p @ a # j)" "key_of n (p @ b # k)" using assms(1) k by auto
  moreover have "\<not> (take (length q) (p @ a # j) = q \<and> take (length q) (p @ b # k) = q)"
  proof
    assume "take (length q) (p @ a # j) = q \<and> take (length q) (p @ b # k) = q"
    then have "take (length q) (p @ a # j) ! length p = take (length q) (p @ b # k) ! length p" by simp
    then show False using assms(2) k(1) by (simp add: nth_append nth_take del: take_append)
  qed
  ultimately show ?thesis using that by blast
qed

definition same_get :: "nat \<Rightarrow> ptree \<Rightarrow> ptree \<Rightarrow> bool" where
  "same_get n t u \<longleftrightarrow> (\<forall>k. key_of n k \<longrightarrow> pt_get t k = pt_get u k)"

lemma same_get_sym: "same_get n t u \<Longrightarrow> same_get n u t"
  by (simp add: same_get_def)

lemma leaf_not_branching:
  assumes "pt_wf n t" "\<forall>s v. t \<noteq> PLeaf s v"
  shows "\<not> same_get n (PLeaf s v) t"
proof -
  have "\<exists>j k. j \<noteq> k \<and> key_of n j \<and> key_of n k \<and> pt_get t j \<noteq> None \<and> pt_get t k \<noteq> None"
  proof (cases t)
    case (PExt p u)
    then have "pt_wf n (PExt p u)" "is_branch u" using assms by simp_all
    then obtain ts where u: "u = PBranch ts" "pt_wf (n - length p) (PBranch ts)" by (cases u) auto
    obtain a b j k where k: "a \<noteq> b" "key_of (n - length p) (a # j)" "key_of (n - length p) (b # k)"
        "pt_get u (a # j) \<noteq> None" "pt_get u (b # k) \<noteq> None" by (rule branch_two_keys [OF u(2), folded u(1)])
    have p: "length p < n" "nibbles_ok p" using \<open>pt_wf n (PExt p u)\<close> by simp_all
    have "p @ a # j \<noteq> p @ b # k" using k(1) by simp
    moreover have "key_of n (p @ a # j)" "key_of n (p @ b # k)" using k(2,3) p by simp_all
    moreover have "pt_get t (p @ a # j) \<noteq> None" "pt_get t (p @ b # k) \<noteq> None" unfolding PExt using k(4,5) by simp_all
    ultimately show ?thesis by (intro exI [of _ "p @ a # j"] exI [of _ "p @ b # k"] conjI) simp_all
  next
    case (PBranch ts)
    then have "pt_wf n (PBranch ts)" using assms(1) by simp
    then obtain a b j k where k: "a \<noteq> b" "key_of n (a # j)" "key_of n (b # k)" "pt_get (PBranch ts) (a # j) \<noteq> None" "pt_get (PBranch ts) (b # k) \<noteq> None"
      by (rule branch_two_keys)
    then show ?thesis unfolding PBranch using k by (intro exI [of _ "a # j"] exI [of _ "b # k"] conjI) simp_all
  qed (use assms(2) in simp)
  then obtain j k where jk: "j \<noteq> k" "key_of n j" "key_of n k" "pt_get t j \<noteq> None" "pt_get t k \<noteq> None" by blast
  show ?thesis
  proof
    assume "same_get n (PLeaf s v) t"
    then have "pt_get (PLeaf s v) j = pt_get t j" "pt_get (PLeaf s v) k = pt_get t k" using jk(2,3) by (simp_all add: same_get_def)
    then show False using jk(1,4,5) by (simp split: if_splits)
  qed
qed

lemma ext_not_branch:
  assumes "pt_wf n (PExt p t)" "pt_wf n (PBranch ts)"
  shows "\<not> same_get n (PExt p t) (PBranch ts)"
proof
  assume s: "same_get n (PExt p t) (PBranch ts)"
  obtain a b j k where k: "a \<noteq> b" "key_of n (a # j)" "key_of n (b # k)" "pt_get (PBranch ts) (a # j) \<noteq> None" "pt_get (PBranch ts) (b # k) \<noteq> None"
    using branch_two_keys [OF assms(2)] by blast
  then have "take (length p) (a # j) = p" "take (length p) (b # k) = p"
    using s ext_keys [of p t] unfolding same_get_def by metis+
  then show False using k(1) assms(1) by (cases p) auto
qed

lemma ext_same_prefix:
  assumes "pt_wf n (PExt p t)" "pt_wf n (PExt q u)" "same_get n (PExt p t) (PExt q u)"
  shows "p = q"
proof -
  have le: "\<not> length p < length q" if wf: "pt_wf n (PExt p t)" "pt_wf n (PExt q u)" "same_get n (PExt p t) (PExt q u)" for p t q u
  proof
    assume less: "length p < length q"
    have "length q \<le> n" using wf(2) by simp
    then obtain k where k: "key_of n k" "pt_get (PExt p t) k \<noteq> None" "take (length q) k \<noteq> q"
      by (rule ext_not_shared_prefix [OF wf(1) less])
    have "pt_get (PExt p t) k = pt_get (PExt q u) k" using wf(3) k(1) unfolding same_get_def by blast
    then show False using k(2,3) ext_keys [of q u k] by metis
  qed
  have l: "length p = length q" using le [OF assms] le [OF assms(2,1) same_get_sym [OF assms(3)]] by simp
  obtain k where k: "key_of n k" "pt_get (PExt p t) k \<noteq> None" using pt_inhabited [OF assms(1)] by blast
  have "pt_get (PExt p t) k = pt_get (PExt q u) k" using assms(3) k(1) unfolding same_get_def by blast
  then show ?thesis using k(2) ext_keys [of p t k] ext_keys [of q u k] l by metis
qed

text \<open>Two canonical trees that hold the same are the same.\<close>

lemma pt_canonical:
  "pt_wf n t \<Longrightarrow> pt_wf n u \<Longrightarrow> same_get n t u \<Longrightarrow> t = u"
proof (induction t arbitrary: n u)
  case (PLeaf s v)
  then obtain r w where u: "u = PLeaf r w" using leaf_not_branching by blast
  then have "pt_get (PLeaf s v) s = pt_get u s" using PLeaf(1,3) unfolding same_get_def by fastforce
  then show ?case using u by (simp split: if_splits)
next
  case (PExt p t)
  obtain q w where u: "u = PExt q w"
    using PExt.prems leaf_not_branching [OF PExt.prems(1)] ext_not_branch [OF PExt.prems(1)] same_get_sym [OF PExt.prems(3)]
    by (cases u) auto
  then have q: "q = p" using ext_same_prefix PExt.prems by blast
  have "same_get (n - length p) t w"
    unfolding same_get_def
  proof (intro allI impI)
    fix k assume "key_of (n - length p) k"
    then have "key_of n (p @ k)" using PExt.prems(1) by auto
    then have "pt_get (PExt p t) (p @ k) = pt_get u (p @ k)" using PExt.prems(3) unfolding same_get_def by blast
    then show "pt_get t k = pt_get w k" using u q by simp
  qed
  then have "t = w" using PExt.IH [of "n - length p" w] PExt.prems(1,2) u q by simp
  then show ?case using u q by simp
next
  case (PBranch ts)
  obtain us where u: "u = PBranch us"
    using PBranch.prems leaf_not_branching [OF PBranch.prems(1)] ext_not_branch [OF _ PBranch.prems(1)] same_get_sym [OF PBranch.prems(3)]
    by (cases u) auto
  have l: "length ts = 16" "length us = 16" "0 < n" using PBranch.prems u by simp_all
  have g: "(case ts ! i of None \<Rightarrow> None | Some t \<Rightarrow> pt_get t k) = (case us ! i of None \<Rightarrow> None | Some t \<Rightarrow> pt_get t k)"
    if "i < 16" "key_of (n - 1) k" for i k
  proof -
    have "key_of n (word_of_nat i # k)" using that word_nibble [OF that(1)] l(3) by simp
    then have "pt_get (PBranch ts) (word_of_nat i # k) = pt_get u (word_of_nat i # k)"
      using PBranch.prems(3) unfolding same_get_def by blast
    then show ?thesis using u branch_child(2) [OF _ that(1)] PBranch.prems(1,2) by metis
  qed
  have "ts ! i = us ! i" if i: "i < 16" for i
  proof (cases "ts ! i")
    case None
    show ?thesis
    proof (cases "us ! i")
      case (Some w)
      then obtain k where "key_of (n - 1) k" "pt_get w k \<noteq> None"
        using pt_inhabited branch_child(1) [OF _ i, of n us w] PBranch.prems(2) u by blast
      then show ?thesis using g [OF i, of k] None Some by simp
    qed (use None in simp)
  next
    case (Some t)
    then have t: "pt_wf (n - 1) t" using branch_child(1) [OF PBranch.prems(1) i] by blast
    then obtain k where k: "key_of (n - 1) k" "pt_get t k \<noteq> None" using pt_inhabited by blast
    then obtain w where w: "us ! i = Some w" using g [OF i k(1)] Some by (cases "us ! i") auto
    then have "pt_wf (n - 1) w" using branch_child(1) [OF _ i, of n us w] PBranch.prems(2) u by blast
    moreover have "same_get (n - 1) t w" using g [OF i] Some w by (simp add: same_get_def)
    moreover have "Some t \<in> set ts" using Some i l(1) nth_mem [of i ts] by simp
    ultimately show ?thesis using PBranch.IH [of "Some t" t] t Some w by simp
  qed
  then have "ts = us" using l by (intro nth_equalityI) simp_all
  then show ?case using u by simp
qed

end
