(* ===== verification/TrieRefine.thy ===== *)
theory TrieRefine
  imports Trie PrefixTree
begin

section \<open>The trie refines a prefix tree\<close>

text \<open>
  The nodes of a prefix tree, stored under their hashes, are what the operations of \<open>Trie\<close> read and
  write.  The set \<open>S\<close> holds the nodes in play; no two of them hash alike.  Lookup returns what the
  tree holds, and insertion terminates, keeps the store sound and leaves the nodes of the tree with
  the key inserted.
\<close>

subsection \<open>The nodes of a tree\<close>

fun pt_node :: "'e rlp_externals_scheme \<Rightarrow> ptree \<Rightarrow> TrieNode" where
  "pt_node x (PLeaf s v) = Leaf \<lparr>ln_key_suffix = s, ln_value = v\<rparr>"
| "pt_node x (PExt p t) = Extension \<lparr>en_prefix = p, en_child = node_hash x (pt_node x t)\<rparr>"
| "pt_node x (PBranch ts) = Branch \<lparr>bn_children = map (map_option (\<lambda>t. node_hash x (pt_node x t))) ts, bn_value = None\<rparr>"

fun pt_nodes :: "'e rlp_externals_scheme \<Rightarrow> ptree \<Rightarrow> TrieNode set" where
  "pt_nodes x (PLeaf s v) = {pt_node x (PLeaf s v)}"
| "pt_nodes x (PExt p t) = insert (pt_node x (PExt p t)) (pt_nodes x t)"
| "pt_nodes x (PBranch ts) =
     insert (pt_node x (PBranch ts)) (\<Union>c \<in> set ts. case c of None \<Rightarrow> {} | Some t \<Rightarrow> pt_nodes x t)"

abbreviation pt_hash :: "'e rlp_externals_scheme \<Rightarrow> ptree \<Rightarrow> hash" where
  "pt_hash x t \<equiv> node_hash x (pt_node x t)"

lemma pt_node_in_nodes: "pt_node x t \<in> pt_nodes x t"
  by (cases t) simp_all

lemma child_nodes: "ts ! i = Some t \<Longrightarrow> i < length ts \<Longrightarrow> pt_nodes x t \<subseteq> pt_nodes x (PBranch ts)"
  using nth_mem [of i ts] by fastforce

lemma pt_node_ok: "pt_wf n t \<Longrightarrow> node_ok (pt_node x t)"
  by (cases t) simp_all

subsection \<open>Keys as lists of nibbles\<close>

definition key_nibbles :: "NibbleSlice \<Rightarrow> u8 list" where
  "key_nibbles key = map (ns_at key) [0..<length (ns_data key) * 2]"

lemma key_nibbles_length [simp]: "length (key_nibbles key) = length (ns_data key) * 2"
  by (simp add: key_nibbles_def)

lemma ns_at_nibble: "ns_at key i < 16"
proof -
  have "drop_bit 4 b < 16" and "and b 0x0F < 16" for b :: u8
  proof -
    have "unat b < 256" using unsigned_less [of b] by simp
    then have "unat (drop_bit 4 b) < 16" by (simp add: drop_bit_eq_div unat_div)
    then show "drop_bit 4 b < 16" by (simp add: word_less_nat_alt)
    have "and b 0x0F \<le> 0x0F" by (rule word_and_le1)
    then show "and b 0x0F < 16" by (simp add: word_le_nat_alt word_less_nat_alt)
  qed
  then show ?thesis by (simp add: ns_at_def Let_def)
qed

lemma key_nibbles_ok: "nibbles_ok (key_nibbles key)"
  using ns_at_nibble by (auto simp: key_nibbles_def nibbles_ok_def)

text \<open>A key read from the front; the slice starts behind \<open>depth\<close> nibbles.\<close>

lemma slice_facts:
  assumes "ns_offset key = 0" "depth \<le> length (key_nibbles key)"
  shows "ns_len (ns_slice_from key depth) = Some (length (drop depth (key_nibbles key)))"
    "i < length (key_nibbles key) \<Longrightarrow> ns_at key i = key_nibbles key ! i"
    "ns_to_nibbles (ns_slice_from key depth) = Some (drop depth (key_nibbles key))"
    "ns_equals_nibbles (ns_slice_from key depth) s = Some (drop depth (key_nibbles key) = s)"
    "ns_common_prefix_nibbles (ns_slice_from key depth) s = Some (lcp (drop depth (key_nibbles key)) s)"
    "ns_len key = Some (length (key_nibbles key))"
proof -
  let ?k = "drop depth (key_nibbles key)"
  show l: "ns_len (ns_slice_from key depth) = Some (length ?k)" "ns_len key = Some (length (key_nibbles key))"
    using assms by (simp_all add: ns_len_def ns_slice_from_def ns_from_offset_def)
  show at: "i < length (key_nibbles key) \<Longrightarrow> ns_at key i = key_nibbles key ! i" for i
    by (simp add: key_nibbles_def)
  have s: "ns_at (ns_slice_from key depth) i = ?k ! i" if "i < length ?k" for i
  proof -
    have "ns_at (ns_slice_from key depth) i = ns_at key (depth + i)"
      using assms(1) by (simp add: ns_at_def ns_slice_from_def ns_from_offset_def Let_def)
    then show ?thesis using at [of "depth + i"] that assms(2) by simp
  qed
  then have m: "map (ns_at (ns_slice_from key depth)) [0..<length ?k] = ?k"
    by (intro nth_equalityI) simp_all
  then show "ns_to_nibbles (ns_slice_from key depth) = Some ?k" by (simp add: ns_to_nibbles_def l del: length_drop)
  have "length ?k = length s \<and> (\<forall>i \<in> set [0..<length s]. ns_at (ns_slice_from key depth) i = s ! i) \<longleftrightarrow> ?k = s"
    using s unfolding list_eq_iff_nth_eq [of ?k s] by (metis atLeastLessThan_iff set_upt zero_le)
  then show "ns_equals_nibbles (ns_slice_from key depth) s = Some (?k = s)" unfolding ns_equals_nibbles_def l by simp
  have "takeWhile (\<lambda>i. ns_at (ns_slice_from key depth) i = s ! i) [0..<min (length ?k) (length s)]
      = takeWhile (\<lambda>i. ?k ! i = s ! i) [0..<min (length ?k) (length s)]"
    using s by (intro takeWhile_cong) auto
  then show "ns_common_prefix_nibbles (ns_slice_from key depth) s = Some (lcp ?k s)"
    by (simp add: ns_common_prefix_nibbles_def l lcp_def common_count_def del: length_drop)
qed


subsection \<open>Sound stores\<close>

text \<open>Every stored node is one of \<open>S\<close> under its hash, and what is cached is stored.\<close>

definition sound_trie :: "'e rlp_externals_scheme \<Rightarrow> TrieNode set \<Rightarrow> ('d \<Rightarrow> hash \<rightharpoonup> u8 list) \<Rightarrow> 'd trie \<Rightarrow> bool" where
  "sound_trie x S dm t \<longleftrightarrow>
     (\<forall>h data. dm (tr_db t) h = Some data \<longrightarrow> (\<exists>n \<in> S. node_ok n \<and> h = node_hash x n \<and> data = encode_node x n)) \<and>
     (\<forall>h n. tr_cache t h = Some n \<longrightarrow> dm (tr_db t) h \<noteq> None \<and> n \<in> S \<and> h = node_hash x n) \<and>
     (\<forall>h n. (h, n) \<in> set (tr_dirty t) \<longrightarrow> n \<in> S \<and> node_ok n \<and> h = node_hash x n)"

definition stored_hashes :: "('d \<Rightarrow> hash \<rightharpoonup> u8 list) \<Rightarrow> 'd trie \<Rightarrow> hash set" where
  "stored_hashes dm t = dom (dm (tr_db t)) \<union> dom (map_of (tr_dirty t))"

definition holds_tree :: "'e rlp_externals_scheme \<Rightarrow> TrieNode set \<Rightarrow> ('d \<Rightarrow> hash \<rightharpoonup> u8 list) \<Rightarrow> 'd trie \<Rightarrow> ptree \<Rightarrow> bool" where
  "holds_tree x S dm t p \<longleftrightarrow> pt_nodes x p \<subseteq> S \<and> node_hash x ` pt_nodes x p \<subseteq> stored_hashes dm t"

lemma holds_ext: "holds_tree x S dm t (PExt p u) \<Longrightarrow> holds_tree x S dm t u"
  by (auto simp: holds_tree_def)

lemma holds_child: "holds_tree x S dm t (PBranch ts) \<Longrightarrow> ts ! i = Some u \<Longrightarrow> i < length ts \<Longrightarrow> holds_tree x S dm t u"
  unfolding holds_tree_def by (meson child_nodes image_mono order_trans)

lemma holds_root: "holds_tree x S dm t u \<Longrightarrow> pt_node x u \<in> S \<and> pt_hash x u \<in> stored_hashes dm t"
  using pt_node_in_nodes [of x u] by (auto simp: holds_tree_def)

lemma holds_mono: "holds_tree x S dm t u \<Longrightarrow> stored_hashes dm t \<subseteq> stored_hashes dm t' \<Longrightarrow> holds_tree x S dm t' u"
  by (auto simp: holds_tree_def)

text \<open>A step that only reads.\<close>

definition reads_only :: "('d \<Rightarrow> hash \<rightharpoonup> u8 list) \<Rightarrow> 'd trie \<Rightarrow> 'd trie \<Rightarrow> bool" where
  "reads_only dm t t' \<longleftrightarrow> stored_hashes dm t' = stored_hashes dm t \<and> tr_root t' = tr_root t \<and> tr_dirty t' = tr_dirty t"

lemma reads_only_refl [simp]: "reads_only dm t t"
  by (simp add: reads_only_def)

lemma reads_only_trans: "reads_only dm t t' \<Longrightarrow> reads_only dm t' t'' \<Longrightarrow> reads_only dm t t''"
  by (simp add: reads_only_def)

context trie_db
begin

abbreviation ok :: "'e rlp_externals_scheme \<Rightarrow> TrieNode set \<Rightarrow> 'd trie \<Rightarrow> bool" where
  "ok x S t \<equiv> db_ok (tr_db t) \<and> sound_trie x S db_map t"

lemma get_node_sound:
  assumes "rlp_laws x" "inj_on (node_hash x) S" "ok x S t" "n \<in> S" "node_hash x n \<in> stored_hashes db_map t"
  shows "\<exists>t'. get_node_by_hash x ops (node_hash x n) t = (Inr n, t') \<and> ok x S t' \<and> reads_only db_map t t'"
proof -
  note s = assms(3) [THEN conjunct2, unfolded sound_trie_def]
  have same: "m = n" if "m \<in> S" "node_hash x n = node_hash x m" for m using inj_onD [OF assms(2)] that assms(4) by metis
  let ?h = "node_hash x n"
  show ?thesis
  proof (cases "tr_cache t ?h")
    case (Some m)
    then have "m = n" using s same by metis
    then show ?thesis using Some assms(3) by (simp add: get_node_by_hash_def)
  next
    case cache: None
    show ?thesis
    proof (cases "map_of (tr_dirty t) ?h")
      case (Some m)
      then have "(?h, m) \<in> set (tr_dirty t)" by (rule map_of_SomeD)
      then have "m = n" using s same by metis
      then show ?thesis using Some cache assms(3) by (simp add: get_node_by_hash_def)
    next
      case None
      then obtain data where d: "db_map (tr_db t) ?h = Some data" using assms(5) by (auto simp: stored_hashes_def)
      then obtain m where m: "m \<in> S" "node_ok m" "?h = node_hash x m" "data = encode_node x m" using s by metis
      then have data: "decode_node x data = Inr n" "m = n" using decode_encode_node [OF assms(1)] same by metis+
      obtain r d' where g: "db_get_node ops ?h (tr_db t) = (r, d')" by fastforce
      have r: "r = Inr (Some data)" "db_ok d'" "db_map d' = db_map (tr_db t)" using get_node [OF _ g] assms(3) d by simp_all
      let ?t = "t\<lparr>tr_db := d', tr_cache := (tr_cache t)(?h \<mapsto> n)\<rparr>"
      have "get_node_by_hash x ops ?h t = (Inr n, ?t)" using cache None g r(1) data by (simp add: get_node_by_hash_def)
      moreover have "sound_trie x S db_map ?t" using s r(3) d assms(4) unfolding sound_trie_def by (simp add: r(3))
      ultimately show ?thesis using r by (simp add: reads_only_def stored_hashes_def)
    qed
  qed
qed

lemma set_update_subset: "set (AList.update k v al) \<subseteq> insert (k, v) (set al)"
  by (induction al) auto

text \<open>Saving keeps the store sound and adds the node.\<close>

lemma save_node_sound:
  assumes "ok x S t" "n \<in> S" "node_ok n" "save_node x n t = (h, t')"
  shows "h = node_hash x n" "ok x S t'" "stored_hashes db_map t' = insert (node_hash x n) (stored_hashes db_map t)" "tr_root t' = tr_root t"
  using assms set_update_subset [of "node_hash x n" n "tr_dirty t"]
  by (auto simp: save_node_def Let_def sound_trie_def stored_hashes_def update_conv' split: if_splits)

subsection \<open>Lookup\<close>

lemma get_recursive_sound:
  assumes "rlp_laws x" "inj_on (node_hash x) S" "ns_offset key = 0"
  shows "pt_wf n p \<Longrightarrow> depth + n = length (key_nibbles key) \<Longrightarrow> ok x S t \<Longrightarrow> holds_tree x S db_map t p \<Longrightarrow>
    \<exists>t'. get_recursive x ops (pt_node x p) key depth t = Some (Inr (pt_get p (drop depth (key_nibbles key))), t') \<and>
      ok x S t' \<and> reads_only db_map t t'"
proof (induction p arbitrary: n depth t)
  case (PLeaf s v)
  then show ?case using slice_facts(4) [OF assms(3), of depth s] by (subst get_recursive.simps) simp
next
  case (PExt p u)
  let ?k = "drop depth (key_nibbles key)"
  note f = slice_facts [OF assms(3), of depth]
  have d: "depth \<le> length (key_nibbles key)" using PExt by simp
  show ?case
  proof (cases "take (length p) ?k = p")
    case True
    obtain t' where t': "get_node_by_hash x ops (pt_hash x u) t = (Inr (pt_node x u), t')" "ok x S t'" "reads_only db_map t t'"
      using get_node_sound [OF assms(1,2) PExt.prems(3)] holds_root [OF holds_ext [OF PExt.prems(4)]] by blast
    have "holds_tree x S db_map t' u"
      using t'(3) by (intro holds_mono [OF holds_ext [OF PExt.prems(4)]]) (simp add: reads_only_def)
    moreover have "pt_wf (n - length p) u" "depth + length p + (n - length p) = length (key_nibbles key)" using PExt.prems(1,2) by auto
    ultimately obtain t'' where t'': "get_recursive x ops (pt_node x u) key (depth + length p) t' =
        Some (Inr (pt_get u (drop (depth + length p) (key_nibbles key))), t'')" "ok x S t''" "reads_only db_map t' t''"
      using PExt.IH [of "n - length p" "depth + length p" t'] t'(2) by blast
    have "lcp ?k p = length p" using True lcp_full by blast
    moreover have "pt_get (PExt p u) ?k = pt_get u (drop (depth + length p) (key_nibbles key))"
      unfolding pt_get.simps True by (simp add: add.commute)
    ultimately show ?thesis
      using t' t'' f(5) [OF d, of p] reads_only_trans [OF t'(3) t''(3)]
      by (simp add: get_recursive.simps [of x ops "Extension e" for e] del: pt_get.simps)
  next
    case False
    then have "lcp ?k p \<noteq> length p" "pt_get (PExt p u) ?k = None" unfolding lcp_full pt_get.simps by simp_all
    then show ?thesis using f(5) [OF d, of p] PExt.prems(3) by (subst get_recursive.simps) (simp del: pt_get.simps)
  qed
next
  case (PBranch ts)
  let ?K = "key_nibbles key"
  note f = slice_facts [OF assms(3), of depth]
  have d: "depth < length ?K" "length ts = 16" using PBranch.prems(1,2) by simp_all
  define i where "i = unat (?K ! depth)"
  have "?K ! depth \<in> set ?K" using d(1) nth_mem by blast
  then have i: "i < 16" using key_nibbles_ok [of key] by (auto simp: i_def nibbles_ok_def word_less_nat_alt)
  have k: "drop depth ?K = ?K ! depth # drop (depth + 1) ?K" using d(1) by (simp add: Cons_nth_drop_Suc)
  have at: "ns_at key depth = ?K ! depth" "ns_len key = Some (length ?K)" using f(2,6) d(1) by simp_all
  show ?case
  proof (cases "ts ! i")
    case None
    then show ?thesis using d i at PBranch.prems(3) unfolding k
      by (subst get_recursive.simps) (simp add: i_def del: key_nibbles_length)
  next
    case (Some u)
    note hu = holds_child [OF PBranch.prems(4) Some]
    obtain t' where t': "get_node_by_hash x ops (pt_hash x u) t = (Inr (pt_node x u), t')" "ok x S t'" "reads_only db_map t t'"
      using get_node_sound [OF assms(1,2) PBranch.prems(3)] holds_root [OF hu] i d(2) by auto
    have "holds_tree x S db_map t' u"
      using i d(2) t'(3) by (intro holds_mono [OF hu]) (simp_all add: reads_only_def)
    moreover have "Some u \<in> set ts" using Some i d(2) nth_mem [of i ts] by simp
    moreover from this have "pt_wf (n - 1) u" "depth + 1 + (n - 1) = length ?K" using PBranch.prems(1,2) by auto
    ultimately obtain t'' where t'': "get_recursive x ops (pt_node x u) key (depth + 1) t' =
        Some (Inr (pt_get u (drop (depth + 1) ?K)), t'')" "ok x S t''" "reads_only db_map t' t''"
      using PBranch.IH [of "Some u" u "n - 1" "depth + 1" t'] t'(2) by auto
    show ?thesis
      using Some d i at t' t'' reads_only_trans [OF t'(3) t''(3)] unfolding k
      by (subst get_recursive.simps) (simp add: i_def del: key_nibbles_length)
  qed
qed

subsection \<open>Insertion\<close>

text \<open>A result that is the hash of a tree, and a state that holds the tree.\<close>

definition wrote :: "'e rlp_externals_scheme \<Rightarrow> TrieNode set \<Rightarrow> 'd trie \<Rightarrow> ptree \<Rightarrow> 'd trie \<Rightarrow> bool" where
  "wrote x S t p t' \<longleftrightarrow> ok x S t' \<and> holds_tree x S db_map t' p \<and> stored_hashes db_map t \<subseteq> stored_hashes db_map t' \<and> tr_root t' = tr_root t"

lemma wrote_trans: "wrote x S t p t' \<Longrightarrow> wrote x S t' q t'' \<Longrightarrow> wrote x S t q t''"
  by (auto simp: wrote_def)

lemma wrote_reads: "reads_only db_map t t' \<Longrightarrow> wrote x S t' q t'' \<Longrightarrow> wrote x S t q t''"
  by (auto simp: wrote_def reads_only_def)

lemma wrote_held: "wrote x S t q t' \<Longrightarrow> holds_tree x S db_map t p \<Longrightarrow> holds_tree x S db_map t' p"
  unfolding wrote_def using holds_mono by blast

text \<open>A node is saved after the nodes below it.\<close>

lemma save_tree:
  assumes "ok x S t" "pt_nodes x q \<subseteq> S" "node_ok (pt_node x q)"
    and "\<And>n. n \<in> pt_nodes x q \<Longrightarrow> n = pt_node x q \<or> node_hash x n \<in> stored_hashes db_map t"
  shows "\<exists>t'. save_node x (pt_node x q) t = (pt_hash x q, t') \<and> wrote x S t q t'"
proof -
  obtain h t' where s: "save_node x (pt_node x q) t = (h, t')" by fastforce
  have "pt_node x q \<in> S" using assms(2) pt_node_in_nodes by blast
  note r = save_node_sound [OF assms(1) this assms(3) s]
  have "node_hash x ` pt_nodes x q \<subseteq> stored_hashes db_map t'" using assms(4) unfolding r(3) by blast
  then have "holds_tree x S db_map t' q" using assms(2) by (simp add: holds_tree_def)
  then show ?thesis using s r by (auto simp: wrote_def)
qed

lemma save_leaf:
  assumes "ok x S t" "pt_nodes x (PLeaf s v) \<subseteq> S" "nibbles_ok s"
  shows "\<exists>t'. save_node x (Leaf \<lparr>ln_key_suffix = s, ln_value = v\<rparr>) t = (pt_hash x (PLeaf s v), t') \<and> wrote x S t (PLeaf s v) t'"
  using save_tree [OF assms(1,2)] assms(3) by simp

lemma save_ext:
  assumes "ok x S t" "pt_nodes x (PExt p u) \<subseteq> S" "nibbles_ok p" "holds_tree x S db_map t u"
  shows "\<exists>t'. save_node x (Extension \<lparr>en_prefix = p, en_child = pt_hash x u\<rparr>) t = (pt_hash x (PExt p u), t') \<and> wrote x S t (PExt p u) t'"
proof -
  have "n \<in> pt_nodes x (PExt p u) \<Longrightarrow> n = pt_node x (PExt p u) \<or> node_hash x n \<in> stored_hashes db_map t" for n
    using assms(4) by (auto simp: holds_tree_def)
  from save_tree [OF assms(1,2) _ this] show ?thesis using assms(3) by simp
qed

lemma save_branch:
  assumes "ok x S t" "pt_nodes x (PBranch ts) \<subseteq> S" "length ts = 16" "\<And>u. Some u \<in> set ts \<Longrightarrow> holds_tree x S db_map t u"
    and "children = map (map_option (\<lambda>u. pt_hash x u)) ts"
  shows "\<exists>t'. save_node x (Branch \<lparr>bn_children = children, bn_value = None\<rparr>) t = (pt_hash x (PBranch ts), t') \<and> wrote x S t (PBranch ts) t'"
proof -
  have "n \<in> pt_nodes x (PBranch ts) \<Longrightarrow> n = pt_node x (PBranch ts) \<or> node_hash x n \<in> stored_hashes db_map t" for n
    using assms(4) by (fastforce simp: holds_tree_def split: option.splits)
  from save_tree [OF assms(1,2) _ this] show ?thesis using assms(3,5) by simp
qed

lemma save_fork:
  assumes "ok x S t" "pt_nodes x (pt_fork p i s j u) \<subseteq> S" "nibbles_ok p" "holds_tree x S db_map t s" "holds_tree x S db_map t u"
    and "children = (replicate 16 None)[unat i := Some (pt_hash x s), unat j := Some (pt_hash x u)]" "0 < c \<longleftrightarrow> p \<noteq> []"
  shows "\<exists>t'. (let (branch, t) = save_node x (Branch \<lparr>bn_children = children, bn_value = None\<rparr>) t
      in if 0 < c then save_as x (Extension \<lparr>en_prefix = p, en_child = branch\<rparr>) t else Some (Inr branch, t))
    = Some (Inr (pt_hash x (pt_fork p i s j u)), t') \<and> wrote x S t (pt_fork p i s j u) t'"
proof -
  let ?ts = "(replicate 16 None)[unat i := Some s, unat j := Some u]"
  have c: "children = map (map_option (\<lambda>u. pt_hash x u)) ?ts" using assms(6) by (simp add: map_update)
  have "set ?ts \<subseteq> {None, Some s, Some u}"
    using set_update_subset_insert [of "(replicate 16 None)[unat i := Some s]" "unat j" "Some u"]
      set_update_subset_insert [of "replicate 16 None" "unat i" "Some s"] by auto
  then have held: "Some w \<in> set ?ts \<Longrightarrow> holds_tree x S db_map t w" for w using assms(4,5) by blast
  have "pt_nodes x (PBranch ?ts) \<subseteq> pt_nodes x (pt_fork p i s j u)" by (auto simp: pt_fork_def Let_def simp del: pt_nodes.simps(3))
  then have "pt_nodes x (PBranch ?ts) \<subseteq> S" using assms(2) by blast
  from save_branch [OF assms(1) this _ held c] obtain t1 where
    t1: "save_node x (Branch \<lparr>bn_children = children, bn_value = None\<rparr>) t = (pt_hash x (PBranch ?ts), t1)" "wrote x S t (PBranch ?ts) t1"
    by auto
  show ?thesis
  proof (cases "p = []")
    case True
    then show ?thesis using t1 assms(7) by (simp add: pt_fork_def)
  next
    case False
    then have f: "pt_fork p i s j u = PExt p (PBranch ?ts)" by (simp add: pt_fork_def)
    obtain t2 where "save_node x (Extension \<lparr>en_prefix = p, en_child = pt_hash x (PBranch ?ts)\<rparr>) t1 = (pt_hash x (PExt p (PBranch ?ts)), t2)"
        "wrote x S t1 (PExt p (PBranch ?ts)) t2"
      using save_ext [where x = x and S = S and t = t1 and p = p and u = "PBranch ?ts"] assms(2,3) t1(2) unfolding f wrote_def by blast
    then show ?thesis using t1 False assms(7) wrote_trans [OF t1(2)] unfolding f save_as_def by simp
  qed
qed

lemma fork_nodes:
  assumes "i \<noteq> j" "i < 16" "j < 16"
  shows "pt_nodes x s \<subseteq> pt_nodes x (pt_fork p i s j u)" "pt_nodes x u \<subseteq> pt_nodes x (pt_fork p i s j u)"
proof -
  let ?ts = "(replicate 16 None)[unat i := Some s, unat j := Some u]"
  have n: "unat i < 16" "unat j < 16" "unat i \<noteq> unat j" using assms by (auto simp: word_less_nat_alt word_unat_eq_iff)
  then have "pt_nodes x s \<subseteq> pt_nodes x (PBranch ?ts)" "pt_nodes x u \<subseteq> pt_nodes x (PBranch ?ts)"
    by (intro child_nodes [of ?ts "unat i"] child_nodes [of ?ts "unat j"]; simp add: nth_list_update)+
  moreover have "pt_nodes x (PBranch ?ts) \<subseteq> pt_nodes x (pt_fork p i s j u)" by (auto simp: pt_fork_def Let_def simp del: pt_nodes.simps(3))
  ultimately show "pt_nodes x s \<subseteq> pt_nodes x (pt_fork p i s j u)" "pt_nodes x u \<subseteq> pt_nodes x (pt_fork p i s j u)" by blast+
qed

lemma split_leaf_sound:
  assumes "ns_offset key = 0" "depth + length s = length (key_nibbles key)" "nibbles_ok s" "ok x S t"
    and leaf: "s = ln_key_suffix leaf" "w = ln_value leaf"
    and k: "k = drop depth (key_nibbles key)" "k \<noteq> s" and S: "pt_nodes x (pt_insert k v (PLeaf s w)) \<subseteq> S"
  shows "\<exists>t'. split_leaf x leaf key depth (lcp k s) v t = Some (Inr (pt_hash x (pt_insert k v (PLeaf s w))), t') \<and>
    wrote x S t (pt_insert k v (PLeaf s w)) t'"
proof -
  let ?K = "key_nibbles key" and ?c = "lcp k s"
  let ?old = "PLeaf (drop (?c + 1) s) w" and ?new = "PLeaf (drop (?c + 1) k) v"
  have l: "length k = length s" using assms(2) k(1) by simp
  then have c: "?c < length k" "?c < length s"
    using k(2) lcp_full [of k s] lcp_facts(1,2) [of k s] by (simp_all add: le_neq_implies_less)
  note d = lcp_split [OF c]
  have nk: "nibbles_ok k" using k(1) key_nibbles_ok nibbles_ok_drop by blast
  have n: "k ! ?c < 16" "s ! ?c < 16" using nk assms(3) c nth_mem unfolding nibbles_ok_def by blast+
  have p: "nibbles_ok (take ?c s)" using assms(3) by (auto simp: nibbles_ok_def dest: in_set_takeD)
  have i: "pt_insert k v (PLeaf s w) = pt_fork (take ?c s) (s ! ?c) ?old (k ! ?c) ?new"
    using k(2) by (simp add: Let_def)
  have sub: "pt_nodes x ?old \<subseteq> S" "pt_nodes x ?new \<subseteq> S"
    using fork_nodes [OF d(3) [symmetric] n(2,1)] S unfolding i by (blast intro: subset_trans)+
  obtain t1 where t1: "save_node x (Leaf \<lparr>ln_key_suffix = drop (?c + 1) s, ln_value = w\<rparr>) t = (pt_hash x ?old, t1)" "wrote x S t ?old t1"
    using save_leaf [OF assms(4) sub(1)] assms(3) nibbles_ok_drop by blast
  obtain t2 where t2: "save_node x (Leaf \<lparr>ln_key_suffix = drop (?c + 1) k, ln_value = v\<rparr>) t1 = (pt_hash x ?new, t2)" "wrote x S t1 ?new t2"
    using save_leaf [OF _ sub(2)] t1(2) nk nibbles_ok_drop unfolding wrote_def by blast
  have old: "holds_tree x S db_map t2 ?old" using wrote_held [OF t2(2)] t1(2) by (simp add: wrote_def)
  have cond: "0 < ?c \<longleftrightarrow> take ?c s \<noteq> []" using c(2) by auto
  obtain t3 where t3: "(let (branch, t) = save_node x (Branch \<lparr>bn_children = (replicate 16 None)[unat (s ! ?c) := Some (pt_hash x ?old), unat (k ! ?c) := Some (pt_hash x ?new)], bn_value = None\<rparr>) t2
      in if 0 < ?c then save_as x (Extension \<lparr>en_prefix = take ?c s, en_child = branch\<rparr>) t else Some (Inr branch, t))
    = Some (Inr (pt_hash x (pt_insert k v (PLeaf s w))), t3)" "wrote x S t2 (pt_insert k v (PLeaf s w)) t3"
    using save_fork [OF _ S [unfolded i] p old _ refl cond] t2(2) unfolding i wrote_def by blast
  have at: "ns_at key (depth + ?c) = k ! ?c" "ns_to_nibbles (ns_slice_from key (depth + ?c + 1)) = Some (drop (?c + 1) k)"
    using slice_facts(2,3) [OF assms(1), of "depth + ?c + 1"] slice_facts(2) [OF assms(1), of "depth" "depth + ?c"] c l assms(2) unfolding k(1)
    by (simp_all add: add.commute add.left_commute del: key_nibbles_length)
  have "\<not> 16 \<le> unat (s ! ?c)" using n(2) by (simp add: word_less_nat_alt)
  then show ?thesis
    using t1(1) t2(1) t3(1) at c wrote_trans [OF t1(2) wrote_trans [OF t2(2) t3(2)]]
    unfolding split_leaf_def leaf [symmetric] by (simp del: pt_insert.simps)
qed

lemma save_rest:
  assumes "ok x S t" "holds_tree x S db_map t u" "nibbles_ok r" "pt_nodes x (if r = [] then u else PExt r u) \<subseteq> S"
  shows "\<exists>t'. (if r = [] then (pt_hash x u, t) else save_node x (Extension \<lparr>en_prefix = r, en_child = pt_hash x u\<rparr>) t)
      = (pt_hash x (if r = [] then u else PExt r u), t') \<and> wrote x S t (if r = [] then u else PExt r u) t'"
proof (cases "r = []")
  case True
  then show ?thesis using assms(1,2) by (simp add: wrote_def)
next
  case False
  then show ?thesis using save_ext [OF assms(1) _ assms(3,2)] assms(4) by simp
qed

lemma split_extension_sound:
  assumes "ns_offset key = 0" "depth + n = length (key_nibbles key)" "length p < n" "nibbles_ok p" "ok x S t" "holds_tree x S db_map t u"
    and ext: "p = en_prefix ext" "pt_hash x u = en_child ext"
    and k: "k = drop depth (key_nibbles key)" "lcp k p \<noteq> length p" and S: "pt_nodes x (pt_insert k v (PExt p u)) \<subseteq> S"
  shows "\<exists>t'. split_extension x ext key depth (lcp k p) v t = Some (Inr (pt_hash x (pt_insert k v (PExt p u))), t') \<and>
    wrote x S t (pt_insert k v (PExt p u)) t'"
proof -
  let ?K = "key_nibbles key" and ?c = "lcp k p" and ?r = "drop (lcp k p + 1) p"
  let ?old = "if ?r = [] then u else PExt ?r u" and ?new = "PLeaf (drop (?c + 1) k) v"
  have l: "length k = n" using assms(2) k(1) by simp
  then have c: "?c < length k" "?c < length p" using k(2) assms(3) lcp_facts(1,2) [of k p] by simp_all
  note d = lcp_split [OF c]
  have nk: "nibbles_ok k" using k(1) key_nibbles_ok nibbles_ok_drop by blast
  have n: "k ! ?c < 16" "p ! ?c < 16" using nk assms(4) c nth_mem unfolding nibbles_ok_def by blast+
  have p: "nibbles_ok (take ?c p)" using assms(4) by (auto simp: nibbles_ok_def dest: in_set_takeD)
  have i: "pt_insert k v (PExt p u) = pt_fork (take ?c p) (p ! ?c) ?old (k ! ?c) ?new"
    using k(2) by (simp add: Let_def)
  have sub: "pt_nodes x ?old \<subseteq> S" "pt_nodes x ?new \<subseteq> S"
    using fork_nodes [OF d(3) [symmetric] n(2,1)] S unfolding i by (blast intro: subset_trans)+
  obtain t1 where t1: "(if ?r = [] then (pt_hash x u, t) else save_node x (Extension \<lparr>en_prefix = ?r, en_child = pt_hash x u\<rparr>) t)
      = (pt_hash x ?old, t1)" "wrote x S t ?old t1"
    using save_rest [OF assms(5,6) nibbles_ok_drop [OF assms(4)] sub(1)] by blast
  obtain t2 where t2: "save_node x (Leaf \<lparr>ln_key_suffix = drop (?c + 1) k, ln_value = v\<rparr>) t1 = (pt_hash x ?new, t2)" "wrote x S t1 ?new t2"
    using save_leaf [OF _ sub(2)] t1(2) nk nibbles_ok_drop unfolding wrote_def by blast
  have old: "holds_tree x S db_map t2 ?old" using wrote_held [OF t2(2)] t1(2) by (simp add: wrote_def)
  have cond: "0 < ?c \<longleftrightarrow> take ?c p \<noteq> []" using c(2) by auto
  obtain t3 where t3: "(let (branch, t) = save_node x (Branch \<lparr>bn_children = (replicate 16 None)[unat (p ! ?c) := Some (pt_hash x ?old), unat (k ! ?c) := Some (pt_hash x ?new)], bn_value = None\<rparr>) t2
      in if 0 < ?c then save_as x (Extension \<lparr>en_prefix = take ?c p, en_child = branch\<rparr>) t else Some (Inr branch, t))
    = Some (Inr (pt_hash x (pt_insert k v (PExt p u))), t3)" "wrote x S t2 (pt_insert k v (PExt p u)) t3"
    using save_fork [OF _ S [unfolded i] p old _ refl cond] t2(2) unfolding i wrote_def by blast
  have at: "ns_at key (depth + ?c) = k ! ?c" "ns_to_nibbles (ns_slice_from key (depth + ?c + 1)) = Some (drop (?c + 1) k)"
    using slice_facts(2,3) [OF assms(1), of "depth + ?c + 1"] slice_facts(2) [OF assms(1), of "depth" "depth + ?c"] c l assms(2) unfolding k(1)
    by (simp_all add: add.commute add.left_commute del: key_nibbles_length)
  have ne: "drop (?c + 1) k \<noteq> []" "\<not> 16 \<le> unat (p ! ?c)" using n(2) c(2) assms(3) l by (simp_all add: word_less_nat_alt)
  show ?thesis
    unfolding split_extension_def ext [symmetric] Let_def t1(1) prod.case if_not_P [OF ne(2)] at bind.bind_lunit if_not_P [OF ne(1)] t2(1)
    using t3(1) wrote_trans [OF t1(2) wrote_trans [OF t2(2) t3(2)]] unfolding Let_def by blast
qed

lemma save_child:
  assumes "wrote x S t u t1" "holds_tree x S db_map t (PBranch ts)" "pt_nodes x (PBranch (ts[i := Some u])) \<subseteq> S" "length ts = 16"
  shows "\<exists>t2. save_node x (Branch \<lparr>bn_children = (map (map_option (\<lambda>u. pt_hash x u)) ts)[i := Some (pt_hash x u)], bn_value = None\<rparr>) t1
    = (pt_hash x (PBranch (ts[i := Some u])), t2) \<and> wrote x S t1 (PBranch (ts[i := Some u])) t2"
proof -
  have held: "holds_tree x S db_map t1 w" if w: "Some w \<in> set (ts[i := Some u])" for w
  proof -
    have "w = u \<or> Some w \<in> set ts" using w set_update_subset_insert [of ts i "Some u"] by blast
    moreover have "Some w \<in> set ts \<Longrightarrow> holds_tree x S db_map t w"
      using holds_child [OF assms(2)] by (metis in_set_conv_nth)
    ultimately show ?thesis using assms(1) wrote_held [OF assms(1)] unfolding wrote_def by blast
  qed
  have "(map (map_option (\<lambda>u. pt_hash x u)) ts)[i := Some (pt_hash x u)] = map (map_option (\<lambda>u. pt_hash x u)) (ts[i := Some u])"
    by (simp add: map_update)
  from save_branch [OF _ assms(3) _ held this] show ?thesis using assms(1,4) unfolding wrote_def by simp
qed

text \<open>Insertion returns the hash of the tree with the key inserted.\<close>

lemma insert_recursive_sound:
  assumes "rlp_laws x" "inj_on (node_hash x) S" "ns_offset key = 0"
  shows "pt_wf n p \<Longrightarrow> depth + n = length (key_nibbles key) \<Longrightarrow> ok x S t \<Longrightarrow> holds_tree x S db_map t p \<Longrightarrow>
    pt_nodes x (pt_insert (drop depth (key_nibbles key)) v p) \<subseteq> S \<Longrightarrow>
    \<exists>t'. insert_recursive x ops (pt_node x p) key depth v t = Some (Inr (pt_hash x (pt_insert (drop depth (key_nibbles key)) v p)), t') \<and>
      wrote x S t (pt_insert (drop depth (key_nibbles key)) v p) t'"
proof (induction p arbitrary: n depth t)
  case (PLeaf s w)
  let ?k = "drop depth (key_nibbles key)"
  have f: "ns_common_prefix_nibbles (ns_slice_from key depth) s = Some (lcp ?k s)" "ns_len (ns_slice_from key depth) = Some (length ?k)"
    using slice_facts(1,5) [OF assms(3)] PLeaf.prems(2) by simp_all
  have l: "length ?k = length s" using PLeaf.prems(1,2) by simp
  show ?case
  proof (cases "?k = s")
    case True
    then have "lcp ?k s = length s" using lcp_full [of ?k s] l by simp
    moreover obtain t' where "save_node x (Leaf \<lparr>ln_key_suffix = s, ln_value = v\<rparr>) t = (pt_hash x (PLeaf s v), t') \<and> wrote x S t (PLeaf s v) t'"
      using save_leaf [OF PLeaf.prems(3), of s v] PLeaf.prems(1,5) True by auto
    ultimately show ?thesis using f l True by (subst insert_recursive.simps) (simp add: save_as_def)
  next
    case False
    have w: "nibbles_ok s" "depth + length s = length (key_nibbles key)" using PLeaf.prems(1,2) by simp_all
    have "lcp ?k s \<noteq> length s" using False lcp_full [of ?k s] l by (simp del: length_drop key_nibbles_length)
    moreover obtain t' where "split_leaf x \<lparr>ln_key_suffix = s, ln_value = w\<rparr> key depth (lcp ?k s) v t = Some (Inr (pt_hash x (pt_insert ?k v (PLeaf s w))), t')"
        "wrote x S t (pt_insert ?k v (PLeaf s w)) t'"
      using split_leaf_sound [OF assms(3) w(2,1) PLeaf.prems(3) _ _ refl False PLeaf.prems(5), where leaf = "\<lparr>ln_key_suffix = s, ln_value = w\<rparr>"] by auto
    ultimately show ?thesis using f by (subst insert_recursive.simps) (simp del: pt_insert.simps)
  qed
next
  case (PExt p u)
  let ?k = "drop depth (key_nibbles key)"
  have wf: "length p < n" "nibbles_ok p" "pt_wf (n - length p) u" "depth + length p + (n - length p) = length (key_nibbles key)"
    using PExt.prems(1,2) by auto
  have f: "ns_common_prefix_nibbles (ns_slice_from key depth) p = Some (lcp ?k p)"
    using slice_facts(5) [OF assms(3)] PExt.prems(2) by simp
  note hu = holds_ext [OF PExt.prems(4)]
  show ?case
  proof (cases "lcp ?k p = length p")
    case True
    then have i: "pt_insert ?k v (PExt p u) = PExt p (pt_insert (drop (depth + length p) (key_nibbles key)) v u)"
      by (simp add: add.commute)
    obtain t1 where t1: "get_node_by_hash x ops (pt_hash x u) t = (Inr (pt_node x u), t1)" "ok x S t1" "reads_only db_map t t1"
      using get_node_sound [OF assms(1,2) PExt.prems(3)] holds_root [OF hu] by blast
    have h1: "holds_tree x S db_map t1 u" using t1(3) by (intro holds_mono [OF hu]) (simp add: reads_only_def)
    have "pt_nodes x (pt_insert (drop (depth + length p) (key_nibbles key)) v u) \<subseteq> S" using PExt.prems(5) unfolding i by simp
    from PExt.IH [OF wf(3,4) t1(2) h1 this] obtain t2 where
      t2: "insert_recursive x ops (pt_node x u) key (depth + length p) v t1 = Some (Inr (pt_hash x (pt_insert (drop (depth + length p) (key_nibbles key)) v u)), t2)"
        "wrote x S t1 (pt_insert (drop (depth + length p) (key_nibbles key)) v u) t2" by blast
    obtain t3 where t3: "save_node x (Extension \<lparr>en_prefix = p, en_child = pt_hash x (pt_insert (drop (depth + length p) (key_nibbles key)) v u)\<rparr>) t2
        = (pt_hash x (pt_insert ?k v (PExt p u)), t3)" "wrote x S t2 (pt_insert ?k v (PExt p u)) t3"
      using save_ext [OF _ PExt.prems(5) [unfolded i] wf(2)] t2(2) unfolding i wrote_def by blast
    show ?thesis
      using True f t1(1) t2(1) t3 wrote_reads [OF t1(3) wrote_trans [OF t2(2) t3(2)]]
      by (subst insert_recursive.simps) (simp add: save_as_def del: pt_insert.simps)
  next
    case False
    obtain t' where "split_extension x \<lparr>en_prefix = p, en_child = pt_hash x u\<rparr> key depth (lcp ?k p) v t = Some (Inr (pt_hash x (pt_insert ?k v (PExt p u))), t')"
        "wrote x S t (pt_insert ?k v (PExt p u)) t'"
      using split_extension_sound [OF assms(3) PExt.prems(2) wf(1,2) PExt.prems(3) hu _ _ refl False PExt.prems(5), where ext = "\<lparr>en_prefix = p, en_child = pt_hash x u\<rparr>"] by auto
    then show ?thesis using f False by (subst insert_recursive.simps) (simp del: pt_insert.simps)
  qed
next
  case (PBranch ts)
  let ?K = "key_nibbles key"
  have d: "depth < length ?K" "length ts = 16" using PBranch.prems(1,2) by simp_all
  define i where "i = unat (?K ! depth)"
  have "?K ! depth \<in> set ?K" using d(1) nth_mem by blast
  then have i: "i < 16" using key_nibbles_ok [of key] by (auto simp: i_def nibbles_ok_def word_less_nat_alt)
  let ?k = "drop (depth + 1) ?K"
  let ?u = "case ts ! i of None \<Rightarrow> PLeaf ?k v | Some u \<Rightarrow> pt_insert ?k v u"
  have k: "drop depth ?K = ?K ! depth # ?k" using d(1) by (simp add: Cons_nth_drop_Suc)
  have ins: "pt_insert (drop depth ?K) v (PBranch ts) = PBranch (ts[i := Some ?u])" unfolding k pt_insert.simps i_def ..
  have at: "ns_at key depth = ?K ! depth" "ns_len key = Some (length ?K)" "ns_to_nibbles (ns_slice_from key (depth + 1)) = Some ?k"
    using slice_facts(2,6) [OF assms(3), of depth] slice_facts(3) [OF assms(3), of "depth + 1"] d(1) by simp_all
  have "ts[i := Some ?u] ! i = Some ?u" "i < length (ts[i := Some ?u])" using i d(2) by simp_all
  from subset_trans [OF child_nodes [OF this] PBranch.prems(5) [unfolded ins]] have S: "pt_nodes x ?u \<subseteq> S" .
  have nk: "nibbles_ok ?k" using key_nibbles_ok nibbles_ok_drop by blast
  let ?child = "case bn_children \<lparr>bn_children = map (map_option (\<lambda>u. pt_hash x u)) ts, bn_value = None\<rparr> ! i of
      Some h \<Rightarrow> t_bind (Some (get_node_by_hash x ops h t)) (\<lambda>child t. insert_recursive x ops child key (depth + 1) v t)
    | None \<Rightarrow> Option.bind (ns_to_nibbles (ns_slice_from key (depth + 1))) (\<lambda>suffix. save_as x (Leaf \<lparr>ln_key_suffix = suffix, ln_value = v\<rparr>) t)"
  have "\<exists>t1. ?child = Some (Inr (pt_hash x ?u), t1) \<and> wrote x S t ?u t1"
  proof (cases "ts ! i")
    case None
    then show ?thesis using save_leaf [OF PBranch.prems(3) _ nk, of v] S d(2) i at(3) by (auto simp: save_as_def)
  next
    case (Some u)
    note hu = holds_child [OF PBranch.prems(4) Some]
    obtain t1 where t1: "get_node_by_hash x ops (pt_hash x u) t = (Inr (pt_node x u), t1)" "ok x S t1" "reads_only db_map t t1"
      using get_node_sound [OF assms(1,2) PBranch.prems(3)] holds_root [OF hu] i d(2) by auto
    have h1: "holds_tree x S db_map t1 u" using i d(2) t1(3) by (intro holds_mono [OF hu]) (simp_all add: reads_only_def)
    have u: "Some u \<in> set ts" using Some i d(2) nth_mem [of i ts] by simp
    then have wf: "pt_wf (n - 1) u" "depth + 1 + (n - 1) = length ?K" using PBranch.prems(1,2) by auto
    obtain t2 where "insert_recursive x ops (pt_node x u) key (depth + 1) v t1 = Some (Inr (pt_hash x (pt_insert ?k v u)), t2)"
        "wrote x S t1 (pt_insert ?k v u) t2"
      using PBranch.IH [OF u _ wf t1(2) h1] S Some by auto
    then show ?thesis using t1(1) Some d(2) i wrote_reads [OF t1(3)] by simp
  qed
  then obtain t1 where t1: "?child = Some (Inr (pt_hash x ?u), t1)" "wrote x S t ?u t1" by blast
  obtain t2 where t2: "save_node x (Branch \<lparr>bn_children = (map (map_option (\<lambda>u. pt_hash x u)) ts)[i := Some (pt_hash x ?u)], bn_value = None\<rparr>) t1
      = (pt_hash x (PBranch (ts[i := Some ?u])), t2)" "wrote x S t1 (PBranch (ts[i := Some ?u])) t2"
    using save_child [OF t1(2) PBranch.prems(4) PBranch.prems(5) [unfolded ins] d(2)] by blast
  have "insert_recursive x ops (pt_node x (PBranch ts)) key depth v t =
      t_bind ?child (\<lambda>new_child t. save_as x (Branch \<lparr>bn_children = (map (map_option (\<lambda>u. pt_hash x u)) ts)[i := Some new_child], bn_value = None\<rparr>) t)"
    using d(1) at(1,2) by (subst insert_recursive.simps) (simp add: i_def [symmetric] del: key_nibbles_length)
  then show ?case using t1(1) t2 wrote_trans [OF t1(2) t2(2)] unfolding ins by (simp add: save_as_def)
qed

end

end
