(* ===== verification/TrieMap.thy ===== *)
theory TrieMap
  imports TrieRefine
begin

section \<open>The trie is a map\<close>

text \<open>
  Insertion and lookup at the whole trie, over any node database that keeps its contract: after a
  sequence of insertions the trie answers like the map of the pairs, also when it is opened again from
  its root, and the root is determined by the contents.
\<close>

subsection \<open>A trie and its tree\<close>

abbreviation path_of :: "'e rlp_externals_scheme \<Rightarrow> u8 list \<Rightarrow> u8 list" where
  "path_of x key \<equiv> key_nibbles (hashed_key x key)"

definition put_tree :: "u8 list \<Rightarrow> u8 list \<Rightarrow> ptree option \<Rightarrow> ptree" where
  "put_tree k v m = (case m of None \<Rightarrow> PLeaf k v | Some p \<Rightarrow> pt_insert k v p)"

definition get_tree :: "ptree option \<Rightarrow> u8 list \<Rightarrow> u8 list option" where
  "get_tree m k = (case m of None \<Rightarrow> None | Some p \<Rightarrow> pt_get p k)"

text \<open>The loop that fills a trie.\<close>

fun trie_insert_all :: "'e rlp_externals_scheme \<Rightarrow> 'd trie_db_ops \<Rightarrow> (u8 list \<times> u8 list) list \<Rightarrow> 'd trie \<Rightarrow> (unit, 'd) trie_result" where
  "trie_insert_all x ops [] t = Some (Inr (), t)"
| "trie_insert_all x ops ((key, v) # kvs) t = t_bind (trie_insert x ops key v t) (\<lambda>_ t. trie_insert_all x ops kvs t)"

fun tree_of :: "'e rlp_externals_scheme \<Rightarrow> (u8 list \<times> u8 list) list \<Rightarrow> ptree option \<Rightarrow> ptree option" where
  "tree_of x [] m = m"
| "tree_of x ((key, v) # kvs) m = tree_of x kvs (Some (put_tree (path_of x key) v m))"

text \<open>The nodes that a sequence of insertions writes.\<close>

fun nodes_written :: "'e rlp_externals_scheme \<Rightarrow> (u8 list \<times> u8 list) list \<Rightarrow> ptree option \<Rightarrow> TrieNode set" where
  "nodes_written x [] m = {}"
| "nodes_written x ((key, v) # kvs) m =
     pt_nodes x (put_tree (path_of x key) v m) \<union> nodes_written x kvs (Some (put_tree (path_of x key) v m))"

lemma path_of_key: "key_of 64 (path_of x key)" "ns_offset (hashed_key x key) = 0"
  using key_nibbles_ok by (simp_all add: hashed_key_def ns_new_def length_be_bytes)

lemma put_tree_wf:
  assumes "\<And>p. m = Some p \<Longrightarrow> pt_wf 64 p"
  shows "pt_wf 64 (put_tree (path_of x key) v m)"
  using assms pt_insert_wf path_of_key [of x key] by (cases m) (auto simp: put_tree_def)

lemma get_put_tree:
  assumes "\<And>p. m = Some p \<Longrightarrow> pt_wf 64 p" "key_of 64 k"
  shows "get_tree (Some (put_tree (path_of x key) v m)) k = (if k = path_of x key then Some v else get_tree m k)"
  using assms path_of_key [of x key] pt_get_insert [of 64] by (cases m) (auto simp: put_tree_def get_tree_def)

lemma same_trees:
  assumes "\<And>k. key_of 64 k \<Longrightarrow> get_tree m k = get_tree m' k"
    and "\<And>p. m = Some p \<Longrightarrow> pt_wf 64 p" "\<And>p. m' = Some p \<Longrightarrow> pt_wf 64 p"
  shows "m = m'"
proof (cases m; cases m')
  fix p assume "m = None" "m' = Some p"
  then show ?thesis using assms pt_inhabited [of 64 p] by (fastforce simp: get_tree_def)
next
  fix p assume "m = Some p" "m' = None"
  then show ?thesis using assms pt_inhabited [of 64 p] by (fastforce simp: get_tree_def)
next
  fix p q assume "m = Some p" "m' = Some q"
  then show ?thesis using assms pt_canonical [of 64 p q] by (simp add: get_tree_def same_get_def)
qed simp

text \<open>The nibbles of a hash determine it.\<close>

lemma nibble_pair: "b = or (push_bit 4 (drop_bit 4 b)) (and b 0x0F)" for b :: u8
proof -
  have m: "(0x0F :: u8) = mask 4" by (simp add: mask_eq_exp_minus_1)
  have n: "bit (0x0F :: u8) n \<longleftrightarrow> n < 4" for n unfolding m bit_mask_iff by auto
  show ?thesis
  proof (rule bit_word_eqI)
    fix n assume "n < LENGTH(8)"
    then show "bit b n \<longleftrightarrow> bit (or (push_bit 4 (drop_bit 4 b)) (and b 0x0F)) n"
      using n [of n] by (simp only: bit_or_iff bit_and_iff bit_push_bit_iff bit_drop_bit_eq) auto
  qed
qed

lemma key_nibbles_pair:
  assumes "ns_offset key = 0" "i < length (ns_data key)"
  shows "ns_data key ! i = or (push_bit 4 (key_nibbles key ! (2 * i))) (key_nibbles key ! (2 * i + 1))"
  using assms nibble_pair [of "ns_data key ! i"] by (simp add: key_nibbles_def ns_at_def)

lemma path_of_inj:
  assumes "path_of x a = path_of x b"
  shows "keccak256 x a = keccak256 x b"
proof -
  let ?a = "hashed_key x a" and ?b = "hashed_key x b"
  have l: "length (ns_data ?a) = 32" "length (ns_data ?b) = 32" by (simp_all add: hashed_key_def ns_new_def length_be_bytes)
  have "ns_data ?a = ns_data ?b"
  proof (intro nth_equalityI)
    fix i assume "i < length (ns_data ?a)"
    then show "ns_data ?a ! i = ns_data ?b ! i"
      using l key_nibbles_pair [OF path_of_key(2), of i x a] key_nibbles_pair [OF path_of_key(2), of i x b] assms by simp
  qed (use l in simp)
  then have "be_bytes (keccak256 x a) = be_bytes (keccak256 x b)" by (simp add: hashed_key_def ns_new_def)
  then show ?thesis using from_be_bytes_hash by metis
qed

lemma tree_of_wf:
  assumes "\<And>p. m = Some p \<Longrightarrow> pt_wf 64 p" "tree_of x kvs m = Some p"
  shows "pt_wf 64 p"
  using assms
proof (induction kvs arbitrary: m)
  case (Cons kv kvs)
  obtain key v where kv: "kv = (key, v)" by fastforce
  from Cons.IH [of "Some (put_tree (path_of x key) v m)"] Cons.prems put_tree_wf [of m x key v] show ?case unfolding kv by simp
qed simp

text \<open>The tree of a sequence holds the last value of each path.\<close>

lemma get_tree_of:
  assumes "\<And>p. m = Some p \<Longrightarrow> pt_wf 64 p" "key_of 64 k"
  shows "get_tree (tree_of x kvs m) k = (case map_of (rev (map (\<lambda>(key, v). (path_of x key, v)) kvs)) k of None \<Rightarrow> get_tree m k | Some v \<Rightarrow> Some v)"
  using assms
proof (induction kvs arbitrary: m)
  case (Cons kv kvs)
  obtain key v where kv: "kv = (key, v)" by fastforce
  let ?m = "Some (put_tree (path_of x key) v m)"
  have "get_tree (tree_of x kvs ?m) k = (case map_of (rev (map (\<lambda>(key, v). (path_of x key, v)) kvs)) k of None \<Rightarrow> get_tree ?m k | Some v \<Rightarrow> Some v)"
    using Cons.prems put_tree_wf [of m x key v] by (intro Cons.IH) auto
  then show ?case using get_put_tree [OF Cons.prems, where x = x and v = v] unfolding kv by (auto simp: map_add_def split: option.splits)
qed simp

text \<open>With no two keys hashed alike, a path holds what its key does.\<close>

lemma map_of_paths:
  assumes "inj_on (keccak256 x) (insert a (fst ` set kvs))"
  shows "map_of (map (\<lambda>(key, v). (path_of x key, v)) kvs) (path_of x a) = map_of kvs a"
  using assms
proof (induction kvs)
  case (Cons kv kvs)
  obtain key v where kv: "kv = (key, v)" by fastforce
  have "path_of x a = path_of x key \<longleftrightarrow> a = key"
    using path_of_inj [of x a key] inj_onD [OF Cons.prems, of a key] kv by auto
  moreover have "inj_on (keccak256 x) (insert a (fst ` set kvs))" using Cons.prems by (rule inj_on_subset) auto
  ultimately show ?case using Cons.IH kv by simp
qed simp

lemma map_of_no_path:
  "k \<notin> path_of x ` fst ` set kvs \<Longrightarrow> map_of (map (\<lambda>(key, v). (path_of x key, v)) kvs) k = None"
  by (induction kvs) auto


subsection \<open>Operations of the whole trie\<close>

context trie_db
begin

definition trie_holds :: "'e rlp_externals_scheme \<Rightarrow> TrieNode set \<Rightarrow> 'd trie \<Rightarrow> ptree option \<Rightarrow> bool" where
  "trie_holds x S t m \<longleftrightarrow> ok x S t \<and> tr_dirty t = [] \<and> tr_root t = map_option (\<lambda>p. pt_hash x p) m \<and>
     (\<forall>p. m = Some p \<longrightarrow> pt_wf 64 p \<and> holds_tree x S db_map t p)"

lemma flush_nodes_sound:
  assumes "ok x S t" "\<And>h n. (h, n) \<in> set nodes \<Longrightarrow> n \<in> S \<and> node_ok n \<and> h = node_hash x n"
  shows "\<exists>t'. flush_nodes x ops nodes t = (Inr (), t') \<and> ok x S t' \<and>
    stored_hashes db_map t' = stored_hashes db_map t \<union> fst ` set nodes \<and> tr_dirty t' = tr_dirty t \<and> tr_root t' = tr_root t"
  using assms
proof (induction nodes arbitrary: t)
  case (Cons hn nodes)
  obtain h n where hn: "hn = (h, n)" by fastforce
  have n: "n \<in> S" "node_ok n" "h = node_hash x n" using Cons.prems(2) [of h n] hn by simp_all
  obtain u d where p: "db_put_node ops h (encode_node x n) (tr_db t) = (u, d)" by fastforce
  have d: "u = Inr ()" "db_ok d" "db_map d = (db_map (tr_db t))(h \<mapsto> encode_node x n)"
    using put_node [OF _ p] Cons.prems(1) by simp_all
  let ?t = "t\<lparr>tr_db := d, tr_cache := (tr_cache t)(h \<mapsto> n)\<rparr>"
  have "sound_trie x S db_map ?t" using Cons.prems(1) n d(3) by (auto simp: sound_trie_def)
  then obtain t' where "flush_nodes x ops nodes ?t = (Inr (), t')" "ok x S t'" "tr_dirty t' = tr_dirty t" "tr_root t' = tr_root t"
      "stored_hashes db_map t' = stored_hashes db_map ?t \<union> fst ` set nodes"
    using Cons.IH [of ?t] Cons.prems(2) d(2) by auto
  moreover have "stored_hashes db_map ?t = insert h (stored_hashes db_map t)" using d(3) by (auto simp: stored_hashes_def)
  ultimately show ?case using p d(1) hn by simp
qed simp

lemma flush_sound:
  assumes "ok x S t"
  shows "\<exists>t'. flush x ops t = (Inr (), t') \<and> ok x S t' \<and> stored_hashes db_map t' = stored_hashes db_map t \<and> tr_dirty t' = [] \<and> tr_root t' = tr_root t"
proof -
  have "ok x S (t\<lparr>tr_dirty := []\<rparr>)" "\<And>h n. (h, n) \<in> set (tr_dirty t) \<Longrightarrow> n \<in> S \<and> node_ok n \<and> h = node_hash x n"
    using assms by (auto simp: sound_trie_def)
  from flush_nodes_sound [OF this] show ?thesis by (auto simp: flush_def stored_hashes_def dom_map_of_conv_image_fst)
qed

text \<open>Lookup in a trie that holds a tree.\<close>

lemma trie_get_sound:
  assumes "rlp_laws x" "inj_on (node_hash x) S" "trie_holds x S t m"
  shows "\<exists>t'. trie_get x ops key t = Some (Inr (get_tree m (path_of x key)), t') \<and> trie_holds x S t' m"
proof (cases m)
  case None
  then show ?thesis using assms(3) by (auto simp: trie_get_def trie_holds_def get_tree_def)
next
  case (Some p)
  have h: "ok x S t" "holds_tree x S db_map t p" "pt_wf 64 p" "tr_root t = Some (pt_hash x p)" "tr_dirty t = []"
    using assms(3) Some by (simp_all add: trie_holds_def)
  obtain t1 where t1: "get_node_by_hash x ops (pt_hash x p) t = (Inr (pt_node x p), t1)" "ok x S t1" "reads_only db_map t t1"
    using get_node_sound [OF assms(1,2) h(1)] holds_root [OF h(2)] by blast
  have h1: "holds_tree x S db_map t1 p" using t1(3) by (intro holds_mono [OF h(2)]) (simp add: reads_only_def)
  have "0 + 64 = length (path_of x key)" by (simp add: path_of_key(1) del: key_nibbles_length)
  from get_recursive_sound [OF assms(1,2) path_of_key(2) h(3) this t1(2) h1] obtain t2 where
    t2: "get_recursive x ops (pt_node x p) (hashed_key x key) 0 t1 = Some (Inr (pt_get p (path_of x key)), t2)" "ok x S t2" "reads_only db_map t1 t2"
    by auto
  have r: "reads_only db_map t t2" using reads_only_trans [OF t1(3) t2(3)] .
  then have "holds_tree x S db_map t2 p" by (intro holds_mono [OF h(2)]) (simp add: reads_only_def)
  then have "trie_holds x S t2 m" using h t2(2) r Some by (simp add: trie_holds_def reads_only_def)
  then show ?thesis using h(4) t1(1) t2(1) Some by (simp add: trie_get_def get_tree_def)
qed

text \<open>Insertion into a trie that holds a tree returns the new root and leaves the new tree.\<close>

lemma trie_insert_sound:
  assumes "rlp_laws x" "inj_on (node_hash x) S" "trie_holds x S t m" "pt_nodes x (put_tree (path_of x key) v m) \<subseteq> S"
  shows "\<exists>t'. trie_insert x ops key v t = Some (Inr (pt_hash x (put_tree (path_of x key) v m)), t') \<and>
    trie_holds x S t' (Some (put_tree (path_of x key) v m))"
proof -
  let ?q = "put_tree (path_of x key) v m" and ?key = "hashed_key x key"
  have t: "ok x S t" using assms(3) by (simp add: trie_holds_def)
  have l: "0 + 64 = length (path_of x key)" by (simp add: path_of_key(1) del: key_nibbles_length)
  let ?step = "case tr_root t of
      None \<Rightarrow> Option.bind (ns_to_nibbles ?key) (\<lambda>suffix. save_as x (Leaf \<lparr>ln_key_suffix = suffix, ln_value = v\<rparr>) t)
    | Some root \<Rightarrow> t_bind (Some (get_node_by_hash x ops root t)) (\<lambda>node t. insert_recursive x ops node ?key 0 v t)"
  have "\<exists>t1. ?step = Some (Inr (pt_hash x ?q), t1) \<and> wrote x S t ?q t1"
  proof (cases m)
    case None
    have "ns_slice_from ?key 0 = ?key" by (simp add: ns_slice_from_def ns_from_offset_def hashed_key_def ns_new_def)
    then have "ns_to_nibbles ?key = Some (path_of x key)" using slice_facts(3) [OF path_of_key(2), where key1 = key and x1 = x and depth = 0] by simp
    moreover have q: "?q = PLeaf (path_of x key) v" "nibbles_ok (path_of x key)" using None key_nibbles_ok by (simp_all add: put_tree_def)
    ultimately show ?thesis using save_leaf [OF t assms(4) [unfolded q(1)] q(2)] assms(3) None
      unfolding q(1) by (auto simp: trie_holds_def save_as_def)
  next
    case (Some p)
    have h: "holds_tree x S db_map t p" "pt_wf 64 p" "tr_root t = Some (pt_hash x p)" using assms(3) Some by (simp_all add: trie_holds_def)
    obtain t1 where t1: "get_node_by_hash x ops (pt_hash x p) t = (Inr (pt_node x p), t1)" "ok x S t1" "reads_only db_map t t1"
      using get_node_sound [OF assms(1,2) t] holds_root [OF h(1)] by blast
    have h1: "holds_tree x S db_map t1 p" using t1(3) by (intro holds_mono [OF h(1)]) (simp add: reads_only_def)
    have q: "?q = pt_insert (drop 0 (path_of x key)) v p" using Some by (simp add: put_tree_def)
    from insert_recursive_sound [OF assms(1,2) path_of_key(2) h(2) l t1(2) h1 assms(4) [unfolded q]]
    show ?thesis unfolding q using h(3) t1(1) wrote_reads [OF t1(3)] by (auto simp del: drop0)
  qed
  then obtain t1 where t1: "?step = Some (Inr (pt_hash x ?q), t1)" "wrote x S t ?q t1" by blast
  let ?t1 = "t1\<lparr>tr_root := Some (pt_hash x ?q)\<rparr>"
  have "ok x S ?t1" using t1(2) by (simp add: wrote_def sound_trie_def)
  from flush_sound [OF this] obtain t2 where
    t2: "flush x ops ?t1 = (Inr (), t2)" "ok x S t2" "stored_hashes db_map t2 = stored_hashes db_map ?t1" "tr_dirty t2 = []" "tr_root t2 = tr_root ?t1"
    by blast
  have "holds_tree x S db_map t2 ?q"
    using t1(2) t2(3) by (simp add: wrote_def holds_tree_def stored_hashes_def)
  moreover have "pt_wf 64 ?q" using assms(3) by (intro put_tree_wf) (simp add: trie_holds_def)
  ultimately have "trie_holds x S t2 (Some ?q)" using t2 by (simp add: trie_holds_def)
  then show ?thesis using t1(1) t2(1) by (simp add: trie_insert_def)
qed

lemma trie_insert_all_sound:
  assumes "rlp_laws x" "inj_on (node_hash x) S" "trie_holds x S t m" "nodes_written x kvs m \<subseteq> S"
  shows "\<exists>t'. trie_insert_all x ops kvs t = Some (Inr (), t') \<and> trie_holds x S t' (tree_of x kvs m)"
  using assms(3,4)
proof (induction kvs arbitrary: t m)
  case (Cons kv kvs)
  obtain key v where kv: "kv = (key, v)" by fastforce
  from trie_insert_sound [OF assms(1,2) Cons.prems(1), of key v] Cons.prems(2) obtain t1 where
    t1: "trie_insert x ops key v t = Some (Inr (pt_hash x (put_tree (path_of x key) v m)), t1)" "trie_holds x S t1 (Some (put_tree (path_of x key) v m))"
    unfolding kv by auto
  from Cons.IH [OF t1(2)] Cons.prems(2) show ?case using t1(1) unfolding kv by simp
qed simp

text \<open>The empty trie, and a trie opened from the root of another.\<close>

lemma trie_new_holds: "db_ok d \<Longrightarrow> db_map d = Map.empty \<Longrightarrow> trie_holds x S (trie_new d) None"
  by (simp add: trie_holds_def trie_new_def sound_trie_def)

lemma from_root_holds:
  assumes "trie_holds x S t (Some p)"
  shows "trie_holds x S (from_root (trie_root t) (tr_db t)) (Some p)"
  using assms by (auto simp: trie_holds_def from_root_def trie_root_def sound_trie_def holds_tree_def stored_hashes_def)

end

subsection \<open>Pairs to compute with\<close>

text \<open>Two keys that share the first three nibbles.\<close>

definition sample_pairs :: "(u8 list \<times> u8 list) list" where
  "sample_pairs = [([0, 1], [7, 7, 7, 7]), ([0, 2], [8, 8, 8, 8, 8])]"

lemma sample_path:
  "path_of sample_rlp [0, 1] = [0, 0, 0, 1] @ replicate 60 0" "path_of sample_rlp [0, 2] = [0, 0, 0, 2] @ replicate 60 0"
  by code_simp+

text \<open>The second key forks the first leaf below an extension.\<close>

definition sample_fork :: "u8 list \<Rightarrow> u8 list \<Rightarrow> ptree" where
  "sample_fork v w = PExt [0, 0, 0] (PBranch (None # Some (PLeaf (replicate 60 0) v) # Some (PLeaf (replicate 60 0) w) # replicate 13 None))"

lemma sample_fork:
  "put_tree ([0, 0, 0, 2] @ replicate 60 0) w (Some (PLeaf ([0, 0, 0, 1] @ replicate 60 0) v)) = sample_fork v w"
  "put_tree ([0, 0, 0, 1] @ replicate 60 0) v (Some (PLeaf ([0, 0, 0, 2] @ replicate 60 0) w)) = sample_fork v w"
  by code_simp+

lemma sample_trees:
  "tree_of sample_rlp sample_pairs None = Some (sample_fork [7, 7, 7, 7] [8, 8, 8, 8, 8])"
  "nodes_written sample_rlp sample_pairs None =
    insert (pt_node sample_rlp (PLeaf ([0, 0, 0, 1] @ replicate 60 0) [7, 7, 7, 7])) (pt_nodes sample_rlp (sample_fork [7, 7, 7, 7] [8, 8, 8, 8, 8]))"
  "nodes_written sample_rlp (rev sample_pairs) None =
    insert (pt_node sample_rlp (PLeaf ([0, 0, 0, 2] @ replicate 60 0) [8, 8, 8, 8, 8])) (pt_nodes sample_rlp (sample_fork [7, 7, 7, 7] [8, 8, 8, 8, 8]))"
proof -
  have l: "put_tree k v None = PLeaf k v" for k v by (simp add: put_tree_def)
  have r: "rev sample_pairs = [([0, 2], [8, 8, 8, 8, 8]), ([0, 1], [7, 7, 7, 7])]" by (simp add: sample_pairs_def)
  show "tree_of sample_rlp sample_pairs None = Some (sample_fork [7, 7, 7, 7] [8, 8, 8, 8, 8])"
    "nodes_written sample_rlp sample_pairs None =
      insert (pt_node sample_rlp (PLeaf ([0, 0, 0, 1] @ replicate 60 0) [7, 7, 7, 7])) (pt_nodes sample_rlp (sample_fork [7, 7, 7, 7] [8, 8, 8, 8, 8]))"
    "nodes_written sample_rlp (rev sample_pairs) None =
      insert (pt_node sample_rlp (PLeaf ([0, 0, 0, 2] @ replicate 60 0) [8, 8, 8, 8, 8])) (pt_nodes sample_rlp (sample_fork [7, 7, 7, 7] [8, 8, 8, 8, 8]))"
    unfolding r unfolding sample_pairs_def tree_of.simps nodes_written.simps
    by (simp_all only: sample_path l sample_fork pt_nodes.simps(1) Un_empty_right insert_is_Un [symmetric])
qed

abbreviation sample_below :: ptree where
  "sample_below \<equiv> PBranch (None # Some (PLeaf (replicate 60 0) [7, 7, 7, 7]) # Some (PLeaf (replicate 60 0) [8, 8, 8, 8, 8]) # replicate 13 None)"

lemma sample_hashes:
  "pt_hash sample_rlp (PLeaf (replicate 60 0) [7, 7, 7, 7]) = 73" "pt_hash sample_rlp (PLeaf (replicate 60 0) [8, 8, 8, 8, 8]) = 75"
  "pt_hash sample_rlp (PLeaf ([0, 0, 0, 1] @ replicate 60 0) [7, 7, 7, 7]) = 77"
  "pt_hash sample_rlp (PLeaf ([0, 0, 0, 2] @ replicate 60 0) [8, 8, 8, 8, 8]) = 79"
  "pt_hash sample_rlp sample_below = 146" "pt_hash sample_rlp (sample_fork [7, 7, 7, 7] [8, 8, 8, 8, 8]) = 71"
  by code_simp+

lemma sample_fork_nodes:
  "pt_nodes sample_rlp (sample_fork [7, 7, 7, 7] [8, 8, 8, 8, 8]) = pt_node sample_rlp ` {sample_fork [7, 7, 7, 7] [8, 8, 8, 8, 8], sample_below,
     PLeaf (replicate 60 0) [7, 7, 7, 7], PLeaf (replicate 60 0) [8, 8, 8, 8, 8]}"
proof -
  have "set (replicate 13 (None :: ptree option)) = {None}" by simp
  then show ?thesis by (auto simp: sample_fork_def simp del: pt_node.simps)
qed

lemma sample_pairs_distinct:
  "inj_on (node_hash sample_rlp) (nodes_written sample_rlp sample_pairs None)"
  "inj_on (node_hash sample_rlp) (nodes_written sample_rlp (rev sample_pairs) None)"
proof -
  let ?ts = "[sample_fork [7, 7, 7, 7] [8, 8, 8, 8, 8], sample_below, PLeaf (replicate 60 0) [7, 7, 7, 7], PLeaf (replicate 60 0) [8, 8, 8, 8, 8]]"
  have d: "distinct (map (node_hash sample_rlp) (map (pt_node sample_rlp) (t # ?ts))) \<Longrightarrow>
      inj_on (node_hash sample_rlp) (insert (pt_node sample_rlp t) (pt_node sample_rlp ` set ?ts))" for t
    by (simp only: distinct_map list.set set_map image_insert)
  show "inj_on (node_hash sample_rlp) (nodes_written sample_rlp sample_pairs None)"
    "inj_on (node_hash sample_rlp) (nodes_written sample_rlp (rev sample_pairs) None)"
    unfolding sample_trees(2,3) sample_fork_nodes
    using d [of "PLeaf ([0, 0, 0, 1] @ replicate 60 0) [7, 7, 7, 7]"] d [of "PLeaf ([0, 0, 0, 2] @ replicate 60 0) [8, 8, 8, 8, 8]"]
    unfolding list.map sample_hashes list.set by simp_all
qed

subsection \<open>The properties\<close>

text \<open>Filling a fresh trie.\<close>

lemma filled_trie:
  assumes "rlp_laws x" "inj_on (node_hash x) (nodes_written x kvs None)"
  shows "\<exists>t. trie_insert_all x mem_trie_db kvs (trie_new Map.empty) = Some (Inr (), t) \<and>
    mem_trie.trie_holds x (nodes_written x kvs None) t (tree_of x kvs None)"
  using mem_trie.trie_insert_all_sound [OF assms mem_trie.trie_new_holds subset_refl] by simp

lemma filled_cached_trie:
  assumes "rlp_laws x" "inj_on (node_hash x) (nodes_written x kvs None)"
  shows "\<exists>t. trie_insert_all x (cached_trie_db mem_trie_db) kvs (trie_new (cached_new Map.empty)) = Some (Inr (), t) \<and>
    cached_mem_trie.trie_holds x (nodes_written x kvs None) t (tree_of x kvs None)"
  using cached_mem_trie.trie_insert_all_sound [OF assms cached_mem_trie.trie_new_holds subset_refl]
  by (simp add: cached_new_def cached_ok_def)

lemma get_filled:
  assumes "inj_on (keccak256 x) (insert k (fst ` set kvs))"
  shows "get_tree (tree_of x kvs None) (path_of x k) = map_of (rev kvs) k"
proof -
  have "get_tree (tree_of x kvs None) (path_of x k) =
      (case map_of (rev (map (\<lambda>(key, v). (path_of x key, v)) kvs)) (path_of x k) of None \<Rightarrow> get_tree None (path_of x k) | Some v \<Rightarrow> Some v)"
    using path_of_key by (intro get_tree_of) auto
  then show ?thesis
    using map_of_paths [of x k "rev kvs"] assms by (simp add: rev_map get_tree_def split: option.splits)
qed

text \<open>C13: The trie is a map.  Pairs inserted into a fresh trie over the cached node database, with no two
  different nodes in play and no two of the keys hashed alike, are all inserted without an error, and a
  lookup returns the value inserted last under the key, or none.  The same answer comes from the trie
  opened again from its root, with an empty cache, over the database it left.\<close>

theorem inserted_values_are_found:
  assumes "rlp_laws x" "inj_on (node_hash x) (nodes_written x kvs None)" "inj_on (keccak256 x) (insert k (fst ` set kvs))" "kvs \<noteq> []"
  shows "\<exists>t. trie_insert_all x (cached_trie_db mem_trie_db) kvs (trie_new (cached_new Map.empty)) = Some (Inr (), t) \<and>
    map_option fst (trie_get x (cached_trie_db mem_trie_db) k t) = Some (Inr (map_of (rev kvs) k)) \<and>
    map_option fst (trie_get x (cached_trie_db mem_trie_db) k (from_root (trie_root t) (tr_db t))) = Some (Inr (map_of (rev kvs) k))"
proof -
  let ?S = "nodes_written x kvs None"
  obtain t where t: "trie_insert_all x (cached_trie_db mem_trie_db) kvs (trie_new (cached_new Map.empty)) = Some (Inr (), t)"
      "cached_mem_trie.trie_holds x ?S t (tree_of x kvs None)"
    using filled_cached_trie [OF assms(1,2)] by blast
  have "tree_of x kvs (Some p) \<noteq> None" for p kvs by (induction kvs arbitrary: p) auto
  then have "tree_of x kvs None \<noteq> None" using assms(4) by (cases kvs) auto
  then obtain p where p: "tree_of x kvs None = Some p" by blast
  note h = cached_mem_trie.from_root_holds [OF t(2) [unfolded p]]
  show ?thesis
    using t(1) cached_mem_trie.trie_get_sound [OF assms(1,2) t(2), of k] cached_mem_trie.trie_get_sound [OF assms(1,2) h, of k]
      get_filled [OF assms(3)] unfolding p by auto
qed

theorem inserted_values_are_found_witness:
  "\<exists>t. trie_insert_all sample_rlp (cached_trie_db mem_trie_db) sample_pairs (trie_new (cached_new Map.empty)) = Some (Inr (), t) \<and>
    map_option fst (trie_get sample_rlp (cached_trie_db mem_trie_db) [0, 1] t) = Some (Inr (Some [7, 7, 7, 7])) \<and>
    map_option fst (trie_get sample_rlp (cached_trie_db mem_trie_db) [0, 1] (from_root (trie_root t) (tr_db t))) = Some (Inr (Some [7, 7, 7, 7]))"
proof -
  have "inj_on (keccak256 sample_rlp) (insert [0, 1] (fst ` set sample_pairs))" "sample_pairs \<noteq> []" by code_simp+
  from inserted_values_are_found [OF sample_rlp_laws sample_pairs_distinct(1) this]
  show ?thesis by (simp add: sample_pairs_def)
qed

text \<open>C14: The root of a trie is determined by its contents.  Two sequences of insertions that leave the same
  map, whatever their order and whatever they overwrote, end with the same root hash.\<close>

theorem root_determined_by_contents:
  assumes "rlp_laws x" "map_of (rev kvs) = map_of (rev kvs')" "inj_on (keccak256 x) (fst ` set kvs)"
    "inj_on (node_hash x) (nodes_written x kvs None)" "inj_on (node_hash x) (nodes_written x kvs' None)"
  shows "\<exists>t t'. trie_insert_all x mem_trie_db kvs (trie_new Map.empty) = Some (Inr (), t) \<and>
    trie_insert_all x mem_trie_db kvs' (trie_new Map.empty) = Some (Inr (), t') \<and> trie_root t = trie_root t'"
proof -
  have dom: "fst ` set kvs' = fst ` set kvs" using arg_cong [OF assms(2), of dom] by (simp add: dom_map_of_conv_image_fst)
  have "get_tree (tree_of x kvs None) k = get_tree (tree_of x kvs' None) k" if k: "key_of 64 k" for k
  proof (cases "k \<in> path_of x ` fst ` set kvs")
    case True
    then obtain a where a: "a \<in> fst ` set kvs" "k = path_of x a" by blast
    have keys: "insert a (fst ` set kvs) = fst ` set kvs" "insert a (fst ` set kvs') = fst ` set kvs" using a(1) dom by blast+
    show ?thesis using get_filled [of x a kvs] get_filled [of x a kvs'] assms(2,3) unfolding a(2) keys by metis
  next
    case False
    then show ?thesis
      using get_tree_of [OF _ k, of None x] map_of_no_path [of k x "rev kvs"] map_of_no_path [of k x "rev kvs'"] dom by (simp add: rev_map)
  qed
  moreover obtain t where t: "trie_insert_all x mem_trie_db kvs (trie_new Map.empty) = Some (Inr (), t)"
      "mem_trie.trie_holds x (nodes_written x kvs None) t (tree_of x kvs None)" using filled_trie [OF assms(1,4)] by blast
  moreover obtain t' where t': "trie_insert_all x mem_trie_db kvs' (trie_new Map.empty) = Some (Inr (), t')"
      "mem_trie.trie_holds x (nodes_written x kvs' None) t' (tree_of x kvs' None)" using filled_trie [OF assms(1,5)] by blast
  ultimately have "tree_of x kvs None = tree_of x kvs' None"
    using same_trees [of "tree_of x kvs None" "tree_of x kvs' None"] by (auto simp: mem_trie.trie_holds_def)
  then show ?thesis using t t' by (auto simp: mem_trie.trie_holds_def trie_root_def)
qed

theorem root_determined_by_contents_witness:
  "\<exists>t t'. trie_insert_all sample_rlp mem_trie_db sample_pairs (trie_new Map.empty) = Some (Inr (), t) \<and>
    trie_insert_all sample_rlp mem_trie_db (rev sample_pairs) (trie_new Map.empty) = Some (Inr (), t') \<and> trie_root t = trie_root t'"
proof -
  have "map_of (rev sample_pairs) = map_of (rev (rev sample_pairs))" by (auto simp: sample_pairs_def)
  moreover have "inj_on (keccak256 sample_rlp) (fst ` set sample_pairs)" by code_simp
  ultimately show ?thesis by (intro root_determined_by_contents sample_rlp_laws sample_pairs_distinct)
qed

end
