(* ===== verification/TrieProofs.thy ===== *)
theory TrieProofs
  imports TrieMap
begin

section \<open>Proofs from the trie\<close>

text \<open>
  What \<open>get_proof\<close> collects and what \<open>verify_unspent_proof\<close> accepts.  In a tree without extensions
  the collected nodes are the path to the key, they are accepted with the stored value, and nothing
  else is.  Under an extension the hash of the child is not checked, so any value passes, and the
  collected nodes are those of another path.
\<close>

subsection \<open>The path to a key\<close>

fun proof_path :: "'e rlp_externals_scheme \<Rightarrow> ptree \<Rightarrow> u8 list \<Rightarrow> TrieNode list" where
  "proof_path x (PLeaf s v) k = [pt_node x (PLeaf s v)]"
| "proof_path x (PExt p t) k =
     pt_node x (PExt p t) # (if take (length p) k = p then proof_path x t (drop (length p) k) else [])"
| "proof_path x (PBranch ts) k = pt_node x (PBranch ts) #
     (case k of [] \<Rightarrow> [] | d # k \<Rightarrow> (case ts ! unat d of None \<Rightarrow> [] | Some t \<Rightarrow> proof_path x t k))"

fun flat :: "ptree \<Rightarrow> bool" where
  "flat (PLeaf s v) = True"
| "flat (PExt p t) = False"
| "flat (PBranch ts) = (\<forall>c \<in> set ts. case c of None \<Rightarrow> True | Some t \<Rightarrow> flat t)"

lemma proof_path_hd: "\<exists>ns. proof_path x t k = pt_node x t # ns"
  by (cases t) simp_all

subsection \<open>Reading an encoded node\<close>

lemma rlp_read_encode: "rlp_laws x \<Longrightarrow> i < length items \<Longrightarrow> rlp_read x (rlp_encode x items) i = Inr (items ! i)"
  unfolding rlp_laws_def rlp_read_def by (metis and_then_simps(2))

lemma branch_item_encode:
  assumes "rlp_laws x" "i < length items"
  shows "branch_item x (rlp_encode x items) i = Inr (if items ! i = [] then None else Some (items ! i))"
proof -
  obtain raw where "rlp_at x (rlp_encode x items) i = Inr raw" "rlp_bytes x raw = Inr (items ! i)" "rlp_is_empty x raw \<longleftrightarrow> items ! i = []"
    using assms unfolding rlp_laws_def by blast
  then show ?thesis by (simp add: branch_item_def)
qed

definition leaf_accepts :: "NibbleSlice \<Rightarrow> nat \<Rightarrow> u8 list option \<Rightarrow> nat \<Rightarrow> u8 list \<Rightarrow> u8 list \<Rightarrow> bool" where
  "leaf_accepts key n expected consumed s v \<longleftrightarrow>
     consumed + length s = n \<and> nibbles_match key consumed s \<and> (case expected of None \<Rightarrow> True | Some e \<Rightarrow> v = e)"

text \<open>What the verifier does at the encoding of each kind of node.\<close>

lemma verify_leaf:
  assumes "rlp_laws x" "nibbles_ok s"
  shows "verify_nodes x key n expected (encode_node x (Leaf \<lparr>ln_key_suffix = s, ln_value = v\<rparr>) # rest) consumed
    = leaf_accepts key n expected consumed s v"
  using assms rlp_read_encode [OF assms(1), of 0 "[encode_hex_prefix s True, v]"] rlp_read_encode [OF assms(1), of 1 "[encode_hex_prefix s True, v]"]
  by (simp add: rlp_laws_def decode_encode_hex_prefix leaf_accepts_def)

lemma verify_ext:
  assumes "rlp_laws x" "nibbles_ok p"
  shows "verify_nodes x key n expected (encode_node x (Extension \<lparr>en_prefix = p, en_child = h\<rparr>) # rest) consumed
    \<longleftrightarrow> consumed + length p \<le> n \<and> nibbles_match key consumed p \<and> verify_nodes x key n expected rest (consumed + length p)"
  using assms rlp_read_encode [OF assms(1), of 0 "[encode_hex_prefix p False, be_bytes h]"]
  by (auto simp: rlp_laws_def decode_encode_hex_prefix)

lemma verify_branch:
  assumes "rlp_laws x" "length cs = 16" "ns_at key consumed < 16" "consumed < n"
  shows "verify_nodes x key n expected (encode_node x (Branch \<lparr>bn_children = cs, bn_value = None\<rparr>) # rest) consumed
    \<longleftrightarrow> (case (cs ! unat (ns_at key consumed), rest) of
           (Some h, following # _) \<Rightarrow> keccak256 x following = h \<and> verify_nodes x key n expected rest (consumed + 1)
         | _ \<Rightarrow> False)"
proof -
  let ?f = "\<lambda>c. case c of None \<Rightarrow> [] | Some h \<Rightarrow> be_bytes (h :: hash)"
  let ?items = "map ?f cs @ [[]]"
  have n: "be_bytes (h :: hash) \<noteq> []" for h using length_be_bytes [of h] by fastforce
  have "branch_item x (rlp_encode x ?items) i = Inr (map_option be_bytes (cs ! i))" if "i < 16" for i
    using branch_item_encode [OF assms(1), of i ?items] that assms(2) n by (auto simp: nth_append split: option.splits)
  then have "try_map (branch_item x (rlp_encode x ?items)) [0..<16] = Inr (map (\<lambda>i. map_option be_bytes (cs ! i)) [0..<16])"
    by (intro try_map_all_Inr) simp
  moreover have "branch_item x (rlp_encode x ?items) 16 = Inr None"
    using branch_item_encode [OF assms(1), of 16 ?items] assms(2) by (simp add: nth_append)
  moreover have "unat (ns_at key consumed) < 16" using assms(3) by (simp add: word_less_nat_alt)
  moreover have "length (be_bytes (h :: hash)) = 32" for h by (simp add: length_be_bytes)
  ultimately show ?thesis using assms(1,2,4) 
    by (cases "cs ! unat (ns_at key consumed)"; cases rest) (auto simp: rlp_laws_def)
qed

lemma nibbles_match_drop:
  assumes "ns_offset key = 0" "consumed + length s \<le> length (key_nibbles key)"
  shows "nibbles_match key consumed s \<longleftrightarrow> take (length s) (drop consumed (key_nibbles key)) = s"
proof -
  have "ns_at key (consumed + j) = drop consumed (key_nibbles key) ! j" if "j < length s" for j
    using slice_facts(2) [OF assms(1), of 0 "consumed + j"] that assms(2) by simp
  then have "nibbles_match key consumed s \<longleftrightarrow> (\<forall>j < length s. s ! j = drop consumed (key_nibbles key) ! j)"
    by (auto simp: nibbles_match_def)
  also have "\<dots> \<longleftrightarrow> take (length s) (drop consumed (key_nibbles key)) = s"
    using assms(2) by (auto simp: list_eq_iff_nth_eq simp del: key_nibbles_length)
  finally show ?thesis .
qed

lemma leaf_accepts_iff:
  assumes "ns_offset key = 0" "length (key_nibbles key) = n" "consumed + length s = n"
  shows "leaf_accepts key n (Some e) consumed s v \<longleftrightarrow> pt_get (PLeaf s v) (drop consumed (key_nibbles key)) = Some e"
  using assms nibbles_match_drop [OF assms(1), of consumed s] by (auto simp: leaf_accepts_def simp del: key_nibbles_length)

text \<open>The nibble at a branch.\<close>

lemma branch_nibble:
  assumes "ns_offset key = 0" "consumed < length (key_nibbles key)"
  shows "drop consumed (key_nibbles key) = ns_at key consumed # drop (consumed + 1) (key_nibbles key)"
    "ns_at key consumed < 16" "unat (ns_at key consumed) < 16"
proof -
  have "ns_at key consumed = key_nibbles key ! consumed" using slice_facts(2) [OF assms(1), of 0] assms(2) by simp
  then show "drop consumed (key_nibbles key) = ns_at key consumed # drop (consumed + 1) (key_nibbles key)"
    using assms(2) by (simp add: Cons_nth_drop_Suc)
  show "ns_at key consumed < 16" by (rule ns_at_nibble)
  then show "unat (ns_at key consumed) < 16" by (simp add: word_less_nat_alt)
qed

subsection \<open>Completeness\<close>

text \<open>The path to a stored value is accepted with the value, with or without extensions.\<close>

lemma path_verifies:
  assumes "rlp_laws x" "ns_offset key = 0" "length (key_nibbles key) = N"
  shows "pt_wf n t \<Longrightarrow> consumed + n = N \<Longrightarrow> pt_get t (drop consumed (key_nibbles key)) = Some v \<Longrightarrow>
    verify_nodes x key N (Some v) (map (encode_node x) (proof_path x t (drop consumed (key_nibbles key)))) consumed"
proof (induction t arbitrary: n consumed)
  case (PLeaf s w)
  then show ?case using verify_leaf [OF assms(1), of s] leaf_accepts_iff [OF assms(2,3), of consumed s v w]
    by (simp del: key_nibbles_length verify_nodes.simps encode_node.simps)
next
  case (PExt p t)
  let ?k = "drop consumed (key_nibbles key)"
  have p: "take (length p) ?k = p" "pt_get t (drop (consumed + length p) (key_nibbles key)) = Some v"
    using PExt.prems(3) by (simp_all add: add.commute split: if_splits)
  have wf: "pt_wf (n - length p) t" "consumed + length p + (n - length p) = N" "nibbles_ok p" "consumed + length p \<le> N"
    using PExt.prems(1,2) by auto
  have m: "nibbles_match key consumed p" using nibbles_match_drop [OF assms(2), of consumed p] wf(4) assms(3) p(1) by simp
  have path: "proof_path x (PExt p t) ?k = pt_node x (PExt p t) # proof_path x t (drop (consumed + length p) (key_nibbles key))"
    unfolding proof_path.simps p(1) by (simp add: add.commute)
  show ?case using PExt.IH [OF wf(1,2) p(2)] verify_ext [OF assms(1) wf(3)] m wf(4)
    unfolding path by (simp del: verify_nodes.simps encode_node.simps)
next
  case (PBranch ts)
  have c: "consumed < length (key_nibbles key)" "consumed < N" "length ts = 16" using PBranch.prems(1,2) assms(3) by simp_all
  note k = branch_nibble [OF assms(2) c(1)]
  obtain t where t: "ts ! unat (ns_at key consumed) = Some t" "pt_get t (drop (consumed + 1) (key_nibbles key)) = Some v"
    using PBranch.prems(3) unfolding k(1) by (auto split: option.splits)
  then have "Some t \<in> set ts" using k(3) c(3) nth_mem [of "unat (ns_at key consumed)" ts] by simp
  then have wf: "pt_wf (n - 1) t" "consumed + 1 + (n - 1) = N" "Some t \<in> set ts" using PBranch.prems(1,2) by auto
  obtain ns where ns: "proof_path x t (drop (consumed + 1) (key_nibbles key)) = pt_node x t # ns" using proof_path_hd by blast
  have "keccak256 x (encode_node x (pt_node x t)) = pt_hash x t" by (simp add: node_hash_def)
  then show ?case
    using PBranch.IH [OF wf(3) _ wf(1,2) t(2)] verify_branch [OF assms(1) _ k(2) c(2), of "map (map_option (\<lambda>t. pt_hash x t)) ts"] c(3) t(1) k(3) ns
    unfolding k(1) by (simp del: verify_nodes.simps encode_node.simps)
qed

subsection \<open>Soundness without extensions\<close>

text \<open>With no two encodings in play hashed alike, an accepted proof carries the stored value.\<close>

lemma flat_proof_sound:
  assumes "rlp_laws x" "ns_offset key = 0" "length (key_nibbles key) = N"
  shows "pt_wf n t \<Longrightarrow> flat t \<Longrightarrow> consumed + n = N \<Longrightarrow> keccak256 x data = pt_hash x t \<Longrightarrow>
    inj_on (keccak256 x) (set (data # rest) \<union> encode_node x ` pt_nodes x t) \<Longrightarrow>
    verify_nodes x key N (Some v) (data # rest) consumed \<Longrightarrow> pt_get t (drop consumed (key_nibbles key)) = Some v"
proof (induction t arbitrary: n consumed data rest)
  case (PLeaf s w)
  have s: "nibbles_ok s" "consumed + length s = N" using PLeaf.prems(1,3) by simp_all
  have "data = encode_node x (Leaf \<lparr>ln_key_suffix = s, ln_value = w\<rparr>)"
    by (rule inj_onD [OF PLeaf.prems(5)]) (use PLeaf.prems(4) in \<open>simp_all add: node_hash_def del: encode_node.simps\<close>)
  from PLeaf.prems(6) [unfolded this verify_leaf [OF assms(1) s(1)]]
  show ?case unfolding leaf_accepts_iff [OF assms(2,3) s(2)] .
next
  case (PExt p t)
  then show ?case by simp
next
  case (PBranch ts)
  have c: "consumed < length (key_nibbles key)" "consumed < N" "length ts = 16" using PBranch.prems(1,3) assms(3) by simp_all
  note k = branch_nibble [OF assms(2) c(1)]
  let ?i = "unat (ns_at key consumed)"
  have "data = encode_node x (pt_node x (PBranch ts))"
    by (rule inj_onD [OF PBranch.prems(5)])
      (use PBranch.prems(4) in \<open>simp_all add: node_hash_def del: encode_node.simps\<close>)
  then obtain t following more where t: "ts ! ?i = Some t" "rest = following # more" "keccak256 x following = pt_hash x t"
      "verify_nodes x key N (Some v) (following # more) (consumed + 1)"
    using PBranch.prems(6) verify_branch [OF assms(1) _ k(2) c(2), of "map (map_option (\<lambda>t. pt_hash x t)) ts"] c(3) k(3)
    by (auto simp del: verify_nodes.simps encode_node.simps split: option.splits list.splits)
  have u: "Some t \<in> set ts" using t(1) k(3) c(3) nth_mem [of ?i ts] by simp
  then have wf: "pt_wf (n - 1) t" "flat t" "consumed + 1 + (n - 1) = N" using PBranch.prems(1-3) by auto
  have sub: "pt_nodes x t \<subseteq> pt_nodes x (PBranch ts)" using k(3) c(3) by (intro child_nodes [OF t(1)]) simp
  then have "inj_on (keccak256 x) (set (following # more) \<union> encode_node x ` pt_nodes x t)"
    by (intro inj_on_subset [OF PBranch.prems(5)] Un_mono image_mono sub) (use t(2) in auto)
  from PBranch.IH [OF u _ wf t(3) this t(4)] show ?case using t(1) unfolding k(1) by simp
qed

subsection \<open>Collecting a proof\<close>

context trie_db
begin

lemma proof_walk_flat:
  assumes "rlp_laws x" "inj_on (node_hash x) S" "ns_offset key = 0"
  shows "pt_wf n t \<Longrightarrow> flat t \<Longrightarrow> length acc + n = length (key_nibbles key) \<Longrightarrow> ok x S s \<Longrightarrow> holds_tree x S db_map s t \<Longrightarrow>
    length acc + length (proof_path x t (drop (length acc) (key_nibbles key))) \<le> length (key_nibbles key) \<Longrightarrow>
    \<exists>s'. proof_walk x ops key (pt_hash x t) acc s =
      Some (Inr (acc @ map (encode_node x) (proof_path x t (drop (length acc) (key_nibbles key)))), s') \<and> tr_root s' = tr_root s"
proof (induction t arbitrary: n acc s)
  case (PLeaf r w)
  obtain s1 where "get_node_by_hash x ops (pt_hash x (PLeaf r w)) s = (Inr (pt_node x (PLeaf r w)), s1)" "reads_only db_map s s1"
    using get_node_sound [OF assms(1,2) PLeaf.prems(4)] holds_root [OF PLeaf.prems(5)] by blast
  then show ?case by (subst proof_walk.simps) (simp add: reads_only_def)
next
  case (PExt p t)
  then show ?case by simp
next
  case (PBranch ts)
  let ?K = "key_nibbles key"
  have c: "length acc < length ?K" "length ts = 16" using PBranch.prems(1,3) by simp_all
  note k = branch_nibble [OF assms(3) c(1)]
  let ?i = "unat (ns_at key (length acc))" and ?e = "encode_node x (pt_node x (PBranch ts))"
  obtain s1 where s1: "get_node_by_hash x ops (pt_hash x (PBranch ts)) s = (Inr (pt_node x (PBranch ts)), s1)" "ok x S s1" "reads_only db_map s s1"
    using get_node_sound [OF assms(1,2) PBranch.prems(4)] holds_root [OF PBranch.prems(5)] by blast
  have n: "ns_len key = Some (length ?K)" using slice_facts(6) [OF assms(3), of 0] by simp
  show ?case
  proof (cases "ts ! ?i")
    case None
    then show ?thesis using s1(1,3) n c k(3) unfolding k(1)
      by (subst proof_walk.simps) (auto simp: reads_only_def Let_def simp del: encode_node.simps key_nibbles_length)
  next
    case (Some t)
    have u: "Some t \<in> set ts" using Some k(3) c(2) nth_mem [of ?i ts] by simp
    then have wf: "pt_wf (n - 1) t" "flat t" "length (acc @ [?e]) + (n - 1) = length ?K" using PBranch.prems(1-3) by auto
    have h1: "holds_tree x S db_map s1 t"
      using s1(3) k(3) c(2) by (intro holds_mono [OF holds_child [OF PBranch.prems(5) Some]]) (simp_all add: reads_only_def)
    have path: "proof_path x (PBranch ts) (drop (length acc) ?K) = pt_node x (PBranch ts) # proof_path x t (drop (length (acc @ [?e])) ?K)"
      unfolding k(1) using Some by simp
    obtain ns where "proof_path x t (drop (length (acc @ [?e])) ?K) = pt_node x t # ns" using proof_path_hd by blast
    then have l: "length (acc @ [?e]) + length (proof_path x t (drop (length (acc @ [?e])) ?K)) \<le> length ?K" "\<not> length ?K \<le> length acc + 1"
      using PBranch.prems(6) unfolding path by simp_all
    obtain s2 where "proof_walk x ops key (pt_hash x t) (acc @ [?e]) s1 =
        Some (Inr ((acc @ [?e]) @ map (encode_node x) (proof_path x t (drop (length (acc @ [?e])) ?K))), s2)" "tr_root s2 = tr_root s1"
      using PBranch.IH [OF u _ wf s1(2) h1 l(1)] by auto
    then show ?thesis using s1(1,3) n c k(3) Some l(2) unfolding path
      by (subst proof_walk.simps) (auto simp: reads_only_def Let_def simp del: encode_node.simps key_nibbles_length)
  qed
qed

lemma get_proof_flat:
  assumes "rlp_laws x" "inj_on (node_hash x) S" "trie_holds x S t (Some p)" "flat p" "length (proof_path x p (path_of x key)) \<le> 64"
  shows "\<exists>t'. get_proof x ops key t = Some (Inr \<lparr>tp_nodes = map (encode_node x) (proof_path x p (path_of x key)), tp_root = trie_root t\<rparr>, t')"
proof -
  have h: "ok x S t" "holds_tree x S db_map t p" "pt_wf 64 p" "tr_root t = Some (pt_hash x p)" using assms(3) by (simp_all add: trie_holds_def)
  have l: "length (path_of x key) = 64" by (simp add: path_of_key(1) del: key_nibbles_length)
  obtain t1 where "proof_walk x ops (hashed_key x key) (pt_hash x p) [] t = Some (Inr (map (encode_node x) (proof_path x p (path_of x key))), t1)" "tr_root t1 = tr_root t"
    using proof_walk_flat [OF assms(1,2) path_of_key(2) [of x key] h(3) assms(4) _ h(1,2), where acc = "[]"] assms(5) l by auto
  then show ?thesis using h(4) by (simp add: get_proof_def trie_root_def)
qed

text \<open>Below an extension the walk reads the wrong nibble.\<close>

lemma get_proof_ext:
  assumes "rlp_laws x" "inj_on (node_hash x) S" "trie_holds x S t (Some (PExt p (PBranch ts)))" "take (length p) (path_of x key) = p" "1 < length p"
    and "ts ! unat (p ! 1) = None"
  shows "\<exists>t'. get_proof x ops key t =
    Some (Inr \<lparr>tp_nodes = map (encode_node x) [pt_node x (PExt p (PBranch ts)), pt_node x (PBranch ts)], tp_root = trie_root t\<rparr>, t')"
proof -
  let ?e = "PExt p (PBranch ts)"
  have h: "ok x S t" "holds_tree x S db_map t ?e" "pt_wf 64 ?e" "tr_root t = Some (pt_hash x ?e)" using assms(3) by (simp_all add: trie_holds_def)
  have l: "length (path_of x key) = 64" by (simp add: path_of_key(1) del: key_nibbles_length)
  have at: "ns_at (hashed_key x key) 1 = p ! 1"
    using slice_facts(2) [of "hashed_key x key" 0 1] path_of_key(2) [of x key] l arg_cong [OF assms(4), of "\<lambda>ns. ns ! 1"] assms(5) by simp
  have n: "ns_len (hashed_key x key) = Some 64" using slice_facts(6) [of "hashed_key x key" 0] path_of_key(2) [of x key] l by simp
  have "p ! 1 \<in> set p" using assms(5) by simp
  then have i: "unat (p ! 1) < length ts" using h(3) by (auto simp: nibbles_ok_def word_less_nat_alt)
  obtain t1 where t1: "get_node_by_hash x ops (pt_hash x ?e) t = (Inr (pt_node x ?e), t1)" "ok x S t1" "reads_only db_map t t1"
    using get_node_sound [OF assms(1,2) h(1)] holds_root [OF h(2)] by blast
  have "holds_tree x S db_map t1 (PBranch ts)" using t1(3) by (intro holds_mono [OF holds_ext [OF h(2)]]) (simp add: reads_only_def)
  then obtain t2 where t2: "get_node_by_hash x ops (pt_hash x (PBranch ts)) t1 = (Inr (pt_node x (PBranch ts)), t2)" "reads_only db_map t1 t2"
    using get_node_sound [OF assms(1,2) t1(2)] holds_root by blast
  have "proof_walk x ops (hashed_key x key) (pt_hash x (PBranch ts)) [encode_node x (pt_node x ?e)] t1
      = Some (Inr (map (encode_node x) [pt_node x ?e, pt_node x (PBranch ts)]), t2)"
    using t2(1) n at i assms(6) by (subst proof_walk.simps) (simp del: encode_node.simps)
  then have "proof_walk x ops (hashed_key x key) (pt_hash x ?e) [] t = Some (Inr (map (encode_node x) [pt_node x ?e, pt_node x (PBranch ts)]), t2)"
    using t1(1) by (subst proof_walk.simps) (simp del: encode_node.simps)
  then show ?thesis using h(4) t1(3) t2(2) by (simp add: get_proof_def trie_root_def reads_only_def del: encode_node.simps)
qed

end

lemma honest_proof:
  assumes "rlp_laws x" "inj_on (node_hash x) (nodes_written x kvs None)" "inj_on (keccak256 x) (insert key (fst ` set kvs))"
    and "tree_of x kvs None = Some p" "flat p" "length (proof_path x p (path_of x key)) \<le> 64" "map_of (rev kvs) key = Some v"
  obtains t t' where "trie_insert_all x mem_trie_db kvs (trie_new Map.empty) = Some (Inr (), t)"
    "get_proof x mem_trie_db key t = Some (Inr \<lparr>tp_nodes = map (encode_node x) (proof_path x p (path_of x key)), tp_root = trie_root t\<rparr>, t')"
    "verify_unspent_proof x (trie_root t) key (Some v) \<lparr>tp_nodes = map (encode_node x) (proof_path x p (path_of x key)), tp_root = trie_root t\<rparr>"
proof -
  obtain t where t: "trie_insert_all x mem_trie_db kvs (trie_new Map.empty) = Some (Inr (), t)" "mem_trie.trie_holds x (nodes_written x kvs None) t (Some p)"
    using filled_trie [OF assms(1,2)] assms(4) by auto
  then have root: "trie_root t = pt_hash x p" "pt_wf 64 p" by (simp_all add: mem_trie.trie_holds_def trie_root_def)
  obtain t' where t': "get_proof x mem_trie_db key t =
      Some (Inr \<lparr>tp_nodes = map (encode_node x) (proof_path x p (path_of x key)), tp_root = trie_root t\<rparr>, t')"
    using mem_trie.get_proof_flat [OF assms(1,2) t(2) assms(5,6)] by blast
  have l: "length (path_of x key) = 64" by (simp add: path_of_key(1) del: key_nibbles_length)
  have "pt_get p (path_of x key) = Some v" using get_filled [OF assms(3)] assms(4,7) by (simp add: get_tree_def)
  then have "verify_nodes x (hashed_key x key) 64 (Some v) (map (encode_node x) (proof_path x p (path_of x key))) 0"
    using path_verifies [OF assms(1) path_of_key(2) l root(2), of 0 v] by simp
  moreover obtain ns where "proof_path x p (path_of x key) = pt_node x p # ns" using proof_path_hd by blast
  ultimately have "verify_unspent_proof x (trie_root t) key (Some v) \<lparr>tp_nodes = map (encode_node x) (proof_path x p (path_of x key)), tp_root = trie_root t\<rparr>"
    using root(1) by (simp add: verify_unspent_proof_def node_hash_def del: verify_nodes.simps)
  then show thesis using t(1) t' that by blast
qed

text \<open>Two keys that differ in the first nibble.\<close>

definition sample_flat :: "(u8 list \<times> u8 list) list" where
  "sample_flat = [([16, 0], [7, 7, 7, 7]), ([32, 0], [8, 8, 8, 8, 8, 8, 8])]"

abbreviation sample_left :: ptree where "sample_left \<equiv> PLeaf (replicate 63 0) [7, 7, 7, 7]"
abbreviation sample_right :: ptree where "sample_right \<equiv> PLeaf (replicate 63 0) [8, 8, 8, 8, 8, 8, 8]"
abbreviation sample_top :: ptree where
  "sample_top \<equiv> PBranch (None # Some sample_left # Some sample_right # replicate 13 None)"

lemma sample_flat_path: "path_of sample_rlp [16, 0] = 1 # replicate 63 0" "path_of sample_rlp [32, 0] = 2 # replicate 63 0"
  by code_simp+

lemma sample_flat_fork: "put_tree (2 # replicate 63 0) [8, 8, 8, 8, 8, 8, 8] (Some (PLeaf (1 # replicate 63 0) [7, 7, 7, 7])) = sample_top"
  by code_simp

lemma sample_flat_tree:
  "tree_of sample_rlp sample_flat None = Some sample_top"
  "nodes_written sample_rlp sample_flat None = insert (pt_node sample_rlp (PLeaf (1 # replicate 63 0) [7, 7, 7, 7])) (pt_nodes sample_rlp sample_top)"
proof -
  have l: "put_tree k v None = PLeaf k v" for k v by (simp add: put_tree_def)
  show "tree_of sample_rlp sample_flat None = Some sample_top"
    "nodes_written sample_rlp sample_flat None = insert (pt_node sample_rlp (PLeaf (1 # replicate 63 0) [7, 7, 7, 7])) (pt_nodes sample_rlp sample_top)"
    unfolding sample_flat_def tree_of.simps nodes_written.simps
    by (simp_all only: sample_flat_path l sample_flat_fork pt_nodes.simps(1) Un_empty_right insert_is_Un [symmetric])
qed

lemma sample_top_nodes: "pt_nodes sample_rlp sample_top = pt_node sample_rlp ` {sample_top, sample_left, sample_right}"
  by (auto simp del: pt_node.simps)

lemma sample_flat_hashes:
  "pt_hash sample_rlp sample_left = 75" "pt_hash sample_rlp sample_right = 81"
  "pt_hash sample_rlp (PLeaf (1 # replicate 63 0) [7, 7, 7, 7]) = 77" "pt_hash sample_rlp sample_top = 146"
  by code_simp+

lemma sample_flat_distinct: "inj_on (node_hash sample_rlp) (nodes_written sample_rlp sample_flat None)"
proof -
  let ?ts = "[PLeaf (1 # replicate 63 0) [7, 7, 7, 7], sample_top, sample_left, sample_right]"
  have "distinct (map (node_hash sample_rlp) (map (pt_node sample_rlp) ?ts))" unfolding list.map sample_flat_hashes by simp
  then have "inj_on (node_hash sample_rlp) (pt_node sample_rlp ` set ?ts)" by (simp only: distinct_map set_map)
  then show ?thesis unfolding sample_flat_tree sample_top_nodes by (simp only: list.set image_insert)
qed

lemma sample_flat_keys: "inj_on (keccak256 sample_rlp) (insert [16, 0] (fst ` set sample_flat))"
  by (simp add: sample_flat_def sample_rlp_def sample_keccak_def)

lemma sample_flat_proof_path:
  "proof_path sample_rlp sample_top (path_of sample_rlp [16, 0]) = [pt_node sample_rlp sample_top, pt_node sample_rlp sample_left]"
  unfolding sample_flat_path by (simp del: pt_node.simps)

lemma sample_flat_encodings:
  "inj_on (keccak256 sample_rlp) (set (map (encode_node sample_rlp) (proof_path sample_rlp sample_top (path_of sample_rlp [16, 0]))) \<union>
     encode_node sample_rlp ` pt_nodes sample_rlp sample_top)"
proof -
  have "set (map (encode_node sample_rlp) (proof_path sample_rlp sample_top (path_of sample_rlp [16, 0]))) \<union> encode_node sample_rlp ` pt_nodes sample_rlp sample_top
      = encode_node sample_rlp ` pt_nodes sample_rlp sample_top"
    unfolding sample_flat_proof_path sample_top_nodes by auto
  moreover have "inj_on (keccak256 sample_rlp \<circ> encode_node sample_rlp) (pt_nodes sample_rlp sample_top)"
    using sample_flat_distinct unfolding sample_flat_tree(2) by (simp add: node_hash_def [abs_def] comp_def)
  ultimately show ?thesis using inj_on_imageI by metis
qed

lemma sample_flat_proof_found:
  obtains t t' where "trie_insert_all sample_rlp mem_trie_db sample_flat (trie_new Map.empty) = Some (Inr (), t)"
    "verify_unspent_proof sample_rlp (trie_root t) [16, 0] (Some [7, 7, 7, 7])
       \<lparr>tp_nodes = map (encode_node sample_rlp) (proof_path sample_rlp sample_top (path_of sample_rlp [16, 0])), tp_root = trie_root t\<rparr>"
  by (rule honest_proof [OF sample_rlp_laws sample_flat_distinct sample_flat_keys sample_flat_tree(1)])
    (unfold sample_flat_proof_path, auto simp: sample_flat_def)

subsection \<open>The properties\<close>

text \<open>C15: A proof that is accepted is right, when no extension is on the way.  For a trie filled with pairs
  whose tree has no extension, any list of nodes that the verifier accepts against the root with a value,
  from whomever it comes, carries the value stored last under the key; no two byte strings in play hash
  alike.\<close>

theorem accepted_value_is_stored:
  assumes "rlp_laws x" "inj_on (node_hash x) (nodes_written x kvs None)" "inj_on (keccak256 x) (insert key (fst ` set kvs))"
    and "tree_of x kvs None = Some p" "flat p" "inj_on (keccak256 x) (set (tp_nodes proof) \<union> encode_node x ` pt_nodes x p)"
    and "trie_insert_all x mem_trie_db kvs (trie_new Map.empty) = Some (Inr (), t)" "verify_unspent_proof x (trie_root t) key (Some v) proof"
  shows "map_of (rev kvs) key = Some v"
proof -
  have h: "mem_trie.trie_holds x (nodes_written x kvs None) t (Some p)" using filled_trie [OF assms(1,2)] assms(4,7) by auto
  then have root: "trie_root t = pt_hash x p" "pt_wf 64 p" by (simp_all add: mem_trie.trie_holds_def trie_root_def)
  obtain data rest where nodes: "tp_nodes proof = data # rest" "keccak256 x data = pt_hash x p"
      "verify_nodes x (hashed_key x key) 64 (Some v) (data # rest) 0"
    using assms(8) root(1) by (auto simp: verify_unspent_proof_def simp del: verify_nodes.simps split: list.splits if_splits)
  have l: "length (path_of x key) = 64" by (simp add: path_of_key(1) del: key_nibbles_length)
  have "pt_get p (drop 0 (path_of x key)) = Some v"
    using flat_proof_sound [OF assms(1) path_of_key(2) l root(2) assms(5) _ nodes(2) _ nodes(3)] assms(6) nodes(1) by simp
  then show ?thesis using get_filled [OF assms(3)] assms(4) by (simp add: get_tree_def)
qed

theorem accepted_value_is_stored_witness:
  "\<exists>t proof. trie_insert_all sample_rlp mem_trie_db sample_flat (trie_new Map.empty) = Some (Inr (), t) \<and>
    verify_unspent_proof sample_rlp (trie_root t) [16, 0] (Some [7, 7, 7, 7]) proof \<and> map_of (rev sample_flat) [16, 0] = Some [7, 7, 7, 7]"
proof -
  obtain t where t: "trie_insert_all sample_rlp mem_trie_db sample_flat (trie_new Map.empty) = Some (Inr (), t)"
    "verify_unspent_proof sample_rlp (trie_root t) [16, 0] (Some [7, 7, 7, 7])
       \<lparr>tp_nodes = map (encode_node sample_rlp) (proof_path sample_rlp sample_top (path_of sample_rlp [16, 0])), tp_root = trie_root t\<rparr>"
    by (rule sample_flat_proof_found)
  have "map_of (rev sample_flat) [16, 0] = Some [7, 7, 7, 7]"
    using accepted_value_is_stored [OF sample_rlp_laws sample_flat_distinct sample_flat_keys sample_flat_tree(1) _ _ t] sample_flat_encodings by simp
  then show ?thesis using t by blast
qed

text \<open>C17: A stored value is proved.  In the same trie, the proof collected for a key that is stored is
  accepted with the stored value, as long as the path is at most 64 nodes long.\<close>

theorem stored_value_is_proved:
  assumes "rlp_laws x" "inj_on (node_hash x) (nodes_written x kvs None)" "inj_on (keccak256 x) (insert key (fst ` set kvs))"
    and "tree_of x kvs None = Some p" "flat p" "length (proof_path x p (path_of x key)) \<le> 64" "map_of (rev kvs) key = Some v"
  shows "\<exists>t t' proof. trie_insert_all x mem_trie_db kvs (trie_new Map.empty) = Some (Inr (), t) \<and>
    get_proof x mem_trie_db key t = Some (Inr proof, t') \<and> verify_unspent_proof x (trie_root t) key (Some v) proof"
  using honest_proof [OF assms] by blast

theorem stored_value_is_proved_witness:
  "\<exists>t t' proof. trie_insert_all sample_rlp mem_trie_db sample_flat (trie_new Map.empty) = Some (Inr (), t) \<and>
    get_proof sample_rlp mem_trie_db [16, 0] t = Some (Inr proof, t') \<and> verify_unspent_proof sample_rlp (trie_root t) [16, 0] (Some [7, 7, 7, 7]) proof"
  by (rule stored_value_is_proved [OF sample_rlp_laws sample_flat_distinct sample_flat_keys sample_flat_tree(1)])
    (unfold sample_flat_proof_path, auto simp: sample_flat_def)

text \<open>C16: Below an extension a proof can be forged.  When the root of a filled trie is an extension that fits
  the hashed key, the verifier accepts any value for the key: the forged leaf is not tied to the child of
  the extension.\<close>

theorem extension_root_accepts_any_value:
  assumes "rlp_laws x" "inj_on (node_hash x) (nodes_written x kvs None)" "tree_of x kvs None = Some (PExt p u)" "take (length p) (path_of x key) = p"
  shows "\<exists>t proof. trie_insert_all x mem_trie_db kvs (trie_new Map.empty) = Some (Inr (), t) \<and>
    verify_unspent_proof x (trie_root t) key (Some v) proof"
proof -
  let ?K = "path_of x key" and ?e = "Extension \<lparr>en_prefix = p, en_child = pt_hash x u\<rparr>"
  obtain t where t: "trie_insert_all x mem_trie_db kvs (trie_new Map.empty) = Some (Inr (), t)" "mem_trie.trie_holds x (nodes_written x kvs None) t (Some (PExt p u))"
    using filled_trie [OF assms(1,2)] assms(3) by auto
  then have root: "trie_root t = keccak256 x (encode_node x ?e)" "pt_wf 64 (PExt p u)"
    by (simp_all add: mem_trie.trie_holds_def trie_root_def node_hash_def)
  have l: "length ?K = 64" "nibbles_ok ?K" using path_of_key(1) [of x key] by simp_all
  let ?f = "Leaf \<lparr>ln_key_suffix = drop (length p) ?K, ln_value = v\<rparr>"
  have "leaf_accepts (hashed_key x key) 64 (Some v) (length p) (drop (length p) ?K) v"
    using leaf_accepts_iff [OF path_of_key(2) l(1), of "length p" "drop (length p) ?K" v v] root(2) l(1) by simp
  then have "verify_nodes x (hashed_key x key) 64 (Some v) [encode_node x ?f] (length p)"
    using verify_leaf [OF assms(1) nibbles_ok_drop [OF l(2)]] by blast
  moreover have "nibbles_match (hashed_key x key) 0 p"
    using nibbles_match_drop [OF path_of_key(2) [of x key], of 0 p] assms(4) root(2) l(1) by simp
  ultimately have "verify_nodes x (hashed_key x key) 64 (Some v) [encode_node x ?e, encode_node x ?f] 0"
    using verify_ext [OF assms(1), of p] root(2) by (simp del: verify_nodes.simps encode_node.simps)
  then have "verify_unspent_proof x (trie_root t) key (Some v) \<lparr>tp_nodes = [encode_node x ?e, encode_node x ?f], tp_root = trie_root t\<rparr>"
    using root(1) by (simp add: verify_unspent_proof_def del: verify_nodes.simps encode_node.simps)
  then show ?thesis using t(1) by blast
qed

theorem extension_root_accepts_any_value_witness:
  "\<exists>t proof. trie_insert_all sample_rlp mem_trie_db sample_pairs (trie_new Map.empty) = Some (Inr (), t) \<and>
    verify_unspent_proof sample_rlp (trie_root t) [0, 1] (Some [66]) proof"
  by (rule extension_root_accepts_any_value [OF sample_rlp_laws sample_pairs_distinct(1) sample_trees(1) [unfolded sample_fork_def]])
    (simp add: sample_path)

text \<open>Below an extension an honest proof is refused.  When the root is an extension of two nibbles or more
  over a branch that has no child at the second nibble of the prefix, the proof collected for a key
  that is stored below it is accepted for no value: the walk reads the nibble at the number of nodes and
  not behind the prefix.\<close>

theorem proof_below_extension_is_refused:
  assumes "rlp_laws x" "inj_on (node_hash x) (nodes_written x kvs None)" "tree_of x kvs None = Some (PExt p (PBranch ts))"
    and "take (length p) (path_of x key) = p" "1 < length p" "ts ! unat (p ! 1) = None"
  shows "\<exists>t t' proof. trie_insert_all x mem_trie_db kvs (trie_new Map.empty) = Some (Inr (), t) \<and>
    get_proof x mem_trie_db key t = Some (Inr proof, t') \<and> \<not> verify_unspent_proof x (trie_root t) key expected proof"
proof -
  obtain t where t: "trie_insert_all x mem_trie_db kvs (trie_new Map.empty) = Some (Inr (), t)"
      "mem_trie.trie_holds x (nodes_written x kvs None) t (Some (PExt p (PBranch ts)))"
    using filled_trie [OF assms(1,2)] assms(3) by auto
  then have wf: "pt_wf 64 (PExt p (PBranch ts))" by (simp add: mem_trie.trie_holds_def)
  obtain t' where t': "get_proof x mem_trie_db key t =
      Some (Inr \<lparr>tp_nodes = map (encode_node x) [pt_node x (PExt p (PBranch ts)), pt_node x (PBranch ts)], tp_root = trie_root t\<rparr>, t')"
    using mem_trie.get_proof_ext [OF assms(1,2) t(2) assms(4-6)] by blast
  have at: "ns_at (hashed_key x key) (length p) < 16" by (rule ns_at_nibble)
  have "\<not> verify_nodes x (hashed_key x key) 64 expected [encode_node x (pt_node x (PBranch ts))] (length p)"
    using verify_branch [OF assms(1) _ at, of "map (map_option (\<lambda>t. pt_hash x t)) ts" 64 expected "[]"] wf
    by (simp del: verify_nodes.simps encode_node.simps split: option.splits)
  then have "\<not> verify_nodes x (hashed_key x key) 64 expected (map (encode_node x) [pt_node x (PExt p (PBranch ts)), pt_node x (PBranch ts)]) 0"
    using verify_ext [OF assms(1), of p] wf by (simp del: verify_nodes.simps encode_node.simps)
  then have "\<not> verify_unspent_proof x (trie_root t) key expected
      \<lparr>tp_nodes = map (encode_node x) [pt_node x (PExt p (PBranch ts)), pt_node x (PBranch ts)], tp_root = trie_root t\<rparr>"
    by (simp add: verify_unspent_proof_def del: verify_nodes.simps encode_node.simps)
  then show ?thesis using t(1) t' by blast
qed

theorem proof_below_extension_is_refused_witness:
  "\<exists>t t' proof. trie_insert_all sample_rlp mem_trie_db sample_pairs (trie_new Map.empty) = Some (Inr (), t) \<and>
    get_proof sample_rlp mem_trie_db [0, 1] t = Some (Inr proof, t') \<and> \<not> verify_unspent_proof sample_rlp (trie_root t) [0, 1] (Some [7, 7, 7, 7]) proof"
  by (rule proof_below_extension_is_refused [OF sample_rlp_laws sample_pairs_distinct(1) sample_trees(1) [unfolded sample_fork_def]])
    (simp_all add: sample_path)

end
