(* ===== verification/TrieRemove.thy ===== *)
theory TrieRemove
  imports TrieProofs
begin

section \<open>Removal from the trie\<close>

text \<open>
  \<open>remove_recursive\<close> answers "nothing is left" both when it has removed a leaf and when the leaf belongs
  to another key, and it keeps a branch that has one child.  The first loses the other key, the second
  leaves a root that depends on the history.
\<close>

context trie_db
begin

text \<open>At a leaf nothing is left, whatever the key.\<close>

lemma remove_at_leaf:
  assumes "ns_offset key = 0" "depth \<le> length (key_nibbles key)"
  shows "remove_recursive x ops (Leaf \<lparr>ln_key_suffix = s, ln_value = v\<rparr>) key depth t =
    Some (Inr (None, if drop depth (key_nibbles key) = s then Some v else None), t)"
  using slice_facts(4) [OF assms, of s] by (subst remove_recursive.simps) simp

lemma remove_only_leaf:
  assumes "rlp_laws x" "inj_on (node_hash x) S" "trie_holds x S t (Some (PLeaf s v))"
  shows "\<exists>t'. trie_remove x ops key t = Some (Inr (if path_of x key = s then Some v else None), t') \<and> tr_root t' = None"
proof -
  have h: "ok x S t" "holds_tree x S db_map t (PLeaf s v)" "tr_root t = Some (pt_hash x (PLeaf s v))" using assms(3) by (simp_all add: trie_holds_def)
  obtain t1 where "get_node_by_hash x ops (pt_hash x (PLeaf s v)) t = (Inr (pt_node x (PLeaf s v)), t1)"
    using get_node_sound [OF assms(1,2) h(1)] holds_root [OF h(2)] by blast
  then show ?thesis using h(3) remove_at_leaf [OF path_of_key(2) [of x key], of 0 x s v t1] by (simp add: trie_remove_def)
qed

text \<open>At a branch the child is replaced by what is left of it, and a branch of one child stays.\<close>

lemma remove_below_branch:
  assumes "rlp_laws x" "inj_on (node_hash x) S" "trie_holds x S t (Some (PBranch ts))"
    and "path_of x key = d # k" "ts ! unat d = Some (PLeaf s v)" "ts ! j = Some u" "j < 16" "j \<noteq> unat d"
    and "pt_node x (PBranch (ts[unat d := None])) \<in> S"
  shows "\<exists>t'. trie_remove x ops key t = Some (Inr (if k = s then Some v else None), t') \<and>
    tr_root t' = Some (pt_hash x (PBranch (ts[unat d := None])))"
proof -
  let ?key = "hashed_key x key"
  have h: "ok x S t" "holds_tree x S db_map t (PBranch ts)" "tr_root t = Some (pt_hash x (PBranch ts))" "pt_wf 64 (PBranch ts)"
    using assms(3) by (simp_all add: trie_holds_def)
  have l: "length (path_of x key) = 64" "length ts = 16" using h(4) by (simp_all add: path_of_key(1) del: key_nibbles_length)
  have n: "ns_len ?key = Some 64" "ns_at ?key 0 = d" "ns_offset ?key = 0"
    using slice_facts(2,6) [of ?key 0] path_of_key(2) [of x key] l(1) assms(4) by simp_all
  have d: "unat d < 16" using n(2) ns_at_nibble [of ?key 0] by (simp add: word_less_nat_alt)
  obtain t1 where t1: "get_node_by_hash x ops (pt_hash x (PBranch ts)) t = (Inr (pt_node x (PBranch ts)), t1)" "ok x S t1" "reads_only db_map t t1"
    using get_node_sound [OF assms(1,2) h(1)] holds_root [OF h(2)] by blast
  have "holds_tree x S db_map t1 (PLeaf s v)"
    using d l(2) t1(3) by (intro holds_mono [OF holds_child [OF h(2) assms(5)]]) (simp_all add: reads_only_def)
  then obtain t2 where t2: "get_node_by_hash x ops (pt_hash x (PLeaf s v)) t1 = (Inr (pt_node x (PLeaf s v)), t2)" "ok x S t2" "reads_only db_map t1 t2"
    using get_node_sound [OF assms(1,2) t1(2)] holds_root by blast
  let ?cs = "map (map_option (\<lambda>t. pt_hash x t)) ts"
  have kids: "list_ex (\<lambda>c. c \<noteq> None) (?cs[unat d := None])"
    using assms(6-8) l(2) unfolding list_ex_length by (intro exI [of _ j]) simp
  obtain hn t3 where t3: "save_node x (Branch \<lparr>bn_children = ?cs[unat d := None], bn_value = None\<rparr>) t2 = (hn, t3)" by fastforce
  then have "save_node x (pt_node x (PBranch (ts[unat d := None]))) t2 = (hn, t3)" by (simp add: map_update)
  from save_node_sound [OF t2(2) assms(9) _ this] have s: "hn = pt_hash x (PBranch (ts[unat d := None]))" "ok x S t3" using l(2) by simp_all
  have leaf: "remove_recursive x ops (pt_node x (PLeaf s v)) ?key 1 t2 = Some (Inr (None, if k = s then Some v else None), t2)"
    using remove_at_leaf [OF n(3), of 1 x s v t2] l(1) assms(4) by simp
  have rem: "remove_recursive x ops (pt_node x (PBranch ts)) ?key 0 t1 = Some (Inr (Some hn, if k = s then Some v else None), t3)"
    using n(1,2) d l(2) assms(5) t2(1) t3 kids leaf
    by (subst remove_recursive.simps) (simp add: has_children_def save_removed_def)
  let ?t4 = "t3\<lparr>tr_root := Some hn\<rparr>"
  have "ok x S ?t4" using s(2) by (simp add: sound_trie_def)
  from flush_sound [OF this] obtain t5 where "flush x ops ?t4 = (Inr (), t5)" "tr_root t5 = Some hn" by auto
  then show ?thesis using h(3) t1(1) rem s(1) by (simp add: trie_remove_def del: pt_node.simps)
qed

end

text \<open>Removing a key that is not stored can delete another.  When the tree of a filled trie is a branch, one
  of its children the leaf of some other key that begins with the same nibble, removing the absent
  key returns that nothing was removed, and drops the leaf: the new root is the one of the branch
  without the child, and it is not the old root.\<close>

theorem removing_absent_key_drops_leaf:
  assumes "rlp_laws x" "inj_on (node_hash x) (insert (pt_node x (PBranch (ts[unat d := None]))) (nodes_written x kvs None))"
    and "tree_of x kvs None = Some (PBranch ts)" "path_of x key = d # k" "ts ! unat d = Some (PLeaf s v)" "k \<noteq> s"
    and "ts ! j = Some u" "j < 16" "j \<noteq> unat d"
  shows "\<exists>t t'. trie_insert_all x mem_trie_db kvs (trie_new Map.empty) = Some (Inr (), t) \<and>
    trie_remove x mem_trie_db key t = Some (Inr None, t') \<and>
    trie_root t' = pt_hash x (PBranch (ts[unat d := None])) \<and> trie_root t' \<noteq> trie_root t"
proof -
  let ?S = "insert (pt_node x (PBranch (ts[unat d := None]))) (nodes_written x kvs None)"
  obtain t where t: "trie_insert_all x mem_trie_db kvs (trie_new Map.empty) = Some (Inr (), t)" "mem_trie.trie_holds x ?S t (Some (PBranch ts))"
    using mem_trie.trie_insert_all_sound [OF assms(1,2) mem_trie.trie_new_holds subset_insertI, of Map.empty] assms(3) by auto
  obtain t' where t': "trie_remove x mem_trie_db key t = Some (Inr None, t')" "tr_root t' = Some (pt_hash x (PBranch (ts[unat d := None])))"
    using mem_trie.remove_below_branch [OF assms(1,2) t(2) assms(4,5,7-9) insertI1] assms(6) by auto
  have held: "holds_tree x ?S (\<lambda>d. d) t (PBranch ts)" "tr_root t = Some (pt_hash x (PBranch ts))" "length ts = 16"
    using t(2) by (simp_all add: mem_trie.trie_holds_def del: pt_node.simps)
  note h = conjunct1 [OF holds_root [OF held(1)]] held(2,3)
  have "ns_at (hashed_key x key) 0 = d"
    using slice_facts(2) [of "hashed_key x key" 0 0] path_of_key [of x key] assms(4) by simp
  then have "unat d < 16" using ns_at_nibble [of "hashed_key x key" 0] by (simp add: word_less_nat_alt)
  then have "map (map_option (\<lambda>t. pt_hash x t)) (ts[unat d := None]) ! unat d \<noteq> map (map_option (\<lambda>t. pt_hash x t)) ts ! unat d"
    using assms(5) h(3) by simp
  then have "pt_node x (PBranch (ts[unat d := None])) \<noteq> pt_node x (PBranch ts)" by auto
  then have "pt_hash x (PBranch (ts[unat d := None])) \<noteq> pt_hash x (PBranch ts)" using inj_onD [OF assms(2) _ insertI1 h(1)] by blast
  then show ?thesis using t(1) t' h(2) by (simp add: trie_root_def del: pt_node.simps)
qed

text \<open>The two keys of the flat sample, and one that shares the first nibble of the first.\<close>

lemma sample_dropped:
  "path_of sample_rlp [17, 0] = 1 # 1 # replicate 62 0"
  "pt_hash sample_rlp (PBranch (None # None # Some sample_right # replicate 13 None)) = 82"
  by code_simp+

lemma sample_dropped_distinct:
  "inj_on (node_hash sample_rlp)
     (insert (pt_node sample_rlp (PBranch (None # None # Some sample_right # replicate 13 None))) (nodes_written sample_rlp sample_flat None))"
proof -
  let ?ts = "[PBranch (None # None # Some sample_right # replicate 13 None), PLeaf (1 # replicate 63 0) [7, 7, 7, 7], sample_top, sample_left, sample_right]"
  have "distinct (map (node_hash sample_rlp) (map (pt_node sample_rlp) ?ts))" unfolding list.map sample_flat_hashes sample_dropped by simp
  then have "inj_on (node_hash sample_rlp) (pt_node sample_rlp ` set ?ts)" by (simp only: distinct_map set_map)
  then show ?thesis unfolding sample_flat_tree sample_top_nodes by (simp only: list.set image_insert)
qed

theorem removing_absent_key_drops_leaf_witness:
  "\<exists>t t'. trie_insert_all sample_rlp mem_trie_db sample_flat (trie_new Map.empty) = Some (Inr (), t) \<and>
    trie_remove sample_rlp mem_trie_db [17, 0] t = Some (Inr None, t') \<and>
    trie_root t' = pt_hash sample_rlp (PBranch (None # None # Some sample_right # replicate 13 None)) \<and> trie_root t' \<noteq> trie_root t"
proof -
  have u: "(None # Some sample_left # Some sample_right # replicate 13 None)[unat (1 :: u8) := None] = None # None # Some sample_right # replicate 13 None"
    by simp
  have "replicate 62 (0 :: u8) @ [0] = replicate 63 0" by code_simp
  then have "1 # replicate 62 0 \<noteq> replicate 63 (0 :: u8)" by (metis hd_replicate list.sel(1) zero_neq_one zero_neq_numeral)
  from removing_absent_key_drops_leaf [OF sample_rlp_laws _ sample_flat_tree(1) sample_dropped(1) _ this, where j = 2, unfolded u]
  show ?thesis using sample_dropped_distinct by (simp del: pt_node.simps)
qed

end
