(* ===== verification/KeyValue.thy ===== *)
theory KeyValue
  imports Prelude "HOL-Library.AList"
begin

section \<open>Key-value databases\<close>

text \<open>
  The trait \<open>KeyValueDB\<close> of \<open>db/mod.rs\<close> as a record of operations, batches, and the in-memory database.
  The locale \<open>key_value_db\<close> is the contract the stores above rely on; RocksDB and redb are third-party
  databases of which nothing but the contract is used.  A \<open>HashMap\<close> that is enumerated is an association
  list, in an order the code does not fix.  An operation that fails leaves the database as it was.
\<close>

datatype StorageError = Database string | Trie string | Serialization_error string | NotFound_error string | IO string | Crypto string

definition storage_error_text :: "StorageError \<Rightarrow> string" where
  "storage_error_text e =
     (case e of
        Database s \<Rightarrow> ''Database error: '' @ s
      | Trie s \<Rightarrow> ''Trie error: '' @ s
      | Serialization_error s \<Rightarrow> ''Serialization error: '' @ s
      | NotFound_error s \<Rightarrow> ''Key not found: '' @ s
      | IO s \<Rightarrow> ''IO error: '' @ s
      | Crypto s \<Rightarrow> ''Crypto error: '' @ s)"

subsection \<open>Operations\<close>

datatype BatchOp = Put "u8 list" "u8 list" | Delete "u8 list"

type_synonym Batch = "BatchOp list"

definition batch_new :: Batch where "batch_new = []"

definition batch_put :: "u8 list \<Rightarrow> u8 list \<Rightarrow> Batch \<Rightarrow> Batch" where
  "batch_put key v b = b @ [Put key v]"

definition batch_delete :: "u8 list \<Rightarrow> Batch \<Rightarrow> Batch" where
  "batch_delete key b = b @ [Delete key]"

record 'd kv_ops =
  kv_get :: "u8 list \<Rightarrow> 'd \<Rightarrow> StorageError + u8 list option"
  kv_put :: "u8 list \<Rightarrow> u8 list \<Rightarrow> 'd \<Rightarrow> StorageError + 'd"
  kv_delete :: "u8 list \<Rightarrow> 'd \<Rightarrow> StorageError + 'd"
  kv_has :: "u8 list \<Rightarrow> 'd \<Rightarrow> StorageError + bool"
  kv_write_batch :: "Batch \<Rightarrow> 'd \<Rightarrow> StorageError + 'd"
  kv_iter_prefix :: "u8 list \<Rightarrow> 'd \<Rightarrow> StorageError + (u8 list \<times> u8 list) list"

text \<open>The visitor carries its state; its first error stops the walk.\<close>

definition for_each_prefix :: "'d kv_ops \<Rightarrow> u8 list \<Rightarrow> (u8 list \<times> u8 list \<Rightarrow> 'v \<Rightarrow> StorageError + 'v) \<Rightarrow> 'd \<Rightarrow> 'v \<Rightarrow> StorageError + 'v" where
  "for_each_prefix ops prefix' visitor d v = and_then (kv_iter_prefix ops prefix' d) (\<lambda>items. try_fold visitor items v)"

text \<open>The same loop with the state it leaves when it stops.\<close>

fun try_each :: "('i \<Rightarrow> 'v \<Rightarrow> 'e + 'v) \<Rightarrow> 'i list \<Rightarrow> 'v \<Rightarrow> ('e + unit) \<times> 'v" where
  "try_each f [] v = (Inr (), v)"
| "try_each f (i # items) v = (case f i v of Inl e \<Rightarrow> (Inl e, v) | Inr v \<Rightarrow> try_each f items v)"

definition has_prefix :: "u8 list \<Rightarrow> u8 list \<Rightarrow> bool" where
  "has_prefix key prefix' \<longleftrightarrow> take (length prefix') key = prefix'"

definition strip_prefix :: "u8 list \<Rightarrow> u8 list \<Rightarrow> u8 list option" where
  "strip_prefix bytes prefix' = (if has_prefix bytes prefix' then Some (drop (length prefix') bytes) else None)"

lemma has_prefix_append [simp]: "has_prefix (p @ k) p"
  by (simp add: has_prefix_def)

lemma has_prefix_Nil [simp]: "has_prefix k []"
  by (simp add: has_prefix_def)

lemma has_prefix_Cons [simp]: "has_prefix (a # k) (b # p) \<longleftrightarrow> a = b \<and> has_prefix k p" "has_prefix [] (b # p) \<longleftrightarrow> False"
  by (auto simp: has_prefix_def)

lemma strip_prefix_append [simp]: "strip_prefix (p @ b) p = Some b"
  by (simp add: strip_prefix_def)

lemma has_prefix_iff: "has_prefix k p \<longleftrightarrow> (\<exists>r. k = p @ r)"
  by (metis append_take_drop_id has_prefix_append has_prefix_def)

subsection \<open>The contract\<close>

fun batch_effect :: "BatchOp \<Rightarrow> (u8 list \<rightharpoonup> u8 list) \<Rightarrow> u8 list \<rightharpoonup> u8 list" where
  "batch_effect (Put key v) m = m(key \<mapsto> v)"
| "batch_effect (Delete key) m = m(key := None)"

lemma batch_effect_deletes: "fold batch_effect (map Delete ks) m = m |` (- set ks)"
  by (induction ks arbitrary: m) (auto simp: restrict_map_def fun_eq_iff)

lemma batch_deletes: "fold batch_delete ks b = b @ map Delete ks"
  by (induction ks arbitrary: b) (simp_all add: batch_delete_def)

locale key_value_db =
  fixes ops :: "'d kv_ops" and kv_ok :: "'d \<Rightarrow> bool" and kv_map :: "'d \<Rightarrow> u8 list \<rightharpoonup> u8 list"
  assumes get_ok: "kv_ok d \<Longrightarrow> kv_get ops key d = Inr (kv_map d key)"
    and put_ok: "kv_ok d \<Longrightarrow> \<exists>d'. kv_put ops key v d = Inr d' \<and> kv_ok d' \<and> kv_map d' = (kv_map d)(key \<mapsto> v)"
    and delete_ok: "kv_ok d \<Longrightarrow> \<exists>d'. kv_delete ops key d = Inr d' \<and> kv_ok d' \<and> kv_map d' = (kv_map d)(key := None)"
    and has_ok: "kv_ok d \<Longrightarrow> kv_has ops key d = Inr (kv_map d key \<noteq> None)"
    and batch_ok: "kv_ok d \<Longrightarrow> \<exists>d'. kv_write_batch ops b d = Inr d' \<and> kv_ok d' \<and> kv_map d' = fold batch_effect b (kv_map d)"
    and iter_ok: "kv_ok d \<Longrightarrow> \<exists>items. kv_iter_prefix ops p d = Inr items \<and> distinct (map fst items) \<and>
      map_of items = kv_map d |` {key. has_prefix key p}"
begin

lemma iter_set:
  assumes "kv_ok d" "kv_iter_prefix ops p d = Inr items"
  shows "(key, v) \<in> set items \<longleftrightarrow> has_prefix key p \<and> kv_map d key = Some v" and "distinct (map fst items)"
proof -
  obtain its where its: "kv_iter_prefix ops p d = Inr its" "distinct (map fst its)" "map_of its = kv_map d |` {key. has_prefix key p}"
    using iter_ok [OF assms(1)] by blast
  then have eq: "its = items" using assms(2) by simp
  show "distinct (map fst items)" using its(2) eq by simp
  have "(key, v) \<in> set items \<longleftrightarrow> map_of items key = Some v" using its(2) eq by simp
  then show "(key, v) \<in> set items \<longleftrightarrow> has_prefix key p \<and> kv_map d key = Some v"
    using its(3) eq by (auto simp: restrict_map_def split: if_splits)
qed

lemma delete_keys:
  assumes "kv_ok d"
  shows "\<exists>d'. kv_write_batch ops (fold batch_delete ks batch_new) d = Inr d' \<and> kv_ok d' \<and> kv_map d' = kv_map d |` (- set ks)"
  using batch_ok [OF assms, of "fold batch_delete ks batch_new"]
  by (simp add: batch_deletes batch_effect_deletes batch_new_def)

lemma finite_keys: "kv_ok d \<Longrightarrow> finite (dom (kv_map d))"
proof -
  assume d: "kv_ok d"
  then obtain its where "map_of its = kv_map d |` {key. has_prefix key []}" using iter_ok by blast
  then have "kv_map d = map_of its" by (simp add: restrict_map_def)
  then show ?thesis by (simp add: finite_dom_map_of)
qed

end

subsection \<open>The in-memory database\<close>

type_synonym MemDatabase = "(u8 list \<times> u8 list) list"

definition mem_write :: "BatchOp \<Rightarrow> MemDatabase \<Rightarrow> MemDatabase" where
  "mem_write op d = (case op of Put key v \<Rightarrow> AList.update key v d | Delete key \<Rightarrow> AList.delete key d)"

definition mem_kv :: "MemDatabase kv_ops" where
  "mem_kv =
     \<lparr>kv_get = (\<lambda>key d. Inr (map_of d key)), kv_put = (\<lambda>key v d. Inr (AList.update key v d)),
      kv_delete = (\<lambda>key d. Inr (AList.delete key d)), kv_has = (\<lambda>key d. Inr (map_of d key \<noteq> None)),
      kv_write_batch = (\<lambda>b d. Inr (fold mem_write b d)), kv_iter_prefix = (\<lambda>p d. Inr (filter (\<lambda>(key, _). has_prefix key p) d))\<rparr>"

abbreviation mem_kv_ok :: "MemDatabase \<Rightarrow> bool" where
  "mem_kv_ok d \<equiv> distinct (map fst d)"

lemma mem_write_batch:
  "distinct (map fst d) \<Longrightarrow> distinct (map fst (fold mem_write b d)) \<and> map_of (fold mem_write b d) = fold batch_effect b (map_of d)"
proof (induction b arbitrary: d)
  case (Cons op b)
  have "distinct (map fst (mem_write op d)) \<and> map_of (mem_write op d) = batch_effect op (map_of d)"
    using Cons.prems by (cases op) (simp_all add: mem_write_def distinct_update update_conv' delete_conv' distinct_delete)
  then show ?case using Cons.IH [of "mem_write op d"] by simp
qed simp

lemma map_of_filter_keys: "map_of (filter (\<lambda>(key, _). P key) d) = map_of d |` {key. P key}"
  by (induction d) (auto simp: restrict_map_def)

lemma distinct_filter_keys: "distinct (map fst d) \<Longrightarrow> distinct (map fst (filter P d))"
  by (induction d) auto

interpretation mem_kv: key_value_db mem_kv mem_kv_ok map_of
proof
  fix d :: MemDatabase and p
  assume "mem_kv_ok d"
  then show "\<exists>items. kv_iter_prefix mem_kv p d = Inr items \<and> distinct (map fst items) \<and> map_of items = map_of d |` {key. has_prefix key p}"
    by (auto simp: mem_kv_def map_of_filter_keys distinct_filter_keys)
qed (auto simp: mem_kv_def distinct_update update_conv' distinct_delete delete_conv' mem_write_batch)

end
