(* ===== verification/ComputeStore.thy ===== *)
theory ComputeStore
  imports KeyValue Execution
begin

section \<open>The durable store\<close>

text \<open>
  \<open>rabbitstore/src/compute/mod.rs\<close>: outputs, results, checkpoints and replay nonces in a key-value database, the
  durable replay registry, the rebuild and the pruning of the store.  \<open>bincode\<close> and \<open>serde_json\<close> are the record
  \<open>store_codec\<close>, whose law \<open>codec_ok\<close> is that decoding undoes encoding.  The error texts of the crates are
  parameters; a JSON value is of any type.
\<close>

subsection \<open>Keys and values\<close>

definition OUTPUT_PREFIX :: "u8 list" where "OUTPUT_PREFIX = str_bytes ''compute:output:''"
definition LATEST_PREFIX :: "u8 list" where "LATEST_PREFIX = str_bytes ''compute:latest:''"
definition TX_RESULT_PREFIX :: "u8 list" where "TX_RESULT_PREFIX = str_bytes ''compute:txresult:''"
definition REPLAY_PREFIX :: "u8 list" where "REPLAY_PREFIX = str_bytes ''compute:replay:''"
definition CHECKPOINT_PREFIX :: "u8 list" where "CHECKPOINT_PREFIX = str_bytes ''compute:checkpoint:''"
definition OUTPUT_BINARY_MAGIC :: "u8 list" where "OUTPUT_BINARY_MAGIC = str_bytes ''ZCO1''"
definition TX_RESULT_BINARY_MAGIC :: "u8 list" where "TX_RESULT_BINARY_MAGIC = str_bytes ''ZCR1''"
definition CHECKPOINT_BINARY_MAGIC :: "u8 list" where "CHECKPOINT_BINARY_MAGIC = str_bytes ''ZCC1''"

definition output_key :: "OutputId \<Rightarrow> u8 list" where
  "output_key i = OUTPUT_PREFIX @ be_bytes (output_raw i)"

definition latest_key :: "ObjectId \<Rightarrow> u8 list" where
  "latest_key j = LATEST_PREFIX @ be_bytes (object_raw j)"

definition tx_result_key :: "TxId \<Rightarrow> u8 list" where
  "tx_result_key t = TX_RESULT_PREFIX @ be_bytes (txid_raw t)"

definition replay_key :: "string \<Rightarrow> u8 list" where
  "replay_key key = REPLAY_PREFIX @ str_bytes key"

definition checkpoint_key :: "u64 \<Rightarrow> u8 list" where
  "checkpoint_key height = CHECKPOINT_PREFIX @ be_bytes height"

record DurableComputeCheckpoint =
  ck_height :: u64
  ck_block_hash :: hash
  ck_recorded_at_unix :: u64
  ck_spent_output_ids :: "hash list"
  ck_created_outputs :: "ObjectOutput list"
  ck_included_tx_ids :: "hash list"

record ComputeResultEnvelope =
  result_json :: string

record 'j store_codec =
  ser_output :: "ObjectOutput \<Rightarrow> string + u8 list"
  de_output :: "u8 list \<Rightarrow> string + ObjectOutput"
  json_output :: "u8 list \<Rightarrow> string + ObjectOutput"
  ser_envelope :: "ComputeResultEnvelope \<Rightarrow> string + u8 list"
  de_envelope :: "u8 list \<Rightarrow> string + ComputeResultEnvelope"
  ser_checkpoint :: "DurableComputeCheckpoint \<Rightarrow> string + u8 list"
  de_checkpoint :: "u8 list \<Rightarrow> string + DurableComputeCheckpoint"
  parse_json :: "string \<Rightarrow> string + 'j"
  print_json :: "'j \<Rightarrow> string + string"
  json_field_u64 :: "string \<Rightarrow> 'j \<Rightarrow> u64 option"

definition map_err :: "('e \<Rightarrow> 'f) \<Rightarrow> 'e + 'a \<Rightarrow> 'f + 'a" where
  "map_err f r = (case r of Inl e \<Rightarrow> Inl (f e) | Inr a \<Rightarrow> Inr a)"

lemma map_err_simps [simp]: "map_err f (Inl e) = Inl (f e)" "map_err f (Inr a) = Inr a"
  by (simp_all add: map_err_def)

lemma map_err_Inr [result_simps]: "map_err f r = Inr a \<longleftrightarrow> r = Inr a"
  by (cases r) auto

definition ok :: "'e + 'a \<Rightarrow> 'a option" where
  "ok r = (case r of Inl _ \<Rightarrow> None | Inr a \<Rightarrow> Some a)"

lemma ok_simps [simp]: "ok (Inl e) = None" "ok (Inr a) = Some a"
  by (simp_all add: ok_def)

lemma ok_Some [result_simps]: "ok r = Some a \<longleftrightarrow> r = Inr a"
  by (cases r) auto

definition encode_output :: "'j store_codec \<Rightarrow> ObjectOutput \<Rightarrow> StorageError + u8 list" where
  "encode_output y out =
     and_then (map_err (\<lambda>e. Serialization_error (''encode output failed: '' @ e)) (ser_output y out)) (\<lambda>encoded.
     Inr (OUTPUT_BINARY_MAGIC @ encoded))"

definition decode_output :: "'j store_codec \<Rightarrow> u8 list \<Rightarrow> StorageError + ObjectOutput" where
  "decode_output y bytes =
     (case strip_prefix bytes OUTPUT_BINARY_MAGIC of
        Some body \<Rightarrow> map_err (\<lambda>e. Serialization_error (''decode binary output failed: '' @ e)) (de_output y body)
      | None \<Rightarrow> map_err (\<lambda>e. Serialization_error (''decode legacy json output failed: '' @ e)) (json_output y bytes))"

definition encode_tx_result :: "'j store_codec \<Rightarrow> string \<Rightarrow> StorageError + u8 list" where
  "encode_tx_result y json =
     and_then (map_err (\<lambda>e. Serialization_error (''decode tx result json before encode failed: '' @ e)) (parse_json y json)) (\<lambda>j.
     and_then (map_err (\<lambda>e. Serialization_error (''canonicalize tx result json failed: '' @ e)) (print_json y j)) (\<lambda>text.
     and_then (map_err (\<lambda>e. Serialization_error (''encode tx result failed: '' @ e)) (ser_envelope y \<lparr>result_json = text\<rparr>)) (\<lambda>encoded.
     Inr (TX_RESULT_BINARY_MAGIC @ encoded))))"

text \<open>\<open>String::from_utf8\<close> of the standard library with its error text: a lead byte, then the bytes it asks for;
  the first of these has a range of its own.\<close>

definition utf8_width :: "u8 \<Rightarrow> nat" where
  "utf8_width b =
     (if b \<le> 0x7F then 1 else if 0xC2 \<le> b \<and> b \<le> 0xDF then 2 else if 0xE0 \<le> b \<and> b \<le> 0xEF then 3
      else if 0xF0 \<le> b \<and> b \<le> 0xF4 then 4 else 0)"

definition utf8_cont :: "u8 \<Rightarrow> bool" where
  "utf8_cont b \<longleftrightarrow> 0x80 \<le> b \<and> b \<le> 0xBF"

definition utf8_second :: "u8 \<Rightarrow> u8 \<Rightarrow> bool" where
  "utf8_second a b \<longleftrightarrow> utf8_cont b \<and> (a = 0xE0 \<longrightarrow> 0xA0 \<le> b) \<and> (a = 0xED \<longrightarrow> b \<le> 0x9F) \<and>
     (a = 0xF0 \<longrightarrow> 0x90 \<le> b) \<and> (a = 0xF4 \<longrightarrow> b \<le> 0x8F)"

definition utf8_invalid :: "nat \<Rightarrow> nat \<Rightarrow> string" where
  "utf8_invalid k n = ''invalid utf-8 sequence of '' @ show_nat k @ '' bytes from index '' @ show_nat n"

definition utf8_incomplete :: "nat \<Rightarrow> string" where
  "utf8_incomplete n = ''incomplete utf-8 byte sequence from index '' @ show_nat n"

fun utf8_error :: "nat \<Rightarrow> u8 list \<Rightarrow> string option" where
  "utf8_error n [] = None"
| "utf8_error n (a # bs) =
     (if utf8_width a = 0 then Some (utf8_invalid 1 n)
      else if utf8_width a = 1 then utf8_error (n + 1) bs
      else case bs of
        [] \<Rightarrow> Some (utf8_incomplete n)
      | b # cs \<Rightarrow>
          if \<not> utf8_second a b then Some (utf8_invalid 1 n)
          else if utf8_width a = 2 then utf8_error (n + 2) cs
          else case cs of
            [] \<Rightarrow> Some (utf8_incomplete n)
          | c # ds \<Rightarrow>
              if \<not> utf8_cont c then Some (utf8_invalid 2 n)
              else if utf8_width a = 3 then utf8_error (n + 3) ds
              else case ds of
                [] \<Rightarrow> Some (utf8_incomplete n)
              | d # es \<Rightarrow> if \<not> utf8_cont d then Some (utf8_invalid 3 n) else utf8_error (n + 4) es)"

definition from_utf8 :: "u8 list \<Rightarrow> string + string" where
  "from_utf8 bytes = (case utf8_error 0 bytes of Some e \<Rightarrow> Inl e | None \<Rightarrow> Inr (bytes_str bytes))"

definition decode_tx_result :: "'j store_codec \<Rightarrow> u8 list \<Rightarrow> StorageError + string" where
  "decode_tx_result y bytes =
     (case strip_prefix bytes TX_RESULT_BINARY_MAGIC of
        Some body \<Rightarrow>
          and_then (map_err (\<lambda>e. Serialization_error (''decode binary tx result failed: '' @ e)) (de_envelope y body)) (\<lambda>envelope.
          Inr (result_json envelope))
      | None \<Rightarrow> map_err (\<lambda>e. Serialization_error (''decode legacy tx result failed: '' @ e)) (from_utf8 bytes))"

definition tx_result_submitted_at_unix :: "'j store_codec \<Rightarrow> string \<Rightarrow> u64 option" where
  "tx_result_submitted_at_unix y json = Option.bind (ok (parse_json y json)) (json_field_u64 y ''submitted_at_unix'')"

definition is_past_retention :: "u64 \<Rightarrow> u64 \<Rightarrow> u64 \<Rightarrow> bool" where
  "is_past_retention created_or_submitted_at now retention_window_secs \<longleftrightarrow>
     saturating_add created_or_submitted_at retention_window_secs \<le> now"

subsection \<open>Checkpoints and results\<close>

definition put_checkpoint :: "'j store_codec \<Rightarrow> 'd kv_ops \<Rightarrow> DurableComputeCheckpoint \<Rightarrow> 'd \<Rightarrow> StorageError + 'd" where
  "put_checkpoint y ops entry d =
     and_then (map_err (\<lambda>e. Serialization_error (''encode checkpoint: '' @ e)) (ser_checkpoint y entry)) (\<lambda>encoded.
     kv_put ops (checkpoint_key (ck_height entry)) (CHECKPOINT_BINARY_MAGIC @ encoded) d)"

definition get_checkpoint :: "'j store_codec \<Rightarrow> 'd kv_ops \<Rightarrow> u64 \<Rightarrow> 'd \<Rightarrow> StorageError + DurableComputeCheckpoint option" where
  "get_checkpoint y ops height d =
     and_then (kv_get ops (checkpoint_key height) d) (\<lambda>v.
     case v of
       None \<Rightarrow> Inr None
     | Some bytes \<Rightarrow>
         and_then (ok_or (strip_prefix bytes CHECKPOINT_BINARY_MAGIC) (Serialization_error ''invalid checkpoint magic'')) (\<lambda>body.
         and_then (map_err (\<lambda>e. Serialization_error (''decode checkpoint: '' @ e)) (de_checkpoint y body)) (\<lambda>entry.
         Inr (Some entry))))"

definition delete_checkpoint :: "'d kv_ops \<Rightarrow> u64 \<Rightarrow> 'd \<Rightarrow> StorageError + 'd" where
  "delete_checkpoint ops height d = kv_delete ops (checkpoint_key height) d"

definition visit_checkpoint :: "'j store_codec \<Rightarrow> u8 list \<times> u8 list \<Rightarrow> DurableComputeCheckpoint list \<Rightarrow> StorageError + DurableComputeCheckpoint list" where
  "visit_checkpoint y = (\<lambda>(key, v) out.
     if \<not> has_prefix key CHECKPOINT_PREFIX then Inr out
     else case strip_prefix v CHECKPOINT_BINARY_MAGIC of
       None \<Rightarrow> Inr out
     | Some body \<Rightarrow> (case de_checkpoint y body of Inl _ \<Rightarrow> Inr out | Inr entry \<Rightarrow> Inr (out @ [entry])))"

definition list_checkpoints :: "'j store_codec \<Rightarrow> 'd kv_ops \<Rightarrow> 'd \<Rightarrow> StorageError + DurableComputeCheckpoint list" where
  "list_checkpoints y ops d =
     and_then (for_each_prefix ops CHECKPOINT_PREFIX (visit_checkpoint y) d []) (\<lambda>out. Inr (sort_key ck_height out))"

definition put_tx_results_batch :: "'j store_codec \<Rightarrow> 'd kv_ops \<Rightarrow> (TxId \<times> string) list \<Rightarrow> 'd \<Rightarrow> StorageError + 'd" where
  "put_tx_results_batch y ops results d =
     (if results = [] then Inr d
      else
        and_then (try_fold (\<lambda>(t, json) batch. and_then (encode_tx_result y json) (\<lambda>encoded.
          Inr (batch_put (tx_result_key t) encoded batch))) results batch_new) (\<lambda>batch.
        kv_write_batch ops batch d))"

definition put_tx_result :: "'j store_codec \<Rightarrow> 'd kv_ops \<Rightarrow> TxId \<Rightarrow> string \<Rightarrow> 'd \<Rightarrow> StorageError + 'd" where
  "put_tx_result y ops t json d = put_tx_results_batch y ops [(t, json)] d"

definition get_tx_result :: "'j store_codec \<Rightarrow> 'd kv_ops \<Rightarrow> TxId \<Rightarrow> 'd \<Rightarrow> StorageError + string option" where
  "get_tx_result y ops t d =
     and_then (kv_get ops (tx_result_key t) d) (\<lambda>v.
     case v of None \<Rightarrow> Inr None | Some bytes \<Rightarrow> and_then (decode_tx_result y bytes) (\<lambda>json. Inr (Some json)))"

subsection \<open>Replay keys\<close>

definition has_replay_key :: "'d kv_ops \<Rightarrow> string \<Rightarrow> 'd \<Rightarrow> StorageError + u64 option" where
  "has_replay_key ops key d =
     and_then (kv_get ops (replay_key key) d) (\<lambda>v.
     case v of None \<Rightarrow> Inr None | Some bytes \<Rightarrow> if length bytes \<noteq> 8 then Inr None else Inr (Some (of_nat (be_value bytes))))"

definition put_replay_key :: "'d kv_ops \<Rightarrow> string \<Rightarrow> u64 \<Rightarrow> 'd \<Rightarrow> StorageError + 'd" where
  "put_replay_key ops key now d = kv_put ops (replay_key key) (be_bytes now) d"

definition visit_stale :: "u64 \<Rightarrow> u64 \<Rightarrow> u8 list \<times> u8 list \<Rightarrow> u8 list list \<Rightarrow> StorageError + u8 list list" where
  "visit_stale now window = (\<lambda>(key, v) stale.
     if length v = 8 then
       let ts = of_nat (be_value v) in if saturating_sub now ts > window then Inr (stale @ [key]) else Inr stale
     else Inr (stale @ [key]))"

definition prune_replay_keys :: "'d kv_ops \<Rightarrow> u64 \<Rightarrow> u64 \<Rightarrow> 'd \<Rightarrow> StorageError + u64 \<times> 'd" where
  "prune_replay_keys ops now window d =
     and_then (for_each_prefix ops REPLAY_PREFIX (visit_stale now window) d []) (\<lambda>stale.
     if stale = [] then Inr (0, d)
     else and_then (kv_write_batch ops (fold batch_delete stale batch_new) d) (\<lambda>d. Inr (of_nat (length stale), d)))"

record 'd PersistentReplayNonceRegistry =
  pr_store :: 'd
  pr_memory :: registry

definition pr_new :: "'d \<Rightarrow> 'd PersistentReplayNonceRegistry" where
  "pr_new d = \<lparr>pr_store = d, pr_memory = Map.empty\<rparr>"

definition pr_contains :: "'d kv_ops \<Rightarrow> string \<Rightarrow> u64 \<Rightarrow> 'd PersistentReplayNonceRegistry \<Rightarrow> bool \<times> 'd PersistentReplayNonceRegistry" where
  "pr_contains ops key now r =
     (case pr_memory r key of
        Some ts \<Rightarrow> (saturating_sub now ts \<le> REPLAY_NONCE_WINDOW_SECS, r)
      | None \<Rightarrow>
          (case has_replay_key ops key (pr_store r) of
             Inr (Some ts) \<Rightarrow>
               if saturating_sub now ts \<le> REPLAY_NONCE_WINDOW_SECS
               then (True, r\<lparr>pr_memory := (pr_memory r)(key \<mapsto> ts)\<rparr>) else (False, r)
           | _ \<Rightarrow> (False, r)))"

text \<open>A database that fails is only logged.\<close>

definition pr_insert :: "'d kv_ops \<Rightarrow> string \<Rightarrow> u64 \<Rightarrow> 'd PersistentReplayNonceRegistry \<Rightarrow> 'd PersistentReplayNonceRegistry" where
  "pr_insert ops key now r =
     \<lparr>pr_store = (case put_replay_key ops key now (pr_store r) of Inl _ \<Rightarrow> pr_store r | Inr d \<Rightarrow> d),
      pr_memory = (pr_memory r)(key \<mapsto> now)\<rparr>"

definition pr_retain_window :: "'d kv_ops \<Rightarrow> u64 \<Rightarrow> 'd PersistentReplayNonceRegistry \<Rightarrow> 'd PersistentReplayNonceRegistry" where
  "pr_retain_window ops now r =
     \<lparr>pr_store = (case prune_replay_keys ops now REPLAY_NONCE_WINDOW_SECS (pr_store r) of Inl _ \<Rightarrow> pr_store r | Inr (_, d) \<Rightarrow> d),
      pr_memory = (\<lambda>key. case pr_memory r key of
         Some ts \<Rightarrow> if saturating_sub now ts \<le> REPLAY_NONCE_WINDOW_SECS then Some ts else None | None \<Rightarrow> None)\<rparr>"

subsection \<open>Outputs\<close>

definition ds_get_output :: "'j store_codec \<Rightarrow> 'd kv_ops \<Rightarrow> 'd \<Rightarrow> OutputId \<Rightarrow> ObjectOutput option" where
  "ds_get_output y ops d i =
     (case kv_get ops (output_key i) d of Inr (Some bytes) \<Rightarrow> ok (decode_output y bytes) | _ \<Rightarrow> None)"

definition ds_get_latest :: "'j store_codec \<Rightarrow> 'd kv_ops \<Rightarrow> 'd \<Rightarrow> ObjectId \<Rightarrow> ObjectOutput option" where
  "ds_get_latest y ops d j =
     (case kv_get ops (latest_key j) d of
        Inr (Some bytes) \<Rightarrow>
          if length bytes \<noteq> 32 then None else ds_get_output y ops d (OutputId (of_nat (be_value bytes)))
      | _ \<Rightarrow> None)"

definition invalid_operation :: "StorageError \<Rightarrow> ComputeError" where
  "invalid_operation e = InvalidOperation (storage_error_text e)"

definition ds_insert_output :: "'j store_codec \<Rightarrow> 'd kv_ops \<Rightarrow> ObjectOutput \<Rightarrow> 'd \<Rightarrow> ComputeError + 'd" where
  "ds_insert_output y ops out d =
     and_then (map_err invalid_operation (kv_has ops (output_key (o_output_id out)) d)) (\<lambda>present.
     if present then Inl DuplicateOutputId
     else
       and_then (map_err invalid_operation (encode_output y out)) (\<lambda>serialized.
       let batch = batch_put (output_key (o_output_id out)) serialized batch_new;
           batch = batch_put (latest_key (o_object_id out)) (be_bytes (output_raw (o_output_id out))) batch
       in map_err invalid_operation (kv_write_batch ops batch d)))"

definition ds_mark_spent :: "'j store_codec \<Rightarrow> 'd kv_ops \<Rightarrow> OutputId \<Rightarrow> 'd \<Rightarrow> ComputeError + 'd" where
  "ds_mark_spent y ops i d =
     (case ds_get_output y ops d i of
        None \<Rightarrow> Inl (ObjectNotFound (output_raw i))
      | Some out \<Rightarrow>
          if o_spent out then Inl double_spend
          else and_then (map_err invalid_operation (encode_output y (out\<lparr>o_spent := True\<rparr>))) (\<lambda>serialized.
            map_err invalid_operation (kv_write_batch ops (batch_put (output_key i) serialized batch_new) d)))"

definition ds_unmark_spent :: "'j store_codec \<Rightarrow> 'd kv_ops \<Rightarrow> OutputId \<Rightarrow> 'd \<Rightarrow> ComputeError + 'd" where
  "ds_unmark_spent y ops i d =
     (case ds_get_output y ops d i of
        None \<Rightarrow> Inl (ObjectNotFound (output_raw i))
      | Some out \<Rightarrow>
          and_then (map_err invalid_operation (encode_output y (out\<lparr>o_spent := False\<rparr>))) (\<lambda>serialized.
            map_err invalid_operation (kv_write_batch ops (batch_put (output_key i) serialized batch_new) d)))"

definition ds_remove_output :: "'j store_codec \<Rightarrow> 'd kv_ops \<Rightarrow> OutputId \<Rightarrow> 'd \<Rightarrow> ComputeError + 'd" where
  "ds_remove_output y ops i d =
     (case ds_get_output y ops d i of
        None \<Rightarrow> Inl (ObjectNotFound (output_raw i))
      | Some existing \<Rightarrow>
          let batch = batch_delete (output_key i) batch_new;
              batch = (case ds_get_latest y ops d (o_object_id existing) of
                Some latest \<Rightarrow> if o_output_id latest = i then batch_delete (latest_key (o_object_id existing)) batch else batch
              | None \<Rightarrow> batch)
          in map_err invalid_operation (kv_write_batch ops batch d))"

definition visit_output :: "'j store_codec \<Rightarrow> u8 list \<times> u8 list \<Rightarrow> ObjectOutput list \<Rightarrow> StorageError + ObjectOutput list" where
  "visit_output y = (\<lambda>(key, v) outs.
     if \<not> has_prefix key OUTPUT_PREFIX then Inr outs
     else case decode_output y v of Inl _ \<Rightarrow> Inr outs | Inr out \<Rightarrow> Inr (outs @ [out]))"

definition ds_collect_outputs :: "'j store_codec \<Rightarrow> 'd kv_ops \<Rightarrow> 'd \<Rightarrow> ObjectOutput list option" where
  "ds_collect_outputs y ops d = ok (for_each_prefix ops OUTPUT_PREFIX (visit_output y) d [])"

definition compute_store_ops :: "'j store_codec \<Rightarrow> 'd kv_ops \<Rightarrow> 'd store_ops" where
  "compute_store_ops y ops =
     \<lparr>get_output = ds_get_output y ops, get_latest_output_by_object = ds_get_latest y ops,
      insert_output = ds_insert_output y ops, mark_spent = ds_mark_spent y ops,
      unmark_spent = ds_unmark_spent y ops, remove_output = ds_remove_output y ops\<rparr>"

subsection \<open>Keys are apart\<close>

lemmas key_defs = output_key_def latest_key_def tx_result_key_def replay_key_def checkpoint_key_def
  OUTPUT_PREFIX_def LATEST_PREFIX_def TX_RESULT_PREFIX_def REPLAY_PREFIX_def CHECKPOINT_PREFIX_def

lemma key_inj [simp]:
  "output_key i = output_key i' \<longleftrightarrow> i = i'" "latest_key j = latest_key j' \<longleftrightarrow> j = j'"
  "tx_result_key t = tx_result_key t' \<longleftrightarrow> t = t'" "replay_key r = replay_key r' \<longleftrightarrow> r = r'"
  "checkpoint_key h = checkpoint_key h' \<longleftrightarrow> h = h'"
  by (auto simp: output_key_def latest_key_def tx_result_key_def replay_key_def checkpoint_key_def
      intro: OutputId.expand ObjectId.expand TxId.expand)

lemma key_prefix [simp]:
  "has_prefix (output_key i) OUTPUT_PREFIX" "\<not> has_prefix (output_key i) TX_RESULT_PREFIX"
  "\<not> has_prefix (output_key i) REPLAY_PREFIX" "\<not> has_prefix (output_key i) CHECKPOINT_PREFIX"
  "\<not> has_prefix (latest_key j) OUTPUT_PREFIX" "\<not> has_prefix (latest_key j) TX_RESULT_PREFIX"
  "\<not> has_prefix (latest_key j) REPLAY_PREFIX" "\<not> has_prefix (latest_key j) CHECKPOINT_PREFIX"
  "\<not> has_prefix (tx_result_key t) OUTPUT_PREFIX" "has_prefix (tx_result_key t) TX_RESULT_PREFIX"
  "\<not> has_prefix (tx_result_key t) REPLAY_PREFIX" "\<not> has_prefix (tx_result_key t) CHECKPOINT_PREFIX"
  "\<not> has_prefix (replay_key r) OUTPUT_PREFIX" "\<not> has_prefix (replay_key r) TX_RESULT_PREFIX"
  "has_prefix (replay_key r) REPLAY_PREFIX" "\<not> has_prefix (replay_key r) CHECKPOINT_PREFIX"
  "\<not> has_prefix (checkpoint_key h) OUTPUT_PREFIX" "\<not> has_prefix (checkpoint_key h) TX_RESULT_PREFIX"
  "\<not> has_prefix (checkpoint_key h) REPLAY_PREFIX" "has_prefix (checkpoint_key h) CHECKPOINT_PREFIX"
  by (simp_all add: key_defs str_bytes_def)

lemma key_apart [simp]:
  "output_key i \<noteq> latest_key j" "latest_key j \<noteq> output_key i" "latest_key j \<noteq> tx_result_key t"
  "latest_key j \<noteq> replay_key r" "latest_key j \<noteq> checkpoint_key h" "replay_key r \<noteq> latest_key j"
  by (simp_all add: key_defs str_bytes_def)

lemma key_prefix_disjoint:
  "has_prefix key OUTPUT_PREFIX \<Longrightarrow> \<not> has_prefix key TX_RESULT_PREFIX"
  "has_prefix key REPLAY_PREFIX \<Longrightarrow> \<not> has_prefix key OUTPUT_PREFIX"
  by (auto simp: has_prefix_iff key_defs str_bytes_def)

subsection \<open>The invariant\<close>

definition codec_ok :: "'j store_codec \<Rightarrow> bool" where
  "codec_ok y \<longleftrightarrow>
     (\<forall>out. \<exists>b. ser_output y out = Inr b \<and> de_output y b = Inr out) \<and>
     (\<forall>e. \<exists>b. ser_envelope y e = Inr b \<and> de_envelope y b = Inr e) \<and>
     (\<forall>c. \<exists>b. ser_checkpoint y c = Inr b \<and> de_checkpoint y b = Inr c)"

lemma output_roundtrip:
  assumes "codec_ok y"
  obtains b where "encode_output y out = Inr b" "decode_output y b = Inr out"
proof -
  obtain b where "ser_output y out = Inr b" "de_output y b = Inr out" using assms unfolding codec_ok_def by blast
  then have "encode_output y out = Inr (OUTPUT_BINARY_MAGIC @ b)" "decode_output y (OUTPUT_BINARY_MAGIC @ b) = Inr out"
    by (simp_all add: encode_output_def decode_output_def)
  then show thesis by (rule that)
qed

text \<open>The outputs that a map of the database holds.  Every entry of the name space of outputs is an output under
  its id, and a pointer to the latest version is an output of the object.\<close>

definition outputs_of :: "'j store_codec \<Rightarrow> (u8 list \<rightharpoonup> u8 list) \<Rightarrow> OutputId \<rightharpoonup> ObjectOutput" where
  "outputs_of y m i = Option.bind (m (output_key i)) (\<lambda>b. ok (decode_output y b))"

definition entries_ok :: "'j store_codec \<Rightarrow> (u8 list \<rightharpoonup> u8 list) \<Rightarrow> bool" where
  "entries_ok y m \<longleftrightarrow> (\<forall>key v. m key = Some v \<longrightarrow> has_prefix key OUTPUT_PREFIX \<longrightarrow>
     (\<exists>out. decode_output y v = Inr out \<and> key = output_key (o_output_id out)))"

definition pointers_ok :: "'j store_codec \<Rightarrow> (u8 list \<rightharpoonup> u8 list) \<Rightarrow> bool" where
  "pointers_ok y m \<longleftrightarrow> (\<forall>j v. m (latest_key j) = Some v \<longrightarrow>
     (\<exists>i out. v = be_bytes (output_raw i) \<and> outputs_of y m i = Some out \<and> o_object_id out = j))"

lemma entries_okD:
  assumes "entries_ok y m" "m (output_key i) = Some v"
  obtains out where "decode_output y v = Inr out" "o_output_id out = i"
proof -
  obtain out where out: "decode_output y v = Inr out" "output_key i = output_key (o_output_id out)"
    using assms key_prefix(1) [of i] unfolding entries_ok_def by blast
  then show thesis using that by simp
qed

lemma outputs_of_id: "entries_ok y m \<Longrightarrow> outputs_of y m i = Some out \<Longrightarrow> o_output_id out = i"
  by (auto simp: outputs_of_def bind_eq_Some_conv elim: entries_okD)

lemma outputs_of_None: "entries_ok y m \<Longrightarrow> outputs_of y m i = None \<longleftrightarrow> m (output_key i) = None"
  by (cases "m (output_key i)") (auto simp: outputs_of_def elim: entries_okD)

lemma outputs_of_put:
  "decode_output y b = Inr out \<Longrightarrow> outputs_of y (m(output_key i \<mapsto> b)) = (outputs_of y m)(i \<mapsto> out)"
  by (auto simp: outputs_of_def fun_eq_iff)

lemma outputs_of_delete: "outputs_of y (m(output_key i := None)) = (outputs_of y m)(i := None)"
  by (auto simp: outputs_of_def fun_eq_iff)

lemma outputs_of_other: "\<not> has_prefix key OUTPUT_PREFIX \<Longrightarrow> outputs_of y (m(key := v)) = outputs_of y m"
  by (auto simp: outputs_of_def fun_eq_iff)

lemma outputs_of_latest [simp]: "outputs_of y (m(latest_key j := v)) = outputs_of y m"
  by (rule outputs_of_other) simp

lemma entries_ok_put:
  "entries_ok y m \<Longrightarrow> decode_output y b = Inr out \<Longrightarrow> o_output_id out = i \<Longrightarrow> entries_ok y (m(output_key i \<mapsto> b))"
  by (auto simp: entries_ok_def)

lemma entries_ok_delete: "entries_ok y m \<Longrightarrow> entries_ok y (m(key := None))"
  by (auto simp: entries_ok_def)

lemma entries_ok_other: "entries_ok y m \<Longrightarrow> \<not> has_prefix key OUTPUT_PREFIX \<Longrightarrow> entries_ok y (m(key := v))"
  by (auto simp: entries_ok_def)

text \<open>Changing an output in place keeps the pointers.\<close>

lemma pointers_ok_put:
  assumes "pointers_ok y m" "decode_output y b = Inr out"
    and "\<And>old. outputs_of y m i = Some old \<Longrightarrow> o_object_id old = o_object_id out"
  shows "pointers_ok y (m(output_key i \<mapsto> b))"
  using assms by (fastforce simp: pointers_ok_def outputs_of_put)

lemma pointers_ok_latest:
  assumes "pointers_ok y m" "outputs_of y m i = Some out" "o_object_id out = j"
  shows "pointers_ok y (m(latest_key j \<mapsto> be_bytes (output_raw i)))"
  using assms by (auto simp: pointers_ok_def)

lemma pointers_ok_unlatest: "pointers_ok y m \<Longrightarrow> pointers_ok y (m(latest_key j := None))"
  by (auto simp: pointers_ok_def)

lemma be_bytes_to_id [simp]: "OutputId (of_nat (be_value (be_bytes (output_raw i)))) = i"
  by (simp add: be_value_be_bytes)

subsection \<open>The contract of an object store\<close>

definition store_ok :: "'j store_codec \<Rightarrow> (u8 list \<rightharpoonup> u8 list) \<Rightarrow> bool" where
  "store_ok y m \<longleftrightarrow> entries_ok y m \<and> pointers_ok y m"

lemmas batch_defs = batch_new_def batch_put_def batch_delete_def

locale compute_store = key_value_db +
  fixes y :: "'j store_codec"
  assumes codec: "codec_ok y"
begin

abbreviation store_inv :: "'a \<Rightarrow> bool" where
  "store_inv d \<equiv> kv_ok d \<and> store_ok y (kv_map d)"

lemma get_output_map [simp]: "kv_ok d \<Longrightarrow> ds_get_output y ops d i = outputs_of y (kv_map d) i"
  by (simp add: ds_get_output_def outputs_of_def get_ok split: option.splits)

lemma get_latest_map:
  assumes "store_inv d"
  shows "ds_get_latest y ops d j = (case kv_map d (latest_key j) of None \<Rightarrow> None
    | Some v \<Rightarrow> outputs_of y (kv_map d) (OutputId (of_nat (be_value v))))"
proof (cases "kv_map d (latest_key j)")
  case (Some v)
  then obtain i where "v = be_bytes (output_raw i)" using assms unfolding store_ok_def pointers_ok_def by blast
  then have "length v = 32" by simp
  with Some assms show ?thesis by (simp add: ds_get_latest_def get_ok)
qed (use assms in \<open>simp add: ds_get_latest_def get_ok\<close>)

lemma finite_outputs: "kv_ok d \<Longrightarrow> finite (dom (outputs_of y (kv_map d)))"
proof -
  assume "kv_ok d"
  then have "finite (output_key -` dom (kv_map d))" by (intro finite_vimageI finite_keys) (auto intro: injI)
  then show ?thesis by (rule rev_finite_subset) (auto simp: outputs_of_def bind_eq_Some_conv)
qed

lemma write_entry:
  assumes d: "store_inv d" and dec: "decode_output y b = Inr out" "o_output_id out = i"
    and same: "\<And>old. outputs_of y (kv_map d) i = Some old \<Longrightarrow> o_object_id old = o_object_id out"
  shows "\<exists>d'. kv_write_batch ops (batch_put (output_key i) b batch_new) d = Inr d' \<and> store_inv d' \<and>
    kv_map d' = (kv_map d)(output_key i \<mapsto> b)"
  using batch_ok [of d "batch_put (output_key i) b batch_new"] d dec
    entries_ok_put [OF _ dec] pointers_ok_put [OF _ dec(1) same]
  by (auto simp: batch_defs store_ok_def)

lemma rewrite_entry:
  assumes d: "store_inv d" and old: "outputs_of y (kv_map d) i = Some old"
    and out: "o_output_id out = o_output_id old" "o_object_id out = o_object_id old"
  shows "\<exists>d'. and_then (map_err invalid_operation (encode_output y out)) (\<lambda>serialized.
      map_err invalid_operation (kv_write_batch ops (batch_put (output_key i) serialized batch_new) d)) = Inr d' \<and>
    store_inv d' \<and> outputs_of y (kv_map d') = (outputs_of y (kv_map d))(i \<mapsto> out) \<and>
    (\<exists>b. kv_map d' = (kv_map d)(output_key i \<mapsto> b))"
proof -
  obtain b where b: "encode_output y out = Inr b" "decode_output y b = Inr out" using output_roundtrip [OF codec] .
  have "o_output_id old = i" using outputs_of_id d old by (auto simp: store_ok_def)
  then obtain d' where "kv_write_batch ops (batch_put (output_key i) b batch_new) d = Inr d'" "store_inv d'"
    "kv_map d' = (kv_map d)(output_key i \<mapsto> b)"
    using write_entry [OF d b(2)] old out by auto
  then show ?thesis using b outputs_of_put [OF b(2)] by auto
qed

lemma insert_new:
  assumes d: "store_inv d" and new: "outputs_of y (kv_map d) (o_output_id out) = None"
  shows "\<exists>d'. ds_insert_output y ops out d = Inr d' \<and> store_inv d' \<and>
    outputs_of y (kv_map d') = (outputs_of y (kv_map d))(o_output_id out \<mapsto> out) \<and>
    kv_map d' (latest_key (o_object_id out)) = Some (be_bytes (output_raw (o_output_id out)))"
proof -
  let ?i = "o_output_id out" and ?j = "o_object_id out"
  obtain b where b: "encode_output y out = Inr b" "decode_output y b = Inr out" using output_roundtrip [OF codec] .
  have absent: "kv_map d (output_key ?i) = None" using d new outputs_of_None by (auto simp: store_ok_def)
  let ?m = "(kv_map d)(output_key ?i \<mapsto> b, latest_key ?j \<mapsto> be_bytes (output_raw ?i))"
  have "entries_ok y ?m"
    by (rule entries_ok_other [OF entries_ok_put [OF _ b(2) refl]]) (use d in \<open>simp_all add: store_ok_def\<close>)
  moreover have "pointers_ok y ?m"
  proof (rule pointers_ok_latest)
    show "pointers_ok y ((kv_map d)(output_key ?i \<mapsto> b))"
      by (rule pointers_ok_put [OF _ b(2)]) (use d new in \<open>simp_all add: store_ok_def\<close>)
  qed (simp_all add: outputs_of_put [OF b(2)])
  moreover obtain d' where "kv_write_batch ops (batch_put (latest_key ?j) (be_bytes (output_raw ?i)) (batch_put (output_key ?i) b batch_new)) d = Inr d'"
    "kv_ok d'" "kv_map d' = ?m"
    using batch_ok [of d "batch_put (latest_key ?j) (be_bytes (output_raw ?i)) (batch_put (output_key ?i) b batch_new)"] d
    by (auto simp: batch_defs)
  ultimately show ?thesis
    using d absent b by (simp add: ds_insert_output_def has_ok store_ok_def outputs_of_put)
qed

lemma remove_stored:
  assumes d: "store_inv d" and old: "outputs_of y (kv_map d) i = Some old"
  shows "\<exists>d'. ds_remove_output y ops i d = Inr d' \<and> store_inv d' \<and>
    outputs_of y (kv_map d') = (outputs_of y (kv_map d))(i := None)"
proof -
  let ?j = "o_object_id old" and ?m = "(kv_map d)(output_key i := None)"
  define b where "b \<longleftrightarrow> (case ds_get_latest y ops d ?j of Some latest \<Rightarrow> o_output_id latest = i | None \<Rightarrow> False)"
  define batch where "batch = (if b then batch_delete (latest_key ?j) (batch_delete (output_key i) batch_new) else batch_delete (output_key i) batch_new)"
  have op: "ds_remove_output y ops i d = map_err invalid_operation (kv_write_batch ops batch d)"
    using d old by (simp add: ds_remove_output_def b_def batch_def split: option.splits)
  have e: "entries_ok y (kv_map d)" "pointers_ok y (kv_map d)" using d by (simp_all add: store_ok_def)
  define m where "m = (if b then ?m(latest_key ?j := None) else ?m)"
  obtain d' where d': "kv_write_batch ops batch d = Inr d'" "kv_ok d'" "kv_map d' = m"
    using batch_ok [of d batch] d by (auto simp: batch_defs batch_def m_def split: if_splits)
  have o: "outputs_of y m = (outputs_of y (kv_map d))(i := None)" by (simp add: m_def outputs_of_delete)
  have "entries_ok y m" using e(1) by (simp add: m_def entries_ok_delete)
  moreover have "pointers_ok y m"
    unfolding pointers_ok_def
  proof (intro allI impI)
    fix j v
    assume mj: "m (latest_key j) = Some v"
    then have "kv_map d (latest_key j) = Some v" by (auto simp: m_def split: if_splits)
    then obtain k out where k: "v = be_bytes (output_raw k)" "outputs_of y (kv_map d) k = Some out" "o_object_id out = j"
      using e(2) unfolding pointers_ok_def by blast
    have "k \<noteq> i"
    proof
      assume "k = i"
      then have "j = ?j" "ds_get_latest y ops d ?j = Some old"
        using k old \<open>kv_map d (latest_key j) = Some v\<close> by (simp_all add: get_latest_map [OF d])
      then have b using outputs_of_id [OF e(1) old] by (simp add: b_def)
      with mj \<open>j = ?j\<close> show False by (simp add: m_def)
    qed
    then show "\<exists>i out. v = be_bytes (output_raw i) \<and> outputs_of y m i = Some out \<and> o_object_id out = j"
      using k o by auto
  qed
  ultimately show ?thesis using d' o op by (simp add: store_ok_def)
qed

lemma get_output_fun: "kv_ok d \<Longrightarrow> ds_get_output y ops d = outputs_of y (kv_map d)"
  by (simp add: fun_eq_iff)

lemma mark_output:
  assumes d: "store_inv d" and old: "outputs_of y (kv_map d) i = Some old"
  shows "\<not> o_spent old \<Longrightarrow> \<exists>d'. ds_mark_spent y ops i d = Inr d' \<and> store_inv d' \<and>
      outputs_of y (kv_map d') = (outputs_of y (kv_map d))(i \<mapsto> old\<lparr>o_spent := True\<rparr>) \<and>
      (\<exists>b. kv_map d' = (kv_map d)(output_key i \<mapsto> b))"
    and "\<exists>d'. ds_unmark_spent y ops i d = Inr d' \<and> store_inv d' \<and>
      outputs_of y (kv_map d') = (outputs_of y (kv_map d))(i \<mapsto> old\<lparr>o_spent := False\<rparr>)"
  using rewrite_entry [OF d old, of "old\<lparr>o_spent := True\<rparr>"] rewrite_entry [OF d old, of "old\<lparr>o_spent := False\<rparr>"] d old
  by (auto simp: ds_mark_spent_def ds_unmark_spent_def)

end

sublocale compute_store \<subseteq> durable: reorg_store "compute_store_ops y ops" store_inv
proof (unfold_locales, simp_all only: compute_store_ops_def store_ops.simps)
  fix d i and out old :: ObjectOutput
  assume d: "store_inv d"
  note f = get_output_fun [OF conjunct1 [OF d]]
  show "finite (dom (ds_get_output y ops d))" using d finite_outputs f by simp
  show "ds_get_output y ops d i = Some out \<Longrightarrow> o_output_id out = i"
    using d outputs_of_id [of y "kv_map d" i out] by (simp add: f store_ok_def)
  show "ds_get_output y ops d (o_output_id out) = None \<Longrightarrow>
    \<exists>d'. ds_insert_output y ops out d = Inr d' \<and> store_inv d' \<and>
      ds_get_output y ops d' = (ds_get_output y ops d)(o_output_id out \<mapsto> out)"
    using insert_new [OF d, of out] by (auto simp: f get_output_fun)
  show "ds_get_output y ops d (o_output_id out) = Some old \<Longrightarrow> ds_insert_output y ops out d = Inl DuplicateOutputId"
    using d by (auto simp: f ds_insert_output_def has_ok outputs_of_def bind_eq_Some_conv)
  show "ds_get_output y ops d i = Some out \<Longrightarrow> \<not> o_spent out \<Longrightarrow>
    \<exists>d'. ds_mark_spent y ops i d = Inr d' \<and> store_inv d' \<and>
      ds_get_output y ops d' = (ds_get_output y ops d)(i \<mapsto> out\<lparr>o_spent := True\<rparr>)"
    using mark_output(1) [OF d, of i out] by (auto simp: f get_output_fun)
  show "ds_get_output y ops d i = Some out \<Longrightarrow> o_spent out \<Longrightarrow> ds_mark_spent y ops i d = Inl double_spend"
    by (simp add: ds_mark_spent_def)
  show "ds_get_output y ops d i = None \<Longrightarrow> ds_mark_spent y ops i d = Inl (ObjectNotFound (output_raw i))"
    by (simp add: ds_mark_spent_def)
  show "ds_get_output y ops d i = Some out \<Longrightarrow>
    \<exists>d'. ds_unmark_spent y ops i d = Inr d' \<and> store_inv d' \<and>
      ds_get_output y ops d' = (ds_get_output y ops d)(i \<mapsto> out\<lparr>o_spent := False\<rparr>)"
    using mark_output(2) [OF d, of i out] by (auto simp: f get_output_fun)
  show "ds_get_output y ops d i = Some out \<Longrightarrow>
    \<exists>d'. ds_remove_output y ops i d = Inr d' \<and> store_inv d' \<and>
      ds_get_output y ops d' = (ds_get_output y ops d)(i := None)"
    using remove_stored [OF d, of i out] by (auto simp: f get_output_fun)
qed

context compute_store
begin

lemma is_reorg_store: "reorg_store (compute_store_ops y ops) store_inv"
  by (rule durable.reorg_store_axioms)

end

end
