(* ===== verification/StoreCodec.thy ===== *)
theory StoreCodec
  imports ComputeStore
begin

section \<open>An instance of the codec\<close>

text \<open>
  A concrete codec that satisfies \<open>codec_ok\<close>, with which the properties of the durable store are applied to
  concrete data.  It is put together from coders, pairs of an encoder and a decoder that returns the bytes it leaves.
\<close>

record 'a coder =
  enc :: "'a \<Rightarrow> u8 list"
  dec :: "u8 list \<Rightarrow> ('a \<times> u8 list) option"

definition coder_ok :: "'a coder \<Rightarrow> bool" where
  "coder_ok c \<longleftrightarrow> (\<forall>a r. dec c (enc c a @ r) = Some (a, r))"

definition c_word :: "'a::len word coder" where
  "c_word = \<lparr>enc = be_bytes, dec = (\<lambda>b. Some (of_nat (be_value (take (LENGTH('a) div 8) b)), drop (LENGTH('a) div 8) b))\<rparr>"

definition c_pair :: "'a coder \<Rightarrow> 'b coder \<Rightarrow> ('a \<times> 'b) coder" where
  "c_pair c d = \<lparr>enc = (\<lambda>(a, b). enc c a @ enc d b),
     dec = (\<lambda>r. Option.bind (dec c r) (\<lambda>(a, r). Option.bind (dec d r) (\<lambda>(b, r). Some ((a, b), r))))\<rparr>"

definition c_sum :: "'a coder \<Rightarrow> 'b coder \<Rightarrow> ('a + 'b) coder" where
  "c_sum c d = \<lparr>enc = (\<lambda>s. case s of Inl a \<Rightarrow> 0 # enc c a | Inr b \<Rightarrow> 1 # enc d b),
     dec = (\<lambda>r. case r of [] \<Rightarrow> None | t # r \<Rightarrow>
       if t = 0 then map_option (apfst Inl) (dec c r) else map_option (apfst Inr) (dec d r))\<rparr>"

definition c_unit :: "unit coder" where
  "c_unit = \<lparr>enc = (\<lambda>_. []), dec = (\<lambda>r. Some ((), r))\<rparr>"

fun dec_items :: "'a coder \<Rightarrow> nat \<Rightarrow> u8 list \<Rightarrow> ('a list \<times> u8 list) option" where
  "dec_items c 0 r = Some ([], r)"
| "dec_items c (Suc n) r = Option.bind (dec c r) (\<lambda>(a, r). map_option (apfst ((#) a)) (dec_items c n r))"

definition c_list :: "'a coder \<Rightarrow> 'a list coder" where
  "c_list c = \<lparr>enc = (\<lambda>xs. replicate (length xs) 1 @ 0 # concat (map (enc c) xs)),
     dec = (\<lambda>r. dec_items c (length (takeWhile (\<lambda>b. b = 1) r)) (drop 1 (dropWhile (\<lambda>b. b = 1) r)))\<rparr>"

definition c_iso :: "('a \<Rightarrow> 'b) \<Rightarrow> ('b \<Rightarrow> 'a) \<Rightarrow> 'b coder \<Rightarrow> 'a coder" where
  "c_iso f g c = \<lparr>enc = (\<lambda>a. enc c (f a)), dec = (\<lambda>r. map_option (apfst g) (dec c r))\<rparr>"

named_theorems coder_rules

lemma c_word_ok: "8 dvd LENGTH('a) \<Longrightarrow> coder_ok (c_word :: 'a::len word coder)"
  by (simp add: coder_ok_def c_word_def be_value_be_bytes)

lemma c_words_ok [coder_rules]:
  "coder_ok (c_word :: u8 coder)" "coder_ok (c_word :: u32 coder)" "coder_ok (c_word :: u64 coder)"
  "coder_ok (c_word :: u128 coder)" "coder_ok (c_word :: address coder)" "coder_ok (c_word :: hash coder)"
  by (rule c_word_ok, simp)+

lemma c_pair_ok [coder_rules]: "coder_ok c \<Longrightarrow> coder_ok d \<Longrightarrow> coder_ok (c_pair c d)"
  by (simp add: coder_ok_def c_pair_def)

lemma c_sum_ok [coder_rules]: "coder_ok c \<Longrightarrow> coder_ok d \<Longrightarrow> coder_ok (c_sum c d)"
  by (simp add: coder_ok_def c_sum_def split: sum.split)

lemma c_unit_ok [coder_rules]: "coder_ok c_unit"
  by (simp add: coder_ok_def c_unit_def)

lemma c_list_ok [coder_rules]:
  assumes "coder_ok c"
  shows "coder_ok (c_list c)"
proof -
  have "dec_items c (length xs) (concat (map (enc c) xs) @ r) = Some (xs, r)" for xs r
    using assms by (induction xs) (simp_all add: coder_ok_def)
  then show ?thesis by (simp add: coder_ok_def c_list_def takeWhile_append dropWhile_append)
qed

lemma c_iso_ok: "(\<And>a. g (f a) = a) \<Longrightarrow> coder_ok c \<Longrightarrow> coder_ok (c_iso f g c)"
  by (simp add: coder_ok_def c_iso_def)

subsection \<open>Data\<close>

definition c_string :: "string coder" where "c_string = c_iso str_bytes bytes_str (c_list c_word)"

definition c_option :: "'a coder \<Rightarrow> 'a option coder" where
  "c_option c = c_iso (\<lambda>v. case v of None \<Rightarrow> Inl () | Some a \<Rightarrow> Inr a) (\<lambda>s. case s of Inl _ \<Rightarrow> None | Inr a \<Rightarrow> Some a) (c_sum c_unit c)"

definition c_bool :: "bool coder" where "c_bool = c_iso (\<lambda>b. if b then 1 else 0) (\<lambda>w. w = (1 :: u8)) c_word"

definition c_resource :: "ResourceValue coder" where
  "c_resource = c_iso
     (\<lambda>v. case v of Amount a \<Rightarrow> Inl (Inl a) | Data b \<Rightarrow> Inl (Inr b) | Ref j \<Rightarrow> Inr (Inl (object_raw j)) | RefBatch js \<Rightarrow> Inr (Inr (map object_raw js)))
     (\<lambda>s. case s of Inl (Inl a) \<Rightarrow> Amount a | Inl (Inr b) \<Rightarrow> Data b | Inr (Inl j) \<Rightarrow> Ref (ObjectId j) | Inr (Inr js) \<Rightarrow> RefBatch (map ObjectId js))
     (c_sum (c_sum c_word (c_list c_word)) (c_sum c_word (c_list c_word)))"

definition c_owner :: "Ownership coder" where
  "c_owner = c_iso
     (\<lambda>v. case v of OwnerAddress a \<Rightarrow> Inl (Inl a) | OwnerProgram a \<Rightarrow> Inl (Inr a) | OwnerShared \<Rightarrow> Inr (Inl ()) | OwnerEd25519 k \<Rightarrow> Inr (Inr k))
     (\<lambda>s. case s of Inl (Inl a) \<Rightarrow> OwnerAddress a | Inl (Inr a) \<Rightarrow> OwnerProgram a | Inr (Inl _) \<Rightarrow> OwnerShared | Inr (Inr k) \<Rightarrow> OwnerEd25519 k)
     (c_sum (c_sum c_word c_word) (c_sum c_unit c_word))"

definition c_kind :: "ObjectKind coder" where
  "c_kind = c_iso
     (\<lambda>v. case v of Asset \<Rightarrow> 0 | Code \<Rightarrow> 1 | State \<Rightarrow> 2 | Capability \<Rightarrow> 3 | Agent \<Rightarrow> 4 | Anchor \<Rightarrow> 5 | Ticket \<Rightarrow> 6)
     (\<lambda>w. if w = (0 :: u8) then Asset else if w = 1 then Code else if w = 2 then State else if w = 3 then Capability
        else if w = 4 then Agent else if w = 5 then Anchor else Ticket) c_word"

definition c_script :: "Script coder" where
  "c_script = c_iso (\<lambda>s. (vm s, code s)) (\<lambda>(v, c). \<lparr>vm = v, code = c\<rparr>) (c_pair c_word (c_list c_word))"

definition c_output :: "ObjectOutput coder" where
  "c_output = c_iso
     (\<lambda>out. ((output_raw (o_output_id out), object_raw (o_object_id out), version_raw (o_version out), domain_raw (o_domain_id out),
        o_kind out, o_owner out), map_option output_raw (o_predecessor out), o_state out, o_state_root out, o_resources out,
        o_lock out, o_logic out, o_created_at out, o_ttl out, o_rent_reserve out, o_flags out, o_extensions out, o_spent out))
     (\<lambda>((i, j, v, d, k, w), p, s, sr, rs, l, lg, c, t, rr, f, ex, sp).
        \<lparr>o_output_id = OutputId i, o_object_id = ObjectId j, o_version = Version v, o_domain_id = DomainId d, o_kind = k,
         o_owner = w, o_predecessor = map_option OutputId p, o_state = s, o_state_root = sr, o_resources = rs, o_lock = l,
         o_logic = lg, o_created_at = c, o_ttl = t, o_rent_reserve = rr, o_flags = f, o_extensions = ex, o_spent = sp\<rparr>)
     (c_pair (c_pair c_word (c_pair c_word (c_pair c_word (c_pair c_word (c_pair c_kind c_owner)))))
       (c_pair (c_option c_word) (c_pair (c_list c_word) (c_pair (c_option c_word) (c_pair (c_list (c_pair c_word c_resource))
       (c_pair c_script (c_pair (c_option c_script) (c_pair c_word (c_pair (c_option c_word) (c_pair (c_option c_word)
       (c_pair c_word (c_pair (c_list (c_pair c_string (c_list c_word))) c_bool))))))))))))"

definition c_checkpoint :: "DurableComputeCheckpoint coder" where
  "c_checkpoint = c_iso
     (\<lambda>c. (ck_height c, ck_block_hash c, ck_recorded_at_unix c, ck_spent_output_ids c, ck_created_outputs c, ck_included_tx_ids c))
     (\<lambda>(h, b, r, s, c, i). \<lparr>ck_height = h, ck_block_hash = b, ck_recorded_at_unix = r, ck_spent_output_ids = s,
        ck_created_outputs = c, ck_included_tx_ids = i\<rparr>)
     (c_pair c_word (c_pair c_word (c_pair c_word (c_pair (c_list c_word) (c_pair (c_list c_output) (c_list c_word))))))"

lemma c_string_ok [coder_rules]: "coder_ok c_string"
  unfolding c_string_def by (intro c_iso_ok coder_rules) simp

lemma c_option_ok [coder_rules]: "coder_ok c \<Longrightarrow> coder_ok (c_option c)"
  unfolding c_option_def by (intro c_iso_ok coder_rules) (simp_all split: option.split)

lemma c_bool_ok [coder_rules]: "coder_ok c_bool"
  unfolding c_bool_def by (intro c_iso_ok coder_rules) simp

lemma c_resource_ok [coder_rules]: "coder_ok c_resource"
  unfolding c_resource_def by (intro c_iso_ok coder_rules) (simp add: o_def split: ResourceValue.split)

lemma c_owner_ok [coder_rules]: "coder_ok c_owner"
  unfolding c_owner_def by (intro c_iso_ok coder_rules) (simp split: Ownership.split)

lemma c_kind_ok [coder_rules]: "coder_ok c_kind"
  unfolding c_kind_def by (intro c_iso_ok coder_rules) (simp split: ObjectKind.split)

lemma c_script_ok [coder_rules]: "coder_ok c_script"
  unfolding c_script_def by (intro c_iso_ok coder_rules) simp

lemma c_output_ok [coder_rules]: "coder_ok c_output"
  unfolding c_output_def by (intro c_iso_ok coder_rules) (simp add: option.map_comp o_def option.map_ident)

lemma c_checkpoint_ok [coder_rules]: "coder_ok c_checkpoint"
  unfolding c_checkpoint_def by (intro c_iso_ok coder_rules) simp

subsection \<open>The codec\<close>

definition whole :: "'a coder \<Rightarrow> u8 list \<Rightarrow> string + 'a" where
  "whole c b = (case dec c b of Some (a, []) \<Rightarrow> Inr a | _ \<Rightarrow> Inl ''unexpected bytes'')"

lemma whole_enc: "coder_ok c \<Longrightarrow> whole c (enc c a) = Inr a"
proof -
  assume "coder_ok c"
  then have "dec c (enc c a @ []) = Some (a, [])" unfolding coder_ok_def by blast
  then show ?thesis by (simp add: whole_def)
qed

text \<open>Its JSON values are texts, whose time of submission is the number they start with.\<close>

definition sample_codec :: "string store_codec" where
  "sample_codec =
     \<lparr>ser_output = (\<lambda>out. Inr (enc c_output out)), de_output = whole c_output, json_output = whole c_output,
      ser_envelope = (\<lambda>e. Inr (enc c_string (result_json e))), de_envelope = (\<lambda>b. map_sum id (\<lambda>s. \<lparr>result_json = s\<rparr>) (whole c_string b)),
      ser_checkpoint = (\<lambda>c. Inr (enc c_checkpoint c)), de_checkpoint = whole c_checkpoint,
      parse_json = Inr, print_json = Inr, json_field_u64 = (\<lambda>_ s. Some (of_nat (read_nat s)))\<rparr>"

lemma sample_codec_ok: "codec_ok sample_codec"
  by (simp add: codec_ok_def sample_codec_def whole_enc coder_rules)

interpretation mem_durable: compute_store mem_kv mem_kv_ok map_of sample_codec
  by unfold_locales (rule sample_codec_ok)

end
