(* ===== verification/ReplayStore.thy ===== *)
theory ReplayStore
  imports StoreCodec
begin

section \<open>Replay nonces, checkpoints and results in the durable store\<close>

text \<open>
  The durable replay registry answers as one in memory that is never restarted.  Checkpoints and results come back
  as they were put, and the list of checkpoints is complete and in order of height.
\<close>

subsection \<open>Replay nonces\<close>

definition nonces :: "(u8 list \<rightharpoonup> u8 list) \<Rightarrow> registry" where
  "nonces m key = (case m (replay_key key) of None \<Rightarrow> None | Some b \<Rightarrow> if length b = 8 then Some (of_nat (be_value b)) else None)"

lemma nonces_put: "nonces (m(replay_key key \<mapsto> be_bytes (now :: u64))) = (nonces m)(key \<mapsto> now)"
  by (auto simp: nonces_def fun_eq_iff be_value_be_bytes)

definition stale_entry :: "u64 \<Rightarrow> u64 \<Rightarrow> u8 list \<Rightarrow> bool" where
  "stale_entry now window v \<longleftrightarrow> length v \<noteq> 8 \<or> saturating_sub now (of_nat (be_value v)) > window"

lemma visit_stale_all:
  "try_fold (visit_stale now window) items ks = Inr (ks @ map fst (filter (\<lambda>(key, v). stale_entry now window v) items))"
  by (induction items arbitrary: ks) (auto simp: visit_stale_def stale_entry_def Let_def)

context key_value_db
begin

lemma has_replay_key_map: "kv_ok d \<Longrightarrow> has_replay_key ops key d = Inr (nonces (kv_map d) key)"
  by (simp add: has_replay_key_def get_ok nonces_def split: option.split)

lemma prune_replay:
  assumes d: "kv_ok d"
  shows "\<exists>n d'. prune_replay_keys ops now window d = Inr (n, d') \<and> kv_ok d' \<and>
    (\<forall>key. kv_map d' key = (case kv_map d key of None \<Rightarrow> None | Some v \<Rightarrow>
       if has_prefix key REPLAY_PREFIX \<and> stale_entry now window v then None else Some v))"
proof -
  obtain items where items: "kv_iter_prefix ops REPLAY_PREFIX d = Inr items" using iter_ok [OF d] by blast
  define ks where "ks = map fst (filter (\<lambda>(key, v). stale_entry now window v) items)"
  have walk: "for_each_prefix ops REPLAY_PREFIX (visit_stale now window) d [] = Inr ks"
    by (simp add: for_each_prefix_def items visit_stale_all ks_def)
  have mem: "key \<in> set ks \<longleftrightarrow> has_prefix key REPLAY_PREFIX \<and> (\<exists>v. kv_map d key = Some v \<and> stale_entry now window v)" for key
  proof -
    have "key \<in> set ks \<longleftrightarrow> (\<exists>v. (key, v) \<in> set items \<and> stale_entry now window v)" by (force simp: ks_def)
    then show ?thesis unfolding iter_set(1) [OF d items] by blast
  qed
  obtain d' where d': "kv_write_batch ops (fold batch_delete ks batch_new) d = Inr d'" "kv_ok d'" "kv_map d' = kv_map d |` (- set ks)"
    using delete_keys [OF d] by blast
  have left: "(kv_map d |` (- set ks)) key = (case kv_map d key of None \<Rightarrow> None | Some v \<Rightarrow>
       if has_prefix key REPLAY_PREFIX \<and> stale_entry now window v then None else Some v)" for key
    by (cases "kv_map d key") (simp_all add: restrict_map_def mem)
  show ?thesis
  proof (cases "ks = []")
    case True
    then have "kv_map d |` (- set ks) = kv_map d" by (simp add: restrict_map_def)
    then show ?thesis using True walk d left by (simp add: prune_replay_keys_def)
  next
    case False
    then show ?thesis using walk d' left by (simp add: prune_replay_keys_def)
  qed
qed

definition registry_ok :: "'d PersistentReplayNonceRegistry \<Rightarrow> bool" where
  "registry_ok r \<longleftrightarrow> kv_ok (pr_store r) \<and> (\<forall>key ts. pr_memory r key = Some ts \<longrightarrow> nonces (kv_map (pr_store r)) key = Some ts)"

lemma pr_contains_ok:
  assumes "registry_ok r"
  shows "fst (pr_contains ops key now r) = registry_contains key now (nonces (kv_map (pr_store r))) \<and>
    registry_ok (snd (pr_contains ops key now r)) \<and> pr_store (snd (pr_contains ops key now r)) = pr_store r"
proof (cases "pr_memory r key")
  case (Some ts)
  then have "nonces (kv_map (pr_store r)) key = Some ts" using assms by (simp add: registry_ok_def)
  then show ?thesis using Some assms by (simp add: pr_contains_def registry_contains_def in_window_def)
next
  case None
  then show ?thesis using assms
    by (auto simp: pr_contains_def registry_contains_def in_window_def registry_ok_def has_replay_key_map split: option.split)
qed

lemma pr_insert_ok:
  assumes "registry_ok r"
  shows "registry_ok (pr_insert ops key now r) \<and>
    nonces (kv_map (pr_store (pr_insert ops key now r))) = registry_insert key now (nonces (kv_map (pr_store r)))"
proof -
  obtain d' where d': "kv_put ops (replay_key key) (be_bytes now) (pr_store r) = Inr d'" "kv_ok d'"
    "kv_map d' = (kv_map (pr_store r))(replay_key key \<mapsto> be_bytes now)"
    using put_ok assms unfolding registry_ok_def by blast
  then show ?thesis using assms
    by (auto simp: pr_insert_def put_replay_key_def registry_ok_def nonces_put registry_insert_def)
qed

lemma pr_retain_ok:
  assumes "registry_ok r"
  shows "registry_ok (pr_retain_window ops now r) \<and>
    nonces (kv_map (pr_store (pr_retain_window ops now r))) = retain_window now (nonces (kv_map (pr_store r)))"
proof -
  have "kv_ok (pr_store r)" using assms by (simp add: registry_ok_def)
  from prune_replay [OF this, of now REPLAY_NONCE_WINDOW_SECS] obtain n d' where d':
    "prune_replay_keys ops now REPLAY_NONCE_WINDOW_SECS (pr_store r) = Inr (n, d')" "kv_ok d'"
    "\<And>key. kv_map d' key = (case kv_map (pr_store r) key of None \<Rightarrow> None | Some v \<Rightarrow>
       if has_prefix key REPLAY_PREFIX \<and> stale_entry now REPLAY_NONCE_WINDOW_SECS v then None else Some v)" by blast
  have n: "nonces (kv_map d') = retain_window now (nonces (kv_map (pr_store r)))"
    by (auto simp: nonces_def retain_window_def d'(3) stale_entry_def in_window_def fun_eq_iff not_less split: option.split)
  show ?thesis using assms d'(1,2) n
    by (auto simp: pr_retain_window_def registry_ok_def retain_window_def in_window_def split: option.splits if_splits)
qed

end

text \<open>A history of a registry: its operations, and restarts of the node.\<close>

datatype registry_event = Contains string u64 | Insert string u64 | Retain u64 | Restart

fun durable_answers :: "'d kv_ops \<Rightarrow> registry_event list \<Rightarrow> 'd PersistentReplayNonceRegistry \<Rightarrow> bool list" where
  "durable_answers ops [] r = []"
| "durable_answers ops (Contains key now # es) r = (case pr_contains ops key now r of (b, r) \<Rightarrow> b # durable_answers ops es r)"
| "durable_answers ops (Insert key now # es) r = durable_answers ops es (pr_insert ops key now r)"
| "durable_answers ops (Retain now # es) r = durable_answers ops es (pr_retain_window ops now r)"
| "durable_answers ops (Restart # es) r = durable_answers ops es (pr_new (pr_store r))"

fun memory_answers :: "registry_event list \<Rightarrow> registry \<Rightarrow> bool list" where
  "memory_answers [] r = []"
| "memory_answers (Contains key now # es) r = registry_contains key now r # memory_answers es r"
| "memory_answers (Insert key now # es) r = memory_answers es (registry_insert key now r)"
| "memory_answers (Retain now # es) r = memory_answers es (retain_window now r)"
| "memory_answers (Restart # es) r = memory_answers es r"

context key_value_db
begin

lemma answers_agree:
  "registry_ok r \<Longrightarrow> durable_answers ops es r = memory_answers es (nonces (kv_map (pr_store r)))"
proof (induction es arbitrary: r)
  case (Cons e es)
  show ?case
  proof (cases e)
    case (Contains key now)
    then show ?thesis using pr_contains_ok [OF Cons.prems, of key now] Cons.IH
      by (cases "pr_contains ops key now r") simp
  next
    case (Insert key now)
    then show ?thesis using pr_insert_ok [OF Cons.prems, of key now] Cons.IH by simp
  next
    case (Retain now)
    then show ?thesis using pr_retain_ok [OF Cons.prems, of now] Cons.IH by simp
  next
    case Restart
    have "registry_ok (pr_new (pr_store r))" using Cons.prems by (simp add: registry_ok_def pr_new_def)
    then show ?thesis using Cons.IH Restart by (simp add: pr_new_def)
  qed
qed simp

lemma new_registry_ok: "kv_ok d \<Longrightarrow> registry_ok (pr_new d)"
  by (simp add: registry_ok_def pr_new_def)

end

text \<open>C21: Whatever is asked and recorded, and however often the node restarts in between, the durable registry gives the
  answers of a registry in memory that is never restarted: a nonce that was used is refused after a restart, for as
  long as its window lasts.\<close>

theorem replay_registry_survives_restarts:
  assumes "key_value_db ops kv_ok kv_map" "kv_ok d"
  shows "durable_answers ops es (pr_new d) = memory_answers es (nonces (kv_map d))"
  using key_value_db.answers_agree [OF assms(1) key_value_db.new_registry_ok [OF assms]] by (simp add: pr_new_def)

lemma replay_registry_survives_restarts_witness:
  "durable_answers mem_kv [Contains ''n1'' 5, Insert ''n1'' 5, Restart, Contains ''n1'' 3605, Contains ''n1'' 3606, Retain 4000,
      Restart, Contains ''n1'' 6] (pr_new []) = [False, True, False, False]"
  by (subst replay_registry_survives_restarts [OF mem_kv.key_value_db_axioms])
     (simp_all add: nonces_def registry_contains_def registry_insert_def retain_window_def in_window_def saturating_sub_def
       REPLAY_NONCE_WINDOW_SECS_def)

subsection \<open>Checkpoints\<close>

definition checkpoint_at :: "'j store_codec \<Rightarrow> u8 list \<Rightarrow> DurableComputeCheckpoint option" where
  "checkpoint_at y v = (case strip_prefix v CHECKPOINT_BINARY_MAGIC of None \<Rightarrow> None | Some body \<Rightarrow> ok (de_checkpoint y body))"

lemma visit_checkpoints:
  "\<forall>(key, v) \<in> set items. has_prefix key CHECKPOINT_PREFIX \<Longrightarrow>
     try_fold (visit_checkpoint y) items out = Inr (out @ List.map_filter (checkpoint_at y \<circ> snd) items)"
  by (induction items arbitrary: out)
     (auto simp: visit_checkpoint_def checkpoint_at_def List.map_filter_simps split: option.split sum.split)

context compute_store
begin

lemma put_checkpoint_effect:
  assumes "kv_ok d"
  obtains b d' where "put_checkpoint y ops entry d = Inr d'" "kv_ok d'"
    "kv_map d' = (kv_map d)(checkpoint_key (ck_height entry) \<mapsto> CHECKPOINT_BINARY_MAGIC @ b)" "de_checkpoint y b = Inr entry"
proof -
  obtain b where b: "ser_checkpoint y entry = Inr b" "de_checkpoint y b = Inr entry" using codec unfolding codec_ok_def by blast
  obtain d' where "kv_put ops (checkpoint_key (ck_height entry)) (CHECKPOINT_BINARY_MAGIC @ b) d = Inr d'" "kv_ok d'"
    "kv_map d' = (kv_map d)(checkpoint_key (ck_height entry) \<mapsto> CHECKPOINT_BINARY_MAGIC @ b)" using put_ok [OF assms] by blast
  with b show thesis using that by (simp add: put_checkpoint_def)
qed

lemma list_checkpoints_spec:
  assumes d: "kv_ok d"
  shows "\<exists>out. list_checkpoints y ops d = Inr out \<and> sorted (map ck_height out) \<and>
    (\<forall>c. c \<in> set out \<longleftrightarrow> (\<exists>key v. has_prefix key CHECKPOINT_PREFIX \<and> kv_map d key = Some v \<and> checkpoint_at y v = Some c))"
proof -
  obtain items where items: "kv_iter_prefix ops CHECKPOINT_PREFIX d = Inr items" using iter_ok [OF d] by blast
  have "\<forall>(key, v) \<in> set items. has_prefix key CHECKPOINT_PREFIX" using iter_set(1) [OF d items] by auto
  then have "list_checkpoints y ops d = Inr (sort_key ck_height (List.map_filter (checkpoint_at y \<circ> snd) items))"
    by (simp add: list_checkpoints_def for_each_prefix_def items visit_checkpoints)
  moreover have "c \<in> set (List.map_filter (checkpoint_at y \<circ> snd) items) \<longleftrightarrow>
      (\<exists>key v. (key, v) \<in> set items \<and> checkpoint_at y v = Some c)" for c
    by (force simp: map_filter_def)
  ultimately show ?thesis unfolding iter_set(1) [OF d items] by auto
qed

end

text \<open>A checkpoint that was put is read back by its height and is in the list of all checkpoints, which is in
  ascending order of height; outputs and nonces are as before.\<close>

theorem checkpoint_roundtrip:
  assumes "compute_store ops kv_ok kv_map y" "kv_ok d"
  shows "\<exists>d' out. put_checkpoint y ops entry d = Inr d' \<and> get_checkpoint y ops (ck_height entry) d' = Inr (Some entry) \<and>
    (\<forall>height. height \<noteq> ck_height entry \<longrightarrow> get_checkpoint y ops height d' = get_checkpoint y ops height d) \<and>
    list_checkpoints y ops d' = Inr out \<and> entry \<in> set out \<and> sorted (map ck_height out) \<and>
    outputs_of y (kv_map d') = outputs_of y (kv_map d) \<and> nonces (kv_map d') = nonces (kv_map d)"
proof -
  have kv: "key_value_db ops kv_ok kv_map" using assms(1) by (rule compute_store.axioms(1))
  obtain b d' where d': "put_checkpoint y ops entry d = Inr d'" "kv_ok d'"
    "kv_map d' = (kv_map d)(checkpoint_key (ck_height entry) \<mapsto> CHECKPOINT_BINARY_MAGIC @ b)" "de_checkpoint y b = Inr entry"
    by (rule compute_store.put_checkpoint_effect [OF assms])
  obtain out where out: "list_checkpoints y ops d' = Inr out" "sorted (map ck_height out)"
    "\<And>c. c \<in> set out \<longleftrightarrow> (\<exists>key v. has_prefix key CHECKPOINT_PREFIX \<and> kv_map d' key = Some v \<and> checkpoint_at y v = Some c)"
    using compute_store.list_checkpoints_spec [OF assms(1) d'(2)] by blast
  have "checkpoint_at y (CHECKPOINT_BINARY_MAGIC @ b) = Some entry" using d'(4) by (simp add: checkpoint_at_def)
  then have "entry \<in> set out" unfolding out(3) d'(3) using key_prefix(20) by fastforce
  moreover have "nonces (kv_map d') = nonces (kv_map d)"
    by (auto simp: nonces_def d'(3) fun_eq_iff key_defs str_bytes_def)
  moreover have "get_checkpoint y ops height d' = get_checkpoint y ops height d" if "height \<noteq> ck_height entry" for height
  proof -
    have "kv_get ops (checkpoint_key height) d' = kv_get ops (checkpoint_key height) d"
      using that d'(3) by (simp add: key_value_db.get_ok [OF kv d'(2)] key_value_db.get_ok [OF kv assms(2)])
    then show ?thesis by (simp only: get_checkpoint_def)
  qed
  moreover have "get_checkpoint y ops (ck_height entry) d' = Inr (Some entry)"
    using d'(3,4) by (simp add: get_checkpoint_def key_value_db.get_ok [OF kv d'(2)])
  moreover have "outputs_of y (kv_map d') = outputs_of y (kv_map d)" by (simp add: d'(3) outputs_of_other)
  ultimately show ?thesis using d'(1) out(1,2) by blast
qed

definition sample_checkpoint :: DurableComputeCheckpoint where
  "sample_checkpoint = \<lparr>ck_height = 9, ck_block_hash = 1, ck_recorded_at_unix = 2, ck_spent_output_ids = [3],
     ck_created_outputs = [sample_output 2 2], ck_included_tx_ids = [4]\<rparr>"

lemma checkpoint_roundtrip_witness:
  "\<exists>d'. put_checkpoint sample_codec mem_kv sample_checkpoint [] = Inr d' \<and>
     get_checkpoint sample_codec mem_kv 9 d' = Inr (Some sample_checkpoint)"
  using checkpoint_roundtrip [OF mem_durable.compute_store_axioms, of "[]" sample_checkpoint]
  by (auto simp: sample_checkpoint_def)

subsection \<open>Results\<close>

text \<open>The canonical form of a JSON text.\<close>

definition canonical_json :: "'j store_codec \<Rightarrow> string \<Rightarrow> string option" where
  "canonical_json y json = Option.bind (ok (parse_json y json)) (\<lambda>j. ok (print_json y j))"

lemma encode_tx_result_text:
  assumes "codec_ok y" "canonical_json y json = Some canon"
  obtains b where "encode_tx_result y json = Inr b" "decode_tx_result y b = Inr canon"
proof -
  obtain j where j: "parse_json y json = Inr j" "print_json y j = Inr canon"
    using assms(2) by (auto simp: canonical_json_def bind_eq_Some_conv ok_def split: sum.splits)
  obtain b where "ser_envelope y \<lparr>result_json = canon\<rparr> = Inr b" "de_envelope y b = Inr \<lparr>result_json = canon\<rparr>"
    using assms(1) unfolding codec_ok_def by blast
  then show thesis using j that by (simp add: encode_tx_result_def decode_tx_result_def)
qed

lemma encode_tx_result_canonical:
  assumes "encode_tx_result y json = Inr b"
  obtains canon where "canonical_json y json = Some canon"
  using assms by (auto simp: encode_tx_result_def result_simps canonical_json_def)

lemma put_batch_fold:
  assumes "codec_ok y"
  shows "try_fold (\<lambda>(t, json) batch. and_then (encode_tx_result y json) (\<lambda>encoded. Inr (batch_put (tx_result_key t) encoded batch))) results b0 = Inr b
    \<Longrightarrow> \<exists>vs. b = b0 @ map (\<lambda>(t, v). Put (tx_result_key t) v) vs \<and> map fst vs = map fst results \<and>
      list_all2 (\<lambda>(t, json) (t', v). \<exists>canon. canonical_json y json = Some canon \<and> decode_tx_result y v = Inr canon) results vs"
proof (induction results arbitrary: b0)
  case (Cons r results)
  obtain t json where r: "r = (t, json)" by force
  from Cons.prems obtain v where v: "encode_tx_result y json = Inr v"
    "try_fold (\<lambda>(t, json) batch. and_then (encode_tx_result y json) (\<lambda>encoded. Inr (batch_put (tx_result_key t) encoded batch)))
       results (batch_put (tx_result_key t) v b0) = Inr b"
    by (auto simp: r result_simps)
  obtain canon where canon: "canonical_json y json = Some canon" using encode_tx_result_canonical [OF v(1)] .
  have "decode_tx_result y v = Inr canon" using encode_tx_result_text [OF assms canon] v(1) by auto
  moreover obtain vs where "b = batch_put (tx_result_key t) v b0 @ map (\<lambda>(t, v). Put (tx_result_key t) v) vs"
    "map fst vs = map fst results"
    "list_all2 (\<lambda>(t, json) (t', v). \<exists>canon. canonical_json y json = Some canon \<and> decode_tx_result y v = Inr canon) results vs"
    using Cons.IH [OF v(2)] by blast
  ultimately show ?case using canon by (intro exI [of _ "(t, v) # vs"]) (simp add: r batch_put_def)
qed simp

lemma batch_effect_puts:
  "fold batch_effect (map (\<lambda>(t, v). Put (tx_result_key t) v) vs) m (tx_result_key t) =
     (case map_of (rev vs) t of None \<Rightarrow> m (tx_result_key t) | Some v \<Rightarrow> Some v)"
  "\<not> has_prefix key TX_RESULT_PREFIX \<Longrightarrow> fold batch_effect (map (\<lambda>(t, v). Put (tx_result_key t) v) vs) m key = m key"
  by (induction vs arbitrary: m) (auto simp: map_add_def split: option.splits)

lemma list_all2_last:
  assumes "list_all2 R xs ys" "map fst ys = map fst xs" "map_of (rev xs) t = Some a"
  shows "\<exists>b. map_of (rev ys) t = Some b \<and> R (t, a) (t, b)"
  using assms
proof (induction xs ys rule: list_all2_induct)
  case (Cons x xs y ys)
  obtain k a' b' where xy: "x = (k, a')" "y = (k, b')" using Cons.prems(1) by (cases x; cases y) auto
  show ?case
  proof (cases "map_of (rev xs) t")
    case None
    then have "t \<notin> fst ` set xs" by (simp add: map_of_eq_None_iff)
    then have "t \<notin> fst ` set ys" using Cons.prems(1) by (metis list.set_map list.simps(9) list.inject)
    then have "map_of (rev ys) t = None" by (simp add: map_of_eq_None_iff)
    with None Cons.prems(2) Cons.hyps(1) xy show ?thesis by (auto simp: map_add_def split: if_splits)
  next
    case (Some c)
    then have "c = a" using Cons.prems(2) by (simp add: map_add_def)
    with Some Cons.IH Cons.prems(1) show ?thesis by (auto simp: map_add_def)
  qed
qed simp

text \<open>Results written in a batch are read back in the canonical form of their JSON text, the last one where a
  transaction occurs twice, the results of other transactions stay, and so do all outputs.\<close>

theorem tx_results_roundtrip:
  assumes "compute_store ops kv_ok kv_map y" "kv_ok d" "put_tx_results_batch y ops results d = Inr d'"
  shows "kv_ok d' \<and> outputs_of y (kv_map d') = outputs_of y (kv_map d) \<and>
    (\<forall>t json. map_of (rev results) t = Some json \<longrightarrow>
       (\<exists>canon. canonical_json y json = Some canon \<and> get_tx_result y ops t d' = Inr (Some canon))) \<and>
    (\<forall>t. t \<notin> fst ` set results \<longrightarrow> get_tx_result y ops t d' = get_tx_result y ops t d)"
proof (cases "results = []")
  case True
  then show ?thesis using assms by (simp add: put_tx_results_batch_def)
next
  case False
  have kv: "key_value_db ops kv_ok kv_map" and codec: "codec_ok y"
    using assms(1) by (auto simp: compute_store_def compute_store_axioms_def)
  obtain b where b: "try_fold (\<lambda>(t, json) batch. and_then (encode_tx_result y json) (\<lambda>encoded.
      Inr (batch_put (tx_result_key t) encoded batch))) results batch_new = Inr b" "kv_write_batch ops b d = Inr d'"
    using assms(3) False by (auto simp: put_tx_results_batch_def result_simps)
  obtain vs where vs: "b = map (\<lambda>(t, v). Put (tx_result_key t) v) vs" "map fst vs = map fst results"
    "list_all2 (\<lambda>(t, json) (t', v). \<exists>canon. canonical_json y json = Some canon \<and> decode_tx_result y v = Inr canon) results vs"
    using put_batch_fold [OF codec b(1)] by (auto simp: batch_new_def)
  have d': "kv_ok d'" "kv_map d' = fold batch_effect b (kv_map d)"
    using key_value_db.batch_ok [OF kv assms(2), of b] b(2) by auto
  note get = key_value_db.get_ok [OF kv d'(1)] key_value_db.get_ok [OF kv assms(2)]
  have "outputs_of y (kv_map d') = outputs_of y (kv_map d)"
    by (simp add: outputs_of_def fun_eq_iff d'(2) vs(1) batch_effect_puts)
  moreover have "\<exists>canon. canonical_json y json = Some canon \<and> get_tx_result y ops t d' = Inr (Some canon)"
    if "map_of (rev results) t = Some json" for t json
    using list_all2_last [OF vs(3,2) that]
    by (auto simp: get_tx_result_def get d'(2) vs(1) batch_effect_puts(1))
  moreover have "get_tx_result y ops t d' = get_tx_result y ops t d" if "t \<notin> fst ` set results" for t
  proof -
    have "t \<notin> fst ` set vs" using that vs(2) by (metis list.set_map)
    then have "map_of (rev vs) t = None" by (simp add: map_of_eq_None_iff)
    then have "kv_get ops (tx_result_key t) d' = kv_get ops (tx_result_key t) d"
      by (simp add: get d'(2) vs(1) batch_effect_puts(1))
    then show ?thesis by (simp only: get_tx_result_def)
  qed
  ultimately show ?thesis using d'(1) by blast
qed

lemma tx_results_roundtrip_witness:
  "\<exists>d'. put_tx_results_batch sample_codec mem_kv [(TxId 1, ''5''), (TxId 1, ''6'')] [] = Inr d' \<and>
     get_tx_result sample_codec mem_kv (TxId 1) d' = Inr (Some ''6'')"
proof -
  obtain d' where d': "put_tx_results_batch sample_codec mem_kv [(TxId 1, ''5''), (TxId 1, ''6'')] [] = Inr d'"
    by (simp add: put_tx_results_batch_def encode_tx_result_def sample_codec_def mem_kv_def)
  from tx_results_roundtrip [OF mem_durable.compute_store_axioms _ d'] show ?thesis
    using d' by (auto simp: canonical_json_def sample_codec_def)
qed

end
