(* ===== verification/Durable.thy ===== *)
theory Durable
  imports StoreCodec Ledger
begin

section \<open>What the durable store guarantees\<close>

text \<open>
  The executor cannot tell the durable store from the one in memory (locale \<open>store_pair\<close>); the durable replay
  registry answers as one in memory that is never restarted; checkpoints and results come back as they were put.
\<close>

subsection \<open>Two object stores with the same outputs\<close>

text \<open>The validator with the same policies and domains over another store.\<close>

definition with_ops :: "'t store_ops \<Rightarrow> 's validator \<Rightarrow> 't validator" where
  "with_ops ops v = \<lparr>v_ops = ops, v_authorization = v_authorization v, v_resources = v_resources v, v_domains = v_domains v\<rparr>"

lemma with_ops_simps [simp]:
  "v_ops (with_ops ops v) = ops" "v_authorization (with_ops ops v) = v_authorization v"
  "v_resources (with_ops ops v) = v_resources v" "v_domains (with_ops ops v) = v_domains v"
  by (simp_all add: with_ops_def)

locale store_pair = a: object_store opsa inva + b: object_store opsb invb
  for opsa :: "'s store_ops" and inva and opsb :: "'t store_ops" and invb
begin

definition same :: "'s \<Rightarrow> 't \<Rightarrow> bool" where
  "same s t \<longleftrightarrow> inva s \<and> invb t \<and> get_output opsa s = get_output opsb t"

lemma same_mark:
  assumes "same s t"
  shows "(\<exists>e. mark_spent opsa i s = Inl e \<and> mark_spent opsb i t = Inl e) \<or>
    (\<exists>s' t'. mark_spent opsa i s = Inr s' \<and> mark_spent opsb i t = Inr t' \<and> same s' t')"
proof (cases "get_output opsb t i")
  case None
  then show ?thesis using assms a.mark_missing [of s i] b.mark_missing [of t i] by (simp add: same_def)
next
  case (Some out)
  show ?thesis
  proof (cases "o_spent out")
    case True
    then show ?thesis using assms Some a.mark_dead [of s i out] b.mark_dead [of t i out] by (simp add: same_def)
  next
    case False
    then show ?thesis using assms Some a.mark_live [of s i out] b.mark_live [of t i out] by (auto simp: same_def)
  qed
qed

lemma same_insert:
  assumes "same s t"
  shows "(\<exists>e. insert_output opsa out s = Inl e \<and> insert_output opsb out t = Inl e) \<or>
    (\<exists>s' t'. insert_output opsa out s = Inr s' \<and> insert_output opsb out t = Inr t' \<and> same s' t')"
proof (cases "get_output opsb t (o_output_id out)")
  case None
  then show ?thesis using assms a.insert_fresh [of s out] b.insert_fresh [of t out] by (auto simp: same_def)
next
  case (Some old)
  then show ?thesis using assms a.insert_present [of s out old] b.insert_present [of t out old] by (simp add: same_def)
qed

lemma same_loop:
  assumes "same s t"
    and "\<And>x s t. same s t \<Longrightarrow> (\<exists>e. f x s = Inl e \<and> g x t = Inl e) \<or> (\<exists>s' t'. f x s = Inr s' \<and> g x t = Inr t' \<and> same s' t')"
  shows "fst (store_loop f xs s) = fst (store_loop g xs t) \<and> same (snd (store_loop f xs s)) (snd (store_loop g xs t))"
  using assms(1)
proof (induction xs arbitrary: s t)
  case (Cons x xs)
  from assms(2) [OF Cons.prems, of x] Cons.IH Cons.prems show ?case by auto
qed simp

lemma same_commit:
  assumes "same s t"
  shows "fst (commit_outputs opsa tx s) = fst (commit_outputs opsb tx t) \<and>
    same (snd (commit_outputs opsa tx s)) (snd (commit_outputs opsb tx t))"
proof -
  have "fst (store_loop (mark_spent opsa) (input_set tx) s) = fst (store_loop (mark_spent opsb) (input_set tx) t) \<and>
    same (snd (store_loop (mark_spent opsa) (input_set tx) s)) (snd (store_loop (mark_spent opsb) (input_set tx) t))"
    by (rule same_loop [OF assms same_mark])
  moreover have "fst (store_loop (\<lambda>p. insert_output opsa (object_from_proposal p)) ps s) =
      fst (store_loop (\<lambda>p. insert_output opsb (object_from_proposal p)) ps t) \<and>
    same (snd (store_loop (\<lambda>p. insert_output opsa (object_from_proposal p)) ps s))
      (snd (store_loop (\<lambda>p. insert_output opsb (object_from_proposal p)) ps t))" if "same s t" for s t ps
    by (rule same_loop [OF that same_insert])
  ultimately show ?thesis
    unfolding commit_outputs_def by (auto split: prod.split sum.split)
qed

lemma same_validate:
  assumes "same s t" "v_ops v = opsa"
  shows "validate (with_ops opsb v) t tx = validate v s tx"
proof -
  have r: "resolve_input opsb t tx = resolve_input opsa s tx" "resolve_read opsb t tx = resolve_read opsa s tx"
    using assms(1) by (auto simp: same_def resolve_input_def resolve_read_def fun_eq_iff)
  show ?thesis unfolding validate_def with_ops_simps assms(2) r by simp
qed

lemma same_execute:
  assumes "same (ex_store st) (ex_store su)" "ex_registry st = ex_registry su" "v_ops v = opsa"
  shows "fst (execute x now v tx st) = fst (execute x now (with_ops opsb v) tx su) \<and>
    same (ex_store (snd (execute x now v tx st))) (ex_store (snd (execute x now (with_ops opsb v) tx su))) \<and>
    ex_registry (snd (execute x now v tx st)) = ex_registry (snd (execute x now (with_ops opsb v) tx su))"
proof -
  note c = same_commit [OF assms(1), of tx]
  show ?thesis
    unfolding execute_def commit_prevalidated_def with_ops_simps assms(2,3) same_validate [OF assms(1,3)]
    using c assms(1,2) by (auto split: sum.split prod.split)
qed

end

subsection \<open>The executor on the durable store\<close>

lemma durable_pair:
  assumes "compute_store ops kv_ok kv_map y"
  shows "store_pair mem_ops mem_inv (compute_store_ops y ops) (\<lambda>d. kv_ok d \<and> store_ok y (kv_map d))"
  by (rule store_pair.intro [OF mem.object_store_axioms
        reorg_store.axioms(1) [OF compute_store.is_reorg_store [OF assms]]])

lemma get_output_durable:
  "compute_store ops kv_ok kv_map y \<Longrightarrow> kv_ok d \<Longrightarrow> get_output (compute_store_ops y ops) d = outputs_of y (kv_map d)"
  by (simp add: compute_store_ops_def compute_store.get_output_fun)

text \<open>C20: The executor behaves the same on the durable store as on the one in memory: from stores that hold the same
  outputs, with the same policies, a transaction has the same result, and the stores hold the same outputs and the
  registries the same nonces afterwards.\<close>

theorem durable_execution_matches_memory:
  assumes "compute_store ops kv_ok kv_map y" "kv_ok (ex_store su)" "store_ok y (kv_map (ex_store su))"
    "mem_inv (ex_store st)" "ledger_of st = outputs_of y (kv_map (ex_store su))" "ex_registry st = ex_registry su"
    "v_ops v = mem_ops" "execute x now v tx st = (r, st')"
  shows "\<exists>su'. execute x now (with_ops (compute_store_ops y ops) v) tx su = (r, su') \<and>
    kv_ok (ex_store su') \<and> store_ok y (kv_map (ex_store su')) \<and>
    outputs_of y (kv_map (ex_store su')) = ledger_of st' \<and> ex_registry su' = ex_registry st'"
proof -
  note pair = durable_pair [OF assms(1)]
  have "store_pair.same mem_ops mem_inv (compute_store_ops y ops) (\<lambda>d. kv_ok d \<and> store_ok y (kv_map d)) (ex_store st) (ex_store su)"
    using assms by (simp add: store_pair.same_def [OF pair] get_output_durable [OF assms(1)])
  from store_pair.same_execute [OF pair this assms(6,7), of x now tx] assms(8) show ?thesis
    by (cases "execute x now (with_ops (compute_store_ops y ops) v) tx su")
       (auto simp: store_pair.same_def [OF pair] get_output_durable [OF assms(1)])
qed

definition sample_db :: MemDatabase where
  "sample_db = (case ds_insert_output sample_codec mem_kv sample_out [] of Inr d \<Rightarrow> d | Inl _ \<Rightarrow> [])"

lemma empty_store_ok: "store_ok y Map.empty"
  by (simp add: store_ok_def entries_ok_def pointers_ok_def)

lemma sample_db:
  "ds_insert_output sample_codec mem_kv sample_out [] = Inr sample_db" "mem_kv_ok sample_db"
  "store_ok sample_codec (map_of sample_db)" "outputs_of sample_codec (map_of sample_db) = [OutputId 1 \<mapsto> sample_out]"
proof -
  have none: "outputs_of sample_codec (map_of []) = Map.empty" by (simp add: outputs_of_def fun_eq_iff)
  have "mem_kv_ok [] \<and> store_ok sample_codec (map_of [])" by (simp add: empty_store_ok)
  from mem_durable.insert_new [OF this, of sample_out] obtain d where d:
    "ds_insert_output sample_codec mem_kv sample_out [] = Inr d" "mem_kv_ok d" "store_ok sample_codec (map_of d)"
    "outputs_of sample_codec (map_of d) = (outputs_of sample_codec (map_of []))(o_output_id sample_out \<mapsto> sample_out)"
    unfolding none by blast
  then have "sample_db = d" by (simp add: sample_db_def)
  then show "ds_insert_output sample_codec mem_kv sample_out [] = Inr sample_db" "mem_kv_ok sample_db"
    "store_ok sample_codec (map_of sample_db)" "outputs_of sample_codec (map_of sample_db) = [OutputId 1 \<mapsto> sample_out]"
    using d none by (simp_all add: sample_out_def sample_output_def)
qed

lemma durable_execution_matches_memory_witness:
  "\<exists>su'. execute sample_externals 0 (with_ops (compute_store_ops sample_codec mem_kv) sample_validator) sample_signed_tx
     (executor_new sample_db) = (Inr sample_report, su')"
proof -
  obtain st' where run: "execute sample_externals 0 sample_validator sample_signed_tx sample_state = (Inr sample_report, st')"
    using sample_execute by blast
  have l: "ledger_of sample_state = outputs_of sample_codec (map_of (ex_store (executor_new sample_db)))"
    using sample_db(4) by (simp add: sample_state_def executor_new_def sample_store_def sample_out_def)
  from durable_execution_matches_memory [OF mem_durable.compute_store_axioms _ _ sample_state_inv l _ sample_validator_simps(1) run]
    sample_db(2,3)
  show ?thesis by (auto simp: executor_new_def sample_state_def)
qed

text \<open>The durable store moves the pointer to the latest version of an object to whatever was inserted last, also
  when its version is older than the one the pointer had.\<close>

theorem durable_latest_is_last_inserted:
  assumes "compute_store ops kv_ok kv_map y" "kv_ok d" "store_ok y (kv_map d)"
    "outputs_of y (kv_map d) (o_output_id out) = None"
  shows "\<exists>d'. ds_insert_output y ops out d = Inr d' \<and> ds_get_latest y ops d' (o_object_id out) = Some out"
proof -
  from compute_store.insert_new [OF assms(1) conjI [OF assms(2,3)] assms(4)] obtain d' where d':
    "ds_insert_output y ops out d = Inr d'" "kv_ok d' \<and> store_ok y (kv_map d')"
    "outputs_of y (kv_map d') = (outputs_of y (kv_map d))(o_output_id out \<mapsto> out)"
    "kv_map d' (latest_key (o_object_id out)) = Some (be_bytes (output_raw (o_output_id out)))" by blast
  then show ?thesis using compute_store.get_latest_map [OF assms(1) d'(2)] by simp
qed

lemma durable_latest_is_last_inserted_witness:
  "o_version (sample_output 2 0) < o_version sample_out \<and>
   (\<exists>d'. ds_insert_output sample_codec mem_kv (sample_output 2 0) sample_db = Inr d' \<and>
      ds_get_latest sample_codec mem_kv d' (ObjectId 7) = Some (sample_output 2 0))"
  using durable_latest_is_last_inserted [OF mem_durable.compute_store_axioms sample_db(2,3), of "sample_output 2 0"] sample_db(4)
  by (simp add: sample_out_def sample_output_def less_Version_def)

end
