(* ===== verification/StoreUpkeep.thy ===== *)
theory StoreUpkeep
  imports ReplayStore Durable "HOL-Library.List_Lexorder"
begin

section \<open>Rebuilding and pruning the durable store\<close>

text \<open>
  \<open>rebuild_compute_store\<close> and \<open>prune_compute_store\<close> of \<open>rabbitstore/src/compute/mod.rs\<close>.  A rebuild keeps outputs,
  pointers, nonces and checkpoints and makes results canonical.  Pruning removes exactly the spent outputs and the
  results past retention and leaves no pointer dangling.  One entry that cannot be decoded stops either.
\<close>

subsection \<open>Rebuilding\<close>

record ComputeRebuildStats =
  rb_total_entries :: u64
  rb_output_entries :: u64
  rb_legacy_json_outputs :: u64
  rb_binary_outputs :: u64
  rb_copied_entries :: u64
  rb_rewritten_entries :: u64
  rb_tx_result_entries :: u64
  rb_legacy_json_tx_results :: u64
  rb_binary_tx_results :: u64


definition put_recoded :: "'t kv_ops \<Rightarrow> u8 list \<Rightarrow> u8 list \<Rightarrow> u8 list \<Rightarrow> ComputeRebuildStats \<Rightarrow> 't \<Rightarrow> StorageError + ComputeRebuildStats \<times> 't" where
  "put_recoded tops key v encoded stats target =
     (let stats = (if encoded \<noteq> v then stats\<lparr>rb_rewritten_entries := rb_rewritten_entries stats + 1\<rparr> else stats)
      in and_then (kv_put tops key encoded target) (\<lambda>target. Inr (stats, target)))"

definition visit_rebuild :: "'j store_codec \<Rightarrow> 't kv_ops \<Rightarrow> u8 list \<times> u8 list \<Rightarrow> ComputeRebuildStats \<times> 't \<Rightarrow> StorageError + ComputeRebuildStats \<times> 't" where
  "visit_rebuild y tops = (\<lambda>(key, v) (stats, target).
     let stats = stats\<lparr>rb_total_entries := rb_total_entries stats + 1\<rparr> in
     if has_prefix key OUTPUT_PREFIX then
       let stats = stats\<lparr>rb_output_entries := rb_output_entries stats + 1\<rparr>;
           stats = (if has_prefix v OUTPUT_BINARY_MAGIC then stats\<lparr>rb_binary_outputs := rb_binary_outputs stats + 1\<rparr>
                    else stats\<lparr>rb_legacy_json_outputs := rb_legacy_json_outputs stats + 1\<rparr>)
       in and_then (decode_output y v) (\<lambda>out. and_then (encode_output y out) (\<lambda>encoded. put_recoded tops key v encoded stats target))
     else if has_prefix key TX_RESULT_PREFIX then
       let stats = stats\<lparr>rb_tx_result_entries := rb_tx_result_entries stats + 1\<rparr>;
           stats = (if has_prefix v TX_RESULT_BINARY_MAGIC then stats\<lparr>rb_binary_tx_results := rb_binary_tx_results stats + 1\<rparr>
                    else stats\<lparr>rb_legacy_json_tx_results := rb_legacy_json_tx_results stats + 1\<rparr>)
       in and_then (decode_tx_result y v) (\<lambda>json. and_then (encode_tx_result y json) (\<lambda>encoded. put_recoded tops key v encoded stats target))
     else and_then (kv_put tops key v target) (\<lambda>target. Inr (stats\<lparr>rb_copied_entries := rb_copied_entries stats + 1\<rparr>, target)))"


subsection \<open>Pruning\<close>

record ComputePruneConfig =
  pc_retain_all :: bool
  pc_now_unix_secs :: u64
  pc_retention_window_secs :: u64
  pc_dry_run :: bool

record ComputePruneStats =
  pn_total_entries :: u64
  pn_output_entries :: u64
  pn_tx_result_entries :: u64
  pn_spent_output_candidates :: u64
  pn_tx_result_candidates :: u64
  pn_latest_entries_deleted :: u64
  pn_deleted_entries :: u64

definition prune_stats_default :: ComputePruneStats where
  "prune_stats_default =
     \<lparr>pn_total_entries = 0, pn_output_entries = 0, pn_tx_result_entries = 0, pn_spent_output_candidates = 0,
      pn_tx_result_candidates = 0, pn_latest_entries_deleted = 0, pn_deleted_entries = 0\<rparr>"

definition past_retention :: "ComputePruneConfig \<Rightarrow> u64 \<Rightarrow> bool" where
  "past_retention cfg at = is_past_retention at (pc_now_unix_secs cfg) (pc_retention_window_secs cfg)"

text \<open>The keys to delete, and beside them the pointers, a \<open>BTreeSet\<close>, as a sorted list.\<close>

type_synonym prune_state = "ComputePruneStats \<times> u8 list list \<times> u8 list list"

definition visit_prune :: "'j store_codec \<Rightarrow> 'd kv_ops \<Rightarrow> ComputePruneConfig \<Rightarrow> 'd \<Rightarrow> u8 list \<times> u8 list \<Rightarrow> prune_state \<Rightarrow> StorageError + prune_state" where
  "visit_prune y ops cfg d = (\<lambda>(key, v) (stats, delete_keys, latest_delete_keys).
     let stats = stats\<lparr>pn_total_entries := pn_total_entries stats + 1\<rparr> in
     if has_prefix key OUTPUT_PREFIX then
       let stats = stats\<lparr>pn_output_entries := pn_output_entries stats + 1\<rparr> in
       and_then (decode_output y v) (\<lambda>out.
       if o_spent out \<and> past_retention cfg (o_created_at out) then
         let stats = stats\<lparr>pn_spent_output_candidates := pn_spent_output_candidates stats + 1\<rparr> in
         if \<not> pc_retain_all cfg then
           and_then (kv_get ops (latest_key (o_object_id out)) d) (\<lambda>latest.
           Inr (stats, delete_keys @ [key],
             if latest = Some (be_bytes (output_raw (o_output_id out)))
             then insort_insert (latest_key (o_object_id out)) latest_delete_keys else latest_delete_keys))
         else Inr (stats, delete_keys, latest_delete_keys)
       else Inr (stats, delete_keys, latest_delete_keys))
     else if has_prefix key TX_RESULT_PREFIX then
       let stats = stats\<lparr>pn_tx_result_entries := pn_tx_result_entries stats + 1\<rparr> in
       and_then (decode_tx_result y v) (\<lambda>json.
       if (case tx_result_submitted_at_unix y json of None \<Rightarrow> False | Some at \<Rightarrow> past_retention cfg at) then
         let stats = stats\<lparr>pn_tx_result_candidates := pn_tx_result_candidates stats + 1\<rparr> in
         Inr (stats, if \<not> pc_retain_all cfg then delete_keys @ [key] else delete_keys, latest_delete_keys)
       else Inr (stats, delete_keys, latest_delete_keys))
     else Inr (stats, delete_keys, latest_delete_keys))"

definition prune_compute_store :: "'j store_codec \<Rightarrow> 'd kv_ops \<Rightarrow> ComputePruneConfig \<Rightarrow> 'd \<Rightarrow> StorageError + ComputePruneStats \<times> 'd" where
  "prune_compute_store y ops cfg d =
     and_then (for_each_prefix ops [] (visit_prune y ops cfg d) d (prune_stats_default, [], [])) (\<lambda>(stats, delete_keys, latest).
     let keys = remdups_adj (sort (delete_keys @ latest)) in
     if \<not> pc_dry_run cfg \<and> \<not> pc_retain_all cfg \<and> keys \<noteq> [] then
       and_then (kv_write_batch ops (fold batch_delete keys batch_new) d) (\<lambda>d.
       Inr (stats\<lparr>pn_deleted_entries := of_nat (length keys), pn_latest_entries_deleted := of_nat (length latest)\<rparr>, d))
     else Inr (stats, d))"

subsection \<open>What a rebuild keeps\<close>

definition recode :: "'j store_codec \<Rightarrow> u8 list \<Rightarrow> u8 list \<Rightarrow> StorageError + u8 list" where
  "recode y key v =
     (if has_prefix key OUTPUT_PREFIX then and_then (decode_output y v) (encode_output y)
      else if has_prefix key TX_RESULT_PREFIX then and_then (decode_tx_result y v) (encode_tx_result y)
      else Inr v)"


fun counted :: "(u8 list \<Rightarrow> u8 list \<Rightarrow> bool) \<Rightarrow> (u8 list \<times> u8 list) list \<Rightarrow> u64" where
  "counted P [] = 0"
| "counted P ((key, v) # items) = (if P key v then 1 else 0) + counted P items"


text \<open>What a rebuild reports of the entries \<open>n\<close> counts.\<close>

definition rebuild_counts :: "'j store_codec \<Rightarrow> ((u8 list \<Rightarrow> u8 list \<Rightarrow> bool) \<Rightarrow> u64) \<Rightarrow> ComputeRebuildStats" where
  "rebuild_counts y n =
     \<lparr>rb_total_entries = n (\<lambda>key v. True),
      rb_output_entries = n (\<lambda>key v. has_prefix key OUTPUT_PREFIX),
      rb_legacy_json_outputs = n (\<lambda>key v. has_prefix key OUTPUT_PREFIX \<and> \<not> has_prefix v OUTPUT_BINARY_MAGIC),
      rb_binary_outputs = n (\<lambda>key v. has_prefix key OUTPUT_PREFIX \<and> has_prefix v OUTPUT_BINARY_MAGIC),
      rb_copied_entries = n (\<lambda>key v. \<not> has_prefix key OUTPUT_PREFIX \<and> \<not> has_prefix key TX_RESULT_PREFIX),
      rb_rewritten_entries = n (\<lambda>key v. recode y key v \<noteq> Inr v),
      rb_tx_result_entries = n (\<lambda>key v. has_prefix key TX_RESULT_PREFIX),
      rb_legacy_json_tx_results = n (\<lambda>key v. has_prefix key TX_RESULT_PREFIX \<and> \<not> has_prefix v TX_RESULT_BINARY_MAGIC),
      rb_binary_tx_results = n (\<lambda>key v. has_prefix key TX_RESULT_PREFIX \<and> has_prefix v TX_RESULT_BINARY_MAGIC)\<rparr>"

definition stats_plus :: "ComputeRebuildStats \<Rightarrow> ComputeRebuildStats \<Rightarrow> ComputeRebuildStats" where
  "stats_plus s t =
     \<lparr>rb_total_entries = rb_total_entries s + rb_total_entries t,
      rb_output_entries = rb_output_entries s + rb_output_entries t,
      rb_legacy_json_outputs = rb_legacy_json_outputs s + rb_legacy_json_outputs t,
      rb_binary_outputs = rb_binary_outputs s + rb_binary_outputs t,
      rb_copied_entries = rb_copied_entries s + rb_copied_entries t,
      rb_rewritten_entries = rb_rewritten_entries s + rb_rewritten_entries t,
      rb_tx_result_entries = rb_tx_result_entries s + rb_tx_result_entries t,
      rb_legacy_json_tx_results = rb_legacy_json_tx_results s + rb_legacy_json_tx_results t,
      rb_binary_tx_results = rb_binary_tx_results s + rb_binary_tx_results t\<rparr>"

lemma stats_plus_counted:
  "stats_plus (stats_plus s (rebuild_counts y (\<lambda>P. if P key v then 1 else 0))) (rebuild_counts y (\<lambda>P. counted P items))
    = stats_plus s (rebuild_counts y (\<lambda>P. counted P ((key, v) # items)))"
  unfolding stats_plus_def rebuild_counts_def by (simp only: ComputeRebuildStats.simps counted.simps add.assoc)

lemma stats_plus_none: "stats_plus s (rebuild_counts y (\<lambda>P. counted P [])) = s"
  by (simp add: stats_plus_def rebuild_counts_def)


context key_value_db
begin

lemma visit_rebuild_step:
  assumes "kv_ok t" "recode y key v = Inr w"
  shows "\<exists>t'. visit_rebuild y ops (key, v) (stats, t)
      = Inr (stats_plus stats (rebuild_counts y (\<lambda>P. if P key v then 1 else 0)), t') \<and> kv_ok t' \<and> kv_map t' = (kv_map t)(key \<mapsto> w)"
proof -
  obtain t' where t': "kv_put ops key w t = Inr t'" "kv_ok t'" "kv_map t' = (kv_map t)(key \<mapsto> w)"
    using put_ok [OF assms(1)] by blast
  consider (out) "has_prefix key OUTPUT_PREFIX" "\<not> has_prefix key TX_RESULT_PREFIX"
    | (result) "\<not> has_prefix key OUTPUT_PREFIX" "has_prefix key TX_RESULT_PREFIX"
    | (other) "\<not> has_prefix key OUTPUT_PREFIX" "\<not> has_prefix key TX_RESULT_PREFIX" using key_prefix_disjoint(1) by blast
  then show ?thesis
  proof cases
    case out
    then obtain a where "decode_output y v = Inr a" "encode_output y a = Inr w"
      using assms(2) by (auto simp: recode_def result_simps)
    with out t' assms(2) show ?thesis
      by (simp add: visit_rebuild_def put_recoded_def Let_def stats_plus_def rebuild_counts_def)
  next
    case result
    then obtain a where "decode_tx_result y v = Inr a" "encode_tx_result y a = Inr w"
      using assms(2) by (auto simp: recode_def result_simps)
    with result t' assms(2) show ?thesis
      by (simp add: visit_rebuild_def put_recoded_def Let_def stats_plus_def rebuild_counts_def)
  next
    case other
    then show ?thesis using t' assms(2) by (simp add: visit_rebuild_def recode_def Let_def stats_plus_def rebuild_counts_def)
  qed
qed

lemma rebuild_walk:
  assumes "kv_ok t" "\<forall>(key, v) \<in> set items. is_ok (recode y key v)" "distinct (map fst items)"
  shows "\<exists>t'. try_each (visit_rebuild y ops) items (stats, t)
      = (Inr (), (stats_plus stats (rebuild_counts y (\<lambda>P. counted P items)), t')) \<and> kv_ok t' \<and>
    (\<forall>key. kv_map t' key = (case map_of items key of None \<Rightarrow> kv_map t key | Some v \<Rightarrow> ok (recode y key v)))"
  using assms
proof (induction items arbitrary: stats t)
  case (Cons i items)
  obtain key v where i: "i = (key, v)" by force
  obtain w where w: "recode y key v = Inr w" using Cons.prems(2) by (auto simp: i is_ok_iff)
  let ?s = "stats_plus stats (rebuild_counts y (\<lambda>P. if P key v then 1 else 0))"
  obtain t1 where s: "visit_rebuild y ops (key, v) (stats, t) = Inr (?s, t1)" "kv_ok t1" "kv_map t1 = (kv_map t)(key \<mapsto> w)"
    using visit_rebuild_step [OF Cons.prems(1) w] by blast
  have d: "map_of items key = None" using Cons.prems(3) by (simp add: i map_of_eq_None_iff)
  from Cons.IH [OF s(2), of ?s] Cons.prems(2,3) obtain t' where r:
    "try_each (visit_rebuild y ops) items (?s, t1) = (Inr (), (stats_plus ?s (rebuild_counts y (\<lambda>P. counted P items)), t'))" "kv_ok t'"
    "\<And>key. kv_map t' key = (case map_of items key of None \<Rightarrow> kv_map t1 key | Some v \<Rightarrow> ok (recode y key v))" by auto
  have "kv_map t' k = (case map_of (i # items) k of None \<Rightarrow> kv_map t k | Some v \<Rightarrow> ok (recode y k v))" for k
    using r(3) [of k] s(3) d w by (cases "k = key"; cases "map_of items k") (simp_all add: i)
  then show ?case using r(1,2) s(1) unfolding i by (simp only: stats_plus_counted) (simp add: i)
qed (simp add: stats_plus_none del: counted.simps)

lemma all_items:
  assumes "kv_ok d"
  obtains items where "kv_iter_prefix ops [] d = Inr items" "distinct (map fst items)" "map_of items = kv_map d"
  using iter_ok [OF assms, of "[]"] by (auto simp: restrict_map_def)

end

definition results_ok :: "'j store_codec \<Rightarrow> (u8 list \<rightharpoonup> u8 list) \<Rightarrow> bool" where
  "results_ok y m \<longleftrightarrow> (\<forall>key v. m key = Some v \<longrightarrow> has_prefix key TX_RESULT_PREFIX \<longrightarrow>
     (\<exists>json. decode_tx_result y v = Inr json \<and> canonical_json y json \<noteq> None))"




subsection \<open>What pruning removes\<close>

definition expired :: "ComputePruneConfig \<Rightarrow> ObjectOutput \<Rightarrow> bool" where
  "expired cfg out \<longleftrightarrow> o_spent out \<and> past_retention cfg (o_created_at out)"

definition expired_result :: "'j store_codec \<Rightarrow> ComputePruneConfig \<Rightarrow> string \<Rightarrow> bool" where
  "expired_result y cfg json = (case tx_result_submitted_at_unix y json of None \<Rightarrow> False | Some at \<Rightarrow> past_retention cfg at)"

definition deleted_entry :: "'j store_codec \<Rightarrow> ComputePruneConfig \<Rightarrow> u8 list \<Rightarrow> u8 list \<Rightarrow> bool" where
  "deleted_entry y cfg key v =
     (if has_prefix key OUTPUT_PREFIX then (case decode_output y v of Inl _ \<Rightarrow> False | Inr out \<Rightarrow> expired cfg out)
      else if has_prefix key TX_RESULT_PREFIX then (case decode_tx_result y v of Inl _ \<Rightarrow> False | Inr json \<Rightarrow> expired_result y cfg json)
      else False)"

definition deleted_pointer :: "'j store_codec \<Rightarrow> ComputePruneConfig \<Rightarrow> (u8 list \<rightharpoonup> u8 list) \<Rightarrow> u8 list \<Rightarrow> u8 list \<Rightarrow> u8 list set" where
  "deleted_pointer y cfg m key v =
     (if has_prefix key OUTPUT_PREFIX then
        (case decode_output y v of Inl _ \<Rightarrow> {} | Inr out \<Rightarrow>
           if expired cfg out \<and> m (latest_key (o_object_id out)) = Some (be_bytes (output_raw (o_output_id out)))
           then {latest_key (o_object_id out)} else {})
      else {})"

definition readable :: "'j store_codec \<Rightarrow> u8 list \<Rightarrow> u8 list \<Rightarrow> bool" where
  "readable y key v \<longleftrightarrow>
     (has_prefix key OUTPUT_PREFIX \<longrightarrow> is_ok (decode_output y v)) \<and>
     (\<not> has_prefix key OUTPUT_PREFIX \<longrightarrow> has_prefix key TX_RESULT_PREFIX \<longrightarrow> is_ok (decode_tx_result y v))"

definition pruning :: "ComputePruneConfig \<Rightarrow> bool" where
  "pruning cfg \<longleftrightarrow> \<not> pc_dry_run cfg \<and> \<not> pc_retain_all cfg"

context key_value_db
begin

lemma visit_prune_step:
  assumes "kv_ok d" "readable y key v"
  shows "\<exists>stats' dk' lk'. visit_prune y ops cfg d (key, v) (stats, dk, lk) = Inr (stats', dk', lk') \<and>
    (\<not> pc_retain_all cfg \<longrightarrow> set dk' = set dk \<union> (if deleted_entry y cfg key v then {key} else {}) \<and>
      set lk' = set lk \<union> deleted_pointer y cfg (kv_map d) key v)"
proof (cases "has_prefix key OUTPUT_PREFIX")
  case True
  then obtain out where "decode_output y v = Inr out" using assms(2) by (auto simp: readable_def is_ok_iff)
  with True show ?thesis
    by (simp add: visit_prune_def Let_def get_ok [OF assms(1)] deleted_entry_def deleted_pointer_def expired_def set_insort_insert)
next
  case False
  show ?thesis
  proof (cases "has_prefix key TX_RESULT_PREFIX")
    case True
    then obtain json where "decode_tx_result y v = Inr json" using False assms(2) by (auto simp: readable_def is_ok_iff)
    with True False show ?thesis
      by (simp add: visit_prune_def Let_def deleted_entry_def deleted_pointer_def expired_result_def)
  next
    case no: False
    with False show ?thesis by (simp add: visit_prune_def Let_def deleted_entry_def deleted_pointer_def)
  qed
qed

lemma prune_walk:
  assumes "kv_ok d" "\<forall>(key, v) \<in> set items. readable y key v"
  shows "\<exists>stats' dk' lk'. try_fold (visit_prune y ops cfg d) items (stats, dk, lk) = Inr (stats', dk', lk') \<and>
    (\<not> pc_retain_all cfg \<longrightarrow> set dk' = set dk \<union> {key. \<exists>v. (key, v) \<in> set items \<and> deleted_entry y cfg key v} \<and>
      set lk' = set lk \<union> (\<Union>(key, v) \<in> set items. deleted_pointer y cfg (kv_map d) key v))"
  using assms(2)
proof (induction items arbitrary: stats dk lk)
  case (Cons i items)
  obtain key v where i: "i = (key, v)" by force
  have "readable y key v" using Cons.prems by (simp add: i)
  from visit_prune_step [OF assms(1) this, of cfg stats dk lk] obtain stats1 dk1 lk1 where s:
    "visit_prune y ops cfg d i (stats, dk, lk) = Inr (stats1, dk1, lk1)"
    "\<not> pc_retain_all cfg \<Longrightarrow> set dk1 = set dk \<union> (if deleted_entry y cfg key v then {key} else {})"
    "\<not> pc_retain_all cfg \<Longrightarrow> set lk1 = set lk \<union> deleted_pointer y cfg (kv_map d) key v" unfolding i by blast
  from Cons.IH [of stats1 dk1 lk1] Cons.prems obtain stats' dk' lk' where r:
    "try_fold (visit_prune y ops cfg d) items (stats1, dk1, lk1) = Inr (stats', dk', lk')"
    "\<not> pc_retain_all cfg \<Longrightarrow> set dk' = set dk1 \<union> {key. \<exists>v. (key, v) \<in> set items \<and> deleted_entry y cfg key v}"
    "\<not> pc_retain_all cfg \<Longrightarrow> set lk' = set lk1 \<union> (\<Union>(key, v) \<in> set items. deleted_pointer y cfg (kv_map d) key v)" by auto
  show ?case
  proof (intro exI conjI impI)
    show "try_fold (visit_prune y ops cfg d) (i # items) (stats, dk, lk) = Inr (stats', dk', lk')" by (simp add: s(1) r(1))
  next
    assume a: "\<not> pc_retain_all cfg"
    show "set dk' = set dk \<union> {key. \<exists>v. (key, v) \<in> set (i # items) \<and> deleted_entry y cfg key v}"
      using r(2) [OF a] s(2) [OF a] by (auto simp: i split: if_splits)
    show "set lk' = set lk \<union> (\<Union>(key, v) \<in> set (i # items). deleted_pointer y cfg (kv_map d) key v)"
      using r(3) [OF a] s(3) [OF a] by (auto simp: i)
  qed
qed simp

lemma prune_effect:
  assumes d: "kv_ok d" and "\<forall>key v. kv_map d key = Some v \<longrightarrow> readable y key v"
  shows "\<exists>stats d'. prune_compute_store y ops cfg d = Inr (stats, d') \<and> kv_ok d' \<and>
    kv_map d' = (if pruning cfg then kv_map d |` (- ({key. \<exists>v. kv_map d key = Some v \<and> deleted_entry y cfg key v} \<union>
      \<Union> {deleted_pointer y cfg (kv_map d) key v | key v. kv_map d key = Some v})) else kv_map d)"
proof -
  obtain items where items: "kv_iter_prefix ops [] d = Inr items" "distinct (map fst items)" "map_of items = kv_map d"
    using all_items [OF d] .
  have mem: "(key, v) \<in> set items \<longleftrightarrow> kv_map d key = Some v" for key v
    using items(2,3) by (metis map_of_eq_Some_iff)
  have "\<forall>(key, v) \<in> set items. readable y key v" using assms(2) mem by auto
  from prune_walk [OF d this, of cfg prune_stats_default "[]" "[]"] obtain stats dk lk where w:
    "for_each_prefix ops [] (visit_prune y ops cfg d) d (prune_stats_default, [], []) = Inr (stats, dk, lk)"
    "\<not> pc_retain_all cfg \<Longrightarrow> set dk = {key. \<exists>v. kv_map d key = Some v \<and> deleted_entry y cfg key v}"
    "\<not> pc_retain_all cfg \<Longrightarrow> set lk = (\<Union>(key, v) \<in> set items. deleted_pointer y cfg (kv_map d) key v)"
    by (auto simp: for_each_prefix_def items(1) mem)
  have u: "(\<Union>(key, v) \<in> set items. deleted_pointer y cfg (kv_map d) key v) =
    \<Union> {deleted_pointer y cfg (kv_map d) key v | key v. kv_map d key = Some v}"
    unfolding mem [symmetric] by auto
  define keys where "keys = remdups_adj (sort (dk @ lk))"
  obtain d' where d': "kv_write_batch ops (fold batch_delete keys batch_new) d = Inr d'" "kv_ok d'" "kv_map d' = kv_map d |` (- set keys)"
    using delete_keys [OF d] by blast
  show ?thesis
  proof (cases "pruning cfg")
    case False
    then show ?thesis using d w(1) by (auto simp: prune_compute_store_def pruning_def Let_def)
  next
    case True
    have k: "set keys = {key. \<exists>v. kv_map d key = Some v \<and> deleted_entry y cfg key v} \<union>
      \<Union> {deleted_pointer y cfg (kv_map d) key v | key v. kv_map d key = Some v}"
      using w(2,3) True unfolding u by (simp add: keys_def pruning_def)
    have "\<exists>stats d'. prune_compute_store y ops cfg d = Inr (stats, d') \<and> kv_ok d' \<and> kv_map d' = kv_map d |` (- set keys)"
    proof (cases "keys = []")
      case True
      then have "kv_map d |` (- set keys) = kv_map d" by (simp add: restrict_map_def)
      then show ?thesis using True d w(1) by (simp add: prune_compute_store_def Let_def keys_def restrict_map_def)
    next
      case False
      then show ?thesis using d' w(1) True by (simp add: prune_compute_store_def pruning_def Let_def keys_def)
    qed
    then show ?thesis unfolding k using True by simp
  qed
qed

end

text \<open>The map that pruning leaves.\<close>

definition pruned_map :: "'j store_codec \<Rightarrow> ComputePruneConfig \<Rightarrow> (u8 list \<rightharpoonup> u8 list) \<Rightarrow> u8 list \<rightharpoonup> u8 list" where
  "pruned_map y cfg m = m |` (- ({key. \<exists>v. m key = Some v \<and> deleted_entry y cfg key v} \<union>
      \<Union> {deleted_pointer y cfg m key v | key v. m key = Some v}))"

lemma deleted_pointer_key: "key' \<in> deleted_pointer y cfg m key v \<Longrightarrow> \<exists>j. key' = latest_key j"
  by (auto simp: deleted_pointer_def split: if_splits sum.splits)

lemma pruned_map_entry:
  assumes "\<And>j. key \<noteq> latest_key j"
  shows "pruned_map y cfg m key = (case m key of None \<Rightarrow> None | Some v \<Rightarrow> if deleted_entry y cfg key v then None else Some v)"
proof -
  have "key \<notin> \<Union> {deleted_pointer y cfg m key v | key v. m key = Some v}"
    using assms deleted_pointer_key by fastforce
  then show ?thesis by (auto simp: pruned_map_def restrict_map_def split: option.split)
qed

lemma pruned_outputs:
  "outputs_of y (pruned_map y cfg m) i =
     (case outputs_of y m i of None \<Rightarrow> None | Some out \<Rightarrow> if expired cfg out then None else Some out)"
proof -
  have "pruned_map y cfg m (output_key i) = (case m (output_key i) of None \<Rightarrow> None
      | Some v \<Rightarrow> if deleted_entry y cfg (output_key i) v then None else Some v)"
    by (rule pruned_map_entry) simp
  then show ?thesis
    by (cases "m (output_key i)") (auto simp: outputs_of_def deleted_entry_def split: sum.splits)
qed

lemma pruned_pointer:
  assumes "store_ok y m"
  shows "pruned_map y cfg m (latest_key j) = (case m (latest_key j) of None \<Rightarrow> None
    | Some v \<Rightarrow> if \<exists>i out. v = be_bytes (output_raw i) \<and> outputs_of y m i = Some out \<and> expired cfg out then None else Some v)"
proof (cases "m (latest_key j)")
  case (Some v)
  have e: "entries_ok y m" "pointers_ok y m" using assms by (simp_all add: store_ok_def)
  obtain i out where p: "v = be_bytes (output_raw i)" "outputs_of y m i = Some out" "o_object_id out = j"
    using e(2) Some unfolding pointers_ok_def by blast
  obtain w where w: "m (output_key i) = Some w" "decode_output y w = Inr out"
    using p(2) by (auto simp: outputs_of_def bind_eq_Some_conv result_simps)
  have oid: "o_output_id out = i" using outputs_of_id [OF e(1) p(2)] .
  have "latest_key j \<in> \<Union> {deleted_pointer y cfg m key v | key v. m key = Some v} \<longleftrightarrow> expired cfg out"
  proof
    assume "latest_key j \<in> \<Union> {deleted_pointer y cfg m key v | key v. m key = Some v}"
    then obtain key u where u: "latest_key j \<in> deleted_pointer y cfg m key u" "m key = Some u" by blast
    then obtain out' where out': "has_prefix key OUTPUT_PREFIX" "decode_output y u = Inr out'" "expired cfg out'" "o_object_id out' = j"
      "m (latest_key j) = Some (be_bytes (output_raw (o_output_id out')))"
      by (auto simp: deleted_pointer_def split: if_splits sum.splits)
    then have "o_output_id out' = i" using Some p(1) by (auto intro: OutputId.expand)
    moreover have "key = output_key (o_output_id out')"
    proof -
      obtain o2 where "decode_output y u = Inr o2" "key = output_key (o_output_id o2)"
        using e(1) u(2) out'(1) unfolding entries_ok_def by blast
      with out'(2) show ?thesis by simp
    qed
    ultimately have "out' = out" using u(2) w out'(2) by simp
    with out'(3) show "expired cfg out" by simp
  next
    assume "expired cfg out"
    then have "latest_key j \<in> deleted_pointer y cfg m (output_key i) w"
      using w(2) p(1,3) oid Some by (simp add: deleted_pointer_def)
    with w(1) show "latest_key j \<in> \<Union> {deleted_pointer y cfg m key v | key v. m key = Some v}" by blast
  qed
  moreover have "\<not> deleted_entry y cfg (latest_key j) v" by (simp add: deleted_entry_def)
  moreover have "(\<exists>i out. v = be_bytes (output_raw i) \<and> outputs_of y m i = Some out \<and> expired cfg out) \<longleftrightarrow> expired cfg out"
    using p(1,2) by (auto dest: OutputId.expand)
  ultimately show ?thesis using Some by (simp add: pruned_map_def restrict_map_def del: Union_iff)
qed (simp add: pruned_map_def restrict_map_def)

lemma pruned_store_ok:
  assumes "store_ok y m"
  shows "store_ok y (pruned_map y cfg m)"
proof -
  have "entries_ok y (pruned_map y cfg m)"
    using assms by (auto simp: store_ok_def entries_ok_def pruned_map_def restrict_map_def)
  moreover have "pointers_ok y (pruned_map y cfg m)"
    unfolding pointers_ok_def
  proof (intro allI impI)
    fix j v
    assume v: "pruned_map y cfg m (latest_key j) = Some v"
    then have m: "m (latest_key j) = Some v" "\<not> (\<exists>i out. v = be_bytes (output_raw i) \<and> outputs_of y m i = Some out \<and> expired cfg out)"
      unfolding pruned_pointer [OF assms] by (auto split: option.splits if_splits)
    obtain i out where p: "v = be_bytes (output_raw i)" "outputs_of y m i = Some out" "o_object_id out = j"
      using assms m(1) unfolding store_ok_def pointers_ok_def by blast
    then show "\<exists>i out. v = be_bytes (output_raw i) \<and> outputs_of y (pruned_map y cfg m) i = Some out \<and> o_object_id out = j"
      using m(2) by (auto simp: pruned_outputs)
  qed
  ultimately show ?thesis by (simp add: store_ok_def)
qed

lemma readable_store:
  assumes "store_ok y m" "results_ok y m" "m key = Some v"
  shows "readable y key v"
  using assms unfolding readable_def store_ok_def entries_ok_def results_ok_def by (metis is_ok_simps(2))

lemma prune_spec:
  assumes "compute_store ops kv_ok kv_map y" "kv_ok d" "store_ok y (kv_map d)" "results_ok y (kv_map d)"
  shows "\<exists>stats d'. prune_compute_store y ops cfg d = Inr (stats, d') \<and> kv_ok d' \<and> store_ok y (kv_map d') \<and>
    (\<forall>i. outputs_of y (kv_map d') i = (case outputs_of y (kv_map d) i of None \<Rightarrow> None
      | Some out \<Rightarrow> if pruning cfg \<and> expired cfg out then None else Some out)) \<and>
    (\<forall>j. ds_get_latest y ops d' j = (case ds_get_latest y ops d j of None \<Rightarrow> None
      | Some out \<Rightarrow> if pruning cfg \<and> expired cfg out then None else Some out)) \<and>
    nonces (kv_map d') = nonces (kv_map d) \<and> (\<forall>h. kv_map d' (checkpoint_key h) = kv_map d (checkpoint_key h))"
proof -
  have kv: "key_value_db ops kv_ok kv_map" using assms(1) by (rule compute_store.axioms(1))
  let ?m = "kv_map d"
  obtain stats d' where d': "prune_compute_store y ops cfg d = Inr (stats, d')" "kv_ok d'"
    "kv_map d' = (if pruning cfg then pruned_map y cfg ?m else ?m)"
    using key_value_db.prune_effect [OF kv assms(2), of y cfg] readable_store [OF assms(3,4)]
    unfolding pruned_map_def by blast
  have ok: "store_ok y (kv_map d')" using d'(3) assms(3) pruned_store_ok [OF assms(3), of cfg] by simp
  have o: "outputs_of y (kv_map d') i = (case outputs_of y ?m i of None \<Rightarrow> None
      | Some out \<Rightarrow> if pruning cfg \<and> expired cfg out then None else Some out)" for i
    using d'(3) by (simp add: pruned_outputs split: option.split)
  have l: "ds_get_latest y ops d' j = (case ds_get_latest y ops d j of None \<Rightarrow> None
      | Some out \<Rightarrow> if pruning cfg \<and> expired cfg out then None else Some out)" for j
  proof (cases "?m (latest_key j)")
    case None
    then have "kv_map d' (latest_key j) = None" using d'(3) pruned_pointer [OF assms(3), of cfg j] by simp
    with None show ?thesis
      using compute_store.get_latest_map [OF assms(1) conjI [OF d'(2) ok], of j]
        compute_store.get_latest_map [OF assms(1) conjI [OF assms(2,3)], of j] by simp
  next
    case (Some v)
    then obtain i out where p: "v = be_bytes (output_raw i)" "outputs_of y ?m i = Some out" "o_object_id out = j"
      using assms(3) unfolding store_ok_def pointers_ok_def by blast
    have "(\<exists>i out. v = be_bytes (output_raw i) \<and> outputs_of y ?m i = Some out \<and> expired cfg out) \<longleftrightarrow> expired cfg out"
      using p(1,2) by (auto dest: OutputId.expand)
    then have "kv_map d' (latest_key j) = (if pruning cfg \<and> expired cfg out then None else Some v)"
      using d'(3) pruned_pointer [OF assms(3), of cfg j] Some by simp
    then show ?thesis
      using compute_store.get_latest_map [OF assms(1) conjI [OF d'(2) ok], of j] Some p
        compute_store.get_latest_map [OF assms(1) conjI [OF assms(2,3)], of j] o [of i] by simp
  qed
  have "nonces (kv_map d') key = nonces ?m key" for key
  proof -
    have "pruned_map y cfg ?m (replay_key key) = ?m (replay_key key)"
      by (subst pruned_map_entry) (simp_all add: deleted_entry_def split: option.split)
    then show ?thesis using d'(3) by (simp add: nonces_def)
  qed
  moreover have "kv_map d' (checkpoint_key h) = ?m (checkpoint_key h)" for h
  proof -
    have "checkpoint_key h \<noteq> latest_key j" for j by (metis key_apart(5))
    then have "pruned_map y cfg ?m (checkpoint_key h) = ?m (checkpoint_key h)"
      by (subst pruned_map_entry) (simp_all add: deleted_entry_def split: option.split)
    then show ?thesis using d'(3) by simp
  qed
  ultimately show ?thesis using d'(1,2) ok o l by (simp add: fun_eq_iff)
qed

text \<open>C22: Pruning a well-formed store succeeds and deletes exactly the outputs that are spent and past retention, and
  nothing in a dry run or with all history retained: no unspent output is ever lost.  The store stays well formed,
  so no pointer to a latest version dangles, and pointers to outputs that stay are kept, as are nonces and checkpoints.\<close>

theorem prune_deletes_only_expired:
  assumes "compute_store ops kv_ok kv_map y" "kv_ok d" "store_ok y (kv_map d)" "results_ok y (kv_map d)"
  shows "\<exists>stats d'. prune_compute_store y ops cfg d = Inr (stats, d') \<and> kv_ok d' \<and> store_ok y (kv_map d') \<and>
    (\<forall>i. outputs_of y (kv_map d') i = (case outputs_of y (kv_map d) i of None \<Rightarrow> None
      | Some out \<Rightarrow> if pruning cfg \<and> expired cfg out then None else Some out)) \<and>
    (\<forall>j. ds_get_latest y ops d' j = (case ds_get_latest y ops d j of None \<Rightarrow> None
      | Some out \<Rightarrow> if pruning cfg \<and> expired cfg out then None else Some out)) \<and>
    nonces (kv_map d') = nonces (kv_map d) \<and> (\<forall>h. kv_map d' (checkpoint_key h) = kv_map d (checkpoint_key h))"
  using prune_spec [OF assms] .

text \<open>An output that was created long ago and spent just now is past retention, which counts from its creation:
  pruning deletes it at once, and a rollback that must undo the spending no longer finds it.\<close>

theorem fresh_spend_is_pruned:
  assumes "compute_store ops kv_ok kv_map y" "kv_ok d" "store_ok y (kv_map d)" "results_ok y (kv_map d)"
    "outputs_of y (kv_map d) i = Some out" "\<not> o_spent out" "pruning cfg" "past_retention cfg (o_created_at out)"
  shows "\<exists>d1 stats d2. ds_mark_spent y ops i d = Inr d1 \<and> prune_compute_store y ops cfg d1 = Inr (stats, d2) \<and>
    ds_unmark_spent y ops i d2 = Inl (ObjectNotFound (output_raw i))"
proof -
  obtain d1 b where d1: "ds_mark_spent y ops i d = Inr d1" "kv_ok d1" "store_ok y (kv_map d1)"
    "outputs_of y (kv_map d1) = (outputs_of y (kv_map d))(i \<mapsto> out\<lparr>o_spent := True\<rparr>)" "kv_map d1 = (kv_map d)(output_key i \<mapsto> b)"
    using compute_store.mark_output(1) [OF assms(1) conjI [OF assms(2,3)] assms(5,6)] by blast
  have "results_ok y (kv_map d1)"
    using assms(4) unfolding results_ok_def d1(5) by (metis fun_upd_other key_prefix(2))
  from prune_spec [OF assms(1) d1(2,3) this, of cfg] obtain stats d2 where d2:
    "prune_compute_store y ops cfg d1 = Inr (stats, d2)" "kv_ok d2" "outputs_of y (kv_map d2) i = None"
    using assms(7,8) d1(4) by (auto simp: expired_def)
  then show ?thesis using d1(1) compute_store.get_output_map [OF assms(1) d2(2)]
    by (simp add: ds_unmark_spent_def)
qed

lemma try_fold_each: "try_fold f items s = Inr t \<Longrightarrow> i \<in> set items \<Longrightarrow> \<exists>s t. f i s = Inr t"
  by (induction items arbitrary: s) (auto simp: result_simps)

lemma visit_prune_readable: "visit_prune y ops cfg d (key, v) st = Inr st' \<Longrightarrow> readable y key v"
  by (cases st) (auto simp: visit_prune_def readable_def is_ok_iff result_simps Let_def split: if_splits)

text \<open>A single output or result that cannot be decoded stops pruning for good: it fails before it deletes anything.\<close>

theorem unreadable_entry_stops_pruning:
  assumes "key_value_db ops kv_ok kv_map" "kv_ok d" "kv_map d key = Some v" "\<not> readable y key v"
  shows "\<exists>e. prune_compute_store y ops cfg d = Inl e"
proof -
  obtain items where items: "kv_iter_prefix ops [] d = Inr items" "distinct (map fst items)" "map_of items = kv_map d"
    using key_value_db.all_items [OF assms(1,2)] .
  have "(key, v) \<in> set items" using assms(3) items(3) by (metis map_of_SomeD)
  then have "try_fold (visit_prune y ops cfg d) items s \<noteq> Inr t" for s t
    using assms(4) visit_prune_readable try_fold_each by fast
  then show ?thesis
    by (cases "try_fold (visit_prune y ops cfg d) items (prune_stats_default, [], [])")
       (simp_all add: prune_compute_store_def for_each_prefix_def items(1))
qed

subsection \<open>Concrete stores\<close>

lemma sample_db_entries:
  "sample_db = [(output_key (OutputId 1), OUTPUT_BINARY_MAGIC @ enc c_output sample_out), (latest_key (ObjectId 7), be_bytes (1 :: hash))]"
proof -
  have "o_output_id sample_out = OutputId 1" "o_object_id sample_out = ObjectId 7" by (simp_all add: sample_out_def sample_output_def)
  then have "ds_insert_output sample_codec mem_kv sample_out [] =
    Inr [(output_key (OutputId 1), OUTPUT_BINARY_MAGIC @ enc c_output sample_out), (latest_key (ObjectId 7), be_bytes (1 :: hash))]"
    by (simp add: ds_insert_output_def mem_kv_def encode_output_def sample_codec_def batch_defs Let_def mem_write_def)
  then show ?thesis by (simp add: sample_db_def)
qed

lemma sample_db_results: "results_ok sample_codec (map_of sample_db)"
  by (auto simp: results_ok_def sample_db_entries split: if_splits)


definition sample_prune :: ComputePruneConfig where
  "sample_prune = \<lparr>pc_retain_all = False, pc_now_unix_secs = 100, pc_retention_window_secs = 10, pc_dry_run = False\<rparr>"

lemma prune_deletes_only_expired_witness:
  "\<exists>stats d'. prune_compute_store sample_codec mem_kv sample_prune sample_db = Inr (stats, d') \<and>
     outputs_of sample_codec (map_of d') (OutputId 1) = Some sample_out"
  using prune_deletes_only_expired [OF mem_durable.compute_store_axioms sample_db(2,3) sample_db_results, of sample_prune] sample_db(4)
  by (fastforce simp: expired_def sample_out_def sample_output_def)

lemma fresh_spend_is_pruned_witness:
  "\<exists>d1 stats d2. ds_mark_spent sample_codec mem_kv (OutputId 1) sample_db = Inr d1 \<and>
     prune_compute_store sample_codec mem_kv sample_prune d1 = Inr (stats, d2) \<and>
     ds_unmark_spent sample_codec mem_kv (OutputId 1) d2 = Inl (ObjectNotFound 1)"
  using fresh_spend_is_pruned [OF mem_durable.compute_store_axioms sample_db(2,3) sample_db_results, of "OutputId 1" sample_out sample_prune]
    sample_db(4)
  by (simp add: sample_out_def sample_output_def pruning_def sample_prune_def past_retention_def is_past_retention_def saturating_add_def)

lemma unreadable_entry_stops_pruning_witness:
  "\<exists>e. prune_compute_store sample_codec mem_kv sample_prune [(tx_result_key (TxId 1), [255])] = Inl e"
  by (rule unreadable_entry_stops_pruning [OF mem_kv.key_value_db_axioms, where key = "tx_result_key (TxId 1)" and v = "[255]"])
     (simp_all add: readable_def decode_tx_result_def from_utf8_def utf8_width_def strip_prefix_def TX_RESULT_BINARY_MAGIC_def str_bytes_def)

end
