(* ===== verification/HeaderCheck.thy ===== *)
theory HeaderCheck
  imports Chain Settlement
begin

section \<open>Headers received from peers\<close>

text \<open>
  The header checks of \<open>rabbitnet/src/sync.rs\<close> and the messages of \<open>protocol.rs\<close> that carry headers.  A failed
  check returns its text.  Proof-of-work targets do not panic here (\<open>meets_target_total\<close>).  The results say what an
  accepted header guarantees, and which headers get through without work or cannot get through at all.
\<close>

subsection \<open>Constants and messages\<close>

definition SYNC_MIN_MINING_DIFFICULTY :: u128 where "SYNC_MIN_MINING_DIFFICULTY = 250000"
definition SYNC_BASE_MINING_DIFFICULTY :: u128 where "SYNC_BASE_MINING_DIFFICULTY = 1000000"
definition SYNC_MAX_MINING_DIFFICULTY :: u128 where "SYNC_MAX_MINING_DIFFICULTY = 1000000000"
definition SYNC_TARGET_INTERVAL_SECS :: u64 where "SYNC_TARGET_INTERVAL_SECS = 10"
definition MAX_SYNC_EXTRA_DATA_BYTES :: nat where "MAX_SYNC_EXTRA_DATA_BYTES = 64"
definition POW_TARGET_HEADER_VERSION :: u32 where "POW_TARGET_HEADER_VERSION = 2"

lemmas sync_constants = SYNC_MIN_MINING_DIFFICULTY_def SYNC_BASE_MINING_DIFFICULTY_def SYNC_MAX_MINING_DIFFICULTY_def
  SYNC_TARGET_INTERVAL_SECS_def MAX_SYNC_EXTRA_DATA_BYTES_def POW_TARGET_HEADER_VERSION_def

record SyncHeader =
  sh_version :: u32
  sh_number :: u64
  sh_hash :: hash
  sh_parent_hash :: hash
  sh_state_root :: hash
  sh_transactions_root :: hash
  sh_receipts_root :: hash
  sh_timestamp :: u64
  sh_difficulty :: u64
  sh_nonce :: u64
  sh_coinbase :: address
  sh_mix_hash :: hash
  sh_extra_data :: "u8 list"

definition sync_header_from_block :: "Block \<Rightarrow> SyncHeader" where
  "sync_header_from_block b =
     (let h = bk_header b in
      \<lparr>sh_version = h_version h, sh_number = as_u64 (h_number h), sh_hash = h_hash h, sh_parent_hash = h_parent_hash h,
       sh_state_root = h_state_root h, sh_transactions_root = h_transactions_root h, sh_receipts_root = h_receipts_root h,
       sh_timestamp = h_timestamp h, sh_difficulty = as_u64 (h_difficulty h), sh_nonce = h_nonce h,
       sh_coinbase = h_coinbase h, sh_mix_hash = h_mix_hash h, sh_extra_data = h_extra_data h\<rparr>)"

definition block_from_sync_header :: "SyncHeader \<Rightarrow> Block" where
  "block_from_sync_header s =
     \<lparr>bk_header =
        \<lparr>h_version = sh_version s, h_parent_hash = sh_parent_hash s, h_uncle_hashes = [], h_coinbase = sh_coinbase s,
         h_state_root = sh_state_root s, h_transactions_root = sh_transactions_root s, h_receipts_root = sh_receipts_root s,
         h_number = u256_from (sh_number s), h_gas_limit = 30000000, h_gas_used = 0, h_timestamp = sh_timestamp s,
         h_difficulty = u256_from (sh_difficulty s), h_nonce = sh_nonce s, h_extra_data = sh_extra_data s,
         h_mix_hash = sh_mix_hash s, h_base_fee_per_gas = u256_from 1000000000, h_hash = sh_hash s\<rparr>,
      bk_body = None, bk_uncles = []\<rparr>"

definition verify_sync_header_hash :: "'e externals_scheme \<Rightarrow> SyncHeader \<Rightarrow> bool" where
  "verify_sync_header_hash x s \<longleftrightarrow> compute_hash x (bk_header (block_from_sync_header s)) = sh_hash s"

subsection \<open>Difficulty\<close>

definition sync_adjust_difficulty :: "U256 \<Rightarrow> u64 \<Rightarrow> u64 \<Rightarrow> U256" where
  "sync_adjust_difficulty parent_difficulty parent_timestamp now =
     (let elapsed = saturating_sub now parent_timestamp;
          next_d = ucast (as_u64 parent_difficulty) :: u128;
          next_d = (if next_d = 0 then SYNC_BASE_MINING_DIFFICULTY else next_d);
          next_d = (if elapsed \<le> SYNC_TARGET_INTERVAL_SECS div 2 then saturating_mul next_d 110 div 100
                    else if saturating_mul SYNC_TARGET_INTERVAL_SECS 2 \<le> elapsed then saturating_mul next_d 90 div 100
                    else next_d)
      in u256_from_u128 (clamp SYNC_MIN_MINING_DIFFICULTY SYNC_MAX_MINING_DIFFICULTY next_d))"

subsection \<open>Roots of the chain\<close>

definition legacy_mining_root_header :: BlockHeader where
  "legacy_mining_root_header =
     \<lparr>h_version = 1, h_parent_hash = 0, h_uncle_hashes = [], h_coinbase = 0, h_state_root = 0, h_transactions_root = 0,
      h_receipts_root = 0, h_number = u256_zero, h_gas_limit = 30000000, h_gas_used = 0, h_timestamp = 0,
      h_difficulty = u256_from_u128 SYNC_BASE_MINING_DIFFICULTY, h_nonce = 0, h_extra_data = [], h_mix_hash = 0,
      h_base_fee_per_gas = u256_from 1000000000, h_hash = 0\<rparr>"

definition is_legacy_mining_root :: "BlockHeader \<Rightarrow> bool" where
  "is_legacy_mining_root h \<longleftrightarrow>
     h_number h = u256_zero \<and> h_hash h = h_hash legacy_mining_root_header \<and> h_parent_hash h = 0 \<and>
     h_difficulty h = u256_from_u128 SYNC_BASE_MINING_DIFFICULTY"

definition validate_genesis_like_header :: "'e externals_scheme \<Rightarrow> BlockHeader \<Rightarrow> string + unit" where
  "validate_genesis_like_header x h =
     (if h_number h \<noteq> u256_zero then Inl ''genesis_record_number_mismatch''
      else if h_parent_hash h \<noteq> 0 then Inl ''genesis_record_parent_mismatch''
      else if h_hash h \<noteq> compute_hash x h then Inl ''genesis_record_hash_mismatch''
      else Inr ())"

subsection \<open>The contents of a header\<close>

text \<open>\<open>format!("{:x}")\<close> of a number.\<close>

fun show_hex :: "nat \<Rightarrow> string" where
  "show_hex n = (if n < 16 then [digit_char n] else show_hex (n div 16) @ [digit_char (n mod 16)])"

declare show_hex.simps [simp del]

definition meets_target :: "hash \<Rightarrow> U256 \<Rightarrow> bool" where
  "meets_target pow_hash difficulty \<longleftrightarrow>
     Option.bind (pow_target_from_difficulty difficulty) (pow_hash_meets_target (be_bytes pow_hash)) = Some True"

lemma meets_target_total:
  "\<exists>b. Option.bind (pow_target_from_difficulty difficulty) (pow_hash_meets_target (be_bytes (pow_hash :: hash))) = Some b"
  using pow_target_total [of difficulty] by (auto simp: pow_hash_meets_target_def from_big_endian_32)

definition legacy_mix :: "'e externals_scheme \<Rightarrow> BlockHeader \<Rightarrow> hash" where
  "legacy_mix x h = keccak256 x (be_bytes (h_parent_hash h) @ be_bytes (as_u64 (h_number h)) @ be_bytes (h_nonce h))"

definition validate_header_contents :: "block_externals \<Rightarrow> BlockHeader \<Rightarrow> BlockHeader \<Rightarrow> string + unit" where
  "validate_header_contents x parent h =
     (let parent_hash = (if h_hash parent = 0 then canonical_hash x parent else h_hash parent);
          expected_difficulty = sync_adjust_difficulty (h_difficulty parent) (h_timestamp parent) (h_timestamp h);
          legacy_root_base_difficulty = (is_legacy_mining_root parent \<and> h_number h = u256_one \<and>
            h_difficulty h = u256_from_u128 SYNC_BASE_MINING_DIFFICULTY);
          tiny_test_difficulty = (h_difficulty h = u256_from_u128 1);
          expected_mix = compute_pow_hash x h (h_nonce h);
          mix_ok = (h_mix_hash h = expected_mix);
          legacy_ok = (if \<not> mix_ok then h_mix_hash h = legacy_mix x h else False);
          pow_hash = (if mix_ok then expected_mix else h_mix_hash h)
      in
      if h_hash h \<noteq> canonical_hash x h then Inl ''header_hash_verification_failed''
      else if h_version h = 0 then Inl ''invalid_block_version''
      else if h_parent_hash h \<noteq> parent_hash
      then Inl (''parent_hash_mismatch: expected='' @ show_hash x parent_hash @ '', got='' @ show_hash x (h_parent_hash h))
      else if h_number h \<noteq> u256_add (h_number parent) u256_one then Inl ''invalid_block_number''
      else if h_timestamp h < h_timestamp parent then Inl ''timestamp_regressed''
      else if MAX_SYNC_EXTRA_DATA_BYTES < length (h_extra_data h) then Inl ''extra_data_too_large''
      else if h_difficulty h \<noteq> expected_difficulty \<and> \<not> legacy_root_base_difficulty \<and> \<not> tiny_test_difficulty
      then Inl (''invalid_difficulty: expected 0x'' @ show_hex (unat (as_u64 expected_difficulty)) @ '', got 0x'' @
             show_hex (unat (as_u64 (h_difficulty h))))
      else if \<not> mix_ok \<and> \<not> legacy_ok then Inl ''mix_hash_mismatch''
      else if \<not> meets_target pow_hash (h_difficulty h)
      then Inl (''pow_below_target: hash=0x'' @ hex_encode x (be_bytes pow_hash) @ '' target='' @
             pow_target_to_hex x (the (pow_target_from_difficulty (h_difficulty h))))
      else Inr ())"

definition validate_block_against_parent :: "block_externals \<Rightarrow> BlockHeader \<Rightarrow> BlockHeader \<Rightarrow> string + unit" where
  "validate_block_against_parent x parent h = validate_header_contents x parent h"

definition validate_block_against_root :: "block_externals \<Rightarrow> BlockHeader \<Rightarrow> string + unit" where
  "validate_block_against_root x h =
     (case validate_header_contents x legacy_mining_root_header h of
        Inr u \<Rightarrow> Inr u
      | Inl _ \<Rightarrow> validate_header_contents x (bk_header (create_genesis_block x)) h)"

definition validate_sync_header_against_parent :: "block_externals \<Rightarrow> BlockHeader \<Rightarrow> SyncHeader \<Rightarrow> string + unit" where
  "validate_sync_header_against_parent x parent s = validate_header_contents x parent (bk_header (block_from_sync_header s))"

fun validate_pairs :: "block_externals \<Rightarrow> Block list \<Rightarrow> string + unit" where
  "validate_pairs x (a # b # bs) =
     and_then (validate_block_against_parent x (bk_header a) (bk_header b)) (\<lambda>_. validate_pairs x (b # bs))"
| "validate_pairs x bs = Inr ()"

definition validate_persisted_block_chain :: "block_externals \<Rightarrow> Block list \<Rightarrow> string + unit" where
  "validate_persisted_block_chain x blocks =
     (case blocks of
        [] \<Rightarrow> Inr ()
      | first # _ \<Rightarrow>
          let n = as_u64 (h_number (bk_header first)) in
          and_then
            (if n = 0 then validate_genesis_like_header x (bk_header first)
             else if n = 1 then validate_block_against_root x (bk_header first)
             else Inl (''persisted block store starts at height '' @ show_nat (unat n) @ '', expected 0 or 1''))
            (\<lambda>_. validate_pairs x blocks))"

subsection \<open>Rules the checks no longer use\<close>

definition compute_mining_digest :: "block_externals \<Rightarrow> BlockHeader \<Rightarrow> u64 \<Rightarrow> u8 list" where
  "compute_mining_digest x h nonce = be_bytes (compute_pow_hash x h nonce)"

definition leading_rabbit_target_from_difficulty :: "U256 \<Rightarrow> nat" where
  "leading_rabbit_target_from_difficulty difficulty =
     (let raw = ucast (as_u64 difficulty) :: u128 in if 8000000 \<le> raw then 4 else if 2000000 \<le> raw then 3 else 2)"

definition legacy_pow_meets_difficulty :: "u8 list \<Rightarrow> U256 \<Rightarrow> bool" where
  "legacy_pow_meets_difficulty digest difficulty \<longleftrightarrow>
     leading_rabbit_target_from_difficulty difficulty \<le> length (takeWhile (\<lambda>b. b = 0) digest)"

definition pow_meets_block_rule :: "u32 \<Rightarrow> u8 list \<Rightarrow> U256 \<Rightarrow> bool option" where
  "pow_meets_block_rule header_version digest parent_difficulty =
     (if POW_TARGET_HEADER_VERSION \<le> header_version
      then Option.bind (pow_target_from_difficulty parent_difficulty) (pow_hash_meets_target digest)
      else Some (legacy_pow_meets_difficulty digest parent_difficulty))"

subsection \<open>What an accepted header guarantees\<close>

definition mix_ok :: "block_externals \<Rightarrow> BlockHeader \<Rightarrow> bool" where
  "mix_ok x h \<longleftrightarrow> h_mix_hash h = compute_pow_hash x h (h_nonce h) \<or> h_mix_hash h = legacy_mix x h"

definition difficulty_ok :: "BlockHeader \<Rightarrow> BlockHeader \<Rightarrow> bool" where
  "difficulty_ok parent h \<longleftrightarrow>
     h_difficulty h = sync_adjust_difficulty (h_difficulty parent) (h_timestamp parent) (h_timestamp h) \<or>
     (is_legacy_mining_root parent \<and> h_number h = u256_one \<and> h_difficulty h = u256_from_u128 SYNC_BASE_MINING_DIFFICULTY) \<or>
     h_difficulty h = u256_from_u128 1"

definition linked_to :: "block_externals \<Rightarrow> BlockHeader \<Rightarrow> BlockHeader \<Rightarrow> bool" where
  "linked_to x parent h \<longleftrightarrow>
     h_parent_hash h = (if h_hash parent = 0 then canonical_hash x parent else h_hash parent) \<and>
     h_number h = u256_add (h_number parent) u256_one \<and> h_timestamp parent \<le> h_timestamp h"

lemma header_contents_iff:
  "validate_header_contents x parent h = Inr () \<longleftrightarrow>
     h_hash h = canonical_hash x h \<and> h_version h \<noteq> 0 \<and> linked_to x parent h \<and>
     length (h_extra_data h) \<le> MAX_SYNC_EXTRA_DATA_BYTES \<and> difficulty_ok parent h \<and> mix_ok x h \<and>
     meets_target (h_mix_hash h) (h_difficulty h)"
  by (auto simp: validate_header_contents_def Let_def linked_to_def difficulty_ok_def mix_ok_def not_less)

lemma unat_as_u64: "u256_wf a \<Longrightarrow> unat (as_u64 a) = be_value a mod 2 ^ 64"
  using be_value_drop [of 24 a] be_value_bound [of "drop 24 a"]
  by (simp add: as_u64_def from_be_def u256_wf_def unat_of_nat)

lemma target_met_iff:
  assumes "u256_wf d" "0 < be_value d" "be_value d < 2 ^ 120"
  shows "meets_target pow_hash d \<longleftrightarrow> unat pow_hash * be_value d < 2 ^ 256"
proof -
  obtain t where t: "pow_target_from_difficulty d = Some t" "u256_wf t" "be_value t = (2 ^ 256 - 1) div be_value d"
    using pow_target_exact [OF assms] by blast
  have "u256_less t (be_bytes pow_hash) \<longleftrightarrow> be_value t < unat pow_hash"
    using t(2) by (simp add: u256_less_iff u256_wf_def be_value_be_bytes)
  moreover have "unat pow_hash \<le> (2 ^ 256 - 1) div be_value d \<longleftrightarrow> unat pow_hash * be_value d \<le> 2 ^ 256 - 1"
    using assms(2) by (rule less_eq_div_iff_mult_less_eq)
  ultimately have v: "\<not> u256_less t (be_bytes pow_hash) \<longleftrightarrow> unat pow_hash * be_value d < 2 ^ 256"
    unfolding t(3) using le_max [of "unat pow_hash * be_value d"] by (simp only: not_less)
  show ?thesis using v by (simp add: meets_target_def t(1) pow_hash_meets_target_def from_big_endian_32)
qed

definition next_sync_difficulty :: "nat \<Rightarrow> nat \<Rightarrow> nat" where
  "next_sync_difficulty p elapsed =
     (let p = if p = 0 then 1000000 else p;
          n = if elapsed \<le> 5 then p * 110 div 100 else if 20 \<le> elapsed then p * 90 div 100 else p
      in clamp 250000 1000000000 n)"

lemma sync_adjust_value:
  assumes "u256_wf d"
  shows "be_value (sync_adjust_difficulty d t now) = next_sync_difficulty (be_value d mod 2 ^ 64) (unat now - unat t)"
proof -
  let ?p = "ucast (as_u64 d) :: u128" and ?e = "saturating_sub now t"
  have p: "unat ?p = be_value d mod 2 ^ 64"
    using unat_as_u64 [OF assms] by (simp add: unsigned_ucast_eq take_bit_nat_eq_self)
  have z: "?p = 0 \<longleftrightarrow> be_value d mod 2 ^ 64 = 0" using p by (simp add: word_unat_eq_iff)
  define q :: u128 where "q = (if ?p = 0 then SYNC_BASE_MINING_DIFFICULTY else ?p)"
  define r where "r = (if be_value d mod 2 ^ 64 = 0 then 1000000 else be_value d mod 2 ^ 64)"
  have q: "unat q = r" "r < 2 ^ 64" using p z by (simp_all add: q_def r_def sync_constants)
  have e: "unat ?e = unat now - unat t" by (simp add: unat_saturating_sub)
  have mul: "unat (saturating_mul q n div 100) = r * unat n div 100" if "unat n \<le> 110" for n
  proof -
    have "r * unat n \<le> (2 ^ 64 - 1) * 110" using q(2) that by (intro mult_le_mono) auto
    then have "r * unat n \<le> 2 ^ 128 - 1" by simp
    then show ?thesis by (simp add: unat_saturating_mul unat_div q(1))
  qed
  have c: "?e \<le> SYNC_TARGET_INTERVAL_SECS div 2 \<longleftrightarrow> unat now - unat t \<le> 5"
    "saturating_mul SYNC_TARGET_INTERVAL_SECS 2 \<le> ?e \<longleftrightarrow> 20 \<le> unat now - unat t"
    by (simp_all add: word_le_nat_alt e sync_constants unat_saturating_mul unat_div)
  show ?thesis
    unfolding sync_adjust_difficulty_def next_sync_difficulty_def Let_def q_def [symmetric] r_def [symmetric] c
    using mul [of 110] mul [of 90] q(1)
    by (simp add: unat_clamp SYNC_MIN_MINING_DIFFICULTY_def SYNC_MAX_MINING_DIFFICULTY_def)
qed

lemma next_sync_difficulty_bounds: "250000 \<le> next_sync_difficulty p e" "next_sync_difficulty p e \<le> 1000000000"
  by (simp_all add: next_sync_difficulty_def Let_def)

text \<open>The difficulty a peer must claim is between the two limits; from a parent within them it moves by at most a
  tenth, upwards only after at most five seconds, downwards only after at least twenty.\<close>

theorem sync_difficulty_bounds:
  assumes "u256_wf d"
  shows "250000 \<le> be_value (sync_adjust_difficulty d t now) \<and> be_value (sync_adjust_difficulty d t now) \<le> 1000000000 \<and>
    (250000 \<le> be_value d \<and> be_value d \<le> 1000000000 \<longrightarrow>
       10 * be_value (sync_adjust_difficulty d t now) \<le> 11 * be_value d \<and>
       9 * be_value d \<le> 10 * be_value (sync_adjust_difficulty d t now) + 9 \<and>
       (be_value d < be_value (sync_adjust_difficulty d t now) \<longrightarrow> unat now - unat t \<le> 5) \<and>
       (be_value (sync_adjust_difficulty d t now) < be_value d \<longrightarrow> 20 \<le> unat now - unat t))"
proof -
  let ?v = "be_value (sync_adjust_difficulty d t now)"
  note v = sync_adjust_value [OF assms, of t now]
  have move: "10 * ?v \<le> 11 * be_value d \<and> 9 * be_value d \<le> 10 * ?v + 9 \<and>
      (be_value d < ?v \<longrightarrow> unat now - unat t \<le> 5) \<and> (?v < be_value d \<longrightarrow> 20 \<le> unat now - unat t)"
    if p: "250000 \<le> be_value d" "be_value d \<le> 1000000000"
  proof -
    let ?e = "unat now - unat t" and ?p = "be_value d"
    have m: "?p mod 2 ^ 64 = ?p" "?p \<noteq> 0" using p by simp_all
    have w: "?v = clamp 250000 1000000000 (if ?e \<le> 5 then ?p * 110 div 100 else if 20 \<le> ?e then ?p * 90 div 100 else ?p)"
      unfolding v m(1) next_sync_difficulty_def Let_def using m(2) by simp
    consider "?e \<le> 5" | "5 < ?e" "20 \<le> ?e" | "5 < ?e" "?e < 20" by linarith
    then show ?thesis
      unfolding w using p by cases (auto simp: clamp_def)
  qed
  then show ?thesis using next_sync_difficulty_bounds v by auto
qed

lemma sync_difficulty_bounds_witness:
  "250000 \<le> be_value (sync_adjust_difficulty (u256_from 300000) 10 12)"
  using sync_difficulty_bounds [of "u256_from 300000" 10 12] by simp


lemma difficulty_ok_value:
  assumes "u256_wf (h_difficulty parent)" "difficulty_ok parent h"
  shows "u256_wf (h_difficulty h) \<and>
    (be_value (h_difficulty h) = 1 \<or> 250000 \<le> be_value (h_difficulty h) \<and> be_value (h_difficulty h) \<le> 1000000000)"
proof -
  have "u256_wf (sync_adjust_difficulty d t now)" for d t now by (simp add: sync_adjust_difficulty_def Let_def)
  then show ?thesis
    using assms(2) next_sync_difficulty_bounds sync_adjust_value [OF assms(1)]
    by (auto simp: difficulty_ok_def SYNC_BASE_MINING_DIFFICULTY_def)
qed

lemma accepted_header_spec:
  assumes "validate_header_contents x parent h = Inr ()" "u256_wf (h_difficulty parent)"
  shows "h_hash h = compute_hash x h \<and> linked_to x parent h \<and> mix_ok x h \<and>
    (be_value (h_difficulty h) = 1 \<or> 250000 \<le> be_value (h_difficulty h) \<and> be_value (h_difficulty h) \<le> 1000000000) \<and>
    unat (h_mix_hash h) * be_value (h_difficulty h) < 2 ^ 256"
proof -
  have a: "h_hash h = canonical_hash x h" "linked_to x parent h" "difficulty_ok parent h" "mix_ok x h"
    "meets_target (h_mix_hash h) (h_difficulty h)"
    using assms(1) unfolding header_contents_iff by simp_all
  note d = difficulty_ok_value [OF assms(2) a(3)]
  then have "0 < be_value (h_difficulty h)" "be_value (h_difficulty h) < 2 ^ 120" by auto
  then have "unat (h_mix_hash h) * be_value (h_difficulty h) < 2 ^ 256"
    using target_met_iff d a(5) by blast
  then show ?thesis using a d by (simp add: canonical_hash_def)
qed

text \<open>C24: A header that passes carries the hash of its own bytes, follows its parent by hash, number and time, claims
  difficulty one or a difficulty within the limits, and its proof-of-work digest, as a number, times that difficulty
  is below 2 to the power of 256; the digest is that of its bytes or of parent, number and nonce alone.\<close>

theorem accepted_header_is_mined:
  assumes "validate_header_contents x parent h = Inr ()" "u256_wf (h_difficulty parent)"
  shows "h_hash h = compute_hash x h \<and> linked_to x parent h \<and> mix_ok x h \<and>
    (be_value (h_difficulty h) = 1 \<or> 250000 \<le> be_value (h_difficulty h) \<and> be_value (h_difficulty h) \<le> 1000000000) \<and>
    unat (h_mix_hash h) * be_value (h_difficulty h) < 2 ^ 256"
  using accepted_header_spec [OF assms] .

subsection \<open>Headers without work\<close>

lemma pow_hash_cong:
  "compute_pow_hash x (h\<lparr>h_mix_hash := m\<rparr>) n = compute_pow_hash x h n"
  "compute_pow_hash x (h\<lparr>h_hash := k\<rparr>) n = compute_pow_hash x h n"
  by (simp_all add: compute_pow_hash_def Let_def encode_canonical_hash_preimage_def)

lemma sealed_hash [simp]: "h_hash (seal_hash x h) = canonical_hash x (seal_hash x h)"
  by (simp add: seal_hash_def canonical_hash_def compute_hash_def encode_canonical_hash_preimage_def)

lemma tiny_header_accepted:
  assumes "linked_to x parent h" "h_version h \<noteq> 0" "length (h_extra_data h) \<le> MAX_SYNC_EXTRA_DATA_BYTES"
    "h_difficulty h = u256_from_u128 1"
  shows "validate_header_contents x parent (seal_hash x (h\<lparr>h_mix_hash := compute_pow_hash x h (h_nonce h)\<rparr>)) = Inr ()"
proof -
  let ?k = "seal_hash x (h\<lparr>h_mix_hash := compute_pow_hash x h (h_nonce h)\<rparr>)"
  have "mix_ok x ?k" by (simp add: mix_ok_def seal_hash_def pow_hash_cong)
  moreover have "linked_to x parent ?k" using assms(1) by (simp add: linked_to_def seal_hash_def)
  moreover have "meets_target (h_mix_hash ?k) (h_difficulty ?k)"
    using assms(4) unat_word_less [of "h_mix_hash ?k"] by (subst target_met_iff) (simp_all add: seal_hash_def)
  ultimately show ?thesis
    using assms(2-4) unfolding header_contents_iff by (simp add: difficulty_ok_def) (simp add: seal_hash_def)
qed

text \<open>C26: Difficulty one is accepted after every parent: a header that claims it passes with any nonce, so extending the
  chain of a peer needs no work at all.\<close>

theorem difficulty_one_needs_no_work:
  assumes "linked_to x parent h" "h_version h \<noteq> 0" "length (h_extra_data h) \<le> MAX_SYNC_EXTRA_DATA_BYTES"
    "h_difficulty h = u256_from_u128 1"
  shows "validate_header_contents x parent (seal_hash x (h\<lparr>h_mix_hash := compute_pow_hash x h (h_nonce h)\<rparr>)) = Inr ()"
  using tiny_header_accepted [OF assms] .

text \<open>The legacy proof of work binds nothing but parent, number and nonce: from an accepted header that uses it,
  anyone makes accepted headers with another coinbase, state root and other transactions, for the same work.\<close>

theorem legacy_work_is_reusable:
  assumes "validate_header_contents x parent h = Inr ()" "h_mix_hash h = legacy_mix x h"
  shows "validate_header_contents x parent
    (seal_hash x (h\<lparr>h_coinbase := c, h_state_root := s, h_transactions_root := t, h_receipts_root := r\<rparr>)) = Inr ()"
proof -
  let ?k = "seal_hash x (h\<lparr>h_coinbase := c, h_state_root := s, h_transactions_root := t, h_receipts_root := r\<rparr>)"
  have "legacy_mix x ?k = legacy_mix x h" by (simp add: legacy_mix_def seal_hash_def)
  then have "mix_ok x ?k" using assms(2) by (simp add: mix_ok_def seal_hash_def)
  moreover have "linked_to x parent ?k = linked_to x parent h" "difficulty_ok parent ?k = difficulty_ok parent h"
    by (simp_all add: linked_to_def difficulty_ok_def seal_hash_def)
  moreover have "h_version ?k = h_version h" "h_extra_data ?k = h_extra_data h" "h_mix_hash ?k = h_mix_hash h" "h_difficulty ?k = h_difficulty h"
    by (simp_all add: seal_hash_def)
  ultimately show ?thesis using assms(1) unfolding header_contents_iff by simp
qed

subsection \<open>Headers that cannot be transferred\<close>

lemma u256_from_as_u64: "u256_wf n \<Longrightarrow> u256_from (as_u64 n) = n \<longleftrightarrow> be_value n < 2 ^ 64"
proof -
  assume n: "u256_wf n"
  have v: "be_value (u256_from (as_u64 n)) = be_value n mod 2 ^ 64" using unat_as_u64 [OF n] by simp
  show ?thesis
  proof
    assume "u256_from (as_u64 n) = n"
    then have "be_value n = be_value n mod 2 ^ 64" using v by simp
    then show "be_value n < 2 ^ 64" by (metis mod_less_divisor zero_less_numeral zero_less_power)
  next
    assume "be_value n < 2 ^ 64"
    then have "be_value (u256_from (as_u64 n)) = be_value n" using v by simp
    moreover have "length (u256_from (as_u64 n)) = length n" using n u256_wf_simps(3) [of "as_u64 n"] by (simp add: u256_wf_def)
    ultimately show "u256_from (as_u64 n) = n" by (rule be_value_inj [rotated])
  qed
qed

definition transferable :: "BlockHeader \<Rightarrow> bool" where
  "transferable h \<longleftrightarrow>
     h_uncle_hashes h = [] \<and> h_gas_limit h = 30000000 \<and> h_gas_used h = 0 \<and> h_base_fee_per_gas h = u256_from 1000000000 \<and>
     be_value (h_number h) < 2 ^ 64 \<and> be_value (h_difficulty h) < 2 ^ 64"

lemma reconstructed_header:
  assumes "header_wf h" "bk_header b = h"
  shows "bk_header (block_from_sync_header (sync_header_from_block b)) = h \<longleftrightarrow> transferable h"
  using assms
  by (cases h) (auto simp: block_from_sync_header_def sync_header_from_block_def Let_def transferable_def header_wf_def
      u256_from_as_u64)

text \<open>C25: A well-formed header that carries the hash of its own bytes survives the transfer to a peer exactly when its
  number and difficulty are below 2^64 and it has gas used zero, base fee one billion, the standard gas limit and no
  uncles, as long as the hash does not collide on the bytes of the header and those the receiver builds: the message
  carries number and difficulty in 64 bits and the other fields not at all, and the receiver hashes its own values.
  Blocks that use gas or carry the current base fee of one cannot be synchronised.\<close>

theorem header_transfer_iff:
  assumes "header_wf (bk_header b)" "h_hash (bk_header b) = compute_hash x (bk_header b)"
    "keccak256 x (encode_canonical_hash_preimage (bk_header (block_from_sync_header (sync_header_from_block b)))) =
       keccak256 x (encode_canonical_hash_preimage (bk_header b)) \<Longrightarrow>
     encode_canonical_hash_preimage (bk_header (block_from_sync_header (sync_header_from_block b))) =
       encode_canonical_hash_preimage (bk_header b)"
  shows "verify_sync_header_hash x (sync_header_from_block b) \<longleftrightarrow> transferable (bk_header b)"
proof -
  let ?h = "bk_header b" and ?k = "bk_header (block_from_sync_header (sync_header_from_block b))"
  have s: "sh_hash (sync_header_from_block b) = h_hash ?h" "h_hash ?k = h_hash ?h"
    by (simp_all add: sync_header_from_block_def block_from_sync_header_def Let_def)
  have wf: "header_wf ?k"
    using assms(1) by (simp add: header_wf_def block_from_sync_header_def sync_header_from_block_def Let_def)
  show ?thesis
  proof
    assume "transferable ?h"
    then have "?k = ?h" using reconstructed_header [OF assms(1) refl] by simp
    then show "verify_sync_header_hash x (sync_header_from_block b)" using assms(2) s(1) by (simp add: verify_sync_header_hash_def)
  next
    assume "verify_sync_header_hash x (sync_header_from_block b)"
    then have "encode_canonical_hash_preimage ?k = encode_canonical_hash_preimage ?h"
      using assms(2,3) s(1) by (simp add: verify_sync_header_hash_def compute_hash_def)
    then have "?k\<lparr>h_hash := 0\<rparr> = ?h\<lparr>h_hash := 0\<rparr>" by (rule header_preimage_binds [OF wf assms(1)])
    then have "?k = ?h" using s(2) by (metis BlockHeader.surjective BlockHeader.update_convs(17))
    then show "transferable ?h" using reconstructed_header [OF assms(1) refl] by simp
  qed
qed

subsection \<open>Concrete headers\<close>

definition sample_tiny :: BlockHeader where
  "sample_tiny = legacy_mining_root_header\<lparr>h_parent_hash := 5, h_number := u256_one, h_difficulty := u256_from_u128 1\<rparr>"

lemma sample_tiny_linked:
  "linked_to sample_block_externals legacy_mining_root_header sample_tiny" "h_version sample_tiny \<noteq> 0"
  "length (h_extra_data sample_tiny) \<le> MAX_SYNC_EXTRA_DATA_BYTES" "h_difficulty sample_tiny = u256_from_u128 1"
proof -
  have "u256_add u256_zero u256_one = u256_one" by code_simp
  then show "linked_to sample_block_externals legacy_mining_root_header sample_tiny" "h_version sample_tiny \<noteq> 0"
    "length (h_extra_data sample_tiny) \<le> MAX_SYNC_EXTRA_DATA_BYTES" "h_difficulty sample_tiny = u256_from_u128 1"
    by (simp_all add: linked_to_def sample_tiny_def legacy_mining_root_header_def canonical_hash_def compute_hash_def)
qed

definition sample_mined :: BlockHeader where
  "sample_mined = seal_hash sample_block_externals
     (sample_tiny\<lparr>h_mix_hash := compute_pow_hash sample_block_externals sample_tiny (h_nonce sample_tiny)\<rparr>)"

lemma difficulty_one_needs_no_work_witness:
  "validate_header_contents sample_block_externals legacy_mining_root_header sample_mined = Inr ()"
  unfolding sample_mined_def by (rule difficulty_one_needs_no_work [OF sample_tiny_linked])

lemma accepted_header_is_mined_witness:
  "h_hash sample_mined = compute_hash sample_block_externals sample_mined \<and> be_value (h_difficulty sample_mined) = 1"
proof -
  have "validate_header_contents sample_block_externals legacy_mining_root_header sample_mined = Inr ()"
    unfolding sample_mined_def by (rule tiny_header_accepted [OF sample_tiny_linked])
  from accepted_header_is_mined [OF this] show ?thesis
    by (simp add: sample_mined_def seal_hash_def sample_tiny_def legacy_mining_root_header_def)
qed

lemma legacy_work_is_reusable_witness:
  "validate_header_contents sample_block_externals legacy_mining_root_header
     (seal_hash sample_block_externals (seal_hash sample_block_externals (sample_tiny\<lparr>h_mix_hash := 5\<rparr>)
        \<lparr>h_coinbase := 1, h_state_root := 2, h_transactions_root := 3, h_receipts_root := 4\<rparr>)) = Inr ()"
proof (rule legacy_work_is_reusable)
  let ?h = "seal_hash sample_block_externals (sample_tiny\<lparr>h_mix_hash := 5\<rparr>)"
  show l: "h_mix_hash ?h = legacy_mix sample_block_externals ?h" by (simp add: legacy_mix_def seal_hash_def)
  have "linked_to sample_block_externals legacy_mining_root_header ?h"
    using sample_tiny_linked(1) by (simp add: linked_to_def seal_hash_def)
  moreover have "h_hash ?h = canonical_hash sample_block_externals ?h" by simp
  moreover have "h_version ?h \<noteq> 0" "length (h_extra_data ?h) \<le> MAX_SYNC_EXTRA_DATA_BYTES" "h_difficulty ?h = u256_from_u128 1"
    using sample_tiny_linked(2-4) by (simp_all add: seal_hash_def)
  moreover have "meets_target (h_mix_hash ?h) (u256_from_u128 1)"
    using unat_word_less [of "h_mix_hash ?h"] by (subst target_met_iff) simp_all
  ultimately show "validate_header_contents sample_block_externals legacy_mining_root_header ?h = Inr ()"
    using l unfolding header_contents_iff mix_ok_def difficulty_ok_def by simp
qed

text \<open>A hash that keeps the last 32 bytes, the base fee.\<close>

definition tail_externals :: block_externals where
  "tail_externals = sample_block_externals\<lparr>keccak256 := (\<lambda>bs. word_of_nat (be_value bs))\<rparr>"

definition fee_block :: Block where
  "fee_block = \<lparr>bk_header = seal_hash tail_externals (legacy_mining_root_header\<lparr>h_base_fee_per_gas := u256_from INITIAL_BASE_FEE\<rparr>),
     bk_body = None, bk_uncles = []\<rparr>"

lemma tail_hash:
  "keccak256 tail_externals (encode_canonical_hash_preimage h) = word_of_nat (be_value (h_base_fee_per_gas h))" if "u256_wf (h_base_fee_per_gas h)"
proof -
  obtain p where p: "encode_canonical_hash_preimage h = p @ h_base_fee_per_gas h" by (auto simp: encode_canonical_hash_preimage_def)
  have "(256 :: hash) ^ 32 = (2 ^ 8) ^ 32" by simp
  also have "\<dots> = 2 ^ 256" by (simp only: power_mult [symmetric]) simp
  also have "\<dots> = 0" by simp
  finally have z: "(256 :: hash) ^ 32 = 0" .
  have "(word_of_nat (be_value p * 256 ^ 32 + be_value (h_base_fee_per_gas h)) :: hash) = word_of_nat (be_value (h_base_fee_per_gas h))"
    by (simp only: of_nat_add of_nat_mult of_nat_power of_nat_numeral z mult_zero_right add_0_left)
  moreover have "length (h_base_fee_per_gas h) = 32" using that by (simp add: u256_wf_def)
  moreover have "keccak256 tail_externals bs = word_of_nat (be_value bs)" for bs by (simp add: tail_externals_def)
  ultimately show ?thesis by (simp only: p be_value_append)
qed

lemma header_transfer_iff_witness:
  "\<not> verify_sync_header_hash tail_externals (sync_header_from_block fee_block)"
proof -
  let ?h = "bk_header fee_block" and ?k = "bk_header (block_from_sync_header (sync_header_from_block fee_block))"
  have f: "h_base_fee_per_gas ?h = u256_from 1" "h_base_fee_per_gas ?k = u256_from 1000000000"
    by (simp_all add: fee_block_def seal_hash_def block_from_sync_header_def INITIAL_BASE_FEE_def)
  have "keccak256 tail_externals (encode_canonical_hash_preimage ?h) = 1"
    "keccak256 tail_externals (encode_canonical_hash_preimage ?k) = 1000000000"
    using f by (simp_all add: tail_hash)
  then have d: "keccak256 tail_externals (encode_canonical_hash_preimage ?k) \<noteq> keccak256 tail_externals (encode_canonical_hash_preimage ?h)"
    by simp
  have "header_wf ?h" "h_hash ?h = compute_hash tail_externals ?h"
    by (simp_all add: header_wf_def fee_block_def seal_hash_def legacy_mining_root_header_def compute_hash_def encode_canonical_hash_preimage_def)
  from header_transfer_iff [OF this] d have "verify_sync_header_hash tail_externals (sync_header_from_block fee_block) \<longleftrightarrow> transferable ?h"
    by blast
  moreover have "be_value (h_base_fee_per_gas ?h) = 1" by (simp add: f)
  then have "\<not> transferable ?h" by (auto simp: transferable_def)
  ultimately show ?thesis by simp
qed

end
