(* ===== verification/CanonicalChain.thy ===== *)
theory CanonicalChain
  imports HeaderCheck Account
begin

section \<open>The canonical chain of a node\<close>

text \<open>
  The process-wide chain of \<open>rabbitnet/src/lib.rs\<close>: blocks by height, bodies by block hash, receipts by transaction,
  the accounts and results of the last snapshot, and the two files blocks and bodies are appended to.  The statics behind
  locks are the fields of \<open>ChainCache\<close>; a \<open>BTreeMap\<close> of blocks is an association list in ascending key order.
  An operation is a function of the cache to a result and a new cache; \<open>None\<close> means that it waits for a lock it holds itself,
  for which \<open>cc_readers\<close> counts the read guards of the blocks that are alive.  The file system and the JSON of the records are
  the parameter \<open>disk\<close>; a file is its list of lines.
\<close>

subsection \<open>State\<close>

definition MAX_GLOBAL_BLOCKS :: nat where "MAX_GLOBAL_BLOCKS = 50000"
definition MAX_GLOBAL_BLOCK_BODIES :: nat where "MAX_GLOBAL_BLOCK_BODIES = 50000"
definition MAX_GLOBAL_SYNC_TX_INDEX :: nat where "MAX_GLOBAL_SYNC_TX_INDEX = 100000"

datatype NetworkError =
    NetIO string
  | PeerNotFound string
  | ConnectionError string
  | ProtocolError string
  | Serialization string
  | ChannelError

record BlockBodyRecord =
  bb_number :: u64
  bb_block_hash :: hash
  bb_body :: BlockBody

definition body_record_new :: "u64 \<Rightarrow> hash \<Rightarrow> BlockBody \<Rightarrow> BlockBodyRecord" where
  "body_record_new number block_hash body = \<lparr>bb_number = number, bb_block_hash = block_hash, bb_body = body\<rparr>"

record PersistedBlockRecord =
  ps_version :: u32
  ps_header_version :: u32
  ps_number :: u64
  ps_hash :: hash
  ps_parent_hash :: hash
  ps_timestamp :: u64
  ps_difficulty :: U256
  ps_nonce :: u64
  ps_coinbase :: address
  ps_mix_hash :: hash
  ps_extra_data :: "u8 list"
  ps_body :: "BlockBody option"
  ps_base_fee_per_gas :: U256
  ps_state_root :: hash
  ps_transactions_root :: hash
  ps_receipts_root :: hash
  ps_gas_limit :: u64
  ps_gas_used :: u64
  ps_uncle_hashes :: "hash list"

record PersistedBlockBodyRecord =
  pb_version :: u32
  pb_number :: u64
  pb_block_hash :: hash
  pb_body :: BlockBody

record SyncComputeTxRecord =
  sc_tx_hash :: hash
  sc_result :: string

record ChainCache =
  cc_blocks :: "(u64 \<times> Block) list"
  cc_readers :: nat
  cc_bodies :: "hash \<rightharpoonup> BlockBodyRecord"
  cc_receipts :: "hash \<rightharpoonup> Receipt"
  cc_body_order :: "hash list"
  cc_activation :: "u64 option"
  cc_synced_height :: u64
  cc_block_path :: "string option"
  cc_body_path :: "string option"
  cc_files :: "string \<rightharpoonup> string list"
  cc_accounts :: "address \<rightharpoonup> Account"
  cc_compute_txs :: "hash \<rightharpoonup> SyncComputeTxRecord"
  cc_compute_order :: "hash list"

text \<open>What the node uses of the file system and of \<open>serde_json\<close>; a failure is its text.\<close>

record disk =
  set_extension :: "string \<Rightarrow> string \<Rightarrow> string"
  create_dir :: "string \<Rightarrow> string option"
  append_error :: "string \<Rightarrow> string \<Rightarrow> string option"
  read_error :: "string \<Rightarrow> string option"
  block_json :: "PersistedBlockRecord \<Rightarrow> string"
  parse_block :: "string \<Rightarrow> string + PersistedBlockRecord"
  body_json :: "PersistedBlockBodyRecord \<Rightarrow> string"
  parse_body :: "string \<Rightarrow> string + PersistedBlockBodyRecord"

definition cache_new :: ChainCache where
  "cache_new =
     \<lparr>cc_blocks = [], cc_readers = 0, cc_bodies = Map.empty, cc_receipts = Map.empty, cc_body_order = [],
      cc_activation = None, cc_synced_height = 0, cc_block_path = None, cc_body_path = None, cc_files = Map.empty,
      cc_accounts = Map.empty, cc_compute_txs = Map.empty, cc_compute_order = []\<rparr>"

subsection \<open>Operations with errors and locks\<close>

type_synonym 'a net = "ChainCache \<Rightarrow> ((NetworkError + 'a) \<times> ChainCache) option"

definition net_return :: "'a \<Rightarrow> 'a net" where "net_return a s = Some (Inr a, s)"

definition net_of :: "NetworkError + 'a \<Rightarrow> 'a net" where "net_of r s = Some (r, s)"

definition net_get :: "(ChainCache \<Rightarrow> 'a) \<Rightarrow> 'a net" where "net_get f s = Some (Inr (f s), s)"

definition net_modify :: "(ChainCache \<Rightarrow> ChainCache) \<Rightarrow> unit net" where "net_modify f s = Some (Inr (), f s)"

definition net_bind :: "'a net \<Rightarrow> ('a \<Rightarrow> 'b net) \<Rightarrow> 'b net" where
  "net_bind m k s =
     (case m s of None \<Rightarrow> None | Some (Inl e, t) \<Rightarrow> Some (Inl e, t) | Some (Inr a, t) \<Rightarrow> k a t)"

fun net_each :: "('a \<Rightarrow> unit net) \<Rightarrow> 'a list \<Rightarrow> unit net" where
  "net_each f [] = net_return ()"
| "net_each f (a # as) = net_bind (f a) (\<lambda>_. net_each f as)"

text \<open>The write lock of the blocks is granted when no read guard is alive.\<close>

definition write_blocks :: "((u64 \<times> Block) list \<Rightarrow> (u64 \<times> Block) list) \<Rightarrow> unit net" where
  "write_blocks f s = (if cc_readers s = 0 then Some (Inr (), s\<lparr>cc_blocks := f (cc_blocks s)\<rparr>) else None)"

text \<open>A computation that runs while a read guard of the blocks is alive.\<close>

definition with_read_guard :: "'a net \<Rightarrow> 'a net" where
  "with_read_guard m s =
     (case m (s\<lparr>cc_readers := cc_readers s + 1\<rparr>) of
        None \<Rightarrow> None
      | Some (r, t) \<Rightarrow> Some (r, t\<lparr>cc_readers := cc_readers t - 1\<rparr>))"

definition protocol_error :: "string + 'a \<Rightarrow> NetworkError + 'a" where
  "protocol_error r = (case r of Inl e \<Rightarrow> Inl (ProtocolError e) | Inr a \<Rightarrow> Inr a)"

definition body_error :: "string \<Rightarrow> BlockError + 'a \<Rightarrow> NetworkError + 'a" where
  "body_error context r = (case r of Inl e \<Rightarrow> Inl (ProtocolError (context @ block_error_text e)) | Inr a \<Rightarrow> Inr a)"

subsection \<open>Blocks by height\<close>

fun height_insert :: "u64 \<Rightarrow> Block \<Rightarrow> (u64 \<times> Block) list \<Rightarrow> (u64 \<times> Block) list" where
  "height_insert k b [] = [(k, b)]"
| "height_insert k b ((k', b') # m) =
     (if k < k' then (k, b) # (k', b') # m else if k = k' then (k, b) # m else (k', b') # height_insert k b m)"

fun trim_blocks :: "(u64 \<times> Block) list \<Rightarrow> (u64 \<times> Block) list" where
  "trim_blocks [] = []"
| "trim_blocks (p # m) = (if MAX_GLOBAL_BLOCKS < length (p # m) then trim_blocks m else p # m)"

definition block_hash :: "Block \<Rightarrow> hash" where "block_hash b = h_hash (bk_header b)"

definition block_height :: "Block \<Rightarrow> u64" where "block_height b = as_u64 (h_number (bk_header b))"

definition global_block_by_number :: "u64 \<Rightarrow> ChainCache \<Rightarrow> Block option" where
  "global_block_by_number n s = map_of (cc_blocks s) n"

definition global_block_by_hash :: "hash \<Rightarrow> ChainCache \<Rightarrow> Block option" where
  "global_block_by_hash h s = find (\<lambda>b. block_hash b = h) (map snd (cc_blocks s))"

definition global_latest_block :: "ChainCache \<Rightarrow> Block option" where
  "global_latest_block s = (if cc_blocks s = [] then None else Some (snd (last (cc_blocks s))))"

definition global_block_number_for_hash :: "hash \<Rightarrow> ChainCache \<Rightarrow> u64 option" where
  "global_block_number_for_hash h s = map_option fst (find (\<lambda>(_, b). block_hash b = h) (cc_blocks s))"

subsection \<open>Settings\<close>

definition configure_global_block_activation_height :: "u64 option \<Rightarrow> ChainCache \<Rightarrow> ChainCache" where
  "configure_global_block_activation_height height s = s\<lparr>cc_activation := height\<rparr>"

definition past_activation :: "u64 \<Rightarrow> ChainCache \<Rightarrow> bool" where
  "past_activation height s = (case cc_activation s of None \<Rightarrow> False | Some activation \<Rightarrow> activation \<le> height)"

definition global_block_requires_body :: "u64 \<Rightarrow> u32 \<Rightarrow> ChainCache \<Rightarrow> bool" where
  "global_block_requires_body height version s \<longleftrightarrow> CANONICAL_BLOCK_VERSION \<le> version \<or> past_activation height s"

definition global_block_version_for_height :: "u64 \<Rightarrow> ChainCache \<Rightarrow> u32" where
  "global_block_version_for_height height s = (if past_activation height s then CANONICAL_BLOCK_VERSION else 2)"

definition set_global_synced_height :: "u64 \<Rightarrow> ChainCache \<Rightarrow> ChainCache" where
  "set_global_synced_height height s = s\<lparr>cc_synced_height := height\<rparr>"

subsection \<open>Bodies and receipts\<close>

definition global_block_body_by_hash :: "hash \<Rightarrow> ChainCache \<Rightarrow> BlockBodyRecord option" where
  "global_block_body_by_hash h s = cc_bodies s h"

definition global_block_body_by_number :: "u64 \<Rightarrow> ChainCache \<Rightarrow> BlockBodyRecord option" where
  "global_block_body_by_number n s =
     Option.bind (global_block_by_number n s) (\<lambda>b. global_block_body_by_hash (block_hash b) s)"

definition global_block_receipt_by_tx_hash :: "hash \<Rightarrow> ChainCache \<Rightarrow> Receipt option" where
  "global_block_receipt_by_tx_hash h s = cc_receipts s h"

definition global_block_receipts_by_hash :: "hash \<Rightarrow> ChainCache \<Rightarrow> Receipt list option" where
  "global_block_receipts_by_hash h s = map_option (\<lambda>r. bd_receipts (bb_body r)) (global_block_body_by_hash h s)"

definition global_latest_block_body :: "ChainCache \<Rightarrow> BlockBodyRecord option" where
  "global_latest_block_body s =
     (case List.map_filter (cc_bodies s) (rev (cc_body_order s)) of [] \<Rightarrow> None | r # _ \<Rightarrow> Some r)"

definition receipt_key :: "Receipt \<Rightarrow> hash" where "receipt_key r = txid_raw (rc_tx_id r)"

definition index_block_receipts :: "Receipt list \<Rightarrow> ChainCache \<Rightarrow> ChainCache" where
  "index_block_receipts rs s = s\<lparr>cc_receipts := fold (\<lambda>r m. m(receipt_key r \<mapsto> r)) rs (cc_receipts s)\<rparr>"

definition remove_block_receipts :: "Receipt list \<Rightarrow> ChainCache \<Rightarrow> ChainCache" where
  "remove_block_receipts rs s = s\<lparr>cc_receipts := fold (\<lambda>r m. m(receipt_key r := None)) rs (cc_receipts s)\<rparr>"

definition remove_block_bodies :: "hash list \<Rightarrow> ChainCache \<Rightarrow> ChainCache" where
  "remove_block_bodies hashes s =
     (if hashes = [] then s
      else
        let removed_receipts = concat (map (\<lambda>r. bd_receipts (bb_body r)) (List.map_filter (cc_bodies s) hashes));
            s = s\<lparr>cc_bodies := fold (\<lambda>h m. m(h := None)) hashes (cc_bodies s),
                  cc_body_order := filter (\<lambda>h. h \<notin> set hashes) (cc_body_order s)\<rparr>
        in remove_block_receipts removed_receipts s)"

fun pop_stale :: "hash list \<Rightarrow> hash list \<times> hash list" where
  "pop_stale [] = ([], [])"
| "pop_stale (h # order) =
     (if MAX_GLOBAL_BLOCK_BODIES < length (h # order)
      then (case pop_stale order of (stale, rest) \<Rightarrow> (h # stale, rest))
      else ([], h # order))"

fun update_first :: "(Block \<Rightarrow> bool) \<Rightarrow> (Block \<Rightarrow> Block) \<Rightarrow> (u64 \<times> Block) list \<Rightarrow> (u64 \<times> Block) list" where
  "update_first P f [] = []"
| "update_first P f ((k, b) # m) = (if P b then (k, f b) # m else (k, b) # update_first P f m)"

definition commit_body :: "block_externals \<Rightarrow> BlockBody \<Rightarrow> Block \<Rightarrow> Block" where
  "commit_body x body b =
     (let roots = commitment_roots x body in
      b\<lparr>bk_header := (bk_header b)\<lparr>h_transactions_root := roots_transactions roots, h_receipts_root := roots_receipts roots\<rparr>,
        bk_body := Some body\<rparr>)"

definition update_global_block_body_commitments :: "block_externals \<Rightarrow> BlockBodyRecord \<Rightarrow> unit net" where
  "update_global_block_body_commitments x r s =
     (if cc_readers s \<noteq> 0 then None
      else if global_block_by_hash (bb_block_hash r) s = None
      then Some (Inl (ProtocolError (''missing canonical block '' @ show_hash x (bb_block_hash r) @ '' for body commitment update'')), s)
      else Some (Inr (), s\<lparr>cc_blocks :=
             update_first (\<lambda>b. block_hash b = bb_block_hash r) (commit_body x (bb_body r)) (cc_blocks s)\<rparr>))"

fun check_receipts :: "block_externals \<Rightarrow> hash \<Rightarrow> nat \<Rightarrow> (ComputeTx \<times> Receipt) list \<Rightarrow> string + unit" where
  "check_receipts x h i [] = Inr ()"
| "check_receipts x h i ((tx, r) # ps) =
     (if tx_id tx \<noteq> rc_tx_id r
      then Inl (''block body tx/receipt id mismatch at index '' @ show_nat i @ '' for block '' @ show_hash x h)
      else if rc_block_hash r \<noteq> h
      then Inl (''receipt block hash mismatch at index '' @ show_nat i @ '' for block '' @ show_hash x h)
      else check_receipts x h (i + 1) ps)"

definition validate_global_block_body_insert :: "block_externals \<Rightarrow> BlockBodyRecord \<Rightarrow> ChainCache \<Rightarrow> NetworkError + unit" where
  "validate_global_block_body_insert x r s =
     (let body = bb_body r; hsh = bb_block_hash r in
      if bd_version body \<noteq> 1
      then Inl (ProtocolError (''unsupported block body version '' @ show_nat (unat (bd_version body)) @ '' for block '' @ show_hash x hsh))
      else if length (bd_transactions body) \<noteq> length (bd_receipts body)
      then Inl (ProtocolError (''block body tx/receipt length mismatch for block '' @ show_hash x hsh @ '': txs='' @
             show_nat (length (bd_transactions body)) @ '' receipts='' @ show_nat (length (bd_receipts body))))
      else and_then (protocol_error (check_receipts x hsh 0 (zip (bd_transactions body) (bd_receipts body)))) (\<lambda>_.
      and_then
        (case global_block_by_hash hsh s of
           None \<Rightarrow> Inr ()
         | Some b \<Rightarrow>
             and_then (body_error '''' (reconcile_body_commitments x (bk_header b) body)) (\<lambda>h.
             body_error '''' (validate_against_header x body h))) (\<lambda>_.
      and_then
        (case global_block_by_number (bb_number r) s of
           None \<Rightarrow> Inr ()
         | Some b \<Rightarrow>
             if block_hash b \<noteq> hsh
             then Inl (ProtocolError (''conflicting block body at height '' @ show_nat (unat (bb_number r)) @ '': block hash '' @
                    show_hash x (block_hash b) @ '' body hash '' @ show_hash x hsh))
             else Inr ()) (\<lambda>_.
      case global_block_number_for_hash hsh s of
        None \<Rightarrow> Inr ()
      | Some n \<Rightarrow>
          if n \<noteq> bb_number r
          then Inl (ProtocolError (''block body hash '' @ show_hash x hsh @ '' already mapped to height '' @ show_nat (unat n)))
          else Inr ()))))"

subsection \<open>Records of the files\<close>

definition persisted_from_block :: "Block \<Rightarrow> PersistedBlockRecord" where
  "persisted_from_block b =
     (let h = bk_header b in
      \<lparr>ps_version = 1, ps_header_version = h_version h, ps_number = as_u64 (h_number h), ps_hash = h_hash h,
       ps_parent_hash = h_parent_hash h, ps_timestamp = h_timestamp h, ps_difficulty = h_difficulty h, ps_nonce = h_nonce h,
       ps_coinbase = h_coinbase h, ps_mix_hash = h_mix_hash h, ps_extra_data = h_extra_data h, ps_body = bk_body b,
       ps_base_fee_per_gas = h_base_fee_per_gas h, ps_state_root = h_state_root h,
       ps_transactions_root = h_transactions_root h, ps_receipts_root = h_receipts_root h, ps_gas_limit = h_gas_limit h,
       ps_gas_used = h_gas_used h, ps_uncle_hashes = h_uncle_hashes h\<rparr>)"

definition into_block :: "PersistedBlockRecord \<Rightarrow> ChainCache \<Rightarrow> Block" where
  "into_block p s =
     (let body = (case ps_body p of
            Some b \<Rightarrow> b
          | None \<Rightarrow> (case global_block_body_by_hash (ps_hash p) s of Some r \<Rightarrow> bb_body r | None \<Rightarrow> body_empty))
      in with_body
        (block_new
          \<lparr>h_version = ps_header_version p, h_parent_hash = ps_parent_hash p, h_uncle_hashes = ps_uncle_hashes p,
           h_coinbase = ps_coinbase p, h_state_root = ps_state_root p, h_transactions_root = ps_transactions_root p,
           h_receipts_root = ps_receipts_root p, h_number = u256_from (ps_number p), h_gas_limit = ps_gas_limit p,
           h_gas_used = ps_gas_used p, h_timestamp = ps_timestamp p, h_difficulty = ps_difficulty p, h_nonce = ps_nonce p,
           h_extra_data = ps_extra_data p, h_mix_hash = ps_mix_hash p, h_base_fee_per_gas = ps_base_fee_per_gas p,
           h_hash = ps_hash p\<rparr>)
        body)"

definition persisted_from_body :: "BlockBodyRecord \<Rightarrow> PersistedBlockBodyRecord" where
  "persisted_from_body r =
     \<lparr>pb_version = 1, pb_number = bb_number r, pb_block_hash = bb_block_hash r, pb_body = bb_body r\<rparr>"

definition into_block_body_record :: "PersistedBlockBodyRecord \<Rightarrow> BlockBodyRecord" where
  "into_block_body_record p = body_record_new (pb_number p) (pb_block_hash p) (pb_body p)"

definition derive_block_body_sidecar_path :: "disk \<Rightarrow> string \<Rightarrow> string" where
  "derive_block_body_sidecar_path d path = set_extension d path ''body.jsonl''"

definition append_line :: "disk \<Rightarrow> string option \<Rightarrow> string \<Rightarrow> unit net" where
  "append_line d path line s =
     (case path of
        None \<Rightarrow> Some (Inr (), s)
      | Some p \<Rightarrow>
          (case create_dir d p of
             Some e \<Rightarrow> Some (Inl (NetIO e), s)
           | None \<Rightarrow>
               (case append_error d p line of
                  Some e \<Rightarrow> Some (Inl (NetIO e), s)
                | None \<Rightarrow>
                    let old = (case cc_files s p of None \<Rightarrow> [] | Some ls \<Rightarrow> ls)
                    in Some (Inr (), s\<lparr>cc_files := (cc_files s)(p \<mapsto> old @ [line])\<rparr>))))"

definition persist_global_block :: "disk \<Rightarrow> Block \<Rightarrow> unit net" where
  "persist_global_block d b s = append_line d (cc_block_path s) (block_json d (persisted_from_block b)) s"

definition persist_global_block_body :: "disk \<Rightarrow> BlockBodyRecord \<Rightarrow> unit net" where
  "persist_global_block_body d r s = append_line d (cc_body_path s) (body_json d (persisted_from_body r)) s"

definition is_space :: "char \<Rightarrow> bool" where
  "is_space c \<longleftrightarrow> (let n = of_char c :: nat in n = 32 \<or> 9 \<le> n \<and> n \<le> 13)"

text \<open>The two loaders: empty lines are skipped, a last line that does not parse is taken for a torn write, any other bad
  line is an error.\<close>

fun load_records ::
    "(string \<Rightarrow> string + 'r) \<Rightarrow> ('r \<Rightarrow> u32) \<Rightarrow> string \<Rightarrow> string \<Rightarrow> nat \<Rightarrow> string list \<Rightarrow> NetworkError + 'r list" where
  "load_records parse version kind path i [] = Inr []"
| "load_records parse version kind path i (line # rest) =
     (if list_all is_space line then load_records parse version kind path (i + 1) rest
      else case parse line of
        Inl e \<Rightarrow>
          if rest = [] then Inr []
          else Inl (Serialization (''invalid persisted '' @ kind @ '' record '' @ show_nat (i + 1) @ '' in '' @ path @ '': '' @ e))
      | Inr r \<Rightarrow>
          if version r \<noteq> 1
          then Inl (Serialization (''unsupported persisted '' @ kind @ '' record version '' @ show_nat (unat (version r)) @
                 '' in '' @ path @ '' at line '' @ show_nat (i + 1)))
          else and_then (load_records parse version kind path (i + 1) rest) (\<lambda>rs. Inr (r # rs)))"

definition load_persisted_block_bodies :: "disk \<Rightarrow> string \<Rightarrow> ChainCache \<Rightarrow> NetworkError + PersistedBlockBodyRecord list" where
  "load_persisted_block_bodies d path s =
     (case cc_files s path of
        None \<Rightarrow> Inr []
      | Some ls \<Rightarrow>
          (case read_error d path of
             Some e \<Rightarrow> Inl (NetIO e)
           | None \<Rightarrow> load_records (parse_body d) pb_version ''block body'' path 0 ls))"

definition load_persisted_blocks :: "block_externals \<Rightarrow> disk \<Rightarrow> string \<Rightarrow> ChainCache \<Rightarrow> NetworkError + Block list" where
  "load_persisted_blocks x d path s =
     (case cc_files s path of
        None \<Rightarrow> Inr []
      | Some ls \<Rightarrow>
          (case read_error d path of
             Some e \<Rightarrow> Inl (NetIO e)
           | None \<Rightarrow>
               and_then (load_records (parse_block d) ps_version ''block'' path 0 ls) (\<lambda>rs.
               let blocks = map snd (fold (\<lambda>r. height_insert (ps_number r) (into_block r s)) rs []) in
               case validate_persisted_block_chain x blocks of
                 Inl e \<Rightarrow> Inl (Serialization (''invalid persisted block chain in '' @ path @ '': '' @ e))
               | Inr _ \<Rightarrow> Inr blocks)))"

subsection \<open>Storing bodies and blocks\<close>

definition insert_body :: "BlockBodyRecord \<Rightarrow> ChainCache \<Rightarrow> ChainCache" where
  "insert_body r s =
     (let previous = cc_bodies s (bb_block_hash r);
          s = s\<lparr>cc_bodies := (cc_bodies s)(bb_block_hash r \<mapsto> r)\<rparr>;
          s = (case previous of Some p \<Rightarrow> remove_block_receipts (bd_receipts (bb_body p)) s | None \<Rightarrow> s)
      in case pop_stale (filter (\<lambda>h. h \<noteq> bb_block_hash r) (cc_body_order s) @ [bb_block_hash r]) of
        (stale, order) \<Rightarrow>
          index_block_receipts (bd_receipts (bb_body r)) (remove_block_bodies stale (s\<lparr>cc_body_order := order\<rparr>)))"

definition store_block_body :: "block_externals \<Rightarrow> disk \<Rightarrow> BlockBodyRecord \<Rightarrow> bool \<Rightarrow> unit net" where
  "store_block_body x d r persist =
     net_bind (\<lambda>s. net_of (validate_global_block_body_insert x r s) s) (\<lambda>_.
     net_bind (if persist then persist_global_block_body d r else net_return ()) (\<lambda>_.
     net_bind (net_modify (insert_body r)) (\<lambda>_.
     net_bind (net_get (global_block_by_hash (bb_block_hash r))) (\<lambda>stored.
     if stored \<noteq> None then update_global_block_body_commitments x r else net_return ()))))"

definition global_store_block_body :: "block_externals \<Rightarrow> disk \<Rightarrow> BlockBodyRecord \<Rightarrow> unit net" where
  "global_store_block_body x d r = store_block_body x d r True"

definition validate_global_block_insert :: "block_externals \<Rightarrow> Block \<Rightarrow> ChainCache \<Rightarrow> NetworkError + unit" where
  "validate_global_block_insert x block s =
     (let height = block_height block in
      case global_block_by_number height s of
        Some existing \<Rightarrow>
          if block_hash existing = block_hash block then Inr ()
          else Inl (ProtocolError (''conflicting block at height '' @ show_nat (unat height) @ '': existing='' @
                 show_hash x (block_hash existing) @ '' incoming='' @ show_hash x (block_hash block)))
      | None \<Rightarrow>
          if height = 0 then protocol_error (validate_persisted_block_chain x [block])
          else case global_block_by_number (saturating_sub height 1) s of
            Some parent \<Rightarrow> protocol_error (validate_block_against_parent x (bk_header parent) (bk_header block))
          | None \<Rightarrow>
              if height = 1 then protocol_error (validate_block_against_root x (bk_header block))
              else and_then
                (case bk_body block of
                   None \<Rightarrow> Inr ()
                 | Some body \<Rightarrow> body_error '''' (validate_against_header x body (bk_header block)))
                (\<lambda>_. Inl (ProtocolError (''missing parent block for height '' @ show_nat (unat height)))))"

text \<open>The first branch: the height is taken by a block with this hash.  The read guard of the lookup lives to the end of
  the \<open>if let\<close>.\<close>

definition set_body_at :: "u64 \<Rightarrow> BlockBody \<Rightarrow> (u64 \<times> Block) list \<Rightarrow> (u64 \<times> Block) list" where
  "set_body_at height body = map (\<lambda>(k, b). if k = height then (k, b\<lparr>bk_body := Some body\<rparr>) else (k, b))"

definition complete_block :: "block_externals \<Rightarrow> disk \<Rightarrow> u64 \<Rightarrow> Block \<Rightarrow> Block \<Rightarrow> bool net" where
  "complete_block x d height block existing =
     (case (bk_body existing, bk_body block) of
        (None, Some body) \<Rightarrow>
          net_bind (store_block_body x d (body_record_new height (block_hash block) body) False) (\<lambda>_.
          net_bind (write_blocks (set_body_at height body)) (\<lambda>_. net_return True))
      | _ \<Rightarrow> net_return True)"

definition store_existing :: "block_externals \<Rightarrow> disk \<Rightarrow> u64 \<Rightarrow> Block \<Rightarrow> bool net" where
  "store_existing x d height block s =
     (case global_block_by_number height s of
        None \<Rightarrow> net_return False s
      | Some existing \<Rightarrow>
          if block_hash existing = block_hash block
          then with_read_guard (complete_block x d height block existing) s
          else net_return False s)"

definition check_activation :: "u64 \<Rightarrow> Block \<Rightarrow> ChainCache \<Rightarrow> NetworkError + unit" where
  "check_activation height block s =
     (case cc_activation s of
        None \<Rightarrow> Inr ()
      | Some activation \<Rightarrow>
          if activation \<le> height \<and> h_version (bk_header block) < CANONICAL_BLOCK_VERSION
          then Inl (ProtocolError (''block version '' @ show_nat (unat (h_version (bk_header block))) @ '' is below canonical version '' @
                 show_nat (unat CANONICAL_BLOCK_VERSION) @ '' at activation height '' @ show_nat (unat activation)))
          else Inr ())"

definition commit_block :: "block_externals \<Rightarrow> u64 \<Rightarrow> Block \<Rightarrow> ChainCache \<Rightarrow> NetworkError + Block" where
  "commit_block x height block s =
     (let header = bk_header block in
      case bk_body block of
        Some body \<Rightarrow>
          let roots_were_zero = (h_transactions_root header = 0 \<and> h_receipts_root header = 0) in
          and_then (body_error ''block body commitment mismatch: '' (reconcile_body_commitments x header body)) (\<lambda>h.
          let h = (if roots_were_zero \<and> 0 < height then h\<lparr>h_mix_hash := compute_pow_hash x h (h_nonce h)\<rparr> else h);
              h = h\<lparr>h_hash := compute_hash x h\<rparr>
          in and_then (body_error ''block body validation failed: '' (validate_against_header x body h))
               (\<lambda>_. Inr (block\<lparr>bk_header := h\<rparr>)))
      | None \<Rightarrow>
          (case global_block_body_by_hash (h_hash header) s of
             Some r \<Rightarrow>
               and_then (body_error '''' (reconcile_body_commitments x header (bb_body r)))
                 (\<lambda>h. Inr (block\<lparr>bk_header := h, bk_body := Some (bb_body r)\<rparr>))
           | None \<Rightarrow>
               if global_block_requires_body height (h_version header) s
               then Inl (ProtocolError (''missing canonical block body for block '' @ show_hash x (h_hash header) @
                      '' at height '' @ show_nat (unat height)))
               else Inr block))"

definition raise_synced_height :: "u64 \<Rightarrow> ChainCache \<Rightarrow> ChainCache" where
  "raise_synced_height height s = (if cc_synced_height s < height then set_global_synced_height height s else s)"

definition store_own_body :: "block_externals \<Rightarrow> disk \<Rightarrow> u64 \<Rightarrow> Block \<Rightarrow> unit net" where
  "store_own_body x d height block =
     (case bk_body block of
        None \<Rightarrow> net_return ()
      | Some body \<Rightarrow> store_block_body x d (body_record_new height (block_hash block) body) False)"

definition store_fresh :: "block_externals \<Rightarrow> disk \<Rightarrow> u64 \<Rightarrow> Block \<Rightarrow> unit net" where
  "store_fresh x d height block =
     net_bind (\<lambda>s. net_of (check_activation height block s) s) (\<lambda>_.
     net_bind (\<lambda>s. net_of (commit_block x height block s) s) (\<lambda>block.
     net_bind (\<lambda>s. net_of (validate_global_block_insert x block s) s) (\<lambda>_.
     net_bind (persist_global_block d block) (\<lambda>_.
     net_bind (write_blocks (\<lambda>m. trim_blocks (height_insert height block m))) (\<lambda>_.
     net_bind (store_own_body x d height block) (\<lambda>_.
     net_modify (raise_synced_height height)))))))"

definition global_store_block :: "block_externals \<Rightarrow> disk \<Rightarrow> Block \<Rightarrow> unit net" where
  "global_store_block x d block =
     (let height = block_height block in
      net_bind (store_existing x d height block) (\<lambda>done.
      if done then net_return () else store_fresh x d height block))"

definition global_store_block_with_body :: "block_externals \<Rightarrow> disk \<Rightarrow> Block \<Rightarrow> BlockBody \<Rightarrow> unit net" where
  "global_store_block_with_body x d block body = global_store_block x d (block\<lparr>bk_body := Some body\<rparr>)"

subsection \<open>Replacing the tail of the chain\<close>

definition validate_global_block_chain_replacement :: "block_externals \<Rightarrow> Block list \<Rightarrow> ChainCache \<Rightarrow> NetworkError + unit" where
  "validate_global_block_chain_replacement x blocks s =
     (case blocks of
        [] \<Rightarrow> Inr ()
      | first # _ \<Rightarrow>
          let start = block_height first in
          if start = 0 then protocol_error (validate_persisted_block_chain x blocks)
          else and_then
            (if start = 1 then protocol_error (validate_block_against_root x (bk_header first))
             else case global_block_by_number (saturating_sub start 1) s of
               None \<Rightarrow> Inl (ProtocolError (''missing canonical parent for chain replacement at height '' @ show_nat (unat start)))
             | Some parent \<Rightarrow> protocol_error (validate_block_against_parent x (bk_header parent) (bk_header first)))
            (\<lambda>_. protocol_error (validate_pairs x blocks)))"

definition split_off :: "u64 \<Rightarrow> ChainCache \<Rightarrow> ChainCache" where
  "split_off start s =
     (let removed = map (\<lambda>(_, b). block_hash b) (filter (\<lambda>(k, _). start \<le> k) (cc_blocks s));
          s = s\<lparr>cc_blocks := filter (\<lambda>(k, _). k < start) (cc_blocks s)\<rparr>
      in if removed = [] then s else remove_block_bodies removed s)"

definition global_replace_block_chain :: "block_externals \<Rightarrow> disk \<Rightarrow> Block list \<Rightarrow> unit net" where
  "global_replace_block_chain x d blocks =
     (if blocks = [] then net_return ()
      else net_bind (\<lambda>s. net_of (validate_global_block_chain_replacement x blocks s) s) (\<lambda>_.
        net_bind (\<lambda>s. if cc_readers s = 0 then net_modify (split_off (block_height (hd blocks))) s else None) (\<lambda>_.
        net_each (global_store_block x d) blocks)))"

subsection \<open>Start-up and the caches of the last snapshot\<close>

definition load_bodies :: "block_externals \<Rightarrow> disk \<Rightarrow> string \<Rightarrow> unit net" where
  "load_bodies x d path =
     net_bind (\<lambda>s. net_of (load_persisted_block_bodies d path s) s)
       (net_each (\<lambda>p. store_block_body x d (into_block_body_record p) False))"

definition load_blocks :: "block_externals \<Rightarrow> disk \<Rightarrow> string \<Rightarrow> unit net" where
  "load_blocks x d path =
     net_bind (\<lambda>s. net_of (load_persisted_blocks x d path s) s) (\<lambda>loaded.
     if loaded = [] then net_return ()
     else
       let max_height = fold (\<lambda>b m. max m (block_height b)) loaded 0 in
       net_bind (write_blocks (\<lambda>m. trim_blocks (fold (\<lambda>b. height_insert (block_height b) b) loaded m))) (\<lambda>_.
       net_bind (net_get (\<lambda>s. map snd (cc_blocks s))) (\<lambda>snapshot.
       net_bind (net_each (\<lambda>b. store_own_body x d (block_height b) b) snapshot) (\<lambda>_.
       net_modify (\<lambda>s. set_global_synced_height (max (cc_synced_height s) max_height) s)))))"

definition configure_global_block_persistence :: "block_externals \<Rightarrow> disk \<Rightarrow> string option \<Rightarrow> unit net" where
  "configure_global_block_persistence x d path =
     net_bind (net_modify (\<lambda>s. s\<lparr>cc_block_path := path, cc_body_path := map_option (derive_block_body_sidecar_path d) path\<rparr>)) (\<lambda>_.
     case path of
       None \<Rightarrow> net_return ()
     | Some p \<Rightarrow>
         (case create_dir d p of
            Some e \<Rightarrow> net_of (Inl (NetIO e))
          | None \<Rightarrow>
              net_bind (load_bodies x d (derive_block_body_sidecar_path d p)) (\<lambda>_. load_blocks x d p)))"

definition global_reset_sync_cache :: "ChainCache \<Rightarrow> ChainCache" where
  "global_reset_sync_cache s =
     s\<lparr>cc_blocks := [], cc_bodies := Map.empty, cc_receipts := Map.empty, cc_body_order := [], cc_activation := None,
       cc_accounts := Map.empty, cc_compute_txs := Map.empty, cc_compute_order := [], cc_synced_height := 0\<rparr>"

definition global_record_account :: "Account \<Rightarrow> ChainCache \<Rightarrow> ChainCache" where
  "global_record_account a s = s\<lparr>cc_accounts := (cc_accounts s)(a_address a \<mapsto> a)\<rparr>"

definition global_replace_accounts :: "Account list \<Rightarrow> ChainCache \<Rightarrow> ChainCache" where
  "global_replace_accounts as s = s\<lparr>cc_accounts := fold (\<lambda>a m. m(a_address a \<mapsto> a)) as Map.empty\<rparr>"

definition global_synced_account :: "address \<Rightarrow> ChainCache \<Rightarrow> Account option" where
  "global_synced_account a s = cc_accounts s a"

fun pop_compute :: "hash list \<Rightarrow> (hash \<rightharpoonup> SyncComputeTxRecord) \<Rightarrow> hash list \<times> (hash \<rightharpoonup> SyncComputeTxRecord)" where
  "pop_compute [] m = ([], m)"
| "pop_compute (h # order) m =
     (if MAX_GLOBAL_SYNC_TX_INDEX < length (h # order) then pop_compute order (m(h := None)) else (h # order, m))"

definition global_record_compute_tx :: "SyncComputeTxRecord \<Rightarrow> ChainCache \<Rightarrow> ChainCache" where
  "global_record_compute_tx r s =
     (let h = sc_tx_hash r in
      case pop_compute (filter (\<lambda>k. k \<noteq> h) (cc_compute_order s) @ [h]) ((cc_compute_txs s)(h \<mapsto> r)) of
        (order, m) \<Rightarrow> s\<lparr>cc_compute_txs := m, cc_compute_order := order\<rparr>)"

definition global_replace_compute_txs :: "SyncComputeTxRecord list \<Rightarrow> ChainCache \<Rightarrow> ChainCache" where
  "global_replace_compute_txs rs s =
     s\<lparr>cc_compute_txs := fold (\<lambda>r m. m(sc_tx_hash r \<mapsto> r)) rs Map.empty, cc_compute_order := map sc_tx_hash rs\<rparr>"

definition global_synced_compute_tx :: "hash \<Rightarrow> ChainCache \<Rightarrow> SyncComputeTxRecord option" where
  "global_synced_compute_tx h s = cc_compute_txs s h"

definition global_synced_compute_txs :: "ChainCache \<Rightarrow> SyncComputeTxRecord list" where
  "global_synced_compute_txs s = List.map_filter (cc_compute_txs s) (cc_compute_order s)"

end
