(* ===== verification/ChainStore.thy ===== *)
theory ChainStore
  imports CanonicalChain
begin

section \<open>The canonical chain stays coherent\<close>

text \<open>
  Heights, bodies and receipts of the process-wide chain stay coherent and bounded along every sequence of calls, failed
  ones included.  A predicate that an operation keeps whatever its result is \<open>keeps\<close>; its rules for sequencing, loops, locks and
  early returns are collected in \<open>keeps_intro\<close>.
\<close>

subsection \<open>Preserved predicates\<close>

definition keeps :: "(ChainCache \<Rightarrow> bool) \<Rightarrow> 'a net \<Rightarrow> bool" where
  "keeps I m \<longleftrightarrow> (\<forall>s r t. I s \<longrightarrow> m s = Some (r, t) \<longrightarrow> I t)"

named_theorems keeps_intro

lemma net_bind_Some:
  "net_bind m k s = Some (r, t) \<longleftrightarrow>
     (\<exists>e. m s = Some (Inl e, t) \<and> r = Inl e) \<or> (\<exists>a u. m s = Some (Inr a, u) \<and> k a u = Some (r, t))"
  by (auto simp: net_bind_def split: option.splits sum.splits)

lemma net_bindE:
  assumes "net_bind m k s = Some (r, t)"
  obtains (fail) e where "m s = Some (Inl e, t)" "r = Inl e" | (ok) a u where "m s = Some (Inr a, u)" "k a u = Some (r, t)"
  using assms by (auto simp: net_bind_Some)

lemma keepsD: "keeps I m \<Longrightarrow> m s = Some (r, t) \<Longrightarrow> I s \<Longrightarrow> I t"
  by (auto simp: keeps_def)

lemma keeps_return [keeps_intro]: "keeps I (net_return a)"
  by (simp add: keeps_def net_return_def)

lemma keeps_of [keeps_intro]: "keeps I (\<lambda>s. net_of (f s) s)" "keeps I (net_of r)"
  by (simp_all add: keeps_def net_of_def)

lemma keeps_get [keeps_intro]: "keeps I (net_get f)"
  by (simp add: keeps_def net_get_def)

lemma keeps_modify: "(\<And>s. I s \<Longrightarrow> I (f s)) \<Longrightarrow> keeps I (net_modify f)"
  by (simp add: keeps_def net_modify_def)

lemma keeps_bind_value:
  assumes "keeps I m" "\<And>a s t. m s = Some (Inr a, t) \<Longrightarrow> keeps I (k a)"
  shows "keeps I (net_bind m k)"
  unfolding keeps_def net_bind_Some using assms by (meson keepsD)

lemma keeps_bind [keeps_intro]: "keeps I m \<Longrightarrow> (\<And>a. keeps I (k a)) \<Longrightarrow> keeps I (net_bind m k)"
  by (rule keeps_bind_value)

lemma keeps_each [keeps_intro]: "(\<And>a. a \<in> set as \<Longrightarrow> keeps I (f a)) \<Longrightarrow> keeps I (net_each f as)"
  by (induction as) (auto intro: keeps_intro)

lemma keeps_if [keeps_intro]: "(b \<Longrightarrow> keeps I m) \<Longrightarrow> (\<not> b \<Longrightarrow> keeps I n) \<Longrightarrow> keeps I (if b then m else n)"
  by simp

lemma keeps_write: "(\<And>s. I s \<Longrightarrow> I (s\<lparr>cc_blocks := f (cc_blocks s)\<rparr>)) \<Longrightarrow> keeps I (write_blocks f)"
  by (auto simp: keeps_def write_blocks_def split: if_splits)

lemma keeps_guard:
  assumes "keeps J m" "\<And>s. I s \<Longrightarrow> J (s\<lparr>cc_readers := cc_readers s + 1\<rparr>)" "\<And>t. J t \<Longrightarrow> I (t\<lparr>cc_readers := cc_readers t - 1\<rparr>)"
  shows "keeps I (with_read_guard m)"
  using assms unfolding keeps_def with_read_guard_def by (fastforce split: option.splits)

subsection \<open>Blocks by height\<close>

abbreviation heights :: "(u64 \<times> Block) list \<Rightarrow> u64 list" where "heights m \<equiv> map fst m"

definition heights_ok :: "(u64 \<times> Block) list \<Rightarrow> bool" where
  "heights_ok m \<longleftrightarrow> sorted_wrt (<) (heights m) \<and> (\<forall>(k, b) \<in> set m. block_height b = k)"

lemma set_height_insert: "set (height_insert k b m) \<subseteq> insert (k, b) (set m)"
  by (induction k b m rule: height_insert.induct) auto

lemma keys_height_insert: "set (heights (height_insert k b m)) = insert k (set (heights m))"
  by (induction k b m rule: height_insert.induct) auto

lemma sorted_height_insert: "sorted_wrt (<) (heights m) \<Longrightarrow> sorted_wrt (<) (heights (height_insert k b m))"
proof (induction k b m rule: height_insert.induct)
  case (2 k b k' b' m)
  have "set (heights (height_insert k b m)) = insert k (set (heights m))" by (rule keys_height_insert)
  then show ?case using 2 by (auto simp del: set_map)
qed simp

lemma map_of_height_insert:
  "sorted_wrt (<) (heights m) \<Longrightarrow> map_of (height_insert k b m) = (map_of m)(k \<mapsto> b)"
  by (induction k b m rule: height_insert.induct) (auto simp: fun_eq_iff)

lemma heights_ok_insert: "heights_ok m \<Longrightarrow> block_height b = k \<Longrightarrow> heights_ok (height_insert k b m)"
  using set_height_insert [of k b m] by (fastforce simp: heights_ok_def sorted_height_insert)

lemma trim_blocks_drop: "trim_blocks m = drop (length m - MAX_GLOBAL_BLOCKS) m"
  by (induction m) (auto simp: Suc_diff_le)

lemma trim_blocks_bound: "length (trim_blocks m) \<le> MAX_GLOBAL_BLOCKS"
  by (simp add: trim_blocks_drop)

lemma heights_ok_trim: "heights_ok m \<Longrightarrow> heights_ok (trim_blocks m)"
  by (auto simp: heights_ok_def trim_blocks_drop sorted_wrt_drop drop_map [symmetric] dest: in_set_dropD)

lemma heights_ok_filter: "heights_ok m \<Longrightarrow> heights_ok (filter P m)"
  by (induction m) (auto simp: heights_ok_def)

lemma heights_update_first [simp]: "heights (update_first P f m) = heights m" "length (update_first P f m) = length m"
  by (induction P f m rule: update_first.induct) auto

lemma heights_ok_update_first:
  "heights_ok m \<Longrightarrow> (\<And>b. block_height (f b) = block_height b) \<Longrightarrow> heights_ok (update_first P f m)"
  by (induction P f m rule: update_first.induct) (auto simp: heights_ok_def)

lemma commit_body_simps [simp]:
  "block_height (commit_body x body b) = block_height b" "block_hash (commit_body x body b) = block_hash b"
  "bk_body (commit_body x body b) = Some body"
  by (simp_all add: commit_body_def block_height_def block_hash_def Let_def)

lemma heights_set_body_at [simp]: "heights (set_body_at k body m) = heights m" "length (set_body_at k body m) = length m"
  by (induction m) (auto simp: set_body_at_def)

lemma heights_ok_set_body_at: "heights_ok m \<Longrightarrow> heights_ok (set_body_at k body m)"
  unfolding heights_ok_def heights_set_body_at by (fastforce simp: set_body_at_def block_height_def split: if_splits)

subsection \<open>Bodies and receipts\<close>

definition receipts_ok :: "ChainCache \<Rightarrow> bool" where
  "receipts_ok s \<longleftrightarrow>
     (\<forall>t r. cc_receipts s t = Some r \<longrightarrow>
        receipt_key r = t \<and> (\<exists>h b. cc_bodies s h = Some b \<and> r \<in> set (bd_receipts (bb_body b))))"

definition bodies_ok :: "ChainCache \<Rightarrow> bool" where
  "bodies_ok s \<longleftrightarrow>
     distinct (cc_body_order s) \<and> set (cc_body_order s) = dom (cc_bodies s) \<and> length (cc_body_order s) \<le> MAX_GLOBAL_BLOCK_BODIES \<and>
     (\<forall>h r. cc_bodies s h = Some r \<longrightarrow> bb_block_hash r = h)"

lemma fold_remove_keys: "fold (\<lambda>r m. m(f r := None)) rs m t = (if t \<in> f ` set rs then None else m t)"
  by (induction rs arbitrary: m) auto

lemma fold_index_Some:
  "fold (\<lambda>r m. m(f r \<mapsto> r)) rs m t = Some r \<Longrightarrow> (r \<in> set rs \<and> f r = t) \<or> m t = Some r"
proof (induction rs arbitrary: m)
  case (Cons a rs)
  from Cons.IH [of "m(f a \<mapsto> a)"] Cons.prems show ?case by (auto split: if_splits)
qed simp

lemma remove_block_receipts_simps [simp]:
  "cc_bodies (remove_block_receipts rs s) = cc_bodies s" "cc_blocks (remove_block_receipts rs s) = cc_blocks s"
  "cc_body_order (remove_block_receipts rs s) = cc_body_order s" "cc_readers (remove_block_receipts rs s) = cc_readers s"
  "cc_receipts (remove_block_receipts rs s) t = (if t \<in> receipt_key ` set rs then None else cc_receipts s t)"
  by (simp_all add: remove_block_receipts_def fold_remove_keys)

lemma index_block_receipts_simps [simp]:
  "cc_bodies (index_block_receipts rs s) = cc_bodies s" "cc_blocks (index_block_receipts rs s) = cc_blocks s"
  "cc_body_order (index_block_receipts rs s) = cc_body_order s" "cc_readers (index_block_receipts rs s) = cc_readers s"
  by (simp_all add: index_block_receipts_def)

lemma remove_block_bodies_simps [simp]:
  "cc_bodies (remove_block_bodies hs s) h = (if h \<in> set hs then None else cc_bodies s h)"
  "cc_body_order (remove_block_bodies hs s) = filter (\<lambda>h. h \<notin> set hs) (cc_body_order s)"
  "cc_blocks (remove_block_bodies hs s) = cc_blocks s" "cc_readers (remove_block_bodies hs s) = cc_readers s"
  using fold_remove_keys [of "\<lambda>h. h" hs "cc_bodies s" h] by (simp_all add: remove_block_bodies_def Let_def)

lemma removed_receipts:
  "cc_receipts (remove_block_bodies hs s) t = Some r \<longleftrightarrow>
     cc_receipts s t = Some r \<and>
     (\<forall>h \<in> set hs. \<forall>b. cc_bodies s h = Some b \<longrightarrow> t \<notin> receipt_key ` set (bd_receipts (bb_body b)))"
proof -
  have "set (concat (map (\<lambda>r. bd_receipts (bb_body r)) (List.map_filter (cc_bodies s) hs))) =
      {r. \<exists>h \<in> set hs. \<exists>b. cc_bodies s h = Some b \<and> r \<in> set (bd_receipts (bb_body b))}"
    by (force simp: map_filter_def)
  then show ?thesis by (simp add: remove_block_bodies_def Let_def del: set_concat) blast
qed

lemma receipts_ok_remove: "receipts_ok s \<Longrightarrow> receipts_ok (remove_block_bodies hs s)"
  unfolding receipts_ok_def removed_receipts remove_block_bodies_simps by (metis image_eqI)

lemma bodies_ok_remove: "bodies_ok s \<Longrightarrow> bodies_ok (remove_block_bodies hs s)"
  unfolding bodies_ok_def by (auto simp: dom_def intro: le_trans [OF length_filter_le] split: if_splits)

lemma pop_stale_split:
  "pop_stale order = (take (length order - MAX_GLOBAL_BLOCK_BODIES) order, drop (length order - MAX_GLOBAL_BLOCK_BODIES) order)"
  by (induction order) (auto simp: Suc_diff_le)

lemma receipts_ok_replace:
  assumes "receipts_ok s"
  shows "receipts_ok (case cc_bodies s h of
      Some p \<Rightarrow> remove_block_receipts (bd_receipts (bb_body p)) (s\<lparr>cc_bodies := (cc_bodies s)(h \<mapsto> r)\<rparr>)
    | None \<Rightarrow> s\<lparr>cc_bodies := (cc_bodies s)(h \<mapsto> r)\<rparr>)"
proof (cases "cc_bodies s h")
  case None
  then show ?thesis using assms by (simp add: receipts_ok_def) (metis option.distinct(1))
next
  case (Some p)
  then show ?thesis using assms by (simp add: receipts_ok_def) (metis image_eqI option.inject)
qed

lemma receipts_ok_index:
  assumes "receipts_ok s" "cc_bodies s h = Some b" "rs = bd_receipts (bb_body b)"
  shows "receipts_ok (index_block_receipts rs s)"
  unfolding receipts_ok_def
proof (intro allI impI)
  fix t r
  assume "cc_receipts (index_block_receipts rs s) t = Some r"
  then have "(r \<in> set rs \<and> receipt_key r = t) \<or> cc_receipts s t = Some r"
    by (auto simp: index_block_receipts_def dest: fold_index_Some)
  then show "receipt_key r = t \<and> (\<exists>h b. cc_bodies (index_block_receipts rs s) h = Some b \<and> r \<in> set (bd_receipts (bb_body b)))"
    using assms by (auto simp: receipts_ok_def)
qed

definition replace_body :: "BlockBodyRecord \<Rightarrow> ChainCache \<Rightarrow> ChainCache" where
  "replace_body r s =
     (case cc_bodies s (bb_block_hash r) of
        Some p \<Rightarrow> remove_block_receipts (bd_receipts (bb_body p)) (s\<lparr>cc_bodies := (cc_bodies s)(bb_block_hash r \<mapsto> r)\<rparr>)
      | None \<Rightarrow> s\<lparr>cc_bodies := (cc_bodies s)(bb_block_hash r \<mapsto> r)\<rparr>)"

lemma replace_body_simps [simp]:
  "cc_bodies (replace_body r s) = (cc_bodies s)(bb_block_hash r \<mapsto> r)" "cc_blocks (replace_body r s) = cc_blocks s"
  "cc_body_order (replace_body r s) = cc_body_order s" "cc_readers (replace_body r s) = cc_readers s"
  by (simp_all add: replace_body_def split: option.split)

definition order_after :: "BlockBodyRecord \<Rightarrow> ChainCache \<Rightarrow> hash list" where
  "order_after r s = filter (\<lambda>h. h \<noteq> bb_block_hash r) (cc_body_order s) @ [bb_block_hash r]"

lemma insert_body_steps:
  "insert_body r s =
     (let n = length (order_after r s) - MAX_GLOBAL_BLOCK_BODIES in
      index_block_receipts (bd_receipts (bb_body r))
        (remove_block_bodies (take n (order_after r s)) ((replace_body r s)\<lparr>cc_body_order := drop n (order_after r s)\<rparr>)))"
proof -
  have "cc_body_order (case cc_bodies s (bb_block_hash r) of
      None \<Rightarrow> s\<lparr>cc_bodies := (cc_bodies s)(bb_block_hash r \<mapsto> r)\<rparr>
    | Some p \<Rightarrow> remove_block_receipts (bd_receipts (bb_body p)) (s\<lparr>cc_bodies := (cc_bodies s)(bb_block_hash r \<mapsto> r)\<rparr>)) = cc_body_order s"
    by (simp split: option.split)
  then show ?thesis by (simp add: insert_body_def Let_def pop_stale_split order_after_def replace_body_def)
qed

lemma receipts_ok_order [simp]: "receipts_ok (s\<lparr>cc_body_order := order\<rparr>) = receipts_ok s"
  by (simp add: receipts_ok_def)

lemma last_not_stale:
  assumes "bodies_ok s"
  shows "bb_block_hash r \<notin> set (take (length (order_after r s) - MAX_GLOBAL_BLOCK_BODIES) (order_after r s))"
proof -
  have "length (order_after r s) - MAX_GLOBAL_BLOCK_BODIES \<le> length (filter (\<lambda>h. h \<noteq> bb_block_hash r) (cc_body_order s))"
    by (simp add: order_after_def MAX_GLOBAL_BLOCK_BODIES_def)
  then show ?thesis by (auto simp: order_after_def dest: in_set_takeD)
qed

lemma insert_body_simps [simp]:
  "cc_blocks (insert_body r s) = cc_blocks s" "cc_readers (insert_body r s) = cc_readers s"
  by (simp_all add: insert_body_steps Let_def)

lemma insert_body_ok:
  assumes "bodies_ok s" "receipts_ok s"
  shows "bodies_ok (insert_body r s)" "receipts_ok (insert_body r s)" "cc_bodies (insert_body r s) (bb_block_hash r) = Some r"
proof -
  let ?o = "order_after r s" and ?n = "length (order_after r s) - MAX_GLOBAL_BLOCK_BODIES"
  let ?t = "(replace_body r s)\<lparr>cc_body_order := drop ?n ?o\<rparr>" and ?u = "remove_block_bodies (take ?n ?o) ((replace_body r s)\<lparr>cc_body_order := drop ?n ?o\<rparr>)"
  have o: "distinct ?o" "set ?o = dom (cc_bodies (replace_body r s))"
    using assms(1) by (auto simp: bodies_ok_def order_after_def)
  have parts: "set (take ?n ?o) \<union> set (drop ?n ?o) = set ?o" "set (take ?n ?o) \<inter> set (drop ?n ?o) = {}"
    using set_append [of "take ?n ?o" "drop ?n ?o"] set_take_disj_set_drop_if_distinct [OF o(1), of ?n ?n]
    by (simp_all del: set_append)
  have keep: "filter (\<lambda>h. h \<notin> set (take ?n ?o)) (drop ?n ?o) = drop ?n ?o"
    using parts(2) by (auto simp: filter_id_conv)
  have dom: "dom (cc_bodies ?u) = set ?o - set (take ?n ?o)"
    unfolding o(2) by (auto simp: dom_def split: if_splits)
  have h: "cc_bodies ?u (bb_block_hash r) = Some r" using last_not_stale [OF assms(1), of r] by simp
  have r: "receipts_ok ?u"
    using receipts_ok_replace [OF assms(2)] by (intro receipts_ok_remove) (simp add: replace_body_def)
  have ok: "\<forall>h q. cc_bodies ?u h = Some q \<longrightarrow> bb_block_hash q = h"
    using assms(1) by (auto simp: bodies_ok_def split: if_splits)
  have b: "bodies_ok ?u" unfolding bodies_ok_def
  proof (intro conjI ok)
    show "distinct (cc_body_order ?u)" using o(1) by simp
    show "set (cc_body_order ?u) = dom (cc_bodies ?u)"
      unfolding dom using parts by (simp add: keep) blast
    show "length (cc_body_order ?u) \<le> MAX_GLOBAL_BLOCK_BODIES" by (simp add: keep)
  qed
  have e: "insert_body r s = index_block_receipts (bd_receipts (bb_body r)) ?u" by (simp add: insert_body_steps Let_def)
  show "cc_bodies (insert_body r s) (bb_block_hash r) = Some r" using h by (simp add: e)
  show "receipts_ok (insert_body r s)" unfolding e by (rule receipts_ok_index [OF r h refl])
  show "bodies_ok (insert_body r s)" using b by (simp add: e bodies_ok_def)
qed

subsection \<open>The cache stays coherent\<close>

definition coherent :: "ChainCache \<Rightarrow> bool" where
  "coherent s \<longleftrightarrow>
     heights_ok (cc_blocks s) \<and> length (cc_blocks s) \<le> MAX_GLOBAL_BLOCKS \<and> bodies_ok s \<and> receipts_ok s"

text \<open>The predicate carried through the operations: coherent, with \<open>n\<close> read guards alive.\<close>

definition coherent_at :: "nat \<Rightarrow> ChainCache \<Rightarrow> bool" where
  "coherent_at n s \<longleftrightarrow> coherent s \<and> cc_readers s = n"

lemma coherent_readers [simp]: "coherent (s\<lparr>cc_readers := m\<rparr>) = coherent s"
  by (simp add: coherent_def bodies_ok_def receipts_ok_def)

lemma coherent_at_files [simp]:
  "coherent_at n (s\<lparr>cc_files := f\<rparr>) = coherent_at n s" "coherent_at n (s\<lparr>cc_synced_height := h\<rparr>) = coherent_at n s"
  "coherent_at n (s\<lparr>cc_block_path := p, cc_body_path := q\<rparr>) = coherent_at n s"
  "coherent_at n (s\<lparr>cc_activation := a\<rparr>) = coherent_at n s" "coherent_at n (s\<lparr>cc_accounts := as\<rparr>) = coherent_at n s"
  "coherent_at n (s\<lparr>cc_compute_txs := m, cc_compute_order := order\<rparr>) = coherent_at n s"
  by (simp_all add: coherent_at_def coherent_def bodies_ok_def receipts_ok_def)

lemma coherent_at_blocks:
  assumes "coherent_at n s" "heights_ok m" "length m \<le> MAX_GLOBAL_BLOCKS"
  shows "coherent_at n (s\<lparr>cc_blocks := m\<rparr>)"
  using assms by (simp add: coherent_at_def coherent_def bodies_ok_def receipts_ok_def)

lemma coherent_at_blocksD: "coherent_at n s \<Longrightarrow> heights_ok (cc_blocks s) \<and> length (cc_blocks s) \<le> MAX_GLOBAL_BLOCKS"
  by (simp add: coherent_at_def coherent_def)

lemma keeps_append [keeps_intro]: "keeps (coherent_at n) (\<lambda>s. append_line d (p s) (l s) s)"
  by (auto simp: keeps_def append_line_def Let_def split: option.splits)

lemma keeps_persist [keeps_intro]:
  "keeps (coherent_at n) (persist_global_block d b)" "keeps (coherent_at n) (persist_global_block_body d r)"
  unfolding persist_global_block_def [abs_def] persist_global_block_body_def [abs_def] by (rule keeps_append)+

lemma coherent_at_insert_body: "coherent_at n s \<Longrightarrow> coherent_at n (insert_body r s)"
  using insert_body_ok [of s r] by (simp add: coherent_at_def coherent_def)

lemma keeps_update [keeps_intro]: "keeps (coherent_at n) (update_global_block_body_commitments x r)"
  by (auto simp: keeps_def update_global_block_body_commitments_def split: if_splits
      intro!: coherent_at_blocks heights_ok_update_first dest: coherent_at_blocksD)

lemma keeps_store_block_body [keeps_intro]: "keeps (coherent_at n) (store_block_body x d r persist)"
  unfolding store_block_body_def
  by (intro keeps_intro keeps_modify coherent_at_insert_body) simp_all

lemma keeps_write_set_body [keeps_intro]: "keeps (coherent_at n) (write_blocks (set_body_at k body))"
  by (intro keeps_write coherent_at_blocks) (auto intro: heights_ok_set_body_at dest: coherent_at_blocksD)

lemma keeps_write_insert:
  "block_height b = k \<Longrightarrow> keeps (coherent_at n) (write_blocks (\<lambda>m. trim_blocks (height_insert k b m)))"
  by (intro keeps_write coherent_at_blocks) (auto intro: heights_ok_insert heights_ok_trim trim_blocks_bound dest: coherent_at_blocksD)

lemma keeps_complete [keeps_intro]: "keeps (coherent_at n) (complete_block x d k b e)"
  by (auto simp: complete_block_def split: option.split intro!: keeps_intro)

lemma keeps_existing [keeps_intro]: "keeps (coherent_at n) (store_existing x d k b)"
proof -
  have "keeps (coherent_at n) (with_read_guard (complete_block x d k b e))" for e
    by (rule keeps_guard [OF keeps_complete [of "n + 1"]]) (auto simp: coherent_at_def)
  then show ?thesis unfolding keeps_def store_existing_def by (auto simp: net_return_def split: option.splits if_splits)
qed

lemma commit_block_height:
  "commit_block x k b s = Inr c \<Longrightarrow> block_height c = block_height b"
  by (auto simp: commit_block_def Let_def block_height_def body_error_def reconcile_body_commitments_def apply_body_commitments_def
      result_simps split: option.splits sum.splits if_splits)

lemma keeps_own_body [keeps_intro]: "keeps (coherent_at n) (store_own_body x d k b)"
  by (auto simp: store_own_body_def intro: keeps_intro split: option.split)

lemma keeps_fresh [keeps_intro]: "keeps (coherent_at n) (store_fresh x d (block_height b) b)"
  unfolding store_fresh_def
proof (rule keeps_bind [OF keeps_of(1)], rule keeps_bind_value [OF keeps_of(1)])
  fix u c s t
  assume "net_of (commit_block x (block_height b) b s) s = Some (Inr c, t)"
  then have "block_height c = block_height b" by (auto simp: net_of_def dest: commit_block_height)
  from keeps_write_insert [OF this]
  show "keeps (coherent_at n)
    (net_bind (\<lambda>s. net_of (validate_global_block_insert x c s) s) (\<lambda>_.
     net_bind (persist_global_block d c) (\<lambda>_.
     net_bind (write_blocks (\<lambda>m. trim_blocks (height_insert (block_height b) c m))) (\<lambda>_.
     net_bind (store_own_body x d (block_height b) c) (\<lambda>_.
     net_modify (raise_synced_height (block_height b)))))))"
    by (intro keeps_intro keeps_modify) (simp_all add: raise_synced_height_def set_global_synced_height_def)
qed

lemma keeps_store_block [keeps_intro]: "keeps (coherent_at n) (global_store_block x d b)"
  unfolding global_store_block_def Let_def by (intro keeps_intro)

lemma coherent_at_split_off: "coherent_at n s \<Longrightarrow> coherent_at n (split_off k s)"
proof -
  assume c: "coherent_at n s"
  have l: "length (filter P (cc_blocks s)) \<le> MAX_GLOBAL_BLOCKS" for P
    using coherent_at_blocksD [OF c] length_filter_le [of P "cc_blocks s"] by linarith
  have b: "coherent_at n (s\<lparr>cc_blocks := filter P (cc_blocks s)\<rparr>)" for P
    using c by (intro coherent_at_blocks heights_ok_filter l) (simp_all add: coherent_at_blocksD)
  then have "coherent_at n (remove_block_bodies hs (s\<lparr>cc_blocks := filter P (cc_blocks s)\<rparr>))" for hs P
    using b [of P] unfolding coherent_at_def coherent_def by (simp add: bodies_ok_remove receipts_ok_remove)
  then show ?thesis using b by (simp add: split_off_def Let_def)
qed

lemma keeps_replace [keeps_intro]: "keeps (coherent_at n) (global_replace_block_chain x d bs)"
proof -
  have "keeps (coherent_at n) (\<lambda>s. if cc_readers s = 0 then net_modify (split_off k) s else None)" for k
    using coherent_at_split_off by (auto simp: keeps_def net_modify_def split: if_splits)
  then show ?thesis unfolding global_replace_block_chain_def by (intro keeps_intro)
qed

lemma keeps_load_bodies [keeps_intro]: "keeps (coherent_at n) (load_bodies x d path)"
  unfolding load_bodies_def by (intro keeps_intro)

lemma heights_ok_inserts: "heights_ok m \<Longrightarrow> heights_ok (fold (\<lambda>b. height_insert (block_height b) b) bs m)"
  by (induction bs arbitrary: m) (auto intro: heights_ok_insert)

lemma keeps_write_loaded [keeps_intro]:
  "keeps (coherent_at n) (write_blocks (\<lambda>m. trim_blocks (fold (\<lambda>b. height_insert (block_height b) b) bs m)))"
  by (intro keeps_write coherent_at_blocks) (auto intro: heights_ok_inserts heights_ok_trim trim_blocks_bound dest: coherent_at_blocksD)

lemma keeps_load_blocks [keeps_intro]: "keeps (coherent_at n) (load_blocks x d path)"
  unfolding load_blocks_def Let_def by (intro keeps_intro keeps_modify) (simp_all add: set_global_synced_height_def)

lemma keeps_configure [keeps_intro]: "keeps (coherent_at n) (configure_global_block_persistence x d path)"
  unfolding configure_global_block_persistence_def
  by (intro keeps_bind keeps_modify) (auto intro: keeps_intro split: option.split)

lemma coherent_at_reset: "coherent_at n s \<Longrightarrow> coherent_at n (global_reset_sync_cache s)"
  by (simp add: coherent_at_def coherent_def global_reset_sync_cache_def heights_ok_def bodies_ok_def receipts_ok_def)

text \<open>The calls of the crate that change the cache, and the caches they reach from a start with arbitrary files.\<close>

datatype chain_call =
    StoreBlock Block
  | StoreBlockWithBody Block BlockBody
  | StoreBlockBody BlockBodyRecord
  | ReplaceChain "Block list"
  | ConfigurePersistence "string option"
  | ConfigureActivation "u64 option"
  | SetSyncedHeight u64
  | ResetCache
  | RecordAccount Account
  | ReplaceAccounts "Account list"
  | RecordComputeTx SyncComputeTxRecord
  | ReplaceComputeTxs "SyncComputeTxRecord list"

fun perform :: "block_externals \<Rightarrow> disk \<Rightarrow> chain_call \<Rightarrow> unit net" where
  "perform x d (StoreBlock b) = global_store_block x d b"
| "perform x d (StoreBlockWithBody b body) = global_store_block_with_body x d b body"
| "perform x d (StoreBlockBody r) = global_store_block_body x d r"
| "perform x d (ReplaceChain bs) = global_replace_block_chain x d bs"
| "perform x d (ConfigurePersistence p) = configure_global_block_persistence x d p"
| "perform x d (ConfigureActivation a) = net_modify (configure_global_block_activation_height a)"
| "perform x d (SetSyncedHeight h) = net_modify (set_global_synced_height h)"
| "perform x d ResetCache = net_modify global_reset_sync_cache"
| "perform x d (RecordAccount a) = net_modify (global_record_account a)"
| "perform x d (ReplaceAccounts as) = net_modify (global_replace_accounts as)"
| "perform x d (RecordComputeTx r) = net_modify (global_record_compute_tx r)"
| "perform x d (ReplaceComputeTxs rs) = net_modify (global_replace_compute_txs rs)"

inductive reached :: "block_externals \<Rightarrow> disk \<Rightarrow> ChainCache \<Rightarrow> bool" for x d where
  start: "reached x d (cache_new\<lparr>cc_files := files\<rparr>)"
| call: "reached x d s \<Longrightarrow> perform x d c s = Some (r, t) \<Longrightarrow> reached x d t"

lemma keeps_perform: "keeps (coherent_at n) (perform x d c)"
  by (cases c) (auto simp: global_store_block_with_body_def global_store_block_body_def configure_global_block_activation_height_def
      set_global_synced_height_def global_record_account_def global_replace_accounts_def global_record_compute_tx_def
      global_replace_compute_txs_def Let_def coherent_at_reset split: prod.split intro!: keeps_intro keeps_modify)

lemma reached_coherent: "reached x d s \<Longrightarrow> coherent_at 0 s"
proof (induction rule: reached.induct)
  case (start files)
  have "coherent_at 0 cache_new"
    by (simp add: cache_new_def coherent_at_def coherent_def heights_ok_def bodies_ok_def receipts_ok_def)
  then show ?case by simp
qed (rule keepsD [OF keeps_perform])

end
