(* ===== verification/ChainLinks.thy ===== *)
theory ChainLinks
  imports ChainStore
begin

section \<open>Links between stored blocks\<close>

text \<open>
  Neighbouring blocks of the process-wide chain stay linked while no block is evicted.  What matters of the blocks is a
  view, their heights with hash, parent hash and time, which bodies do not change.
\<close>

subsection \<open>The view of the blocks\<close>

definition link_of :: "Block \<Rightarrow> hash \<times> hash \<times> u64" where
  "link_of b = (block_hash b, h_parent_hash (bk_header b), h_timestamp (bk_header b))"

definition links :: "(u64 \<times> Block) list \<Rightarrow> u64 \<Rightarrow> (hash \<times> hash \<times> u64) option" where
  "links m n = map_option link_of (map_of m n)"

definition view :: "(u64 \<times> Block) list \<Rightarrow> u64 list \<times> (u64 \<Rightarrow> (hash \<times> hash \<times> u64) option)" where
  "view m = (heights m, links m)"

definition follows :: "hash \<times> hash \<times> u64 \<Rightarrow> hash \<times> hash \<times> u64 \<Rightarrow> bool" where
  "follows p c \<longleftrightarrow> (fst (snd c) = fst p \<or> fst p = 0) \<and> snd (snd p) \<le> snd (snd c)"

definition linked :: "(u64 \<Rightarrow> (hash \<times> hash \<times> u64) option) \<Rightarrow> bool" where
  "linked l \<longleftrightarrow>
     (\<forall>n \<ge> 2. l n \<noteq> None \<longrightarrow> l (n - 1) \<noteq> None) \<and>
     (\<forall>n \<ge> 2. \<forall>p c. l (n - 1) = Some p \<longrightarrow> l n = Some c \<longrightarrow> follows p c)"

lemma link_of_commit [simp]: "link_of (commit_body x body b) = link_of b"
  by (simp add: link_of_def commit_body_def block_hash_def Let_def)

lemma view_update_first: "(\<And>b. link_of (f b) = link_of b) \<Longrightarrow> view (update_first P f m) = view m"
  by (induction P f m rule: update_first.induct) (auto simp: view_def links_def fun_eq_iff)

lemma links_set_body_at: "links (set_body_at k body m) n = links m n"
proof (induction m)
  case (Cons p m)
  then show ?case by (cases p) (simp add: links_def set_body_at_def link_of_def block_hash_def)
qed (simp add: set_body_at_def)

lemma view_set_body_at: "view (set_body_at k body m) = view m"
  by (simp add: view_def links_set_body_at fun_eq_iff)

definition viewed :: "u64 list \<times> (u64 \<Rightarrow> (hash \<times> hash \<times> u64) option) \<Rightarrow> ChainCache \<Rightarrow> bool" where
  "viewed v s \<longleftrightarrow> view (cc_blocks s) = v"

lemma viewed_append [keeps_intro]: "keeps (viewed v) (\<lambda>s. append_line d (p s) (l s) s)"
  by (auto simp: keeps_def append_line_def viewed_def Let_def split: option.splits)

lemma viewed_persist [keeps_intro]:
  "keeps (viewed v) (persist_global_block d b)" "keeps (viewed v) (persist_global_block_body d r)"
  unfolding persist_global_block_def [abs_def] persist_global_block_body_def [abs_def] by (rule viewed_append)+

lemma viewed_update [keeps_intro]: "keeps (viewed v) (update_global_block_body_commitments x r)"
  by (auto simp: keeps_def update_global_block_body_commitments_def viewed_def view_update_first split: if_splits)

lemma viewed_store_block_body [keeps_intro]: "keeps (viewed v) (store_block_body x d r persist)"
  unfolding store_block_body_def by (intro keeps_intro keeps_modify) (simp_all add: viewed_def)

lemma viewed_own_body [keeps_intro]: "keeps (viewed v) (store_own_body x d k b)"
  by (auto simp: store_own_body_def intro: keeps_intro split: option.split)

lemma viewed_set_body [keeps_intro]: "keeps (viewed v) (write_blocks (set_body_at k body))"
  by (rule keeps_write) (simp add: viewed_def view_set_body_at)

lemma viewed_existing: "keeps (viewed v) (store_existing x d k b)"
proof -
  have "keeps (viewed v) (complete_block x d k b e)" for e
    by (auto simp: complete_block_def split: option.split intro!: keeps_intro)
  then have "keeps (viewed v) (with_read_guard (complete_block x d k b e))" for e
    by (rule keeps_guard) (auto simp: viewed_def)
  then show ?thesis unfolding keeps_def store_existing_def by (auto simp: net_return_def split: option.splits if_splits)
qed

subsection \<open>Storing a block\<close>

lemma fresh_effect:
  assumes "store_fresh x d k b s = Some (r, t)"
  shows "view (cc_blocks t) = view (cc_blocks s) \<or>
    (\<exists>c. commit_block x k b s = Inr c \<and> validate_global_block_insert x c s = Inr () \<and>
       view (cc_blocks t) = view (trim_blocks (height_insert k c (cc_blocks s))))"
proof -
  consider "t = s" | c where "commit_block x k b s = Inr c" "validate_global_block_insert x c s = Inr ()"
      "net_bind (persist_global_block d c) (\<lambda>_.
       net_bind (write_blocks (\<lambda>m. trim_blocks (height_insert k c m))) (\<lambda>_.
       net_bind (store_own_body x d k c) (\<lambda>_. net_modify (raise_synced_height k)))) s = Some (r, t)"
    using assms unfolding store_fresh_def by (auto simp: net_bind_Some net_of_def)
  then show ?thesis
  proof cases
    case (2 c)
    have keep: "cc_blocks u = cc_blocks s" if "persist_global_block d c s = Some (q, u)" for q u
      using that by (auto simp: persist_global_block_def append_line_def Let_def split: option.splits)
    have tail: "keeps (viewed v) (net_bind (store_own_body x d k c) (\<lambda>_. net_modify (raise_synced_height k)))" for v
      by (intro keeps_intro keeps_modify) (simp_all add: viewed_def raise_synced_height_def set_global_synced_height_def)
    from 2(3) have "view (cc_blocks t) = view (cc_blocks s) \<or> view (cc_blocks t) = view (trim_blocks (height_insert k c (cc_blocks s)))"
    proof (cases rule: net_bindE)
      case (fail e)
      show ?thesis by (simp only: keep [OF fail(1)] simp_thms)
    next
      case (ok a u)
      note u = keep [OF ok(1)]
      from ok(2) show ?thesis
      proof (cases rule: net_bindE)
        case (fail e)
        from fail(1) show ?thesis by (simp add: write_blocks_def split: if_splits)
      next
        case (ok a' v)
        have "viewed (view (trim_blocks (height_insert k c (cc_blocks u)))) v"
          using ok(1) by (auto simp: write_blocks_def viewed_def split: if_splits)
        from keepsD [OF tail ok(2) this] show ?thesis by (simp add: viewed_def u)
      qed
    qed
    then show ?thesis using 2(1,2) by auto
  qed simp
qed

lemma existing_FalseD:
  assumes "store_existing x d k b s = Some (Inr False, t)"
  shows "t = s \<and> (\<forall>e. global_block_by_number k s = Some e \<longrightarrow> block_hash e \<noteq> block_hash b)"
proof -
  have "complete_block x d k b e u = Some (Inr q, v) \<Longrightarrow> q" for e u q v
    by (auto simp: complete_block_def net_return_def net_bind_Some split: option.splits)
  then show ?thesis using assms
    by (auto simp: store_existing_def with_read_guard_def net_return_def split: option.splits if_splits)
qed

lemma linkedD: "linked l \<Longrightarrow> 2 \<le> n \<Longrightarrow> l (n - 1) = Some p \<Longrightarrow> l n = Some c \<Longrightarrow> follows p c"
  unfolding linked_def by blast

lemma linked_insert:
  assumes "linked l" "l h = None" "2 \<le> h \<Longrightarrow> \<exists>p. l (h - 1) = Some p \<and> follows p c"
  shows "linked (l(h \<mapsto> c))"
proof -
  have a: "l n = None" if "2 \<le> n" "n - 1 = h" for n
    using that assms(1,2) unfolding linked_def by blast
  have n: "n - 1 \<noteq> n" for n :: u64 by simp
  show ?thesis unfolding linked_def
  proof (intro conjI allI impI)
    fix n :: u64
    assume "2 \<le> n" "(l(h \<mapsto> c)) n \<noteq> None"
    then show "(l(h \<mapsto> c)) (n - 1) \<noteq> None"
      using assms a unfolding linked_def fun_upd_apply by (cases "n = h") (auto split: if_splits)
  next
    fix n :: u64 and p q
    assume "2 \<le> n" "(l(h \<mapsto> c)) (n - 1) = Some p" "(l(h \<mapsto> c)) n = Some q"
    then show "follows p q"
      using assms(3) a [of n] n [of n] linkedD [OF assms(1), of n p q] unfolding fun_upd_apply
      by (cases "n = h") (auto split: if_splits)
  qed
qed

lemma links_height_insert: "sorted_wrt (<) (heights m) \<Longrightarrow> links (height_insert k b m) = (links m)(k \<mapsto> link_of b)"
  by (simp add: links_def fun_eq_iff map_of_height_insert)

lemma length_height_insert: "length (height_insert k b m) \<le> length m + 1"
  by (induction k b m rule: height_insert.induct) auto

lemma trim_blocks_id: "length m \<le> MAX_GLOBAL_BLOCKS \<Longrightarrow> trim_blocks m = m"
  by (simp add: trim_blocks_drop)

lemma linked_to_follows:
  "validate_block_against_parent x (bk_header p) (bk_header c) = Inr () \<Longrightarrow> follows (link_of p) (link_of c)"
  unfolding validate_block_against_parent_def header_contents_iff linked_to_def follows_def link_of_def block_hash_def
  by (auto split: if_splits)

definition sealed_block :: "block_externals \<Rightarrow> Block \<Rightarrow> bool" where
  "sealed_block x b \<longleftrightarrow> (\<forall>s c. commit_block x (block_height b) b s = Inr c \<longrightarrow> block_hash c = block_hash b)"

definition grown_at :: "nat \<Rightarrow> ChainCache \<Rightarrow> bool" where
  "grown_at k s \<longleftrightarrow> coherent_at 0 s \<and> linked (links (cc_blocks s)) \<and> length (cc_blocks s) + k \<le> MAX_GLOBAL_BLOCKS"

lemma grown_view:
  assumes "grown_at k s" "coherent_at 0 t" "view (cc_blocks t) = view (cc_blocks s)"
  shows "grown_at k t"
proof -
  have "length (cc_blocks t) = length (cc_blocks s)" using assms(3) by (metis Pair_inject length_map view_def)
  then show ?thesis using assms by (simp add: grown_at_def view_def)
qed

lemma grown_less: "grown_at k s \<Longrightarrow> j \<le> k \<Longrightarrow> grown_at j s"
  by (simp add: grown_at_def)

lemma insert_validD:
  assumes "validate_global_block_insert x c s = Inr ()" "global_block_by_number (block_height c) s = None" "2 \<le> block_height c"
  shows "\<exists>p. global_block_by_number (block_height c - 1) s = Some p \<and> follows (link_of p) (link_of c)"
proof -
  have h: "block_height c \<noteq> 0" "block_height c \<noteq> 1" "saturating_sub (block_height c) 1 = block_height c - 1"
    using assms(3) by (auto simp: saturating_sub_def word_le_nat_alt)
  then show ?thesis using assms(1,2) linked_to_follows [of x]
    by (auto simp: validate_global_block_insert_def Let_def protocol_error_def result_simps split: option.splits sum.splits)
qed

lemma store_block_grown:
  assumes "grown_at (k + 1) s" "sealed_block x b" "global_store_block x d b s = Some (r, t)"
  shows "grown_at k t"
proof -
  let ?h = "block_height b"
  have c: "coherent_at 0 t" using keepsD [OF keeps_store_block assms(3)] assms(1) by (simp add: grown_at_def)
  have g: "grown_at k s" using assms(1) by (rule grown_less) simp
  from assms(3) have "view (cc_blocks t) = view (cc_blocks s) \<or>
      (\<exists>e. block_height e = ?h \<and> global_block_by_number ?h s = None \<and> validate_global_block_insert x e s = Inr () \<and>
         view (cc_blocks t) = view (trim_blocks (height_insert ?h e (cc_blocks s))))"
    unfolding global_store_block_def Let_def
  proof (cases rule: net_bindE)
    case (fail e)
    then show ?thesis using keepsD [OF viewed_existing fail(1)] by (auto simp: viewed_def)
  next
    case (ok stored u)
    have v: "view (cc_blocks u) = view (cc_blocks s)" using keepsD [OF viewed_existing ok(1)] by (simp add: viewed_def)
    show ?thesis
    proof (cases stored)
      case True
      then show ?thesis using ok(2) v by (simp add: net_return_def)
    next
      case False
      then have u: "u = s" "\<forall>e. global_block_by_number ?h s = Some e \<longrightarrow> block_hash e \<noteq> block_hash b"
        using existing_FalseD [of x d ?h b s u] ok(1) by auto
      have f: "store_fresh x d ?h b s = Some (r, t)" using ok(2) False u(1) by simp
      have "global_block_by_number ?h s = None" if "commit_block x ?h b s = Inr e" "validate_global_block_insert x e s = Inr ()" for e
        using that u(2) assms(2) commit_block_height [OF that(1)]
        by (auto simp: sealed_block_def validate_global_block_insert_def Let_def split: option.splits if_splits)
      then show ?thesis using fresh_effect [OF f] commit_block_height by blast
    qed
  qed
  then show ?thesis
  proof
    assume "view (cc_blocks t) = view (cc_blocks s)"
    then show ?thesis by (rule grown_view [OF g c])
  next
    assume "\<exists>e. block_height e = ?h \<and> global_block_by_number ?h s = None \<and> validate_global_block_insert x e s = Inr () \<and>
         view (cc_blocks t) = view (trim_blocks (height_insert ?h e (cc_blocks s)))"
    then obtain e where e: "block_height e = ?h" "global_block_by_number ?h s = None" "validate_global_block_insert x e s = Inr ()"
      and v: "view (cc_blocks t) = view (trim_blocks (height_insert ?h e (cc_blocks s)))" by blast
    have l: "length (height_insert ?h e (cc_blocks s)) + k \<le> MAX_GLOBAL_BLOCKS"
      using length_height_insert [of ?h e "cc_blocks s"] assms(1) by (simp add: grown_at_def)
    then have v: "view (cc_blocks t) = view (height_insert ?h e (cc_blocks s))" using v by (simp add: trim_blocks_id)
    have srt: "sorted_wrt (<) (heights (cc_blocks s))"
      using assms(1) by (simp add: grown_at_def coherent_at_def coherent_def heights_ok_def)
    have "linked ((links (cc_blocks s))(?h \<mapsto> link_of e))"
    proof (rule linked_insert)
      show "linked (links (cc_blocks s))" using assms(1) by (simp add: grown_at_def)
      show "links (cc_blocks s) ?h = None" using e(2) by (simp add: links_def global_block_by_number_def)
      show "\<exists>p. links (cc_blocks s) (?h - 1) = Some p \<and> follows p (link_of e)" if "2 \<le> ?h"
        using insert_validD [OF e(3)] e(1,2) that by (auto simp: links_def global_block_by_number_def simp del: split_paired_Ex)
    qed
    then have "linked (links (cc_blocks t))" using v srt by (simp add: view_def links_height_insert)
    moreover have "length (cc_blocks t) = length (height_insert ?h e (cc_blocks s))"
      using v by (metis Pair_inject length_map view_def)
    ultimately show ?thesis using l c by (simp add: grown_at_def)
  qed
qed

subsection \<open>Replacement and start-up\<close>

lemma each_grown:
  assumes "grown_at (k + length bs) s" "\<forall>b \<in> set bs. sealed_block x b" "net_each (global_store_block x d) bs s = Some (r, t)"
  shows "grown_at k t"
  using assms
proof (induction bs arbitrary: s)
  case Nil
  then show ?case by (simp add: net_return_def)
next
  case (Cons b bs)
  from Cons.prems(3) have "net_bind (global_store_block x d b) (\<lambda>_. net_each (global_store_block x d) bs) s = Some (r, t)" by simp
  then show ?case
  proof (cases rule: net_bindE)
    case (fail e)
    show ?thesis by (rule store_block_grown [OF grown_less [OF Cons.prems(1)] _ fail(1)]) (use Cons.prems(2) in auto)
  next
    case (ok a u)
    have "grown_at (k + length bs) u"
      by (rule store_block_grown [OF grown_less [OF Cons.prems(1)] _ ok(1)]) (use Cons.prems(2) in auto)
    then show ?thesis using Cons.IH Cons.prems(2) ok(2) by simp
  qed
qed

lemma map_of_below: "map_of (filter (\<lambda>(k, _). P k) m) n = (if P n then map_of m n else None)"
  by (induction m) auto

lemma split_off_blocks [simp]: "cc_blocks (split_off k s) = filter (\<lambda>(n, _). n < k) (cc_blocks s)"
  by (simp add: split_off_def Let_def)

lemma linked_below:
  assumes "linked l"
  shows "linked (\<lambda>n. if n < k then l n else None)"
proof -
  have "n - 1 < k" if "n < k" "2 \<le> n" for n :: u64
  proof -
    have "n - 1 < n" using that(2) by (simp add: word_le_nat_alt word_less_nat_alt unat_sub)
    then show ?thesis using that(1) by simp
  qed
  then show ?thesis using assms unfolding linked_def by (auto split: if_splits simp del: split_paired_All split_paired_Ex)
qed

lemma split_off_grown: "grown_at n s \<Longrightarrow> grown_at n (split_off k s)"
proof -
  assume g: "grown_at n s"
  have "links (cc_blocks (split_off k s)) = (\<lambda>n. if n < k then links (cc_blocks s) n else None)"
    using map_of_below [of "\<lambda>n. n < k" "cc_blocks s"] by (simp add: links_def fun_eq_iff)
  moreover have "length (cc_blocks (split_off k s)) \<le> length (cc_blocks s)" by simp
  moreover have "coherent_at 0 (split_off k s)" using g by (simp add: grown_at_def coherent_at_split_off)
  ultimately show ?thesis
    using g linked_below [of "links (cc_blocks s)" k] unfolding grown_at_def by (simp del: split_off_blocks)
qed

lemma replace_grown:
  assumes "grown_at (length bs) s" "\<forall>b \<in> set bs. sealed_block x b" "global_replace_block_chain x d bs s = Some (r, t)"
  shows "grown_at 0 t"
proof (cases "bs = []")
  case True
  then show ?thesis using assms by (simp add: global_replace_block_chain_def net_return_def)
next
  case False
  have l: "grown_at (0 + length bs) (split_off k s)" "grown_at 0 s" for k
    using assms(1) split_off_grown grown_less by fastforce+
  from assms(3) False have "t = s \<or> net_each (global_store_block x d) bs (split_off (block_height (hd bs)) s) = Some (r, t)"
    by (auto simp: global_replace_block_chain_def net_bind_Some net_of_def net_modify_def split: if_splits)
  then show ?thesis using each_grown [OF l(1) assms(2)] l(2) by blast
qed

lemma as_u64_next: "u256_wf a \<Longrightarrow> as_u64 (u256_add a u256_one) = as_u64 a + 1"
proof -
  assume a: "u256_wf a"
  have "be_value (u256_add a u256_one) mod 2 ^ 64 = (be_value a + 1) mod 2 ^ 64"
    using u256_add_value [OF a, of u256_one] by (simp add: mod_mod_cancel)
  then show ?thesis
    using unat_as_u64 [OF a] unat_as_u64 [OF u256_add_value(1) [OF a, of u256_one]]
    by (simp add: word_unat_eq_iff unat_word_ariths mod_simps)
qed

definition linked_but_first :: "(u64 \<times> Block) list \<Rightarrow> bool" where
  "linked_but_first m \<longleftrightarrow>
     (\<forall>n \<in> set (heights (tl m)). n - 1 \<in> set (heights m) \<and>
        (\<forall>p c. links m (n - 1) = Some p \<longrightarrow> links m n = Some c \<longrightarrow> follows p c))"

lemma linked_but_firstD: "linked_but_first m \<Longrightarrow> n \<in> set (heights (tl m)) \<Longrightarrow>
   n - 1 \<in> set (heights m) \<and> (\<forall>p c. links m (n - 1) = Some p \<longrightarrow> links m n = Some c \<longrightarrow> follows p c)"
  unfolding linked_but_first_def by blast

lemma links_Cons: "links ((k, b) # m) n = (if n = k then Some (link_of b) else links m n)"
  by (simp add: links_def)

lemma links_keys: "links m n \<noteq> None \<longleftrightarrow> n \<in> set (heights m)"
  by (simp add: links_def map_of_eq_None_iff del: not_None_eq)

lemma pairs_linked:
  assumes "heights_ok m" "validate_pairs x (map snd m) = Inr ()" "\<forall>b \<in> set (map snd m). u256_wf (h_number (bk_header b))"
  shows "linked_but_first m"
  using assms
proof (induction m)
  case Nil
  then show ?case by (simp add: linked_but_first_def)
next
  case (Cons p m)
  obtain k b where p: "p = (k, b)" by (cases p)
  show ?case
  proof (cases m)
    case Nil
    then show ?thesis by (simp add: linked_but_first_def)
  next
    case (Cons q m')
    obtain j c where q: "q = (j, c)" by (cases q)
    have v: "validate_block_against_parent x (bk_header b) (bk_header c) = Inr ()" "validate_pairs x (map snd m) = Inr ()"
      using Cons.prems(2) unfolding p Cons q by (simp_all add: result_simps)
    have ok: "heights_ok m" "k \<notin> set (heights m)" "block_height b = k" "block_height c = j"
      using Cons.prems(1) unfolding p Cons q by (auto simp: heights_ok_def)
    have "h_number (bk_header c) = u256_add (h_number (bk_header b)) u256_one"
      using v(1) unfolding validate_block_against_parent_def header_contents_iff linked_to_def by blast
    then have j: "j = k + 1"
      using ok(3,4) as_u64_next [of "h_number (bk_header b)"] Cons.prems(3) unfolding p block_height_def by simp
    have ih: "linked_but_first m" using Cons.IH ok(1) v(2) Cons.prems(3) by simp
    show ?thesis unfolding linked_but_first_def
    proof
      fix n
      assume n: "n \<in> set (heights (tl (p # m)))"
      show "n - 1 \<in> set (heights (p # m)) \<and>
        (\<forall>u v. links (p # m) (n - 1) = Some u \<longrightarrow> links (p # m) n = Some v \<longrightarrow> follows u v)"
      proof (cases "n = j")
        case True
        then show ?thesis
          using linked_to_follows [OF v(1)] ok(2) n unfolding p Cons q links_Cons j by auto
      next
        case False
        then have "n \<in> set (heights (tl m))" using n unfolding p Cons q by auto
        from linked_but_firstD [OF ih this] ok(2) n show ?thesis
          unfolding p links_Cons by auto
      qed
    qed
  qed
qed

lemma rebuild_sorted:
  "heights_ok (m0 @ m) \<Longrightarrow> fold (\<lambda>b. height_insert (block_height b) b) (map snd m) m0 = m0 @ m"
proof (induction m arbitrary: m0)
  case (Cons p m)
  obtain k b where p: "p = (k, b)" by (cases p)
  have "height_insert k b m0 = m0 @ [(k, b)]" if "\<forall>j \<in> set (heights m0). j < k"
    using that by (induction k b m0 rule: height_insert.induct) auto
  then have "height_insert k b m0 = m0 @ [(k, b)]" "block_height b = k"
    using Cons.prems by (auto simp: heights_ok_def p sorted_wrt_append)
  then show ?case using Cons.IH [of "m0 @ [p]"] Cons.prems by (simp add: p)
qed simp

lemma into_block_simps [simp]:
  "block_height (into_block p s) = ps_number p" "u256_wf (h_number (bk_header (into_block p s)))"
  "bk_header (into_block p s) =
     \<lparr>h_version = ps_header_version p, h_parent_hash = ps_parent_hash p, h_uncle_hashes = ps_uncle_hashes p,
      h_coinbase = ps_coinbase p, h_state_root = ps_state_root p, h_transactions_root = ps_transactions_root p,
      h_receipts_root = ps_receipts_root p, h_number = u256_from (ps_number p), h_gas_limit = ps_gas_limit p,
      h_gas_used = ps_gas_used p, h_timestamp = ps_timestamp p, h_difficulty = ps_difficulty p, h_nonce = ps_nonce p,
      h_extra_data = ps_extra_data p, h_mix_hash = ps_mix_hash p, h_base_fee_per_gas = ps_base_fee_per_gas p,
      h_hash = ps_hash p\<rparr>"
proof -
  have "as_u64 (u256_from n) = n" for n
    using unat_as_u64 [of "u256_from n"] unat_word_less [of n] by (simp add: word_unat_eq_iff)
  then show "block_height (into_block p s) = ps_number p" "u256_wf (h_number (bk_header (into_block p s)))"
    by (simp_all add: into_block_def with_body_def block_new_def Let_def block_height_def)
qed (simp add: into_block_def with_body_def block_new_def Let_def)

definition record_blocks :: "PersistedBlockRecord list \<Rightarrow> ChainCache \<Rightarrow> (u64 \<times> Block) list" where
  "record_blocks rs s = fold (\<lambda>r. height_insert (ps_number r) (into_block r s)) rs []"

lemma record_blocks_ok:
  "heights_ok (record_blocks rs s)" "\<forall>b \<in> snd ` set (record_blocks rs s). u256_wf (h_number (bk_header b))"
  "length (record_blocks rs s) \<le> length rs"
proof -
  have "heights_ok m \<Longrightarrow> heights_ok (fold (\<lambda>r. height_insert (ps_number r) (into_block r s)) rs m)" for m
    by (induction rs arbitrary: m) (simp_all add: heights_ok_insert [OF _ into_block_simps(1)])
  moreover have "heights_ok []" by (simp add: heights_ok_def)
  ultimately show "heights_ok (record_blocks rs s)" by (simp add: record_blocks_def)
  have "\<forall>b \<in> snd ` set m. u256_wf (h_number (bk_header b)) \<Longrightarrow>
      \<forall>b \<in> snd ` set (fold (\<lambda>r. height_insert (ps_number r) (into_block r s)) rs m). u256_wf (h_number (bk_header b))" for m
  proof (induction rs arbitrary: m)
    case (Cons r rs)
    have "u256_wf (h_number (bk_header (into_block r s)))" by (rule into_block_simps(2))
    then have "\<forall>b \<in> snd ` set (height_insert (ps_number r) (into_block r s) m). u256_wf (h_number (bk_header b))"
      using Cons.prems set_height_insert [of "ps_number r" "into_block r s" m] by (auto simp del: into_block_simps(3))
    then show ?case using Cons.IH by simp
  qed simp
  from this [of "[]"] show "\<forall>b \<in> snd ` set (record_blocks rs s). u256_wf (h_number (bk_header b))"
    by (simp add: record_blocks_def del: into_block_simps)
  have "length (fold (\<lambda>r. height_insert (ps_number r) (into_block r s)) rs m) \<le> length m + length rs" for m
  proof (induction rs arbitrary: m)
    case (Cons r rs)
    then show ?case using length_height_insert [of "ps_number r" "into_block r s" m] by (simp add: le_trans [OF Cons])
  qed simp
  from this [of "[]"] show "length (record_blocks rs s) \<le> length rs" by (simp add: record_blocks_def)
qed

lemma load_records_length: "load_records parse version kind path i ls = Inr rs \<Longrightarrow> length rs \<le> length ls"
proof (induction parse version kind path i ls arbitrary: rs rule: load_records.induct)
  case (2 parse version kind path i line rest)
  then show ?case
    by (auto simp: result_simps le_SucI split: if_splits sum.splits)
qed simp

lemma case_unit_Inr: "(case r of Inl e \<Rightarrow> Inl (f e) | Inr (u :: unit) \<Rightarrow> Inr a) = Inr b \<longleftrightarrow> r = Inr () \<and> a = b"
  by (cases r) auto

lemma loaded_blocks:
  assumes "load_persisted_blocks x d path s = Inr bs" "\<And>ls. cc_files s path = Some ls \<Longrightarrow> length ls \<le> N"
  obtains m where "bs = map snd m" "heights_ok m" "length m \<le> N" "linked (links m)"
proof (cases "cc_files s path")
  case None
  then have "bs = map snd []" using assms(1) by (simp add: load_persisted_blocks_def)
  then show thesis by (rule that) (simp_all add: heights_ok_def linked_def links_def)
next
  case (Some ls)
  then obtain rs where r: "load_records (parse_block d) ps_version ''block'' path 0 ls = Inr rs"
      and b: "bs = map snd (record_blocks rs s)" and v: "validate_persisted_block_chain x bs = Inr ()"
    using assms(1) by (auto simp: load_persisted_blocks_def record_blocks_def result_simps Let_def case_unit_Inr split: option.splits)
  let ?m = "record_blocks rs s"
  have l: "length ?m \<le> N"
    using record_blocks_ok(3) [of rs s] load_records_length [OF r] assms(2) [OF Some] by linarith
  have "linked (links ?m)"
  proof (cases ?m)
    case Nil
    then show ?thesis by (simp add: linked_def links_def)
  next
    case (Cons p m)
    then have f: "block_height (snd p) = fst p" using record_blocks_ok(1) [of rs s] by (auto simp: heights_ok_def)
    have "fst p = 0 \<or> fst p = 1"
      using v f unfolding b Cons validate_persisted_block_chain_def
      by (auto simp: Let_def result_simps block_height_def split: if_splits)
    then have nf: "n \<noteq> fst p" if "2 \<le> n" for n using that by (auto simp: word_le_nat_alt)
    have "linked_but_first ?m"
    proof (rule pairs_linked [OF record_blocks_ok(1)])
      show "validate_pairs x (map snd ?m) = Inr ()"
        using v unfolding b Cons validate_persisted_block_chain_def by (auto simp: Let_def result_simps)
      show "\<forall>b \<in> set (map snd ?m). u256_wf (h_number (bk_header b))" using record_blocks_ok(2) [of rs s] by simp
    qed
    note lf = linked_but_firstD [OF this]
    have tl: "n \<in> set (heights (tl ?m))" if "2 \<le> n" "n \<in> set (heights ?m)" for n
      using that nf Cons by auto
    show ?thesis unfolding linked_def links_keys
    proof (intro conjI allI impI)
      fix n :: u64 and p c
      assume n: "2 \<le> n" "links ?m (n - 1) = Some p" "links ?m n = Some c"
      then have "n \<in> set (heights ?m)" using links_keys [of ?m n] by (simp only: option.distinct(2) simp_thms)
      from lf [OF tl [OF n(1) this]] n(2,3) show "follows p c" by blast
    qed (use lf [OF tl] in blast)
  qed
  then show thesis using that [OF b record_blocks_ok(1) l] by simp
qed

lemma keeps_files_bodies: "keeps (\<lambda>s. cc_files s = f) (load_bodies x d path)"
proof -
  have b: "cc_files (remove_block_bodies hs s) = cc_files s" "cc_files (replace_body r s) = cc_files s"
    "cc_files (index_block_receipts rs s) = cc_files s" for hs r rs s
    by (simp_all add: remove_block_bodies_def remove_block_receipts_def replace_body_def index_block_receipts_def Let_def split: option.split)
  have "keeps (\<lambda>s. cc_files s = f) (net_modify (insert_body r))" for r
    by (rule keeps_modify) (simp add: insert_body_steps Let_def b)
  moreover have "keeps (\<lambda>s. cc_files s = f) (update_global_block_body_commitments x r)" for r
    by (auto simp: keeps_def update_global_block_body_commitments_def split: if_splits)
  ultimately have "keeps (\<lambda>s. cc_files s = f) (store_block_body x d r False)" for r
    unfolding store_block_body_def by (auto intro!: keeps_intro)
  then show ?thesis unfolding load_bodies_def by (intro keeps_intro)
qed

lemma load_blocks_grown:
  assumes "grown_at 0 s" "cc_blocks s = []" "\<And>ls. cc_files s path = Some ls \<Longrightarrow> length ls \<le> MAX_GLOBAL_BLOCKS"
    "load_blocks x d path s = Some (r, t)"
  shows "grown_at 0 t"
proof -
  have c: "coherent_at 0 t" using keepsD [OF keeps_load_blocks assms(4)] assms(1) by (simp add: grown_at_def)
  show ?thesis
  proof (cases "load_persisted_blocks x d path s")
    case (Inl e)
    then show ?thesis using assms(1,4) by (auto simp: load_blocks_def net_of_def net_bind_def)
  next
    case (Inr bs)
    obtain m where m: "bs = map snd m" "heights_ok m" "length m \<le> MAX_GLOBAL_BLOCKS" "linked (links m)"
      using loaded_blocks [OF Inr assms(3)] by metis
    have w: "trim_blocks (fold (\<lambda>b. height_insert (block_height b) b) bs (cc_blocks s)) = m"
      using rebuild_sorted [of "[]" m] m(1,2,3) assms(2) by (simp add: trim_blocks_id)
    have tail: "keeps (viewed v) (net_bind (net_get (\<lambda>s. map snd (cc_blocks s))) (\<lambda>snapshot.
       net_bind (net_each (\<lambda>b. store_own_body x d (block_height b) b) snapshot) (\<lambda>_.
       net_modify (\<lambda>s. set_global_synced_height (max (cc_synced_height s) h) s))))" for v h
      by (intro keeps_intro keeps_modify) (simp_all add: viewed_def set_global_synced_height_def)
    show ?thesis
    proof (cases "bs = []")
      case True
      then show ?thesis using assms(1,4) Inr by (simp add: load_blocks_def net_of_def net_bind_def net_return_def)
    next
      case False
      have r: "cc_readers s = 0" using assms(1) by (simp add: grown_at_def coherent_at_def)
      from assms(4) Inr False have "viewed (view m) t"
        unfolding load_blocks_def Let_def
      proof (cases rule: net_bindE)
        case (fail e)
        then show ?thesis using Inr by (simp add: net_of_def)
      next
        case (ok a u)
        then have u: "u = s" "a = bs" using Inr by (simp_all add: net_of_def)
        from ok(2) have "net_bind (write_blocks (\<lambda>m. trim_blocks (fold (\<lambda>b. height_insert (block_height b) b) bs m))) (\<lambda>_.
            net_bind (net_get (\<lambda>s. map snd (cc_blocks s))) (\<lambda>snapshot.
            net_bind (net_each (\<lambda>b. store_own_body x d (block_height b) b) snapshot) (\<lambda>_.
            net_modify (\<lambda>s. set_global_synced_height (max (cc_synced_height s) (fold (\<lambda>b m. max m (block_height b)) bs 0)) s)))) s = Some (r, t)"
          unfolding u using False by simp
        then show ?thesis
        proof (cases rule: net_bindE)
          case (fail e)
          then show ?thesis using r by (simp add: write_blocks_def)
        next
          case (ok a' v)
          then have "viewed (view m) v" using r w by (auto simp: write_blocks_def viewed_def)
          then show ?thesis using keepsD [OF tail ok(2)] by blast
        qed
      qed
      then have v: "view (cc_blocks t) = view m" by (simp add: viewed_def)
      then have "length (cc_blocks t) = length m" by (metis Pair_inject length_map view_def)
      then show ?thesis using c m v by (simp add: grown_at_def view_def)
    qed
  qed
qed

lemma load_bodies_grown:
  assumes "grown_at k s" "load_bodies x d path s = Some (r, t)"
  shows "grown_at k t" "cc_files t = cc_files s" "cc_blocks s = [] \<Longrightarrow> cc_blocks t = []"
proof -
  have k: "keeps (viewed v) (load_bodies x d path)" for v
    unfolding load_bodies_def by (intro keeps_intro)
  have v: "view (cc_blocks t) = view (cc_blocks s)" using keepsD [OF k assms(2)] by (simp add: viewed_def)
  show "grown_at k t"
    using keepsD [OF keeps_load_bodies assms(2)] assms(1) by (intro grown_view [OF assms(1) _ v]) (simp add: grown_at_def)
  show "cc_files t = cc_files s" using keepsD [OF keeps_files_bodies assms(2)] by simp
  show "cc_blocks s = [] \<Longrightarrow> cc_blocks t = []" using v by (simp add: view_def)
qed

lemma grown_fields:
  "grown_at k (s\<lparr>cc_block_path := p, cc_body_path := q\<rparr>) = grown_at k s"
  by (simp add: grown_at_def)

lemma configure_grown:
  assumes "grown_at 0 s" "cc_blocks s = []" "\<And>p ls. cc_files s p = Some ls \<Longrightarrow> length ls \<le> MAX_GLOBAL_BLOCKS"
    "configure_global_block_persistence x d path s = Some (r, t)"
  shows "grown_at 0 t"
proof -
  let ?s = "s\<lparr>cc_block_path := path, cc_body_path := map_option (derive_block_body_sidecar_path d) path\<rparr>"
  have g: "grown_at 0 ?s" using assms(1) by (simp add: grown_fields)
  consider "t = ?s" | p where "net_bind (load_bodies x d (derive_block_body_sidecar_path d p)) (\<lambda>_. load_blocks x d p) ?s = Some (r, t)"
    using assms(4) by (auto simp: configure_global_block_persistence_def net_bind_Some net_modify_def net_return_def net_of_def split: option.splits)
  then show ?thesis
  proof cases
    case (2 p)
    then show ?thesis
    proof (cases rule: net_bindE)
      case (fail e)
      then show ?thesis using load_bodies_grown(1) [OF g] by blast
    next
      case (ok a u)
      note u = load_bodies_grown [OF g ok(1)]
      show ?thesis
        by (rule load_blocks_grown [OF u(1) _ _ ok(2)]) (use u(2,3) assms(2,3) in auto)
    qed
  qed (simp add: g)
qed

subsection \<open>Sequences of calls without eviction\<close>

text \<open>A call fits when the blocks it offers carry the hash of their final header, there is room for them, and start-up
  finds no blocks in memory and no more lines in a file than there is room for.\<close>

fun fits :: "block_externals \<Rightarrow> chain_call \<Rightarrow> ChainCache \<Rightarrow> bool" where
  "fits x (StoreBlock b) s \<longleftrightarrow> sealed_block x b \<and> length (cc_blocks s) < MAX_GLOBAL_BLOCKS"
| "fits x (StoreBlockWithBody b body) s \<longleftrightarrow> sealed_block x (b\<lparr>bk_body := Some body\<rparr>) \<and> length (cc_blocks s) < MAX_GLOBAL_BLOCKS"
| "fits x (ReplaceChain bs) s \<longleftrightarrow> list_all (sealed_block x) bs \<and> length (cc_blocks s) + length bs \<le> MAX_GLOBAL_BLOCKS"
| "fits x (ConfigurePersistence p) s \<longleftrightarrow> cc_blocks s = [] \<and> (\<forall>q ls. cc_files s q = Some ls \<longrightarrow> length ls \<le> MAX_GLOBAL_BLOCKS)"
| "fits x c s \<longleftrightarrow> True"

inductive grown :: "block_externals \<Rightarrow> disk \<Rightarrow> ChainCache \<Rightarrow> bool" for x d where
  start: "grown x d (cache_new\<lparr>cc_files := files\<rparr>)"
| call: "grown x d s \<Longrightarrow> fits x c s \<Longrightarrow> perform x d c s = Some (r, t) \<Longrightarrow> grown x d t"

lemma grown_room: "grown_at 0 s \<Longrightarrow> length (cc_blocks s) + k \<le> MAX_GLOBAL_BLOCKS \<Longrightarrow> grown_at k s"
  by (simp add: grown_at_def)

lemma perform_grown:
  assumes "grown_at 0 s" "fits x c s" "perform x d c s = Some (r, t)"
  shows "grown_at 0 t"
proof -
  have c: "coherent_at 0 t" using keepsD [OF keeps_perform assms(3)] assms(1) by (simp add: grown_at_def)
  show ?thesis
  proof (cases c)
    case (StoreBlock b)
    have "grown_at (0 + 1) s" by (rule grown_room [OF assms(1)]) (use assms(2) StoreBlock in auto)
    then show ?thesis by (rule store_block_grown [where x = x and d = d and b = b and r = r]) (use assms(2,3) StoreBlock in auto)
  next
    case (StoreBlockWithBody b body)
    have "grown_at (0 + 1) s" by (rule grown_room [OF assms(1)]) (use assms(2) StoreBlockWithBody in auto)
    then show ?thesis
      by (rule store_block_grown [where x = x and d = d and b = "b\<lparr>bk_body := Some body\<rparr>" and r = r])
        (use assms(2,3) StoreBlockWithBody in \<open>auto simp: global_store_block_with_body_def\<close>)
  next
    case (StoreBlockBody q)
    then have "global_store_block_body x d q s = Some (r, t)" using assms(3) by simp
    then have "view (cc_blocks t) = view (cc_blocks s)"
      using keepsD [OF viewed_store_block_body] by (auto simp: global_store_block_body_def viewed_def)
    then show ?thesis by (rule grown_view [OF assms(1) c])
  next
    case (ReplaceChain bs)
    have "grown_at (length bs) s" by (rule grown_room [OF assms(1)]) (use assms(2) ReplaceChain in auto)
    then show ?thesis by (rule replace_grown [where x = x and d = d and bs = bs and r = r]) (use assms(2,3) ReplaceChain in \<open>auto simp: list_all_iff\<close>)
  next
    case (ConfigurePersistence p)
    show ?thesis by (rule configure_grown [OF assms(1), where x = x and d = d and path = p and r = r]) (use assms(2,3) ConfigurePersistence in auto)
  next
    case ResetCache
    then have "cc_blocks t = []" using assms(3) by (auto simp: net_modify_def global_reset_sync_cache_def)
    then show ?thesis using c by (simp add: grown_at_def linked_def links_def)
  qed (use assms c in \<open>auto simp: net_modify_def grown_at_def configure_global_block_activation_height_def
      set_global_synced_height_def global_record_account_def global_replace_accounts_def global_record_compute_tx_def
      global_replace_compute_txs_def Let_def split: prod.splits\<close>)
qed

lemma grown_grown_at: "grown x d s \<Longrightarrow> grown_at 0 s"
proof (induction rule: grown.induct)
  case (start files)
  have "reached x d (cache_new\<lparr>cc_files := files\<rparr>)" by (rule reached.start)
  from reached_coherent [OF this] show ?case
    by (simp add: grown_at_def cache_new_def linked_def links_def)
qed (rule perform_grown)

text \<open>C28: While no block is evicted, every stored block from height two on has a stored predecessor, names its hash (or the
  predecessor has the hash zero) and is not older, whatever replacements, failed calls and restarts have happened.\<close>

theorem canonical_blocks_linked:
  assumes "grown x d s" "2 \<le> n" "global_block_by_number n s = Some c"
  shows "\<exists>p. global_block_by_number (n - 1) s = Some p \<and>
    (h_parent_hash (bk_header c) = block_hash p \<or> block_hash p = 0) \<and> h_timestamp (bk_header p) \<le> h_timestamp (bk_header c)"
proof -
  have l: "linked (links (cc_blocks s))" using grown_grown_at [OF assms(1)] by (simp add: grown_at_def)
  have c: "links (cc_blocks s) n = Some (link_of c)" using assms(3) by (simp add: links_def global_block_by_number_def)
  then have "links (cc_blocks s) (n - 1) \<noteq> None" using l assms(2) unfolding linked_def by (metis option.distinct(1))
  then obtain p where p: "global_block_by_number (n - 1) s = Some p" by (auto simp: links_def global_block_by_number_def)
  then have "links (cc_blocks s) (n - 1) = Some (link_of p)" by (simp add: links_def global_block_by_number_def)
  from linkedD [OF l assms(2) this c] p show ?thesis by (auto simp: follows_def link_of_def)
qed

subsection \<open>A chain of two blocks\<close>

lemma store_bodyless:
  assumes "cc_readers s = 0" "cc_activation s = None" "cc_block_path s = None" "bk_body b = None"
    "h_version (bk_header b) < CANONICAL_BLOCK_VERSION" "cc_bodies s (block_hash b) = None"
    "global_block_by_number (block_height b) s = None" "validate_global_block_insert x b s = Inr ()"
  shows "global_store_block x d b s = Some (Inr (),
    raise_synced_height (block_height b) (s\<lparr>cc_blocks := trim_blocks (height_insert (block_height b) b (cc_blocks s))\<rparr>))"
proof -
  have c: "commit_block x (block_height b) b s = Inr b"
    using assms by (simp add: commit_block_def Let_def global_block_body_by_hash_def block_hash_def global_block_requires_body_def
        past_activation_def)
  have e: "store_existing x d (block_height b) b s = Some (Inr False, s)"
    using assms(7) by (simp add: store_existing_def net_return_def)
  show ?thesis
    using assms by (simp add: global_store_block_def Let_def net_bind_def e store_fresh_def net_of_def c check_activation_def
        persist_global_block_def append_line_def write_blocks_def store_own_body_def net_return_def net_modify_def)
qed

abbreviation seal_tiny :: "BlockHeader \<Rightarrow> BlockHeader" where
  "seal_tiny h \<equiv> seal_hash sample_block_externals (h\<lparr>h_mix_hash := compute_pow_hash sample_block_externals h (h_nonce h)\<rparr>)"

definition first_block :: Block where
  "first_block = \<lparr>bk_header = sample_mined, bk_body = None, bk_uncles = []\<rparr>"

definition second_tiny :: BlockHeader where
  "second_tiny = sample_tiny\<lparr>h_number := u256_add u256_one u256_one\<rparr>"

definition second_block :: Block where
  "second_block = \<lparr>bk_header = seal_tiny second_tiny, bk_body = None, bk_uncles = []\<rparr>"

lemma two_block_simps [simp]:
  "bk_header first_block = sample_mined" "bk_body first_block = None"
  "bk_header second_block = seal_tiny second_tiny" "bk_body second_block = None"
  by (simp_all add: first_block_def second_block_def)

lemma block_heights: "block_height first_block = 1" "block_height second_block = 2"
proof -
  have "unat (as_u64 u256_one) = 1" using unat_as_u64 [of u256_one] by simp
  then have "as_u64 u256_one = 1" by (simp add: word_unat_eq_iff)
  moreover from this have "as_u64 (u256_add u256_one u256_one) = 2" using as_u64_next [of u256_one] by simp
  ultimately have "as_u64 u256_one = 1" "as_u64 (u256_add u256_one u256_one) = 2" by simp_all
  then show "block_height first_block = 1" "block_height second_block = 2"
    by (simp_all add: block_height_def sample_mined_def seal_hash_def sample_tiny_def second_tiny_def)
qed

lemma sample_mined_hash: "h_hash sample_mined = 5" "h_version sample_mined = 1" "h_timestamp sample_mined = 0" "h_number sample_mined = u256_one"
  by (simp_all add: sample_mined_def seal_hash_def compute_hash_def sample_tiny_def legacy_mining_root_header_def)

lemma sample_mined_accepted:
  "validate_header_contents sample_block_externals legacy_mining_root_header sample_mined = Inr ()"
  unfolding sample_mined_def by (rule tiny_header_accepted [OF sample_tiny_linked])

lemma second_accepted: "validate_header_contents sample_block_externals sample_mined (bk_header second_block) = Inr ()"
  unfolding two_block_simps
proof (rule tiny_header_accepted)
  show "linked_to sample_block_externals sample_mined second_tiny"
    by (simp add: linked_to_def sample_mined_hash second_tiny_def sample_tiny_def legacy_mining_root_header_def)
  show "h_version second_tiny \<noteq> 0" "length (h_extra_data second_tiny) \<le> MAX_SYNC_EXTRA_DATA_BYTES"
    "h_difficulty second_tiny = u256_from_u128 1"
    using sample_tiny_linked(2-4) by (simp_all add: second_tiny_def)
qed

definition one_block :: ChainCache where
  "one_block = cache_new\<lparr>cc_blocks := [(1, first_block)], cc_synced_height := 1\<rparr>"

definition two_blocks :: ChainCache where
  "two_blocks = cache_new\<lparr>cc_blocks := [(1, first_block), (2, second_block)], cc_synced_height := 2\<rparr>"

lemma store_first: "global_store_block sample_block_externals d first_block cache_new = Some (Inr (), one_block)"
proof -
  have "validate_global_block_insert sample_block_externals first_block cache_new = Inr ()"
    using sample_mined_accepted
    by (simp add: validate_global_block_insert_def block_heights global_block_by_number_def cache_new_def protocol_error_def
        validate_block_against_root_def)
  from store_bodyless [OF _ _ _ _ _ _ _ this] show ?thesis
    by (simp add: cache_new_def one_block_def sample_mined_hash CANONICAL_BLOCK_VERSION_def
        global_block_by_number_def MAX_GLOBAL_BLOCKS_def raise_synced_height_def set_global_synced_height_def block_heights)
qed

lemma store_second: "global_store_block sample_block_externals d second_block one_block = Some (Inr (), two_blocks)"
proof -
  have v: "validate_global_block_insert sample_block_externals second_block one_block = Inr ()"
    using second_accepted
    by (simp add: validate_global_block_insert_def block_heights global_block_by_number_def one_block_def protocol_error_def
        validate_block_against_parent_def saturating_sub_def del: two_block_simps(3))
  have "h_version (bk_header second_block) = 1"
    by (simp add: seal_hash_def second_tiny_def sample_tiny_def legacy_mining_root_header_def)
  then show ?thesis using store_bodyless [OF _ _ _ _ _ _ _ v]
    by (simp add: one_block_def cache_new_def two_blocks_def CANONICAL_BLOCK_VERSION_def
        global_block_by_number_def MAX_GLOBAL_BLOCKS_def raise_synced_height_def set_global_synced_height_def block_heights
        del: two_block_simps(3))
qed

definition sample_disk :: disk where
  "sample_disk =
     \<lparr>set_extension = (\<lambda>p e. p @ ''.'' @ e), create_dir = (\<lambda>_. None), append_error = (\<lambda>_ _. None), read_error = (\<lambda>_. None),
      block_json = (\<lambda>_. ''{}''), parse_block = (\<lambda>_. Inl ''eof''), body_json = (\<lambda>_. ''{}''), parse_body = (\<lambda>_. Inl ''eof'')\<rparr>"

lemma canonical_blocks_linked_witness:
  "\<exists>p. global_block_by_number 1 two_blocks = Some p \<and> h_parent_hash (bk_header second_block) = block_hash p"
proof -
  have sealed: "sealed_block x b" if "bk_body b = None" for x b
    using that by (auto simp: sealed_block_def commit_block_def Let_def block_hash_def body_error_def reconcile_body_commitments_def
        apply_body_commitments_def result_simps split: option.splits sum.splits if_splits)
  have "grown sample_block_externals sample_disk (cache_new\<lparr>cc_files := Map.empty\<rparr>)" by (rule grown.start)
  then have "grown sample_block_externals sample_disk cache_new" by (simp add: cache_new_def)
  then have "grown sample_block_externals sample_disk one_block"
    by (rule grown.call [where c = "StoreBlock first_block" and r = "Inr ()"])
      (simp_all add: sealed store_first, simp add: cache_new_def MAX_GLOBAL_BLOCKS_def)
  then have "grown sample_block_externals sample_disk two_blocks"
    by (rule grown.call [where c = "StoreBlock second_block" and r = "Inr ()"])
      (simp_all add: sealed store_second, simp add: one_block_def MAX_GLOBAL_BLOCKS_def)
  from canonical_blocks_linked [OF this, of 2 second_block] show ?thesis
    by (simp add: two_blocks_def global_block_by_number_def) (simp add: block_hash_def sample_mined_hash)
qed

end
