(* ===== verification/ChainFaults.thy ===== *)
theory ChainFaults
  imports ChainLinks
begin

section \<open>What callers of the canonical chain can rely on, and what goes wrong\<close>

text \<open>
  The coherence of the cache as a property of its readers, the round trip of the persisted records, and the failures of the
  error paths: a body for a block stored without one blocks the caller for ever, a replacement that fails has already
  dropped the tail, a refused body leaves its block stored, a body changes the roots of a header but not its hash, and a
  block without body and with non-empty roots stops the next start.
\<close>

subsection \<open>Coherence\<close>

text \<open>C27: Along every sequence of calls, failed ones included, heights ascend and are those of the blocks, blocks and bodies
  stay within their limits, the order of bodies lists each stored body once, every body is filed under its own hash,
  every indexed receipt belongs to a stored body, and no read guard is left behind.\<close>

theorem chain_cache_coherent:
  assumes "reached x d s"
  shows "sorted_wrt (<) (map fst (cc_blocks s)) \<and> (\<forall>n b. global_block_by_number n s = Some b \<longrightarrow> block_height b = n) \<and>
    length (cc_blocks s) \<le> MAX_GLOBAL_BLOCKS \<and>
    distinct (cc_body_order s) \<and> set (cc_body_order s) = dom (cc_bodies s) \<and> length (cc_body_order s) \<le> MAX_GLOBAL_BLOCK_BODIES \<and>
    (\<forall>h r. global_block_body_by_hash h s = Some r \<longrightarrow> bb_block_hash r = h) \<and>
    (\<forall>t r. global_block_receipt_by_tx_hash t s = Some r \<longrightarrow>
       receipt_key r = t \<and> (\<exists>h rs. global_block_receipts_by_hash h s = Some rs \<and> r \<in> set rs)) \<and>
    cc_readers s = 0"
proof -
  have c: "coherent s" "cc_readers s = 0" using reached_coherent [OF assms] by (auto simp: coherent_at_def)
  have "block_height b = n" if "global_block_by_number n s = Some b" for n b
    using that c(1) by (auto simp: global_block_by_number_def coherent_def heights_ok_def dest: map_of_SomeD)
  moreover have "\<exists>h rs. global_block_receipts_by_hash h s = Some rs \<and> r \<in> set rs" if "cc_receipts s t = Some r" for t r
    using that c(1) by (fastforce simp: coherent_def receipts_ok_def global_block_receipts_by_hash_def global_block_body_by_hash_def)
  ultimately show ?thesis
    using c by (auto simp: coherent_def heights_ok_def bodies_ok_def receipts_ok_def global_block_body_by_hash_def global_block_receipt_by_tx_hash_def)
qed

lemma chain_cache_coherent_witness:
  "length (cc_blocks two_blocks) \<le> MAX_GLOBAL_BLOCKS \<and> global_block_by_number 2 two_blocks = Some second_block \<and> block_height second_block = 2"
proof -
  have "reached sample_block_externals sample_disk (cache_new\<lparr>cc_files := Map.empty\<rparr>)" by (rule reached.start)
  then have "reached sample_block_externals sample_disk cache_new" by (simp add: cache_new_def)
  then have "reached sample_block_externals sample_disk one_block"
    by (rule reached.call [where c = "StoreBlock first_block" and r = "Inr ()"]) (simp add: store_first)
  then have "reached sample_block_externals sample_disk two_blocks"
    by (rule reached.call [where c = "StoreBlock second_block" and r = "Inr ()"]) (simp add: store_second)
  from chain_cache_coherent [OF this] show ?thesis by (auto simp: two_blocks_def global_block_by_number_def)
qed

subsection \<open>A body for a block stored without one\<close>

lemma lookups_readers [simp]:
  "global_block_by_hash h (s\<lparr>cc_readers := n\<rparr>) = global_block_by_hash h s"
  "global_block_by_number k (s\<lparr>cc_readers := n\<rparr>) = global_block_by_number k s"
  "global_block_number_for_hash h (s\<lparr>cc_readers := n\<rparr>) = global_block_number_for_hash h s"
  by (simp_all add: global_block_by_hash_def global_block_by_number_def global_block_number_for_hash_def)

lemma validate_body_readers [simp]:
  "validate_global_block_body_insert x r (s\<lparr>cc_readers := n\<rparr>) = validate_global_block_body_insert x r s"
  by (simp only: validate_global_block_body_insert_def lookups_readers)

text \<open>C29: When a stored block has no body and the same block is offered with one, the call is refused or never returns: the
  body is stored while the read guard of the lookup is alive, and the update of the block waits for the write lock.\<close>

theorem body_for_stored_block_deadlocks:
  assumes "global_block_by_number (block_height b) s = Some e" "block_hash e = block_hash b" "bk_body e = None" "bk_body b = Some body"
  shows "global_store_block x d b s =
    (case validate_global_block_body_insert x (body_record_new (block_height b) (block_hash b) body) s of
       Inl err \<Rightarrow> Some (Inl err, s)
     | Inr _ \<Rightarrow> None)"
proof -
  let ?r = "body_record_new (block_height b) (block_hash b) body" and ?s = "s\<lparr>cc_readers := cc_readers s + 1\<rparr>"
  have u: "update_global_block_body_commitments x ?r t = None" if "cc_readers t = cc_readers s + 1" for t
    using that by (simp add: update_global_block_body_commitments_def)
  have "e \<in> snd ` set (cc_blocks s)"
    using assms(1) by (force simp: global_block_by_number_def dest: map_of_SomeD)
  then have f: "global_block_by_hash (block_hash b) t \<noteq> None" if "cc_blocks t = cc_blocks s" for t
    using that assms(2) by (auto simp: global_block_by_hash_def find_None_iff)
  have "store_block_body x d ?r False ?s =
      (case validate_global_block_body_insert x ?r s of Inl err \<Rightarrow> Some (Inl err, ?s) | Inr _ \<Rightarrow> None)"
    using f [of "insert_body ?r ?s"] u [of "insert_body ?r ?s"]
    by (auto simp: store_block_body_def net_bind_def net_of_def net_return_def net_modify_def net_get_def body_record_new_def split: sum.split)
  then show ?thesis
    using assms by (auto simp: global_store_block_def Let_def net_bind_def store_existing_def complete_block_def with_read_guard_def
        split: sum.split)
qed

definition first_with_body :: Block where
  "first_with_body = first_block\<lparr>bk_body := Some body_empty\<rparr>"

lemma body_for_stored_block_deadlocks_witness:
  "global_store_block sample_block_externals sample_disk first_with_body one_block = None"
proof -
  have h: "block_height first_with_body = 1" "block_hash first_with_body = block_hash first_block" "bk_body first_with_body = Some body_empty"
    using block_heights(1) by (simp_all add: first_with_body_def block_height_def block_hash_def)
  have z: "h_transactions_root sample_mined = 0" "h_receipts_root sample_mined = 0"
    by (simp_all add: sample_mined_def seal_hash_def sample_tiny_def legacy_mining_root_header_def)
  have "validate_global_block_body_insert sample_block_externals (body_record_new 1 (block_hash first_block) body_empty) one_block = Inr ()"
    by (simp add: validate_global_block_body_insert_def Let_def body_record_new_def body_empty_def protocol_error_def one_block_def
        global_block_by_hash_def global_block_by_number_def global_block_number_for_hash_def body_error_def reconcile_body_commitments_def
        apply_body_commitments_def commitment_roots_def compute_transactions_root_def compute_receipts_root_def compute_merkle_root_def
        validate_against_header_def z)
  then show ?thesis
    using body_for_stored_block_deadlocks [of first_with_body one_block first_block body_empty sample_block_externals sample_disk] h
    by (simp add: one_block_def global_block_by_number_def)
qed

subsection \<open>A replacement that fails\<close>

lemma split_off_bodies: "cc_bodies s h = None \<Longrightarrow> cc_bodies (split_off k s) h = None"
  by (simp add: split_off_def Let_def)

lemma split_off_settings [simp]:
  "cc_activation (split_off k s) = cc_activation s" "cc_readers (split_off k s) = cc_readers s"
  by (simp_all add: split_off_def Let_def remove_block_bodies_def remove_block_receipts_def)

lemma block_number_split_off:
  "global_block_by_number n (split_off k s) = (if n < k then global_block_by_number n s else None)"
  using map_of_below [of "\<lambda>n. n < k" "cc_blocks s"] by (simp add: global_block_by_number_def)

lemma store_missing_body:
  assumes "global_block_by_number (block_height b) s = None" "bk_body b = None" "cc_bodies s (block_hash b) = None"
    "global_block_requires_body (block_height b) (h_version (bk_header b)) s"
  shows "\<exists>err. global_store_block x d b s = Some (Inl err, s)"
proof -
  have "store_existing x d (block_height b) b s = Some (Inr False, s)"
    using assms(1) by (simp add: store_existing_def net_return_def)
  moreover have "\<exists>err. commit_block x (block_height b) b s = Inl err"
    using assms by (simp add: commit_block_def Let_def global_block_body_by_hash_def block_hash_def)
  ultimately show ?thesis
    by (cases "check_activation (block_height b) b s") (auto simp: global_store_block_def Let_def net_bind_def store_fresh_def net_of_def)
qed

text \<open>C30: A valid replacement whose first block needs a body and comes without one, as every block rebuilt from a header by
  the synchroniser does, ends with an error after the stored blocks from its height on have been dropped.\<close>

theorem failed_replacement_truncates:
  assumes "validate_global_block_chain_replacement x (b # bs) s = Inr ()" "cc_readers s = 0"
    "bk_body b = None" "cc_bodies s (block_hash b) = None"
    "global_block_requires_body (block_height b) (h_version (bk_header b)) s"
  shows "\<exists>err t. global_replace_block_chain x d (b # bs) s = Some (Inl err, t) \<and>
    (\<forall>n. global_block_by_number n t = (if n < block_height b then global_block_by_number n s else None))"
proof -
  let ?t = "split_off (block_height b) s"
  have "global_block_by_number (block_height b) ?t = None" by (simp add: block_number_split_off)
  moreover have "global_block_requires_body (block_height b) (h_version (bk_header b)) ?t"
    using assms(5) by (simp add: global_block_requires_body_def past_activation_def)
  ultimately obtain err where "global_store_block x d b ?t = Some (Inl err, ?t)"
    using store_missing_body [OF _ assms(3) split_off_bodies [OF assms(4)]] by blast
  then have "global_replace_block_chain x d (b # bs) s = Some (Inl err, ?t)"
    using assms(1,2) by (simp add: global_replace_block_chain_def net_bind_def net_of_def net_modify_def)
  then show ?thesis by (auto simp: block_number_split_off)
qed

definition canonical_block :: Block where
  "canonical_block = block_from_sync_header (sync_header_from_block
     \<lparr>bk_header = seal_tiny (second_tiny\<lparr>h_version := CANONICAL_BLOCK_VERSION\<rparr>), bk_body = None, bk_uncles = []\<rparr>)"

lemma canonical_header: "bk_header canonical_block = seal_tiny (second_tiny\<lparr>h_version := CANONICAL_BLOCK_VERSION\<rparr>)"
proof -
  let ?b = "\<lparr>bk_header = seal_tiny (second_tiny\<lparr>h_version := CANONICAL_BLOCK_VERSION\<rparr>), bk_body = None, bk_uncles = []\<rparr>"
  have n: "u256_wf (u256_add u256_one u256_one)" "be_value (u256_add u256_one u256_one) = 2"
    by (simp_all add: u256_add_value)
  have "header_wf (bk_header ?b)" "transferable (bk_header ?b)"
    using n by (simp_all add: header_wf_def transferable_def seal_hash_def second_tiny_def sample_tiny_def legacy_mining_root_header_def)
  then show ?thesis using reconstructed_header [of "bk_header ?b" ?b] unfolding canonical_block_def by simp
qed

lemma failed_replacement_truncates_witness:
  "\<exists>err t. global_replace_block_chain sample_block_externals sample_disk [canonical_block] two_blocks = Some (Inl err, t) \<and>
     global_block_by_number 1 t = Some first_block \<and> global_block_by_number 2 t = None"
proof -
  have h: "block_height canonical_block = 2"
    using block_heights(2) by (simp add: block_height_def canonical_header seal_hash_def)
  have acc: "validate_header_contents sample_block_externals sample_mined (bk_header canonical_block) = Inr ()"
    unfolding canonical_header
  proof (rule tiny_header_accepted)
    show "linked_to sample_block_externals sample_mined (second_tiny\<lparr>h_version := CANONICAL_BLOCK_VERSION\<rparr>)"
      by (simp add: linked_to_def sample_mined_hash second_tiny_def sample_tiny_def legacy_mining_root_header_def)
    show "h_version (second_tiny\<lparr>h_version := CANONICAL_BLOCK_VERSION\<rparr>) \<noteq> 0"
      "length (h_extra_data (second_tiny\<lparr>h_version := CANONICAL_BLOCK_VERSION\<rparr>)) \<le> MAX_SYNC_EXTRA_DATA_BYTES"
      "h_difficulty (second_tiny\<lparr>h_version := CANONICAL_BLOCK_VERSION\<rparr>) = u256_from_u128 1"
      using sample_tiny_linked(3,4) by (simp_all add: second_tiny_def CANONICAL_BLOCK_VERSION_def)
  qed
  have "validate_global_block_chain_replacement sample_block_externals [canonical_block] two_blocks = Inr ()"
    using acc by (simp add: validate_global_block_chain_replacement_def h two_blocks_def global_block_by_number_def
        saturating_sub_def validate_block_against_parent_def protocol_error_def)
  moreover have "bk_body canonical_block = None" by (simp add: canonical_block_def block_from_sync_header_def)
  moreover have "global_block_requires_body (block_height canonical_block) (h_version (bk_header canonical_block)) two_blocks"
    by (simp add: global_block_requires_body_def canonical_header seal_hash_def)
  moreover have "cc_readers two_blocks = 0" "cc_bodies two_blocks (block_hash canonical_block) = None"
    by (simp_all add: two_blocks_def cache_new_def)
  ultimately obtain err t where "global_replace_block_chain sample_block_externals sample_disk [canonical_block] two_blocks = Some (Inl err, t)"
      "\<forall>n. global_block_by_number n t = (if n < block_height canonical_block then global_block_by_number n two_blocks else None)"
    using failed_replacement_truncates [of sample_block_externals canonical_block "[]" two_blocks sample_disk] by blast
  then show ?thesis by (auto simp: h two_blocks_def global_block_by_number_def)
qed

subsection \<open>Persisted records\<close>

lemma as_u64_back: "u256_wf n \<Longrightarrow> be_value n < 2 ^ 64 \<Longrightarrow> u256_from (as_u64 n) = n"
  by (simp add: u256_from_as_u64)

lemma persisted_number [simp]: "ps_number (persisted_from_block b) = block_height b" "ps_version (persisted_from_block b) = 1"
  "ps_hash (persisted_from_block b) = block_hash b" "ps_body (persisted_from_block b) = bk_body b"
  by (simp_all add: persisted_from_block_def Let_def block_height_def block_hash_def)

text \<open>A block with a number below 2 to the power of 64 is read back from its record with the same header and the body it had;
  a block without a body gets the one stored under its hash, or else an empty one.\<close>

theorem persisted_block_roundtrip:
  assumes "u256_wf (h_number (bk_header b))" "be_value (h_number (bk_header b)) < 2 ^ 64"
  shows "bk_header (into_block (persisted_from_block b) s) = bk_header b \<and>
    bk_body (into_block (persisted_from_block b) s) = Some (case bk_body b of
        Some body \<Rightarrow> body
      | None \<Rightarrow> (case global_block_body_by_hash (block_hash b) s of Some r \<Rightarrow> bb_body r | None \<Rightarrow> body_empty))"
proof
  show "bk_header (into_block (persisted_from_block b) s) = bk_header b"
    using as_u64_back [OF assms] by (cases "bk_header b") (simp add: persisted_from_block_def Let_def)
qed (simp add: into_block_def Let_def with_body_def split: option.split)

lemma persisted_block_roundtrip_witness:
  "bk_header (into_block (persisted_from_block first_block) two_blocks) = sample_mined \<and>
   bk_body (into_block (persisted_from_block first_block) two_blocks) = Some body_empty"
  using persisted_block_roundtrip [of first_block two_blocks]
  by (simp add: sample_mined_hash global_block_body_by_hash_def two_blocks_def cache_new_def)

text \<open>The records of these blocks are read back from their lines.\<close>

definition json_ok :: "disk \<Rightarrow> Block list \<Rightarrow> bool" where
  "json_ok d log \<longleftrightarrow> (\<forall>p \<in> persisted_from_block ` set log. parse_block d (block_json d p) = Inr p \<and> \<not> list_all is_space (block_json d p))"

definition log_lines :: "disk \<Rightarrow> Block list \<Rightarrow> string list" where
  "log_lines d log = map (\<lambda>b. block_json d (persisted_from_block b)) log"

definition last_at :: "u64 \<Rightarrow> Block list \<Rightarrow> Block option" where
  "last_at k log = find (\<lambda>b. block_height b = k) (rev log)"

lemma load_log:
  assumes "json_ok d log"
  shows "load_records (parse_block d) ps_version kind path i (log_lines d log) = Inr (map persisted_from_block log)"
  using assms by (induction log arbitrary: i) (simp_all add: log_lines_def json_ok_def)

lemma map_of_record_blocks:
  "map_of (record_blocks (map persisted_from_block log) s) k =
     map_option (\<lambda>b. into_block (persisted_from_block b) s) (last_at k log)"
proof (induction log rule: rev_induct)
  case (snoc b log)
  have "sorted_wrt (<) (heights (record_blocks (map persisted_from_block log) s))"
    using record_blocks_ok(1) by (simp add: heights_ok_def)
  moreover have "record_blocks (map persisted_from_block (log @ [b])) s =
      height_insert (block_height b) (into_block (persisted_from_block b) s) (record_blocks (map persisted_from_block log) s)"
    by (simp add: record_blocks_def)
  ultimately show ?case using snoc by (simp add: map_of_height_insert last_at_def)
qed (simp add: record_blocks_def last_at_def)

text \<open>What a start from a log that loads finds.\<close>

lemma loaded_log:
  assumes "json_ok d log" "cc_files s path = Some (log_lines d log)" "load_persisted_blocks x d path s = Inr bs"
  shows "bs = map snd (record_blocks (map persisted_from_block log) s) \<and> linked (links (record_blocks (map persisted_from_block log) s))"
proof -
  let ?m = "record_blocks (map persisted_from_block log) s"
  have bs: "bs = map snd ?m"
    using assms by (auto simp: load_persisted_blocks_def load_log Let_def case_unit_Inr record_blocks_def split: option.splits)
  obtain m where m: "bs = map snd m" "heights_ok m" "linked (links m)"
    using loaded_blocks [OF assms(3), of "length (log_lines d log)"] assms(2) by auto
  have "m = zip (map block_height (map snd m)) (map snd m)" if "heights_ok m" for m
    using that by (induction m) (auto simp: heights_ok_def)
  from this [OF m(2)] this [OF record_blocks_ok(1) [of "map persisted_from_block log" s]] have "m = ?m"
    using m(1) bs by metis
  then show ?thesis using bs m(3) by simp
qed

lemma start_refused:
  assumes "\<And>u. cc_files u = cc_files s \<Longrightarrow> cc_blocks u = [] \<Longrightarrow> load_blocks x d path u = Some (r, v) \<Longrightarrow> \<exists>e. r = Inl e"
    "configure_global_block_persistence x d (Some path) s = Some (r, v)" "cc_blocks s = []"
  shows "\<exists>e. r = Inl e"
proof -
  let ?s = "s\<lparr>cc_block_path := Some path, cc_body_path := Some (derive_block_body_sidecar_path d path)\<rparr>"
  consider e where "r = Inl e" | "net_bind (load_bodies x d (derive_block_body_sidecar_path d path)) (\<lambda>_. load_blocks x d path) ?s = Some (r, v)"
    using assms(2) by (auto simp: configure_global_block_persistence_def net_bind_Some net_modify_def net_return_def net_of_def split: option.splits)
  then show ?thesis
  proof cases
    case 2
    then show ?thesis
    proof (cases rule: net_bindE)
      case (ok a u)
      have k: "keeps (viewed w) (load_bodies x d p)" for w p
        unfolding load_bodies_def by (intro keeps_intro)
      have "cc_files u = cc_files s" using keepsD [OF keeps_files_bodies ok(1)] by simp
      moreover have "view (cc_blocks u) = view []" using keepsD [OF k ok(1)] assms(3) by (simp add: viewed_def)
      then have "cc_blocks u = []" by (simp add: view_def)
      ultimately show ?thesis using assms(1) ok(2) by blast
    qed blast
  qed blast
qed

lemma keeps_never:
  assumes "b \<in> set bs" "\<And>s t. f b s \<noteq> Some (Inr (), t)"
  shows "net_each f bs s \<noteq> Some (Inr u, t)"
  using assms(1)
proof (induction bs arbitrary: s)
  case (Cons a bs)
  show ?case
  proof
    assume "net_each f (a # bs) s = Some (Inr u, t)"
    then have "net_bind (f a) (\<lambda>_. net_each f bs) s = Some (Inr u, t)" by simp
    then show False
    proof (cases rule: net_bindE)
      case (ok c v)
      then show ?thesis using Cons assms(2) by (cases "a = b") auto
    qed simp
  qed
qed simp

lemma store_body_version:
  "bd_version body \<noteq> 1 \<Longrightarrow> \<exists>err. store_block_body x d (body_record_new k h body) persist s = Some (Inl err, s)"
  by (simp add: store_block_body_def net_bind_def net_of_def validate_global_block_body_insert_def Let_def body_record_new_def)

lemma start_refuses_version:
  assumes "json_ok d log" "cc_files s path = Some (log_lines d log)" "cc_blocks s = []" "length log \<le> MAX_GLOBAL_BLOCKS"
    "last_at k log = Some c" "bk_body c = Some body" "bd_version body \<noteq> 1"
    "load_blocks x d path s = Some (r, v)"
  shows "\<exists>e. r = Inl e"
proof (rule ccontr)
  assume "\<not> (\<exists>e. r = Inl e)"
  then have r: "r = Inr ()" by (cases r) auto
  let ?m = "record_blocks (map persisted_from_block log) s"
  from assms(8) obtain bs u where bs: "load_persisted_blocks x d path s = Inr bs" and
    b: "(if bs = [] then net_return () else
       let max_height = fold (\<lambda>b m. max m (block_height b)) bs 0 in
       net_bind (write_blocks (\<lambda>m. trim_blocks (fold (\<lambda>b. height_insert (block_height b) b) bs m))) (\<lambda>_.
       net_bind (net_get (\<lambda>s. map snd (cc_blocks s))) (\<lambda>snapshot.
       net_bind (net_each (\<lambda>b. store_own_body x d (block_height b) b) snapshot) (\<lambda>_.
       net_modify (\<lambda>s. set_global_synced_height (max (cc_synced_height s) max_height) s))))) s = Some (r, v)"
    unfolding load_blocks_def r by (elim net_bindE) (auto simp: net_of_def)
  note m = loaded_log [OF assms(1,2) bs]
  have l: "length ?m \<le> MAX_GLOBAL_BLOCKS"
    using record_blocks_ok(3) [of "map persisted_from_block log" s] assms(4) by simp
  have w: "trim_blocks (fold (\<lambda>b. height_insert (block_height b) b) bs (cc_blocks s)) = ?m"
    using rebuild_sorted [of "[]" ?m] m record_blocks_ok(1) assms(3) l by (simp add: trim_blocks_id)
  have "map_of ?m k = Some (into_block (persisted_from_block c) s)" using assms(5) by (simp add: map_of_record_blocks)
  then have i: "into_block (persisted_from_block c) s \<in> set (map snd ?m)" by (force dest: map_of_SomeD)
  have never: "store_own_body x d j (into_block (persisted_from_block c) s) t \<noteq> Some (Inr (), t')" for j t t'
  proof -
    have "bk_body (into_block (persisted_from_block c) s) = Some body" using assms(6) by (simp add: into_block_def Let_def with_body_def)
    then show ?thesis using store_body_version [OF assms(7)] by (auto simp: store_own_body_def) (metis Inl_Inr_False Pair_inject option.inject)
  qed
  have "bs \<noteq> []" using i m by auto
  with b have "\<exists>q t. net_each (\<lambda>b. store_own_body x d (block_height b) b) (map snd ?m) q = Some (Inr (), t)"
    unfolding r Let_def by (auto elim!: net_bindE simp: write_blocks_def net_get_def w split: if_splits) blast
  then show False
    using keeps_never [OF i, of "\<lambda>b. store_own_body x d (block_height b) b"] never by blast
qed

definition disk_ok :: "disk \<Rightarrow> bool" where
  "disk_ok d \<longleftrightarrow> (\<forall>p. create_dir d p = None) \<and> (\<forall>p l. append_error d p l = None)"

lemma persist_ok:
  assumes "disk_ok d" "cc_block_path s = Some path" "cc_files s path = Some (log_lines d log)"
  shows "persist_global_block d b s = Some (Inr (), s\<lparr>cc_files := (cc_files s)(path \<mapsto> log_lines d (log @ [b]))\<rparr>)"
  using assms by (simp add: persist_global_block_def append_line_def disk_ok_def log_lines_def)

lemma raise_simps [simp]:
  "cc_files (raise_synced_height k s) = cc_files s" "cc_blocks (raise_synced_height k s) = cc_blocks s"
  by (simp_all add: raise_synced_height_def set_global_synced_height_def)

text \<open>C31: A block whose body has a version other than one is refused, but only after it has been written to the file and made
  part of the chain; from then on no start from that file succeeds.  The version comes from the peer.\<close>

theorem unsupported_body_stops_restart:
  assumes "disk_ok d" "json_ok d (log @ [c])" "cc_block_path s = Some path" "cc_files s path = Some (log_lines d log)" "length log < MAX_GLOBAL_BLOCKS"
    "cc_readers s = 0" "length (cc_blocks s) < MAX_GLOBAL_BLOCKS" "sorted_wrt (<) (map fst (cc_blocks s))"
    "global_block_by_number (block_height b) s = None" "check_activation (block_height b) b s = Inr ()"
    "commit_block x (block_height b) b s = Inr c" "validate_global_block_insert x c s = Inr ()"
    "bk_body c = Some body" "bd_version body \<noteq> 1"
  shows "\<exists>err t. global_store_block x d b s = Some (Inl err, t) \<and> global_block_by_number (block_height b) t = Some c \<and>
    (\<forall>u r v. cc_files u = cc_files t \<longrightarrow> cc_blocks u = [] \<longrightarrow>
       configure_global_block_persistence x d (Some path) u = Some (r, v) \<longrightarrow> (\<exists>e. r = Inl e))"
proof -
  let ?k = "block_height b"
  let ?u = "s\<lparr>cc_files := (cc_files s)(path \<mapsto> log_lines d (log @ [c]))\<rparr>"
  let ?t = "?u\<lparr>cc_blocks := height_insert ?k c (cc_blocks s)\<rparr>"
  have trim: "trim_blocks (height_insert ?k c (cc_blocks s)) = height_insert ?k c (cc_blocks s)"
    using length_height_insert [of ?k c "cc_blocks s"] assms(7) by (simp add: trim_blocks_id)
  obtain err where err: "store_own_body x d ?k c ?t = Some (Inl err, ?t)"
    using store_body_version [OF assms(14), of x d ?k "block_hash c" False ?t] assms(13) by (auto simp: store_own_body_def)
  have e: "store_existing x d ?k b s = Some (Inr False, s)" using assms(9) by (simp add: store_existing_def net_return_def)
  have "global_store_block x d b s = Some (Inl err, ?t)"
    using assms(6,10-12) persist_ok [OF assms(1,3,4), of c] err
    by (simp add: global_store_block_def Let_def net_bind_def e store_fresh_def net_of_def write_blocks_def trim)
  moreover have "global_block_by_number ?k ?t = Some c"
    using assms(8) by (simp add: global_block_by_number_def map_of_height_insert)
  moreover have "\<exists>e. r = Inl e" if u: "cc_files u = cc_files ?t" "cc_blocks u = []"
      and r: "configure_global_block_persistence x d (Some path) u = Some (r, v)" for u r v
  proof (rule start_refused [OF _ r u(2)])
    fix w
    assume w: "cc_files w = cc_files u" "cc_blocks w = []" "load_blocks x d path w = Some (r, v)"
    have f: "cc_files w path = Some (log_lines d (log @ [c]))" using w(1) u(1) by simp
    have l: "last_at (block_height c) (log @ [c]) = Some c" by (simp add: last_at_def)
    show "\<exists>e. r = Inl e"
      using start_refuses_version [OF assms(2) f w(2) _ l assms(13,14) w(3)] assms(5) by simp
  qed
  ultimately show ?thesis by blast
qed

text \<open>A replacement shorter than the tail it replaces succeeds but leaves the records of the old tail in the file: from then
  on no start from that file succeeds, because the old block above the new head does not name it.\<close>

theorem shorter_replacement_stops_restart:
  assumes "disk_ok d" "json_ok d (log @ [b])" "cc_block_path s = Some path" "cc_files s path = Some (log_lines d log)"
    "cc_readers s = 0" "cc_activation s = None" "bk_body b = None" "h_version (bk_header b) < CANONICAL_BLOCK_VERSION"
    "cc_bodies s (block_hash b) = None" "validate_global_block_chain_replacement x [b] s = Inr ()" "2 \<le> block_height b"
    "2 \<le> block_height b + 1" "last_at (block_height b + 1) log = Some c" "h_parent_hash (bk_header c) \<noteq> block_hash b" "block_hash b \<noteq> 0"
  shows "\<exists>t. global_replace_block_chain x d [b] s = Some (Inr (), t) \<and>
    (\<forall>u r v. cc_files u = cc_files t \<longrightarrow> cc_blocks u = [] \<longrightarrow>
       configure_global_block_persistence x d (Some path) u = Some (r, v) \<longrightarrow> (\<exists>e. r = Inl e))"
proof -
  let ?k = "block_height b" and ?s = "split_off (block_height b) s"
  have files: "cc_block_path ?s = Some path" "cc_files ?s path = Some (log_lines d log)"
    using assms(3,4) by (simp_all add: split_off_def Let_def remove_block_bodies_def remove_block_receipts_def)
  have h: "?k \<noteq> 0" "?k \<noteq> 1" "saturating_sub ?k 1 = ?k - 1" "?k - 1 < ?k"
    using assms(11) by (auto simp: saturating_sub_def word_le_nat_alt word_less_nat_alt unat_sub)
  obtain p where p: "global_block_by_number (?k - 1) s = Some p" "validate_block_against_parent x (bk_header p) (bk_header b) = Inr ()"
    using assms(10) h by (auto simp: validate_global_block_chain_replacement_def Let_def protocol_error_def result_simps
        split: option.splits sum.splits)
  have none: "global_block_by_number ?k ?s = None" "global_block_by_number (?k - 1) ?s = Some p"
    using p(1) h(4) by (simp_all add: block_number_split_off)
  have v: "validate_global_block_insert x b ?s = Inr ()"
    using none p(2) h by (simp add: validate_global_block_insert_def Let_def protocol_error_def)
  have c: "commit_block x ?k b ?s = Inr b"
    using assms(6-9) split_off_bodies [OF assms(9), of ?k]
    by (simp add: commit_block_def Let_def global_block_body_by_hash_def block_hash_def global_block_requires_body_def past_activation_def)
  have e: "store_existing x d ?k b ?s = Some (Inr False, ?s)" using none by (simp add: store_existing_def net_return_def)
  have "\<exists>t. global_store_block x d b ?s = Some (Inr (), t) \<and> cc_files t = (cc_files ?s)(path \<mapsto> log_lines d (log @ [b]))"
    using assms(5-7) persist_ok [OF assms(1) files, of b]
    by (simp add: global_store_block_def Let_def net_bind_def e store_fresh_def net_of_def check_activation_def c v write_blocks_def
        store_own_body_def net_return_def net_modify_def)
  then obtain t where t: "global_store_block x d b ?s = Some (Inr (), t)" "cc_files t = (cc_files ?s)(path \<mapsto> log_lines d (log @ [b]))"
    by blast
  then have "global_replace_block_chain x d [b] s = Some (Inr (), t)"
    using assms(5,10) by (simp add: global_replace_block_chain_def net_bind_def net_of_def net_modify_def net_return_def)
  moreover have "\<exists>e. r = Inl e" if u: "cc_files u = cc_files t" "cc_blocks u = []"
      and r: "configure_global_block_persistence x d (Some path) u = Some (r, v)" for u r v
  proof (rule start_refused [OF _ r u(2)])
    fix w
    assume w: "cc_files w = cc_files u" "load_blocks x d path w = Some (r, v)"
    have f: "cc_files w path = Some (log_lines d (log @ [b]))" using w(1) u(1) t(2) by simp
    let ?m = "record_blocks (map persisted_from_block (log @ [b])) w"
    have n: "?k \<noteq> ?k + 1" by simp
    have hb: "link_of (into_block (persisted_from_block a) w) = link_of a" for a
      by (simp add: link_of_def block_hash_def) (simp add: persisted_from_block_def Let_def)
    have "links ?m ?k = Some (link_of b)" "links ?m (?k + 1) = Some (link_of c)"
      using assms(13) n unfolding links_def map_of_record_blocks by (simp_all add: last_at_def hb)
    moreover have "\<not> follows (link_of b) (link_of c)" using assms(14,15) by (simp add: follows_def link_of_def)
    ultimately have "\<not> linked (links ?m)" using assms(12) linkedD [of "links ?m" "?k + 1" "link_of b" "link_of c"] by auto
    then obtain e where "load_persisted_blocks x d path w = Inl e"
      using loaded_log [OF assms(2) f] by (cases "load_persisted_blocks x d path w") auto
    then show "\<exists>e. r = Inl e" using w(2) by (auto simp: load_blocks_def net_bind_def net_of_def)
  qed
  ultimately show ?thesis by blast
qed

subsection \<open>Concrete files\<close>

definition odd_block :: Block where
  "odd_block = first_block\<lparr>bk_body := Some (body_empty\<lparr>bd_version := 2\<rparr>)\<rparr>"

lemma odd_block_simps [simp]:
  "bk_header odd_block = sample_mined" "bk_body odd_block = Some (body_empty\<lparr>bd_version := 2\<rparr>)"
  by (simp_all add: odd_block_def)

definition odd_disk :: disk where
  "odd_disk = sample_disk\<lparr>parse_block := (\<lambda>_. Inr (persisted_from_block odd_block))\<rparr>"

definition empty_file :: ChainCache where
  "empty_file = cache_new\<lparr>cc_block_path := Some ''blocks'', cc_files := [''blocks'' \<mapsto> []]\<rparr>"

lemma sample_mined_roots: "h_transactions_root sample_mined = 0" "h_receipts_root sample_mined = 0"
  by (simp_all add: sample_mined_def seal_hash_def sample_tiny_def legacy_mining_root_header_def)

lemma odd_commit: "commit_block sample_block_externals 1 odd_block s = Inr odd_block"
proof -
  let ?x = sample_block_externals
  have roots: "commitment_roots ?x (body_empty\<lparr>bd_version := 2\<rparr>) = \<lparr>roots_transactions = 0, roots_receipts = 0\<rparr>"
    by (simp add: commitment_roots_def compute_transactions_root_def compute_receipts_root_def compute_merkle_root_def body_empty_def)
  have m: "h_mix_hash sample_mined = compute_pow_hash ?x sample_mined (h_nonce sample_mined)"
    by (simp add: sample_mined_def seal_hash_def pow_hash_cong)
  have a: "apply_body_commitments ?x sample_mined (body_empty\<lparr>bd_version := 2\<rparr>) = sample_mined"
    using sample_mined_roots by (simp add: apply_body_commitments_def roots)
  have u: "sample_mined\<lparr>h_mix_hash := compute_pow_hash ?x sample_mined (h_nonce sample_mined)\<rparr> = sample_mined"
    unfolding m [symmetric] by simp
  have h: "sample_mined\<lparr>h_hash := 5\<rparr> = sample_mined" using sample_mined_hash(1) by (metis BlockHeader.surjective BlockHeader.update_convs(17))
  have v: "validate_against_header ?x (body_empty\<lparr>bd_version := 2\<rparr>) sample_mined = Inr ()"
    using sample_mined_roots by (simp add: validate_against_header_def roots) (simp add: body_empty_def)
  show ?thesis
    by (simp add: commit_block_def Let_def reconcile_body_commitments_def sample_mined_roots a u compute_hash_def h v body_error_def)
qed

lemma unsupported_body_stops_restart_witness:
  "\<exists>err t. global_store_block sample_block_externals odd_disk odd_block empty_file = Some (Inl err, t) \<and>
     global_block_by_number 1 t = Some odd_block"
proof -
  let ?x = sample_block_externals
  have h: "block_height odd_block = 1" using block_heights(1) by (simp add: block_height_def)
  have v: "validate_global_block_insert ?x odd_block empty_file = Inr ()"
    using sample_mined_accepted
    by (simp add: validate_global_block_insert_def h global_block_by_number_def empty_file_def cache_new_def protocol_error_def
        validate_block_against_root_def)
  have "json_ok odd_disk ([] @ [odd_block])" by (simp add: json_ok_def odd_disk_def sample_disk_def is_space_def)
  from unsupported_body_stops_restart [OF _ this, of empty_file "''blocks''" odd_block ?x "body_empty\<lparr>bd_version := 2\<rparr>"] v
  show ?thesis
    by (auto simp: h odd_commit disk_ok_def odd_disk_def sample_disk_def empty_file_def cache_new_def log_lines_def MAX_GLOBAL_BLOCKS_def
        global_block_by_number_def check_activation_def)
qed

definition old_third :: Block where
  "old_third = \<lparr>bk_header = second_tiny\<lparr>h_number := u256_from 3, h_parent_hash := 6\<rparr>, bk_body = None, bk_uncles = []\<rparr>"

definition two_disk :: disk where
  "two_disk = sample_disk\<lparr>block_json := (\<lambda>p. if ps_number p = 3 then ''3'' else ''2''),
     parse_block := (\<lambda>l. Inr (persisted_from_block (if l = ''3'' then old_third else second_block)))\<rparr>"

definition old_file :: ChainCache where
  "old_file = two_blocks\<lparr>cc_block_path := Some ''blocks'', cc_files := [''blocks'' \<mapsto> [''3'']]\<rparr>"

lemma shorter_replacement_stops_restart_witness:
  "\<exists>t. global_replace_block_chain sample_block_externals two_disk [second_block] old_file = Some (Inr (), t) \<and>
     (\<forall>v. configure_global_block_persistence sample_block_externals two_disk (Some ''blocks'') (cache_new\<lparr>cc_files := cc_files t\<rparr>) \<noteq>
        Some (Inr (), v))"
proof -
  let ?x = sample_block_externals
  have h: "block_height old_third = 3"
    using unat_as_u64 [of "u256_from 3"] by (simp add: old_third_def block_height_def word_unat_eq_iff)
  have hash: "block_hash second_block = 5" "h_version (bk_header second_block) = 1"
    by (simp_all add: block_hash_def seal_hash_def compute_hash_def second_tiny_def sample_tiny_def legacy_mining_root_header_def)
  have "json_ok two_disk ([old_third] @ [second_block])"
    by (simp add: json_ok_def two_disk_def sample_disk_def is_space_def h block_heights del: two_block_simps(3))
  moreover have "validate_global_block_chain_replacement ?x [second_block] old_file = Inr ()"
    using second_accepted
    by (simp add: validate_global_block_chain_replacement_def block_heights old_file_def two_blocks_def global_block_by_number_def
        saturating_sub_def validate_block_against_parent_def protocol_error_def del: two_block_simps(3))
  moreover have "last_at (block_height second_block + 1) [old_third] = Some old_third" "h_parent_hash (bk_header old_third) = 6"
    by (simp_all add: last_at_def h block_heights) (simp add: old_third_def)
  moreover have "disk_ok two_disk" "cc_files old_file ''blocks'' = Some (log_lines two_disk [old_third])"
    by (simp_all add: disk_ok_def two_disk_def sample_disk_def old_file_def log_lines_def h)
  ultimately obtain t where t: "global_replace_block_chain ?x two_disk [second_block] old_file = Some (Inr (), t)"
      "\<forall>u r v. cc_files u = cc_files t \<longrightarrow> cc_blocks u = [] \<longrightarrow>
         configure_global_block_persistence ?x two_disk (Some ''blocks'') u = Some (r, v) \<longrightarrow> (\<exists>e. r = Inl e)"
    using shorter_replacement_stops_restart [of two_disk "[old_third]" second_block old_file "''blocks''" ?x old_third] hash block_heights(2)
    by (auto simp: old_file_def two_blocks_def cache_new_def CANONICAL_BLOCK_VERSION_def simp del: two_block_simps(3))
  have "configure_global_block_persistence ?x two_disk (Some ''blocks'') (cache_new\<lparr>cc_files := cc_files t\<rparr>) \<noteq> Some (Inr (), v)" for v
  proof
    assume c: "configure_global_block_persistence ?x two_disk (Some ''blocks'') (cache_new\<lparr>cc_files := cc_files t\<rparr>) = Some (Inr (), v)"
    have "cc_files (cache_new\<lparr>cc_files := cc_files t\<rparr>) = cc_files t" "cc_blocks (cache_new\<lparr>cc_files := cc_files t\<rparr>) = []"
      by (simp_all add: cache_new_def)
    from t(2) [rule_format, OF this c] show False by simp
  qed
  then show ?thesis using t(1) by blast
qed

end
