(* ===== verification/Spec2Isabelle.thy ===== *)
theory Spec2Isabelle
  imports Signing Gas Batch Chain Governance Account Stark Enhance BlockTime TrieRemove StoreUpkeep ChainFaults
begin

text \<open>
  Verification of the RabbitChain node (\<open>src/crates\<close>): the compute layer and the block layer of
  the crate \<open>rabbitcore\<close>, with its accounts and its governance, the crate \<open>zk\<close>, the stores of
  \<open>rabbitstore\<close> and the canonical chain of \<open>rabbitnet\<close>.

  The program.  A client signs a \<open>ComputeTx\<close> that consumes versioned object outputs and proposes
  new ones.  The batch service (\<open>compute/batch.rs\<close>) queues it in lanes (\<open>compute/scheduler.rs\<close>),
  plans conflict-free groups from the access sets of the transactions, and runs each with the
  executor (\<open>compute/execution.rs\<close>): the validator checks structure, lineage, lifecycle and replay
  nonces, the policies (\<open>compute/policy.rs\<close>) check signatures and conservation of assets, and the
  object store commits the outputs.  Fees follow \<open>compute/gas.rs\<close>.  Blocks (\<open>block/mod.rs\<close>) carry
  transactions and receipts under Merkle roots; \<open>consensus/mod.rs\<close> checks proof of work and sets
  difficulty and reward, over the 256-bit integers of \<open>account/account.rs\<close>; \<open>blockchain/\<close> stores the blocks that pass
  both and chooses the best one.  Accounts and UTXOs (\<open>account/\<close>) and the proposals of
  \<open>governance.rs\<close> are state machines of their own.  The crate \<open>zk\<close> proves the results of
  computations that are not repeated on the chain, with a low-degree test over a field of 64 bits.
  The state executor (\<open>state/executor.rs\<close>) settles the transactions of a block over balances (\<open>state/mod.rs\<close>) and
  the rules of a game (\<open>game.rs\<close>).

  The theories.
  \<^item> \<open>Prelude\<close>: results and loops with early return, saturating and checked machine integers,
    big-endian bytes, prefix codes, decimal text.
  \<^item> \<open>Objects\<close>: identifiers, resources, ownership, outputs, errors, domains (\<open>primitives.rs\<close>,
    \<open>object.rs\<close>, \<open>error.rs\<close>, \<open>domain.rs\<close>, \<open>agent.rs\<close>) and the third-party functions.
  \<^item> \<open>Tx\<close>, \<open>Signing\<close>: the transaction and its signing bytes (\<open>tx.rs\<close>); the bytes determine
    everything but id and witness.
  \<^item> \<open>Gas\<close>: gas estimate, base fee and fee validation (\<open>gas.rs\<close>); closed form, refinement of the
    EIP-1559 rule on natural numbers, bounds.
  \<^item> \<open>Policy\<close>: authorisation and resource policies (\<open>policy.rs\<close>); owners consent, no asset is created.
  \<^item> \<open>Store\<close>: the \<open>ObjectStore\<close> trait as a record of operations, its contract as the locales
    \<open>object_store\<close> and \<open>reorg_store\<close>, interpreted on the in-memory store.
  \<^item> \<open>Execution\<close>, \<open>Validation\<close>, \<open>Ledger\<close>: validator, replay registry and executor; what validation
    guarantees, refinement of a ledger, atomicity, no double spend, conservation of supply.
  \<^item> \<open>Scheduler\<close>, \<open>Locality\<close>, \<open>Workers\<close>, \<open>Batch\<close>: lanes, planner, runner and outcome cache.  The planner partitions
    its input.  A worker thread is a program of single accesses to the store and the threads of a group interleave
    between them; a group has the outcomes and the ledger of running its transactions one after the other.
  \<^item> \<open>U256\<close>: the 256-bit arithmetic of the node, compared with natural numbers.
  \<^item> \<open>Block\<close>, \<open>Mining\<close>: headers, bodies, receipts, Merkle roots, difficulty controller, proof of work.
  \<^item> \<open>Consensus\<close>: the consensus engine, and where it departs from the header check.
  \<^item> \<open>Chain\<close>: block store, best-block rule, fork choice and synchroniser (\<open>blockchain/\<close>); stored
    blocks descend from the genesis block, and what the best-block rule and the number index do.
  \<^item> \<open>Account\<close>: the account state machine, balances, UTXO operations and the in-memory manager
    (\<open>account/\<close>) and the address and signature functions of \<open>crypto.rs\<close>.
  \<^item> \<open>Governance\<close>: proposals, votes, execution and the treasury (\<open>governance.rs\<close>).
  \<^item> \<open>Game\<close>: the operations of the game domain, their verification, battles and rewards (\<open>game.rs\<close>).
  \<^item> \<open>WorldState\<close>, \<open>Settlement\<close>: tokens and balances (\<open>assets.rs\<close>, \<open>state/mod.rs\<close>), and the checks and
    commits that settle transactions and blocks (\<open>state/executor.rs\<close>).
  \<^item> \<open>Supply\<close>, \<open>Unsigned\<close>, \<open>BlockTime\<close>: what settlement does.  The locale \<open>settlement_steps\<close> carries a relation
    across the primitive changes to whole blocks; its interpretations bound the supply of every token,
    protect those who pay nothing and show that the state root stays.  Calls without inputs need no
    signature and settle again in every block.
  \<^item> \<open>Nibbles\<close>, \<open>Trie\<close>: nodes, their hex-prefix and RLP form, and the Merkle-Patricia trie over a node
    database (\<open>trie/\<close>); the databases are interpretations of the locale \<open>trie_db\<close>.
  \<^item> \<open>PrefixTree\<close>, \<open>TrieRefine\<close>, \<open>TrieMap\<close>: the trie refines a canonical prefix tree and the tree a map, so the
    root is determined by the contents.
  \<^item> \<open>KeyValue\<close>, \<open>ComputeStore\<close>, \<open>StoreCodec\<close>: the key-value databases of \<open>rabbitstore\<close> (\<open>db/mod.rs\<close>) with their
    contract as a locale, the durable store over them (\<open>compute/mod.rs\<close>), which satisfies the contract
    \<open>reorg_store\<close>, and a concrete codec for its values.
  \<^item> \<open>Durable\<close>, \<open>ReplayStore\<close>, \<open>StoreUpkeep\<close>: execution cannot tell the durable store from the one in memory, replay
    nonces survive restarts, and what rebuilding and pruning keep and delete.
  \<^item> \<open>HeaderCheck\<close>: the header checks of the synchroniser (\<open>rabbitnet/src/sync.rs\<close>) and the messages that carry
    headers (\<open>protocol.rs\<close>): what an accepted header guarantees, and which headers get through without work.
  \<^item> \<open>CanonicalChain\<close>, \<open>ChainStore\<close>, \<open>ChainLinks\<close>, \<open>ChainFaults\<close>: the process-wide chain of \<open>rabbitnet/src/lib.rs\<close> with its
    bodies, receipts, locks and files.  Predicates kept by all operations show that it stays coherent and linked;
    the failures are a deadlock, a lost tail and files no start accepts.
  \<^item> \<open>TrieProofs\<close>, \<open>TrieRemove\<close>: inclusion proofs are right without extensions and forgeable below one;
    removal can delete another key.
  \<^item> \<open>Goldilocks\<close>, \<open>Polynomial\<close>, \<open>NTT\<close>, \<open>Interpolation\<close>: field and polynomials of \<open>zk\<close> (\<open>field.rs\<close>,
    \<open>poly.rs\<close>) and their meaning over the field of integers modulo the prime.
  \<^item> \<open>ZkMerkle\<close>, \<open>Fri\<close>, \<open>Stark\<close>, \<open>Enhance\<close>: commitments, low-degree test and the proofs of the square
    chain, the tower and the enhancement roll (\<open>merkle.rs\<close>, \<open>fri.rs\<close>, \<open>stark.rs\<close>, \<open>tower.rs\<close>,
    \<open>enhance.rs\<close>); the provers are complete, the verifiers are not sound.

  Conventions.  A Rust \<open>Result\<close> is a sum with the error on the left; a panic is \<open>None\<close>.  Machine
  integers keep their width.  A byte array that is only compared, hashed or serialised is a word;
  the arrays of \<open>U256\<close>, whose bytes the code indexes, are lists.  Hash maps are maps, \<open>Vec\<close>s are
  lists, and the lanes of the scheduler, a \<open>BTreeMap\<close>, are a sorted association list.  Loops are
  structural or have a termination proof; the walks through the trie are partial functions, so not returning
  is a result, and so is the decoder of nested nodes, which returns by \<open>decode_node_terminates\<close>.  No function has fuel.  The
  worker threads of a group follow a list of worker numbers, each entry one access to the store at most, and what the list
  leaves undone is done worker by worker, so any list is an interleaving and any interleaving a list.

  Third-party code is a parameter: Keccak, SHA-256, ed25519, hex, \<open>bincode\<close>, \<open>serde_json\<close> and the rules crate of the
  game are fields of \<open>externals\<close>, \<open>block_externals\<close> and \<open>game_externals\<close>.

  Not modelled: the transport, discovery and gossip of \<open>rabbitnet\<close>, RPC and command line, which are I/O around these
  parts; the on-disk databases behind the key-value contract; and \<open>rlp\<close>, which the crate does not compile.
\<close>

end
